(* ===== verification/Prelude.thy ===== *)
theory Prelude
  imports Main "HOL-Library.Word" "HOL-Library.Multiset"
begin

text \<open>
  Prelude of the development: the machine types of the C++ sources, the \<open>Status\<close> and
  \<open>Result\<close> types of \<^verbatim>\<open>include/gfxinfer/status.h\<close>, byte strings, and the
  generic lemmas on words, lists and byte strings that the component theories share.
  The collection \<open>gfx_simps\<close> gathers the unfolding rules that are safe to use everywhere.
\<close>

unbundle bit_operations_syntax

named_theorems gfx_simps

section \<open>Machine types\<close>

type_synonym u8 = "8 word"
type_synonym u16 = "16 word"
type_synonym u32 = "32 word"
type_synonym u64 = "64 word"
type_synonym bytes = "u8 list"

text \<open>
  A \<open>std::string\<close> is a list of \<open>char\<close>; \<open>char\<close> in HOL is one byte. The two functions
  below are the \<open>reinterpret_cast\<close> between character and byte spans.
\<close>

definition byte_of_char :: "char \<Rightarrow> u8" where
  "byte_of_char c = of_nat (of_char c)"

definition char_of_byte :: "u8 \<Rightarrow> char" where
  "char_of_byte b = char_of (unat b)"

definition bytes_of_string :: "string \<Rightarrow> bytes" where
  "bytes_of_string s = map byte_of_char s"

definition string_of_bytes :: "bytes \<Rightarrow> string" where
  "string_of_bytes bs = map char_of_byte bs"

section \<open>Status and Result\<close>

datatype error_code =
    ok_code
  | invalid_argument
  | io_error
  | corrupt_artifact
  | unsupported
  | hip_error
  | out_of_memory
  | internal

datatype status = Status (status_code: error_code) (status_message: string)

definition ok_status :: status where
  "ok_status = Status ok_code []"

definition status_ok :: "status \<Rightarrow> bool" where
  "status_ok s \<longleftrightarrow> status_code s = ok_code"

text \<open>
  \<open>Result<T>\<close> holds either a \<open>T\<close> or a \<open>Status\<close> that is not OK: \<open>Inr\<close> and \<open>Inl\<close>.
  Building a \<open>Result\<close> from an OK status throws; no function of the model does it.
\<close>

type_synonym 'a result = "status + 'a"

abbreviation Err :: "error_code \<Rightarrow> string \<Rightarrow> 'a result" where
  "Err c m \<equiv> Inl (Status c m)"

fun result_bind :: "'a result \<Rightarrow> ('a \<Rightarrow> 'b result) \<Rightarrow> 'b result" where
  "result_bind (Inl e) f = Inl e"
| "result_bind (Inr x) f = f x"

fun result_all :: "('a \<Rightarrow> 'b result) \<Rightarrow> 'a list \<Rightarrow> 'b list result" where
  "result_all f [] = Inr []"
| "result_all f (x # xs) =
     result_bind (f x) (\<lambda>y. result_bind (result_all f xs) (\<lambda>ys. Inr (y # ys)))"

text \<open>A loop over a range that leaves the function on the first error.\<close>

fun result_foldl :: "('s \<Rightarrow> 'a \<Rightarrow> 's result) \<Rightarrow> 's \<Rightarrow> 'a list \<Rightarrow> 's result" where
  "result_foldl f s [] = Inr s"
| "result_foldl f s (x # xs) = result_bind (f s x) (\<lambda>s'. result_foldl f s' xs)"

section \<open>String functions of the standard library\<close>

text \<open>\<open>std::string::find(needle, from)\<close>: the first position from \<open>from\<close> on where the needle
  begins; \<open>npos\<close> is \<open>None\<close>.\<close>

definition is_prefix :: "'a list \<Rightarrow> 'a list \<Rightarrow> bool" where
  "is_prefix p xs \<longleftrightarrow> take (length p) xs = p"

fun find_sub :: "'a list \<Rightarrow> 'a list \<Rightarrow> nat option" where
  "find_sub needle [] = (if needle = [] then Some 0 else None)"
| "find_sub needle (x # xs) =
     (if is_prefix needle (x # xs) then Some 0 else map_option Suc (find_sub needle xs))"

definition char_in :: "char \<Rightarrow> char \<Rightarrow> char \<Rightarrow> bool" where
  "char_in lo hi c \<longleftrightarrow> (of_char lo :: nat) \<le> of_char c \<and> (of_char c :: nat) \<le> of_char hi"

definition max_u32 :: nat where "max_u32 = 2 ^ 32 - 1"
definition max_u64 :: nat where "max_u64 = 2 ^ 64 - 1"
definition max_off_t :: nat where "max_off_t = 2 ^ 63 - 1"

text \<open>\<open>std::to_string\<close> of an unsigned number.\<close>

definition digit_char :: "nat \<Rightarrow> char" where
  "digit_char d = char_of (48 + d)"

fun to_string :: "nat \<Rightarrow> string" where
  "to_string n = (if n < 10 then [digit_char n] else to_string (n div 10) @ [digit_char (n mod 10)])"

declare to_string.simps [simp del]

section \<open>Generic lemmas\<close>

subsection \<open>Results\<close>

lemma status_ok_ok_status [simp]: "status_ok ok_status"
  by (simp add: status_ok_def ok_status_def)

lemma status_ok_Status [simp]: "status_ok (Status c m) \<longleftrightarrow> c = ok_code"
  by (simp add: status_ok_def)

lemma result_bind_Inr [simp]:
  "result_bind r f = Inr y \<longleftrightarrow> (\<exists>x. r = Inr x \<and> f x = Inr y)"
  by (cases r) auto

lemma result_all_Inr:
  "result_all f xs = Inr ys \<longleftrightarrow> list_all2 (\<lambda>x y. f x = Inr y) xs ys"
  by (induction xs arbitrary: ys) (auto simp: list_all2_Cons1)

lemma result_foldl_invariant:
  assumes "\<And>s x s'. x \<in> set xs \<Longrightarrow> I s \<Longrightarrow> f s x = Inr s' \<Longrightarrow> I s'" and "I s"
    and "result_foldl f s xs = Inr s'"
  shows "I s'"
  using assms
proof (induction xs arbitrary: s)
  case (Cons x xs)
  from Cons.prems(3) obtain s1 where s1: "f s x = Inr s1" "result_foldl f s1 xs = Inr s'"
    by auto
  have "I s1"
    using Cons.prems(1) [OF _ Cons.prems(2) s1(1)] by simp
  moreover have "\<And>s x s'. x \<in> set xs \<Longrightarrow> I s \<Longrightarrow> f s x = Inr s' \<Longrightarrow> I s'"
    using Cons.prems(1) by (meson list.set_intros(2))
  ultimately show ?case
    using Cons.IH s1(2) by blast
qed simp

lemma result_foldl_append:
  "result_foldl f s (xs @ ys) = result_bind (result_foldl f s xs) (\<lambda>s'. result_foldl f s' ys)"
proof (induction xs arbitrary: s)
  case (Cons x xs)
  then show ?case
    by (cases "f s x") simp_all
qed simp

lemma result_all_append:
  "result_all f (xs @ ys) = result_bind (result_all f xs) (\<lambda>as. result_bind (result_all f ys) (\<lambda>bs. Inr (as @ bs)))"
proof (induction xs)
  case Nil
  then show ?case
    by (cases "result_all f ys") simp_all
next
  case (Cons x xs)
  then show ?case
    by (cases "f x"; cases "result_all f xs"; cases "result_all f ys") simp_all
qed

lemma result_foldl_total:
  assumes "\<And>s x. x \<in> set xs \<Longrightarrow> I s \<Longrightarrow> \<exists>s'. f s x = Inr s' \<and> I s'" and "I s"
  shows "\<exists>s'. result_foldl f s xs = Inr s' \<and> I s'"
  using assms
proof (induction xs arbitrary: s)
  case (Cons x xs)
  obtain s1 where "f s x = Inr s1" "I s1"
    using Cons.prems(1) [OF _ Cons.prems(2)] by auto
  moreover have "\<exists>s'. result_foldl f s1 xs = Inr s' \<and> I s'"
    by (rule Cons.IH [OF _ \<open>I s1\<close>]) (simp add: Cons.prems(1))
  ultimately show ?case
    by auto
qed simp

subsection \<open>Byte strings\<close>

lemma unat_u8_less [simp]: "unat (b :: u8) < 256"
  using unsigned_less [of b] by simp

lemma char_of_byte_of_char [simp]: "char_of_byte (byte_of_char c) = c"
proof -
  have "(of_char c :: nat) < 256"
    by simp
  then have "unat (of_nat (of_char c) :: u8) = (of_char c :: nat)"
    by (simp add: unat_of_nat)
  then show ?thesis
    by (simp add: char_of_byte_def byte_of_char_def)
qed

lemma byte_of_char_of_byte [simp]: "byte_of_char (char_of_byte b) = b"
proof -
  have "(of_char (char_of (unat b)) :: nat) = unat b"
    by simp
  then have "(of_nat (of_char (char_of (unat b))) :: u8) = b"
    by simp
  then show ?thesis
    by (simp add: char_of_byte_def byte_of_char_def)
qed

lemma string_of_bytes_of_string [simp]: "string_of_bytes (bytes_of_string s) = s"
  by (simp add: string_of_bytes_def bytes_of_string_def comp_def)

lemma bytes_of_string_of_bytes [simp]: "bytes_of_string (string_of_bytes b) = b"
  by (simp add: string_of_bytes_def bytes_of_string_def comp_def)

lemma length_bytes_of_string [simp]: "length (bytes_of_string s) = length s"
  by (simp add: bytes_of_string_def)

lemma length_string_of_bytes [simp]: "length (string_of_bytes b) = length b"
  by (simp add: string_of_bytes_def)

lemma bytes_of_string_append [simp]:
  "bytes_of_string (s @ t) = bytes_of_string s @ bytes_of_string t"
  by (simp add: bytes_of_string_def)

subsection \<open>Exclusive or\<close>

lemma xor_cancel_left: "z XOR x = z XOR y \<longleftrightarrow> x = y" for x y z :: "'a::len word"
proof
  assume "z XOR x = z XOR y"
  then have "z XOR (z XOR x) = z XOR (z XOR y)"
    by (rule arg_cong)
  then show "x = y"
    by (simp only: xor.assoc [symmetric] xor_self_eq xor.left_neutral)
qed simp

lemma xor_cancel_right: "x XOR z = y XOR z \<longleftrightarrow> x = y" for x y z :: "'a::len word"
  using xor_cancel_left [of z x y] by (simp only: xor.commute)

subsection \<open>Slices of a byte string\<close>

text \<open>\<open>slice off n bs\<close> is the span of \<open>n\<close> elements that begins at \<open>off\<close>.\<close>

definition slice :: "nat \<Rightarrow> nat \<Rightarrow> 'a list \<Rightarrow> 'a list" where
  "slice off n bs = take n (drop off bs)"

lemma length_slice [simp]: "length (slice off n bs) = min n (length bs - off)"
  by (simp add: slice_def)

lemma slice_zero [simp]: "slice off 0 bs = []"
  by (simp add: slice_def)

lemma slice_skip: "length xs \<le> off \<Longrightarrow> slice off n (xs @ ys) = slice (off - length xs) n ys"
  by (simp add: slice_def)

lemma slice_head: "length xs = n \<Longrightarrow> slice 0 n (xs @ ys) = xs"
  by (simp add: slice_def)

lemma slice_whole: "length xs = n \<Longrightarrow> slice 0 n xs = xs"
  by (simp add: slice_def)

lemma slice_within_left: "off + n \<le> length xs \<Longrightarrow> slice off n (xs @ ys) = slice off n xs"
  by (simp add: slice_def)

lemma slice_slice:
  "off + n \<le> m \<Longrightarrow> slice off n (slice start m bs) = slice (start + off) n bs"
  by (simp add: slice_def take_drop add.commute)

lemma slice_nth: "off + n \<le> length bs \<Longrightarrow> i < n \<Longrightarrow> slice off n bs ! i = bs ! (off + i)"
  by (simp add: slice_def)

lemma slice_split:
  "slice off (n + m) bs = slice off n bs @ slice (off + n) m bs"
  by (simp add: slice_def take_add add.commute [of off])

lemma slice_eqI:
  "off + n \<le> length xs \<Longrightarrow> length ys = length xs \<Longrightarrow> (\<And>i. off \<le> i \<Longrightarrow> i < off + n \<Longrightarrow> xs ! i = ys ! i)
   \<Longrightarrow> slice off n xs = slice off n ys"
  by (rule nth_equalityI) (simp_all add: slice_nth)

text \<open>Overwriting a span in place, which is also what \<open>pwrite\<close> does inside a file.\<close>

definition overwrite :: "nat \<Rightarrow> 'a list \<Rightarrow> 'a list \<Rightarrow> 'a list" where
  "overwrite off new bs = take off bs @ new @ drop (off + length new) bs"

lemma length_overwrite [simp]:
  "off + length new \<le> length bs \<Longrightarrow> length (overwrite off new bs) = length bs"
  by (simp add: overwrite_def)

lemma overwrite_nil [simp]: "overwrite off [] bs = bs"
  by (simp add: overwrite_def)

lemma nth_overwrite:
  "off + length new \<le> length bs \<Longrightarrow> i < length bs \<Longrightarrow>
   overwrite off new bs ! i = (if off \<le> i \<and> i < off + length new then new ! (i - off) else bs ! i)"
  by (auto simp: overwrite_def nth_append)

lemma slice_overwrite_same:
  "off + length new \<le> length bs \<Longrightarrow> slice off (length new) (overwrite off new bs) = new"
  by (simp add: overwrite_def slice_def)

lemma slice_overwrite_other:
  assumes "off + length new \<le> length bs" and "a + n \<le> length bs"
    and "a + n \<le> off \<or> off + length new \<le> a"
  shows "slice a n (overwrite off new bs) = slice a n bs"
  using assms by (intro slice_eqI) (auto simp: nth_overwrite)

lemma slice_overwrite_inside:
  assumes "off + length new \<le> length bs" and "a \<le> off" and "off + length new \<le> a + n" and "a + n \<le> length bs"
  shows "slice a n (overwrite off new bs) = overwrite (off - a) new (slice a n bs)"
  using assms by (intro nth_equalityI) (auto simp: nth_overwrite slice_nth add.commute)

lemma overwrite_append:
  assumes "off + length xs + length ys \<le> length bs"
  shows "overwrite (off + length xs) ys (overwrite off xs bs) = overwrite off (xs @ ys) bs"
  using assms by (intro nth_equalityI) (auto simp: nth_overwrite nth_append)

lemma overwrite_whole: "length new = length bs \<Longrightarrow> overwrite 0 new bs = new"
  by (simp add: overwrite_def)

lemmas slice_simps = slice_skip slice_head slice_whole

subsection \<open>Pairwise symmetric relations do not depend on the order\<close>

lemma sorted_wrt_mset_eq:
  assumes "symp P" and "mset xs = mset ys" and "sorted_wrt P xs"
  shows "sorted_wrt P ys"
  using assms(2,3)
proof (induction ys arbitrary: xs)
  case Nil
  then show ?case by simp
next
  case (Cons y ys)
  have "y \<in> set xs"
    using Cons.prems(1) by (metis list.set_intros(1) set_mset_mset)
  then obtain us vs where xs: "xs = us @ y # vs"
    by (meson split_list)
  then have m: "mset (us @ vs) = mset ys"
    using Cons.prems(1) by simp
  have "sorted_wrt P (us @ vs)"
    using Cons.prems(2) by (auto simp: xs sorted_wrt_append)
  with Cons.IH m have "sorted_wrt P ys"
    by blast
  moreover have "P y z" if "z \<in> set ys" for z
  proof -
    have "set ys = set us \<union> set vs"
      using m by (metis set_append set_mset_mset)
    with that consider "z \<in> set us" | "z \<in> set vs"
      by blast
    then show ?thesis
    proof cases
      case 1
      then have "P z y"
        using Cons.prems(2) by (auto simp: xs sorted_wrt_append)
      then show ?thesis
        by (rule sympD [OF assms(1)])
    next
      case 2
      then show ?thesis
        using Cons.prems(2) by (auto simp: xs sorted_wrt_append)
    qed
  qed
  ultimately show ?case
    by simp
qed

subsection \<open>Powers of two\<close>

lemma odd_part_exists: "0 < (n :: nat) \<Longrightarrow> \<exists>k m. n = 2 ^ k * (2 * m + 1)"
proof (induction n rule: less_induct)
  case (less n)
  show ?case
  proof (cases "even n")
    case True
    then obtain h where h: "n = 2 * h"
      by blast
    with less.prems have "h < n" "0 < h"
      by simp_all
    with less.IH obtain k m where "h = 2 ^ k * (2 * m + 1)"
      by blast
    then have "n = 2 ^ Suc k * (2 * m + 1)"
      by (simp add: h)
    then show ?thesis
      by blast
  next
    case False
    then obtain m where "n = 2 * m + 1"
      by (elim oddE)
    then have "n = 2 ^ 0 * (2 * m + 1)"
      by simp
    then show ?thesis
      by blast
  qed
qed

definition power_of_two :: "'a::len word \<Rightarrow> bool" where
  "power_of_two a \<longleftrightarrow> a \<noteq> 0 \<and> a AND (a - 1) = 0"

lemma power_of_two_exp:
  assumes "power_of_two (a :: 'a::len word)"
  obtains k where "k < LENGTH('a)" and "unat a = 2 ^ k"
proof -
  have pos: "0 < unat a"
    using assms by (simp add: power_of_two_def unat_gt_0)
  then obtain k m where km: "unat a = 2 ^ k * (2 * m + 1)"
    using odd_part_exists by blast
  have pred: "unat (a - 1) = unat a - 1"
    using assms unat_minus_one [of a] by (simp add: power_of_two_def)
  have "unat (a AND (a - 1)) = unat a AND (unat a - 1)"
    by (simp only: unsigned_and_eq pred)
  then have "unat a AND (unat a - 1) = 0"
    using assms by (simp add: power_of_two_def)
  then have disjoint: "drop_bit (Suc k) (unat a) AND drop_bit (Suc k) (unat a - 1) = 0"
    by (simp only: drop_bit_and [symmetric] drop_bit_of_0)
  have drop: "drop_bit (Suc k) (2 ^ Suc k * m + r) = m" if "r < 2 ^ Suc k" for r :: nat
    using that by (simp add: drop_bit_eq_div del: power_Suc)
  have "unat a = 2 ^ Suc k * m + 2 ^ k" "unat a - 1 = 2 ^ Suc k * m + (2 ^ k - 1)"
    by (simp_all add: km algebra_simps)
  moreover have "2 ^ k < (2::nat) ^ Suc k" "2 ^ k - 1 < (2::nat) ^ Suc k"
    by (simp_all add: less_imp_diff_less)
  ultimately have "drop_bit (Suc k) (unat a) = m" "drop_bit (Suc k) (unat a - 1) = m"
    by (simp_all only: drop)
  with disjoint have "m = 0"
    by simp
  then have "unat a = 2 ^ k"
    by (simp add: km)
  moreover have "k < LENGTH('a)"
  proof -
    have "unat a < 2 ^ LENGTH('a)"
      by (rule unsigned_less)
    with \<open>unat a = 2 ^ k\<close> show ?thesis by simp
  qed
  ultimately show ?thesis
    using that by blast
qed

lemma power_of_two_intro: "k < LENGTH('a) \<Longrightarrow> power_of_two (2 ^ k :: 'a::len word)"
proof -
  assume k: "k < LENGTH('a)"
  have nz: "(2 ^ k :: 'a word) \<noteq> 0"
    using k by (simp add: exp_eq_zero_iff)
  have "(2 ^ k :: 'a word) AND mask k = 0"
    by (rule bit_word_eqI) (auto simp: bit_and_iff bit_exp_iff bit_mask_iff)
  with nz show ?thesis
    by (simp add: power_of_two_def mask_eq_exp_minus_1)
qed

lemma unat_clear_low_bits: "unat (x AND NOT (mask k)) = unat x div 2 ^ k * 2 ^ k"
  for x :: "'a::len word"
proof -
  have "unat (x AND NOT (mask k)) = push_bit k (drop_bit k (unat x))"
    by (rule bit_eqI) (auto simp: bit_unsigned_iff bit_and_iff bit_not_iff bit_mask_iff
        bit_push_bit_iff bit_drop_bit_eq dest: bit_imp_le_length)
  then show ?thesis
    by (simp add: push_bit_eq_mult drop_bit_eq_div)
qed

lemma unat_ucast_u32_u64 [simp]: "unat (ucast (w :: u32) :: u64) = unat w"
proof -
  have "unat w < 2 ^ 32"
    using unsigned_less [of w] by simp
  then show ?thesis
    by (simp add: unsigned_ucast_eq take_bit_nat_eq_self)
qed

lemma word_unat_eqI: "unat a = unat b \<Longrightarrow> a = b"
  by (rule unsigned_word_eqI)

lemma u64_of_nat: "n < 2 ^ 64 \<Longrightarrow> unat (of_nat n :: u64) = n"
  by (simp add: unat_of_nat)

lemma u32_of_nat: "n < 2 ^ 32 \<Longrightarrow> unat (of_nat n :: u32) = n"
  by (simp add: unat_of_nat)

lemma u64_of_nat_add: "a + b < 2 ^ 64 \<Longrightarrow> unat (of_nat a + of_nat b :: u64) = a + b"
  by (metis of_nat_add u64_of_nat)

lemma u64_add: "unat a + unat b < 2 ^ 64 \<Longrightarrow> unat (a + b) = unat a + unat b" for a b :: u64
  by (simp add: unat_add_lem [THEN iffD1])

end
