(* ===== verification/ByteCodec.thy ===== *)
theory ByteCodec
  imports Prelude
begin

text \<open>
  Fixed-width binary encodings. The code writes and reads packed C structs in host byte order,
  which the endian tag of the artifact header pins to little endian. The locale states what every
  fixed-width codec promises; it is interpreted here for the integer widths of the artifact structs
  and, in the artifact format, for the structs themselves.
\<close>

section \<open>Little-endian integers\<close>

definition le_bytes :: "nat \<Rightarrow> 'a::len word \<Rightarrow> bytes" where
  "le_bytes n w = map (\<lambda>i. ucast (drop_bit (8 * i) w)) [0..<n]"

definition le_word :: "bytes \<Rightarrow> 'a::len word" where
  "le_word bs = foldr (\<lambda>b acc. ucast b OR push_bit 8 acc) bs 0"

section \<open>The contract of a fixed-width codec\<close>

locale fixed_codec =
  fixes width :: nat
    and enc :: "'v \<Rightarrow> bytes"
    and dec :: "bytes \<Rightarrow> 'v"
    and valid :: "'v \<Rightarrow> bool"
  assumes enc_length: "valid v \<Longrightarrow> length (enc v) = width"
    and dec_enc: "valid v \<Longrightarrow> dec (enc v) = v"
begin

lemma enc_inject: "valid v \<Longrightarrow> valid w \<Longrightarrow> enc v = enc w \<longleftrightarrow> v = w"
  by (metis dec_enc)

lemma dec_prefix: "valid v \<Longrightarrow> dec (take width (enc v @ rest)) = v"
  by (simp add: enc_length dec_enc)

lemma table_length: "list_all valid vs \<Longrightarrow> length (concat (map enc vs)) = width * length vs"
  by (induction vs) (simp_all add: enc_length)

lemma table_slice:
  "list_all valid vs \<Longrightarrow> i < length vs \<Longrightarrow>
   slice (width * i) width (concat (map enc vs)) = enc (vs ! i)"
proof (induction vs arbitrary: i)
  case Nil
  then show ?case by simp
next
  case (Cons v vs)
  show ?case
  proof (cases i)
    case 0
    with Cons.prems show ?thesis
      by (simp add: enc_length slice_simps)
  next
    case (Suc j)
    with Cons show ?thesis
      by (simp add: enc_length slice_skip)
  qed
qed

lemma table_nth:
  "list_all valid vs \<Longrightarrow> i < length vs \<Longrightarrow>
   dec (slice (width * i) width (concat (map enc vs))) = vs ! i"
  by (simp add: table_slice dec_enc list_all_length)

lemma table_decode:
  "list_all valid vs \<Longrightarrow>
   map (\<lambda>i. dec (slice (width * i) width (concat (map enc vs)))) [0..<length vs] = vs"
  by (rule nth_equalityI) (simp_all add: table_nth)

end

section \<open>The integer widths\<close>

lemma length_le_bytes [simp]: "length (le_bytes n w) = n"
  by (simp add: le_bytes_def)

lemma bit_le_word:
  "bit (le_word bs :: 'a::len word) n
   \<longleftrightarrow> n < LENGTH('a) \<and> n div 8 < length bs \<and> bit (bs ! (n div 8)) (n mod 8)"
proof (induction bs arbitrary: n)
  case Nil
  then show ?case
    by (simp add: le_word_def)
next
  case (Cons b bs)
  have "bit (le_word (b # bs) :: 'a word) n
      \<longleftrightarrow> n < LENGTH('a) \<and> (n < 8 \<and> bit b n \<or> 8 \<le> n \<and> bit (le_word bs :: 'a word) (n - 8))"
    by (auto simp: le_word_def bit_or_iff bit_ucast_iff bit_push_bit_iff dest: bit_imp_le_length)
  also have "\<dots> \<longleftrightarrow> n < LENGTH('a) \<and> n div 8 < length (b # bs) \<and> bit ((b # bs) ! (n div 8)) (n mod 8)"
  proof (cases "n < 8")
    case True
    then show ?thesis by simp
  next
    case False
    then have "n div 8 = Suc ((n - 8) div 8)" "n mod 8 = (n - 8) mod 8"
      by (simp_all add: le_div_geq le_mod_geq)
    with False show ?thesis
      by (auto simp: Cons.IH)
  qed
  finally show ?case .
qed

lemma le_word_bytes:
  "LENGTH('a) = 8 * n \<Longrightarrow> le_word (le_bytes n (w :: 'a::len word)) = w"
proof (rule bit_word_eqI)
  fix i assume n: "LENGTH('a) = 8 * n" and i: "i < LENGTH('a)"
  then have "i div 8 < n" "8 * (i div 8) + i mod 8 = i"
    by simp_all
  then show "bit (le_word (le_bytes n w) :: 'a word) i \<longleftrightarrow> bit w i"
    using i by (simp add: bit_le_word le_bytes_def bit_ucast_iff bit_drop_bit_eq)
qed

lemma fixed_codec_word:
  "LENGTH('a) = 8 * n \<Longrightarrow> fixed_codec n (le_bytes n :: 'a::len word \<Rightarrow> bytes) le_word (\<lambda>_. True)"
  by unfold_locales (simp_all add: le_word_bytes)

interpretation u16_codec: fixed_codec 2 "le_bytes 2 :: u16 \<Rightarrow> bytes" le_word "\<lambda>_. True"
  by (rule fixed_codec_word) simp

interpretation u32_codec: fixed_codec 4 "le_bytes 4 :: u32 \<Rightarrow> bytes" le_word "\<lambda>_. True"
  by (rule fixed_codec_word) simp

interpretation u64_codec: fixed_codec 8 "le_bytes 8 :: u64 \<Rightarrow> bytes" le_word "\<lambda>_. True"
  by (rule fixed_codec_word) simp

lemmas word_codec_simps [simp] =
  u16_codec.dec_enc [OF TrueI] u32_codec.dec_enc [OF TrueI] u64_codec.dec_enc [OF TrueI]

end
