(* ===== verification/ArtifactFormat.thy ===== *)
theory ArtifactFormat
  imports ByteCodec
begin

text \<open>
  The \<^verbatim>\<open>.gfxi\<close> container format: the types of \<^verbatim>\<open>include/gfxinfer/artifact.h\<close>, the two packed
  disk structs of \<^verbatim>\<open>src/artifact.cpp\<close> with their byte encodings, and the helper functions the
  reader and both writers share.
\<close>

section \<open>Public types\<close>

datatype dtype = dt_u8 | dt_i32 | dt_f16 | dt_bf16 | dt_f32

fun dtype_code :: "dtype \<Rightarrow> u16" where
  "dtype_code dt_u8 = 1"
| "dtype_code dt_i32 = 2"
| "dtype_code dt_f16 = 3"
| "dtype_code dt_bf16 = 4"
| "dtype_code dt_f32 = 5"

definition dtype_of_code :: "u16 \<Rightarrow> dtype" where
  "dtype_of_code v =
     (if v = 1 then dt_u8 else if v = 2 then dt_i32 else if v = 3 then dt_f16
      else if v = 4 then dt_bf16 else dt_f32)"

datatype quantization = q_none | w2g128 | w3g128 | w4g128 | w8g128 | fp8_row

fun quantization_code :: "quantization \<Rightarrow> u16" where
  "quantization_code q_none = 0"
| "quantization_code w2g128 = 1"
| "quantization_code w3g128 = 2"
| "quantization_code w4g128 = 3"
| "quantization_code w8g128 = 4"
| "quantization_code fp8_row = 5"

definition quantization_of_code :: "u16 \<Rightarrow> quantization" where
  "quantization_of_code v =
     (if v = 0 then q_none else if v = 1 then w2g128 else if v = 2 then w3g128
      else if v = 3 then w4g128 else if v = 4 then w8g128 else fp8_row)"

record artifact_identity =
  target_arch :: string
  model_id :: string
  weights_id :: string
  recipe_id :: string

record tensor_descriptor =
  td_name :: string
  td_dtype :: dtype
  td_quantization :: quantization
  td_rank :: u16
  td_flags :: u16
  td_alignment :: u32
  td_dimensions :: "u64 list"
  td_data_offset :: u64
  td_data_bytes :: u64
  td_aux_offset :: u64
  td_aux_bytes :: u64
  td_data_crc64 :: u64

record tensor_write_request =
  wr_name :: string
  wr_dtype :: dtype
  wr_quantization :: quantization
  wr_dimensions :: "u64 list"
  wr_data :: bytes
  wr_auxiliary :: bytes
  wr_alignment :: u32

record tensor_write_plan =
  wp_name :: string
  wp_dtype :: dtype
  wp_quantization :: quantization
  wp_dimensions :: "u64 list"
  wp_data_bytes :: u64
  wp_auxiliary_bytes :: u64
  wp_alignment :: u32

fun dtype_name :: "dtype \<Rightarrow> string" where
  "dtype_name dt_u8 = ''u8''"
| "dtype_name dt_i32 = ''i32''"
| "dtype_name dt_f16 = ''f16''"
| "dtype_name dt_bf16 = ''bf16''"
| "dtype_name dt_f32 = ''f32''"

fun quantization_name :: "quantization \<Rightarrow> string" where
  "quantization_name q_none = ''none''"
| "quantization_name w2g128 = ''w2g128''"
| "quantization_name w3g128 = ''w3g128''"
| "quantization_name w4g128 = ''w4g128''"
| "quantization_name w8g128 = ''w8g128''"
| "quantization_name fp8_row = ''fp8-row''"

section \<open>Disk structs\<close>

definition kMagic :: bytes where
  "kMagic = [0x47, 0x46, 0x58, 0x49, 0x0D, 0x0A, 0x1A, 0x0A]"

definition kEndianTag :: u32 where "kEndianTag = 0x01020304"

definition kFileAlignment :: nat where "kFileAlignment = 256"

definition kArtifactVersion :: u32 where "kArtifactVersion = 1"

definition sizeof_DiskHeader :: nat where "sizeof_DiskHeader = 256"

definition sizeof_DiskTensorEntry :: nat where "sizeof_DiskTensorEntry = 128"

record disk_header =
  h_magic :: bytes
  h_version :: u32
  h_header_bytes :: u32
  h_endian_tag :: u32
  h_flags :: u32
  h_directory_offset :: u64
  h_tensor_count :: u32
  h_directory_entry_bytes :: u32
  h_strings_offset :: u64
  h_strings_bytes :: u64
  h_data_offset :: u64
  h_data_bytes :: u64
  h_file_bytes :: u64
  h_manifest_crc64 :: u64
  h_target_arch :: bytes
  h_model_id :: bytes
  h_weights_id :: bytes
  h_recipe_id :: bytes
  h_reserved :: bytes

record disk_tensor_entry =
  e_name_offset :: u64
  e_name_bytes :: u32
  e_dtype :: u16
  e_quantization :: u16
  e_rank :: u16
  e_flags :: u16
  e_alignment :: u32
  e_dimensions :: "u64 list"
  e_data_offset :: u64
  e_data_bytes :: u64
  e_aux_offset :: u64
  e_aux_bytes :: u64
  e_data_crc64 :: u64
  e_reserved :: bytes

text \<open>The array bounds of the struct members.\<close>

definition header_shape :: "disk_header \<Rightarrow> bool" where
  "header_shape h \<longleftrightarrow> length (h_magic h) = 8 \<and> length (h_target_arch h) = 16
     \<and> length (h_model_id h) = 32 \<and> length (h_weights_id h) = 32
     \<and> length (h_recipe_id h) = 64 \<and> length (h_reserved h) = 24"

definition entry_shape :: "disk_tensor_entry \<Rightarrow> bool" where
  "entry_shape e \<longleftrightarrow> length (e_dimensions e) = 4 \<and> length (e_reserved e) = 32"

definition encode_header :: "disk_header \<Rightarrow> bytes" where
  "encode_header h =
     h_magic h @ le_bytes 4 (h_version h) @ le_bytes 4 (h_header_bytes h)
     @ le_bytes 4 (h_endian_tag h) @ le_bytes 4 (h_flags h)
     @ le_bytes 8 (h_directory_offset h) @ le_bytes 4 (h_tensor_count h)
     @ le_bytes 4 (h_directory_entry_bytes h) @ le_bytes 8 (h_strings_offset h)
     @ le_bytes 8 (h_strings_bytes h) @ le_bytes 8 (h_data_offset h)
     @ le_bytes 8 (h_data_bytes h) @ le_bytes 8 (h_file_bytes h)
     @ le_bytes 8 (h_manifest_crc64 h) @ h_target_arch h @ h_model_id h
     @ h_weights_id h @ h_recipe_id h @ h_reserved h"

definition decode_header :: "bytes \<Rightarrow> disk_header" where
  "decode_header bs =
     \<lparr> h_magic = slice 0 8 bs,
       h_version = le_word (slice 8 4 bs),
       h_header_bytes = le_word (slice 12 4 bs),
       h_endian_tag = le_word (slice 16 4 bs),
       h_flags = le_word (slice 20 4 bs),
       h_directory_offset = le_word (slice 24 8 bs),
       h_tensor_count = le_word (slice 32 4 bs),
       h_directory_entry_bytes = le_word (slice 36 4 bs),
       h_strings_offset = le_word (slice 40 8 bs),
       h_strings_bytes = le_word (slice 48 8 bs),
       h_data_offset = le_word (slice 56 8 bs),
       h_data_bytes = le_word (slice 64 8 bs),
       h_file_bytes = le_word (slice 72 8 bs),
       h_manifest_crc64 = le_word (slice 80 8 bs),
       h_target_arch = slice 88 16 bs,
       h_model_id = slice 104 32 bs,
       h_weights_id = slice 136 32 bs,
       h_recipe_id = slice 168 64 bs,
       h_reserved = slice 232 24 bs \<rparr>"

definition encode_entry :: "disk_tensor_entry \<Rightarrow> bytes" where
  "encode_entry e =
     le_bytes 8 (e_name_offset e) @ le_bytes 4 (e_name_bytes e)
     @ le_bytes 2 (e_dtype e) @ le_bytes 2 (e_quantization e)
     @ le_bytes 2 (e_rank e) @ le_bytes 2 (e_flags e) @ le_bytes 4 (e_alignment e)
     @ concat (map (le_bytes 8) (e_dimensions e))
     @ le_bytes 8 (e_data_offset e) @ le_bytes 8 (e_data_bytes e)
     @ le_bytes 8 (e_aux_offset e) @ le_bytes 8 (e_aux_bytes e)
     @ le_bytes 8 (e_data_crc64 e) @ e_reserved e"

definition decode_entry :: "bytes \<Rightarrow> disk_tensor_entry" where
  "decode_entry bs =
     \<lparr> e_name_offset = le_word (slice 0 8 bs),
       e_name_bytes = le_word (slice 8 4 bs),
       e_dtype = le_word (slice 12 2 bs),
       e_quantization = le_word (slice 14 2 bs),
       e_rank = le_word (slice 16 2 bs),
       e_flags = le_word (slice 18 2 bs),
       e_alignment = le_word (slice 20 4 bs),
       e_dimensions = map (\<lambda>i. le_word (slice (8 * i) 8 (slice 24 32 bs))) [0..<4],
       e_data_offset = le_word (slice 56 8 bs),
       e_data_bytes = le_word (slice 64 8 bs),
       e_aux_offset = le_word (slice 72 8 bs),
       e_aux_bytes = le_word (slice 80 8 bs),
       e_data_crc64 = le_word (slice 88 8 bs),
       e_reserved = slice 96 32 bs \<rparr>"

section \<open>Helpers\<close>

definition align_up :: "u64 \<Rightarrow> u64 \<Rightarrow> u64" where
  "align_up value alignment =
     (if alignment = 0 \<or> alignment AND (alignment - 1) \<noteq> 0 then 0
      else let mask = alignment - 1 in
        if value > - 1 - mask then 0 else (value + mask) AND NOT mask)"

definition range_valid :: "u64 \<Rightarrow> u64 \<Rightarrow> u64 \<Rightarrow> bool" where
  "range_valid offset bytes file_bytes \<longleftrightarrow> offset \<le> file_bytes \<and> bytes \<le> file_bytes - offset"

definition fixed_string :: "bytes \<Rightarrow> string" where
  "fixed_string value = string_of_bytes (takeWhile (\<lambda>b. b \<noteq> 0) value)"

definition set_fixed :: "nat \<Rightarrow> string \<Rightarrow> bytes option" where
  "set_fixed N value =
     (if value = [] \<or> length value \<ge> N then None
      else Some (bytes_of_string value @ replicate (N - length value) 0))"

definition valid_name :: "string \<Rightarrow> bool" where
  "valid_name name \<longleftrightarrow>
     name \<noteq> [] \<and> hd name \<noteq> CHR ''/'' \<and> find_sub ''..'' name = None \<and>
     list_all (\<lambda>c. char_in CHR ''a'' CHR ''z'' c \<or> char_in CHR ''A'' CHR ''Z'' c
       \<or> char_in CHR ''0'' CHR ''9'' c \<or> c = CHR ''_'' \<or> c = CHR ''-'' \<or> c = CHR ''.''
       \<or> c = CHR ''/'') name"

definition valid_dtype :: "u16 \<Rightarrow> bool" where
  "valid_dtype value \<longleftrightarrow> value \<ge> dtype_code dt_u8 \<and> value \<le> dtype_code dt_f32"

definition valid_quantization :: "u16 \<Rightarrow> bool" where
  "valid_quantization value \<longleftrightarrow> value \<le> quantization_code fp8_row"

definition errno_status :: "string \<Rightarrow> string \<Rightarrow> string \<Rightarrow> status" where
  "errno_status action path strerror = Status io_error (action @ '' '' @ path @ '': '' @ strerror)"

section \<open>The enumerations survive their disk codes\<close>

lemma dtype_of_code_code [simp]: "dtype_of_code (dtype_code d) = d"
  by (cases d) (simp_all add: dtype_of_code_def)

lemma valid_dtype_code [simp]: "valid_dtype (dtype_code d)"
  by (cases d) (simp_all add: valid_dtype_def)

lemma quantization_of_code_code [simp]: "quantization_of_code (quantization_code q) = q"
  by (cases q) (simp_all add: quantization_of_code_def)

lemma valid_quantization_code [simp]: "valid_quantization (quantization_code q)"
  by (cases q) (simp_all add: valid_quantization_def)

section \<open>Struct codecs\<close>

lemma length_encode_header: "header_shape h \<Longrightarrow> length (encode_header h) = sizeof_DiskHeader"
  by (simp add: header_shape_def encode_header_def sizeof_DiskHeader_def)

lemma decode_encode_header: "header_shape h \<Longrightarrow> decode_header (encode_header h) = h"
  by (cases h) (simp add: header_shape_def encode_header_def decode_header_def slice_simps)

interpretation header_codec: fixed_codec sizeof_DiskHeader encode_header decode_header header_shape
  by unfold_locales (simp_all add: length_encode_header decode_encode_header)

lemma length_concat_le_bytes [simp]: "length (concat (map (le_bytes 8) ws)) = 8 * length ws"
  by (induction ws) simp_all

lemma length_encode_entry: "entry_shape e \<Longrightarrow> length (encode_entry e) = sizeof_DiskTensorEntry"
  by (simp add: entry_shape_def encode_entry_def sizeof_DiskTensorEntry_def)

lemma decode_dimensions:
  fixes ds :: "u64 list"
  shows "length ds = 4 \<Longrightarrow> map (\<lambda>i. le_word (slice (8 * i) 8 (concat (map (le_bytes 8) ds)))) [0..<4] = ds"
  using u64_codec.table_decode [of ds] by (simp add: list_all_length)

lemma decode_encode_entry: "entry_shape e \<Longrightarrow> decode_entry (encode_entry e) = e"
  using decode_dimensions [of "e_dimensions e"]
  by (cases e) (simp add: entry_shape_def encode_entry_def decode_entry_def slice_simps)

interpretation entry_codec: fixed_codec sizeof_DiskTensorEntry encode_entry decode_entry entry_shape
  by unfold_locales (simp_all add: length_encode_entry decode_encode_entry)

section \<open>Alignment\<close>

lemma unat_less_u64: "unat (w :: u64) < 2 ^ 64"
  using unsigned_less [of w] by simp

lemma exp_less_u64: "(2::nat) ^ k < 18446744073709551616 \<longleftrightarrow> k < 64"
  using power_strict_increasing_iff [of "2::nat" k 64] by simp

lemma align_up_exp:
  assumes a: "power_of_two alignment" and k: "unat alignment = 2 ^ k"
    and v: "unat value + (2 ^ k - 1) < 2 ^ 64"
  shows "unat (align_up value alignment) = (unat value + (2 ^ k - 1)) div 2 ^ k * 2 ^ k"
proof -
  have nz: "alignment \<noteq> 0" and and0: "alignment AND (alignment - 1) = 0"
    using a by (simp_all add: power_of_two_def)
  have um: "unat (alignment - 1) = 2 ^ k - 1"
    using nz k unat_minus_one [of alignment] by simp
  have mask: "alignment - 1 = mask k"
  proof -
    have "k < 64"
      using k unat_less_u64 [of alignment] by (simp add: exp_less_u64)
    then have "unat (mask k :: u64) = mask k"
      by (intro bit_eqI) (auto simp: bit_unsigned_iff bit_mask_iff)
    moreover have "(mask k :: nat) = 2 ^ k - 1"
      by (simp add: mask_eq_exp_minus_1)
    ultimately have "unat (alignment - 1) = unat (mask k :: u64)"
      by (simp only: um)
    then show ?thesis
      by (rule unsigned_word_eqI)
  qed
  have um': "unat (- 1 - (alignment - 1) :: u64) = 2 ^ 64 - 2 ^ k"
  proof -
    have "unat (- 1 - (alignment - 1) :: u64) = unat (- 1 :: u64) - unat (alignment - 1)"
      by (rule unat_sub) simp
    then show ?thesis
      by (simp add: um unsigned_minus_1_eq_mask mask_eq_exp_minus_1)
  qed
  have "\<not> - 1 - (alignment - 1) < value"
    using v by (simp only: word_less_nat_alt um')
  then have "align_up value alignment = (value + mask k) AND NOT (mask k)"
    using nz and0 by (simp add: align_up_def Let_def mask)
  moreover have "unat (value + mask k) = unat value + (2 ^ k - 1)"
    using v um mask by (simp add: unat_add_lem [THEN iffD1])
  ultimately show ?thesis
    by (simp add: unat_clear_low_bits)
qed

lemma align_up_overflow:
  assumes a: "power_of_two alignment" and v: "2 ^ 64 \<le> unat value + (unat alignment - 1)"
  shows "align_up value alignment = 0"
proof -
  have pos: "0 < unat alignment"
    using a by (simp add: power_of_two_def unat_gt_0)
  have um: "unat (alignment - 1) = unat alignment - 1"
    using a unat_minus_one [of alignment] by (simp add: power_of_two_def)
  have "unat (- 1 - (alignment - 1) :: u64) = unat (- 1 :: u64) - unat (alignment - 1)"
    by (rule unat_sub) simp
  then have "- 1 - (alignment - 1) < value"
    using v um unat_less_u64 [of "value"] unat_less_u64 [of alignment] pos
    by (simp add: word_less_nat_alt unsigned_minus_1_eq_mask mask_eq_exp_minus_1)
  then show ?thesis
    by (simp add: align_up_def Let_def)
qed

lemma align_up_cases:
  assumes a: "power_of_two alignment"
  obtains (overflow) "2 ^ 64 \<le> unat value + (unat alignment - 1)" "align_up value alignment = 0"
  | (fits) "unat value + (unat alignment - 1) < 2 ^ 64"
      "unat alignment dvd unat (align_up value alignment)"
      "unat value \<le> unat (align_up value alignment)"
      "unat (align_up value alignment) < unat value + unat alignment"
proof (cases "2 ^ 64 \<le> unat value + (unat alignment - 1)")
  case True
  then show ?thesis
    using align_up_overflow [OF a] overflow by blast
next
  case False
  from a obtain k where k: "unat alignment = 2 ^ k"
    by (rule power_of_two_exp)
  let ?r = "(unat value + (2 ^ k - 1)) div 2 ^ k * 2 ^ k"
  have r: "unat (align_up value alignment) = ?r"
    using False k by (intro align_up_exp [OF a]) simp_all
  have "?r + (unat value + (2 ^ k - 1)) mod 2 ^ k = unat value + (2 ^ k - 1)"
    by (rule div_mult_mod_eq)
  moreover have "(unat value + (2 ^ k - 1)) mod 2 ^ k < 2 ^ k"
    by simp
  ultimately have "unat value \<le> ?r" "?r < unat value + 2 ^ k"
    by linarith+
  then show ?thesis
    using False k r by (intro fits) simp_all
qed

text \<open>
  For a power-of-two alignment \<open>align_up\<close> returns the least multiple of the alignment that is
  not below the value, and the error value 0 exactly when that multiple is not computable in
  64 bits without overflow.
\<close>

theorem align_up_correct:
  assumes "power_of_two alignment"
  shows "if unat value + (unat alignment - 1) \<le> max_u64
    then unat alignment dvd unat (align_up value alignment)
      \<and> value \<le> align_up value alignment
      \<and> unat (align_up value alignment) < unat value + unat alignment
    else align_up value alignment = 0"
  using assms
  by (cases rule: align_up_cases [OF assms, of "value"]) (simp_all add: max_u64_def word_le_nat_alt)

theorem align_up_correct_witness:
  "(256::nat) dvd unat (align_up 257 256) \<and> 257 \<le> align_up 257 256
   \<and> unat (align_up 257 256) < 257 + 256"
  using align_up_correct [of 256 257] by (simp add: power_of_two_def max_u64_def)

end
