(* ===== verification/Crc64.thy ===== *)
theory Crc64
  imports Prelude
begin

text \<open>
  CRC64-ECMA of \<^verbatim>\<open>src/artifact.cpp\<close>: the 256-entry table, the byte-wise update and the
  one-shot function. The lemmas show that the table-driven update is the bit-serial polynomial
  division, that the update composes over concatenation, that it is injective in its state, and
  that a change confined to at most eight consecutive bytes always changes the checksum.
\<close>

section \<open>The code\<close>

definition crc_polynomial :: u64 where
  "crc_polynomial = 0x42F0E1EBA9EA3693"

definition crc_bit_step :: "u64 \<Rightarrow> u64" where
  "crc_bit_step value =
     (if value AND push_bit 63 1 \<noteq> 0 then push_bit 1 value XOR crc_polynomial
      else push_bit 1 value)"

definition crc_table_value :: "nat \<Rightarrow> u64" where
  "crc_table_value index = (crc_bit_step ^^ 8) (push_bit 56 (of_nat index))"

definition crc_table :: "u64 list" where
  "crc_table = map crc_table_value [0..<256]"

fun crc64_ecma_update :: "u64 \<Rightarrow> bytes \<Rightarrow> u64" where
  "crc64_ecma_update crc [] = crc"
| "crc64_ecma_update crc (byte # bytes) =
     (let index = (ucast (drop_bit 56 crc) XOR byte :: u8)
      in crc64_ecma_update (crc_table ! unat index XOR push_bit 8 crc) bytes)"

definition crc64_ecma :: "bytes \<Rightarrow> u64" where
  "crc64_ecma bytes = crc64_ecma_update 0 bytes"

section \<open>The reference: bit-serial polynomial division\<close>

text \<open>The message is read most significant bit first; each step shifts the register and
  subtracts the generator when a one leaves it.\<close>

definition crc_serial_step :: "u64 \<Rightarrow> bool \<Rightarrow> u64" where
  "crc_serial_step register b = crc_bit_step (register XOR (if b then push_bit 63 1 else 0))"

definition bits_msb_first :: "u8 \<Rightarrow> bool list" where
  "bits_msb_first byte = map (\<lambda>i. bit byte (7 - i)) [0..<8]"

definition crc_serial :: "u64 \<Rightarrow> bytes \<Rightarrow> u64" where
  "crc_serial crc bytes = foldl crc_serial_step crc (concat (map bits_msb_first bytes))"

section \<open>Linearity of the bit step\<close>

declare push_bit_Suc [simp del] push_bit_of_1 [simp del]

lemma bit_push_63: "bit (push_bit 63 (1::u64)) n \<longleftrightarrow> n = 63"
  by (auto simp: bit_push_bit_iff bit_1_iff)

lemma top_bit_set: "(value :: u64) AND push_bit 63 1 \<noteq> 0 \<longleftrightarrow> bit value 63"
proof -
  have "value AND push_bit 63 1 = (if bit value 63 then push_bit 63 1 else 0)"
    by (rule bit_word_eqI) (auto simp: bit_and_iff bit_push_63)
  moreover have "push_bit 63 (1::u64) \<noteq> 0"
    using bit_push_63 [of 63] by (auto simp del: push_bit_eq_0_iff)
  ultimately show ?thesis
    by simp
qed

lemma crc_bit_step_if:
  "crc_bit_step v = push_bit 1 v XOR (if bit v 63 then crc_polynomial else 0)"
  by (simp add: crc_bit_step_def top_bit_set)

lemma crc_bit_step_xor: "crc_bit_step (x XOR y) = crc_bit_step x XOR crc_bit_step y"
  unfolding crc_bit_step_if
  by (rule bit_word_eqI) (auto simp: bit_xor_iff bit_push_bit_iff)

lemma crc_steps_xor:
  "(crc_bit_step ^^ n) (x XOR y) = (crc_bit_step ^^ n) x XOR (crc_bit_step ^^ n) y"
  by (induction n) (simp_all add: crc_bit_step_xor)

lemma crc_bit_step_0 [simp]: "crc_bit_step 0 = 0"
  by (simp add: crc_bit_step_if)

lemma crc_steps_push:
  assumes "\<And>i. 64 - n \<le> i \<Longrightarrow> \<not> bit v i" and "n \<le> 64"
  shows "(crc_bit_step ^^ n) v = push_bit n v"
  using assms
proof (induction n)
  case 0
  then show ?case by simp
next
  case (Suc n)
  have IH: "(crc_bit_step ^^ n) v = push_bit n v"
    using Suc.prems by (intro Suc.IH) auto
  have "\<not> bit (push_bit n v) 63"
    using Suc.prems by (auto simp: bit_push_bit_iff)
  then have "crc_bit_step (push_bit n v) = push_bit (Suc n) v"
    by (simp add: crc_bit_step_if push_bit_push_bit)
  with IH show ?case by simp
qed

lemma crc_bit_step_eq_0: "crc_bit_step v = 0 \<Longrightarrow> v = 0"
proof -
  assume zero: "crc_bit_step v = 0"
  have poly0: "bit crc_polynomial 0"
    by (simp add: crc_polynomial_def)
  have "\<not> bit v 63"
  proof
    assume "bit v 63"
    with zero have "push_bit 1 v XOR crc_polynomial = 0"
      by (simp add: crc_bit_step_if)
    then have "bit (push_bit 1 v XOR crc_polynomial) 0 = bit (0::u64) 0"
      by simp
    with poly0 show False
      by (simp add: bit_xor_iff bit_push_bit_iff)
  qed
  with zero have "push_bit 1 v = 0"
    by (simp add: crc_bit_step_if)
  show "v = 0"
  proof (rule bit_word_eqI)
    fix n assume n: "n < LENGTH(64)"
    show "bit v n \<longleftrightarrow> bit 0 n"
    proof (cases "n = 63")
      case True
      with \<open>\<not> bit v 63\<close> show ?thesis by simp
    next
      case False
      with n have "bit (push_bit 1 v) (Suc n) \<longleftrightarrow> bit v n"
        by (simp add: bit_push_bit_iff)
      with \<open>push_bit 1 v = 0\<close> show ?thesis by simp
    qed
  qed
qed

lemma crc_steps_inject: "(crc_bit_step ^^ n) x = (crc_bit_step ^^ n) y \<longleftrightarrow> x = y"
proof
  assume "(crc_bit_step ^^ n) x = (crc_bit_step ^^ n) y"
  then have zero: "(crc_bit_step ^^ n) (x XOR y) = 0"
    by (simp add: crc_steps_xor)
  have "z = 0" if "(crc_bit_step ^^ n) z = 0" for z
    using that by (induction n) (auto dest: crc_bit_step_eq_0)
  with zero have "x XOR y = 0" by blast
  then show "x = y"
    by (metis xor_self_eq xor.left_commute xor.right_neutral)
qed simp

section \<open>One byte of the update is eight bit steps\<close>

lemma crc_table_nth: "i < 256 \<Longrightarrow> crc_table ! i = crc_table_value i"
  by (simp add: crc_table_def)

lemma crc_split_top_byte:
  "x = push_bit 56 (ucast (ucast (drop_bit 56 x) :: u8)) XOR (x AND mask 56)" for x :: u64
proof (rule bit_word_eqI)
  fix n assume n: "n < LENGTH(64)"
  have "56 \<le> n \<Longrightarrow> n - 56 < 8 \<and> 56 + (n - 56) = n"
    using n by simp
  then show "bit x n \<longleftrightarrow>
      bit (push_bit 56 (ucast (ucast (drop_bit 56 x) :: u8)) XOR (x AND mask 56)) n"
    using n
    by (cases "56 \<le> n")
      (simp_all add: bit_xor_iff bit_push_bit_iff bit_and_iff bit_mask_iff bit_ucast_iff bit_drop_bit_eq)
qed

lemma crc_eight_steps:
  "(crc_bit_step ^^ 8) x
   = crc_table ! unat (ucast (drop_bit 56 x) :: u8) XOR push_bit 8 x"
proof -
  let ?i = "unat (ucast (drop_bit 56 x) :: u8)"
  have low: "(crc_bit_step ^^ 8) (x AND mask 56) = push_bit 8 (x AND mask 56)"
    by (rule crc_steps_push) (auto simp: bit_and_iff bit_mask_iff)
  have "push_bit 8 (x AND mask 56) = push_bit 8 x"
    by (rule bit_word_eqI) (auto simp: bit_push_bit_iff bit_and_iff bit_mask_iff)
  with low have "(crc_bit_step ^^ 8)
      (push_bit 56 (ucast (ucast (drop_bit 56 x) :: u8)) XOR (x AND mask 56))
      = crc_table_value ?i XOR push_bit 8 x"
    by (simp only: crc_steps_xor crc_table_value_def of_nat_unat)
  then show ?thesis
    by (metis crc_split_top_byte crc_table_nth unat_u8_less)
qed

definition crc_byte_step :: "u64 \<Rightarrow> u8 \<Rightarrow> u64" where
  "crc_byte_step crc byte = (crc_bit_step ^^ 8) (crc XOR push_bit 56 (ucast byte))"

lemma crc_update_Cons:
  "crc64_ecma_update crc (byte # bytes) = crc64_ecma_update (crc_byte_step crc byte) bytes"
proof -
  let ?x = "crc XOR push_bit 56 (ucast byte) :: u64"
  have "ucast (drop_bit 56 ?x) = (ucast (drop_bit 56 crc) XOR byte :: u8)"
    by (rule bit_word_eqI) (auto simp: bit_ucast_iff bit_drop_bit_eq bit_xor_iff bit_push_bit_iff)
  moreover have "push_bit 8 ?x = push_bit 8 crc"
    by (rule bit_word_eqI) (auto simp: bit_push_bit_iff bit_xor_iff bit_ucast_iff
        dest: bit_imp_le_length)
  ultimately show ?thesis
    by (simp add: crc_byte_step_def crc_eight_steps)
qed

lemma crc_update_foldl: "crc64_ecma_update crc bytes = foldl crc_byte_step crc bytes"
  by (induction bytes arbitrary: crc) (simp_all add: crc_update_Cons del: crc64_ecma_update.simps(2))

lemma crc_update_append:
  "crc64_ecma_update crc (xs @ ys) = crc64_ecma_update (crc64_ecma_update crc xs) ys"
  by (simp add: crc_update_foldl)

section \<open>Equivalence with the bit-serial reference\<close>

lemma crc_serial_step_xor:
  "crc_serial_step (x XOR y) b = crc_serial_step x b XOR crc_bit_step y"
  by (simp add: crc_serial_step_def crc_bit_step_xor ac_simps)

lemma foldl_crc_serial_step:
  assumes "length bs = n" and "n \<le> 8"
  shows "foldl crc_serial_step x bs
    = (crc_bit_step ^^ n) (x XOR (if n = 0 then 0 else
        foldl (XOR) 0 (map (\<lambda>i. if bs ! i then push_bit (63 - i) 1 else 0) [0..<n])))"
  using assms
proof (induction bs arbitrary: n rule: rev_induct)
  case Nil
  then show ?case by simp
next
  case (snoc b bs)
  let ?m = "length bs"
  let ?f = "\<lambda>bs n. foldl (XOR) 0 (map (\<lambda>i. if bs ! i then push_bit (63 - i) (1::u64) else 0) [0..<n])"
  have n: "n = Suc ?m" and m8: "?m < 8"
    using snoc.prems by auto
  have eq: "?f (bs @ [b]) ?m = ?f bs ?m"
    by (intro arg_cong [where f = "foldl (XOR) 0"]) (simp add: nth_append)
  have IH: "foldl crc_serial_step x bs = (crc_bit_step ^^ ?m) (x XOR ?f bs ?m)"
    using snoc.IH [of ?m] m8 by (cases "?m = 0") simp_all
  have shift: "(if b then push_bit 63 1 else 0)
      = (crc_bit_step ^^ ?m) (if b then push_bit (63 - ?m) 1 else 0)"
  proof (cases b)
    case True
    have "(crc_bit_step ^^ ?m) (push_bit (63 - ?m) 1) = push_bit ?m (push_bit (63 - ?m) 1)"
      by (rule crc_steps_push) (use m8 in \<open>auto simp: bit_push_bit_iff bit_1_iff\<close>)
    then show ?thesis
      using True m8 by (simp add: push_bit_push_bit)
  next
    case False
    have "(crc_bit_step ^^ k) 0 = 0" for k
      by (induction k) simp_all
    with False show ?thesis by simp
  qed
  have "foldl crc_serial_step x (bs @ [b])
      = crc_bit_step ((crc_bit_step ^^ ?m) (x XOR ?f bs ?m XOR (if b then push_bit (63 - ?m) 1 else 0)))"
    by (simp only: foldl_append foldl_Cons foldl_Nil IH crc_serial_step_def shift crc_steps_xor xor.assoc)
  also have "x XOR ?f bs ?m XOR (if b then push_bit (63 - ?m) 1 else 0)
      = x XOR ?f (bs @ [b]) (Suc ?m)"
    by (simp only: eq [symmetric] upt_Suc_append le0 map_append foldl_append list.map foldl_Cons
        foldl_Nil nth_append_length xor.assoc)
  finally show ?case
    by (simp add: n)
qed

lemma bit_foldl_xor_pushed:
  assumes "m \<le> 64"
  shows "bit (foldl (XOR) 0 (map (\<lambda>i. if P i then push_bit (63 - i) (1::u64) else 0) [0..<m])) n
    \<longleftrightarrow> n \<le> 63 \<and> 63 - n < m \<and> P (63 - n)"
  using assms
proof (induction m)
  case 0
  then show ?case by simp
next
  case (Suc m)
  have one: "bit (if P m then push_bit (63 - m) (1::u64) else 0) n \<longleftrightarrow> P m \<and> n \<le> 63 \<and> 63 - n = m"
    using Suc.prems by (auto simp: bit_push_bit_iff bit_1_iff)
  from Suc.IH Suc.prems show ?case
    by (simp only: upt_Suc_append le0 map_append foldl_append list.map foldl_Cons foldl_Nil
        bit_xor_iff one) (auto simp: less_Suc_eq)
qed

lemma crc_byte_step_serial: "crc_byte_step crc byte = foldl crc_serial_step crc (bits_msb_first byte)"
proof -
  have "foldl (XOR) 0 (map (\<lambda>i. if bits_msb_first byte ! i then push_bit (63 - i) (1::u64) else 0) [0..<8])
      = push_bit 56 (ucast byte)"
    by (rule bit_word_eqI, subst bit_foldl_xor_pushed)
      (auto simp: bits_msb_first_def bit_push_bit_iff bit_ucast_iff dest: bit_imp_le_length)
  then show ?thesis
    by (subst foldl_crc_serial_step [where n = 8]) (simp_all add: bits_msb_first_def crc_byte_step_def)
qed

text \<open>
  C7. The table-driven CRC-64/ECMA update is the bit-serial division of the message, most
  significant bit first, by the generator polynomial, from any running state.
\<close>

theorem crc64_update_is_serial_division: "crc64_ecma_update crc bytes = crc_serial crc bytes"
  by (induction bytes arbitrary: crc)
    (simp_all add: crc_serial_def crc_update_foldl crc_byte_step_serial)

section \<open>Error detection\<close>

lemma crc_byte_step_inject: "crc_byte_step x b = crc_byte_step y b \<longleftrightarrow> x = y"
  by (simp only: crc_byte_step_def crc_steps_inject xor_cancel_right)

lemma crc_update_state_inject:
  "crc64_ecma_update x bytes = crc64_ecma_update y bytes \<longleftrightarrow> x = y"
  by (induction bytes arbitrary: x y) (simp_all add: crc_update_foldl crc_byte_step_inject)

text \<open>A window of at most eight bytes, left-aligned in the register.\<close>

primrec crc_window :: "bytes \<Rightarrow> u64" where
  "crc_window [] = 0"
| "crc_window (b # bs) = push_bit 56 (ucast b) XOR drop_bit 8 (crc_window bs)"

lemma crc_window_low_bits:
  "bit (crc_window bs) i \<Longrightarrow> 64 - 8 * length bs \<le> i"
  by (induction bs arbitrary: i)
    (auto simp: bit_xor_iff bit_push_bit_iff bit_drop_bit_eq bit_ucast_iff dest: bit_imp_le_length, fastforce+)

lemma crc_window_steps:
  assumes "length bs \<le> 7"
  shows "(crc_bit_step ^^ 8) (drop_bit 8 (crc_window bs)) = crc_window bs"
proof -
  have "(crc_bit_step ^^ 8) (drop_bit 8 (crc_window bs)) = push_bit 8 (drop_bit 8 (crc_window bs))"
    by (rule crc_steps_push) (auto simp: bit_drop_bit_eq dest: bit_imp_le_length)
  also have "\<dots> = crc_window bs"
    using crc_window_low_bits [of bs] assms
    by (intro bit_word_eqI) (fastforce simp: bit_push_bit_iff bit_drop_bit_eq)
  finally show ?thesis .
qed

lemma crc_update_window:
  "length bs \<le> 8 \<Longrightarrow>
   crc64_ecma_update crc bs = (crc_bit_step ^^ (8 * length bs)) (crc XOR crc_window bs)"
proof (induction bs arbitrary: crc)
  case Nil
  then show ?case by simp
next
  case (Cons b bs)
  have short: "length bs \<le> 7"
    using Cons.prems by simp
  have "(crc_bit_step ^^ 8) (crc XOR crc_window (b # bs))
      = (crc_bit_step ^^ 8) (crc XOR push_bit 56 (ucast b)) XOR (crc_bit_step ^^ 8) (drop_bit 8 (crc_window bs))"
    by (simp only: crc_steps_xor crc_window.simps xor.assoc)
  then have "crc_byte_step crc b XOR crc_window bs = (crc_bit_step ^^ 8) (crc XOR crc_window (b # bs))"
    by (simp only: crc_byte_step_def crc_window_steps [OF short])
  moreover have "(crc_bit_step ^^ (8 * length (b # bs))) v
      = (crc_bit_step ^^ (8 * length bs)) ((crc_bit_step ^^ 8) v)" for v
    by (metis (no_types) add.commute comp_apply funpow_add length_Cons mult_Suc_right)
  ultimately show ?case
    using Cons.IH short by (simp only: crc_update_Cons)
qed

lemma crc_window_inject:
  "length bs = length cs \<Longrightarrow> length bs \<le> 8 \<Longrightarrow> crc_window bs = crc_window cs \<Longrightarrow> bs = cs"
proof (induction bs arbitrary: cs)
  case Nil
  then show ?case by simp
next
  case (Cons b bs)
  then obtain c cs' where cs: "cs = c # cs'" and len: "length bs = length cs'" "length bs \<le> 7"
    by (cases cs) auto
  have eq: "bit (crc_window (b # bs)) i \<longleftrightarrow> bit (crc_window (c # cs')) i" for i
    using Cons.prems(3) cs by simp
  have top: "bit (crc_window (x # xs)) (56 + i) \<longleftrightarrow> bit x i" if "i < 8" for x xs and i :: nat
    using that by (auto simp: bit_xor_iff bit_push_bit_iff bit_drop_bit_eq bit_ucast_iff
        dest: bit_imp_le_length)
  have low: "bit (crc_window (x # xs)) i \<longleftrightarrow> bit (crc_window xs) (8 + i)" if "i < 56" for x xs and i :: nat
    using that by (auto simp: bit_xor_iff bit_push_bit_iff bit_drop_bit_eq)
  have "b = c"
  proof (rule bit_word_eqI)
    fix i assume "i < LENGTH(8)"
    then show "bit b i \<longleftrightarrow> bit c i"
      using eq [of "56 + i"] top [of i b bs] top [of i c cs'] by simp
  qed
  moreover have "crc_window bs = crc_window cs'"
  proof (rule bit_word_eqI)
    fix i assume i: "i < LENGTH(64)"
    show "bit (crc_window bs) i \<longleftrightarrow> bit (crc_window cs') i"
    proof (cases "i < 8")
      case True
      then show ?thesis
        using crc_window_low_bits [of bs i] crc_window_low_bits [of cs' i] len by auto
    next
      case False
      then have "i - 8 < 56" "8 + (i - 8) = i"
        using i by auto
      then show ?thesis
        using eq [of "i - 8"] low [of "i - 8" b bs] low [of "i - 8" c cs'] by simp
    qed
  qed
  ultimately show ?case
    using Cons.IH [of cs'] len cs by simp
qed

lemma crc64_burst:
  assumes "length old = length new" and "length old \<le> 8" and "old \<noteq> new"
  shows "crc64_ecma (before @ old @ after) \<noteq> crc64_ecma (before @ new @ after)"
proof
  assume "crc64_ecma (before @ old @ after) = crc64_ecma (before @ new @ after)"
  then have "crc64_ecma_update (crc64_ecma before) old = crc64_ecma_update (crc64_ecma before) new"
    by (simp add: crc64_ecma_def crc_update_append crc_update_state_inject)
  then have "crc64_ecma before XOR crc_window old = crc64_ecma before XOR crc_window new"
    using assms by (simp only: crc_update_window crc_steps_inject)
  then have "crc_window old = crc_window new"
    by (simp only: xor_cancel_left)
  with assms crc_window_inject show False
    by blast
qed

text \<open>
  Error detection: replacing at most eight consecutive bytes of a message by different bytes
  of the same number always changes the checksum the artifact reader verifies.
\<close>

theorem crc64_detects_bursts:
  assumes "length old = length new" and "length old \<le> 8" and "old \<noteq> new"
  shows "crc64_ecma (before @ old @ after) \<noteq> crc64_ecma (before @ new @ after)"
  using assms by (rule crc64_burst)

theorem crc64_detects_bursts_witness:
  "crc64_ecma ([1, 2] @ [3, 4] @ [5]) \<noteq> crc64_ecma ([1, 2] @ [3, 0] @ [5])"
  by (rule crc64_detects_bursts) simp_all

declare push_bit_Suc [simp] push_bit_of_1 [simp]

end
