(* ===== verification/ArtifactRead.thy ===== *)
theory ArtifactRead
  imports ArtifactFormat Crc64 "HOL-Library.Product_Lexorder"
begin

text \<open>
  \<open>ArtifactView\<close> of \<^verbatim>\<open>src/artifact.cpp\<close>: opening and validating a \<^verbatim>\<open>.gfxi\<close> file, the lookup of a
  tensor by name and the payload spans. The operating system is an argument: which of \<open>open\<close>,
  \<open>fstat\<close> and \<open>mmap\<close> fails (with the text of \<open>strerror\<close>), or the bytes that were mapped.
  The mapping is read only, so the mapped bytes are a value. The descriptor and the mapping handle
  themselves, which the destructor releases and a move passes on, are in the theory MappedFiles.
\<close>

section \<open>The code\<close>

datatype file_access =
    Open_fails string
  | Stat_fails string
  | Map_fails nat string
  | Mapped bytes

record artifact_view =
  av_mapping :: bytes
  av_identity :: artifact_identity
  av_tensors :: "tensor_descriptor list"

definition read_name :: "bytes \<Rightarrow> disk_header \<Rightarrow> disk_tensor_entry \<Rightarrow> string" where
  "read_name contents h e =
     string_of_bytes (slice (unat (h_strings_offset h) + unat (e_name_offset e)) (unat (e_name_bytes e)) contents)"

definition descriptor_of :: "string \<Rightarrow> disk_tensor_entry \<Rightarrow> tensor_descriptor" where
  "descriptor_of name e =
     \<lparr> td_name = name,
       td_dtype = dtype_of_code (e_dtype e),
       td_quantization = quantization_of_code (e_quantization e),
       td_rank = e_rank e,
       td_flags = e_flags e,
       td_alignment = e_alignment e,
       td_dimensions = e_dimensions e,
       td_data_offset = e_data_offset e,
       td_data_bytes = e_data_bytes e,
       td_aux_offset = e_aux_offset e,
       td_aux_bytes = e_aux_bytes e,
       td_data_crc64 = e_data_crc64 e \<rparr>"

text \<open>The body of the directory loop for one entry.\<close>

definition read_entry ::
  "bool \<Rightarrow> bytes \<Rightarrow> disk_header \<Rightarrow> string list \<Rightarrow> disk_tensor_entry \<Rightarrow> tensor_descriptor result" where
  "read_entry verify contents h unique_names e =
     (if e_rank e > 4 \<or> \<not> valid_dtype (e_dtype e) \<or> \<not> valid_quantization (e_quantization e)
         \<or> e_name_bytes e = 0
         \<or> \<not> range_valid (e_name_offset e) (ucast (e_name_bytes e)) (h_strings_bytes h)
      then Err corrupt_artifact ''invalid tensor directory entry''
      else let name = read_name contents h e in
        if \<not> valid_name name \<or> name \<in> set unique_names
        then Err corrupt_artifact (''invalid or duplicate tensor name: '' @ name)
        else if unat (e_alignment e) < kFileAlignment
          \<or> e_alignment e AND (e_alignment e - 1) \<noteq> 0
          \<or> e_data_offset e mod ucast (e_alignment e) \<noteq> 0
          \<or> \<not> range_valid (e_data_offset e) (e_data_bytes e) (h_file_bytes h)
          \<or> e_data_offset e < h_data_offset h
        then Err corrupt_artifact (''invalid tensor payload bounds: '' @ name)
        else if e_aux_bytes e \<noteq> 0 \<and>
          (e_aux_offset e mod ucast (e_alignment e) \<noteq> 0
           \<or> \<not> range_valid (e_aux_offset e) (e_aux_bytes e) (h_file_bytes h)
           \<or> e_aux_offset e < h_data_offset h)
        then Err corrupt_artifact (''invalid tensor auxiliary bounds: '' @ name)
        else if verify \<and>
          crc64_ecma (slice (unat (e_data_offset e)) (unat (e_data_bytes e)) contents) \<noteq> e_data_crc64 e
        then Err corrupt_artifact (''tensor checksum mismatch: '' @ name)
        else Inr (descriptor_of name e))"

fun read_entries ::
  "bool \<Rightarrow> bytes \<Rightarrow> disk_header \<Rightarrow> string list \<Rightarrow> disk_tensor_entry list \<Rightarrow> tensor_descriptor list result"
where
  "read_entries verify contents h unique_names [] = Inr []"
| "read_entries verify contents h unique_names (e # es) =
     result_bind (read_entry verify contents h unique_names e) (\<lambda>d.
     result_bind (read_entries verify contents h (td_name d # unique_names) es) (\<lambda>ds.
       Inr (d # ds)))"

definition tensor_ranges :: "tensor_descriptor \<Rightarrow> (u64 \<times> u64) list" where
  "tensor_ranges t =
     (td_data_offset t, td_data_offset t + td_data_bytes t)
     # (if td_aux_bytes t \<noteq> 0 then [(td_aux_offset t, td_aux_offset t + td_aux_bytes t)] else [])"

fun ranges_overlap :: "(u64 \<times> u64) list \<Rightarrow> bool" where
  "ranges_overlap (a # b # rs) \<longleftrightarrow> fst b < snd a \<or> ranges_overlap (b # rs)"
| "ranges_overlap _ \<longleftrightarrow> False"

definition directory_bytes_of :: "disk_header \<Rightarrow> u64" where
  "directory_bytes_of h = ucast (h_tensor_count h) * of_nat sizeof_DiskTensorEntry"

definition directory_entry :: "bytes \<Rightarrow> disk_header \<Rightarrow> nat \<Rightarrow> disk_tensor_entry" where
  "directory_entry contents h index =
     decode_entry (slice (unat (h_directory_offset h) + sizeof_DiskTensorEntry * index)
       sizeof_DiskTensorEntry contents)"

definition directory :: "bytes \<Rightarrow> disk_header \<Rightarrow> disk_tensor_entry list" where
  "directory contents h = map (directory_entry contents h) [0..<unat (h_tensor_count h)]"

definition header_identity :: "disk_header \<Rightarrow> artifact_identity" where
  "header_identity h =
     \<lparr> target_arch = fixed_string (h_target_arch h), model_id = fixed_string (h_model_id h),
       weights_id = fixed_string (h_weights_id h), recipe_id = fixed_string (h_recipe_id h) \<rparr>"

definition identity_complete :: "artifact_identity \<Rightarrow> bool" where
  "identity_complete i \<longleftrightarrow>
     target_arch i \<noteq> [] \<and> model_id i \<noteq> [] \<and> weights_id i \<noteq> [] \<and> recipe_id i \<noteq> []"

definition check_header :: "bool \<Rightarrow> bytes \<Rightarrow> disk_header \<Rightarrow> unit result" where
  "check_header verify contents h =
     (let directory_bytes = directory_bytes_of h;
          manifest_bytes = directory_bytes + h_strings_bytes h
      in if h_magic h \<noteq> kMagic then Err corrupt_artifact ''invalid .gfxi magic''
      else if h_version h \<noteq> kArtifactVersion \<or> unat (h_header_bytes h) \<noteq> sizeof_DiskHeader
      then Err unsupported ''unsupported .gfxi artifact version''
      else if h_endian_tag h \<noteq> kEndianTag
      then Err unsupported ''artifact byte order is unsupported''
      else if unat (h_directory_entry_bytes h) \<noteq> sizeof_DiskTensorEntry
      then Err corrupt_artifact ''unexpected directory entry size''
      else if unat (h_file_bytes h) \<noteq> length contents
      then Err corrupt_artifact ''artifact length does not match header''
      else if \<not> range_valid (h_directory_offset h) directory_bytes (h_file_bytes h)
        \<or> \<not> range_valid (h_strings_offset h) (h_strings_bytes h) (h_file_bytes h)
        \<or> \<not> range_valid (h_data_offset h) (h_data_bytes h) (h_file_bytes h)
        \<or> h_strings_offset h \<noteq> h_directory_offset h + directory_bytes
        \<or> h_data_offset h < h_strings_offset h + h_strings_bytes h
      then Err corrupt_artifact ''artifact section bounds are invalid''
      else if verify \<and> crc64_ecma (slice (unat (h_directory_offset h)) (unat manifest_bytes) contents)
          \<noteq> h_manifest_crc64 h
      then Err corrupt_artifact ''artifact manifest checksum mismatch''
      else if \<not> identity_complete (header_identity h)
      then Err corrupt_artifact ''artifact identity is incomplete''
      else Inr ())"

definition artifact_open :: "string \<Rightarrow> bool \<Rightarrow> file_access \<Rightarrow> artifact_view result" where
  "artifact_open path verify_checksums access =
     (case access of
        Open_fails e \<Rightarrow> Inl (errno_status ''cannot open'' path e)
      | Stat_fails e \<Rightarrow> Inl (errno_status ''cannot stat'' path e)
      | Map_fails st_size e \<Rightarrow>
          if st_size < sizeof_DiskHeader
          then Err corrupt_artifact ''artifact is smaller than its header''
          else Inl (errno_status ''cannot map'' path e)
      | Mapped contents \<Rightarrow>
          if length contents < sizeof_DiskHeader
          then Err corrupt_artifact ''artifact is smaller than its header''
          else
            let h = decode_header (slice 0 sizeof_DiskHeader contents) in
            result_bind (check_header verify_checksums contents h) (\<lambda>_.
            result_bind (read_entries verify_checksums contents h [] (directory contents h)) (\<lambda>ds.
              if ranges_overlap (sort (concat (map tensor_ranges ds)))
              then Err corrupt_artifact ''tensor payload regions overlap''
              else Inr \<lparr> av_mapping = contents, av_identity = header_identity h, av_tensors = ds \<rparr>)))"

definition artifact_find :: "artifact_view \<Rightarrow> string \<Rightarrow> tensor_descriptor option" where
  "artifact_find view name = find (\<lambda>t. td_name t = name) (av_tensors view)"

definition artifact_data :: "artifact_view \<Rightarrow> tensor_descriptor \<Rightarrow> bytes" where
  "artifact_data view t = slice (unat (td_data_offset t)) (unat (td_data_bytes t)) (av_mapping view)"

definition artifact_auxiliary :: "artifact_view \<Rightarrow> tensor_descriptor \<Rightarrow> bytes" where
  "artifact_auxiliary view t =
     (if td_aux_bytes t = 0 then []
      else slice (unat (td_aux_offset t)) (unat (td_aux_bytes t)) (av_mapping view))"

section \<open>What a valid view promises\<close>

text \<open>The byte positions of the payload regions, in directory order.\<close>

definition region :: "u64 \<Rightarrow> u64 \<Rightarrow> nat set" where
  "region offset n = {unat offset..<unat offset + unat n}"

definition tensor_regions :: "tensor_descriptor \<Rightarrow> nat set list" where
  "tensor_regions t =
     region (td_data_offset t) (td_data_bytes t)
     # (if td_aux_bytes t \<noteq> 0 then [region (td_aux_offset t) (td_aux_bytes t)] else [])"

definition placed :: "nat \<Rightarrow> u32 \<Rightarrow> u64 \<Rightarrow> u64 \<Rightarrow> bool" where
  "placed file_length alignment offset n \<longleftrightarrow>
     unat alignment dvd unat offset \<and> unat offset + unat n \<le> file_length"

definition descriptor_safe :: "nat \<Rightarrow> tensor_descriptor \<Rightarrow> bool" where
  "descriptor_safe file_length t \<longleftrightarrow>
     valid_name (td_name t) \<and> td_rank t \<le> 4 \<and>
     power_of_two (td_alignment t) \<and> kFileAlignment \<le> unat (td_alignment t) \<and>
     placed file_length (td_alignment t) (td_data_offset t) (td_data_bytes t) \<and>
     (td_aux_bytes t \<noteq> 0 \<longrightarrow>
       placed file_length (td_alignment t) (td_aux_offset t) (td_aux_bytes t))"

definition view_safe :: "artifact_view \<Rightarrow> bool" where
  "view_safe view \<longleftrightarrow>
     identity_complete (av_identity view) \<and>
     distinct (map td_name (av_tensors view)) \<and>
     list_all (descriptor_safe (length (av_mapping view))) (av_tensors view) \<and>
     sorted_wrt (\<lambda>a b. a \<inter> b = {}) (concat (map tensor_regions (av_tensors view)))"

definition checksums_hold :: "artifact_view \<Rightarrow> bool" where
  "checksums_hold view \<longleftrightarrow>
     list_all (\<lambda>t. crc64_ecma (artifact_data view t) = td_data_crc64 t) (av_tensors view)"

section \<open>Arithmetic of the bounds checks\<close>

lemma range_valid_nat: "range_valid a n f \<longleftrightarrow> unat a + unat n \<le> unat f"
proof (cases "a \<le> f")
  case True
  then have "unat (f - a) = unat f - unat a" and "unat a \<le> unat f"
    by (simp_all add: unat_sub word_le_nat_alt)
  then show ?thesis
    using True by (auto simp: range_valid_def word_le_nat_alt)
next
  case False
  then show ?thesis
    by (auto simp: range_valid_def word_le_nat_alt)
qed

lemma range_valid_end:
  "range_valid a n f \<Longrightarrow> unat (a + n) = unat a + unat n"
  using unat_less_u64 [of f] by (simp add: range_valid_nat unat_add_lem [THEN iffD1])

lemma mod_alignment: "(a :: u64) mod ucast (b :: u32) = 0 \<longleftrightarrow> unat b dvd unat a"
proof -
  have "a mod ucast b = 0 \<longleftrightarrow> unat (a mod ucast b) = 0"
    by (simp add: unat_0_iff)
  also have "\<dots> \<longleftrightarrow> unat a mod unat b = 0"
    by (simp add: unat_mod)
  finally show ?thesis
    by (simp add: dvd_eq_mod_eq_0)
qed

section \<open>The directory loop\<close>

lemma read_entry_Inr:
  assumes "read_entry verify contents h seen e = Inr d"
  shows "d = descriptor_of (read_name contents h e) e"
    and "td_name d \<notin> set seen"
    and "unat (h_file_bytes h) = length contents \<Longrightarrow> descriptor_safe (length contents) d"
    and "h_data_offset h \<le> td_data_offset d"
    and "td_aux_bytes d \<noteq> 0 \<Longrightarrow> h_data_offset h \<le> td_aux_offset d"
    and "range_valid (td_data_offset d) (td_data_bytes d) (h_file_bytes h)"
    and "td_aux_bytes d \<noteq> 0 \<Longrightarrow> range_valid (td_aux_offset d) (td_aux_bytes d) (h_file_bytes h)"
    and "verify \<Longrightarrow>
      crc64_ecma (slice (unat (td_data_offset d)) (unat (td_data_bytes d)) contents) = td_data_crc64 d"
    and "range_valid (e_name_offset e) (ucast (e_name_bytes e)) (h_strings_bytes h)"
    and "e_name_bytes e \<noteq> 0"
  using assms
  by (auto simp: read_entry_def Let_def descriptor_of_def descriptor_safe_def placed_def
      power_of_two_def mod_alignment range_valid_nat kFileAlignment_def split: if_splits)

lemma read_entries_Inr:
  assumes "read_entries verify contents h seen es = Inr ds"
  shows "list_all2 (\<lambda>e d. \<exists>seen'. read_entry verify contents h seen' e = Inr d) es ds
    \<and> distinct (map td_name ds) \<and> set (map td_name ds) \<inter> set seen = {}"
  using assms
proof (induction es arbitrary: seen ds)
  case Nil
  then show ?case by simp
next
  case (Cons e es)
  then obtain d ds' where ds: "ds = d # ds'"
    and d: "read_entry verify contents h seen e = Inr d"
    and ds': "read_entries verify contents h (td_name d # seen) es = Inr ds'"
    by auto
  from Cons.IH [OF ds'] d read_entry_Inr(2) [OF d] show ?case
    by (auto simp: ds)
qed

lemma read_entries_length:
  "read_entries verify contents h seen es = Inr ds \<Longrightarrow> length ds = length es"
  by (drule read_entries_Inr) (auto dest: list_all2_lengthD)

lemma read_entries_nth:
  assumes "read_entries verify contents h seen es = Inr ds" and "i < length es"
  obtains seen' where "read_entry verify contents h seen' (es ! i) = Inr (ds ! i)"
  using read_entries_Inr [OF assms(1)] assms(2) by (auto simp: list_all2_conv_all_nth)

lemma read_entries_member:
  assumes "read_entries verify contents h seen es = Inr ds" and "d \<in> set ds"
  obtains e seen' where "e \<in> set es" and "read_entry verify contents h seen' e = Inr d"
proof -
  from assms(2) obtain i where "i < length ds" and d: "d = ds ! i"
    by (auto simp: in_set_conv_nth)
  then have i: "i < length es"
    by (simp add: read_entries_length [OF assms(1)])
  from read_entries_nth [OF assms(1) i] show ?thesis
    using that [of "es ! i"] i d by auto
qed

section \<open>The overlap check\<close>

lemma ranges_overlap_disjoint:
  assumes "sorted rs" and "\<not> ranges_overlap rs" and "list_all (\<lambda>r. fst r \<le> snd r) rs"
  shows "sorted_wrt (\<lambda>a b. snd a \<le> fst b) rs"
  using assms
proof (induction rs rule: ranges_overlap.induct)
  case (1 a b rs)
  then have IH: "sorted_wrt (\<lambda>a b. snd a \<le> fst b) (b # rs)"
    by simp
  have ab: "snd a \<le> fst b" and b: "fst b \<le> snd b"
    using 1 by (simp_all add: not_less)
  have "snd a \<le> fst c" if "c \<in> set rs" for c
    using IH that ab b by fastforce
  with IH ab show ?case
    by auto
qed auto

definition range_set :: "u64 \<times> u64 \<Rightarrow> nat set" where
  "range_set r = {unat (fst r)..<unat (snd r)}"

lemma sorted_ranges_disjoint:
  assumes "\<not> ranges_overlap (sort rs)" and "list_all (\<lambda>r. fst r \<le> snd r) rs"
  shows "sorted_wrt (\<lambda>a b. range_set a \<inter> range_set b = {}) rs"
proof -
  have "list_all (\<lambda>r. fst r \<le> snd r) (sort rs)"
    using assms(2) by (simp add: list_all_iff)
  then have "sorted_wrt (\<lambda>a b. snd a \<le> fst b) (sort rs)"
    using assms(1) by (intro ranges_overlap_disjoint) simp_all
  then have "sorted_wrt (\<lambda>a b. range_set a \<inter> range_set b = {}) (sort rs)"
    by (rule sorted_wrt_mono_rel [rotated]) (auto simp: range_set_def word_le_nat_alt)
  then show ?thesis
    by (rule sorted_wrt_mset_eq [rotated 2]) (auto simp: symp_def)
qed

lemma tensor_ranges_regions:
  assumes "read_entry verify contents h seen e = Inr d"
  shows "map range_set (tensor_ranges d) = tensor_regions d"
    and "list_all (\<lambda>r. fst r \<le> snd r) (tensor_ranges d)"
  using read_entry_Inr(6,7) [OF assms]
  by (auto simp: tensor_ranges_def tensor_regions_def range_set_def region_def
      range_valid_end word_le_nat_alt)

section \<open>Opening a file\<close>

lemma artifact_open_Inr:
  assumes "artifact_open path verify access = Inr view"
  obtains contents h where "access = Mapped contents"
    and "sizeof_DiskHeader \<le> length contents"
    and "h = decode_header (slice 0 sizeof_DiskHeader contents)"
    and "check_header verify contents h = Inr ()"
    and "read_entries verify contents h [] (directory contents h) = Inr (av_tensors view)"
    and "\<not> ranges_overlap (sort (concat (map tensor_ranges (av_tensors view))))"
    and "av_mapping view = contents"
    and "av_identity view = header_identity h"
  using assms
  by (auto simp: artifact_open_def Let_def not_less split: file_access.splits if_splits)

lemma check_header_Inr:
  assumes "check_header verify contents h = Inr ()"
  shows "unat (h_file_bytes h) = length contents"
    and "identity_complete (header_identity h)"
    and "range_valid (h_directory_offset h) (directory_bytes_of h) (h_file_bytes h)"
    and "range_valid (h_strings_offset h) (h_strings_bytes h) (h_file_bytes h)"
    and "h_strings_offset h = h_directory_offset h + directory_bytes_of h"
    and "h_strings_offset h + h_strings_bytes h \<le> h_data_offset h"
  using assms by (auto simp: check_header_def Let_def split: if_splits)

lemma artifact_open_safe:
  assumes "artifact_open path verify access = Inr view"
  shows "view_safe view" and "verify \<Longrightarrow> checksums_hold view"
proof -
  from assms obtain contents h where
    header: "check_header verify contents h = Inr ()"
    and entries: "read_entries verify contents h [] (directory contents h) = Inr (av_tensors view)"
    and overlap: "\<not> ranges_overlap (sort (concat (map tensor_ranges (av_tensors view))))"
    and mapping: "av_mapping view = contents"
    and identity: "av_identity view = header_identity h"
    by (rule artifact_open_Inr)
  note h = check_header_Inr [OF header]
  have each: "\<exists>seen e. read_entry verify contents h seen e = Inr d" if "d \<in> set (av_tensors view)" for d
    using read_entries_member [OF entries that] by blast
  have "list_all (\<lambda>r. fst r \<le> snd r) (concat (map tensor_ranges (av_tensors view)))"
    using each tensor_ranges_regions(2) by (fastforce simp: list_all_iff)
  with overlap have "sorted_wrt (\<lambda>a b. range_set a \<inter> range_set b = {})
      (concat (map tensor_ranges (av_tensors view)))"
    by (rule sorted_ranges_disjoint)
  then have "sorted_wrt (\<lambda>a b. a \<inter> b = {})
      (map range_set (concat (map tensor_ranges (av_tensors view))))"
    by (simp add: sorted_wrt_map)
  moreover have "map range_set (concat (map tensor_ranges (av_tensors view)))
      = concat (map tensor_regions (av_tensors view))"
  proof -
    have "map range_set (tensor_ranges d) = tensor_regions d" if "d \<in> set (av_tensors view)" for d
      using each [OF that] by (auto dest: tensor_ranges_regions(1))
    then show ?thesis
      by (simp add: map_concat comp_def cong: map_cong)
  qed
  moreover have "list_all (descriptor_safe (length contents)) (av_tensors view)"
    using each read_entry_Inr(3) [OF _ h(1)] by (fastforce simp: list_all_iff)
  ultimately show "view_safe view"
    using read_entries_Inr [OF entries] h(2) by (simp add: view_safe_def mapping identity)
  show "checksums_hold view" if verify
    using each read_entry_Inr(8) [OF _ that]
    by (fastforce simp: checksums_hold_def list_all_iff artifact_data_def mapping)
qed

text \<open>
  C3. Memory safety of a successfully opened artifact: every data and auxiliary region lies inside
  the mapped file, at an offset that is a multiple of a power-of-two alignment of at least 256;
  tensor names are valid and distinct; no two payload regions share a byte; the identity is
  complete; and, when verification is on, every tensor's bytes have the recorded checksum.
\<close>

theorem artifact_open_is_safe:
  assumes "artifact_open path verify access = Inr view"
  shows "view_safe view \<and> (verify \<longrightarrow> checksums_hold view)"
  using artifact_open_safe [OF assms] by blast

section \<open>Corruption of a payload\<close>

lemma placed_after_header:
  assumes entry: "read_entry verify contents h seen e = Inr d"
    and header: "check_header verify contents h = Inr ()"
  shows "sizeof_DiskHeader \<le> unat (td_data_offset d)"
    and "unat (h_strings_offset h) + unat (h_strings_bytes h) \<le> unat (td_data_offset d)"
    and "unat (td_data_offset d) + unat (td_data_bytes d) \<le> length contents"
proof -
  note h = check_header_Inr [OF header] and d = read_entry_Inr [OF entry]
  have "unat (h_strings_offset h + h_strings_bytes h)
      = unat (h_strings_offset h) + unat (h_strings_bytes h)"
    using h(4) by (rule range_valid_end)
  with h(6) d(4) show strings:
    "unat (h_strings_offset h) + unat (h_strings_bytes h) \<le> unat (td_data_offset d)"
    by (simp add: word_le_nat_alt)
  have "unat (e_name_bytes e) \<le> unat (h_strings_bytes h)" "unat (e_name_bytes e) \<noteq> 0"
    using d(9,10) by (simp_all add: range_valid_nat unat_eq_0)
  then have "0 < unat (td_data_offset d)"
    using strings by linarith
  moreover have "kFileAlignment \<le> unat (td_alignment d)"
    and "unat (td_alignment d) dvd unat (td_data_offset d)"
    and bound: "unat (td_data_offset d) + unat (td_data_bytes d) \<le> length contents"
    using d(3) [OF h(1)] by (simp_all add: descriptor_safe_def placed_def)
  ultimately show "sizeof_DiskHeader \<le> unat (td_data_offset d)"
    by (auto simp: sizeof_DiskHeader_def kFileAlignment_def dest: dvd_imp_le)
  show "unat (td_data_offset d) + unat (td_data_bytes d) \<le> length contents"
    by (rule bound)
qed

lemma directory_bytes_nat:
  "unat (directory_bytes_of h) = unat (h_tensor_count h) * sizeof_DiskTensorEntry"
proof -
  have "unat (h_tensor_count h) < 2 ^ 32"
    using unsigned_less [of "h_tensor_count h"] by simp
  then show ?thesis
    by (simp add: directory_bytes_of_def sizeof_DiskTensorEntry_def unat_mult_lem [THEN iffD1])
qed

lemma directory_overwrite:
  assumes header: "check_header verify contents h = Inr ()"
    and p: "unat (h_strings_offset h) \<le> p" and n: "p + length new \<le> length contents"
  shows "directory (overwrite p new contents) h = directory contents h"
proof -
  note h = check_header_Inr [OF header]
  have total: "unat (h_directory_offset h) + unat (h_tensor_count h) * sizeof_DiskTensorEntry
      = unat (h_strings_offset h)"
    using range_valid_end [OF h(3)] h(5) by (simp add: directory_bytes_nat)
  show ?thesis
    unfolding directory_def
  proof (rule map_cong)
    fix i assume "i \<in> set [0..<unat (h_tensor_count h)]"
    then have "Suc i * sizeof_DiskTensorEntry \<le> unat (h_tensor_count h) * sizeof_DiskTensorEntry"
      by (intro mult_le_mono1) simp
    then have "unat (h_directory_offset h) + sizeof_DiskTensorEntry * i + sizeof_DiskTensorEntry \<le> p"
      using total p by (simp add: algebra_simps)
    then show "directory_entry (overwrite p new contents) h i = directory_entry contents h i"
      using n by (simp add: directory_entry_def slice_overwrite_other)
  qed simp
qed

text \<open>
  C4. With verification on, replacing up to eight consecutive bytes of a tensor's data in a file
  that opens makes the file fail to open.
\<close>

theorem artifact_open_detects_payload_corruption:
  assumes opened: "artifact_open path True (Mapped contents) = Inr view"
    and t: "t \<in> set (av_tensors view)"
    and window: "unat (td_data_offset t) \<le> p"
      "p + length new \<le> unat (td_data_offset t) + unat (td_data_bytes t)"
    and burst: "length new \<le> 8" "slice p (length new) contents \<noteq> new"
  shows "\<exists>s. artifact_open path True (Mapped (overwrite p new contents)) = Inl s"
proof (rule ccontr)
  let ?file = "overwrite p new contents"
  assume "\<nexists>s. artifact_open path True (Mapped ?file) = Inl s"
  then obtain view' where opened': "artifact_open path True (Mapped ?file) = Inr view'"
    by (cases "artifact_open path True (Mapped ?file)") auto
  from opened obtain h where
    size: "sizeof_DiskHeader \<le> length contents"
    and h: "h = decode_header (slice 0 sizeof_DiskHeader contents)"
    and header: "check_header True contents h = Inr ()"
    and entries: "read_entries True contents h [] (directory contents h) = Inr (av_tensors view)"
    by (rule artifact_open_Inr) auto
  from opened' obtain h' where
    h': "h' = decode_header (slice 0 sizeof_DiskHeader ?file)"
    and header': "check_header True ?file h' = Inr ()"
    and entries': "read_entries True ?file h' [] (directory ?file h') = Inr (av_tensors view')"
    by (rule artifact_open_Inr) auto
  from t obtain i where i: "i < length (av_tensors view)" and ti: "t = av_tensors view ! i"
    by (auto simp: in_set_conv_nth)
  then have ie: "i < length (directory contents h)"
    using read_entries_length [OF entries] by simp
  from read_entries_nth [OF entries ie] obtain seen where
    entry: "read_entry True contents h seen (directory contents h ! i) = Inr t"
    using ti by blast
  note place = placed_after_header [OF entry header]
  have n: "p + length new \<le> length contents"
    using window place(3) by linarith
  have same_header: "h' = h"
    using window place(1) n size by (simp add: h h' slice_overwrite_other)
  have same_directory: "directory ?file h = directory contents h"
    using window place(2) n by (intro directory_overwrite [OF header]) simp_all
  obtain seen' where
    entry': "read_entry True ?file h seen' (directory contents h ! i) = Inr (av_tensors view' ! i)"
    using read_entries_nth [OF entries', of i] ie same_header same_directory by auto
  let ?d = "unat (td_data_offset t)" and ?n = "unat (td_data_bytes t)"
  have "td_data_offset (av_tensors view' ! i) = td_data_offset t"
    "td_data_bytes (av_tensors view' ! i) = td_data_bytes t"
    "td_data_crc64 (av_tensors view' ! i) = td_data_crc64 t"
    using read_entry_Inr(1) [OF entry] read_entry_Inr(1) [OF entry'] by (simp_all add: descriptor_of_def)
  then have "crc64_ecma (slice ?d ?n ?file) = crc64_ecma (slice ?d ?n contents)"
    using read_entry_Inr(8) [OF entry] read_entry_Inr(8) [OF entry'] by simp
  moreover have "slice ?d ?n contents
      = slice ?d (p - ?d) contents @ slice p (length new) contents
        @ slice (p + length new) (?d + ?n - (p + length new)) contents"
    using window slice_split [of ?d "p - ?d" "?d + ?n - p" contents]
      slice_split [of p "length new" "?d + ?n - (p + length new)" contents] by simp
  moreover have "slice ?d ?n ?file
      = slice ?d (p - ?d) contents @ new
        @ slice (p + length new) (?d + ?n - (p + length new)) contents"
    using window place(3) n slice_split [of ?d "p - ?d" "?d + ?n - p" ?file]
      slice_split [of p "length new" "?d + ?n - (p + length new)" ?file]
    by (simp add: slice_overwrite_same slice_overwrite_other)
  moreover have len: "length (slice p (length new) contents) = length new"
    using n by simp
  moreover have "length (slice p (length new) contents) \<le> 8"
    using burst(1) len by simp
  ultimately show False
    using crc64_burst [OF len _ burst(2)] by metis
qed

section \<open>Lookup\<close>

lemma find_distinct_key:
  "distinct (map f xs) \<Longrightarrow> x \<in> set xs \<Longrightarrow> find (\<lambda>y. f y = f x) xs = Some x"
  by (induction xs) auto

text \<open>
  In an opened artifact \<open>find\<close> returns exactly the tensor of that name, and nothing when the
  artifact has no such tensor.
\<close>

theorem artifact_find_exact:
  assumes "artifact_open path verify access = Inr view"
  shows "artifact_find view name = Some t \<longleftrightarrow> t \<in> set (av_tensors view) \<and> td_name t = name"
proof
  assume "artifact_find view name = Some t"
  then show "t \<in> set (av_tensors view) \<and> td_name t = name"
    by (auto simp: artifact_find_def find_Some_iff)
next
  assume "t \<in> set (av_tensors view) \<and> td_name t = name"
  then show "artifact_find view name = Some t"
    using artifact_open_safe(1) [OF assms]
    by (auto simp: artifact_find_def view_safe_def find_distinct_key)
qed

end
