(* ===== verification/PosixIO.thy ===== *)
theory PosixIO
  imports Prelude
begin

text \<open>
  The write loops of \<^verbatim>\<open>src/artifact.cpp\<close> over a kernel that may accept fewer bytes than it is
  given, be interrupted, or fail. The kernel is a list of responses, one for each system call, in
  order; the functions return \<open>None\<close> when the list ends before the loop does. \<open>Accepts k\<close> takes at
  most \<open>k\<close> of the requested bytes, so it never reports more than was asked for, as POSIX promises.
  Each response carries the text \<open>strerror\<close> would give for its error.
\<close>

section \<open>The code\<close>

datatype write_response =
    Accepts nat
  | Interrupted
  | Refuses string

fun write_all :: "write_response list \<Rightarrow> bytes \<Rightarrow> bytes \<Rightarrow> (status \<times> bytes \<times> write_response list) option"
where
  "write_all rs [] out = Some (ok_status, out, rs)"
| "write_all [] (b # bs) out = None"
| "write_all (Interrupted # rs) (b # bs) out = write_all rs (b # bs) out"
| "write_all (Refuses e # rs) (b # bs) out = Some (Status io_error (''write failed: '' @ e), out, rs)"
| "write_all (Accepts k # rs) (b # bs) out =
     (let written = min k (length (b # bs)) in
      if written = 0 then Some (Status io_error ''write returned zero before completion'', out, rs)
      else write_all rs (drop written (b # bs)) (out @ take written (b # bs)))"

text \<open>\<open>pwrite\<close> beyond the end of a file leaves a gap of zeros.\<close>

definition pwrite_at :: "nat \<Rightarrow> bytes \<Rightarrow> bytes \<Rightarrow> bytes" where
  "pwrite_at off bs out = overwrite off bs (out @ replicate (off + length bs - length out) 0)"

fun pwrite_all ::
  "write_response list \<Rightarrow> bytes \<Rightarrow> u64 \<Rightarrow> bytes \<Rightarrow> (status \<times> bytes \<times> write_response list) option"
where
  "pwrite_all rs [] offset out = Some (ok_status, out, rs)"
| "pwrite_all rs (b # bs) offset out =
     (if unat offset > max_off_t
      then Some (Status io_error ''file offset exceeds platform limit'', out, rs)
      else case rs of
        [] \<Rightarrow> None
      | Interrupted # rs' \<Rightarrow> pwrite_all rs' (b # bs) offset out
      | Refuses e # rs' \<Rightarrow> Some (Status io_error (''pwrite failed: '' @ e), out, rs')
      | Accepts k # rs' \<Rightarrow>
          let written = min k (length (b # bs)) in
          if written = 0 then Some (Status io_error ''pwrite returned zero before completion'', out, rs')
          else pwrite_all rs' (drop written (b # bs)) (offset + of_nat written)
                 (pwrite_at (unat offset) (take written (b # bs)) out))"

function write_padding ::
  "write_response list \<Rightarrow> u64 \<Rightarrow> bytes \<Rightarrow> (status \<times> bytes \<times> write_response list) option"
where
  "write_padding rs n out =
     (if n = 0 then Some (ok_status, out, rs)
      else
        let chunk = min n 256 in
        case write_all rs (replicate (unat chunk) 0) out of
          None \<Rightarrow> None
        | Some (status, out', rs') \<Rightarrow>
            if \<not> status_ok status then Some (status, out', rs')
            else write_padding rs' (n - chunk) out')"
  by pat_completeness auto

termination
proof (relation "measure (\<lambda>(rs, n, out). unat n)", goal_cases)
  case 1
  show ?case by simp
next
  case (2 rs n out chunk)
  have "0 < unat n"
    using 2(1) by (simp add: unat_gt_0)
  moreover have "unat (n - min n 256) = unat n - unat (min n 256)"
    by (rule unat_sub) simp
  moreover have "0 < unat (min n 256)"
    using 2(1) by (auto simp: min_def unat_gt_0)
  ultimately show ?case
    by (simp add: 2(2))
qed

declare write_padding.simps [simp del]

section \<open>What the loops do\<close>

declare pwrite_all.simps [simp del]

lemma take_whole_split: "take (w + n) xs = xs \<longleftrightarrow> take n (drop w xs) = drop w xs"
  by auto

text \<open>On every outcome a prefix of the source was appended, and success means all of it.\<close>

lemma write_all_prefix:
  "write_all rs src out = Some (s, out', rs') \<Longrightarrow>
   \<exists>n. out' = out @ take n src \<and> (status_ok s \<longleftrightarrow> take n src = src)"
proof (induction rs src out rule: write_all.induct)
  case (5 k rs b bs out)
  let ?src = "b # bs" and ?w = "min k (length (b # bs))"
  show ?case
  proof (cases "?w = 0")
    case True
    with "5.prems" show ?thesis
      by (intro exI [of _ 0]) (auto simp: Let_def)
  next
    case False
    then have "write_all rs (drop ?w ?src) (out @ take ?w ?src) = Some (s, out', rs')"
      using "5.prems" by (simp only: write_all.simps(5) Let_def False if_False)
    from "5.IH" [OF refl False this] obtain n where
      n: "out' = (out @ take ?w ?src) @ take n (drop ?w ?src)"
        "status_ok s \<longleftrightarrow> take n (drop ?w ?src) = drop ?w ?src"
      by blast
    have "take (?w + n) ?src = take ?w ?src @ take n (drop ?w ?src)"
      by (rule take_add)
    then show ?thesis
      using n take_whole_split [of ?w n ?src]
      by (intro exI [of _ "?w + n"]) (simp only: append_assoc)
  qed
qed (auto intro: exI [of _ 0] simp: ok_status_def)

lemma write_all_ok:
  "write_all rs src out = Some (s, out', rs') \<Longrightarrow> status_ok s \<Longrightarrow> out' = out @ src"
  using write_all_prefix by fastforce

lemma replicate_chunk:
  "m \<le> n \<Longrightarrow> replicate m x @ replicate (n - m) x = replicate n x"
  by (simp add: replicate_add [symmetric])

lemma write_padding_ok:
  "write_padding rs n out = Some (s, out', rs') \<Longrightarrow> status_ok s \<Longrightarrow>
   out' = out @ replicate (unat n) 0"
proof (induction rs n out rule: write_padding.induct)
  case (1 rs n out)
  show ?case
  proof (cases "n = 0")
    case True
    with "1.prems" show ?thesis
      by (simp add: write_padding.simps)
  next
    case False
    then obtain s1 out1 rs1 where
      w: "write_all rs (replicate (unat (min n 256)) 0) out = Some (s1, out1, rs1)"
      using "1.prems" by (auto simp: write_padding.simps [of rs n] Let_def split: option.splits)
    have ok: "status_ok s1"
      using "1.prems" False w by (auto simp: write_padding.simps [of rs n] Let_def split: if_splits)
    have rest: "write_padding rs1 (n - min n 256) out1 = Some (s, out', rs')"
      using "1.prems" False w ok by (simp add: write_padding.simps [of rs n] Let_def)
    have "out' = out1 @ replicate (unat (n - min n 256)) 0"
      using "1.IH" [OF False refl w refl refl _ rest "1.prems"(2)] ok by simp
    moreover have "unat (n - min n 256) = unat n - unat (min n 256)"
      by (rule unat_sub) simp
    moreover have "unat (min n 256) \<le> unat n"
      by (simp add: word_le_nat_alt [symmetric])
    ultimately show ?thesis
      using write_all_ok [OF w ok] by (simp add: replicate_chunk)
  qed
qed

text \<open>\<open>pwrite_all\<close> inside the file overwrites a span of it.\<close>

lemma pwrite_at_inside:
  "off + length bs \<le> length out \<Longrightarrow> pwrite_at off bs out = overwrite off bs out"
  by (simp add: pwrite_at_def)

lemma pwrite_all_Nil [simp]: "pwrite_all rs [] offset out = Some (ok_status, out, rs)"
  by (simp add: pwrite_all.simps)

lemma pwrite_all_Cons:
  assumes "\<not> unat offset > max_off_t"
  shows "pwrite_all [] (b # bs) offset out = None"
    and "pwrite_all (Interrupted # rs) (b # bs) offset out = pwrite_all rs (b # bs) offset out"
    and "pwrite_all (Refuses e # rs) (b # bs) offset out
      = Some (Status io_error (''pwrite failed: '' @ e), out, rs)"
    and "min k (length (b # bs)) = 0 \<Longrightarrow> pwrite_all (Accepts k # rs) (b # bs) offset out
      = Some (Status io_error ''pwrite returned zero before completion'', out, rs)"
    and "min k (length (b # bs)) \<noteq> 0 \<Longrightarrow> pwrite_all (Accepts k # rs) (b # bs) offset out
      = pwrite_all rs (drop (min k (length (b # bs))) (b # bs)) (offset + of_nat (min k (length (b # bs))))
          (pwrite_at (unat offset) (take (min k (length (b # bs))) (b # bs)) out)"
proof -
  note step = pwrite_all.simps(2) [of _ b bs offset out]
  show "pwrite_all [] (b # bs) offset out = None"
    using assms by (subst step) simp
  show "pwrite_all (Interrupted # rs) (b # bs) offset out = pwrite_all rs (b # bs) offset out"
    using assms by (subst step) simp
  show "pwrite_all (Refuses e # rs) (b # bs) offset out
      = Some (Status io_error (''pwrite failed: '' @ e), out, rs)"
    using assms by (subst step) simp
  show "pwrite_all (Accepts k # rs) (b # bs) offset out
      = Some (Status io_error ''pwrite returned zero before completion'', out, rs)"
    if "min k (length (b # bs)) = 0"
    using assms that by (subst step) (simp only: if_False if_True list.case write_response.case Let_def refl)
  show "pwrite_all (Accepts k # rs) (b # bs) offset out
      = pwrite_all rs (drop (min k (length (b # bs))) (b # bs)) (offset + of_nat (min k (length (b # bs))))
          (pwrite_at (unat offset) (take (min k (length (b # bs))) (b # bs)) out)"
    if "min k (length (b # bs)) \<noteq> 0"
    using assms that by (subst step) (simp only: if_False if_True list.case write_response.case Let_def)
qed

lemma pwrite_all_inside:
  assumes "pwrite_all rs src offset out = Some (s, out', rs')"
    and "unat offset + length src \<le> length out" and "length out \<le> max_off_t"
  shows "\<exists>n. out' = overwrite (unat offset) (take n src) out
    \<and> (status_ok s \<longleftrightarrow> take n src = src)"
  using assms
proof (induction rs src offset out rule: pwrite_all.induct)
  case (1 rs offset out)
  then show ?case
    by (auto simp: ok_status_def)
next
  case (2 rs b bs offset out)
  let ?src = "b # bs"
  have lim: "\<not> unat offset > max_off_t"
    using "2.prems" by simp
  show ?case
  proof (cases rs)
    case Nil
    with "2.prems"(1) show ?thesis by (simp add: pwrite_all_Cons(1) [OF lim])
  next
    case (Cons r rs1)
    show ?thesis
    proof (cases r)
      case Interrupted
      with "2.prems"(1) Cons have "pwrite_all rs1 ?src offset out = Some (s, out', rs')"
        by (simp only: pwrite_all_Cons(2) [OF lim])
      with "2.IH"(2) [OF lim Cons Interrupted] "2.prems"(2,3) show ?thesis
        by blast
    next
      case (Refuses e)
      with "2.prems" Cons show ?thesis
        by (intro exI [of _ 0]) (auto simp: pwrite_all_Cons(3) [OF lim])
    next
      case (Accepts k)
      define w where "w = min k (length ?src)"
      have w: "w \<le> length ?src"
        by (simp add: w_def)
      show ?thesis
      proof (cases "w = 0")
        case True
        with "2.prems"(1) Cons Accepts have "out' = out" "\<not> status_ok s"
          by (auto simp: pwrite_all_Cons(4) [OF lim True [unfolded w_def]])
        then show ?thesis
          by (intro exI [of _ 0]) simp
      next
        case False
        let ?out = "pwrite_at (unat offset) (take w ?src) out"
        have len: "length (take w ?src) = w"
          using w by simp
        have inside: "?out = overwrite (unat offset) (take w ?src) out"
          using "2.prems"(2) w by (intro pwrite_at_inside) (simp only: len)
        have length_out: "length ?out = length out"
          using "2.prems"(2) w by (simp only: inside, intro length_overwrite) (simp only: len)
        have off: "unat (offset + of_nat w) = unat offset + w"
        proof -
          have "unat offset + w < 2 ^ 64"
            using w "2.prems"(2,3) by (simp add: max_off_t_def)
          then show ?thesis
            by (simp add: unat_word_ariths unat_of_nat)
        qed
        have run: "pwrite_all rs1 (drop w ?src) (offset + of_nat w) ?out = Some (s, out', rs')"
          using "2.prems"(1) Cons Accepts False
          by (simp only: pwrite_all_Cons(5) [OF lim False [unfolded w_def]] w_def)
        have "unat (offset + of_nat w) + length (drop w ?src) \<le> length ?out"
          using "2.prems"(2) w unfolding off length_out length_drop by linarith
        moreover have "length ?out \<le> max_off_t"
          using "2.prems"(3) by (simp only: length_out)
        ultimately obtain n where
          n: "out' = overwrite (unat offset + w) (take n (drop w ?src)) ?out"
            "status_ok s \<longleftrightarrow> take n (drop w ?src) = drop w ?src"
          using "2.IH"(1) [OF lim Cons Accepts w_def False run] unfolding off by blast
        have "unat offset + length (take w ?src) + length (take n (drop w ?src)) \<le> length out"
          using "2.prems"(2) w by simp
        then have "overwrite (unat offset + w) (take n (drop w ?src)) ?out
            = overwrite (unat offset) (take w ?src @ take n (drop w ?src)) out"
          using overwrite_append [of "unat offset" "take w ?src" "take n (drop w ?src)" out]
          by (simp only: inside len)
        also have "take w ?src @ take n (drop w ?src) = take (w + n) ?src"
          by (simp only: take_add)
        finally show ?thesis
          using n by (intro exI [of _ "w + n"]) (simp only: take_whole_split)
      qed
    qed
  qed
qed

lemma pwrite_all_ok:
  assumes "pwrite_all rs src offset out = Some (s, out', rs')" and "status_ok s"
    and "unat offset + length src \<le> length out" and "length out \<le> max_off_t"
  shows "out' = overwrite (unat offset) src out"
  using pwrite_all_inside [OF assms(1,3,4)] assms(2) by auto

section \<open>Properties\<close>

text \<open>
  Whatever the kernel answers, \<open>write_all\<close> appends a prefix of the source, and it returns OK
  exactly when that prefix is the whole source: no short write is ever reported as success.
\<close>

theorem write_all_reports_truth:
  assumes "write_all rs src out = Some (s, out', rs')"
  shows "\<exists>n. out' = out @ take n src \<and> (status_ok s \<longleftrightarrow> take n src = src)"
  using assms by (rule write_all_prefix)

theorem write_all_reports_truth_witness:
  "\<exists>n. [7, 1, 2] = [7] @ take n [1, 2, 3 :: u8]
    \<and> (status_ok (Status io_error ''write failed: E'') \<longleftrightarrow> take n [1, 2, 3 :: u8] = [1, 2, 3])"
  by (rule write_all_reports_truth [of "[Accepts 2, Interrupted, Refuses ''E'']" _ _ _ _ "[]"]) simp

definition progresses :: "write_response \<Rightarrow> bool" where
  "progresses r \<longleftrightarrow> (case r of Accepts k \<Rightarrow> 0 < k | Interrupted \<Rightarrow> True | Refuses e \<Rightarrow> False)"

definition accepting :: "write_response \<Rightarrow> bool" where
  "accepting r \<longleftrightarrow> (case r of Accepts k \<Rightarrow> True | _ \<Rightarrow> False)"

text \<open>A kernel that can still take \<open>n\<close> bytes one at a time.\<close>

definition can_accept :: "write_response list \<Rightarrow> nat \<Rightarrow> bool" where
  "can_accept rs n \<longleftrightarrow> list_all progresses rs \<and> n \<le> length (filter accepting rs)"

lemma can_accept_mono: "can_accept rs n \<Longrightarrow> m \<le> n \<Longrightarrow> can_accept rs m"
  by (simp add: can_accept_def)

lemma write_all_progress:
  assumes "can_accept rs (length src + extra)"
  shows "\<exists>rs'. write_all rs src out = Some (ok_status, out @ src, rs') \<and> can_accept rs' extra"
  using assms
proof (induction rs src out rule: write_all.induct)
  case (5 k rs b bs out)
  define w where "w = min k (length (b # bs))"
  have w: "w \<noteq> 0" "w \<le> length (b # bs)"
    using "5.prems" by (auto simp: w_def can_accept_def progresses_def)
  have "can_accept rs (length (drop w (b # bs)) + extra)"
    using "5.prems" w by (auto simp: can_accept_def accepting_def [of "Accepts k"])
  then obtain rs' where
    "write_all rs (drop w (b # bs)) (out @ take w (b # bs))
      = Some (ok_status, (out @ take w (b # bs)) @ drop w (b # bs), rs')" "can_accept rs' extra"
    using "5.IH" [OF w_def w(1)] by blast
  moreover from this(1) have "write_all (Accepts k # rs) (b # bs) out = Some (ok_status, out @ b # bs, rs')"
    using w(1) by (simp only: write_all.simps(5) Let_def w_def [symmetric] if_False append_assoc
        append_take_drop_id)
  ultimately show ?case
    by blast
qed (auto simp: can_accept_def progresses_def accepting_def)

lemma write_padding_progress:
  assumes "can_accept rs (unat n + extra)"
  shows "\<exists>rs'. write_padding rs n out = Some (ok_status, out @ replicate (unat n) 0, rs')
    \<and> can_accept rs' extra"
  using assms
proof (induction rs n out rule: write_padding.induct)
  case (1 rs n out)
  show ?case
  proof (cases "n = 0")
    case True
    with "1.prems" show ?thesis
      by (simp add: write_padding.simps)
  next
    case False
    let ?c = "min n 256"
    have diff: "unat (n - ?c) = unat n - unat ?c"
      by (rule unat_sub) simp
    have le: "unat ?c \<le> unat n"
      by (simp add: word_le_nat_alt [symmetric])
    have "can_accept rs (length (replicate (unat ?c) (0::u8)) + (unat (n - ?c) + extra))"
      using "1.prems" le by (simp add: diff)
    from write_all_progress [OF this, of out] obtain rs1 where
      w: "write_all rs (replicate (unat ?c) 0) out = Some (ok_status, out @ replicate (unat ?c) 0, rs1)"
      and can: "can_accept rs1 (unat (n - ?c) + extra)"
      by blast
    from "1.IH" [OF False refl w refl refl _ can] obtain rs' where
      "write_padding rs1 (n - ?c) (out @ replicate (unat ?c) 0)
        = Some (ok_status, (out @ replicate (unat ?c) 0) @ replicate (unat (n - ?c)) 0, rs')"
      "can_accept rs' extra"
      by auto
    then show ?thesis
      using False w le by (simp add: write_padding.simps [of rs n] Let_def diff replicate_chunk)
  qed
qed

text \<open>
  The loop ends: if every call is either interrupted or accepts at least one byte, and the
  kernel accepts as many times as the source has bytes, \<open>write_all\<close> returns OK with the whole
  source written, however short the individual writes and however many interruptions.
\<close>

theorem write_all_completes:
  assumes "list_all progresses rs" and "length src \<le> length (filter accepting rs)"
  shows "\<exists>rs'. write_all rs src out = Some (ok_status, out @ src, rs')"
  using write_all_progress [of rs src 0 out] assms by (auto simp: can_accept_def)

theorem write_all_completes_witness:
  "\<exists>rs'. write_all [Interrupted, Accepts 1, Accepts 5, Interrupted, Accepts 9] [1, 2, 3] [7]
    = Some (ok_status, [7] @ [1, 2, 3], rs')"
  by (rule write_all_completes) (simp_all add: progresses_def accepting_def)

end
