(* ===== verification/ArtifactWrite.thy ===== *)
theory ArtifactWrite
  imports ArtifactRead PosixIO
begin

text \<open>
  \<open>ArtifactWriter::write\<close> of \<^verbatim>\<open>src/artifact.cpp\<close>: validation, the layout of header, directory,
  name table and payloads, the sequence of writes into a temporary file, and its installation by
  \<open>rename\<close>. The file system is a map from paths to contents; the kernel's answers are arguments.
\<close>

section \<open>The code\<close>

subsection \<open>Directory and name table\<close>

definition make_entry :: "nat \<Rightarrow> tensor_write_request \<Rightarrow> disk_tensor_entry" where
  "make_entry strings_size request =
     \<lparr> e_name_offset = of_nat strings_size,
       e_name_bytes = of_nat (length (wr_name request)),
       e_dtype = dtype_code (wr_dtype request),
       e_quantization = quantization_code (wr_quantization request),
       e_rank = of_nat (length (wr_dimensions request)),
       e_flags = 0,
       e_alignment = wr_alignment request,
       e_dimensions = wr_dimensions request @ replicate (4 - length (wr_dimensions request)) 0,
       e_data_offset = 0,
       e_data_bytes = of_nat (length (wr_data request)),
       e_aux_offset = 0,
       e_aux_bytes = of_nat (length (wr_auxiliary request)),
       e_data_crc64 = crc64_ecma (wr_data request),
       e_reserved = replicate 32 0 \<rparr>"

fun collect_entries ::
  "string list \<Rightarrow> bytes \<Rightarrow> tensor_write_request list \<Rightarrow> (disk_tensor_entry list \<times> bytes) result"
where
  "collect_entries unique_names strings [] = Inr ([], strings)"
| "collect_entries unique_names strings (request # rest) =
     (if \<not> valid_name (wr_name request) \<or> wr_name request \<in> set unique_names
         \<or> length (wr_dimensions request) > 4 \<or> wr_data request = []
         \<or> unat (wr_alignment request) < kFileAlignment
         \<or> wr_alignment request AND (wr_alignment request - 1) \<noteq> 0
      then Err invalid_argument (''invalid tensor write request: '' @ wr_name request)
      else result_bind
        (collect_entries (wr_name request # unique_names)
          (strings @ bytes_of_string (wr_name request)) rest)
        (\<lambda>(entries, all_strings). Inr (make_entry (length strings) request # entries, all_strings)))"

subsection \<open>Payload offsets\<close>

fun place_payloads :: "u64 \<Rightarrow> disk_tensor_entry list \<Rightarrow> (disk_tensor_entry list \<times> u64) result" where
  "place_payloads cursor [] = Inr ([], cursor)"
| "place_payloads cursor (e # es) =
     (let data_offset = align_up cursor (ucast (e_alignment e)) in
      if data_offset = 0 then Err invalid_argument ''artifact payload offset overflow''
      else let after_data = data_offset + e_data_bytes e in
        if e_aux_bytes e = 0 then
          result_bind (place_payloads after_data es) (\<lambda>(es', end).
            Inr (e\<lparr>e_data_offset := data_offset\<rparr> # es', end))
        else let aux_offset = align_up after_data (ucast (e_alignment e)) in
          if aux_offset = 0 then Err invalid_argument ''artifact auxiliary offset overflow''
          else result_bind (place_payloads (aux_offset + e_aux_bytes e) es) (\<lambda>(es', end).
            Inr (e\<lparr>e_data_offset := data_offset, e_aux_offset := aux_offset\<rparr> # es', end)))"

subsection \<open>Header\<close>

definition identity_fields :: "artifact_identity \<Rightarrow> (bytes \<times> bytes \<times> bytes \<times> bytes) option" where
  "identity_fields identity =
     (case (set_fixed 16 (target_arch identity), set_fixed 32 (model_id identity),
            set_fixed 32 (weights_id identity), set_fixed 64 (recipe_id identity)) of
        (Some a, Some b, Some c, Some d) \<Rightarrow> Some (a, b, c, d)
      | _ \<Rightarrow> None)"

definition make_header ::
  "bytes \<times> bytes \<times> bytes \<times> bytes \<Rightarrow> nat \<Rightarrow> nat \<Rightarrow> u64 \<Rightarrow> u64 \<Rightarrow> u64 \<Rightarrow> disk_header"
where
  "make_header ids tensor_count strings_bytes data_offset file_bytes manifest_crc64 =
     (case ids of (arch, model, weights, recipe) \<Rightarrow>
     \<lparr> h_magic = kMagic,
       h_version = kArtifactVersion,
       h_header_bytes = of_nat sizeof_DiskHeader,
       h_endian_tag = kEndianTag,
       h_flags = 0,
       h_directory_offset = of_nat sizeof_DiskHeader,
       h_tensor_count = of_nat tensor_count,
       h_directory_entry_bytes = of_nat sizeof_DiskTensorEntry,
       h_strings_offset = of_nat sizeof_DiskHeader + of_nat (tensor_count * sizeof_DiskTensorEntry),
       h_strings_bytes = of_nat strings_bytes,
       h_data_offset = data_offset,
       h_data_bytes = file_bytes - data_offset,
       h_file_bytes = file_bytes,
       h_manifest_crc64 = manifest_crc64,
       h_target_arch = arch,
       h_model_id = model,
       h_weights_id = weights,
       h_recipe_id = recipe,
       h_reserved = replicate 24 0 \<rparr>)"

definition manifest_of :: "disk_tensor_entry list \<Rightarrow> bytes \<Rightarrow> bytes" where
  "manifest_of entries strings = concat (map encode_entry entries) @ strings"

definition writer_layout ::
  "artifact_identity \<Rightarrow> tensor_write_request list
    \<Rightarrow> (disk_header \<times> disk_tensor_entry list \<times> bytes) result"
where
  "writer_layout identity tensors =
     (if length tensors > max_u32 then Err invalid_argument ''too many tensors for .gfxi v1''
      else case identity_fields identity of
        None \<Rightarrow> Err invalid_argument ''artifact identity is empty or too long''
      | Some ids \<Rightarrow>
          result_bind (collect_entries [] [] tensors) (\<lambda>(entries, strings).
            let strings_offset =
                  of_nat sizeof_DiskHeader + of_nat (length entries * sizeof_DiskTensorEntry) :: u64;
                data_offset = align_up (strings_offset + of_nat (length strings)) (of_nat kFileAlignment)
            in if data_offset = 0 then Err invalid_argument ''artifact size overflow''
            else result_bind (place_payloads data_offset entries) (\<lambda>(placed_entries, end).
              let manifest = manifest_of placed_entries strings in
              Inr (make_header ids (length tensors) (length strings) data_offset end
                     (crc64_ecma manifest),
                   placed_entries, manifest))))"

subsection \<open>Emission\<close>

text \<open>The state of the open temporary file: the kernel's remaining answers and the bytes in it.\<close>

type_synonym file_out = "write_response list \<times> bytes"

definition out_step ::
  "(write_response list \<Rightarrow> bytes \<Rightarrow> (status \<times> bytes \<times> write_response list) option)
    \<Rightarrow> file_out \<Rightarrow> (status \<times> file_out) option" where
  "out_step f st = (case f (fst st) (snd st) of
      None \<Rightarrow> None | Some (s, out, rs) \<Rightarrow> Some (s, (rs, out)))"

text \<open>\<open>if (!status.ok()) return finish(status);\<close> after each step.\<close>

definition and_then ::
  "(status \<times> file_out) option \<Rightarrow> (file_out \<Rightarrow> (status \<times> file_out) option) \<Rightarrow> (status \<times> file_out) option" where
  "and_then r f = (case r of None \<Rightarrow> None
      | Some (s, st) \<Rightarrow> if status_ok s then f st else Some (s, st))"

definition put :: "bytes \<Rightarrow> file_out \<Rightarrow> (status \<times> file_out) option" where
  "put src = out_step (\<lambda>rs out. write_all rs src out)"

definition pad :: "u64 \<Rightarrow> file_out \<Rightarrow> (status \<times> file_out) option" where
  "pad n = out_step (\<lambda>rs out. write_padding rs n out)"

fun emit_tensors ::
  "u64 \<Rightarrow> (tensor_write_request \<times> disk_tensor_entry) list \<Rightarrow> file_out \<Rightarrow> (status \<times> file_out) option"
where
  "emit_tensors cursor [] st = Some (ok_status, st)"
| "emit_tensors cursor ((request, e) # rest) st =
     and_then (pad (e_data_offset e - cursor) st) (\<lambda>st.
     and_then (put (wr_data request) st) (\<lambda>st.
       if e_aux_bytes e = 0 then emit_tensors (e_data_offset e + e_data_bytes e) rest st
       else
         and_then (pad (e_aux_offset e - (e_data_offset e + e_data_bytes e)) st) (\<lambda>st.
         and_then (put (wr_auxiliary request) st) (\<lambda>st.
           emit_tensors (e_aux_offset e + e_aux_bytes e) rest st))))"

definition emit_artifact ::
  "disk_header \<Rightarrow> bytes \<Rightarrow> (tensor_write_request \<times> disk_tensor_entry) list \<Rightarrow> file_out
    \<Rightarrow> (status \<times> file_out) option"
where
  "emit_artifact h manifest tensors st =
     and_then (put (encode_header h) st) (\<lambda>st.
     and_then (put manifest st) (\<lambda>st.
     and_then (pad (h_data_offset h - (h_strings_offset h + h_strings_bytes h)) st) (\<lambda>st.
       emit_tensors (h_data_offset h) tensors st)))"

subsection \<open>Temporary file and installation\<close>

type_synonym file_system = "string \<Rightarrow> bytes option"

record write_env =
  we_pid :: nat
  we_create_error :: "string option"
  we_exists_error :: string
  we_responses :: "write_response list"
  we_fsync_error :: "string option"
  we_rename_error :: "string option"
  we_unlink_error :: "string option"

definition temporary_path :: "string \<Rightarrow> nat \<Rightarrow> string" where
  "temporary_path path pid = path @ ''.tmp.'' @ to_string pid"

text \<open>\<open>O_CREAT | O_EXCL\<close> refuses an existing path.\<close>

definition create_exclusive :: "write_env \<Rightarrow> file_system \<Rightarrow> string \<Rightarrow> string option" where
  "create_exclusive env fs temporary =
     (if fs temporary \<noteq> None then Some (we_exists_error env) else we_create_error env)"

text \<open>The result of \<open>::unlink\<close> is ignored: when it fails, the file stays.\<close>

definition unlink_file :: "string option \<Rightarrow> string \<Rightarrow> file_system \<Rightarrow> file_system" where
  "unlink_file unlink_error path fs = (if unlink_error = None then fs(path := None) else fs)"

text \<open>\<open>finish\<close> closes the descriptor and unlinks the temporary file unless the write succeeded.\<close>

definition finish_failed :: "write_env \<Rightarrow> status \<Rightarrow> file_system \<Rightarrow> string \<Rightarrow> status \<times> file_system" where
  "finish_failed env s fs temporary = (s, unlink_file (we_unlink_error env) temporary fs)"

definition artifact_write ::
  "write_env \<Rightarrow> string \<Rightarrow> artifact_identity \<Rightarrow> tensor_write_request list \<Rightarrow> file_system
    \<Rightarrow> (status \<times> file_system) option"
where
  "artifact_write env path identity tensors fs =
     (case writer_layout identity tensors of
        Inl s \<Rightarrow> Some (s, fs)
      | Inr (h, entries, manifest) \<Rightarrow>
          let temporary = temporary_path path (we_pid env) in
          case create_exclusive env fs temporary of
            Some e \<Rightarrow> Some (errno_status ''cannot create'' temporary e, fs)
          | None \<Rightarrow>
              case emit_artifact h manifest (zip tensors entries) (we_responses env, []) of
                None \<Rightarrow> None
              | Some (s, (rs, out)) \<Rightarrow>
                  let fs' = fs(temporary := Some out) in
                  if \<not> status_ok s then Some (finish_failed env s fs' temporary)
                  else case we_fsync_error env of
                    Some e \<Rightarrow> Some (finish_failed env (Status io_error (''fsync failed: '' @ e)) fs' temporary)
                  | None \<Rightarrow>
                      case we_rename_error env of
                        Some e \<Rightarrow>
                          Some (finish_failed env (errno_status ''cannot install artifact'' path e) fs' temporary)
                      | None \<Rightarrow> Some (ok_status, (fs'(temporary := None))(path := Some out)))"

section \<open>Abstract layout\<close>

text \<open>\<open>laid_out c es z\<close>: the payloads of \<open>es\<close> follow each other from \<open>c\<close> to \<open>z\<close>, aligned, in
  directory order, data before auxiliary bytes.\<close>

fun laid_out :: "nat \<Rightarrow> disk_tensor_entry list \<Rightarrow> nat \<Rightarrow> bool" where
  "laid_out c [] z \<longleftrightarrow> c = z"
| "laid_out c (e # es) z \<longleftrightarrow>
     (let d = unat (e_data_offset e); d' = d + unat (e_data_bytes e); a = unat (e_aux_offset e) in
      c \<le> d \<and> unat (e_alignment e) dvd d \<and>
      (if e_aux_bytes e = 0 then laid_out d' es z
       else d' \<le> a \<and> unat (e_alignment e) dvd a \<and> laid_out (a + unat (e_aux_bytes e)) es z))"

definition same_but_offsets :: "disk_tensor_entry \<Rightarrow> disk_tensor_entry \<Rightarrow> bool" where
  "same_but_offsets e e' \<longleftrightarrow> (\<exists>a b. e' = e\<lparr>e_data_offset := a, e_aux_offset := b\<rparr>)"

definition entry_valid :: "disk_tensor_entry \<Rightarrow> bool" where
  "entry_valid e \<longleftrightarrow> entry_shape e \<and> e_rank e \<le> 4 \<and> valid_dtype (e_dtype e)
     \<and> valid_quantization (e_quantization e) \<and> power_of_two (e_alignment e)
     \<and> kFileAlignment \<le> unat (e_alignment e) \<and> e_data_bytes e \<noteq> 0"

fun names_at :: "nat \<Rightarrow> string list \<Rightarrow> disk_tensor_entry list \<Rightarrow> bool" where
  "names_at off (n # ns) (e # es) \<longleftrightarrow>
     unat (e_name_offset e) = off \<and> unat (e_name_bytes e) = length n \<and> names_at (off + length n) ns es"
| "names_at off [] [] \<longleftrightarrow> True"
| "names_at off _ _ \<longleftrightarrow> False"

lemma laid_out_mono: "laid_out c es z \<Longrightarrow> c \<le> z"
proof (induction es arbitrary: c)
  case (Cons e es)
  then show ?case
    by (auto simp: Let_def split: if_splits dest!: Cons.IH)
qed simp

lemma laid_out_bounds:
  assumes "laid_out c es z" and "e \<in> set es"
  shows "c \<le> unat (e_data_offset e) \<and> unat (e_data_offset e) + unat (e_data_bytes e) \<le> z
    \<and> unat (e_alignment e) dvd unat (e_data_offset e)
    \<and> (e_aux_bytes e \<noteq> 0 \<longrightarrow> c \<le> unat (e_aux_offset e)
        \<and> unat (e_aux_offset e) + unat (e_aux_bytes e) \<le> z
        \<and> unat (e_alignment e) dvd unat (e_aux_offset e))"
  using assms
proof (induction es arbitrary: c)
  case Nil
  then show ?case by simp
next
  case (Cons x es)
  define d a where "d = unat (e_data_offset x) + unat (e_data_bytes x)"
    and "a = unat (e_aux_offset x) + unat (e_aux_bytes x)"
  define c' where "c' = (if e_aux_bytes x = 0 then d else a)"
  have x: "c \<le> unat (e_data_offset x)" "unat (e_alignment x) dvd unat (e_data_offset x)"
    and aux: "e_aux_bytes x \<noteq> 0 \<Longrightarrow> d \<le> unat (e_aux_offset x)
      \<and> unat (e_alignment x) dvd unat (e_aux_offset x)"
    and rest: "laid_out c' es z"
    using Cons.prems(1) by (simp_all add: Let_def d_def a_def c'_def split: if_splits)
  have le: "d \<le> c'" "e_aux_bytes x \<noteq> 0 \<Longrightarrow> a = c'" "c \<le> d"
    using aux x(1) by (auto simp: c'_def a_def d_def)
  note z = laid_out_mono [OF rest]
  show ?case
  proof (cases "e = x")
    case True
    then show ?thesis
      using x aux le z by (auto simp: d_def a_def)
  next
    case False
    with Cons.prems(2) have "e \<in> set es"
      by simp
    from Cons.IH [OF rest this] show ?thesis
      using le by auto
  qed
qed

lemma same_but_offsets_fields:
  assumes "same_but_offsets e e'"
  shows "e_name_offset e' = e_name_offset e" "e_name_bytes e' = e_name_bytes e"
    "e_dtype e' = e_dtype e" "e_quantization e' = e_quantization e" "e_rank e' = e_rank e"
    "e_flags e' = e_flags e" "e_alignment e' = e_alignment e" "e_dimensions e' = e_dimensions e"
    "e_data_bytes e' = e_data_bytes e" "e_aux_bytes e' = e_aux_bytes e"
    "e_data_crc64 e' = e_data_crc64 e" "e_reserved e' = e_reserved e"
  using assms by (auto simp: same_but_offsets_def)

lemma same_but_offsets_valid:
  "same_but_offsets e e' \<Longrightarrow> entry_valid e' \<longleftrightarrow> entry_valid e"
  by (auto simp: same_but_offsets_def entry_valid_def entry_shape_def)

lemma same_but_offsets_names:
  "list_all2 same_but_offsets es es' \<Longrightarrow> names_at off ns es' \<longleftrightarrow> names_at off ns es"
  by (induction off ns es arbitrary: es' rule: names_at.induct)
    (auto simp: list_all2_Cons1 same_but_offsets_fields)

section \<open>Opening a file that follows the layout\<close>

definition name_table :: "string list \<Rightarrow> bytes" where
  "name_table names = concat (map bytes_of_string names)"

definition artifact_image ::
  "artifact_identity \<Rightarrow> string list \<Rightarrow> disk_tensor_entry list \<Rightarrow> u64 \<Rightarrow> bytes \<Rightarrow> bool"
where
  "artifact_image identity names entries data_offset file \<longleftrightarrow>
     (\<exists>ids h. identity_fields identity = Some ids
       \<and> h = make_header ids (length entries) (length (name_table names)) data_offset
               (of_nat (length file)) (crc64_ecma (manifest_of entries (name_table names)))
       \<and> slice 0 sizeof_DiskHeader file = encode_header h)
     \<and> slice sizeof_DiskHeader (length (manifest_of entries (name_table names))) file
        = manifest_of entries (name_table names)
     \<and> sizeof_DiskHeader + length (manifest_of entries (name_table names)) \<le> unat data_offset
     \<and> length file \<le> max_off_t \<and> length entries \<le> max_u32
     \<and> laid_out (unat data_offset) entries (length file)
     \<and> list_all entry_valid entries
     \<and> names_at 0 names entries \<and> distinct names \<and> list_all valid_name names
     \<and> list_all (\<lambda>e. crc64_ecma (slice (unat (e_data_offset e)) (unat (e_data_bytes e)) file)
          = e_data_crc64 e) entries"

definition no_nul :: "artifact_identity \<Rightarrow> bool" where
  "no_nul i \<longleftrightarrow> (\<forall>s \<in> {target_arch i, model_id i, weights_id i, recipe_id i}. CHR 0x00 \<notin> set s)"

lemma fixed_string_set_fixed:
  "set_fixed N s = Some bs \<Longrightarrow> CHR 0x00 \<notin> set s \<Longrightarrow> fixed_string bs = s \<and> s \<noteq> [] \<and> length bs = N"
proof -
  assume "set_fixed N s = Some bs" and nul: "CHR 0x00 \<notin> set s"
  then have bs: "bs = bytes_of_string s @ replicate (N - length s) 0" and s: "s \<noteq> []" "length s < N"
    by (auto simp: set_fixed_def split: if_splits)
  have "byte_of_char c \<noteq> 0" if "c \<in> set s" for c
  proof
    assume "byte_of_char c = 0"
    then have "char_of_byte (byte_of_char c) = CHR 0x00"
      by (simp add: char_of_byte_def char_of_eq_iff)
    with that nul show False by simp
  qed
  then have "takeWhile (\<lambda>b. b \<noteq> 0) (bytes_of_string s @ replicate (N - length s) 0)
      = bytes_of_string s @ takeWhile (\<lambda>b. b \<noteq> 0) (replicate (N - length s) 0)"
    by (intro takeWhile_append2) (auto simp: bytes_of_string_def)
  moreover have "takeWhile (\<lambda>b. b \<noteq> 0) (replicate (N - length s) (0::u8)) = []"
    by (cases "N - length s") simp_all
  ultimately show ?thesis
    using s by (simp add: fixed_string_def bs)
qed

lemma identity_fields_facts:
  assumes "identity_fields identity = Some ids" and "no_nul identity"
  shows "header_shape (make_header ids n m d f c)"
    and "header_identity (make_header ids n m d f c) = identity"
    and "identity_complete identity"
proof -
  from assms(1) obtain a b c' d' where
    ids: "ids = (a, b, c', d')"
    and f: "set_fixed 16 (target_arch identity) = Some a" "set_fixed 32 (model_id identity) = Some b"
      "set_fixed 32 (weights_id identity) = Some c'" "set_fixed 64 (recipe_id identity) = Some d'"
    by (auto simp: identity_fields_def split: option.splits)
  note s = f [THEN fixed_string_set_fixed]
  show "header_shape (make_header ids n m d f c)"
    and "header_identity (make_header ids n m d f c) = identity"
    and "identity_complete identity"
    using s assms(2)
    by (simp_all add: ids make_header_def header_shape_def header_identity_def identity_complete_def
        no_nul_def kMagic_def)
qed

lemma artifact_image_header:
  assumes "artifact_image identity names entries data_offset contents"
  obtains ids h where "identity_fields identity = Some ids"
    and "h = make_header ids (length entries) (length (name_table names)) data_offset
      (of_nat (length contents)) (crc64_ecma (manifest_of entries (name_table names)))"
    and "slice 0 sizeof_DiskHeader contents = encode_header h"
  using assms by (auto simp: artifact_image_def)

lemma length_manifest_of:
  "list_all entry_valid entries \<Longrightarrow>
   length (manifest_of entries strings) = sizeof_DiskTensorEntry * length entries + length strings"
  by (simp add: manifest_of_def entry_codec.table_length list_all_iff entry_valid_def)

text \<open>The header of an image passes the reader's checks.\<close>

lemma artifact_image_check:
  assumes img: "artifact_image identity names entries data_offset contents" and plain: "no_nul identity"
    and h: "h = decode_header (slice 0 sizeof_DiskHeader contents)"
  shows "check_header verify contents h = Inr ()" and "header_identity h = identity"
    and "sizeof_DiskHeader \<le> length contents"
    and "unat (h_directory_offset h) = sizeof_DiskHeader"
    and "unat (h_tensor_count h) = length entries"
    and "unat (h_strings_offset h) = sizeof_DiskHeader + sizeof_DiskTensorEntry * length entries"
    and "unat (h_strings_bytes h) = length (name_table names)"
    and "h_data_offset h = data_offset"
    and "unat (h_file_bytes h) = length contents"
proof -
  obtain ids h0 where ids: "identity_fields identity = Some ids"
    and h0: "h0 = make_header ids (length entries) (length (name_table names)) data_offset
      (of_nat (length contents)) (crc64_ecma (manifest_of entries (name_table names)))"
    and enc: "slice 0 sizeof_DiskHeader contents = encode_header h0"
    using img by (rule artifact_image_header)
  note idf = identity_fields_facts [OF ids plain]
  have hh: "h = h0"
    by (simp add: h enc header_codec.dec_enc h0 idf)
  let ?n = "length entries" and ?s = "length (name_table names)"
  have fields: "h_magic h0 = kMagic" "h_version h0 = kArtifactVersion"
    "h_header_bytes h0 = of_nat sizeof_DiskHeader" "h_endian_tag h0 = kEndianTag"
    "h_directory_offset h0 = of_nat sizeof_DiskHeader" "h_tensor_count h0 = of_nat ?n"
    "h_directory_entry_bytes h0 = of_nat sizeof_DiskTensorEntry"
    "h_strings_offset h0 = of_nat sizeof_DiskHeader + of_nat (?n * sizeof_DiskTensorEntry)"
    "h_strings_bytes h0 = of_nat ?s" "h_data_offset h0 = data_offset"
    "h_data_bytes h0 = of_nat (length contents) - data_offset"
    "h_file_bytes h0 = of_nat (length contents)"
    "h_manifest_crc64 h0 = crc64_ecma (manifest_of entries (name_table names))"
    by (simp_all add: h0 make_header_def split_beta)
  have valid: "list_all entry_valid entries" and count: "?n \<le> max_u32"
    and space: "sizeof_DiskHeader + length (manifest_of entries (name_table names)) \<le> unat data_offset"
    and laid: "laid_out (unat data_offset) entries (length contents)"
    and limit: "length contents \<le> max_off_t"
    and man: "slice sizeof_DiskHeader (length (manifest_of entries (name_table names))) contents
        = manifest_of entries (name_table names)"
    using img by (auto simp: artifact_image_def)
  note lm = length_manifest_of [OF valid, of "name_table names"]
  have "unat data_offset \<le> length contents"
    using laid by (rule laid_out_mono)
  then have total: "sizeof_DiskHeader + (sizeof_DiskTensorEntry * ?n + ?s) \<le> unat data_offset"
      "unat data_offset \<le> length contents" "length contents < 2 ^ 63"
    using space limit by (simp_all add: lm max_off_t_def)
  then show "sizeof_DiskHeader \<le> length contents"
    by linarith
  have small: "?n < 2 ^ 32"
    using count by (simp add: max_u32_def)
  have count_n: "unat (of_nat ?n :: u32) = ?n"
    using small by (simp add: unat_of_nat)
  have dirb: "directory_bytes_of h0 = of_nat (?n * sizeof_DiskTensorEntry)"
  proof (rule word_unat_eqI)
    have "unat (of_nat (?n * sizeof_DiskTensorEntry) :: u64) = ?n * sizeof_DiskTensorEntry"
      using small by (intro u64_of_nat) (simp add: sizeof_DiskTensorEntry_def)
    then show "unat (directory_bytes_of h0) = unat (of_nat (?n * sizeof_DiskTensorEntry) :: u64)"
      by (simp only: directory_bytes_nat) (simp add: fields count_n)
  qed
  have sums:
    "unat (of_nat sizeof_DiskHeader :: u64) = sizeof_DiskHeader"
    "unat (of_nat (?n * sizeof_DiskTensorEntry) :: u64) = sizeof_DiskTensorEntry * ?n"
    "unat (of_nat ?s :: u64) = ?s"
    "unat (of_nat sizeof_DiskHeader + of_nat (?n * sizeof_DiskTensorEntry) :: u64)
      = sizeof_DiskHeader + sizeof_DiskTensorEntry * ?n"
    "unat (of_nat (?n * sizeof_DiskTensorEntry) + of_nat ?s :: u64) = sizeof_DiskTensorEntry * ?n + ?s"
    "unat (of_nat (length contents) :: u64) = length contents"
    using total by (simp_all add: u64_of_nat [simplified] u64_of_nat_add [simplified] mult.commute
        del: of_nat_mult of_nat_add)
  show "header_identity h = identity"
    by (simp add: hh h0 idf)
  show "unat (h_directory_offset h) = sizeof_DiskHeader"
    and "unat (h_tensor_count h) = ?n"
    and "unat (h_strings_offset h) = sizeof_DiskHeader + sizeof_DiskTensorEntry * ?n"
    and "unat (h_strings_bytes h) = ?s"
    and "h_data_offset h = data_offset"
    and "unat (h_file_bytes h) = length contents"
    using sums count_n by (simp_all add: hh fields del: of_nat_mult)
  show "check_header verify contents h = Inr ()"
  proof -
    have man_bytes: "slice (unat (h_directory_offset h0)) (unat (directory_bytes_of h0 + h_strings_bytes h0)) contents
        = manifest_of entries (name_table names)"
      using man lm sums by (simp add: fields dirb del: of_nat_mult)
    have strings_end: "unat (h_strings_offset h0 + h_strings_bytes h0)
        = sizeof_DiskHeader + (sizeof_DiskTensorEntry * ?n + ?s)"
      using sums total by (subst u64_add) (simp_all add: fields del: of_nat_mult)
    have data_bytes: "unat (h_data_bytes h0) = length contents - unat data_offset"
      using sums total(2) by (simp add: fields unat_sub word_le_nat_alt del: of_nat_mult)
    have ranges: "range_valid (h_directory_offset h0) (directory_bytes_of h0) (h_file_bytes h0)"
      "range_valid (h_strings_offset h0) (h_strings_bytes h0) (h_file_bytes h0)"
      "range_valid (h_data_offset h0) (h_data_bytes h0) (h_file_bytes h0)"
      "\<not> h_data_offset h0 < h_strings_offset h0 + h_strings_bytes h0"
      "h_strings_offset h0 = h_directory_offset h0 + directory_bytes_of h0"
      using sums total data_bytes strings_end
      by (simp_all add: range_valid_nat dirb word_less_nat_alt fields del: of_nat_mult)
    have constants: "h_magic h0 = kMagic" "h_version h0 = kArtifactVersion"
      "unat (h_header_bytes h0) = sizeof_DiskHeader" "h_endian_tag h0 = kEndianTag"
      "unat (h_directory_entry_bytes h0) = sizeof_DiskTensorEntry"
      "unat (h_file_bytes h0) = length contents"
      "h_manifest_crc64 h0 = crc64_ecma (manifest_of entries (name_table names))"
      using sums by (simp_all add: fields sizeof_DiskHeader_def sizeof_DiskTensorEntry_def)
    have "identity_complete (header_identity h0)"
      by (simp add: h0 idf)
    with ranges constants man_bytes show ?thesis
      by (simp add: check_header_def Let_def hh)
  qed
qed

lemma read_entry_image:
  assumes "entry_valid e" and "valid_name n" and "n \<notin> set seen"
    and "read_name contents h e = n"
    and "unat (e_name_offset e) + unat (e_name_bytes e) \<le> unat (h_strings_bytes h)"
    and "unat (e_name_bytes e) = length n"
    and "unat (h_file_bytes h) = length contents"
    and "unat (h_data_offset h) \<le> unat (e_data_offset e)"
    and "unat (e_data_offset e) + unat (e_data_bytes e) \<le> length contents"
    and "unat (e_alignment e) dvd unat (e_data_offset e)"
    and "e_aux_bytes e \<noteq> 0 \<Longrightarrow> unat (h_data_offset h) \<le> unat (e_aux_offset e)
      \<and> unat (e_aux_offset e) + unat (e_aux_bytes e) \<le> length contents
      \<and> unat (e_alignment e) dvd unat (e_aux_offset e)"
    and "crc64_ecma (slice (unat (e_data_offset e)) (unat (e_data_bytes e)) contents) = e_data_crc64 e"
  shows "read_entry verify contents h seen e = Inr (descriptor_of n e)"
proof -
  have "e_name_bytes e \<noteq> 0"
    using assms(2,6) by (auto simp: valid_name_def)
  moreover have "e_alignment e AND (e_alignment e - 1) = 0" "\<not> unat (e_alignment e) < kFileAlignment"
    using assms(1) by (simp_all add: entry_valid_def power_of_two_def not_less)
  moreover have "range_valid (e_name_offset e) (ucast (e_name_bytes e)) (h_strings_bytes h)"
    using assms(5) by (simp add: range_valid_nat)
  moreover have "range_valid (e_data_offset e) (e_data_bytes e) (h_file_bytes h)"
    "\<not> e_data_offset e < h_data_offset h" "e_data_offset e mod ucast (e_alignment e) = 0"
    using assms by (simp_all add: range_valid_nat word_less_nat_alt mod_alignment)
  moreover have "\<not> (e_aux_bytes e \<noteq> 0 \<and> (e_aux_offset e mod ucast (e_alignment e) \<noteq> 0
      \<or> \<not> range_valid (e_aux_offset e) (e_aux_bytes e) (h_file_bytes h)
      \<or> e_aux_offset e < h_data_offset h))"
    using assms(7,11) by (auto simp: range_valid_nat word_less_nat_alt mod_alignment)
  moreover have "\<not> (e_rank e > 4 \<or> \<not> valid_dtype (e_dtype e) \<or> \<not> valid_quantization (e_quantization e))"
    using assms(1) by (auto simp: entry_valid_def)
  ultimately show ?thesis
    using assms(2,3,4,12) by (simp add: read_entry_def Let_def)
qed

lemma read_name_image:
  assumes strings: "slice (unat (h_strings_offset h)) (length strings) contents = strings"
    and within: "unat (e_name_offset e) + length n \<le> length strings"
    and here: "take (length n) (drop (unat (e_name_offset e)) strings) = bytes_of_string n"
    and len: "unat (e_name_bytes e) = length n"
  shows "read_name contents h e = n"
proof -
  have "slice (unat (h_strings_offset h) + unat (e_name_offset e)) (length n) contents
      = slice (unat (e_name_offset e)) (length n) (slice (unat (h_strings_offset h)) (length strings) contents)"
    using within by (simp add: slice_slice)
  also have "\<dots> = bytes_of_string n"
    unfolding strings using here by (simp only: slice_def)
  finally show ?thesis
    by (simp add: read_name_def len)
qed

lemma read_entries_image:
  assumes strings: "slice (unat (h_strings_offset h)) (length (name_table names)) contents = name_table names"
    and sizes: "unat (h_strings_bytes h) = length (name_table names)"
      "unat (h_file_bytes h) = length contents"
    and crcs: "list_all (\<lambda>e. crc64_ecma (slice (unat (e_data_offset e)) (unat (e_data_bytes e)) contents)
          = e_data_crc64 e) es"
    and "list_all entry_valid es" and "list_all valid_name ns" and "distinct ns"
    and "set ns \<inter> set seen = {}"
    and "names_at off ns es" and "drop off (name_table names) = name_table ns"
    and "off + length (name_table ns) = length (name_table names)"
    and "laid_out c es (length contents)" and "unat (h_data_offset h) \<le> c"
  shows "read_entries verify contents h seen es = Inr (map2 descriptor_of ns es)"
  using assms(4-)
proof (induction off ns es arbitrary: seen c rule: names_at.induct)
  case (1 off n ns e es)
  note bounds = laid_out_bounds [OF "1.prems"(9), of e, simplified]
  have e: "unat (e_name_offset e) = off" "unat (e_name_bytes e) = length n"
    and rest: "names_at (off + length n) ns es"
    using "1.prems"(6) by simp_all
  have split: "drop off (name_table names) = bytes_of_string n @ name_table ns"
    using "1.prems"(7) by (simp add: name_table_def)
  have len: "off + length n + length (name_table ns) = length (name_table names)"
    using "1.prems"(8) by (simp add: name_table_def)
  have name: "read_name contents h e = n"
    using len split by (intro read_name_image [OF strings]) (simp_all add: e)
  have entry: "read_entry verify contents h seen e = Inr (descriptor_of n e)"
    using "1.prems" bounds name len sizes by (intro read_entry_image) (auto simp: e)
  have drop: "drop (off + length n) (name_table names) = name_table ns"
    using split by (metis add.commute append_eq_conv_conj drop_drop length_bytes_of_string)
  define c' where "c' = (if e_aux_bytes e = 0 then unat (e_data_offset e) + unat (e_data_bytes e)
    else unat (e_aux_offset e) + unat (e_aux_bytes e))"
  have laid: "laid_out c' es (length contents)"
    using "1.prems"(9) by (simp add: Let_def c'_def split: if_splits)
  have "unat (h_data_offset h) \<le> c'"
    using bounds "1.prems"(10) by (auto simp: c'_def)
  then have "read_entries verify contents h (n # seen) es = Inr (map2 descriptor_of ns es)"
    using "1.prems" rest drop len laid by (intro "1.IH" [where c = c']) auto
  then show ?case
    using entry by (simp add: descriptor_of_def)
qed auto

lemma sorted_chain:
  assumes "sorted_wrt (\<lambda>a b. snd a \<le> fst b) rs" and "list_all (\<lambda>r. fst r < snd r) rs"
  shows "sorted (rs :: (u64 \<times> u64) list) \<and> \<not> ranges_overlap rs"
proof -
  have "sorted_wrt (\<lambda>a b. a \<le> b) rs"
    using assms
  proof (induction rs)
    case (Cons r rs)
    then have "r \<le> x" if "x \<in> set rs" for x
      using that by (auto simp: less_eq_prod_def intro: less_le_trans)
    with Cons show ?case by simp
  qed simp
  moreover have "\<not> ranges_overlap rs"
    using assms by (induction rs rule: ranges_overlap.induct) auto
  ultimately show ?thesis
    by simp
qed

definition entry_ranges :: "disk_tensor_entry \<Rightarrow> (u64 \<times> u64) list" where
  "entry_ranges e =
     (e_data_offset e, e_data_offset e + e_data_bytes e)
     # (if e_aux_bytes e \<noteq> 0 then [(e_aux_offset e, e_aux_offset e + e_aux_bytes e)] else [])"

lemma tensor_ranges_descriptor_of:
  "length ns = length es \<Longrightarrow> map tensor_ranges (map2 descriptor_of ns es) = map entry_ranges es"
  by (induction ns es rule: list_induct2)
    (simp_all add: tensor_ranges_def entry_ranges_def descriptor_of_def)

lemma laid_out_ranges:
  assumes "laid_out c es z" and "z < 2 ^ 64" and "list_all entry_valid es"
  shows "sorted_wrt (\<lambda>a b. snd a \<le> fst b) (concat (map entry_ranges es))
    \<and> list_all (\<lambda>r. fst r < snd r \<and> c \<le> unat (fst r)) (concat (map entry_ranges es))"
  using assms
proof (induction es arbitrary: c)
  case Nil
  then show ?case by simp
next
  case (Cons e es)
  let ?d = "unat (e_data_offset e)" and ?n = "unat (e_data_bytes e)"
    and ?a = "unat (e_aux_offset e)" and ?m = "unat (e_aux_bytes e)"
  define c' where "c' = (if e_aux_bytes e = 0 then ?d + ?n else ?a + ?m)"
  have laid: "laid_out c' es z" and first: "c \<le> ?d" "e_aux_bytes e \<noteq> 0 \<Longrightarrow> ?d + ?n \<le> ?a"
    using Cons.prems(1) by (simp_all add: Let_def c'_def split: if_splits)
  have le: "c' \<le> z"
    using laid by (rule laid_out_mono)
  have pos: "0 < ?n" "e_aux_bytes e \<noteq> 0 \<Longrightarrow> 0 < ?m"
    using Cons.prems(3) by (simp_all add: entry_valid_def unat_gt_0)
  have IH: "sorted_wrt (\<lambda>a b. snd a \<le> fst b) (concat (map entry_ranges es))"
      "list_all (\<lambda>r. fst r < snd r \<and> c' \<le> unat (fst r)) (concat (map entry_ranges es))"
    using Cons.IH [OF laid] Cons.prems by simp_all
  have "?d + ?n \<le> c'" "c \<le> c'"
    using first by (auto simp: c'_def)
  then have data_end: "unat (e_data_offset e + e_data_bytes e) = ?d + ?n"
    using le Cons.prems(2) by (intro u64_add) simp
  have aux_end: "e_aux_bytes e \<noteq> 0 \<Longrightarrow> unat (e_aux_offset e + e_aux_bytes e) = ?a + ?m"
    using le Cons.prems(2) by (intro u64_add) (simp add: c'_def)
  let ?R = "concat (map entry_ranges es)"
  have R: "c' \<le> unat (fst r)" "fst r < snd r" if "r \<in> set ?R" for r
    using IH(2) that by (auto simp: list_all_iff)
  have data: "e_data_offset e < e_data_offset e + e_data_bytes e"
    using pos(1) by (simp add: word_less_nat_alt data_end)
  show ?case
  proof (cases "e_aux_bytes e = 0")
    case True
    then have "c' = ?d + ?n"
      by (simp add: c'_def)
    then have "\<forall>r \<in> set ?R. e_data_offset e + e_data_bytes e \<le> fst r \<and> fst r < snd r \<and> c \<le> unat (fst r)"
      using R first(1) by (fastforce simp: word_le_nat_alt data_end)
    with True IH(1) first(1) data show ?thesis
      by (simp add: entry_ranges_def [of e] list_all_iff)
  next
    case False
    then have c': "c' = ?a + ?m"
      by (simp add: c'_def)
    have aux: "e_aux_offset e < e_aux_offset e + e_aux_bytes e"
        "e_data_offset e + e_data_bytes e \<le> e_aux_offset e" "c \<le> ?a"
      using False pos(2) first by (simp_all add: word_less_nat_alt word_le_nat_alt aux_end data_end)
    have "\<forall>r \<in> set ?R. e_aux_offset e + e_aux_bytes e \<le> fst r \<and> fst r < snd r \<and> c \<le> unat (fst r)"
      using R first(1) aux(3) c' False by (fastforce simp: word_le_nat_alt aux_end)
    moreover from this have "\<forall>r \<in> set ?R. e_data_offset e + e_data_bytes e \<le> fst r"
      using aux by force
    ultimately show ?thesis
      using False IH(1) first(1) data aux by (simp add: entry_ranges_def [of e] list_all_iff)
  qed
qed

lemma directory_image:
  assumes img: "artifact_image identity names entries data_offset contents" and plain: "no_nul identity"
    and h: "h = decode_header (slice 0 sizeof_DiskHeader contents)"
  shows "directory contents h = entries"
    and "slice (unat (h_strings_offset h)) (length (name_table names)) contents = name_table names"
proof -
  note hd = artifact_image_check [OF img plain h]
  let ?t = "concat (map encode_entry entries)" and ?s = "name_table names"
  have valid: "list_all entry_shape entries"
    and man: "slice sizeof_DiskHeader (length (manifest_of entries ?s)) contents = ?t @ ?s"
    using img by (auto simp: artifact_image_def entry_valid_def list_all_iff manifest_of_def)
  have lt: "length ?t = sizeof_DiskTensorEntry * length entries"
    using valid by (rule entry_codec.table_length)
  have lm: "length (manifest_of entries ?s) = length ?t + length ?s"
    by (simp add: manifest_of_def)
  have part: "slice (sizeof_DiskHeader + a) n contents = slice a n (?t @ ?s)"
    if "a + n \<le> length ?t + length ?s" for a n
    using that by (simp only: man [symmetric] slice_slice lm)
  show "slice (unat (h_strings_offset h)) (length ?s) contents = ?s"
    using part [of "length ?t" "length ?s"] lt by (simp add: hd(6) slice_simps)
  show "directory contents h = entries"
  proof (rule nth_equalityI)
    show "length (directory contents h) = length entries"
      by (simp add: directory_def hd(5))
    fix i assume "i < length (directory contents h)"
    then have i: "i < length entries"
      by (simp add: directory_def hd(5))
    then have "Suc i * sizeof_DiskTensorEntry \<le> length entries * sizeof_DiskTensorEntry"
      by (intro mult_le_mono1) simp
    then have fit: "sizeof_DiskTensorEntry * i + sizeof_DiskTensorEntry \<le> length ?t"
      by (simp only: lt mult_Suc) (simp add: mult.commute)
    then have "slice (sizeof_DiskHeader + sizeof_DiskTensorEntry * i) sizeof_DiskTensorEntry contents
        = slice (sizeof_DiskTensorEntry * i) sizeof_DiskTensorEntry ?t"
      by (subst part) (simp_all add: slice_within_left)
    also have "\<dots> = encode_entry (entries ! i)"
      using entry_codec.table_slice [OF valid i] .
    finally show "directory contents h ! i = entries ! i"
      using i valid by (simp add: directory_def hd(4,5) directory_entry_def entry_codec.dec_enc list_all_length)
  qed
qed

text \<open>A file that follows the layout opens, with or without verification, to the tensors of the
  directory under their names.\<close>

lemma artifact_open_image:
  assumes img: "artifact_image identity names entries data_offset contents" and plain: "no_nul identity"
  shows "artifact_open path verify (Mapped contents)
    = Inr \<lparr> av_mapping = contents, av_identity = identity, av_tensors = map2 descriptor_of names entries \<rparr>"
proof -
  define h where h: "h = decode_header (slice 0 sizeof_DiskHeader contents)"
  note hd = artifact_image_check [OF img plain h] and dir = directory_image [OF img plain h]
  have parts: "laid_out (unat data_offset) entries (length contents)" "list_all entry_valid entries"
    "names_at 0 names entries" "distinct names" "list_all valid_name names" "length contents \<le> max_off_t"
    "list_all (\<lambda>e. crc64_ecma (slice (unat (e_data_offset e)) (unat (e_data_bytes e)) contents)
          = e_data_crc64 e) entries"
    using img by (auto simp: artifact_image_def)
  have len: "length names = length entries"
  proof -
    have "names_at off ns es \<Longrightarrow> length ns = length es" for off ns es
      by (induction off ns es rule: names_at.induct) auto
    from this [OF parts(3)] show ?thesis .
  qed
  have entries: "read_entries verify contents h [] (directory contents h) = Inr (map2 descriptor_of names entries)"
    unfolding dir(1)
    by (rule read_entries_image [OF dir(2) hd(7,9) parts(7,2,5,4) _ parts(3) _ _ parts(1)])
      (simp_all add: hd(8))
  have "sorted (concat (map entry_ranges entries)) \<and> \<not> ranges_overlap (concat (map entry_ranges entries))"
    using laid_out_ranges [OF parts(1) _ parts(2)] parts(6)
    by (intro sorted_chain) (auto simp: max_off_t_def list_all_iff)
  then have "\<not> ranges_overlap (sort (concat (map tensor_ranges (map2 descriptor_of names entries))))"
    by (simp only: tensor_ranges_descriptor_of [OF len] sorted_sort_id not_False_eq_True)
  then show ?thesis
    using hd(1,2,3) entries by (simp add: artifact_open_def h [symmetric] Let_def not_less)
qed

section \<open>The writer produces the layout\<close>

fun make_entries :: "nat \<Rightarrow> tensor_write_request list \<Rightarrow> disk_tensor_entry list" where
  "make_entries off [] = []"
| "make_entries off (r # rs) = make_entry off r # make_entries (off + length (wr_name r)) rs"

definition request_ok :: "tensor_write_request \<Rightarrow> bool" where
  "request_ok r \<longleftrightarrow> valid_name (wr_name r) \<and> length (wr_dimensions r) \<le> 4 \<and> wr_data r \<noteq> []
     \<and> kFileAlignment \<le> unat (wr_alignment r) \<and> power_of_two (wr_alignment r)"

definition request_size :: "tensor_write_request \<Rightarrow> nat" where
  "request_size r = sizeof_DiskTensorEntry + length (wr_name r) + length (wr_data r)
     + length (wr_auxiliary r) + 2 * unat (wr_alignment r)"

definition writer_size :: "tensor_write_request list \<Rightarrow> nat" where
  "writer_size rs = 2 * kFileAlignment + sum_list (map request_size rs)"

lemma collect_entries_Inr:
  "collect_entries unique strings rs = Inr (es, all) \<Longrightarrow>
   es = make_entries (length strings) rs \<and> all = strings @ name_table (map wr_name rs)
   \<and> distinct (map wr_name rs) \<and> set (map wr_name rs) \<inter> set unique = {} \<and> list_all request_ok rs"
proof (induction unique strings rs arbitrary: es rule: collect_entries.induct)
  case (1 unique strings)
  then show ?case by (simp add: name_table_def)
next
  case (2 unique strings r rs)
  let ?bad = "\<not> valid_name (wr_name r) \<or> wr_name r \<in> set unique
         \<or> length (wr_dimensions r) > 4 \<or> wr_data r = []
         \<or> unat (wr_alignment r) < kFileAlignment
         \<or> wr_alignment r AND (wr_alignment r - 1) \<noteq> 0"
  from "2.prems" have good: "\<not> ?bad"
    by (auto split: if_splits)
  with "2.prems" obtain es' where
    es: "es = make_entry (length strings) r # es'"
    and rest: "collect_entries (wr_name r # unique) (strings @ bytes_of_string (wr_name r)) rs = Inr (es', all)"
    by (auto simp: split_beta)
  have "request_ok r"
    using good by (auto simp: request_ok_def power_of_two_def kFileAlignment_def)
  with "2.IH" [OF good rest] good show ?case
    by (auto simp: es name_table_def)
qed

lemma make_entries_valid:
  "list_all request_ok rs \<Longrightarrow> sum_list (map request_size rs) < 2 ^ 64 \<Longrightarrow>
   list_all entry_valid (make_entries off rs)"
proof (induction rs arbitrary: off)
  case (Cons r rs)
  have "length (wr_data r) < 2 ^ 64" "wr_data r \<noteq> []"
    using Cons.prems by (simp_all add: request_size_def request_ok_def)
  then have "unat (of_nat (length (wr_data r)) :: u64) \<noteq> 0"
    by (simp add: u64_of_nat)
  then have "(of_nat (length (wr_data r)) :: u64) \<noteq> 0"
    by auto
  moreover have "(of_nat (length (wr_dimensions r)) :: u16) \<le> 4"
    using Cons.prems(1) by (simp add: request_ok_def word_le_nat_alt unat_of_nat)
  ultimately have "entry_valid (make_entry off r)"
    using Cons.prems(1) by (simp add: entry_valid_def make_entry_def entry_shape_def request_ok_def)
  with Cons show ?case by simp
qed simp

lemma make_entries_names:
  "list_all (\<lambda>r. length (wr_name r) < 2 ^ 32) rs \<Longrightarrow> off + sum_list (map request_size rs) < 2 ^ 64 \<Longrightarrow>
   names_at off (map wr_name rs) (make_entries off rs)"
proof (induction rs arbitrary: off)
  case (Cons r rs)
  then have "off + length (wr_name r) + sum_list (map request_size rs) < 2 ^ 64"
    by (simp add: request_size_def [of r])
  with Cons show ?case
    by (simp add: make_entry_def u64_of_nat u32_of_nat)
qed simp

text \<open>What the code adds to the cursor for one entry, at most.\<close>

definition entry_room :: "disk_tensor_entry \<Rightarrow> nat" where
  "entry_room e = unat (e_data_bytes e) + unat (e_aux_bytes e) + 2 * unat (e_alignment e)"

lemma align_up_room:
  assumes "power_of_two (a :: u32)" and "unat c + unat a < 2 ^ 64"
  shows "unat c \<le> unat (align_up c (ucast a))" and "unat a dvd unat (align_up c (ucast a))"
    and "unat (align_up c (ucast a)) < unat c + unat a"
proof -
  obtain k where k: "k < LENGTH(32)" "unat a = 2 ^ k"
    using assms(1) by (rule power_of_two_exp)
  then have "unat (ucast a :: u64) = unat (2 ^ k :: u64)"
    using u64_of_nat [of "2 ^ k"] by (simp add: exp_less_u64)
  then have "(ucast a :: u64) = 2 ^ k"
    by (rule word_unat_eqI)
  then have p: "power_of_two (ucast a :: u64)"
    using k power_of_two_intro [of k, where 'a = 64] by simp
  have "\<not> 2 ^ 64 \<le> unat c + (unat (ucast a :: u64) - 1)"
    using assms(2) by simp
  with p show "unat c \<le> unat (align_up c (ucast a))" and "unat a dvd unat (align_up c (ucast a))"
    and "unat (align_up c (ucast a)) < unat c + unat a"
    by (cases rule: align_up_cases [of "ucast a" c], simp_all)+
qed

lemma place_payloads_laid_out:
  "place_payloads c es = Inr (es', z) \<Longrightarrow> list_all entry_valid es \<Longrightarrow>
   unat c + sum_list (map entry_room es) < 2 ^ 64 \<Longrightarrow>
   laid_out (unat c) es' (unat z) \<and> list_all2 same_but_offsets es es'
   \<and> unat z \<le> unat c + sum_list (map entry_room es)"
proof (induction es arbitrary: c es')
  case Nil
  then show ?case by simp
next
  case (Cons e es)
  let ?al = "ucast (e_alignment e) :: u64"
  define d where "d = align_up c ?al"
  define d' where "d' = d + e_data_bytes e"
  have p: "power_of_two (e_alignment e)"
    using Cons.prems(2) by (simp add: entry_valid_def)
  have room: "unat c + entry_room e + sum_list (map entry_room es) < 2 ^ 64"
    using Cons.prems(3) by simp
  have d: "unat c \<le> unat d" "unat (e_alignment e) dvd unat d" "unat d < unat c + unat (e_alignment e)"
    unfolding d_def by (rule align_up_room [OF p]; use room in \<open>simp add: entry_room_def [of e]\<close>)+
  have ud': "unat d' = unat d + unat (e_data_bytes e)"
    unfolding d'_def by (rule u64_add) (use d room in \<open>simp add: entry_room_def [of e]\<close>)
  have dnz: "d \<noteq> 0"
    using Cons.prems(1) by (auto simp: Let_def d_def)
  show ?case
  proof (cases "e_aux_bytes e = 0")
    case True
    then obtain es1 where es1: "place_payloads d' es = Inr (es1, z)"
      and es': "es' = e\<lparr>e_data_offset := d\<rparr> # es1"
      using Cons.prems(1) dnz by (auto simp: Let_def d_def [symmetric] d'_def [symmetric])
    have "unat d' + sum_list (map entry_room es) < 2 ^ 64"
      using room d ud' by (simp add: entry_room_def [of e])
    from Cons.IH [OF es1 _ this] Cons.prems(2)
    have IH: "laid_out (unat d') es1 (unat z)" "list_all2 same_but_offsets es es1"
      "unat z \<le> unat d' + sum_list (map entry_room es)"
      by simp_all
    have "same_but_offsets e (e\<lparr>e_data_offset := d\<rparr>)"
      unfolding same_but_offsets_def by (intro exI [of _ d] exI [of _ "e_aux_offset e"]) simp
    then show ?thesis
      using IH d ud' True room by (simp add: es' Let_def entry_room_def [of e])
  next
    case False
    define a where "a = align_up d' ?al"
    have a: "unat d' \<le> unat a" "unat (e_alignment e) dvd unat a" "unat a < unat d' + unat (e_alignment e)"
      unfolding a_def by (rule align_up_room [OF p]; use room d ud' in \<open>simp add: entry_room_def [of e]\<close>)+
    have ua: "unat (a + e_aux_bytes e) = unat a + unat (e_aux_bytes e)"
      by (rule u64_add) (use a d ud' room in \<open>simp add: entry_room_def [of e]\<close>)
    from False Cons.prems(1) dnz obtain es1 where es1: "place_payloads (a + e_aux_bytes e) es = Inr (es1, z)"
      and es': "es' = e\<lparr>e_data_offset := d, e_aux_offset := a\<rparr> # es1"
      by (auto simp: Let_def d_def [symmetric] d'_def [symmetric] a_def [symmetric] split: if_splits)
    have "unat (a + e_aux_bytes e) + sum_list (map entry_room es) < 2 ^ 64"
      using room a d ud' ua by (simp add: entry_room_def [of e])
    from Cons.IH [OF es1 _ this] Cons.prems(2)
    have IH: "laid_out (unat (a + e_aux_bytes e)) es1 (unat z)" "list_all2 same_but_offsets es es1"
      "unat z \<le> unat (a + e_aux_bytes e) + sum_list (map entry_room es)"
      by simp_all
    have "same_but_offsets e (e\<lparr>e_data_offset := d, e_aux_offset := a\<rparr>)"
      by (auto simp: same_but_offsets_def)
    then show ?thesis
      using IH d ud' a ua False room by (simp add: es' Let_def entry_room_def [of e])
  qed
qed

section \<open>The bytes the writer emits\<close>

definition zeros :: "nat \<Rightarrow> bytes" where "zeros n = replicate n 0"

fun payload_bytes :: "nat \<Rightarrow> (tensor_write_request \<times> disk_tensor_entry) list \<Rightarrow> bytes" where
  "payload_bytes c [] = []"
| "payload_bytes c ((r, e) # rest) =
     (let d = unat (e_data_offset e); d' = d + unat (e_data_bytes e); a = unat (e_aux_offset e) in
      zeros (d - c) @ wr_data r @
      (if e_aux_bytes e = 0 then payload_bytes d' rest
       else zeros (a - d') @ wr_auxiliary r @ payload_bytes (a + unat (e_aux_bytes e)) rest))"

definition sizes_match :: "tensor_write_request \<Rightarrow> disk_tensor_entry \<Rightarrow> bool" where
  "sizes_match r e \<longleftrightarrow> length (wr_data r) = unat (e_data_bytes e)
     \<and> length (wr_auxiliary r) = unat (e_aux_bytes e)"

lemma length_payload_bytes:
  "laid_out c (map snd ts) z \<Longrightarrow> list_all (\<lambda>(r, e). sizes_match r e) ts \<Longrightarrow>
   length (payload_bytes c ts) = z - c"
proof (induction c ts rule: payload_bytes.induct)
  case (2 c r e rest)
  then show ?case
    by (auto simp: Let_def zeros_def sizes_match_def split: if_splits dest: laid_out_mono)
qed simp

text \<open>Every payload is found at its offset.\<close>

lemma payload_bytes_slices:
  assumes "laid_out c (map snd ts) z" and "list_all (\<lambda>(r, e). sizes_match r e) ts"
    and "length before = c" and "(r, e) \<in> set ts"
  shows "slice (unat (e_data_offset e)) (unat (e_data_bytes e)) (before @ payload_bytes c ts) = wr_data r
    \<and> (e_aux_bytes e \<noteq> 0 \<longrightarrow>
        slice (unat (e_aux_offset e)) (unat (e_aux_bytes e)) (before @ payload_bytes c ts) = wr_auxiliary r)"
  using assms
proof (induction c ts arbitrary: before rule: payload_bytes.induct)
  case (1 c)
  then show ?case by simp
next
  case (2 c r0 e0 rest)
  let ?d = "unat (e_data_offset e0)" and ?n = "unat (e_data_bytes e0)"
    and ?a = "unat (e_aux_offset e0)" and ?m = "unat (e_aux_bytes e0)"
  have sz: "length (wr_data r0) = ?n" "length (wr_auxiliary r0) = ?m"
    and rest_sz: "list_all (\<lambda>(r, e). sizes_match r e) rest"
    using "2.prems"(2) by (simp_all add: sizes_match_def)
  have first: "c \<le> ?d"
    using "2.prems"(1) by (simp add: Let_def)
  show ?case
  proof (cases "e_aux_bytes e0 = 0")
    case True
    let ?before = "before @ zeros (?d - c) @ wr_data r0"
    have laid: "laid_out (?d + ?n) (map snd rest) z"
      using "2.prems"(1) True by (simp add: Let_def)
    have whole: "before @ payload_bytes c ((r0, e0) # rest) = ?before @ payload_bytes (?d + ?n) rest"
      using True by (simp add: Let_def)
    have len: "length ?before = ?d + ?n"
      using first "2.prems"(3) sz by (simp add: zeros_def)
    have here: "slice ?d ?n (?before @ payload_bytes (?d + ?n) rest) = wr_data r0"
      using first "2.prems"(3) sz by (simp add: zeros_def slice_simps)
    show ?thesis
    proof (cases "(r, e) = (r0, e0)")
      case True
      then show ?thesis
        using here \<open>e_aux_bytes e0 = 0\<close> whole by (simp del: payload_bytes.simps)
    next
      case False
      with "2.prems"(4) have "(r, e) \<in> set rest"
        by auto
      from "2.IH"(1) [OF refl refl refl True laid rest_sz len this] whole show ?thesis
        by simp
    qed
  next
    case False
    let ?before = "before @ zeros (?d - c) @ wr_data r0 @ zeros (?a - (?d + ?n)) @ wr_auxiliary r0"
    have laid: "laid_out (?a + ?m) (map snd rest) z" and second: "?d + ?n \<le> ?a"
      using "2.prems"(1) False by (simp_all add: Let_def)
    have whole: "before @ payload_bytes c ((r0, e0) # rest) = ?before @ payload_bytes (?a + ?m) rest"
      using False by (simp add: Let_def)
    have len: "length ?before = ?a + ?m"
      using first second "2.prems"(3) sz by (simp add: zeros_def)
    have here: "slice ?d ?n (?before @ payload_bytes (?a + ?m) rest) = wr_data r0"
      "slice ?a ?m (?before @ payload_bytes (?a + ?m) rest) = wr_auxiliary r0"
      using first second "2.prems"(3) sz by (simp_all add: zeros_def slice_simps)
    show ?thesis
    proof (cases "(r, e) = (r0, e0)")
      case True
      then show ?thesis
        using here whole by (simp del: payload_bytes.simps)
    next
      case False': False
      with "2.prems"(4) have "(r, e) \<in> set rest"
        by auto
      from "2.IH"(2) [OF refl refl refl False laid rest_sz len this] whole show ?thesis
        by simp
    qed
  qed
qed

lemma and_then_ok:
  "and_then r f = Some (s, st) \<Longrightarrow> status_ok s \<Longrightarrow>
   \<exists>s1 st1. r = Some (s1, st1) \<and> status_ok s1 \<and> f st1 = Some (s, st)"
  by (auto simp: and_then_def split: option.splits if_splits)

lemma put_ok: "put src st = Some (s, st') \<Longrightarrow> status_ok s \<Longrightarrow> snd st' = snd st @ src"
  by (auto simp: put_def out_step_def write_all_ok split: option.splits)

lemma pad_ok: "pad n st = Some (s, st') \<Longrightarrow> status_ok s \<Longrightarrow> snd st' = snd st @ zeros (unat n)"
  by (auto simp: pad_def out_step_def zeros_def write_padding_ok split: option.splits)

lemma word_diff_nat: "unat b \<le> unat a \<Longrightarrow> unat (a - b) = unat a - unat b" for a b :: u64
  by (simp add: unat_sub word_le_nat_alt)

lemma emit_tensors_ok:
  assumes "emit_tensors cursor ts st = Some (s, st')" and "status_ok s"
    and "laid_out (unat cursor) (map snd ts) z" and "z < 2 ^ 64"
  shows "snd st' = snd st @ payload_bytes (unat cursor) ts"
  using assms
proof (induction cursor ts st arbitrary: st' rule: emit_tensors.induct)
  case (1 cursor st)
  then show ?case by simp
next
  case (2 cursor r e rest st)
  let ?d = "e_data_offset e" and ?n = "e_data_bytes e" and ?a = "e_aux_offset e" and ?m = "e_aux_bytes e"
  have first: "unat cursor \<le> unat ?d"
    using "2.prems"(3) by (simp add: Let_def)
  from "2.prems"(1,2) obtain s1 st1 s2 st2 where
    1: "pad (?d - cursor) st = Some (s1, st1)" "status_ok s1"
    and 2: "put (wr_data r) st1 = Some (s2, st2)" "status_ok s2"
    and more: "(if ?m = 0 then emit_tensors (?d + ?n) rest st2
       else and_then (pad (?a - (?d + ?n)) st2) (\<lambda>st.
         and_then (put (wr_auxiliary r) st) (\<lambda>st. emit_tensors (?a + ?m) rest st))) = Some (s, st')"
    by (auto dest!: and_then_ok)
  have out2: "snd st2 = snd st @ zeros (unat ?d - unat cursor) @ wr_data r"
    using pad_ok [OF 1] put_ok [OF 2] first by (simp add: word_diff_nat)
  show ?case
  proof (cases "?m = 0")
    case True
    have laid: "laid_out (unat ?d + unat ?n) (map snd rest) z"
      using "2.prems"(3) True by (simp add: Let_def)
    then have end_data: "unat (?d + ?n) = unat ?d + unat ?n"
      using laid_out_mono [OF laid] "2.prems"(4) by (intro u64_add) simp
    have "snd st' = snd st2 @ payload_bytes (unat (?d + ?n)) rest"
      using "2.IH"(1) [OF True _ "2.prems"(2) _ "2.prems"(4)] more True laid end_data by simp
    then show ?thesis
      using True by (simp add: out2 Let_def end_data)
  next
    case False
    have laid: "laid_out (unat ?a + unat ?m) (map snd rest) z" and second: "unat ?d + unat ?n \<le> unat ?a"
      using "2.prems"(3) False by (simp_all add: Let_def)
    have ends: "unat (?d + ?n) = unat ?d + unat ?n" "unat (?a + ?m) = unat ?a + unat ?m"
      using laid_out_mono [OF laid] second "2.prems"(4) by (simp_all add: u64_add)
    from more False "2.prems"(2) obtain s3 st3 s4 st4 where
      3: "pad (?a - (?d + ?n)) st2 = Some (s3, st3)" "status_ok s3"
      and 4: "put (wr_auxiliary r) st3 = Some (s4, st4)" "status_ok s4"
      and last: "emit_tensors (?a + ?m) rest st4 = Some (s, st')"
      by (auto dest!: and_then_ok)
    have out4: "snd st4 = snd st2 @ zeros (unat ?a - (unat ?d + unat ?n)) @ wr_auxiliary r"
      using pad_ok [OF 3] put_ok [OF 4] second by (simp add: word_diff_nat ends)
    have "snd st' = snd st4 @ payload_bytes (unat (?a + ?m)) rest"
      using "2.IH"(2) [OF False last "2.prems"(2) _ "2.prems"(4)] laid ends by simp
    then show ?thesis
      using False by (simp add: out2 out4 Let_def ends)
  qed
qed

section \<open>A successful write\<close>

lemma writer_layout_Inr:
  assumes "writer_layout identity rs = Inr (h, es, manifest)"
  obtains ids data_offset z where "identity_fields identity = Some ids" and "length rs \<le> max_u32"
    and "list_all request_ok rs" and "distinct (map wr_name rs)"
    and "data_offset = align_up (of_nat sizeof_DiskHeader + of_nat (length rs * sizeof_DiskTensorEntry)
      + of_nat (length (name_table (map wr_name rs)))) (ucast (256 :: u32))"
    and "place_payloads data_offset (make_entries 0 rs) = Inr (es, z)"
    and "manifest = manifest_of es (name_table (map wr_name rs))"
    and "h = make_header ids (length rs) (length (name_table (map wr_name rs))) data_offset z
      (crc64_ecma manifest)"
proof -
  have len: "length (make_entries off rs) = length rs" for off
    by (induction rs arbitrary: off) simp_all
  from assms obtain ids es0 strings where
    ids: "identity_fields identity = Some ids" and n: "length rs \<le> max_u32"
    and collect: "collect_entries [] [] rs = Inr (es0, strings)"
    by (auto simp: writer_layout_def not_less split: if_splits option.splits)
  from collect_entries_Inr [OF collect] have
    es0: "es0 = make_entries 0 rs" "strings = name_table (map wr_name rs)"
    and ok: "distinct (map wr_name rs)" "list_all request_ok rs"
    by simp_all
  define d where "d = align_up (of_nat sizeof_DiskHeader + of_nat (length rs * sizeof_DiskTensorEntry)
      + of_nat (length (name_table (map wr_name rs)))) (ucast (256 :: u32))"
  obtain z where "place_payloads d (make_entries 0 rs) = Inr (es, z)"
    and "manifest = manifest_of es (name_table (map wr_name rs))"
    and "h = make_header ids (length rs) (length (name_table (map wr_name rs))) d z
      (crc64_ecma manifest)"
    using assms ids n collect ok
    by (auto simp: writer_layout_def es0 len Let_def kFileAlignment_def d_def split: if_splits)
  then show ?thesis
    using that ids n ok d_def by blast
qed

lemma length_name_table: "length (name_table ns) = sum_list (map length ns)"
  by (induction ns) (simp_all add: name_table_def)

lemma request_size_split:
  "list_all request_ok rs \<Longrightarrow> sum_list (map request_size rs) < 2 ^ 64 \<Longrightarrow>
   sum_list (map request_size rs)
   = length rs * sizeof_DiskTensorEntry + length (name_table (map wr_name rs))
     + sum_list (map entry_room (make_entries off rs))"
proof (induction rs arbitrary: off)
  case (Cons r rs)
  have "entry_room (make_entry off r)
      = length (wr_data r) + length (wr_auxiliary r) + 2 * unat (wr_alignment r)"
    using Cons.prems(2) by (simp add: entry_room_def make_entry_def u64_of_nat request_size_def)
  with Cons.IH [of "off + length (wr_name r)"] Cons.prems show ?case
    by (simp add: request_size_def [of r] length_name_table)
qed (simp add: name_table_def)

lemma make_entries_match:
  "sum_list (map request_size rs) < 2 ^ 64 \<Longrightarrow> list_all2 sizes_match rs (make_entries off rs)"
proof (induction rs arbitrary: off)
  case (Cons r rs)
  then have "length (wr_data r) < 2 ^ 64" "length (wr_auxiliary r) < 2 ^ 64"
    by (simp_all add: request_size_def [of r])
  then have "sizes_match r (make_entry off r)"
    by (simp add: sizes_match_def make_entry_def u64_of_nat)
  with Cons show ?case by simp
qed simp

text \<open>What the view must show for a request.\<close>

definition request_stored :: "artifact_view \<Rightarrow> tensor_write_request \<Rightarrow> tensor_descriptor \<Rightarrow> bool" where
  "request_stored view r t \<longleftrightarrow>
     td_name t = wr_name r \<and> td_dtype t = wr_dtype r \<and> td_quantization t = wr_quantization r
     \<and> unat (td_rank t) = length (wr_dimensions r)
     \<and> take (length (wr_dimensions r)) (td_dimensions t) = wr_dimensions r
     \<and> td_alignment t = wr_alignment r
     \<and> artifact_data view t = wr_data r \<and> artifact_auxiliary view t = wr_auxiliary r"

definition entry_of_request :: "tensor_write_request \<Rightarrow> disk_tensor_entry \<Rightarrow> bool" where
  "entry_of_request r e \<longleftrightarrow> (\<exists>off. same_but_offsets (make_entry off r) e)"

lemma entries_of_requests:
  "list_all2 same_but_offsets (make_entries off rs) es \<Longrightarrow> list_all2 entry_of_request rs es"
  by (induction rs arbitrary: off es) (auto simp: list_all2_Cons1 entry_of_request_def)

lemma header_offsets:
  assumes "sizeof_DiskHeader + n * sizeof_DiskTensorEntry + m + 256 < 2 ^ 64"
    and "d = align_up (of_nat sizeof_DiskHeader + of_nat (n * sizeof_DiskTensorEntry) + of_nat m)
      (ucast (256 :: u32))"
  shows "unat (of_nat sizeof_DiskHeader + of_nat (n * sizeof_DiskTensorEntry) + of_nat m :: u64)
      = sizeof_DiskHeader + n * sizeof_DiskTensorEntry + m"
    and "sizeof_DiskHeader + n * sizeof_DiskTensorEntry + m \<le> unat d"
    and "unat d < sizeof_DiskHeader + n * sizeof_DiskTensorEntry + m + 256"
proof -
  let ?e = "of_nat sizeof_DiskHeader + of_nat (n * sizeof_DiskTensorEntry) + of_nat m :: u64"
  have "?e = of_nat (sizeof_DiskHeader + n * sizeof_DiskTensorEntry + m)"
    by simp
  then show e: "unat ?e = sizeof_DiskHeader + n * sizeof_DiskTensorEntry + m"
    using assms(1) by (simp add: u64_of_nat [simplified] del: of_nat_add of_nat_mult)
  have "power_of_two (256 :: u32)"
    by (simp add: power_of_two_def)
  from align_up_room [OF this, of ?e] assms(1)
  show "sizeof_DiskHeader + n * sizeof_DiskTensorEntry + m \<le> unat d"
    and "unat d < sizeof_DiskHeader + n * sizeof_DiskTensorEntry + m + 256"
    by (simp_all only: assms(2) e) simp_all
qed

lemma emit_artifact_ok:
  assumes "emit_artifact h manifest ts st = Some (s, st')" and "status_ok s"
    and "laid_out (unat (h_data_offset h)) (map snd ts) z" and "z < 2 ^ 64"
  shows "snd st' = snd st @ encode_header h @ manifest
    @ zeros (unat (h_data_offset h - (h_strings_offset h + h_strings_bytes h)))
    @ payload_bytes (unat (h_data_offset h)) ts"
proof -
  from assms(1,2) obtain s1 st1 s2 st2 s3 st3 where
    1: "put (encode_header h) st = Some (s1, st1)" "status_ok s1"
    and 2: "put manifest st1 = Some (s2, st2)" "status_ok s2"
    and 3: "pad (h_data_offset h - (h_strings_offset h + h_strings_bytes h)) st2 = Some (s3, st3)"
      "status_ok s3"
    and 4: "emit_tensors (h_data_offset h) ts st3 = Some (s, st')"
    by (auto simp: emit_artifact_def dest!: and_then_ok)
  show ?thesis
    using put_ok [OF 1] put_ok [OF 2] pad_ok [OF 3] emit_tensors_ok [OF 4 assms(2-4)] by simp
qed

lemma writer_image:
  assumes layout: "writer_layout identity rs = Inr (h, es, manifest)"
    and emit: "emit_artifact h manifest (zip rs es) (responses, []) = Some (s, (rest, out))" and ok: "status_ok s"
    and size: "writer_size rs < 2 ^ 63" and names: "list_all (\<lambda>r. length (wr_name r) < 2 ^ 32) rs"
    and plain: "no_nul identity"
  obtains data_offset where "artifact_image identity (map wr_name rs) es data_offset out"
    and "list_all2 entry_of_request rs es"
    and "\<forall>(r, e) \<in> set (zip rs es).
      slice (unat (e_data_offset e)) (unat (e_data_bytes e)) out = wr_data r
      \<and> (e_aux_bytes e \<noteq> 0 \<longrightarrow> slice (unat (e_aux_offset e)) (unat (e_aux_bytes e)) out = wr_auxiliary r)"
proof -
  let ?n = "length rs" and ?names = "map wr_name rs"
  let ?m = "length (name_table ?names)"
  obtain ids d z where ids: "identity_fields identity = Some ids" and n: "?n \<le> max_u32"
    and valid: "list_all request_ok rs" and distinct: "distinct ?names"
    and d: "d = align_up (of_nat sizeof_DiskHeader + of_nat (?n * sizeof_DiskTensorEntry) + of_nat ?m)
      (ucast (256 :: u32))"
    and place: "place_payloads d (make_entries 0 rs) = Inr (es, z)"
    and man: "manifest = manifest_of es (name_table ?names)"
    and h: "h = make_header ids ?n ?m d z (crc64_ecma manifest)"
    using layout by (rule writer_layout_Inr)
  let ?sum = "sum_list (map request_size rs)"
  have sum: "?sum + 512 < 2 ^ 63" "?sum < 2 ^ 64"
    using size by (simp_all add: writer_size_def kFileAlignment_def)
  note parts = request_size_split [OF valid sum(2), of 0]
  have room: "sizeof_DiskHeader + ?n * sizeof_DiskTensorEntry + ?m + 256
      + sum_list (map entry_room (make_entries 0 rs)) < 2 ^ 63"
    using parts sum(1) by (simp add: sizeof_DiskHeader_def)
  then have offsets: "sizeof_DiskHeader + ?n * sizeof_DiskTensorEntry + ?m + 256 < 2 ^ 64"
    by simp
  note ho = header_offsets [OF offsets d]
  have ev0: "list_all entry_valid (make_entries 0 rs)"
    using make_entries_valid [OF valid sum(2)] .
  have "unat d + sum_list (map entry_room (make_entries 0 rs)) < 2 ^ 64"
    using ho(3) room by simp
  from place_payloads_laid_out [OF place ev0 this]
  have laid: "laid_out (unat d) es (unat z)" and same: "list_all2 same_but_offsets (make_entries 0 rs) es"
    and z: "unat z < 2 ^ 63"
    using ho(3) room by simp_all
  have ev: "list_all entry_valid es"
    using same ev0 by (auto simp: list_all2_conv_all_nth list_all_length same_but_offsets_valid)
  have eor: "list_all2 entry_of_request rs es"
    using same by (rule entries_of_requests)
  have len: "length es = ?n"
    using list_all2_lengthD [OF eor] by simp
  have match: "list_all (\<lambda>(r, e). sizes_match r e) (zip rs es)"
    using make_entries_match [OF sum(2), of 0] same
    by (auto simp: list_all2_conv_all_nth list_all_length sizes_match_def same_but_offsets_fields)
  have hd: "h_data_offset h = d" "unat (h_strings_offset h + h_strings_bytes h)
      = sizeof_DiskHeader + ?n * sizeof_DiskTensorEntry + ?m"
    using ho(1) by (simp_all add: h make_header_def split_beta)
  have lm: "length manifest = ?n * sizeof_DiskTensorEntry + ?m"
    using length_manifest_of [OF ev] len by (simp add: man mult.commute)
  have shape: "header_shape h"
    using identity_fields_facts(1) [OF ids plain] by (simp add: h)
  define prefix where "prefix = encode_header h @ manifest
      @ zeros (unat (d - (h_strings_offset h + h_strings_bytes h)))"
  have out: "out = prefix @ payload_bytes (unat d) (zip rs es)"
    using emit_artifact_ok [OF emit ok, of "unat z"] laid z len hd(1) by (simp add: prefix_def)
  have lp: "length prefix = unat d"
    using ho(2) hd(2) lm shape by (simp add: prefix_def zeros_def header_codec.enc_length word_diff_nat)
  have snd_zip: "map snd (zip rs es) = es"
    using len by simp
  have lo: "length out = unat z"
    using length_payload_bytes [of "unat d" "zip rs es" "unat z"] laid match snd_zip laid_out_mono [OF laid] lp
    by (simp add: out)
  have slices: "\<forall>(r, e) \<in> set (zip rs es).
      slice (unat (e_data_offset e)) (unat (e_data_bytes e)) out = wr_data r
      \<and> (e_aux_bytes e \<noteq> 0 \<longrightarrow> slice (unat (e_aux_offset e)) (unat (e_aux_bytes e)) out = wr_auxiliary r)"
    using payload_bytes_slices [of "unat d" "zip rs es" "unat z" prefix] laid match lp
    by (auto simp: out snd_zip)
  have crcs: "list_all (\<lambda>e. crc64_ecma (slice (unat (e_data_offset e)) (unat (e_data_bytes e)) out)
      = e_data_crc64 e) es"
  proof (unfold list_all_length, intro allI impI)
    fix i assume i: "i < length es"
    then have "(rs ! i, es ! i) \<in> set (zip rs es)"
      using len by (auto simp: in_set_zip)
    then have "slice (unat (e_data_offset (es ! i))) (unat (e_data_bytes (es ! i))) out = wr_data (rs ! i)"
      using slices by auto
    moreover have "e_data_crc64 (es ! i) = crc64_ecma (wr_data (rs ! i))"
      using list_all2_nthD2 [OF eor i]
      by (auto simp: entry_of_request_def same_but_offsets_fields make_entry_def)
    ultimately show "crc64_ecma (slice (unat (e_data_offset (es ! i))) (unat (e_data_bytes (es ! i))) out)
        = e_data_crc64 (es ! i)"
      by simp
  qed
  have nm: "names_at 0 ?names es"
    using make_entries_names [OF names, of 0] sum(2) same_but_offsets_names [OF same] by simp
  have s0: "slice 0 sizeof_DiskHeader out = encode_header h"
    using shape by (simp add: out prefix_def header_codec.enc_length slice_simps)
  have s1: "slice sizeof_DiskHeader (length manifest) out = manifest"
    using shape by (simp add: out prefix_def header_codec.enc_length slice_simps)
  have "h = make_header ids (length es) ?m d (of_nat (length out)) (crc64_ecma manifest)"
    by (simp add: h len lo)
  then have "artifact_image identity ?names es d out"
    unfolding artifact_image_def
    using ids s0 s1 ho(2) lm laid lo z len n ev nm distinct valid crcs
    by (auto simp: man max_off_t_def list_all_iff request_ok_def)
  with eor slices that show ?thesis
    by blast
qed

section \<open>The write completes\<close>

lemma place_payloads_total:
  "list_all entry_valid es \<Longrightarrow> unat c + sum_list (map entry_room es) < 2 ^ 64 \<Longrightarrow> 0 < unat c \<Longrightarrow>
   \<exists>es' z. place_payloads c es = Inr (es', z)"
proof (induction es arbitrary: c)
  case Nil
  then show ?case by simp
next
  case (Cons e es)
  let ?al = "ucast (e_alignment e) :: u64"
  define d where "d = align_up c ?al"
  define d' where "d' = d + e_data_bytes e"
  define a where "a = align_up d' ?al"
  have p: "power_of_two (e_alignment e)"
    using Cons.prems(1) by (simp add: entry_valid_def)
  have room: "unat c + entry_room e + sum_list (map entry_room es) < 2 ^ 64"
    using Cons.prems(2) by simp
  have d: "unat c \<le> unat d" "unat d < unat c + unat (e_alignment e)"
    unfolding d_def by (rule align_up_room [OF p]; use room in \<open>simp add: entry_room_def [of e]\<close>)+
  have ud': "unat d' = unat d + unat (e_data_bytes e)"
    unfolding d'_def by (rule u64_add) (use d room in \<open>simp add: entry_room_def [of e]\<close>)
  have a: "unat d' \<le> unat a" "unat a < unat d' + unat (e_alignment e)"
    unfolding a_def by (rule align_up_room [OF p]; use room d ud' in \<open>simp add: entry_room_def [of e]\<close>)+
  have ua: "unat (a + e_aux_bytes e) = unat a + unat (e_aux_bytes e)"
    by (rule u64_add) (use a d ud' room in \<open>simp add: entry_room_def [of e]\<close>)
  have nz: "d \<noteq> 0" "a \<noteq> 0"
    using d a ud' Cons.prems(3) by auto
  have "unat d' + sum_list (map entry_room es) < 2 ^ 64"
    "unat (a + e_aux_bytes e) + sum_list (map entry_room es) < 2 ^ 64"
    using room a d ud' ua by (simp_all add: entry_room_def [of e])
  moreover have "0 < unat d'" "0 < unat (a + e_aux_bytes e)"
    using d a ud' ua Cons.prems(3) by simp_all
  ultimately obtain x y where "place_payloads d' es = Inr x" "place_payloads (a + e_aux_bytes e) es = Inr y"
    using Cons.IH [of d'] Cons.IH [of "a + e_aux_bytes e"] Cons.prems(1) by auto
  then show ?case
    using nz by (auto simp: Let_def d_def [symmetric] d'_def [symmetric] a_def [symmetric] split_beta)
qed

lemma collect_entries_total:
  "list_all request_ok rs \<Longrightarrow> distinct (map wr_name rs) \<Longrightarrow> set (map wr_name rs) \<inter> set unique = {} \<Longrightarrow>
   collect_entries unique strings rs
   = Inr (make_entries (length strings) rs, strings @ name_table (map wr_name rs))"
proof (induction rs arbitrary: unique strings)
  case (Cons r rs)
  from Cons.IH [of "wr_name r # unique" "strings @ bytes_of_string (wr_name r)"] Cons.prems
  show ?case
    by (auto simp: request_ok_def power_of_two_def name_table_def not_less)
qed (simp add: name_table_def)

lemma writer_layout_total:
  assumes valid: "list_all request_ok rs" and distinct: "distinct (map wr_name rs)"
    and ids: "identity_fields identity \<noteq> None"
    and n: "length rs \<le> max_u32" and size: "writer_size rs < 2 ^ 63"
  shows "\<exists>h es manifest. writer_layout identity rs = Inr (h, es, manifest)"
proof -
  let ?n = "length rs" and ?m = "length (name_table (map wr_name rs))"
  let ?sum = "sum_list (map request_size rs)"
  define d where "d = align_up (of_nat sizeof_DiskHeader + of_nat (?n * sizeof_DiskTensorEntry)
      + of_nat ?m) (ucast (256 :: u32))"
  have len: "length (make_entries off rs) = length rs" for off
    by (induction rs arbitrary: off) simp_all
  have sum: "?sum + 512 < 2 ^ 63" "?sum < 2 ^ 64"
    using size by (simp_all add: writer_size_def kFileAlignment_def)
  have room: "sizeof_DiskHeader + ?n * sizeof_DiskTensorEntry + ?m + 256
      + sum_list (map entry_room (make_entries 0 rs)) < 2 ^ 63"
    using request_size_split [OF valid sum(2), of 0] sum(1) by (simp add: sizeof_DiskHeader_def)
  have ho: "0 < unat d" "unat d < sizeof_DiskHeader + ?n * sizeof_DiskTensorEntry + ?m + 256"
    using header_offsets(2,3) [of ?n ?m d] room by (simp_all add: d_def sizeof_DiskHeader_def)
  have "\<exists>es z. place_payloads d (make_entries 0 rs) = Inr (es, z)"
    by (rule place_payloads_total [OF make_entries_valid [OF valid sum(2)] _ ho(1)]) (use ho(2) room in simp)
  moreover have "d \<noteq> 0"
    using ho(1) by auto
  ultimately show ?thesis
    using ids n collect_entries_total [OF valid distinct, of "[]" "[]"]
    by (auto simp: writer_layout_def Let_def len d_def kFileAlignment_def not_less)
qed

lemma put_progress:
  "can_accept (fst st) (length src + extra) \<Longrightarrow>
   \<exists>rs'. put src st = Some (ok_status, (rs', snd st @ src)) \<and> can_accept rs' extra"
  using write_all_progress [of "fst st" src extra "snd st"] by (auto simp: put_def out_step_def)

lemma pad_progress:
  "can_accept (fst st) (unat n + extra) \<Longrightarrow>
   \<exists>rs'. pad n st = Some (ok_status, (rs', snd st @ zeros (unat n))) \<and> can_accept rs' extra"
  using write_padding_progress [of "fst st" n extra "snd st"]
  by (auto simp: pad_def out_step_def zeros_def)

lemma and_then_progress:
  "r = Some (ok_status, st) \<Longrightarrow> and_then r f = f st"
  by (simp add: and_then_def)

lemma emit_tensors_progress:
  assumes "can_accept (fst st) (length (payload_bytes (unat cursor) ts))"
    and "laid_out (unat cursor) (map snd ts) z" and "z < 2 ^ 64"
  shows "\<exists>st'. emit_tensors cursor ts st = Some (ok_status, st')"
  using assms
proof (induction cursor ts st rule: emit_tensors.induct)
  case (1 cursor st)
  then show ?case by simp
next
  case (2 cursor r e rest st)
  let ?d = "e_data_offset e" and ?n = "e_data_bytes e" and ?a = "e_aux_offset e" and ?m = "e_aux_bytes e"
  have first: "unat cursor \<le> unat ?d"
    using "2.prems"(2) by (simp add: Let_def)
  have gap: "unat (?d - cursor) = unat ?d - unat cursor"
    using first by (rule word_diff_nat)
  define later where "later = (if ?m = 0 then payload_bytes (unat ?d + unat ?n) rest
    else zeros (unat ?a - (unat ?d + unat ?n)) @ wr_auxiliary r @ payload_bytes (unat ?a + unat ?m) rest)"
  have "can_accept (fst st) (unat (?d - cursor) + (length (wr_data r) + length later))"
    using "2.prems"(1) by (simp add: Let_def later_def gap zeros_def algebra_simps split: if_splits)
  from pad_progress [OF this] obtain rs1 where
    1: "pad (?d - cursor) st = Some (ok_status, (rs1, snd st @ zeros (unat (?d - cursor))))"
    and "can_accept rs1 (length (wr_data r) + length later)" by blast
  from put_progress [of "(rs1, snd st @ zeros (unat (?d - cursor)))", simplified, OF this(2)]
  obtain st2 where 2: "put (wr_data r) (rs1, snd st @ zeros (unat (?d - cursor))) = Some (ok_status, st2)"
    and can2: "can_accept (fst st2) (length later)" by auto
  show ?case
  proof (cases "?m = 0")
    case True
    have laid: "laid_out (unat ?d + unat ?n) (map snd rest) z"
      using "2.prems"(2) True by (simp add: Let_def)
    then have end_data: "unat (?d + ?n) = unat ?d + unat ?n"
      using laid_out_mono [OF laid] "2.prems"(3) by (intro u64_add) simp
    from "2.IH"(1) [OF True, of st2] can2 laid end_data "2.prems"(3) True show ?thesis
      by (simp add: and_then_progress [OF 1] and_then_progress [OF 2] later_def)
  next
    case False
    have laid: "laid_out (unat ?a + unat ?m) (map snd rest) z" and second: "unat ?d + unat ?n \<le> unat ?a"
      using "2.prems"(2) False by (simp_all add: Let_def)
    have ends: "unat (?d + ?n) = unat ?d + unat ?n" "unat (?a + ?m) = unat ?a + unat ?m"
      using laid_out_mono [OF laid] second "2.prems"(3) by (simp_all add: u64_add)
    have gap2: "unat (?a - (?d + ?n)) = unat ?a - (unat ?d + unat ?n)"
      using second by (simp add: word_diff_nat ends)
    have "can_accept (fst st2) (unat (?a - (?d + ?n))
        + (length (wr_auxiliary r) + length (payload_bytes (unat (?a + ?m)) rest)))"
      using can2 False by (simp add: later_def gap2 ends zeros_def)
    from pad_progress [OF this] obtain st3 where
      3: "pad (?a - (?d + ?n)) st2 = Some (ok_status, st3)"
      and can3: "can_accept (fst st3) (length (wr_auxiliary r) + length (payload_bytes (unat (?a + ?m)) rest))"
      by auto
    from put_progress [OF can3] obtain st4 where
      4: "put (wr_auxiliary r) st3 = Some (ok_status, st4)"
      and can4: "can_accept (fst st4) (length (payload_bytes (unat (?a + ?m)) rest))"
      by auto
    from "2.IH"(2) [OF False can4 _ "2.prems"(3)] laid ends False show ?thesis
      by (simp add: and_then_progress [OF 1] and_then_progress [OF 2] and_then_progress [OF 3]
          and_then_progress [OF 4])
  qed
qed

lemma emit_artifact_progress:
  assumes "can_accept (fst st) (length (encode_header h) + (length manifest
      + (unat (h_data_offset h - (h_strings_offset h + h_strings_bytes h))
      + length (payload_bytes (unat (h_data_offset h)) ts))))"
    and "laid_out (unat (h_data_offset h)) (map snd ts) z" and "z < 2 ^ 64"
  shows "\<exists>st'. emit_artifact h manifest ts st = Some (ok_status, st')"
proof -
  from put_progress [OF assms(1)] obtain st1 where
    1: "put (encode_header h) st = Some (ok_status, st1)"
    and can1: "can_accept (fst st1) (length manifest
      + (unat (h_data_offset h - (h_strings_offset h + h_strings_bytes h))
      + length (payload_bytes (unat (h_data_offset h)) ts)))"
    by auto
  from put_progress [OF can1] obtain st2 where
    2: "put manifest st1 = Some (ok_status, st2)"
    and can2: "can_accept (fst st2) (unat (h_data_offset h - (h_strings_offset h + h_strings_bytes h))
      + length (payload_bytes (unat (h_data_offset h)) ts))"
    by auto
  from pad_progress [OF can2] obtain st3 where
    3: "pad (h_data_offset h - (h_strings_offset h + h_strings_bytes h)) st2 = Some (ok_status, st3)"
    and can3: "can_accept (fst st3) (length (payload_bytes (unat (h_data_offset h)) ts))"
    by auto
  from emit_tensors_progress [OF can3 assms(2,3)] show ?thesis
    by (simp add: emit_artifact_def and_then_progress [OF 1] and_then_progress [OF 2]
        and_then_progress [OF 3])
qed

section \<open>Outcomes\<close>

lemma temporary_path_neq [simp]: "temporary_path path pid \<noteq> path"
  by (simp add: temporary_path_def)

lemma layout_errors:
  "place_payloads c es = Inl s \<Longrightarrow> \<not> status_ok s"
  "collect_entries unique strings rs = Inl s \<Longrightarrow> \<not> status_ok s"
proof -
  show "place_payloads c es = Inl s \<Longrightarrow> \<not> status_ok s"
  proof (induction c es rule: place_payloads.induct)
    case (2 c e es)
    then show ?case
      by (cases "place_payloads (align_up c (ucast (e_alignment e)) + e_data_bytes e) es";
          cases "place_payloads (align_up (align_up c (ucast (e_alignment e)) + e_data_bytes e)
            (ucast (e_alignment e)) + e_aux_bytes e) es")
        (auto simp: Let_def split: if_splits)
  qed simp
  show "collect_entries unique strings rs = Inl s \<Longrightarrow> \<not> status_ok s"
  proof (induction unique strings rs rule: collect_entries.induct)
    case (2 unique strings r rs)
    then show ?case
      by (cases "collect_entries (wr_name r # unique) (strings @ bytes_of_string (wr_name r)) rs")
        (auto split: if_splits)
  qed simp
qed

lemma writer_layout_error: "writer_layout identity rs = Inl s \<Longrightarrow> \<not> status_ok s"
  using layout_errors
  by (cases "collect_entries [] [] rs")
    (auto simp: writer_layout_def Let_def split: if_splits option.splits elim!: result_bind.elims)

text \<open>The two outcomes of a write. A failed one leaves the files as they were, or the temporary file
  that it could not unlink.\<close>

definition cleaned_up :: "write_env \<Rightarrow> string \<Rightarrow> file_system \<Rightarrow> file_system \<Rightarrow> bool" where
  "cleaned_up env temporary fs fs' \<longleftrightarrow> fs' = fs
     \<or> we_unlink_error env \<noteq> None \<and> fs temporary = None \<and> (\<exists>left_over. fs' = fs(temporary \<mapsto> left_over))"

lemma unlinked: "fs temporary = None \<Longrightarrow> cleaned_up env temporary fs (unlink_file (we_unlink_error env) temporary (fs(temporary \<mapsto> out)))"
  by (auto simp: cleaned_up_def unlink_file_def fun_upd_idem)

lemma artifact_write_cases:
  assumes "artifact_write env path identity tensors fs = Some (s, fs')"
  obtains (failed) "\<not> status_ok s" "cleaned_up env (temporary_path path (we_pid env)) fs fs'"
  | (written) h entries manifest rs out s1 where "writer_layout identity tensors = Inr (h, entries, manifest)"
    and "emit_artifact h manifest (zip tensors entries) (we_responses env, []) = Some (s1, (rs, out))"
    and "status_ok s1" and "s = ok_status" and "fs' = fs(path \<mapsto> out)"
proof (cases "writer_layout identity tensors")
  case (Inl e)
  then show ?thesis
    using assms writer_layout_error by (intro failed) (auto simp: artifact_write_def cleaned_up_def)
next
  case (Inr layout)
  obtain h entries manifest where layout: "layout = (h, entries, manifest)"
    by (cases layout)
  let ?tmp = "temporary_path path (we_pid env)"
  show ?thesis
  proof (cases "create_exclusive env fs ?tmp")
    case (Some e)
    then show ?thesis
      using assms Inr layout by (intro failed) (auto simp: artifact_write_def errno_status_def cleaned_up_def)
  next
    case None
    then have free: "fs ?tmp = None"
      by (simp add: create_exclusive_def split: if_splits)
    then have cleanup: "fs(?tmp := None) = fs"
      by auto
    from assms Inr layout None obtain s1 rs out where
      emit: "emit_artifact h manifest (zip tensors entries) (we_responses env, []) = Some (s1, (rs, out))"
      by (auto simp: artifact_write_def Let_def split: option.splits)
    show ?thesis
    proof (cases "status_ok s1 \<and> we_fsync_error env = None \<and> we_rename_error env = None")
      case True
      with assms Inr layout None emit have "s = ok_status" "fs' = fs(path \<mapsto> out)"
        by (auto simp: artifact_write_def Let_def cleanup)
      with written Inr layout emit True show ?thesis
        by blast
    next
      case False
      with assms Inr layout None emit have "\<not> status_ok s" "cleaned_up env ?tmp fs fs'"
        using unlinked [of fs ?tmp env, OF free]
        by (auto simp: artifact_write_def Let_def finish_failed_def errno_status_def
            split: if_splits option.splits)
      then show ?thesis
        by (rule failed)
    qed
  qed
qed

lemma stored_request:
  assumes "entry_of_request r e" and "request_ok r" and "sum_list (map request_size rs) < 2 ^ 64" and "r \<in> set rs"
    and "slice (unat (e_data_offset e)) (unat (e_data_bytes e)) (av_mapping view) = wr_data r
      \<and> (e_aux_bytes e \<noteq> 0 \<longrightarrow>
          slice (unat (e_aux_offset e)) (unat (e_aux_bytes e)) (av_mapping view) = wr_auxiliary r)"
  shows "request_stored view r (descriptor_of (wr_name r) e)"
proof -
  have "request_size r \<le> sum_list (map request_size rs)"
    using assms(4) by (intro member_le_sum_list) auto
  then have small: "length (wr_auxiliary r) < 2 ^ 64"
    using assms(3) by (simp add: request_size_def [of r])
  obtain off where e: "same_but_offsets (make_entry off r) e"
    using assms(1) by (auto simp: entry_of_request_def)
  note f = same_but_offsets_fields [OF e]
  have "length (wr_dimensions r) < 2 ^ 16"
    using assms(2) by (simp add: request_ok_def)
  then have rank: "unat (of_nat (length (wr_dimensions r)) :: u16) = length (wr_dimensions r)"
    by (simp add: unat_of_nat)
  have "e_aux_bytes e = 0 \<longleftrightarrow> wr_auxiliary r = []"
    using small u64_of_nat [of "length (wr_auxiliary r)"] f(10)
    by (auto simp: make_entry_def)
  then show ?thesis
    using assms(5) rank f
    by (simp add: request_stored_def descriptor_of_def make_entry_def artifact_data_def artifact_auxiliary_def)
qed

lemma artifact_write_stored:
  assumes "artifact_write env path identity tensors fs = Some (s, fs')" and "status_ok s"
    and "writer_size tensors < 2 ^ 63" and "list_all (\<lambda>r. length (wr_name r) < 2 ^ 32) tensors"
    and "no_nul identity"
  shows "\<exists>contents view. fs' path = Some contents
    \<and> artifact_open path verify (Mapped contents) = Inr view
    \<and> av_identity view = identity \<and> list_all2 (request_stored view) tensors (av_tensors view)"
  using assms(1)
proof (cases rule: artifact_write_cases)
  case failed
  with assms(2) show ?thesis by simp
next
  case (written h es manifest rs out s1)
  obtain d where img: "artifact_image identity (map wr_name tensors) es d out"
    and eor: "list_all2 entry_of_request tensors es"
    and slices: "\<forall>(r, e) \<in> set (zip tensors es).
      slice (unat (e_data_offset e)) (unat (e_data_bytes e)) out = wr_data r
      \<and> (e_aux_bytes e \<noteq> 0 \<longrightarrow> slice (unat (e_aux_offset e)) (unat (e_aux_bytes e)) out = wr_auxiliary r)"
    using writer_image [OF written(1-3) assms(3-5)] by blast
  have valid: "list_all request_ok tensors"
    using written(1) by (rule writer_layout_Inr)
  let ?view = "\<lparr> av_mapping = out, av_identity = identity,
    av_tensors = map2 descriptor_of (map wr_name tensors) es \<rparr>"
  have size: "sum_list (map request_size tensors) < 2 ^ 64"
    using assms(3) by (simp add: writer_size_def)
  have "request_stored ?view (tensors ! i) (descriptor_of (wr_name (tensors ! i)) (es ! i))"
    if i: "i < length tensors" for i
  proof (rule stored_request [OF list_all2_nthD [OF eor i] _ size])
    show "request_ok (tensors ! i)"
      using valid i by (simp add: list_all_length)
    show "tensors ! i \<in> set tensors"
      using i by simp
    have "(tensors ! i, es ! i) \<in> set (zip tensors es)"
      using i list_all2_lengthD [OF eor] by (auto simp: in_set_zip)
    then show "slice (unat (e_data_offset (es ! i))) (unat (e_data_bytes (es ! i))) (av_mapping ?view)
        = wr_data (tensors ! i)
      \<and> (e_aux_bytes (es ! i) \<noteq> 0 \<longrightarrow>
          slice (unat (e_aux_offset (es ! i))) (unat (e_aux_bytes (es ! i))) (av_mapping ?view)
          = wr_auxiliary (tensors ! i))"
      using slices by auto
  qed
  then have "list_all2 (request_stored ?view) tensors (av_tensors ?view)"
    using list_all2_lengthD [OF eor] by (simp add: list_all2_conv_all_nth)
  then show ?thesis
    using artifact_open_image [OF img assms(5)] written(5) by auto
qed

definition kernel_cooperates :: "write_env \<Rightarrow> nat \<Rightarrow> bool" where
  "kernel_cooperates env n \<longleftrightarrow> we_create_error env = None \<and> we_fsync_error env = None
     \<and> we_rename_error env = None \<and> can_accept (we_responses env) n"

lemma emit_layout_progress:
  assumes layout: "writer_layout identity rs = Inr (h, es, manifest)"
    and size: "writer_size rs < 2 ^ 63" and plain: "no_nul identity"
    and can: "can_accept responses (writer_size rs)"
  shows "\<exists>st'. emit_artifact h manifest (zip rs es) (responses, []) = Some (ok_status, st')"
proof -
  let ?n = "length rs" and ?names = "map wr_name rs"
  let ?m = "length (name_table ?names)"
  obtain ids d z where ids: "identity_fields identity = Some ids"
    and valid: "list_all request_ok rs"
    and d: "d = align_up (of_nat sizeof_DiskHeader + of_nat (?n * sizeof_DiskTensorEntry) + of_nat ?m)
      (ucast (256 :: u32))"
    and place: "place_payloads d (make_entries 0 rs) = Inr (es, z)"
    and man: "manifest = manifest_of es (name_table ?names)"
    and h: "h = make_header ids ?n ?m d z (crc64_ecma manifest)"
    using layout by (rule writer_layout_Inr)
  let ?room = "sum_list (map entry_room (make_entries 0 rs))"
  have sum: "sum_list (map request_size rs) + 512 < 2 ^ 63" "sum_list (map request_size rs) < 2 ^ 64"
    using size by (simp_all add: writer_size_def kFileAlignment_def)
  have total: "sizeof_DiskHeader + ?n * sizeof_DiskTensorEntry + ?m + 256 + ?room = writer_size rs"
    using request_size_split [OF valid sum(2), of 0]
    by (simp add: sizeof_DiskHeader_def writer_size_def kFileAlignment_def)
  have offsets: "sizeof_DiskHeader + ?n * sizeof_DiskTensorEntry + ?m + 256 < 2 ^ 64"
    using total size by simp
  note ho = header_offsets [OF offsets d]
  have ev0: "list_all entry_valid (make_entries 0 rs)"
    using make_entries_valid [OF valid sum(2)] .
  have "unat d + ?room < 2 ^ 64"
    using ho(3) total size by simp
  from place_payloads_laid_out [OF place ev0 this]
  have laid: "laid_out (unat d) es (unat z)" and same: "list_all2 same_but_offsets (make_entries 0 rs) es"
    and z: "unat z \<le> writer_size rs"
    using ho(3) total by simp_all
  have eor: "list_all2 entry_of_request rs es"
    using same by (rule entries_of_requests)
  have ev: "list_all entry_valid es"
    using same ev0 by (auto simp: list_all2_conv_all_nth list_all_length same_but_offsets_valid)
  have len: "length es = ?n"
    using list_all2_lengthD [OF eor] by simp
  have match: "list_all (\<lambda>(r, e). sizes_match r e) (zip rs es)"
    using make_entries_match [OF sum(2), of 0] same
    by (auto simp: list_all2_conv_all_nth list_all_length sizes_match_def same_but_offsets_fields)
  have hd: "h_data_offset h = d" "unat (h_strings_offset h + h_strings_bytes h)
      = sizeof_DiskHeader + ?n * sizeof_DiskTensorEntry + ?m"
    using ho(1) by (simp_all add: h make_header_def split_beta)
  have "length (encode_header h) = sizeof_DiskHeader"
    using identity_fields_facts(1) [OF ids plain] by (simp add: h header_codec.enc_length)
  moreover have "length manifest = ?n * sizeof_DiskTensorEntry + ?m"
    using length_manifest_of [OF ev] len by (simp add: man mult.commute)
  moreover have "length (payload_bytes (unat d) (zip rs es)) = unat z - unat d"
    using len by (intro length_payload_bytes [OF _ match]) (simp add: laid)
  moreover have "unat (d - (h_strings_offset h + h_strings_bytes h))
      = unat d - (sizeof_DiskHeader + ?n * sizeof_DiskTensorEntry + ?m)"
    using ho(2) hd(2) by (simp add: word_diff_nat)
  ultimately have "can_accept responses (length (encode_header h) + (length manifest
      + (unat (h_data_offset h - (h_strings_offset h + h_strings_bytes h))
      + length (payload_bytes (unat (h_data_offset h)) (zip rs es)))))"
    using ho(2) laid_out_mono [OF laid] z by (intro can_accept_mono [OF can]) (simp add: hd(1))
  moreover have "laid_out (unat (h_data_offset h)) (map snd (zip rs es)) (unat z)"
    using laid len by (simp add: hd(1))
  ultimately show ?thesis
    using unat_less_u64 [of z] by (intro emit_artifact_progress) simp_all
qed

lemma artifact_write_total:
  assumes "list_all request_ok tensors" and "distinct (map wr_name tensors)" and "length tensors \<le> max_u32"
    and "identity_fields identity \<noteq> None" and "no_nul identity" and "writer_size tensors < 2 ^ 63"
    and "kernel_cooperates env (writer_size tensors)" and "fs (temporary_path path (we_pid env)) = None"
  shows "\<exists>contents. artifact_write env path identity tensors fs = Some (ok_status, fs(path \<mapsto> contents))"
proof -
  obtain h es manifest where layout: "writer_layout identity tensors = Inr (h, es, manifest)"
    using writer_layout_total [OF assms(1,2,4,3,6)] by blast
  have can: "can_accept (we_responses env) (writer_size tensors)"
    using assms(7) by (simp add: kernel_cooperates_def)
  obtain st where emit: "emit_artifact h manifest (zip tensors es) (we_responses env, []) = Some (ok_status, st)"
    using emit_layout_progress [OF layout assms(6,5)] can by blast
  have "create_exclusive env fs (temporary_path path (we_pid env)) = None"
    using assms(7,8) by (simp add: create_exclusive_def kernel_cooperates_def)
  then have "\<exists>s fs'. artifact_write env path identity tensors fs = Some (s, fs') \<and> status_ok s"
    using layout emit assms(7)
    by (cases st) (simp add: artifact_write_def kernel_cooperates_def Let_def)
  then obtain s fs' where w: "artifact_write env path identity tensors fs = Some (s, fs')" "status_ok s"
    by blast
  from w(1) show ?thesis
    by (cases rule: artifact_write_cases) (use w in auto)
qed

section \<open>A concrete artifact\<close>

definition sample_identity :: artifact_identity where
  "sample_identity = \<lparr> target_arch = ''gfx1200'', model_id = ''qwen3.8-27b'', weights_id = ''w'', recipe_id = ''r'' \<rparr>"

definition sample_request :: tensor_write_request where
  "sample_request = \<lparr> wr_name = ''layer.0'', wr_dtype = dt_u8, wr_quantization = q_none,
     wr_dimensions = [2], wr_data = [1, 2], wr_auxiliary = [3], wr_alignment = 256 \<rparr>"

definition sample_env :: write_env where
  "sample_env = \<lparr> we_pid = 7, we_create_error = None, we_exists_error = ''EEXIST'',
     we_responses = replicate 2000 (Accepts 1), we_fsync_error = None, we_rename_error = None,
     we_unlink_error = None \<rparr>"

definition empty_fs :: file_system where "empty_fs = (\<lambda>_. None)"

lemma sample_facts:
  "list_all request_ok [sample_request]" "distinct (map wr_name [sample_request])"
  "length [sample_request] \<le> max_u32" "identity_fields sample_identity \<noteq> None"
  "no_nul sample_identity" "writer_size [sample_request] < 2 ^ 63"
  "kernel_cooperates sample_env (writer_size [sample_request])"
  "list_all (\<lambda>r. length (wr_name r) < 2 ^ 32) [sample_request]"
  "empty_fs p = None"
proof -
  show "list_all request_ok [sample_request]"
    by (simp add: request_ok_def sample_request_def valid_name_def is_prefix_def char_in_def
        power_of_two_def kFileAlignment_def)
  show "kernel_cooperates sample_env (writer_size [sample_request])"
    by (simp add: kernel_cooperates_def sample_env_def can_accept_def progresses_def accepting_def
        writer_size_def kFileAlignment_def request_size_def sample_request_def sizeof_DiskTensorEntry_def
        list_all_iff del: replicate_Suc)
qed (simp_all add: max_u32_def identity_fields_def sample_identity_def set_fixed_def no_nul_def
    writer_size_def kFileAlignment_def request_size_def sample_request_def sizeof_DiskTensorEntry_def
    empty_fs_def)

definition sample_file :: bytes where
  "sample_file = (case artifact_write sample_env ''a.gfxi'' sample_identity [sample_request] empty_fs of
     Some (s, fs) \<Rightarrow> (case fs ''a.gfxi'' of Some contents \<Rightarrow> contents | None \<Rightarrow> []) | None \<Rightarrow> [])"

definition sample_view :: artifact_view where
  "sample_view = (case artifact_open ''a.gfxi'' True (Mapped sample_file) of
     Inr view \<Rightarrow> view
   | Inl s \<Rightarrow> \<lparr> av_mapping = [], av_identity = sample_identity, av_tensors = [] \<rparr>)"

lemma sample_written:
  "artifact_write sample_env ''a.gfxi'' sample_identity [sample_request] empty_fs
    = Some (ok_status, empty_fs(''a.gfxi'' \<mapsto> sample_file))"
proof -
  obtain contents where
    w: "artifact_write sample_env ''a.gfxi'' sample_identity [sample_request] empty_fs
      = Some (ok_status, empty_fs(''a.gfxi'' \<mapsto> contents))"
    by (rule exE [OF artifact_write_total [where fs = empty_fs and path = "''a.gfxi''", OF sample_facts(1-7) sample_facts(9)]])
  then have "sample_file = contents"
    by (simp add: sample_file_def)
  with w show ?thesis by simp
qed

lemma sample_opened:
  "artifact_open ''a.gfxi'' True (Mapped sample_file) = Inr sample_view"
  "list_all2 (request_stored sample_view) [sample_request] (av_tensors sample_view)"
  using artifact_write_stored [OF sample_written _ sample_facts(6,8,5), of True]
  by (auto simp: sample_view_def)

lemma sample_view_identity: "av_identity sample_view = sample_identity"
  using artifact_write_stored [OF sample_written _ sample_facts(6,8,5), of True]
  by (auto simp: sample_view_def)

lemma sample_tensor:
  obtains t where "av_tensors sample_view = [t]" "td_name t = ''layer.0''" "td_alignment t = 256"
    "artifact_data sample_view t = [1, 2]" "artifact_auxiliary sample_view t = [3]"
  using sample_opened(2)
  by (auto simp: list_all2_Cons1 request_stored_def sample_request_def)

section \<open>Properties\<close>

text \<open>
  C5. Writing an artifact is atomic for its readers: after a success only the target path has changed;
  after a failure the file system is exactly what it was, unless the kernel also refused to unlink the
  temporary file, whose failure the code ignores. Then that file, which did not exist before, is left,
  and nothing else has changed.
\<close>

theorem artifact_write_atomic:
  assumes "artifact_write env path identity tensors fs = Some (s, fs')"
  shows "if status_ok s then \<exists>contents. fs' = fs(path \<mapsto> contents)
    else fs' = fs \<or> we_unlink_error env \<noteq> None
      \<and> (let temporary = temporary_path path (we_pid env) in
           fs temporary = None \<and> (\<exists>left_over. fs' = fs(temporary \<mapsto> left_over)))"
  using assms by (cases rule: artifact_write_cases) (auto simp: cleaned_up_def Let_def)

text \<open>A full disk, on a file system that is read-only by the time of the unlink.\<close>

definition full_disk :: write_env where
  "full_disk = sample_env\<lparr>we_responses := [Refuses ''ENOSPC''], we_unlink_error := Some ''EROFS''\<rparr>"

lemma full_disk_fails:
  "artifact_write full_disk ''a.gfxi'' sample_identity [sample_request] empty_fs
    = Some (Status io_error ''write failed: ENOSPC'', empty_fs(''a.gfxi.tmp.7'' \<mapsto> []))"
proof -
  obtain h entries manifest where layout: "writer_layout sample_identity [sample_request] = Inr (h, entries, manifest)"
    by (rule artifact_write_cases [OF sample_written]) auto
  have "encode_header h \<noteq> []"
    using length_le_bytes [of 4 "h_version h"] by (auto simp: encode_header_def simp del: length_le_bytes)
  then obtain b bs where "encode_header h = b # bs"
    by (cases "encode_header h") auto
  moreover have "temporary_path ''a.gfxi'' 7 = ''a.gfxi.tmp.7''"
    by code_simp
  ultimately show ?thesis
    by (simp add: artifact_write_def layout create_exclusive_def full_disk_def sample_env_def empty_fs_def
        emit_artifact_def put_def out_step_def and_then_def finish_failed_def unlink_file_def Let_def)
qed

theorem artifact_write_atomic_witness:
  "(\<exists>contents. empty_fs(''a.gfxi'' \<mapsto> sample_file) = empty_fs(''a.gfxi'' \<mapsto> contents))
   \<and> (\<exists>s fs. artifact_write full_disk ''a.gfxi'' sample_identity [sample_request] empty_fs = Some (s, fs)
        \<and> \<not> status_ok s \<and> fs \<noteq> empty_fs
        \<and> (\<exists>left_over. fs = empty_fs(temporary_path ''a.gfxi'' (we_pid full_disk) \<mapsto> left_over)))"
proof -
  have "empty_fs(''a.gfxi.tmp.7'' \<mapsto> []) \<noteq> empty_fs"
    by (metis empty_fs_def fun_upd_same option.distinct(1))
  then show ?thesis
    using artifact_write_atomic [OF sample_written] artifact_write_atomic [OF full_disk_fails] full_disk_fails
    by (auto simp: Let_def)
qed



text \<open>
  C6. Writing valid tensors succeeds: for distinct valid requests of a representable total size,
  an identity that fits its fields, and a kernel that makes progress on every call, \<open>write\<close>
  reports success, with only the target path changed.
\<close>

theorem artifact_write_completes:
  assumes "list_all request_ok tensors" and "distinct (map wr_name tensors)" and "length tensors \<le> max_u32"
    and "identity_fields identity \<noteq> None" and "no_nul identity" and "writer_size tensors < 2 ^ 63"
    and "kernel_cooperates env (writer_size tensors)" and "fs (temporary_path path (we_pid env)) = None"
  shows "\<exists>contents. artifact_write env path identity tensors fs = Some (ok_status, fs(path \<mapsto> contents))"
  using assms by (rule artifact_write_total)

theorem artifact_write_completes_witness:
  "\<exists>contents. artifact_write sample_env ''a.gfxi'' sample_identity [sample_request] empty_fs
    = Some (ok_status, empty_fs(''a.gfxi'' \<mapsto> contents))"
  by (rule artifact_write_completes) (rule sample_facts)+

text \<open>The written sample also meets the hypotheses of the properties of the reader.\<close>

theorem artifact_open_is_safe_witness:
  "view_safe sample_view \<and> checksums_hold sample_view"
  using artifact_open_is_safe [OF sample_opened(1)] by simp

theorem artifact_find_exact_witness:
  "\<exists>t. artifact_find sample_view ''layer.0'' = Some t"
proof -
  obtain t where "t \<in> set (av_tensors sample_view) \<and> td_name t = ''layer.0''"
    by (rule sample_tensor) auto
  then have "artifact_find sample_view ''layer.0'' = Some t"
    by (rule artifact_find_exact [OF sample_opened(1), THEN iffD2])
  then show ?thesis ..
qed

theorem artifact_open_detects_payload_corruption_witness:
  "\<exists>p s. artifact_open ''a.gfxi'' True (Mapped (overwrite p [9] sample_file)) = Inl s"
proof -
  obtain t where t: "av_tensors sample_view = [t]" "artifact_data sample_view t = [1, 2]"
    by (rule sample_tensor)
  let ?d = "unat (td_data_offset t)" and ?n = "unat (td_data_bytes t)"
  have "slice ?d ?n (av_mapping sample_view) = [1, 2]"
    using t(2) by (simp add: artifact_data_def)
  moreover have "av_mapping sample_view = sample_file"
    using sample_opened(1) by (rule artifact_open_Inr) simp
  ultimately have data: "slice ?d ?n sample_file = [1, 2]"
    by simp
  then have "min ?n (length sample_file - ?d) = 2"
    using length_slice [of ?d ?n sample_file] by simp
  then have n: "1 \<le> ?n"
    by simp
  have "slice ?d 1 sample_file = slice 0 1 (slice ?d ?n sample_file)"
    using n slice_slice [of 0 1 ?n ?d sample_file] by simp
  also have "\<dots> = [1]"
    unfolding data by (simp add: slice_def)
  finally have first: "slice ?d 1 sample_file = [1]" .
  have "\<exists>s. artifact_open ''a.gfxi'' True (Mapped (overwrite ?d [9] sample_file)) = Inl s"
    by (rule artifact_open_detects_payload_corruption [OF sample_opened(1), of t])
      (use t n first in simp_all)
  then show ?thesis by blast
qed

end
