(* ===== verification/ArtifactStream.thy ===== *)
theory ArtifactStream
  imports ArtifactWrite
begin

text \<open>
  \<open>ArtifactStreamWriter\<close> of \<^verbatim>\<open>src/artifact.cpp\<close>: \<open>create\<close> sizes a temporary file from a plan,
  \<open>append_data\<close> and \<open>append_auxiliary\<close> fill the payloads in any order of tensors, \<open>finalize\<close>
  completes the directory and installs the file. The temporary file is kept in the file system
  under its path; the kernel's answers are arguments of every operation.
\<close>

section \<open>State\<close>

record tensor_state =
  ts_data_written :: u64
  ts_auxiliary_written :: u64
  ts_data_crc64 :: u64

record stream_impl =
  si_final_path :: string
  si_temporary_path :: string
  si_fd_open :: bool
  si_header :: disk_header
  si_entries :: "disk_tensor_entry list"
  si_strings :: bytes
  si_states :: "tensor_state list"
  si_finalized :: bool

text \<open>\<open>~Impl\<close>: the temporary path is unlinked unless the writer was finalized; the result of \<open>::unlink\<close>
  is ignored.\<close>

definition stream_destroy :: "string option \<Rightarrow> stream_impl \<Rightarrow> file_system \<Rightarrow> file_system" where
  "stream_destroy unlink_error w fs =
     (if \<not> si_finalized w \<and> si_temporary_path w \<noteq> [] then unlink_file unlink_error (si_temporary_path w) fs else fs)"

section \<open>create\<close>

definition make_plan_entry :: "nat \<Rightarrow> tensor_write_plan \<Rightarrow> disk_tensor_entry" where
  "make_plan_entry strings_size plan =
     \<lparr> e_name_offset = of_nat strings_size,
       e_name_bytes = of_nat (length (wp_name plan)),
       e_dtype = dtype_code (wp_dtype plan),
       e_quantization = quantization_code (wp_quantization plan),
       e_rank = of_nat (length (wp_dimensions plan)),
       e_flags = 0,
       e_alignment = wp_alignment plan,
       e_dimensions = wp_dimensions plan @ replicate (4 - length (wp_dimensions plan)) 0,
       e_data_offset = 0,
       e_data_bytes = wp_data_bytes plan,
       e_aux_offset = 0,
       e_aux_bytes = wp_auxiliary_bytes plan,
       e_data_crc64 = 0,
       e_reserved = replicate 32 0 \<rparr>"

fun collect_plans ::
  "string list \<Rightarrow> bytes \<Rightarrow> tensor_write_plan list \<Rightarrow> (disk_tensor_entry list \<times> bytes) result"
where
  "collect_plans unique_names strings [] = Inr ([], strings)"
| "collect_plans unique_names strings (plan # rest) =
     (if \<not> valid_name (wp_name plan) \<or> wp_name plan \<in> set unique_names
         \<or> length (wp_dimensions plan) > 4 \<or> wp_data_bytes plan = 0
         \<or> unat (wp_alignment plan) < kFileAlignment
         \<or> wp_alignment plan AND (wp_alignment plan - 1) \<noteq> 0
      then Err invalid_argument (''invalid tensor stream plan: '' @ wp_name plan)
      else result_bind
        (collect_plans (wp_name plan # unique_names) (strings @ bytes_of_string (wp_name plan)) rest)
        (\<lambda>(entries, all_strings). Inr (make_plan_entry (length strings) plan # entries, all_strings)))"

fun plan_payloads :: "u64 \<Rightarrow> disk_tensor_entry list \<Rightarrow> (disk_tensor_entry list \<times> u64) result" where
  "plan_payloads cursor [] = Inr ([], cursor)"
| "plan_payloads cursor (e # es) =
     (let data_offset = align_up cursor (ucast (e_alignment e)) in
      if data_offset = 0 \<or> e_data_bytes e > - 1 - data_offset
      then Err invalid_argument ''artifact tensor offset overflow''
      else let after_data = data_offset + e_data_bytes e in
        if e_aux_bytes e = 0 then
          result_bind (plan_payloads after_data es) (\<lambda>(es', end).
            Inr (e\<lparr>e_data_offset := data_offset\<rparr> # es', end))
        else let aux_offset = align_up after_data (ucast (e_alignment e)) in
          if aux_offset = 0 \<or> e_aux_bytes e > - 1 - aux_offset
          then Err invalid_argument ''artifact auxiliary offset overflow''
          else result_bind (plan_payloads (aux_offset + e_aux_bytes e) es) (\<lambda>(es', end).
            Inr (e\<lparr>e_data_offset := data_offset, e_aux_offset := aux_offset\<rparr> # es', end)))"

definition stream_layout ::
  "artifact_identity \<Rightarrow> tensor_write_plan list \<Rightarrow> (disk_header \<times> disk_tensor_entry list \<times> bytes) result"
where
  "stream_layout identity tensors =
     (case identity_fields identity of
        None \<Rightarrow> Err invalid_argument ''artifact identity is empty or too long''
      | Some ids \<Rightarrow>
          result_bind (collect_plans [] [] tensors) (\<lambda>(entries, strings).
            let strings_offset =
                  of_nat sizeof_DiskHeader + of_nat (length entries * sizeof_DiskTensorEntry) :: u64;
                data_offset = align_up (strings_offset + of_nat (length strings)) (of_nat kFileAlignment)
            in if data_offset = 0 then Err invalid_argument ''artifact size overflow''
            else result_bind (plan_payloads data_offset entries) (\<lambda>(placed_entries, end).
              if unat end > max_off_t
              then Err invalid_argument ''artifact exceeds platform file-size limit''
              else Inr (make_header ids (length tensors) (length strings) data_offset end 0,
                        placed_entries, strings))))"

text \<open>\<open>pwrite_all\<close> on the temporary file. A closed descriptor is refused by the kernel.\<close>

record stream_env =
  sv_pid :: nat
  sv_create_error :: "string option"
  sv_exists_error :: string
  sv_truncate_error :: "string option"
  sv_unlink_error :: "string option"

definition stream_pwrite ::
  "write_response list \<Rightarrow> string \<Rightarrow> bytes \<Rightarrow> u64 \<Rightarrow> file_system
    \<Rightarrow> (status \<times> file_system \<times> write_response list) option"
where
  "stream_pwrite rs temporary src offset fs =
     (case fs temporary of
        None \<Rightarrow> None
      | Some contents \<Rightarrow>
          (case pwrite_all rs src offset contents of
             None \<Rightarrow> None
           | Some (s, contents', rs') \<Rightarrow> Some (s, fs(temporary \<mapsto> contents'), rs')))"

fun stream_pwrites ::
  "write_response list \<Rightarrow> string \<Rightarrow> (bytes \<times> u64) list \<Rightarrow> file_system
    \<Rightarrow> (status \<times> file_system \<times> write_response list) option"
where
  "stream_pwrites rs temporary [] fs = Some (ok_status, fs, rs)"
| "stream_pwrites rs temporary ((src, offset) # rest) fs =
     (case stream_pwrite rs temporary src offset fs of
        None \<Rightarrow> None
      | Some (s, fs', rs') \<Rightarrow>
          if status_ok s then stream_pwrites rs' temporary rest fs' else Some (s, fs', rs'))"

definition stream_create ::
  "stream_env \<Rightarrow> write_response list \<Rightarrow> string \<Rightarrow> artifact_identity \<Rightarrow> tensor_write_plan list
    \<Rightarrow> file_system \<Rightarrow> (stream_impl result \<times> file_system) option"
where
  "stream_create env rs path identity tensors fs =
     (if length tensors > max_u32
      then Some (Err invalid_argument ''too many tensors for .gfxi v1'', fs)
      else
        let temporary = temporary_path path (sv_pid env);
            discard = unlink_file (sv_unlink_error env) temporary
        in case stream_layout identity tensors of
          Inl s \<Rightarrow> Some (Inl s, discard fs)
        | Inr (h, entries, strings) \<Rightarrow>
            case (if fs temporary \<noteq> None then Some (sv_exists_error env) else sv_create_error env) of
              Some e \<Rightarrow> Some (Inl (errno_status ''cannot create'' temporary e), discard fs)
            | None \<Rightarrow>
                case sv_truncate_error env of
                  Some e \<Rightarrow> Some (Inl (errno_status ''cannot size'' temporary e), discard (fs(temporary \<mapsto> [])))
                | None \<Rightarrow>
                    let sized = fs(temporary \<mapsto> replicate (unat (h_file_bytes h)) 0) in
                    case stream_pwrites rs temporary
                        ([(encode_header h, 0)]
                         @ (if entries \<noteq> [] then [(concat (map encode_entry entries), h_directory_offset h)] else [])
                         @ (if strings \<noteq> [] then [(strings, h_strings_offset h)] else [])) sized of
                      None \<Rightarrow> None
                    | Some (s, fs', rs') \<Rightarrow>
                        if \<not> status_ok s then Some (Inl s, discard fs')
                        else Some (Inr
                          \<lparr> si_final_path = path, si_temporary_path = temporary, si_fd_open = True,
                            si_header = h, si_entries = entries, si_strings = strings,
                            si_states = replicate (length tensors)
                              \<lparr> ts_data_written = 0, ts_auxiliary_written = 0, ts_data_crc64 = 0 \<rparr>,
                            si_finalized = False \<rparr>, fs'))"

section \<open>append and finalize\<close>

definition append_data ::
  "write_response list \<Rightarrow> string \<Rightarrow> nat \<Rightarrow> bytes \<Rightarrow> stream_impl option \<Rightarrow> file_system
    \<Rightarrow> (status \<times> stream_impl option \<times> file_system) option"
where
  "append_data rs ebadf tensor_index bytes impl fs =
     (case impl of
        None \<Rightarrow> Some (Status invalid_argument ''invalid or finalized artifact stream writer'', None, fs)
      | Some w \<Rightarrow>
          if si_finalized w \<or> tensor_index \<ge> length (si_entries w)
          then Some (Status invalid_argument ''invalid or finalized artifact stream writer'', Some w, fs)
          else
            let state = si_states w ! tensor_index; entry = si_entries w ! tensor_index in
            if length bytes > unat (e_data_bytes entry - ts_data_written state)
            then Some (Status invalid_argument ''tensor data stream exceeds its declared size'', Some w, fs)
            else
              case (if si_fd_open w
                    then stream_pwrite rs (si_temporary_path w) bytes
                           (e_data_offset entry + ts_data_written state) fs
                    else if bytes = [] then Some (ok_status, fs, rs)
                    else Some (Status io_error (''pwrite failed: '' @ ebadf), fs, rs)) of
                None \<Rightarrow> None
              | Some (s, fs', rs') \<Rightarrow>
                  if \<not> status_ok s then Some (s, Some w, fs')
                  else
                    let state' = state
                      \<lparr> ts_data_crc64 := crc64_ecma_update (ts_data_crc64 state) bytes,
                        ts_data_written := ts_data_written state + of_nat (length bytes) \<rparr>
                    in Some (ok_status, Some (w\<lparr>si_states := (si_states w)[tensor_index := state']\<rparr>), fs'))"

definition append_auxiliary ::
  "write_response list \<Rightarrow> string \<Rightarrow> nat \<Rightarrow> bytes \<Rightarrow> stream_impl option \<Rightarrow> file_system
    \<Rightarrow> (status \<times> stream_impl option \<times> file_system) option"
where
  "append_auxiliary rs ebadf tensor_index bytes impl fs =
     (case impl of
        None \<Rightarrow> Some (Status invalid_argument ''invalid or finalized artifact stream writer'', None, fs)
      | Some w \<Rightarrow>
          if si_finalized w \<or> tensor_index \<ge> length (si_entries w)
          then Some (Status invalid_argument ''invalid or finalized artifact stream writer'', Some w, fs)
          else
            let state = si_states w ! tensor_index; entry = si_entries w ! tensor_index in
            if length bytes > unat (e_aux_bytes entry - ts_auxiliary_written state)
            then Some (Status invalid_argument ''tensor auxiliary stream exceeds its declared size'', Some w, fs)
            else
              case (if si_fd_open w
                    then stream_pwrite rs (si_temporary_path w) bytes
                           (e_aux_offset entry + ts_auxiliary_written state) fs
                    else if bytes = [] then Some (ok_status, fs, rs)
                    else Some (Status io_error (''pwrite failed: '' @ ebadf), fs, rs)) of
                None \<Rightarrow> None
              | Some (s, fs', rs') \<Rightarrow>
                  if \<not> status_ok s then Some (s, Some w, fs')
                  else
                    let state' = state
                      \<lparr> ts_auxiliary_written := ts_auxiliary_written state + of_nat (length bytes) \<rparr>
                    in Some (ok_status, Some (w\<lparr>si_states := (si_states w)[tensor_index := state']\<rparr>), fs'))"

text \<open>The loop of \<open>finalize\<close>: the checksums of the tensors before the first incomplete one are
  already stored when the loop returns early.\<close>

fun finalize_entries ::
  "nat \<Rightarrow> disk_tensor_entry list \<Rightarrow> tensor_state list \<Rightarrow> disk_tensor_entry list \<times> status"
where
  "finalize_entries index (e # es) (t # ts) =
     (if ts_data_written t \<noteq> e_data_bytes e \<or> ts_auxiliary_written t \<noteq> e_aux_bytes e
      then (e # es, Status invalid_argument (''artifact stream is incomplete at tensor index '' @ to_string index))
      else case finalize_entries (Suc index) es ts of
        (es', s) \<Rightarrow> (e\<lparr>e_data_crc64 := ts_data_crc64 t\<rparr> # es', s))"
| "finalize_entries index es ts = (es, ok_status)"

record finalize_env =
  fv_responses :: "write_response list"
  fv_ebadf :: string
  fv_fsync_error :: "string option"
  fv_close_error :: "string option"
  fv_rename_error :: "string option"

definition stream_finalize ::
  "finalize_env \<Rightarrow> stream_impl option \<Rightarrow> file_system \<Rightarrow> (status \<times> stream_impl option \<times> file_system) option"
where
  "stream_finalize env impl fs =
     (case impl of
        None \<Rightarrow> Some (Status invalid_argument ''artifact stream writer is absent or already finalized'', None, fs)
      | Some w \<Rightarrow>
          if si_finalized w
          then Some (Status invalid_argument ''artifact stream writer is absent or already finalized'', Some w, fs)
          else case finalize_entries 0 (si_entries w) (si_states w) of
            (entries, s) \<Rightarrow>
              if \<not> status_ok s then Some (s, Some (w\<lparr>si_entries := entries\<rparr>), fs)
              else
                let manifest = manifest_of entries (si_strings w);
                    h = (si_header w)\<lparr>h_manifest_crc64 := crc64_ecma manifest\<rparr>;
                    w1 = w\<lparr>si_entries := entries, si_header := h\<rparr>
                in if \<not> si_fd_open w
                then Some (Status io_error (''pwrite failed: '' @ fv_ebadf env), Some w1, fs)
                else case stream_pwrites (fv_responses env) (si_temporary_path w)
                    [(encode_header h, 0), (manifest, h_directory_offset h)] fs of
                  None \<Rightarrow> None
                | Some (s, fs', rs') \<Rightarrow>
                    if \<not> status_ok s then Some (s, Some w1, fs')
                    else case fv_fsync_error env of
                      Some e \<Rightarrow> Some (Status io_error (''fsync failed: '' @ e), Some w1, fs')
                    | None \<Rightarrow>
                        let w2 = w1\<lparr>si_fd_open := False\<rparr> in
                        case fv_close_error env of
                          Some e \<Rightarrow> Some (Status io_error (''close failed: '' @ e), Some w2, fs')
                        | None \<Rightarrow>
                            case fv_rename_error env of
                              Some e \<Rightarrow> Some (errno_status ''cannot install artifact'' (si_final_path w) e, Some w2, fs')
                            | None \<Rightarrow>
                                Some (ok_status, Some (w2\<lparr>si_finalized := True\<rparr>),
                                      (fs'(si_temporary_path w := None))
                                        (si_final_path w := fs' (si_temporary_path w))))"

section \<open>Payload regions\<close>

text \<open>Region \<open>False\<close> of an entry is its data, region \<open>True\<close> its auxiliary bytes.\<close>

definition reg_off :: "bool \<Rightarrow> disk_tensor_entry \<Rightarrow> nat" where
  "reg_off k e = (if k then unat (e_aux_offset e) else unat (e_data_offset e))"

definition reg_len :: "bool \<Rightarrow> disk_tensor_entry \<Rightarrow> nat" where
  "reg_len k e = (if k then unat (e_aux_bytes e) else unat (e_data_bytes e))"

definition reg_written :: "bool \<Rightarrow> tensor_state \<Rightarrow> nat" where
  "reg_written k t = (if k then unat (ts_auxiliary_written t) else unat (ts_data_written t))"

definition entry_end :: "disk_tensor_entry \<Rightarrow> nat" where
  "entry_end e = (if e_aux_bytes e = 0 then unat (e_data_offset e) + unat (e_data_bytes e)
     else unat (e_aux_offset e) + unat (e_aux_bytes e))"

lemma laid_out_Cons:
  "laid_out c (e # es) z \<longleftrightarrow>
   c \<le> unat (e_data_offset e) \<and> unat (e_alignment e) dvd unat (e_data_offset e)
   \<and> (e_aux_bytes e \<noteq> 0 \<longrightarrow> unat (e_data_offset e) + unat (e_data_bytes e) \<le> unat (e_aux_offset e)
       \<and> unat (e_alignment e) dvd unat (e_aux_offset e))
   \<and> laid_out (entry_end e) es z"
  by (auto simp: Let_def entry_end_def)

lemma laid_out_order:
  "laid_out c es z \<Longrightarrow> i < j \<Longrightarrow> j < length es \<Longrightarrow>
   entry_end (es ! i) \<le> unat (e_data_offset (es ! j))"
proof (induction es arbitrary: c i j)
  case Nil
  then show ?case by simp
next
  case (Cons e es)
  have rest: "laid_out (entry_end e) es z"
    using Cons.prems(1) by (simp only: laid_out_Cons)
  obtain j' where j: "j = Suc j'" "j' < length es"
    using Cons.prems(2,3) by (cases j) auto
  show ?case
  proof (cases i)
    case 0
    have "es ! j' \<in> set es"
      using j(2) by simp
    from laid_out_bounds [OF rest this] show ?thesis
      by (simp add: 0 j(1))
  next
    case (Suc i')
    with Cons.IH [OF rest, of i' j'] Cons.prems(2) j show ?thesis
      by simp
  qed
qed

lemma laid_out_inner:
  "laid_out c es z \<Longrightarrow> e \<in> set es \<Longrightarrow> e_aux_bytes e \<noteq> 0 \<Longrightarrow>
   unat (e_data_offset e) + unat (e_data_bytes e) \<le> unat (e_aux_offset e)"
  by (induction es arbitrary: c) (auto simp: laid_out_Cons simp del: laid_out.simps(2))

lemma reg_in_file:
  assumes "laid_out c es z" and "e \<in> set es" and "0 < reg_len k e"
  shows "c \<le> reg_off k e" and "reg_off k e + reg_len k e \<le> z"
  using laid_out_bounds [OF assms(1,2)] assms(3)
  by (auto simp: reg_off_def reg_len_def split: if_splits)

lemma reg_within_entry:
  assumes "laid_out c es z" and "e \<in> set es" and "0 < reg_len k e"
  shows "unat (e_data_offset e) \<le> reg_off k e" and "reg_off k e + reg_len k e \<le> entry_end e"
  using laid_out_inner [OF assms(1,2)] assms(3)
  by (cases k; cases "e_aux_bytes e = 0"; simp add: reg_off_def reg_len_def entry_end_def)+

lemma regions_disjoint:
  assumes laid: "laid_out c es z" and i: "i < length es" and j: "j < length es"
    and ne: "(k, i) \<noteq> (k', j)" and pos: "0 < reg_len k (es ! i)" "0 < reg_len k' (es ! j)"
  shows "reg_off k (es ! i) + reg_len k (es ! i) \<le> reg_off k' (es ! j)
    \<or> reg_off k' (es ! j) + reg_len k' (es ! j) \<le> reg_off k (es ! i)"
proof -
  have mi: "es ! i \<in> set es" and mj: "es ! j \<in> set es"
    using i j by simp_all
  note wi = reg_within_entry [OF laid mi pos(1)] and wj = reg_within_entry [OF laid mj pos(2)]
  consider "i < j" | "j < i" | "i = j" "k \<noteq> k'"
    using ne by fastforce
  then show ?thesis
  proof cases
    case 1
    from laid_out_order [OF laid 1 j] wi wj show ?thesis by linarith
  next
    case 2
    from laid_out_order [OF laid 2 i] wi wj show ?thesis by linarith
  next
    case 3
    then have "e_aux_bytes (es ! i) \<noteq> 0"
      using pos by (auto simp: reg_len_def split: if_splits)
    from laid_out_inner [OF laid mi this] 3 show ?thesis
      by (auto simp: reg_off_def reg_len_def)
  qed
qed

section \<open>The invariant of the stream\<close>

text \<open>\<open>payloads_hold es ts S contents\<close>: the bytes \<open>S k i\<close> streamed so far into region \<open>k\<close> of
  tensor \<open>i\<close> are in the file at the region's start, the counters are their lengths and the running
  checksum is that of the data.\<close>

definition payloads_hold ::
  "disk_tensor_entry list \<Rightarrow> tensor_state list \<Rightarrow> (bool \<Rightarrow> nat \<Rightarrow> bytes) \<Rightarrow> bytes \<Rightarrow> bool"
where
  "payloads_hold es ts S contents \<longleftrightarrow> length ts = length es \<and>
     (\<forall>i < length es.
       (\<forall>k. reg_written k (ts ! i) = length (S k i) \<and> length (S k i) \<le> reg_len k (es ! i)
          \<and> slice (reg_off k (es ! i)) (length (S k i)) contents = S k i)
       \<and> ts_data_crc64 (ts ! i) = crc64_ecma (S False i))"

text \<open>Bytes written past the streamed part of a region disturb no streamed byte.\<close>

lemma payloads_hold_overwrite:
  assumes hold: "payloads_hold es ts S contents" and laid: "laid_out c es (length contents)"
    and i: "i < length es" and fit: "length (S k i) + length chunk \<le> reg_len k (es ! i)"
  shows "payloads_hold es ts S (overwrite (reg_off k (es ! i) + length (S k i)) chunk contents)"
proof (cases "chunk = []")
  case True
  with hold show ?thesis by simp
next
  case False
  let ?off = "reg_off k (es ! i) + length (S k i)"
  have pos: "0 < reg_len k (es ! i)"
    using False fit by (cases chunk) auto
  have mi: "es ! i \<in> set es"
    using i by simp
  have inside: "?off + length chunk \<le> length contents"
    using reg_in_file(2) [OF laid mi pos] fit by linarith
  have "slice (reg_off k' (es ! j)) (length (S k' j)) (overwrite ?off chunk contents) = S k' j"
    if j: "j < length es" for k' j
  proof (cases "S k' j = []")
    case True
    then show ?thesis by simp
  next
    case ne: False
    have len: "length (S k' j) \<le> reg_len k' (es ! j)"
      and here: "slice (reg_off k' (es ! j)) (length (S k' j)) contents = S k' j"
      using hold j by (auto simp: payloads_hold_def)
    have pos': "0 < reg_len k' (es ! j)"
      using ne len by (cases "S k' j") auto
    have mj: "es ! j \<in> set es"
      using j by simp
    have apart: "reg_off k' (es ! j) + length (S k' j) \<le> ?off \<or> ?off + length chunk \<le> reg_off k' (es ! j)"
    proof (cases "(k, i) = (k', j)")
      case True
      then show ?thesis by simp
    next
      case False
      from regions_disjoint [OF laid i j False pos pos'] show ?thesis
        using len fit by linarith
    qed
    have "slice (reg_off k' (es ! j)) (length (S k' j)) (overwrite ?off chunk contents)
        = slice (reg_off k' (es ! j)) (length (S k' j)) contents"
      using inside reg_in_file(2) [OF laid mj pos'] len apart by (intro slice_overwrite_other) linarith+
    with here show ?thesis by simp
  qed
  with hold show ?thesis
    by (simp add: payloads_hold_def)
qed

text \<open>A completed write extends the streamed bytes of its region.\<close>

definition extend :: "bool \<Rightarrow> nat \<Rightarrow> bytes \<Rightarrow> (bool \<Rightarrow> nat \<Rightarrow> bytes) \<Rightarrow> bool \<Rightarrow> nat \<Rightarrow> bytes" where
  "extend k i chunk S = (\<lambda>k' j. if (k', j) = (k, i) then S k i @ chunk else S k' j)"

lemma payloads_hold_extend:
  assumes hold: "payloads_hold es ts S contents" and laid: "laid_out c es (length contents)"
    and i: "i < length es" and fit: "length (S k i) + length chunk \<le> reg_len k (es ! i)"
    and t: "\<And>k'. reg_written k' t = (if k' = k then length (S k i) + length chunk else reg_written k' (ts ! i))"
    and crc: "ts_data_crc64 t = crc64_ecma (extend k i chunk S False i)"
  shows "payloads_hold es (ts[i := t]) (extend k i chunk S)
    (overwrite (reg_off k (es ! i) + length (S k i)) chunk contents)"
proof -
  let ?off = "reg_off k (es ! i) + length (S k i)" and ?S = "extend k i chunk S"
  let ?new = "overwrite ?off chunk contents"
  have old: "payloads_hold es ts S ?new"
    using payloads_hold_overwrite [OF hold laid i fit] .
  have here: "slice (reg_off k (es ! i)) (length (S k i @ chunk)) ?new = S k i @ chunk"
  proof (cases "chunk = []")
    case True
    then show ?thesis
      using old i by (simp add: payloads_hold_def)
  next
    case False
    have pos: "0 < reg_len k (es ! i)"
      using False fit by (cases chunk) auto
    have "?off + length chunk \<le> length contents"
      using reg_in_file(2) [OF laid _ pos] i fit by fastforce
    then have "slice ?off (length chunk) ?new = chunk"
      by (rule slice_overwrite_same)
    moreover have "slice (reg_off k (es ! i)) (length (S k i)) ?new = S k i"
      using old i by (simp add: payloads_hold_def)
    ultimately show ?thesis
      by (simp add: slice_split)
  qed
  have "reg_written k' (ts[i := t] ! j) = length (?S k' j) \<and> length (?S k' j) \<le> reg_len k' (es ! j)
      \<and> slice (reg_off k' (es ! j)) (length (?S k' j)) ?new = ?S k' j" if j: "j < length es" for k' j
  proof (cases "(k', j) = (k, i)")
    case True
    then show ?thesis
      using here fit t i hold by (simp add: extend_def payloads_hold_def)
  next
    case False
    then have "?S k' j = S k' j" and "reg_written k' (ts[i := t] ! j) = reg_written k' (ts ! j)"
      using t i hold j by (auto simp: extend_def payloads_hold_def nth_list_update)
    then show ?thesis
      using old j by (simp add: payloads_hold_def)
  qed
  moreover have "ts_data_crc64 (ts[i := t] ! j) = crc64_ecma (?S False j)" if "j < length es" for j
    using that crc hold i by (auto simp: extend_def payloads_hold_def nth_list_update)
  ultimately show ?thesis
    using hold by (simp add: payloads_hold_def)
qed

section \<open>The plan is laid out\<close>

fun make_plan_entries :: "nat \<Rightarrow> tensor_write_plan list \<Rightarrow> disk_tensor_entry list" where
  "make_plan_entries off [] = []"
| "make_plan_entries off (p # ps) = make_plan_entry off p # make_plan_entries (off + length (wp_name p)) ps"

definition plan_ok :: "tensor_write_plan \<Rightarrow> bool" where
  "plan_ok p \<longleftrightarrow> valid_name (wp_name p) \<and> length (wp_dimensions p) \<le> 4 \<and> wp_data_bytes p \<noteq> 0
     \<and> kFileAlignment \<le> unat (wp_alignment p) \<and> power_of_two (wp_alignment p)"

definition entry_of_plan :: "tensor_write_plan \<Rightarrow> disk_tensor_entry \<Rightarrow> bool" where
  "entry_of_plan p e \<longleftrightarrow> (\<exists>off. same_but_offsets (make_plan_entry off p) e)"

lemma collect_plans_Inr:
  "collect_plans unique strings ps = Inr (es, all) \<Longrightarrow>
   es = make_plan_entries (length strings) ps \<and> all = strings @ name_table (map wp_name ps)
   \<and> distinct (map wp_name ps) \<and> set (map wp_name ps) \<inter> set unique = {} \<and> list_all plan_ok ps"
proof (induction unique strings ps arbitrary: es rule: collect_plans.induct)
  case (1 unique strings)
  then show ?case by (simp add: name_table_def)
next
  case (2 unique strings p ps)
  let ?bad = "\<not> valid_name (wp_name p) \<or> wp_name p \<in> set unique
         \<or> length (wp_dimensions p) > 4 \<or> wp_data_bytes p = 0
         \<or> unat (wp_alignment p) < kFileAlignment
         \<or> wp_alignment p AND (wp_alignment p - 1) \<noteq> 0"
  from "2.prems" have good: "\<not> ?bad"
    by (auto split: if_splits)
  with "2.prems" obtain es' where
    es: "es = make_plan_entry (length strings) p # es'"
    and rest: "collect_plans (wp_name p # unique) (strings @ bytes_of_string (wp_name p)) ps = Inr (es', all)"
    by (auto simp: split_beta)
  have "plan_ok p"
    using good by (auto simp: plan_ok_def power_of_two_def kFileAlignment_def)
  with "2.IH" [OF good rest] good show ?case
    by (auto simp: es name_table_def)
qed

lemma make_plan_entries_valid: "list_all plan_ok ps \<Longrightarrow> list_all entry_valid (make_plan_entries off ps)"
proof (induction ps arbitrary: off)
  case (Cons p ps)
  have "(of_nat (length (wp_dimensions p)) :: u16) \<le> 4"
    using Cons.prems(1) by (simp add: plan_ok_def word_le_nat_alt unat_of_nat)
  then have "entry_valid (make_plan_entry off p)"
    using Cons.prems(1) by (simp add: entry_valid_def make_plan_entry_def entry_shape_def plan_ok_def)
  with Cons show ?case by simp
qed simp

lemma make_plan_entries_names:
  "list_all (\<lambda>p. length (wp_name p) < 2 ^ 32) ps \<Longrightarrow> off + length (name_table (map wp_name ps)) < 2 ^ 64 \<Longrightarrow>
   names_at off (map wp_name ps) (make_plan_entries off ps)"
proof (induction ps arbitrary: off)
  case (Cons p ps)
  then have "off + length (wp_name p) + length (name_table (map wp_name ps)) < 2 ^ 64"
    by (simp add: length_name_table)
  with Cons show ?case
    by (simp add: make_plan_entry_def u64_of_nat u32_of_nat)
qed simp

lemma align_up_nonzero:
  assumes "power_of_two (a :: u32)" and "align_up c (ucast a) \<noteq> 0"
  shows "unat c \<le> unat (align_up c (ucast a))" and "unat a dvd unat (align_up c (ucast a))"
proof -
  obtain k where k: "k < LENGTH(32)" "unat a = 2 ^ k"
    using assms(1) by (rule power_of_two_exp)
  then have "unat (ucast a :: u64) = unat (2 ^ k :: u64)"
    using u64_of_nat [of "2 ^ k"] by (simp add: exp_less_u64)
  then have "(ucast a :: u64) = 2 ^ k"
    by (rule word_unat_eqI)
  then have "power_of_two (ucast a :: u64)"
    using k power_of_two_intro [of k, where 'a = 64] by simp
  then show "unat c \<le> unat (align_up c (ucast a))" and "unat a dvd unat (align_up c (ucast a))"
    using assms(2) by (cases rule: align_up_cases [of "ucast a" c], simp_all)+
qed

lemma u64_no_overflow: "\<not> b > - 1 - a \<Longrightarrow> unat (a + b) = unat a + unat b" for a b :: u64
proof -
  assume "\<not> b > - 1 - a"
  moreover have "unat (- 1 - a) = 2 ^ 64 - 1 - unat a"
  proof -
    have "unat (- 1 - a) = unat (- 1 :: u64) - unat a"
      by (rule unat_sub) simp
    then show ?thesis
      by (simp add: unsigned_minus_1_eq_mask mask_eq_exp_minus_1)
  qed
  ultimately have "unat b \<le> 2 ^ 64 - 1 - unat a"
    by (simp only: word_less_nat_alt not_less)
  then show ?thesis
    using unat_less_u64 [of a] by (intro u64_add) simp
qed

lemma plan_payloads_laid_out:
  "plan_payloads c es = Inr (es', z) \<Longrightarrow> list_all entry_valid es \<Longrightarrow>
   laid_out (unat c) es' (unat z) \<and> list_all2 same_but_offsets es es'"
proof (induction es arbitrary: c es')
  case Nil
  then show ?case by simp
next
  case (Cons e es)
  let ?al = "ucast (e_alignment e) :: u64"
  define d where "d = align_up c ?al"
  define d' where "d' = d + e_data_bytes e"
  have p: "power_of_two (e_alignment e)"
    using Cons.prems(2) by (simp add: entry_valid_def)
  have dok: "d \<noteq> 0" "\<not> e_data_bytes e > - 1 - d"
    using Cons.prems(1) by (auto simp: Let_def d_def split: if_splits)
  note d = align_up_nonzero [OF p, of c, folded d_def, OF dok(1)]
  have ud': "unat d' = unat d + unat (e_data_bytes e)"
    unfolding d'_def by (rule u64_no_overflow [OF dok(2)])
  show ?case
  proof (cases "e_aux_bytes e = 0")
    case True
    then obtain es1 where es1: "plan_payloads d' es = Inr (es1, z)"
      and es': "es' = e\<lparr>e_data_offset := d\<rparr> # es1"
      using Cons.prems(1) dok by (auto simp: Let_def d_def [symmetric] d'_def [symmetric])
    from Cons.IH [OF es1] Cons.prems(2)
    have IH: "laid_out (unat d') es1 (unat z)" "list_all2 same_but_offsets es es1"
      by simp_all
    have "same_but_offsets e (e\<lparr>e_data_offset := d\<rparr>)"
      unfolding same_but_offsets_def by (intro exI [of _ d] exI [of _ "e_aux_offset e"]) simp
    then show ?thesis
      using IH d ud' True by (simp add: es' Let_def)
  next
    case False
    define a where "a = align_up d' ?al"
    from False Cons.prems(1) dok have aok: "a \<noteq> 0" "\<not> e_aux_bytes e > - 1 - a"
      by (auto simp: Let_def d_def [symmetric] d'_def [symmetric] a_def [symmetric] split: if_splits)
    note a = align_up_nonzero [OF p, of d', folded a_def, OF aok(1)]
    have ua: "unat (a + e_aux_bytes e) = unat a + unat (e_aux_bytes e)"
      by (rule u64_no_overflow [OF aok(2)])
    from False Cons.prems(1) dok aok obtain es1 where es1: "plan_payloads (a + e_aux_bytes e) es = Inr (es1, z)"
      and es': "es' = e\<lparr>e_data_offset := d, e_aux_offset := a\<rparr> # es1"
      by (auto simp: Let_def d_def [symmetric] d'_def [symmetric] a_def [symmetric])
    from Cons.IH [OF es1] Cons.prems(2)
    have IH: "laid_out (unat (a + e_aux_bytes e)) es1 (unat z)" "list_all2 same_but_offsets es es1"
      by simp_all
    have "same_but_offsets e (e\<lparr>e_data_offset := d, e_aux_offset := a\<rparr>)"
      by (auto simp: same_but_offsets_def)
    then show ?thesis
      using IH d ud' a ua False by (simp add: es' Let_def)
  qed
qed

text \<open>What \<open>create\<close> fixes and no append changes.\<close>

definition stream_shape ::
  "artifact_identity \<Rightarrow> tensor_write_plan list \<Rightarrow> stream_impl \<Rightarrow> u64 \<Rightarrow> nat \<Rightarrow> bool"
where
  "stream_shape identity plans w d n \<longleftrightarrow>
     (\<exists>ids c. identity_fields identity = Some ids \<and>
        si_header w = make_header ids (length plans) (length (si_strings w)) d (of_nat n) c)
     \<and> si_strings w = name_table (map wp_name plans)
     \<and> sizeof_DiskHeader + length plans * sizeof_DiskTensorEntry + length (si_strings w) \<le> unat d
     \<and> n \<le> max_off_t \<and> length plans \<le> max_u32
     \<and> laid_out (unat d) (si_entries w) n
     \<and> list_all2 entry_of_plan plans (si_entries w) \<and> list_all entry_valid (si_entries w)
     \<and> names_at 0 (map wp_name plans) (si_entries w)
     \<and> distinct (map wp_name plans) \<and> list_all plan_ok plans"

definition names_fit :: "tensor_write_plan list \<Rightarrow> bool" where
  "names_fit plans \<longleftrightarrow> list_all (\<lambda>p. length (wp_name p) < 2 ^ 32) plans
     \<and> length (name_table (map wp_name plans)) < 2 ^ 62"

lemma make_header_fields [simp]:
  "h_file_bytes (make_header ids n m d z c) = z"
  "h_directory_offset (make_header ids n m d z c) = of_nat sizeof_DiskHeader"
  "(make_header ids n m d z c)\<lparr>h_manifest_crc64 := c'\<rparr> = make_header ids n m d z c'"
  by (simp_all add: make_header_def split_beta)

lemma stream_layout_shape:
  assumes "stream_layout identity plans = Inr (h, es, strings)" and "length plans \<le> max_u32"
    and "names_fit plans"
  obtains d where "stream_shape identity plans
      \<lparr> si_final_path = path, si_temporary_path = temporary, si_fd_open = fd,
        si_header = h, si_entries = es, si_strings = strings, si_states = states,
        si_finalized = fin \<rparr> d (unat (h_file_bytes h))"
proof -
  have len: "length (make_plan_entries off plans) = length plans" for off
    by (induction plans arbitrary: off) simp_all
  from assms(1) obtain ids es0 where
    ids: "identity_fields identity = Some ids"
    and collect: "collect_plans [] [] plans = Inr (es0, strings)"
    by (auto simp: stream_layout_def Let_def split: option.splits if_splits)
  from collect_plans_Inr [OF collect] have
    es0: "es0 = make_plan_entries 0 plans" "strings = name_table (map wp_name plans)"
    and ok: "distinct (map wp_name plans)" "list_all plan_ok plans"
    by simp_all
  let ?n = "length plans" and ?m = "length (name_table (map wp_name plans))"
  define d where "d = align_up (of_nat sizeof_DiskHeader + of_nat (?n * sizeof_DiskTensorEntry)
      + of_nat ?m) (ucast (256 :: u32))"
  obtain z where place: "plan_payloads d (make_plan_entries 0 plans) = Inr (es, z)"
    and z: "unat z \<le> max_off_t" and h: "h = make_header ids ?n ?m d z 0"
    using assms(1) ids collect
    by (auto simp: stream_layout_def es0 len Let_def kFileAlignment_def d_def not_less split: if_splits)
  have "?n < 2 ^ 32" "?m < 2 ^ 62"
    using assms(2,3) by (simp_all add: max_u32_def names_fit_def)
  then have "sizeof_DiskHeader + ?n * sizeof_DiskTensorEntry + ?m + 256 < 2 ^ 64"
    by (simp add: sizeof_DiskHeader_def sizeof_DiskTensorEntry_def)
  note ho = header_offsets(2) [OF this d_def]
  have ev0: "list_all entry_valid (make_plan_entries 0 plans)"
    using make_plan_entries_valid [OF ok(2)] .
  from plan_payloads_laid_out [OF place ev0]
  have laid: "laid_out (unat d) es (unat z)" and same: "list_all2 same_but_offsets (make_plan_entries 0 plans) es"
    by simp_all
  have ev: "list_all entry_valid es"
    using same ev0 by (auto simp: list_all2_conv_all_nth list_all_length same_but_offsets_valid)
  have eop: "list_all2 entry_of_plan plans es"
  proof -
    have "list_all2 same_but_offsets (make_plan_entries off ps) fs \<Longrightarrow> list_all2 entry_of_plan ps fs" for off ps fs
      by (induction ps arbitrary: off fs) (auto simp: list_all2_Cons1 entry_of_plan_def)
    from this [OF same] show ?thesis .
  qed
  have nm: "names_at 0 (map wp_name plans) es"
    using make_plan_entries_names [of plans 0] assms(3) same_but_offsets_names [OF same]
    by (simp add: names_fit_def)
  show ?thesis
    using ids h ho z assms(2) laid ev eop nm ok
    by (intro that [of d]) (auto simp: stream_shape_def es0 h)
qed

section \<open>The operations keep the invariant\<close>

definition stream_inv ::
  "artifact_identity \<Rightarrow> tensor_write_plan list \<Rightarrow> (bool \<Rightarrow> nat \<Rightarrow> bytes) \<Rightarrow> stream_impl \<Rightarrow> file_system \<Rightarrow> bool"
where
  "stream_inv identity plans S w fs \<longleftrightarrow>
     \<not> si_finalized w \<and> si_fd_open w \<and>
     (\<exists>contents d. fs (si_temporary_path w) = Some contents
       \<and> stream_shape identity plans w d (length contents)
       \<and> payloads_hold (si_entries w) (si_states w) S contents)"

lemma stream_pwrite_inside:
  assumes "stream_pwrite rs temporary src offset fs = Some (s, fs', rs')"
    and "fs temporary = Some contents" and "length contents \<le> max_off_t"
    and "src \<noteq> [] \<Longrightarrow> unat offset + length src \<le> length contents"
  obtains n where "fs' = fs(temporary \<mapsto> overwrite (unat offset) (take n src) contents)"
    and "status_ok s \<longleftrightarrow> take n src = src"
proof -
  from assms(1,2) obtain contents' where
    p: "pwrite_all rs src offset contents = Some (s, contents', rs')" and fs': "fs' = fs(temporary \<mapsto> contents')"
    by (auto simp: stream_pwrite_def split: option.splits)
  show ?thesis
  proof (cases "src = []")
    case True
    with p fs' have "fs' = fs(temporary \<mapsto> contents)" "status_ok s"
      by auto
    with True that [of 0] show ?thesis
      by simp
  next
    case False
    from pwrite_all_inside [OF p assms(4) [OF False] assms(3)] that fs' show ?thesis
      by blast
  qed
qed

definition no_bytes :: "bool \<Rightarrow> nat \<Rightarrow> bytes" where
  "no_bytes = (\<lambda>k i. [])"

lemma stream_pwrites_length:
  assumes "stream_pwrites rs temporary ps fs = Some (s, fs', rs')" and "fs temporary = Some contents"
    and "length contents \<le> max_off_t"
    and "list_all (\<lambda>(src, off). unat off + length src \<le> length contents) ps"
  shows "\<exists>contents'. fs' = fs(temporary \<mapsto> contents') \<and> length contents' = length contents"
  using assms
proof (induction rs temporary ps fs arbitrary: contents rule: stream_pwrites.induct)
  case (1 rs temporary fs)
  then show ?case
    by (auto intro!: exI [of _ contents])
next
  case (2 rs temporary src off rest fs)
  from "2.prems"(1) obtain s1 fs1 rs1 where
    w: "stream_pwrite rs temporary src off fs = Some (s1, fs1, rs1)"
    by (auto split: option.splits)
  have "src \<noteq> [] \<Longrightarrow> unat off + length src \<le> length contents"
    using "2.prems"(4) by simp
  from stream_pwrite_inside [OF w "2.prems"(2,3) this] obtain n where
    fs1: "fs1 = fs(temporary \<mapsto> overwrite (unat off) (take n src) contents)"
    by blast
  have len: "length (overwrite (unat off) (take n src) contents) = length contents"
    using "2.prems"(4) by (intro length_overwrite) (auto intro: le_trans [rotated])
  show ?case
  proof (cases "status_ok s1")
    case True
    then have rest: "stream_pwrites rs1 temporary rest fs1 = Some (s, fs', rs')"
      using "2.prems"(1) w by simp
    have "fs1 temporary = Some (overwrite (unat off) (take n src) contents)"
      by (simp add: fs1)
    from "2.IH" [OF w refl refl True rest this] "2.prems"(3,4)
    obtain contents' where "fs' = fs1(temporary \<mapsto> contents')" "length contents' = length contents"
      by (auto simp only: len list.pred_inject)
    then show ?thesis
      unfolding fs1 fun_upd_upd by blast
  next
    case False
    then show ?thesis
      using "2.prems"(1) w fs1 len by auto
  qed
qed

lemma stream_create_inv:
  assumes "stream_create env rs path identity plans fs = Some (Inr w, fs')" and "names_fit plans"
    and "no_nul identity"
  shows "stream_inv identity plans no_bytes w fs'"
    and "si_final_path w = path" and "si_temporary_path w = temporary_path path (sv_pid env)"
    and "fs (si_temporary_path w) = None" and "\<exists>contents. fs' = fs(si_temporary_path w \<mapsto> contents)"
proof -
  let ?tmp = "temporary_path path (sv_pid env)"
  let ?zero = "\<lparr> ts_data_written = 0, ts_auxiliary_written = 0, ts_data_crc64 = 0 \<rparr>"
  from assms(1) obtain h es strings s rs' where
    layout: "stream_layout identity plans = Inr (h, es, strings)" and n: "length plans \<le> max_u32"
    and free: "fs ?tmp = None"
    and writes: "stream_pwrites rs ?tmp
      ([(encode_header h, 0)]
       @ (if es \<noteq> [] then [(concat (map encode_entry es), h_directory_offset h)] else [])
       @ (if strings \<noteq> [] then [(strings, h_strings_offset h)] else []))
      (fs(?tmp \<mapsto> replicate (unat (h_file_bytes h)) 0)) = Some (s, fs', rs')"
    and w: "w = \<lparr> si_final_path = path, si_temporary_path = ?tmp, si_fd_open = True,
       si_header = h, si_entries = es, si_strings = strings,
       si_states = replicate (length plans) ?zero, si_finalized = False \<rparr>"
    by (auto simp: stream_create_def Let_def not_less split: if_splits sum.splits option.splits)
  obtain d where shape: "stream_shape identity plans w d (unat (h_file_bytes h))"
    unfolding w by (rule stream_layout_shape [OF layout n assms(2)])
  have laid: "laid_out (unat d) es (unat (h_file_bytes h))" and ev: "list_all entry_valid es"
    and len: "length es = length plans" and limit: "unat (h_file_bytes h) \<le> max_off_t"
    using shape by (auto simp: stream_shape_def w dest: list_all2_lengthD)
  have "list_all (\<lambda>(src, off). unat off + length src \<le> length (replicate (unat (h_file_bytes h)) (0::u8)))
      ([(encode_header h, 0)]
       @ (if es \<noteq> [] then [(concat (map encode_entry es), h_directory_offset h)] else [])
       @ (if strings \<noteq> [] then [(strings, h_strings_offset h)] else []))"
  proof -
    obtain ids c where ids: "identity_fields identity = Some ids"
      and h: "h = make_header ids (length plans) (length strings) d (h_file_bytes h) c"
      using shape by (auto simp: stream_shape_def w)
    have total: "sizeof_DiskHeader + length plans * sizeof_DiskTensorEntry + length strings \<le> unat (h_file_bytes h)"
      using shape laid_out_mono [OF laid] by (auto simp: stream_shape_def w intro: le_trans)
    have "header_shape h"
      by (subst h) (rule identity_fields_facts(1) [OF ids assms(3)])
    then have "length (encode_header h) = sizeof_DiskHeader"
      by (rule header_codec.enc_length)
    moreover have "h_directory_offset h = of_nat sizeof_DiskHeader"
      by (subst h) simp
    moreover have "h_strings_offset h = of_nat sizeof_DiskHeader + of_nat (length plans * sizeof_DiskTensorEntry)"
      by (subst h) (simp add: make_header_def split_beta)
    moreover have "unat (of_nat sizeof_DiskHeader :: u64) = sizeof_DiskHeader"
      by (simp add: sizeof_DiskHeader_def)
    moreover have "unat (of_nat sizeof_DiskHeader + of_nat (length plans * sizeof_DiskTensorEntry) :: u64)
        = sizeof_DiskHeader + length plans * sizeof_DiskTensorEntry"
      using total unat_less_u64 [of "h_file_bytes h"] by (intro u64_of_nat_add) simp
    moreover have "length (concat (map encode_entry es)) = sizeof_DiskTensorEntry * length plans"
      using ev by (simp add: entry_codec.table_length len list_all_iff entry_valid_def)
    ultimately show ?thesis
      using total by (simp del: of_nat_mult add: mult.commute)
  qed
  from stream_pwrites_length [OF writes _ _ this] limit obtain contents where
    fs': "fs' = fs(?tmp \<mapsto> contents)" and size: "length contents = unat (h_file_bytes h)"
    by auto
  have "payloads_hold es (replicate (length plans) ?zero) no_bytes contents"
    by (simp add: payloads_hold_def len no_bytes_def reg_written_def crc64_ecma_def)
  then show "stream_inv identity plans no_bytes w fs'"
    using shape size by (auto simp: stream_inv_def w fs')
  show "si_final_path w = path" "si_temporary_path w = ?tmp" "fs (si_temporary_path w) = None"
    "\<exists>contents. fs' = fs(si_temporary_path w \<mapsto> contents)"
    using free fs' by (auto simp: w)
qed

lemma word_room: "unat b \<le> unat a \<Longrightarrow> \<not> n > unat (a - b) \<longleftrightarrow> unat b + n \<le> unat a" for a b :: u64
  by (simp add: word_diff_nat not_less le_diff_conv2 add.commute)

lemma stream_shape_states [simp]:
  "stream_shape identity plans (w\<lparr>si_states := x\<rparr>) d n \<longleftrightarrow> stream_shape identity plans w d n"
  by (simp add: stream_shape_def)

text \<open>Both kinds of append, as far as the file is concerned.\<close>

lemma stream_append_core:
  assumes inv: "stream_inv identity plans S w fs" and i: "i < length (si_entries w)"
    and room: "reg_written k (si_states w ! i) + length bytes \<le> reg_len k (si_entries w ! i)"
    and pw: "stream_pwrite rs (si_temporary_path w) bytes offset fs = Some (s, fs', rs')"
    and offset: "bytes \<noteq> [] \<Longrightarrow>
      unat offset = reg_off k (si_entries w ! i) + reg_written k (si_states w ! i)"
    and t: "\<And>k'. reg_written k' t = (if k' = k then reg_written k (si_states w ! i) + length bytes
      else reg_written k' (si_states w ! i))"
    and crc: "ts_data_crc64 t = (if k then ts_data_crc64 (si_states w ! i)
      else crc64_ecma_update (ts_data_crc64 (si_states w ! i)) bytes)"
  shows "status_ok s \<Longrightarrow> stream_inv identity plans (extend k i bytes S)
      (w\<lparr>si_states := (si_states w)[i := t]\<rparr>) fs'"
    and "\<not> status_ok s \<Longrightarrow> stream_inv identity plans S w fs'"
    and "\<exists>contents. fs' = fs(si_temporary_path w \<mapsto> contents)"
proof -
  let ?es = "si_entries w" and ?ts = "si_states w" and ?tmp = "si_temporary_path w"
  from inv obtain contents d where contents: "fs ?tmp = Some contents"
    and shape: "stream_shape identity plans w d (length contents)"
    and hold: "payloads_hold ?es ?ts S contents" and flags: "\<not> si_finalized w" "si_fd_open w"
    by (auto simp: stream_inv_def)
  have laid: "laid_out (unat d) ?es (length contents)" and limit: "length contents \<le> max_off_t"
    using shape by (auto simp: stream_shape_def)
  have written: "reg_written k' (?ts ! i) = length (S k' i)" for k'
    using hold i by (simp add: payloads_hold_def)
  have fit: "length (S k i) + length bytes \<le> reg_len k (?es ! i)"
    using room by (simp add: written)
  have "unat offset + length bytes \<le> length contents" if "bytes \<noteq> []"
  proof -
    have "0 < reg_len k (?es ! i)"
      using that fit by (cases bytes) auto
    from reg_in_file(2) [OF laid _ this] i fit offset [OF that] written show ?thesis
      by fastforce
  qed
  from stream_pwrite_inside [OF pw contents limit this] obtain n where
    fs': "fs' = fs(?tmp \<mapsto> overwrite (unat offset) (take n bytes) contents)"
    and ok: "status_ok s \<longleftrightarrow> take n bytes = bytes"
    by blast
  have place: "overwrite (unat offset) (take n bytes) contents
      = overwrite (reg_off k (?es ! i) + length (S k i)) (take n bytes) contents"
    using offset written by (cases "bytes = []") simp_all
  have fit': "length (S k i) + length (take n bytes) \<le> reg_len k (?es ! i)"
    using fit by simp
  have len: "length (overwrite (reg_off k (?es ! i) + length (S k i)) (take n bytes) contents) = length contents"
  proof (cases "take n bytes = []")
    case False
    then have "0 < reg_len k (?es ! i)"
      using fit' by (cases "take n bytes") auto
    from reg_in_file(2) [OF laid _ this] i fit' show ?thesis
      by (intro length_overwrite) fastforce
  next
    case True
    then show ?thesis
      by (simp only: overwrite_nil)
  qed
  show "\<exists>contents. fs' = fs(?tmp \<mapsto> contents)"
    using fs' by blast
  show "stream_inv identity plans S w fs'"
    using payloads_hold_overwrite [OF hold laid i fit'] shape flags len
    by (auto simp: stream_inv_def fs' place)
  show "stream_inv identity plans (extend k i bytes S) (w\<lparr>si_states := ?ts[i := t]\<rparr>) fs'" if "status_ok s"
  proof -
    have "ts_data_crc64 t = crc64_ecma (extend k i bytes S False i)"
      using crc hold i
      by (auto simp: extend_def payloads_hold_def crc64_ecma_def crc_update_append)
    then have "payloads_hold ?es (?ts[i := t]) (extend k i bytes S)
        (overwrite (reg_off k (?es ! i) + length (S k i)) bytes contents)"
      using t written by (intro payloads_hold_extend [OF hold laid i fit]) simp_all
    moreover have all: "take n bytes = bytes"
      using ok that by simp
    moreover have "fs' = fs(?tmp \<mapsto> overwrite (reg_off k (?es ! i) + length (S k i)) bytes contents)"
      using fs' place by (simp only: all)
    moreover have "stream_shape identity plans (w\<lparr>si_states := ?ts[i := t]\<rparr>) d (length contents)"
      using shape by simp
    ultimately show ?thesis
      using flags len by (auto simp: stream_inv_def)
  qed
qed

lemma stream_inv_written:
  assumes "stream_inv identity plans S w fs" and "i < length (si_entries w)"
  shows "reg_written k (si_states w ! i) \<le> reg_len k (si_entries w ! i)"
    and "reg_len k (si_entries w ! i) \<noteq> 0 \<Longrightarrow>
      reg_off k (si_entries w ! i) + reg_len k (si_entries w ! i) \<le> max_off_t"
proof -
  from assms obtain contents d where
    shape: "stream_shape identity plans w d (length contents)"
    and hold: "payloads_hold (si_entries w) (si_states w) S contents"
    by (auto simp: stream_inv_def)
  show "reg_written k (si_states w ! i) \<le> reg_len k (si_entries w ! i)"
    using hold assms(2) by (simp add: payloads_hold_def)
  show "reg_off k (si_entries w ! i) + reg_len k (si_entries w ! i) \<le> max_off_t"
    if "reg_len k (si_entries w ! i) \<noteq> 0"
    using reg_in_file(2) [of "unat d" "si_entries w" "length contents" "si_entries w ! i" k] shape that assms(2)
    by (auto simp: stream_shape_def)
qed

lemma append_data_inv:
  assumes inv: "stream_inv identity plans S w fs"
    and app: "append_data rs ebadf i bytes (Some w) fs = Some (s, impl', fs')"
  shows "\<exists>w'. impl' = Some w' \<and> si_temporary_path w' = si_temporary_path w \<and> si_final_path w' = si_final_path w
    \<and> (\<exists>contents. fs' = fs(si_temporary_path w \<mapsto> contents))
    \<and> stream_inv identity plans (if status_ok s then extend False i bytes S else S) w' fs'"
proof -
  let ?t = "si_states w ! i" and ?e = "si_entries w ! i"
  obtain contents where contents: "fs (si_temporary_path w) = Some contents"
    and flags: "\<not> si_finalized w" "si_fd_open w"
    using inv by (auto simp: stream_inv_def)
  have same: "\<exists>contents. fs = fs(si_temporary_path w \<mapsto> contents)"
    using contents by (auto intro!: exI [of _ contents])
  show ?thesis
  proof (cases "length (si_entries w) \<le> i \<or> length bytes > unat (e_data_bytes ?e - ts_data_written ?t)")
    case True
    then have "impl' = Some w" "fs' = fs" "\<not> status_ok s"
      using app flags by (auto simp: append_data_def Let_def split: if_splits)
    then show ?thesis
      using inv same by simp
  next
    case False
    then have i: "i < length (si_entries w)" and "\<not> length bytes > unat (e_data_bytes ?e - ts_data_written ?t)"
      by simp_all
    then have room: "reg_written False ?t + length bytes \<le> reg_len False ?e"
      using stream_inv_written(1) [OF inv i, of False] by (simp add: word_room reg_written_def reg_len_def)
    from False app flags obtain s1 rs' where
      pw: "stream_pwrite rs (si_temporary_path w) bytes (e_data_offset ?e + ts_data_written ?t) fs = Some (s1, fs', rs')"
      by (auto simp: append_data_def Let_def split: option.splits if_splits)
    define t where "t = ?t\<lparr> ts_data_crc64 := crc64_ecma_update (ts_data_crc64 ?t) bytes,
                        ts_data_written := ts_data_written ?t + of_nat (length bytes) \<rparr>"
    have res: "impl' = (if status_ok s1 then Some (w\<lparr>si_states := (si_states w)[i := t]\<rparr>) else Some w)"
        "status_ok s \<longleftrightarrow> status_ok s1"
      using False app flags pw by (auto simp: append_data_def Let_def t_def split: if_splits)
    have limit: "reg_off False ?e + reg_len False ?e \<le> max_off_t" if "reg_len False ?e \<noteq> 0"
      using stream_inv_written(2) [OF inv i that] .
    have "reg_written False ?t + length bytes < 2 ^ 64"
      using room unat_less_u64 [of "e_data_bytes ?e"] by (simp add: reg_len_def)
    then have wr: "reg_written k' t = (if k' = False then reg_written False ?t + length bytes else reg_written k' ?t)" for k'
      by (simp add: t_def reg_written_def unat_word_ariths unat_of_nat)
    have off: "unat (e_data_offset ?e + ts_data_written ?t) = reg_off False ?e + reg_written False ?t" if "bytes \<noteq> []"
    proof -
      have "reg_len False ?e \<noteq> 0"
        using room that by (cases bytes) auto
      from limit [OF this] room show ?thesis
        by (simp add: reg_off_def reg_written_def max_off_t_def u64_add)
    qed
    have crc: "ts_data_crc64 t = (if False then ts_data_crc64 ?t else crc64_ecma_update (ts_data_crc64 ?t) bytes)"
      by (simp add: t_def)
    note core = stream_append_core [OF inv i room pw off wr crc]
    show ?thesis
    proof (cases "status_ok s1")
      case True
      with core(1,3) res show ?thesis by simp
    next
      case False
      with core(2,3) res show ?thesis by simp
    qed
  qed
qed

lemma append_auxiliary_inv:
  assumes inv: "stream_inv identity plans S w fs"
    and app: "append_auxiliary rs ebadf i bytes (Some w) fs = Some (s, impl', fs')"
  shows "\<exists>w'. impl' = Some w' \<and> si_temporary_path w' = si_temporary_path w \<and> si_final_path w' = si_final_path w
    \<and> (\<exists>contents. fs' = fs(si_temporary_path w \<mapsto> contents))
    \<and> stream_inv identity plans (if status_ok s then extend True i bytes S else S) w' fs'"
proof -
  let ?t = "si_states w ! i" and ?e = "si_entries w ! i"
  obtain contents where contents: "fs (si_temporary_path w) = Some contents"
    and flags: "\<not> si_finalized w" "si_fd_open w"
    using inv by (auto simp: stream_inv_def)
  have same: "\<exists>contents. fs = fs(si_temporary_path w \<mapsto> contents)"
    using contents by (auto intro!: exI [of _ contents])
  show ?thesis
  proof (cases "length (si_entries w) \<le> i \<or> length bytes > unat (e_aux_bytes ?e - ts_auxiliary_written ?t)")
    case True
    then have "impl' = Some w" "fs' = fs" "\<not> status_ok s"
      using app flags by (auto simp: append_auxiliary_def Let_def split: if_splits)
    then show ?thesis
      using inv same by simp
  next
    case False
    then have i: "i < length (si_entries w)" and "\<not> length bytes > unat (e_aux_bytes ?e - ts_auxiliary_written ?t)"
      by simp_all
    then have room: "reg_written True ?t + length bytes \<le> reg_len True ?e"
      using stream_inv_written(1) [OF inv i, of True] by (simp add: word_room reg_written_def reg_len_def)
    from False app flags obtain s1 rs' where
      pw: "stream_pwrite rs (si_temporary_path w) bytes (e_aux_offset ?e + ts_auxiliary_written ?t) fs = Some (s1, fs', rs')"
      by (auto simp: append_auxiliary_def Let_def split: option.splits if_splits)
    define t where "t = ?t\<lparr> ts_auxiliary_written := ts_auxiliary_written ?t + of_nat (length bytes) \<rparr>"
    have res: "impl' = (if status_ok s1 then Some (w\<lparr>si_states := (si_states w)[i := t]\<rparr>) else Some w)"
        "status_ok s \<longleftrightarrow> status_ok s1"
      using False app flags pw by (auto simp: append_auxiliary_def Let_def t_def split: if_splits)
    have limit: "reg_off True ?e + reg_len True ?e \<le> max_off_t" if "reg_len True ?e \<noteq> 0"
      using stream_inv_written(2) [OF inv i that] .
    have "reg_written True ?t + length bytes < 2 ^ 64"
      using room unat_less_u64 [of "e_aux_bytes ?e"] by (simp add: reg_len_def)
    then have wr: "reg_written k' t = (if k' = True then reg_written True ?t + length bytes else reg_written k' ?t)" for k'
      by (simp add: t_def reg_written_def unat_word_ariths unat_of_nat)
    have off: "unat (e_aux_offset ?e + ts_auxiliary_written ?t) = reg_off True ?e + reg_written True ?t" if "bytes \<noteq> []"
    proof -
      have "reg_len True ?e \<noteq> 0"
        using room that by (cases bytes) auto
      from limit [OF this] room show ?thesis
        by (simp add: reg_off_def reg_written_def max_off_t_def u64_add)
    qed
    have crc: "ts_data_crc64 t = (if True then ts_data_crc64 ?t else crc64_ecma_update (ts_data_crc64 ?t) bytes)"
      by (simp add: t_def)
    note core = stream_append_core [OF inv i room pw off wr crc]
    show ?thesis
    proof (cases "status_ok s1")
      case True
      with core(1,3) res show ?thesis by simp
    next
      case False
      with core(2,3) res show ?thesis by simp
    qed
  qed
qed

section \<open>Finalizing\<close>

definition with_crc :: "disk_tensor_entry \<Rightarrow> tensor_state \<Rightarrow> disk_tensor_entry" where
  "with_crc e t = e\<lparr>e_data_crc64 := ts_data_crc64 t\<rparr>"

lemma finalize_entries_ok:
  "finalize_entries index es ts = (es', s) \<Longrightarrow> status_ok s \<Longrightarrow> length ts = length es \<Longrightarrow>
   es' = map2 with_crc es ts
   \<and> list_all2 (\<lambda>e t. ts_data_written t = e_data_bytes e \<and> ts_auxiliary_written t = e_aux_bytes e) es ts"
  by (induction index es ts arbitrary: es' rule: finalize_entries.induct)
    (auto simp: with_crc_def split: if_splits prod.splits)

lemma with_crc_laid_out:
  "length ts = length es \<Longrightarrow> laid_out c (map2 with_crc es ts) z \<longleftrightarrow> laid_out c es z"
  by (induction es ts arbitrary: c rule: list_induct2') (auto simp: with_crc_def Let_def)

lemma with_crc_names:
  "length ts = length es \<Longrightarrow> names_at off ns (map2 with_crc es ts) \<longleftrightarrow> names_at off ns es"
proof (induction off ns es arbitrary: ts rule: names_at.induct)
  case (1 off n ns e es)
  then obtain t ts' where "ts = t # ts'"
    by (cases ts) auto
  with 1 show ?case
    by (simp add: with_crc_def)
qed (auto simp: neq_Nil_conv length_Suc_conv)

lemma with_crc_valid: "entry_valid (with_crc e t) \<longleftrightarrow> entry_valid e"
  by (simp add: with_crc_def entry_valid_def entry_shape_def)

lemma stream_pwrites_two:
  assumes run: "stream_pwrites rs tmp [(a, x), (b, y)] fs = Some (s, fs', rs')" and ok: "status_ok s"
    and contents: "fs tmp = Some contents" and limit: "length contents \<le> max_off_t"
    and fit: "unat x + length a \<le> length contents" "unat y + length b \<le> length contents"
  shows "fs' = fs(tmp \<mapsto> overwrite (unat y) b (overwrite (unat x) a contents))"
proof -
  from run ok obtain s1 fs1 rs1 s2 rs2 where
    1: "stream_pwrite rs tmp a x fs = Some (s1, fs1, rs1)" "status_ok s1"
    and 2: "stream_pwrite rs1 tmp b y fs1 = Some (s2, fs', rs2)" "status_ok s2"
    by (auto split: option.splits if_splits)
  obtain n where "fs1 = fs(tmp \<mapsto> overwrite (unat x) (take n a) contents)" "status_ok s1 \<longleftrightarrow> take n a = a"
    by (rule stream_pwrite_inside [OF 1(1) contents limit fit(1)])
  with 1(2) have fs1: "fs1 = fs(tmp \<mapsto> overwrite (unat x) a contents)"
    by simp
  have len: "length (overwrite (unat x) a contents) = length contents"
    using fit(1) by simp
  obtain m where "fs' = fs1(tmp \<mapsto> overwrite (unat y) (take m b) (overwrite (unat x) a contents))"
    "status_ok s2 \<longleftrightarrow> take m b = b"
    by (rule stream_pwrite_inside [OF 2(1), of "overwrite (unat x) a contents"]) (use fs1 len limit fit(2) in auto)
  with 2(2) show ?thesis
    by (simp add: fs1)
qed

lemma stream_finalize_ok:
  assumes inv: "stream_inv identity plans S w fs" and plain: "no_nul identity"
    and fin: "stream_finalize env (Some w) fs = Some (s, impl', fs')" and ok: "status_ok s"
  obtains d contents' es' where
    "artifact_image identity (map wp_name plans) es' d contents'"
    and "fs' = (fs(si_temporary_path w := None))(si_final_path w \<mapsto> contents')"
    and "list_all2 (\<lambda>p e. \<exists>e0 t. entry_of_plan p e0 \<and> e = with_crc e0 t) plans es'"
    and "\<forall>i < length plans. \<forall>k. length (S k i) = reg_len k (es' ! i)
      \<and> slice (reg_off k (es' ! i)) (reg_len k (es' ! i)) contents' = S k i"
proof -
  let ?es = "si_entries w" and ?ts = "si_states w" and ?tmp = "si_temporary_path w"
  let ?names = "map wp_name plans"
  from inv obtain contents d where contents: "fs ?tmp = Some contents"
    and shape: "stream_shape identity plans w d (length contents)"
    and hold: "payloads_hold ?es ?ts S contents" and flags: "\<not> si_finalized w" "si_fd_open w"
    by (auto simp: stream_inv_def)
  from shape obtain ids c where ids: "identity_fields identity = Some ids"
    and header: "si_header w = make_header ids (length plans) (length (si_strings w)) d (of_nat (length contents)) c"
    by (auto simp: stream_shape_def)
  have sh: "si_strings w = name_table ?names"
    "sizeof_DiskHeader + length plans * sizeof_DiskTensorEntry + length (si_strings w) \<le> unat d"
    "length contents \<le> max_off_t" "length plans \<le> max_u32" "laid_out (unat d) ?es (length contents)"
    "list_all2 entry_of_plan plans ?es" "list_all entry_valid ?es" "names_at 0 ?names ?es"
    "distinct ?names" "list_all plan_ok plans"
    using shape by (auto simp: stream_shape_def)
  have lens: "length ?es = length plans" "length ?ts = length ?es"
    using sh(6) hold by (auto simp: payloads_hold_def dest: list_all2_lengthD)
  define es' where "es' = map2 with_crc ?es ?ts"
  define manifest where "manifest = manifest_of es' (name_table ?names)"
  define h where "h = make_header ids (length plans) (length (name_table ?names)) d
    (of_nat (length contents)) (crc64_ecma manifest)"
  obtain es1 s1 where f: "finalize_entries 0 ?es ?ts = (es1, s1)"
    by (cases "finalize_entries 0 ?es ?ts")
  have s1: "status_ok s1"
    using fin ok flags f by (auto simp: stream_finalize_def split: if_splits)
  from finalize_entries_ok [OF f s1 lens(2)]
  have es1: "es1 = es'" and complete: "list_all2 (\<lambda>e t. ts_data_written t = e_data_bytes e
      \<and> ts_auxiliary_written t = e_aux_bytes e) ?es ?ts"
    by (simp_all add: es'_def)
  from fin ok flags f s1 obtain s2 fs2 rs2 where
    writes: "stream_pwrites (fv_responses env) ?tmp [(encode_header h, 0), (manifest, of_nat sizeof_DiskHeader)] fs
      = Some (s2, fs2, rs2)" "status_ok s2"
    and fs': "fs' = (fs2(?tmp := None))(si_final_path w := fs2 ?tmp)"
    by (auto simp: stream_finalize_def Let_def es1 header sh(1) h_def manifest_def
        errno_status_def split: option.splits if_splits)
  have shape_h: "header_shape h"
    unfolding h_def by (rule identity_fields_facts(1) [OF ids plain])
  have lh: "length (encode_header h) = sizeof_DiskHeader"
    by (rule header_codec.enc_length [OF shape_h])
  have ev: "list_all entry_valid es'"
    using sh(7) lens(2) by (auto simp: es'_def list_all_length with_crc_valid)
  have le: "length es' = length plans"
    using lens by (simp add: es'_def)
  have lm: "sizeof_DiskHeader + length manifest \<le> unat d"
    using sh(1,2) by (simp add: manifest_def length_manifest_of [OF ev] le mult.commute)
  have dc: "unat d \<le> length contents"
    using sh(5) by (rule laid_out_mono)
  have u256: "unat (of_nat sizeof_DiskHeader :: u64) = sizeof_DiskHeader"
    by (simp add: sizeof_DiskHeader_def)
  let ?new = "overwrite sizeof_DiskHeader manifest (overwrite 0 (encode_header h) contents)"
  have fs2: "fs2 = fs(?tmp \<mapsto> ?new)"
    using stream_pwrites_two [OF writes contents sh(3)] lh lm dc by (simp add: u256)
  have len1: "length (overwrite 0 (encode_header h) contents) = length contents"
    using lh lm dc by simp
  have len2: "length ?new = length contents"
    using lm dc len1 by simp
  have keep: "slice a n ?new = slice a n contents" if "unat d \<le> a" "a + n \<le> length contents" for a n
    using that lm dc lh len1 by (simp add: slice_overwrite_other)
  have region: "length (S k i) = reg_len k (?es ! i)
      \<and> slice (reg_off k (?es ! i)) (reg_len k (?es ! i)) ?new = S k i" if i: "i < length plans" for k i
  proof -
    have mi: "?es ! i \<in> set ?es"
      using i lens by simp
    have hi: "reg_written k (?ts ! i) = length (S k i)"
      "slice (reg_off k (?es ! i)) (length (S k i)) contents = S k i"
      using hold i lens by (auto simp: payloads_hold_def)
    have l: "length (S k i) = reg_len k (?es ! i)"
      using complete i lens hi(1)
      by (auto simp: list_all2_conv_all_nth reg_written_def reg_len_def split: if_splits)
    show ?thesis
    proof (cases "S k i = []")
      case True
      with l show ?thesis by (simp add: l [symmetric])
    next
      case False
      then have "0 < reg_len k (?es ! i)"
        using l by (cases "S k i") auto
      from reg_in_file [OF sh(5) mi this] keep hi(2) l show ?thesis
        by simp
    qed
  qed
  have nth: "es' ! i = with_crc (?es ! i) (?ts ! i)" if "i < length plans" for i
    using that lens by (simp add: es'_def)
  have regs: "reg_off k (with_crc e t) = reg_off k e" "reg_len k (with_crc e t) = reg_len k e" for k e t
    by (simp_all add: reg_off_def reg_len_def with_crc_def)
  have crcs: "list_all (\<lambda>e. crc64_ecma (slice (unat (e_data_offset e)) (unat (e_data_bytes e)) ?new)
      = e_data_crc64 e) es'"
  proof (unfold list_all_length le, intro allI impI)
    fix i assume i: "i < length plans"
    have "slice (unat (e_data_offset (?es ! i))) (unat (e_data_bytes (?es ! i))) ?new = S False i"
      using region [OF i, of False] by (simp add: reg_off_def reg_len_def)
    moreover have "ts_data_crc64 (?ts ! i) = crc64_ecma (S False i)"
      using hold i lens by (simp add: payloads_hold_def)
    ultimately show "crc64_ecma (slice (unat (e_data_offset (es' ! i))) (unat (e_data_bytes (es' ! i))) ?new)
        = e_data_crc64 (es' ! i)"
      by (simp add: nth [OF i] with_crc_def)
  qed
  have s0: "slice 0 sizeof_DiskHeader ?new = encode_header h"
    using lm dc lh len1 slice_overwrite_same [of 0 "encode_header h" contents]
    by (subst slice_overwrite_other) simp_all
  have s1: "slice sizeof_DiskHeader (length manifest) ?new = manifest"
    using lm dc len1 by (intro slice_overwrite_same) simp
  have "h = make_header ids (length es') (length (name_table ?names)) d (of_nat (length ?new))
      (crc64_ecma (manifest_of es' (name_table ?names)))"
    unfolding len2 le by (simp only: h_def manifest_def)
  then have img: "artifact_image identity ?names es' d ?new"
    unfolding artifact_image_def
    using ids s0 s1 lm sh(3,4,5,8,9,10) ev crcs len2 le with_crc_laid_out [OF lens(2)] with_crc_names [OF lens(2)]
    by (auto simp: manifest_def es'_def list_all_iff plan_ok_def)
  have rel: "list_all2 (\<lambda>p e. \<exists>e0 t. entry_of_plan p e0 \<and> e = with_crc e0 t) plans es'"
    using sh(6) le nth lens by (auto simp: list_all2_conv_all_nth)
  have "fs' = (fs(?tmp := None))(si_final_path w \<mapsto> ?new)"
    by (simp add: fs' fs2)
  from that [OF img this rel] region nth regs show ?thesis
    by simp
qed

section \<open>A whole stream\<close>

datatype stream_op =
    Data nat bytes "write_response list"
  | Auxiliary nat bytes "write_response list"

text \<open>A run of appends with any outcomes; the last component collects, for the specification, the
  bytes of the appends that returned OK.\<close>

fun stream_run ::
  "string \<Rightarrow> stream_op list \<Rightarrow> stream_impl option \<times> file_system \<times> (bool \<Rightarrow> nat \<Rightarrow> bytes)
    \<Rightarrow> (stream_impl option \<times> file_system \<times> (bool \<Rightarrow> nat \<Rightarrow> bytes)) option"
where
  "stream_run ebadf [] st = Some st"
| "stream_run ebadf (Data i bytes rs # ops) (impl, fs, S) =
     (case append_data rs ebadf i bytes impl fs of
        None \<Rightarrow> None
      | Some (s, impl', fs') \<Rightarrow>
          stream_run ebadf ops (impl', fs', if status_ok s then extend False i bytes S else S))"
| "stream_run ebadf (Auxiliary i bytes rs # ops) (impl, fs, S) =
     (case append_auxiliary rs ebadf i bytes impl fs of
        None \<Rightarrow> None
      | Some (s, impl', fs') \<Rightarrow>
          stream_run ebadf ops (impl', fs', if status_ok s then extend True i bytes S else S))"

lemma stream_run_inv:
  assumes "stream_run ebadf ops (Some w, fs, S) = Some (impl', fs', S')"
    and "stream_inv identity plans S w fs"
  shows "\<exists>w'. impl' = Some w' \<and> si_temporary_path w' = si_temporary_path w \<and> si_final_path w' = si_final_path w
    \<and> (\<exists>contents. fs' = fs(si_temporary_path w \<mapsto> contents)) \<and> stream_inv identity plans S' w' fs'"
  using assms
proof (induction ops arbitrary: w fs S)
  case Nil
  then obtain contents where "fs (si_temporary_path w) = Some contents"
    by (auto simp: stream_inv_def)
  then have "\<exists>contents. fs = fs(si_temporary_path w \<mapsto> contents)"
    by (auto intro!: exI [of _ contents])
  with Nil show ?case
    by (auto simp only: stream_run.simps option.inject prod.inject)
next
  case (Cons op ops)
  obtain k i bytes s impl1 fs1 where
    rest: "stream_run ebadf ops (impl1, fs1, if status_ok s then extend k i bytes S else S) = Some (impl', fs', S')"
    and step: "\<exists>w1. impl1 = Some w1 \<and> si_temporary_path w1 = si_temporary_path w \<and> si_final_path w1 = si_final_path w
      \<and> (\<exists>contents. fs1 = fs(si_temporary_path w \<mapsto> contents))
      \<and> stream_inv identity plans (if status_ok s then extend k i bytes S else S) w1 fs1"
  proof (cases op)
    case (Data i bytes rs)
    with Cons.prems(1) obtain s impl1 fs1 where
      a: "append_data rs ebadf i bytes (Some w) fs = Some (s, impl1, fs1)"
      and r: "stream_run ebadf ops (impl1, fs1, if status_ok s then extend False i bytes S else S) = Some (impl', fs', S')"
      by (auto split: option.splits)
    from that [OF r append_data_inv [OF Cons.prems(2) a]] show ?thesis .
  next
    case (Auxiliary i bytes rs)
    with Cons.prems(1) obtain s impl1 fs1 where
      a: "append_auxiliary rs ebadf i bytes (Some w) fs = Some (s, impl1, fs1)"
      and r: "stream_run ebadf ops (impl1, fs1, if status_ok s then extend True i bytes S else S) = Some (impl', fs', S')"
      by (auto split: option.splits)
    from that [OF r append_auxiliary_inv [OF Cons.prems(2) a]] show ?thesis .
  qed
  from step obtain w1 contents where w1: "impl1 = Some w1" "si_temporary_path w1 = si_temporary_path w"
    "si_final_path w1 = si_final_path w" "fs1 = fs(si_temporary_path w \<mapsto> contents)"
    "stream_inv identity plans (if status_ok s then extend k i bytes S else S) w1 fs1"
    by blast
  obtain w' where "impl' = Some w'" "si_temporary_path w' = si_temporary_path w1" "si_final_path w' = si_final_path w1"
    "\<exists>contents. fs' = fs1(si_temporary_path w1 \<mapsto> contents)" "stream_inv identity plans S' w' fs'"
    using Cons.IH [OF rest [unfolded w1(1)] w1(5)] by blast
  then show ?case
    using w1(2,3) unfolding w1(4) by (auto simp only: fun_upd_upd)
qed

definition plan_stored ::
  "artifact_view \<Rightarrow> bytes \<Rightarrow> bytes \<Rightarrow> tensor_write_plan \<Rightarrow> tensor_descriptor \<Rightarrow> bool"
where
  "plan_stored view data auxiliary p t \<longleftrightarrow>
     td_name t = wp_name p \<and> td_dtype t = wp_dtype p \<and> td_quantization t = wp_quantization p
     \<and> unat (td_rank t) = length (wp_dimensions p)
     \<and> take (length (wp_dimensions p)) (td_dimensions t) = wp_dimensions p
     \<and> td_alignment t = wp_alignment p
     \<and> td_data_bytes t = wp_data_bytes p \<and> td_aux_bytes t = wp_auxiliary_bytes p
     \<and> artifact_data view t = data \<and> artifact_auxiliary view t = auxiliary"

lemma stored_plan:
  assumes "entry_of_plan p e0" and "e = with_crc e0 t" and "plan_ok p"
    and "\<forall>k. length (S k) = reg_len k e \<and> slice (reg_off k e) (reg_len k e) (av_mapping view) = S k"
  shows "plan_stored view (S False) (S True) p (descriptor_of (wp_name p) e)"
proof -
  obtain off where e0: "same_but_offsets (make_plan_entry off p) e0"
    using assms(1) by (auto simp: entry_of_plan_def)
  note f = same_but_offsets_fields [OF e0]
  have "length (wp_dimensions p) < 2 ^ 16"
    using assms(3) by (simp add: plan_ok_def)
  then have rank: "unat (of_nat (length (wp_dimensions p)) :: u16) = length (wp_dimensions p)"
    by (simp add: unat_of_nat)
  have data: "slice (unat (e_data_offset e)) (unat (e_data_bytes e)) (av_mapping view) = S False"
    and aux: "slice (unat (e_aux_offset e)) (unat (e_aux_bytes e)) (av_mapping view) = S True"
    using assms(4) [rule_format, of False] assms(4) [rule_format, of True]
    by (simp_all add: reg_off_def reg_len_def)
  have "e_aux_bytes e = 0 \<Longrightarrow> S True = []"
    using assms(4) [rule_format, of True] by (simp add: reg_len_def)
  then show ?thesis
    using data aux rank f assms(2)
    by (auto simp: plan_stored_def descriptor_of_def make_plan_entry_def artifact_data_def
        artifact_auxiliary_def with_crc_def)
qed

lemma stream_round_trip:
  assumes "stream_create cenv rs path identity plans fs = Some (Inr w, fs1)"
    and "stream_run ebadf ops (Some w, fs1, no_bytes) = Some (impl, fs2, S)"
    and "stream_finalize fenv impl fs2 = Some (s, impl', fs')" and "status_ok s"
    and "names_fit plans" and "no_nul identity"
  shows "\<exists>contents view. fs' = fs(path \<mapsto> contents)
    \<and> artifact_open path verify (Mapped contents) = Inr view \<and> av_identity view = identity
    \<and> length (av_tensors view) = length plans
    \<and> (\<forall>i < length plans. plan_stored view (S False i) (S True i) (plans ! i) (av_tensors view ! i))"
proof -
  note c = stream_create_inv [OF assms(1,5,6)]
  from stream_run_inv [OF assms(2) c(1)] obtain w' where
    w': "impl = Some w'" "si_temporary_path w' = si_temporary_path w" "si_final_path w' = path"
    "\<exists>contents. fs2 = fs1(si_temporary_path w \<mapsto> contents)" "stream_inv identity plans S w' fs2"
    using c(2) by blast
  obtain d contents es where img: "artifact_image identity (map wp_name plans) es d contents"
    and fs': "fs' = (fs2(si_temporary_path w' := None))(si_final_path w' \<mapsto> contents)"
    and rel: "list_all2 (\<lambda>p e. \<exists>e0 t. entry_of_plan p e0 \<and> e = with_crc e0 t) plans es"
    and regs: "\<forall>i < length plans. \<forall>k. length (S k i) = reg_len k (es ! i)
      \<and> slice (reg_off k (es ! i)) (reg_len k (es ! i)) contents = S k i"
    by (rule stream_finalize_ok [OF w'(5) assms(6) assms(3) [unfolded w'(1)] assms(4)])
  obtain d' n where "stream_shape identity plans w' d' n"
    using w'(5) by (auto simp: stream_inv_def)
  then have ok: "list_all plan_ok plans"
    by (simp add: stream_shape_def)
  let ?view = "\<lparr> av_mapping = contents, av_identity = identity,
    av_tensors = map2 descriptor_of (map wp_name plans) es \<rparr>"
  have len: "length es = length plans"
    using rel by (auto dest: list_all2_lengthD)
  have "plan_stored ?view (S False i) (S True i) (plans ! i) (av_tensors ?view ! i)" if i: "i < length plans" for i
  proof -
    obtain e0 t where "entry_of_plan (plans ! i) e0" "es ! i = with_crc e0 t"
      using list_all2_nthD [OF rel i] by blast
    from stored_plan [OF this, of "\<lambda>k. S k i" ?view] ok regs i len show ?thesis
      by (simp add: list_all_length)
  qed
  moreover have "fs2(si_temporary_path w' := None) = fs"
  proof -
    have "fs(si_temporary_path w := None) = fs"
      using c(4) by auto
    with c(5) w'(2,4) show ?thesis
      by (auto simp only: fun_upd_upd)
  qed
  then have "fs' = fs(path \<mapsto> contents)"
    by (simp only: fs' w'(3))
  ultimately show ?thesis
    using artifact_open_image [OF img assms(6)] len by auto
qed

section \<open>A concrete stream\<close>

lemma pwrite_all_once:
  assumes "length src \<le> k" and "unat offset \<le> max_off_t"
  shows "pwrite_all (if src = [] then rs else Accepts k # rs) src offset out
    = Some (ok_status, if src = [] then out else pwrite_at (unat offset) src out, rs)"
proof (cases src)
  case Nil
  then show ?thesis by simp
next
  case (Cons b bs)
  have lim: "\<not> unat offset > max_off_t"
    using assms(2) by simp
  have "min k (length (b # bs)) = length (b # bs)"
    using assms(1) Cons by simp
  then show ?thesis
    using pwrite_all_Cons(5) [OF lim, of k b bs rs out] Cons by simp
qed

lemma stream_pwrites_once:
  assumes "list_all (\<lambda>(src, off). src \<noteq> [] \<and> length src \<le> k \<and> unat off \<le> max_off_t) ps"
    and "fs tmp \<noteq> None"
  shows "\<exists>fs'. stream_pwrites (replicate (length ps) (Accepts k) @ rest) tmp ps fs = Some (ok_status, fs', rest)
    \<and> fs' tmp \<noteq> None"
  using assms
proof (induction ps arbitrary: fs)
  case (Cons p ps)
  obtain src off contents where p: "p = (src, off)" and contents: "fs tmp = Some contents"
    using Cons.prems(2) by (cases p) auto
  define fs1 where "fs1 = fs(tmp \<mapsto> pwrite_at (unat off) src contents)"
  have "stream_pwrite (Accepts k # (replicate (length ps) (Accepts k) @ rest)) tmp src off fs
      = Some (ok_status, fs1, replicate (length ps) (Accepts k) @ rest)"
    using pwrite_all_once [of src k off "replicate (length ps) (Accepts k) @ rest" contents] Cons.prems(1)
    by (simp add: p stream_pwrite_def contents fs1_def)
  moreover have "fs1 tmp \<noteq> None"
    by (simp add: fs1_def)
  ultimately show ?case
    using Cons.IH [of fs1] Cons.prems(1) by (simp add: p)
qed simp

definition sample_plan :: tensor_write_plan where
  "sample_plan = \<lparr> wp_name = ''layer.0'', wp_dtype = dt_u8, wp_quantization = q_none,
     wp_dimensions = [2], wp_data_bytes = 2, wp_auxiliary_bytes = 1, wp_alignment = 256 \<rparr>"

definition sample_plan_entry :: disk_tensor_entry where
  "sample_plan_entry = (make_plan_entry 0 sample_plan)\<lparr>e_data_offset := 512, e_aux_offset := 768\<rparr>"

definition sample_ids :: "bytes \<times> bytes \<times> bytes \<times> bytes" where
  "sample_ids = (bytes_of_string ''gfx1200'' @ replicate 9 0, bytes_of_string ''qwen3.8-27b'' @ replicate 21 0,
     bytes_of_string ''w'' @ replicate 31 0, bytes_of_string ''r'' @ replicate 63 0)"

definition sample_stream_env :: stream_env where
  "sample_stream_env = \<lparr> sv_pid = 7, sv_create_error = None, sv_exists_error = ''EEXIST'',
     sv_truncate_error = None, sv_unlink_error = None \<rparr>"

definition sample_finalize_env :: finalize_env where
  "sample_finalize_env = \<lparr> fv_responses = replicate 2 (Accepts 4096), fv_ebadf = ''EBADF'',
     fv_fsync_error = None, fv_close_error = None, fv_rename_error = None \<rparr>"

definition sample_stream :: stream_impl where
  "sample_stream = \<lparr> si_final_path = ''a.gfxi'', si_temporary_path = temporary_path ''a.gfxi'' 7,
     si_fd_open = True, si_header = make_header sample_ids 1 7 512 769 0,
     si_entries = [sample_plan_entry], si_strings = bytes_of_string ''layer.0'',
     si_states = [\<lparr> ts_data_written = 0, ts_auxiliary_written = 0, ts_data_crc64 = 0 \<rparr>],
     si_finalized = False \<rparr>"

definition sample_ops :: "stream_op list" where
  "sample_ops = [Data 0 [1] [Interrupted, Accepts 1], Auxiliary 0 [3] [Accepts 9], Data 0 [2] [Accepts 1]]"

lemma sample_stream_layout:
  "stream_layout sample_identity [sample_plan]
    = Inr (make_header sample_ids 1 7 512 769 0, [sample_plan_entry], bytes_of_string ''layer.0'')"
  by (simp add: stream_layout_def sample_identity_def sample_plan_def sample_plan_entry_def
      identity_fields_def set_fixed_def valid_name_def is_prefix_def char_in_def kFileAlignment_def
      Let_def make_plan_entry_def sizeof_DiskHeader_def sizeof_DiskTensorEntry_def align_up_def
      max_off_t_def sample_ids_def) (simp add: eval_nat_numeral)

lemma sample_header_shape: "header_shape (make_header sample_ids n m d z c)"
  by (simp add: header_shape_def make_header_def sample_ids_def kMagic_def)

lemma sample_entry_shape: "entry_shape sample_plan_entry" "entry_shape (sample_plan_entry\<lparr>e_data_crc64 := c\<rparr>)"
  by (simp_all add: entry_shape_def sample_plan_entry_def make_plan_entry_def sample_plan_def)

lemma sample_created:
  "\<exists>fs1. stream_create sample_stream_env (replicate 3 (Accepts 4096)) ''a.gfxi'' sample_identity [sample_plan] empty_fs
    = Some (Inr sample_stream, fs1) \<and> fs1 (temporary_path ''a.gfxi'' 7) \<noteq> None"
proof -
  let ?h = "make_header sample_ids 1 7 512 769 0" and ?tmp = "temporary_path ''a.gfxi'' 7"
  let ?ps = "[(encode_header ?h, 0), (concat (map encode_entry [sample_plan_entry]), h_directory_offset ?h),
    (bytes_of_string ''layer.0'', h_strings_offset ?h)]"
  define fs0 where "fs0 = empty_fs(?tmp \<mapsto> replicate 769 0)"
  have fs0: "fs0 ?tmp \<noteq> None" and free: "empty_fs ?tmp = None"
    by (simp_all add: fs0_def empty_fs_def)
  have "list_all (\<lambda>(src, off). src \<noteq> [] \<and> length src \<le> 4096 \<and> unat off \<le> max_off_t) ?ps"
    using header_codec.enc_length [OF sample_header_shape, of 1 7 512 769 0]
      entry_codec.enc_length [OF sample_entry_shape(1)]
    by (auto simp: sizeof_DiskHeader_def sizeof_DiskTensorEntry_def max_off_t_def make_header_def
        sample_ids_def bytes_of_string_def)
  from stream_pwrites_once [OF this, of fs0 ?tmp "[]"]
  obtain fs' where run: "stream_pwrites (replicate 3 (Accepts 4096)) ?tmp ?ps fs0 = Some (ok_status, fs', [])"
    and there: "fs' ?tmp \<noteq> None"
    by (auto simp: fs0 numeral_3_eq_3 simp del: stream_pwrites.simps)
  have "bytes_of_string ''layer.0'' \<noteq> []"
    by (simp add: bytes_of_string_def)
  then show ?thesis
    using run there
    by (simp add: stream_create_def sample_stream_layout sample_stream_env_def max_u32_def
        sample_stream_def free fs0_def [symmetric] del: stream_pwrites.simps)
qed

lemma sample_finished:
  assumes "fs (temporary_path ''a.gfxi'' 7) = Some contents"
  shows "\<exists>S impl' fs'. (\<exists>impl fs2. stream_run ''EBADF'' sample_ops (Some sample_stream, fs, no_bytes) = Some (impl, fs2, S)
      \<and> stream_finalize sample_finalize_env impl fs2 = Some (ok_status, impl', fs'))
    \<and> S False 0 = [1, 2] \<and> S True 0 = [3]"
proof -
  let ?tmp = "temporary_path ''a.gfxi'' 7"
  let ?e = "sample_plan_entry"
  have e: "e_data_offset ?e = 512" "e_data_bytes ?e = 2" "e_aux_offset ?e = 768" "e_aux_bytes ?e = 1"
    by (simp_all add: sample_plan_entry_def make_plan_entry_def sample_plan_def)
  have step: "pwrite_all (Accepts k # rs) [b] off out = Some (ok_status, pwrite_at (unat off) [b] out, rs)"
    if "0 < k" "unat off \<le> max_off_t" for k rs b off out
    using that pwrite_all_once [of "[b]" k off rs out] by simp
  have skip: "pwrite_all (Interrupted # rs) [b] off out = pwrite_all rs [b] off out"
    if "unat off \<le> max_off_t" for rs b off out
    using that by (simp add: pwrite_all_Cons(2))
  define t where "t = \<lparr> ts_data_written = 2, ts_auxiliary_written = 1,
    ts_data_crc64 = crc64_ecma_update (crc64_ecma_update 0 [1]) [2] \<rparr>"
  define w where "w = sample_stream\<lparr>si_states := [t]\<rparr>"
  define fs2 where "fs2 = fs(?tmp \<mapsto> pwrite_at 513 [2] (pwrite_at 768 [3] (pwrite_at 512 [1] contents)))"
  have run: "stream_run ''EBADF'' sample_ops (Some sample_stream, fs, no_bytes)
      = Some (Some w, fs2, extend False 0 [2] (extend True 0 [3] (extend False 0 [1] no_bytes)))"
    using assms
    by (simp add: sample_ops_def append_data_def append_auxiliary_def sample_stream_def Let_def e
        stream_pwrite_def step skip max_off_t_def w_def t_def fs2_def del: crc64_ecma_update.simps(2))
  let ?manifest = "manifest_of [?e\<lparr>e_data_crc64 := ts_data_crc64 t\<rparr>] (bytes_of_string ''layer.0'')"
  let ?h = "make_header sample_ids 1 7 512 769 (crc64_ecma ?manifest)"
  have "length ?manifest = 135"
    using entry_codec.enc_length [OF sample_entry_shape(2)]
    by (simp add: manifest_of_def sizeof_DiskTensorEntry_def)
  then have "list_all (\<lambda>(src, off). src \<noteq> [] \<and> length src \<le> 4096 \<and> unat off \<le> max_off_t)
      [(encode_header ?h, 0 :: u64), (?manifest, of_nat sizeof_DiskHeader)]"
    using header_codec.enc_length [OF sample_header_shape, of 1 7 512 769 "crc64_ecma ?manifest"]
    by (auto simp: sizeof_DiskHeader_def max_off_t_def)
  from stream_pwrites_once [OF this, of fs2 ?tmp "[]"]
  obtain fs3 where writes: "stream_pwrites (replicate 2 (Accepts 4096)) ?tmp
      [(encode_header ?h, 0), (?manifest, of_nat sizeof_DiskHeader)] fs2 = Some (ok_status, fs3, [])"
    by (auto simp: fs2_def numeral_2_eq_2 simp del: stream_pwrites.simps)
  then have "\<exists>impl' fs'. stream_finalize sample_finalize_env (Some w) fs2 = Some (ok_status, impl', fs')"
    by (simp add: stream_finalize_def w_def sample_stream_def e t_def sample_finalize_env_def Let_def
        del: stream_pwrites.simps crc64_ecma_update.simps(2))
  moreover have "extend False 0 [2] (extend True 0 [3] (extend False 0 [1] no_bytes)) False 0 = [1, 2]"
    "extend False 0 [2] (extend True 0 [3] (extend False 0 [1] no_bytes)) True 0 = [3]"
    by (simp_all add: extend_def no_bytes_def)
  ultimately show ?thesis
    using run by blast
qed

section \<open>Properties\<close>

text \<open>
  C2. Streaming round trip: after \<open>create\<close> from a plan, any sequence of appends to any tensors in
  any order, with failures and retries of any kind in between, and a \<open>finalize\<close> that returns OK,
  only the target path of the file system has changed; the file there opens with full verification
  to one tensor per plan entry, in order, whose data and auxiliary bytes are exactly the
  concatenation of the chunks whose append returned OK. Names are shorter than \<open>2 ^ 32\<close> bytes and
  their table than \<open>2 ^ 62\<close>, and the identity contains no NUL: \<open>create\<close> does not look for one, and a file
  whose identity strings begin with one is finalized but refused when it is opened.
\<close>

theorem artifact_stream_round_trip:
  assumes "stream_create cenv rs path identity plans fs = Some (Inr w, fs1)"
    and "stream_run ebadf ops (Some w, fs1, no_bytes) = Some (impl, fs2, S)"
    and "stream_finalize fenv impl fs2 = Some (s, impl', fs')" and "status_ok s"
    and "names_fit plans" and "no_nul identity"
  shows "\<exists>contents view. fs' = fs(path \<mapsto> contents)
    \<and> artifact_open path verify (Mapped contents) = Inr view \<and> av_identity view = identity
    \<and> length (av_tensors view) = length plans
    \<and> (\<forall>i < length plans. plan_stored view (S False i) (S True i) (plans ! i) (av_tensors view ! i))"
  using assms by (rule stream_round_trip)

theorem artifact_stream_round_trip_witness:
  "\<exists>contents view t. artifact_open ''a.gfxi'' True (Mapped contents) = Inr view
    \<and> av_tensors view = [t] \<and> plan_stored view [1, 2] [3] sample_plan t"
proof -
  obtain fs1 where create: "stream_create sample_stream_env (replicate 3 (Accepts 4096)) ''a.gfxi''
      sample_identity [sample_plan] empty_fs = Some (Inr sample_stream, fs1)"
    and "fs1 (temporary_path ''a.gfxi'' 7) \<noteq> None"
    using sample_created by blast
  then obtain contents where "fs1 (temporary_path ''a.gfxi'' 7) = Some contents"
    by blast
  from sample_finished [of fs1, OF this] obtain S impl fs2 impl' fs' where
    run: "stream_run ''EBADF'' sample_ops (Some sample_stream, fs1, no_bytes) = Some (impl, fs2, S)"
    and fin: "stream_finalize sample_finalize_env impl fs2 = Some (ok_status, impl', fs')"
    and S: "S False 0 = [1, 2]" "S True 0 = [3]"
    by blast
  have "names_fit [sample_plan]"
    by (simp add: names_fit_def sample_plan_def length_name_table)
  from artifact_stream_round_trip [OF create run fin status_ok_ok_status this sample_facts(5), of True]
  obtain contents view where opened: "artifact_open ''a.gfxi'' True (Mapped contents) = Inr view"
    and tensors: "length (av_tensors view) = 1" "plan_stored view [1, 2] [3] sample_plan (av_tensors view ! 0)"
    by (auto simp: S)
  from tensors obtain t where "av_tensors view = [t]" "plan_stored view [1, 2] [3] sample_plan t"
    by (cases "av_tensors view") auto
  with opened show ?thesis
    by (intro exI [of _ contents] exI [of _ view] exI [of _ t] conjI)
qed

text \<open>
  A failed \<open>create\<close> unlinks the temporary path even when the file there is not its own: if
  another writer of the same process identifier holds that path, the exclusive open fails, and the
  destructor of the unfinished writer removes the other writer's file all the same.
\<close>

theorem stream_create_removes_foreign_file:
  assumes "fs (temporary_path path (sv_pid env)) = Some other" and "length tensors \<le> max_u32"
    and "sv_unlink_error env = None"
  shows "\<exists>s. stream_create env rs path identity tensors fs
      = Some (Inl s, fs(temporary_path path (sv_pid env) := None))"
  using assms by (cases "stream_layout identity tensors") (auto simp: stream_create_def unlink_file_def not_less Let_def)

theorem stream_create_removes_foreign_file_witness:
  "\<exists>s. stream_create sample_stream_env [] ''a.gfxi'' sample_identity [sample_plan]
      (empty_fs(temporary_path ''a.gfxi'' 7 \<mapsto> [1, 2, 3]))
    = Some (Inl s, (empty_fs(temporary_path ''a.gfxi'' 7 \<mapsto> [1, 2, 3]))(temporary_path ''a.gfxi'' 7 := None))"
  using stream_create_removes_foreign_file
    [of "empty_fs(temporary_path ''a.gfxi'' 7 \<mapsto> [1, 2, 3])" "''a.gfxi''" sample_stream_env "[1, 2, 3]"
      "[sample_plan]" "[]" sample_identity]
  by (simp add: sample_stream_env_def max_u32_def)

end
