(* ===== verification/Strings.thy ===== *)
theory Strings
  imports Prelude "HOL-Library.Char_ord" "HOL-Library.List_Lexorder"
begin

text \<open>
  What the sources use of \<open>std::string\<close> and of the sorted-range algorithms: the byte order of
  strings, searches with a start position, decimal numbers, and \<open>std::lower_bound\<close> with the
  lookup-by-name idiom that the specification table, the safetensors file and the engine share.
  The locale \<open>name_table\<close> is the interface of that idiom.
\<close>

section \<open>Searching\<close>

definition starts_with :: "string \<Rightarrow> string \<Rightarrow> bool" where
  "starts_with p s \<longleftrightarrow> is_prefix p s"

definition ends_with :: "string \<Rightarrow> string \<Rightarrow> bool" where
  "ends_with p s \<longleftrightarrow> length p \<le> length s \<and> drop (length s - length p) s = p"

text \<open>\<open>s.find(needle, from)\<close>; \<open>npos\<close> is \<open>None\<close>.\<close>

definition find_from :: "string \<Rightarrow> nat \<Rightarrow> string \<Rightarrow> nat option" where
  "find_from needle start s =
     (if start \<le> length s then map_option (\<lambda>i. start + i) (find_sub needle (drop start s)) else None)"

definition substr :: "nat \<Rightarrow> nat \<Rightarrow> string \<Rightarrow> string" where
  "substr start n s = take n (drop start s)"

definition is_digit :: "char \<Rightarrow> bool" where
  "is_digit c \<longleftrightarrow> char_in CHR ''0'' CHR ''9'' c"

definition digit_value :: "char \<Rightarrow> nat" where
  "digit_value c = of_char c - 48"

section \<open>Lower bound\<close>

text \<open>
  \<open>std::lower_bound\<close> as libstdc++ has it. On a range that is not partitioned by the comparison the
  standard promises nothing; the loop then returns what the binary search happens to reach.
\<close>

function lower_bound_loop :: "('a \<Rightarrow> bool) \<Rightarrow> 'a list \<Rightarrow> nat \<Rightarrow> nat \<Rightarrow> nat" where
  "lower_bound_loop below xs first len =
     (if len = 0 then first
      else let half = len div 2; middle = first + half in
        if below (xs ! middle) then lower_bound_loop below xs (middle + 1) (len - half - 1)
        else lower_bound_loop below xs first half)"
  by pat_completeness auto
termination
  by (relation "measure (\<lambda>(below, xs, first, len). len)") auto

declare lower_bound_loop.simps [simp del]

definition lower_bound :: "('a \<Rightarrow> bool) \<Rightarrow> 'a list \<Rightarrow> nat" where
  "lower_bound below xs = lower_bound_loop below xs 0 (length xs)"

definition find_by_name :: "('a \<Rightarrow> string) \<Rightarrow> 'a list \<Rightarrow> string \<Rightarrow> 'a option" where
  "find_by_name name_of xs name =
     (let i = lower_bound (\<lambda>x. name_of x < name) xs in
      if i < length xs \<and> name_of (xs ! i) = name then Some (xs ! i) else None)"

subsection \<open>The partition point\<close>

lemma lower_bound_loop_correct:
  assumes "\<And>i j. i \<le> j \<Longrightarrow> j < length xs \<Longrightarrow> below (xs ! j) \<Longrightarrow> below (xs ! i)"
    and "first + len \<le> length xs"
    and "\<And>i. i < first \<Longrightarrow> below (xs ! i)"
    and "\<And>i. first + len \<le> i \<Longrightarrow> i < length xs \<Longrightarrow> \<not> below (xs ! i)"
  shows "lower_bound_loop below xs first len \<le> length xs
    \<and> (\<forall>i < lower_bound_loop below xs first len. below (xs ! i))
    \<and> (\<forall>i. lower_bound_loop below xs first len \<le> i \<longrightarrow> i < length xs \<longrightarrow> \<not> below (xs ! i))"
  using assms(2-4)
proof (induction len arbitrary: first rule: less_induct)
  case (less len)
  show ?case
  proof (cases "len = 0")
    case True
    then have "lower_bound_loop below xs first len = first"
      by (subst lower_bound_loop.simps) simp
    moreover have "first \<le> length xs"
      using less.prems(1) by linarith
    moreover have "\<not> below (xs ! i)" if "first \<le> i" "i < length xs" for i
      using less.prems(3) [of i] that True by simp
    ultimately show ?thesis
      using less.prems(2) by auto
  next
    case False
    let ?half = "len div 2"
    have half: "?half < len" and rest: "len - ?half - 1 < len"
      using False by simp_all
    have mid: "first + ?half < length xs"
      using less.prems(1) half by linarith
    show ?thesis
    proof (cases "below (xs ! (first + ?half))")
      case True
      have eq: "lower_bound_loop below xs first len
          = lower_bound_loop below xs (first + ?half + 1) (len - ?half - 1)"
        using False True by (subst lower_bound_loop.simps) (simp add: Let_def)
      have e: "first + ?half + 1 + (len - ?half - 1) = first + len"
        using half by linarith
      show ?thesis
        unfolding eq
      proof (rule less.IH [OF rest], unfold e)
        show "below (xs ! i)" if "i < first + ?half + 1" for i
          using assms(1) [of i "first + ?half"] mid True that by simp
        show "first + len \<le> length xs"
          by (rule less.prems(1))
        show "\<not> below (xs ! i)" if "first + len \<le> i" "i < length xs" for i
          using that by (rule less.prems(3))
      qed
    next
      case below: False
      have eq: "lower_bound_loop below xs first len = lower_bound_loop below xs first ?half"
        using False below by (subst lower_bound_loop.simps) (simp add: Let_def)
      show ?thesis
        unfolding eq
      proof (rule less.IH [OF half])
        show "\<not> below (xs ! i)" if "first + ?half \<le> i" "i < length xs" for i
          using assms(1) [of "first + ?half" i] below that by blast
        show "first + ?half \<le> length xs"
          using mid by linarith
        show "below (xs ! i)" if "i < first" for i
          using that by (rule less.prems(2))
      qed
    qed
  qed
qed

lemma find_by_name_sorted:
  assumes "sorted (map name_of xs)"
  shows "find_by_name name_of xs name = Some x \<Longrightarrow> x \<in> set xs \<and> name_of x = name"
    and "find_by_name name_of xs name = None \<longleftrightarrow> name \<notin> name_of ` set xs"
proof -
  let ?below = "\<lambda>x. name_of x < name"
  define n where "n = lower_bound ?below xs"
  have mono: "name_of (xs ! i) \<le> name_of (xs ! j)" if "i \<le> j" "j < length xs" for i j
    using sorted_nth_mono [OF assms that(1)] that by simp
  have part: "n \<le> length xs" "\<forall>i < n. name_of (xs ! i) < name" "\<forall>i. n \<le> i \<longrightarrow> i < length xs \<longrightarrow> \<not> name_of (xs ! i) < name"
  proof -
    have "lower_bound_loop ?below xs 0 (length xs) \<le> length xs
      \<and> (\<forall>i < lower_bound_loop ?below xs 0 (length xs). ?below (xs ! i))
      \<and> (\<forall>i. lower_bound_loop ?below xs 0 (length xs) \<le> i \<longrightarrow> i < length xs \<longrightarrow> \<not> ?below (xs ! i))"
    proof (rule lower_bound_loop_correct)
      show "?below (xs ! i)" if "i \<le> j" "j < length xs" "?below (xs ! j)" for i j
        using mono [OF that(1,2)] that(3) by (rule le_less_trans)
    qed simp_all
    then show "n \<le> length xs" "\<forall>i < n. name_of (xs ! i) < name"
      "\<forall>i. n \<le> i \<longrightarrow> i < length xs \<longrightarrow> \<not> name_of (xs ! i) < name"
      unfolding n_def lower_bound_def by blast+
  qed
  have res: "find_by_name name_of xs name = (if n < length xs \<and> name_of (xs ! n) = name then Some (xs ! n) else None)"
    by (simp add: find_by_name_def n_def Let_def)
  then show "find_by_name name_of xs name = Some x \<Longrightarrow> x \<in> set xs \<and> name_of x = name"
    by (auto split: if_splits)
  show "find_by_name name_of xs name = None \<longleftrightarrow> name \<notin> name_of ` set xs"
  proof
    assume none: "find_by_name name_of xs name = None"
    show "name \<notin> name_of ` set xs"
    proof
      assume "name \<in> name_of ` set xs"
      then obtain i where i: "i < length xs" "name_of (xs ! i) = name"
        by (auto simp: in_set_conv_nth)
      then have "n \<le> i"
        using part(2) by (metis less_irrefl not_le)
      with i have "name_of (xs ! n) \<le> name"
        using mono by blast
      moreover have "\<not> name_of (xs ! n) < name"
        using part(3) \<open>n \<le> i\<close> i(1) by simp
      ultimately show False
        using none res \<open>n \<le> i\<close> i(1) by (auto split: if_splits)
    qed
  next
    assume "name \<notin> name_of ` set xs"
    then show "find_by_name name_of xs name = None"
      using res by (auto split: if_splits)
  qed
qed

lemma map_sort_key: "map f (sort_key f xs) = sort (map f xs)"
  by (rule sym, rule properties_for_sort) simp_all

section \<open>Tables looked up by name\<close>

text \<open>A component that keeps a table sorted by distinct names and finds entries by binary search.\<close>

locale name_table =
  fixes name_of :: "'a \<Rightarrow> string"
    and table :: "'t \<Rightarrow> 'a list"
    and valid :: "'t \<Rightarrow> bool"
    and lookup :: "'t \<Rightarrow> string \<Rightarrow> 'a option"
  assumes table_sorted: "valid t \<Longrightarrow> sorted (map name_of (table t))"
    and table_distinct: "valid t \<Longrightarrow> distinct (map name_of (table t))"
    and lookup_binary: "lookup t name = find_by_name name_of (table t) name"
begin

lemma lookup_Some:
  assumes "valid t"
  shows "lookup t name = Some x \<longleftrightarrow> x \<in> set (table t) \<and> name_of x = name"
proof
  assume "lookup t name = Some x"
  then show "x \<in> set (table t) \<and> name_of x = name"
    using find_by_name_sorted(1) [OF table_sorted [OF assms]] by (simp add: lookup_binary)
next
  assume x: "x \<in> set (table t) \<and> name_of x = name"
  then have "lookup t name \<noteq> None"
    using find_by_name_sorted(2) [OF table_sorted [OF assms], of name] by (auto simp: lookup_binary)
  then obtain y where y: "lookup t name = Some y"
    by blast
  then have "y \<in> set (table t) \<and> name_of y = name"
    using find_by_name_sorted(1) [OF table_sorted [OF assms]] by (simp add: lookup_binary)
  with x table_distinct [OF assms] have "y = x"
    by (auto simp: distinct_map inj_on_def)
  with y show "lookup t name = Some x" by simp
qed

lemma lookup_None:
  "valid t \<Longrightarrow> lookup t name = None \<longleftrightarrow> (\<forall>x \<in> set (table t). name_of x \<noteq> name)"
  using find_by_name_sorted(2) [OF table_sorted, of t name] by (auto simp: lookup_binary)

lemma lookup_member: "valid t \<Longrightarrow> x \<in> set (table t) \<Longrightarrow> lookup t (name_of x) = Some x"
  by (simp add: lookup_Some)

end

section \<open>Decimal numbers\<close>

lemma of_char_digit_char: "d < 10 \<Longrightarrow> of_char (digit_char d) = 48 + d"
  by (simp add: digit_char_def of_char_of)

lemma digit_char_props:
  "d < 10 \<Longrightarrow> is_digit (digit_char d)" "d < 10 \<Longrightarrow> digit_value (digit_char d) = d"
  by (simp_all add: is_digit_def char_in_def of_char_digit_char digit_value_def)

lemma to_string_digits: "list_all is_digit (to_string n)"
proof (induction n rule: to_string.induct)
  case (1 n)
  show ?case
    by (subst to_string.simps) (use 1 in \<open>simp add: digit_char_props list_all_append\<close>)
qed

lemma to_string_nonempty [simp]: "to_string n \<noteq> []"
  by (subst to_string.simps) simp

definition of_digits :: "nat \<Rightarrow> string \<Rightarrow> nat" where
  "of_digits = foldl (\<lambda>n c. n * 10 + digit_value c)"

lemma of_digits_to_string: "of_digits 0 (to_string n) = n"
proof (induction n rule: to_string.induct)
  case (1 n)
  show ?case
  proof (cases "n < 10")
    case True
    then show ?thesis
      by (subst to_string.simps) (simp add: of_digits_def digit_char_props)
  next
    case False
    then have "of_digits 0 (to_string (n div 10)) = n div 10"
      using 1 by simp
    with False show ?thesis
      by (subst to_string.simps) (simp add: of_digits_def digit_char_props)
  qed
qed

lemma to_string_inject [simp]: "to_string m = to_string n \<longleftrightarrow> m = n"
  using of_digits_to_string by metis

lemma not_digit_dot: "\<not> is_digit CHR ''.''"
  by (simp add: is_digit_def char_in_def)

lemma dot_not_in_to_string: "CHR ''.'' \<notin> set (to_string n)"
  using to_string_digits [of n] not_digit_dot by (auto simp: list_all_iff)

text \<open>A string splits at its first dot in one way.\<close>

lemma split_at_first:
  "c \<notin> set a \<Longrightarrow> c \<notin> set b \<Longrightarrow> a @ c # s = b @ c # t \<longleftrightarrow> a = b \<and> s = t"
proof (induction a arbitrary: b)
  case Nil
  then show ?case
    by (cases b) auto
next
  case (Cons x a)
  then show ?case
    by (cases b) auto
qed

lemma find_sub_char:
  "c \<notin> set a \<Longrightarrow> find_sub [c] (a @ c # s) = Some (length a)"
  by (induction a) (auto simp: is_prefix_def)

lemma is_prefix_append [simp]: "is_prefix p (p @ s)"
  by (simp add: is_prefix_def)

lemma find_sub_exists:
  "find_sub needle (a @ needle @ b) \<noteq> None"
proof (induction a)
  case Nil
  have "is_prefix needle (needle @ b)"
    by simp
  then show ?case
    by (cases "needle @ b") auto
next
  case (Cons x a)
  then show ?case
    by auto
qed

end
