(* ===== verification/Qwen38Spec.thy ===== *)
theory Qwen38Spec
  imports Strings
begin

text \<open>
  \<^verbatim>\<open>src/qwen38_spec.cpp\<close> and \<^verbatim>\<open>include/gfxinfer/qwen38_spec.h\<close>: the constants of the model, the
  table of the source tensors with their shapes, the list of their names, and the check of a
  checkpoint's inventory. The lemmas show that the two hand-written lists agree, that names are
  distinct, that the binary search finds exactly the entries, and what the inventory check accepts.
\<close>

section \<open>The code\<close>

definition vocabulary_size :: nat where "vocabulary_size = 248320"
definition tokenizer_vocabulary_size :: nat where "tokenizer_vocabulary_size = 248077"
definition hidden_size :: nat where "hidden_size = 5120"
definition layer_count :: nat where "layer_count = 64"
definition full_attention_interval :: nat where "full_attention_interval = 4"
definition vision_depth :: nat where "vision_depth = 27"

definition is_full_attention :: "nat \<Rightarrow> bool" where
  "is_full_attention layer \<longleftrightarrow> layer < layer_count \<and> (layer + 1) mod full_attention_interval = 0"

record source_tensor_spec =
  st_name :: string
  st_shape :: "u64 list"

definition add_specs :: "string \<Rightarrow> (string \<times> u64 list) list \<Rightarrow> source_tensor_spec list" where
  "add_specs prefix specs = map (\<lambda>(name, shape). \<lparr> st_name = prefix @ name, st_shape = shape \<rparr>) specs"

definition layer_prefix :: "nat \<Rightarrow> string" where
  "layer_prefix layer = ''model.language_model.layers.'' @ to_string layer @ ''.''"

definition block_prefix :: "nat \<Rightarrow> string" where
  "block_prefix block = ''model.visual.blocks.'' @ to_string block @ ''.''"

definition head_specs :: "(string \<times> u64 list) list" where
  "head_specs = [
     (''lm_head.weight'', [248320, 5120]),
     (''model.language_model.embed_tokens.weight'', [248320, 5120]),
     (''model.language_model.norm.weight'', [5120])]"

definition layer_specs :: "nat \<Rightarrow> (string \<times> u64 list) list" where
  "layer_specs layer = [
     (''input_layernorm.weight'', [5120]),
     (''mlp.down_proj.weight'', [5120, 17408]),
     (''mlp.gate_proj.weight'', [17408, 5120]),
     (''mlp.up_proj.weight'', [17408, 5120]),
     (''post_attention_layernorm.weight'', [5120])] @
     (if is_full_attention layer then [
       (''self_attn.k_norm.weight'', [256]),
       (''self_attn.k_proj.weight'', [1024, 5120]),
       (''self_attn.o_proj.weight'', [5120, 6144]),
       (''self_attn.q_norm.weight'', [256]),
       (''self_attn.q_proj.weight'', [12288, 5120]),
       (''self_attn.v_proj.weight'', [1024, 5120])]
      else [
       (''linear_attn.A_log'', [48]),
       (''linear_attn.conv1d.weight'', [10240, 1, 4]),
       (''linear_attn.dt_bias'', [48]),
       (''linear_attn.in_proj_a.weight'', [48, 5120]),
       (''linear_attn.in_proj_b.weight'', [48, 5120]),
       (''linear_attn.in_proj_qkv.weight'', [10240, 5120]),
       (''linear_attn.in_proj_z.weight'', [6144, 5120]),
       (''linear_attn.norm.weight'', [128]),
       (''linear_attn.out_proj.weight'', [5120, 6144])])"

definition block_specs :: "(string \<times> u64 list) list" where
  "block_specs = [
     (''attn.proj.bias'', [1152]),
     (''attn.proj.weight'', [1152, 1152]),
     (''attn.qkv.bias'', [3456]),
     (''attn.qkv.weight'', [3456, 1152]),
     (''mlp.linear_fc1.bias'', [4304]),
     (''mlp.linear_fc1.weight'', [4304, 1152]),
     (''mlp.linear_fc2.bias'', [1152]),
     (''mlp.linear_fc2.weight'', [1152, 4304]),
     (''norm1.bias'', [1152]),
     (''norm1.weight'', [1152]),
     (''norm2.bias'', [1152]),
     (''norm2.weight'', [1152])]"

definition visual_specs :: "(string \<times> u64 list) list" where
  "visual_specs = [
     (''model.visual.merger.linear_fc1.bias'', [4608]),
     (''model.visual.merger.linear_fc1.weight'', [4608, 4608]),
     (''model.visual.merger.linear_fc2.bias'', [5120]),
     (''model.visual.merger.linear_fc2.weight'', [5120, 4608]),
     (''model.visual.merger.norm.bias'', [1152]),
     (''model.visual.merger.norm.weight'', [1152]),
     (''model.visual.patch_embed.proj.bias'', [1152]),
     (''model.visual.patch_embed.proj.weight'', [1152, 3, 2, 16, 16]),
     (''model.visual.pos_embed.weight'', [2304, 1152])]"

definition mtp_specs :: "(string \<times> u64 list) list" where
  "mtp_specs = [
     (''mtp.fc.weight'', [5120, 10240]),
     (''mtp.layers.0.input_layernorm.weight'', [5120]),
     (''mtp.layers.0.mlp.down_proj.weight'', [5120, 17408]),
     (''mtp.layers.0.mlp.gate_proj.weight'', [17408, 5120]),
     (''mtp.layers.0.mlp.up_proj.weight'', [17408, 5120]),
     (''mtp.layers.0.post_attention_layernorm.weight'', [5120]),
     (''mtp.layers.0.self_attn.k_norm.weight'', [256]),
     (''mtp.layers.0.self_attn.k_proj.weight'', [1024, 5120]),
     (''mtp.layers.0.self_attn.o_proj.weight'', [5120, 6144]),
     (''mtp.layers.0.self_attn.q_norm.weight'', [256]),
     (''mtp.layers.0.self_attn.q_proj.weight'', [12288, 5120]),
     (''mtp.layers.0.self_attn.v_proj.weight'', [1024, 5120]),
     (''mtp.norm.weight'', [5120]),
     (''mtp.pre_fc_norm_embedding.weight'', [5120]),
     (''mtp.pre_fc_norm_hidden.weight'', [5120])]"

definition qwen38_source_tensor_specs :: "source_tensor_spec list" where
  "qwen38_source_tensor_specs = sort_key st_name
     (add_specs [] head_specs
      @ concat (map (\<lambda>layer. add_specs (layer_prefix layer) (layer_specs layer)) [0..<layer_count])
      @ concat (map (\<lambda>block. add_specs (block_prefix block) block_specs) [0..<vision_depth])
      @ add_specs [] visual_specs
      @ add_specs [] mtp_specs)"

definition qwen38_source_tensor_spec :: "string \<Rightarrow> source_tensor_spec option" where
  "qwen38_source_tensor_spec name = find_by_name st_name qwen38_source_tensor_specs name"

definition append_names :: "string \<Rightarrow> string list \<Rightarrow> string list" where
  "append_names prefix suffixes = map (\<lambda>s. prefix @ s) suffixes"

definition layer_suffixes :: "nat \<Rightarrow> string list" where
  "layer_suffixes layer = [
     ''input_layernorm.weight'', ''mlp.down_proj.weight'', ''mlp.gate_proj.weight'',
     ''mlp.up_proj.weight'', ''post_attention_layernorm.weight''] @
     (if is_full_attention layer then [
     ''self_attn.k_norm.weight'', ''self_attn.k_proj.weight'',
     ''self_attn.o_proj.weight'', ''self_attn.q_norm.weight'',
     ''self_attn.q_proj.weight'', ''self_attn.v_proj.weight'']
      else [
     ''linear_attn.A_log'', ''linear_attn.conv1d.weight'', ''linear_attn.dt_bias'',
     ''linear_attn.in_proj_a.weight'', ''linear_attn.in_proj_b.weight'',
     ''linear_attn.in_proj_qkv.weight'', ''linear_attn.in_proj_z.weight'',
     ''linear_attn.norm.weight'', ''linear_attn.out_proj.weight''])"

definition block_suffixes :: "string list" where
  "block_suffixes = [
     ''attn.proj.bias'', ''attn.proj.weight'', ''attn.qkv.bias'', ''attn.qkv.weight'',
     ''mlp.linear_fc1.bias'', ''mlp.linear_fc1.weight'', ''mlp.linear_fc2.bias'',
     ''mlp.linear_fc2.weight'', ''norm1.bias'', ''norm1.weight'', ''norm2.bias'',
     ''norm2.weight'']"

definition visual_suffixes :: "string list" where
  "visual_suffixes = [
     ''merger.linear_fc1.bias'', ''merger.linear_fc1.weight'', ''merger.linear_fc2.bias'',
     ''merger.linear_fc2.weight'', ''merger.norm.bias'', ''merger.norm.weight'',
     ''patch_embed.proj.bias'', ''patch_embed.proj.weight'', ''pos_embed.weight'']"

definition mtp_suffixes :: "string list" where
  "mtp_suffixes = [
     ''fc.weight'', ''layers.0.input_layernorm.weight'',
     ''layers.0.mlp.down_proj.weight'', ''layers.0.mlp.gate_proj.weight'',
     ''layers.0.mlp.up_proj.weight'', ''layers.0.post_attention_layernorm.weight'',
     ''layers.0.self_attn.k_norm.weight'', ''layers.0.self_attn.k_proj.weight'',
     ''layers.0.self_attn.o_proj.weight'', ''layers.0.self_attn.q_norm.weight'',
     ''layers.0.self_attn.q_proj.weight'', ''layers.0.self_attn.v_proj.weight'',
     ''norm.weight'', ''pre_fc_norm_embedding.weight'', ''pre_fc_norm_hidden.weight'']"

definition qwen38_source_tensor_names :: "bool \<Rightarrow> bool \<Rightarrow> string list" where
  "qwen38_source_tensor_names include_vision include_mtp = sort
     ([''lm_head.weight'', ''model.language_model.embed_tokens.weight'', ''model.language_model.norm.weight'']
      @ concat (map (\<lambda>layer. append_names (layer_prefix layer) (layer_suffixes layer)) [0..<layer_count])
      @ (if include_vision
         then concat (map (\<lambda>block. append_names (block_prefix block) block_suffixes) [0..<vision_depth])
              @ append_names ''model.visual.'' visual_suffixes
         else [])
      @ (if include_mtp then append_names ''mtp.'' mtp_suffixes else []))"

text \<open>A \<open>std::set<std::string>\<close> is traversed in order: it is the sorted list of its elements.\<close>

definition string_set :: "string list \<Rightarrow> string list" where
  "string_set names = sort (remdups names)"

definition newline :: string where "newline = [char_of (10 :: nat)]"

definition inventory_message :: "string list \<Rightarrow> string list \<Rightarrow> string" where
  "inventory_message expected actual =
     ''source inventory mismatch''
     @ concat (map (\<lambda>n. newline @ ''  missing: '' @ n) (take 8 (filter (\<lambda>n. n \<notin> set actual) expected)))
     @ concat (map (\<lambda>n. newline @ ''  unexpected: '' @ n) (take 8 (filter (\<lambda>n. n \<notin> set expected) actual)))"

definition validate_qwen38_source_inventory :: "string list \<Rightarrow> bool \<Rightarrow> bool \<Rightarrow> status" where
  "validate_qwen38_source_inventory names include_vision include_mtp =
     (let expected = string_set (qwen38_source_tensor_names include_vision include_mtp);
          actual = string_set names in
      if length actual \<noteq> length names
      then Status invalid_argument ''source inventory contains duplicate tensor names''
      else if actual = expected then ok_status
      else Status invalid_argument (inventory_message expected actual))"

section \<open>Names are distinct\<close>

lemma distinct_concat_map:
  assumes "distinct xs" and "\<And>x. x \<in> set xs \<Longrightarrow> distinct (f x)"
    and "\<And>x y. x \<in> set xs \<Longrightarrow> y \<in> set xs \<Longrightarrow> x \<noteq> y \<Longrightarrow> set (f x) \<inter> set (f y) = {}"
  shows "distinct (concat (map f xs))"
  using assms
proof (induction xs)
  case (Cons x xs)
  have "distinct (concat (map f xs))"
    using Cons.prems by (intro Cons.IH) auto
  moreover have "set (f x) \<inter> set (f y) = {}" if "y \<in> set xs" for y
    using Cons.prems(1,3) that by auto
  ultimately show ?case
    using Cons.prems(2) by auto
qed simp

lemma layer_prefix_inject:
  "layer_prefix l @ s = layer_prefix l' @ s' \<longleftrightarrow> l = l' \<and> s = s'"
  using split_at_first [OF dot_not_in_to_string dot_not_in_to_string, of l s l' s']
  by (simp add: layer_prefix_def)

lemma block_prefix_inject:
  "block_prefix b @ s = block_prefix b' @ s' \<longleftrightarrow> b = b' \<and> s = s'"
  using split_at_first [OF dot_not_in_to_string dot_not_in_to_string, of b s b' s']
  by (simp add: block_prefix_def)

definition layer_names :: "string list" where
  "layer_names = concat (map (\<lambda>layer. append_names (layer_prefix layer) (layer_suffixes layer)) [0..<layer_count])"

definition block_names :: "string list" where
  "block_names = concat (map (\<lambda>block. append_names (block_prefix block) block_suffixes) [0..<vision_depth])"

definition head_names :: "string list" where
  "head_names = [''lm_head.weight'', ''model.language_model.embed_tokens.weight'', ''model.language_model.norm.weight'']"

lemma distinct_append_names: "distinct (append_names p ss) \<longleftrightarrow> distinct ss"
  by (simp add: append_names_def distinct_map inj_on_def)

lemma distinct_layer_names: "distinct layer_names"
  unfolding layer_names_def
proof (rule distinct_concat_map)
  fix x show "distinct (append_names (layer_prefix x) (layer_suffixes x))"
    by (simp add: distinct_append_names layer_suffixes_def)
qed (auto simp: append_names_def layer_prefix_inject)

lemma distinct_block_names: "distinct block_names"
  unfolding block_names_def
proof (rule distinct_concat_map)
  fix x show "distinct (append_names (block_prefix x) block_suffixes)"
    by (simp add: distinct_append_names block_suffixes_def)
qed (auto simp: append_names_def block_prefix_inject)

text \<open>The groups of names do not meet: they differ in a prefix.\<close>

lemma layer_names_prefix: "n \<in> set layer_names \<Longrightarrow> is_prefix ''model.language_model.layers.'' n"
  by (auto simp: layer_names_def append_names_def layer_prefix_def is_prefix_def)

lemma block_names_prefix: "n \<in> set block_names \<Longrightarrow> is_prefix ''model.visual.blocks.'' n"
  by (auto simp: block_names_def append_names_def block_prefix_def is_prefix_def)

lemma names_unsorted:
  "qwen38_source_tensor_names v m = sort (head_names @ layer_names
     @ (if v then block_names @ append_names ''model.visual.'' visual_suffixes else [])
     @ (if m then append_names ''mtp.'' mtp_suffixes else []))"
  by (simp add: qwen38_source_tensor_names_def head_names_def layer_names_def block_names_def)

lemma head_names_meet: "n \<in> set head_names \<Longrightarrow> n \<notin> set layer_names \<and> n \<notin> set block_names"
  using layer_names_prefix [of n] block_names_prefix [of n]
  by (auto simp: head_names_def is_prefix_def)

lemma visual_names_meet:
  "n \<in> set (append_names ''model.visual.'' visual_suffixes) \<Longrightarrow> n \<notin> set layer_names \<and> n \<notin> set block_names"
  using layer_names_prefix [of n] block_names_prefix [of n]
  by (auto simp: append_names_def visual_suffixes_def is_prefix_def)

lemma mtp_names_meet:
  "n \<in> set (append_names ''mtp.'' mtp_suffixes) \<Longrightarrow> n \<notin> set layer_names \<and> n \<notin> set block_names"
  using layer_names_prefix [of n] block_names_prefix [of n]
  by (auto simp: append_names_def mtp_suffixes_def is_prefix_def)

lemma is_prefix_nth: "is_prefix p n \<Longrightarrow> i < length p \<Longrightarrow> n ! i = p ! i"
  unfolding is_prefix_def by (metis nth_take)

lemma layer_block_meet: "n \<in> set layer_names \<Longrightarrow> n \<notin> set block_names"
  using is_prefix_nth [OF layer_names_prefix, of n 6] is_prefix_nth [OF block_names_prefix, of n 6]
  by auto

lemma small_groups_meet:
  "distinct (head_names @ append_names ''model.visual.'' visual_suffixes @ append_names ''mtp.'' mtp_suffixes)"
  by (simp add: head_names_def append_names_def visual_suffixes_def mtp_suffixes_def)

lemma distinct_names: "distinct (qwen38_source_tensor_names v m)"
proof -
  have "distinct (head_names @ layer_names
     @ (block_names @ append_names ''model.visual.'' visual_suffixes) @ append_names ''mtp.'' mtp_suffixes)"
    using small_groups_meet distinct_layer_names distinct_block_names head_names_meet visual_names_meet
      mtp_names_meet layer_block_meet
    by (simp only: distinct_append set_append) blast
  then show ?thesis
    by (auto simp: names_unsorted)
qed

lemma length_concat_map: "length (concat (map f xs)) = (\<Sum>x \<leftarrow> xs. length (f x))"
  by (simp add: length_concat comp_def)

lemma length_layer_names: "length layer_names = 848"
proof -
  have "length layer_names = (\<Sum>layer \<leftarrow> [0..<64]. length (layer_suffixes layer))"
    by (simp add: layer_names_def length_concat_map append_names_def layer_count_def del: upt.simps upt_rec_numeral)
  also have "\<dots> = (\<Sum>layer \<leftarrow> [0..<64]. if (layer + 1) mod 4 = 0 then 11 else 14)"
    by (intro arg_cong [of _ _ sum_list] map_cong)
      (auto simp: layer_suffixes_def is_full_attention_def layer_count_def full_attention_interval_def)
  also have "\<dots> = 848"
    by code_simp
  finally show ?thesis .
qed

lemma length_block_names: "length block_names = 324"
proof -
  have "length block_suffixes = 12"
    by (simp add: block_suffixes_def)
  then show ?thesis
    by (simp add: block_names_def length_concat_map append_names_def vision_depth_def sum_list_triv
        del: upt.simps upt_rec_numeral)
qed

section \<open>The properties\<close>

text \<open>
  The source inventory: the list of names is sorted, has no duplicate, and has 851 names, 333
  more with the vision tower and 15 more with the draft layer, 1199 in all.
\<close>

theorem source_names_inventory:
  "sorted (qwen38_source_tensor_names v m) \<and> distinct (qwen38_source_tensor_names v m)
   \<and> length (qwen38_source_tensor_names v m) = 851 + (if v then 333 else 0) + (if m then 15 else 0)"
proof (intro conjI)
  show "sorted (qwen38_source_tensor_names v m)"
    unfolding names_unsorted by (rule sorted_sort)
  show "distinct (qwen38_source_tensor_names v m)"
    by (rule distinct_names)
  show "length (qwen38_source_tensor_names v m) = 851 + (if v then 333 else 0) + (if m then 15 else 0)"
    unfolding qwen38_source_tensor_names_def layer_names_def [symmetric] block_names_def [symmetric]
    by (simp add: length_layer_names length_block_names append_names_def visual_suffixes_def mtp_suffixes_def)
qed

lemma map_add_specs: "map st_name (add_specs p xs) = append_names p (map fst xs)"
  by (simp add: add_specs_def append_names_def case_prod_unfold)

lemma spec_names: "map st_name qwen38_source_tensor_specs = qwen38_source_tensor_names True True"
proof -
  have layers: "map fst (layer_specs l) = layer_suffixes l" for l
    by (simp add: layer_specs_def layer_suffixes_def)
  have blocks: "map fst block_specs = block_suffixes"
    by (simp add: block_specs_def block_suffixes_def)
  have flat: "append_names [] (map fst head_specs) = head_names"
    "append_names [] (map fst visual_specs) = append_names ''model.visual.'' visual_suffixes"
    "append_names [] (map fst mtp_specs) = append_names ''mtp.'' mtp_suffixes"
    by (simp_all add: append_names_def head_specs_def head_names_def visual_specs_def visual_suffixes_def
        mtp_specs_def mtp_suffixes_def)
  show ?thesis
    unfolding qwen38_source_tensor_specs_def names_unsorted layer_names_def block_names_def
    by (simp add: map_sort_key map_concat comp_def map_add_specs layers blocks flat)
qed

text \<open>The specification table is a table looked up by name.\<close>

interpretation spec_table: name_table st_name "\<lambda>_ :: unit. qwen38_source_tensor_specs" "\<lambda>_. True"
  "\<lambda>_. qwen38_source_tensor_spec"
  by unfold_locales
    (simp_all only: spec_names distinct_names qwen38_source_tensor_spec_def, simp only: names_unsorted sorted_sort)

text \<open>
  The specification table agrees with the list of names: \<open>qwen38_source_tensor_spec\<close> finds an
  entry for a name exactly when the name is in the list, and the entry has that name.
\<close>

theorem source_spec_found:
  "(qwen38_source_tensor_spec name = Some spec
      \<longleftrightarrow> spec \<in> set qwen38_source_tensor_specs \<and> st_name spec = name)
   \<and> (qwen38_source_tensor_spec name = None \<longleftrightarrow> name \<notin> set (qwen38_source_tensor_names True True))"
  using spec_table.lookup_Some [of name spec] spec_table.lookup_None [of name]
  by (auto simp: spec_names [symmetric])

lemma string_set_eq: "string_set a = string_set b \<longleftrightarrow> set a = set b"
  by (metis string_set_def set_remdups set_sort sorted_list_of_set_sort_remdups)

lemma inventory_accepts:
  "status_ok (validate_qwen38_source_inventory names v m) \<longleftrightarrow> mset names = mset (qwen38_source_tensor_names v m)"
proof -
  have "length (string_set names) = length names \<longleftrightarrow> distinct names"
    by (simp add: string_set_def card_distinct distinct_card length_remdups_card_conv)
      (metis card_distinct distinct_card)
  moreover have "mset names = mset (qwen38_source_tensor_names v m)
      \<longleftrightarrow> distinct names \<and> set names = set (qwen38_source_tensor_names v m)"
    using distinct_names [of v m] by (metis mset_eq_setD set_eq_iff_mset_eq_distinct mset_eq_imp_distinct_iff)
  ultimately show ?thesis
    by (simp add: validate_qwen38_source_inventory_def Let_def string_set_eq ok_status_def)
qed

text \<open>
  C10. The inventory check accepts a list of names exactly when it is the expected list up to order;
  otherwise it reports an invalid argument.
\<close>

theorem inventory_accepts_exactly:
  "(status_ok (validate_qwen38_source_inventory names v m)
      \<longleftrightarrow> mset names = mset (qwen38_source_tensor_names v m))
   \<and> status_code (validate_qwen38_source_inventory names v m) \<in> {ok_code, invalid_argument}"
  using inventory_accepts
  by (simp add: validate_qwen38_source_inventory_def Let_def ok_status_def)

end
