(* ===== verification/Ieee.thy ===== *)
theory Ieee
  imports Complex_Main Prelude "HOL-Library.Log_Nat"
begin

text \<open>
  Binary floating point, as the C++ code uses \<open>float\<close> and \<open>double\<close>: a value is a rational number,
  an infinity or not a number, and every operation is the exact result rounded once to nearest,
  ties to even. The two zeros are one value here; no function of the model divides by a zero or
  reads a sign bit. Operations are executable. Contraction of a product and a sum into one fused
  operation, which compilers may be allowed to do, is not modelled.
\<close>

datatype fp = Fin rat | Pos_inf | Neg_inf | Not_a_number

record fp_format =
  ff_precision :: nat
  ff_min_exponent :: int
  ff_max :: rat

text \<open>\<open>ff_min_exponent\<close> is the exponent of the smallest positive number, \<open>ff_max\<close> the largest.\<close>

definition power2 :: "int \<Rightarrow> rat" where
  "power2 e = (if 0 \<le> e then 2 ^ nat e else 1 / 2 ^ nat (- e))"

definition f32_format :: fp_format where
  "f32_format = \<lparr> ff_precision = 24, ff_min_exponent = - 149, ff_max = (2 ^ 24 - 1) * power2 104 \<rparr>"

definition f64_format :: fp_format where
  "f64_format = \<lparr> ff_precision = 53, ff_min_exponent = - 1074, ff_max = (2 ^ 53 - 1) * power2 971 \<rparr>"

text \<open>Rounding to an integer, ties to even: \<open>std::nearbyint\<close> in the default rounding mode.\<close>

definition round_even :: "rat \<Rightarrow> int" where
  "round_even x =
     (let f = \<lfloor>x\<rfloor>; d = x - of_int f in
      if d < 1 / 2 then f else if d > 1 / 2 then f + 1 else if even f then f else f + 1)"

text \<open>The exponent of the leading bit of a positive rational.\<close>

definition exponent_of :: "rat \<Rightarrow> int" where
  "exponent_of x =
     (case quotient_of x of (n, d) \<Rightarrow>
        let e = int (floorlog 2 (nat n)) - int (floorlog 2 (nat d))
        in if power2 e \<le> x then e else e - 1)"

definition quantum :: "fp_format \<Rightarrow> rat \<Rightarrow> rat" where
  "quantum f x = power2 (max (exponent_of \<bar>x\<bar> - int (ff_precision f) + 1) (ff_min_exponent f))"

definition fp_round :: "fp_format \<Rightarrow> rat \<Rightarrow> fp" where
  "fp_round f x =
     (if x = 0 then Fin 0
      else let q = quantum f x; r = of_int (round_even (x / q)) * q in
        if r > ff_max f then Pos_inf else if r < - ff_max f then Neg_inf else Fin r)"

fun fp_neg :: "fp \<Rightarrow> fp" where
  "fp_neg (Fin a) = Fin (- a)"
| "fp_neg Pos_inf = Neg_inf"
| "fp_neg Neg_inf = Pos_inf"
| "fp_neg Not_a_number = Not_a_number"

definition fp_sign_inf :: "bool \<Rightarrow> fp" where
  "fp_sign_inf negative = (if negative then Neg_inf else Pos_inf)"

fun fp_add :: "fp_format \<Rightarrow> fp \<Rightarrow> fp \<Rightarrow> fp" where
  "fp_add f (Fin a) (Fin b) = fp_round f (a + b)"
| "fp_add f Not_a_number b = Not_a_number"
| "fp_add f a Not_a_number = Not_a_number"
| "fp_add f Pos_inf Neg_inf = Not_a_number"
| "fp_add f Neg_inf Pos_inf = Not_a_number"
| "fp_add f Pos_inf b = Pos_inf"
| "fp_add f Neg_inf b = Neg_inf"
| "fp_add f a Pos_inf = Pos_inf"
| "fp_add f a Neg_inf = Neg_inf"

definition fp_sub :: "fp_format \<Rightarrow> fp \<Rightarrow> fp \<Rightarrow> fp" where
  "fp_sub f a b = fp_add f a (fp_neg b)"

fun fp_sgn :: "fp \<Rightarrow> rat" where
  "fp_sgn (Fin a) = sgn a"
| "fp_sgn Pos_inf = 1"
| "fp_sgn Neg_inf = - 1"
| "fp_sgn Not_a_number = 0"

fun fp_mul :: "fp_format \<Rightarrow> fp \<Rightarrow> fp \<Rightarrow> fp" where
  "fp_mul f (Fin a) (Fin b) = fp_round f (a * b)"
| "fp_mul f a b =
     (if a = Not_a_number \<or> b = Not_a_number \<or> fp_sgn a * fp_sgn b = 0 then Not_a_number
      else fp_sign_inf (fp_sgn a * fp_sgn b < 0))"

text \<open>Division; \<open>Fin a / Fin 0\<close> has no sign of zero here and is never evaluated by the model.\<close>

fun fp_div :: "fp_format \<Rightarrow> fp \<Rightarrow> fp \<Rightarrow> fp" where
  "fp_div f (Fin a) (Fin b) =
     (if b = 0 then (if a = 0 then Not_a_number else fp_sign_inf (a < 0)) else fp_round f (a / b))"
| "fp_div f Not_a_number b = Not_a_number"
| "fp_div f a Not_a_number = Not_a_number"
| "fp_div f (Fin a) b = Fin 0"
| "fp_div f a (Fin b) = fp_sign_inf (fp_sgn a * (if b < 0 then - 1 else 1) < 0)"
| "fp_div f a b = Not_a_number"

fun fp_abs :: "fp \<Rightarrow> fp" where
  "fp_abs (Fin a) = Fin \<bar>a\<bar>"
| "fp_abs Pos_inf = Pos_inf"
| "fp_abs Neg_inf = Pos_inf"
| "fp_abs Not_a_number = Not_a_number"

text \<open>Comparison: any comparison with not-a-number is false.\<close>

fun fp_less :: "fp \<Rightarrow> fp \<Rightarrow> bool" where
  "fp_less (Fin a) (Fin b) \<longleftrightarrow> a < b"
| "fp_less (Fin a) Pos_inf \<longleftrightarrow> True"
| "fp_less Neg_inf (Fin b) \<longleftrightarrow> True"
| "fp_less Neg_inf Pos_inf \<longleftrightarrow> True"
| "fp_less a b \<longleftrightarrow> False"

definition fp_eq :: "fp \<Rightarrow> fp \<Rightarrow> bool" where
  "fp_eq a b \<longleftrightarrow> a \<noteq> Not_a_number \<and> a = b"

definition fp_finite :: "fp \<Rightarrow> bool" where
  "fp_finite a \<longleftrightarrow> (case a of Fin x \<Rightarrow> True | _ \<Rightarrow> False)"

text \<open>\<open>std::max(a, b)\<close> is \<open>(a < b) ? b : a\<close>.\<close>

definition fp_max :: "fp \<Rightarrow> fp \<Rightarrow> fp" where
  "fp_max a b = (if fp_less a b then b else a)"

fun fp_nearbyint :: "fp \<Rightarrow> fp" where
  "fp_nearbyint (Fin a) = Fin (of_int (round_even a))"
| "fp_nearbyint a = a"

text \<open>Conversions. \<open>static_cast<int>\<close> of a value that does not fit \<open>int\<close> is undefined in C++; it is
  the integer indefinite value \<open>- 2 ^ 31\<close> of the x86 conversion instruction here.\<close>

definition fp_of_int :: "fp_format \<Rightarrow> int \<Rightarrow> fp" where
  "fp_of_int f n = fp_round f (of_int n)"

fun fp_convert :: "fp_format \<Rightarrow> fp \<Rightarrow> fp" where
  "fp_convert f (Fin a) = fp_round f a"
| "fp_convert f a = a"

definition truncate_rat :: "rat \<Rightarrow> int" where
  "truncate_rat a = (if 0 \<le> a then \<lfloor>a\<rfloor> else \<lceil>a\<rceil>)"

definition int_of_fp :: "fp \<Rightarrow> int" where
  "int_of_fp a =
     (case a of
        Fin x \<Rightarrow> (let n = truncate_rat x in if - (2 ^ 31) \<le> n \<and> n < 2 ^ 31 then n else - (2 ^ 31))
      | _ \<Rightarrow> - (2 ^ 31))"

section \<open>Facts\<close>

lemma round_even_nearest: "\<bar>x - of_int (round_even x)\<bar> \<le> 1 / 2"
proof -
  have "of_int \<lfloor>x\<rfloor> \<le> x" "x < of_int \<lfloor>x\<rfloor> + 1"
    by linarith+
  then show ?thesis
    by (auto simp: round_even_def Let_def abs_le_iff)
qed

lemma round_even_of_int [simp]: "round_even (of_int n) = n"
  by (simp add: round_even_def)

lemma round_even_mono: "x \<le> y \<Longrightarrow> round_even x \<le> round_even y"
proof -
  assume le: "x \<le> y"
  then have "\<lfloor>x\<rfloor> \<le> \<lfloor>y\<rfloor>"
    by (rule floor_mono)
  then consider "\<lfloor>x\<rfloor> = \<lfloor>y\<rfloor>" | "\<lfloor>x\<rfloor> + 1 \<le> \<lfloor>y\<rfloor>"
    by linarith
  then show ?thesis
  proof cases
    case 1
    with le show ?thesis
      by (auto simp: round_even_def Let_def)
  next
    case 2
    have "round_even x \<le> \<lfloor>x\<rfloor> + 1" "\<lfloor>y\<rfloor> \<le> round_even y"
      by (simp_all add: round_even_def Let_def)
    with 2 show ?thesis by linarith
  qed
qed

lemma truncate_of_int [simp]: "truncate_rat (of_int n) = n"
  by (simp add: truncate_rat_def)

lemma power2_pos [simp]: "0 < power2 e"
  by (simp add: power2_def)

text \<open>An integer within the precision is represented exactly.\<close>

lemma exponent_of_int:
  assumes "0 < n" and "n < 2 ^ p"
  shows "exponent_of (of_int n) \<le> int p - 1"
proof -
  have q: "quotient_of (of_int n) = (n, 1)"
    by simp
  have "floorlog 2 (nat n) \<le> p"
    using assms by (intro floorlog_leI) (simp_all add: nat_less_iff)
  moreover have "floorlog 2 1 = 1"
    by (simp add: floorlog_def)
  ultimately show ?thesis
    by (simp add: exponent_of_def q Let_def)
qed

lemma fp_round_int:
  assumes "\<bar>n\<bar> < 2 ^ ff_precision f" and "ff_min_exponent f \<le> 0" and "of_int \<bar>n\<bar> \<le> ff_max f"
  shows "fp_of_int f n = Fin (of_int n)"
proof (cases "n = 0")
  case False
  define m where "m = max (exponent_of \<bar>of_int n\<bar> - int (ff_precision f) + 1) (ff_min_exponent f)"
  have "exponent_of (of_int \<bar>n\<bar>) \<le> int (ff_precision f) - 1"
    using False assms(1) by (intro exponent_of_int) simp_all
  then have "m \<le> 0"
    using assms(2) by (simp add: m_def)
  then have q: "1 / power2 m = of_int (2 ^ nat (- m))"
    by (simp add: power2_def)
  have "(of_int n :: rat) / power2 m = of_int (n * 2 ^ nat (- m))"
    using q by (simp add: divide_inverse)
  then have "of_int (round_even (of_int n / power2 m)) = (of_int n :: rat) / power2 m"
    by (simp only: round_even_of_int)
  then have "of_int (round_even (of_int n / power2 m)) * power2 m = (of_int n :: rat)"
    by (simp add: power2_def)
  then show ?thesis
    using False assms(3) by (simp add: fp_of_int_def fp_round_def quantum_def m_def [symmetric] Let_def abs_le_iff not_less)
qed (simp add: fp_of_int_def fp_round_def)

end
