(* ===== verification/Safetensors.thy ===== *)
theory Safetensors
  imports ArtifactRead Qwen38Spec Ieee
begin

text \<open>
  \<^verbatim>\<open>src/safetensors.cpp\<close>: opening a safetensors file, the index of a sharded checkpoint and the
  validation of a model directory. The JSON parser (simdjson) is not part of the repository: it is
  an argument that gives the document as a tree or an error text; the typed accessors of the tree
  behave as its documentation says (wrong type, missing key and out-of-range are errors). The
  operating system is an argument too, as in \<open>ArtifactRead\<close>.
\<close>

section \<open>Documents\<close>

datatype json =
    JObject "(string \<times> json) list"
  | JArray "json list"
  | JString string
  | JUnsigned u64
  | JNegative int
  | JDouble fp
  | JBool bool
  | JNull

record simdjson =
  js_parse :: "string \<Rightarrow> string + json"
  js_load :: "string \<Rightarrow> string + json"
  js_incorrect_type :: string
  js_no_such_field :: string
  js_out_of_range :: string

definition get_object :: "simdjson \<Rightarrow> json \<Rightarrow> string + (string \<times> json) list" where
  "get_object js j = (case j of JObject fs \<Rightarrow> Inr fs | _ \<Rightarrow> Inl (js_incorrect_type js))"

definition get_array :: "simdjson \<Rightarrow> json \<Rightarrow> string + json list" where
  "get_array js j = (case j of JArray xs \<Rightarrow> Inr xs | _ \<Rightarrow> Inl (js_incorrect_type js))"

definition get_string :: "simdjson \<Rightarrow> json \<Rightarrow> string + string" where
  "get_string js j = (case j of JString s \<Rightarrow> Inr s | _ \<Rightarrow> Inl (js_incorrect_type js))"

definition get_u64 :: "simdjson \<Rightarrow> json \<Rightarrow> string + u64" where
  "get_u64 js j =
     (case j of JUnsigned n \<Rightarrow> Inr n | JNegative n \<Rightarrow> Inl (js_out_of_range js) | _ \<Rightarrow> Inl (js_incorrect_type js))"

definition get_double :: "simdjson \<Rightarrow> json \<Rightarrow> string + fp" where
  "get_double js j =
     (case j of
        JDouble x \<Rightarrow> Inr x
      | JUnsigned n \<Rightarrow> Inr (fp_of_int f64_format (uint n))
      | JNegative n \<Rightarrow> Inr (fp_of_int f64_format n)
      | _ \<Rightarrow> Inl (js_incorrect_type js))"

definition get_field :: "simdjson \<Rightarrow> string \<Rightarrow> (string \<times> json) list \<Rightarrow> string + json" where
  "get_field js key fs =
     (case find (\<lambda>(k, v). k = key) fs of Some (k, v) \<Rightarrow> Inr v | None \<Rightarrow> Inl (js_no_such_field js))"

fun json_bind :: "string + 'a \<Rightarrow> ('a \<Rightarrow> string + 'b) \<Rightarrow> string + 'b" where
  "json_bind (Inl e) f = Inl e"
| "json_bind (Inr x) f = f x"

section \<open>The code\<close>

datatype source_dtype = src_bf16 | src_f16 | src_f32 | src_u8 | src_i8 | src_i32 | src_i64

record safe_tensor_descriptor =
  sd_name :: string
  sd_dtype :: source_dtype
  sd_shape :: "u64 list"
  sd_file_offset :: u64
  sd_bytes :: u64

record safe_tensor_file =
  sf_mapping :: bytes
  sf_tensors :: "safe_tensor_descriptor list"

record safe_tensor_index =
  ix_tensor_bytes :: u64
  ix_weight_map :: "(string \<times> string) list"
  ix_shards :: "string list"

record source_validation_summary =
  sv_tensor_count :: nat
  sv_shard_count :: nat
  sv_tensor_bytes :: u64

definition json_error :: "string \<Rightarrow> string \<Rightarrow> status" where
  "json_error context error = Status corrupt_artifact (context @ '': '' @ error)"

fun or_json_error :: "string \<Rightarrow> string + 'a \<Rightarrow> 'a result" where
  "or_json_error context (Inl e) = Inl (json_error context e)"
| "or_json_error context (Inr x) = Inr x"

definition parse_dtype :: "string \<Rightarrow> source_dtype result" where
  "parse_dtype v =
     (if v = ''BF16'' then Inr src_bf16
      else if v = ''F16'' then Inr src_f16
      else if v = ''F32'' then Inr src_f32
      else if v = ''U8'' then Inr src_u8
      else if v = ''I8'' then Inr src_i8
      else if v = ''I32'' then Inr src_i32
      else if v = ''I64'' then Inr src_i64
      else Err unsupported (''unsupported safetensors dtype: '' @ v))"

fun source_dtype_name :: "source_dtype \<Rightarrow> string" where
  "source_dtype_name src_bf16 = ''BF16''"
| "source_dtype_name src_f16 = ''F16''"
| "source_dtype_name src_f32 = ''F32''"
| "source_dtype_name src_u8 = ''U8''"
| "source_dtype_name src_i8 = ''I8''"
| "source_dtype_name src_i32 = ''I32''"
| "source_dtype_name src_i64 = ''I64''"

fun source_dtype_bytes :: "source_dtype \<Rightarrow> u64" where
  "source_dtype_bytes src_bf16 = 2"
| "source_dtype_bytes src_f16 = 2"
| "source_dtype_bytes src_f32 = 4"
| "source_dtype_bytes src_i32 = 4"
| "source_dtype_bytes src_u8 = 1"
| "source_dtype_bytes src_i8 = 1"
| "source_dtype_bytes src_i64 = 8"

text \<open>\<open>safe_product\<close>; \<open>None\<close> is the result \<open>false\<close>.\<close>

fun safe_product :: "u64 list \<Rightarrow> u64 \<Rightarrow> u64 option" where
  "safe_product [] product = Some product"
| "safe_product (dimension # shape) product =
     (if dimension \<noteq> 0 \<and> product > (- 1) div dimension then None
      else safe_product shape (product * dimension))"

definition safe_shard_name :: "string \<Rightarrow> bool" where
  "safe_shard_name name \<longleftrightarrow>
     \<not> (name = [] \<or> find_sub ''/'' name \<noteq> None \<or> find_sub ''..'' name \<noteq> None)
     \<and> ends_with ''.safetensors'' name"

definition safetensors_header_bytes :: "bytes \<Rightarrow> u64" where
  "safetensors_header_bytes mapping =
     foldl (\<lambda>h byte. h OR push_bit (byte * 8) (ucast (mapping ! byte))) 0 [0..<8]"

definition maximum_header_bytes :: u64 where
  "maximum_header_bytes = 128 * 1024 * 1024"

text \<open>One tensor of the header: the check of its byte range, and all the checks. The result is the
  descriptor and the range.\<close>

definition place_tensor ::
  "u64 \<Rightarrow> u64 \<Rightarrow> string \<Rightarrow> source_dtype \<Rightarrow> u64 list \<Rightarrow> u64 list \<Rightarrow> (safe_tensor_descriptor \<times> u64 \<times> u64) result"
where
  "place_tensor data_base mapped_bytes name dtype shape offsets =
     (if length offsets \<noteq> 2 \<or> offsets ! 1 < offsets ! 0
      then Err corrupt_artifact (''invalid tensor offsets: '' @ name)
      else (case safe_product shape (source_dtype_bytes dtype) of
        None \<Rightarrow> Err corrupt_artifact (''tensor shape, dtype, and byte range disagree: '' @ name)
      | Some expected_bytes \<Rightarrow>
          if expected_bytes \<noteq> offsets ! 1 - offsets ! 0
            \<or> \<not> range_valid (data_base + offsets ! 0) expected_bytes mapped_bytes
          then Err corrupt_artifact (''tensor shape, dtype, and byte range disagree: '' @ name)
          else Inr (\<lparr> sd_name = name, sd_dtype = dtype, sd_shape = shape,
                      sd_file_offset = data_base + offsets ! 0, sd_bytes = expected_bytes \<rparr>,
                    offsets ! 0, offsets ! 1)))"

definition read_tensor ::
  "simdjson \<Rightarrow> u64 \<Rightarrow> u64 \<Rightarrow> string \<Rightarrow> json \<Rightarrow> (safe_tensor_descriptor \<times> u64 \<times> u64) result" where
  "read_tensor js data_base mapped_bytes name field_value =
     result_bind (or_json_error ''tensor descriptor must be an object'' (get_object js field_value)) (\<lambda>descriptor.
     result_bind (or_json_error ''tensor dtype is missing or invalid''
       (json_bind (get_field js ''dtype'' descriptor) (get_string js))) (\<lambda>dtype_text.
     result_bind (parse_dtype dtype_text) (\<lambda>dtype.
     result_bind (or_json_error ''tensor shape is missing or invalid''
       (json_bind (get_field js ''shape'' descriptor) (get_array js))) (\<lambda>shape_json.
     result_bind (result_all (\<lambda>j. or_json_error ''tensor shape contains a non-integer'' (get_u64 js j)) shape_json) (\<lambda>shape.
     result_bind (or_json_error ''tensor data_offsets are missing or invalid''
       (json_bind (get_field js ''data_offsets'' descriptor) (get_array js))) (\<lambda>offsets_json.
     result_bind (result_all (\<lambda>j. or_json_error ''tensor offset is not an integer'' (get_u64 js j)) offsets_json) (\<lambda>offsets.
       place_tensor data_base mapped_bytes name dtype shape offsets)))))))"

fun read_tensors ::
  "simdjson \<Rightarrow> u64 \<Rightarrow> u64 \<Rightarrow> string list \<Rightarrow> (string \<times> json) list \<Rightarrow> (safe_tensor_descriptor \<times> u64 \<times> u64) list result"
where
  "read_tensors js data_base mapped_bytes names [] = Inr []"
| "read_tensors js data_base mapped_bytes names ((name, v) # members) =
     (if name = ''__metadata__'' then read_tensors js data_base mapped_bytes names members
      else if name \<in> set names then Err corrupt_artifact (''duplicate safetensors name: '' @ name)
      else
        result_bind (read_tensor js data_base mapped_bytes name v) (\<lambda>t.
        result_bind (read_tensors js data_base mapped_bytes (name # names) members) (\<lambda>ts.
          Inr (t # ts))))"

definition safetensors_tensors :: "simdjson \<Rightarrow> bytes \<Rightarrow> u64 \<Rightarrow> safe_tensor_file result" where
  "safetensors_tensors js mapping header_bytes =
     (let header = string_of_bytes (slice 8 (unat header_bytes) mapping);
          data_base = 8 + header_bytes in
      result_bind (or_json_error ''invalid safetensors header JSON'' (js_parse js header)) (\<lambda>root.
      result_bind (or_json_error ''safetensors header must be an object'' (get_object js root)) (\<lambda>members.
      result_bind (read_tensors js data_base (of_nat (length mapping)) [] members) (\<lambda>ts.
        if ranges_overlap (sort (map snd ts))
        then Err corrupt_artifact ''safetensors data ranges overlap''
        else Inr \<lparr> sf_mapping = mapping, sf_tensors = sort_key sd_name (map fst ts) \<rparr>))))"

definition safetensors_open :: "simdjson \<Rightarrow> string \<Rightarrow> file_access \<Rightarrow> safe_tensor_file result" where
  "safetensors_open js path access =
     (case access of
        Open_fails e \<Rightarrow> Inl (errno_status ''cannot open'' path e)
      | Stat_fails e \<Rightarrow> Inl (errno_status ''cannot stat'' path e)
      | Map_fails st_size e \<Rightarrow>
          if st_size < 10 then Err corrupt_artifact ''safetensors file is too small''
          else Inl (errno_status ''cannot map'' path e)
      | Mapped mapping \<Rightarrow>
          if length mapping < 10 then Err corrupt_artifact ''safetensors file is too small''
          else
            let header_bytes = safetensors_header_bytes mapping in
            if header_bytes < 2 \<or> header_bytes > maximum_header_bytes
              \<or> \<not> range_valid 8 header_bytes (of_nat (length mapping))
            then Err corrupt_artifact ''invalid safetensors header length''
            else safetensors_tensors js mapping header_bytes)"

definition safetensors_find :: "safe_tensor_file \<Rightarrow> string \<Rightarrow> safe_tensor_descriptor option" where
  "safetensors_find f name = find_by_name sd_name (sf_tensors f) name"

definition safetensors_data :: "safe_tensor_file \<Rightarrow> safe_tensor_descriptor \<Rightarrow> bytes" where
  "safetensors_data f t = slice (unat (sd_file_offset t)) (unat (sd_bytes t)) (sf_mapping f)"

text \<open>\<open>static_cast<std::uint64_t>\<close> of a \<open>double\<close>; beyond the range, which the check below leaves
  possible only for \<open>2 ^ 64\<close> itself, it is undefined in C++ and zero here.\<close>

definition u64_of_fp :: "fp \<Rightarrow> u64" where
  "u64_of_fp x = (case x of Fin a \<Rightarrow> of_int (truncate_rat a) | _ \<Rightarrow> 0)"

text \<open>The two maps of the index: traversal of a \<open>std::map\<close> or \<open>std::set\<close> is in order of the keys.\<close>

fun read_weight_map ::
  "simdjson \<Rightarrow> (string \<times> string) list \<Rightarrow> (string \<times> json) list \<Rightarrow> (string \<times> string) list result"
where
  "read_weight_map js weight_map [] = Inr weight_map"
| "read_weight_map js weight_map ((key, v) # members) =
     result_bind (or_json_error ''weight_map shard value is invalid'' (get_string js v)) (\<lambda>shard.
       if \<not> safe_shard_name shard
       then Err corrupt_artifact (''unsafe shard name in index: '' @ shard)
       else if key \<in> fst ` set weight_map
       then Err corrupt_artifact (''duplicate tensor in index: '' @ key)
       else read_weight_map js (weight_map @ [(key, shard)]) members)"

text \<open>The largest \<open>uint64_t\<close> as a \<open>double\<close> is \<open>2 ^ 64\<close>.\<close>

definition read_total_size :: "simdjson \<Rightarrow> (string \<times> json) list \<Rightarrow> u64 result" where
  "read_total_size js object =
     (case json_bind (json_bind (json_bind (get_field js ''metadata'' object) (get_object js))
              (get_field js ''total_size'')) (get_double js) of
        Inl e \<Rightarrow> Err corrupt_artifact ''index metadata.total_size is invalid''
      | Inr total_size \<Rightarrow>
          if fp_less total_size (Fin 0) \<or> fp_less (Fin (2 ^ 64)) total_size
          then Err corrupt_artifact ''index metadata.total_size is invalid''
          else Inr (u64_of_fp total_size))"

definition load_safetensors_index :: "simdjson \<Rightarrow> string \<Rightarrow> safe_tensor_index result" where
  "load_safetensors_index js path =
     result_bind (or_json_error ''cannot parse safetensors index'' (js_load js path)) (\<lambda>root.
     result_bind (or_json_error ''index root'' (get_object js root)) (\<lambda>object.
     result_bind (read_total_size js object) (\<lambda>tensor_bytes.
     result_bind (or_json_error ''index weight_map is invalid''
       (json_bind (get_field js ''weight_map'' object) (get_object js))) (\<lambda>members.
     result_bind (read_weight_map js [] members) (\<lambda>weight_map.
       Inr \<lparr> ix_tensor_bytes = tensor_bytes,
             ix_weight_map = sort_key fst weight_map,
             ix_shards = string_set (map snd weight_map) \<rparr>)))))"

text \<open>\<open>std::filesystem::path::operator/\<close>.\<close>

definition path_join :: "string \<Rightarrow> string \<Rightarrow> string" where
  "path_join dir_path name =
     (if starts_with ''/'' name then name
      else if dir_path = [] \<or> last dir_path = CHR ''/'' then dir_path @ name
      else dir_path @ ''/'' @ name)"

text \<open>One tensor of a shard, then the shards in order; the state is the set of observed names and
  the sum of their bytes.\<close>

definition check_tensor ::
  "(string \<times> string) list \<Rightarrow> string \<Rightarrow> string list \<times> u64 \<Rightarrow> safe_tensor_descriptor \<Rightarrow> (string list \<times> u64) result"
where
  "check_tensor weight_map shard_name observed tensor =
     (if map_of weight_map (sd_name tensor) \<noteq> Some shard_name
      then Err corrupt_artifact (''shard tensor is absent or mapped to a different shard: '' @ sd_name tensor)
      else if sd_dtype tensor \<noteq> src_bf16
      then Err unsupported (''official source tensor is not BF16: '' @ sd_name tensor)
      else if (case qwen38_source_tensor_spec (sd_name tensor) of
                 None \<Rightarrow> True | Some expected \<Rightarrow> st_shape expected \<noteq> sd_shape tensor)
      then Err corrupt_artifact (''official source tensor has an unexpected shape: '' @ sd_name tensor)
      else if sd_name tensor \<in> set (fst observed)
      then Err corrupt_artifact (''tensor occurs in multiple shards: '' @ sd_name tensor)
      else Inr (sd_name tensor # fst observed, snd observed + sd_bytes tensor))"

definition check_shard ::
  "simdjson \<Rightarrow> (string \<Rightarrow> file_access) \<Rightarrow> string \<Rightarrow> (string \<times> string) list \<Rightarrow> string list \<times> u64 \<Rightarrow> string
    \<Rightarrow> (string list \<times> u64) result"
where
  "check_shard js access dir_path weight_map observed shard_name =
     (let path = path_join dir_path shard_name in
      result_bind (safetensors_open js path (access path)) (\<lambda>shard.
        result_foldl (check_tensor weight_map shard_name) observed (sf_tensors shard)))"

definition validate_qwen38_model_directory ::
  "simdjson \<Rightarrow> (string \<Rightarrow> file_access) \<Rightarrow> string \<Rightarrow> bool \<Rightarrow> bool \<Rightarrow> source_validation_summary result"
where
  "validate_qwen38_model_directory js access dir_path include_vision include_mtp =
     result_bind (load_safetensors_index js (path_join dir_path ''model.safetensors.index.json'')) (\<lambda>index.
       let inventory_status = validate_qwen38_source_inventory (map fst (ix_weight_map index)) include_vision include_mtp in
       if \<not> status_ok inventory_status then Inl inventory_status
       else
         result_bind (result_foldl (check_shard js access dir_path (ix_weight_map index)) ([], 0) (ix_shards index))
           (\<lambda>(observed, observed_bytes).
             if length observed \<noteq> length (ix_weight_map index) \<or> observed_bytes \<noteq> ix_tensor_bytes index
             then Err corrupt_artifact ''shard contents do not match index tensor count or total_size''
             else Inr \<lparr> sv_tensor_count = length observed, sv_shard_count = length (ix_shards index),
                        sv_tensor_bytes = observed_bytes \<rparr>))"

section \<open>Opening a file\<close>

lemma or_json_error_Inr [simp]: "or_json_error c r = Inr x \<longleftrightarrow> r = Inr x"
  by (cases r) simp_all

lemma max_u64_word: "unat (- 1 :: u64) = 2 ^ 64 - 1"
  by (simp add: unsigned_minus_1_eq_mask mask_eq_exp_minus_1)

lemma safe_product_nat:
  "safe_product shape p = Some q \<Longrightarrow> unat q = unat p * prod_list (map unat shape)"
proof (induction shape p rule: safe_product.induct)
  case (2 d shape p)
  have rest: "unat q = unat (p * d) * prod_list (map unat shape)"
    using 2 by (simp split: if_splits)
  have "unat (p * d) = unat p * unat d"
  proof (cases "d = 0")
    case False
    then have "unat p \<le> (2 ^ 64 - 1) div unat d"
      using 2(2) max_u64_word by (simp add: word_less_nat_alt unat_div not_less split: if_splits)
    moreover have "0 < unat d"
      using False by (simp add: unat_gt_0)
    ultimately have "unat p * unat d \<le> 2 ^ 64 - 1"
      by (metis less_eq_div_iff_mult_less_eq)
    then show ?thesis
      by (intro unat_mult_lem [THEN iffD1]) simp
  qed simp
  with rest show ?case
    by (simp add: mult.assoc)
qed simp

lemma read_tensor_Inr:
  assumes "read_tensor js data_base mapped_bytes name v = Inr (d, start, stop)"
  shows "sd_name d = name" and "start \<le> stop" and "sd_file_offset d = data_base + start"
    and "sd_bytes d = stop - start" and "range_valid (sd_file_offset d) (sd_bytes d) mapped_bytes"
    and "unat (sd_bytes d) = unat (source_dtype_bytes (sd_dtype d)) * prod_list (map unat (sd_shape d))"
proof -
  obtain dtype shape offsets where "place_tensor data_base mapped_bytes name dtype shape offsets = Inr (d, start, stop)"
    using assms by (auto simp: read_tensor_def)
  then show "sd_name d = name" and "start \<le> stop" and "sd_file_offset d = data_base + start"
    and "sd_bytes d = stop - start" and "range_valid (sd_file_offset d) (sd_bytes d) mapped_bytes"
    and "unat (sd_bytes d) = unat (source_dtype_bytes (sd_dtype d)) * prod_list (map unat (sd_shape d))"
    by (auto simp: place_tensor_def safe_product_nat not_less split: if_splits option.splits)
qed

lemma read_tensors_Inr:
  assumes "read_tensors js data_base mapped_bytes names members = Inr ts"
  shows "distinct (map (sd_name \<circ> fst) ts) \<and> set names \<inter> set (map (sd_name \<circ> fst) ts) = {}
    \<and> (\<forall>t \<in> set ts. \<exists>v. read_tensor js data_base mapped_bytes (sd_name (fst t)) v = Inr t)"
  using assms
proof (induction js data_base mapped_bytes names members arbitrary: ts rule: read_tensors.induct)
  case (2 js data_base mapped_bytes names name v members)
  show ?case
  proof (cases "name = ''__metadata__''")
    case True
    with 2 show ?thesis
      by simp
  next
    case False
    with 2(3) obtain t ts' where new: "name \<notin> set names"
      and t: "read_tensor js data_base mapped_bytes name v = Inr t"
      and ts': "read_tensors js data_base mapped_bytes (name # names) members = Inr ts'"
      and ts: "ts = t # ts'"
      by (auto split: if_splits)
    have "sd_name (fst t) = name"
      using read_tensor_Inr(1) [of js data_base mapped_bytes name v "fst t" "fst (snd t)" "snd (snd t)"] t
      by simp
    with 2(2) [OF False new ts'] new t ts show ?thesis
      by auto
  qed
qed simp

definition tensor_region :: "safe_tensor_descriptor \<Rightarrow> nat set" where
  "tensor_region t = {unat (sd_file_offset t)..<unat (sd_file_offset t) + unat (sd_bytes t)}"

text \<open>Adding the base address may wrap, but it moves both ranges alike, so disjoint ranges of the
  header give disjoint regions of the file.\<close>

lemma tensor_regions_disjoint:
  assumes "read_tensor js base m n1 v1 = Inr (d1, a1, b1)" and "read_tensor js base m n2 v2 = Inr (d2, a2, b2)"
    and "range_set (a1, b1) \<inter> range_set (a2, b2) = {}"
  shows "tensor_region d1 \<inter> tensor_region d2 = {}"
proof -
  have part: "unat (a + of_nat k) \<in> range_set (a, b)"
    if "a \<le> b" "k < unat (b - a)" for a b :: u64 and k
  proof -
    have "unat (b - a) = unat b - unat a"
      using that(1) by (simp add: unat_sub word_le_nat_alt)
    then have k: "unat a + k < unat b"
      using that(2) by simp
    moreover have "unat b < 2 ^ 64"
      using unsigned_less [of b] by simp
    ultimately have "unat (a + of_nat k) = unat a + k"
      using u64_of_nat_add [of "unat a" k] by simp
    with k show ?thesis
      by (simp add: range_set_def)
  qed
  show ?thesis
  proof (rule ccontr)
    assume "tensor_region d1 \<inter> tensor_region d2 \<noteq> {}"
    then obtain p where "p \<in> tensor_region d1" "p \<in> tensor_region d2"
      by blast
    note t1 = read_tensor_Inr [OF assms(1)] and t2 = read_tensor_Inr [OF assms(2)]
    obtain k1 where k1: "p = unat (base + a1) + k1" "k1 < unat (b1 - a1)"
      using \<open>p \<in> tensor_region d1\<close> t1(3,4) by (auto simp: tensor_region_def dest: le_Suc_ex)
    obtain k2 where k2: "p = unat (base + a2) + k2" "k2 < unat (b2 - a2)"
      using \<open>p \<in> tensor_region d2\<close> t2(3,4) by (auto simp: tensor_region_def dest: le_Suc_ex)
    have "of_nat p = base + a1 + of_nat k1"
      by (subst k1(1)) simp
    moreover have "of_nat p = base + a2 + of_nat k2"
      by (subst k2(1)) simp
    ultimately have "base + a1 + of_nat k1 = base + a2 + of_nat k2"
      by (rule trans [OF sym])
    then have "a1 + of_nat k1 = a2 + of_nat k2"
      unfolding add.assoc by (rule add_left_imp_eq)
    with part [OF t1(2) k1(2)] part [OF t2(2) k2(2)] assms(3) show False
      by (metis IntI empty_iff)
  qed
qed

lemma safetensors_open_Inr:
  assumes "safetensors_open js path access = Inr f"
  obtains m ts base members where "access = Mapped m" and "sf_mapping f = m"
    and "read_tensors js base (of_nat (length m)) [] members = Inr ts"
    and "\<not> ranges_overlap (sort (map snd ts))" and "sf_tensors f = sort_key sd_name (map fst ts)"
proof (cases access)
  case (Mapped m)
  have "safetensors_tensors js m (safetensors_header_bytes m) = Inr f"
    using assms Mapped by (simp add: safetensors_open_def Let_def split: if_splits)
  then show ?thesis
    using that [OF Mapped] by (auto simp: safetensors_tensors_def Let_def split: if_splits)
qed (use assms in \<open>simp_all add: safetensors_open_def split: if_splits\<close>)

lemma safetensors_open_safe:
  assumes "safetensors_open js path access = Inr f" and "length (sf_mapping f) < 2 ^ 64"
  shows "access = Mapped (sf_mapping f)"
    and "sorted (map sd_name (sf_tensors f))" and "distinct (map sd_name (sf_tensors f))"
    and "t \<in> set (sf_tensors f) \<Longrightarrow> tensor_region t \<subseteq> {..<length (sf_mapping f)}
      \<and> unat (sd_bytes t) = unat (source_dtype_bytes (sd_dtype t)) * prod_list (map unat (sd_shape t))"
    and "sorted_wrt (\<lambda>a b. tensor_region a \<inter> tensor_region b = {}) (sf_tensors f)"
proof -
  obtain m ts base members where f: "access = Mapped m" "sf_mapping f = m"
    and ts: "read_tensors js base (of_nat (length m)) [] members = Inr ts"
    and overlap: "\<not> ranges_overlap (sort (map snd ts))"
    and tensors: "sf_tensors f = sort_key sd_name (map fst ts)"
    using safetensors_open_Inr [OF assms(1)] by metis
  note r = read_tensors_Inr [OF ts]
  show "access = Mapped (sf_mapping f)"
    using f by simp
  show "sorted (map sd_name (sf_tensors f))"
    unfolding tensors by (rule sorted_sort_key)
  have "distinct (sort (map sd_name (map fst ts)))"
    using r by (simp add: comp_def)
  then show "distinct (map sd_name (sf_tensors f))"
    unfolding tensors map_sort_key .
  show "tensor_region t \<subseteq> {..<length (sf_mapping f)}
      \<and> unat (sd_bytes t) = unat (source_dtype_bytes (sd_dtype t)) * prod_list (map unat (sd_shape t))"
    if "t \<in> set (sf_tensors f)"
  proof -
    from that obtain x where x: "x \<in> set ts" "t = fst x"
      by (auto simp: tensors)
    with r obtain v where "read_tensor js base (of_nat (length m)) (sd_name t) v = Inr (t, fst (snd x), snd (snd x))"
      by fastforce
    note t = read_tensor_Inr [OF this]
    have "unat (sd_file_offset t) + unat (sd_bytes t) \<le> length m"
      using t(5) assms(2) by (simp add: range_valid_nat f(2) u64_of_nat)
    then show ?thesis
      using t(6) by (auto simp: tensor_region_def f(2))
  qed
  have "list_all (\<lambda>r. fst r \<le> snd r) (map snd ts)"
    using r read_tensor_Inr(2) by (force simp: list_all_iff)
  then have "sorted_wrt (\<lambda>x y. range_set (snd x) \<inter> range_set (snd y) = {}) ts"
    using sorted_ranges_disjoint [OF overlap] by (simp add: sorted_wrt_map)
  then have "sorted_wrt (\<lambda>x y. tensor_region (fst x) \<inter> tensor_region (fst y) = {}) ts"
  proof (rule sorted_wrt_mono_rel [rotated])
    fix x y assume xy: "x \<in> set ts" "y \<in> set ts" "range_set (snd x) \<inter> range_set (snd y) = {}"
    obtain v where "read_tensor js base (of_nat (length m)) (sd_name (fst x)) v = Inr (fst x, fst (snd x), snd (snd x))"
      using r xy(1) by fastforce
    moreover obtain w where "read_tensor js base (of_nat (length m)) (sd_name (fst y)) w = Inr (fst y, fst (snd y), snd (snd y))"
      using r xy(2) by fastforce
    ultimately show "tensor_region (fst x) \<inter> tensor_region (fst y) = {}"
      by (rule tensor_regions_disjoint) (use xy(3) in simp)
  qed
  then have "sorted_wrt (\<lambda>a b. tensor_region a \<inter> tensor_region b = {}) (map fst ts)"
    by (simp add: sorted_wrt_map)
  then show "sorted_wrt (\<lambda>a b. tensor_region a \<inter> tensor_region b = {}) (sf_tensors f)"
    unfolding tensors by (rule sorted_wrt_mset_eq [rotated 2]) (auto simp: symp_def)
qed

text \<open>
  C11. An opened safetensors file is safe to read: its tensors are sorted by distinct names, every
  tensor lies inside the mapped file, its length is the exact product of its shape and element size
  (no overflow), and no two tensors share a byte.
\<close>

theorem safetensors_open_is_safe:
  assumes "safetensors_open js path access = Inr f" and "length (sf_mapping f) < 2 ^ 64"
  shows "access = Mapped (sf_mapping f)
    \<and> sorted (map sd_name (sf_tensors f)) \<and> distinct (map sd_name (sf_tensors f))
    \<and> (\<forall>t \<in> set (sf_tensors f). tensor_region t \<subseteq> {..<length (sf_mapping f)}
         \<and> unat (sd_bytes t) = unat (source_dtype_bytes (sd_dtype t)) * prod_list (map unat (sd_shape t)))
    \<and> sorted_wrt (\<lambda>a b. tensor_region a \<inter> tensor_region b = {}) (sf_tensors f)"
  using safetensors_open_safe [OF assms] by blast

text \<open>The tensors of an opened file are a table looked up by name.\<close>

definition names_in_order :: "safe_tensor_file \<Rightarrow> bool" where
  "names_in_order f \<longleftrightarrow> sorted (map sd_name (sf_tensors f)) \<and> distinct (map sd_name (sf_tensors f))"

lemma opened_in_order:
  assumes "safetensors_open js path access = Inr f"
  shows "names_in_order f"
proof -
  obtain m :: bytes and ts base members
    where ts: "read_tensors js base (of_nat (length m)) [] members = Inr ts"
    and tensors: "sf_tensors f = sort_key sd_name (map fst ts)"
    by (rule safetensors_open_Inr [OF assms]) (rule that)
  have "distinct (sort (map sd_name (map fst ts)))"
    using read_tensors_Inr [OF ts] by (simp add: comp_def)
  then show ?thesis
    unfolding names_in_order_def tensors map_sort_key by simp
qed

interpretation tensor_table: name_table sd_name sf_tensors names_in_order safetensors_find
  by unfold_locales (simp_all add: names_in_order_def safetensors_find_def)

text \<open>
  \<open>find\<close> on an opened file returns a tensor exactly when the file has a tensor of that name, and
  returns that tensor.
\<close>

theorem safetensors_find_exact:
  assumes "safetensors_open js path access = Inr f"
  shows "safetensors_find f name = Some t \<longleftrightarrow> t \<in> set (sf_tensors f) \<and> sd_name t = name"
  by (rule tensor_table.lookup_Some [OF opened_in_order [OF assms]])

section \<open>The index\<close>

lemma read_weight_map_Inr:
  assumes "read_weight_map js wm members = Inr wm'"
  shows "(distinct (map fst wm) \<longrightarrow> distinct (map fst wm'))
    \<and> ((\<forall>p \<in> set wm. safe_shard_name (snd p)) \<longrightarrow> (\<forall>p \<in> set wm'. safe_shard_name (snd p)))"
  using assms
proof (induction js wm members arbitrary: wm' rule: read_weight_map.induct)
  case (2 js wm key v members)
  then obtain shard where shard: "or_json_error ''weight_map shard value is invalid'' (get_string js v) = Inr shard"
    and ok: "\<not> \<not> safe_shard_name shard" "key \<notin> fst ` set wm"
    and rest: "read_weight_map js (wm @ [(key, shard)]) members = Inr wm'"
    by (auto split: if_splits)
  from "2.IH" [OF ok rest] show ?case
    using ok by auto
qed simp

lemma load_index_Inr:
  assumes "load_safetensors_index js path = Inr index"
  shows "distinct (map fst (ix_weight_map index))" and "sorted (map fst (ix_weight_map index))"
    and "ix_shards index = string_set (map snd (ix_weight_map index))"
    and "\<forall>s \<in> set (ix_shards index). safe_shard_name s"
proof -
  obtain members wm where wm: "read_weight_map js [] members = Inr wm"
    and index: "ix_weight_map index = sort_key fst wm" "ix_shards index = string_set (map snd wm)"
    using assms by (auto simp: load_safetensors_index_def)
  have "distinct (sort (map fst wm))"
    using read_weight_map_Inr [OF wm] by simp
  then show "distinct (map fst (ix_weight_map index))"
    unfolding index map_sort_key .
  show "sorted (map fst (ix_weight_map index))"
    unfolding index by (rule sorted_sort_key)
  show "ix_shards index = string_set (map snd (ix_weight_map index))"
    by (simp add: index string_set_eq)
  show "\<forall>s \<in> set (ix_shards index). safe_shard_name s"
    using read_weight_map_Inr [OF wm] by (auto simp: index string_set_def)
qed

lemma find_sub_None:
  "find_sub [c] s = None \<longleftrightarrow> c \<notin> set s"
  by (induction s) (auto simp: is_prefix_def)

text \<open>
  The index of a checkpoint: names are distinct and in order, the shards are the sorted set of the
  mapped files, and no shard name can leave the model directory: joined to it, the path is the
  directory, at most one separator and a name without separators.
\<close>

theorem index_shards_stay_inside:
  assumes "load_safetensors_index js path = Inr index" and "s \<in> set (ix_shards index)"
  shows "distinct (map fst (ix_weight_map index)) \<and> s \<in> snd ` set (ix_weight_map index)
    \<and> CHR ''/'' \<notin> set s \<and> s \<noteq> ''..'' \<and> path_join dir_path s \<in> {dir_path @ s, dir_path @ ''/'' @ s}"
proof -
  note i = load_index_Inr [OF assms(1)]
  have safe: "safe_shard_name s"
    using i(4) assms(2) by blast
  then have slash: "CHR ''/'' \<notin> set s" and "s \<noteq> ''..''"
    by (auto simp: safe_shard_name_def find_sub_None ends_with_def)
  moreover have "\<not> starts_with ''/'' s"
    using slash by (cases s) (auto simp: starts_with_def is_prefix_def)
  ultimately show ?thesis
    using i(1,3) assms(2) by (auto simp: path_join_def string_set_def)
qed

section \<open>Validating a model directory\<close>

text \<open>A source tensor is available: the shard the index names has it, as BF16, with the shape the
  specification requires.\<close>

definition tensor_available ::
  "simdjson \<Rightarrow> (string \<Rightarrow> file_access) \<Rightarrow> string \<Rightarrow> (string \<times> string) list \<Rightarrow> string \<Rightarrow> bool"
where
  "tensor_available js access dir_path weight_map name \<longleftrightarrow>
     (\<exists>shard_name f t spec. map_of weight_map name = Some shard_name
        \<and> safetensors_open js (path_join dir_path shard_name) (access (path_join dir_path shard_name)) = Inr f
        \<and> safetensors_find f name = Some t \<and> sd_dtype t = src_bf16
        \<and> qwen38_source_tensor_spec name = Some spec \<and> sd_shape t = st_shape spec)"

definition observed_ok ::
  "simdjson \<Rightarrow> (string \<Rightarrow> file_access) \<Rightarrow> string \<Rightarrow> (string \<times> string) list \<Rightarrow> string list \<times> u64 \<Rightarrow> bool"
where
  "observed_ok js access dir_path weight_map observed \<longleftrightarrow> distinct (fst observed)
     \<and> (\<forall>n \<in> set (fst observed). tensor_available js access dir_path weight_map n)"

lemma check_shard_observed:
  assumes "observed_ok js access dir_path wm s"
    and "check_shard js access dir_path wm s shard_name = Inr s'"
  shows "observed_ok js access dir_path wm s'"
proof -
  let ?path = "path_join dir_path shard_name"
  obtain f where f: "safetensors_open js ?path (access ?path) = Inr f"
    and fold: "result_foldl (check_tensor wm shard_name) s (sf_tensors f) = Inr s'"
    using assms(2) by (auto simp: check_shard_def Let_def)
  show ?thesis
  proof (rule result_foldl_invariant [where I = "observed_ok js access dir_path wm", OF _ assms(1) fold])
    fix s1 t s2
    assume t: "t \<in> set (sf_tensors f)" and s1: "observed_ok js access dir_path wm s1"
      and step: "check_tensor wm shard_name s1 t = Inr s2"
    have found: "safetensors_find f (sd_name t) = Some t"
      by (rule tensor_table.lookup_member [OF opened_in_order [OF f] t])
    have "tensor_available js access dir_path wm (sd_name t)"
      using step f found
      by (auto simp: tensor_available_def check_tensor_def split: if_splits option.splits)
    moreover have "fst s2 = sd_name t # fst s1" "sd_name t \<notin> set (fst s1)"
      using step by (auto simp: check_tensor_def split: if_splits)
    ultimately show "observed_ok js access dir_path wm s2"
      using s1 by (auto simp: observed_ok_def)
  qed
qed

lemma available_mapped: "tensor_available js access dir_path wm n \<Longrightarrow> n \<in> fst ` set wm"
  by (auto simp: tensor_available_def dest!: map_of_SomeD intro: rev_image_eqI)

lemma shards_complete:
  assumes "result_foldl (check_shard js access dir_path wm) ([], 0) shards = Inr (observed, observed_bytes)"
    and "length observed = length wm" and "distinct (map fst wm)"
  shows "set observed = fst ` set wm" and "name \<in> fst ` set wm \<Longrightarrow> tensor_available js access dir_path wm name"
proof -
  have ok: "observed_ok js access dir_path wm (observed, observed_bytes)"
    by (rule result_foldl_invariant [where I = "observed_ok js access dir_path wm", OF check_shard_observed _ assms(1)])
      (simp_all add: observed_ok_def)
  show all: "set observed = fst ` set wm"
  proof (rule card_subset_eq)
    show "set observed \<subseteq> fst ` set wm"
      using ok available_mapped by (fastforce simp: observed_ok_def)
    show "card (set observed) = card (fst ` set wm)"
      using ok assms(2,3) by (metis distinct_card fst_conv length_map observed_ok_def set_map)
  qed simp
  show "tensor_available js access dir_path wm name" if "name \<in> fst ` set wm"
    using ok that all by (auto simp: observed_ok_def)
qed

lemma validate_directory_complete:
  assumes "validate_qwen38_model_directory js access dir_path v m = Inr summary"
  obtains index where
    "load_safetensors_index js (path_join dir_path ''model.safetensors.index.json'') = Inr index"
    and "mset (map fst (ix_weight_map index)) = mset (qwen38_source_tensor_names v m)"
    and "\<forall>n \<in> set (qwen38_source_tensor_names v m). tensor_available js access dir_path (ix_weight_map index) n"
    and "sv_tensor_count summary = length (qwen38_source_tensor_names v m)"
proof -
  obtain index observed observed_bytes where
    index: "load_safetensors_index js (path_join dir_path ''model.safetensors.index.json'') = Inr index"
    and inventory: "status_ok (validate_qwen38_source_inventory (map fst (ix_weight_map index)) v m)"
    and shards: "result_foldl (check_shard js access dir_path (ix_weight_map index)) ([], 0) (ix_shards index)
      = Inr (observed, observed_bytes)"
    and count: "length observed = length (ix_weight_map index)"
    and summary: "sv_tensor_count summary = length observed"
    using assms
    by (auto simp: validate_qwen38_model_directory_def Let_def split: if_splits prod.splits)
  have names: "mset (map fst (ix_weight_map index)) = mset (qwen38_source_tensor_names v m)"
    using inventory inventory_accepts by blast
  have "set (map fst (ix_weight_map index)) = set (qwen38_source_tensor_names v m)"
    using names by (rule mset_eq_setD)
  then have "\<forall>n \<in> set (qwen38_source_tensor_names v m). tensor_available js access dir_path (ix_weight_map index) n"
    using shards_complete(2) [OF shards count load_index_Inr(1) [OF index]] by (metis set_map)
  moreover have "length observed = length (qwen38_source_tensor_names v m)"
    using count names by (metis length_map mset_eq_length)
  ultimately show ?thesis
    using that [OF index names] summary by simp
qed

text \<open>
  C12. The shard loop of the validation: when it accepts the shards of an index and has observed as many
  tensors as the index has names, every name of the index is mapped to a shard that opens and that
  has the tensor, as BF16 and with the shape the specification requires; no shard has another tensor.
\<close>

theorem validated_shards_are_complete:
  assumes "result_foldl (check_shard js access dir_path wm) ([], 0) shards = Inr (observed, observed_bytes)"
    and "length observed = length wm" and "distinct (map fst wm)"
  shows "set observed = fst ` set wm
    \<and> (\<forall>name \<in> fst ` set wm. tensor_available js access dir_path wm name)"
  using shards_complete [OF assms] by blast

section \<open>The properties at concrete inputs\<close>

text \<open>A file with one tensor, the final norm of the model.\<close>

definition sample_tensor :: "u64 \<Rightarrow> json" where
  "sample_tensor start = JObject [(''dtype'', JString ''BF16''), (''shape'', JArray [JUnsigned 5120]),
     (''data_offsets'', JArray [JUnsigned start, JUnsigned (start + 10240)])]"

definition sample_simdjson :: simdjson where
  "sample_simdjson = \<lparr>
     js_parse = (\<lambda>_. Inr (JObject [(''model.language_model.norm.weight'', sample_tensor 0)])),
     js_load = (\<lambda>_. Inr (JObject [(''metadata'', JObject [(''total_size'', JUnsigned 10240)]),
       (''weight_map'', JObject [(''model.language_model.norm.weight'', JString ''m.safetensors'')])])),
     js_incorrect_type = ''type'', js_no_such_field = ''field'', js_out_of_range = ''range'' \<rparr>"

definition sample_mapping :: bytes where
  "sample_mapping = [2, 0, 0, 0, 0, 0, 0, 0, 0x7B, 0x7D] @ replicate 10240 0"

definition sample_safetensors :: safe_tensor_file where
  "sample_safetensors = \<lparr> sf_mapping = sample_mapping, sf_tensors =
     [\<lparr> sd_name = ''model.language_model.norm.weight'', sd_dtype = src_bf16, sd_shape = [5120],
        sd_file_offset = 10, sd_bytes = 10240 \<rparr>] \<rparr>"

lemma sample_length: "length sample_mapping = 10250"
  by (simp add: sample_mapping_def)

lemma sample_header: "safetensors_header_bytes sample_mapping = 2"
  by (simp add: safetensors_header_bytes_def sample_mapping_def upt_rec)

lemma sample_open: "safetensors_open sample_simdjson path (Mapped sample_mapping) = Inr sample_safetensors"
  by (simp add: safetensors_open_def sample_length sample_header Let_def maximum_header_bytes_def
      range_valid_nat safetensors_tensors_def sample_simdjson_def sample_tensor_def get_object_def
      read_tensor_def place_tensor_def get_field_def get_string_def get_array_def get_u64_def parse_dtype_def
      sample_safetensors_def word_less_nat_alt word_le_nat_alt)

lemma safetensors_open_is_safe_witness:
  "length (sf_mapping sample_safetensors) = 10250
   \<and> distinct (map sd_name (sf_tensors sample_safetensors))
   \<and> Mapped sample_mapping = Mapped (sf_mapping sample_safetensors)"
proof -
  have "length (sf_mapping sample_safetensors) = 10250"
    by (simp add: sample_safetensors_def sample_length)
  then show ?thesis
    using safetensors_open_is_safe [OF sample_open] by simp
qed

lemma safetensors_find_exact_witness:
  "safetensors_find sample_safetensors ''model.language_model.norm.weight''
   = Some \<lparr> sd_name = ''model.language_model.norm.weight'', sd_dtype = src_bf16, sd_shape = [5120],
            sd_file_offset = 10, sd_bytes = 10240 \<rparr>"
  by (subst safetensors_find_exact [OF sample_open]) (simp add: sample_safetensors_def)

lemma sample_index:
  "\<exists>index. load_safetensors_index sample_simdjson path = Inr index \<and> ix_shards index = [''m.safetensors'']"
proof -
  have "fp_of_int f64_format 10240 = Fin 10240"
    by (subst fp_round_int) (simp_all add: f64_format_def power2_def)
  then show ?thesis
    by (simp add: load_safetensors_index_def sample_simdjson_def get_object_def get_field_def
        get_double_def get_string_def read_total_size_def safe_shard_name_def is_prefix_def ends_with_def
        string_set_def)
qed

lemma index_shards_stay_inside_witness:
  "\<exists>index. load_safetensors_index sample_simdjson ''i'' = Inr index
     \<and> path_join ''models'' ''m.safetensors'' \<in> {''models'' @ ''m.safetensors'', ''models'' @ ''/'' @ ''m.safetensors''}"
proof -
  obtain index where index: "load_safetensors_index sample_simdjson ''i'' = Inr index"
    "ix_shards index = [''m.safetensors'']"
    using sample_index by blast
  then have "''m.safetensors'' \<in> set (ix_shards index)"
    by simp
  from index_shards_stay_inside [OF index(1) this, of "''models''"] index(1) show ?thesis
    by blast
qed

lemma norm_spec:
  "qwen38_source_tensor_spec ''model.language_model.norm.weight''
   = Some \<lparr> st_name = ''model.language_model.norm.weight'', st_shape = [5120] \<rparr>"
  by (subst spec_table.lookup_Some)
    (simp_all only: qwen38_source_tensor_specs_def set_sort set_append, simp_all add: add_specs_def head_specs_def)

lemma validated_shards_are_complete_witness:
  "tensor_available sample_simdjson (\<lambda>_. Mapped sample_mapping) ''models''
     [(''model.language_model.norm.weight'', ''m.safetensors'')] ''model.language_model.norm.weight''"
proof -
  let ?wm = "[(''model.language_model.norm.weight'', ''m.safetensors'')]"
  have "result_foldl (check_shard sample_simdjson (\<lambda>_. Mapped sample_mapping) ''models'' ?wm) ([], 0) [''m.safetensors'']
      = Inr ([''model.language_model.norm.weight''], 10240)"
    by (simp add: check_shard_def Let_def sample_open, simp add: sample_safetensors_def check_tensor_def norm_spec)
  from validated_shards_are_complete [OF this] show ?thesis
    by simp
qed

section \<open>A tensor may point into the header\<close>

text \<open>\<open>data_base + offsets[0]\<close> is computed modulo \<open>2 ^ 64\<close> before the range check.\<close>

definition wrapping_simdjson :: simdjson where
  "wrapping_simdjson = sample_simdjson \<lparr> js_parse := (\<lambda>_. Inr (JObject [(''t'',
     JObject [(''dtype'', JString ''U8''), (''shape'', JArray [JUnsigned 4]),
       (''data_offsets'', JArray [JUnsigned (- 10), JUnsigned (- 6)])])])) \<rparr>"

text \<open>
  A data offset close to \<open>2 ^ 64\<close> passes the range check because the addition wraps: a file of ten
  bytes opens, with a tensor whose data is the header length.
\<close>

theorem safetensors_offset_wraps:
  "\<exists>f t. safetensors_open wrapping_simdjson path (Mapped [2, 0, 0, 0, 0, 0, 0, 0, 0x7B, 0x7D]) = Inr f
     \<and> sf_tensors f = [t] \<and> sd_file_offset t = 0 \<and> safetensors_data f t = [2, 0, 0, 0]"
proof -
  have "safetensors_header_bytes [2, 0, 0, 0, 0, 0, 0, 0, 0x7B, 0x7D] = 2"
    by (simp add: safetensors_header_bytes_def upt_rec)
  then show ?thesis
    by (simp add: safetensors_open_def Let_def maximum_header_bytes_def range_valid_nat
        safetensors_tensors_def wrapping_simdjson_def sample_simdjson_def get_object_def
        read_tensor_def place_tensor_def get_field_def get_string_def get_array_def get_u64_def
        parse_dtype_def word_less_nat_alt word_le_nat_alt safetensors_data_def slice_def)
qed

end
