(* ===== verification/MappedFiles.thy ===== *)
theory MappedFiles
  imports Safetensors
begin

text \<open>
  The handles of \<open>ArtifactView\<close> (\<^verbatim>\<open>src/artifact.cpp\<close>) and \<open>SafeTensorFile\<close> (\<^verbatim>\<open>src/safetensors.cpp\<close>): the
  descriptor and the mapping that an object of either class owns, their release by \<open>reset\<close> and by the
  destructor, and what the move operations do with them. The two classes have the same code here; they
  differ in the smallest file that they map and in what they load from it. The kernel's table of open
  descriptors and mappings is the state, with a count of the calls that release what is not there.
\<close>

section \<open>The code\<close>

datatype handle = Descriptor int | Mapping nat nat

record handles =
  hs_open :: "handle set"
  hs_faults :: nat

definition no_handles :: handles where
  "no_handles = \<lparr> hs_open = {}, hs_faults = 0 \<rparr>"

text \<open>\<open>::munmap\<close> of an address and a size, and \<open>::close\<close>.\<close>

definition release :: "handle \<Rightarrow> handles \<Rightarrow> handles" where
  "release h hs =
     (if h \<in> hs_open hs then hs\<lparr>hs_open := hs_open hs - {h}\<rparr> else hs\<lparr>hs_faults := hs_faults hs + 1\<rparr>)"

definition acquire :: "handle \<Rightarrow> handles \<Rightarrow> handles" where
  "acquire h hs = hs\<lparr>hs_open := insert h (hs_open hs)\<rparr>"

text \<open>An object; \<open>mf_loaded\<close> are the members that were read from the file, \<open>None\<close> the cleared ones.\<close>

record 'v mapped_file =
  mf_fd :: int
  mf_mapping :: "nat option"
  mf_bytes :: nat
  mf_loaded :: "'v option"

definition no_file :: "'v mapped_file" where
  "no_file = \<lparr> mf_fd = - 1, mf_mapping = None, mf_bytes = 0, mf_loaded = None \<rparr>"

definition reset_file :: "'v mapped_file \<Rightarrow> handles \<Rightarrow> 'v mapped_file \<times> handles" where
  "reset_file f hs =
     (let hs = (case mf_mapping f of None \<Rightarrow> hs | Some address \<Rightarrow> release (Mapping address (mf_bytes f)) hs);
          hs = (if mf_fd f \<ge> 0 then release (Descriptor (mf_fd f)) hs else hs)
      in (no_file, hs))"

text \<open>The move constructor: the new object, and what is left of the other one.\<close>

definition move_file :: "'v mapped_file \<Rightarrow> 'v mapped_file \<times> 'v mapped_file" where
  "move_file other = (other, no_file)"

text \<open>The members when \<open>open\<close> begins to check the contents, or returns before; the kernel gives a descriptor and an address.\<close>

fun map_file :: "nat \<Rightarrow> file_access \<Rightarrow> int \<Rightarrow> nat \<Rightarrow> handles \<Rightarrow> 'v mapped_file \<times> handles" where
  "map_file minimum (Open_fails e) fd address hs = (no_file, hs)"
| "map_file minimum (Stat_fails e) fd address hs =
     (no_file\<lparr>mf_fd := fd\<rparr>, acquire (Descriptor fd) hs)"
| "map_file minimum (Map_fails n e) fd address hs =
     ((if n < minimum then no_file\<lparr>mf_fd := fd\<rparr> else no_file\<lparr> mf_fd := fd, mf_bytes := n \<rparr>),
      acquire (Descriptor fd) hs)"
| "map_file minimum (Mapped contents) fd address hs =
     (let hs = acquire (Descriptor fd) hs in
      if length contents < minimum then (no_file\<lparr>mf_fd := fd\<rparr>, hs)
      else (no_file\<lparr> mf_fd := fd, mf_mapping := Some address, mf_bytes := length contents \<rparr>,
            acquire (Mapping address (length contents)) hs))"

text \<open>
  \<open>open\<close> with the handles: the local object is destroyed on every return; on success it was moved into
  the result before.
\<close>

definition open_file ::
  "nat \<Rightarrow> 'v result \<Rightarrow> file_access \<Rightarrow> int \<Rightarrow> nat \<Rightarrow> handles \<Rightarrow> 'v mapped_file result \<times> handles" where
  "open_file minimum loaded access fd address hs =
     (let (f, hs) = map_file minimum access fd address hs in
      case loaded of
        Inl e \<Rightarrow> (Inl e, snd (reset_file f hs))
      | Inr v \<Rightarrow> (let (moved, rest) = move_file (f\<lparr>mf_loaded := Some v\<rparr>) in (Inr moved, snd (reset_file rest hs))))"

definition artifact_view_open ::
  "string \<Rightarrow> bool \<Rightarrow> file_access \<Rightarrow> int \<Rightarrow> nat \<Rightarrow> handles \<Rightarrow> artifact_view mapped_file result \<times> handles" where
  "artifact_view_open path verify access = open_file sizeof_DiskHeader (artifact_open path verify access) access"

definition safe_tensor_file_open ::
  "simdjson \<Rightarrow> string \<Rightarrow> file_access \<Rightarrow> int \<Rightarrow> nat \<Rightarrow> handles \<Rightarrow> safe_tensor_file mapped_file result \<times> handles" where
  "safe_tensor_file_open js path access = open_file 10 (safetensors_open js path access) access"

section \<open>Objects of a program\<close>

text \<open>
  A program that uses one of the classes: it constructs, opens, moves and destroys objects in any
  order. The kernel gives a descriptor that is not open and an address where nothing is mapped.
\<close>

definition fresh_handles :: "int \<Rightarrow> nat \<Rightarrow> handles \<Rightarrow> bool" where
  "fresh_handles fd address hs \<longleftrightarrow> 0 \<le> fd \<and> Descriptor fd \<notin> hs_open hs \<and> (\<forall>n. Mapping address n \<notin> hs_open hs)"

inductive file_step ::
  "('q \<Rightarrow> file_access \<Rightarrow> int \<Rightarrow> nat \<Rightarrow> handles \<Rightarrow> 'v mapped_file result \<times> handles)
    \<Rightarrow> (nat \<rightharpoonup> 'v mapped_file) \<times> handles \<Rightarrow> (nat \<rightharpoonup> 'v mapped_file) \<times> handles \<Rightarrow> bool"
  for opener where
  construct: "objects x = None \<Longrightarrow> file_step opener (objects, hs) (objects(x \<mapsto> no_file), hs)"
| opens: "objects x = None \<Longrightarrow> fresh_handles fd address hs \<Longrightarrow>
    opener q access fd address hs = (Inr f, hs') \<Longrightarrow> file_step opener (objects, hs) (objects(x \<mapsto> f), hs')"
| open_fails: "fresh_handles fd address hs \<Longrightarrow>
    opener q access fd address hs = (Inl e, hs') \<Longrightarrow> file_step opener (objects, hs) (objects, hs')"
| move_construct: "objects x = None \<Longrightarrow> objects y = Some f \<Longrightarrow> move_file f = (moved, rest) \<Longrightarrow>
    file_step opener (objects, hs) (objects(x \<mapsto> moved, y \<mapsto> rest), hs)"
| self_assign: "objects x = Some f \<Longrightarrow> file_step opener (objects, hs) (objects, hs)"
| move_assign: "x \<noteq> y \<Longrightarrow> objects x = Some old \<Longrightarrow> objects y = Some f \<Longrightarrow> reset_file old hs = (fresh, hs') \<Longrightarrow>
    move_file f = (moved, rest) \<Longrightarrow> file_step opener (objects, hs) (objects(x \<mapsto> moved, y \<mapsto> rest), hs')"
| destroy: "objects x = Some f \<Longrightarrow> reset_file f hs = (rest, hs') \<Longrightarrow> file_step opener (objects, hs) (objects(x := None), hs')"

section \<open>Ownership\<close>

definition handles_of :: "'v mapped_file \<Rightarrow> handle set" where
  "handles_of f = (case mf_mapping f of None \<Rightarrow> {} | Some address \<Rightarrow> {Mapping address (mf_bytes f)})
     \<union> (if 0 \<le> mf_fd f then {Descriptor (mf_fd f)} else {})"

definition held :: "(nat \<rightharpoonup> 'v mapped_file) \<Rightarrow> nat \<Rightarrow> handle set" where
  "held objects x = (case objects x of None \<Rightarrow> {} | Some f \<Rightarrow> handles_of f)"

text \<open>Every open handle is held by one object, and nothing was released that was not open.\<close>

definition owned :: "(nat \<rightharpoonup> 'v mapped_file) \<Rightarrow> handles \<Rightarrow> bool" where
  "owned objects hs \<longleftrightarrow> hs_faults hs = 0 \<and> hs_open hs = (\<Union>x. held objects x)
     \<and> (\<forall>x y. x \<noteq> y \<longrightarrow> held objects x \<inter> held objects y = {})"

lemma handles_of_no_file [simp]: "handles_of no_file = {}"
  by (simp add: handles_of_def no_file_def)

lemma held_None [simp]: "objects x = None \<Longrightarrow> held objects x = {}"
  by (simp add: held_def)

lemma held_Some [simp]: "objects x = Some f \<Longrightarrow> held objects x = handles_of f"
  by (simp add: held_def)

lemma held_vanish: "held objects x = {} \<Longrightarrow> (held objects)(x := {}) = held objects"
  by (rule ext) simp

lemma held_update: "held (objects(x := v)) = (held objects)(x := (case v of None \<Rightarrow> {} | Some f \<Rightarrow> handles_of f))"
  by (rule ext) (simp add: held_def)

lemma reset_file_held:
  assumes "handles_of f \<subseteq> hs_open hs"
  shows "reset_file f hs = (no_file, hs\<lparr>hs_open := hs_open hs - handles_of f\<rparr>)"
proof -
  have "A - {a} - {b} = A - {b, a}" for A :: "handle set" and a b
    by blast
  then show ?thesis
    using assms by (auto simp: reset_file_def release_def handles_of_def Let_def split: option.splits if_splits)
qed

lemma map_file_fresh:
  assumes "fresh_handles fd address hs" "map_file minimum access fd address hs = (f, hs')"
  shows "handles_of f \<inter> hs_open hs = {} \<and> hs' = hs\<lparr>hs_open := hs_open hs \<union> handles_of f\<rparr>"
  using assms
  by (cases access) (auto simp: fresh_handles_def handles_of_def no_file_def acquire_def Let_def insert_commute split: if_splits)

lemma open_file_fresh:
  assumes "fresh_handles fd address hs" "open_file minimum loaded access fd address hs = (r, hs')"
  shows "case r of Inl e \<Rightarrow> hs' = hs | Inr f \<Rightarrow> handles_of f \<inter> hs_open hs = {} \<and> hs' = hs\<lparr>hs_open := hs_open hs \<union> handles_of f\<rparr>"
proof -
  obtain f hs1 where f: "(map_file minimum access fd address hs :: 'a mapped_file \<times> handles) = (f, hs1)"
    by force
  note fresh = map_file_fresh [OF assms(1) f]
  have "handles_of (f\<lparr>mf_loaded := v\<rparr>) = handles_of f" for v
    by (simp add: handles_of_def split: option.split)
  moreover have "hs_open hs \<union> handles_of f - handles_of f = hs_open hs"
    using fresh by blast
  ultimately show ?thesis
    using assms(2) fresh by (auto simp: open_file_def f Let_def move_file_def reset_file_held split: sum.splits)
qed

text \<open>What the operations do to the families of held handles.\<close>

lemma owned_cong: "owned objects hs \<Longrightarrow> held objects' = held objects \<Longrightarrow> owned objects' hs"
  by (simp add: owned_def)

lemma owned_drop:
  assumes "owned objects hs" "held objects' = (held objects)(x := {})"
  shows "owned objects' (hs\<lparr>hs_open := hs_open hs - held objects x\<rparr>)"
proof -
  have open_set: "hs_open hs = (\<Union>y. held objects y)" and apart: "\<And>y z. y \<noteq> z \<Longrightarrow> held objects y \<inter> held objects z = {}"
    using assms(1) by (simp_all add: owned_def)
  have "(\<Union>y. held objects' y) = hs_open hs - held objects x"
  proof (intro set_eqI iffI)
    fix h assume "h \<in> (\<Union>y. held objects' y)"
    then obtain y where "y \<noteq> x" "h \<in> held objects y"
      by (auto simp: assms(2) split: if_splits)
    then show "h \<in> hs_open hs - held objects x"
      using apart [of y x] by (auto simp: open_set)
  qed (auto simp: assms(2) open_set split: if_splits)
  moreover have "held objects' y \<inter> held objects' z = {}" if "y \<noteq> z" for y z
    using apart [OF that] by (simp add: assms(2))
  ultimately show ?thesis
    using assms(1) by (simp add: owned_def)
qed

lemma owned_add:
  assumes "owned objects hs" "held objects x = {}" "held objects' = (held objects)(x := A)" "A \<inter> hs_open hs = {}"
  shows "owned objects' (hs\<lparr>hs_open := hs_open hs \<union> A\<rparr>)"
proof -
  have open_set: "hs_open hs = (\<Union>y. held objects y)" and apart: "\<And>y z. y \<noteq> z \<Longrightarrow> held objects y \<inter> held objects z = {}"
    using assms(1) by (simp_all add: owned_def)
  have "(\<Union>y. held objects' y) = hs_open hs \<union> A"
    using assms(2) by (auto simp: assms(3) open_set split: if_splits) 
  moreover have "held objects' y \<inter> held objects' z = {}" if "y \<noteq> z" for y z
    using apart [OF that] assms(4) that by (auto simp: assms(3) open_set)
  ultimately show ?thesis
    using assms(1) by (simp add: owned_def)
qed

lemma owned_move:
  assumes "owned objects hs" "held objects x = {}" "x \<noteq> y" "held objects' = (held objects)(x := held objects y, y := {})"
  shows "owned objects' hs"
proof -
  have inside: "held objects y \<subseteq> hs_open hs"
    using assms(1) by (auto simp: owned_def)
  let ?out = "objects(y := None)"
  have out: "held ?out = (held objects)(y := {})"
    by (simp add: held_update)
  have "owned ?out (hs\<lparr>hs_open := hs_open hs - held objects y\<rparr>)"
    by (rule owned_drop [OF assms(1) out])
  moreover have "held objects' = (held ?out)(x := held objects y)"
    using assms(3) by (simp only: assms(4) out) (simp add: fun_upd_twist)
  ultimately have "owned objects' (hs\<lparr>hs_open := hs_open hs - held objects y \<union> held objects y\<rparr>)"
    using owned_add [of ?out "hs\<lparr>hs_open := hs_open hs - held objects y\<rparr>" x objects' "held objects y"] assms(2,3) out by auto
  moreover have "hs_open hs - held objects y \<union> held objects y = hs_open hs"
    using inside by blast
  ultimately show ?thesis
    by simp
qed

lemma owned_reset:
  assumes "owned objects hs" "objects x = Some f" "reset_file f hs = (rest, hs')" "held objects' = (held objects)(x := {})"
  shows "owned objects' hs' \<and> rest = no_file"
proof -
  have f: "held objects x = handles_of f"
    using assms(2) by simp
  have "held objects x \<subseteq> hs_open hs"
    using assms(1) unfolding owned_def by blast
  then have "rest = no_file" "hs' = hs\<lparr>hs_open := hs_open hs - held objects x\<rparr>"
    using assms(3) reset_file_held [of f hs] by (simp_all add: f)
  then show ?thesis
    using owned_drop [OF assms(1,4)] by simp
qed

text \<open>An opening function that the two classes have.\<close>

definition opens_file ::
  "('q \<Rightarrow> file_access \<Rightarrow> int \<Rightarrow> nat \<Rightarrow> handles \<Rightarrow> 'v mapped_file result \<times> handles) \<Rightarrow> bool" where
  "opens_file opener \<longleftrightarrow> (\<forall>q access. \<exists>minimum loaded. opener q access = open_file minimum loaded access)"

lemma file_step_owned:
  assumes "opens_file opener" "file_step opener (objects, hs) (objects', hs')" "owned objects hs"
  shows "owned objects' hs'"
  using assms(2,3)
proof (cases rule: file_step.cases)
  case (construct x)
  then show ?thesis
    using assms(3) by (auto intro!: owned_cong [of objects hs] simp: held_update held_vanish)
next
  case (opens x fd address q access f)
  obtain minimum loaded where "opener q access = open_file minimum loaded access"
    using assms(1) unfolding opens_file_def by blast
  then have "open_file minimum loaded access fd address hs = (Inr f, hs')"
    using opens by simp
  then have f: "handles_of f \<inter> hs_open hs = {}" "hs' = hs\<lparr>hs_open := hs_open hs \<union> handles_of f\<rparr>"
    using open_file_fresh [of fd address hs minimum loaded access "Inr f" hs'] opens by simp_all
  then show ?thesis
    using owned_add [OF assms(3), of x objects' "handles_of f"] opens by (simp add: held_update)
next
  case (open_fails fd address q access e)
  obtain minimum loaded where "opener q access = open_file minimum loaded access"
    using assms(1) unfolding opens_file_def by blast
  then have "open_file minimum loaded access fd address hs = (Inl e, hs')"
    using open_fails by simp
  then show ?thesis
    using open_file_fresh [of fd address hs minimum loaded access "Inl e" hs'] open_fails assms(3) by simp
next
  case (move_construct x y f moved rest)
  have "x \<noteq> y"
    using move_construct by auto
  then show ?thesis
    using owned_move [OF assms(3), of x y objects'] move_construct by (simp add: held_update move_file_def)
next
  case (self_assign x f)
  then show ?thesis
    using assms(3) by simp
next
  case (move_assign x y old f fresh moved rest)
  let ?out = "objects(x := None)"
  have "owned ?out hs'"
    using owned_reset [OF assms(3), of x old fresh hs' ?out] move_assign by (simp add: held_update)
  then show ?thesis
    using owned_move [of ?out hs' x y objects'] move_assign by (simp add: held_update move_file_def)
next
  case (destroy x f rest)
  then show ?thesis
    using owned_reset [OF assms(3), of x f rest hs' objects'] by (simp add: held_update)
qed

lemma both_open_files:
  "opens_file (\<lambda>(path, verify). artifact_view_open path verify)" "opens_file (safe_tensor_file_open js)"
  by (auto simp: opens_file_def artifact_view_open_def [abs_def] safe_tensor_file_open_def [abs_def])

text \<open>An object that was opened holds its descriptor and the mapping of the contents that it was loaded from.\<close>

lemma artifact_view_holds:
  assumes "artifact_view_open path verify access fd address hs = (Inr f, hs')"
  shows "\<exists>view. artifact_open path verify access = Inr view
    \<and> f = \<lparr> mf_fd = fd, mf_mapping = Some address, mf_bytes = length (av_mapping view), mf_loaded = Some view \<rparr>"
proof -
  obtain view where view: "artifact_open path verify access = Inr view"
    using assms by (cases "artifact_open path verify access") (auto simp: artifact_view_open_def open_file_def Let_def split: prod.splits)
  then obtain contents where "access = Mapped contents" "\<not> length contents < sizeof_DiskHeader" "av_mapping view = contents"
    by (cases access) (auto simp: artifact_open_def Let_def result_bind_Inr split: if_splits)
  then show ?thesis
    using assms view by (simp add: artifact_view_open_def open_file_def Let_def move_file_def no_file_def)
qed

lemma file_steps_owned:
  assumes "opens_file opener" "(file_step opener)\<^sup>*\<^sup>* (Map.empty, no_handles) (objects, hs)"
  shows "owned objects hs \<and> (objects = Map.empty \<longrightarrow> hs = no_handles)"
proof -
  have start: "owned (Map.empty :: nat \<rightharpoonup> 'v mapped_file) no_handles"
    by (simp add: owned_def no_handles_def)
  have owned: "owned objects hs"
    using assms(2) by (induction rule: rtranclp_induct2) (use start file_step_owned [OF assms(1)] in auto)
  moreover have "hs = no_handles" if "objects = Map.empty"
    using owned that by (cases hs) (simp add: owned_def no_handles_def)
  ultimately show ?thesis
    by blast
qed

text \<open>
  C36. The files that the two readers open are closed exactly once: however a program constructs,
  opens, moves, assigns and destroys its artifact views and its safetensors files, and whichever calls of the
  kernel fail, every open descriptor and mapping is held by exactly one object, nothing is released that is
  not open, and when no object is left nothing is open.
\<close>

theorem mapped_files_are_released:
  assumes "(file_step (\<lambda>(path, verify). artifact_view_open path verify))\<^sup>*\<^sup>* (Map.empty, no_handles) (views, hs)"
    and "(file_step (safe_tensor_file_open js))\<^sup>*\<^sup>* (Map.empty, no_handles) (files, hs')"
  shows "owned views hs \<and> owned files hs' \<and> (views = Map.empty \<longrightarrow> hs = no_handles) \<and> (files = Map.empty \<longrightarrow> hs' = no_handles)"
  using file_steps_owned [OF both_open_files(1) assms(1)] file_steps_owned [OF both_open_files(2) assms(2)] by blast

section \<open>The property at a concrete input\<close>

definition sample_object :: "safe_tensor_file mapped_file" where
  "sample_object = \<lparr> mf_fd = 3, mf_mapping = Some 4096, mf_bytes = 10250, mf_loaded = Some sample_safetensors \<rparr>"

definition sample_handles :: handles where
  "sample_handles = \<lparr> hs_open = {Descriptor 3, Mapping 4096 10250}, hs_faults = 0 \<rparr>"

lemma sample_opens: "safe_tensor_file_open sample_simdjson ''m'' (Mapped sample_mapping) 3 4096 no_handles = (Inr sample_object, sample_handles)"
  by (simp add: safe_tensor_file_open_def open_file_def sample_open sample_length Let_def move_file_def acquire_def no_handles_def
      no_file_def reset_file_def sample_object_def sample_handles_def insert_commute)

text \<open>A file that is opened into one object and moved to another, and an artifact whose \<open>fstat\<close> fails.\<close>

theorem mapped_files_are_released_witness:
  "owned (Map.empty(0 \<mapsto> no_file, 1 \<mapsto> sample_object)) sample_handles
    \<and> owned (Map.empty :: nat \<rightharpoonup> artifact_view mapped_file) no_handles"
proof -
  have fresh: "fresh_handles 3 4096 no_handles"
    by (simp add: fresh_handles_def no_handles_def)
  have "file_step (safe_tensor_file_open sample_simdjson) (Map.empty, no_handles) (Map.empty(0 \<mapsto> sample_object), sample_handles)"
    by (rule opens [where q = "''m''" and access = "Mapped sample_mapping" and fd = 3 and address = 4096, OF _ fresh])
      (simp_all only: sample_opens)
  moreover have "file_step (safe_tensor_file_open sample_simdjson) (Map.empty(0 \<mapsto> sample_object), sample_handles)
      ((Map.empty(0 \<mapsto> sample_object))(1 \<mapsto> sample_object, 0 \<mapsto> no_file), sample_handles)"
    by (rule move_construct [where f = sample_object]) (simp_all add: move_file_def)
  ultimately have files: "(file_step (safe_tensor_file_open sample_simdjson))\<^sup>*\<^sup>* (Map.empty, no_handles)
      ((Map.empty(0 \<mapsto> sample_object))(1 \<mapsto> sample_object, 0 \<mapsto> no_file), sample_handles)"
    by (rule converse_rtranclp_into_rtranclp [OF _ r_into_rtranclp])
  have "artifact_view_open ''m'' True (Stat_fails ''e'') 3 4096 no_handles = (Inl (errno_status ''cannot stat'' ''m'' ''e''), no_handles)"
    by (simp add: artifact_view_open_def open_file_def artifact_open_def Let_def reset_file_def release_def acquire_def no_file_def no_handles_def)
  then have "file_step (\<lambda>(path, verify). artifact_view_open path verify) (Map.empty, no_handles) (Map.empty, no_handles)"
    by (intro open_fails [OF fresh, where q = "(''m'', True)" and access = "Stat_fails ''e''"]) simp
  then have "(file_step (\<lambda>(path, verify). artifact_view_open path verify))\<^sup>*\<^sup>* (Map.empty, no_handles) (Map.empty, no_handles)"
    by (rule r_into_rtranclp)
  from mapped_files_are_released [OF this files] show ?thesis
    by (simp add: fun_upd_twist)
qed

end
