(* ===== verification/Quantization.thy ===== *)
theory Quantization
  imports ArtifactFormat Ieee
begin

text \<open>
  \<^verbatim>\<open>src/quantization.cpp\<close>: the group-128 codecs W2, W3 and W4, their packing into bytes, the
  quantizer with its fitted scales, and the re-tiling for the gfx12 kernels. The lemmas show that
  packing loses no code, that the codes decode to the nearest level of the codebook, and that the
  tiled storage holds the same code for every row and column.
\<close>

section \<open>The code\<close>

record packed_matrix =
  pm_rows :: nat
  pm_columns :: nat
  pm_format :: quantization
  pm_codes :: bytes
  pm_scales :: "fp list"

record gfx12_tiled_matrix =
  tm_rows :: nat
  tm_columns :: nat
  tm_format :: quantization
  tm_codes :: bytes
  tm_scales :: "fp list"

definition kGroupSize :: nat where "kGroupSize = 128"

abbreviation f32_sub :: "fp \<Rightarrow> fp \<Rightarrow> fp" where "f32_sub \<equiv> fp_sub f32_format"
abbreviation f32_div :: "fp \<Rightarrow> fp \<Rightarrow> fp" where "f32_div \<equiv> fp_div f32_format"
abbreviation f32_mul :: "fp \<Rightarrow> fp \<Rightarrow> fp" where "f32_mul \<equiv> fp_mul f32_format"
abbreviation f32_of_int :: "int \<Rightarrow> fp" where "f32_of_int \<equiv> fp_of_int f32_format"

definition nearest_w2_step :: "fp \<Rightarrow> int \<times> fp \<Rightarrow> int \<Rightarrow> int \<times> fp" where
  "nearest_w2_step normalized acc level =
     (let error = fp_abs (f32_sub normalized (f32_of_int level)) in
      if fp_less error (snd acc) then (level, error) else acc)"

definition nearest_w2 :: "fp \<Rightarrow> int" where
  "nearest_w2 normalized = fst (foldl (nearest_w2_step normalized) (- 3, Pos_inf) [- 3, - 1, 1, 3])"

definition clamp :: "int \<Rightarrow> int \<Rightarrow> int \<Rightarrow> int" where
  "clamp v lo hi = (if v < lo then lo else if hi < v then hi else v)"

definition normalize :: "fp \<Rightarrow> fp \<Rightarrow> fp" where
  "normalize v scale = (if fp_eq scale (Fin 0) then Fin 0 else f32_div v scale)"

definition encode_value :: "fp \<Rightarrow> fp \<Rightarrow> quantization \<Rightarrow> u8" where
  "encode_value v scale format =
     (let normalized = normalize v scale in
      case format of
        w2g128 \<Rightarrow> of_int ((nearest_w2 normalized + 3) div 2)
      | w3g128 \<Rightarrow> of_int (clamp (int_of_fp (fp_nearbyint normalized)) (- 4) 3 + 4)
      | w4g128 \<Rightarrow> of_int (clamp (int_of_fp (fp_nearbyint normalized)) (- 8) 7 AND 15)
      | _ \<Rightarrow> 0)"

definition decode_value :: "u8 \<Rightarrow> quantization \<Rightarrow> int" where
  "decode_value code format =
     (case format of
        w2g128 \<Rightarrow> uint code * 2 - 3
      | w3g128 \<Rightarrow> uint code - 4
      | w4g128 \<Rightarrow> (if code AND 8 \<noteq> 0 then uint code - 16 else uint code)
      | _ \<Rightarrow> 0)"

definition divisor :: "quantization \<Rightarrow> fp" where
  "divisor format =
     (case format of w2g128 \<Rightarrow> Fin 3 | w3g128 \<Rightarrow> Fin 4 | w4g128 \<Rightarrow> Fin 8 | _ \<Rightarrow> Fin 1)"

definition float_min :: fp where "float_min = Fin (power2 (- 126))"

definition fit_step :: "quantization \<Rightarrow> fp \<Rightarrow> fp \<times> fp \<Rightarrow> fp \<Rightarrow> fp \<times> fp" where
  "fit_step format scale acc v =
     (let level = decode_value (encode_value v scale format) format;
          l = fp_of_int f64_format level
      in (fp_add f64_format (fst acc) (fp_mul f64_format v l),
          fp_add f64_format (snd acc) (fp_mul f64_format l l)))"

text \<open>A \<open>float\<close> is a \<open>double\<close> without change, so \<open>static_cast<double>(value)\<close> is the value.\<close>

fun fit_scale :: "nat \<Rightarrow> quantization \<Rightarrow> fp list \<Rightarrow> fp \<Rightarrow> fp" where
  "fit_scale 0 format vs scale = scale"
| "fit_scale (Suc n) format vs scale =
     (case foldl (fit_step format scale) (Fin 0, Fin 0) vs of
        (numerator, denominator) \<Rightarrow>
          if fp_eq denominator (Fin 0) then scale
          else fit_scale n format vs
                 (fp_convert f32_format (fp_div f64_format numerator denominator)))"

definition choose_scale :: "fp list \<Rightarrow> fp \<Rightarrow> quantization \<Rightarrow> fp" where
  "choose_scale vs maximum format =
     (if fp_eq maximum (Fin 0) then Fin 1
      else fp_max (fit_scale 4 format vs (f32_div maximum (divisor format))) float_min)"

definition or_byte :: "nat \<Rightarrow> u8 \<Rightarrow> bytes \<Rightarrow> bytes" where
  "or_byte index v row = row[index := row ! index OR v]"

definition store_code :: "bytes \<Rightarrow> nat \<Rightarrow> u8 \<Rightarrow> quantization \<Rightarrow> bytes" where
  "store_code row column code format =
     (case format of
        w2g128 \<Rightarrow> or_byte (column div 4) (push_bit ((column mod 4) * 2) (code AND 3)) row
      | w3g128 \<Rightarrow>
          let grp = column div kGroupSize; local = column mod kGroupSize; byte = local div 8;
              bit = local mod 8; group_base = grp * 48
          in foldl (\<lambda>row plane. or_byte (group_base + plane * 16 + byte)
                      (push_bit bit (drop_bit plane code AND 1)) row) row [0..<3]
      | w4g128 \<Rightarrow> or_byte (column div 2) (push_bit ((column mod 2) * 4) (code AND 15)) row
      | _ \<Rightarrow> row)"

definition load_code :: "bytes \<Rightarrow> nat \<Rightarrow> quantization \<Rightarrow> u8" where
  "load_code row column format =
     (case format of
        w2g128 \<Rightarrow> drop_bit ((column mod 4) * 2) (row ! (column div 4)) AND 3
      | w3g128 \<Rightarrow>
          let grp = column div kGroupSize; local = column mod kGroupSize; byte = local div 8;
              bit = local mod 8; group_base = grp * 48
          in foldl (\<lambda>code plane. code OR
                      push_bit plane (drop_bit bit (row ! (group_base + plane * 16 + byte)) AND 1)) 0 [0..<3]
      | w4g128 \<Rightarrow> drop_bit ((column mod 2) * 4) (row ! (column div 2)) AND 15
      | _ \<Rightarrow> 0)"

text \<open>A \<open>size_t\<close> product or sum.\<close>

definition size_wrap :: "nat \<Rightarrow> nat" where "size_wrap n = n mod 2 ^ 64"

text \<open>The products of \<open>packed_row_bytes\<close> are \<open>size_t\<close>; \<open>exact_row_bytes\<close> is their value without the
  wrap-around.\<close>

definition exact_row_bytes :: "quantization \<Rightarrow> nat \<Rightarrow> nat" where
  "exact_row_bytes format columns =
     (case format of
        w2g128 \<Rightarrow> (columns + 3) div 4
      | w3g128 \<Rightarrow> (columns * 3 + 7) div 8
      | w4g128 \<Rightarrow> (columns + 1) div 2
      | _ \<Rightarrow> 0)"

definition packed_row_bytes :: "quantization \<Rightarrow> nat \<Rightarrow> nat" where
  "packed_row_bytes format columns =
     (case format of
        w2g128 \<Rightarrow> size_wrap (columns + 3) div 4
      | w3g128 \<Rightarrow> size_wrap (columns * 3 + 7) div 8
      | w4g128 \<Rightarrow> size_wrap (columns + 1) div 2
      | _ \<Rightarrow> 0)"

text \<open>
  The checks below compare the sizes of spans and vectors with \<open>size_t\<close> products. When a product wraps
  around and still matches, the loops run over a matrix that is larger than its storage, and they leave
  it: \<open>storage_fits\<close> is false, and the function has no defined value (\<open>None\<close>). A wrapped row size
  (W3 alone) makes the rows too short for their codes in the same way. The loops themselves are
  stated with the exact sizes, which \<open>storage_fits\<close> justifies.
\<close>

definition storage_fits :: "nat \<Rightarrow> quantization \<Rightarrow> nat \<Rightarrow> bool" where
  "storage_fits n format columns \<longleftrightarrow>
     n < 2 ^ 64 \<and> packed_row_bytes format columns = exact_row_bytes format columns"

text \<open>One group of a row: the maximum over the finite values, the scale, and the stored codes.\<close>

definition maximum_step :: "fp \<times> bool \<Rightarrow> fp \<Rightarrow> fp \<times> bool" where
  "maximum_step acc v =
     (if \<not> fp_finite v then (fst acc, True) else (fp_max (fst acc) (fp_abs v), snd acc))"

definition group_scale :: "quantization \<Rightarrow> fp list \<Rightarrow> nat \<Rightarrow> fp \<times> bool" where
  "group_scale format source grp =
     (let group_values = slice (grp * kGroupSize) kGroupSize source in
      case foldl maximum_step (Fin 0, False) group_values of
        (maximum, non_finite) \<Rightarrow> (choose_scale group_values maximum format, non_finite))"

definition store_group :: "quantization \<Rightarrow> fp list \<Rightarrow> fp \<Rightarrow> nat \<Rightarrow> bytes \<Rightarrow> bytes" where
  "store_group format source scale grp row =
     foldl (\<lambda>row offset.
       let column = grp * kGroupSize + offset in
       store_code row column (encode_value (source ! column) scale format) format) row [0..<kGroupSize]"

definition quantize_row :: "quantization \<Rightarrow> nat \<Rightarrow> fp list \<Rightarrow> bytes \<times> fp list \<times> bool" where
  "quantize_row format columns source =
     foldl (\<lambda>(row, scales, bad) grp.
       case group_scale format source grp of
         (scale, non_finite) \<Rightarrow>
           (store_group format source scale grp row, scales @ [scale], bad \<or> non_finite))
       (replicate (exact_row_bytes format columns) 0, [], False) [0..<columns div kGroupSize]"

text \<open>The rows are independent, so the parallel loop over them is a map.\<close>

definition quantize_rows :: "fp list \<Rightarrow> nat \<Rightarrow> nat \<Rightarrow> quantization \<Rightarrow> packed_matrix result" where
  "quantize_rows weights rows columns format =
     (let done = map (\<lambda>row. quantize_row format columns (slice (row * columns) columns weights)) [0..<rows] in
      if list_ex (\<lambda>(codes, scales, bad). bad) done
      then Err invalid_argument ''weight matrix contains a non-finite value''
      else Inr \<lparr> pm_rows = rows, pm_columns = columns, pm_format = format,
                 pm_codes = concat (map fst done), pm_scales = concat (map (fst \<circ> snd) done) \<rparr>)"

definition quantize_group128 ::
  "fp list \<Rightarrow> nat \<Rightarrow> nat \<Rightarrow> quantization \<Rightarrow> packed_matrix result option" where
  "quantize_group128 weights rows columns format =
     (if rows = 0 \<or> columns = 0 \<or> columns mod kGroupSize \<noteq> 0 \<or> length weights \<noteq> size_wrap (rows * columns)
      then Some (Err invalid_argument
        ''group-128 quantization requires nonzero dimensions, K divisible by 128, and an exact input span'')
      else if format \<noteq> w2g128 \<and> format \<noteq> w3g128 \<and> format \<noteq> w4g128
      then Some (Err unsupported ''only W2G128, W3G128, and W4G128 are implemented'')
      else if \<not> storage_fits (rows * columns) format columns then None
      else Some (quantize_rows weights rows columns format))"

definition matrix_row :: "packed_matrix \<Rightarrow> nat \<Rightarrow> bytes" where
  "matrix_row matrix row =
     (let row_bytes = exact_row_bytes (pm_format matrix) (pm_columns matrix) in
      slice (row * row_bytes) row_bytes (pm_codes matrix))"

definition dequantized_weight :: "packed_matrix \<Rightarrow> nat \<Rightarrow> nat \<Rightarrow> fp" where
  "dequantized_weight matrix row column =
     (if row \<ge> pm_rows matrix \<or> column \<ge> pm_columns matrix \<or> pm_columns matrix mod kGroupSize \<noteq> 0
      then Not_a_number
      else
        let code = load_code (matrix_row matrix row) column (pm_format matrix);
            scale = pm_scales matrix ! (row * (pm_columns matrix div kGroupSize) + column div kGroupSize)
        in f32_mul (f32_of_int (decode_value code (pm_format matrix))) scale)"

definition dequantize_rows :: "packed_matrix \<Rightarrow> fp list" where
  "dequantize_rows matrix =
     concat (map (\<lambda>row. map (dequantized_weight matrix row) [0..<pm_columns matrix]) [0..<pm_rows matrix])"

definition dequantize_group128 :: "packed_matrix \<Rightarrow> fp list result option" where
  "dequantize_group128 matrix =
     (let expected_codes = size_wrap (pm_rows matrix * packed_row_bytes (pm_format matrix) (pm_columns matrix));
          expected_scales = size_wrap (pm_rows matrix * (pm_columns matrix div kGroupSize))
      in if pm_rows matrix = 0 \<or> pm_columns matrix = 0 \<or> pm_columns matrix mod kGroupSize \<noteq> 0
          \<or> length (pm_codes matrix) \<noteq> expected_codes \<or> length (pm_scales matrix) \<noteq> expected_scales
      then Some (Err invalid_argument ''packed matrix metadata or storage is invalid'')
      else if \<not> storage_fits (pm_rows matrix * pm_columns matrix) (pm_format matrix) (pm_columns matrix) then None
      else Some (Inr (dequantize_rows matrix)))"

text \<open>One fragment of the tiled storage: 32 columns of one row. W3 codes are repacked into twelve
  consecutive bytes; the others are copied.\<close>

definition pack_w3_step :: "(nat \<Rightarrow> u8) \<Rightarrow> bytes \<Rightarrow> nat \<Rightarrow> bytes" where
  "pack_w3_step code out item =
     (let bit = item * 3; byte = bit div 8; shift = bit mod 8;
          out1 = or_byte byte (push_bit shift (code item)) out
      in if shift > 5 then or_byte (byte + 1) (drop_bit (8 - shift) (code item)) out1 else out1)"

definition pack_w3_fragment :: "(nat \<Rightarrow> u8) \<Rightarrow> bytes" where
  "pack_w3_fragment code = foldl (pack_w3_step code) (replicate 12 0) [0..<32]"

definition fragment_bytes :: "quantization \<Rightarrow> nat" where
  "fragment_bytes format = (if format = w2g128 then 8 else if format = w3g128 then 12 else 16)"

definition tile_fragment :: "packed_matrix \<Rightarrow> nat \<Rightarrow> nat \<Rightarrow> nat \<Rightarrow> bytes" where
  "tile_fragment matrix row grp k_tile =
     (if pm_format matrix = w3g128
      then pack_w3_fragment (\<lambda>item. load_code (matrix_row matrix row)
             (grp * kGroupSize + k_tile * 32 + item) w3g128)
      else
        let row_bytes = exact_row_bytes (pm_format matrix) (pm_columns matrix);
            n = fragment_bytes (pm_format matrix)
        in slice (row * row_bytes + grp * n * 4 + k_tile * n) n (pm_codes matrix))"

definition tile_rows :: "packed_matrix \<Rightarrow> gfx12_tiled_matrix" where
  "tile_rows matrix =
     (let groups = pm_columns matrix div kGroupSize in
      \<lparr> tm_rows = pm_rows matrix, tm_columns = pm_columns matrix, tm_format = pm_format matrix,
        tm_codes = concat (map (\<lambda>tile. concat (map (\<lambda>grp. concat (map (\<lambda>k_tile.
          concat (map (\<lambda>local_row. tile_fragment matrix (tile * 16 + local_row) grp k_tile) [0..<16]))
          [0..<4])) [0..<groups])) [0..<pm_rows matrix div 16]),
        tm_scales = concat (map (\<lambda>tile. concat (map (\<lambda>grp. map (\<lambda>local_row.
          pm_scales matrix ! ((tile * 16 + local_row) * groups + grp)) [0..<16])
          [0..<groups])) [0..<pm_rows matrix div 16]) \<rparr>)"

definition tile_group128_for_gfx12 :: "packed_matrix \<Rightarrow> gfx12_tiled_matrix result option" where
  "tile_group128_for_gfx12 matrix =
     (let row_bytes = packed_row_bytes (pm_format matrix) (pm_columns matrix);
          groups = pm_columns matrix div kGroupSize
      in if pm_rows matrix = 0 \<or> pm_columns matrix = 0 \<or> pm_rows matrix mod 16 \<noteq> 0
          \<or> pm_columns matrix mod kGroupSize \<noteq> 0
          \<or> (pm_format matrix \<noteq> w2g128 \<and> pm_format matrix \<noteq> w3g128 \<and> pm_format matrix \<noteq> w4g128)
          \<or> length (pm_codes matrix) \<noteq> size_wrap (pm_rows matrix * row_bytes)
          \<or> length (pm_scales matrix) \<noteq> size_wrap (pm_rows matrix * groups)
      then Some (Err invalid_argument
        ''gfx12 tiling requires valid W2G128/W3G128/W4G128 storage, N divisible by 16, and K divisible by 128'')
      else if \<not> storage_fits (pm_rows matrix * row_bytes) (pm_format matrix) (pm_columns matrix) then None
      else Some (Inr (tile_rows matrix)))"

section \<open>The same with unbounded sizes\<close>

text \<open>The reference for the proofs: the checks in exact arithmetic. Where the code has a value, it is this one.\<close>

definition exact_quantize :: "fp list \<Rightarrow> nat \<Rightarrow> nat \<Rightarrow> quantization \<Rightarrow> packed_matrix result" where
  "exact_quantize weights rows columns format =
     (if rows = 0 \<or> columns = 0 \<or> columns mod kGroupSize \<noteq> 0 \<or> length weights \<noteq> rows * columns
      then Err invalid_argument
        ''group-128 quantization requires nonzero dimensions, K divisible by 128, and an exact input span''
      else if format \<noteq> w2g128 \<and> format \<noteq> w3g128 \<and> format \<noteq> w4g128
      then Err unsupported ''only W2G128, W3G128, and W4G128 are implemented''
      else quantize_rows weights rows columns format)"

definition exact_tile :: "packed_matrix \<Rightarrow> gfx12_tiled_matrix result" where
  "exact_tile matrix =
     (let row_bytes = exact_row_bytes (pm_format matrix) (pm_columns matrix);
          groups = pm_columns matrix div kGroupSize
      in if pm_rows matrix = 0 \<or> pm_columns matrix = 0 \<or> pm_rows matrix mod 16 \<noteq> 0
          \<or> pm_columns matrix mod kGroupSize \<noteq> 0
          \<or> (pm_format matrix \<noteq> w2g128 \<and> pm_format matrix \<noteq> w3g128 \<and> pm_format matrix \<noteq> w4g128)
          \<or> length (pm_codes matrix) \<noteq> pm_rows matrix * row_bytes
          \<or> length (pm_scales matrix) \<noteq> pm_rows matrix * groups
      then Err invalid_argument
        ''gfx12 tiling requires valid W2G128/W3G128/W4G128 storage, N divisible by 16, and K divisible by 128''
      else Inr (tile_rows matrix))"

lemma size_wrap_small [simp]: "n < 2 ^ 64 \<Longrightarrow> size_wrap n = n"
  by (simp add: size_wrap_def)

lemma row_bytes_le: "columns mod kGroupSize = 0 \<Longrightarrow> exact_row_bytes format columns \<le> columns"
  by (cases "columns = 0") (auto simp: exact_row_bytes_def kGroupSize_def split: quantization.split)

lemma row_groups_le:
  assumes "columns mod kGroupSize = 0" and "format = w2g128 \<or> format = w3g128 \<or> format = w4g128"
  shows "columns div kGroupSize \<le> exact_row_bytes format columns"
  using assms by (auto simp: exact_row_bytes_def kGroupSize_def)

lemma packed_row_bytes_exact: "columns < 2 ^ 62 \<Longrightarrow> packed_row_bytes format columns = exact_row_bytes format columns"
  by (simp add: packed_row_bytes_def exact_row_bytes_def split: quantization.split)

lemma quantize_group128_exact:
  "quantize_group128 weights rows columns format = Some (Inr m) \<Longrightarrow> exact_quantize weights rows columns format = Inr m"
  by (auto simp: quantize_group128_def exact_quantize_def storage_fits_def split: if_splits)

lemma quantize_group128_some:
  assumes "storage_fits (rows * columns) format columns"
  shows "quantize_group128 weights rows columns format = Some (exact_quantize weights rows columns format)"
  using assms by (simp add: quantize_group128_def exact_quantize_def storage_fits_def)

lemma tile_group128_exact:
  assumes "tile_group128_for_gfx12 m = Some (Inr t)"
  shows "exact_tile m = Inr t"
proof -
  let ?rb = "exact_row_bytes (pm_format m) (pm_columns m)" and ?g = "pm_columns m div kGroupSize"
  have format: "pm_format m = w2g128 \<or> pm_format m = w3g128 \<or> pm_format m = w4g128"
    and columns: "pm_columns m mod kGroupSize = 0"
    using assms by (auto simp: tile_group128_for_gfx12_def Let_def split: if_splits)
  have size: "pm_rows m * ?rb < 2 ^ 64" and rb: "packed_row_bytes (pm_format m) (pm_columns m) = ?rb"
    using assms by (auto simp: tile_group128_for_gfx12_def Let_def storage_fits_def split: if_splits)
  have "pm_rows m * ?g < 2 ^ 64"
    using size mult_le_mono2 [OF row_groups_le [OF columns format], of "pm_rows m"] by linarith
  with size assms show ?thesis
    by (auto simp: tile_group128_for_gfx12_def exact_tile_def Let_def rb split: if_splits)
qed

section \<open>Where the bits of a code are stored\<close>

definition code_bits :: "quantization \<Rightarrow> nat" where
  "code_bits format = (case format of w2g128 \<Rightarrow> 2 | w3g128 \<Rightarrow> 3 | w4g128 \<Rightarrow> 4 | _ \<Rightarrow> 0)"

text \<open>Bit \<open>i\<close> of the code of a column: the byte of the row and the bit of that byte.\<close>

definition slot :: "quantization \<Rightarrow> nat \<Rightarrow> nat \<Rightarrow> nat \<times> nat" where
  "slot format c i =
     (case format of
        w2g128 \<Rightarrow> (c div 4, c mod 4 * 2 + i)
      | w3g128 \<Rightarrow> (c div 128 * 48 + i * 16 + c mod 128 div 8, c mod 128 mod 8)
      | w4g128 \<Rightarrow> (c div 2, c mod 2 * 4 + i)
      | _ \<Rightarrow> (0, 0))"

definition packed_format :: "quantization \<Rightarrow> bool" where
  "packed_format format \<longleftrightarrow> format = w2g128 \<or> format = w3g128 \<or> format = w4g128"

lemma packed_format_cases:
  assumes "packed_format format"
  obtains (W2) "format = w2g128" | (W3) "format = w3g128" | (W4) "format = w4g128"
  using assms by (auto simp: packed_format_def)

lemma div_mod_unique:
  fixes a b c d k :: nat
  assumes "a * k + b = c * k + d" and "b < k" and "d < k"
  shows "a = c" and "b = d"
proof -
  have "(a * k + b) div k = a" "(c * k + d) div k = c"
    using assms(2,3) by simp_all
  with assms(1) show "a = c" by simp
  with assms(1) show "b = d" by simp
qed

lemma div_mod_intro: "(a :: nat) = q * k + r \<Longrightarrow> r < k \<Longrightarrow> a div k = q \<and> a mod k = r"
  by simp

lemma slot_inject:
  assumes "packed_format format" and "slot format c i = slot format c' i'"
    and "i < code_bits format" and "i' < code_bits format"
  shows "c = c' \<and> i = i'"
  using assms(1)
proof (cases rule: packed_format_cases)
  case W2
  have "c div 4 = c' div 4" "c mod 4 * 2 + i = c' mod 4 * 2 + i'" "i < 2" "i' < 2"
    using assms(2-4) by (simp_all add: W2 slot_def code_bits_def)
  moreover from div_mod_unique [OF this(2-4)] have "c mod 4 = c' mod 4" "i = i'" .
  ultimately show ?thesis
    by (metis div_mult_mod_eq)
next
  case W4
  have "c div 2 = c' div 2" "c mod 2 * 4 + i = c' mod 2 * 4 + i'" "i < 4" "i' < 4"
    using assms(2-4) by (simp_all add: W4 slot_def code_bits_def)
  moreover from div_mod_unique [OF this(2-4)] have "c mod 2 = c' mod 2" "i = i'" .
  ultimately show ?thesis
    by (metis div_mult_mod_eq)
next
  case W3
  let ?m = "c mod 128" and ?m' = "c' mod 128"
  have i: "i < 3" "i' < 3"
    and bit: "?m mod 8 = ?m' mod 8"
    and byte: "(c div 128 * 3 + i) * 16 + ?m div 8 = (c' div 128 * 3 + i') * 16 + ?m' div 8"
    using assms(2-4) by (simp_all add: W3 slot_def code_bits_def algebra_simps)
  have "?m div 8 < 16" "?m' div 8 < 16"
    by (simp_all add: less_mult_imp_div_less)
  from div_mod_unique [OF byte this]
  have rest: "c div 128 * 3 + i = c' div 128 * 3 + i'" "?m div 8 = ?m' div 8" .
  from div_mod_unique [OF rest(1) i] have "c div 128 = c' div 128" "i = i'" .
  moreover have "?m = ?m'"
    using rest(2) bit by (metis div_mult_mod_eq)
  ultimately show ?thesis
    by (metis div_mult_mod_eq)
qed

lemma slot_bounds:
  assumes "packed_format format" and "c < columns" and "columns mod kGroupSize = 0" and "i < code_bits format"
  shows "fst (slot format c i) < exact_row_bytes format columns" and "snd (slot format c i) < 8"
proof -
  obtain g where g: "columns = g * 128"
    using assms(3) by (auto simp: kGroupSize_def dvd_def)
  have q: "c div 128 < g"
    using assms(2) g by (simp add: less_mult_imp_div_less)
  show "fst (slot format c i) < exact_row_bytes format columns"
    using assms(1)
  proof (cases rule: packed_format_cases)
    case W3
    have "c mod 128 div 8 < 16" "i < 3"
      using assms(4) by (simp_all add: W3 code_bits_def less_mult_imp_div_less)
    then have "c div 128 * 48 + i * 16 + c mod 128 div 8 < (c div 128 + 1) * 48"
      by simp
    also have "\<dots> \<le> g * 48"
      using q by (intro mult_le_mono1) simp
    finally show ?thesis
      by (simp add: W3 slot_def exact_row_bytes_def g)
  qed (use assms(2) g in \<open>simp_all add: slot_def exact_row_bytes_def\<close>)
  show "snd (slot format c i) < 8"
    using assms(1)
  proof (cases rule: packed_format_cases)
    case W2
    have "c mod 4 < 4" "i < 2"
      using assms(4) by (simp_all add: W2 code_bits_def)
    then show ?thesis
      by (simp add: W2 slot_def)
  next
    case W4
    have "c mod 2 < 2" "i < 4"
      using assms(4) by (simp_all add: W4 code_bits_def)
    then show ?thesis
      by (simp add: W4 slot_def)
  qed (simp add: slot_def)
qed

lemma small_masks: "(1 :: u8) = mask 1" "(3 :: u8) = mask 2" "(15 :: u8) = mask 4"
  by (simp_all add: mask_eq_exp_minus_1)

lemma upt_3: "[0..<3] = [0, 1, 2 :: nat]"
  by (simp add: upt_rec)

lemma less_3: "i < 3 \<longleftrightarrow> i = 0 \<or> i = 1 \<or> i = (2::nat)"
  by auto

lemma ex_less_3: "(\<exists>i < 3. P i) \<longleftrightarrow> P 0 \<or> P 1 \<or> P (2 :: nat)"
  by (auto simp: less_3)

lemma bit_push_one: "bit (push_bit p (x AND (1 :: u8))) i \<longleftrightarrow> i = p \<and> p < 8 \<and> bit x 0"
  by (auto simp: bit_push_bit_iff bit_and_iff bit_1_iff bit_exp_iff)

lemma bit_load_code:
  assumes "packed_format format"
  shows "bit (load_code row c format) i \<longleftrightarrow>
    i < code_bits format \<and> bit (row ! fst (slot format c i)) (snd (slot format c i))"
  using assms
proof (cases rule: packed_format_cases)
  case W3
  show ?thesis
    unfolding W3 load_code_def Let_def kGroupSize_def upt_3 foldl.simps quantization.case code_bits_def
      slot_def less_3
    by (simp only: bit_or_iff bit_push_one bit_drop_bit_eq fst_conv snd_conv bit_0_eq bot_apply simp_thms
        add_0_right o_apply) auto
qed (auto simp: load_code_def code_bits_def slot_def small_masks bit_and_iff bit_mask_iff
    bit_drop_bit_eq)

lemma length_or_byte [simp]: "length (or_byte k v row) = length row"
  by (simp add: or_byte_def)

lemma length_store_code [simp]: "length (store_code row c code format) = length row"
  by (simp add: store_code_def Let_def upt_3 split: quantization.split)

lemma bit_or_byte:
  "k < length row \<Longrightarrow> bit (or_byte j v row ! k) b \<longleftrightarrow> bit (row ! k) b \<or> (j = k \<and> bit v b)"
  by (cases "j = k") (auto simp: or_byte_def bit_or_iff)

lemma bit_store_code:
  assumes "packed_format format" and "k < length row" and "b < 8"
  shows "bit (store_code row c code format ! k) b \<longleftrightarrow>
    bit (row ! k) b \<or> (\<exists>i < code_bits format. slot format c i = (k, b) \<and> bit code i)"
  using assms(1)
proof (cases rule: packed_format_cases)
  case W2
  have "bit (push_bit (c mod 4 * 2) (code AND 3)) b \<longleftrightarrow> (\<exists>i < 2. c mod 4 * 2 + i = b \<and> bit code i)"
    using assms(3) by (auto simp: small_masks bit_push_bit_iff bit_and_iff bit_mask_iff
        intro: exI [of _ "b - c mod 4 * 2"])
  then show ?thesis
    using assms(2) by (auto simp: W2 store_code_def bit_or_byte code_bits_def slot_def)
next
  case W3
  show ?thesis
    using assms(2,3)
    unfolding W3 store_code_def Let_def kGroupSize_def upt_3 foldl.simps quantization.case code_bits_def
      slot_def ex_less_3
    by (simp only: bit_or_byte length_or_byte bit_push_one bit_drop_bit_eq fst_conv snd_conv prod.inject
        add_0_right o_apply) auto
next
  case W4
  have "bit (push_bit (c mod 2 * 4) (code AND 15)) b \<longleftrightarrow> (\<exists>i < 4. c mod 2 * 4 + i = b \<and> bit code i)"
    using assms(3) by (auto simp: small_masks bit_push_bit_iff bit_and_iff bit_mask_iff
        intro: exI [of _ "b - c mod 2 * 4"])
  then show ?thesis
    using assms(2) by (auto simp: W4 store_code_def bit_or_byte code_bits_def slot_def)
qed

section \<open>Packing loses nothing\<close>

definition fits :: "quantization \<Rightarrow> u8 \<Rightarrow> bool" where
  "fits format code \<longleftrightarrow> (\<forall>i. bit code i \<longrightarrow> i < code_bits format)"

text \<open>\<open>row_holds\<close>: the set bits of the row are exactly those of the codes of the columns in \<open>C\<close>.\<close>

definition row_holds :: "quantization \<Rightarrow> nat \<Rightarrow> nat set \<Rightarrow> (nat \<Rightarrow> u8) \<Rightarrow> bytes \<Rightarrow> bool" where
  "row_holds format columns C code row \<longleftrightarrow>
     length row = exact_row_bytes format columns \<and>
     (\<forall>k < length row. \<forall>b < 8. bit (row ! k) b \<longleftrightarrow>
        (\<exists>c \<in> C. \<exists>i < code_bits format. slot format c i = (k, b) \<and> bit (code c) i))"

lemma row_holds_empty: "row_holds format columns {} code (replicate (exact_row_bytes format columns) 0)"
  by (simp add: row_holds_def)

lemma row_holds_store:
  assumes "packed_format format" and "row_holds format columns C code row"
  shows "row_holds format columns (insert c C) code (store_code row c (code c) format)"
  using assms bit_store_code [OF assms(1)] by (fastforce simp: row_holds_def)

lemma row_holds_load:
  assumes "packed_format format" and "columns mod kGroupSize = 0" and "row_holds format columns C code row"
    and "c \<in> C" and "c < columns" and "fits format (code c)"
  shows "load_code row c format = code c"
proof (rule bit_word_eqI)
  fix i assume "i < LENGTH(8)"
  show "bit (load_code row c format) i \<longleftrightarrow> bit (code c) i"
  proof (cases "i < code_bits format")
    case True
    note b = slot_bounds [OF assms(1,5,2) True]
    have "bit (row ! fst (slot format c i)) (snd (slot format c i)) \<longleftrightarrow>
        (\<exists>c' \<in> C. \<exists>i' < code_bits format. slot format c' i' = slot format c i \<and> bit (code c') i')"
      using assms(3) b by (simp add: row_holds_def)
    also have "\<dots> \<longleftrightarrow> bit (code c) i"
      using slot_inject [OF assms(1)] True assms(4) by blast
    finally show ?thesis
      using True by (simp add: bit_load_code [OF assms(1)])
  next
    case False
    then show ?thesis
      using assms(6) by (auto simp: bit_load_code [OF assms(1)] fits_def)
  qed
qed

lemma row_holds_fold:
  assumes "packed_format format" and "row_holds format columns C code row"
  shows "row_holds format columns (C \<union> set cs) code
    (foldl (\<lambda>row c. store_code row c (code c) format) row cs)"
  using assms(2)
proof (induction cs arbitrary: C row)
  case (Cons c cs)
  from Cons.IH [OF row_holds_store [OF assms(1) Cons.prems, of c]] show ?case
    by simp
qed simp

lemma row_holds_cong:
  "row_holds format columns C code row \<Longrightarrow> (\<And>c. c \<in> C \<Longrightarrow> code c = code' c) \<Longrightarrow>
   row_holds format columns C code' row"
  by (auto simp: row_holds_def)

section \<open>The codes fit and decode to their level\<close>

lemma nearest_w2_levels: "nearest_w2 x \<in> {- 3, - 1, 1, 3}"
  by (simp add: nearest_w2_def nearest_w2_step_def Let_def)

lemma clamp_bounds: "lo \<le> hi \<Longrightarrow> lo \<le> clamp v lo hi \<and> clamp v lo hi \<le> hi"
  by (simp add: clamp_def)

definition level_of :: "fp \<Rightarrow> quantization \<Rightarrow> int" where
  "level_of normalized format =
     (case format of
        w2g128 \<Rightarrow> nearest_w2 normalized
      | w3g128 \<Rightarrow> clamp (int_of_fp (fp_nearbyint normalized)) (- 4) 3
      | w4g128 \<Rightarrow> clamp (int_of_fp (fp_nearbyint normalized)) (- 8) 7
      | _ \<Rightarrow> 0)"

definition codebook :: "quantization \<Rightarrow> int set" where
  "codebook format =
     (case format of w2g128 \<Rightarrow> {- 3, - 1, 1, 3} | w3g128 \<Rightarrow> {- 4..3} | w4g128 \<Rightarrow> {- 8..7} | _ \<Rightarrow> {})"

lemma fits_small: "unat code < 2 ^ code_bits format \<Longrightarrow> fits format code"
proof (unfold fits_def, intro allI impI)
  fix i assume small: "unat code < 2 ^ code_bits format" and "bit code i"
  then have "bit (take_bit (code_bits format) (unat code)) i"
    by (simp add: take_bit_nat_eq_self bit_unsigned_iff bit_imp_le_length)
  then show "i < code_bits format"
    by (simp add: bit_take_bit_iff)
qed

lemma encode_value_code:
  assumes "packed_format format"
  shows "fits format (encode_value v s format)
    \<and> decode_value (encode_value v s format) format = level_of (normalize v s) format"
  using assms
proof (cases rule: packed_format_cases)
  case W2
  define l where "l = nearest_w2 (normalize v s)"
  have l: "l = - 3 \<or> l = - 1 \<or> l = 1 \<or> l = 3"
    using nearest_w2_levels [of "normalize v s"] by (simp add: l_def)
  have e: "encode_value v s w2g128 = of_int ((l + 3) div 2)"
    by (simp add: encode_value_def l_def)
  have "fits w2g128 (of_int ((l + 3) div 2)) \<and> decode_value (of_int ((l + 3) div 2)) w2g128 = l"
    using l by (auto intro!: fits_small simp: decode_value_def code_bits_def)
  with e show ?thesis
    by (simp add: W2 level_of_def l_def)
next
  case W3
  define l where "l = clamp (int_of_fp (fp_nearbyint (normalize v s))) (- 4) 3"
  have "- 4 \<le> l" "l \<le> 3"
    using clamp_bounds [of "- 4" 3] by (simp_all add: l_def)
  then have "l \<in> {- 4, - 3, - 2, - 1, 0, 1, 2, 3}"
    by (simp only: insert_iff empty_iff) presburger
  then have "fits w3g128 (of_int (l + 4)) \<and> decode_value (of_int (l + 4)) w3g128 = l"
    by (auto intro!: fits_small simp: decode_value_def code_bits_def)
  then show ?thesis
    by (simp add: W3 level_of_def l_def encode_value_def)
next
  case W4
  define l where "l = clamp (int_of_fp (fp_nearbyint (normalize v s))) (- 8) 7"
  have "- 8 \<le> l" "l \<le> 7"
    using clamp_bounds [of "- 8" 7] by (simp_all add: l_def)
  then have "l \<in> {- 8, - 7, - 6, - 5, - 4, - 3, - 2, - 1, 0, 1, 2, 3, 4, 5, 6, 7}"
    by (simp only: insert_iff empty_iff) presburger
  then have "fits w4g128 (of_int (l AND 15)) \<and> decode_value (of_int (l AND 15)) w4g128 = l"
    by (auto intro!: fits_small simp: decode_value_def code_bits_def)
  then show ?thesis
    by (simp add: W4 level_of_def l_def encode_value_def)
qed

section \<open>The quantizer\<close>

definition scale_of :: "quantization \<Rightarrow> nat \<Rightarrow> fp list \<Rightarrow> nat \<Rightarrow> fp" where
  "scale_of format columns source c = fst (group_scale format source (c div kGroupSize))"

definition code_of :: "quantization \<Rightarrow> nat \<Rightarrow> fp list \<Rightarrow> nat \<Rightarrow> u8" where
  "code_of format columns source c = encode_value (source ! c) (scale_of format columns source c) format"

lemma foldl_cong_set:
  "(\<And>x y. y \<in> set ys \<Longrightarrow> f x y = g x y) \<Longrightarrow> foldl f x ys = foldl g x ys"
  by (induction ys arbitrary: x) auto

lemma foldl_map: "foldl f x (map g ys) = foldl (\<lambda>x y. f x (g y)) x ys"
  by (induction ys arbitrary: x) auto

lemma store_group_fold:
  "store_group format source (fst (group_scale format source g)) g row
   = foldl (\<lambda>row c. store_code row c (code_of format columns source c) format) row
       [g * kGroupSize..<g * kGroupSize + kGroupSize]"
proof -
  have "[g * kGroupSize..<g * kGroupSize + kGroupSize] = map (\<lambda>j. g * kGroupSize + j) [0..<kGroupSize]"
    by (rule nth_equalityI) auto
  moreover have "(g * kGroupSize + j) div kGroupSize = g" if "j < kGroupSize" for j
    using that by (simp add: kGroupSize_def)
  ultimately show ?thesis
    by (auto simp: store_group_def foldl_map code_of_def scale_of_def Let_def intro: foldl_cong_set)
qed

lemma quantize_row_groups:
  assumes "packed_format format"
  shows "foldl (\<lambda>(row, scales, bad) g.
       case group_scale format source g of
         (scale, non_finite) \<Rightarrow>
           (store_group format source scale g row, scales @ [scale], bad \<or> non_finite))
       (replicate (exact_row_bytes format columns) 0, [], False) [0..<n] = (row, scales, bad) \<Longrightarrow>
    row_holds format columns {..<n * kGroupSize} (code_of format columns source) row
    \<and> scales = map (\<lambda>g. fst (group_scale format source g)) [0..<n]
    \<and> (bad \<longleftrightarrow> (\<exists>g < n. snd (group_scale format source g)))"
proof (induction n arbitrary: row scales bad)
  case 0
  then show ?case
    by (auto simp: row_holds_empty)
next
  case (Suc n)
  let ?f = "\<lambda>(row, scales, bad) g.
       case group_scale format source g of
         (scale, non_finite) \<Rightarrow>
           (store_group format source scale g row, scales @ [scale], bad \<or> non_finite)"
  obtain row1 scales1 bad1 where
    1: "foldl ?f (replicate (exact_row_bytes format columns) 0, [], False) [0..<n] = (row1, scales1, bad1)"
    by (cases "foldl ?f (replicate (exact_row_bytes format columns) 0, [], False) [0..<n]") auto
  note IH = Suc.IH [OF 1]
  have res: "row = store_group format source (fst (group_scale format source n)) n row1"
    "scales = scales1 @ [fst (group_scale format source n)]"
    "bad \<longleftrightarrow> bad1 \<or> snd (group_scale format source n)"
    using Suc.prems 1 by (auto simp: case_prod_unfold)
  have "row_holds format columns ({..<n * kGroupSize} \<union> set [n * kGroupSize..<n * kGroupSize + kGroupSize])
      (code_of format columns source) row"
    unfolding res(1) store_group_fold [where columns = columns]
    by (rule row_holds_fold [OF assms]) (use IH in simp)
  moreover have "{..<n * kGroupSize} \<union> set [n * kGroupSize..<n * kGroupSize + kGroupSize] = {..<Suc n * kGroupSize}"
    by auto
  ultimately show ?case
    using IH res(2,3) by (auto simp: less_Suc_eq)
qed

lemma quantize_row_result:
  assumes "packed_format format" and "columns mod kGroupSize = 0"
    and "quantize_row format columns source = (row, scales, bad)"
  shows "length row = exact_row_bytes format columns"
    and "scales = map (\<lambda>g. fst (group_scale format source g)) [0..<columns div kGroupSize]"
    and "c < columns \<Longrightarrow> load_code row c format = code_of format columns source c"
proof -
  have all: "columns div kGroupSize * kGroupSize = columns"
    using assms(2) by (metis add_0_right div_mult_mod_eq)
  note q = quantize_row_groups [OF assms(1) assms(3) [unfolded quantize_row_def]]
  have holds: "row_holds format columns {..<columns} (code_of format columns source) row"
    using q by (simp add: all)
  then show "length row = exact_row_bytes format columns"
    by (simp add: row_holds_def)
  show "scales = map (\<lambda>g. fst (group_scale format source g)) [0..<columns div kGroupSize]"
    using q by simp
  show "load_code row c format = code_of format columns source c" if "c < columns"
    using that encode_value_code [OF assms(1)]
    by (intro row_holds_load [OF assms(1,2) holds]) (simp_all add: code_of_def)
qed

lemma row_end: "r < n \<Longrightarrow> r * w + w \<le> n * (w :: nat)"
  by (metis Suc_leI add.commute mult_Suc mult_le_mono1)

lemma slice_mem:
  assumes "off + n \<le> length bs" and "i < n"
  shows "bs ! (off + i) \<in> set (slice off n bs)"
  using nth_mem [of i "slice off n bs"] assms by (simp add: slice_nth)

lemma concat_slice:
  "(\<And>i. i < n \<Longrightarrow> length (f i) = w) \<Longrightarrow> k < n \<Longrightarrow> slice (k * w) w (concat (map f [0..<n])) = f k"
proof (induction n)
  case 0
  then show ?case by simp
next
  case (Suc n)
  have len: "length (concat (map f [0..<n])) = n * w"
  proof -
    have "map (length \<circ> f) [0..<n] = replicate n w"
      using Suc.prems(1) by (intro nth_equalityI) auto
    then show ?thesis
      by (simp add: length_concat sum_list_replicate)
  qed
  show ?case
  proof (cases "k = n")
    case True
    then show ?thesis
      using Suc.prems(1) [of n] by (simp add: slice_def len)
  next
    case False
    then have "k < n"
      using Suc.prems(2) by simp
    moreover from this have "(k + 1) * w \<le> n * w"
      by (intro mult_le_mono1) simp
    ultimately show ?thesis
      using Suc by (simp add: slice_within_left len)
  qed
qed

lemma length_concat_const:
  "(\<And>i. i < n \<Longrightarrow> length (f i) = w) \<Longrightarrow> length (concat (map f [0..<n])) = n * w"
proof -
  assume "\<And>i. i < n \<Longrightarrow> length (f i) = w"
  then have "map (length \<circ> f) [0..<n] = replicate n w"
    by (intro nth_equalityI) auto
  then show ?thesis
    by (simp add: length_concat sum_list_replicate)
qed

lemma concat_nth:
  assumes "\<And>i. i < n \<Longrightarrow> length (f i) = w" and "k < n" and "j < w"
  shows "concat (map f [0..<n]) ! (k * w + j) = f k ! j"
proof -
  have "k * w + w \<le> n * w"
    using assms(2) by (metis Suc_leI add.commute mult_Suc mult_le_mono1)
  then have "slice (k * w) w (concat (map f [0..<n])) ! j = concat (map f [0..<n]) ! (k * w + j)"
    using assms(3) length_concat_const [OF assms(1)] by (intro slice_nth) simp_all
  then show ?thesis
    using concat_slice [OF assms(1,2)] by simp
qed

definition source_row :: "fp list \<Rightarrow> nat \<Rightarrow> nat \<Rightarrow> fp list" where
  "source_row weights columns row = slice (row * columns) columns weights"

lemma exact_quantize_Inr:
  assumes "exact_quantize weights rows columns format = Inr m"
  shows "packed_format format" and "columns mod kGroupSize = 0" and "length weights = rows * columns"
    and "pm_rows m = rows" and "pm_columns m = columns" and "pm_format m = format"
    and "length (pm_codes m) = rows * exact_row_bytes format columns"
    and "length (pm_scales m) = rows * (columns div kGroupSize)"
    and "r < rows \<Longrightarrow> c < columns \<Longrightarrow>
      load_code (matrix_row m r) c format = code_of format columns (source_row weights columns r) c"
    and "r < rows \<Longrightarrow> c < columns \<Longrightarrow>
      pm_scales m ! (r * (columns div kGroupSize) + c div kGroupSize)
      = scale_of format columns (source_row weights columns r) c"
proof -
  let ?q = "\<lambda>r. quantize_row format columns (source_row weights columns r)"
  show fmt: "packed_format format" and div: "columns mod kGroupSize = 0"
    and "length weights = rows * columns"
    and "pm_rows m = rows" and fields: "pm_columns m = columns" "pm_format m = format"
    using assms by (auto simp: exact_quantize_def quantize_rows_def packed_format_def Let_def split: if_splits)
  have m: "pm_codes m = concat (map (\<lambda>r. fst (?q r)) [0..<rows])"
    "pm_scales m = concat (map (\<lambda>r. fst (snd (?q r))) [0..<rows])"
    using assms
    by (auto simp: exact_quantize_def quantize_rows_def Let_def source_row_def comp_def split: if_splits)
  have row: "length (fst (?q r)) = exact_row_bytes format columns"
    "fst (snd (?q r)) = map (\<lambda>g. fst (group_scale format (source_row weights columns r) g)) [0..<columns div kGroupSize]"
    "c < columns \<Longrightarrow> load_code (fst (?q r)) c format = code_of format columns (source_row weights columns r) c" for r c
  proof -
    have "?q r = (fst (?q r), fst (snd (?q r)), snd (snd (?q r)))"
      by simp
    note q = quantize_row_result [OF fmt div this]
    show "length (fst (?q r)) = exact_row_bytes format columns"
      by (rule q(1))
    show "fst (snd (?q r)) = map (\<lambda>g. fst (group_scale format (source_row weights columns r) g)) [0..<columns div kGroupSize]"
      by (rule q(2))
    show "c < columns \<Longrightarrow> load_code (fst (?q r)) c format = code_of format columns (source_row weights columns r) c"
      by (rule q(3))
  qed
  show "length (pm_codes m) = rows * exact_row_bytes format columns"
    unfolding m by (rule length_concat_const) (simp add: row)
  show "length (pm_scales m) = rows * (columns div kGroupSize)"
    unfolding m by (rule length_concat_const) (simp add: row)
  show "load_code (matrix_row m r) c format = code_of format columns (source_row weights columns r) c"
    if "r < rows" "c < columns"
  proof -
    have "matrix_row m r = fst (?q r)"
      using concat_slice [of rows "\<lambda>r. fst (?q r)" "exact_row_bytes format columns" r] that(1)
      by (simp add: matrix_row_def fields m row Let_def)
    with row(3) [OF that(2)] show ?thesis by simp
  qed
  show "pm_scales m ! (r * (columns div kGroupSize) + c div kGroupSize)
      = scale_of format columns (source_row weights columns r) c" if "r < rows" "c < columns"
  proof -
    have g: "c div kGroupSize < columns div kGroupSize"
      using that(2) div by (simp add: less_mult_imp_div_less div_mult_div_if_dvd dvd_eq_mod_eq_0)
    show ?thesis
      unfolding m
      by (subst concat_nth [of rows _ "columns div kGroupSize"]) (use that(1) g in \<open>simp_all add: row scale_of_def\<close>)
  qed
qed

lemma quantized_weight_is_level_times_scale:
  assumes "exact_quantize weights rows columns format = Inr m" and "r < rows" and "c < columns"
  shows "dequantized_weight m r c =
    (let s = scale_of format columns (source_row weights columns r) c
     in f32_mul (f32_of_int (level_of (normalize (weights ! (r * columns + c)) s) format)) s)"
proof -
  note q = exact_quantize_Inr [OF assms(1)]
  have "r * columns + columns \<le> rows * columns"
    using assms(2) by (metis Suc_leI add.commute mult_Suc mult_le_mono1)
  then have "source_row weights columns r ! c = weights ! (r * columns + c)"
    unfolding source_row_def using assms(3) q(3) by (intro slice_nth) simp_all
  then show ?thesis
    using assms(2,3) q(1,2,4-6) encode_value_code [OF q(1)]
    by (simp add: dequantized_weight_def Let_def q(9,10) [OF assms(2,3)] code_of_def)
qed

lemma maximum_fold_bad: "snd (foldl maximum_step (x, bad) vs) \<longleftrightarrow> bad \<or> (\<exists>v \<in> set vs. \<not> fp_finite v)"
  by (induction vs arbitrary: x bad) (auto simp: maximum_step_def)

lemma group_scale_bad:
  "snd (group_scale format source g) \<longleftrightarrow> (\<exists>v \<in> set (slice (g * kGroupSize) kGroupSize source). \<not> fp_finite v)"
  using maximum_fold_bad [of "Fin 0" False "slice (g * kGroupSize) kGroupSize source"]
  by (simp add: group_scale_def Let_def case_prod_unfold)

lemma quantize_row_bad:
  assumes "packed_format format" and "columns mod kGroupSize = 0" and "length source = columns"
  shows "snd (snd (quantize_row format columns source)) \<longleftrightarrow> (\<exists>v \<in> set source. \<not> fp_finite v)"
proof -
  let ?G = "columns div kGroupSize"
  have all: "?G * kGroupSize = columns"
    using assms(2) by (metis add_0_right div_mult_mod_eq)
  have "quantize_row format columns source = (fst (quantize_row format columns source),
      fst (snd (quantize_row format columns source)), snd (snd (quantize_row format columns source)))"
    by simp
  from quantize_row_groups [OF assms(1) this [unfolded quantize_row_def]]
  have "snd (snd (quantize_row format columns source)) \<longleftrightarrow>
      (\<exists>g < ?G. \<exists>v \<in> set (slice (g * kGroupSize) kGroupSize source). \<not> fp_finite v)"
    unfolding quantize_row_def by (simp add: group_scale_bad)
  also have "\<dots> \<longleftrightarrow> (\<exists>v \<in> set source. \<not> fp_finite v)"
  proof
    assume "\<exists>v \<in> set source. \<not> fp_finite v"
    then obtain k where k: "k < columns" "\<not> fp_finite (source ! k)"
      by (auto simp: in_set_conv_nth assms(3))
    have g: "k div kGroupSize < ?G"
      using k(1) all by (metis less_mult_imp_div_less)
    have "k div kGroupSize * kGroupSize + kGroupSize \<le> length source"
      using row_end [OF g, of kGroupSize] all assms(3) by simp
    from slice_mem [OF this, of "k mod kGroupSize"]
    have "source ! k \<in> set (slice (k div kGroupSize * kGroupSize) kGroupSize source)"
      by (simp add: kGroupSize_def)
    with g k(2) show "\<exists>g < ?G. \<exists>v \<in> set (slice (g * kGroupSize) kGroupSize source). \<not> fp_finite v"
      by blast
  next
    assume "\<exists>g < ?G. \<exists>v \<in> set (slice (g * kGroupSize) kGroupSize source). \<not> fp_finite v"
    then show "\<exists>v \<in> set source. \<not> fp_finite v"
      by (auto simp: slice_def dest!: in_set_takeD in_set_dropD)
  qed
  finally show ?thesis .
qed

text \<open>A span of \<open>float\<close>, four bytes each, holds fewer than \<open>2 ^ 61\<close> of them.\<close>

definition quantizable :: "fp list \<Rightarrow> nat \<Rightarrow> nat \<Rightarrow> quantization \<Rightarrow> bool" where
  "quantizable weights rows columns format \<longleftrightarrow> packed_format format \<and> rows \<noteq> 0 \<and> columns \<noteq> 0
     \<and> columns mod kGroupSize = 0 \<and> length weights = rows * columns \<and> rows * columns < 2 ^ 61"

lemma rows_cover:
  assumes "length ws = rows * columns"
  shows "(\<exists>r < rows. \<exists>v \<in> set (source_row ws columns r). P v) \<longleftrightarrow> (\<exists>v \<in> set ws. P v)"
proof
  assume "\<exists>v \<in> set ws. P v"
  then obtain k where k: "k < rows * columns" "P (ws ! k)"
    by (auto simp: in_set_conv_nth assms)
  then have r: "k div columns < rows" and c: "k mod columns < columns"
    by (auto simp: less_mult_imp_div_less intro!: mod_less_divisor gr0I)
  have "k div columns * columns + columns \<le> length ws"
    using row_end [OF r] assms by simp
  from slice_mem [OF this c] have "ws ! k \<in> set (source_row ws columns (k div columns))"
    by (simp add: source_row_def)
  with r k(2) show "\<exists>r < rows. \<exists>v \<in> set (source_row ws columns r). P v"
    by blast
qed (auto simp: source_row_def slice_def dest!: in_set_takeD in_set_dropD)

lemma exact_quantize_cases:
  assumes "quantizable weights rows columns format"
  shows "(\<exists>v \<in> set weights. \<not> fp_finite v) \<longrightarrow> exact_quantize weights rows columns format
      = Err invalid_argument ''weight matrix contains a non-finite value''"
    and "(\<forall>v \<in> set weights. fp_finite v) \<longrightarrow> (\<exists>m. exact_quantize weights rows columns format = Inr m)"
proof -
  note q = assms [unfolded quantizable_def]
  let ?done = "map (\<lambda>row. quantize_row format columns (slice (row * columns) columns weights)) [0..<rows]"
  have "list_ex (\<lambda>(codes, scales, bad). bad) ?done
      \<longleftrightarrow> (\<exists>r < rows. snd (snd (quantize_row format columns (source_row weights columns r))))"
    by (auto simp: list_ex_iff source_row_def case_prod_unfold)
  also have "\<dots> \<longleftrightarrow> (\<exists>r < rows. \<exists>v \<in> set (source_row weights columns r). \<not> fp_finite v)"
  proof -
    have "length (source_row weights columns r) = columns" if "r < rows" for r
      using row_end [OF that, of columns] q by (simp add: source_row_def)
    then have "snd (snd (quantize_row format columns (source_row weights columns r)))
        \<longleftrightarrow> (\<exists>v \<in> set (source_row weights columns r). \<not> fp_finite v)" if "r < rows" for r
      using that q by (intro quantize_row_bad) simp_all
    then show ?thesis
      by (simp cong: conj_cong)
  qed
  also have "\<dots> \<longleftrightarrow> (\<exists>v \<in> set weights. \<not> fp_finite v)"
    using q by (intro rows_cover) simp
  finally have bad: "list_ex (\<lambda>(codes, scales, bad). bad) ?done \<longleftrightarrow> (\<exists>v \<in> set weights. \<not> fp_finite v)" .
  have ok: "\<not> (rows = 0 \<or> columns = 0 \<or> columns mod kGroupSize \<noteq> 0 \<or> length weights \<noteq> rows * columns)"
    "\<not> (format \<noteq> w2g128 \<and> format \<noteq> w3g128 \<and> format \<noteq> w4g128)"
    using q by (auto simp: packed_format_def)
  show "(\<exists>v \<in> set weights. \<not> fp_finite v) \<longrightarrow> exact_quantize weights rows columns format
      = Err invalid_argument ''weight matrix contains a non-finite value''"
    unfolding exact_quantize_def quantize_rows_def if_not_P [OF ok(1)] if_not_P [OF ok(2)] Let_def bad by simp
  show "(\<forall>v \<in> set weights. fp_finite v) \<longrightarrow> (\<exists>m. exact_quantize weights rows columns format = Inr m)"
    unfolding exact_quantize_def quantize_rows_def if_not_P [OF ok(1)] if_not_P [OF ok(2)] Let_def bad by auto
qed

text \<open>The level is the nearest one.\<close>

lemma clamp_nearest:
  assumes "lo \<le> l" and "l \<le> hi"
  shows "\<bar>x - of_int (clamp (round_even x) lo hi)\<bar> \<le> \<bar>x - of_int l\<bar>"
proof -
  have near: "\<bar>x - of_int (round_even x)\<bar> \<le> 1 / 2"
    by (rule round_even_nearest)
  have best: "\<bar>x - of_int (round_even x)\<bar> \<le> \<bar>x - of_int k\<bar>" for k
  proof (cases "k = round_even x")
    case False
    then have "1 \<le> \<bar>of_int (round_even x) - of_int k :: rat\<bar>"
      by (metis abs_minus_commute diff_numeral_special(9) leI less_le_not_le linorder_neqE_linordered_idom of_int_1_le_iff of_int_abs of_int_diff zabs_less_one_iff right_minus_eq)
    with near show ?thesis
      by linarith
  qed simp
  consider "round_even x < lo" | "hi < round_even x" | "lo \<le> round_even x" "round_even x \<le> hi"
    by linarith
  then show ?thesis
  proof cases
    case 1
    then have "round_even x + 1 \<le> lo"
      by simp
    then have "(of_int (round_even x + 1) :: rat) \<le> of_int lo"
      by (simp only: of_int_le_iff)
    moreover have "(of_int lo :: rat) \<le> of_int l"
      using assms(1) by simp
    moreover have "clamp (round_even x) lo hi = lo"
      using 1 by (simp add: clamp_def)
    ultimately show ?thesis
      using near by (simp only: of_int_add of_int_1)
  next
    case 2
    then have "hi + 1 \<le> round_even x"
      by simp
    then have "(of_int (hi + 1) :: rat) \<le> of_int (round_even x)"
      by (simp only: of_int_le_iff)
    moreover have "(of_int l :: rat) \<le> of_int hi"
      using assms(2) by simp
    moreover have "clamp (round_even x) lo hi = hi"
      using 2 assms by (simp add: clamp_def)
    ultimately show ?thesis
      using near by (simp only: of_int_add of_int_1)
  next
    case 3
    then show ?thesis
      using best by (simp add: clamp_def)
  qed
qed

text \<open>The rounded value fits \<open>int\<close>: without this the conversion in \<open>encode_value\<close> is undefined.\<close>

definition int_range :: "rat \<Rightarrow> bool" where
  "int_range x \<longleftrightarrow> \<bar>round_even x\<bar> < 2 ^ 31"

lemma int_of_nearbyint: "int_range x \<Longrightarrow> int_of_fp (Fin (of_int (round_even x))) = round_even x"
  by (simp add: int_of_fp_def int_range_def Let_def abs_less_iff)

definition level_error :: "quantization \<Rightarrow> rat \<Rightarrow> int \<Rightarrow> fp" where
  "level_error format x l =
     (if format = w2g128 then fp_abs (f32_sub (Fin x) (f32_of_int l)) else Fin \<bar>x - of_int l\<bar>)"

lemma fp_round_not_nan: "fp_round f x \<noteq> Not_a_number"
  by (simp add: fp_round_def Let_def)

text \<open>The order on the values that are numbers.\<close>

lemma fp_less_trans_not:
  "a \<noteq> Not_a_number \<Longrightarrow> b \<noteq> Not_a_number \<Longrightarrow> c \<noteq> Not_a_number \<Longrightarrow>
   \<not> fp_less b a \<Longrightarrow> \<not> fp_less c b \<Longrightarrow> \<not> fp_less c a"
  by (cases a; cases b; cases c) auto

lemma fp_less_asym: "fp_less a b \<Longrightarrow> \<not> fp_less b a"
  by (cases a; cases b) auto

lemma fp_abs_nan [simp]: "fp_abs a = Not_a_number \<longleftrightarrow> a = Not_a_number"
  by (cases a) auto

definition w2_error :: "fp \<Rightarrow> int \<Rightarrow> fp" where
  "w2_error x l = fp_abs (f32_sub x (f32_of_int l))"

lemma w2_scan:
  assumes "\<And>l. l \<in> set ls \<Longrightarrow> w2_error x l \<noteq> Not_a_number" and "e \<noteq> Not_a_number"
    and "foldl (nearest_w2_step x) (b, e) ls = (b', e')"
  shows "e' \<noteq> Not_a_number \<and> \<not> fp_less e e' \<and> (\<forall>l \<in> set ls. \<not> fp_less (w2_error x l) e')
    \<and> ((b', e') = (b, e) \<or> (b' \<in> set ls \<and> e' = w2_error x b'))"
  using assms
proof (induction ls arbitrary: b e)
  case Nil
  then show ?case by (cases e) auto
next
  case (Cons l ls)
  let ?n = "w2_error x l"
  have step: "nearest_w2_step x (b, e) l = (if fp_less ?n e then (l, ?n) else (b, e))"
    by (simp add: nearest_w2_step_def w2_error_def Let_def)
  show ?case
  proof (cases "fp_less ?n e")
    case True
    with Cons.prems step have "foldl (nearest_w2_step x) (l, ?n) ls = (b', e')"
      by simp
    from Cons.IH [OF _ _ this] Cons.prems(1)
    have ih: "e' \<noteq> Not_a_number" "\<not> fp_less ?n e'" "\<forall>l \<in> set ls. \<not> fp_less (w2_error x l) e'"
      "(b', e') = (l, ?n) \<or> (b' \<in> set ls \<and> e' = w2_error x b')"
      by simp_all
    moreover have "\<not> fp_less e e'"
      using fp_less_trans_not [of e' ?n e] fp_less_asym [OF True] ih(1,2) Cons.prems(1,2) by simp
    ultimately show ?thesis by auto
  next
    case False
    with Cons.prems step have "foldl (nearest_w2_step x) (b, e) ls = (b', e')"
      by simp
    from Cons.IH [OF _ _ this] Cons.prems(1,2)
    have ih: "e' \<noteq> Not_a_number" "\<not> fp_less e e'" "\<forall>l \<in> set ls. \<not> fp_less (w2_error x l) e'"
      "(b', e') = (b, e) \<or> (b' \<in> set ls \<and> e' = w2_error x b')"
      by simp_all
    moreover have "\<not> fp_less ?n e'"
      using fp_less_trans_not [of e' e ?n] ih(1,2) False Cons.prems(1,2) by simp
    ultimately show ?thesis by auto
  qed
qed

lemma f32_small_ints:
  "f32_of_int (- 3) = Fin (- 3)" "f32_of_int (- 1) = Fin (- 1)" "f32_of_int 1 = Fin 1" "f32_of_int 3 = Fin 3"
  by code_simp+

lemma w2_level_nearest:
  assumes "l \<in> {- 3, - 1, 1, 3}"
  shows "\<not> fp_less (w2_error (Fin x) l) (w2_error (Fin x) (nearest_w2 (Fin x)))"
proof -
  have nan: "w2_error (Fin x) k \<noteq> Not_a_number" if "k \<in> set [- 3, - 1, 1, 3]" for k
    using that by (auto simp: w2_error_def fp_sub_def f32_small_ints fp_round_not_nan)
  obtain b e where scan: "foldl (nearest_w2_step (Fin x)) (- 3, Pos_inf) [- 3, - 1, 1, 3] = (b, e)"
    by (cases "foldl (nearest_w2_step (Fin x)) (- 3, Pos_inf) [- 3, - 1, 1, 3]")
  from w2_scan [OF nan _ scan]
  have e: "e \<noteq> Not_a_number" "\<forall>l \<in> set [- 3, - 1, 1, 3]. \<not> fp_less (w2_error (Fin x) l) e"
    "(b, e) = (- 3, Pos_inf) \<or> e = w2_error (Fin x) b"
    by auto
  have b: "nearest_w2 (Fin x) = b"
    using arg_cong [OF scan, of fst] by (simp only: nearest_w2_def fst_conv)
  have "e = w2_error (Fin x) b"
  proof (cases "(b, e) = (- 3, Pos_inf)")
    case True
    with e(2) have "\<not> fp_less (w2_error (Fin x) (- 3)) Pos_inf"
      by simp
    with True nan [of "- 3"] show ?thesis
      by (cases "w2_error (Fin x) (- 3)") (auto simp: w2_error_def elim: fp_abs.elims)
  qed (use e(3) in blast)
  with e(2) assms b show ?thesis
    by auto
qed

text \<open>
  The encoder picks a nearest level: when the normalized value is a number \<open>x\<close> (and, for W3
  and W4, its nearest integer fits \<open>int\<close>), the code fits its bits, decodes to a level of the codebook,
  and no other level of the codebook has a smaller error; for W2 the errors are the rounded
  differences that the code compares.
\<close>

theorem encoded_level_is_nearest:
  assumes "packed_format format" and "normalize v s = Fin x" and "format = w2g128 \<or> int_range x"
    and "l \<in> codebook format"
  shows "fits format (encode_value v s format)
    \<and> decode_value (encode_value v s format) format \<in> codebook format
    \<and> \<not> fp_less (level_error format x l)
        (level_error format x (decode_value (encode_value v s format) format))"
proof -
  note e = encode_value_code [OF assms(1), of v s]
  have "level_of (Fin x) format \<in> codebook format
    \<and> \<not> fp_less (level_error format x l) (level_error format x (level_of (Fin x) format))"
    using assms(1)
  proof (cases rule: packed_format_cases)
    case W2
    then show ?thesis
      using w2_level_nearest [of l x] assms(4) nearest_w2_levels [of "Fin x"]
      by (simp add: level_of_def codebook_def level_error_def w2_error_def)
  next
    case W3
    then have "int_range x" "- 4 \<le> l" "l \<le> 3"
      using assms(3,4) by (simp_all add: codebook_def)
    then show ?thesis
      using clamp_nearest [of "- 4" l 3 x] clamp_bounds [of "- 4" 3]
      by (simp add: W3 level_of_def codebook_def level_error_def int_of_nearbyint)
  next
    case W4
    then have "int_range x" "- 8 \<le> l" "l \<le> 7"
      using assms(3,4) by (simp_all add: codebook_def)
    then show ?thesis
      using clamp_nearest [of "- 8" l 7 x] clamp_bounds [of "- 8" 7]
      by (simp add: W4 level_of_def codebook_def level_error_def int_of_nearbyint)
  qed
  with e assms(2) show ?thesis
    by simp
qed

section \<open>Tiling\<close>

text \<open>In a fragment the codes of the 32 columns follow each other without gaps: bit \<open>i\<close> of the
  code of an item is bit \<open>item * code_bits + i\<close> of the fragment.\<close>

definition fragment_bit :: "quantization \<Rightarrow> bytes \<Rightarrow> nat \<Rightarrow> nat \<Rightarrow> bool" where
  "fragment_bit format fragment item i =
     (let p = item * code_bits format + i in bit (fragment ! (p div 8)) (p mod 8))"

lemma length_pack_w3_step [simp]: "length (pack_w3_step code out item) = length out"
  by (simp add: pack_w3_step_def Let_def)

lemma bit_pack_w3_step:
  assumes "k < length out" and "b < 8" and "fits w3g128 (code item)"
  shows "bit (pack_w3_step code out item ! k) b \<longleftrightarrow>
    bit (out ! k) b \<or> (\<exists>i. item * 3 + i = k * 8 + b \<and> bit (code item) i)"
proof -
  define q r where "q = item * 3 div 8" and "r = item * 3 mod 8"
  have p: "item * 3 = q * 8 + r" "r < 8"
    by (simp_all add: q_def r_def)
  have lo: "bit (push_bit r (code item)) b \<longleftrightarrow> (\<exists>i. q * 8 + r + i = q * 8 + b \<and> bit (code item) i)"
    using assms(2) by (auto simp: bit_push_bit_iff intro: exI [of _ "b - r"])
  have hi: "bit (drop_bit (8 - r) (code item)) b \<longleftrightarrow> (\<exists>i. q * 8 + r + i = (q + 1) * 8 + b \<and> bit (code item) i)"
  proof -
    have "q * 8 + r + i = (q + 1) * 8 + b \<longleftrightarrow> i = 8 - r + b" for i
      using p(2) by auto
    then show ?thesis
      by (simp add: bit_drop_bit_eq)
  qed
  have none: "\<not> bit (code item) i" if "q * 8 + r + i = k * 8 + b" "k \<noteq> q" "k \<noteq> q + 1 \<or> r \<le> 5" for i
  proof
    assume "bit (code item) i"
    then have "i < 3"
      using assms(3) by (simp add: fits_def code_bits_def)
    then have le: "r + i < 10" "k \<noteq> q + 1 \<or> r + i < 8"
      using p(2) that(3) by auto
    from that(2) consider "k + 1 \<le> q" | "k = q + 1" | "q + 2 \<le> k"
      by fastforce
    then show False
      using le that(1) assms(2) by cases auto
  qed
  have eq: "pack_w3_step code out item =
      (let out1 = or_byte q (push_bit r (code item)) out
       in if r > 5 then or_byte (q + 1) (drop_bit (8 - r) (code item)) out1 else out1)"
    by (simp add: pack_w3_step_def q_def r_def Let_def)
  consider "k = q" | "k = q + 1" "r > 5" | "k \<noteq> q" "k \<noteq> q + 1 \<or> r \<le> 5"
    by linarith
  then show ?thesis
  proof cases
    case 1
    with lo assms(1,2) show ?thesis
      by (auto simp: eq p(1) Let_def bit_or_byte)
  next
    case 2
    with hi assms(1,2) show ?thesis
      by (auto simp: eq p(1) Let_def bit_or_byte)
  next
    case 3
    then have "(\<exists>i. item * 3 + i = k * 8 + b \<and> bit (code item) i) = False"
      using none by (auto simp: p(1))
    with 3 assms(1,2) show ?thesis
      by (auto simp: eq Let_def bit_or_byte)
  qed
qed

lemma bit_pack_w3_fold:
  assumes "\<And>item. fits w3g128 (code item)" and "k < length out" and "b < 8"
  shows "bit (foldl (pack_w3_step code) out items ! k) b \<longleftrightarrow>
    bit (out ! k) b \<or> (\<exists>item \<in> set items. \<exists>i. item * 3 + i = k * 8 + b \<and> bit (code item) i)"
  using assms(2)
proof (induction items arbitrary: out)
  case (Cons item items)
  then show ?case
    using bit_pack_w3_step [OF Cons.prems assms(3) assms(1)] by auto
qed simp

lemma length_pack_w3_fold: "length (foldl (pack_w3_step code) out items) = length out"
  by (induction items arbitrary: out) simp_all

lemma length_pack_w3_fragment [simp]: "length (pack_w3_fragment code) = 12"
  by (simp add: pack_w3_fragment_def length_pack_w3_fold)

lemma fragment_bit_w3:
  assumes "\<And>item. fits w3g128 (code item)" and "item < 32" and "i < 3"
  shows "fragment_bit w3g128 (pack_w3_fragment code) item i \<longleftrightarrow> bit (code item) i"
proof -
  let ?p = "item * 3 + i"
  have k: "?p div 8 < 12"
    using assms(2,3) by (simp add: less_mult_imp_div_less)
  have "bit (pack_w3_fragment code ! (?p div 8)) (?p mod 8) \<longleftrightarrow>
      (\<exists>item' < 32. \<exists>i'. item' * 3 + i' = ?p \<and> bit (code item') i')"
    unfolding pack_w3_fragment_def
    by (subst bit_pack_w3_fold [OF assms(1)]) (use k in \<open>auto simp: Bex_def\<close>)
  also have "\<dots> \<longleftrightarrow> bit (code item) i"
  proof
    assume "\<exists>item' < 32. \<exists>i'. item' * 3 + i' = ?p \<and> bit (code item') i'"
    then obtain item' i' where a: "item' * 3 + i' = ?p" "bit (code item') i'"
      by blast
    from a(2) assms(1) have "i' < 3"
      by (auto simp: fits_def code_bits_def)
    from div_mod_unique [OF a(1) this assms(3)] a(2) show "bit (code item) i"
      by simp
  next
    assume "bit (code item) i"
    with assms(2) show "\<exists>item' < 32. \<exists>i'. item' * 3 + i' = ?p \<and> bit (code item') i'"
      by blast
  qed
  finally show ?thesis
    by (simp add: fragment_bit_def code_bits_def)
qed

lemma fragment_bit_copied:
  assumes "format = w2g128 \<or> format = w4g128" and "c = (grp * 4 + k_tile) * 32 + item" and "item < 32"
    and "i < code_bits format" and "\<And>j. j < fragment_bytes format \<Longrightarrow>
      fragment ! j = row ! ((grp * 4 + k_tile) * fragment_bytes format + j)"
  shows "fragment_bit format fragment item i \<longleftrightarrow> bit (load_code row c format) i"
proof -
  let ?w = "code_bits format" and ?n = "fragment_bytes format"
  have n: "32 * ?w = ?n * 8"
    using assms(1) by (auto simp: code_bits_def fragment_bytes_def)
  have "Suc item * ?w \<le> 32 * ?w"
    using assms(3) by (intro mult_le_mono1) simp
  then have "item * ?w + i < ?n * 8"
    using assms(4) n by simp
  then have j: "(item * ?w + i) div 8 < ?n"
    by (simp add: less_mult_imp_div_less)
  have "slot format c i = ((grp * 4 + k_tile) * ?n + (item * ?w + i) div 8, (item * ?w + i) mod 8)"
  proof (cases "format = w2g128")
    case True
    with assms(4) have "i < 2" by (simp add: code_bits_def)
    have a: "c = 4 * ((grp * 4 + k_tile) * 8 + item div 4) + item mod 4"
      using assms(2) by simp
    have c4: "c div 4 = (grp * 4 + k_tile) * 8 + item div 4 \<and> c mod 4 = item mod 4"
      by (rule div_mod_intro) (use a in simp_all)
    have "item * 2 + i = item div 4 * 8 + (item mod 4 * 2 + i)"
      using div_mult_mod_eq [of item 4] by linarith
    moreover have "item mod 4 * 2 + i < 8"
      using \<open>i < 2\<close> mod_less_divisor [of 4 item] by linarith
    ultimately have "(item * 2 + i) div 8 = item div 4 \<and> (item * 2 + i) mod 8 = item mod 4 * 2 + i"
      by (rule div_mod_intro)
    with c4 show ?thesis
      by (simp add: True slot_def code_bits_def fragment_bytes_def)
  next
    case False
    with assms(1,4) have f: "format = w4g128" "i < 4" by (simp_all add: code_bits_def)
    have a: "c = 2 * ((grp * 4 + k_tile) * 16 + item div 2) + item mod 2"
      using assms(2) by simp
    have c2: "c div 2 = (grp * 4 + k_tile) * 16 + item div 2 \<and> c mod 2 = item mod 2"
      by (rule div_mod_intro) (use a in simp_all)
    have "item * 4 + i = item div 2 * 8 + (item mod 2 * 4 + i)"
      using div_mult_mod_eq [of item 2] by linarith
    moreover have "item mod 2 * 4 + i < 8"
      using f(2) mod_less_divisor [of 2 item] by linarith
    ultimately have "(item * 4 + i) div 8 = item div 2 \<and> (item * 4 + i) mod 8 = item mod 2 * 4 + i"
      by (rule div_mod_intro)
    with c2 show ?thesis
      by (simp add: f slot_def code_bits_def fragment_bytes_def)
  qed
  moreover have "packed_format format"
    using assms(1) by (auto simp: packed_format_def)
  ultimately show ?thesis
    using assms(4) assms(5) [OF j] by (simp add: bit_load_code fragment_bit_def Let_def)
qed

lemma concat_slice_inside:
  assumes "\<And>i. i < n \<Longrightarrow> length (f i) = w" and "k < n" and "a + l \<le> w"
  shows "slice (k * w + a) l (concat (map f [0..<n])) = slice a l (f k)"
  using concat_slice [of n f w k, OF assms(1,2)] slice_slice [OF assms(3)] by metis

definition valid_packed :: "packed_matrix \<Rightarrow> bool" where
  "valid_packed m \<longleftrightarrow> packed_format (pm_format m) \<and> pm_rows m \<noteq> 0 \<and> pm_columns m \<noteq> 0
     \<and> pm_columns m mod kGroupSize = 0
     \<and> length (pm_codes m) = pm_rows m * exact_row_bytes (pm_format m) (pm_columns m)
     \<and> length (pm_scales m) = pm_rows m * (pm_columns m div kGroupSize)"

lemma row_bytes_groups:
  assumes "packed_format format" and "columns mod kGroupSize = 0"
  shows "exact_row_bytes format columns = columns div kGroupSize * 4 * fragment_bytes format"
proof -
  obtain g where "columns = g * 128"
    using assms(2) by (auto simp: kGroupSize_def dvd_def)
  with assms(1) show ?thesis
    by (auto simp: packed_format_def exact_row_bytes_def fragment_bytes_def kGroupSize_def)
qed

lemma exact_tile_Inr:
  assumes "exact_tile m = Inr t"
  shows "valid_packed m" and "pm_rows m mod 16 = 0"
    and "tm_rows t = pm_rows m" and "tm_columns t = pm_columns m" and "tm_format t = pm_format m"
    and "tm_codes t = concat (map (\<lambda>tile. concat (map (\<lambda>grp. concat (map (\<lambda>k_tile.
            concat (map (\<lambda>local_row. tile_fragment m (tile * 16 + local_row) grp k_tile) [0..<16]))
            [0..<4])) [0..<pm_columns m div kGroupSize])) [0..<pm_rows m div 16])"
    and "tm_scales t = concat (map (\<lambda>tile. concat (map (\<lambda>grp. map (\<lambda>local_row.
            pm_scales m ! ((tile * 16 + local_row) * (pm_columns m div kGroupSize) + grp)) [0..<16])
            [0..<pm_columns m div kGroupSize])) [0..<pm_rows m div 16])"
  using assms by (auto simp: exact_tile_def tile_rows_def valid_packed_def packed_format_def Let_def
      split: if_splits)

lemma length_tile_fragment:
  assumes "valid_packed m" and "row < pm_rows m" and "grp < pm_columns m div kGroupSize" and "k_tile < 4"
  shows "length (tile_fragment m row grp k_tile) = fragment_bytes (pm_format m)"
proof (cases "pm_format m = w3g128")
  case True
  then show ?thesis
    by (simp add: tile_fragment_def fragment_bytes_def)
next
  case False
  let ?n = "fragment_bytes (pm_format m)"
  have rb: "exact_row_bytes (pm_format m) (pm_columns m) = pm_columns m div kGroupSize * 4 * ?n"
    using assms(1) by (intro row_bytes_groups) (simp_all add: valid_packed_def)
  have "grp * 4 + k_tile < pm_columns m div kGroupSize * 4"
    using assms(3,4) by linarith
  then have "(grp * 4 + k_tile) * ?n + ?n \<le> pm_columns m div kGroupSize * 4 * ?n"
    by (rule row_end)
  moreover have "row * (pm_columns m div kGroupSize * 4 * ?n) + pm_columns m div kGroupSize * 4 * ?n
      \<le> length (pm_codes m)"
    using assms(1,2) row_end [OF assms(2)] by (simp add: valid_packed_def rb)
  ultimately have "row * (pm_columns m div kGroupSize * 4 * ?n) + grp * ?n * 4 + k_tile * ?n + ?n
      \<le> length (pm_codes m)"
    by (simp add: algebra_simps)
  with False show ?thesis
    by (simp add: tile_fragment_def Let_def rb)
qed

lemma tiled_position:
  assumes "exact_tile m = Inr t" and "row < pm_rows m"
    and "grp < pm_columns m div kGroupSize" and "k_tile < 4"
  shows "slice ((((row div 16 * (pm_columns m div kGroupSize) + grp) * 4 + k_tile) * 16 + row mod 16)
      * fragment_bytes (pm_format m)) (fragment_bytes (pm_format m)) (tm_codes t)
    = tile_fragment m row grp k_tile"
proof -
  note t = exact_tile_Inr [OF assms(1)]
  define n G T where "n = fragment_bytes (pm_format m)" and "G = pm_columns m div kGroupSize"
    and "T = pm_rows m div 16"
  define tile lr where "tile = row div 16" and "lr = row mod 16"
  have row: "row = tile * 16 + lr" "lr < 16" "tile < T"
    using assms(2) t(2) by (auto simp: tile_def lr_def T_def less_mult_imp_div_less)
  have rows: "pm_rows m = T * 16"
    using t(2) by (metis T_def add_0_right div_mult_mod_eq)
  define f1 where "f1 = (\<lambda>tile grp k_tile lr. tile_fragment m (tile * 16 + lr) grp k_tile)"
  define f2 where "f2 = (\<lambda>tile grp k_tile. concat (map (f1 tile grp k_tile) [0..<16]))"
  define f3 where "f3 = (\<lambda>tile grp. concat (map (f2 tile grp) [0..<4]))"
  define f4 where "f4 = (\<lambda>tile. concat (map (f3 tile) [0..<G]))"
  have l1: "length (f1 tile grp k_tile lr) = n" if "tile < T" "grp < G" "k_tile < 4" "lr < 16" for tile grp k_tile lr
    unfolding f1_def n_def using that by (intro length_tile_fragment [OF t(1)]) (auto simp: rows G_def)
  have l2: "length (f2 tile grp k_tile) = 16 * n" if "tile < T" "grp < G" "k_tile < 4" for tile grp k_tile
    unfolding f2_def by (rule length_concat_const) (simp add: l1 that)
  have l3: "length (f3 tile grp) = 4 * (16 * n)" if "tile < T" "grp < G" for tile grp
    unfolding f3_def by (rule length_concat_const) (simp add: l2 that)
  have l4: "length (f4 tile) = G * (4 * (16 * n))" if "tile < T" for tile
    unfolding f4_def by (rule length_concat_const) (simp add: l3 that)
  have grp: "grp < G"
    using assms(3) by (simp add: G_def)
  have b1: "lr * n + n \<le> 16 * n"
    by (rule row_end [OF row(2)])
  have b2: "k_tile * (16 * n) + lr * n + n \<le> 4 * (16 * n)"
    using row_end [OF assms(4), of "16 * n"] b1 by linarith
  have b3: "grp * (4 * (16 * n)) + (k_tile * (16 * n) + lr * n) + n \<le> G * (4 * (16 * n))"
    using row_end [OF grp, of "4 * (16 * n)"] b2 by linarith
  have codes: "tm_codes t = concat (map f4 [0..<T])"
    unfolding t(6) f4_def f3_def f2_def f1_def G_def T_def ..
  have s4: "slice (tile * (G * (4 * (16 * n))) + (grp * (4 * (16 * n)) + (k_tile * (16 * n) + lr * n))) n (tm_codes t)
      = slice (grp * (4 * (16 * n)) + (k_tile * (16 * n) + lr * n)) n (f4 tile)"
    unfolding codes by (rule concat_slice_inside [OF l4 row(3) b3])
  also have "\<dots> = slice (k_tile * (16 * n) + lr * n) n (f3 tile grp)"
    unfolding f4_def by (rule concat_slice_inside [OF l3 grp b2]) (rule row(3))
  also have "\<dots> = slice (lr * n) n (f2 tile grp k_tile)"
    unfolding f3_def by (rule concat_slice_inside [OF l2 assms(4) b1]) (rule row(3), rule grp)
  also have "\<dots> = f1 tile grp k_tile lr"
    unfolding f2_def by (rule concat_slice [OF l1 row(2)]) (rule row(3), rule grp, rule assms(4))
  also have "\<dots> = tile_fragment m row grp k_tile"
    unfolding f1_def row(1) ..
  finally have "slice (tile * (G * (4 * (16 * n))) + (grp * (4 * (16 * n)) + (k_tile * (16 * n) + lr * n))) n (tm_codes t)
      = tile_fragment m row grp k_tile" .
  moreover have "tile * (G * (4 * (16 * n))) + (grp * (4 * (16 * n)) + (k_tile * (16 * n) + lr * n))
      = (((row div 16 * G + grp) * 4 + k_tile) * 16 + row mod 16) * n"
    unfolding tile_def lr_def by (simp add: algebra_simps)
  ultimately show ?thesis
    unfolding n_def G_def by simp
qed

text \<open>Where the tiled storage keeps the code and the scale of a row and a column.\<close>

definition tiled_fragment :: "gfx12_tiled_matrix \<Rightarrow> nat \<Rightarrow> nat \<Rightarrow> bytes" where
  "tiled_fragment t row column =
     (let groups = tm_columns t div kGroupSize; n = fragment_bytes (tm_format t)
      in slice ((((row div 16 * groups + column div 128) * 4 + column mod 128 div 32) * 16 + row mod 16) * n) n
           (tm_codes t))"

definition tiled_scale :: "gfx12_tiled_matrix \<Rightarrow> nat \<Rightarrow> nat \<Rightarrow> fp" where
  "tiled_scale t row column =
     tm_scales t ! ((row div 16 * (tm_columns t div kGroupSize) + column div kGroupSize) * 16 + row mod 16)"

lemma fits_load_code: "packed_format format \<Longrightarrow> fits format (load_code row c format)"
  by (simp add: fits_def bit_load_code)

lemma tiled_code_bit:
  assumes "exact_tile m = Inr t" and "row < pm_rows m" and "column < pm_columns m"
    and "i < code_bits (pm_format m)"
  shows "fragment_bit (pm_format m) (tiled_fragment t row column) (column mod 32) i
    \<longleftrightarrow> bit (load_code (matrix_row m row) column (pm_format m)) i"
proof -
  note t = exact_tile_Inr [OF assms(1)]
  let ?n = "fragment_bytes (pm_format m)" and ?G = "pm_columns m div kGroupSize"
  define grp kt where "grp = column div 128" and "kt = column mod 128 div 32"
  have div: "pm_columns m mod 128 = 0"
    using t(1) by (simp add: valid_packed_def kGroupSize_def)
  have grp: "grp < ?G"
    using assms(3) div by (auto simp: grp_def kGroupSize_def less_mult_imp_div_less)
  have kt: "kt < 4"
    by (simp add: kt_def less_mult_imp_div_less)
  have column: "column = (grp * 4 + kt) * 32 + column mod 32"
  proof -
    have "column mod 128 = kt * 32 + column mod 128 mod 32"
      unfolding kt_def by simp
    moreover have "column mod 128 mod 32 = column mod 32"
      by (simp add: mod_mod_cancel)
    moreover have "column = grp * 128 + column mod 128"
      unfolding grp_def by simp
    ultimately have "column = grp * 128 + (kt * 32 + column mod 32)"
      by (simp only:)
    then show ?thesis
      by (simp only: add_mult_distrib mult.assoc add.assoc)
  qed
  have frag: "tiled_fragment t row column = tile_fragment m row grp kt"
    using tiled_position [OF assms(1,2) grp kt]
    by (simp add: tiled_fragment_def t(4,5) grp_def kt_def Let_def)
  have packed: "packed_format (pm_format m)"
    using t(1) by (simp add: valid_packed_def)
  show ?thesis
  proof (cases "pm_format m = w3g128")
    case True
    have "fragment_bit w3g128 (tile_fragment m row grp kt) (column mod 32) i
      \<longleftrightarrow> bit (load_code (matrix_row m row) (grp * kGroupSize + kt * 32 + column mod 32) w3g128) i"
      unfolding tile_fragment_def if_P [OF True]
      by (rule fragment_bit_w3)
        (use packed assms(4) True in \<open>simp_all add: fits_load_code code_bits_def\<close>)
    moreover have "grp * kGroupSize + kt * 32 + column mod 32 = column"
      using column by (simp add: kGroupSize_def)
    ultimately show ?thesis
      by (simp add: frag True)
  next
    case False
    let ?rb = "exact_row_bytes (pm_format m) (pm_columns m)"
    have rb: "?rb = ?G * 4 * ?n"
      using t(1) by (intro row_bytes_groups) (simp_all add: valid_packed_def)
    have "grp * 4 + kt < ?G * 4"
      using grp kt by linarith
    then have in_row: "(grp * 4 + kt) * ?n + ?n \<le> ?rb"
      unfolding rb by (rule row_end)
    have in_codes: "row * ?rb + ?rb \<le> length (pm_codes m)"
      using row_end [OF assms(2)] t(1) by (simp add: valid_packed_def)
    have "tile_fragment m row grp kt ! j = matrix_row m row ! ((grp * 4 + kt) * ?n + j)" if "j < ?n" for j
    proof -
      have "tile_fragment m row grp kt = slice ((grp * 4 + kt) * ?n) ?n (matrix_row m row)"
        using False in_row by (simp add: tile_fragment_def matrix_row_def Let_def slice_slice algebra_simps)
      then show ?thesis
        using in_row in_codes that by (simp add: slice_nth matrix_row_def Let_def)
    qed
    from fragment_bit_copied [OF _ column _ assms(4), of "tile_fragment m row grp kt" "matrix_row m row", OF _ _ this]
    show ?thesis
      using packed False by (auto simp: frag packed_format_def)
  qed
qed

lemma tiled_scale_same:
  assumes "exact_tile m = Inr t" and "row < pm_rows m" and "column < pm_columns m"
  shows "tiled_scale t row column = pm_scales m ! (row * (pm_columns m div kGroupSize) + column div kGroupSize)"
proof -
  note t = exact_tile_Inr [OF assms(1)]
  let ?G = "pm_columns m div kGroupSize"
  define f where "f = (\<lambda>tile grp. map (\<lambda>local_row. pm_scales m ! ((tile * 16 + local_row) * ?G + grp)) [0..<16])"
  define h where "h = (\<lambda>tile. concat (map (f tile) [0..<?G]))"
  have lf: "length (f tile grp) = 16" for tile grp
    by (simp add: f_def)
  have lh: "length (h tile) = ?G * 16" for tile
    unfolding h_def by (rule length_concat_const) (rule lf)
  have tile: "row div 16 < pm_rows m div 16"
    using assms(2) t(2) by (auto simp: less_mult_imp_div_less)
  have grp: "column div kGroupSize < ?G"
    using assms(3) t(1) by (auto simp: valid_packed_def kGroupSize_def less_mult_imp_div_less)
  have lr: "row mod 16 < 16" by simp
  have inside: "column div kGroupSize * 16 + row mod 16 < ?G * 16"
    using row_end [OF grp, of 16] lr by linarith
  have "tm_scales t = concat (map h [0..<pm_rows m div 16])"
    unfolding t(7) h_def f_def ..
  then have "tm_scales t ! (row div 16 * (?G * 16) + (column div kGroupSize * 16 + row mod 16))
      = h (row div 16) ! (column div kGroupSize * 16 + row mod 16)"
    using concat_nth [OF lh tile inside] by simp
  also have "\<dots> = f (row div 16) (column div kGroupSize) ! (row mod 16)"
    unfolding h_def by (rule concat_nth [OF lf grp lr])
  also have "\<dots> = pm_scales m ! (row * ?G + column div kGroupSize)"
    by (simp add: f_def)
  finally show ?thesis
    by (simp add: tiled_scale_def t(4) algebra_simps)
qed

text \<open>
  C9. Re-tiling for the gfx12 kernels changes only positions: for every row and column the bits of
  the code in its tiled fragment are the bits of the code in the packed row, and the scale of its
  group is the same. This holds of every tiling that returns, whatever the sizes.
\<close>

theorem tiling_keeps_every_code:
  assumes "tile_group128_for_gfx12 m = Some (Inr t)" and "row < pm_rows m" and "column < pm_columns m"
  shows "tm_rows t = pm_rows m \<and> tm_columns t = pm_columns m \<and> tm_format t = pm_format m
    \<and> (\<forall>i \<in> {..<code_bits (pm_format m)}.
         fragment_bit (pm_format m) (tiled_fragment t row column) (column mod 32) i
         = bit (load_code (matrix_row m row) column (pm_format m)) i)
    \<and> tiled_scale t row column = pm_scales m ! (row * (pm_columns m div kGroupSize) + column div kGroupSize)"
proof -
  note e = tile_group128_exact [OF assms(1)]
  show ?thesis
    using exact_tile_Inr(3,4,5) [OF e] tiled_code_bit [OF e assms(2,3)] tiled_scale_same [OF e assms(2,3)]
    by simp
qed

lemma quantizable_fits:
  assumes "quantizable weights rows columns format"
  shows "storage_fits (rows * columns) format columns"
    and "rows * packed_row_bytes format columns < 2 ^ 64" and "rows * (columns div kGroupSize) < 2 ^ 64"
proof -
  have size: "rows * columns < 2 ^ 61" "columns \<le> rows * columns"
    using assms by (simp_all add: quantizable_def)
  have columns: "columns mod kGroupSize = 0"
    using assms by (simp add: quantizable_def)
  have "columns < 2 ^ 62"
    using le_less_trans [OF size(2,1)] by simp
  note rb = packed_row_bytes_exact [OF this, of format]
  show "storage_fits (rows * columns) format columns"
    using size(1) by (simp add: storage_fits_def rb)
  show "rows * packed_row_bytes format columns < 2 ^ 64"
    using le_less_trans [OF mult_le_mono2 [OF row_bytes_le [OF columns]] size(1), of format]
    by (simp add: rb)
  show "rows * (columns div kGroupSize) < 2 ^ 64"
    using le_less_trans [OF mult_le_mono2 [OF div_le_dividend] size(1), of kGroupSize] by simp
qed

lemma dequantized_values:
  assumes "quantize_group128 weights rows columns format = Some (Inr m)"
    and "quantizable weights rows columns format"
  obtains ws where "dequantize_group128 m = Some (Inr ws)" and "length ws = length weights"
    and "\<And>r c. r < rows \<Longrightarrow> c < columns \<Longrightarrow> ws ! (r * columns + c) = dequantized_weight m r c"
proof -
  note q = exact_quantize_Inr [OF quantize_group128_exact [OF assms(1)]]
  define ws where "ws = concat (map (\<lambda>r. map (dequantized_weight m r) [0..<columns]) [0..<rows])"
  have fits: "storage_fits (rows * columns) format columns" and bytes: "rows * packed_row_bytes format columns < 2 ^ 64"
    "rows * (columns div kGroupSize) < 2 ^ 64"
    using quantizable_fits [OF assms(2)] by simp_all
  have "packed_row_bytes format columns = exact_row_bytes format columns"
    using fits by (simp add: storage_fits_def)
  then have "dequantize_group128 m = Some (Inr ws)"
    using q assms(2) fits bytes
    by (simp add: dequantize_group128_def dequantize_rows_def ws_def quantizable_def Let_def)
  moreover have "length ws = length weights"
    unfolding ws_def q(3) by (rule length_concat_const) simp
  moreover have "ws ! (r * columns + c) = dequantized_weight m r c" if "r < rows" "c < columns" for r c
    unfolding ws_def by (subst concat_nth [of rows _ columns]) (use that in simp_all)
  ultimately show ?thesis
    using that by blast
qed

lemma scale_not_small:
  "\<not> fp_less (scale_of format columns source c) float_min"
proof -
  have "\<not> fp_less (choose_scale vs m format) float_min" for vs m
    by (auto simp: choose_scale_def fp_max_def float_min_def power2_def)
  then show ?thesis
    by (simp add: scale_of_def group_scale_def case_prod_unfold Let_def)
qed


section \<open>The properties at concrete inputs\<close>


lemma normalize_sample: "normalize (Fin (5 / 2)) (Fin 1) = Fin (5 / 2)"
  by code_simp

lemma int_range_sample: "int_range (5 / 2)"
  by code_simp

lemma encoded_level_is_nearest_witness:
  "\<not> fp_less (level_error w3g128 (5 / 2) 3)
     (level_error w3g128 (5 / 2) (decode_value (encode_value (Fin (5 / 2)) (Fin 1) w3g128) w3g128))"
  using encoded_level_is_nearest [of w3g128 "Fin (5 / 2)" "Fin 1" "5 / 2" 3]
    normalize_sample int_range_sample
  by (simp add: packed_format_def codebook_def)

definition sample_packed :: packed_matrix where
  "sample_packed = \<lparr> pm_rows = 16, pm_columns = 128, pm_format = w2g128,
     pm_codes = replicate 512 0xE4, pm_scales = replicate 16 (Fin 1) \<rparr>"

lemma tiling_keeps_every_code_witness:
  "\<exists>t. tile_group128_for_gfx12 sample_packed = Some (Inr t) \<and> tm_rows t = 16
     \<and> tiled_scale t 3 5 = Fin 1
     \<and> fragment_bit w2g128 (tiled_fragment t 3 5) 5 0 = bit (load_code (matrix_row sample_packed 3) 5 w2g128) 0"
proof -
  have "\<exists>t. tile_group128_for_gfx12 sample_packed = Some (Inr t)"
    by (simp add: tile_group128_for_gfx12_def storage_fits_def packed_row_bytes_exact sample_packed_def kGroupSize_def exact_row_bytes_def Let_def)
  then obtain t where t: "tile_group128_for_gfx12 sample_packed = Some (Inr t)"
    by blast
  have "3 < pm_rows sample_packed" "5 < pm_columns sample_packed"
    by (simp_all add: sample_packed_def)
  from tiling_keeps_every_code [OF t this] t show ?thesis
    by (auto simp: sample_packed_def kGroupSize_def code_bits_def)
qed

end
