(* ===== verification/Tokenizer.thy ===== *)
theory Tokenizer
  imports Safetensors
begin

text \<open>
  \<^verbatim>\<open>src/tokenizer.cpp\<close>: the byte-level BPE tokenizer. UTF-8 coding of single code points, the
  ByteLevel alphabet, loading from the tokenizer document, decoding, and encoding with added tokens
  and merges. The Unicode normalizer (ICU) and the regular expression engine (PCRE2) are arguments.
  A \<open>std::size_t\<close> index into a string is a natural number; code points are 32-bit words.
\<close>

section \<open>The code\<close>

subsection \<open>UTF-8\<close>

fun read_continuation :: "nat \<Rightarrow> u32 \<Rightarrow> string \<Rightarrow> nat \<Rightarrow> (u32 \<times> nat) option" where
  "read_continuation 0 code text offset = Some (code, offset)"
| "read_continuation (Suc n) code text offset =
     (let byte = byte_of_char (text ! offset) in
      if byte AND 0xC0 \<noteq> 0x80 then None
      else read_continuation n (push_bit 6 code OR ucast (byte AND 0x3F)) text (offset + 1))"

text \<open>\<open>decode_codepoint\<close>: the code point and the offset after it; \<open>None\<close> is the result \<open>false\<close>, after
  which no caller uses the offset.\<close>

definition decode_codepoint :: "string \<Rightarrow> nat \<Rightarrow> (u32 \<times> nat) option" where
  "decode_codepoint text offset =
     (if offset \<ge> length text then None
      else
        let first = byte_of_char (text ! offset); offset = offset + 1;
            read = (\<lambda>continuation_count code.
              if offset + continuation_count > length text then None
              else read_continuation continuation_count code text offset)
        in if first < 0x80 then Some (ucast first, offset)
           else if first AND 0xE0 = 0xC0 then read 1 (ucast (first AND 0x1F))
           else if first AND 0xF0 = 0xE0 then read 2 (ucast (first AND 0x0F))
           else if first AND 0xF8 = 0xF0 then read 3 (ucast (first AND 0x07))
           else None)"

definition char_of_u32 :: "u32 \<Rightarrow> char" where
  "char_of_u32 w = char_of_byte (ucast w)"

definition append_utf8 :: "string \<Rightarrow> u32 \<Rightarrow> string" where
  "append_utf8 out codepoint =
     (if codepoint < 0x80 then out @ [char_of_u32 codepoint]
      else if codepoint < 0x800 then out @
        [char_of_u32 (0xC0 OR drop_bit 6 codepoint), char_of_u32 (0x80 OR (codepoint AND 0x3F))]
      else if codepoint < 0x10000 then out @
        [char_of_u32 (0xE0 OR drop_bit 12 codepoint),
         char_of_u32 (0x80 OR (drop_bit 6 codepoint AND 0x3F)), char_of_u32 (0x80 OR (codepoint AND 0x3F))]
      else out @
        [char_of_u32 (0xF0 OR drop_bit 18 codepoint), char_of_u32 (0x80 OR (drop_bit 12 codepoint AND 0x3F)),
         char_of_u32 (0x80 OR (drop_bit 6 codepoint AND 0x3F)), char_of_u32 (0x80 OR (codepoint AND 0x3F))])"

subsection \<open>The ByteLevel alphabet\<close>

definition direct :: "nat \<Rightarrow> bool" where
  "direct v \<longleftrightarrow> 33 \<le> v \<and> v \<le> 126 \<or> 161 \<le> v \<and> v \<le> 172 \<or> 174 \<le> v \<and> v \<le> 255"

definition encoder_step :: "u32 list \<times> u32 \<Rightarrow> nat \<Rightarrow> u32 list \<times> u32" where
  "encoder_step acc byte =
     (case acc of (encoder, substitute) \<Rightarrow>
        if direct byte then (encoder @ [of_nat byte], substitute)
        else (encoder @ [substitute], substitute + 1))"

definition byte_encoder :: "u32 list" where
  "byte_encoder = fst (foldl encoder_step ([], 256) [0..<256])"

definition decoder_step :: "(u32 \<times> u8) list \<times> u32 \<Rightarrow> nat \<Rightarrow> (u32 \<times> u8) list \<times> u32" where
  "decoder_step acc byte =
     (case acc of (decoder, substitute) \<Rightarrow>
        let codepoint = (if direct byte then of_nat byte else substitute);
            substitute' = (if direct byte then substitute else substitute + 1)
        in (if codepoint \<in> fst ` set decoder then decoder else decoder @ [(codepoint, of_nat byte)], substitute'))"

definition byte_decoder :: "u32 \<Rightarrow> u8 option" where
  "byte_decoder = map_of (fst (foldl decoder_step ([], 256) [0..<256]))"

subsection \<open>Normalization and pre-tokens\<close>

text \<open>The two libraries: the NFC form of a text or an ICU failure, and the anchored match of the
  pre-token pattern at an offset: no match, or the first pair of the offset vector.\<close>

record text_libraries =
  nfc_available :: bool
  nfc :: "string \<Rightarrow> string option"
  regex_compiles :: bool
  regex_memory :: bool
  regex_match :: "string \<Rightarrow> nat \<Rightarrow> (nat \<times> nat) option"

definition normalize_nfc :: "text_libraries \<Rightarrow> string \<Rightarrow> string result" where
  "normalize_nfc libs text =
     (if \<not> nfc_available libs then Err internal ''ICU NFC normalizer is unavailable''
      else case nfc libs text of
        None \<Rightarrow> Err invalid_argument ''prompt is not valid normalizable UTF-8''
      | Some s \<Rightarrow> Inr s)"

function pretoken_loop :: "text_libraries \<Rightarrow> string \<Rightarrow> nat \<Rightarrow> string list result" where
  "pretoken_loop libs text offset =
     (if offset < length text then
        case regex_match libs text offset of
          None \<Rightarrow> Err invalid_argument ''tokenizer pre-tokenizer could not consume the prompt''
        | Some (start, stop) \<Rightarrow>
            if start \<noteq> offset \<or> stop \<le> offset
            then Err internal ''tokenizer regex returned an invalid range''
            else result_bind (pretoken_loop libs text stop) (\<lambda>rest.
              Inr (substr start (stop - start) text # rest))
      else Inr [])"
  by pat_completeness auto
termination
  by (relation "measure (\<lambda>(libs, text, offset). length text - offset)") auto

declare pretoken_loop.simps [simp del]

definition split_pretokens :: "text_libraries \<Rightarrow> string \<Rightarrow> string list result" where
  "split_pretokens libs text =
     (if \<not> regex_compiles libs then Err internal ''cannot compile tokenizer pre-token regex''
      else if \<not> regex_memory libs then Err out_of_memory ''cannot allocate tokenizer regex state''
      else pretoken_loop libs text 0)"

subsection \<open>Merges\<close>

definition pair_key :: "string \<Rightarrow> string \<Rightarrow> string" where
  "pair_key left right = left @ [char_of (0 :: nat)] @ right"

definition best_step :: "(string \<Rightarrow> nat option) \<Rightarrow> nat \<times> string \<Rightarrow> string \<times> string \<Rightarrow> nat \<times> string" where
  "best_step merge_ranks best pair =
     (let key = pair_key (fst pair) (snd pair) in
      case merge_ranks key of
        Some rank \<Rightarrow> if rank < fst best then (rank, key) else best
      | None \<Rightarrow> best)"

definition best_pair :: "(string \<Rightarrow> nat option) \<Rightarrow> string list \<Rightarrow> string" where
  "best_pair merge_ranks symbols =
     snd (foldl (best_step merge_ranks) (max_u32, []) (zip symbols (tl symbols)))"

fun merge_pass :: "string \<Rightarrow> string list \<Rightarrow> string list" where
  "merge_pass key (a # b # rest) =
     (if pair_key a b = key then (a @ b) # merge_pass key rest else a # merge_pass key (b # rest))"
| "merge_pass key [a] = [a]"
| "merge_pass key [] = []"

lemma best_fold_member:
  "snd (foldl (best_step ranks) best ps) = snd best
   \<or> (\<exists>p \<in> set ps. snd (foldl (best_step ranks) best ps) = pair_key (fst p) (snd p))"
proof (induction ps arbitrary: best)
  case (Cons p ps)
  have "snd (best_step ranks best p) = snd best \<or> snd (best_step ranks best p) = pair_key (fst p) (snd p)"
    by (simp add: best_step_def Let_def split: option.split)
  with Cons [of "best_step ranks best p"] show ?case
    by auto
qed simp

lemma merge_pass_le: "length (merge_pass key symbols) \<le> length symbols"
  by (induction key symbols rule: merge_pass.induct) auto

lemma merge_pass_shrinks:
  "p \<in> set (zip symbols (tl symbols)) \<Longrightarrow> key = pair_key (fst p) (snd p) \<Longrightarrow>
   length (merge_pass key symbols) < length symbols"
proof (induction key symbols rule: merge_pass.induct)
  case (1 key a b rest)
  then show ?case
    using merge_pass_le [of key rest] by (auto simp: less_Suc_eq_le intro: le_SucI)
qed auto

lemma best_pair_shrinks:
  assumes "best_pair ranks symbols \<noteq> []"
  shows "length (merge_pass (best_pair ranks symbols) symbols) < length symbols"
  using best_fold_member [of ranks "(max_u32, [])" "zip symbols (tl symbols)"] assms
  by (auto simp: best_pair_def intro: merge_pass_shrinks)

function bpe :: "(string \<Rightarrow> nat option) \<Rightarrow> string list \<Rightarrow> string list" where
  "bpe merge_ranks symbols =
     (if length symbols > 1 then
        let best = best_pair merge_ranks symbols in
        if best = [] then symbols else bpe merge_ranks (merge_pass best symbols)
      else symbols)"
  by pat_completeness auto
termination
  by (relation "measure (\<lambda>(ranks, symbols). length symbols)") (auto simp: best_pair_shrinks)

declare bpe.simps [simp del]

subsection \<open>The tokenizer\<close>

record qwen_tokenizer =
  tk_pieces :: "string list"
  tk_token_ids :: "string \<Rightarrow> nat option"
  tk_merge_ranks :: "string \<Rightarrow> nat option"
  tk_added_tokens :: "(string \<times> nat) list"

lemma read_continuation_offset:
  "read_continuation n code t offset = Some (c, offset') \<Longrightarrow> offset' = offset + n"
  by (induction n code t offset rule: read_continuation.induct) (auto simp: Let_def split: if_splits)

lemma decode_codepoint_progress:
  assumes "decode_codepoint text offset = Some (c, offset')"
  shows "offset < offset' \<and> offset' \<le> length text"
  using assms
  by (auto simp: decode_codepoint_def Let_def split: if_splits dest!: read_continuation_offset)

function decode_piece :: "string \<Rightarrow> nat \<Rightarrow> string result" where
  "decode_piece piece offset =
     (if offset < length piece then
        case decode_codepoint piece offset of
          None \<Rightarrow> Err corrupt_artifact ''tokenizer piece contains invalid UTF-8''
        | Some (codepoint, offset') \<Rightarrow>
            (case byte_decoder codepoint of
               None \<Rightarrow> Err corrupt_artifact ''tokenizer piece is outside the ByteLevel alphabet''
             | Some byte \<Rightarrow> result_bind (decode_piece piece offset') (\<lambda>rest. Inr (char_of_byte byte # rest)))
      else Inr [])"
  by pat_completeness auto
termination
  by (relation "measure (\<lambda>(piece, offset). length piece - offset)")
    (auto dest!: decode_codepoint_progress)

declare decode_piece.simps [simp del]

definition decode_token :: "qwen_tokenizer \<Rightarrow> nat \<Rightarrow> string result" where
  "decode_token tk token =
     (if token \<ge> length (tk_pieces tk)
      then Err invalid_argument ''token ID exceeds the tokenizer vocabulary''
      else decode_piece (tk_pieces tk ! token) 0)"

definition tokenizer_decode :: "qwen_tokenizer \<Rightarrow> nat list \<Rightarrow> string result" where
  "tokenizer_decode tk tokens =
     result_bind (result_all (decode_token tk) tokens) (\<lambda>parts. Inr (concat parts))"

text \<open>The symbols of an encoded pre-token: one per code point.\<close>

function split_symbols :: "string \<Rightarrow> nat \<Rightarrow> string list result" where
  "split_symbols encoded offset =
     (if offset < length encoded then
        case decode_codepoint encoded offset of
          None \<Rightarrow> Err internal ''ByteLevel encoder produced invalid UTF-8''
        | Some (codepoint, offset') \<Rightarrow>
            result_bind (split_symbols encoded offset') (\<lambda>rest.
              Inr (substr offset (offset' - offset) encoded # rest))
      else Inr [])"
  by pat_completeness auto
termination
  by (relation "measure (\<lambda>(encoded, offset). length encoded - offset)")
    (auto dest!: decode_codepoint_progress)

declare split_symbols.simps [simp del]

definition encode_bytes :: "string \<Rightarrow> string" where
  "encode_bytes pretoken = foldl (\<lambda>out c. append_utf8 out (byte_encoder ! unat (byte_of_char c))) [] pretoken"

definition symbol_id :: "qwen_tokenizer \<Rightarrow> string \<Rightarrow> nat result" where
  "symbol_id tk symbol =
     (case tk_token_ids tk symbol of
        None \<Rightarrow> Err corrupt_artifact ''BPE output is absent from the vocabulary''
      | Some token \<Rightarrow> Inr token)"

definition encode_pretoken :: "qwen_tokenizer \<Rightarrow> string \<Rightarrow> nat list result" where
  "encode_pretoken tk pretoken =
     result_bind (split_symbols (encode_bytes pretoken) 0) (\<lambda>symbols.
       result_all (symbol_id tk) (bpe (tk_merge_ranks tk) symbols))"

definition encode_normal :: "text_libraries \<Rightarrow> qwen_tokenizer \<Rightarrow> string \<Rightarrow> nat list result" where
  "encode_normal libs tk segment =
     (if segment = [] then Inr []
      else
        result_bind (normalize_nfc libs segment) (\<lambda>normalized.
        result_bind (split_pretokens libs normalized) (\<lambda>pretokens.
        result_bind (result_all (encode_pretoken tk) pretokens) (\<lambda>ids. Inr (concat ids)))))"

text \<open>The first added token at or after the cursor; the smallest position wins, then the list order.\<close>

definition special_step ::
  "string \<Rightarrow> nat \<Rightarrow> (nat \<times> string \<times> nat) option \<Rightarrow> string \<times> nat \<Rightarrow> (nat \<times> string \<times> nat) option" where
  "special_step text cursor special candidate =
     (case find_from (fst candidate) cursor text of
        None \<Rightarrow> special
      | Some found \<Rightarrow>
          (case special of
             None \<Rightarrow> Some (found, candidate)
           | Some (position, _) \<Rightarrow> if found < position then Some (found, candidate) else special))"

definition find_special :: "(string \<times> nat) list \<Rightarrow> string \<Rightarrow> nat \<Rightarrow> (nat \<times> string \<times> nat) option" where
  "find_special added text cursor = foldl (special_step text cursor) None added"

text \<open>The loop over the text. An added token with an empty content makes no progress, so the loop is
  a partial function; \<open>None\<close> is not returning.\<close>

partial_function (option) encode_loop ::
  "text_libraries \<Rightarrow> qwen_tokenizer \<Rightarrow> string \<Rightarrow> nat \<Rightarrow> nat list \<Rightarrow> nat list result option" where
  "encode_loop libs tk text cursor out =
     (if cursor < length text then
        case find_special (tk_added_tokens tk) text cursor of
          None \<Rightarrow>
            Some (case encode_normal libs tk (drop cursor text) of Inl e \<Rightarrow> Inl e | Inr ids \<Rightarrow> Inr (out @ ids))
        | Some (position, content, token) \<Rightarrow>
            (case encode_normal libs tk (substr cursor (position - cursor) text) of
               Inl e \<Rightarrow> Some (Inl e)
             | Inr ids \<Rightarrow> encode_loop libs tk text (position + length content) (out @ ids @ [token]))
      else Some (Inr out))"

definition tokenizer_encode :: "text_libraries \<Rightarrow> qwen_tokenizer \<Rightarrow> string \<Rightarrow> nat list result option" where
  "tokenizer_encode libs tk text = encode_loop libs tk text 0 []"

subsection \<open>Loading\<close>

definition get_i64 :: "simdjson \<Rightarrow> json \<Rightarrow> string + int" where
  "get_i64 js j =
     (case j of
        JUnsigned n \<Rightarrow> if unat n < 2 ^ 63 then Inr (uint n) else Inl (js_out_of_range js)
      | JNegative n \<Rightarrow> Inr n
      | _ \<Rightarrow> Inl (js_incorrect_type js))"

definition at_key :: "simdjson \<Rightarrow> string \<Rightarrow> json \<Rightarrow> string + json" where
  "at_key js key j = json_bind (get_object js j) (get_field js key)"

record tokenizer_load =
  tl_pieces :: "string list"
  tl_observed :: "bool list"
  tl_token_ids :: "string \<Rightarrow> nat option"
  tl_added_tokens :: "(string \<times> nat) list"

definition load_vocabulary_entry :: "simdjson \<Rightarrow> tokenizer_load \<Rightarrow> string \<times> json \<Rightarrow> tokenizer_load result" where
  "load_vocabulary_entry js st entry =
     result_bind (or_json_error ''tokenizer vocabulary ID is invalid'' (get_i64 js (snd entry))) (\<lambda>token.
       if token < 0 \<or> token \<ge> int (length (tl_pieces st)) \<or> tl_observed st ! nat token
       then Err corrupt_artifact ''tokenizer vocabulary ID is out of range or duplicated''
       else Inr (st \<lparr> tl_pieces := (tl_pieces st)[nat token := fst entry],
                    tl_token_ids := (if tl_token_ids st (fst entry) = None
                      then (tl_token_ids st)(fst entry \<mapsto> nat token) else tl_token_ids st),
                    tl_observed := (tl_observed st)[nat token := True] \<rparr>))"

definition load_added_token :: "simdjson \<Rightarrow> tokenizer_load \<Rightarrow> json \<Rightarrow> tokenizer_load result" where
  "load_added_token js st element =
     result_bind (or_json_error ''added-token ID is invalid'' (json_bind (at_key js ''id'' element) (get_i64 js))) (\<lambda>token.
     result_bind (or_json_error ''added-token content is invalid''
       (json_bind (at_key js ''content'' element) (get_string js))) (\<lambda>content.
       if token < 0 \<or> token \<ge> int (length (tl_pieces st))
       then Err corrupt_artifact ''added-token ID is out of range''
       else Inr (st \<lparr> tl_pieces := (tl_pieces st)[nat token := content],
                    tl_token_ids := (tl_token_ids st)(content \<mapsto> nat token),
                    tl_added_tokens := tl_added_tokens st @ [(content, nat token)],
                    tl_observed := (tl_observed st)[nat token := True] \<rparr>)))"

definition load_merge ::
  "simdjson \<Rightarrow> (string \<Rightarrow> nat option) \<times> nat \<Rightarrow> json \<Rightarrow> ((string \<Rightarrow> nat option) \<times> nat) result" where
  "load_merge js acc element =
     result_bind (or_json_error ''tokenizer merge is invalid'' (get_string js element)) (\<lambda>merge.
       case find_sub '' '' merge of
         None \<Rightarrow> Err corrupt_artifact ''tokenizer merge pair is malformed''
       | Some separator \<Rightarrow>
           if separator = 0 \<or> separator + 1 \<ge> length merge
           then Err corrupt_artifact ''tokenizer merge pair is malformed''
           else
             let key = pair_key (take separator merge) (drop (separator + 1) merge) in
             Inr (if fst acc key = None then (fst acc)(key \<mapsto> snd acc) else fst acc, snd acc + 1))"

definition empty_load :: "nat \<Rightarrow> tokenizer_load" where
  "empty_load n = \<lparr> tl_pieces = replicate n [], tl_observed = replicate n False,
     tl_token_ids = (\<lambda>_. None), tl_added_tokens = [] \<rparr>"

text \<open>\<open>std::sort\<close> by decreasing length; the order of equally long contents, which the standard leaves
  open, is that of the document here.\<close>

definition from_json :: "simdjson \<Rightarrow> bytes \<Rightarrow> qwen_tokenizer result" where
  "from_json js tokenizer_json =
     (if tokenizer_json = [] then Err invalid_argument ''tokenizer JSON resource is empty''
      else
        result_bind (or_json_error ''cannot parse tokenizer JSON'' (js_parse js (string_of_bytes tokenizer_json))) (\<lambda>root.
        result_bind (or_json_error ''tokenizer model.vocab is invalid''
          (json_bind (json_bind (at_key js ''model'' root) (at_key js ''vocab'')) (get_object js))) (\<lambda>vocabulary.
        result_bind (result_foldl (load_vocabulary_entry js) (empty_load tokenizer_vocabulary_size) vocabulary) (\<lambda>st.
        result_bind (or_json_error ''tokenizer added_tokens is invalid''
          (json_bind (at_key js ''added_tokens'' root) (get_array js))) (\<lambda>added_tokens.
        result_bind (result_foldl (load_added_token js) st added_tokens) (\<lambda>st.
          case find (\<lambda>i. \<not> tl_observed st ! i) [0..<length (tl_observed st)] of
            Some missing \<Rightarrow> Err corrupt_artifact (''tokenizer has no piece for ID '' @ to_string missing)
          | None \<Rightarrow>
              result_bind (or_json_error ''tokenizer model.merges is invalid''
                (json_bind (json_bind (at_key js ''model'' root) (at_key js ''merges'')) (get_array js))) (\<lambda>merges.
              result_bind (result_foldl (load_merge js) ((\<lambda>_. None), 0) merges) (\<lambda>ranks.
                Inr \<lparr> tk_pieces = tl_pieces st, tk_token_ids = tl_token_ids st, tk_merge_ranks = fst ranks,
                      tk_added_tokens = sort_key (\<lambda>t. - int (length (fst t))) (tl_added_tokens st) \<rparr>))))))))"

section \<open>UTF-8 round trip\<close>

lemma less_8: "i < 8 \<longleftrightarrow> i \<in> {0, 1, 2, 3, 4, 5, 6, 7 :: nat}"
  by auto

lemma u8_eqI: "(\<forall>i \<in> {0, 1, 2, 3, 4, 5, 6, 7}. bit a i = bit b i) \<Longrightarrow> a = (b :: u8)"
  by (rule bit_word_eqI) (simp only: less_8 len_num0 len_bit0 len_num1, auto simp: less_8)

lemma low_masks: "(0x3F :: u32) = mask 6" "(0x1F :: u32) = mask 5" "(0x0F :: u32) = mask 4" "(0x07 :: u32) = mask 3"
  by (simp_all add: mask_eq_exp_minus_1)

lemma and_low_mask: "unat x < 2 ^ n \<Longrightarrow> x AND mask n = (x :: u32)"
  by (rule word_unat_eqI) (simp only: take_bit_eq_mask [symmetric] unsigned_take_bit_eq take_bit_nat_eq_self)

lemma low_byte: "n \<le> 8 \<Longrightarrow> (ucast (ucast (x AND mask n) :: u8) :: u32) = x AND mask n"
  by (rule bit_word_eqI) (auto simp: bit_simps)

lemma high_bit_byte: "b AND 0x80 = 0x80 \<Longrightarrow> \<not> b < (0x80 :: u8)"
  by (metis not_less word_and_le2)

lemma continuation_byte:
  fixes x :: u32
  defines "b \<equiv> ucast (0x80 OR (x AND 0x3F)) :: u8"
  shows "b AND 0xC0 = 0x80" and "ucast (b AND 0x3F) = x AND 0x3F"
proof -
  show "b AND 0xC0 = 0x80"
    unfolding b_def by (rule u8_eqI) (simp add: bit_simps)
  have "b AND 0x3F = ucast (x AND 0x3F)"
    unfolding b_def by (rule u8_eqI) (simp add: bit_simps)
  then show "ucast (b AND 0x3F) = x AND 0x3F"
    using low_byte [of 6 x] by (simp add: low_masks)
qed

lemma lead_byte_2:
  fixes x :: u32
  defines "b \<equiv> ucast (0xC0 OR (x AND 0x1F)) :: u8"
  shows "\<not> b < 0x80" and "b AND 0xE0 = 0xC0" and "ucast (b AND 0x1F) = x AND 0x1F"
proof -
  show "\<not> b < 0x80"
    unfolding b_def by (rule high_bit_byte, rule u8_eqI) (simp add: bit_simps)
  show "b AND 0xE0 = 0xC0"
    unfolding b_def by (rule u8_eqI) (simp add: bit_simps)
  have "b AND 0x1F = ucast (x AND 0x1F)"
    unfolding b_def by (rule u8_eqI) (simp add: bit_simps)
  then show "ucast (b AND 0x1F) = x AND 0x1F"
    using low_byte [of 5 x] by (simp add: low_masks)
qed

lemma lead_byte_3:
  fixes x :: u32
  defines "b \<equiv> ucast (0xE0 OR (x AND 0x0F)) :: u8"
  shows "\<not> b < 0x80" and "b AND 0xE0 \<noteq> 0xC0" and "b AND 0xF0 = 0xE0" and "ucast (b AND 0x0F) = x AND 0x0F"
proof -
  show "\<not> b < 0x80"
    unfolding b_def by (rule high_bit_byte, rule u8_eqI) (simp add: bit_simps)
  have "b AND 0xE0 = 0xE0"
    unfolding b_def by (rule u8_eqI) (simp add: bit_simps)
  then show "b AND 0xE0 \<noteq> 0xC0"
    by simp
  show "b AND 0xF0 = 0xE0"
    unfolding b_def by (rule u8_eqI) (simp add: bit_simps)
  have "b AND 0x0F = ucast (x AND 0x0F)"
    unfolding b_def by (rule u8_eqI) (simp add: bit_simps)
  then show "ucast (b AND 0x0F) = x AND 0x0F"
    using low_byte [of 4 x] by (simp add: low_masks)
qed

lemma lead_byte_4:
  fixes x :: u32
  defines "b \<equiv> ucast (0xF0 OR (x AND 0x07)) :: u8"
  shows "\<not> b < 0x80" and "b AND 0xE0 \<noteq> 0xC0" and "b AND 0xF0 \<noteq> 0xE0" and "b AND 0xF8 = 0xF0"
    and "ucast (b AND 0x07) = x AND 0x07"
proof -
  show "\<not> b < 0x80"
    unfolding b_def by (rule high_bit_byte, rule u8_eqI) (simp add: bit_simps)
  have "b AND 0xE0 = 0xE0" "b AND 0xF0 = 0xF0"
    unfolding b_def by (rule u8_eqI, simp add: bit_simps)+
  then show "b AND 0xE0 \<noteq> 0xC0" "b AND 0xF0 \<noteq> 0xE0"
    by simp_all
  show "b AND 0xF8 = 0xF0"
    unfolding b_def by (rule u8_eqI) (simp add: bit_simps)
  have "b AND 0x07 = ucast (x AND 0x07)"
    unfolding b_def by (rule u8_eqI) (simp add: bit_simps)
  then show "ucast (b AND 0x07) = x AND 0x07"
    using low_byte [of 3 x] by (simp add: low_masks)
qed

lemma join_six: "push_bit 6 (drop_bit 6 x) OR (x AND 0x3F) = (x :: u32)"
  unfolding low_masks by (rule bit_word_eqI) (auto simp: bit_simps)

lemma join_drop:
  "push_bit 6 (drop_bit 12 x) OR (drop_bit 6 x AND 0x3F) = drop_bit 6 (x :: u32)"
  "push_bit 6 (drop_bit 18 x) OR (drop_bit 12 x AND 0x3F) = drop_bit 12 (x :: u32)"
  using join_six [of "drop_bit 6 x"] join_six [of "drop_bit 12 x"] by simp_all

lemma high_bits_small:
  fixes c :: u32
  assumes "unat c < 2 ^ (n + m)"
  shows "drop_bit n c AND mask m = drop_bit n c"
proof (rule and_low_mask)
  have "unat (drop_bit n c) \<le> unat c div 2 ^ n"
    by (simp only: unat_drop_bit_eq drop_bit_eq_div [where 'a = nat])
  also have "\<dots> < 2 ^ m"
    using assms by (simp add: less_mult_imp_div_less power_add mult.commute)
  finally show "unat (drop_bit n c) < 2 ^ m" .
qed

definition utf8 :: "u32 \<Rightarrow> string" where
  "utf8 codepoint = append_utf8 [] codepoint"

lemma append_utf8_utf8: "append_utf8 out c = out @ utf8 c"
  by (simp add: utf8_def append_utf8_def)

lemma byte_of_char_of_u32 [simp]: "byte_of_char (char_of_u32 w) = ucast w"
  by (simp add: char_of_u32_def)

lemma utf8_nonempty: "utf8 c \<noteq> []"
  by (simp add: utf8_def append_utf8_def)

lemma decode_utf8:
  assumes "unat c < 2 ^ 21"
  shows "decode_codepoint (pre @ utf8 c @ post) (length pre) = Some (c, length pre + length (utf8 c))"
proof -
  consider (1) "c < 0x80" | (2) "\<not> c < 0x80" "c < 0x800" | (3) "\<not> c < 0x80" "\<not> c < 0x800" "c < 0x10000"
    | (4) "\<not> c < 0x80" "\<not> c < 0x800" "\<not> c < 0x10000"
    by blast
  then show ?thesis
  proof cases
    case 1
    then have "unat c < 128"
      by (simp add: word_less_nat_alt)
    then have small: "(ucast c :: u8) < 0x80" and same: "(ucast (ucast c :: u8) :: u32) = c"
      using low_byte [of 7 c] and_low_mask [of c 7]
      by (simp_all add: word_less_nat_alt unsigned_ucast_eq take_bit_nat_eq_self)
    show ?thesis
      using 1 small same
      by (simp add: decode_codepoint_def utf8_def append_utf8_def nth_append Let_def)
  next
    case 2
    then have "unat c < 2 ^ (6 + 5)"
      by (simp add: word_less_nat_alt)
    from high_bits_small [OF this] have d: "drop_bit 6 c AND 0x1F = drop_bit 6 c"
      by (simp add: low_masks)
    note lead = lead_byte_2 [of "drop_bit 6 c", unfolded d]
    show ?thesis
      using 2 lead continuation_byte [of c] join_six [of c]
      by (simp add: decode_codepoint_def utf8_def append_utf8_def nth_append Let_def)
  next
    case 3
    then have "unat c < 2 ^ (12 + 4)"
      by (simp add: word_less_nat_alt)
    from high_bits_small [OF this] have d: "drop_bit 12 c AND 0x0F = drop_bit 12 c"
      by (simp add: low_masks)
    note lead = lead_byte_3 [of "drop_bit 12 c", unfolded d]
    show ?thesis
      using 3 lead continuation_byte [of c] continuation_byte [of "drop_bit 6 c"] join_six [of c] join_drop(1) [of c]
      by (simp add: decode_codepoint_def utf8_def append_utf8_def nth_append Let_def numeral_2_eq_2)
  next
    case 4
    have "unat c < 2 ^ (18 + 3)"
      using assms by simp
    from high_bits_small [OF this] have d: "drop_bit 18 c AND 0x07 = drop_bit 18 c"
      by (simp add: low_masks)
    note lead = lead_byte_4 [of "drop_bit 18 c", unfolded d]
    show ?thesis
      using 4 lead continuation_byte [of c] continuation_byte [of "drop_bit 6 c"]
        continuation_byte [of "drop_bit 12 c"] join_six [of c] join_drop [of c]
      by (simp add: decode_codepoint_def utf8_def append_utf8_def nth_append Let_def numeral_3_eq_3)
  qed
qed

section \<open>The ByteLevel alphabet is a bijection\<close>

definition substitutes :: "nat \<Rightarrow> nat" where
  "substitutes n = length (filter (\<lambda>b. \<not> direct b) [0..<n])"

definition level_code :: "nat \<Rightarrow> nat" where
  "level_code b = (if direct b then b else 256 + substitutes b)"

lemma substitutes_le: "substitutes n \<le> n"
  unfolding substitutes_def by (rule order.trans [OF length_filter_le]) simp

lemma substitutes_Suc: "substitutes (Suc n) = (if direct n then substitutes n else Suc (substitutes n))"
  by (simp add: substitutes_def)

lemma substitutes_mono: "m \<le> n \<Longrightarrow> substitutes m \<le> substitutes n"
  by (rule lift_Suc_mono_le [of substitutes]) (simp_all add: substitutes_Suc)

lemma direct_less: "direct b \<Longrightarrow> b < 256"
  by (auto simp: direct_def)

lemma level_code_less: "b < 256 \<Longrightarrow> level_code b < 512"
  using substitutes_le [of b] direct_less [of b] by (simp add: level_code_def)

lemma level_code_inject:
  assumes "a < b"
  shows "level_code a \<noteq> level_code b"
proof -
  have "substitutes a < substitutes b" if "\<not> direct a"
    using substitutes_mono [of "Suc a" b] assms that by (simp add: substitutes_Suc)
  then show ?thesis
    using assms direct_less [of a] direct_less [of b] by (auto simp: level_code_def)
qed

lemma encoder_fold:
  "foldl encoder_step ([], 256) [0..<n] = (map (\<lambda>b. of_nat (level_code b)) [0..<n], of_nat (256 + substitutes n))"
proof (induction n)
  case 0
  then show ?case
    by (simp add: substitutes_def)
next
  case (Suc n)
  then show ?case
    by (simp add: encoder_step_def level_code_def substitutes_Suc)
qed

lemma byte_encoder_nth: "b < 256 \<Longrightarrow> byte_encoder ! b = of_nat (level_code b)"
  by (simp add: byte_encoder_def encoder_fold del: upt_rec_numeral)

lemma level_word_inject:
  assumes "a < 256" and "b < 256"
  shows "(of_nat (level_code a) :: u32) = of_nat (level_code b) \<longleftrightarrow> a = b"
proof -
  have "unat (of_nat (level_code a) :: u32) = level_code a" "unat (of_nat (level_code b) :: u32) = level_code b"
    using level_code_less [OF assms(1)] level_code_less [OF assms(2)] by (simp_all add: u32_of_nat)
  then have "(of_nat (level_code a) :: u32) = of_nat (level_code b) \<longleftrightarrow> level_code a = level_code b"
    by metis
  then show ?thesis
    using level_code_inject [of a b] level_code_inject [of b a] by (cases a b rule: linorder_cases) auto
qed

lemma decoder_fold:
  "n \<le> 256 \<Longrightarrow> foldl decoder_step ([], 256) [0..<n]
     = (map (\<lambda>b. (of_nat (level_code b), of_nat b)) [0..<n], of_nat (256 + substitutes n))"
proof (induction n)
  case 0
  then show ?case
    by (simp add: substitutes_def)
next
  case (Suc n)
  have code: "(if direct n then of_nat n else of_nat (256 + substitutes n)) = (of_nat (level_code n) :: u32)"
    by (simp add: level_code_def)
  have new: "(of_nat (level_code n) :: u32) \<notin> fst ` set (map (\<lambda>b. (of_nat (level_code b), of_nat b :: u8)) [0..<n])"
  proof
    assume "(of_nat (level_code n) :: u32) \<in> fst ` set (map (\<lambda>b. (of_nat (level_code b), of_nat b :: u8)) [0..<n])"
    then obtain b where "b < n" "(of_nat (level_code n) :: u32) = of_nat (level_code b)"
      by auto
    with level_word_inject [of n b] Suc.prems show False
      by simp
  qed
  have "foldl decoder_step ([], 256) [0..<n]
      = (map (\<lambda>b. (of_nat (level_code b), of_nat b)) [0..<n], of_nat (256 + substitutes n))"
    using Suc by simp
  then have "foldl decoder_step ([], 256) [0..<Suc n]
      = decoder_step (map (\<lambda>b. (of_nat (level_code b), of_nat b)) [0..<n], of_nat (256 + substitutes n)) n"
    by simp
  also have "\<dots> = (map (\<lambda>b. (of_nat (level_code b), of_nat b)) [0..<n] @ [(of_nat (level_code n), of_nat n)],
      if direct n then of_nat (256 + substitutes n) else of_nat (256 + substitutes n) + 1)"
    unfolding decoder_step_def prod.case Let_def code if_not_P [OF new] ..
  also have "\<dots> = (map (\<lambda>b. (of_nat (level_code b), of_nat b)) [0..<Suc n], of_nat (256 + substitutes (Suc n)))"
    by (simp add: substitutes_Suc)
  finally show ?case .
qed

lemma byte_decoder_encoder:
  assumes "b < 256"
  shows "byte_decoder (byte_encoder ! b) = Some (of_nat b)"
proof -
  have "distinct (map fst (map (\<lambda>b. (of_nat (level_code b) :: u32, of_nat b :: u8)) [0..<256]))"
    unfolding map_map comp_def fst_conv distinct_map
    using level_word_inject by (auto simp: inj_on_def)
  moreover have "(of_nat (level_code b), of_nat b) \<in> set (map (\<lambda>b. (of_nat (level_code b) :: u32, of_nat b :: u8)) [0..<256])"
    using assms by auto
  ultimately show ?thesis
    unfolding byte_decoder_def decoder_fold [OF order.refl] fst_conv byte_encoder_nth [OF assms]
    by (rule map_of_is_SomeI)
qed

text \<open>
  The interface of the alphabet: a code point below \<open>2 ^ 21\<close> for every byte, decoded back.
\<close>

locale byte_alphabet =
  fixes enc :: "u8 \<Rightarrow> u32"
    and dec :: "u32 \<Rightarrow> u8 option"
  assumes dec_enc: "dec (enc b) = Some b"
    and enc_range: "unat (enc b) < 2 ^ 21"
begin

definition spell :: "u8 list \<Rightarrow> string" where
  "spell bs = concat (map (\<lambda>b. utf8 (enc b)) bs)"

lemma enc_code_inject: "enc a = enc b \<longleftrightarrow> a = b"
  using dec_enc by (metis option.inject)

lemma read_symbol:
  "decode_codepoint (pre @ utf8 (enc b) @ post) (length pre) = Some (enc b, length pre + length (utf8 (enc b)))"
  by (rule decode_utf8 [OF enc_range])

lemma spell_inject: "spell as = spell bs \<longleftrightarrow> as = bs"
proof
  show "spell as = spell bs \<Longrightarrow> as = bs"
  proof (induction as arbitrary: bs)
    case Nil
    then show ?case
      using utf8_nonempty by (cases bs) (auto simp: spell_def)
  next
    case (Cons a as)
    then obtain b bs' where bs: "bs = b # bs'"
      using utf8_nonempty by (cases bs) (auto simp: spell_def)
    with Cons.prems have eq: "utf8 (enc a) @ spell as = utf8 (enc b) @ spell bs'"
      by (simp add: spell_def)
    have "enc a = enc b"
      using read_symbol [of "[]" a "spell as"] read_symbol [of "[]" b "spell bs'"] eq by simp
    then show ?case
      using Cons.IH eq by (simp add: bs enc_code_inject)
  qed
qed simp

end

definition alphabet_code :: "u8 \<Rightarrow> u32" where
  "alphabet_code b = byte_encoder ! unat b"

interpretation alphabet: byte_alphabet alphabet_code byte_decoder
proof unfold_locales
  fix b :: u8
  show "byte_decoder (alphabet_code b) = Some b"
    by (simp add: alphabet_code_def byte_decoder_encoder)
  have "unat (alphabet_code b) = level_code (unat b)"
    using level_code_less [of "unat b"] by (simp add: alphabet_code_def byte_encoder_nth u32_of_nat)
  then show "unat (alphabet_code b) < 2 ^ 21"
    using level_code_less [of "unat b"] by simp
qed

section \<open>Spelling and reading pieces\<close>

lemma spell_Nil [simp]: "alphabet.spell [] = []"
  by (simp add: alphabet.spell_def)

lemma spell_Cons: "alphabet.spell (b # bs) = utf8 (alphabet_code b) @ alphabet.spell bs"
  by (simp add: alphabet.spell_def)

lemma spell_append: "alphabet.spell (as @ bs) = alphabet.spell as @ alphabet.spell bs"
  by (simp add: alphabet.spell_def)

lemma encode_bytes_spell: "encode_bytes s = alphabet.spell (bytes_of_string s)"
proof -
  have "foldl (\<lambda>out c. append_utf8 out (byte_encoder ! unat (byte_of_char c))) out s
      = out @ alphabet.spell (bytes_of_string s)" for out
    by (induction s arbitrary: out)
      (simp_all add: append_utf8_utf8 bytes_of_string_def spell_Cons alphabet_code_def)
  then show ?thesis
    by (simp add: encode_bytes_def)
qed

lemma utf8_length_pos: "0 < length (utf8 c)"
  using utf8_nonempty by simp

lemma decode_piece_spell:
  "decode_piece (pre @ alphabet.spell bs) (length pre) = Inr (string_of_bytes bs)"
proof (induction bs arbitrary: pre)
  case Nil
  then show ?case
    by (subst decode_piece.simps) (simp add: string_of_bytes_def)
next
  case (Cons b bs)
  have "decode_piece (pre @ alphabet.spell (b # bs)) (length pre + length (utf8 (alphabet_code b)))
      = Inr (string_of_bytes bs)"
    using Cons [of "pre @ utf8 (alphabet_code b)"] by (simp add: spell_Cons)
  then show ?case
    using alphabet.read_symbol [of pre b "alphabet.spell bs"] utf8_length_pos [of "alphabet_code b"]
    by (subst decode_piece.simps) (simp add: spell_Cons alphabet.dec_enc string_of_bytes_def)
qed

lemma split_symbols_spell:
  "split_symbols (pre @ alphabet.spell bs) (length pre) = Inr (map (\<lambda>b. alphabet.spell [b]) bs)"
proof (induction bs arbitrary: pre)
  case Nil
  then show ?case
    by (subst split_symbols.simps) simp
next
  case (Cons b bs)
  have "split_symbols (pre @ alphabet.spell (b # bs)) (length pre + length (utf8 (alphabet_code b)))
      = Inr (map (\<lambda>b. alphabet.spell [b]) bs)"
    using Cons [of "pre @ utf8 (alphabet_code b)"] by (simp add: spell_Cons)
  then show ?case
    using alphabet.read_symbol [of pre b "alphabet.spell bs"] utf8_length_pos [of "alphabet_code b"]
    by (subst split_symbols.simps) (simp add: spell_Cons substr_def)
qed

section \<open>Merging\<close>

lemma concat_merge_pass: "concat (merge_pass key symbols) = concat symbols"
  by (induction key symbols rule: merge_pass.induct) simp_all

lemma merge_pass_spell:
  "symbols = map alphabet.spell bss \<Longrightarrow>
   \<exists>bss'. merge_pass key symbols = map alphabet.spell bss' \<and> concat bss' = concat bss"
proof (induction key symbols arbitrary: bss rule: merge_pass.induct)
  case (1 key a b rest)
  then obtain as bs bss1 where bss: "bss = as # bs # bss1" "a = alphabet.spell as" "b = alphabet.spell bs"
    "rest = map alphabet.spell bss1"
    by (auto simp: map_eq_Cons_conv eq_commute [of "_ # _" "map _ _"])
  show ?case
  proof (cases "pair_key a b = key")
    case True
    then obtain bss' where "merge_pass key rest = map alphabet.spell bss'" "concat bss' = concat bss1"
      using 1(1) bss(4) by blast
    with True show ?thesis
      by (intro exI [of _ "(as @ bs) # bss'"]) (simp add: bss spell_append)
  next
    case False
    have "b # rest = map alphabet.spell (bs # bss1)"
      by (simp add: bss)
    from 1(2) [OF False this] obtain bss' where
      "merge_pass key (b # rest) = map alphabet.spell bss'" "concat bss' = concat (bs # bss1)"
      by blast
    with False show ?thesis
      by (intro exI [of _ "as # bss'"]) (simp add: bss)
  qed
next
  case (2 key a)
  then show ?case
    by (metis merge_pass.simps(2))
qed simp

lemma bpe_spell:
  "symbols = map alphabet.spell bss \<Longrightarrow>
   \<exists>bss'. bpe ranks symbols = map alphabet.spell bss' \<and> concat bss' = concat bss"
proof (induction ranks symbols arbitrary: bss rule: bpe.induct)
  case (1 ranks symbols)
  show ?case
  proof (cases "length symbols > 1 \<and> best_pair ranks symbols \<noteq> []")
    case True
    obtain bss1 where bss1: "merge_pass (best_pair ranks symbols) symbols = map alphabet.spell bss1" "concat bss1 = concat bss"
      using merge_pass_spell [OF 1(2)] by blast
    with 1(1) [OF _ refl _ bss1(1)] True show ?thesis
      by (subst bpe.simps) (auto simp: Let_def)
  next
    case False
    then have "bpe ranks symbols = symbols"
      by (subst bpe.simps) (auto simp: Let_def)
    with 1(2) show ?thesis by auto
  qed
qed

lemma bpe_concat: "concat (bpe ranks symbols) = concat symbols"
proof (induction ranks symbols rule: bpe.induct)
  case (1 ranks symbols)
  then show ?case
    by (subst bpe.simps) (simp add: Let_def concat_merge_pass)
qed

definition pair_rank :: "(string \<Rightarrow> nat option) \<Rightarrow> string \<times> string \<Rightarrow> nat" where
  "pair_rank ranks p = (case ranks (pair_key (fst p) (snd p)) of Some r \<Rightarrow> min r max_u32 | None \<Rightarrow> max_u32)"

lemma best_fold_rank:
  "fst best \<le> max_u32 \<Longrightarrow> fst (foldl (best_step ranks) best ps) \<le> fst best
   \<and> (\<forall>p \<in> set ps. fst (foldl (best_step ranks) best ps) \<le> pair_rank ranks p)
   \<and> (foldl (best_step ranks) best ps = best
      \<or> (\<exists>p \<in> set ps. foldl (best_step ranks) best ps = (pair_rank ranks p, pair_key (fst p) (snd p))
            \<and> pair_rank ranks p < fst best))"
proof (induction ps arbitrary: best)
  case (Cons p ps)
  let ?b = "best_step ranks best p"
  have step: "fst ?b \<le> fst best" "fst ?b \<le> pair_rank ranks p"
    "?b = best \<or> ?b = (pair_rank ranks p, pair_key (fst p) (snd p)) \<and> pair_rank ranks p < fst best"
    using Cons.prems by (auto simp: best_step_def pair_rank_def Let_def split: option.split)
  have "fst ?b \<le> max_u32"
    using step(1) Cons.prems by simp
  from Cons.IH [OF this] have ih: "fst (foldl (best_step ranks) ?b ps) \<le> fst ?b"
    "\<forall>q \<in> set ps. fst (foldl (best_step ranks) ?b ps) \<le> pair_rank ranks q"
    "foldl (best_step ranks) ?b ps = ?b
      \<or> (\<exists>q \<in> set ps. foldl (best_step ranks) ?b ps = (pair_rank ranks q, pair_key (fst q) (snd q))
            \<and> pair_rank ranks q < fst ?b)"
    by blast+
  then show ?case
    using step by (auto intro: order.trans order.strict_trans2)
qed simp

lemma pair_key_nonempty [simp]: "pair_key a b \<noteq> []"
  by (simp add: pair_key_def)

lemma best_pair_Nil:
  "best_pair ranks symbols = [] \<longleftrightarrow> (\<forall>p \<in> set (zip symbols (tl symbols)). pair_rank ranks p = max_u32)"
proof -
  let ?ps = "zip symbols (tl symbols)"
  let ?f = "foldl (best_step ranks) (max_u32, []) ?ps"
  have le: "pair_rank ranks p \<le> max_u32" for p
    by (simp add: pair_rank_def split: option.split)
  have "fst (max_u32, []) \<le> max_u32"
    by simp
  note f = best_fold_rank [of "(max_u32, [])" ranks ?ps, OF this]
  show ?thesis
  proof (cases "?f = (max_u32, [])")
    case True
    then show ?thesis
      using f le by (auto simp: best_pair_def intro: antisym)
  next
    case False
    then obtain p where "p \<in> set ?ps" "?f = (pair_rank ranks p, pair_key (fst p) (snd p))" "pair_rank ranks p < max_u32"
      using f by auto
    then show ?thesis
      by (auto simp: best_pair_def intro!: bexI [of _ p])
  qed
qed

lemma bpe_saturated:
  "length (bpe ranks symbols) \<le> 1 \<or> best_pair ranks (bpe ranks symbols) = []"
proof (induction ranks symbols rule: bpe.induct)
  case (1 ranks symbols)
  show ?case
  proof (cases "length symbols > 1 \<and> best_pair ranks symbols \<noteq> []")
    case True
    then have "bpe ranks symbols = bpe ranks (merge_pass (best_pair ranks symbols) symbols)"
      by (subst bpe.simps) (simp add: Let_def)
    with True 1 show ?thesis
      by auto
  next
    case False
    then have "bpe ranks symbols = symbols"
      by (subst bpe.simps) (auto simp: Let_def)
    with False show ?thesis by auto
  qed
qed

text \<open>
  C15. Merging: the loop always ends; the merged symbols spell the same text; and in the result no two
  neighbours have a merge rank (below the largest 32-bit number), so no merge is left undone.
\<close>

theorem bpe_merges_completely:
  "concat (bpe ranks symbols) = concat symbols
   \<and> pair_rank ranks ` set (zip (bpe ranks symbols) (tl (bpe ranks symbols))) \<subseteq> {max_u32}"
proof -
  have "zip (bpe ranks symbols) (tl (bpe ranks symbols)) = []" if "length (bpe ranks symbols) \<le> 1"
    using that by (cases "bpe ranks symbols") auto
  then have "best_pair ranks (bpe ranks symbols) = []"
    using bpe_saturated [of ranks symbols] by (auto simp: best_pair_def)
  then show ?thesis
    using bpe_concat best_pair_Nil by fastforce
qed

section \<open>Encoding and decoding\<close>

text \<open>A vocabulary and a piece table that agree, and added tokens that ByteLevel spells as themselves.\<close>

definition plain :: "string \<Rightarrow> bool" where
  "plain s \<longleftrightarrow> list_all (\<lambda>c. 33 \<le> (of_char c :: nat) \<and> (of_char c :: nat) \<le> 126) s"

definition piece_of :: "qwen_tokenizer \<Rightarrow> nat \<Rightarrow> string \<Rightarrow> bool" where
  "piece_of tk token s \<longleftrightarrow> token < length (tk_pieces tk) \<and> tk_pieces tk ! token = s"

definition well_formed :: "qwen_tokenizer \<Rightarrow> bool" where
  "well_formed tk \<longleftrightarrow> (\<forall>s token. tk_token_ids tk s = Some token \<longrightarrow> piece_of tk token s)
     \<and> (\<forall>(s, token) \<in> set (tk_added_tokens tk). piece_of tk token s \<and> plain s \<and> s \<noteq> [])"

lemma alphabet_code_plain:
  assumes "33 \<le> (of_char c :: nat)" and "(of_char c :: nat) \<le> 126"
  shows "utf8 (alphabet_code (byte_of_char c)) = [c]"
proof -
  let ?n = "of_char c :: nat"
  have n: "unat (byte_of_char c) = ?n"
    using assms(2) by (simp add: byte_of_char_def unat_of_nat)
  have "alphabet_code (byte_of_char c) = of_nat ?n"
    using assms by (simp add: alphabet_code_def n byte_encoder_nth level_code_def direct_def)
  moreover have "(of_nat ?n :: u32) < 0x80"
    using assms(2) by (simp add: word_less_nat_alt u32_of_nat)
  moreover have "(ucast (of_nat ?n :: u32) :: u8) = byte_of_char c"
    using assms(2) by (intro word_unat_eqI) (simp add: n unsigned_ucast_eq u32_of_nat take_bit_nat_eq_self)
  ultimately show ?thesis
    by (simp add: utf8_def append_utf8_def char_of_u32_def)
qed

lemma spell_plain: "plain s \<Longrightarrow> alphabet.spell (bytes_of_string s) = s"
  by (induction s) (simp_all add: plain_def bytes_of_string_def spell_Cons alphabet_code_plain)

definition decodes :: "qwen_tokenizer \<Rightarrow> nat list \<Rightarrow> string \<Rightarrow> bool" where
  "decodes tk tokens s \<longleftrightarrow> tokenizer_decode tk tokens = Inr s"

lemma decodes_Nil [simp]: "decodes tk [] s \<longleftrightarrow> s = []"
  by (auto simp: decodes_def tokenizer_decode_def)

lemma decodes_append:
  assumes "decodes tk as s" and "decodes tk bs t"
  shows "decodes tk (as @ bs) (s @ t)"
proof -
  from assms obtain ps qs where "result_all (decode_token tk) as = Inr ps" "s = concat ps"
    "result_all (decode_token tk) bs = Inr qs" "t = concat qs"
    by (auto simp: decodes_def tokenizer_decode_def)
  then show ?thesis
    by (simp add: decodes_def tokenizer_decode_def result_all_append)
qed

lemma decodes_piece:
  "piece_of tk token (alphabet.spell bs) \<Longrightarrow> decodes tk [token] (string_of_bytes bs)"
  using decode_piece_spell [of "[]" bs]
  by (simp add: decodes_def tokenizer_decode_def decode_token_def piece_of_def)

lemma symbol_id_Inr: "symbol_id tk s = Inr token \<longleftrightarrow> tk_token_ids tk s = Some token"
  by (simp add: symbol_id_def split: option.split)

lemma decodes_symbols:
  assumes "well_formed tk" and "result_all (symbol_id tk) (map alphabet.spell bss) = Inr ids"
  shows "decodes tk ids (string_of_bytes (concat bss))"
  using assms(2)
proof (induction bss arbitrary: ids)
  case Nil
  then show ?case
    by (simp add: string_of_bytes_def)
next
  case (Cons bs bss)
  then obtain token rest where ids: "ids = token # rest" "tk_token_ids tk (alphabet.spell bs) = Some token"
    "result_all (symbol_id tk) (map alphabet.spell bss) = Inr rest"
    by (auto simp: symbol_id_Inr)
  have "decodes tk [token] (string_of_bytes bs)"
    using assms(1) ids(2) by (intro decodes_piece) (simp add: well_formed_def)
  from decodes_append [OF this Cons.IH [OF ids(3)]] show ?case
    by (simp add: ids(1) string_of_bytes_def)
qed

lemma encode_pretoken_decodes:
  assumes "well_formed tk" and "encode_pretoken tk pretoken = Inr ids"
  shows "decodes tk ids pretoken"
proof -
  let ?symbols = "map (\<lambda>b. alphabet.spell [b]) (bytes_of_string pretoken)"
  have "split_symbols (encode_bytes pretoken) 0 = Inr ?symbols"
    using split_symbols_spell [of "[]" "bytes_of_string pretoken"] by (simp add: encode_bytes_spell)
  with assms(2) have ids: "result_all (symbol_id tk) (bpe (tk_merge_ranks tk) ?symbols) = Inr ids"
    by (simp add: encode_pretoken_def)
  have "?symbols = map alphabet.spell (map (\<lambda>b. [b]) (bytes_of_string pretoken))"
    by simp
  from bpe_spell [OF this] obtain bss where "bpe (tk_merge_ranks tk) ?symbols = map alphabet.spell bss"
    "concat bss = concat (map (\<lambda>b. [b]) (bytes_of_string pretoken))"
    by blast
  moreover from this ids have "decodes tk ids (string_of_bytes (concat bss))"
    by (intro decodes_symbols [OF assms(1)]) simp
  ultimately show ?thesis
    by simp
qed

lemma pretoken_loop_concat:
  "pretoken_loop libs t offset = Inr ps \<Longrightarrow> concat ps = drop offset t"
proof (induction libs t offset arbitrary: ps rule: pretoken_loop.induct)
  case (1 libs t offset)
  show ?case
  proof (cases "offset < length t")
    case True
    with "1.prems" obtain stop rest where m: "regex_match libs t offset = Some (offset, stop)" "offset < stop"
      and rest: "pretoken_loop libs t stop = Inr rest" and ps: "ps = substr offset (stop - offset) t # rest"
      by (subst (asm) pretoken_loop.simps) (auto split: option.splits prod.splits if_splits)
    have "concat rest = drop stop t"
      using "1.IH" [OF True m(1) refl _ rest] m(2) by simp
    moreover have "take (stop - offset) (drop offset t) @ drop stop t = drop offset t"
      using m(2) append_take_drop_id [of "stop - offset" "drop offset t"] by (simp add: add.commute)
    ultimately show ?thesis
      by (simp add: ps substr_def)
  next
    case False
    with "1.prems" show ?thesis
      by (subst (asm) pretoken_loop.simps) simp
  qed
qed

text \<open>The NFC form of a segment; an empty one is not given to the normalizer.\<close>

definition normal_form :: "text_libraries \<Rightarrow> string \<Rightarrow> string option" where
  "normal_form libs segment = (if segment = [] then Some [] else nfc libs segment)"

lemma encode_normal_decodes:
  assumes "well_formed tk" and "encode_normal libs tk segment = Inr ids"
  shows "\<exists>u. normal_form libs segment = Some u \<and> decodes tk ids u"
proof (cases "segment = []")
  case True
  with assms(2) show ?thesis
    by (simp add: encode_normal_def normal_form_def)
next
  case False
  with assms(2) obtain u ps idss where u: "nfc libs segment = Some u" and ps: "pretoken_loop libs u 0 = Inr ps"
    and idss: "result_all (encode_pretoken tk) ps = Inr idss" and ids: "ids = concat idss"
    by (auto simp: encode_normal_def normalize_nfc_def split_pretokens_def split: if_splits option.splits)
  have "decodes tk (concat idss) (concat ps)"
    using idss
  proof (induction ps arbitrary: idss)
    case (Cons p ps)
    then obtain x xs where x: "encode_pretoken tk p = Inr x" "result_all (encode_pretoken tk) ps = Inr xs"
      "idss = x # xs"
      by auto
    from decodes_append [OF encode_pretoken_decodes [OF assms(1) x(1)] Cons.IH [OF x(2)]] x(3) show ?case
      by simp
  qed simp
  with pretoken_loop_concat [OF ps] ids u False show ?thesis
    by (simp add: normal_form_def)
qed

lemma find_sub_Some:
  "find_sub needle s = Some i \<Longrightarrow> s = take i s @ needle @ drop (i + length needle) s \<and> i + length needle \<le> length s"
proof (induction needle s arbitrary: i rule: find_sub.induct)
  case (1 needle)
  then show ?case by (auto split: if_splits)
next
  case (2 needle x xs)
  show ?case
  proof (cases "is_prefix needle (x # xs)")
    case True
    with 2(2) have "i = 0"
      by simp
    moreover have "x # xs = needle @ drop (length needle) (x # xs)"
      using True unfolding is_prefix_def by (metis append_take_drop_id)
    moreover from this have "length needle \<le> length (x # xs)"
      by (metis length_append le_add1)
    ultimately show ?thesis by simp
  next
    case False
    with 2(2) obtain j where "find_sub needle xs = Some j" "i = Suc j"
      by auto
    with 2(1) [OF False] show ?thesis by simp
  qed
qed

lemma find_from_Some:
  assumes "find_from needle cursor s = Some p"
  shows "cursor \<le> p" and "p + length needle \<le> length s"
    and "take (p + length needle) s = take p s @ needle"
proof -
  obtain i where i: "find_sub needle (drop cursor s) = Some i" "p = cursor + i" "cursor \<le> length s"
    using assms by (auto simp: find_from_def split: if_splits)
  note f = find_sub_Some [OF i(1)]
  show "cursor \<le> p" "p + length needle \<le> length s"
    using f i by auto
  have "take (length needle) (drop p s) = needle"
    using f i by (metis add.commute append_eq_conv_conj drop_drop length_take min.absorb2 le_add1 order.trans)
  then show "take (p + length needle) s = take p s @ needle"
    by (simp add: take_add)
qed

lemma find_special_fold:
  "foldl (special_step s cursor) special added = Some (p, c) \<Longrightarrow>
   special = Some (p, c) \<or> (c \<in> set added \<and> find_from (fst c) cursor s = Some p)"
proof (induction added arbitrary: special)
  case (Cons a added)
  then have "special_step s cursor special a = Some (p, c) \<or> (c \<in> set added \<and> find_from (fst c) cursor s = Some p)"
    by simp
  moreover have "special_step s cursor special a = Some (p, c) \<Longrightarrow>
      special = Some (p, c) \<or> (c = a \<and> find_from (fst c) cursor s = Some p)"
    by (auto simp: special_step_def split: option.splits if_splits)
  ultimately show ?case by auto
qed simp

lemma find_special_Some:
  "find_special added s cursor = Some (p, c) \<Longrightarrow> c \<in> set added \<and> find_from (fst c) cursor s = Some p"
  using find_special_fold [of s cursor None added p c] by (simp add: find_special_def)

lemma find_append: "find P (xs @ ys) = (case find P xs of None \<Rightarrow> find P ys | Some x \<Rightarrow> Some x)"
  by (induction xs) simp_all

lemma found_member: "find P xs = Some x \<Longrightarrow> x \<in> set xs \<and> P x"
  by (induction xs) (auto split: if_splits)

text \<open>The search over the added tokens, specified: the smallest position, and the first token found there.\<close>

lemma find_special_least:
  "case find_special added s cursor of
     None \<Rightarrow> \<forall>a \<in> set added. find_from (fst a) cursor s = None
   | Some (p, c) \<Rightarrow> (\<forall>a \<in> set added. \<forall>i. find_from (fst a) cursor s = Some i \<longrightarrow> p \<le> i)
       \<and> find (\<lambda>a. find_from (fst a) cursor s = Some p) added = Some c"
proof (induction added rule: rev_induct)
  case (snoc a added)
  have step: "find_special (added @ [a]) s cursor = special_step s cursor (find_special added s cursor) a"
    by (simp add: find_special_def)
  show ?case
  proof (cases "find_special added s cursor")
    case None
    then show ?thesis
      using snoc.IH
      by (cases "find_from (fst a) cursor s")
        (auto simp: step special_step_def find_append split: option.splits dest!: found_member)
  next
    case (Some best)
    obtain p c where best: "best = (p, c)"
      by (cases best)
    note IH = snoc.IH [unfolded Some best, simplified]
    show ?thesis
    proof (cases "find_from (fst a) cursor s")
      case None
      then show ?thesis
        using IH by (auto simp: step special_step_def Some best find_append)
    next
      case (Some i)
      show ?thesis
      proof (cases "i < p")
        case True
        have "find (\<lambda>b. find_from (fst b) cursor s = Some i) added = None"
          using IH True by (auto simp: find_None_iff dest!: bspec)
        then show ?thesis
          using IH True Some \<open>find_special added s cursor = Some best\<close>
          by (fastforce simp: step special_step_def best find_append)
      next
        case False
        then show ?thesis
          using IH Some \<open>find_special added s cursor = Some best\<close>
          by (auto simp: step special_step_def best find_append)
      qed
    qed
  qed
qed (simp add: find_special_def)

text \<open>
  What encoding makes of a text, independently of the loop: the text with every segment between added
  tokens replaced by its NFC form. The added token taken is the first one of the list among those that
  begin earliest.
\<close>

inductive normalized :: "text_libraries \<Rightarrow> (string \<times> nat) list \<Rightarrow> string \<Rightarrow> string \<Rightarrow> bool" for libs added where
  no_token: "\<forall>a \<in> set added. find_sub (fst a) t = None \<Longrightarrow> normal_form libs t = Some u \<Longrightarrow> normalized libs added t u"
| at_token: "\<forall>a \<in> set added. \<forall>i. find_sub (fst a) (segment @ content @ rest) = Some i \<longrightarrow> length segment \<le> i \<Longrightarrow>
    find (\<lambda>a. find_sub (fst a) (segment @ content @ rest) = Some (length segment)) added = Some (content, token) \<Longrightarrow>
    normal_form libs segment = Some u \<Longrightarrow> normalized libs added rest v \<Longrightarrow>
    normalized libs added (segment @ content @ rest) (u @ content @ v)"

lemma normalized_unique: "normalized libs added t u \<Longrightarrow> normalized libs added t v \<Longrightarrow> u = v"
proof (induction arbitrary: v rule: normalized.induct)
  case (no_token t u)
  from no_token.prems show ?case
    by cases (use no_token.hyps in \<open>auto dest!: found_member\<close>)
next
  case (at_token segment content rest token u w)
  note here = found_member [OF at_token.hyps(2)]
  from at_token.prems show ?case
  proof cases
    case no_token
    then show ?thesis
      using here by auto
  next
    case (at_token segment' content' rest' token' u' w')
    note there = found_member [OF at_token(4)]
    have "length segment = length segment'"
      using here there at_token(1,3) \<open>\<forall>a \<in> set added. \<forall>i. find_sub (fst a) (segment @ content @ rest) = Some i \<longrightarrow> length segment \<le> i\<close>
      by (metis fst_conv le_antisym)
    moreover from this have "content' = content"
      using at_token.hyps(2) at_token(1,4) by simp
    ultimately show ?thesis
      using at_token(1,2,5,6) at_token.hyps(3) at_token.IH by auto
  qed
qed

lemma normalized_same:
  assumes "normalized libs added t u" and "\<And>pre s post. t = pre @ s @ post \<Longrightarrow> nfc libs s = Some s"
  shows "u = t"
  using assms
proof (induction rule: normalized.induct)
  case (no_token t u)
  then show ?case
    using no_token.prems [of "[]" t "[]"] by (auto simp: normal_form_def split: if_splits)
next
  case (at_token segment content rest token u v)
  have "nfc libs segment = Some segment"
    using at_token.prems [of "[]" segment "content @ rest"] by simp
  moreover have "v = rest"
    by (rule at_token.IH) (use at_token.prems [of "segment @ content @ _"] in simp)
  ultimately show ?case
    using at_token.hyps(3) by (auto simp: normal_form_def split: if_splits)
qed

lemma find_from_drop: "cursor \<le> length s \<Longrightarrow> find_from needle cursor s = map_option (\<lambda>i. cursor + i) (find_sub needle (drop cursor s))"
  by (simp add: find_from_def)

lemma encode_loop_decodes:
  assumes wf: "well_formed tk"
  shows "encode_loop libs tk t cursor out = Some (Inr ids) \<Longrightarrow> cursor \<le> length t \<Longrightarrow>
    \<exists>rest u. ids = out @ rest \<and> normalized libs (tk_added_tokens tk) (drop cursor t) u \<and> decodes tk rest u"
proof (induction "length t - cursor" arbitrary: cursor out rule: less_induct)
  case less
  let ?added = "tk_added_tokens tk"
  have drop_from: "find_from needle cursor t = map_option (\<lambda>i. cursor + i) (find_sub needle (drop cursor t))" for needle
    by (rule find_from_drop [OF less.prems(2)])
  show ?case
  proof (cases "cursor < length t")
    case False
    with less.prems have "ids = out" "cursor = length t"
      by (simp_all add: encode_loop.simps)
    moreover have "normalized libs ?added [] []"
      using wf by (intro normalized.no_token) (auto simp: well_formed_def normal_form_def)
    ultimately show ?thesis
      by auto
  next
    case True
    show ?thesis
    proof (cases "find_special ?added t cursor")
      case None
      then obtain ids1 where ids1: "encode_normal libs tk (drop cursor t) = Inr ids1" "ids = out @ ids1"
        using less.prems(1) True by (subst (asm) encode_loop.simps) (auto split: sum.splits)
      have "\<forall>a \<in> set ?added. find_sub (fst a) (drop cursor t) = None"
        using find_special_least [where added = ?added and s = t and cursor = cursor] None by (simp add: drop_from)
      with encode_normal_decodes [OF wf ids1(1)] ids1(2) show ?thesis
        by (blast intro: normalized.no_token)
    next
      case (Some special)
      obtain p content token where special: "special = (p, content, token)"
        by (cases special) auto
      then obtain ids1 where ids1: "encode_normal libs tk (substr cursor (p - cursor) t) = Inr ids1"
        and rest: "encode_loop libs tk t (p + length content) (out @ ids1 @ [token]) = Some (Inr ids)"
        using less.prems(1) True Some by (subst (asm) encode_loop.simps) (auto split: sum.splits)
      from find_special_Some [OF Some [unfolded special]]
      have member: "(content, token) \<in> set ?added" and "find_from content cursor t = Some p"
        by simp_all
      note pos = find_from_Some [OF this(2)]
      have piece: "piece_of tk token content" "plain content" "content \<noteq> []"
        using wf member by (auto simp: well_formed_def)
      let ?segment = "substr cursor (p - cursor) t" and ?rest = "drop (p + length content) t"
      have len: "length ?segment = p - cursor"
        using pos by (simp add: substr_def)
      have upto: "drop cursor (take (p + length content) t) = ?segment @ content"
        unfolding pos(3) using pos by (simp add: substr_def drop_take)
      have "drop cursor (take (p + length content) t @ ?rest) = drop cursor (take (p + length content) t) @ ?rest"
        using pos by (simp del: append_take_drop_id)
      then have split: "drop cursor t = ?segment @ content @ ?rest"
        unfolding upto by simp
      have least: "\<forall>a \<in> set ?added. \<forall>i. find_sub (fst a) (drop cursor t) = Some i \<longrightarrow> p - cursor \<le> i"
        using find_special_least [where added = ?added and s = t and cursor = cursor] by (fastforce simp: Some special drop_from)
      have same: "(\<lambda>a. find_from (fst a) cursor t = Some p) = (\<lambda>a. find_sub (fst a) (drop cursor t) = Some (p - cursor))"
        using pos(1) by (auto simp: drop_from)
      have first: "find (\<lambda>a. find_sub (fst a) (drop cursor t) = Some (p - cursor)) ?added = Some (content, token)"
        using find_special_least [where added = ?added and s = t and cursor = cursor] unfolding Some special same [symmetric] by simp
      obtain u where u: "normal_form libs ?segment = Some u" "decodes tk ids1 u"
        using encode_normal_decodes [OF wf ids1] by blast
      have "0 < length content"
        using piece(3) by simp
      then have "length t - (p + length content) < length t - cursor"
        using pos(1) True by linarith
      then obtain ids2 v where ids2: "ids = (out @ ids1 @ [token]) @ ids2"
        and v: "normalized libs ?added ?rest v" "decodes tk ids2 v"
        using less.hyps [OF _ rest] pos by blast
      have "decodes tk [token] content"
        using decodes_piece [of tk token "bytes_of_string content"] piece by (simp add: spell_plain)
      then have "decodes tk (ids1 @ [token] @ ids2) (u @ content @ v)"
        using u(2) v(2) by (intro decodes_append)
      moreover have "normalized libs ?added (drop cursor t) (u @ content @ v)"
        unfolding split
        by (rule normalized.at_token [OF _ _ u(1) v(1)]) (use least first in \<open>simp_all only: split [symmetric] len\<close>)
      ultimately show ?thesis
        using ids2 by (intro exI [of _ "ids1 @ [token] @ ids2"] exI [of _ "u @ content @ v"]) simp
    qed
  qed
qed

text \<open>
  C13. Encoding loses nothing but what normalization changes: for a tokenizer whose vocabulary and piece
  table agree and whose added tokens are plain text, the tokens that \<open>encode\<close> returns decode to the
  text in which every segment between added tokens is replaced by its NFC form, the added tokens kept.
  That text is unique, and it is the text itself when normalization leaves all of its parts alone.
\<close>

theorem encode_decode_round_trip:
  assumes "well_formed tk" and "tokenizer_encode libs tk t = Some (Inr ids)"
  shows "\<exists>u. tokenizer_decode tk ids = Inr u \<and> (\<forall>v. normalized libs (tk_added_tokens tk) t v \<longleftrightarrow> v = u)
    \<and> ((\<forall>i n. nfc libs (substr i n t) = Some (substr i n t)) \<longrightarrow> u = t)"
proof -
  obtain u where u: "normalized libs (tk_added_tokens tk) t u" "tokenizer_decode tk ids = Inr u"
    using encode_loop_decodes [OF assms(1), of libs t 0 "[]" ids] assms(2)
    by (auto simp: tokenizer_encode_def decodes_def)
  have "u = t" if same: "\<forall>i n. nfc libs (substr i n t) = Some (substr i n t)"
  proof (rule normalized_same [OF u(1)])
    fix pre s post assume "t = pre @ s @ post"
    then have "substr (length pre) (length s) t = s"
      by (simp add: substr_def)
    then show "nfc libs s = Some s"
      using same by metis
  qed
  with u show ?thesis
    using normalized_unique [OF u(1)] by blast
qed

lemma encode_loop_returns:
  assumes "\<forall>a \<in> set (tk_added_tokens tk). fst a \<noteq> []"
  shows "\<exists>r. encode_loop libs tk t cursor out = Some r"
proof (induction "length t - cursor" arbitrary: cursor out rule: less_induct)
  case less
  show ?case
  proof (cases "find_special (tk_added_tokens tk) t cursor")
    case None
    then show ?thesis
      by (subst encode_loop.simps) auto
  next
    case (Some special)
    obtain p content token where special: "special = (p, content, token)"
      by (cases special) auto
    note found = find_special_Some [OF Some [unfolded special]]
    then have "find_from content cursor t = Some p"
      by simp
    note pos = find_from_Some [OF this]
    have "0 < length content"
      using assms found by auto
    then have "cursor < length t \<Longrightarrow> length t - (p + length content) < length t - cursor"
      using pos by linarith
    with less Some special show ?thesis
      by (subst encode_loop.simps) (auto split: sum.split)
  qed
qed

lemma encode_always_returns:
  assumes "\<forall>a \<in> set (tk_added_tokens tk). fst a \<noteq> []"
  shows "\<exists>r. tokenizer_encode libs tk t = Some r"
  using encode_loop_returns [OF assms] by (simp add: tokenizer_encode_def)

text \<open>
  C14. Encoding returns: when no added token is empty, the loop over the text ends for every text and
  every answer of the libraries, with tokens or with an error.
\<close>

theorem encode_returns:
  assumes "\<forall>a \<in> set (tk_added_tokens tk). fst a \<noteq> []"
  shows "\<exists>r. tokenizer_encode libs tk t = Some r"
  by (rule encode_always_returns [OF assms])

lemma encode_loop_stuck:
  assumes "encode_loop libs tk t cursor out = Some r"
  shows "tk_added_tokens tk \<noteq> [([], token)] \<or> length t \<le> cursor"
proof (rule encode_loop.raw_induct
    [where P = "\<lambda>libs tk t cursor out r. tk_added_tokens tk \<noteq> [([], token)] \<or> length t \<le> cursor", OF _ assms])
  fix loop :: "text_libraries \<Rightarrow> qwen_tokenizer \<Rightarrow> string \<Rightarrow> nat \<Rightarrow> nat list \<Rightarrow> nat list result option"
  fix libs tk t cursor out r
  assume IH: "\<And>libs tk t cursor out r. loop libs tk t cursor out = Some r \<Longrightarrow>
      tk_added_tokens tk \<noteq> [([], token)] \<or> length t \<le> cursor"
    and body: "(if cursor < length t then
        case find_special (tk_added_tokens tk) t cursor of
          None \<Rightarrow>
            Some (case encode_normal libs tk (drop cursor t) of Inl e \<Rightarrow> Inl e | Inr ids \<Rightarrow> Inr (out @ ids))
        | Some (position, content, token) \<Rightarrow>
            (case encode_normal libs tk (substr cursor (position - cursor) t) of
               Inl e \<Rightarrow> Some (Inl e)
             | Inr ids \<Rightarrow> loop libs tk t (position + length content) (out @ ids @ [token]))
      else Some (Inr out)) = Some r"
  show "tk_added_tokens tk \<noteq> [([], token)] \<or> length t \<le> cursor"
  proof (rule ccontr)
    assume "\<not> ?thesis"
    then have added: "tk_added_tokens tk = [([], token)]" and c: "cursor < length t"
      by auto
    have "find_sub [] s = Some 0" for s :: string
      by (cases s) (simp_all add: is_prefix_def)
    then have "find_special (tk_added_tokens tk) t cursor = Some (cursor, [], token)"
      using c by (simp add: added find_special_def special_step_def find_from_def)
    with body c have "loop libs tk t cursor (out @ [token]) = Some r"
      by (simp add: substr_def encode_normal_def)
    from IH [OF this] added c show False
      by simp
  qed
qed

text \<open>
  An added token with an empty content, which the loader accepts, makes encoding of any text that
  is not empty run forever: the empty string is found at the cursor and the cursor never moves.
\<close>

theorem encode_hangs_on_empty_token:
  "tokenizer_encode libs (tk \<lparr> tk_added_tokens := [([], token)] \<rparr>) (c # cs) = None"
proof (cases "tokenizer_encode libs (tk \<lparr> tk_added_tokens := [([], token)] \<rparr>) (c # cs)")
  case (Some r)
  then show ?thesis
    using encode_loop_stuck [of libs "tk \<lparr> tk_added_tokens := [([], token)] \<rparr>" "c # cs" 0 "[]" r token]
    by (simp add: tokenizer_encode_def)
qed

text \<open>
  UTF-8: a code point below \<open>2 ^ 21\<close> written by \<open>append_utf8\<close> is read back by \<open>decode_codepoint\<close> at its
  offset in any text, and the offset moves just behind it.
\<close>

theorem utf8_round_trip:
  assumes "unat c < 2 ^ 21"
  shows "decode_codepoint (append_utf8 out c @ post) (length out) = Some (c, length (append_utf8 out c))"
  using decode_utf8 [OF assms, of out post] by (simp add: append_utf8_utf8)

text \<open>
  The ByteLevel alphabet: the decoder's table takes every code point of the encoder's table back to
  its byte, so the 256 code points are distinct.
\<close>

theorem byte_alphabet_round_trip:
  "byte_decoder (byte_encoder ! unat b) = Some b"
  using alphabet.dec_enc [of b] by (simp add: alphabet_code_def)

section \<open>Loading\<close>

definition load_inv :: "nat \<Rightarrow> tokenizer_load \<Rightarrow> bool" where
  "load_inv n st \<longleftrightarrow> length (tl_pieces st) = n \<and> length (tl_observed st) = n
     \<and> (\<forall>s t. tl_token_ids st s = Some t \<longrightarrow> t < n)
     \<and> (\<forall>a \<in> set (tl_added_tokens st). snd a < n)"

lemma load_inv_empty: "load_inv n (empty_load n)"
  by (simp add: load_inv_def empty_load_def)

lemma load_vocabulary_inv:
  assumes "load_inv n st" and "load_vocabulary_entry js st entry = Inr st'"
  shows "load_inv n st'"
proof -
  obtain token where "0 \<le> token" "token < int n"
    "st' = st \<lparr> tl_pieces := (tl_pieces st)[nat token := fst entry],
        tl_token_ids := (if tl_token_ids st (fst entry) = None
          then (tl_token_ids st)(fst entry \<mapsto> nat token) else tl_token_ids st),
        tl_observed := (tl_observed st)[nat token := True] \<rparr>"
    using assms by (auto simp: load_vocabulary_entry_def load_inv_def not_less split: if_splits)
  with assms(1) show ?thesis
    by (auto simp: load_inv_def nat_less_iff)
qed

lemma load_added_inv:
  assumes "load_inv n st" and "load_added_token js st element = Inr st'"
  shows "load_inv n st'"
proof -
  obtain token content where "0 \<le> token" "token < int n"
    "st' = st \<lparr> tl_pieces := (tl_pieces st)[nat token := content],
        tl_token_ids := (tl_token_ids st)(content \<mapsto> nat token),
        tl_added_tokens := tl_added_tokens st @ [(content, nat token)],
        tl_observed := (tl_observed st)[nat token := True] \<rparr>"
    using assms by (auto simp: load_added_token_def load_inv_def not_less split: if_splits)
  with assms(1) show ?thesis
    by (auto simp: load_inv_def nat_less_iff)
qed

text \<open>What a document says of an ID: the content of its last added token with that ID, or else the key of
  the vocabulary entry with that ID.\<close>

definition vocabulary_of :: "simdjson \<Rightarrow> json \<Rightarrow> string + (string \<times> json) list" where
  "vocabulary_of js doc = json_bind (json_bind (at_key js ''model'' doc) (at_key js ''vocab'')) (get_object js)"

definition added_of :: "simdjson \<Rightarrow> json \<Rightarrow> string + json list" where
  "added_of js doc = json_bind (at_key js ''added_tokens'' doc) (get_array js)"

definition added_id :: "simdjson \<Rightarrow> json \<Rightarrow> string + int" where
  "added_id js element = json_bind (at_key js ''id'' element) (get_i64 js)"

definition added_content :: "simdjson \<Rightarrow> json \<Rightarrow> string + string" where
  "added_content js element = json_bind (at_key js ''content'' element) (get_string js)"

definition vocabulary_piece :: "simdjson \<Rightarrow> (string \<times> json) list \<Rightarrow> nat \<Rightarrow> string option" where
  "vocabulary_piece js vocabulary i = map_option fst (find (\<lambda>e. get_i64 js (snd e) = Inr (int i)) vocabulary)"

definition document_piece :: "simdjson \<Rightarrow> (string \<times> json) list \<Rightarrow> json list \<Rightarrow> nat \<Rightarrow> string option" where
  "document_piece js vocabulary added i =
     (case find (\<lambda>e. added_id js e = Inr (int i)) (rev added) of
        Some e \<Rightarrow> (case added_content js e of Inr s \<Rightarrow> Some s | Inl _ \<Rightarrow> None)
      | None \<Rightarrow> vocabulary_piece js vocabulary i)"

lemma load_vocabulary_pieces:
  assumes "result_foldl (load_vocabulary_entry js) (empty_load n) entries = Inr st"
  shows "load_inv n st \<and> tl_added_tokens st = [] \<and> (\<forall>i < n. vocabulary_piece js entries i
    = (if tl_observed st ! i then Some (tl_pieces st ! i) else None))"
  using assms
proof (induction entries arbitrary: st rule: rev_induct)
  case Nil
  then show ?case
    using load_inv_empty [of n] by (auto simp: empty_load_def vocabulary_piece_def)
next
  case (snoc e entries)
  from snoc.prems obtain st0 where st0: "result_foldl (load_vocabulary_entry js) (empty_load n) entries = Inr st0"
    and step: "load_vocabulary_entry js st0 e = Inr st"
    by (auto simp: result_foldl_append)
  note IH = snoc.IH [OF st0]
  have inv: "load_inv n st"
    using load_vocabulary_inv [OF _ step] IH by blast
  obtain token where token: "get_i64 js (snd e) = Inr token" "0 \<le> token" "token < int n" "\<not> tl_observed st0 ! nat token"
    and st: "tl_pieces st = (tl_pieces st0)[nat token := fst e]" "tl_observed st = (tl_observed st0)[nat token := True]"
      "tl_added_tokens st = tl_added_tokens st0"
    using step IH by (cases "get_i64 js (snd e)") (auto simp: load_vocabulary_entry_def load_inv_def not_less split: if_splits)
  have "vocabulary_piece js (entries @ [e]) i = (if tl_observed st ! i then Some (tl_pieces st ! i) else None)"
    if i: "i < n" for i
  proof (cases "i = nat token")
    case True
    then have "find (\<lambda>e. get_i64 js (snd e) = Inr (int i)) entries = None"
      using IH i token by (auto simp: vocabulary_piece_def)
    then show ?thesis
      using True i token st IH by (simp add: vocabulary_piece_def find_append load_inv_def)
  next
    case False
    then have "token \<noteq> int i"
      using token by auto
    moreover have "vocabulary_piece js entries i = (if tl_observed st0 ! i then Some (tl_pieces st0 ! i) else None)"
      using IH i by blast
    ultimately show ?thesis
      using False token st by (cases "tl_observed st0 ! i") (auto simp: vocabulary_piece_def find_append)
  qed
  with inv IH st show ?case
    by simp
qed

lemma load_added_pieces:
  assumes "result_foldl (load_added_token js) st0 added = Inr st"
    and "load_inv n st0" and "tl_added_tokens st0 = []"
    and "\<forall>i < n. vocabulary_piece js vocabulary i = (if tl_observed st0 ! i then Some (tl_pieces st0 ! i) else None)"
  shows "load_inv n st
    \<and> (\<forall>i < n. document_piece js vocabulary added i = (if tl_observed st ! i then Some (tl_pieces st ! i) else None))
    \<and> list_all2 (\<lambda>e a. added_content js e = Inr (fst a) \<and> added_id js e = Inr (int (snd a))) added (tl_added_tokens st)"
  using assms(1)
proof (induction added arbitrary: st rule: rev_induct)
  case Nil
  then show ?case
    using assms(2-) by (simp add: document_piece_def)
next
  case (snoc e added)
  from snoc.prems obtain st1 where st1: "result_foldl (load_added_token js) st0 added = Inr st1"
    and step: "load_added_token js st1 e = Inr st"
    by (auto simp: result_foldl_append)
  note IH = snoc.IH [OF st1]
  have inv: "load_inv n st"
    using load_added_inv [OF _ step] IH by blast
  obtain token content where token: "added_id js e = Inr token" "0 \<le> token" "token < int n"
    and content: "added_content js e = Inr content"
    and st: "tl_pieces st = (tl_pieces st1)[nat token := content]" "tl_observed st = (tl_observed st1)[nat token := True]"
      "tl_added_tokens st = tl_added_tokens st1 @ [(content, nat token)]"
    using step IH
    by (cases "added_id js e"; cases "added_content js e")
      (auto simp: load_added_token_def load_inv_def not_less added_id_def added_content_def split: if_splits)
  have "document_piece js vocabulary (added @ [e]) i = (if tl_observed st ! i then Some (tl_pieces st ! i) else None)"
    if i: "i < n" for i
  proof (cases "i = nat token")
    case True
    then show ?thesis
      using i token content st IH by (simp add: document_piece_def load_inv_def)
  next
    case False
    then have "token \<noteq> int i"
      using token by auto
    moreover have "document_piece js vocabulary added i = (if tl_observed st1 ! i then Some (tl_pieces st1 ! i) else None)"
      using IH i by blast
    ultimately show ?thesis
      using False token st by (simp add: document_piece_def)
  qed
  with inv IH st token content show ?case
    by (simp add: list_all2_appendI)
qed

lemma from_json_Inr:
  assumes "from_json js tokenizer_json = Inr tk"
  obtains doc st vocabulary st0 added merges ranks
  where "js_parse js (string_of_bytes tokenizer_json) = Inr doc"
    and "vocabulary_of js doc = Inr vocabulary" and "added_of js doc = Inr added"
    and "result_foldl (load_vocabulary_entry js) (empty_load tokenizer_vocabulary_size) vocabulary = Inr st0"
    and "result_foldl (load_added_token js) st0 added = Inr st"
    and "find (\<lambda>i. \<not> tl_observed st ! i) [0..<length (tl_observed st)] = None"
    and "result_foldl (load_merge js) ((\<lambda>_. None), 0) merges = Inr ranks"
    and "tk = \<lparr> tk_pieces = tl_pieces st, tk_token_ids = tl_token_ids st, tk_merge_ranks = fst ranks,
                tk_added_tokens = sort_key (\<lambda>t. - int (length (fst t))) (tl_added_tokens st) \<rparr>"
proof -
  have or_json: "or_json_error m r = Inr x \<longleftrightarrow> r = Inr x" for m :: string and r :: "string + 'z" and x
    by (cases r) simp_all
  have "tokenizer_json \<noteq> []"
    using assms by (auto simp: from_json_def)
  with assms show ?thesis
    by (auto simp: from_json_def or_json vocabulary_of_def added_of_def split: option.splits intro: that)
qed

text \<open>
  C16. A loaded tokenizer has the piece of the document for every ID below the vocabulary size, and none
  beyond: the content of the last added token with that ID, or else the key of the only vocabulary entry
  with that ID, so a document that leaves an ID out is refused. Every ID that encoding can emit, from the
  vocabulary or an added token, is below that size, so \<open>decode\<close> accepts it. The added tokens are those of
  the document, longer ones before shorter ones.
\<close>

theorem loaded_ids_in_range:
  assumes "from_json js tokenizer_json = Inr tk"
  shows "\<exists>doc vocabulary added. js_parse js (string_of_bytes tokenizer_json) = Inr doc
    \<and> vocabulary_of js doc = Inr vocabulary \<and> added_of js doc = Inr added
    \<and> length (tk_pieces tk) = tokenizer_vocabulary_size
    \<and> (\<forall>i \<in> {..<tokenizer_vocabulary_size}. document_piece js vocabulary added i = Some (tk_pieces tk ! i))
    \<and> (\<forall>s \<in> dom (tk_token_ids tk). the (tk_token_ids tk s) < tokenizer_vocabulary_size)
    \<and> (\<forall>a \<in> set (tk_added_tokens tk). snd a < tokenizer_vocabulary_size)
    \<and> sorted_wrt (\<lambda>a b. length (fst b) \<le> length (fst a)) (tk_added_tokens tk)
    \<and> (\<exists>tokens. mset (tk_added_tokens tk) = mset tokens
         \<and> list_all2 (\<lambda>e a. added_content js e = Inr (fst a) \<and> added_id js e = Inr (int (snd a))) added tokens)"
proof -
  obtain doc st vocabulary st0 added and ranks :: "(string \<Rightarrow> nat option) \<times> nat" where
    parsed: "js_parse js (string_of_bytes tokenizer_json) = Inr doc" "vocabulary_of js doc = Inr vocabulary"
      "added_of js doc = Inr added"
    and vocab: "result_foldl (load_vocabulary_entry js) (empty_load tokenizer_vocabulary_size) vocabulary = Inr st0"
    and added: "result_foldl (load_added_token js) st0 added = Inr st"
    and observed: "find (\<lambda>i. \<not> tl_observed st ! i) [0..<length (tl_observed st)] = None"
    and tk: "tk = \<lparr> tk_pieces = tl_pieces st, tk_token_ids = tl_token_ids st, tk_merge_ranks = fst ranks,
                tk_added_tokens = sort_key (\<lambda>t. - int (length (fst t))) (tl_added_tokens st) \<rparr>"
    by (rule from_json_Inr [OF assms]) (rule that)
  from load_vocabulary_pieces [OF vocab] load_added_pieces [OF added, where n = tokenizer_vocabulary_size and vocabulary = vocabulary]
  have inv: "load_inv tokenizer_vocabulary_size st"
    and pieces: "\<forall>i < tokenizer_vocabulary_size. document_piece js vocabulary added i
      = (if tl_observed st ! i then Some (tl_pieces st ! i) else None)"
    and tokens: "list_all2 (\<lambda>e a. added_content js e = Inr (fst a) \<and> added_id js e = Inr (int (snd a))) added (tl_added_tokens st)"
    by blast+
  have "\<forall>i < tokenizer_vocabulary_size. tl_observed st ! i"
    using observed inv by (auto simp: find_None_iff load_inv_def)
  with pieces have "\<forall>i \<in> {..<tokenizer_vocabulary_size}. document_piece js vocabulary added i = Some (tl_pieces st ! i)"
    by simp
  moreover have "sorted (map (\<lambda>t. - int (length (fst t))) (sort_key (\<lambda>t. - int (length (fst t))) (tl_added_tokens st)))"
    by (rule sorted_sort_key)
  then have "sorted_wrt (\<lambda>a b. length (fst b) \<le> length (fst a)) (tk_added_tokens tk)"
    by (simp add: tk sorted_wrt_map)
  moreover have "mset (tk_added_tokens tk) = mset (tl_added_tokens st)"
    by (simp add: tk)
  ultimately show ?thesis
    using parsed inv tokens by (intro exI [of _ doc] exI [of _ vocabulary] exI [of _ added]) (auto simp: tk load_inv_def)
qed

section \<open>The properties at concrete inputs\<close>

definition sample_libraries :: text_libraries where
  "sample_libraries = \<lparr> nfc_available = True, nfc = Some, regex_compiles = True, regex_memory = True,
     regex_match = (\<lambda>t offset. Some (offset, length t)) \<rparr>"

definition sample_tokenizer :: qwen_tokenizer where
  "sample_tokenizer = \<lparr> tk_pieces = [''a'', ''b'', ''ab'', ''<s>''],
     tk_token_ids = [''a'' \<mapsto> 0, ''b'' \<mapsto> 1, ''ab'' \<mapsto> 2, ''<s>'' \<mapsto> 3],
     tk_merge_ranks = [pair_key ''a'' ''b'' \<mapsto> 0], tk_added_tokens = [(''<s>'', 3)] \<rparr>"

lemma sample_well_formed: "well_formed sample_tokenizer"
  by (auto simp: well_formed_def sample_tokenizer_def piece_of_def plain_def split: if_splits)

lemma sample_symbols: "split_symbols (encode_bytes ''ab'') 0 = Inr [''a'', ''b'']"
proof -
  have "alphabet.spell [byte_of_char CHR ''a''] = ''a''" "alphabet.spell [byte_of_char CHR ''b''] = ''b''"
    using spell_plain [of "''a''"] spell_plain [of "''b''"] by (simp_all add: plain_def bytes_of_string_def)
  then show ?thesis
    using split_symbols_spell [of "[]" "bytes_of_string ''ab''"]
    by (simp add: encode_bytes_spell bytes_of_string_def)
qed

lemma encode_loop_done: "length t \<le> cursor \<Longrightarrow> encode_loop libs tk t cursor out = Some (Inr out)"
  by (simp add: encode_loop.simps)

lemma sample_encode: "tokenizer_encode sample_libraries sample_tokenizer ''ab<s>'' = Some (Inr [2, 3])"
proof -
  have merged: "bpe (tk_merge_ranks sample_tokenizer) [''a'', ''b''] = [''ab'']"
    by (simp add: bpe.simps best_pair_def best_step_def sample_tokenizer_def pair_key_def max_u32_def Let_def)
  have "encode_pretoken sample_tokenizer ''ab'' = Inr [2]"
    by (simp add: encode_pretoken_def sample_symbols merged) (simp add: symbol_id_def sample_tokenizer_def)
  then have "encode_normal sample_libraries sample_tokenizer ''ab'' = Inr [2]"
    by (simp add: encode_normal_def normalize_nfc_def split_pretokens_def sample_libraries_def
        pretoken_loop.simps substr_def)
  moreover have "find_special (tk_added_tokens sample_tokenizer) ''ab<s>'' 0 = Some (2, ''<s>'', 3)"
    by (simp add: find_special_def special_step_def find_from_def is_prefix_def sample_tokenizer_def)
  ultimately show ?thesis
    by (simp add: tokenizer_encode_def encode_loop.simps [of _ _ _ 0] encode_loop_done substr_def)
qed

text \<open>A normalizer that changes the segment before the added token.\<close>

definition composing_libraries :: text_libraries where
  "composing_libraries = sample_libraries \<lparr> nfc := (\<lambda>t. Some (if t = ''ba'' then ''ab'' else t)) \<rparr>"

lemma composing_encode: "tokenizer_encode composing_libraries sample_tokenizer ''ba<s>'' = Some (Inr [2, 3])"
proof -
  have merged: "bpe (tk_merge_ranks sample_tokenizer) [''a'', ''b''] = [''ab'']"
    by (simp add: bpe.simps best_pair_def best_step_def sample_tokenizer_def pair_key_def max_u32_def Let_def)
  have "encode_pretoken sample_tokenizer ''ab'' = Inr [2]"
    by (simp add: encode_pretoken_def sample_symbols merged) (simp add: symbol_id_def sample_tokenizer_def)
  then have "encode_normal composing_libraries sample_tokenizer ''ba'' = Inr [2]"
    by (simp add: encode_normal_def normalize_nfc_def split_pretokens_def composing_libraries_def sample_libraries_def
        pretoken_loop.simps substr_def)
  moreover have "find_special (tk_added_tokens sample_tokenizer) ''ba<s>'' 0 = Some (2, ''<s>'', 3)"
    by (simp add: find_special_def special_step_def find_from_def is_prefix_def sample_tokenizer_def)
  ultimately show ?thesis
    by (simp add: tokenizer_encode_def encode_loop.simps [of _ _ _ 0] encode_loop_done substr_def)
qed

lemma composing_normalized: "normalized composing_libraries (tk_added_tokens sample_tokenizer) ''ba<s>'' ''ab<s>''"
proof -
  have "normalized composing_libraries (tk_added_tokens sample_tokenizer) (''ba'' @ ''<s>'' @ []) (''ab'' @ ''<s>'' @ [])"
    by (rule normalized.at_token [where token = 3])
      (simp_all add: sample_tokenizer_def is_prefix_def normal_form_def composing_libraries_def normalized.no_token)
  then show ?thesis
    by simp
qed

lemma encode_decode_round_trip_witness:
  "tokenizer_decode sample_tokenizer [2, 3] = Inr ''ab<s>''
   \<and> normalized composing_libraries (tk_added_tokens sample_tokenizer) ''ba<s>'' ''ab<s>''"
  using encode_decode_round_trip [OF sample_well_formed composing_encode] composing_normalized by metis

lemma encode_returns_witness: "\<exists>r. tokenizer_encode sample_libraries sample_tokenizer ''<s>ab'' = Some r"
  by (rule encode_returns) (simp add: sample_tokenizer_def)

lemma utf8_round_trip_witness:
  "decode_codepoint (append_utf8 ''x'' 0x20AC @ ''y'') 1 = Some (0x20AC, length (append_utf8 ''x'' 0x20AC))"
  using utf8_round_trip [of "0x20AC" "''x''" "''y''"] by simp

text \<open>A document whose vocabulary is the decimal numerals.\<close>

definition numeral_vocabulary :: "nat \<Rightarrow> (string \<times> json) list" where
  "numeral_vocabulary n = map (\<lambda>i. (to_string i, JUnsigned (of_nat i))) [0..<n]"

definition numeral_simdjson :: simdjson where
  "numeral_simdjson = sample_simdjson \<lparr> js_parse := (\<lambda>_. Inr (JObject
     [(''model'', JObject [(''vocab'', JObject (numeral_vocabulary tokenizer_vocabulary_size)), (''merges'', JArray [])]),
      (''added_tokens'', JArray [])])) \<rparr>"

lemma numeral_vocabulary_loads:
  assumes "n \<le> N" and "N < 2 ^ 32"
  shows "\<exists>st. result_foldl (load_vocabulary_entry js) (empty_load N) (numeral_vocabulary n) = Inr st
    \<and> length (tl_pieces st) = N \<and> tl_observed st = replicate n True @ replicate (N - n) False
    \<and> tl_added_tokens st = []"
  using assms(1)
proof (induction n)
  case 0
  then show ?case
    by (simp add: numeral_vocabulary_def empty_load_def)
next
  case (Suc n)
  then obtain st where st: "result_foldl (load_vocabulary_entry js) (empty_load N) (numeral_vocabulary n) = Inr st"
    "length (tl_pieces st) = N" "tl_observed st = replicate n True @ replicate (N - n) False" "tl_added_tokens st = []"
    by auto
  have split: "replicate (N - n) False = False # replicate (N - Suc n) False"
    using Suc.prems by (metis Suc_diff_Suc Suc_le_lessD replicate_Suc)
  have "uint (of_nat n :: u64) = int n" "unat (of_nat n :: u64) < 2 ^ 63"
    using Suc.prems assms(2) by (simp_all add: u64_of_nat uint_nat)
  then have "get_i64 js (JUnsigned (of_nat n)) = Inr (int n)"
    by (simp add: get_i64_def)
  then have "\<exists>st'. load_vocabulary_entry js st (to_string n, JUnsigned (of_nat n)) = Inr st'
      \<and> length (tl_pieces st') = N \<and> tl_observed st' = replicate (Suc n) True @ replicate (N - Suc n) False
      \<and> tl_added_tokens st' = []"
    using st Suc.prems
    by (simp add: load_vocabulary_entry_def split nth_append list_update_append replicate_append_same)
  with st show ?case
    by (auto simp: numeral_vocabulary_def result_foldl_append)
qed

lemma loaded_ids_in_range_witness:
  "\<exists>tk vocabulary. from_json numeral_simdjson [0] = Inr tk \<and> length (tk_pieces tk) = tokenizer_vocabulary_size
   \<and> document_piece numeral_simdjson vocabulary [] 7 = Some (tk_pieces tk ! 7)"
proof -
  obtain st where st: "result_foldl (load_vocabulary_entry numeral_simdjson) (empty_load tokenizer_vocabulary_size)
      (numeral_vocabulary tokenizer_vocabulary_size) = Inr st"
    "tl_observed st = replicate tokenizer_vocabulary_size True"
    using numeral_vocabulary_loads [of tokenizer_vocabulary_size tokenizer_vocabulary_size numeral_simdjson]
    by (auto simp: tokenizer_vocabulary_size_def)
  have "find (\<lambda>i. \<not> tl_observed st ! i) [0..<length (tl_observed st)] = None"
    unfolding st(2) find_None_iff by auto
  moreover have "js_parse numeral_simdjson s = Inr (JObject
      [(''model'', JObject [(''vocab'', JObject (numeral_vocabulary tokenizer_vocabulary_size)), (''merges'', JArray [])]),
       (''added_tokens'', JArray [])])" for s
    by (simp add: numeral_simdjson_def)
  ultimately have "\<exists>tk. from_json numeral_simdjson [0] = Inr tk"
    using st(1) by (simp add: from_json_def at_key_def get_object_def get_field_def get_array_def)
  then obtain tk where tk: "from_json numeral_simdjson [0] = Inr tk"
    by blast
  from loaded_ids_in_range [OF tk] obtain doc vocabulary added where
    parsed: "js_parse numeral_simdjson (string_of_bytes [0]) = Inr doc" "added_of numeral_simdjson doc = Inr added"
    and pieces: "length (tk_pieces tk) = tokenizer_vocabulary_size"
      "\<forall>i \<in> {..<tokenizer_vocabulary_size}. document_piece numeral_simdjson vocabulary added i = Some (tk_pieces tk ! i)"
    by blast
  have "added = []"
    using parsed
    by (auto simp: numeral_simdjson_def added_of_def at_key_def get_object_def get_field_def get_array_def)
  moreover have "7 \<in> {..<tokenizer_vocabulary_size}"
    by (simp add: tokenizer_vocabulary_size_def)
  ultimately show ?thesis
    using tk pieces by blast
qed

end
