(* ===== verification/ConvertPlan.thy ===== *)
theory ConvertPlan
  imports Safetensors Quantization ArtifactStream
begin

text \<open>
  \<^verbatim>\<open>src/converter.cpp\<close>, the first half: what \<open>convert_qwen38\<close> will write. The choice of the format of
  a tensor, the rows of the ranked draft head, and the plan of the artifact: one item per source
  tensor, the two derived tensors of the draft head, and the resources. The host's files are an
  argument. A \<open>std::size_t\<close> layer number is a 64-bit word; row numbers are natural numbers.
\<close>

section \<open>The code\<close>

definition kDraftHeadRows :: nat where "kDraftHeadRows = 98304"

datatype derived_kind = derived_none | derived_draft_head | derived_draft_token_ids

record planned_item =
  pi_output :: tensor_write_plan
  pi_source_name :: string
  pi_resource_path :: string
  pi_derived :: derived_kind
  pi_selected_rows :: "nat list"

record conversion_options =
  co_source_directory :: string
  co_output_path :: string
  co_draft_ranking_path :: string
  co_plan_only :: bool
  co_chunk_rows :: nat
  co_mlp_bits :: nat
  co_output_head_bits :: nat
  co_w3_start_layer :: u64
  co_w4_tail_layers :: u64

record conversion_summary =
  cs_model_tensor_count :: nat
  cs_resource_count :: nat
  cs_w2_tensor_count :: nat
  cs_w3_tensor_count :: nat
  cs_w4_tensor_count :: nat
  cs_bf16_tensor_count :: nat
  cs_planned_payload_bytes :: u64
  cs_output_file_bytes :: u64

text \<open>What the host answers: the content of a file that can be opened, whether reading it succeeds,
  and the size that \<open>std::filesystem::file_size\<close> reports.\<close>

record host_files =
  hf_contents :: "string \<Rightarrow> bytes option"
  hf_read_ok :: "string \<Rightarrow> bool"
  hf_file_size :: "string \<Rightarrow> u64 option"

text \<open>\<open>checked_multiply\<close>; \<open>None\<close> is the result \<open>false\<close>.\<close>

definition checked_multiply :: "u64 \<Rightarrow> u64 \<Rightarrow> u64 option" where
  "checked_multiply left right =
     (if left \<noteq> 0 \<and> right > (- 1) div left then None else Some (left * right))"

definition read_file :: "host_files \<Rightarrow> string \<Rightarrow> bytes result" where
  "read_file host path =
     (case hf_contents host path of
        None \<Rightarrow> Err io_error (''cannot open resource: '' @ path)
      | Some contents \<Rightarrow>
          if length contents = 0 then Err io_error (''resource is empty or unreadable: '' @ path)
          else if length contents > max_u64 then Err unsupported (''resource is too large: '' @ path)
          else if \<not> hf_read_ok host path then Err io_error (''cannot read resource: '' @ path)
          else Inr contents)"

fun parse_layer :: "u64 \<Rightarrow> string \<Rightarrow> u64 option" where
  "parse_layer layer [] = Some layer"
| "parse_layer layer (digit # digits) =
     (if \<not> is_digit digit then None else parse_layer (layer * 10 + of_nat (digit_value digit)) digits)"

text \<open>\<open>is_early_mlp\<close>: the layer when the result is \<open>true\<close>; after \<open>false\<close> the caller does not read it.\<close>

definition is_early_mlp :: "string \<Rightarrow> u64 \<Rightarrow> u64 option" where
  "is_early_mlp name w4_tail_layers =
     (let prefix = ''model.language_model.layers.'' in
      if \<not> starts_with prefix name then None
      else case find_from ''.'' (length prefix) name of
        None \<Rightarrow> None
      | Some layer_end \<Rightarrow>
          if find_from ''.mlp.'' layer_end name = None then None
          else case parse_layer 0 (substr (length prefix) (layer_end - length prefix) name) of
            None \<Rightarrow> None
          | Some layer \<Rightarrow> if layer < of_nat layer_count - w4_tail_layers then Some layer else None)"

definition head_quantization :: "nat \<Rightarrow> quantization" where
  "head_quantization output_head_bits =
     (if output_head_bits = 2 then w2g128 else if output_head_bits = 3 then w3g128 else w4g128)"

definition choose_quantization :: "string \<Rightarrow> safe_tensor_descriptor \<Rightarrow> conversion_options \<Rightarrow> quantization" where
  "choose_quantization name tensor options =
     (if length (sd_shape tensor) \<noteq> 2 \<or> sd_shape tensor ! 0 mod 16 \<noteq> 0 \<or> sd_shape tensor ! 1 mod 128 \<noteq> 0
      then q_none
      else if name = ''lm_head.weight'' then head_quantization (co_output_head_bits options)
      else case is_early_mlp name (co_w4_tail_layers options) of
        None \<Rightarrow> w4g128
      | Some layer \<Rightarrow>
          if co_mlp_bits options = 4 then w4g128
          else if co_mlp_bits options = 3 \<and> layer \<ge> co_w3_start_layer options then w3g128 else w2g128)"

subsection \<open>The rows of the draft head\<close>

definition required_special_tokens :: "nat list" where
  "required_special_tokens =
     [248044, 248045, 248046, 248047, 248048, 248049, 248050,
      248051, 248052, 248053, 248054, 248055, 248056, 248057,
      248070, 248071, 248072, 248073, 248074, 248075, 248076]"

definition better :: "(nat \<Rightarrow> int) \<Rightarrow> nat \<Rightarrow> nat \<Rightarrow> bool" where
  "better counts left right =
     (if counts left \<noteq> counts right then counts left > counts right else left < right)"

text \<open>\<open>std::sort\<close> and \<open>std::partial_sort\<close> by \<open>better\<close>, which is a strict total order.\<close>

definition sort_better :: "(nat \<Rightarrow> int) \<Rightarrow> nat list \<Rightarrow> nat list" where
  "sort_better counts rows = sort_key (\<lambda>r. (- counts r, r)) rows"

text \<open>The inner loop: the largest position below \<open>replacement\<close> whose row is not required.\<close>

fun find_replacement :: "nat list \<Rightarrow> nat list \<Rightarrow> nat \<Rightarrow> nat option" where
  "find_replacement required rows 0 = None"
| "find_replacement required rows (Suc replacement) =
     (if rows ! replacement \<notin> set required then Some replacement
      else find_replacement required rows replacement)"

definition replace_step ::
  "nat list \<Rightarrow> nat list \<times> (nat \<Rightarrow> bool) \<times> nat \<Rightarrow> nat \<Rightarrow> nat list \<times> (nat \<Rightarrow> bool) \<times> nat" where
  "replace_step required st token =
     (case st of (rows, selected, replacement) \<Rightarrow>
        if selected token then (rows, selected, replacement)
        else case find_replacement required rows replacement of
          None \<Rightarrow> (rows, selected, 0)
        | Some position \<Rightarrow>
            (rows[position := token], selected(rows ! position := False, token := True), position))"

definition ranked_rows :: "nat list \<Rightarrow> nat \<Rightarrow> nat \<Rightarrow> (nat \<Rightarrow> int) \<Rightarrow> nat list" where
  "ranked_rows required vocabulary n counts =
     (let rows = take n (sort_better counts [0..<vocabulary]);
          selected = (\<lambda>t. t \<in> set rows)
      in sort_better counts (fst (foldl (replace_step required) (rows, selected, length rows) required)))"

definition ranking_row_bytes :: nat where
  "ranking_row_bytes = vocabulary_size * 8"

definition ranking_count :: "bytes \<Rightarrow> nat \<Rightarrow> int" where
  "ranking_count contents i = sint (le_word (slice (8 * i) 8 contents) :: u64)"

definition select_draft_head_rows :: "host_files \<Rightarrow> string \<Rightarrow> nat list result" where
  "select_draft_head_rows host ranking_path =
     (case hf_contents host ranking_path of
        None \<Rightarrow> Err io_error (''cannot open draft-token ranking: '' @ ranking_path)
      | Some contents \<Rightarrow>
          if length contents < ranking_row_bytes \<or> length contents mod ranking_row_bytes \<noteq> 0
          then Err corrupt_artifact ''draft-token ranking has an invalid shape''
          else if \<not> hf_read_ok host ranking_path then Err io_error ''cannot read draft-token ranking''
          else Inr (ranked_rows required_special_tokens tokenizer_vocabulary_size kDraftHeadRows (ranking_count contents)))"

subsection \<open>The plan\<close>

definition count_format :: "quantization \<Rightarrow> conversion_summary \<Rightarrow> conversion_summary" where
  "count_format format s =
     (if format = w2g128 then s \<lparr> cs_w2_tensor_count := cs_w2_tensor_count s + 1 \<rparr>
      else if format = w3g128 then s \<lparr> cs_w3_tensor_count := cs_w3_tensor_count s + 1 \<rparr>
      else s \<lparr> cs_w4_tensor_count := cs_w4_tensor_count s + 1 \<rparr>)"

record source_files =
  sf_weight_map :: "(string \<times> string) list"
  sf_shard_indices :: "string \<Rightarrow> nat option"
  sf_shards :: "safe_tensor_file list"

text \<open>The sizes of a quantized tensor: code bytes and scale bytes.\<close>

definition quantized_sizes :: "quantization \<Rightarrow> u64 \<Rightarrow> u64 \<Rightarrow> (u64 \<times> u64) option" where
  "quantized_sizes format rows columns =
     (case checked_multiply rows (of_nat (packed_row_bytes format (unat columns))) of
        None \<Rightarrow> None
      | Some code_bytes \<Rightarrow>
          case checked_multiply rows (columns div 128) of
            None \<Rightarrow> None
          | Some scale_count \<Rightarrow>
              (case checked_multiply scale_count 2 of None \<Rightarrow> None | Some scale_bytes \<Rightarrow> Some (code_bytes, scale_bytes)))"

definition plan_source ::
  "conversion_options \<Rightarrow> source_files \<Rightarrow> planned_item list \<times> conversion_summary \<Rightarrow> string
    \<Rightarrow> (planned_item list \<times> conversion_summary) result" where
  "plan_source options files acc name =
     (case acc of (items, summary) \<Rightarrow>
        case map_of (sf_weight_map files) name of
          None \<Rightarrow> Err corrupt_artifact (''source index is missing tensor: '' @ name)
        | Some shard \<Rightarrow>
            case sf_shard_indices files shard of
              None \<Rightarrow> Err internal (''source shard was not opened: '' @ shard)
            | Some shard_index \<Rightarrow>
                case safetensors_find (sf_shards files ! shard_index) name of
                  None \<Rightarrow> Err corrupt_artifact (''source BF16 tensor is unavailable: '' @ name)
                | Some source \<Rightarrow>
                    if sd_dtype source \<noteq> src_bf16
                    then Err corrupt_artifact (''source BF16 tensor is unavailable: '' @ name)
                    else
                      let format = choose_quantization name source options in
                      result_bind
                        (if format = q_none
                         then Inr (dt_bf16, sd_bytes source, 0,
                           summary \<lparr> cs_bf16_tensor_count := cs_bf16_tensor_count summary + 1 \<rparr>)
                         else case quantized_sizes format (sd_shape source ! 0) (sd_shape source ! 1) of
                           None \<Rightarrow> Err unsupported (''quantized tensor size overflow: '' @ name)
                         | Some (code_bytes, scale_bytes) \<Rightarrow>
                             Inr (dt_u8, code_bytes, scale_bytes, count_format format summary))
                        (\<lambda>(dtype, data_bytes, auxiliary_bytes, summary).
                          if cs_planned_payload_bytes summary > (- 1) - data_bytes - auxiliary_bytes
                          then Err unsupported ''artifact payload size overflow''
                          else Inr (items @ [\<lparr>
                              pi_output = \<lparr> wp_name = name, wp_dtype = dtype, wp_quantization = format,
                                wp_dimensions = sd_shape source, wp_data_bytes = data_bytes,
                                wp_auxiliary_bytes = auxiliary_bytes, wp_alignment = 256 \<rparr>,
                              pi_source_name = name, pi_resource_path = [], pi_derived = derived_none,
                              pi_selected_rows = [] \<rparr>],
                            summary \<lparr> cs_planned_payload_bytes :=
                              cs_planned_payload_bytes summary + (data_bytes + auxiliary_bytes) \<rparr>)))"

definition draft_head_item :: "conversion_options \<Rightarrow> nat list \<Rightarrow> planned_item" where
  "draft_head_item options rows =
     (let format = head_quantization (co_output_head_bits options) in
      \<lparr> pi_output = \<lparr> wp_name = ''mtp.draft_head.weight'', wp_dtype = dt_u8, wp_quantization = format,
          wp_dimensions = [of_nat kDraftHeadRows, of_nat hidden_size],
          wp_data_bytes = of_nat (kDraftHeadRows * packed_row_bytes format hidden_size),
          wp_auxiliary_bytes = of_nat (kDraftHeadRows * (hidden_size div 128) * 2), wp_alignment = 256 \<rparr>,
        pi_source_name = ''lm_head.weight'', pi_resource_path = [], pi_derived = derived_draft_head,
        pi_selected_rows = rows \<rparr>)"

definition draft_ids_item :: "nat list \<Rightarrow> planned_item" where
  "draft_ids_item rows =
     \<lparr> pi_output = \<lparr> wp_name = ''mtp.draft_head_token_ids'', wp_dtype = dt_i32, wp_quantization = q_none,
         wp_dimensions = [of_nat kDraftHeadRows], wp_data_bytes = of_nat (kDraftHeadRows * 4),
         wp_auxiliary_bytes = 0, wp_alignment = 256 \<rparr>,
       pi_source_name = [], pi_resource_path = [], pi_derived = derived_draft_token_ids,
       pi_selected_rows = rows \<rparr>"

definition plan_draft_head ::
  "conversion_options \<Rightarrow> host_files \<Rightarrow> source_files \<Rightarrow> planned_item list \<times> conversion_summary
    \<Rightarrow> (planned_item list \<times> conversion_summary) result" where
  "plan_draft_head options host files acc =
     (case acc of (items, summary) \<Rightarrow>
        if co_draft_ranking_path options = [] then Inr (items, summary)
        else
          result_bind (select_draft_head_rows host (co_draft_ranking_path options)) (\<lambda>rows.
            case map_of (sf_weight_map files) ''lm_head.weight'' of
              None \<Rightarrow> Err corrupt_artifact ''source index is missing lm_head.weight''
            | Some shard \<Rightarrow>
                case sf_shard_indices files shard of
                  None \<Rightarrow> Err internal ''LM-head shard was not opened''
                | Some shard_index \<Rightarrow>
                    case safetensors_find (sf_shards files ! shard_index) ''lm_head.weight'' of
                      None \<Rightarrow> Err corrupt_artifact ''source LM head has an invalid shape''
                    | Some source \<Rightarrow>
                        if length (sd_shape source) \<noteq> 2 \<or> sd_shape source ! 0 \<noteq> of_nat vocabulary_size
                          \<or> sd_shape source ! 1 \<noteq> of_nat hidden_size
                        then Err corrupt_artifact ''source LM head has an invalid shape''
                        else
                          let head = draft_head_item options rows; ids = draft_ids_item rows;
                              summary = count_format (wp_quantization (pi_output head)) (summary \<lparr> cs_planned_payload_bytes :=
                                cs_planned_payload_bytes summary
                                  + (wp_data_bytes (pi_output head) + wp_auxiliary_bytes (pi_output head)) \<rparr>)
                          in Inr (items @ [head, ids], summary \<lparr>
                               cs_planned_payload_bytes := cs_planned_payload_bytes summary + wp_data_bytes (pi_output ids),
                               cs_model_tensor_count := cs_model_tensor_count summary + 2 \<rparr>)))"

definition resource_names :: "string list" where
  "resource_names =
     [''chat_template.jinja'', ''config.json'', ''generation_config.json'', ''merges.txt'',
      ''preprocessor_config.json'', ''tokenizer.json'', ''tokenizer_config.json'',
      ''video_preprocessor_config.json'', ''vocab.json'']"

definition plan_resource ::
  "conversion_options \<Rightarrow> host_files \<Rightarrow> planned_item list \<times> conversion_summary \<Rightarrow> string
    \<Rightarrow> (planned_item list \<times> conversion_summary) result" where
  "plan_resource options host acc filename =
     (case acc of (items, summary) \<Rightarrow>
        let path = path_join (co_source_directory options) filename in
        if hf_file_size host path = None \<or> hf_file_size host path = Some 0
        then Err io_error (''required resource is unavailable: '' @ path)
        else
          let n = the (hf_file_size host path) in
          Inr (items @ [\<lparr>
              pi_output = \<lparr> wp_name = ''resources/'' @ filename, wp_dtype = dt_u8, wp_quantization = q_none,
                wp_dimensions = [n], wp_data_bytes = n, wp_auxiliary_bytes = 0, wp_alignment = 256 \<rparr>,
              pi_source_name = [], pi_resource_path = path, pi_derived = derived_none, pi_selected_rows = [] \<rparr>],
            summary \<lparr> cs_planned_payload_bytes := cs_planned_payload_bytes summary + n,
                      cs_resource_count := cs_resource_count summary + 1 \<rparr>))"

definition empty_summary :: conversion_summary where
  "empty_summary = \<lparr> cs_model_tensor_count = 0, cs_resource_count = 0, cs_w2_tensor_count = 0,
     cs_w3_tensor_count = 0, cs_w4_tensor_count = 0, cs_bf16_tensor_count = 0,
     cs_planned_payload_bytes = 0, cs_output_file_bytes = 0 \<rparr>"

definition make_plan ::
  "conversion_options \<Rightarrow> host_files \<Rightarrow> source_files \<Rightarrow> (planned_item list \<times> conversion_summary) result" where
  "make_plan options host files =
     (let names = qwen38_source_tensor_names False True in
      result_bind (result_foldl (plan_source options files) ([], empty_summary) names) (\<lambda>(items, summary).
      result_bind (plan_draft_head options host files
        (items, summary \<lparr> cs_model_tensor_count := length names \<rparr>)) (\<lambda>acc.
        result_foldl (plan_resource options host) acc resource_names)))"


section \<open>The rows of the draft head\<close>

abbreviation rank_key :: "(nat \<Rightarrow> int) \<Rightarrow> nat \<Rightarrow> int \<times> nat" where
  "rank_key counts r \<equiv> (- counts r, r)"

lemma better_key: "better counts a b \<longleftrightarrow> rank_key counts a < rank_key counts b"
  by (auto simp: better_def)

lemma set_sort_better [simp]: "set (sort_better counts rows) = set rows"
  and length_sort_better [simp]: "length (sort_better counts rows) = length rows"
  and distinct_sort_better [simp]: "distinct (sort_better counts rows) = distinct rows"
  by (simp_all add: sort_better_def)

lemma sort_better_sorted:
  assumes "distinct rows"
  shows "sorted_wrt (better counts) (sort_better counts rows)"
proof -
  let ?xs = "sort_better counts rows"
  have "sorted (map (rank_key counts) ?xs)"
    unfolding sort_better_def by (rule sorted_sort_key)
  moreover have "distinct (map (rank_key counts) ?xs)"
    using assms by (simp add: distinct_map inj_on_def)
  ultimately have "sorted_wrt (<) (map (rank_key counts) ?xs)"
    by (simp add: strict_sorted_iff)
  then have "sorted_wrt (\<lambda>a b. rank_key counts a < rank_key counts b) ?xs"
    by (simp only: sorted_wrt_map)
  then show ?thesis
    by (rule sorted_wrt_mono_rel [rotated]) (simp only: better_key)
qed

lemma find_replacement_Some:
  "find_replacement required rows r = Some p \<Longrightarrow>
   p < r \<and> rows ! p \<notin> set required \<and> (\<forall>i. p < i \<longrightarrow> i < r \<longrightarrow> rows ! i \<in> set required)"
  by (induction required rows r rule: find_replacement.induct) (auto split: if_splits simp: less_Suc_eq)

lemma find_replacement_None:
  "find_replacement required rows r = None \<Longrightarrow> i < r \<Longrightarrow> rows ! i \<in> set required"
  by (induction required rows r rule: find_replacement.induct) (auto split: if_splits simp: less_Suc_eq)

text \<open>What the replacement loop keeps, when it has treated the tokens in \<open>T\<close>.\<close>

definition replace_inv ::
  "nat list \<Rightarrow> nat \<Rightarrow> nat list \<Rightarrow> nat set \<Rightarrow> nat list \<times> (nat \<Rightarrow> bool) \<times> nat \<Rightarrow> bool" where
  "replace_inv required vocabulary orig T st \<longleftrightarrow>
     (case st of (rows, selected, r) \<Rightarrow>
        length rows = length orig \<and> distinct rows \<and> (\<forall>t. selected t \<longleftrightarrow> t \<in> set rows)
        \<and> set rows \<subseteq> {..<vocabulary} \<and> T \<subseteq> set rows
        \<and> r \<le> length orig \<and> (\<forall>i < r. rows ! i = orig ! i)
        \<and> (\<forall>i. r \<le> i \<longrightarrow> i < length orig \<longrightarrow> rows ! i \<in> set required))"

lemma replace_step_inv:
  assumes inv: "replace_inv required vocabulary orig T st" and token: "token \<in> set required" "token < vocabulary"
    and T: "T \<subseteq> set required" and few: "length required \<le> length orig"
  shows "replace_inv required vocabulary orig (insert token T) (replace_step required st token)"
proof -
  obtain rows selected r where st: "st = (rows, selected, r)"
    by (cases st)
  note i = inv [unfolded replace_inv_def st prod.case]
  show ?thesis
  proof (cases "selected token")
    case True
    then show ?thesis
      using i by (simp add: replace_step_def st replace_inv_def)
  next
    case False
    then have absent: "token \<notin> set rows"
      using i by blast
    have "\<exists>p. find_replacement required rows r = Some p"
    proof (rule ccontr)
      assume "\<not> ?thesis"
      then have none: "find_replacement required rows r = None"
        by simp
      have "rows ! k \<in> set required" if "k < length rows" for k
        using find_replacement_None [OF none, of k] i that by (cases "k < r") auto
      then have "insert token (set rows) \<subseteq> set required"
        using token(1) by (auto simp: in_set_conv_nth)
      then have "card (insert token (set rows)) \<le> card (set required)"
        by (rule card_mono [OF finite_set])
      moreover have "card (insert token (set rows)) = Suc (length orig)"
        using absent i by (simp add: distinct_card)
      ultimately show False
        using few card_length [of required] by linarith
    qed
    then obtain p where p: "find_replacement required rows r = Some p"
      by blast
    note f = find_replacement_Some [OF p]
    have len: "p < length rows"
      using f i by linarith
    have set_upd: "set (rows[p := token]) = insert token (set rows - {rows ! p})"
      using i len by (simp add: set_update_distinct)
    have "rows ! p \<notin> T"
      using f T by blast
    moreover have "rows[p := token] ! k \<in> set required" if "p \<le> k" "k < length orig" for k
      using that f i token(1) by (cases "k = p"; cases "k < r") auto
    ultimately have "replace_inv required vocabulary orig (insert token T)
        (rows[p := token], selected(rows ! p := False, token := True), p)"
      using i f token absent len unfolding replace_inv_def prod.case set_upd
      by (auto simp: distinct_list_update)
    then show ?thesis
      using False p by (simp add: replace_step_def st)
  qed
qed

lemma replace_all_inv:
  assumes "replace_inv required vocabulary orig T st" and "set tokens \<subseteq> set required" and "set tokens \<subseteq> {..<vocabulary}"
    and "T \<subseteq> set required" and "length required \<le> length orig"
  shows "replace_inv required vocabulary orig (T \<union> set tokens) (foldl (replace_step required) st tokens)"
  using assms
proof (induction tokens arbitrary: st T)
  case (Cons token tokens)
  have "replace_inv required vocabulary orig (insert token T) (replace_step required st token)"
    using Cons.prems by (intro replace_step_inv) auto
  from Cons.IH [OF this] Cons.prems show ?case
    by auto
qed simp

lemma ranked_rows_correct:
  fixes counts :: "nat \<Rightarrow> int"
  assumes "set required \<subseteq> {..<vocabulary}" and "length required \<le> n" and "n \<le> vocabulary"
  defines "rows \<equiv> ranked_rows required vocabulary n counts"
  shows "length rows = n" and "sorted_wrt (better counts) rows" and "set rows \<subseteq> {..<vocabulary}"
    and "set required \<subseteq> set rows"
    and "s \<in> set rows \<Longrightarrow> s \<notin> set required \<Longrightarrow> t < vocabulary \<Longrightarrow> t \<notin> set rows \<Longrightarrow> better counts s t"
proof -
  define all where "all = sort_better counts [0..<vocabulary]"
  define orig where "orig = take n all"
  have all: "sorted_wrt (better counts) all" "distinct all" "set all = {..<vocabulary}" "length all = vocabulary"
    by (auto simp: all_def intro: sort_better_sorted)
  have orig: "length orig = n" "distinct orig" "set orig \<subseteq> {..<vocabulary}"
    using all assms(3) set_take_subset [of n all] by (auto simp: orig_def)
  have "replace_inv required vocabulary orig {} (orig, \<lambda>t. t \<in> set orig, length orig)"
    using orig by (simp add: replace_inv_def)
  from replace_all_inv [OF this subset_refl assms(1)] assms(2) orig(1)
  have inv: "replace_inv required vocabulary orig (set required)
      (foldl (replace_step required) (orig, \<lambda>t. t \<in> set orig, length orig) required)"
    by simp
  obtain final selected r where final: "foldl (replace_step required) (orig, \<lambda>t. t \<in> set orig, length orig) required
      = (final, selected, r)"
    by (metis prod.exhaust)
  note i = inv [unfolded final replace_inv_def prod.case]
  have rows: "rows = sort_better counts final"
    by (simp add: rows_def ranked_rows_def Let_def all_def [symmetric] orig_def [symmetric] final)
  show "length rows = n" "sorted_wrt (better counts) rows" "set rows \<subseteq> {..<vocabulary}" "set required \<subseteq> set rows"
    using i orig(1) by (auto simp: rows intro: sort_better_sorted)
  show "better counts s t" if s: "s \<in> set rows" "s \<notin> set required" and t: "t < vocabulary" "t \<notin> set rows"
  proof -
    obtain a where a: "a < n" "final ! a = s"
      using s(1) i orig(1) by (auto simp: rows in_set_conv_nth)
    then have "a < r"
      using i s(2) orig(1) not_le by blast
    then have "all ! a = s"
      using i a orig(1) by (auto simp: orig_def)
    moreover obtain b where b: "b < vocabulary" "all ! b = t"
      using t(1) all(3,4) by (metis in_set_conv_nth lessThan_iff)
    moreover have "a < b"
    proof (rule ccontr)
      assume "\<not> a < b"
      then have "b < r" "b < n"
        using \<open>a < r\<close> a(1) by linarith+
      then have "final ! b = t"
        using i b orig(1) by (auto simp: orig_def)
      then show False
        using t(2) i \<open>b < n\<close> orig(1) by (auto simp: rows in_set_conv_nth)
    qed
    ultimately show ?thesis
      using all(1,4) by (auto simp: sorted_wrt_iff_nth_less)
  qed
qed

text \<open>
  C20. The rows of the ranked draft head: exactly 98304 distinct rows of the tokenizer's vocabulary, in
  the order of their counts, with all 21 special tokens among them; and every row that was left out is
  worse than every row that was chosen for its count.
\<close>

theorem draft_head_rows_best:
  assumes "select_draft_head_rows host path = Inr rows" and "hf_contents host path = Some contents"
  shows "length rows = kDraftHeadRows \<and> sorted_wrt (better (ranking_count contents)) rows
    \<and> set rows \<subseteq> {..<tokenizer_vocabulary_size} \<and> set required_special_tokens \<subseteq> set rows
    \<and> (\<forall>s \<in> set rows - set required_special_tokens. \<forall>t \<in> {..<tokenizer_vocabulary_size} - set rows.
         better (ranking_count contents) s t)"
proof -
  have rows: "rows = ranked_rows required_special_tokens tokenizer_vocabulary_size kDraftHeadRows (ranking_count contents)"
    using assms by (simp add: select_draft_head_rows_def split: if_splits)
  have "set required_special_tokens \<subseteq> {..<tokenizer_vocabulary_size}" "length required_special_tokens \<le> kDraftHeadRows"
    "kDraftHeadRows \<le> tokenizer_vocabulary_size"
    by (simp_all add: required_special_tokens_def tokenizer_vocabulary_size_def kDraftHeadRows_def)
  from ranked_rows_correct [OF this, where counts = "ranking_count contents"] show ?thesis
    unfolding rows by simp
qed

section \<open>The names of a plan\<close>

abbreviation item_name :: "planned_item \<Rightarrow> string" where
  "item_name i \<equiv> wp_name (pi_output i)"

lemma fold_names:
  assumes "\<And>items s x items' s'. f (items, s) x = Inr (items', s') \<Longrightarrow> map item_name items' = map item_name items @ [g x]"
    and "result_foldl f (items, s) xs = Inr (items', s')"
  shows "map item_name items' = map item_name items @ map g xs"
  using assms(2)
proof (induction xs arbitrary: items s)
  case (Cons x xs)
  obtain items1 s1 where "f (items, s) x = Inr (items1, s1)" "result_foldl f (items1, s1) xs = Inr (items', s')"
    using Cons.prems by auto
  with Cons.IH assms(1) show ?case
    by fastforce
qed simp

lemma plan_source_name:
  "plan_source options files (items, s) name = Inr (items', s') \<Longrightarrow> map item_name items' = map item_name items @ [name]"
  by (auto simp: plan_source_def Let_def split: option.splits if_splits prod.splits)

lemma plan_resource_name:
  "plan_resource options host (items, s) name = Inr (items', s')
    \<Longrightarrow> map item_name items' = map item_name items @ [''resources/'' @ name]"
  by (auto simp: plan_resource_def Let_def split: if_splits)

lemma plan_draft_head_items:
  assumes plan: "plan_draft_head options host files (items, s) = Inr (items', s')"
    and ranked: "co_draft_ranking_path options \<noteq> []"
  obtains rows where "select_draft_head_rows host (co_draft_ranking_path options) = Inr rows"
    and "items' = items @ [draft_head_item options rows, draft_ids_item rows]"
proof -
  obtain rows where rows: "select_draft_head_rows host (co_draft_ranking_path options) = Inr rows"
    using plan ranked by (auto simp: plan_draft_head_def)
  obtain shard where shard: "map_of (sf_weight_map files) ''lm_head.weight'' = Some shard"
    using plan ranked rows by (cases "map_of (sf_weight_map files) ''lm_head.weight''") (auto simp: plan_draft_head_def)
  obtain index where index: "sf_shard_indices files shard = Some index"
    using plan ranked rows shard by (cases "sf_shard_indices files shard") (auto simp: plan_draft_head_def)
  obtain source where "safetensors_find (sf_shards files ! index) ''lm_head.weight'' = Some source"
    using plan ranked rows shard index by (cases "safetensors_find (sf_shards files ! index) ''lm_head.weight''")
      (auto simp: plan_draft_head_def)
  then have "items' = items @ [draft_head_item options rows, draft_ids_item rows]"
    using plan ranked rows shard index by (auto simp: plan_draft_head_def Let_def split: if_splits)
  with rows show ?thesis
    by (rule that)
qed

lemma plan_draft_head_names:
  assumes "plan_draft_head options host files (items, s) = Inr (items', s')"
  shows "map item_name items' = map item_name items
      @ (if co_draft_ranking_path options = [] then [] else [''mtp.draft_head.weight'', ''mtp.draft_head_token_ids''])"
proof (cases "co_draft_ranking_path options = []")
  case True
  then show ?thesis
    using assms by (simp add: plan_draft_head_def)
next
  case False
  then show ?thesis
    using assms by (auto elim!: plan_draft_head_items [OF _ False] simp: draft_head_item_def draft_ids_item_def Let_def)
qed

lemma make_plan_names:
  assumes "make_plan options host files = Inr (items, summary)"
  shows "map item_name items = qwen38_source_tensor_names False True
    @ (if co_draft_ranking_path options = [] then [] else [''mtp.draft_head.weight'', ''mtp.draft_head_token_ids''])
    @ map ((@) ''resources/'') resource_names"
proof -
  obtain items1 s1 items2 s2 where
    1: "result_foldl (plan_source options files) ([], empty_summary) (qwen38_source_tensor_names False True) = Inr (items1, s1)"
    and 2: "plan_draft_head options host files
        (items1, s1 \<lparr> cs_model_tensor_count := length (qwen38_source_tensor_names False True) \<rparr>) = Inr (items2, s2)"
    and 3: "result_foldl (plan_resource options host) (items2, s2) resource_names = Inr (items, summary)"
    using assms by (auto simp: make_plan_def Let_def)
  from fold_names [where g = "\<lambda>n. n", OF plan_source_name 1] plan_draft_head_names [OF 2]
    fold_names [where g = "(@) ''resources/''", OF plan_resource_name 3]
  show ?thesis
    by simp
qed

text \<open>The names are short, so that the artifact's string table is small.\<close>

lemma to_string_short: "n < 100 \<Longrightarrow> length (to_string n) \<le> 2"
  by (cases "n < 10") (simp_all add: to_string.simps [of n] to_string.simps [of "n div 10"])

lemma source_name_short:
  assumes "n \<in> set (qwen38_source_tensor_names False True)"
  shows "length n \<le> 100"
proof -
  have suffix: "length s \<le> 50" if "s \<in> set (layer_suffixes l)" for s l
    using that by (auto simp: layer_suffixes_def split: if_splits)
  have "length n \<le> 100" if layer: "n \<in> set layer_names"
  proof -
    obtain l s where "l < 64" "s \<in> set (layer_suffixes l)" "n = layer_prefix l @ s"
      using layer by (auto simp: layer_names_def append_names_def layer_count_def)
    then show ?thesis
      using suffix to_string_short [of l] by (fastforce simp: layer_prefix_def)
  qed
  then show ?thesis
    using assms unfolding names_unsorted set_sort
    by (auto simp: head_names_def append_names_def mtp_suffixes_def)
qed

lemma make_plan_names_fit:
  assumes "make_plan options host files = Inr (items, summary)"
  shows "names_fit (map pi_output items)"
proof -
  note names = make_plan_names [OF assms]
  have item: "length (item_name i) \<le> 100" if "i \<in> set items" for i
  proof -
    have "item_name i \<in> set (map item_name items)"
      using that by simp
    then show ?thesis
      unfolding names using source_name_short
      by (auto simp: resource_names_def split: if_splits)
  qed
  have "length (map item_name items) \<le> 877"
    unfolding names by (simp add: names_unsorted length_layer_names head_names_def append_names_def mtp_suffixes_def resource_names_def)
  moreover have "sum_list (map (\<lambda>i. length (item_name i)) items) \<le> (\<Sum>i \<leftarrow> items. 100)"
    using item by (intro sum_list_mono) simp
  ultimately have "length (name_table (map item_name items)) \<le> 87700"
    by (simp add: length_name_table comp_def sum_list_triv)
  then show ?thesis
    using item by (auto simp: names_fit_def list_all_iff comp_def dest!: item)
qed

section \<open>The rows at a concrete ranking\<close>

definition blank_host :: host_files where
  "blank_host = \<lparr> hf_contents = (\<lambda>_. Some (replicate ranking_row_bytes 0)), hf_read_ok = (\<lambda>_. True),
     hf_file_size = (\<lambda>_. Some 1) \<rparr>"

lemma draft_head_rows_best_witness:
  "\<exists>rows. select_draft_head_rows blank_host ''ranking'' = Inr rows \<and> length rows = 98304 \<and> set required_special_tokens \<subseteq> set rows"
proof -
  obtain rows where rows: "select_draft_head_rows blank_host ''ranking'' = Inr rows"
    by (simp add: select_draft_head_rows_def blank_host_def)
  moreover have "hf_contents blank_host ''ranking'' = Some (replicate ranking_row_bytes 0)"
    by (simp add: blank_host_def)
  ultimately show ?thesis
    using draft_head_rows_best [of blank_host "''ranking''" rows] by (simp add: kDraftHeadRows_def)
qed

end
