(* ===== verification/Device.thy ===== *)
theory Device
  imports Strings
begin

text \<open>
  \<^verbatim>\<open>src/device.cpp\<close> and \<^verbatim>\<open>include/gfxinfer/device.h\<close>: enumeration of the HIP devices and the
  check that the chosen one is a gfx1200 device with waves of 32 lanes. The HIP runtime is an
  argument: for every call the error code it returns (0 is \<open>hipSuccess\<close>) and what it writes.
\<close>

section \<open>The code\<close>

type_synonym hip_code = nat

definition hip_success :: hip_code where "hip_success = 0"

record device_properties =
  dp_name :: string
  dp_gcn_arch_name :: string
  dp_total_global_mem :: u64
  dp_multi_processor_count :: int
  dp_clock_rate :: int
  dp_memory_clock_rate :: int
  dp_memory_bus_width :: int
  dp_warp_size :: int

text \<open>\<open>hip_malloc\<close> writes the allocated memory with its content, or a null pointer;
  \<open>hip_memcpy\<close> takes the number of the copy.\<close>

record hip_runtime =
  hip_error_name :: "hip_code \<Rightarrow> string"
  hip_error_string :: "hip_code \<Rightarrow> string"
  hip_device_count :: "hip_code \<times> int"
  hip_device_properties :: "int \<Rightarrow> hip_code \<times> device_properties"
  hip_set_device :: "int \<Rightarrow> hip_code"
  hip_mem_before :: "hip_code \<times> u64"
  hip_mem_after :: "hip_code \<times> u64"
  hip_malloc :: "u64 \<Rightarrow> hip_code \<times> bytes option"
  hip_stream_create :: hip_code
  hip_memcpy :: "nat \<Rightarrow> hip_code"
  hip_synchronize :: hip_code

record device_info =
  di_index :: int
  di_name :: string
  di_architecture :: string
  di_total_memory_bytes :: u64
  di_compute_units :: int
  di_clock_khz :: int
  di_memory_clock_khz :: int
  di_memory_bus_width_bits :: int
  di_warp_size :: int

text \<open>\<open>std::to_string\<close> of an \<open>int\<close>.\<close>

definition int_to_string :: "int \<Rightarrow> string" where
  "int_to_string i = (if i < 0 then CHR ''-'' # to_string (nat (- i)) else to_string (nat i))"

definition kRequiredArchitecture :: string where "kRequiredArchitecture = ''gfx1200''"
definition kModelId :: string where "kModelId = ''qwen3.8-27b''"

definition base_architecture :: "string \<Rightarrow> string" where
  "base_architecture architecture =
     (case find_sub '':'' architecture of None \<Rightarrow> architecture | Some separator \<Rightarrow> take separator architecture)"

definition hip_status :: "hip_runtime \<Rightarrow> hip_code \<Rightarrow> string \<Rightarrow> status" where
  "hip_status hip error context =
     (if error = hip_success then ok_status
      else Status hip_error
        (context @ '': '' @ hip_error_name hip error @ '' ('' @ hip_error_string hip error @ '')''))"

definition device_of :: "int \<Rightarrow> device_properties \<Rightarrow> device_info" where
  "device_of index properties =
     \<lparr> di_index = index,
       di_name = dp_name properties,
       di_architecture = base_architecture (dp_gcn_arch_name properties),
       di_total_memory_bytes = dp_total_global_mem properties,
       di_compute_units = dp_multi_processor_count properties,
       di_clock_khz = dp_clock_rate properties,
       di_memory_clock_khz = dp_memory_clock_rate properties,
       di_memory_bus_width_bits = dp_memory_bus_width properties,
       di_warp_size = dp_warp_size properties \<rparr>"

definition enumerate_device :: "hip_runtime \<Rightarrow> int \<Rightarrow> device_info result" where
  "enumerate_device hip index =
     (let (error, properties) = hip_device_properties hip index in
      if error \<noteq> hip_success
      then Inl (hip_status hip error (''hipGetDeviceProperties failed for device '' @ int_to_string index))
      else Inr (device_of index properties))"

definition enumerate_devices :: "hip_runtime \<Rightarrow> device_info list result" where
  "enumerate_devices hip =
     (let (error, count) = hip_device_count hip in
      if error \<noteq> hip_success then Inl (hip_status hip error ''hipGetDeviceCount failed'')
      else result_all (\<lambda>i. enumerate_device hip (int i)) [0..<nat count])"

definition require_gfx1200_device :: "hip_runtime \<Rightarrow> int \<Rightarrow> device_info result" where
  "require_gfx1200_device hip index =
     result_bind (enumerate_devices hip) (\<lambda>devices.
       case find (\<lambda>device. di_index device = index) devices of
         None \<Rightarrow> Err invalid_argument (''HIP device index '' @ int_to_string index @ '' does not exist'')
       | Some found \<Rightarrow>
           if di_architecture found \<noteq> kRequiredArchitecture
           then Err unsupported (''device '' @ int_to_string index @ '' is '' @ di_architecture found
                  @ ''; GFXInfer requires gfx1200'')
           else if di_warp_size found \<noteq> 32
           then Err unsupported (''gfx1200 device reported unexpected wave size '' @ int_to_string (di_warp_size found))
           else
             let error = hip_set_device hip index in
             if error \<noteq> hip_success then Inl (hip_status hip error ''hipSetDevice failed'')
             else Inr found)"

section \<open>The accepted device\<close>

lemma require_gfx1200_Inr:
  assumes "require_gfx1200_device hip index = Inr device"
  shows "di_index device = index \<and> di_architecture device = kRequiredArchitecture
    \<and> di_warp_size device = 32 \<and> hip_set_device hip index = hip_success"
proof -
  obtain devices where devices: "enumerate_devices hip = Inr devices"
    using assms by (auto simp: require_gfx1200_device_def)
  obtain d where found: "find (\<lambda>device. di_index device = index) devices = Some d"
    using assms devices by (cases "find (\<lambda>device. di_index device = index) devices")
      (auto simp: require_gfx1200_device_def)
  then have "di_index d = index"
    by (auto simp: find_Some_iff)
  then show ?thesis
    using assms devices found by (simp add: require_gfx1200_device_def Let_def split: if_splits)
qed

end
