(* ===== verification/Engine.thy ===== *)
theory Engine
  imports ArtifactWrite Device
begin

text \<open>
  \<^verbatim>\<open>src/engine.cpp\<close> and \<^verbatim>\<open>include/gfxinfer/engine.h\<close>: the engine loads an artifact into one arena of
  device memory. The configuration checks, the placement of the resident tensors, the upload, the
  lookup of device tensors by name, the host resources, and the release of the device's allocations
  when loading fails. A device pointer is its offset from the arena.
\<close>

section \<open>The code\<close>

datatype kv_format = int8_group64 | q4_group64

record engine_config =
  ec_artifact :: string
  ec_device_index :: int
  ec_memory_budget_bytes :: u64
  ec_maximum_context_tokens :: u32
  ec_maximum_concurrency :: u32
  ec_kv_format :: kv_format
  ec_maximum_mtp_depth :: u32
  ec_verify_artifact_checksums :: bool
  ec_upload_weights :: bool

record load_summary =
  ls_identity :: artifact_identity
  ls_device :: device_info
  ls_artifact_bytes :: u64
  ls_configured_memory_budget_bytes :: u64
  ls_tensor_count :: nat
  ls_resident_tensor_count :: nat
  ls_resident_weight_bytes :: u64
  ls_device_free_bytes_before_load :: u64
  ls_device_free_bytes_after_load :: u64

record device_tensor_view =
  dv_name :: string
  dv_dtype :: dtype
  dv_quantization :: quantization
  dv_rank :: u16
  dv_dimensions :: "u64 list"
  dv_data :: u64
  dv_auxiliary :: "u64 option"
  dv_data_bytes :: u64
  dv_auxiliary_bytes :: u64

record engine =
  en_config :: engine_config
  en_artifact :: artifact_view
  en_summary :: load_summary
  en_device_arena :: "bytes option"
  en_stream :: bool
  en_device_tensors :: "device_tensor_view list"

text \<open>The allocations of the process on the device: arenas and streams.\<close>

record gpu =
  gpu_arenas :: nat
  gpu_streams :: nat

definition engine_destroy :: "engine \<Rightarrow> gpu \<Rightarrow> gpu" where
  "engine_destroy impl g =
     (let g = (if en_stream impl then g \<lparr> gpu_streams := gpu_streams g - 1 \<rparr> else g)
      in if en_device_arena impl \<noteq> None then g \<lparr> gpu_arenas := gpu_arenas g - 1 \<rparr> else g)"

definition is_resource :: "string \<Rightarrow> bool" where
  "is_resource name = starts_with ''resources/'' name"

definition aligned_size :: "u64 \<Rightarrow> u64 \<Rightarrow> u32 \<Rightarrow> u64 result" where
  "aligned_size cursor n alignment =
     (if alignment = 0 \<or> alignment AND (alignment - 1) \<noteq> 0 \<or> unat n > max_u64
      then Err invalid_argument ''invalid resident tensor alignment or size''
      else
        let m = ucast (alignment - 1) :: u64 in
        if cursor > - 1 - m then Err out_of_memory ''resident arena offset overflow''
        else
          let cursor = (cursor + m) AND NOT m in
          if n > - 1 - cursor then Err out_of_memory ''resident arena size overflow''
          else Inr (cursor + n))"

definition check_engine_config :: "engine_config \<Rightarrow> unit result" where
  "check_engine_config config =
     (if ec_artifact config = [] then Err invalid_argument ''artifact path is required''
      else if ec_maximum_concurrency config = 0 \<or> ec_maximum_concurrency config > 8
      then Err invalid_argument ''maximum concurrency must be in [1, 8]''
      else if ec_maximum_context_tokens config = 0 \<or> ec_maximum_context_tokens config > 262144
      then Err invalid_argument ''maximum context must be in [1, 262144] tokens''
      else if ec_maximum_mtp_depth config > 8
      then Err invalid_argument ''maximum MTP depth must be in [0, 8]''
      else Inr ())"

definition check_identity :: "artifact_identity \<Rightarrow> unit result" where
  "check_identity identity =
     (if target_arch identity \<noteq> kRequiredArchitecture
      then Err unsupported (''artifact target is '' @ target_arch identity @ ''; expected gfx1200'')
      else if model_id identity \<noteq> kModelId
      then Err unsupported (''artifact model is '' @ model_id identity @ ''; expected qwen3.8-27b'')
      else Inr ())"

definition set_budget :: "device_info \<Rightarrow> engine_config \<Rightarrow> engine_config result" where
  "set_budget device config =
     (let reserve_bytes = 512 * 1024 * 1024;
          maximum_budget = (if di_total_memory_bytes device > reserve_bytes
                            then di_total_memory_bytes device - reserve_bytes else 0);
          config = (if ec_memory_budget_bytes config = 0
                    then config \<lparr> ec_memory_budget_bytes := maximum_budget \<rparr> else config)
      in if ec_memory_budget_bytes config > maximum_budget
         then Err invalid_argument ''memory budget must leave at least 512 MiB outside the engine''
         else Inr config)"

record placement =
  pl_tensor :: tensor_descriptor
  pl_data_offset :: u64
  pl_auxiliary_offset :: u64

definition place_resident :: "u64 \<times> placement list \<Rightarrow> tensor_descriptor \<Rightarrow> (u64 \<times> placement list) result" where
  "place_resident acc tensor =
     (case acc of (arena_bytes, placements) \<Rightarrow>
        if is_resource (td_name tensor) then Inr (arena_bytes, placements)
        else
          result_bind (aligned_size arena_bytes 0 (td_alignment tensor)) (\<lambda>data_begin.
          result_bind (aligned_size data_begin (td_data_bytes tensor) 1) (\<lambda>data_end.
            if td_aux_bytes tensor \<noteq> 0 then
              result_bind (aligned_size data_end 0 (td_alignment tensor)) (\<lambda>auxiliary_begin.
              result_bind (aligned_size auxiliary_begin (td_aux_bytes tensor) 1) (\<lambda>auxiliary_end.
                Inr (auxiliary_end, placements @
                  [\<lparr> pl_tensor = tensor, pl_data_offset = data_begin, pl_auxiliary_offset = auxiliary_begin \<rparr>])))
            else Inr (data_end, placements @
                  [\<lparr> pl_tensor = tensor, pl_data_offset = data_begin, pl_auxiliary_offset = 0 \<rparr>]))))"

text \<open>The upload loop: the arena's content, the number of copies made, and the views.\<close>

record upload_state =
  us_arena :: bytes
  us_copies :: nat
  us_views :: "device_tensor_view list"

definition upload_copy :: "hip_runtime \<Rightarrow> string \<Rightarrow> u64 \<Rightarrow> bytes \<Rightarrow> upload_state \<Rightarrow> upload_state result" where
  "upload_copy hip context offset source st =
     (let error = hip_memcpy hip (us_copies st) in
      if error \<noteq> hip_success then Inl (hip_status hip error context)
      else Inr (st \<lparr> us_arena := overwrite (unat offset) source (us_arena st), us_copies := us_copies st + 1 \<rparr>))"

definition view_of :: "placement \<Rightarrow> device_tensor_view" where
  "view_of p =
     (let tensor = pl_tensor p in
      \<lparr> dv_name = td_name tensor, dv_dtype = td_dtype tensor, dv_quantization = td_quantization tensor,
        dv_rank = td_rank tensor, dv_dimensions = td_dimensions tensor, dv_data = pl_data_offset p,
        dv_auxiliary = (if td_aux_bytes tensor \<noteq> 0 then Some (pl_auxiliary_offset p) else None),
        dv_data_bytes = td_data_bytes tensor, dv_auxiliary_bytes = td_aux_bytes tensor \<rparr>)"

definition upload_tensor :: "hip_runtime \<Rightarrow> artifact_view \<Rightarrow> upload_state \<Rightarrow> placement \<Rightarrow> upload_state result" where
  "upload_tensor hip view st p =
     (let tensor = pl_tensor p in
      result_bind (upload_copy hip (''weight upload failed for '' @ td_name tensor)
          (pl_data_offset p) (artifact_data view tensor) st) (\<lambda>st.
      result_bind (if td_aux_bytes tensor \<noteq> 0
          then upload_copy hip (''scale upload failed for '' @ td_name tensor)
            (pl_auxiliary_offset p) (artifact_auxiliary view tensor) st
          else Inr st) (\<lambda>st.
        Inr (st \<lparr> us_views := us_views st @ [view_of p] \<rparr>))))"

text \<open>From the allocation of the arena on: the engine, or the failure, after which \<open>~Impl\<close> releases
  what was allocated.\<close>

definition engine_upload :: "hip_runtime \<Rightarrow> placement list \<Rightarrow> u64 \<Rightarrow> engine \<Rightarrow> gpu \<Rightarrow> engine result \<times> gpu" where
  "engine_upload hip placements arena_bytes impl g =
     (let (error, memory) = hip_malloc hip arena_bytes in
      if error \<noteq> hip_success
      then (Inl (hip_status hip error ''resident weight arena allocation failed''), engine_destroy impl g)
      else
        let impl = impl \<lparr> en_device_arena := memory \<rparr>;
            g = (if memory \<noteq> None then g \<lparr> gpu_arenas := gpu_arenas g + 1 \<rparr> else g);
            error = hip_stream_create hip
        in if error \<noteq> hip_success
        then (Inl (hip_status hip error ''engine compute stream creation failed''), engine_destroy impl g)
        else
          let impl = impl \<lparr> en_stream := True \<rparr>;
              g = g \<lparr> gpu_streams := gpu_streams g + 1 \<rparr>
          in case result_foldl (upload_tensor hip (en_artifact impl))
              \<lparr> us_arena = (case memory of None \<Rightarrow> [] | Some m \<Rightarrow> m), us_copies = 0, us_views = [] \<rparr> placements of
            Inl s \<Rightarrow> (Inl s, engine_destroy impl g)
          | Inr st \<Rightarrow>
              let impl = impl \<lparr> en_device_arena := map_option (\<lambda>_. us_arena st) memory,
                                en_device_tensors := us_views st \<rparr>;
                  error = hip_synchronize hip
              in if error \<noteq> hip_success
              then (Inl (hip_status hip error ''resident weight upload synchronization failed''), engine_destroy impl g)
              else
                let (error, device_free_after) = hip_mem_after hip in
                if error \<noteq> hip_success
                then (Inl (hip_status hip error ''hipMemGetInfo after weight load failed''), engine_destroy impl g)
                else (Inr (impl \<lparr> en_summary := (en_summary impl)
                        \<lparr> ls_device_free_bytes_after_load := device_free_after \<rparr> \<rparr>), g))"

definition engine_prepare ::
  "hip_runtime \<Rightarrow> engine_config \<Rightarrow> file_access \<Rightarrow> (device_info \<times> artifact_view \<times> engine_config) result" where
  "engine_prepare hip config access =
     result_bind (check_engine_config config) (\<lambda>_.
     result_bind (require_gfx1200_device hip (ec_device_index config)) (\<lambda>device.
     result_bind (artifact_open (ec_artifact config) (ec_verify_artifact_checksums config) access) (\<lambda>artifact.
     result_bind (check_identity (av_identity artifact)) (\<lambda>_.
     result_bind (set_budget device config) (\<lambda>config.
       Inr (device, artifact, config))))))"

definition engine_create :: "hip_runtime \<Rightarrow> engine_config \<Rightarrow> file_access \<Rightarrow> gpu \<Rightarrow> engine result \<times> gpu" where
  "engine_create hip config access g =
     (case engine_prepare hip config access of
        Inl s \<Rightarrow> (Inl s, g)
      | Inr (device, artifact, config) \<Rightarrow>
          let (error, device_free_before) = hip_mem_before hip in
          if error \<noteq> hip_success
          then (Inl (hip_status hip error ''hipMemGetInfo before weight load failed''), g)
          else
            case result_foldl place_resident (0, []) (av_tensors artifact) of
              Inl s \<Rightarrow> (Inl s, g)
            | Inr (arena_bytes, placements) \<Rightarrow>
                let impl = \<lparr> en_config = config, en_artifact = artifact,
                      en_summary = \<lparr> ls_identity = av_identity artifact, ls_device = device,
                        ls_artifact_bytes = of_nat (length (av_mapping artifact)),
                        ls_configured_memory_budget_bytes = ec_memory_budget_bytes config,
                        ls_tensor_count = length (av_tensors artifact),
                        ls_resident_tensor_count = length placements,
                        ls_resident_weight_bytes = arena_bytes,
                        ls_device_free_bytes_before_load = device_free_before,
                        ls_device_free_bytes_after_load = device_free_before \<rparr>,
                      en_device_arena = None, en_stream = False, en_device_tensors = [] \<rparr>
                in if arena_bytes > ec_memory_budget_bytes config
                then (Err out_of_memory ''resident weights exceed the configured GPU memory budget'', g)
                else if \<not> ec_upload_weights config then (Inr impl, g)
                else if arena_bytes > device_free_before
                then (Err out_of_memory ''resident weights exceed currently free GPU memory'', g)
                else engine_upload hip placements arena_bytes impl g)"

definition find_device_tensor :: "engine \<Rightarrow> string \<Rightarrow> device_tensor_view option" where
  "find_device_tensor en name = find_by_name dv_name (en_device_tensors en) name"

definition engine_resource :: "engine \<Rightarrow> string \<Rightarrow> bytes" where
  "engine_resource en name =
     (case artifact_find (en_artifact en) name of
        None \<Rightarrow> []
      | Some tensor \<Rightarrow>
          if \<not> is_resource (td_name tensor) \<or> td_quantization tensor \<noteq> q_none \<or> td_dtype tensor \<noteq> dt_u8 then []
          else artifact_data (en_artifact en) tensor)"


section \<open>Placement\<close>

lemma low_mask_u32:
  assumes "power_of_two (a :: u32)" and "unat a = 2 ^ k"
  shows "ucast (a - 1) = (mask k :: u64)"
proof -
  have "(2 :: nat) ^ k < 2 ^ 32"
    using unsigned_less [of a, where ?'a = nat] by (simp only: assms(2) len_num0 len_bit0 len_num1) simp
  then have "k < 32"
    by (simp only: power_strict_increasing_iff)
  then have "unat (mask k :: u64) = mask k"
    by (intro bit_eqI) (auto simp: bit_unsigned_iff bit_mask_iff)
  moreover have "unat (a - 1) = 2 ^ k - 1"
    using assms unat_minus_one [of a] by (simp add: power_of_two_def)
  ultimately show ?thesis
    by (intro word_unat_eqI) (simp add: mask_eq_exp_minus_1)
qed

lemma not_above_rest: "\<not> (c :: u64) > - 1 - m \<longleftrightarrow> unat c + unat m < 2 ^ 64"
proof -
  have "unat (- 1 - m :: u64) = unat (- 1 :: u64) - unat m"
    by (rule unat_sub) simp
  then have "unat (- 1 - m :: u64) = 2 ^ 64 - 1 - unat m"
    by (simp add: unsigned_minus_1_eq_mask mask_eq_exp_minus_1)
  then show ?thesis
    using unat_less_u64 [of m] by (simp add: word_less_nat_alt) linarith
qed

lemma aligned_size_Inr:
  assumes "aligned_size cursor n alignment = Inr r"
  obtains b where "power_of_two alignment" and "unat alignment dvd b" and "unat cursor \<le> b"
    and "b < unat cursor + unat alignment" and "unat r = b + unat n"
proof -
  have p: "power_of_two alignment"
    using assms by (auto simp: aligned_size_def power_of_two_def split: if_splits)
  then obtain k where k: "unat alignment = 2 ^ k"
    by (rule power_of_two_exp)
  let ?m = "mask k :: u64"
  let ?c = "(cursor + ?m) AND NOT ?m"
  have m: "unat ?m = 2 ^ k - 1"
    using low_mask_u32 [OF p k, symmetric] unat_minus_one [of alignment] p k by (simp add: power_of_two_def)
  have fits: "\<not> cursor > - 1 - ?m" "\<not> n > - 1 - ?c" and r: "r = ?c + n"
    using assms by (auto simp: aligned_size_def low_mask_u32 [OF p k] Let_def split: if_splits)
  let ?b = "(unat cursor + (2 ^ k - 1)) div 2 ^ k * 2 ^ k"
  have "unat (cursor + ?m) = unat cursor + (2 ^ k - 1)"
    using fits(1) u64_add [of cursor ?m] unfolding not_above_rest m by simp
  then have c: "unat ?c = ?b"
    by (simp add: unat_clear_low_bits)
  have "unat r = unat ?c + unat n"
    using fits(2) u64_add [of ?c n] unfolding not_above_rest r by simp
  moreover have "?b + (unat cursor + (2 ^ k - 1)) mod 2 ^ k = unat cursor + (2 ^ k - 1)"
    by (rule div_mult_mod_eq)
  moreover have "(unat cursor + (2 ^ k - 1)) mod 2 ^ k < 2 ^ k"
    by simp
  ultimately have "unat cursor \<le> ?b" "?b < unat cursor + 2 ^ k" "unat r = ?b + unat n"
    using c by linarith+
  then show ?thesis
    using k by (intro that [OF p, of ?b]) simp_all
qed

lemma aligned_begin:
  assumes "aligned_size cursor 0 alignment = Inr r"
  shows "unat alignment dvd unat r" and "unat cursor \<le> unat r"
  using assms by (auto elim!: aligned_size_Inr)

lemma aligned_end:
  assumes "aligned_size cursor n 1 = Inr r"
  shows "unat r = unat cursor + unat n"
  using assms by (auto elim!: aligned_size_Inr)

text \<open>The byte ranges of a placement, and what the placement loop keeps of them.\<close>

definition placement_ranges :: "placement \<Rightarrow> (nat \<times> nat) list" where
  "placement_ranges p =
     (unat (pl_data_offset p), unat (pl_data_offset p) + unat (td_data_bytes (pl_tensor p)))
     # (if td_aux_bytes (pl_tensor p) \<noteq> 0
        then [(unat (pl_auxiliary_offset p), unat (pl_auxiliary_offset p) + unat (td_aux_bytes (pl_tensor p)))] else [])"

definition placement_aligned :: "placement \<Rightarrow> bool" where
  "placement_aligned p \<longleftrightarrow> unat (td_alignment (pl_tensor p)) dvd unat (pl_data_offset p)
     \<and> unat (td_alignment (pl_tensor p)) dvd unat (pl_auxiliary_offset p)"

definition placements_ok :: "nat \<Rightarrow> placement list \<Rightarrow> bool" where
  "placements_ok arena ps \<longleftrightarrow>
     sorted_wrt (\<lambda>a b. snd a \<le> fst b) (concat (map placement_ranges ps))
     \<and> (\<forall>p \<in> set ps. placement_aligned p \<and> (\<forall>r \<in> set (placement_ranges p). snd r \<le> arena))"

lemma placements_ok_append:
  assumes "placements_ok a ps" and "a \<le> b" and "placement_aligned p"
    and "\<forall>r \<in> set (placement_ranges p). a \<le> fst r \<and> snd r \<le> b"
    and "sorted_wrt (\<lambda>a b. snd a \<le> fst b) (placement_ranges p)"
  shows "placements_ok b (ps @ [p])"
  using assms by (fastforce simp: placements_ok_def sorted_wrt_append intro: order_trans)

definition resident :: "tensor_descriptor list \<Rightarrow> tensor_descriptor list" where
  "resident ts = filter (\<lambda>t. \<not> is_resource (td_name t)) ts"

lemma place_resident_ok:
  assumes "placements_ok (unat a) ps" and "place_resident (a, ps) t = Inr (a', ps')"
  shows "placements_ok (unat a') ps' \<and> map pl_tensor ps' = map pl_tensor ps @ resident [t]"
proof (cases "is_resource (td_name t)")
  case True
  then show ?thesis
    using assms by (simp add: place_resident_def resident_def)
next
  case False
  then obtain b e where b: "aligned_size a 0 (td_alignment t) = Inr b"
    and e: "aligned_size b (td_data_bytes t) 1 = Inr e"
    using assms(2) by (auto simp: place_resident_def)
  note bounds = aligned_begin [OF b] aligned_end [OF e]
  show ?thesis
  proof (cases "td_aux_bytes t = 0")
    case True
    let ?p = "\<lparr> pl_tensor = t, pl_data_offset = b, pl_auxiliary_offset = 0 \<rparr>"
    have "a' = e" "ps' = ps @ [?p]"
      using assms(2) False b e True by (auto simp: place_resident_def)
    moreover have "placements_ok (unat e) (ps @ [?p])"
      using bounds True by (intro placements_ok_append [OF assms(1)]) (simp_all add: placement_aligned_def placement_ranges_def)
    ultimately show ?thesis
      using False by (simp add: resident_def)
  next
    case aux: False
    obtain x y where x: "aligned_size e 0 (td_alignment t) = Inr x"
      and y: "aligned_size x (td_aux_bytes t) 1 = Inr y"
      using assms(2) False b e aux by (auto simp: place_resident_def)
    note bounds = bounds aligned_begin [OF x] aligned_end [OF y]
    let ?p = "\<lparr> pl_tensor = t, pl_data_offset = b, pl_auxiliary_offset = x \<rparr>"
    have "a' = y" "ps' = ps @ [?p]"
      using assms(2) False b e aux x y by (auto simp: place_resident_def)
    moreover have "placements_ok (unat y) (ps @ [?p])"
      using bounds aux by (intro placements_ok_append [OF assms(1)]) (simp_all add: placement_aligned_def placement_ranges_def)
    ultimately show ?thesis
      using False by (simp add: resident_def)
  qed
qed

lemma place_all_ok:
  assumes "placements_ok (unat a) ps" and "result_foldl place_resident (a, ps) ts = Inr (a', ps')"
  shows "placements_ok (unat a') ps' \<and> map pl_tensor ps' = map pl_tensor ps @ resident ts"
  using assms
proof (induction ts arbitrary: a ps)
  case Nil
  then show ?case
    by (simp add: resident_def)
next
  case (Cons t ts)
  obtain a1 ps1 where "place_resident (a, ps) t = Inr (a1, ps1)" "result_foldl place_resident (a1, ps1) ts = Inr (a', ps')"
    using Cons.prems(2) by auto
  with Cons.IH [of a1 ps1] place_resident_ok [OF Cons.prems(1)] show ?case
    by (auto simp: resident_def)
qed


section \<open>Upload\<close>

text \<open>Where a placement's bytes are once it is uploaded.\<close>

definition uploaded :: "artifact_view \<Rightarrow> bytes \<Rightarrow> placement \<Rightarrow> bool" where
  "uploaded view mem p \<longleftrightarrow>
     slice (unat (pl_data_offset p)) (unat (td_data_bytes (pl_tensor p))) mem = artifact_data view (pl_tensor p)
     \<and> (td_aux_bytes (pl_tensor p) \<noteq> 0 \<longrightarrow>
        slice (unat (pl_auxiliary_offset p)) (unat (td_aux_bytes (pl_tensor p))) mem
          = artifact_auxiliary view (pl_tensor p))"

definition spans_ok :: "artifact_view \<Rightarrow> tensor_descriptor \<Rightarrow> bool" where
  "spans_ok view t \<longleftrightarrow> length (artifact_data view t) = unat (td_data_bytes t)
     \<and> (td_aux_bytes t \<noteq> 0 \<longrightarrow> length (artifact_auxiliary view t) = unat (td_aux_bytes t))"

lemma view_safe_spans:
  assumes "view_safe view" and "t \<in> set (av_tensors view)"
  shows "spans_ok view t"
proof -
  have "descriptor_safe (length (av_mapping view)) t"
    using assms by (simp add: view_safe_def list_all_iff)
  then show ?thesis
    by (auto simp: spans_ok_def descriptor_safe_def placed_def artifact_data_def artifact_auxiliary_def)
qed

lemma upload_copy_Inr:
  assumes "upload_copy hip context offset source st = Inr st'"
  shows "us_arena st' = overwrite (unat offset) source (us_arena st) \<and> us_views st' = us_views st"
  using assms by (auto simp: upload_copy_def Let_def split: if_splits)

text \<open>A span that ends before the first range of a placement, or begins after it, survives its upload.\<close>

definition clear_of :: "nat \<Rightarrow> nat \<Rightarrow> placement \<Rightarrow> bool" where
  "clear_of a n p \<longleftrightarrow> (\<forall>r \<in> set (placement_ranges p). a + n \<le> fst r)"

lemma upload_tensor_Inr:
  assumes step: "upload_tensor hip view st p = Inr st'"
    and spans: "spans_ok view (pl_tensor p)"
    and inside: "\<forall>r \<in> set (placement_ranges p). snd r \<le> length (us_arena st)"
    and apart: "sorted_wrt (\<lambda>a b. snd a \<le> fst b) (placement_ranges p)"
  shows "length (us_arena st') = length (us_arena st)" and "us_views st' = us_views st @ [view_of p]"
    and "uploaded view (us_arena st') p"
    and "\<And>a n. clear_of a n p \<Longrightarrow> slice a n (us_arena st') = slice a n (us_arena st)"
proof -
  let ?t = "pl_tensor p" and ?d = "artifact_data view (pl_tensor p)" and ?x = "artifact_auxiliary view (pl_tensor p)"
  let ?mem = "us_arena st"
  let ?mem1 = "overwrite (unat (pl_data_offset p)) ?d ?mem"
  have d: "length ?d = unat (td_data_bytes ?t)"
    using spans by (simp add: spans_ok_def)
  have d_in: "unat (pl_data_offset p) + length ?d \<le> length ?mem"
    using inside d by (simp add: placement_ranges_def)
  have len1: "length ?mem1 = length ?mem"
    by (rule length_overwrite [OF d_in])
  have arena: "us_arena st' = (if td_aux_bytes ?t \<noteq> 0 then overwrite (unat (pl_auxiliary_offset p)) ?x ?mem1 else ?mem1)"
    and views: "us_views st' = us_views st @ [view_of p]"
  proof -
    obtain st1 st2 where "us_arena st1 = ?mem1" "us_views st1 = us_views st"
      and rest: "(if td_aux_bytes ?t \<noteq> 0 then upload_copy hip (''scale upload failed for '' @ td_name ?t)
            (pl_auxiliary_offset p) ?x st1 else Inr st1) = Inr st2" and st': "st' = st2 \<lparr> us_views := us_views st2 @ [view_of p] \<rparr>"
      using step upload_copy_Inr by (fastforce simp: upload_tensor_def Let_def)
    then show "us_arena st' = (if td_aux_bytes ?t \<noteq> 0 then overwrite (unat (pl_auxiliary_offset p)) ?x ?mem1 else ?mem1)"
      "us_views st' = us_views st @ [view_of p]"
      by (auto dest!: upload_copy_Inr split: if_splits)
  qed
  show "us_views st' = us_views st @ [view_of p]"
    by (rule views)
  have x: "length ?x = unat (td_aux_bytes ?t)" "unat (pl_auxiliary_offset p) + length ?x \<le> length ?mem1"
    "unat (pl_data_offset p) + length ?d \<le> unat (pl_auxiliary_offset p)" if "td_aux_bytes ?t \<noteq> 0"
    using that spans inside apart d by (simp_all add: spans_ok_def placement_ranges_def len1)
  show "length (us_arena st') = length (us_arena st)"
    using arena x(2) len1 by auto
  show "uploaded view (us_arena st') p"
  proof (cases "td_aux_bytes ?t = 0")
    case True
    then show ?thesis
      using arena slice_overwrite_same [OF d_in] d by (simp add: uploaded_def)
  next
    case False
    note x = x [OF False]
    have "slice (unat (pl_data_offset p)) (length ?d) (us_arena st') = ?d"
      using arena False x slice_overwrite_same [OF d_in] d_in len1
        slice_overwrite_other [of "unat (pl_auxiliary_offset p)" ?x ?mem1 "unat (pl_data_offset p)" "length ?d"]
      by simp
    moreover have "slice (unat (pl_auxiliary_offset p)) (length ?x) (us_arena st') = ?x"
      using arena False slice_overwrite_same [OF x(2)] by simp
    ultimately show ?thesis
      using d x(1) by (simp add: uploaded_def)
  qed
  show "slice a n (us_arena st') = slice a n (us_arena st)" if "clear_of a n p" for a n
  proof -
    have a: "a + n \<le> unat (pl_data_offset p)"
      using that by (simp add: clear_of_def placement_ranges_def)
    then have "slice a n ?mem1 = slice a n ?mem"
      using d_in by (intro slice_overwrite_other) simp_all
    moreover have "slice a n (overwrite (unat (pl_auxiliary_offset p)) ?x ?mem1) = slice a n ?mem1" if "td_aux_bytes ?t \<noteq> 0"
      using a x [OF that] by (intro slice_overwrite_other) simp_all
    ultimately show ?thesis
      using arena by auto
  qed
qed

lemma upload_all:
  assumes "result_foldl (upload_tensor hip view) st ps = Inr st'"
    and "\<forall>p \<in> set ps. spans_ok view (pl_tensor p)"
    and "\<forall>p \<in> set ps. \<forall>r \<in> set (placement_ranges p). snd r \<le> length (us_arena st)"
    and "sorted_wrt (\<lambda>a b. snd a \<le> fst b) (concat (map placement_ranges ps))"
  shows "length (us_arena st') = length (us_arena st) \<and> us_views st' = us_views st @ map view_of ps
    \<and> (\<forall>p \<in> set ps. uploaded view (us_arena st') p)
    \<and> (\<forall>a n. (\<forall>p \<in> set ps. clear_of a n p) \<longrightarrow> slice a n (us_arena st') = slice a n (us_arena st))"
  using assms
proof (induction ps arbitrary: st)
  case (Cons p ps)
  obtain st1 where step: "upload_tensor hip view st p = Inr st1"
    and rest: "result_foldl (upload_tensor hip view) st1 ps = Inr st'"
    using Cons.prems(1) by auto
  have apart: "sorted_wrt (\<lambda>a b. snd a \<le> fst b) (placement_ranges p)"
    "sorted_wrt (\<lambda>a b. snd a \<le> fst b) (concat (map placement_ranges ps))"
    "\<And>r q. r \<in> set (placement_ranges p) \<Longrightarrow> q \<in> set ps \<Longrightarrow> clear_of (fst r) (snd r - fst r) q \<or> snd r < fst r"
    using Cons.prems(4) by (fastforce simp: sorted_wrt_append clear_of_def)+
  note one = upload_tensor_Inr [OF step _ _ apart(1)]
  have len1: "length (us_arena st1) = length (us_arena st)"
    using Cons.prems by (intro one(1)) simp_all
  have IH: "length (us_arena st') = length (us_arena st1) \<and> us_views st' = us_views st1 @ map view_of ps
    \<and> (\<forall>p \<in> set ps. uploaded view (us_arena st') p)
    \<and> (\<forall>a n. (\<forall>p \<in> set ps. clear_of a n p) \<longrightarrow> slice a n (us_arena st') = slice a n (us_arena st1))"
    using Cons.prems len1 by (intro Cons.IH [OF rest _ _ apart(2)]) simp_all
  have up: "uploaded view (us_arena st1) p"
    using Cons.prems by (intro one(3)) simp_all
  have keep: "slice (fst r) (snd r - fst r) (us_arena st') = slice (fst r) (snd r - fst r) (us_arena st1)"
    if "r \<in> set (placement_ranges p)" for r
  proof -
    have "fst r \<le> snd r"
      using that by (auto simp: placement_ranges_def split: if_splits)
    then have "\<forall>q \<in> set ps. clear_of (fst r) (snd r - fst r) q"
      using apart(3) [OF that] by auto
    then show ?thesis
      using IH by blast
  qed
  have "uploaded view (us_arena st') p"
    using up keep [of "(unat (pl_data_offset p), unat (pl_data_offset p) + unat (td_data_bytes (pl_tensor p)))"]
      keep [of "(unat (pl_auxiliary_offset p), unat (pl_auxiliary_offset p) + unat (td_aux_bytes (pl_tensor p)))"]
    by (simp add: uploaded_def placement_ranges_def)
  moreover have "slice a n (us_arena st') = slice a n (us_arena st)" if "\<forall>q \<in> set (p # ps). clear_of a n q" for a n
    using that IH one(4) [of a n] Cons.prems by simp
  moreover have "us_views st1 = us_views st @ [view_of p]"
    using Cons.prems by (intro one(2)) simp_all
  ultimately show ?case
    using IH len1 by auto
qed simp


section \<open>The loaded engine\<close>

definition view_ranges :: "device_tensor_view \<Rightarrow> (nat \<times> nat) list" where
  "view_ranges v =
     (unat (dv_data v), unat (dv_data v) + unat (dv_data_bytes v))
     # (case dv_auxiliary v of None \<Rightarrow> [] | Some a \<Rightarrow> [(unat a, unat a + unat (dv_auxiliary_bytes v))])"

definition holds_at :: "bytes \<Rightarrow> u32 \<Rightarrow> u64 \<Rightarrow> bytes \<Rightarrow> bool" where
  "holds_at mem alignment offset content \<longleftrightarrow>
     unat alignment dvd unat offset \<and> unat offset + length content \<le> length mem
     \<and> slice (unat offset) (length content) mem = content"

definition resident_at :: "artifact_view \<Rightarrow> bytes \<Rightarrow> tensor_descriptor \<Rightarrow> device_tensor_view \<Rightarrow> bool" where
  "resident_at view mem t v \<longleftrightarrow>
     dv_name v = td_name t \<and> dv_dtype v = td_dtype t \<and> dv_quantization v = td_quantization t
     \<and> dv_rank v = td_rank t \<and> dv_dimensions v = td_dimensions t
     \<and> dv_data_bytes v = td_data_bytes t \<and> dv_auxiliary_bytes v = td_aux_bytes t
     \<and> holds_at mem (td_alignment t) (dv_data v) (artifact_data view t)
     \<and> (case dv_auxiliary v of
          None \<Rightarrow> td_aux_bytes t = 0
        | Some a \<Rightarrow> td_aux_bytes t \<noteq> 0 \<and> holds_at mem (td_alignment t) a (artifact_auxiliary view t))"

definition device_memory :: "engine \<Rightarrow> bytes" where
  "device_memory en = (case en_device_arena en of None \<Rightarrow> [] | Some m \<Rightarrow> m)"

text \<open>What the runtime documents of an allocation: it has the requested size, and a null pointer is
  returned only for size 0.\<close>

definition hip_documented :: "hip_runtime \<Rightarrow> bool" where
  "hip_documented hip \<longleftrightarrow> (\<forall>n memory. hip_malloc hip n = (hip_success, memory) \<longrightarrow>
     (case memory of None \<Rightarrow> n = 0 | Some m \<Rightarrow> length m = unat n))"

lemma view_of_ranges: "view_ranges (view_of p) = placement_ranges p"
  by (simp add: view_ranges_def view_of_def placement_ranges_def Let_def)

lemma uploaded_resident:
  assumes "uploaded view mem p" and "spans_ok view (pl_tensor p)" and "placement_aligned p"
    and "\<forall>r \<in> set (placement_ranges p). snd r \<le> length mem"
  shows "resident_at view mem (pl_tensor p) (view_of p)"
  using assms
  by (simp add: resident_at_def view_of_def Let_def holds_at_def uploaded_def spans_ok_def
      placement_aligned_def placement_ranges_def)

text \<open>The budget that a configuration asks for: its own, or all of the device but 512 MiB.\<close>

definition configured_budget :: "device_info \<Rightarrow> engine_config \<Rightarrow> nat" where
  "configured_budget device config =
     (if ec_memory_budget_bytes config = 0 then unat (di_total_memory_bytes device) - 2 ^ 29
      else unat (ec_memory_budget_bytes config))"

lemma set_budget_Inr:
  assumes "set_budget device config = Inr config'"
  shows "unat (ec_memory_budget_bytes config') = configured_budget device config
    \<and> configured_budget device config \<le> unat (di_total_memory_bytes device) - 2 ^ 29
    \<and> ec_upload_weights config' = ec_upload_weights config"
proof -
  have "unat (di_total_memory_bytes device - 0x20000000) = unat (di_total_memory_bytes device) - 2 ^ 29"
    if "0x20000000 < di_total_memory_bytes device"
    using unat_sub [OF less_imp_le [OF that]] by simp
  then show ?thesis
    using assms by (auto simp: set_budget_def configured_budget_def Let_def word_le_nat_alt not_less split: if_splits)
qed

lemma engine_prepare_Inr:
  assumes "engine_prepare hip config access = Inr (device, artifact, config')"
  shows "check_engine_config config = Inr () \<and> require_gfx1200_device hip (ec_device_index config) = Inr device
    \<and> artifact_open (ec_artifact config) (ec_verify_artifact_checksums config) access = Inr artifact
    \<and> check_identity (av_identity artifact) = Inr () \<and> set_budget device config = Inr config'"
  using assms by (auto simp: engine_prepare_def)

lemma engine_create_Inr:
  assumes "engine_create hip config access g = (Inr en, g')" and "ec_upload_weights config"
  obtains device artifact config' free arena placements impl where
    "engine_prepare hip config access = Inr (device, artifact, config')"
    and "result_foldl place_resident (0, []) (av_tensors artifact) = Inr (arena, placements)"
    and "arena \<le> ec_memory_budget_bytes config'" and "arena \<le> free"
    and "engine_upload hip placements arena impl g = (Inr en, g')"
    and "en_artifact impl = artifact" and "ls_resident_weight_bytes (en_summary impl) = arena"
    and "ls_device (en_summary impl) = device"
    and "ls_configured_memory_budget_bytes (en_summary impl) = ec_memory_budget_bytes config'"
proof -
  obtain device artifact config' where prep: "engine_prepare hip config access = Inr (device, artifact, config')"
    using assms(1) by (auto simp: engine_create_def split: sum.splits)
  have up: "ec_upload_weights config'"
    using engine_prepare_Inr [OF prep] set_budget_Inr assms(2) by metis
  obtain arena placements where place: "result_foldl place_resident (0, []) (av_tensors artifact) = Inr (arena, placements)"
    using assms(1) prep by (auto simp: engine_create_def split: sum.splits prod.splits if_splits)
  show ?thesis
    using assms(1) up that [OF prep place]
    by (auto simp: engine_create_def prep place Let_def not_less split: prod.splits if_splits)
qed

lemma engine_upload_Inr:
  assumes "engine_upload hip placements arena impl g = (Inr en, g')"
  obtains memory st where "hip_malloc hip arena = (hip_success, memory)"
    and "result_foldl (upload_tensor hip (en_artifact impl))
      \<lparr> us_arena = (case memory of None \<Rightarrow> [] | Some m \<Rightarrow> m), us_copies = 0, us_views = [] \<rparr> placements = Inr st"
    and "en_device_arena en = map_option (\<lambda>_. us_arena st) memory" and "en_device_tensors en = us_views st"
    and "en_artifact en = en_artifact impl"
    and "en_summary en = (en_summary impl) \<lparr> ls_device_free_bytes_after_load := snd (hip_mem_after hip) \<rparr>"
  using assms
  by (auto simp: engine_upload_def Let_def split: sum.splits prod.splits if_splits intro: that)

lemma engine_upload_resident:
  assumes up: "engine_upload hip placements arena impl g = (Inr en, g')" and doc: "hip_documented hip"
    and ok: "placements_ok (unat arena) placements" and spans: "\<forall>p \<in> set placements. spans_ok (en_artifact impl) (pl_tensor p)"
  shows "length (device_memory en) = unat arena"
    and "en_device_tensors en = map view_of placements"
    and "\<forall>p \<in> set placements. resident_at (en_artifact impl) (device_memory en) (pl_tensor p) (view_of p)"
proof -
  from up obtain memory st where malloc: "hip_malloc hip arena = (hip_success, memory)"
    and fold: "result_foldl (upload_tensor hip (en_artifact impl))
      \<lparr> us_arena = (case memory of None \<Rightarrow> [] | Some m \<Rightarrow> m), us_copies = 0, us_views = [] \<rparr> placements = Inr st"
    and arena: "en_device_arena en = map_option (\<lambda>_. us_arena st) memory" and views: "en_device_tensors en = us_views st"
    by (rule engine_upload_Inr) (rule that)
  have len: "length (case memory of None \<Rightarrow> [] | Some m \<Rightarrow> m) = unat arena"
    using doc malloc by (fastforce simp: hip_documented_def split: option.splits)
  have all: "length (us_arena st) = unat arena" "us_views st = map view_of placements"
    "\<forall>p \<in> set placements. uploaded (en_artifact impl) (us_arena st) p"
    using upload_all [OF fold spans] ok len by (simp_all add: placements_ok_def)
  have mem: "device_memory en = us_arena st"
    using arena all(1) len by (cases memory) (simp_all add: device_memory_def)
  show "length (device_memory en) = unat arena" "en_device_tensors en = map view_of placements"
    using all mem views by simp_all
  show "\<forall>p \<in> set placements. resident_at (en_artifact impl) (device_memory en) (pl_tensor p) (view_of p)"
  proof
    fix p assume p: "p \<in> set placements"
    then have "placement_aligned p" "\<forall>r \<in> set (placement_ranges p). snd r \<le> unat arena"
      using ok unfolding placements_ok_def by blast+
    then show "resident_at (en_artifact impl) (device_memory en) (pl_tensor p) (view_of p)"
      unfolding mem using all p spans by (intro uploaded_resident) simp_all
  qed
qed

lemma engine_create_holds:
  assumes "engine_create hip config access g = (Inr en, g')" and "ec_upload_weights config" and "hip_documented hip"
  shows "artifact_open (ec_artifact config) (ec_verify_artifact_checksums config) access = Inr (en_artifact en)
    \<and> require_gfx1200_device hip (ec_device_index config) = Inr (ls_device (en_summary en))
    \<and> list_all2 (resident_at (en_artifact en) (device_memory en))
        (resident (av_tensors (en_artifact en))) (en_device_tensors en)
    \<and> sorted_wrt (\<lambda>a b. snd a \<le> fst b) (concat (map view_ranges (en_device_tensors en)))
    \<and> length (device_memory en) = unat (ls_resident_weight_bytes (en_summary en))
    \<and> unat (ls_configured_memory_budget_bytes (en_summary en)) = configured_budget (ls_device (en_summary en)) config
    \<and> length (device_memory en) \<le> configured_budget (ls_device (en_summary en)) config
    \<and> configured_budget (ls_device (en_summary en)) config \<le> unat (di_total_memory_bytes (ls_device (en_summary en))) - 2 ^ 29"
proof -
  obtain device artifact config' free arena placements impl where
    prep: "engine_prepare hip config access = Inr (device, artifact, config')"
    and place: "result_foldl place_resident (0, []) (av_tensors artifact) = Inr (arena, placements)"
    and budget: "arena \<le> ec_memory_budget_bytes config'"
    and up: "engine_upload hip placements arena impl g = (Inr en, g')"
    and impl: "en_artifact impl = artifact" "ls_resident_weight_bytes (en_summary impl) = arena"
      "ls_device (en_summary impl) = device" "ls_configured_memory_budget_bytes (en_summary impl) = ec_memory_budget_bytes config'"
    by (rule engine_create_Inr [OF assms(1,2)]) (rule that)
  note prep = engine_prepare_Inr [OF prep]
  have en: "en_artifact en = artifact" "ls_resident_weight_bytes (en_summary en) = arena" "ls_device (en_summary en) = device"
    "ls_configured_memory_budget_bytes (en_summary en) = ec_memory_budget_bytes config'"
    using up impl by (auto elim!: engine_upload_Inr)
  have "placements_ok (unat (0 :: u64)) []"
    by (simp add: placements_ok_def)
  from place_all_ok [OF this place]
  have ok: "placements_ok (unat arena) placements" and ts: "map pl_tensor placements = resident (av_tensors artifact)"
    by simp_all
  have safe: "view_safe artifact"
    using prep artifact_open_safe(1) by blast
  have member: "pl_tensor p \<in> set (av_tensors artifact)" if "p \<in> set placements" for p
  proof -
    have "pl_tensor p \<in> set (map pl_tensor placements)"
      using that by simp
    then show ?thesis
      unfolding ts by (simp add: resident_def)
  qed
  then have spans: "\<forall>p \<in> set placements. spans_ok (en_artifact impl) (pl_tensor p)"
    using view_safe_spans [OF safe] by (simp add: impl)
  note res = engine_upload_resident [OF up assms(3) ok spans]
  have "list_all2 (resident_at artifact (device_memory en)) (map pl_tensor placements) (map view_of placements)"
    using res(3) by (auto simp: list_all2_conv_all_nth impl)
  moreover have "concat (map view_ranges (en_device_tensors en)) = concat (map placement_ranges placements)"
    by (simp add: res(2) comp_def view_of_ranges)
  moreover have "set_budget device config = Inr config'"
    using prep by blast
  note limit = set_budget_Inr [OF this]
  have "unat arena \<le> configured_budget device config"
    using budget limit by (simp add: word_le_nat_alt)
  ultimately show ?thesis
    using prep res ok limit by (simp add: en ts placements_ok_def)
qed

text \<open>
  C17. A loaded engine holds the artifact: the artifact opened, the device is the gfx1200 device asked
  for, and for every tensor that is not a resource, in directory order, there is a device view with
  the tensor's metadata whose data and scales lie aligned inside the arena and hold exactly the bytes of
  the artifact; no two regions share a byte; the arena has the size the summary reports, which is
  within the budget: the configured one, or all of the device but 512 MiB when none is configured. The
  summary reports that budget, and it leaves 512 MiB of the device free.
\<close>

theorem engine_holds_artifact:
  assumes "engine_create hip config access g = (Inr en, g')" and "ec_upload_weights config" and "hip_documented hip"
  shows "artifact_open (ec_artifact config) (ec_verify_artifact_checksums config) access = Inr (en_artifact en)
    \<and> require_gfx1200_device hip (ec_device_index config) = Inr (ls_device (en_summary en))
    \<and> list_all2 (resident_at (en_artifact en) (device_memory en))
        (resident (av_tensors (en_artifact en))) (en_device_tensors en)
    \<and> sorted_wrt (\<lambda>a b. snd a \<le> fst b) (concat (map view_ranges (en_device_tensors en)))
    \<and> length (device_memory en) = unat (ls_resident_weight_bytes (en_summary en))
    \<and> unat (ls_configured_memory_budget_bytes (en_summary en)) = configured_budget (ls_device (en_summary en)) config
    \<and> length (device_memory en) \<le> configured_budget (ls_device (en_summary en)) config
    \<and> configured_budget (ls_device (en_summary en)) config \<le> unat (di_total_memory_bytes (ls_device (en_summary en))) - 2 ^ 29"
  using assms by (rule engine_create_holds)

text \<open>What a failed or successful result leaves allocated.\<close>

definition balanced :: "gpu \<Rightarrow> engine result \<times> gpu \<Rightarrow> bool" where
  "balanced g r \<longleftrightarrow> (case r of (Inl s, g') \<Rightarrow> g' = g | (Inr en, g') \<Rightarrow> engine_destroy en g' = g)"

lemma balanced_Inl [simp]: "balanced g (Inl s, g') \<longleftrightarrow> g' = g"
  by (simp add: balanced_def)

lemma balanced_Inr [simp]: "balanced g (Inr en, g') \<longleftrightarrow> engine_destroy en g' = g"
  by (simp add: balanced_def)

lemma engine_upload_balanced:
  assumes "en_device_arena impl = None" and "\<not> en_stream impl"
  shows "balanced g (engine_upload hip placements arena impl g)"
proof -
  obtain e memory where malloc: "hip_malloc hip arena = (e, memory)"
    by fastforce
  obtain e' after_load where mem: "hip_mem_after hip = (e', after_load)"
    by fastforce
  show ?thesis
    using assms
    by (cases memory; cases "result_foldl (upload_tensor hip (en_artifact impl))
        \<lparr> us_arena = (case memory of None \<Rightarrow> [] | Some m \<Rightarrow> m), us_copies = 0, us_views = [] \<rparr> placements")
      (simp_all add: engine_upload_def malloc mem engine_destroy_def Let_def)
qed

lemma engine_create_balanced: "balanced g (engine_create hip config access g)"
proof (cases "engine_prepare hip config access")
  case (Inr r)
  obtain device artifact config' where r: "r = (device, artifact, config')"
    by (cases r)
  obtain e free where mem: "hip_mem_before hip = (e, free)"
    by fastforce
  show ?thesis
  proof (cases "result_foldl place_resident (0, []) (av_tensors artifact)")
    case (Inr q)
    then show ?thesis
      using engine_upload_balanced
      by (cases q) (simp add: engine_create_def \<open>engine_prepare hip config access = Inr r\<close> r mem Let_def engine_destroy_def)
  qed (simp add: engine_create_def Inr r mem)
qed (simp add: engine_create_def)

text \<open>
  The engine releases what it allocated: creation that fails, at whatever call, leaves the process
  with the arenas and streams it had before; and destroying an engine that was created does so too.
\<close>

theorem engine_releases_device:
  "case engine_create hip config access g of
     (Inl s, g') \<Rightarrow> g' = g
   | (Inr en, g') \<Rightarrow> engine_destroy en g' = g"
  using engine_create_balanced by (simp add: balanced_def)

section \<open>Lookup by name\<close>

text \<open>The table is looked up correctly when the artifact lists its tensors in the order of their names.\<close>

definition in_name_order :: "engine \<Rightarrow> bool" where
  "in_name_order en \<longleftrightarrow> sorted (map dv_name (en_device_tensors en)) \<and> distinct (map dv_name (en_device_tensors en))"

interpretation device_table: name_table dv_name en_device_tensors in_name_order find_device_tensor
  by unfold_locales (simp_all add: in_name_order_def find_device_tensor_def)

lemma resident_names:
  assumes "list_all2 (resident_at view mem) (resident ts) vs"
  shows "map dv_name vs = filter (\<lambda>n. \<not> is_resource n) (map td_name ts)"
proof -
  have "map dv_name vs = map td_name (resident ts)"
    using assms by (induction rule: list_all2_induct) (simp_all add: resident_at_def)
  then show ?thesis
    by (simp add: resident_def filter_map comp_def)
qed


lemma sorted_filter_names: "sorted xs \<Longrightarrow> sorted (filter P xs)" for xs :: "string list"
  by (induction xs) auto

text \<open>
  C18. Lookup of a weight: when the artifact lists its tensors in the order of their names, the engine
  finds every tensor that is not a resource, and the view it returns holds that tensor's bytes on the
  device; for any other name it finds nothing.
\<close>

theorem engine_finds_weights:
  assumes "engine_create hip config access g = (Inr en, g')" and "ec_upload_weights config" and "hip_documented hip"
    and "sorted (map td_name (av_tensors (en_artifact en)))"
  shows "case find_device_tensor en name of
      None \<Rightarrow> name \<notin> td_name ` set (resident (av_tensors (en_artifact en)))
    | Some v \<Rightarrow> dv_name v = name
        \<and> (\<exists>t \<in> set (resident (av_tensors (en_artifact en))). resident_at (en_artifact en) (device_memory en) t v)"
proof -
  let ?ts = "resident (av_tensors (en_artifact en))"
  note holds = engine_create_holds [OF assms(1-3)]
  then have all: "list_all2 (resident_at (en_artifact en) (device_memory en)) ?ts (en_device_tensors en)"
    by blast
  note names = resident_names [OF all]
  have "distinct (map td_name (av_tensors (en_artifact en)))"
    using holds artifact_open_safe(1) by (auto simp: view_safe_def)
  then have order: "in_name_order en"
    using assms(4) by (simp add: in_name_order_def names sorted_filter_names)
  show ?thesis
  proof (cases "find_device_tensor en name")
    case None
    then have "name \<notin> set (map dv_name (en_device_tensors en))"
      using device_table.lookup_None [OF order, of name] by auto
    then show ?thesis
      using None by (auto simp: names resident_def)
  next
    case (Some v)
    then have "v \<in> set (en_device_tensors en)" "dv_name v = name"
      using device_table.lookup_Some [OF order] by blast+
    then show ?thesis
      using all Some by (fastforce simp: list_all2_conv_all_nth in_set_conv_nth Bex_def)
  qed
qed

section \<open>An engine on the sample artifact\<close>

definition sample_device :: device_properties where
  "sample_device = \<lparr> dp_name = ''gpu'', dp_gcn_arch_name = ''gfx1200:xnack-'', dp_total_global_mem = 0x400000000,
     dp_multi_processor_count = 32, dp_clock_rate = 1, dp_memory_clock_rate = 1, dp_memory_bus_width = 128, dp_warp_size = 32 \<rparr>"

definition sample_hip :: hip_runtime where
  "sample_hip = \<lparr> hip_error_name = (\<lambda>_. []), hip_error_string = (\<lambda>_. []), hip_device_count = (0, 1),
     hip_device_properties = (\<lambda>_. (0, sample_device)), hip_set_device = (\<lambda>_. 0), hip_mem_before = (0, 0x300000000),
     hip_mem_after = (0, 0x200000000), hip_malloc = (\<lambda>n. (0, if n = 0 then None else Some (replicate (unat n) 0))),
     hip_stream_create = 0, hip_memcpy = (\<lambda>_. 0), hip_synchronize = 0 \<rparr>"

definition sample_config :: engine_config where
  "sample_config = \<lparr> ec_artifact = ''a.gfxi'', ec_device_index = 0, ec_memory_budget_bytes = 0,
     ec_maximum_context_tokens = 4096, ec_maximum_concurrency = 1, ec_kv_format = int8_group64,
     ec_maximum_mtp_depth = 7, ec_verify_artifact_checksums = True, ec_upload_weights = True \<rparr>"

definition sample_engine :: engine where
  "sample_engine = (case engine_create sample_hip sample_config (Mapped sample_file) \<lparr> gpu_arenas = 0, gpu_streams = 0 \<rparr> of
     (Inr en, _) \<Rightarrow> en)"

lemma sample_hip_answers:
  "hip_mem_before sample_hip = (0, 0x300000000)" "hip_mem_after sample_hip = (0, 0x200000000)"
  "hip_malloc sample_hip n = (0, if n = 0 then None else Some (replicate (unat n) 0))"
  "hip_stream_create sample_hip = 0" "hip_memcpy sample_hip k = 0" "hip_synchronize sample_hip = 0"
  by (simp_all add: sample_hip_def)

lemma sample_hip_documented: "hip_documented sample_hip"
  by (simp add: hip_documented_def sample_hip_def)

lemma sample_prepared:
  "\<exists>device config'. engine_prepare sample_hip sample_config (Mapped sample_file) = Inr (device, sample_view, config')
    \<and> ec_memory_budget_bytes config' = 0x3E0000000 \<and> ec_upload_weights config'"
proof -
  have "base_architecture ''gfx1200:xnack-'' = ''gfx1200''"
    by (simp add: base_architecture_def is_prefix_def)
  then have "require_gfx1200_device sample_hip 0 = Inr (device_of 0 sample_device)"
    by (simp add: require_gfx1200_device_def enumerate_devices_def enumerate_device_def sample_hip_def
        hip_success_def device_of_def sample_device_def kRequiredArchitecture_def)
  moreover have "av_identity sample_view = sample_identity"
    using sample_view_identity .
  ultimately show ?thesis
    using sample_opened(1)
    by (simp add: engine_prepare_def check_engine_config_def sample_config_def check_identity_def sample_identity_def
        kRequiredArchitecture_def kModelId_def set_budget_def device_of_def sample_device_def Let_def)
qed


lemma sample_placed:
  "\<exists>placements. result_foldl place_resident (0, []) (av_tensors sample_view) = Inr (257, placements)
    \<and> length placements = 1"
proof -
  obtain t where t: "av_tensors sample_view = [t]" "td_name t = ''layer.0''" "td_alignment t = 256"
    "artifact_data sample_view t = [1, 2]" "artifact_auxiliary sample_view t = [3]"
    by (rule sample_tensor)
  have spans: "spans_ok sample_view t"
    using artifact_open_safe(1) [OF sample_opened(1)] by (rule view_safe_spans) (simp add: t)
  then have "unat (td_data_bytes t) = 2"
    using t by (simp add: spans_ok_def)
  then have d: "td_data_bytes t = 2"
    by (intro word_unat_eqI) simp
  have nz: "td_aux_bytes t \<noteq> 0"
    using t(5) by (auto simp: artifact_auxiliary_def)
  then have "unat (td_aux_bytes t) = 1"
    using t spans by (simp add: spans_ok_def)
  then have x: "td_aux_bytes t = 1"
    by (intro word_unat_eqI) simp
  show ?thesis
    using t(1-3) d x by (simp add: place_resident_def is_resource_def starts_with_def is_prefix_def aligned_size_def Let_def max_u64_def)
qed

lemma sample_engine_created:
  "\<exists>en g'. engine_create sample_hip sample_config (Mapped sample_file) g = (Inr en, g')"
proof -
  obtain device config' where prep: "engine_prepare sample_hip sample_config (Mapped sample_file) = Inr (device, sample_view, config')"
    and budget: "ec_memory_budget_bytes config' = 0x3E0000000"
    using sample_prepared by blast
  obtain p where place: "result_foldl place_resident (0, []) (av_tensors sample_view) = Inr (257, [p])"
    using sample_placed by (auto simp: length_Suc_conv)
  show ?thesis
    by (simp add: engine_create_def prep place budget engine_upload_def sample_hip_answers hip_success_def Let_def
        upload_tensor_def upload_copy_def)
qed

lemma engine_holds_artifact_witness:
  "\<exists>en. list_all2 (resident_at (en_artifact en) (device_memory en))
      (resident (av_tensors (en_artifact en))) (en_device_tensors en) \<and> en_artifact en = sample_view
    \<and> length (device_memory en) \<le> configured_budget (ls_device (en_summary en)) sample_config"
proof -
  obtain en g' where created: "engine_create sample_hip sample_config (Mapped sample_file) \<lparr> gpu_arenas = 0, gpu_streams = 0 \<rparr> = (Inr en, g')"
    using sample_engine_created by blast
  have "ec_upload_weights sample_config"
    by (simp add: sample_config_def)
  from engine_holds_artifact [OF created this sample_hip_documented] sample_opened(1) show ?thesis
    by (auto simp: sample_config_def)
qed

lemma engine_finds_weights_witness:
  "\<exists>en. find_device_tensor en ''layer.1'' = None \<and> en_artifact en = sample_view"
proof -
  obtain en g' where created: "engine_create sample_hip sample_config (Mapped sample_file) \<lparr> gpu_arenas = 0, gpu_streams = 0 \<rparr> = (Inr en, g')"
    using sample_engine_created by blast
  have up: "ec_upload_weights sample_config"
    by (simp add: sample_config_def)
  have view: "en_artifact en = sample_view"
    using engine_create_holds [OF created up sample_hip_documented] sample_opened(1) by (auto simp: sample_config_def)
  obtain t where t: "av_tensors sample_view = [t]" "td_name t = ''layer.0''"
    by (rule sample_tensor)
  have "sorted (map td_name (av_tensors (en_artifact en)))"
    by (simp add: view t)
  from engine_finds_weights [OF created up sample_hip_documented this, of "''layer.1''"]
  have "find_device_tensor en ''layer.1'' = None"
    by (auto simp: view t resident_def resident_at_def split: option.splits if_splits)
  with view show ?thesis
    by blast
qed

end
