(* ===== verification/DraftHead.thy ===== *)
theory DraftHead
  imports ConvertPlan Engine
begin

text \<open>
  The converter and the engine together: the converter appends the two tensors of the ranked draft head
  behind the sorted source tensors, and the engine looks tensors up by binary search. The names of a
  plan, and where the search ends up.
\<close>

section \<open>Binary search in a list that is sorted except for its end\<close>

lemma lower_bound_loop_le: "lower_bound_loop below xs first len \<le> first + len"
proof (induction below xs first len rule: lower_bound_loop.induct)
  case (1 below xs first len)
  show ?case
  proof (cases "len = 0")
    case True
    then show ?thesis
      by (subst lower_bound_loop.simps) simp
  next
    case False
    have half: "len div 2 < len"
      using False by simp
    show ?thesis
    proof (cases "below (xs ! (first + len div 2))")
      case True
      then have "lower_bound_loop below xs (first + len div 2 + 1) (len - len div 2 - 1)
          \<le> first + len div 2 + 1 + (len - len div 2 - 1)"
        using 1 False by simp
      then show ?thesis
        using True False half by (subst lower_bound_loop.simps) (simp add: Let_def)
    next
      case below: False
      then have "lower_bound_loop below xs first (len div 2) \<le> first + len div 2"
        using 1 False by simp
      then show ?thesis
        using below False half by (subst lower_bound_loop.simps) (simp add: Let_def)
    qed
  qed
qed

lemma lower_bound_late:
  assumes "length names = 866" and "\<And>i. i < 851 \<Longrightarrow> below (names ! i)"
    and "\<And>i. 851 \<le> i \<Longrightarrow> i < 866 \<Longrightarrow> \<not> below (names ! i)"
  shows "lower_bound below (names @ [a, b]) \<le> 855"
proof -
  have at: "below ((names @ [a, b]) ! i) \<longleftrightarrow> i < 851" if "i < 866" for i
    using assms that by (cases "i < 851") (simp_all add: nth_append)
  have "lower_bound below (names @ [a, b]) = lower_bound_loop below (names @ [a, b]) 842 13"
    by (simp add: lower_bound_def assms(1) lower_bound_loop.simps [of _ _ 0 868] lower_bound_loop.simps [of _ _ 435 433]
        lower_bound_loop.simps [of _ _ 652 216] lower_bound_loop.simps [of _ _ 761 107] lower_bound_loop.simps [of _ _ 815 53]
        lower_bound_loop.simps [of _ _ 842 26] at Let_def del: nth_append)
  then show ?thesis
    using lower_bound_loop_le [of below "names @ [a, b]" 842 13] by simp
qed


lemma sorted_below:
  fixes xs :: "string list"
  assumes "sorted xs"
  shows "(i < length (filter (\<lambda>x. x < d) xs) \<longrightarrow> xs ! i < d)
    \<and> (length (filter (\<lambda>x. x < d) xs) \<le> i \<longrightarrow> i < length xs \<longrightarrow> \<not> xs ! i < d)"
  using assms
proof (induction xs arbitrary: i)
  case (Cons x xs)
  show ?case
  proof (cases "x < d")
    case True
    then show ?thesis
      using Cons by (cases i) auto
  next
    case False
    then have above: "\<not> y < d" if "y \<in> set (x # xs)" for y
      using Cons.prems that by (auto dest: le_less_trans)
    then have "filter (\<lambda>x. x < d) (x # xs) = []"
      by (simp add: filter_empty_conv)
    then show ?thesis
      using above by (metis length_0_conv not_less_zero nth_mem)
  qed
qed simp

lemma converted_names_below:
  fixes d :: string
  assumes d: "d = ''mtp.d'' @ rest"
  shows "length (filter (\<lambda>n. n < d) (qwen38_source_tensor_names False True)) = 851"
proof -
  have head: "filter (\<lambda>n. n < d) head_names = head_names"
    by (simp add: head_names_def d less_char_def)
  have layer: "filter (\<lambda>n. n < d) layer_names = layer_names"
  proof (rule filter_True, rule ballI)
    fix n assume "n \<in> set layer_names"
    then obtain t where "n = ''model.language_model.layers.'' @ t"
      using layer_names_prefix unfolding is_prefix_def by (metis append_take_drop_id)
    then show "n < d"
      by (simp add: d less_char_def)
  qed
  have mtp: "filter (\<lambda>n. n < d) (append_names ''mtp.'' mtp_suffixes) = []"
    by (simp add: append_names_def mtp_suffixes_def d less_char_def)
  show ?thesis
    unfolding names_unsorted filter_sort length_sort
    by (simp add: head layer mtp length_layer_names) (simp add: head_names_def)
qed

lemma draft_head_lookup:
  assumes names: "map name_of xs = qwen38_source_tensor_names False True @ [''mtp.draft_head.weight'', ''mtp.draft_head_token_ids'']"
    and d: "d = ''mtp.d'' @ rest" "d \<notin> set (qwen38_source_tensor_names False True)"
  shows "find_by_name name_of xs d = None"
proof -
  let ?ns = "qwen38_source_tensor_names False True"
  have len: "length ?ns = 866"
    by (simp add: names_unsorted length_layer_names head_names_def append_names_def mtp_suffixes_def)
  have ordered: "sorted ?ns"
    unfolding names_unsorted by (rule sorted_sort)
  have "lower_bound (\<lambda>n. n < d) (?ns @ [''mtp.draft_head.weight'', ''mtp.draft_head_token_ids'']) \<le> 855"
    using sorted_below [OF ordered, of _ d] converted_names_below [OF d(1)] len
    by (intro lower_bound_late) simp_all
  then have i: "lower_bound (\<lambda>n. n < d) (map name_of xs) \<le> 855"
    by (simp only: names)
  have map: "lower_bound_loop (\<lambda>x. name_of x < d) xs f l = lower_bound_loop (\<lambda>n. n < d) (map name_of xs) f l"
    if "f + l \<le> length xs" for f l
    using that
  proof (induction "\<lambda>x. name_of x < d" xs f l rule: lower_bound_loop.induct)
    case (1 xs first len)
    then show ?case
      by (subst (1 2) lower_bound_loop.simps) (simp add: Let_def)
  qed
  have xs: "length xs = 868"
    using arg_cong [OF names, of length] len by simp
  let ?i = "lower_bound (\<lambda>x. name_of x < d) xs"
  have "?i \<le> 855"
    using i map [of 0 "length xs"] by (simp add: lower_bound_def)
  then have "name_of (xs ! ?i) = ?ns ! ?i" "?ns ! ?i \<in> set ?ns"
    using arg_cong [OF names, of "\<lambda>ns. ns ! ?i"] xs len by (simp_all add: nth_append)
  then have "name_of (xs ! ?i) \<noteq> d"
    using d(2) by metis
  then show ?thesis
    by (simp add: find_by_name_def Let_def)
qed

lemma draft_names_new:
  "''mtp.draft_head.weight'' \<notin> set (qwen38_source_tensor_names False True)"
  "''mtp.draft_head_token_ids'' \<notin> set (qwen38_source_tensor_names False True)"
  unfolding names_unsorted set_sort
  by (auto simp: head_names_def append_names_def mtp_suffixes_def is_prefix_def dest: layer_names_prefix)


section \<open>The draft head in the engine\<close>

lemma source_names_resident: "n \<in> set (qwen38_source_tensor_names False True) \<Longrightarrow> \<not> is_resource n"
proof -
  assume n: "n \<in> set (qwen38_source_tensor_names False True)"
  have "n ! 0 \<noteq> CHR ''r''"
    using n is_prefix_nth [OF layer_names_prefix, of n 0] unfolding names_unsorted set_sort
    by (auto simp: head_names_def append_names_def mtp_suffixes_def)
  then show ?thesis
    using is_prefix_nth [of "''resources/''" n 0] by (auto simp: is_resource_def starts_with_def)
qed

text \<open>
  The ranked draft head is written and never used: in an engine on an artifact with the tensors of a
  plan with a draft-token ranking, the lookup finds neither the head nor its token IDs, though both
  are resident, because the plan appends them behind the sorted names. A session then silently takes
  the unranked head.
\<close>

theorem ranked_draft_head_never_found:
  assumes "make_plan options host files = Inr (items, summary)" and "co_draft_ranking_path options \<noteq> []"
    and "map dv_name (en_device_tensors en) = filter (\<lambda>n. \<not> is_resource n) (map item_name items)"
  shows "{''mtp.draft_head.weight'', ''mtp.draft_head_token_ids''} \<subseteq> dv_name ` set (en_device_tensors en)
    \<and> find_device_tensor en ''mtp.draft_head.weight'' = None
    \<and> find_device_tensor en ''mtp.draft_head_token_ids'' = None"
proof -
  have names: "map dv_name (en_device_tensors en)
      = qwen38_source_tensor_names False True @ [''mtp.draft_head.weight'', ''mtp.draft_head_token_ids'']"
    unfolding assms(3) make_plan_names [OF assms(1)]
    using assms(2) source_names_resident
    by (simp add: resource_names_def is_resource_def starts_with_def is_prefix_def)
  have "find_device_tensor en ''mtp.draft_head.weight'' = None"
    unfolding find_device_tensor_def
    by (rule draft_head_lookup [OF names _ draft_names_new(1), where rest = "''raft_head.weight''"]) simp
  moreover have "find_device_tensor en ''mtp.draft_head_token_ids'' = None"
    unfolding find_device_tensor_def
    by (rule draft_head_lookup [OF names _ draft_names_new(2), where rest = "''raft_head_token_ids''"]) simp
  moreover have "dv_name ` set (en_device_tensors en) = set (map dv_name (en_device_tensors en))"
    by simp
  ultimately show ?thesis
    unfolding names by simp
qed

section \<open>A plan\<close>

definition sample_source :: "string \<Rightarrow> safe_tensor_descriptor" where
  "sample_source n = \<lparr> sd_name = n, sd_dtype = src_bf16,
     sd_shape = (if n = ''lm_head.weight'' then [248320, 5120] else []), sd_file_offset = 0, sd_bytes = 0 \<rparr>"

definition sample_files :: source_files where
  "sample_files = \<lparr> sf_weight_map = map (\<lambda>n. (n, ''s'')) (qwen38_source_tensor_names False True),
     sf_shard_indices = [''s'' \<mapsto> 0],
     sf_shards = [\<lparr> sf_mapping = [], sf_tensors = map sample_source (qwen38_source_tensor_names False True) \<rparr>] \<rparr>"

definition sample_options :: conversion_options where
  "sample_options = \<lparr> co_source_directory = ''m'', co_output_path = ''o'', co_draft_ranking_path = ''r'', co_plan_only = False,
     co_chunk_rows = 128, co_mlp_bits = 4, co_output_head_bits = 4, co_w3_start_layer = 0, co_w4_tail_layers = 8 \<rparr>"

lemma sample_find:
  assumes "n \<in> set (qwen38_source_tensor_names False True)"
  shows "map_of (sf_weight_map sample_files) n = Some ''s''"
    and "safetensors_find (sf_shards sample_files ! 0) n = Some (sample_source n)"
proof -
  let ?ns = "qwen38_source_tensor_names False True"
  show "map_of (sf_weight_map sample_files) n = Some ''s''"
    using assms by (simp add: sample_files_def map_of_map_restrict)
  let ?f = "\<lparr> sf_mapping = [], sf_tensors = map sample_source ?ns \<rparr>"
  have names: "map sd_name (map sample_source ?ns) = ?ns"
    by (simp add: comp_def sample_source_def)
  have "sorted ?ns"
    unfolding names_unsorted by (rule sorted_sort)
  then have "names_in_order ?f"
    using distinct_names by (simp only: names_in_order_def safe_tensor_file.simps names)
  from tensor_table.lookup_member [OF this, of "sample_source n"] assms
  show "safetensors_find (sf_shards sample_files ! 0) n = Some (sample_source n)"
    by (simp add: sample_files_def) (simp add: sample_source_def)
qed

lemma result_foldl_total_counted:
  assumes "\<And>k s x. x \<in> set xs \<Longrightarrow> k < m + length xs \<Longrightarrow> I k s \<Longrightarrow> \<exists>s'. f s x = Inr s' \<and> I (Suc k) s'" and "I m s"
  shows "\<exists>s'. result_foldl f s xs = Inr s' \<and> I (m + length xs) s'"
  using assms
proof (induction xs arbitrary: s m)
  case (Cons x xs)
  obtain s1 where s1: "f s x = Inr s1" "I (Suc m) s1"
    using Cons.prems(1) [of x m s] Cons.prems(2) by auto
  have "\<exists>s'. result_foldl f s1 xs = Inr s' \<and> I (Suc m + length xs) s'"
    by (rule Cons.IH [OF _ s1(2)]) (simp add: Cons.prems(1))
  with s1 show ?case
    by simp
qed simp


lemma sample_plan_source:
  assumes n: "n \<in> set (qwen38_source_tensor_names False True)" and k: "k < 866"
    and small: "unat (cs_planned_payload_bytes summary) \<le> k * 2 ^ 30"
  shows "\<exists>items' summary'. plan_source sample_options sample_files (items, summary) n = Inr (items', summary')
    \<and> unat (cs_planned_payload_bytes summary') \<le> Suc k * 2 ^ 30"
proof -
  have add: "unat (cs_planned_payload_bytes summary + x) \<le> Suc k * 2 ^ 30" if "unat x \<le> 2 ^ 30" for x
    using u64_add [of "cs_planned_payload_bytes summary" x] small k that by simp
  show ?thesis
  proof (cases "n = ''lm_head.weight''")
    case True
    have sizes: "quantized_sizes w4g128 248320 5120 = Some (635699200, 19865600)"
      by (simp add: quantized_sizes_def checked_multiply_def packed_row_bytes_def size_wrap_def)
    have room: "\<not> cs_planned_payload_bytes summary > - 1 - 635699200 - 19865600"
      using small k by (simp add: word_less_nat_alt)
    show ?thesis
      using sample_find [OF n] sizes room add [of "635699200 + 19865600"] True
      by (simp add: plan_source_def sample_source_def choose_quantization_def head_quantization_def
          sample_options_def sample_files_def count_format_def)
  next
    case False
    have "\<not> cs_planned_payload_bytes summary > - 1"
      using word_order.extremum not_less by metis
    then show ?thesis
      using sample_find [OF n] add [of 0] False
      by (simp add: plan_source_def sample_source_def choose_quantization_def sample_files_def)
  qed
qed

lemma sample_plan:
  "\<exists>items summary. make_plan sample_options blank_host sample_files = Inr (items, summary)"
proof -
  let ?ns = "qwen38_source_tensor_names False True"
  have len: "length ?ns = 866"
    by (simp add: names_unsorted length_layer_names head_names_def append_names_def mtp_suffixes_def)
  have "\<exists>st. result_foldl (plan_source sample_options sample_files) ([], empty_summary) ?ns = Inr st
      \<and> unat (cs_planned_payload_bytes (snd st)) \<le> (0 + length ?ns) * 2 ^ 30"
  proof (rule result_foldl_total_counted)
    show "\<exists>st'. plan_source sample_options sample_files st n = Inr st'
        \<and> unat (cs_planned_payload_bytes (snd st')) \<le> Suc k * 2 ^ 30"
      if "n \<in> set ?ns" "k < 0 + length ?ns" "unat (cs_planned_payload_bytes (snd st)) \<le> k * 2 ^ 30" for k n st
      using sample_plan_source [OF that(1), of k "snd st" "fst st"] that len by auto
  qed (simp add: empty_summary_def)
  then obtain items summary where 1: "result_foldl (plan_source sample_options sample_files) ([], empty_summary) ?ns = Inr (items, summary)"
    by auto
  have "''lm_head.weight'' \<in> set ?ns"
    unfolding names_unsorted set_sort by (simp add: head_names_def)
  note find = sample_find [OF this]
  have rows: "\<exists>rows. select_draft_head_rows blank_host ''r'' = Inr rows"
    by (simp add: select_draft_head_rows_def blank_host_def)
  have 2: "\<exists>items' summary'. plan_draft_head sample_options blank_host sample_files (items, s) = Inr (items', summary')" for s
    using find rows
    by (auto simp: plan_draft_head_def sample_options_def sample_files_def sample_source_def vocabulary_size_def hidden_size_def Let_def)
  have 3: "\<exists>items' summary'. result_foldl (plan_resource sample_options blank_host) (items, s) resource_names = Inr (items', summary')"
    for items s
    using result_foldl_total [where I = "\<lambda>_. True" and f = "plan_resource sample_options blank_host" and s = "(items, s)"]
    by (fastforce simp: plan_resource_def blank_host_def Let_def)
  show ?thesis
    using 1 2 3 by (fastforce simp: make_plan_def Let_def)
qed

lemma ranked_draft_head_never_found_witness:
  "\<exists>en. ''mtp.draft_head.weight'' \<in> dv_name ` set (en_device_tensors en)
    \<and> find_device_tensor en ''mtp.draft_head.weight'' = None"
proof -
  obtain items summary where plan: "make_plan sample_options blank_host sample_files = Inr (items, summary)"
    using sample_plan by blast
  let ?view = "\<lambda>n. \<lparr> dv_name = n, dv_dtype = dt_u8, dv_quantization = q_none, dv_rank = 0, dv_dimensions = [],
     dv_data = 0, dv_auxiliary = None, dv_data_bytes = 0, dv_auxiliary_bytes = 0 \<rparr>"
  let ?en = "sample_engine \<lparr> en_device_tensors := map ?view (filter (\<lambda>n. \<not> is_resource n) (map item_name items)) \<rparr>"
  have "map dv_name (en_device_tensors ?en) = filter (\<lambda>n. \<not> is_resource n) (map item_name items)"
    by (simp add: comp_def)
  moreover have "co_draft_ranking_path sample_options \<noteq> []"
    by (simp add: sample_options_def)
  ultimately show ?thesis
    using ranked_draft_head_never_found [OF plan, of ?en] by blast
qed

end
