(* ===== verification/Convert.thy ===== *)
theory Convert
  imports ConvertPlan
begin

text \<open>
  \<^verbatim>\<open>src/converter.cpp\<close>, the second half: writing the planned items through the artifact stream
  writer, in chunks of rows, and \<open>convert_qwen38\<close> itself. The host's answers are an argument; the
  conversion of a \<open>float\<close> to a half, which the HIP headers provide, is an argument too. The progress
  callback sees names only and is left out.
\<close>

section \<open>The code\<close>

record convert_env =
  ce_json :: simdjson
  ce_access :: "string \<Rightarrow> file_access"
  ce_host :: host_files
  ce_float2half :: "fp \<Rightarrow> u16"
  ce_stream :: stream_env
  ce_create_responses :: "write_response list"
  ce_append_responses :: "nat \<Rightarrow> write_response list"
  ce_ebadf :: string
  ce_finalize :: finalize_env
  ce_directory_error :: "string \<Rightarrow> string option"
  ce_space :: "string \<Rightarrow> u64 option"
  ce_stat_error :: "string option"

text \<open>The stream writer as the conversion holds it, with the number of appends made so far.\<close>

record writer_state =
  ws_impl :: "stream_impl option"
  ws_fs :: file_system
  ws_appends :: nat

definition writer_append_data :: "convert_env \<Rightarrow> nat \<Rightarrow> bytes \<Rightarrow> writer_state \<Rightarrow> (status \<times> writer_state) option" where
  "writer_append_data env i bytes ws =
     (case append_data (ce_append_responses env (ws_appends ws)) (ce_ebadf env) i bytes (ws_impl ws) (ws_fs ws) of
        None \<Rightarrow> None
      | Some (s, impl, fs) \<Rightarrow> Some (s, \<lparr> ws_impl = impl, ws_fs = fs, ws_appends = ws_appends ws + 1 \<rparr>))"

definition writer_append_auxiliary :: "convert_env \<Rightarrow> nat \<Rightarrow> bytes \<Rightarrow> writer_state \<Rightarrow> (status \<times> writer_state) option" where
  "writer_append_auxiliary env i bytes ws =
     (case append_auxiliary (ce_append_responses env (ws_appends ws)) (ce_ebadf env) i bytes (ws_impl ws) (ws_fs ws) of
        None \<Rightarrow> None
      | Some (s, impl, fs) \<Rightarrow> Some (s, \<lparr> ws_impl = impl, ws_fs = fs, ws_appends = ws_appends ws + 1 \<rparr>))"

definition writer_destroy :: "convert_env \<Rightarrow> stream_impl option \<Rightarrow> file_system \<Rightarrow> file_system" where
  "writer_destroy env impl fs =
     (case impl of None \<Rightarrow> fs | Some w \<Rightarrow> stream_destroy (sv_unlink_error (ce_stream env)) w fs)"

text \<open>\<open>std::bit_cast<float>\<close>.\<close>

definition float_of_bits :: "u32 \<Rightarrow> fp" where
  "float_of_bits w =
     (let negative = bit w 31; e = unat (drop_bit 23 w AND 0xFF); m = unat (w AND 0x7FFFFF);
          signed = (\<lambda>x. Fin (if negative then - x else x))
      in if e = 255 then (if m = 0 then fp_sign_inf negative else Not_a_number)
         else if e = 0 then signed (of_nat m * power2 (- 149))
         else signed (of_nat (2 ^ 23 + m) * power2 (int e - 150)))"

definition bf16_to_float :: "u16 \<Rightarrow> fp" where
  "bf16_to_float v = float_of_bits (push_bit 16 (ucast v))"

text \<open>The \<open>memcpy\<close> into the vector of 16-bit values, and the conversion loop.\<close>

definition bf16_values :: "bytes \<Rightarrow> nat \<Rightarrow> fp list" where
  "bf16_values bytes value_count = map (\<lambda>i. bf16_to_float (le_word (slice (2 * i) 2 bytes))) [0..<value_count]"

definition half_bytes :: "convert_env \<Rightarrow> fp list \<Rightarrow> bytes" where
  "half_bytes env scales = concat (map (\<lambda>scale. le_bytes 2 (ce_float2half env scale)) scales)"

text \<open>One chunk: the bytes of its tiled codes and of its scales. \<open>None\<close> when a size wraps around.\<close>

definition encode_chunk ::
  "convert_env \<Rightarrow> fp list \<Rightarrow> nat \<Rightarrow> nat \<Rightarrow> quantization \<Rightarrow> (bytes \<times> bytes) result option" where
  "encode_chunk env vs count_rows columns format =
     (case quantize_group128 vs count_rows columns format of
        None \<Rightarrow> None
      | Some (Inl s) \<Rightarrow> Some (Inl s)
      | Some (Inr packed) \<Rightarrow>
          (case tile_group128_for_gfx12 packed of
             None \<Rightarrow> None
           | Some (Inl s) \<Rightarrow> Some (Inl s)
           | Some (Inr tiled) \<Rightarrow> Some (Inr (tm_codes tiled, half_bytes env (tm_scales tiled)))))"

definition write_chunk :: "convert_env \<Rightarrow> nat \<Rightarrow> bytes \<times> bytes \<Rightarrow> writer_state \<Rightarrow> (status \<times> writer_state) option" where
  "write_chunk env i chunk ws =
     (case writer_append_data env i (fst chunk) ws of
        None \<Rightarrow> None
      | Some (s, ws) \<Rightarrow> if \<not> status_ok s then Some (s, ws) else writer_append_auxiliary env i (snd chunk) ws)"

definition source_chunk :: "bytes \<Rightarrow> nat \<Rightarrow> nat \<Rightarrow> nat \<Rightarrow> fp list" where
  "source_chunk bytes columns row n =
     bf16_values (slice (row * columns * 2) (n * columns * 2) bytes) (n * columns)"

lemma encode_chunk_rows: "encode_chunk env vs n columns format = Some (Inr chunk) \<Longrightarrow> n \<noteq> 0"
  by (auto simp: encode_chunk_def quantize_group128_def split: if_splits)

function write_quantized_loop ::
  "convert_env \<Rightarrow> nat \<Rightarrow> bytes \<Rightarrow> nat \<Rightarrow> nat \<Rightarrow> quantization \<Rightarrow> nat \<Rightarrow> nat \<Rightarrow> writer_state
    \<Rightarrow> (status \<times> writer_state) option" where
  "write_quantized_loop env i bytes rows columns format chunk_rows row ws =
     (if row < rows then
        let n = min chunk_rows (rows - row) in
        case encode_chunk env (source_chunk bytes columns row n) n columns format of
          None \<Rightarrow> None
        | Some (Inl s) \<Rightarrow> Some (s, ws)
        | Some (Inr chunk) \<Rightarrow>
            (case write_chunk env i chunk ws of
               None \<Rightarrow> None
             | Some (s, ws) \<Rightarrow>
                 if \<not> status_ok s then Some (s, ws)
                 else write_quantized_loop env i bytes rows columns format chunk_rows (row + chunk_rows) ws)
      else Some (ok_status, ws))"
  by pat_completeness auto
termination
  by (relation "measure (\<lambda>(env, i, bytes, rows, columns, format, chunk_rows, row, ws). rows - row)")
    (auto dest: encode_chunk_rows)

declare write_quantized_loop.simps [simp del]

definition write_quantized ::
  "convert_env \<Rightarrow> nat \<Rightarrow> safe_tensor_file \<Rightarrow> safe_tensor_descriptor \<Rightarrow> quantization \<Rightarrow> nat \<Rightarrow> writer_state
    \<Rightarrow> (status \<times> writer_state) option" where
  "write_quantized env i shard source format chunk_rows ws =
     write_quantized_loop env i (safetensors_data shard source)
       (unat (sd_shape source ! 0)) (unat (sd_shape source ! 1)) format chunk_rows 0 ws"

definition source_row_values :: "bytes \<Rightarrow> nat \<Rightarrow> nat \<Rightarrow> nat \<Rightarrow> fp list result" where
  "source_row_values bytes source_rows columns token =
     (if token \<ge> source_rows then Err corrupt_artifact ''draft-head ranking contains an invalid token ID''
      else Inr (source_chunk bytes columns token 1))"

definition gather_rows :: "bytes \<Rightarrow> nat \<Rightarrow> nat \<Rightarrow> nat list \<Rightarrow> fp list result" where
  "gather_rows bytes source_rows columns rows =
     result_bind (result_all (source_row_values bytes source_rows columns) rows) (\<lambda>parts. Inr (concat parts))"

definition encode_rows ::
  "convert_env \<Rightarrow> bytes \<Rightarrow> nat \<Rightarrow> nat \<Rightarrow> quantization \<Rightarrow> nat list \<Rightarrow> (bytes \<times> bytes) result option" where
  "encode_rows env bytes source_rows columns format rows =
     (case gather_rows bytes source_rows columns rows of
        Inl s \<Rightarrow> Some (Inl s)
      | Inr vs \<Rightarrow> encode_chunk env vs (length rows) columns format)"

lemma encode_rows_rows: "encode_rows env bytes n columns format rows = Some (Inr chunk) \<Longrightarrow> rows \<noteq> []"
  by (auto simp: encode_rows_def dest!: encode_chunk_rows split: sum.splits)

function write_rows_loop ::
  "convert_env \<Rightarrow> nat \<Rightarrow> bytes \<Rightarrow> nat \<Rightarrow> nat \<Rightarrow> quantization \<Rightarrow> nat list \<Rightarrow> nat \<Rightarrow> nat \<Rightarrow> writer_state
    \<Rightarrow> (status \<times> writer_state) option" where
  "write_rows_loop env i bytes source_rows columns format selected_rows chunk_rows row ws =
     (if row < length selected_rows then
        let n = min chunk_rows (length selected_rows - row) in
        if n mod 16 \<noteq> 0
        then Some (Status invalid_argument ''draft-head conversion chunks must contain a multiple of 16 rows'', ws)
        else case encode_rows env bytes source_rows columns format (slice row n selected_rows) of
          None \<Rightarrow> None
        | Some (Inl s) \<Rightarrow> Some (s, ws)
        | Some (Inr chunk) \<Rightarrow>
            (case write_chunk env i chunk ws of
               None \<Rightarrow> None
             | Some (s, ws) \<Rightarrow>
                 if \<not> status_ok s then Some (s, ws)
                 else write_rows_loop env i bytes source_rows columns format selected_rows chunk_rows (row + chunk_rows) ws)
      else Some (ok_status, ws))"
  by pat_completeness auto
termination
  by (relation "measure (\<lambda>(env, i, bytes, source_rows, columns, format, selected_rows, chunk_rows, row, ws).
      length selected_rows - row)") (auto simp: slice_def dest!: encode_rows_rows)

declare write_rows_loop.simps [simp del]

definition write_quantized_rows ::
  "convert_env \<Rightarrow> nat \<Rightarrow> safe_tensor_file \<Rightarrow> safe_tensor_descriptor \<Rightarrow> quantization \<Rightarrow> nat list \<Rightarrow> nat \<Rightarrow> writer_state
    \<Rightarrow> (status \<times> writer_state) option" where
  "write_quantized_rows env i shard source format selected_rows chunk_rows ws =
     write_rows_loop env i (safetensors_data shard source)
       (unat (sd_shape source ! 0)) (unat (sd_shape source ! 1)) format selected_rows chunk_rows 0 ws"

definition item_source :: "source_files \<Rightarrow> planned_item \<Rightarrow> safe_tensor_file \<times> safe_tensor_descriptor" where
  "item_source files item =
     (let shard = sf_shards files ! the (sf_shard_indices files (the (map_of (sf_weight_map files) (pi_source_name item))))
      in (shard, the (safetensors_find shard (pi_source_name item))))"

definition token_id_bytes :: "nat list \<Rightarrow> bytes" where
  "token_id_bytes rows = concat (map (\<lambda>r. le_bytes 4 (of_nat r :: u32)) rows)"

definition write_item ::
  "convert_env \<Rightarrow> conversion_options \<Rightarrow> source_files \<Rightarrow> nat \<Rightarrow> planned_item \<Rightarrow> bytes \<Rightarrow> writer_state
    \<Rightarrow> (status \<times> writer_state) option" where
  "write_item env options files item_index item resource ws =
     (if pi_resource_path item \<noteq> [] then writer_append_data env item_index resource ws
      else if pi_derived item = derived_draft_token_ids
      then writer_append_data env item_index (token_id_bytes (pi_selected_rows item)) ws
      else
        let (shard, source) = item_source files item; format = wp_quantization (pi_output item) in
        if format = q_none then writer_append_data env item_index (safetensors_data shard source) ws
        else if pi_derived item = derived_draft_head
        then write_quantized_rows env item_index shard source format (pi_selected_rows item) (co_chunk_rows options) ws
        else write_quantized env item_index shard source format (co_chunk_rows options) ws)"

fun write_items ::
  "convert_env \<Rightarrow> conversion_options \<Rightarrow> source_files \<Rightarrow> nat \<Rightarrow> planned_item list \<Rightarrow> writer_state
    \<Rightarrow> (status \<times> writer_state) option" where
  "write_items env options files item_index [] ws = Some (ok_status, ws)"
| "write_items env options files item_index (item # items) ws =
     (case (if pi_resource_path item \<noteq> [] then read_file (ce_host env) (pi_resource_path item) else Inr []) of
        Inl s \<Rightarrow> Some (s, ws)
      | Inr resource \<Rightarrow>
          (case write_item env options files item_index item resource ws of
             None \<Rightarrow> None
           | Some (s, ws) \<Rightarrow>
               if \<not> status_ok s
               then Some (Status (status_code s) (wp_name (pi_output item) @ '': '' @ status_message s), ws)
               else write_items env options files (Suc item_index) items ws))"

text \<open>From the creation of the writer on. \<open>None\<close> stands for a kernel that never answers a write, or for a
  chunk whose sizes wrap around.\<close>

definition convert_emit ::
  "convert_env \<Rightarrow> conversion_options \<Rightarrow> source_files \<Rightarrow> artifact_identity \<Rightarrow> planned_item list \<Rightarrow> conversion_summary
    \<Rightarrow> file_system \<Rightarrow> (conversion_summary result \<times> file_system) option" where
  "convert_emit env options files identity items summary fs =
     (case stream_create (ce_stream env) (ce_create_responses env) (co_output_path options) identity (map pi_output items) fs of
        None \<Rightarrow> None
      | Some (Inl s, fs) \<Rightarrow> Some (Inl s, fs)
      | Some (Inr w, fs) \<Rightarrow>
          (case write_items env options files 0 items \<lparr> ws_impl = Some w, ws_fs = fs, ws_appends = 0 \<rparr> of
             None \<Rightarrow> None
           | Some (s, ws) \<Rightarrow>
               if \<not> status_ok s then Some (Inl s, writer_destroy env (ws_impl ws) (ws_fs ws))
               else
                 (case stream_finalize (ce_finalize env) (ws_impl ws) (ws_fs ws) of
                    None \<Rightarrow> None
                  | Some (s, impl, fs) \<Rightarrow>
                      if \<not> status_ok s then Some (Inl s, writer_destroy env impl fs)
                      else case ce_stat_error env of
                        Some e \<Rightarrow> Some (Err io_error (''cannot stat completed artifact: '' @ e), writer_destroy env impl fs)
                      | None \<Rightarrow>
                          Some (Inr (summary \<lparr> cs_output_file_bytes :=
                              of_nat (case fs (co_output_path options) of None \<Rightarrow> 0 | Some contents \<Rightarrow> length contents) \<rparr>),
                            writer_destroy env impl fs))))"

definition conversion_identity :: "conversion_options \<Rightarrow> artifact_identity" where
  "conversion_identity options =
     (let ranked = co_draft_ranking_path options \<noteq> [];
          hybrid = co_mlp_bits options = 3 \<and> co_w3_start_layer options \<noteq> 0;
          lowbit_heads = co_output_head_bits options \<noteq> 4
      in \<lparr> target_arch = ''gfx1200'', model_id = ''qwen3.8-27b'',
           weights_id =
             (if lowbit_heads
              then (if co_output_head_bits options = 2 then ''rdna4-w3seq-w4-h2-a4-t8-f96k-ls''
                    else ''rdna4-w3seq-w4-h3-a4-t8-f96k-ls'')
              else if co_mlp_bits options = 4 then ''rdna4-w4-a4-t8-f96k-ls''
              else if co_mlp_bits options = 3
              then (if hybrid then ''rdna4-w2-w3seq-w4-a4-t8-f96k-ls'' else ''rdna4-w3seq-w4-a4-t8-f96k-ls'')
              else ''rdna4-w2w4-a4-t8''),
           recipe_id =
             (if lowbit_heads
              then (if co_output_head_bits options = 2 then ''qwen38-code-w3seq-w4-head2-wmma-tiled-v9''
                    else ''qwen38-code-w3seq-w4-head3-wmma-tiled-v9'')
              else if co_mlp_bits options = 4 then ''qwen38-code-w4-wmma-tiled-v7''
              else if co_mlp_bits options = 3
              then (if hybrid then ''qwen38-w2-w3seq-w4-wmma-tiled-v9'' else ''qwen38-code-w3seq-w4-wmma-tiled-v9'')
              else (if ranked then ''qwen38-maxspeed-wmma-tiled-ranked-v3'' else ''qwen38-maxspeed-wmma-tiled-v2'')) \<rparr>)"

definition valid_options :: "conversion_options \<Rightarrow> bool" where
  "valid_options options \<longleftrightarrow>
     \<not> (co_source_directory options = [] \<or> (\<not> co_plan_only options \<and> co_output_path options = [])
       \<or> co_chunk_rows options = 0 \<or> co_chunk_rows options > 4096
       \<or> (co_mlp_bits options \<noteq> 2 \<and> co_mlp_bits options \<noteq> 3 \<and> co_mlp_bits options \<noteq> 4)
       \<or> (co_output_head_bits options \<noteq> 2 \<and> co_output_head_bits options \<noteq> 3 \<and> co_output_head_bits options \<noteq> 4)
       \<or> co_w3_start_layer options > of_nat layer_count \<or> co_w4_tail_layers options > of_nat layer_count
       \<or> (co_draft_ranking_path options \<noteq> [] \<and> co_chunk_rows options mod 16 \<noteq> 0))"

definition open_shard ::
  "convert_env \<Rightarrow> conversion_options \<Rightarrow> safe_tensor_file list \<times> (string \<Rightarrow> nat option) \<Rightarrow> string
    \<Rightarrow> (safe_tensor_file list \<times> (string \<Rightarrow> nat option)) result" where
  "open_shard env options acc name =
     (case acc of (shards, shard_indices) \<Rightarrow>
        let path = path_join (co_source_directory options) name in
        result_bind (safetensors_open (ce_json env) path (ce_access env path)) (\<lambda>shard.
          Inr (shards @ [shard],
               if shard_indices name = None then shard_indices(name \<mapsto> length shards) else shard_indices)))"

text \<open>\<open>std::filesystem::path::parent_path\<close>.\<close>

definition parent_path :: "string \<Rightarrow> string" where
  "parent_path path =
     (let r = dropWhile (\<lambda>c. c \<noteq> CHR ''/'') (rev path); s = dropWhile (\<lambda>c. c = CHR ''/'') r
      in if s = [] \<and> r \<noteq> [] then ''/'' else rev s)"

definition load_source ::
  "convert_env \<Rightarrow> conversion_options \<Rightarrow> source_files result" where
  "load_source env options =
     result_bind (validate_qwen38_model_directory (ce_json env) (ce_access env) (co_source_directory options) True True) (\<lambda>_.
     result_bind (load_safetensors_index (ce_json env)
       (path_join (co_source_directory options) ''model.safetensors.index.json'')) (\<lambda>index.
     result_bind (result_foldl (open_shard env options) ([], \<lambda>_. None) (ix_shards index)) (\<lambda>(shards, shard_indices).
       Inr \<lparr> sf_weight_map = ix_weight_map index, sf_shard_indices = shard_indices, sf_shards = shards \<rparr>)))"

definition check_output :: "convert_env \<Rightarrow> conversion_options \<Rightarrow> conversion_summary \<Rightarrow> unit result" where
  "check_output env options summary =
     (let parent = parent_path (co_output_path options) in
      case (if parent \<noteq> [] then ce_directory_error env parent else None) of
        Some e \<Rightarrow> Err io_error (''cannot create artifact directory: '' @ e)
      | None \<Rightarrow>
          (case ce_space env (if parent = [] then ''.'' else parent) of
             None \<Rightarrow> Inr ()
           | Some available \<Rightarrow>
               if available < cs_planned_payload_bytes summary + 2 ^ 30
               then Err out_of_memory ''insufficient free storage for artifact plus conversion safety margin''
               else Inr ()))"

definition convert_qwen38 ::
  "convert_env \<Rightarrow> conversion_options \<Rightarrow> file_system \<Rightarrow> (conversion_summary result \<times> file_system) option" where
  "convert_qwen38 env options fs =
     (if \<not> valid_options options then Some (Err invalid_argument ''invalid Qwen conversion options'', fs)
      else case load_source env options of
        Inl s \<Rightarrow> Some (Inl s, fs)
      | Inr files \<Rightarrow>
          (case make_plan options (ce_host env) files of
             Inl s \<Rightarrow> Some (Inl s, fs)
           | Inr (items, summary) \<Rightarrow>
               if co_plan_only options then Some (Inr summary, fs)
               else case check_output env options summary of
                 Inl s \<Rightarrow> Some (Inl s, fs)
               | Inr _ \<Rightarrow> convert_emit env options files (conversion_identity options) items summary fs))"

section \<open>Chunks of rows\<close>

text \<open>Two packed matrices of the same width, one below the other.\<close>

definition stack :: "packed_matrix \<Rightarrow> packed_matrix \<Rightarrow> packed_matrix" where
  "stack a b = \<lparr> pm_rows = pm_rows a + pm_rows b, pm_columns = pm_columns a, pm_format = pm_format a,
     pm_codes = pm_codes a @ pm_codes b, pm_scales = pm_scales a @ pm_scales b \<rparr>"

lemma upt_shift: "[a..<a + n] = map ((+) a) [0..<n]"
  by (induction n) simp_all

text \<open>A chunk with unbounded sizes, the reference: what \<open>encode_chunk\<close> returns, it returns.\<close>

definition exact_chunk :: "convert_env \<Rightarrow> fp list \<Rightarrow> nat \<Rightarrow> nat \<Rightarrow> quantization \<Rightarrow> (bytes \<times> bytes) result" where
  "exact_chunk env vs count_rows columns format =
     result_bind (exact_quantize vs count_rows columns format) (\<lambda>packed.
     result_bind (exact_tile packed) (\<lambda>tiled.
       Inr (tm_codes tiled, half_bytes env (tm_scales tiled))))"

lemma encode_chunk_exact:
  "encode_chunk env vs n columns format = Some (Inr chunk) \<Longrightarrow> exact_chunk env vs n columns format = Inr chunk"
  by (auto simp: encode_chunk_def exact_chunk_def dest!: quantize_group128_exact tile_group128_exact
      split: option.splits sum.splits)

definition quantized_rows :: "fp list \<Rightarrow> nat \<Rightarrow> nat \<Rightarrow> quantization \<Rightarrow> (bytes \<times> fp list \<times> bool) list" where
  "quantized_rows vs n columns format = map (\<lambda>row. quantize_row format columns (slice (row * columns) columns vs)) [0..<n]"

lemma exact_quantize_iff:
  "exact_quantize vs n columns format = Inr p \<longleftrightarrow>
     n \<noteq> 0 \<and> columns \<noteq> 0 \<and> columns mod kGroupSize = 0 \<and> length vs = n * columns \<and> packed_format format
     \<and> \<not> list_ex (\<lambda>(codes, scales, bad). bad) (quantized_rows vs n columns format)
     \<and> p = \<lparr> pm_rows = n, pm_columns = columns, pm_format = format,
          pm_codes = concat (map fst (quantized_rows vs n columns format)),
          pm_scales = concat (map (fst \<circ> snd) (quantized_rows vs n columns format)) \<rparr>"
  unfolding exact_quantize_def quantize_rows_def quantized_rows_def [symmetric] Let_def
  by (auto simp: packed_format_def)

lemma quantize_stack:
  assumes a: "exact_quantize v m columns format = Inr p" and b: "exact_quantize w n columns format = Inr q"
  shows "exact_quantize (v @ w) (m + n) columns format = Inr (stack p q)"
proof -
  let ?row = "\<lambda>vs r. quantize_row format columns (slice (r * columns) columns vs)"
  have len: "length v = m * columns" "length w = n * columns"
    using exact_quantize_Inr(3) a b by blast+
  have "map (?row (v @ w)) [0..<m] = map (?row v) [0..<m]"
    using len row_end [of _ m columns] by (intro map_cong) (simp_all add: slice_within_left)
  moreover have "map (?row (v @ w)) [m..<m + n] = map (?row w) [0..<n]"
    using len by (simp add: upt_shift comp_def slice_skip distrib_right)
  ultimately have rows: "quantized_rows (v @ w) (m + n) columns format
      = quantized_rows v m columns format @ quantized_rows w n columns format"
    by (simp add: quantized_rows_def upt_add_eq_append [of 0 m])
  show ?thesis
    using a b unfolding exact_quantize_iff rows by (simp add: stack_def distrib_right)
qed

lemma stack_row:
  assumes "length (pm_codes a) = pm_rows a * exact_row_bytes (pm_format a) (pm_columns a)"
  shows "r < pm_rows a \<Longrightarrow> matrix_row (stack a b) r = matrix_row a r"
    and "pm_columns b = pm_columns a \<Longrightarrow> pm_format b = pm_format a \<Longrightarrow> matrix_row (stack a b) (pm_rows a + r) = matrix_row b r"
proof -
  let ?w = "exact_row_bytes (pm_format a) (pm_columns a)"
  show "matrix_row (stack a b) r = matrix_row a r" if "r < pm_rows a"
    using row_end [OF that, of ?w] assms by (simp add: matrix_row_def stack_def slice_within_left)
  show "matrix_row (stack a b) (pm_rows a + r) = matrix_row b r"
    if "pm_columns b = pm_columns a" "pm_format b = pm_format a"
    using assms that by (simp add: matrix_row_def stack_def slice_skip distrib_right)
qed

text \<open>A fragment is read from its row alone.\<close>

lemma fragment_of_row:
  assumes "valid_packed m" and "grp < pm_columns m div kGroupSize" and "k < 4"
  shows "tile_fragment m row grp k = (if pm_format m = w3g128
    then pack_w3_fragment (\<lambda>item. load_code (matrix_row m row) (grp * kGroupSize + k * 32 + item) w3g128)
    else slice (grp * fragment_bytes (pm_format m) * 4 + k * fragment_bytes (pm_format m))
      (fragment_bytes (pm_format m)) (matrix_row m row))"
proof (cases "pm_format m = w3g128")
  case False
  let ?n = "fragment_bytes (pm_format m)" and ?w = "exact_row_bytes (pm_format m) (pm_columns m)"
  have "?w = pm_columns m div kGroupSize * 4 * ?n"
    using assms(1) by (intro row_bytes_groups) (simp_all add: valid_packed_def)
  moreover have "grp * ?n * 4 + k * ?n + ?n \<le> (grp + 1) * ?n * 4"
    using assms(3) mult_le_mono1 [of "Suc k" 4 ?n] by simp
  moreover have "(grp + 1) * ?n * 4 \<le> pm_columns m div kGroupSize * ?n * 4"
    using assms(2) by (intro mult_le_mono1) simp
  ultimately have "grp * ?n * 4 + k * ?n + ?n \<le> ?w"
    by (simp only: mult.assoc mult.commute [of 4])
  then show ?thesis
    using False by (simp add: tile_fragment_def matrix_row_def Let_def slice_slice add.assoc)
qed (simp add: tile_fragment_def)

lemma stack_valid:
  assumes "valid_packed a" and "valid_packed b" and "pm_columns b = pm_columns a" and "pm_format b = pm_format a"
  shows "valid_packed (stack a b)"
  using assms by (simp add: valid_packed_def stack_def distrib_right)

lemma stack_fragment:
  assumes a: "valid_packed a" and b: "valid_packed b" and same: "pm_columns b = pm_columns a" "pm_format b = pm_format a"
    and g: "grp < pm_columns a div kGroupSize" "k < 4"
  shows "r < pm_rows a \<Longrightarrow> tile_fragment (stack a b) r grp k = tile_fragment a r grp k"
    and "tile_fragment (stack a b) (pm_rows a + r) grp k = tile_fragment b r grp k"
proof -
  have len: "length (pm_codes a) = pm_rows a * exact_row_bytes (pm_format a) (pm_columns a)"
    using a by (simp add: valid_packed_def)
  have st: "pm_columns (stack a b) = pm_columns a" "pm_format (stack a b) = pm_format a"
    by (simp_all add: stack_def)
  note f = fragment_of_row [OF stack_valid [OF a b same], unfolded st, OF g]
  show "tile_fragment (stack a b) r grp k = tile_fragment a r grp k" if "r < pm_rows a"
    unfolding f fragment_of_row [OF a g] by (simp add: stack_row(1) [OF len that])
  show "tile_fragment (stack a b) (pm_rows a + r) grp k = tile_fragment b r grp k"
    unfolding f fragment_of_row [OF b, unfolded same, OF g] by (simp add: stack_row(2) [OF len same])
qed

lemma tile_stack:
  assumes ta: "exact_tile a = Inr ta" and tb: "exact_tile b = Inr tb"
    and same: "pm_columns b = pm_columns a" "pm_format b = pm_format a"
  shows "\<exists>t. exact_tile (stack a b) = Inr t
    \<and> tm_codes t = tm_codes ta @ tm_codes tb \<and> tm_scales t = tm_scales ta @ tm_scales tb"
proof -
  note a = exact_tile_Inr [OF ta] and b = exact_tile_Inr [OF tb]
  have v: "valid_packed (stack a b)"
    using stack_valid [OF a(1) b(1) same] .
  obtain m where m: "pm_rows a = 16 * m"
    using a(2) by (auto simp: dvd_eq_mod_eq_0 [symmetric] elim: dvdE)
  obtain n where n: "pm_rows b = 16 * n"
    using b(2) by (auto simp: dvd_eq_mod_eq_0 [symmetric] elim: dvdE)
  have st: "pm_rows (stack a b) = 16 * (m + n)" "pm_columns (stack a b) = pm_columns a" "pm_scales (stack a b) = pm_scales a @ pm_scales b"
    by (simp_all add: stack_def m n)
  then obtain t where t: "exact_tile (stack a b) = Inr t"
    using v by (auto simp: exact_tile_def valid_packed_def packed_format_def Let_def)
  note s = exact_tile_Inr [OF t]
  have split: "[0..<m + n] = [0..<m] @ map ((+) m) [0..<n]"
    by (simp add: upt_add_eq_append upt_shift)
  let ?G = "pm_columns a div kGroupSize"
  have row: "tile * 16 + l < pm_rows a" if "tile < m" "l < 16" for tile l
    using that m by linarith
  have below: "(m + tile) * 16 + l = pm_rows a + (tile * 16 + l)" for tile l
    using m by simp
  let ?block = "\<lambda>x tile. concat (map (\<lambda>grp. concat (map (\<lambda>k_tile.
      concat (map (\<lambda>l. tile_fragment x (tile * 16 + l) grp k_tile) [0..<16])) [0..<4])) [0..<?G])"
  have 1: "?block (stack a b) tile = ?block a tile" if "tile < m" for tile
    using that by (intro arg_cong [where f = concat] map_cong refl stack_fragment(1) [OF a(1) b(1) same] row) auto
  have 2: "?block (stack a b) (m + tile) = ?block b tile" for tile
    unfolding below by (intro arg_cong [where f = concat] map_cong refl stack_fragment(2) [OF a(1) b(1) same]) auto
  have "map (?block (stack a b)) [0..<m + n] = map (?block a) [0..<m] @ map (?block b) [0..<n]"
    unfolding split map_append map_map comp_def 2 using 1 by (auto intro: map_cong)
  then have "tm_codes t = tm_codes ta @ tm_codes tb"
    unfolding s(6) a(6) b(6) st m n same by simp
  moreover have "tm_scales t = tm_scales ta @ tm_scales tb"
  proof -
    have la: "length (pm_scales a) = pm_rows a * ?G"
      using a(1) by (simp add: valid_packed_def)
    let ?scales = "\<lambda>xs tile. concat (map (\<lambda>g. map (\<lambda>l. xs ! ((tile * 16 + l) * ?G + g)) [0..<16]) [0..<?G])"
    have 1: "?scales (pm_scales a @ pm_scales b) tile = ?scales (pm_scales a) tile" if "tile < m" for tile
    proof (intro arg_cong [where f = concat] map_cong refl)
      fix g l assume "g \<in> set [0..<?G]" "l \<in> set [0..<16]"
      then have "(tile * 16 + l) * ?G + g < pm_rows a * ?G"
        using row_end [OF row [OF that], of l ?G] by simp
      then show "(pm_scales a @ pm_scales b) ! ((tile * 16 + l) * ?G + g) = pm_scales a ! ((tile * 16 + l) * ?G + g)"
        by (simp add: la nth_append)
    qed
    have 2: "?scales (pm_scales a @ pm_scales b) (m + tile) = ?scales (pm_scales b) tile" for tile
      unfolding below using la by (simp add: nth_append distrib_right add.assoc)
    have "map (?scales (pm_scales a @ pm_scales b)) [0..<m + n] = map (?scales (pm_scales a)) [0..<m] @ map (?scales (pm_scales b)) [0..<n]"
      unfolding split map_append map_map comp_def 2 using 1 by (auto intro: map_cong)
    then show ?thesis
      unfolding s(7) a(7) b(7) st m n same by simp
  qed
  ultimately show ?thesis
    using t by blast
qed

lemma exact_chunk_append:
  assumes "exact_chunk env v m columns format = Inr (a, x)" and "exact_chunk env w n columns format = Inr (b, y)"
  shows "exact_chunk env (v @ w) (m + n) columns format = Inr (a @ b, x @ y)"
proof -
  obtain p ta where p: "exact_quantize v m columns format = Inr p" "exact_tile p = Inr ta"
    "a = tm_codes ta" "x = half_bytes env (tm_scales ta)"
    using assms(1) by (auto simp: exact_chunk_def)
  obtain q tb where q: "exact_quantize w n columns format = Inr q" "exact_tile q = Inr tb"
    "b = tm_codes tb" "y = half_bytes env (tm_scales tb)"
    using assms(2) by (auto simp: exact_chunk_def)
  have "pm_columns q = pm_columns p" "pm_format q = pm_format p"
    using exact_quantize_Inr(5,6) [OF p(1)] exact_quantize_Inr(5,6) [OF q(1)] by simp_all
  from tile_stack [OF p(2) q(2) this] show ?thesis
    using quantize_stack [OF p(1) q(1)] p(3,4) q(3,4) by (auto simp: exact_chunk_def half_bytes_def)
qed

section \<open>What the loops write\<close>

lemma encode_chunk_Inl: "encode_chunk env vs n columns format = Some (Inl s) \<Longrightarrow> \<not> status_ok s"
  by (auto simp: encode_chunk_def quantize_group128_def quantize_rows_def tile_group128_for_gfx12_def Let_def
      split: option.splits sum.splits if_splits)

lemma source_chunk_append: "source_chunk bytes columns row (m + n) = source_chunk bytes columns row m @ source_chunk bytes columns (row + m) n"
proof -
  have elem: "slice (2 * i) 2 (slice (row * columns * 2) (n * columns * 2) bytes) = slice (row * columns * 2 + 2 * i) 2 bytes"
    if "i < n * columns" for row n i
    using that by (intro slice_slice) linarith
  have chunk: "source_chunk bytes columns row n
      = map (\<lambda>i. bf16_to_float (le_word (slice (row * columns * 2 + 2 * i) 2 bytes))) [0..<n * columns]" for row n
    unfolding source_chunk_def bf16_values_def by (rule map_cong) (simp_all add: elem)
  have "[0..<(m + n) * columns] = [0..<m * columns] @ map ((+) (m * columns)) [0..<n * columns]"
    by (simp add: distrib_right upt_add_eq_append upt_shift)
  then show ?thesis
    by (simp add: chunk comp_def algebra_simps)
qed

lemma gather_rows_append:
  "gather_rows bytes n columns (xs @ ys)
    = result_bind (gather_rows bytes n columns xs) (\<lambda>v. result_bind (gather_rows bytes n columns ys) (\<lambda>w. Inr (v @ w)))"
  unfolding gather_rows_def result_all_append
  by (cases "result_all (source_row_values bytes n columns) xs"; cases "result_all (source_row_values bytes n columns) ys") simp_all

text \<open>The bytes that a sequence of appends has written, for a specification in terms of the stream.\<close>

definition streamed :: "convert_env \<Rightarrow> stream_impl \<Rightarrow> file_system \<Rightarrow> writer_state \<Rightarrow> (bool \<Rightarrow> nat \<Rightarrow> bytes) \<Rightarrow> bool" where
  "streamed env w fs ws S \<longleftrightarrow>
     (\<exists>ops. stream_run (ce_ebadf env) ops (Some w, fs, no_bytes) = Some (ws_impl ws, ws_fs ws, S))"

definition emitted :: "nat \<Rightarrow> bytes \<times> bytes \<Rightarrow> (bool \<Rightarrow> nat \<Rightarrow> bytes) \<Rightarrow> bool \<Rightarrow> nat \<Rightarrow> bytes" where
  "emitted i chunk S = ArtifactStream.extend True i (snd chunk) (ArtifactStream.extend False i (fst chunk) S)"

lemma emitted_twice: "emitted i (b, y) (emitted i (a, x) S) = emitted i (a @ b, x @ y) S"
  by (intro ext) (simp add: emitted_def ArtifactStream.extend_def)

lemma stream_run_append:
  "stream_run e (ops @ ops') st = (case stream_run e ops st of None \<Rightarrow> None | Some st' \<Rightarrow> stream_run e ops' st')"
proof (induction e ops st rule: stream_run.induct)
  case (2 e i b rs ops impl fs S)
  then show ?case
    by (cases "append_data rs e i b impl fs") auto
next
  case (3 e i b rs ops impl fs S)
  then show ?case
    by (cases "append_auxiliary rs e i b impl fs") auto
qed simp

lemma streamed_data:
  assumes "streamed env w fs ws S" and "writer_append_data env i b ws = Some (s, ws')" and "status_ok s"
  shows "streamed env w fs ws' (emitted i (b, []) S)"
proof -
  obtain ops where "stream_run (ce_ebadf env) ops (Some w, fs, no_bytes) = Some (ws_impl ws, ws_fs ws, S)"
    using assms(1) by (auto simp: streamed_def)
  moreover have "ArtifactStream.extend False i b S = emitted i (b, []) S"
    by (intro ext) (simp add: emitted_def ArtifactStream.extend_def)
  ultimately have "stream_run (ce_ebadf env) (ops @ [Data i b (ce_append_responses env (ws_appends ws))]) (Some w, fs, no_bytes)
      = Some (ws_impl ws', ws_fs ws', emitted i (b, []) S)"
    using assms(2,3) by (auto simp: stream_run_append writer_append_data_def split: option.splits)
  then show ?thesis
    unfolding streamed_def by blast
qed

lemma streamed_auxiliary:
  assumes "streamed env w fs ws S" and "writer_append_auxiliary env i b ws = Some (s, ws')" and "status_ok s"
  shows "streamed env w fs ws' (emitted i ([], b) S)"
proof -
  obtain ops where "stream_run (ce_ebadf env) ops (Some w, fs, no_bytes) = Some (ws_impl ws, ws_fs ws, S)"
    using assms(1) by (auto simp: streamed_def)
  moreover have "ArtifactStream.extend True i b S = emitted i ([], b) S"
    by (intro ext) (simp add: emitted_def ArtifactStream.extend_def)
  ultimately have "stream_run (ce_ebadf env) (ops @ [Auxiliary i b (ce_append_responses env (ws_appends ws))]) (Some w, fs, no_bytes)
      = Some (ws_impl ws', ws_fs ws', emitted i ([], b) S)"
    using assms(2,3) by (auto simp: stream_run_append writer_append_auxiliary_def split: option.splits)
  then show ?thesis
    unfolding streamed_def by blast
qed

lemma streamed_chunk:
  assumes "streamed env w fs ws S" and "write_chunk env i (a, x) ws = Some (s, ws')" and "status_ok s"
  shows "streamed env w fs ws' (emitted i (a, x) S)"
proof -
  obtain s1 ws1 where 1: "writer_append_data env i a ws = Some (s1, ws1)" "status_ok s1"
    and 2: "writer_append_auxiliary env i x ws1 = Some (s, ws')"
    using assms(2,3) by (auto simp: write_chunk_def split: option.splits if_splits)
  show ?thesis
    using streamed_auxiliary [OF streamed_data [OF assms(1) 1] 2 assms(3)] by (simp add: emitted_twice)
qed

lemma write_quantized_streams:
  assumes "write_quantized_loop env i bytes rows columns format chunk_rows row ws = Some (s, ws')" and "status_ok s"
    and "streamed env w fs ws S" and "row < rows"
  shows "\<exists>chunk. exact_chunk env (source_chunk bytes columns row (rows - row)) (rows - row) columns format = Inr chunk
    \<and> streamed env w fs ws' (emitted i chunk S)"
  using assms
proof (induction env i bytes rows columns format chunk_rows row ws arbitrary: S rule: write_quantized_loop.induct)
  case (1 env i bytes rows columns format chunk_rows row ws)
  let ?n = "min chunk_rows (rows - row)"
  obtain a x where c: "encode_chunk env (source_chunk bytes columns row ?n) ?n columns format = Some (Inr (a, x))"
    using "1.prems"(1,2,4)
    by (auto simp: write_quantized_loop.simps [of _ _ _ _ _ _ _ row] Let_def dest!: encode_chunk_Inl
        split: option.splits sum.splits)
  note e = encode_chunk_exact [OF c]
  obtain s1 ws1 where wc: "write_chunk env i (a, x) ws = Some (s1, ws1)" "status_ok s1"
    and rest: "write_quantized_loop env i bytes rows columns format chunk_rows (row + chunk_rows) ws1 = Some (s, ws')"
    using "1.prems"(1,2,4) c
    by (auto simp: write_quantized_loop.simps [of _ _ _ _ _ _ _ row] Let_def split: option.splits if_splits)
  note st = streamed_chunk [OF "1.prems"(3) wc]
  show ?case
  proof (cases "row + chunk_rows < rows")
    case True
    then have n: "?n = chunk_rows"
      by simp
    obtain b y where b: "exact_chunk env (source_chunk bytes columns (row + chunk_rows) (rows - (row + chunk_rows)))
        (rows - (row + chunk_rows)) columns format = Inr (b, y)"
      and st': "streamed env w fs ws' (emitted i (b, y) (emitted i (a, x) S))"
      using "1.IH" [OF "1.prems"(4) refl c refl wc(1) refl _ rest "1.prems"(2) st True] wc(2) by auto
    have "chunk_rows + (rows - (row + chunk_rows)) = rows - row"
      using True by simp
    then show ?thesis
      using exact_chunk_append [OF e [unfolded n] b] source_chunk_append [of bytes columns row chunk_rows "rows - (row + chunk_rows)"] st'
      by (metis emitted_twice)
  next
    case False
    then have "?n = rows - row" "ws' = ws1"
      using rest by (auto simp: write_quantized_loop.simps)
    then show ?thesis
      using e st by metis
  qed
qed


lemma result_all_Inl: "result_all f xs = Inl s \<Longrightarrow> \<exists>x \<in> set xs. f x = Inl s"
proof (induction xs)
  case (Cons x xs)
  then show ?case
    by (cases "f x"; cases "result_all f xs") auto
qed simp

lemma gather_rows_Inl: "gather_rows bytes n columns rows = Inl s \<Longrightarrow> \<not> status_ok s"
  by (cases "result_all (source_row_values bytes n columns) rows")
    (auto simp: gather_rows_def source_row_values_def dest!: result_all_Inl split: if_splits)

definition rows_chunk :: "convert_env \<Rightarrow> bytes \<Rightarrow> nat \<Rightarrow> nat \<Rightarrow> quantization \<Rightarrow> nat list \<Rightarrow> (bytes \<times> bytes) result" where
  "rows_chunk env bytes source_rows columns format rows =
     result_bind (gather_rows bytes source_rows columns rows) (\<lambda>vs. exact_chunk env vs (length rows) columns format)"

lemma encode_rows_Inl: "encode_rows env bytes n columns format rows = Some (Inl s) \<Longrightarrow> \<not> status_ok s"
  by (cases "gather_rows bytes n columns rows") (auto simp: encode_rows_def dest: gather_rows_Inl encode_chunk_Inl)

lemma encode_rows_exact:
  "encode_rows env bytes n columns format rows = Some (Inr chunk) \<Longrightarrow> rows_chunk env bytes n columns format rows = Inr chunk"
  by (auto simp: encode_rows_def rows_chunk_def encode_chunk_exact split: sum.splits)

lemma rows_chunk_append:
  assumes "rows_chunk env bytes n columns format xs = Inr (a, x)" and "rows_chunk env bytes n columns format ys = Inr (b, y)"
  shows "rows_chunk env bytes n columns format (xs @ ys) = Inr (a @ b, x @ y)"
  using assms exact_chunk_append [of env _ "length xs" columns format a x _ "length ys" b y]
  by (auto simp: rows_chunk_def gather_rows_append)

lemma write_rows_streams:
  assumes "write_rows_loop env i bytes n columns format rows chunk_rows row ws = Some (s, ws')" and "status_ok s"
    and "streamed env w fs ws S" and "row < length rows"
  shows "\<exists>chunk. rows_chunk env bytes n columns format (drop row rows) = Inr chunk
    \<and> streamed env w fs ws' (emitted i chunk S)"
  using assms
proof (induction env i bytes n columns format rows chunk_rows row ws arbitrary: S rule: write_rows_loop.induct)
  case (1 env i bytes n columns format rows chunk_rows row ws)
  let ?n = "min chunk_rows (length rows - row)"
  have mod16: "\<not> ?n mod 16 \<noteq> 0"
    using "1.prems"(1,2,4) by (auto simp: write_rows_loop.simps [of _ _ _ _ _ _ _ _ row] Let_def split: if_splits)
  obtain a x where c: "encode_rows env bytes n columns format (slice row ?n rows) = Some (Inr (a, x))"
    using "1.prems"(1,2,4) mod16
    by (auto simp: write_rows_loop.simps [of _ _ _ _ _ _ _ _ row] Let_def dest!: encode_rows_Inl
        split: option.splits sum.splits)
  note e = encode_rows_exact [OF c]
  obtain s1 ws1 where wc: "write_chunk env i (a, x) ws = Some (s1, ws1)" "status_ok s1"
    and rest: "write_rows_loop env i bytes n columns format rows chunk_rows (row + chunk_rows) ws1 = Some (s, ws')"
    using "1.prems"(1,2,4) c mod16
    by (auto simp: write_rows_loop.simps [of _ _ _ _ _ _ _ _ row] Let_def split: option.splits if_splits)
  note st = streamed_chunk [OF "1.prems"(3) wc]
  show ?case
  proof (cases "row + chunk_rows < length rows")
    case True
    then have m: "?n = chunk_rows"
      by simp
    obtain b y where b: "rows_chunk env bytes n columns format (drop (row + chunk_rows) rows) = Inr (b, y)"
      and st': "streamed env w fs ws' (emitted i (b, y) (emitted i (a, x) S))"
      using "1.IH" [OF "1.prems"(4) refl mod16 c refl wc(1) refl _ rest "1.prems"(2) st True] wc(2) by auto
    have "drop row rows = slice row chunk_rows rows @ drop (row + chunk_rows) rows"
      by (simp add: slice_def add.commute [of row] drop_drop [symmetric] del: drop_drop)
    then show ?thesis
      using rows_chunk_append [OF e [unfolded m] b] st' by (metis emitted_twice)
  next
    case False
    then have "slice row ?n rows = drop row rows" "ws' = ws1"
      using rest by (auto simp: write_rows_loop.simps slice_def)
    then show ?thesis
      using e st by metis
  qed
qed

section \<open>What the artifact holds\<close>

text \<open>The data and auxiliary bytes that belong to an item: a quantized tensor is quantized and tiled in
  one piece here, whatever the size of the chunks.\<close>

definition payload_of :: "convert_env \<Rightarrow> source_files \<Rightarrow> planned_item \<Rightarrow> (bytes \<times> bytes) result" where
  "payload_of env files item =
     (if pi_resource_path item \<noteq> []
      then result_bind (read_file (ce_host env) (pi_resource_path item)) (\<lambda>resource. Inr (resource, []))
      else if pi_derived item = derived_draft_token_ids then Inr (token_id_bytes (pi_selected_rows item), [])
      else
        let (shard, source) = item_source files item; format = wp_quantization (pi_output item);
            bytes = safetensors_data shard source;
            rows = unat (sd_shape source ! 0); columns = unat (sd_shape source ! 1)
        in if format = q_none then Inr (bytes, [])
           else if pi_derived item = derived_draft_head
           then rows_chunk env bytes rows columns format (pi_selected_rows item)
           else exact_chunk env (source_chunk bytes columns 0 rows) rows columns format)"

definition item_written :: "convert_env \<Rightarrow> source_files \<Rightarrow> planned_item \<Rightarrow> bytes \<times> bytes \<Rightarrow> bool" where
  "item_written env files item chunk \<longleftrightarrow> payload_of env files item = Inr chunk \<or> chunk = ([], [])"

lemma emitted_nothing [simp]: "emitted i ([], []) S = S"
  by (intro ext) (simp add: emitted_def ArtifactStream.extend_def)

lemma write_item_streams:
  assumes "write_item env options files i item resource ws = Some (s, ws')" and "status_ok s"
    and "streamed env w fs ws S"
    and "pi_resource_path item \<noteq> [] \<Longrightarrow> read_file (ce_host env) (pi_resource_path item) = Inr resource"
  shows "\<exists>chunk. item_written env files item chunk \<and> streamed env w fs ws' (emitted i chunk S)"
proof -
  obtain shard source where src: "item_source files item = (shard, source)"
    by fastforce
  let ?bytes = "safetensors_data shard source" and ?f = "wp_quantization (pi_output item)"
  let ?rows = "unat (sd_shape source ! 0)" and ?columns = "unat (sd_shape source ! 1)"
  consider "pi_resource_path item \<noteq> []" | "pi_resource_path item = []" "pi_derived item = derived_draft_token_ids"
    | "pi_resource_path item = []" "pi_derived item \<noteq> derived_draft_token_ids" "?f = q_none"
    | "pi_resource_path item = []" "pi_derived item = derived_draft_head" "?f \<noteq> q_none"
    | "pi_resource_path item = []" "pi_derived item = derived_none" "?f \<noteq> q_none"
    by (cases "pi_derived item") auto
  then show ?thesis
  proof cases
    case 4
    then have loop: "write_rows_loop env i ?bytes ?rows ?columns ?f (pi_selected_rows item) (co_chunk_rows options) 0 ws = Some (s, ws')"
      using assms(1) by (simp add: write_item_def src write_quantized_rows_def)
    show ?thesis
    proof (cases "0 < length (pi_selected_rows item)")
      case True
      from write_rows_streams [OF loop assms(2,3) this]
      obtain chunk where "rows_chunk env ?bytes ?rows ?columns ?f (pi_selected_rows item) = Inr chunk"
        and st: "streamed env w fs ws' (emitted i chunk S)"
        by auto
      then have "payload_of env files item = Inr chunk"
        using 4 by (simp add: payload_of_def src)
      then show ?thesis
        using st unfolding item_written_def by blast
    next
      case False
      then have "ws' = ws"
        using loop by (simp add: write_rows_loop.simps)
      then show ?thesis
        using assms(3) by (intro exI [of _ "([], [])"]) (simp add: item_written_def)
    qed
  next
    case 5
    then have loop: "write_quantized_loop env i ?bytes ?rows ?columns ?f (co_chunk_rows options) 0 ws = Some (s, ws')"
      using assms(1) by (simp add: write_item_def src write_quantized_def)
    show ?thesis
    proof (cases "0 < ?rows")
      case True
      from write_quantized_streams [OF loop assms(2,3) this]
      obtain chunk where "exact_chunk env (source_chunk ?bytes ?columns 0 ?rows) ?rows ?columns ?f = Inr chunk"
        and st: "streamed env w fs ws' (emitted i chunk S)"
        by auto
      then have "payload_of env files item = Inr chunk"
        using 5 by (simp add: payload_of_def src)
      then show ?thesis
        using st unfolding item_written_def by blast
    next
      case False
      then have "ws' = ws"
        using loop by (simp add: write_quantized_loop.simps)
      then show ?thesis
        using assms(3) by (intro exI [of _ "([], [])"]) (simp add: item_written_def)
    qed
  qed (use assms streamed_data in \<open>fastforce simp: write_item_def src item_written_def payload_of_def\<close>)+
qed

lemma write_items_streams:
  assumes "write_items env options files i items ws = Some (s, ws')" and "status_ok s"
    and "streamed env w fs ws S" and "\<And>k j. i \<le> j \<Longrightarrow> S k j = []"
  shows "\<exists>S'. streamed env w fs ws' S' \<and> (\<forall>k j. j < i \<longrightarrow> S' k j = S k j)
    \<and> (\<forall>j < length items. item_written env files (items ! j) (S' False (i + j), S' True (i + j)))"
  using assms
proof (induction items arbitrary: i ws S)
  case (Cons item items)
  obtain resource where resource: "pi_resource_path item \<noteq> [] \<Longrightarrow> read_file (ce_host env) (pi_resource_path item) = Inr resource"
    and step: "(case write_item env options files i item resource ws of
             None \<Rightarrow> None
           | Some (s, ws) \<Rightarrow>
               if \<not> status_ok s
               then Some (Status (status_code s) (wp_name (pi_output item) @ '': '' @ status_message s), ws)
               else write_items env options files (Suc i) items ws) = Some (s, ws')"
  proof (cases "pi_resource_path item = []")
    case False
    then show ?thesis
      using Cons.prems(1,2) that
      by (cases "read_file (ce_host env) (pi_resource_path item)")
        (auto simp: read_file_def split: option.splits if_splits)
  qed (use Cons.prems(1) that in auto)
  obtain s1 ws1 where item: "write_item env options files i item resource ws = Some (s1, ws1)" "status_ok s1"
    and rest: "write_items env options files (Suc i) items ws1 = Some (s, ws')"
    using step Cons.prems(2) by (auto simp: status_ok_def split: option.splits if_splits)
  obtain a x where chunk: "item_written env files item (a, x)" "streamed env w fs ws1 (emitted i (a, x) S)"
    using write_item_streams [OF item Cons.prems(3) resource] by fastforce
  have here: "emitted i (a, x) S False i = a" "emitted i (a, x) S True i = x"
    using Cons.prems(4) by (simp_all add: emitted_def ArtifactStream.extend_def)
  have "emitted i (a, x) S k j = S k j" if "j \<noteq> i" for k j
    using that by (simp add: emitted_def ArtifactStream.extend_def)
  note away = this
  obtain S' where S': "streamed env w fs ws' S'" "\<forall>k j. j < Suc i \<longrightarrow> S' k j = emitted i (a, x) S k j"
    "\<forall>j < length items. item_written env files (items ! j) (S' False (Suc i + j), S' True (Suc i + j))"
    using Cons.IH [OF rest Cons.prems(2) chunk(2)] Cons.prems(4) away by fastforce
  have "item_written env files ((item # items) ! j) (S' False (i + j), S' True (i + j))" if "j < length (item # items)" for j
    using that S'(2,3) chunk(1) here by (cases j) auto
  moreover have "S' k j = S k j" if "j < i" for k j
    using S'(2) that away by auto
  ultimately show ?case
    using S'(1) by blast
qed auto


lemma stream_finalize_done:
  assumes "stream_finalize env impl fs = Some (s, impl', fs')" and "status_ok s"
  shows "\<exists>w. impl' = Some w \<and> si_finalized w"
  using assms by (auto simp: stream_finalize_def errno_status_def Let_def split: option.splits prod.splits if_splits)

lemma plan_stored_bytes:
  assumes "view_safe view" and "t \<in> set (av_tensors view)" and "plan_stored view data aux p t"
  shows "length data = unat (wp_data_bytes p)"
proof -
  have "descriptor_safe (length (av_mapping view)) t"
    using assms(1,2) by (simp add: view_safe_def list_all_iff)
  then have "length (artifact_data view t) = unat (td_data_bytes t)"
    by (auto simp: descriptor_safe_def placed_def artifact_data_def)
  then show ?thesis
    using assms(3) by (simp add: plan_stored_def)
qed

lemma convert_emit_stores:
  assumes emit: "convert_emit env options files identity items summary fs = Some (Inr summary', fs')"
    and names: "names_fit (map pi_output items)" and nul: "no_nul identity"
  shows "\<exists>contents view. fs' = fs(co_output_path options \<mapsto> contents)
    \<and> cs_output_file_bytes summary' = of_nat (length contents)
    \<and> artifact_open (co_output_path options) True (Mapped contents) = Inr view \<and> av_identity view = identity
    \<and> list_all2 (\<lambda>item t. \<exists>data aux. payload_of env files item = Inr (data, aux)
          \<and> plan_stored view data aux (pi_output item) t) items (av_tensors view)"
proof -
  let ?path = "co_output_path options"
  obtain w fs1 where create: "stream_create (ce_stream env) (ce_create_responses env) ?path identity (map pi_output items) fs
      = Some (Inr w, fs1)"
    using emit by (auto simp: convert_emit_def split: option.splits sum.splits)
  obtain s ws where items: "write_items env options files 0 items \<lparr> ws_impl = Some w, ws_fs = fs1, ws_appends = 0 \<rparr> = Some (s, ws)"
    and ok: "status_ok s"
    using emit by (auto simp: convert_emit_def create split: option.splits if_splits)
  obtain s2 impl fs2 where fin: "stream_finalize (ce_finalize env) (ws_impl ws) (ws_fs ws) = Some (s2, impl, fs2)"
    and ok2: "status_ok s2"
    and result: "fs' = writer_destroy env impl fs2" "summary' = summary \<lparr> cs_output_file_bytes :=
        of_nat (case fs2 ?path of None \<Rightarrow> 0 | Some contents \<Rightarrow> length contents) \<rparr>"
    using emit by (auto simp: convert_emit_def create items split: option.splits if_splits)
  have "streamed env w fs1 \<lparr> ws_impl = Some w, ws_fs = fs1, ws_appends = 0 \<rparr> no_bytes"
    unfolding streamed_def by (intro exI [of _ "[]"]) simp
  from write_items_streams [OF items ok this] obtain S where streamed: "streamed env w fs1 ws S"
    and written: "\<forall>j < length items. item_written env files (items ! j) (S False j, S True j)"
    by (auto simp: no_bytes_def)
  obtain ops where run: "stream_run (ce_ebadf env) ops (Some w, fs1, no_bytes) = Some (ws_impl ws, ws_fs ws, S)"
    using streamed by (auto simp: streamed_def)
  obtain contents view where fs2: "fs2 = fs(?path \<mapsto> contents)"
    and opened: "artifact_open ?path True (Mapped contents) = Inr view" "av_identity view = identity"
    and tensors: "length (av_tensors view) = length items"
      "\<forall>i < length items. plan_stored view (S False i) (S True i) (pi_output (items ! i)) (av_tensors view ! i)"
    using stream_round_trip [OF create run fin ok2 names nul, of True] by auto
  have "list_all plan_ok (map pi_output items)"
    using stream_create_inv(1) [OF create names nul] by (auto simp: stream_inv_def stream_shape_def)
  then have "payload_of env files (items ! i) = Inr (S False i, S True i)" if "i < length items" for i
  proof -
    have "length (S False i) = unat (wp_data_bytes (pi_output (items ! i)))"
      using tensors that by (intro plan_stored_bytes [OF artifact_open_safe(1) [OF opened(1)]]) auto
    moreover have "wp_data_bytes (pi_output (items ! i)) \<noteq> 0"
      using \<open>list_all plan_ok (map pi_output items)\<close> that by (simp add: list_all_length plan_ok_def)
    ultimately show ?thesis
      using written that by (auto simp: item_written_def unat_eq_zero)
  qed
  then have "list_all2 (\<lambda>item t. \<exists>data aux. payload_of env files item = Inr (data, aux)
          \<and> plan_stored view data aux (pi_output item) t) items (av_tensors view)"
    using tensors by (auto simp: list_all2_conv_all_nth)
  moreover have "fs' = fs2"
    using stream_finalize_done [OF fin ok2] result(1) by (auto simp: writer_destroy_def stream_destroy_def)
  ultimately show ?thesis
    using fs2 opened result(2) by auto
qed


lemma conversion_identity_no_nul: "no_nul (conversion_identity options)"
  by (simp add: conversion_identity_def no_nul_def Let_def)

text \<open>The whole conversion: what a successful run leaves behind.\<close>

lemma convert_qwen38_stores:
  assumes "convert_qwen38 env options fs = Some (Inr summary, fs')" and "\<not> co_plan_only options"
  shows "\<exists>files items planned contents view. load_source env options = Inr files
    \<and> make_plan options (ce_host env) files = Inr (items, planned)
    \<and> fs' = fs(co_output_path options \<mapsto> contents) \<and> cs_output_file_bytes summary = of_nat (length contents)
    \<and> artifact_open (co_output_path options) True (Mapped contents) = Inr view
    \<and> av_identity view = conversion_identity options
    \<and> list_all2 (\<lambda>item t. \<exists>data aux. payload_of env files item = Inr (data, aux)
          \<and> plan_stored view data aux (pi_output item) t) items (av_tensors view)"
proof -
  obtain files items planned where load: "load_source env options = Inr files"
    and plan: "make_plan options (ce_host env) files = Inr (items, planned)"
    and emit: "convert_emit env options files (conversion_identity options) items planned fs = Some (Inr summary, fs')"
    using assms by (auto simp: convert_qwen38_def split: sum.splits if_splits)
  from convert_emit_stores [OF emit make_plan_names_fit [OF plan] conversion_identity_no_nul] load plan show ?thesis
    by blast
qed


section \<open>A conversion\<close>

text \<open>One quantized tensor of 16 rows and 128 columns of zeros.\<close>

definition tensor_item :: planned_item where
  "tensor_item = \<lparr> pi_output = \<lparr> wp_name = ''t'', wp_dtype = dt_u8, wp_quantization = w2g128,
       wp_dimensions = [16, 128], wp_data_bytes = 512, wp_auxiliary_bytes = 32, wp_alignment = 256 \<rparr>,
     pi_source_name = ''t'', pi_resource_path = [], pi_derived = derived_none, pi_selected_rows = [] \<rparr>"

definition tensor_source :: safe_tensor_descriptor where
  "tensor_source = \<lparr> sd_name = ''t'', sd_dtype = src_bf16, sd_shape = [16, 128], sd_file_offset = 0, sd_bytes = 4096 \<rparr>"

definition tensor_files :: source_files where
  "tensor_files = \<lparr> sf_weight_map = [(''t'', ''s'')], sf_shard_indices = [''s'' \<mapsto> 0],
     sf_shards = [\<lparr> sf_mapping = replicate 4096 0, sf_tensors = [tensor_source] \<rparr>] \<rparr>"

definition tensor_env :: convert_env where
  "tensor_env = \<lparr> ce_json = sample_simdjson, ce_access = (\<lambda>_. Open_fails []), ce_host = blank_host, ce_float2half = (\<lambda>_. 0x3C00),
     ce_stream = sample_stream_env, ce_create_responses = replicate 3 (Accepts 4096),
     ce_append_responses = (\<lambda>_. [Accepts 4096]), ce_ebadf = ''EBADF'', ce_finalize = sample_finalize_env,
     ce_directory_error = (\<lambda>_. None), ce_space = (\<lambda>_. None), ce_stat_error = None \<rparr>"

definition tensor_options :: conversion_options where
  "tensor_options = \<lparr> co_source_directory = ''m'', co_output_path = ''a.gfxi'', co_draft_ranking_path = [],
     co_plan_only = False, co_chunk_rows = 128, co_mlp_bits = 2, co_output_head_bits = 4,
     co_w3_start_layer = 0, co_w4_tail_layers = 8 \<rparr>"

lemma tensor_item_source: "item_source tensor_files tensor_item = (sf_shards tensor_files ! 0, tensor_source)"
proof -
  have "safetensors_find (sf_shards tensor_files ! 0) ''t'' = Some tensor_source"
    by (simp add: safetensors_find_def tensor_files_def find_by_name_def lower_bound_def tensor_source_def
        lower_bound_loop.simps [of _ _ 0] Let_def)
  then show ?thesis
    by (simp add: item_source_def tensor_item_def) (simp add: tensor_files_def)
qed

lemma tensor_chunk:
  "\<exists>a x. encode_chunk tensor_env (source_chunk (safetensors_data (sf_shards tensor_files ! 0) tensor_source) 128 0 16) 16 128 w2g128
      = Some (Inr (a, x)) \<and> length a = 512 \<and> length x = 32"
proof -
  let ?v = "source_chunk (safetensors_data (sf_shards tensor_files ! 0) tensor_source) 128 0 16"
  have rep: "slice off n (replicate m x) = replicate n x" if "off + n \<le> m" for off n m and x :: u8
    using that by (simp add: slice_def)
  have zero: "safetensors_data (sf_shards tensor_files ! 0) tensor_source = replicate 4096 0"
    unfolding safetensors_data_def tensor_files_def tensor_source_def
    using rep [of 0 4096 4096 0] by (simp del: replicate.simps)
  have elem: "slice (2 * i) 2 (slice 0 4096 (replicate 4096 (0 :: u8))) = replicate 2 0" if "i < 2048" for i
  proof -
    have "slice 0 4096 (replicate 4096 (0 :: u8)) = replicate 4096 0"
      using rep [of 0 4096 4096 0] by simp
    then show ?thesis
      using rep [of "2 * i" 2 4096 0] that by simp
  qed
  have "bf16_to_float (le_word (replicate 2 0)) = Fin 0"
    by (simp add: numeral_2_eq_2 bf16_to_float_def float_of_bits_def le_word_def Let_def)
  then have vs: "?v = map (\<lambda>_. Fin 0) [0..<16 * 128]"
    unfolding zero source_chunk_def bf16_values_def by (intro map_cong) (simp_all add: elem)
  have "quantizable ?v 16 128 w2g128" "\<forall>v \<in> set ?v. fp_finite v"
    unfolding vs by (auto simp: quantizable_def packed_format_def kGroupSize_def fp_finite_def)
  then obtain p where p: "exact_quantize ?v 16 128 w2g128 = Inr p"
    using exact_quantize_cases(2) by blast
  have fits: "storage_fits (16 * 128) w2g128 128" "storage_fits 512 w2g128 128" "packed_row_bytes w2g128 128 = 32"
    by (simp_all add: storage_fits_def packed_row_bytes_exact exact_row_bytes_def)
  have p': "quantize_group128 ?v 16 128 w2g128 = Some (Inr p)"
    using quantize_group128_some [OF fits(1)] p by simp
  note q = exact_quantize_Inr [OF p]
  have "\<exists>t. tile_group128_for_gfx12 p = Some (Inr t)"
    using q(4-8) fits by (simp add: tile_group128_for_gfx12_def kGroupSize_def exact_row_bytes_def)
  then obtain t where t: "tile_group128_for_gfx12 p = Some (Inr t)"
    by blast
  note ti = exact_tile_Inr [OF tile_group128_exact [OF t]]
  have fragment: "length (tile_fragment p (tile * 16 + l) g k) = 8" if "tile < 1" "l < 16" "g < 1" "k < 4" for tile l g k
    using length_tile_fragment [OF ti(1), of "tile * 16 + l" g k] that q(4-6) by (simp add: kGroupSize_def fragment_bytes_def)
  have "length (tm_codes t) = 1 * (1 * (4 * (16 * 8)))"
    unfolding ti(6) using q(4-6) by (simp add: kGroupSize_def length_concat_const fragment del: One_nat_def)
  moreover have "length (tm_scales t) = 16"
    unfolding ti(7) using q(4-6) by (simp add: kGroupSize_def)
  ultimately show ?thesis
    using p' t by (simp add: encode_chunk_def half_bytes_def length_concat comp_def sum_list_triv)
qed

abbreviation tensor_plan :: tensor_write_plan where
  "tensor_plan \<equiv> pi_output tensor_item"

definition tensor_entry :: disk_tensor_entry where
  "tensor_entry = (make_plan_entry 0 tensor_plan)\<lparr>e_data_offset := 512, e_aux_offset := 1024\<rparr>"

definition tensor_stream :: stream_impl where
  "tensor_stream = \<lparr> si_final_path = ''a.gfxi'', si_temporary_path = temporary_path ''a.gfxi'' 7,
     si_fd_open = True, si_header = make_header sample_ids 1 1 512 1056 0,
     si_entries = [tensor_entry], si_strings = bytes_of_string ''t'',
     si_states = [\<lparr> ts_data_written = 0, ts_auxiliary_written = 0, ts_data_crc64 = 0 \<rparr>],
     si_finalized = False \<rparr>"

lemma tensor_layout:
  "stream_layout sample_identity [tensor_plan]
    = Inr (make_header sample_ids 1 1 512 1056 0, [tensor_entry], bytes_of_string ''t'')"
  by (simp add: stream_layout_def sample_identity_def tensor_item_def tensor_entry_def
      identity_fields_def set_fixed_def valid_name_def is_prefix_def char_in_def kFileAlignment_def
      Let_def make_plan_entry_def sizeof_DiskHeader_def sizeof_DiskTensorEntry_def align_up_def
      max_off_t_def sample_ids_def)

lemma tensor_entry_shape: "entry_shape tensor_entry" "entry_shape (tensor_entry\<lparr>e_data_crc64 := c\<rparr>)"
  by (simp_all add: entry_shape_def tensor_entry_def make_plan_entry_def tensor_item_def)

lemma tensor_created:
  "\<exists>fs1. stream_create sample_stream_env (replicate 3 (Accepts 4096)) ''a.gfxi'' sample_identity [tensor_plan] empty_fs
    = Some (Inr tensor_stream, fs1) \<and> fs1 (temporary_path ''a.gfxi'' 7) \<noteq> None"
proof -
  let ?h = "make_header sample_ids 1 1 512 1056 0" and ?tmp = "temporary_path ''a.gfxi'' 7"
  let ?ps = "[(encode_header ?h, 0), (concat (map encode_entry [tensor_entry]), h_directory_offset ?h),
    (bytes_of_string ''t'', h_strings_offset ?h)]"
  define fs0 where "fs0 = empty_fs(?tmp \<mapsto> replicate 1056 0)"
  have fs0: "fs0 ?tmp \<noteq> None" and free: "empty_fs ?tmp = None"
    by (simp_all add: fs0_def empty_fs_def)
  have "list_all (\<lambda>(src, off). src \<noteq> [] \<and> length src \<le> 4096 \<and> unat off \<le> max_off_t) ?ps"
    using header_codec.enc_length [OF sample_header_shape, of 1 1 512 1056 0]
      entry_codec.enc_length [OF tensor_entry_shape(1)]
    by (auto simp: sizeof_DiskHeader_def sizeof_DiskTensorEntry_def max_off_t_def make_header_def
        sample_ids_def bytes_of_string_def)
  from stream_pwrites_once [OF this, of fs0 ?tmp "[]"]
  obtain fs' where run: "stream_pwrites (replicate 3 (Accepts 4096)) ?tmp ?ps fs0 = Some (ok_status, fs', [])"
    and there: "fs' ?tmp \<noteq> None"
    by (auto simp: fs0 numeral_3_eq_3 simp del: stream_pwrites.simps)
  have "bytes_of_string ''t'' \<noteq> []"
    by (simp add: bytes_of_string_def)
  then show ?thesis
    using run there
    by (simp add: stream_create_def tensor_layout sample_stream_env_def max_u32_def
        tensor_stream_def free fs0_def [symmetric] del: stream_pwrites.simps)
qed

lemma tensor_chunk_written:
  assumes "fs (temporary_path ''a.gfxi'' 7) = Some contents" and "length a = 512" and "length x = 32"
  shows "\<exists>fs' t. write_chunk tensor_env 0 (a, x) \<lparr> ws_impl = Some tensor_stream, ws_fs = fs, ws_appends = 0 \<rparr>
      = Some (ok_status, \<lparr> ws_impl = Some (tensor_stream\<lparr>si_states := [t]\<rparr>), ws_fs = fs', ws_appends = 2 \<rparr>)
    \<and> fs' (temporary_path ''a.gfxi'' 7) \<noteq> None \<and> ts_data_written t = 512 \<and> ts_auxiliary_written t = 32"
proof -
  let ?tmp = "temporary_path ''a.gfxi'' 7"
  have e: "e_data_offset tensor_entry = 512" "e_data_bytes tensor_entry = 512" "e_aux_offset tensor_entry = 1024"
    "e_aux_bytes tensor_entry = 32"
    by (simp_all add: tensor_entry_def make_plan_entry_def tensor_item_def)
  have ax: "a \<noteq> []" "x \<noteq> []"
    using assms(2,3) by auto
  have 1: "stream_pwrite [Accepts 4096] ?tmp a 512 fs = Some (ok_status, fs(?tmp \<mapsto> pwrite_at 512 a contents), [])"
    using pwrite_all_once [of a 4096 512 "[]" contents] assms ax by (simp add: stream_pwrite_def max_off_t_def)
  let ?fs1 = "fs(?tmp \<mapsto> pwrite_at 512 a contents)"
  have 2: "stream_pwrite [Accepts 4096] ?tmp x 1024 ?fs1
      = Some (ok_status, ?fs1(?tmp \<mapsto> pwrite_at 1024 x (pwrite_at 512 a contents)), [])"
    using pwrite_all_once [of x 4096 1024 "[]" "pwrite_at 512 a contents"] assms ax by (simp add: stream_pwrite_def max_off_t_def)
  show ?thesis
    using assms(2,3) 1 2
    by (simp add: write_chunk_def writer_append_data_def writer_append_auxiliary_def append_data_def append_auxiliary_def
        tensor_env_def tensor_stream_def e Let_def del: crc64_ecma_update.simps)
qed

lemma tensor_finalized:
  assumes "fs (temporary_path ''a.gfxi'' 7) \<noteq> None" and "ts_data_written t = 512" and "ts_auxiliary_written t = 32"
  shows "\<exists>impl' fs'. stream_finalize sample_finalize_env (Some (tensor_stream\<lparr>si_states := [t]\<rparr>)) fs = Some (ok_status, impl', fs')"
proof -
  let ?manifest = "manifest_of [tensor_entry\<lparr>e_data_crc64 := ts_data_crc64 t\<rparr>] (bytes_of_string ''t'')"
  let ?h = "make_header sample_ids 1 1 512 1056 (crc64_ecma ?manifest)" and ?tmp = "temporary_path ''a.gfxi'' 7"
  have e: "e_data_bytes tensor_entry = 512" "e_aux_bytes tensor_entry = 32"
    by (simp_all add: tensor_entry_def make_plan_entry_def tensor_item_def)
  have "length ?manifest = 129"
    using entry_codec.enc_length [OF tensor_entry_shape(2)]
    by (simp add: manifest_of_def sizeof_DiskTensorEntry_def)
  then have "list_all (\<lambda>(src, off). src \<noteq> [] \<and> length src \<le> 4096 \<and> unat off \<le> max_off_t)
      [(encode_header ?h, 0 :: u64), (?manifest, of_nat sizeof_DiskHeader)]"
    using header_codec.enc_length [OF sample_header_shape, of 1 1 512 1056 "crc64_ecma ?manifest"]
    by (auto simp: sizeof_DiskHeader_def max_off_t_def)
  from stream_pwrites_once [OF this, of fs ?tmp "[]"] assms(1)
  obtain fs3 where writes: "stream_pwrites (replicate 2 (Accepts 4096)) ?tmp
      [(encode_header ?h, 0), (?manifest, of_nat sizeof_DiskHeader)] fs = Some (ok_status, fs3, [])"
    by (auto simp: numeral_2_eq_2 simp del: stream_pwrites.simps)
  then show ?thesis
    using assms(2,3)
    by (simp add: stream_finalize_def tensor_stream_def e sample_finalize_env_def Let_def
        del: stream_pwrites.simps crc64_ecma_update.simps(2))
qed

lemma tensor_converted:
  "\<exists>summary fs'. convert_emit tensor_env tensor_options tensor_files sample_identity [tensor_item] empty_summary empty_fs
    = Some (Inr summary, fs')"
proof -
  obtain fs1 contents where create: "stream_create sample_stream_env (replicate 3 (Accepts 4096)) ''a.gfxi'' sample_identity
      [tensor_plan] empty_fs = Some (Inr tensor_stream, fs1)" and there: "fs1 (temporary_path ''a.gfxi'' 7) = Some contents"
    using tensor_created by blast
  let ?shard = "sf_shards tensor_files ! 0"
  let ?ws = "\<lparr> ws_impl = Some tensor_stream, ws_fs = fs1, ws_appends = 0 \<rparr>"
  obtain a x where chunk: "encode_chunk tensor_env (source_chunk (safetensors_data ?shard tensor_source) 128 0 16) 16 128 w2g128 = Some (Inr (a, x))"
    and len: "length a = 512" "length x = 32"
    using tensor_chunk by blast
  obtain fs2 t where written: "write_chunk tensor_env 0 (a, x) ?ws
      = Some (ok_status, \<lparr> ws_impl = Some (tensor_stream\<lparr>si_states := [t]\<rparr>), ws_fs = fs2, ws_appends = 2 \<rparr>)"
    and fs2: "fs2 (temporary_path ''a.gfxi'' 7) \<noteq> None" and t: "ts_data_written t = 512" "ts_auxiliary_written t = 32"
    using tensor_chunk_written [where fs = fs1, OF there len] by blast
  let ?ws2 = "\<lparr> ws_impl = Some (tensor_stream\<lparr>si_states := [t]\<rparr>), ws_fs = fs2, ws_appends = 2 \<rparr>"
  have "write_quantized_loop tensor_env 0 (safetensors_data ?shard tensor_source) 16 128 w2g128 128 0 ?ws = Some (ok_status, ?ws2)"
    by (simp add: write_quantized_loop.simps [of _ _ _ _ _ _ _ 0] write_quantized_loop.simps [of _ _ _ _ _ _ _ 128] chunk written)
  moreover have "pi_resource_path tensor_item = []" "pi_derived tensor_item = derived_none" "wp_quantization tensor_plan = w2g128"
    "co_chunk_rows tensor_options = 128" "sd_shape tensor_source = [16, 128]" "co_output_path tensor_options = ''a.gfxi''"
    by (simp_all add: tensor_item_def tensor_options_def tensor_source_def)
  ultimately have items: "write_items tensor_env tensor_options tensor_files 0 [tensor_item] ?ws = Some (ok_status, ?ws2)"
    by (simp add: write_item_def tensor_item_source write_quantized_def)
  obtain impl fs3 where fin: "stream_finalize sample_finalize_env (ws_impl ?ws2) (ws_fs ?ws2) = Some (ok_status, impl, fs3)"
    using tensor_finalized [where fs = fs2, OF fs2 t] by auto
  have env: "ce_stream tensor_env = sample_stream_env" "ce_create_responses tensor_env = replicate 3 (Accepts 4096)"
    "ce_finalize tensor_env = sample_finalize_env" "ce_stat_error tensor_env = None"
    by (simp_all add: tensor_env_def)
  show ?thesis
    using create items fin \<open>co_output_path tensor_options = ''a.gfxi''\<close>
    by (simp add: convert_emit_def env del: write_items.simps)
qed

text \<open>
  C19. Conversion: when writing a plan reports success, the output file opens with full verification to one
  tensor per item, in order, with the planned metadata; its bytes are the resource's bytes, the source
  tensor's bytes, the token IDs, or the tiled codes and the scales of the whole quantized tensor, the
  same for every size of the chunks in which it was written. Nothing else in the file system changed.
\<close>

theorem converted_artifact_holds_tensors:
  assumes "convert_emit env options files identity items summary fs = Some (Inr summary', fs')"
    and "names_fit (map pi_output items)" and "no_nul identity"
  shows "\<exists>contents view. fs' = fs(co_output_path options \<mapsto> contents)
    \<and> cs_output_file_bytes summary' = of_nat (length contents)
    \<and> artifact_open (co_output_path options) True (Mapped contents) = Inr view \<and> av_identity view = identity
    \<and> list_all2 (\<lambda>item t. \<exists>data aux. payload_of env files item = Inr (data, aux)
          \<and> plan_stored view data aux (pi_output item) t) items (av_tensors view)"
  using assms by (rule convert_emit_stores)

lemma converted_artifact_holds_tensors_witness:
  "\<exists>contents view t data aux. artifact_open ''a.gfxi'' True (Mapped contents) = Inr view \<and> av_tensors view = [t]
    \<and> payload_of tensor_env tensor_files tensor_item = Inr (data, aux) \<and> artifact_data view t = data
    \<and> artifact_auxiliary view t = aux"
proof -
  obtain summary fs' where emit: "convert_emit tensor_env tensor_options tensor_files sample_identity [tensor_item]
      empty_summary empty_fs = Some (Inr summary, fs')"
    using tensor_converted by blast
  have "names_fit (map pi_output [tensor_item])"
    by (simp add: names_fit_def tensor_item_def length_name_table)
  from converted_artifact_holds_tensors [OF emit this sample_facts(5)]
  show ?thesis
    by (auto simp: tensor_options_def list_all2_Cons1 plan_stored_def)
qed
end
