(* ===== verification/Kernels.thy ===== *)
theory Kernels
  imports ArtifactFormat
begin

text \<open>
  The device operations declared in \<^verbatim>\<open>include/gfxinfer/lowbit_gemv.h\<close> and
  \<^verbatim>\<open>include/gfxinfer/qwen_ops.h\<close>. A call is a value: its constructor is the function, its arguments
  are those of the function without the stream, the epsilon and theta constants and the unit-offset
  flag, which every call of the runtime passes with the same value. What a call computes is a
  parameter of the model. Which elements it reads and writes in the arena of a decode session is
  defined here after the kernels in \<^verbatim>\<open>src/kernels\<close>: a strided read is covered by the interval from
  its first to its last element, a write is exact.
\<close>

section \<open>Pointers\<close>

text \<open>
  The regions of the session's arena (\<^verbatim>\<open>src/qwen_runtime.cpp\<close>). A device pointer is null, an
  element of a region, or an offset in the arena of the engine, where the weights are.
\<close>

datatype buffer =
    Hidden_A | Hidden_B | MTP_Hidden | Target_Hidden_Snapshot | Normalized | Convolved_QKV
  | GDN_Output | Query | Key | Attention_Output | Post_Attention | Post_Normalized | Activated
  | Projected_Main | Projected_Z | Projected_A | Projected_B | Projected_K | Projected_V
  | Mixer_Update | Gate_Output | Up_Output | MLP_Update | Logits | Selected_Token
  | Graph_Base_Position | Graph_MTP_Positions | Activation_Codes | Activation_Scales
  | Conv_States | GDN_States | Conv_Snapshot | GDN_Snapshot | Conv_Rollback_Log
  | GDN_Key_Log | GDN_Delta_Log | GDN_Decay_Log | Key_Caches | Value_Caches
  | MTP_Key_Cache | MTP_Value_Cache

datatype pointer = Null_Pointer | Arena buffer nat | Weight u64

fun pointer_plus :: "pointer \<Rightarrow> nat \<Rightarrow> pointer" where
  "pointer_plus (Arena b i) n = Arena b (i + n)"
| "pointer_plus (Weight a) n = Weight (a + of_nat n)"
| "pointer_plus Null_Pointer n = Null_Pointer"

section \<open>Calls\<close>

record fused_matrix =
  fm_tiled_weights :: pointer
  fm_tiled_weight_scales :: pointer
  fm_output :: pointer
  fm_rows :: nat

text \<open>Matrix products: format, weights, scales, the other pointers, then sizes.\<close>

datatype lowbit_call =
    Lowbit_Gemv quantization pointer pointer pointer pointer nat nat
  | Lowbit_Row_Gather quantization pointer pointer pointer nat nat nat
  | Lowbit_Row_Gather_Indirect quantization pointer pointer pointer pointer nat nat
  | Lowbit_Row_Gather_Tiled quantization pointer pointer pointer nat nat nat
  | Lowbit_Row_Gather_Tiled_Indirect quantization pointer pointer pointer pointer nat nat
  | Lowbit_Gemv_Batch quantization pointer pointer pointer pointer nat nat nat
  | Quantize_Activation_I4 pointer pointer pointer nat nat
  | Quantize_Activation_I8 pointer pointer pointer nat nat
  | Gfx12_I4_Gemm quantization pointer pointer pointer pointer pointer nat nat nat bool
  | Gfx12_I4_Gemm_Half quantization pointer pointer pointer pointer pointer nat nat nat bool
  | Gfx12_I4_Gemm_Fused quantization "fused_matrix list" pointer pointer nat nat bool
  | Gfx12_I8_Gemm quantization pointer pointer pointer pointer pointer nat nat nat
  | Gfx12_F16_Gemm quantization pointer pointer pointer pointer nat nat nat

text \<open>Normalization, activation and the gated delta net.\<close>

datatype state_call =
    RMS_Norm pointer pointer pointer nat
  | RMS_Norm_Batch pointer pointer pointer nat nat
  | Dual_RMS_Norm_Concat pointer pointer pointer pointer pointer nat
  | SiLU_Multiply pointer pointer pointer nat
  | SiLU_Multiply_Quantize_I4 pointer pointer pointer pointer nat nat
  | Residual_Add pointer pointer pointer nat
  | Residual_Add_RMS_Norm_Batch pointer pointer pointer pointer pointer nat nat
  | GDN_Conv_Update pointer pointer pointer pointer
  | GDN_Conv_Update_Block pointer pointer pointer pointer pointer pointer nat nat
  | GDN_Recurrent_Decode pointer pointer pointer pointer pointer pointer pointer pointer pointer
  | GDN_Recurrent_Decode_Block pointer pointer pointer pointer pointer pointer pointer pointer pointer
      pointer pointer pointer pointer nat
  | GDN_Restore_Prefix_All pointer pointer pointer pointer pointer pointer nat nat nat nat

text \<open>Attention and the choice of tokens. The position comes before the batch.\<close>

datatype attention_call =
    QK_RMS_Norm_RoPE_Block pointer pointer pointer nat nat pointer pointer pointer nat nat nat nat nat nat
  | QK_RMS_Norm_RoPE_Block_Indirect pointer pointer pointer nat nat pointer pointer pointer nat nat nat nat pointer nat
  | KV_Append pointer pointer pointer pointer nat nat
  | KV_Append_Block pointer pointer pointer pointer nat nat nat
  | KV_Append_Block_Indirect pointer pointer pointer pointer pointer nat nat
  | Gated_Attention_Decode pointer pointer pointer pointer pointer nat nat
  | Gated_Attention_Decode_Block pointer pointer pointer pointer pointer nat nat nat
  | Gated_Attention_Decode_Block_Indirect pointer pointer pointer pointer pointer pointer nat nat
  | Argmax pointer pointer nat
  | Argmax_Batch pointer pointer nat nat nat
  | Argmax_Mapped pointer pointer pointer nat
  | Float_To_Half pointer pointer nat

datatype kernel = Lowbit lowbit_call | State_Op state_call | Attention_Op attention_call

text \<open>
  The launches of a function, in order: the function returns at the first launch that fails, or at
  a status of its own.
\<close>

datatype command = Launch kernel | Refuse status

type_synonym program = "command list"

section \<open>Elements read and written\<close>

type_synonym region = "pointer \<times> nat"
type_synonym cells = "(buffer \<times> nat) set"

fun region_cells :: "region \<Rightarrow> cells" where
  "region_cells (Arena b i, n) = {b} \<times> {i..<i + n}"
| "region_cells (_, n) = {}"

text \<open>The sizes of the gated delta net and of attention that the kernels fix.\<close>

definition gdn_channels :: nat where "gdn_channels = 10240"
definition gdn_value_elements :: nat where "gdn_value_elements = 6144"
definition gdn_key_elements :: nat where "gdn_key_elements = 2048"
definition gdn_value_heads :: nat where "gdn_value_heads = 48"
definition gdn_state_elements :: nat where "gdn_state_elements = 48 * 128 * 128"
definition kv_elements :: nat where "kv_elements = 4 * 256"
definition query_elements :: nat where "query_elements = 24 * 256"

fun lowbit_reads :: "lowbit_call \<Rightarrow> region list" where
  "lowbit_reads (Lowbit_Gemv q w s i out rows columns) = [(i, columns)]"
| "lowbit_reads (Lowbit_Row_Gather q w s out row rows columns) = []"
| "lowbit_reads (Lowbit_Row_Gather_Indirect q w s out row rows columns) = [(row, 1)]"
| "lowbit_reads (Lowbit_Row_Gather_Tiled q w s out row rows columns) = []"
| "lowbit_reads (Lowbit_Row_Gather_Tiled_Indirect q w s out row rows columns) = [(row, 1)]"
| "lowbit_reads (Lowbit_Gemv_Batch q w s i out rows columns batch) = [(i, batch * columns)]"
| "lowbit_reads (Quantize_Activation_I4 i codes scales columns batch) = [(i, batch * columns)]"
| "lowbit_reads (Quantize_Activation_I8 i codes scales columns batch) = [(i, batch * columns)]"
| "lowbit_reads (Gfx12_I4_Gemm q w s codes scales out rows columns batch sequential) =
     [(codes, batch * (columns div 2)), (scales, batch * (columns div 128))]"
| "lowbit_reads (Gfx12_I4_Gemm_Half q w s codes scales out rows columns batch sequential) =
     [(codes, batch * (columns div 2)), (scales, batch * (columns div 128))]"
| "lowbit_reads (Gfx12_I4_Gemm_Fused q ms codes scales columns batch sequential) =
     [(codes, batch * (columns div 2)), (scales, batch * (columns div 128))]"
| "lowbit_reads (Gfx12_I8_Gemm q w s codes scales out rows columns batch) =
     [(codes, batch * columns), (scales, batch * (columns div 128))]"
| "lowbit_reads (Gfx12_F16_Gemm q w s i out rows columns batch) = [(i, batch * columns)]"

fun lowbit_writes :: "lowbit_call \<Rightarrow> region list" where
  "lowbit_writes (Lowbit_Gemv q w s i out rows columns) = [(out, rows)]"
| "lowbit_writes (Lowbit_Row_Gather q w s out row rows columns) = [(out, columns)]"
| "lowbit_writes (Lowbit_Row_Gather_Indirect q w s out row rows columns) = [(out, columns)]"
| "lowbit_writes (Lowbit_Row_Gather_Tiled q w s out row rows columns) = [(out, columns)]"
| "lowbit_writes (Lowbit_Row_Gather_Tiled_Indirect q w s out row rows columns) = [(out, columns)]"
| "lowbit_writes (Lowbit_Gemv_Batch q w s i out rows columns batch) = [(out, batch * rows)]"
| "lowbit_writes (Quantize_Activation_I4 i codes scales columns batch) =
     [(codes, batch * (columns div 2)), (scales, batch * (columns div 128))]"
| "lowbit_writes (Quantize_Activation_I8 i codes scales columns batch) =
     [(codes, batch * columns), (scales, batch * (columns div 128))]"
| "lowbit_writes (Gfx12_I4_Gemm q w s codes scales out rows columns batch sequential) = [(out, batch * rows)]"
| "lowbit_writes (Gfx12_I4_Gemm_Half q w s codes scales out rows columns batch sequential) = [(out, batch * rows)]"
| "lowbit_writes (Gfx12_I4_Gemm_Fused q ms codes scales columns batch sequential) =
     map (\<lambda>m. (fm_output m, batch * fm_rows m)) ms"
| "lowbit_writes (Gfx12_I8_Gemm q w s codes scales out rows columns batch) = [(out, batch * rows)]"
| "lowbit_writes (Gfx12_F16_Gemm q w s i out rows columns batch) = [(out, batch * rows)]"

fun state_reads :: "state_call \<Rightarrow> region list" where
  "state_reads (RMS_Norm i w out n) = [(i, n)]"
| "state_reads (RMS_Norm_Batch i w out n batch) = [(i, batch * n)]"
| "state_reads (Dual_RMS_Norm_Concat left lw right rw out n) = [(left, n), (right, n)]"
| "state_reads (SiLU_Multiply gate up out n) = [(gate, n), (up, n)]"
| "state_reads (SiLU_Multiply_Quantize_I4 gate up codes scales n batch) = [(gate, batch * n), (up, batch * n)]"
| "state_reads (Residual_Add residual update out n) = [(residual, n), (update, n)]"
| "state_reads (Residual_Add_RMS_Norm_Batch residual update out w norm n batch) =
     [(residual, batch * n), (update, batch * n)]"
| "state_reads (GDN_Conv_Update qkv w state out) = [(qkv, gdn_channels), (state, gdn_channels * 4)]"
| "state_reads (GDN_Conv_Update_Block qkv w initial final out log channels batch) =
     [(qkv, batch * channels), (initial, channels * 4)]"
| "state_reads (GDN_Recurrent_Decode qkv z a b alog dt norm state out) =
     [(qkv, gdn_channels), (z, gdn_value_elements), (a, gdn_value_heads), (b, gdn_value_heads),
      (state, gdn_state_elements)]"
| "state_reads (GDN_Recurrent_Decode_Block qkv z a b alog dt norm initial final out keys deltas decays batch) =
     [(qkv, batch * gdn_channels), (z, batch * gdn_value_elements), (a, batch * gdn_value_heads),
      (b, batch * gdn_value_heads), (initial, gdn_state_elements)]"
| "state_reads (GDN_Restore_Prefix_All conv recurrent log keys deltas decays channels layers maximum accepted) =
     [(conv, layers * (channels * 4)), (recurrent, layers * gdn_state_elements)]
     @ concat (map (\<lambda>l.
         [(pointer_plus log (l * (maximum * channels)), accepted * channels),
          (pointer_plus keys (l * (maximum * gdn_key_elements)), accepted * gdn_key_elements),
          (pointer_plus deltas (l * (maximum * gdn_value_elements)), accepted * gdn_value_elements),
          (pointer_plus decays (l * (maximum * gdn_value_heads)), accepted * gdn_value_heads)]) [0..<layers])"

fun state_writes :: "state_call \<Rightarrow> region list" where
  "state_writes (RMS_Norm i w out n) = [(out, n)]"
| "state_writes (RMS_Norm_Batch i w out n batch) = [(out, batch * n)]"
| "state_writes (Dual_RMS_Norm_Concat left lw right rw out n) = [(out, 2 * n)]"
| "state_writes (SiLU_Multiply gate up out n) = [(out, n)]"
| "state_writes (SiLU_Multiply_Quantize_I4 gate up codes scales n batch) =
     [(codes, batch * (n div 2)), (scales, batch * (n div 128))]"
| "state_writes (Residual_Add residual update out n) = [(out, n)]"
| "state_writes (Residual_Add_RMS_Norm_Batch residual update out w norm n batch) =
     [(out, batch * n), (norm, batch * n)]"
| "state_writes (GDN_Conv_Update qkv w state out) = [(state, gdn_channels * 4), (out, gdn_channels)]"
| "state_writes (GDN_Conv_Update_Block qkv w initial final out log channels batch) =
     [(final, channels * 4), (out, batch * channels), (log, batch * channels)]"
| "state_writes (GDN_Recurrent_Decode qkv z a b alog dt norm state out) =
     [(state, gdn_state_elements), (out, gdn_value_elements)]"
| "state_writes (GDN_Recurrent_Decode_Block qkv z a b alog dt norm initial final out keys deltas decays batch) =
     [(final, gdn_state_elements), (out, batch * gdn_value_elements), (keys, batch * gdn_key_elements),
      (deltas, batch * gdn_value_elements), (decays, batch * gdn_value_heads)]"
| "state_writes (GDN_Restore_Prefix_All conv recurrent log keys deltas decays channels layers maximum accepted) =
     [(conv, layers * (channels * 4)), (recurrent, layers * gdn_state_elements)]"

text \<open>\<open>held\<close> gives the position that a device pointer holds when the call runs.\<close>

fun attention_reads :: "(pointer \<Rightarrow> nat) \<Rightarrow> attention_call \<Rightarrow> region list" where
  "attention_reads held (QK_RMS_Norm_RoPE_Block qi qw qo qh qs ki kw ko kh ks head rotary base batch) =
     [(qi, batch * (qh * qs)), (ki, batch * (kh * ks))]"
| "attention_reads held (QK_RMS_Norm_RoPE_Block_Indirect qi qw qo qh qs ki kw ko kh ks head rotary base batch) =
     [(qi, batch * (qh * qs)), (ki, batch * (kh * ks)), (base, 1)]"
| "attention_reads held (KV_Append key v kc vc position capacity) = [(key, kv_elements), (v, kv_elements)]"
| "attention_reads held (KV_Append_Block key v kc vc base capacity batch) =
     [(key, batch * kv_elements), (v, batch * kv_elements)]"
| "attention_reads held (KV_Append_Block_Indirect key v kc vc base capacity batch) =
     [(key, batch * kv_elements), (v, batch * kv_elements), (base, 1)]"
| "attention_reads held (Gated_Attention_Decode q gate kc vc out token_count capacity) =
     [(q, query_elements), (gate, query_elements * 2),
      (kc, token_count * kv_elements), (vc, token_count * kv_elements)]"
| "attention_reads held (Gated_Attention_Decode_Block q gate kc vc out base_count capacity batch) =
     [(q, batch * query_elements), (gate, batch * (query_elements * 2)),
      (kc, (base_count + batch - 1) * kv_elements), (vc, (base_count + batch - 1) * kv_elements)]"
| "attention_reads held (Gated_Attention_Decode_Block_Indirect q gate kc vc out base capacity batch) =
     [(q, batch * query_elements), (gate, batch * (query_elements * 2)), (base, 1),
      (kc, (held base + batch) * kv_elements), (vc, (held base + batch) * kv_elements)]"
| "attention_reads held (Argmax logits token n) = [(logits, n)]"
| "attention_reads held (Argmax_Batch logits tokens n stride batch) = [(logits, (batch - 1) * stride + n)]"
| "attention_reads held (Argmax_Mapped logits ids token n) = [(logits, n), (ids, n)]"
| "attention_reads held (Float_To_Half i out n) = [(i, n)]"

fun attention_writes :: "(pointer \<Rightarrow> nat) \<Rightarrow> attention_call \<Rightarrow> region list" where
  "attention_writes held (QK_RMS_Norm_RoPE_Block qi qw qo qh qs ki kw ko kh ks head rotary base batch) =
     [(qo, batch * (qh * head)), (ko, batch * (kh * head))]"
| "attention_writes held (QK_RMS_Norm_RoPE_Block_Indirect qi qw qo qh qs ki kw ko kh ks head rotary base batch) =
     [(qo, batch * (qh * head)), (ko, batch * (kh * head))]"
| "attention_writes held (KV_Append key v kc vc position capacity) =
     [(pointer_plus kc (position * kv_elements), kv_elements), (pointer_plus vc (position * kv_elements), kv_elements)]"
| "attention_writes held (KV_Append_Block key v kc vc base capacity batch) =
     [(pointer_plus kc (base * kv_elements), batch * kv_elements), (pointer_plus vc (base * kv_elements), batch * kv_elements)]"
| "attention_writes held (KV_Append_Block_Indirect key v kc vc base capacity batch) =
     [(pointer_plus kc (held base * kv_elements), batch * kv_elements),
      (pointer_plus vc (held base * kv_elements), batch * kv_elements)]"
| "attention_writes held (Gated_Attention_Decode q gate kc vc out token_count capacity) = [(out, query_elements)]"
| "attention_writes held (Gated_Attention_Decode_Block q gate kc vc out base_count capacity batch) =
     [(out, batch * query_elements)]"
| "attention_writes held (Gated_Attention_Decode_Block_Indirect q gate kc vc out base capacity batch) =
     [(out, batch * query_elements)]"
| "attention_writes held (Argmax logits token n) = [(token, 1)]"
| "attention_writes held (Argmax_Batch logits tokens n stride batch) = [(tokens, batch)]"
| "attention_writes held (Argmax_Mapped logits ids token n) = [(token, 1)]"
| "attention_writes held (Float_To_Half i out n) = [(out, n)]"

fun kernel_reads :: "(pointer \<Rightarrow> nat) \<Rightarrow> kernel \<Rightarrow> region list" where
  "kernel_reads held (Lowbit c) = lowbit_reads c"
| "kernel_reads held (State_Op c) = state_reads c"
| "kernel_reads held (Attention_Op c) = attention_reads held c"

fun kernel_writes :: "(pointer \<Rightarrow> nat) \<Rightarrow> kernel \<Rightarrow> region list" where
  "kernel_writes held (Lowbit c) = lowbit_writes c"
| "kernel_writes held (State_Op c) = state_writes c"
| "kernel_writes held (Attention_Op c) = attention_writes held c"

definition cells_of :: "region list \<Rightarrow> cells" where
  "cells_of rs = (\<Union>r \<in> set rs. region_cells r)"

definition region_within :: "(buffer \<Rightarrow> nat) \<Rightarrow> region \<Rightarrow> bool" where
  "region_within elements r \<longleftrightarrow> (case r of (Arena b i, n) \<Rightarrow> i + n \<le> elements b | _ \<Rightarrow> True)"

text \<open>
  A program is safe from a set of initialized cells when no call reads a cell that has not been
  written before it, no call leaves a region, and the cells after it satisfy \<open>K\<close>. The definition
  computes the weakest precondition of \<open>K\<close>.
\<close>

fun program_safe :: "(buffer \<Rightarrow> nat) \<Rightarrow> (pointer \<Rightarrow> nat) \<Rightarrow> program \<Rightarrow> (cells \<Rightarrow> bool) \<Rightarrow> cells \<Rightarrow> bool" where
  "program_safe elements held [] K A \<longleftrightarrow> K A"
| "program_safe elements held (Refuse s # p) K A \<longleftrightarrow> \<not> status_ok s"
| "program_safe elements held (Launch k # p) K A \<longleftrightarrow>
     cells_of (kernel_reads held k) \<subseteq> A
     \<and> list_all (region_within elements) (kernel_reads held k @ kernel_writes held k)
     \<and> program_safe elements held p K (A \<union> cells_of (kernel_writes held k))"

lemma program_safe_append:
  "program_safe elements held (p @ q) K A \<longleftrightarrow> program_safe elements held p (program_safe elements held q K) A"
proof (induction p arbitrary: A)
  case (Cons c p)
  then show ?case
    by (cases c) auto
qed simp

lemma program_safe_weaken:
  "program_safe elements held p K A \<Longrightarrow> (\<And>A'. A \<subseteq> A' \<Longrightarrow> K A' \<Longrightarrow> K' A') \<Longrightarrow> program_safe elements held p K' A"
proof (induction p arbitrary: A)
  case (Cons c p)
  show ?case
  proof (cases c)
    case (Launch k)
    have "program_safe elements held p K' (A \<union> cells_of (kernel_writes held k))"
      by (rule Cons.IH) (use Cons.prems Launch in auto)
    then show ?thesis
      using Cons.prems(1) by (simp add: Launch)
  qed (use Cons.prems in simp)
qed simp

section \<open>Initialized regions\<close>

text \<open>\<open>n\<close> elements from a pointer on are initialized; null and weight pointers are outside.\<close>

definition has :: "cells \<Rightarrow> pointer \<Rightarrow> nat \<Rightarrow> bool" where
  "has A p n \<longleftrightarrow> region_cells (p, n) \<subseteq> A"

definition within :: "(buffer \<Rightarrow> nat) \<Rightarrow> pointer \<Rightarrow> nat \<Rightarrow> bool" where
  "within elements p n \<longleftrightarrow> region_within elements (p, n)"

lemma has_outside [simp]: "has A Null_Pointer n" "has A (Weight w) n"
  by (simp_all add: has_def)

lemma within_simps [simp]:
  "within elements Null_Pointer n" "within elements (Weight w) n"
  "within elements (Arena b i) n \<longleftrightarrow> i + n \<le> elements b"
  by (simp_all add: within_def region_within_def)

lemma has_mono: "has A p n \<Longrightarrow> A \<subseteq> A' \<Longrightarrow> has A' p n"
  by (auto simp: has_def)

lemma has_part: "has A (Arena b i) n \<Longrightarrow> i \<le> j \<Longrightarrow> j + m \<le> i + n \<Longrightarrow> has A (Arena b j) m"
  by (auto simp: has_def)

lemma has_less: "has A p n \<Longrightarrow> m \<le> n \<Longrightarrow> has A p m"
  by (cases p) (auto simp: has_def)

lemma cells_of_simps [simp]:
  "cells_of [] = {}" "cells_of (r # rs) = region_cells r \<union> cells_of rs"
  by (auto simp: cells_of_def)

lemma cells_of_subset: "cells_of rs \<subseteq> A \<longleftrightarrow> list_all (\<lambda>(p, n). has A p n) rs"
  by (auto simp: cells_of_def has_def list_all_iff)

lemma has_cells_of: "(p, n) \<in> set rs \<Longrightarrow> has (A \<union> cells_of rs) p n"
  by (auto simp: has_def cells_of_def)

text \<open>One launch: it needs its reads, stays inside, and gives its writes.\<close>

lemma launch_safe:
  assumes "list_all (\<lambda>(p, n). has A p n \<and> within elements p n) (kernel_reads held k)"
    and "list_all (\<lambda>(p, n). within elements p n) (kernel_writes held k)"
    and "\<And>A'. A \<subseteq> A' \<Longrightarrow> list_all (\<lambda>(p, n). has A' p n) (kernel_writes held k) \<Longrightarrow> program_safe elements held p K A'"
  shows "program_safe elements held (Launch k # p) K A"
proof -
  have "list_all (\<lambda>(p, n). has (A \<union> cells_of (kernel_writes held k)) p n) (kernel_writes held k)"
    by (auto simp: list_all_iff intro: has_cells_of)
  then have "program_safe elements held p K (A \<union> cells_of (kernel_writes held k))"
    by (rule assms(3) [OF Un_upper1])
  moreover have "cells_of (kernel_reads held k) \<subseteq> A"
    using assms(1) by (auto simp: cells_of_subset list_all_iff)
  moreover have "list_all (region_within elements) (kernel_reads held k @ kernel_writes held k)"
    using assms(1,2) by (auto simp: within_def list_all_iff)
  ultimately show ?thesis
    by simp
qed

end
