(* ===== verification/Runtime.thy ===== *)
theory Runtime
  imports Engine Qwen38Spec Kernels
begin

text \<open>
  \<^verbatim>\<open>include/gfxinfer/qwen_runtime.h\<close> and the \<open>Impl\<close> of \<^verbatim>\<open>src/qwen_runtime.cpp\<close>: the state of
  a decode session and the launches of its steps. Nothing on the host depends on what a launch
  computes, so a function that launches is modelled by its program, the sequence of its launches;
  a launch that fails ends it.
\<close>

section \<open>State\<close>

datatype activation_mode = fp16 | int8 | int4 | int4_w2 | int4_w4

record decode_session_config =
  dc_maximum_context_tokens :: nat
  dc_activation_mode :: activation_mode
  dc_graph_verifier_batch :: nat

record decode_session_summary =
  dss_arena_bytes :: nat
  dss_maximum_context_tokens :: nat
  dss_gdn_state_bytes :: nat
  dss_kv_cache_bytes :: nat
  dss_mtp_cache_bytes :: nat

record layer_bindings =
  lb_attention :: bool
  lb_state_index :: nat
  lb_input_norm :: "device_tensor_view option"
  lb_post_norm :: "device_tensor_view option"
  lb_mlp_gate :: "device_tensor_view option"
  lb_mlp_up :: "device_tensor_view option"
  lb_mlp_down :: "device_tensor_view option"
  lb_qkv :: "device_tensor_view option"
  lb_z :: "device_tensor_view option"
  lb_a :: "device_tensor_view option"
  lb_b :: "device_tensor_view option"
  lb_convolution :: "device_tensor_view option"
  lb_a_log :: "device_tensor_view option"
  lb_dt_bias :: "device_tensor_view option"
  lb_gdn_norm :: "device_tensor_view option"
  lb_q :: "device_tensor_view option"
  lb_k :: "device_tensor_view option"
  lb_v :: "device_tensor_view option"
  lb_q_norm :: "device_tensor_view option"
  lb_k_norm :: "device_tensor_view option"
  lb_out :: "device_tensor_view option"

text \<open>
  The pointers that never change are the buffers themselves; the four state buffers are swapped in
  pairs and are fields, as is the pointer to the hidden state of the last target token.
  A captured graph is the list of the launches it replays.
\<close>

record session =
  ss_config :: decode_session_config
  ss_summary :: decode_session_summary
  ss_current_position :: nat
  ss_mtp_position :: nat
  ss_mtp_chain_active :: bool
  ss_record_rollback :: bool
  ss_tiled_weights :: bool
  ss_sequential_w3 :: bool
  ss_gdn_state_parity :: bool
  ss_layers :: "layer_bindings list"
  ss_graphs :: "bool \<Rightarrow> kernel list option"
  ss_mtp_layer :: layer_bindings
  ss_embedding :: device_tensor_view
  ss_final_norm :: device_tensor_view
  ss_lm_head :: device_tensor_view
  ss_mtp_draft_head :: device_tensor_view
  ss_mtp_draft_token_ids :: "device_tensor_view option"
  ss_mtp_fc :: "device_tensor_view option"
  ss_mtp_pre_embedding_norm :: "device_tensor_view option"
  ss_mtp_pre_hidden_norm :: "device_tensor_view option"
  ss_mtp_final_norm :: "device_tensor_view option"
  ss_last_hidden :: pointer
  ss_conv_states :: buffer
  ss_gdn_states :: buffer
  ss_conv_snapshot :: buffer
  ss_gdn_snapshot :: buffer

definition kGdnLayerCount :: nat where "kGdnLayerCount = 48"
definition kAttentionLayerCount :: nat where "kAttentionLayerCount = 16"
definition kHidden :: nat where "kHidden = hidden_size"
definition kIntermediate :: nat where "kIntermediate = 17408"
definition kConvStateElements :: nat where "kConvStateElements = gdn_channels * 4"
definition kMaximumBlock :: nat where "kMaximumBlock = 32"
definition kMtpDraftVocabulary :: nat where "kMtpDraftVocabulary = 98304"
definition kRotarySize :: nat where "kRotarySize = 64"

abbreviation draft_token :: "nat \<Rightarrow> pointer" where
  "draft_token i \<equiv> Arena Selected_Token (kMaximumBlock + i)"

definition graph_seed_token :: pointer where
  "graph_seed_token = draft_token (kMaximumBlock - 1)"

section \<open>Matrix products\<close>

definition tensor_rows :: "device_tensor_view \<Rightarrow> nat" where
  "tensor_rows t = unat (dv_dimensions t ! 0)"

definition tensor_columns :: "device_tensor_view \<Rightarrow> nat" where
  "tensor_columns t = unat (dv_dimensions t ! 1)"

definition weights_of :: "device_tensor_view \<Rightarrow> pointer" where
  "weights_of t = Weight (dv_data t)"

definition scales_of :: "device_tensor_view \<Rightarrow> pointer" where
  "scales_of t = (case dv_auxiliary t of None \<Rightarrow> Null_Pointer | Some a \<Rightarrow> Weight a)"

definition norm_of :: "device_tensor_view option \<Rightarrow> pointer" where
  "norm_of t = weights_of (the t)"

definition wants_i4 :: "activation_mode \<Rightarrow> quantization \<Rightarrow> bool" where
  "wants_i4 mode format \<longleftrightarrow>
     mode = int4 \<or> mode = int4_w2 \<and> format = w2g128 \<or> mode = int4_w4 \<and> format = w4g128"

definition uses_i4 :: "session \<Rightarrow> device_tensor_view option \<Rightarrow> bool" where
  "uses_i4 s t = (case t of None \<Rightarrow> False | Some t \<Rightarrow> wants_i4 (dc_activation_mode (ss_config s)) (dv_quantization t))"

definition quantize_i4 :: "pointer \<Rightarrow> nat \<Rightarrow> nat \<Rightarrow> program" where
  "quantize_i4 i columns batch =
     [Launch (Lowbit (Quantize_Activation_I4 i (Arena Activation_Codes 0) (Arena Activation_Scales 0) columns batch))]"

definition quantize_i8 :: "pointer \<Rightarrow> nat \<Rightarrow> nat \<Rightarrow> program" where
  "quantize_i8 i columns batch =
     [Launch (Lowbit (Quantize_Activation_I8 i (Arena Activation_Codes 0) (Arena Activation_Scales 0) columns batch))]"

text \<open>
  The test \<open>tensor->data == nullptr\<close> of the source is not written out: \<^term>\<open>dv_data\<close> is an offset in the
  arena of the weights, whose address \<open>Engine::create\<close> only uses when it is not null, so that the
  pointer that it stands for is never null. The \<open>auxiliary\<close> pointer of a view may be null, and is an option.
\<close>

definition launch_matrix ::
  "session \<Rightarrow> device_tensor_view option \<Rightarrow> pointer \<Rightarrow> pointer \<Rightarrow> nat \<Rightarrow> bool \<Rightarrow> program" where
  "launch_matrix s tensor i out batch prepare_activation =
     (let refusal = [Refuse (Status invalid_argument ''runtime matrix binding is invalid'')];
          codes = Arena Activation_Codes 0; activation_scales = Arena Activation_Scales 0;
          mode = dc_activation_mode (ss_config s)
      in case tensor of
           None \<Rightarrow> refusal
         | Some t \<Rightarrow>
             if dv_rank t \<noteq> 2 \<or> dv_auxiliary t = None then refusal
             else
               let format = dv_quantization t; rows = tensor_rows t; columns = tensor_columns t;
                   w = weights_of t; scales = scales_of t
               in if \<not> ss_tiled_weights s then
                    if batch > 1
                    then [Launch (Lowbit (Lowbit_Gemv_Batch format w scales i out rows columns batch))]
                    else [Launch (Lowbit (Lowbit_Gemv format w scales i out rows columns))]
                  else if wants_i4 mode format then
                    (if prepare_activation then quantize_i4 i columns batch else [])
                    @ [Launch (Lowbit (Gfx12_I4_Gemm format w scales codes activation_scales out
                        rows columns batch (ss_sequential_w3 s)))]
                  else if mode = int8 then
                    (if prepare_activation then quantize_i8 i columns batch else [])
                    @ [Launch (Lowbit (Gfx12_I8_Gemm format w scales codes activation_scales out rows columns batch))]
                  else [Launch (Lowbit (Gfx12_F16_Gemm format w scales i out rows columns batch))])"

definition compatible_matrices :: "device_tensor_view option list \<Rightarrow> bool" where
  "compatible_matrices tensors =
     list_all (\<lambda>t. case t of None \<Rightarrow> False
       | Some t \<Rightarrow> dv_rank t = 2 \<and> dv_quantization t = dv_quantization (the (hd tensors))
           \<and> dv_dimensions t ! 1 = dv_dimensions (the (hd tensors)) ! 1) tensors"

definition fused_binding :: "device_tensor_view option \<times> pointer \<Rightarrow> fused_matrix" where
  "fused_binding b =
     \<lparr> fm_tiled_weights = weights_of (the (fst b)), fm_tiled_weight_scales = scales_of (the (fst b)),
       fm_output = snd b, fm_rows = tensor_rows (the (fst b)) \<rparr>"

definition launch_matrices ::
  "session \<Rightarrow> device_tensor_view option list \<Rightarrow> pointer list \<Rightarrow> pointer \<Rightarrow> nat \<Rightarrow> program" where
  "launch_matrices s tensors outputs i batch =
     (if length tensors \<noteq> length outputs \<or> tensors = []
      then [Refuse (Status invalid_argument ''fused matrix list is invalid'')]
      else
        let format = dv_quantization (the (hd tensors)); columns = tensor_columns (the (hd tensors));
            compatible = compatible_matrices tensors
        in if ss_tiled_weights s \<and> compatible \<and> uses_i4 s (hd tensors)
             \<and> length tensors \<ge> 2 \<and> length tensors \<le> 4
           then quantize_i4 i columns batch
             @ [Launch (Lowbit (Gfx12_I4_Gemm_Fused format (map fused_binding (zip tensors outputs))
                 (Arena Activation_Codes 0) (Arena Activation_Scales 0) columns batch (ss_sequential_w3 s)))]
           else concat (map (\<lambda>index. launch_matrix s (tensors ! index) i (outputs ! index) batch
                  (index = 0 \<or> \<not> compatible)) [0..<length tensors]))"

definition launch_mlp_down :: "session \<Rightarrow> device_tensor_view option \<Rightarrow> nat \<Rightarrow> program" where
  "launch_mlp_down s down batch =
     (if uses_i4 s down
      then [Launch (State_Op (SiLU_Multiply_Quantize_I4 (Arena Gate_Output 0) (Arena Up_Output 0)
              (Arena Activation_Codes 0) (Arena Activation_Scales 0) kIntermediate batch))]
        @ launch_matrix s down (Arena Activated 0) (Arena MLP_Update 0) batch False
      else [Launch (State_Op (SiLU_Multiply (Arena Gate_Output 0) (Arena Up_Output 0) (Arena Activated 0)
              (batch * kIntermediate)))]
        @ launch_matrix s down (Arena Activated 0) (Arena MLP_Update 0) batch True)"

section \<open>Layers\<close>

text \<open>The row of the embedding of a token that the host knows, or that the device holds.\<close>

datatype token_source = Direct nat | Indirect pointer

definition gather_row :: "session \<Rightarrow> pointer \<Rightarrow> token_source \<Rightarrow> program" where
  "gather_row s out token =
     (let e = ss_embedding s; format = dv_quantization e; w = weights_of e; scales = scales_of e;
          rows = tensor_rows e
      in [Launch (Lowbit (case token of
            Indirect p \<Rightarrow>
              if ss_tiled_weights s
              then Lowbit_Row_Gather_Tiled_Indirect format w scales out p rows kHidden
              else Lowbit_Row_Gather_Indirect format w scales out p rows kHidden
          | Direct t \<Rightarrow>
              if ss_tiled_weights s
              then Lowbit_Row_Gather_Tiled format w scales out t rows kHidden
              else Lowbit_Row_Gather format w scales out t rows kHidden))])"

definition cache_offset :: "session \<Rightarrow> layer_bindings \<Rightarrow> nat" where
  "cache_offset s layer = lb_state_index layer * (dc_maximum_context_tokens (ss_config s) * kv_elements)"

definition residual_norm :: "pointer \<Rightarrow> pointer \<Rightarrow> pointer \<Rightarrow> pointer \<Rightarrow> pointer \<Rightarrow> nat \<Rightarrow> program" where
  "residual_norm residual update out w norm batch =
     [Launch (State_Op (Residual_Add_RMS_Norm_Batch residual update out w norm kHidden batch))]"

definition launch_mlp :: "session \<Rightarrow> layer_bindings \<Rightarrow> pointer \<Rightarrow> pointer \<Rightarrow> pointer \<Rightarrow> nat \<Rightarrow> program" where
  "launch_mlp s layer i out next_norm_weight batch =
     residual_norm i (Arena Mixer_Update 0) (Arena Post_Attention 0) (norm_of (lb_post_norm layer))
       (Arena Post_Normalized 0) batch
     @ launch_matrices s [lb_mlp_gate layer, lb_mlp_up layer] [Arena Gate_Output 0, Arena Up_Output 0]
         (Arena Post_Normalized 0) batch
     @ launch_mlp_down s (lb_mlp_down layer) batch
     @ residual_norm (Arena Post_Attention 0) (Arena MLP_Update 0) out next_norm_weight (Arena Normalized 0) batch"

definition project_qkv :: "session \<Rightarrow> layer_bindings \<Rightarrow> nat \<Rightarrow> program" where
  "project_qkv s layer batch =
     launch_matrices s [lb_q layer, lb_k layer, lb_v layer]
       [Arena Projected_Main 0, Arena Projected_K 0, Arena Projected_V 0] (Arena Normalized 0) batch"

definition project_gdn :: "session \<Rightarrow> layer_bindings \<Rightarrow> nat \<Rightarrow> program" where
  "project_gdn s layer batch =
     launch_matrices s [lb_qkv layer, lb_z layer, lb_a layer, lb_b layer]
       [Arena Projected_Main 0, Arena Projected_Z 0, Arena Projected_A 0, Arena Projected_B 0]
       (Arena Normalized 0) batch"

definition rope :: "layer_bindings \<Rightarrow> nat \<Rightarrow> nat \<Rightarrow> kernel" where
  "rope layer position batch =
     Attention_Op (QK_RMS_Norm_RoPE_Block (Arena Projected_Main 0) (norm_of (lb_q_norm layer)) (Arena Query 0) 24 512
       (Arena Projected_K 0) (norm_of (lb_k_norm layer)) (Arena Key 0) 4 256 256 kRotarySize position batch)"

definition rope_indirect :: "layer_bindings \<Rightarrow> pointer \<Rightarrow> nat \<Rightarrow> kernel" where
  "rope_indirect layer position batch =
     Attention_Op (QK_RMS_Norm_RoPE_Block_Indirect (Arena Projected_Main 0) (norm_of (lb_q_norm layer)) (Arena Query 0) 24 512
       (Arena Projected_K 0) (norm_of (lb_k_norm layer)) (Arena Key 0) 4 256 256 kRotarySize position batch)"

definition launch_layer :: "session \<Rightarrow> layer_bindings \<Rightarrow> pointer \<Rightarrow> pointer \<Rightarrow> pointer \<Rightarrow> program" where
  "launch_layer s layer i out next_norm_weight =
     (if lb_attention layer then
        let capacity = dc_maximum_context_tokens (ss_config s); position = ss_current_position s;
            key_cache = Arena Key_Caches (cache_offset s layer);
            value_cache = Arena Value_Caches (cache_offset s layer)
        in project_qkv s layer 1
           @ [Launch (rope layer position 1),
              Launch (Attention_Op (KV_Append (Arena Key 0) (Arena Projected_V 0) key_cache value_cache position capacity)),
              Launch (Attention_Op (Gated_Attention_Decode (Arena Query 0) (Arena Projected_Main 0) key_cache value_cache
                (Arena Attention_Output 0) (position + 1) capacity))]
           @ launch_matrix s (lb_out layer) (Arena Attention_Output 0) (Arena Mixer_Update 0) 1 True
      else
        project_gdn s layer 1
        @ [Launch (State_Op (GDN_Conv_Update (Arena Projected_Main 0) (norm_of (lb_convolution layer))
             (Arena (ss_conv_states s) (lb_state_index layer * kConvStateElements)) (Arena Convolved_QKV 0))),
           Launch (State_Op (GDN_Recurrent_Decode (Arena Convolved_QKV 0) (Arena Projected_Z 0) (Arena Projected_A 0)
             (Arena Projected_B 0) (norm_of (lb_a_log layer)) (norm_of (lb_dt_bias layer)) (norm_of (lb_gdn_norm layer))
             (Arena (ss_gdn_states s) (lb_state_index layer * gdn_state_elements)) (Arena GDN_Output 0)))]
        @ launch_matrix s (lb_out layer) (Arena GDN_Output 0) (Arena Mixer_Update 0) 1 True)
     @ launch_mlp s layer i out next_norm_weight 1"

text \<open>
  A block of tokens. Without a device position the calls take the position of the session; with
  one they read it on the device. While a rollback is recorded the final states go to the snapshot
  buffers and the appended values to the logs.
\<close>

definition attention_block ::
  "session \<Rightarrow> layer_bindings \<Rightarrow> nat \<Rightarrow> pointer option \<Rightarrow> program" where
  "attention_block s layer batch device_base_position =
     (let capacity = dc_maximum_context_tokens (ss_config s); position = ss_current_position s;
          key_cache = Arena Key_Caches (cache_offset s layer);
          value_cache = Arena Value_Caches (cache_offset s layer)
      in case device_base_position of
           None \<Rightarrow>
             [Launch (rope layer position batch),
              Launch (Attention_Op (KV_Append_Block (Arena Key 0) (Arena Projected_V 0) key_cache value_cache
                position capacity batch)),
              Launch (Attention_Op (Gated_Attention_Decode_Block (Arena Query 0) (Arena Projected_Main 0)
                key_cache value_cache (Arena Attention_Output 0) (position + 1) capacity batch))]
         | Some base \<Rightarrow>
             [Launch (rope_indirect layer base batch),
              Launch (Attention_Op (KV_Append_Block_Indirect (Arena Key 0) (Arena Projected_V 0) key_cache value_cache
                base capacity batch)),
              Launch (Attention_Op (Gated_Attention_Decode_Block_Indirect (Arena Query 0) (Arena Projected_Main 0)
                key_cache value_cache (Arena Attention_Output 0) base capacity batch))])"

definition gdn_block :: "session \<Rightarrow> layer_bindings \<Rightarrow> nat \<Rightarrow> program" where
  "gdn_block s layer batch =
     (let index = lb_state_index layer; record_rollback = ss_record_rollback s;
          conv_state = Arena (ss_conv_states s) (index * kConvStateElements);
          recurrent_state = Arena (ss_gdn_states s) (index * gdn_state_elements);
          final_conv_state = (if record_rollback then Arena (ss_conv_snapshot s) (index * kConvStateElements) else conv_state);
          final_recurrent_state =
            (if record_rollback then Arena (ss_gdn_snapshot s) (index * gdn_state_elements) else recurrent_state);
          conv_log = (if record_rollback then Arena Conv_Rollback_Log (index * (kMaximumBlock * gdn_channels)) else Null_Pointer);
          key_log = (if record_rollback then Arena GDN_Key_Log (index * (kMaximumBlock * gdn_key_elements)) else Null_Pointer);
          delta_log = (if record_rollback then Arena GDN_Delta_Log (index * (kMaximumBlock * gdn_value_elements)) else Null_Pointer);
          decay_log = (if record_rollback then Arena GDN_Decay_Log (index * (kMaximumBlock * gdn_value_heads)) else Null_Pointer)
      in [Launch (State_Op (GDN_Conv_Update_Block (Arena Projected_Main 0) (norm_of (lb_convolution layer))
            conv_state final_conv_state (Arena Convolved_QKV 0) conv_log gdn_channels batch)),
          Launch (State_Op (GDN_Recurrent_Decode_Block (Arena Convolved_QKV 0) (Arena Projected_Z 0) (Arena Projected_A 0)
            (Arena Projected_B 0) (norm_of (lb_a_log layer)) (norm_of (lb_dt_bias layer)) (norm_of (lb_gdn_norm layer))
            recurrent_state final_recurrent_state (Arena GDN_Output 0) key_log delta_log decay_log batch))])"

definition launch_layer_block ::
  "session \<Rightarrow> nat \<Rightarrow> pointer option \<Rightarrow> layer_bindings \<Rightarrow> pointer \<Rightarrow> pointer \<Rightarrow> pointer \<Rightarrow> program" where
  "launch_layer_block s batch device_base_position layer i out next_norm_weight =
     (if lb_attention layer
      then project_qkv s layer batch @ attention_block s layer batch device_base_position
        @ launch_matrix s (lb_out layer) (Arena Attention_Output 0) (Arena Mixer_Update 0) batch True
      else project_gdn s layer batch @ gdn_block s layer batch
        @ launch_matrix s (lb_out layer) (Arena GDN_Output 0) (Arena Mixer_Update 0) batch True)
     @ launch_mlp s layer i out next_norm_weight batch"

section \<open>Steps\<close>

text \<open>The loop over the layers, which swaps the two hidden buffers after every layer.\<close>

definition next_norm :: "session \<Rightarrow> layer_bindings list \<Rightarrow> pointer" where
  "next_norm s rest = (case rest of [] \<Rightarrow> weights_of (ss_final_norm s) | l # ls \<Rightarrow> norm_of (lb_input_norm l))"

fun run_layers ::
  "session \<Rightarrow> (layer_bindings \<Rightarrow> pointer \<Rightarrow> pointer \<Rightarrow> pointer \<Rightarrow> program) \<Rightarrow> layer_bindings list
    \<Rightarrow> pointer \<Rightarrow> pointer \<Rightarrow> program \<times> pointer" where
  "run_layers s step [] current other = ([], current)"
| "run_layers s step (l # ls) current other =
     (let (rest, last) = run_layers s step ls other current
      in (step l current other (next_norm s ls) @ rest, last))"

definition greedy_layers :: "session \<Rightarrow> nat \<Rightarrow> program \<times> pointer" where
  "greedy_layers s input_token =
     (let (layers, current) = run_layers s (launch_layer s) (ss_layers s) (Arena Hidden_A 0) (Arena Hidden_B 0)
      in (gather_row s (Arena Hidden_A 0) (Direct input_token)
          @ [Launch (State_Op (RMS_Norm (Arena Hidden_A 0) (norm_of (lb_input_norm (hd (ss_layers s))))
              (Arena Normalized 0) kHidden))]
          @ layers,
          current))"

definition greedy_head :: "session \<Rightarrow> program" where
  "greedy_head s =
     launch_matrix s (Some (ss_lm_head s)) (Arena Normalized 0) (Arena Logits 0) 1 True
     @ [Launch (Attention_Op (Argmax (Arena Logits 0) (Arena Selected_Token 0) tokenizer_vocabulary_size))]"

definition block_layers :: "session \<Rightarrow> nat \<Rightarrow> pointer option \<Rightarrow> program \<times> pointer" where
  "block_layers s batch device_base_position =
     (let (layers, current) = run_layers s (launch_layer_block s batch device_base_position) (ss_layers s)
        (Arena Hidden_A 0) (Arena Hidden_B 0)
      in ([Launch (State_Op (RMS_Norm_Batch (Arena Hidden_A 0) (norm_of (lb_input_norm (hd (ss_layers s))))
              (Arena Normalized 0) kHidden batch))]
          @ layers,
          current))"

definition block_head :: "session \<Rightarrow> nat \<Rightarrow> program" where
  "block_head s batch =
     launch_matrix s (Some (ss_lm_head s)) (Arena Normalized 0) (Arena Logits 0) batch True
     @ [Launch (Attention_Op (Argmax_Batch (Arena Logits 0) (Arena Selected_Token 0)
         tokenizer_vocabulary_size vocabulary_size batch))]"

definition gather_tokens :: "session \<Rightarrow> nat list \<Rightarrow> program" where
  "gather_tokens s input_tokens =
     concat (map (\<lambda>token. gather_row s (Arena Hidden_A (token * kHidden)) (Direct (input_tokens ! token)))
       [0..<length input_tokens])"

definition enqueue_verifier_body ::
  "session \<Rightarrow> token_source \<Rightarrow> nat \<Rightarrow> pointer option \<Rightarrow> program" where
  "enqueue_verifier_body s seed_token draft_count device_base_position =
     gather_row s (Arena Hidden_A 0) seed_token
     @ concat (map (\<lambda>index. gather_row s (Arena Hidden_A ((index + 1) * kHidden)) (Indirect (draft_token index)))
         [0..<draft_count])
     @ fst (block_layers s (draft_count + 1) device_base_position)
     @ block_head s (draft_count + 1)"

definition launch_mtp_proposal ::
  "session \<Rightarrow> token_source \<Rightarrow> pointer \<Rightarrow> nat \<Rightarrow> pointer option \<Rightarrow> pointer option \<Rightarrow> program" where
  "launch_mtp_proposal s token conditioning_hidden position output_token device_position =
     (if conditioning_hidden = Null_Pointer
      then [Refuse (Status invalid_argument ''invalid MTP proposal buffers'')]
      else
        let layer = ss_mtp_layer s; capacity = dc_maximum_context_tokens (ss_config s);
            fc = ss_mtp_fc s
        in gather_row s (Arena Hidden_B 0) token
         @ [Launch (State_Op (Dual_RMS_Norm_Concat (Arena Hidden_B 0) (norm_of (ss_mtp_pre_embedding_norm s))
              conditioning_hidden (norm_of (ss_mtp_pre_hidden_norm s)) (Arena Convolved_QKV 0) kHidden))]
         @ (if ss_tiled_weights s \<and> uses_i4 s fc
            then quantize_i4 (Arena Convolved_QKV 0) (tensor_columns (the fc)) 1
              @ [Launch (Lowbit (Gfx12_I4_Gemm_Half (dv_quantization (the fc)) (weights_of (the fc)) (scales_of (the fc))
                  (Arena Activation_Codes 0) (Arena Activation_Scales 0) (Arena GDN_Output 0)
                  (tensor_rows (the fc)) (tensor_columns (the fc)) 1 (ss_sequential_w3 s)))]
            else launch_matrix s fc (Arena Convolved_QKV 0) (Arena Projected_Main 0) 1 True
              @ [Launch (Attention_Op (Float_To_Half (Arena Projected_Main 0) (Arena GDN_Output 0) kHidden))])
         @ [Launch (State_Op (RMS_Norm (Arena GDN_Output 0) (norm_of (lb_input_norm layer)) (Arena Normalized 0) kHidden))]
         @ project_qkv s layer 1
         @ (case device_position of
              None \<Rightarrow>
                [Launch (rope layer position 1),
                 Launch (Attention_Op (KV_Append (Arena Key 0) (Arena Projected_V 0) (Arena MTP_Key_Cache 0)
                   (Arena MTP_Value_Cache 0) position capacity))]
            | Some p \<Rightarrow>
                [Launch (rope_indirect layer p 1),
                 Launch (Attention_Op (KV_Append_Block_Indirect (Arena Key 0) (Arena Projected_V 0) (Arena MTP_Key_Cache 0)
                   (Arena MTP_Value_Cache 0) p capacity 1))])
         @ (case output_token of
              None \<Rightarrow> []
            | Some token_out \<Rightarrow>
                (case device_position of
                   None \<Rightarrow> [Launch (Attention_Op (Gated_Attention_Decode (Arena Query 0) (Arena Projected_Main 0)
                     (Arena MTP_Key_Cache 0) (Arena MTP_Value_Cache 0) (Arena Attention_Output 0) (position + 1) capacity))]
                 | Some p \<Rightarrow> [Launch (Attention_Op (Gated_Attention_Decode_Block_Indirect (Arena Query 0) (Arena Projected_Main 0)
                     (Arena MTP_Key_Cache 0) (Arena MTP_Value_Cache 0) (Arena Attention_Output 0) p capacity 1))])
                @ launch_matrix s (lb_out layer) (Arena Attention_Output 0) (Arena Mixer_Update 0) 1 True
                @ residual_norm (Arena GDN_Output 0) (Arena Mixer_Update 0) (Arena Post_Attention 0)
                    (norm_of (lb_post_norm layer)) (Arena Post_Normalized 0) 1
                @ launch_matrices s [lb_mlp_gate layer, lb_mlp_up layer] [Arena Gate_Output 0, Arena Up_Output 0]
                    (Arena Post_Normalized 0) 1
                @ launch_mlp_down s (lb_mlp_down layer) 1
                @ residual_norm (Arena Post_Attention 0) (Arena MLP_Update 0) (Arena MTP_Hidden 0)
                    (norm_of (ss_mtp_final_norm s)) (Arena Normalized 0) 1
                @ launch_matrix s (Some (ss_mtp_draft_head s)) (Arena Normalized 0) (Arena Logits 0) 1 True
                @ (case ss_mtp_draft_token_ids s of
                     Some ids \<Rightarrow> [Launch (Attention_Op (Argmax_Mapped (Arena Logits 0) (weights_of ids) token_out kMtpDraftVocabulary))]
                   | None \<Rightarrow> [Launch (Attention_Op (Argmax (Arena Logits 0) token_out kMtpDraftVocabulary))])))"

text \<open>The proposal chain and the verifier of a speculative step, launched one by one.\<close>

definition proposal_chain :: "session \<Rightarrow> nat \<Rightarrow> nat \<Rightarrow> nat \<Rightarrow> program" where
  "proposal_chain s seed_token base_mtp_position draft_count =
     concat (map (\<lambda>index. launch_mtp_proposal s
         (if index = 0 then Direct seed_token else Indirect (draft_token (index - 1)))
         (if index = 0 then Arena Target_Hidden_Snapshot 0 else Arena MTP_Hidden 0)
         (base_mtp_position + index) (Some (draft_token index)) None) [0..<draft_count])"

definition launch_speculative_verifier :: "session \<Rightarrow> nat \<Rightarrow> nat \<Rightarrow> program" where
  "launch_speculative_verifier s seed_token draft_count =
     (if draft_count = 0 \<or> draft_count + 1 > kMaximumBlock
      then [Refuse (Status invalid_argument ''invalid speculative verifier inputs'')]
      else enqueue_verifier_body s (Direct seed_token) draft_count None)"

section \<open>Graphs\<close>

text \<open>
  The same step with the seed token and the positions on the device, captured once for every
  assignment of the state buffers.
\<close>

definition swap_states :: "session \<Rightarrow> session" where
  "swap_states s = s\<lparr> ss_conv_states := ss_conv_snapshot s, ss_conv_snapshot := ss_conv_states s,
     ss_gdn_states := ss_gdn_snapshot s, ss_gdn_snapshot := ss_gdn_states s \<rparr>"

definition graph_program :: "session \<Rightarrow> nat \<Rightarrow> program" where
  "graph_program s draft_count =
     concat (map (\<lambda>index. launch_mtp_proposal s
         (Indirect (if index = 0 then graph_seed_token else draft_token (index - 1)))
         (if index = 0 then Arena Target_Hidden_Snapshot 0 else Arena MTP_Hidden 0)
         0 (Some (draft_token index)) (Some (Arena Graph_MTP_Positions index))) [0..<draft_count])
     @ enqueue_verifier_body s (Indirect graph_seed_token) draft_count (Some (Arena Graph_Base_Position 0))"

text \<open>The answers of the HIP runtime during capture: for a launch, its status.\<close>

record capture_runtime =
  cr_hip :: hip_runtime
  cr_begin :: "bool \<Rightarrow> hip_code"
  cr_launch :: "kernel \<Rightarrow> status"
  cr_end :: "bool \<Rightarrow> hip_code"
  cr_instantiate :: "bool \<Rightarrow> hip_code"

fun capture :: "capture_runtime \<Rightarrow> program \<Rightarrow> status \<times> kernel list" where
  "capture rt [] = (ok_status, [])"
| "capture rt (Refuse s # p) = (s, [])"
| "capture rt (Launch k # p) =
     (if \<not> status_ok (cr_launch rt k) then (cr_launch rt k, [])
      else let (s, ks) = capture rt p in (s, k # ks))"

definition captured_graph :: "capture_runtime \<Rightarrow> session \<Rightarrow> bool \<Rightarrow> kernel list result" where
  "captured_graph rt s parity =
     (let hip = cr_hip rt; error = cr_begin rt parity in
      if error \<noteq> hip_success
      then Inl (hip_status hip error ''speculative graph capture start failed'')
      else
        let (status, graph) = capture rt (graph_program s (dc_graph_verifier_batch (ss_config s) - 1));
            end_error = cr_end rt parity
        in if \<not> status_ok status then Inl status
           else if end_error \<noteq> hip_success
           then Inl (hip_status hip end_error ''speculative graph capture end failed'')
           else if cr_instantiate rt parity \<noteq> hip_success
           then Inl (hip_status hip (cr_instantiate rt parity) ''speculative graph instantiation failed'')
           else Inr graph)"

text \<open>Every exit swaps the buffers back and ends the recording, so only the graphs change.\<close>

definition prepare_speculative_graphs :: "capture_runtime \<Rightarrow> session \<Rightarrow> session result" where
  "prepare_speculative_graphs rt s =
     (if dc_graph_verifier_batch (ss_config s) = 0 then Inr s
      else
        let recording = s\<lparr>ss_record_rollback := True\<rparr> in
        result_bind (captured_graph rt recording False) (\<lambda>even.
        result_bind (captured_graph rt (swap_states recording) True) (\<lambda>odd.
          Inr (s\<lparr>ss_graphs := (\<lambda>parity. Some (if parity then odd else even)), ss_record_rollback := False\<rparr>))))"

end
