(* ===== verification/SessionCreate.thy ===== *)
theory SessionCreate
  imports Runtime
begin

text \<open>
  \<open>QwenDecodeSession::create\<close> of \<^verbatim>\<open>src/qwen_runtime.cpp\<close>: the configuration check, the bindings
  of the weights by name, the layout of the session's arena, its allocation and initialization, and
  the capture of the graphs. The answers of the HIP runtime are arguments.
\<close>

section \<open>The code\<close>

definition kMaximumContextTokens :: nat where "kMaximumContextTokens = 262144"

definition check_session_config :: "engine \<Rightarrow> decode_session_config \<Rightarrow> unit result" where
  "check_session_config en config =
     (if dc_maximum_context_tokens config = 0 \<or> dc_maximum_context_tokens config > kMaximumContextTokens
        \<or> (dc_graph_verifier_batch config \<noteq> 0 \<and>
            (dc_graph_verifier_batch config < 2 \<or> dc_graph_verifier_batch config > kMaximumBlock))
        \<or> \<not> en_stream en
      then Err invalid_argument ''invalid decode session configuration'' else Inr ())"

definition recipe_contains :: "engine \<Rightarrow> string \<Rightarrow> bool" where
  "recipe_contains en needle \<longleftrightarrow> find_sub needle (recipe_id (ls_identity (en_summary en))) \<noteq> None"

subsection \<open>Bindings\<close>

text \<open>The first \<open>kMtpDraftVocabulary\<close> rows of a head.\<close>

definition head_prefix :: "device_tensor_view \<Rightarrow> device_tensor_view" where
  "head_prefix t = t
     \<lparr> dv_dimensions := (dv_dimensions t)[0 := of_nat kMtpDraftVocabulary],
       dv_data_bytes := dv_data_bytes t * of_nat kMtpDraftVocabulary div dv_dimensions t ! 0,
       dv_auxiliary_bytes := dv_auxiliary_bytes t * of_nat kMtpDraftVocabulary div dv_dimensions t ! 0 \<rparr>"

definition valid_ranked_head :: "device_tensor_view \<Rightarrow> device_tensor_view \<Rightarrow> bool" where
  "valid_ranked_head head ids \<longleftrightarrow>
     dv_rank head = 2 \<and> tensor_rows head \<ge> kMtpDraftVocabulary \<and> tensor_columns head = kHidden
     \<and> dv_rank ids = 1 \<and> dv_dimensions ids ! 0 = dv_dimensions head ! 0
     \<and> dv_dtype ids = dt_i32 \<and> dv_quantization ids = q_none"

definition bind_draft_head ::
  "engine \<Rightarrow> device_tensor_view \<Rightarrow> (device_tensor_view \<times> device_tensor_view option) result" where
  "bind_draft_head en lm_head =
     (case (find_device_tensor en ''mtp.draft_head.weight'', find_device_tensor en ''mtp.draft_head_token_ids'') of
        (None, None) \<Rightarrow> Inr (head_prefix lm_head\<lparr>dv_name := ''lm_head.weight[mtp-prefix]''\<rparr>, None)
      | (Some head, Some ids) \<Rightarrow>
          if valid_ranked_head head ids then Inr (head_prefix head, Some ids)
          else Err corrupt_artifact ''ranked MTP head or token-ID map has an invalid schema''
      | _ \<Rightarrow> Err corrupt_artifact ''ranked MTP head and token-ID map must be present together'')"

text \<open>A layer's bindings; a kind of layer leaves the fields of the other kind null.\<close>

definition unbound_layer :: layer_bindings where
  "unbound_layer =
     \<lparr> lb_attention = False, lb_state_index = 0, lb_input_norm = None, lb_post_norm = None, lb_mlp_gate = None,
       lb_mlp_up = None, lb_mlp_down = None, lb_qkv = None, lb_z = None, lb_a = None, lb_b = None,
       lb_convolution = None, lb_a_log = None, lb_dt_bias = None, lb_gdn_norm = None, lb_q = None, lb_k = None,
       lb_v = None, lb_q_norm = None, lb_k_norm = None, lb_out = None \<rparr>"

definition bind_attention :: "(string \<Rightarrow> device_tensor_view option) \<Rightarrow> layer_bindings \<Rightarrow> layer_bindings" where
  "bind_attention lookup layer = layer
     \<lparr> lb_q := lookup ''self_attn.q_proj.weight'', lb_k := lookup ''self_attn.k_proj.weight'',
       lb_v := lookup ''self_attn.v_proj.weight'', lb_q_norm := lookup ''self_attn.q_norm.weight'',
       lb_k_norm := lookup ''self_attn.k_norm.weight'', lb_out := lookup ''self_attn.o_proj.weight'' \<rparr>"

definition bind_gdn :: "(string \<Rightarrow> device_tensor_view option) \<Rightarrow> layer_bindings \<Rightarrow> layer_bindings" where
  "bind_gdn lookup layer = layer
     \<lparr> lb_qkv := lookup ''linear_attn.in_proj_qkv.weight'', lb_z := lookup ''linear_attn.in_proj_z.weight'',
       lb_a := lookup ''linear_attn.in_proj_a.weight'', lb_b := lookup ''linear_attn.in_proj_b.weight'',
       lb_convolution := lookup ''linear_attn.conv1d.weight'', lb_a_log := lookup ''linear_attn.A_log'',
       lb_dt_bias := lookup ''linear_attn.dt_bias'', lb_gdn_norm := lookup ''linear_attn.norm.weight'',
       lb_out := lookup ''linear_attn.out_proj.weight'' \<rparr>"

definition bind_common :: "(string \<Rightarrow> device_tensor_view option) \<Rightarrow> layer_bindings \<Rightarrow> layer_bindings" where
  "bind_common lookup layer = layer
     \<lparr> lb_input_norm := lookup ''input_layernorm.weight'', lb_post_norm := lookup ''post_attention_layernorm.weight'',
       lb_mlp_gate := lookup ''mlp.gate_proj.weight'', lb_mlp_up := lookup ''mlp.up_proj.weight'',
       lb_mlp_down := lookup ''mlp.down_proj.weight'' \<rparr>"

definition layer_bound :: "layer_bindings \<Rightarrow> bool" where
  "layer_bound layer \<longleftrightarrow>
     list_all (\<lambda>t. t \<noteq> None)
       ([lb_input_norm layer, lb_post_norm layer, lb_mlp_gate layer, lb_mlp_up layer, lb_mlp_down layer, lb_out layer]
        @ (if lb_attention layer
           then [lb_q layer, lb_k layer, lb_v layer, lb_q_norm layer, lb_k_norm layer]
           else [lb_qkv layer, lb_z layer, lb_a layer, lb_b layer, lb_convolution layer, lb_a_log layer,
                 lb_dt_bias layer, lb_gdn_norm layer]))"

text \<open>The accumulator is the layers so far and the next index of each kind.\<close>

definition bind_layer ::
  "engine \<Rightarrow> layer_bindings list \<times> nat \<times> nat \<Rightarrow> nat \<Rightarrow> (layer_bindings list \<times> nat \<times> nat) result" where
  "bind_layer en acc index =
     (case acc of (layers, gdn_index, attention_index) \<Rightarrow>
        let lookup = (\<lambda>suffix. find_device_tensor en (layer_prefix index @ suffix));
            attention = is_full_attention index;
            layer = bind_common lookup (unbound_layer
              \<lparr> lb_attention := attention, lb_state_index := (if attention then attention_index else gdn_index) \<rparr>);
            layer = (if attention then bind_attention lookup layer else bind_gdn lookup layer)
        in if \<not> layer_bound layer
           then Err corrupt_artifact (''artifact lacks a required tensor for decoder layer '' @ to_string index)
           else Inr (layers @ [layer],
             if attention then gdn_index else gdn_index + 1,
             if attention then attention_index + 1 else attention_index))"

definition bind_layers :: "engine \<Rightarrow> layer_bindings list result" where
  "bind_layers en =
     result_bind (result_foldl (bind_layer en) ([], 0, 0) [0..<layer_count]) (\<lambda>(layers, gdn_index, attention_index).
       if gdn_index \<noteq> kGdnLayerCount \<or> attention_index \<noteq> kAttentionLayerCount
       then Err internal ''decoder layer topology is inconsistent'' else Inr layers)"

definition mtp_lookup :: "engine \<Rightarrow> string \<Rightarrow> device_tensor_view option" where
  "mtp_lookup en suffix = find_device_tensor en (''mtp.'' @ suffix)"

definition bind_mtp_layer :: "engine \<Rightarrow> layer_bindings" where
  "bind_mtp_layer en =
     bind_attention (\<lambda>suffix. mtp_lookup en (''layers.0.'' @ suffix))
       (bind_common (\<lambda>suffix. mtp_lookup en (''layers.0.'' @ suffix)) (unbound_layer\<lparr>lb_attention := True\<rparr>))"

definition mtp_bound :: "engine \<Rightarrow> bool" where
  "mtp_bound en \<longleftrightarrow>
     mtp_lookup en ''fc.weight'' \<noteq> None \<and> mtp_lookup en ''pre_fc_norm_embedding.weight'' \<noteq> None
     \<and> mtp_lookup en ''pre_fc_norm_hidden.weight'' \<noteq> None \<and> mtp_lookup en ''norm.weight'' \<noteq> None
     \<and> layer_bound (bind_mtp_layer en)"

definition bind_session :: "engine \<Rightarrow> decode_session_config \<Rightarrow> session result" where
  "bind_session en config =
     (case (find_device_tensor en ''model.language_model.embed_tokens.weight'',
            find_device_tensor en ''model.language_model.norm.weight'',
            find_device_tensor en ''lm_head.weight'') of
        (Some embedding, Some final_norm, Some lm_head) \<Rightarrow>
          if dv_rank lm_head \<noteq> 2 \<or> tensor_rows lm_head < kMtpDraftVocabulary
          then Err corrupt_artifact ''artifact LM head is too small for the MTP shortlist''
          else
            result_bind (bind_draft_head en lm_head) (\<lambda>(draft_head, draft_token_ids).
            result_bind (bind_layers en) (\<lambda>layers.
              if \<not> mtp_bound en then Err corrupt_artifact ''artifact lacks a required MTP tensor''
              else Inr
                \<lparr> ss_config = config,
                  ss_summary = \<lparr> dss_arena_bytes = 0, dss_maximum_context_tokens = 0, dss_gdn_state_bytes = 0,
                    dss_kv_cache_bytes = 0, dss_mtp_cache_bytes = 0 \<rparr>,
                  ss_current_position = 0, ss_mtp_position = 0, ss_mtp_chain_active = False,
                  ss_record_rollback = False, ss_tiled_weights = recipe_contains en ''tiled-v'',
                  ss_sequential_w3 = recipe_contains en ''w3seq'', ss_gdn_state_parity = False,
                  ss_layers = layers, ss_graphs = (\<lambda>parity. None), ss_mtp_layer = bind_mtp_layer en,
                  ss_embedding = embedding, ss_final_norm = final_norm, ss_lm_head = lm_head,
                  ss_mtp_draft_head = draft_head, ss_mtp_draft_token_ids = draft_token_ids,
                  ss_mtp_fc = mtp_lookup en ''fc.weight'',
                  ss_mtp_pre_embedding_norm = mtp_lookup en ''pre_fc_norm_embedding.weight'',
                  ss_mtp_pre_hidden_norm = mtp_lookup en ''pre_fc_norm_hidden.weight'',
                  ss_mtp_final_norm = mtp_lookup en ''norm.weight'',
                  ss_last_hidden = Null_Pointer, ss_conv_states = Conv_States, ss_gdn_states = GDN_States,
                  ss_conv_snapshot = Conv_Snapshot, ss_gdn_snapshot = GDN_Snapshot \<rparr>))
      | _ \<Rightarrow> Err corrupt_artifact ''artifact lacks embedding, final norm, or LM head'')"

subsection \<open>Layout\<close>

text \<open>The reservations in the order of the code, in bytes; \<open>n\<close> is the context in tokens.\<close>

definition conv_bytes :: nat where "conv_bytes = kGdnLayerCount * kConvStateElements * 2"
definition gdn_bytes :: nat where "gdn_bytes = kGdnLayerCount * gdn_state_elements * 4"
definition per_cache_bytes :: "nat \<Rightarrow> nat" where "per_cache_bytes n = kAttentionLayerCount * n * kv_elements * 2"
definition mtp_per_cache_bytes :: "nat \<Rightarrow> nat" where "mtp_per_cache_bytes n = n * kv_elements * 2"

definition session_reservations :: "nat \<Rightarrow> (buffer \<times> nat) list" where
  "session_reservations n = [
     (Hidden_A, kMaximumBlock * kHidden * 2),
     (Hidden_B, kMaximumBlock * kHidden * 2),
     (MTP_Hidden, kHidden * 2),
     (Target_Hidden_Snapshot, kHidden * 2),
     (Normalized, kMaximumBlock * kHidden * 2),
     (Convolved_QKV, kMaximumBlock * gdn_channels * 2),
     (GDN_Output, kMaximumBlock * gdn_value_elements * 2),
     (Query, kMaximumBlock * query_elements * 2),
     (Key, kMaximumBlock * kv_elements * 2),
     (Attention_Output, kMaximumBlock * query_elements * 2),
     (Post_Attention, kMaximumBlock * kHidden * 2),
     (Post_Normalized, kMaximumBlock * kHidden * 2),
     (Activated, kMaximumBlock * kIntermediate * 2),
     (Projected_Main, kMaximumBlock * (query_elements * 2) * 4),
     (Projected_Z, kMaximumBlock * gdn_value_elements * 4),
     (Projected_A, kMaximumBlock * gdn_value_heads * 4),
     (Projected_B, kMaximumBlock * gdn_value_heads * 4),
     (Projected_K, kMaximumBlock * kv_elements * 4),
     (Projected_V, kMaximumBlock * kv_elements * 4),
     (Mixer_Update, kMaximumBlock * kHidden * 4),
     (Gate_Output, kMaximumBlock * kIntermediate * 4),
     (Up_Output, kMaximumBlock * kIntermediate * 4),
     (MLP_Update, kMaximumBlock * kHidden * 4),
     (Logits, kMaximumBlock * vocabulary_size * 4),
     (Selected_Token, 2 * kMaximumBlock * 4),
     (Graph_Base_Position, 8),
     (Graph_MTP_Positions, kMaximumBlock * 8),
     (Activation_Codes, kMaximumBlock * kIntermediate),
     (Activation_Scales, kMaximumBlock * (kIntermediate div 128) * 2),
     (Conv_States, conv_bytes), (GDN_States, gdn_bytes),
     (Conv_Snapshot, conv_bytes), (GDN_Snapshot, gdn_bytes),
     (Conv_Rollback_Log, kGdnLayerCount * kMaximumBlock * gdn_channels * 2),
     (GDN_Key_Log, kGdnLayerCount * kMaximumBlock * gdn_key_elements * 4),
     (GDN_Delta_Log, kGdnLayerCount * kMaximumBlock * gdn_value_elements * 4),
     (GDN_Decay_Log, kGdnLayerCount * kMaximumBlock * gdn_value_heads * 4),
     (Key_Caches, per_cache_bytes n), (Value_Caches, per_cache_bytes n),
     (MTP_Key_Cache, mtp_per_cache_bytes n), (MTP_Value_Cache, mtp_per_cache_bytes n)]"

text \<open>\<open>reserve\<close>: the offset and the new cursor, or overflow of \<open>size_t\<close>.\<close>

definition reserve :: "nat \<Rightarrow> nat \<Rightarrow> (nat \<times> nat) option" where
  "reserve cursor n =
     (if cursor > max_u64 - 255 then None
      else let cursor = (cursor + 255) div 256 * 256 in
        if n > max_u64 - cursor then None else Some (cursor, cursor + n))"

fun session_layout :: "nat \<Rightarrow> (buffer \<times> nat) list \<Rightarrow> ((buffer \<times> nat) list \<times> nat) option" where
  "session_layout cursor [] = Some ([], cursor)"
| "session_layout cursor ((b, n) # rs) =
     (case reserve cursor n of
        None \<Rightarrow> None
      | Some (offset, cursor) \<Rightarrow>
          (case session_layout cursor rs of
             None \<Rightarrow> None
           | Some (offsets, cursor) \<Rightarrow> Some ((b, offset) # offsets, cursor)))"

subsection \<open>Creation\<close>

record create_runtime =
  ct_capture :: capture_runtime
  ct_mem_info :: "hip_code \<times> nat"
  ct_malloc :: "nat \<Rightarrow> hip_code"
  ct_memset :: "buffer \<Rightarrow> hip_code"
  ct_synchronize :: hip_code

text \<open>The destructor frees the arena; the layout is kept beside the session.\<close>

definition session_destroy :: "gpu \<Rightarrow> gpu" where
  "session_destroy g = g\<lparr>gpu_arenas := gpu_arenas g - 1\<rparr>"

definition initialize_session :: "create_runtime \<Rightarrow> session \<Rightarrow> nat \<Rightarrow> session result" where
  "initialize_session rt s arena_bytes =
     (let hip = cr_hip (ct_capture rt); n = dc_maximum_context_tokens (ss_config s) in
      if ct_memset rt Conv_States \<noteq> hip_success
      then Inl (hip_status hip (ct_memset rt Conv_States) ''convolution state initialization failed'')
      else if ct_memset rt GDN_States \<noteq> hip_success
      then Inl (hip_status hip (ct_memset rt GDN_States) ''GDN state initialization failed'')
      else if ct_synchronize rt \<noteq> hip_success
      then Inl (hip_status hip (ct_synchronize rt) ''decode session initialization failed'')
      else result_bind (prepare_speculative_graphs (ct_capture rt) s) (\<lambda>s.
        Inr (s\<lparr> ss_summary := \<lparr> dss_arena_bytes = arena_bytes, dss_maximum_context_tokens = n,
              dss_gdn_state_bytes = conv_bytes + gdn_bytes, dss_kv_cache_bytes = per_cache_bytes n * 2,
              dss_mtp_cache_bytes = mtp_per_cache_bytes n * 2 \<rparr> \<rparr>)))"

definition session_create ::
  "create_runtime \<Rightarrow> engine \<Rightarrow> decode_session_config \<Rightarrow> gpu
    \<Rightarrow> (session \<times> (buffer \<times> nat) list) result \<times> gpu" where
  "session_create rt en config g =
     (let hip = cr_hip (ct_capture rt); n = dc_maximum_context_tokens config in
      case result_bind (check_session_config en config) (\<lambda>_. bind_session en config) of
        Inl e \<Rightarrow> (Inl e, g)
      | Inr s \<Rightarrow>
          if n > max_u64 div (kAttentionLayerCount * kv_elements * 2)
          then (Err out_of_memory ''KV cache size overflow'', g)
          else case session_layout 0 (session_reservations n) of
            None \<Rightarrow> (Err out_of_memory ''decode arena layout overflow'', g)
          | Some (offsets, cursor) \<Rightarrow>
              let (error, free_bytes) = ct_mem_info rt in
              if error \<noteq> hip_success
              then (Inl (hip_status hip error ''hipMemGetInfo before session allocation failed''), g)
              else if cursor > free_bytes
              then (Err out_of_memory ''decode session arena exceeds currently free GPU memory'', g)
              else if ct_malloc rt cursor \<noteq> hip_success
              then (Inl (hip_status hip (ct_malloc rt cursor) ''decode session arena allocation failed''), g)
              else
                let g = g\<lparr>gpu_arenas := gpu_arenas g + 1\<rparr> in
                case initialize_session rt s cursor of
                  Inl e \<Rightarrow> (Inl e, session_destroy g)
                | Inr s \<Rightarrow> (Inr (s, offsets), g))"

section \<open>The arena\<close>

text \<open>The type of the elements of a region, and the number of elements the layout gives it.\<close>

definition element_bytes :: "buffer \<Rightarrow> nat" where
  "element_bytes b =
     (if b \<in> {Graph_Base_Position, Graph_MTP_Positions} then 8
      else if b = Activation_Codes then 1
      else if b \<in> {Projected_Main, Projected_Z, Projected_A, Projected_B, Projected_K, Projected_V, Mixer_Update,
          Gate_Output, Up_Output, MLP_Update, Logits, Selected_Token, GDN_States, GDN_Snapshot, GDN_Key_Log,
          GDN_Delta_Log, GDN_Decay_Log} then 4
      else 2)"

definition reserved_bytes :: "nat \<Rightarrow> buffer \<Rightarrow> nat" where
  "reserved_bytes n b = (case map_of (session_reservations n) b of None \<Rightarrow> 0 | Some bytes \<Rightarrow> bytes)"

definition buffer_elements :: "nat \<Rightarrow> buffer \<Rightarrow> nat" where
  "buffer_elements n b = reserved_bytes n b div element_bytes b"

lemma reserve_Some:
  assumes "reserve cursor n = Some (offset, cursor')"
  shows "offset mod 256 = 0 \<and> cursor \<le> offset \<and> cursor' = offset + n \<and> cursor' \<le> max_u64"
proof -
  define offset' where "offset' = (cursor + 255) div 256 * 256"
  have "cursor \<le> offset'" "offset' mod 256 = 0"
    using dividend_less_div_times [of 256 "cursor + 255"] by (simp_all add: offset'_def)
  moreover have "offset' \<le> cursor + 255"
    by (simp add: offset'_def div_times_less_eq_dividend)
  moreover have "offset = offset'" "n \<le> max_u64 - offset'" "cursor' = offset' + n" "cursor \<le> max_u64 - 255"
    using assms by (auto simp: reserve_def offset'_def Let_def simp del: mult_div_mod_eq split: if_splits)
  moreover have "255 \<le> max_u64"
    by (simp add: max_u64_def)
  ultimately show ?thesis
    by auto
qed

text \<open>What a layout from a cursor on guarantees, for every list of reservations.\<close>

lemma session_layout_Some:
  "session_layout cursor rs = Some (offsets, limit) \<Longrightarrow>
     map fst offsets = map fst rs \<and> cursor \<le> limit
     \<and> list_all2 (\<lambda>(b, off) (b', n). off mod 256 = 0 \<and> cursor \<le> off \<and> off + n \<le> limit) offsets rs
     \<and> sorted_wrt (\<lambda>(off, n) (off', n'). off + n \<le> off') (zip (map snd offsets) (map snd rs))"
proof (induction rs arbitrary: cursor offsets limit)
  case (Cons r rs)
  obtain b n where r: "r = (b, n)"
    by (cases r)
  obtain off c os where step: "reserve cursor n = Some (off, c)" "session_layout c rs = Some (os, limit)"
    "offsets = (b, off) # os"
    using Cons.prems by (auto simp: r split: option.splits)
  note rest = Cons.IH [OF step(2)] and here = reserve_Some [OF step(1)]
  have later: "list_all2 (\<lambda>(b, off) (b', n). off mod 256 = 0 \<and> cursor \<le> off \<and> off + n \<le> limit) os rs"
    using rest here by (auto elim!: list_all2_mono)
  have lower: "c \<le> snd (os ! i)" if "i < length os" for i
    using rest that by (auto simp: list_all2_conv_all_nth case_prod_unfold)
  have len: "length os = length rs"
    using rest by (metis length_map)
  have "off + n \<le> off'" if mem: "(off', n') \<in> set (zip (map snd os) (map snd rs))" for off' n'
  proof -
    obtain i where "i < length os" "off' = snd (os ! i)"
      using mem len by (auto simp: in_set_conv_nth)
    then show ?thesis
      using here lower by auto
  qed
  then show ?case
    using rest here later by (auto simp: step(3) r case_prod_unfold)
qed simp

end
