(* ===== verification/Session.thy ===== *)
theory Session
  imports Runtime
begin

text \<open>
  \<^verbatim>\<open>src/qwen_runtime.cpp\<close>: the steps of a decode session on a device. The device is a parameter:
  what a launch answers and does, the copies, and the synchronization that reports the errors of
  the stream. What these steps keep and promise is in the theories
  SessionSafety, SessionRun and SessionProps.
\<close>

section \<open>The device\<close>

text \<open>
  The operations of a stream take effect in order. \<open>dx_download\<close> gives the words that a download of
  a number of words delivers by the next synchronization; \<open>dx_synchronize\<close> the error of the stream;
  \<open>dx_replay\<close> runs the launches of a graph.
\<close>

record 'd device =
  dx_hip :: hip_runtime
  dx_launch :: "kernel \<Rightarrow> 'd \<Rightarrow> status \<times> 'd"
  dx_copy :: "pointer \<Rightarrow> pointer \<Rightarrow> nat \<Rightarrow> 'd \<Rightarrow> hip_code \<times> 'd"
  dx_upload :: "pointer \<Rightarrow> nat list \<Rightarrow> 'd \<Rightarrow> hip_code \<times> 'd"
  dx_download :: "pointer \<Rightarrow> nat \<Rightarrow> 'd \<Rightarrow> hip_code \<times> (nat \<Rightarrow> nat) \<times> 'd"
  dx_synchronize :: "'d \<Rightarrow> hip_code"
  dx_replay :: "kernel list \<Rightarrow> 'd \<Rightarrow> hip_code \<times> 'd"

fun run_program :: "'d device \<Rightarrow> program \<Rightarrow> 'd \<Rightarrow> status \<times> 'd" where
  "run_program dev [] d = (ok_status, d)"
| "run_program dev (Refuse s # p) d = (s, d)"
| "run_program dev (Launch k # p) d =
     (let (s, d) = dx_launch dev k d in if \<not> status_ok s then (s, d) else run_program dev p d)"

section \<open>Steps\<close>

definition greedy_step :: "'d device \<Rightarrow> session \<Rightarrow> nat \<Rightarrow> 'd \<Rightarrow> nat result \<times> session \<times> 'd" where
  "greedy_step dev s input_token d =
     (if ss_current_position s \<ge> dc_maximum_context_tokens (ss_config s) \<or> input_token \<ge> vocabulary_size
      then (Err invalid_argument ''decode token or session position is invalid'', s, d)
      else
        let (layers, current) = greedy_layers s input_token;
            (status, d) = run_program dev layers d
        in if \<not> status_ok status then (Inl status, s, d)
           else
             let s = s\<lparr>ss_last_hidden := current\<rparr>;
                 (status, d) = run_program dev (greedy_head s) d
             in if \<not> status_ok status then (Inl status, s, d)
                else
                  let (error, words, d) = dx_download dev (Arena Selected_Token 0) 1 d in
                  if error \<noteq> hip_success
                  then (Inl (hip_status (dx_hip dev) error ''selected token download failed''), s, d)
                  else if dx_synchronize dev d \<noteq> hip_success
                  then (Inl (hip_status (dx_hip dev) (dx_synchronize dev d) ''decode step failed''), s, d)
                  else (Inr (words 0), s\<lparr>ss_current_position := ss_current_position s + 1\<rparr>, d))"

definition block_step :: "'d device \<Rightarrow> session \<Rightarrow> nat list \<Rightarrow> 'd \<Rightarrow> nat list result \<times> session \<times> 'd" where
  "block_step dev s input_tokens d =
     (if input_tokens = [] \<or> length input_tokens > kMaximumBlock
        \<or> \<not> ss_tiled_weights s \<and> length input_tokens > 8
        \<or> length input_tokens > dc_maximum_context_tokens (ss_config s) - ss_current_position s
        \<or> list_ex (\<lambda>token. token \<ge> vocabulary_size) input_tokens
      then (Err invalid_argument ''decode block must contain a supported number of valid tokens within the context limit'', s, d)
      else
        let batch = length input_tokens;
            (layers, current) = block_layers s batch None;
            (status, d) = run_program dev (gather_tokens s input_tokens @ layers) d
        in if \<not> status_ok status then (Inl status, s, d)
           else
             let s = s\<lparr>ss_last_hidden := pointer_plus current ((batch - 1) * kHidden)\<rparr>;
                 (status, d) = run_program dev (block_head s batch) d
             in if \<not> status_ok status then (Inl status, s, d)
                else
                  let (error, words, d) = dx_download dev (Arena Selected_Token 0) batch d in
                  if error \<noteq> hip_success
                  then (Inl (hip_status (dx_hip dev) error ''decode block token download failed''), s, d)
                  else if dx_synchronize dev d \<noteq> hip_success
                  then (Inl (hip_status (dx_hip dev) (dx_synchronize dev d) ''decode block failed''), s, d)
                  else (Inr (map words [0..<batch]), s\<lparr>ss_current_position := ss_current_position s + batch\<rparr>, d))"

definition mtp_draft :: "'d device \<Rightarrow> session \<Rightarrow> nat \<Rightarrow> 'd \<Rightarrow> nat result \<times> session \<times> 'd" where
  "mtp_draft dev s next_token d =
     (if ss_last_hidden s = Null_Pointer
        \<or> \<not> ss_mtp_chain_active s \<and> ss_mtp_position s + 1 \<noteq> ss_current_position s
        \<or> next_token \<ge> tokenizer_vocabulary_size
      then (Err invalid_argument ''MTP drafting is not aligned with the target state'', s, d)
      else
        let conditioning_hidden = (if ss_mtp_chain_active s then Arena MTP_Hidden 0 else ss_last_hidden s);
            (status, d) = run_program dev (launch_mtp_proposal s (Direct next_token) conditioning_hidden
              (ss_mtp_position s) (Some (Arena Selected_Token 0)) None) d
        in if \<not> status_ok status then (Inl status, s, d)
           else
             let (error, words, d) = dx_download dev (Arena Selected_Token 0) 1 d in
             if error \<noteq> hip_success
             then (Inl (hip_status (dx_hip dev) error ''MTP selected token download failed''), s, d)
             else if dx_synchronize dev d \<noteq> hip_success
             then (Inl (hip_status (dx_hip dev) (dx_synchronize dev d) ''MTP draft step failed''), s, d)
             else (Inr (words 0), s\<lparr>ss_mtp_position := ss_mtp_position s + 1\<rparr>, d))"

section \<open>Speculative step\<close>

record speculative_step_result =
  sr_tokens :: "nat list"
  sr_proposed_drafts :: nat
  sr_accepted_drafts :: nat

definition snapshot_target_state :: "'d device \<Rightarrow> session \<Rightarrow> 'd \<Rightarrow> status \<times> 'd" where
  "snapshot_target_state dev s d =
     (if ss_last_hidden s \<noteq> Null_Pointer then
        let (error, d) = dx_copy dev (Arena Target_Hidden_Snapshot 0) (ss_last_hidden s) kHidden d in
        if error \<noteq> hip_success
        then (hip_status (dx_hip dev) error ''target hidden-state snapshot failed'', d)
        else (ok_status, d)
      else (ok_status, d))"

definition restore_target_state :: "session \<Rightarrow> session" where
  "restore_target_state s = s\<lparr>ss_last_hidden := Arena Target_Hidden_Snapshot 0\<rparr>"

definition restore_logged_prefix :: "session \<Rightarrow> nat \<Rightarrow> program" where
  "restore_logged_prefix s accepted_tokens =
     (if accepted_tokens = 0 then []
      else [Launch (State_Op (GDN_Restore_Prefix_All (Arena (ss_conv_states s) 0) (Arena (ss_gdn_states s) 0)
              (Arena Conv_Rollback_Log 0) (Arena GDN_Key_Log 0) (Arena GDN_Delta_Log 0) (Arena GDN_Decay_Log 0)
              gdn_channels kGdnLayerCount kMaximumBlock accepted_tokens))])"

text \<open>The state after the verifier of \<open>draft_count\<close> proposals has been launched.\<close>

definition after_verifier :: "session \<Rightarrow> nat \<Rightarrow> session" where
  "after_verifier s draft_count =
     s\<lparr> ss_last_hidden := Arena Hidden_A (draft_count * kHidden),
        ss_current_position := ss_current_position s + (draft_count + 1) \<rparr>"

definition launch_prepared_speculative_graph ::
  "'d device \<Rightarrow> session \<Rightarrow> nat \<Rightarrow> 'd \<Rightarrow> status \<times> session \<times> 'd" where
  "launch_prepared_speculative_graph dev s seed_token d =
     (let batch = dc_graph_verifier_batch (ss_config s) in
      if batch < 2 then (Status internal ''prepared speculative graph is disabled'', s, d)
      else
        let draft_count = batch - 1; (error, d) = dx_upload dev graph_seed_token [seed_token] d in
        if error \<noteq> hip_success
        then (hip_status (dx_hip dev) error ''speculative graph seed upload failed'', s, d)
        else
          let (error, d) = dx_upload dev (Arena Graph_Base_Position 0) [ss_current_position s] d in
          if error \<noteq> hip_success
          then (hip_status (dx_hip dev) error ''speculative graph verifier-position upload failed'', s, d)
          else
            let (error, d) = dx_upload dev (Arena Graph_MTP_Positions 0)
                  (map (\<lambda>index. ss_mtp_position s + index) [0..<draft_count]) d in
            if error \<noteq> hip_success
            then (hip_status (dx_hip dev) error ''speculative graph MTP-position upload failed'', s, d)
            else
              case ss_graphs s (ss_gdn_state_parity s) of
                None \<Rightarrow> (Status internal ''prepared speculative graph is unavailable'', s, d)
              | Some graph \<Rightarrow>
                  let (error, d) = dx_replay dev graph d in
                  if error \<noteq> hip_success
                  then (hip_status (dx_hip dev) error ''speculative graph launch failed'', s, d)
                  else (ok_status, after_verifier s draft_count, d))"

definition launch_speculative :: "'d device \<Rightarrow> session \<Rightarrow> nat \<Rightarrow> nat \<Rightarrow> 'd \<Rightarrow> status \<times> session \<times> 'd" where
  "launch_speculative dev s seed_token draft_count d =
     (let (status, d) = run_program dev (proposal_chain s seed_token (ss_mtp_position s) draft_count) d in
      if \<not> status_ok status then (status, s, d)
      else
        let (status, d) = run_program dev
              (launch_speculative_verifier (s\<lparr>ss_record_rollback := True\<rparr>) seed_token draft_count) d in
        if \<not> status_ok status then (status, s, d) else (ok_status, after_verifier s draft_count, d))"

fun accepted_prefix :: "nat list \<Rightarrow> nat list \<Rightarrow> nat" where
  "accepted_prefix (a # as) (b # bs) = (if a = b then accepted_prefix as bs + 1 else 0)"
| "accepted_prefix _ _ = 0"

text \<open>The three downloads and waits after the launches.\<close>

definition download_tokens ::
  "'d device \<Rightarrow> nat \<Rightarrow> 'd \<Rightarrow> (nat list \<times> nat list) result \<times> 'd" where
  "download_tokens dev draft_count d =
     (let (error, drafts, d) = dx_download dev (draft_token 0) draft_count d in
      if error \<noteq> hip_success
      then (Inl (hip_status (dx_hip dev) error ''MTP proposal-chain download failed''), d)
      else
        let (error, target_outputs, d) = dx_download dev (Arena Selected_Token 0) (draft_count + 1) d in
        if error \<noteq> hip_success
        then (Inl (hip_status (dx_hip dev) error ''speculative verifier download failed''), d)
        else if dx_synchronize dev d \<noteq> hip_success
        then (Inl (hip_status (dx_hip dev) (dx_synchronize dev d) ''speculative proposal/verifier chain failed''), d)
        else (Inr (map drafts [0..<draft_count], map target_outputs [0..<draft_count + 1]), d))"

text \<open>
  The commit: all drafts accepted makes the snapshot the state, fewer restore the logged prefix.
\<close>

definition commit_all :: "'d device \<Rightarrow> session \<Rightarrow> nat \<Rightarrow> 'd \<Rightarrow> status \<times> session \<times> 'd" where
  "commit_all dev s last_draft d =
     (let s = swap_states s; s = s\<lparr>ss_gdn_state_parity := \<not> ss_gdn_state_parity s\<rparr>;
          conditioning = (case ss_last_hidden s of Arena b i \<Rightarrow> Arena b (i - kHidden) | p \<Rightarrow> p);
          (status, d) = run_program dev
            (launch_mtp_proposal s (Direct last_draft) conditioning (ss_mtp_position s) None None) d;
          s = s\<lparr>ss_mtp_chain_active := False\<rparr>
      in if \<not> status_ok status then (status, s, d)
         else (ok_status, s\<lparr>ss_mtp_position := ss_mtp_position s + 1\<rparr>, d))"

definition commit_prefix ::
  "'d device \<Rightarrow> session \<Rightarrow> nat \<Rightarrow> nat \<Rightarrow> nat \<Rightarrow> 'd \<Rightarrow> status \<times> session \<times> 'd" where
  "commit_prefix dev s base_target_position base_mtp_position accepted d =
     (let s = restore_target_state s;
          (status, d) = run_program dev (restore_logged_prefix s (accepted + 1)) d
      in if \<not> status_ok status then (status, s\<lparr>ss_mtp_chain_active := False\<rparr>, d)
         else (ok_status,
           s\<lparr> ss_current_position := base_target_position + accepted + 1,
              ss_mtp_position := base_mtp_position + accepted + 1, ss_mtp_chain_active := False,
              ss_last_hidden := Arena Hidden_A (accepted * kHidden) \<rparr>, d))"

definition speculative_step ::
  "'d device \<Rightarrow> session \<Rightarrow> nat \<Rightarrow> nat \<Rightarrow> 'd \<Rightarrow> speculative_step_result result \<times> session \<times> 'd" where
  "speculative_step dev s seed_token draft_count d =
     (if ss_last_hidden s = Null_Pointer \<or> draft_count = 0 \<or> draft_count \<ge> kMaximumBlock
        \<or> seed_token \<ge> tokenizer_vocabulary_size \<or> ss_mtp_position s + 1 \<noteq> ss_current_position s
        \<or> draft_count + 1 > dc_maximum_context_tokens (ss_config s) - ss_current_position s
      then (Err invalid_argument ''speculative step requires 1..31 drafts and aligned target/MTP state'', s, d)
      else
        let base_target_position = ss_current_position s; base_mtp_position = ss_mtp_position s;
            (status, d) = snapshot_target_state dev s d
        in if \<not> status_ok status then (Inl status, s, d)
           else
             let (status, s, d) =
               (if draft_count + 1 = dc_graph_verifier_batch (ss_config s)
                then launch_prepared_speculative_graph dev s seed_token d
                else launch_speculative dev s seed_token draft_count d)
             in if \<not> status_ok status then
                  let s = restore_target_state (s\<lparr> ss_record_rollback := False, ss_mtp_chain_active := False,
                        ss_mtp_position := base_mtp_position, ss_current_position := base_target_position \<rparr>)
                  in if dx_synchronize dev d \<noteq> hip_success
                     then (Inl (hip_status (dx_hip dev) (dx_synchronize dev d) ''speculative failure rollback failed''), s, d)
                     else (Inl status, s, d)
                else
                  let s = s\<lparr> ss_mtp_position := base_mtp_position + draft_count, ss_mtp_chain_active := True \<rparr> in
                  case download_tokens dev draft_count d of
                    (Inl e, d) \<Rightarrow> (Inl e, s, d)
                  | (Inr (drafts, target_outputs), d) \<Rightarrow>
                      let accepted = accepted_prefix drafts target_outputs;
                          (status, s, d) =
                            (if accepted \<noteq> draft_count
                             then commit_prefix dev s base_target_position base_mtp_position accepted d
                             else commit_all dev s (last drafts) d)
                      in if \<not> status_ok status then (Inl status, s, d)
                         else (Inr \<lparr> sr_tokens = take accepted drafts @ [target_outputs ! accepted],
                                 sr_proposed_drafts = draft_count, sr_accepted_drafts = accepted \<rparr>, s, d))"

end
