(* ===== verification/MemorySafety.thy ===== *)
theory MemorySafety
  imports SessionCreate Session
begin

text \<open>
  Memory safety of the launches of a decode session: with weights of the model's shapes, every call
  of every step reads only elements that were written before and stays inside the regions of the
  session's arena. The reads and writes of the calls are those of theory \<open>Kernels\<close>.
\<close>

section \<open>Regions\<close>

lemmas session_constants = kMaximumBlock_def kHidden_def hidden_size_def kIntermediate_def kGdnLayerCount_def
  kAttentionLayerCount_def kConvStateElements_def gdn_channels_def gdn_value_elements_def gdn_key_elements_def
  gdn_value_heads_def gdn_state_elements_def kv_elements_def query_elements_def vocabulary_size_def
  tokenizer_vocabulary_size_def kMtpDraftVocabulary_def

lemma buffer_elements_simps:
  "buffer_elements n Hidden_A = 163840" "buffer_elements n Hidden_B = 163840"
  "buffer_elements n MTP_Hidden = 5120" "buffer_elements n Target_Hidden_Snapshot = 5120"
  "buffer_elements n Normalized = 163840" "buffer_elements n Convolved_QKV = 327680"
  "buffer_elements n GDN_Output = 196608" "buffer_elements n Query = 196608" "buffer_elements n Key = 32768"
  "buffer_elements n Attention_Output = 196608" "buffer_elements n Post_Attention = 163840"
  "buffer_elements n Post_Normalized = 163840" "buffer_elements n Activated = 557056"
  "buffer_elements n Projected_Main = 393216" "buffer_elements n Projected_Z = 196608"
  "buffer_elements n Projected_A = 1536" "buffer_elements n Projected_B = 1536"
  "buffer_elements n Projected_K = 32768" "buffer_elements n Projected_V = 32768"
  "buffer_elements n Mixer_Update = 163840" "buffer_elements n Gate_Output = 557056"
  "buffer_elements n Up_Output = 557056" "buffer_elements n MLP_Update = 163840"
  "buffer_elements n Logits = 7946240" "buffer_elements n Selected_Token = 64"
  "buffer_elements n Graph_Base_Position = 1" "buffer_elements n Graph_MTP_Positions = 32"
  "buffer_elements n Activation_Codes = 557056" "buffer_elements n Activation_Scales = 4352"
  "buffer_elements n Conv_States = 1966080" "buffer_elements n GDN_States = 37748736"
  "buffer_elements n Conv_Snapshot = 1966080" "buffer_elements n GDN_Snapshot = 37748736"
  "buffer_elements n Conv_Rollback_Log = 15728640" "buffer_elements n GDN_Key_Log = 3145728"
  "buffer_elements n GDN_Delta_Log = 9437184" "buffer_elements n GDN_Decay_Log = 73728"
  "buffer_elements n Key_Caches = 16 * n * 1024" "buffer_elements n Value_Caches = 16 * n * 1024"
  "buffer_elements n MTP_Key_Cache = n * 1024" "buffer_elements n MTP_Value_Cache = n * 1024"
  by (simp_all add: buffer_elements_def reserved_bytes_def session_reservations_def element_bytes_def
      conv_bytes_def gdn_bytes_def per_cache_bytes_def mtp_per_cache_bytes_def session_constants)

section \<open>Shapes\<close>

definition matrix_shaped :: "device_tensor_view option \<Rightarrow> nat \<Rightarrow> nat \<Rightarrow> bool" where
  "matrix_shaped t rows columns \<longleftrightarrow>
     (\<exists>v. t = Some v \<and> dv_rank v = 2 \<and> tensor_rows v = rows \<and> tensor_columns v = columns)"

definition layer_shaped :: "layer_bindings \<Rightarrow> bool" where
  "layer_shaped l \<longleftrightarrow>
     matrix_shaped (lb_mlp_gate l) 17408 5120 \<and> matrix_shaped (lb_mlp_up l) 17408 5120
     \<and> matrix_shaped (lb_mlp_down l) 5120 17408 \<and> matrix_shaped (lb_out l) 5120 6144
     \<and> (if lb_attention l
        then matrix_shaped (lb_q l) 12288 5120 \<and> matrix_shaped (lb_k l) 1024 5120 \<and> matrix_shaped (lb_v l) 1024 5120
        else matrix_shaped (lb_qkv l) 10240 5120 \<and> matrix_shaped (lb_z l) 6144 5120
          \<and> matrix_shaped (lb_a l) 48 5120 \<and> matrix_shaped (lb_b l) 48 5120)"

text \<open>
  The fused path of \<open>launch_mlp_down\<close> leaves no FP16 activation behind, so its matrix must take
  the quantized one.
\<close>

definition down_quantized :: "session \<Rightarrow> layer_bindings \<Rightarrow> bool" where
  "down_quantized s l \<longleftrightarrow> ss_tiled_weights s \<or> \<not> uses_i4 s (lb_mlp_down l)"

definition session_shaped :: "session \<Rightarrow> bool" where
  "session_shaped s \<longleftrightarrow>
     list_all layer_shaped (ss_layers s)
     \<and> map lb_state_index (filter lb_attention (ss_layers s)) = [0..<16]
     \<and> map lb_state_index (filter (\<lambda>l. \<not> lb_attention l) (ss_layers s)) = [0..<48]
     \<and> even (length (ss_layers s))
     \<and> layer_shaped (ss_mtp_layer s) \<and> lb_attention (ss_mtp_layer s)
     \<and> matrix_shaped (ss_mtp_fc s) 5120 10240
     \<and> matrix_shaped (Some (ss_lm_head s)) 248320 5120
     \<and> matrix_shaped (Some (ss_mtp_draft_head s)) 98304 5120
     \<and> list_all (down_quantized s) (ss_mtp_layer s # ss_layers s)"

section \<open>Matrix products\<close>

abbreviation safe :: "nat \<Rightarrow> (pointer \<Rightarrow> nat) \<Rightarrow> program \<Rightarrow> (cells \<Rightarrow> bool) \<Rightarrow> cells \<Rightarrow> bool" where
  "safe n \<equiv> program_safe (buffer_elements n)"

lemma quantize_i4_safe:
  assumes "has A i (batch * columns)" "within (buffer_elements n) i (batch * columns)"
    and "batch \<le> 32" "columns \<le> 17408"
    and "\<And>A'. A \<subseteq> A' \<Longrightarrow> has A' (Arena Activation_Codes 0) (batch * (columns div 2)) \<Longrightarrow>
      has A' (Arena Activation_Scales 0) (batch * (columns div 128)) \<Longrightarrow> K A'"
  shows "safe n held (quantize_i4 i columns batch) K A"
proof -
  have "batch * (columns div 2) \<le> 32 * 8704" "batch * (columns div 128) \<le> 32 * 136"
    using assms(3,4) by (intro mult_le_mono; simp)+
  then show ?thesis
    unfolding quantize_i4_def using assms(1,2,5)
    by (intro launch_safe) (auto simp: buffer_elements_simps)
qed

lemma quantize_i8_safe:
  assumes "has A i (batch * columns)" "within (buffer_elements n) i (batch * columns)"
    and "batch \<le> 32" "columns \<le> 17408"
    and "\<And>A'. A \<subseteq> A' \<Longrightarrow> has A' (Arena Activation_Codes 0) (batch * columns) \<Longrightarrow>
      has A' (Arena Activation_Scales 0) (batch * (columns div 128)) \<Longrightarrow> K A'"
  shows "safe n held (quantize_i8 i columns batch) K A"
proof -
  have "batch * columns \<le> 32 * 17408" "batch * (columns div 128) \<le> 32 * 136"
    using assms(3,4) by (intro mult_le_mono; simp)+
  then show ?thesis
    unfolding quantize_i8_def using assms(1,2,5)
    by (intro launch_safe) (auto simp: buffer_elements_simps)
qed

text \<open>What a product needs of its input: the FP16 values, or the codes that the mode reads.\<close>

definition input_ready :: "session \<Rightarrow> cells \<Rightarrow> quantization \<Rightarrow> pointer \<Rightarrow> nat \<Rightarrow> nat \<Rightarrow> bool" where
  "input_ready s A format i columns batch \<longleftrightarrow>
     (let mode = dc_activation_mode (ss_config s) in
      if ss_tiled_weights s \<and> wants_i4 mode format
      then has A (Arena Activation_Codes 0) (batch * (columns div 2))
        \<and> has A (Arena Activation_Scales 0) (batch * (columns div 128))
      else if ss_tiled_weights s \<and> mode = int8
      then has A (Arena Activation_Codes 0) (batch * columns)
        \<and> has A (Arena Activation_Scales 0) (batch * (columns div 128))
      else has A i (batch * columns))"

lemma launch_matrix_prepared_safe:
  assumes shape: "matrix_shaped (Some t) rows columns"
    and ready: "input_ready s A (dv_quantization t) i columns batch"
    and i: "within (buffer_elements n) i (batch * columns)"
    and out: "within (buffer_elements n) out (batch * rows)"
    and batch: "0 < batch" "batch \<le> 32" and columns: "columns \<le> 17408"
    and K: "\<And>A'. A \<subseteq> A' \<Longrightarrow> has A' out (batch * rows) \<Longrightarrow> K A'"
  shows "safe n held (launch_matrix s (Some t) i out batch False) K A"
proof -
  have sizes: "batch * columns \<le> 32 * 17408" "batch * (columns div 2) \<le> 32 * 8704" "batch * (columns div 128) \<le> 32 * 136"
    using batch columns by (intro mult_le_mono; simp)+
  have dims: "dv_rank t = 2" "tensor_rows t = rows" "tensor_columns t = columns"
    using shape by (auto simp: matrix_shaped_def)
  let ?go = "safe n held (launch_matrix s (Some t) i out batch False) K A"
  consider (no_scales) "dv_auxiliary t = None"
    | (gemv) "dv_auxiliary t \<noteq> None" "\<not> ss_tiled_weights s"
    | (i4) "dv_auxiliary t \<noteq> None" "ss_tiled_weights s" "wants_i4 (dc_activation_mode (ss_config s)) (dv_quantization t)"
    | (i8) "dv_auxiliary t \<noteq> None" "ss_tiled_weights s" "\<not> wants_i4 (dc_activation_mode (ss_config s)) (dv_quantization t)"
        "dc_activation_mode (ss_config s) = int8"
    | (f16) "dv_auxiliary t \<noteq> None" "ss_tiled_weights s" "\<not> wants_i4 (dc_activation_mode (ss_config s)) (dv_quantization t)"
        "dc_activation_mode (ss_config s) \<noteq> int8"
    by blast
  then show ?go
  proof cases
    case no_scales
    then show ?thesis
      by (simp add: launch_matrix_def Let_def status_ok_def)
  next
    case gemv
    then have r: "has A i (batch * columns)"
      using ready by (simp add: input_ready_def)
    show ?thesis
    proof (cases "1 < batch")
      case True
      then have "launch_matrix s (Some t) i out batch False
          = [Launch (Lowbit (Lowbit_Gemv_Batch (dv_quantization t) (weights_of t) (scales_of t) i out rows columns batch))]"
        using gemv by (simp add: launch_matrix_def Let_def dims)
      then show ?thesis
        by (simp only:) (rule launch_safe, use r i out K in simp_all)
    next
      case False
      then have one: "batch = 1"
        using batch by simp
      have "launch_matrix s (Some t) i out batch False
          = [Launch (Lowbit (Lowbit_Gemv (dv_quantization t) (weights_of t) (scales_of t) i out rows columns))]"
        using gemv by (simp add: launch_matrix_def Let_def dims one)
      then show ?thesis
        by (simp only:) (rule launch_safe, use r i out K one in simp_all)
    qed
  next
    case i4
    then have r: "has A (Arena Activation_Codes 0) (batch * (columns div 2))"
        "has A (Arena Activation_Scales 0) (batch * (columns div 128))"
      using ready by (simp_all add: input_ready_def)
    have "launch_matrix s (Some t) i out batch False
        = [Launch (Lowbit (Gfx12_I4_Gemm (dv_quantization t) (weights_of t) (scales_of t) (Arena Activation_Codes 0)
            (Arena Activation_Scales 0) out rows columns batch (ss_sequential_w3 s)))]"
      using i4 by (simp add: launch_matrix_def Let_def dims)
    then show ?thesis
      by (simp only:) (rule launch_safe, use r sizes out K in \<open>simp_all add: buffer_elements_simps\<close>)
  next
    case i8
    then have r: "has A (Arena Activation_Codes 0) (batch * columns)"
        "has A (Arena Activation_Scales 0) (batch * (columns div 128))"
      using ready by (simp_all add: input_ready_def)
    have "launch_matrix s (Some t) i out batch False
        = [Launch (Lowbit (Gfx12_I8_Gemm (dv_quantization t) (weights_of t) (scales_of t) (Arena Activation_Codes 0)
            (Arena Activation_Scales 0) out rows columns batch))]"
      using i8 by (simp add: launch_matrix_def Let_def dims)
    then show ?thesis
      by (simp only:) (rule launch_safe, use r sizes out K in \<open>simp_all add: buffer_elements_simps\<close>)
  next
    case f16
    then have r: "has A i (batch * columns)"
      using ready by (simp add: input_ready_def)
    have "launch_matrix s (Some t) i out batch False
        = [Launch (Lowbit (Gfx12_F16_Gemm (dv_quantization t) (weights_of t) (scales_of t) i out rows columns batch))]"
      using f16 by (simp add: launch_matrix_def Let_def dims)
    then show ?thesis
      by (simp only:) (rule launch_safe, use r i out K in simp_all)
  qed
qed

text \<open>The preparation of the input that the product does itself.\<close>

definition prepare_input :: "session \<Rightarrow> device_tensor_view \<Rightarrow> pointer \<Rightarrow> nat \<Rightarrow> program" where
  "prepare_input s t i batch =
     (let mode = dc_activation_mode (ss_config s) in
      if dv_rank t \<noteq> 2 \<or> dv_auxiliary t = None \<or> \<not> ss_tiled_weights s then []
      else if wants_i4 mode (dv_quantization t) then quantize_i4 i (tensor_columns t) batch
      else if mode = int8 then quantize_i8 i (tensor_columns t) batch
      else [])"

lemma launch_matrix_prepares:
  "launch_matrix s (Some t) i out batch True = prepare_input s t i batch @ launch_matrix s (Some t) i out batch False"
  by (simp add: launch_matrix_def prepare_input_def Let_def)

lemma prepare_input_safe:
  assumes dims: "dv_rank t = 2" "tensor_columns t = columns"
    and i: "has A i (batch * columns)" "within (buffer_elements n) i (batch * columns)"
    and batch: "batch \<le> 32" and columns: "columns \<le> 17408"
    and K: "\<And>A'. A \<subseteq> A' \<Longrightarrow> (dv_auxiliary t \<noteq> None \<Longrightarrow> input_ready s A' (dv_quantization t) i columns batch) \<Longrightarrow> K A'"
  shows "safe n held (prepare_input s t i batch) K A"
proof -
  let ?mode = "dc_activation_mode (ss_config s)"
  consider (none) "dv_auxiliary t = None"
    | (fp) "dv_auxiliary t \<noteq> None" "\<not> (ss_tiled_weights s \<and> wants_i4 ?mode (dv_quantization t))"
        "\<not> (ss_tiled_weights s \<and> ?mode = int8)"
    | (i4) "dv_auxiliary t \<noteq> None" "ss_tiled_weights s" "wants_i4 ?mode (dv_quantization t)"
    | (i8) "dv_auxiliary t \<noteq> None" "ss_tiled_weights s" "\<not> wants_i4 ?mode (dv_quantization t)" "?mode = int8"
    by blast
  then show ?thesis
  proof cases
    case none
    then show ?thesis
      using K [of A] by (simp add: prepare_input_def Let_def)
  next
    case fp
    moreover have "prepare_input s t i batch = []"
      using fp by (auto simp: prepare_input_def Let_def)
    ultimately show ?thesis
      using K [of A] i by (auto simp: input_ready_def Let_def)
  next
    case i4
    then have "prepare_input s t i batch = quantize_i4 i columns batch"
      by (auto simp: prepare_input_def Let_def dims)
    moreover have "safe n held (quantize_i4 i columns batch) K A"
      by (rule quantize_i4_safe [OF i batch columns]) (rule K, simp_all add: input_ready_def i4)
    ultimately show ?thesis
      by simp
  next
    case i8
    then have "prepare_input s t i batch = quantize_i8 i columns batch"
      by (auto simp: prepare_input_def Let_def dims)
    moreover have "safe n held (quantize_i8 i columns batch) K A"
      by (rule quantize_i8_safe [OF i batch columns]) (rule K, use i8 in \<open>simp_all add: input_ready_def\<close>)
    ultimately show ?thesis
      by simp
  qed
qed

lemma launch_matrix_refuses: "dv_auxiliary t = None \<Longrightarrow> safe n held (launch_matrix s (Some t) i out batch prepare) K A"
  by (simp add: launch_matrix_def Let_def status_ok_def)

lemma input_ready_mono: "input_ready s A f i columns batch \<Longrightarrow> A \<subseteq> B \<Longrightarrow> input_ready s B f i columns batch"
  by (auto simp: input_ready_def Let_def intro: has_mono split: if_splits)

lemma launch_matrix_safe:
  assumes shape: "matrix_shaped t rows columns"
    and i: "has A i (batch * columns)" "within (buffer_elements n) i (batch * columns)"
    and out: "within (buffer_elements n) out (batch * rows)"
    and batch: "0 < batch" "batch \<le> 32" and columns: "columns \<le> 17408"
    and K: "\<And>A'. A \<subseteq> A' \<Longrightarrow> has A' out (batch * rows)
      \<Longrightarrow> input_ready s A' (dv_quantization (the t)) i columns batch \<Longrightarrow> K A'"
  shows "safe n held (launch_matrix s t i out batch True) K A"
proof -
  obtain v where v: "t = Some v" "dv_rank v = 2" "tensor_columns v = columns"
    using shape by (auto simp: matrix_shaped_def)
  show ?thesis
    unfolding v launch_matrix_prepares program_safe_append
  proof (rule prepare_input_safe [OF v(2,3) i batch(2) columns])
    fix A' assume A': "A \<subseteq> A'" and ready: "dv_auxiliary v \<noteq> None \<Longrightarrow> input_ready s A' (dv_quantization v) i columns batch"
    show "safe n held (launch_matrix s (Some v) i out batch False) K A'"
    proof (cases "dv_auxiliary v = None")
      case True
      then show ?thesis
        by (rule launch_matrix_refuses)
    next
      case False
      then have r: "input_ready s A' (dv_quantization v) i columns batch"
        by (rule ready)
      show ?thesis
      proof (rule launch_matrix_prepared_safe [OF _ r i(2) out batch columns])
        show "matrix_shaped (Some v) rows columns"
          using shape v by simp
      next
        fix B assume "A' \<subseteq> B" "has B out (batch * rows)"
        then show "K B"
          using K [of B] A' input_ready_mono [OF r] by (simp add: v)
      qed
    qed
  qed
qed

text \<open>Several products of one input; \<open>rs\<close> pairs every output with its rows.\<close>

definition matrices_shaped :: "nat \<Rightarrow> device_tensor_view option list \<Rightarrow> (pointer \<times> nat) list \<Rightarrow> nat \<Rightarrow> nat \<Rightarrow> bool" where
  "matrices_shaped n tensors rs columns batch \<longleftrightarrow>
     list_all2 (\<lambda>t (out, rows). matrix_shaped t rows columns \<and> within (buffer_elements n) out (batch * rows)) tensors rs"

lemma matrices_loop_safe:
  assumes shaped: "matrices_shaped n tensors rs columns batch"
    and i: "has A i (batch * columns)" "within (buffer_elements n) i (batch * columns)"
    and batch: "0 < batch" "batch \<le> 32" and columns: "columns \<le> 17408"
    and k: "k \<le> length tensors"
    and shared: "0 < k \<Longrightarrow> compatible_matrices tensors
      \<Longrightarrow> input_ready s A (dv_quantization (the (hd tensors))) i columns batch"
    and before: "list_all (\<lambda>(out, rows). has A out (batch * rows)) (take k rs)"
    and K: "\<And>A'. A \<subseteq> A' \<Longrightarrow> list_all (\<lambda>(out, rows). has A' out (batch * rows)) rs \<Longrightarrow> K A'"
  shows "safe n held (concat (map (\<lambda>index. launch_matrix s (tensors ! index) i (map fst rs ! index) batch
    (index = 0 \<or> \<not> compatible_matrices tensors)) [k..<length tensors])) K A"
  using i(1) k shared before K
proof (induction "length tensors - k" arbitrary: k A)
  case 0
  then have "take k rs = rs"
    using shaped by (simp add: matrices_shaped_def list_all2_lengthD)
  then show ?case
    using 0 by simp
next
  case (Suc m)
  let ?t = "tensors ! k" and ?out = "fst (rs ! k)" and ?rows = "snd (rs ! k)"
  have k: "k < length tensors" "k < length rs"
    using Suc.hyps(2) shaped by (auto simp: matrices_shaped_def dest: list_all2_lengthD)
  have t: "matrix_shaped ?t ?rows columns" "within (buffer_elements n) ?out (batch * ?rows)"
    using shaped k by (auto simp: matrices_shaped_def list_all2_conv_all_nth case_prod_unfold)
  have K': "safe n held (concat (map (\<lambda>index. launch_matrix s (tensors ! index) i (map fst rs ! index) batch
      (index = 0 \<or> \<not> compatible_matrices tensors)) [Suc k..<length tensors])) K A'"
    if A': "A \<subseteq> A'" "has A' ?out (batch * ?rows)"
      "compatible_matrices tensors \<Longrightarrow> input_ready s A' (dv_quantization (the (hd tensors))) i columns batch" for A'
  proof (rule Suc.hyps(1))
    show "list_all (\<lambda>(out, rows). has A' out (batch * rows)) (take (Suc k) rs)"
      using Suc.prems(4) A'(1,2) k has_mono [OF _ A'(1)]
      by (auto simp: take_Suc_conv_app_nth case_prod_unfold list_all_iff)
    show "\<And>B. A' \<subseteq> B \<Longrightarrow> list_all (\<lambda>(out, rows). has B out (batch * rows)) rs \<Longrightarrow> K B"
      using Suc.prems(5) A'(1) by blast
  qed (use Suc.hyps(2) Suc.prems(1) A' k has_mono in auto)
  have "safe n held (launch_matrix s ?t i ?out batch (k = 0 \<or> \<not> compatible_matrices tensors))
    (program_safe (buffer_elements n) held (concat (map (\<lambda>index. launch_matrix s (tensors ! index) i (map fst rs ! index) batch
      (index = 0 \<or> \<not> compatible_matrices tensors)) [Suc k..<length tensors])) K) A"
  proof (cases "k = 0 \<or> \<not> compatible_matrices tensors")
    case True
    have "hd tensors = ?t" if "k = 0"
      using that k by (simp add: hd_conv_nth)
    with True show ?thesis
      by simp (rule launch_matrix_safe [OF t(1) Suc.prems(1) i(2) t(2) batch columns], rule K', auto)
  next
    case False
    obtain v where v: "?t = Some v" "dv_quantization v = dv_quantization (the (hd tensors))"
      using False k by (fastforce simp: compatible_matrices_def list_all_length split: option.splits)
    have r: "input_ready s A (dv_quantization v) i columns batch"
      using Suc.prems(3) False v by simp
    have "safe n held (launch_matrix s (Some v) i ?out batch False)
      (program_safe (buffer_elements n) held (concat (map (\<lambda>index. launch_matrix s (tensors ! index) i (map fst rs ! index) batch
        (index = 0 \<or> \<not> compatible_matrices tensors)) [Suc k..<length tensors])) K) A"
      by (rule launch_matrix_prepared_safe [OF _ r i(2) t(2) batch columns])
        (use t v in simp, rule K', use input_ready_mono [OF r] v in auto)
    then show ?thesis
      using False v by simp
  qed
  then show ?case
    using k by (simp add: upt_conv_Cons program_safe_append)
qed

lemma launch_matrices_safe:
  assumes shaped: "matrices_shaped n tensors rs columns batch" and outs: "outs = map fst rs"
    and len: "2 \<le> length tensors" "length tensors \<le> 4"
    and i: "has A i (batch * columns)" "within (buffer_elements n) i (batch * columns)"
    and batch: "0 < batch" "batch \<le> 32" and columns: "columns \<le> 17408"
    and K: "\<And>A'. A \<subseteq> A' \<Longrightarrow> list_all (\<lambda>(out, rows). has A' out (batch * rows)) rs \<Longrightarrow> K A'"
  shows "safe n held (launch_matrices s tensors outs i batch) K A"
proof -
  have lens: "length tensors = length rs"
    using shaped by (simp add: matrices_shaped_def list_all2_lengthD)
  have nonempty: "tensors \<noteq> []"
    using len by auto
  have nth: "matrix_shaped (tensors ! j) (snd (rs ! j)) columns" "within (buffer_elements n) (fst (rs ! j)) (batch * snd (rs ! j))"
    if "j < length rs" for j
    using shaped that lens by (auto simp: matrices_shaped_def list_all2_conv_all_nth case_prod_unfold)
  show ?thesis
  proof (cases "ss_tiled_weights s \<and> compatible_matrices tensors \<and> uses_i4 s (hd tensors)")
    case True
    have hd: "tensor_columns (the (hd tensors)) = columns"
    proof -
      have "0 < length rs"
        using len(1) lens by linarith
      then show ?thesis
        using nth(1) [of 0] nonempty by (auto simp: matrix_shaped_def hd_conv_nth)
    qed
    define bindings where "bindings = map fused_binding (zip tensors outs)"
    have writes: "map (\<lambda>m. (fm_output m, batch * fm_rows m)) bindings = map (\<lambda>(out, rows). (out, batch * rows)) rs"
      using nth(1) lens by (auto simp: bindings_def outs fused_binding_def matrix_shaped_def intro!: nth_equalityI)
        (metis (no_types, lifting) matrix_shaped_def nth(1) option.sel snd_conv case_prod_conv prod.collapse)
    have "batch * (columns div 2) \<le> 32 * 8704" "batch * (columns div 128) \<le> 32 * 136"
      using batch columns by (intro mult_le_mono; simp)+
    moreover have "list_all (\<lambda>(p, m). within (buffer_elements n) p m) (map (\<lambda>(out, rows). (out, batch * rows)) rs)"
      using nth(2) by (auto simp: list_all_length case_prod_unfold)
    ultimately have "safe n held (quantize_i4 i columns batch
        @ [Launch (Lowbit (Gfx12_I4_Gemm_Fused format bindings (Arena Activation_Codes 0) (Arena Activation_Scales 0)
            columns batch (ss_sequential_w3 s)))]) K A" for format
      unfolding program_safe_append
      by (intro quantize_i4_safe [OF i batch(2) columns] launch_safe)
        (auto simp: writes buffer_elements_simps list_all_iff intro!: K)
    then show ?thesis
      using True len lens nonempty hd by (simp add: launch_matrices_def Let_def bindings_def outs)
  next
    case False
    then have "launch_matrices s tensors outs i batch = concat (map (\<lambda>index. launch_matrix s (tensors ! index) i
        (map fst rs ! index) batch (index = 0 \<or> \<not> compatible_matrices tensors)) [0..<length tensors])"
      using lens nonempty by (auto simp: launch_matrices_def Let_def outs)
    then show ?thesis
      using matrices_loop_safe [OF shaped i batch columns, of 0] K by simp
  qed
qed

section \<open>Layers\<close>

lemma has_join: "has A (Arena b i) m \<Longrightarrow> has A (Arena b (i + m)) k \<Longrightarrow> has A (Arena b i) (m + k)"
  by (auto simp: has_def subset_iff) (metis Suc_leI add.assoc not_less_eq_eq not_le)

lemma launch_mlp_down_safe:
  assumes shape: "matrix_shaped down 5120 17408" and quantized: "ss_tiled_weights s \<or> \<not> uses_i4 s down"
    and inputs: "has A (Arena Gate_Output 0) (batch * 17408)" "has A (Arena Up_Output 0) (batch * 17408)"
    and batch: "0 < batch" "batch \<le> 32"
    and K: "\<And>A'. A \<subseteq> A' \<Longrightarrow> has A' (Arena MLP_Update 0) (batch * 5120) \<Longrightarrow> K A'"
  shows "safe n held (launch_mlp_down s down batch) K A"
proof -
  obtain v where v: "down = Some v"
    using shape by (auto simp: matrix_shaped_def)
  have sizes: "batch * 17408 \<le> 557056" "batch * 5120 \<le> 163840" "batch * 8704 \<le> 557056" "batch * 136 \<le> 4352"
    using batch by simp_all
  show ?thesis
  proof (cases "uses_i4 s down")
    case True
    then have i4: "ss_tiled_weights s" "wants_i4 (dc_activation_mode (ss_config s)) (dv_quantization v)"
      using quantized by (auto simp: uses_i4_def v)
    have "safe n held (launch_matrix s (Some v) (Arena Activated 0) (Arena MLP_Update 0) batch False) K B"
      if "A \<subseteq> B" "has B (Arena Activation_Codes 0) (batch * 8704)" "has B (Arena Activation_Scales 0) (batch * 136)" for B
      by (rule launch_matrix_prepared_safe [where rows = 5120 and columns = 17408])
        (use that shape v batch sizes i4 K in \<open>simp_all add: input_ready_def buffer_elements_simps\<close>)
    then show ?thesis
      unfolding launch_mlp_down_def if_P [OF True] append_Cons append_Nil using inputs sizes
      by (intro launch_safe) (simp_all add: buffer_elements_simps kIntermediate_def v)
  next
    case False
    have "safe n held (launch_matrix s down (Arena Activated 0) (Arena MLP_Update 0) batch True) K B"
      if "A \<subseteq> B" "has B (Arena Activated 0) (batch * 17408)" for B
      by (rule launch_matrix_safe [OF shape that(2)])
        (use that(1) batch sizes K in \<open>simp_all add: buffer_elements_simps\<close>)
    then show ?thesis
      unfolding launch_mlp_down_def if_not_P [OF False] append_Cons append_Nil using inputs sizes
      by (intro launch_safe) (simp_all add: buffer_elements_simps kIntermediate_def)
  qed
qed

lemma residual_norm_safe:
  assumes "has A residual (batch * 5120)" "within (buffer_elements n) residual (batch * 5120)"
    and "has A update (batch * 5120)" "within (buffer_elements n) update (batch * 5120)"
    and "within (buffer_elements n) out (batch * 5120)" "within (buffer_elements n) norm (batch * 5120)"
    and "\<And>A'. A \<subseteq> A' \<Longrightarrow> has A' out (batch * 5120) \<Longrightarrow> has A' norm (batch * 5120) \<Longrightarrow> K A'"
  shows "safe n held (residual_norm residual update out w norm batch) K A"
  unfolding residual_norm_def using assms by (intro launch_safe) (simp_all add: kHidden_def hidden_size_def)

lemma launch_mlp_safe:
  assumes shape: "matrix_shaped (lb_mlp_gate l) 17408 5120" "matrix_shaped (lb_mlp_up l) 17408 5120"
      "matrix_shaped (lb_mlp_down l) 5120 17408"
    and quantized: "down_quantized s l"
    and i: "has A i (batch * 5120)" "within (buffer_elements n) i (batch * 5120)"
    and mixer: "has A (Arena Mixer_Update 0) (batch * 5120)"
    and out: "within (buffer_elements n) out (batch * 5120)"
    and batch: "0 < batch" "batch \<le> 32"
    and K: "\<And>A'. A \<subseteq> A' \<Longrightarrow> has A' out (batch * 5120) \<Longrightarrow> has A' (Arena Normalized 0) (batch * 5120) \<Longrightarrow> K A'"
  shows "safe n held (launch_mlp s l i out w batch) K A"
proof -
  have sizes: "batch * 5120 \<le> 163840" "batch * 17408 \<le> 557056"
    using batch by simp_all
  let ?el = "buffer_elements n"
  define last where "last = residual_norm (Arena Post_Attention 0) (Arena MLP_Update 0) out w (Arena Normalized 0) batch"
  have last: "safe n held last K D" if "A \<subseteq> D" "has D (Arena Post_Attention 0) (batch * 5120)"
    "has D (Arena MLP_Update 0) (batch * 5120)" for D
    unfolding last_def
    by (rule residual_norm_safe) (use that sizes out K in \<open>simp_all add: buffer_elements_simps\<close>)
  have down: "safe n held (launch_mlp_down s (lb_mlp_down l) batch @ last) K C"
    if "A \<subseteq> C" "has C (Arena Post_Attention 0) (batch * 5120)" "has C (Arena Gate_Output 0) (batch * 17408)"
      "has C (Arena Up_Output 0) (batch * 17408)" for C
    unfolding program_safe_append
    by (rule launch_mlp_down_safe [OF shape(3) _ that(3,4) batch])
      (use quantized in \<open>simp add: down_quantized_def\<close>, rule last, use that has_mono in \<open>auto\<close>)
  have gate: "safe n held (launch_matrices s [lb_mlp_gate l, lb_mlp_up l] [Arena Gate_Output 0, Arena Up_Output 0]
      (Arena Post_Normalized 0) batch @ launch_mlp_down s (lb_mlp_down l) batch @ last) K B"
    if "A \<subseteq> B" "has B (Arena Post_Attention 0) (batch * 5120)" "has B (Arena Post_Normalized 0) (batch * 5120)" for B
    unfolding program_safe_append [of _ _ "launch_matrices s ts outs j b" for ts outs j b]
    by (rule launch_matrices_safe [where rs = "[(Arena Gate_Output 0, 17408), (Arena Up_Output 0, 17408)]" and columns = 5120])
      (use shape that sizes batch has_mono in \<open>auto simp: matrices_shaped_def buffer_elements_simps intro!: down\<close>)
  show ?thesis
    unfolding launch_mlp_def last_def [symmetric] program_safe_append [of _ _ "residual_norm r u p v q b" for r u p v q b]
    by (rule residual_norm_safe [OF i mixer]) (use sizes gate in \<open>simp_all add: buffer_elements_simps\<close>)
qed

subsection \<open>Attention\<close>

text \<open>The first \<open>t\<close> tokens of a pair of caches from an offset on.\<close>

definition kv_ready :: "cells \<Rightarrow> buffer \<Rightarrow> buffer \<Rightarrow> nat \<Rightarrow> nat \<Rightarrow> bool" where
  "kv_ready A kc vc off t \<longleftrightarrow> has A (Arena kc off) (t * 1024) \<and> has A (Arena vc off) (t * 1024)"

lemma kv_ready_mono: "kv_ready A kc vc off t \<Longrightarrow> A \<subseteq> B \<Longrightarrow> kv_ready B kc vc off t"
  by (auto simp: kv_ready_def intro: has_mono)

lemma kv_ready_append:
  assumes "kv_ready A kc vc off t" "has A (Arena kc (off + t * 1024)) (m * 1024)" "has A (Arena vc (off + t * 1024)) (m * 1024)"
  shows "kv_ready A kc vc off (t + m)"
  using assms has_join by (simp add: kv_ready_def add_mult_distrib)

lemma project_qkv_safe:
  assumes shape: "matrix_shaped (lb_q l) 12288 5120" "matrix_shaped (lb_k l) 1024 5120" "matrix_shaped (lb_v l) 1024 5120"
    and i: "has A (Arena Normalized 0) (batch * 5120)" and batch: "0 < batch" "batch \<le> 32"
    and K: "\<And>A'. A \<subseteq> A' \<Longrightarrow> has A' (Arena Projected_Main 0) (batch * 12288) \<Longrightarrow>
      has A' (Arena Projected_K 0) (batch * 1024) \<Longrightarrow> has A' (Arena Projected_V 0) (batch * 1024) \<Longrightarrow> K A'"
  shows "safe n held (project_qkv s l batch) K A"
  unfolding project_qkv_def
  by (rule launch_matrices_safe [OF _ _ _ _ i,
        where rs = "[(Arena Projected_Main 0, 12288), (Arena Projected_K 0, 1024), (Arena Projected_V 0, 1024)]"])
    (use shape batch K in \<open>simp_all add: matrices_shaped_def buffer_elements_simps\<close>)

lemma project_gdn_safe:
  assumes shape: "matrix_shaped (lb_qkv l) 10240 5120" "matrix_shaped (lb_z l) 6144 5120"
      "matrix_shaped (lb_a l) 48 5120" "matrix_shaped (lb_b l) 48 5120"
    and i: "has A (Arena Normalized 0) (batch * 5120)" and batch: "0 < batch" "batch \<le> 32"
    and K: "\<And>A'. A \<subseteq> A' \<Longrightarrow> has A' (Arena Projected_Main 0) (batch * 10240) \<Longrightarrow>
      has A' (Arena Projected_Z 0) (batch * 6144) \<Longrightarrow> has A' (Arena Projected_A 0) (batch * 48) \<Longrightarrow>
      has A' (Arena Projected_B 0) (batch * 48) \<Longrightarrow> K A'"
  shows "safe n held (project_gdn s l batch) K A"
  unfolding project_gdn_def
  by (rule launch_matrices_safe [OF _ _ _ _ i,
        where rs = "[(Arena Projected_Main 0, 10240), (Arena Projected_Z 0, 6144), (Arena Projected_A 0, 48), (Arena Projected_B 0, 48)]"])
    (use shape batch K in \<open>simp_all add: matrices_shaped_def buffer_elements_simps\<close>)

text \<open>
  The three calls of attention for \<open>batch\<close> tokens behind \<open>position\<close>; \<open>xs\<close> is what the calls
  with a position on the device read besides.
\<close>

lemma attention_safe:
  assumes r: "kernel_reads held r = [(Arena Projected_Main 0, batch * 12288), (Arena Projected_K 0, batch * 1024)] @ xs"
      "kernel_writes held r = [(Arena Query 0, batch * 6144), (Arena Key 0, batch * 1024)]"
    and a: "kernel_reads held a = [(Arena Key 0, batch * 1024), (Arena Projected_V 0, batch * 1024)] @ xs"
      "kernel_writes held a = [(Arena kc (off + position * 1024), batch * 1024), (Arena vc (off + position * 1024), batch * 1024)]"
    and g: "kernel_reads held g = [(Arena Query 0, batch * 6144), (Arena Projected_Main 0, batch * 12288)] @ xs
        @ [(Arena kc off, (position + batch) * 1024), (Arena vc off, (position + batch) * 1024)]"
      "kernel_writes held g = [(Arena Attention_Output 0, batch * 6144)]"
    and xs: "list_all (\<lambda>(q, m). has A q m \<and> within (buffer_elements n) q m) xs"
    and projected: "has A (Arena Projected_Main 0) (batch * 12288)" "has A (Arena Projected_K 0) (batch * 1024)"
      "has A (Arena Projected_V 0) (batch * 1024)"
    and kv: "kv_ready A kc vc off position"
    and room: "off + (position + batch) * 1024 \<le> buffer_elements n kc" "off + (position + batch) * 1024 \<le> buffer_elements n vc"
    and batch: "batch \<le> 32"
    and K: "\<And>A'. A \<subseteq> A' \<Longrightarrow> has A' (Arena Attention_Output 0) (batch * 6144) \<Longrightarrow>
      kv_ready A' kc vc off (position + batch) \<Longrightarrow> K A'"
  shows "safe n held [Launch r, Launch a, Launch g] K A"
proof -
  have sizes: "batch * 12288 \<le> 393216" "batch * 1024 \<le> 32768" "batch * 6144 \<le> 196608"
    using batch by simp_all
  have xs_mono: "list_all (\<lambda>(q, m). has B q m \<and> within (buffer_elements n) q m) xs" if "A \<subseteq> B" for B
    using xs that by (auto simp: list_all_iff intro: has_mono)
  show ?thesis
  proof (rule launch_safe)
    fix B assume B: "A \<subseteq> B" "list_all (\<lambda>(p, m). has B p m) (kernel_writes held r)"
    show "safe n held [Launch a, Launch g] K B"
    proof (rule launch_safe)
      fix C assume C: "B \<subseteq> C" "list_all (\<lambda>(p, m). has C p m) (kernel_writes held a)"
      have AC: "A \<subseteq> C"
        using B C by blast
      have kv': "kv_ready C kc vc off (position + batch)"
        by (rule kv_ready_append [OF kv_ready_mono [OF kv AC]]) (use C(2) in \<open>simp_all add: a\<close>)
      show "safe n held [Launch g] K C"
        by (rule launch_safe)
          (use xs_mono [OF AC] has_mono [OF _ AC] has_mono [OF _ C(1)] B(2) projected kv' sizes room AC
            in \<open>auto simp: g r kv_ready_def buffer_elements_simps intro!: K kv_ready_mono [OF kv', unfolded kv_ready_def]
              intro: has_mono [of C]\<close>)
    qed (use xs_mono [OF B(1)] has_mono [OF _ B(1)] B(2) projected sizes room in \<open>auto simp: a r buffer_elements_simps algebra_simps\<close>)
  qed (use xs projected sizes in \<open>auto simp: r buffer_elements_simps\<close>)
qed

subsection \<open>One layer\<close>

definition states_assigned :: "session \<Rightarrow> bool" where
  "states_assigned s \<longleftrightarrow>
     (ss_conv_states s, ss_conv_snapshot s, ss_gdn_states s, ss_gdn_snapshot s)
       \<in> {(Conv_States, Conv_Snapshot, GDN_States, GDN_Snapshot), (Conv_Snapshot, Conv_States, GDN_Snapshot, GDN_States)}"

definition index_ok :: "layer_bindings \<Rightarrow> bool" where
  "index_ok l \<longleftrightarrow> lb_state_index l < (if lb_attention l then 16 else 48)"

text \<open>The recurrent states of one layer in a pair of buffers.\<close>

definition gdn_ready :: "cells \<Rightarrow> buffer \<Rightarrow> buffer \<Rightarrow> nat \<Rightarrow> bool" where
  "gdn_ready A conv gdn index \<longleftrightarrow> has A (Arena conv (index * 40960)) 40960 \<and> has A (Arena gdn (index * 786432)) 786432"

definition log_ready :: "cells \<Rightarrow> nat \<Rightarrow> nat \<Rightarrow> bool" where
  "log_ready A batch index \<longleftrightarrow>
     has A (Arena Conv_Rollback_Log (index * 327680)) (batch * 10240)
     \<and> has A (Arena GDN_Key_Log (index * 65536)) (batch * 2048)
     \<and> has A (Arena GDN_Delta_Log (index * 196608)) (batch * 6144)
     \<and> has A (Arena GDN_Decay_Log (index * 1536)) (batch * 48)"

definition layer_pre :: "session \<Rightarrow> nat \<Rightarrow> layer_bindings \<Rightarrow> cells \<Rightarrow> bool" where
  "layer_pre s position l A \<longleftrightarrow>
     (if lb_attention l then kv_ready A Key_Caches Value_Caches (cache_offset s l) position
      else gdn_ready A (ss_conv_states s) (ss_gdn_states s) (lb_state_index l))"

definition layer_post :: "session \<Rightarrow> nat \<Rightarrow> nat \<Rightarrow> layer_bindings \<Rightarrow> cells \<Rightarrow> bool" where
  "layer_post s position batch l A \<longleftrightarrow>
     (if lb_attention l then kv_ready A Key_Caches Value_Caches (cache_offset s l) (position + batch)
      else if ss_record_rollback s
      then gdn_ready A (ss_conv_snapshot s) (ss_gdn_snapshot s) (lb_state_index l) \<and> log_ready A batch (lb_state_index l)
      else True)"

lemma gdn_ready_mono: "gdn_ready A c g i \<Longrightarrow> A \<subseteq> B \<Longrightarrow> gdn_ready B c g i"
  by (auto simp: gdn_ready_def intro: has_mono)

lemma log_ready_mono: "log_ready A b i \<Longrightarrow> A \<subseteq> B \<Longrightarrow> log_ready B b i"
  by (auto simp: log_ready_def intro: has_mono)

lemma layer_pre_mono: "layer_pre s p l A \<Longrightarrow> A \<subseteq> B \<Longrightarrow> layer_pre s p l B"
  by (auto simp: layer_pre_def intro: kv_ready_mono gdn_ready_mono)

lemma layer_post_mono: "layer_post s p b l A \<Longrightarrow> A \<subseteq> B \<Longrightarrow> layer_post s p b l B"
  by (auto simp: layer_post_def intro: kv_ready_mono gdn_ready_mono log_ready_mono split: if_splits)

lemma cache_room:
  assumes "index_ok l" "lb_attention l" "t \<le> dc_maximum_context_tokens (ss_config s)"
  shows "cache_offset s l + t * 1024 \<le> buffer_elements (dc_maximum_context_tokens (ss_config s)) Key_Caches"
    "cache_offset s l + t * 1024 \<le> buffer_elements (dc_maximum_context_tokens (ss_config s)) Value_Caches"
proof -
  let ?n = "dc_maximum_context_tokens (ss_config s)"
  have "lb_state_index l * ?n + ?n \<le> 16 * ?n"
    using mult_le_mono1 [of "Suc (lb_state_index l)" 16 ?n] assms(1,2) by (simp add: index_ok_def add.commute)
  then have "(lb_state_index l * ?n + t) * 1024 \<le> 16 * ?n * 1024"
    using assms(3) by (intro mult_le_mono1) linarith
  then show "cache_offset s l + t * 1024 \<le> buffer_elements ?n Key_Caches"
    "cache_offset s l + t * 1024 \<le> buffer_elements ?n Value_Caches"
    by (simp_all add: cache_offset_def buffer_elements_simps kv_elements_def algebra_simps)
qed

text \<open>What the mixer of a layer leaves behind, and the rest of the layer.\<close>

definition hidden_buffer :: "pointer \<Rightarrow> bool" where
  "hidden_buffer p \<longleftrightarrow> p = Arena Hidden_A 0 \<or> p = Arena Hidden_B 0"

lemma layer_tail_safe:
  assumes shape: "layer_shaped l" and quantized: "down_quantized s l"
    and i: "has A i (batch * 5120)" "hidden_buffer i" and out: "hidden_buffer out"
    and mixed: "has A (Arena b 0) (batch * 6144)" "b = Attention_Output \<or> b = GDN_Output"
    and batch: "0 < batch" "batch \<le> 32"
    and K: "\<And>A'. A \<subseteq> A' \<Longrightarrow> has A' out (batch * 5120) \<Longrightarrow> has A' (Arena Normalized 0) (batch * 5120) \<Longrightarrow> K A'"
  shows "safe n held (launch_matrix s (lb_out l) (Arena b 0) (Arena Mixer_Update 0) batch True
    @ launch_mlp s l i out w batch) K A"
  unfolding program_safe_append
proof (rule launch_matrix_safe [OF _ mixed(1)])
  show "matrix_shaped (lb_out l) 5120 6144"
    using shape by (simp add: layer_shaped_def)
  fix B assume B: "A \<subseteq> B" "has B (Arena Mixer_Update 0) (batch * 5120)"
  show "safe n held (launch_mlp s l i out w batch) K B"
    by (rule launch_mlp_safe [OF _ _ _ quantized has_mono [OF i(1) B(1)] _ B(2)])
      (use shape i(2) out batch B(1) K in \<open>auto simp: layer_shaped_def hidden_buffer_def buffer_elements_simps\<close>)
qed (use mixed(2) batch in \<open>auto simp: buffer_elements_simps\<close>)

lemma launch_layer_safe:
  assumes shape: "layer_shaped l" "down_quantized s l" "index_ok l" and states: "states_assigned s"
    and room: "ss_current_position s < n" "n = dc_maximum_context_tokens (ss_config s)"
    and recording: "\<not> ss_record_rollback s"
    and i: "has A i 5120" "hidden_buffer i" and out: "hidden_buffer out"
    and norm: "has A (Arena Normalized 0) 5120" and pre: "layer_pre s (ss_current_position s) l A"
    and K: "\<And>A'. A \<subseteq> A' \<Longrightarrow> has A' out 5120 \<Longrightarrow> has A' (Arena Normalized 0) 5120 \<Longrightarrow> layer_post s (ss_current_position s) 1 l A' \<Longrightarrow> K A'"
  shows "safe n held (launch_layer s l i out w) K A"
proof (cases "lb_attention l")
  case True
  have kv: "kv_ready A Key_Caches Value_Caches (cache_offset s l) (ss_current_position s)"
    using pre True by (simp add: layer_pre_def)
  have tail: "safe n held (launch_matrix s (lb_out l) (Arena Attention_Output 0) (Arena Mixer_Update 0) 1 True
      @ launch_mlp s l i out w 1) K C"
    if "A \<subseteq> C" "has C (Arena Attention_Output 0) (1 * 6144)"
      "kv_ready C Key_Caches Value_Caches (cache_offset s l) (ss_current_position s + 1)" for C
    by (rule layer_tail_safe [OF shape(1,2) _ i(2) out that(2)])
      (use that i has_mono K kv_ready_mono True in \<open>auto simp: layer_post_def\<close>)
  have fits: "cache_offset s l + (ss_current_position s + 1) * 1024 \<le> buffer_elements n Key_Caches"
    "cache_offset s l + (ss_current_position s + 1) * 1024 \<le> buffer_elements n Value_Caches"
    unfolding room(2) by (rule cache_room [OF shape(3) True]; use room in simp)+
  show ?thesis
    unfolding launch_layer_def Let_def if_P [OF True] append_assoc
    unfolding program_safe_append [of _ _ "project_qkv s l b" for b] program_safe_append [of _ _ "[x, y, z]" for x y z]
  proof (rule project_qkv_safe)
    fix B assume B: "A \<subseteq> B" "has B (Arena Projected_Main 0) (1 * 12288)" "has B (Arena Projected_K 0) (1 * 1024)"
      "has B (Arena Projected_V 0) (1 * 1024)"
    show "safe n held [Launch (rope l (ss_current_position s) 1),
        Launch (Attention_Op (KV_Append (Arena Key 0) (Arena Projected_V 0) (Arena Key_Caches (cache_offset s l))
          (Arena Value_Caches (cache_offset s l)) (ss_current_position s) (dc_maximum_context_tokens (ss_config s)))),
        Launch (Attention_Op (Gated_Attention_Decode (Arena Query 0) (Arena Projected_Main 0) (Arena Key_Caches (cache_offset s l))
          (Arena Value_Caches (cache_offset s l)) (Arena Attention_Output 0) (ss_current_position s + 1)
          (dc_maximum_context_tokens (ss_config s))))]
      (safe n held (launch_matrix s (lb_out l) (Arena Attention_Output 0) (Arena Mixer_Update 0) 1 True
        @ launch_mlp s l i out w 1) K) B"
      by (rule attention_safe [where xs = "[]" and batch = 1 and position = "ss_current_position s"
            and kc = Key_Caches and vc = Value_Caches and off = "cache_offset s l"])
        (use B kv_ready_mono [OF kv B(1)] fits room tail
          in \<open>auto simp: rope_def kv_elements_def query_elements_def\<close>)
  qed (use shape(1) True norm in \<open>auto simp: layer_shaped_def\<close>)
next
  case False
  let ?i = "lb_state_index l"
  have idx: "?i < 48" and buffers: "ss_conv_states s \<in> {Conv_States, Conv_Snapshot}" "ss_gdn_states s \<in> {GDN_States, GDN_Snapshot}"
    using shape(3) False states by (auto simp: index_ok_def states_assigned_def)
  have gdn: "gdn_ready A (ss_conv_states s) (ss_gdn_states s) ?i"
    using pre False by (simp add: layer_pre_def)
  have sizes: "?i * 40960 + 40960 \<le> buffer_elements n (ss_conv_states s)"
    "?i * 786432 + 786432 \<le> buffer_elements n (ss_gdn_states s)"
    using buffers idx by (auto simp: buffer_elements_simps)
  have tail: "safe n held (launch_matrix s (lb_out l) (Arena GDN_Output 0) (Arena Mixer_Update 0) 1 True
      @ launch_mlp s l i out w 1) K C" if "A \<subseteq> C" "has C (Arena GDN_Output 0) (1 * 6144)" for C
    by (rule layer_tail_safe [OF shape(1,2) _ i(2) out that(2)])
      (use that i has_mono K False recording in \<open>auto simp: layer_post_def\<close>)
  show ?thesis
    unfolding launch_layer_def Let_def if_not_P [OF False] append_assoc
    unfolding program_safe_append [of _ _ "project_gdn s l b" for b] append_Cons append_Nil
  proof (rule project_gdn_safe)
    fix B assume B: "A \<subseteq> B" "has B (Arena Projected_Main 0) (1 * 10240)" "has B (Arena Projected_Z 0) (1 * 6144)"
      "has B (Arena Projected_A 0) (1 * 48)" "has B (Arena Projected_B 0) (1 * 48)"
    show "safe n held (Launch (State_Op (GDN_Conv_Update (Arena Projected_Main 0) (norm_of (lb_convolution l))
          (Arena (ss_conv_states s) (?i * kConvStateElements)) (Arena Convolved_QKV 0)))
        # Launch (State_Op (GDN_Recurrent_Decode (Arena Convolved_QKV 0) (Arena Projected_Z 0) (Arena Projected_A 0)
          (Arena Projected_B 0) (norm_of (lb_a_log l)) (norm_of (lb_dt_bias l)) (norm_of (lb_gdn_norm l))
          (Arena (ss_gdn_states s) (?i * gdn_state_elements)) (Arena GDN_Output 0)))
        # launch_matrix s (lb_out l) (Arena GDN_Output 0) (Arena Mixer_Update 0) 1 True
        @ launch_mlp s l i out w 1) K B"
      by (intro launch_safe)
        (use B gdn_ready_mono [OF gdn B(1)] has_mono sizes tail
          in \<open>auto simp: session_constants buffer_elements_simps gdn_ready_def\<close>)
  qed (use shape(1) False norm in \<open>auto simp: layer_shaped_def\<close>)
qed

text \<open>
  The position of a block: the session's, or the one the device holds in the graph's cell.
\<close>

definition position_source :: "session \<Rightarrow> (pointer \<Rightarrow> nat) \<Rightarrow> cells \<Rightarrow> pointer option \<Rightarrow> nat \<Rightarrow> bool" where
  "position_source s held A device_position position \<longleftrightarrow>
     (case device_position of
        None \<Rightarrow> position = ss_current_position s
      | Some p \<Rightarrow> p = Arena Graph_Base_Position 0 \<and> held p = position \<and> has A p 1)"

lemma position_source_mono: "position_source s held A dp p \<Longrightarrow> A \<subseteq> B \<Longrightarrow> position_source s held B dp p"
  by (auto simp: position_source_def intro: has_mono split: option.splits)

lemma attention_block_safe:
  assumes source: "position_source s held A device_position position"
    and index: "index_ok l" "lb_attention l" and room: "position + batch \<le> n" "n = dc_maximum_context_tokens (ss_config s)"
    and projected: "has A (Arena Projected_Main 0) (batch * 12288)" "has A (Arena Projected_K 0) (batch * 1024)"
      "has A (Arena Projected_V 0) (batch * 1024)"
    and kv: "kv_ready A Key_Caches Value_Caches (cache_offset s l) position"
    and batch: "0 < batch" "batch \<le> 32"
    and K: "\<And>A'. A \<subseteq> A' \<Longrightarrow> has A' (Arena Attention_Output 0) (batch * 6144) \<Longrightarrow>
      kv_ready A' Key_Caches Value_Caches (cache_offset s l) (position + batch) \<Longrightarrow> K A'"
  shows "safe n held (attention_block s l batch device_position) K A"
proof -
  have fits: "cache_offset s l + (position + batch) * 1024 \<le> buffer_elements n Key_Caches"
    "cache_offset s l + (position + batch) * 1024 \<le> buffer_elements n Value_Caches"
    unfolding room(2) by (rule cache_room [OF index]; use room in simp)+
  show ?thesis
  proof (cases device_position)
    case None
    then have position: "ss_current_position s = position"
      using source by (simp add: position_source_def)
    show ?thesis
      unfolding attention_block_def Let_def None option.case position
      by (rule attention_safe [where xs = "[]", OF _ _ _ _ _ _ _ projected kv fits batch(2) K])
        (use batch in \<open>simp_all add: rope_def kv_elements_def query_elements_def\<close>)
  next
    case (Some p)
    then have p: "held p = position" "has A p 1" "p = Arena Graph_Base_Position 0"
      using source by (auto simp: position_source_def)
    show ?thesis
      unfolding attention_block_def Let_def Some option.case
      by (rule attention_safe [where xs = "[(p, 1)]", OF _ _ _ _ _ _ _ projected kv fits batch(2) K])
        (use p in \<open>simp_all add: rope_indirect_def kv_elements_def query_elements_def buffer_elements_simps\<close>)
  qed
qed

lemma gdn_block_safe:
  assumes index: "lb_state_index l < 48" "\<not> lb_attention l" and states: "states_assigned s"
    and projected: "has A (Arena Projected_Main 0) (batch * 10240)" "has A (Arena Projected_Z 0) (batch * 6144)"
      "has A (Arena Projected_A 0) (batch * 48)" "has A (Arena Projected_B 0) (batch * 48)"
    and gdn: "gdn_ready A (ss_conv_states s) (ss_gdn_states s) (lb_state_index l)"
    and batch: "0 < batch" "batch \<le> 32"
    and K: "\<And>A'. A \<subseteq> A' \<Longrightarrow> has A' (Arena GDN_Output 0) (batch * 6144) \<Longrightarrow> layer_post s position batch l A' \<Longrightarrow> K A'"
  shows "safe n held (gdn_block s l batch) K A"
proof -
  let ?i = "lb_state_index l"
  have buffers: "ss_conv_states s \<in> {Conv_States, Conv_Snapshot}" "ss_gdn_states s \<in> {GDN_States, GDN_Snapshot}"
    "ss_conv_snapshot s \<in> {Conv_States, Conv_Snapshot}" "ss_gdn_snapshot s \<in> {GDN_States, GDN_Snapshot}"
    using states by (auto simp: states_assigned_def)
  have sizes: "?i * 40960 + 40960 \<le> buffer_elements n (ss_conv_states s)" "?i * 40960 + 40960 \<le> buffer_elements n (ss_conv_snapshot s)"
    "?i * 786432 + 786432 \<le> buffer_elements n (ss_gdn_states s)" "?i * 786432 + 786432 \<le> buffer_elements n (ss_gdn_snapshot s)"
    "?i * 327680 + batch * 10240 \<le> 15728640" "?i * 65536 + batch * 2048 \<le> 3145728"
    "?i * 196608 + batch * 6144 \<le> 9437184" "?i * 1536 + batch * 48 \<le> 73728"
    "batch * 10240 \<le> 327680" "batch * 6144 \<le> 196608" "batch * 48 \<le> 1536" "batch * 10240 \<le> 393216"
    using buffers index(1) batch by (auto simp: buffer_elements_simps)
  note ready = gdn [unfolded gdn_ready_def]
  show ?thesis
  proof (cases "ss_record_rollback s")
    case True
    show ?thesis
      unfolding gdn_block_def Let_def if_P [OF True]
    proof (rule launch_safe, goal_cases)
      case B: (3 B)
      have conv: "has B (Arena (ss_conv_snapshot s) (?i * 40960)) 40960" "has B (Arena Convolved_QKV 0) (batch * 10240)"
        "has B (Arena Conv_Rollback_Log (?i * 327680)) (batch * 10240)"
        using B(2) by (simp_all add: session_constants)
      show ?case
      proof (rule launch_safe, goal_cases)
        case C: (3 C)
        have "A \<subseteq> C"
          using B(1) C(1) by blast
        then show ?case
          using C(2) has_mono [OF conv(1) C(1)] has_mono [OF conv(3) C(1)] True index(2)
          by (simp add: session_constants) (rule K, auto simp: layer_post_def gdn_ready_def log_ready_def)
      qed (use conv has_mono [OF _ B(1)] projected ready sizes in \<open>simp_all add: session_constants buffer_elements_simps\<close>)
    qed (use projected ready sizes in \<open>simp_all add: session_constants buffer_elements_simps\<close>)
  next
    case False
    show ?thesis
      unfolding gdn_block_def Let_def if_not_P [OF False]
      by (intro launch_safe)
        (use projected gdn sizes K index(2) False has_mono in
          \<open>auto simp: session_constants buffer_elements_simps gdn_ready_def layer_post_def\<close>)
  qed
qed

lemma launch_layer_block_safe:
  assumes shape: "layer_shaped l" "down_quantized s l" "index_ok l" and states: "states_assigned s"
    and source: "position_source s held A device_position position"
    and room: "position + batch \<le> n" "n = dc_maximum_context_tokens (ss_config s)"
    and batch: "0 < batch" "batch \<le> 32"
    and i: "has A i (batch * 5120)" "hidden_buffer i" and out: "hidden_buffer out"
    and norm: "has A (Arena Normalized 0) (batch * 5120)" and pre: "layer_pre s position l A"
    and K: "\<And>A'. A \<subseteq> A' \<Longrightarrow> has A' out (batch * 5120) \<Longrightarrow> has A' (Arena Normalized 0) (batch * 5120)
      \<Longrightarrow> layer_post s position batch l A' \<Longrightarrow> K A'"
  shows "safe n held (launch_layer_block s batch device_position l i out w) K A"
proof (cases "lb_attention l")
  case True
  have kv: "kv_ready A Key_Caches Value_Caches (cache_offset s l) position"
    using pre True by (simp add: layer_pre_def)
  have tail: "safe n held (launch_matrix s (lb_out l) (Arena Attention_Output 0) (Arena Mixer_Update 0) batch True
      @ launch_mlp s l i out w batch) K C"
    if "A \<subseteq> C" "has C (Arena Attention_Output 0) (batch * 6144)"
      "kv_ready C Key_Caches Value_Caches (cache_offset s l) (position + batch)" for C
    by (rule layer_tail_safe [OF shape(1,2) has_mono [OF i(1) that(1)] i(2) out that(2) _ batch])
      (use that K kv_ready_mono True in \<open>auto simp: layer_post_def\<close>)
  have core: "safe n held (attention_block s l batch device_position
      @ launch_matrix s (lb_out l) (Arena Attention_Output 0) (Arena Mixer_Update 0) batch True
      @ launch_mlp s l i out w batch) K B"
    if B: "A \<subseteq> B" "has B (Arena Projected_Main 0) (batch * 12288)" "has B (Arena Projected_K 0) (batch * 1024)"
      "has B (Arena Projected_V 0) (batch * 1024)" for B
    unfolding program_safe_append [of _ _ "attention_block s l batch dp" for dp]
    by (rule attention_block_safe [OF position_source_mono [OF source B(1)] shape(3) True room B(2,3,4)
          kv_ready_mono [OF kv B(1)] batch]) (use tail B(1) in auto)
  show ?thesis
    unfolding launch_layer_block_def if_P [OF True] append_assoc program_safe_append [of _ _ "project_qkv s l b" for b]
    by (rule project_qkv_safe [OF _ _ _ norm batch core]) (use shape(1) True in \<open>simp_all add: layer_shaped_def\<close>)
next
  case False
  have gdn: "gdn_ready A (ss_conv_states s) (ss_gdn_states s) (lb_state_index l)" and idx: "lb_state_index l < 48"
    using pre shape(3) False by (simp_all add: layer_pre_def index_ok_def)
  have tail: "safe n held (launch_matrix s (lb_out l) (Arena GDN_Output 0) (Arena Mixer_Update 0) batch True
      @ launch_mlp s l i out w batch) K C"
    if "A \<subseteq> C" "has C (Arena GDN_Output 0) (batch * 6144)" "layer_post s position batch l C" for C
    by (rule layer_tail_safe [OF shape(1,2) has_mono [OF i(1) that(1)] i(2) out that(2) _ batch])
      (use that K layer_post_mono in auto)
  have core: "safe n held (gdn_block s l batch
      @ launch_matrix s (lb_out l) (Arena GDN_Output 0) (Arena Mixer_Update 0) batch True
      @ launch_mlp s l i out w batch) K B"
    if B: "A \<subseteq> B" "has B (Arena Projected_Main 0) (batch * 10240)" "has B (Arena Projected_Z 0) (batch * 6144)"
      "has B (Arena Projected_A 0) (batch * 48)" "has B (Arena Projected_B 0) (batch * 48)" for B
    unfolding program_safe_append [of _ _ "gdn_block s l batch"]
    by (rule gdn_block_safe [OF idx False states B(2-5) gdn_ready_mono [OF gdn B(1)] batch]) (use tail B(1) in auto)
  show ?thesis
    unfolding launch_layer_block_def if_not_P [OF False] append_assoc program_safe_append [of _ _ "project_gdn s l b" for b]
    by (rule project_gdn_safe [OF _ _ _ _ norm batch core]) (use shape(1) False in \<open>simp_all add: layer_shaped_def\<close>)
qed

subsection \<open>All layers\<close>

lemma run_layers_safe:
  assumes step: "\<And>l A i out w K. l \<in> set ls \<Longrightarrow> A0 \<subseteq> A \<Longrightarrow> has A i m \<Longrightarrow> hidden_buffer i \<Longrightarrow> hidden_buffer out
      \<Longrightarrow> has A (Arena Normalized 0) m \<Longrightarrow>
      (\<And>A'. A \<subseteq> A' \<Longrightarrow> has A' out m \<Longrightarrow> has A' (Arena Normalized 0) m \<Longrightarrow> post l A' \<Longrightarrow> K A') \<Longrightarrow>
      safe n held (step l i out w) K A"
    and post_mono: "\<And>l A B. post l A \<Longrightarrow> A \<subseteq> B \<Longrightarrow> post l B"
    and start: "A0 \<subseteq> A" "has A current m" "hidden_buffer current" "hidden_buffer other" "has A (Arena Normalized 0) m"
    and K: "\<And>A'. A \<subseteq> A' \<Longrightarrow> has A' (snd (run_layers s step ls current other)) m \<Longrightarrow> has A' (Arena Normalized 0) m
      \<Longrightarrow> list_all (\<lambda>l. post l A') ls \<Longrightarrow> K A'"
  shows "safe n held (fst (run_layers s step ls current other)) K A"
  using step start K
proof (induction ls arbitrary: A current other K)
  case Nil
  then show ?case
    by simp
next
  case (Cons l ls)
  let ?rest = "run_layers s step ls other current"
  have rest: "safe n held (fst ?rest) K B"
    if B: "A \<subseteq> B" "has B other m" "has B (Arena Normalized 0) m" "post l B" for B
  proof (rule Cons.IH)
    show "K C" if "B \<subseteq> C" "has C (snd ?rest) m" "has C (Arena Normalized 0) m" "list_all (\<lambda>l. post l C) ls" for C
    proof (rule Cons.prems(7))
      show "list_all (\<lambda>l. post l C) (l # ls)"
        using that post_mono [OF B(4) that(1)] by simp
    qed (use that B(1) in \<open>auto simp: case_prod_unfold Let_def\<close>)
    show "A0 \<subseteq> B"
      using Cons.prems(2) B(1) by blast
    fix l' A i out w K
    assume "l' \<in> set ls" "A0 \<subseteq> A" "has A i m" "hidden_buffer i" "hidden_buffer out" "has A (Arena Normalized 0) m"
      "\<And>A'. A \<subseteq> A' \<Longrightarrow> has A' out m \<Longrightarrow> has A' (Arena Normalized 0) m \<Longrightarrow> post l' A' \<Longrightarrow> K A'"
    then show "safe n held (step l' i out w) K A"
      by (intro Cons.prems(1)) simp_all
  qed (use B Cons.prems in simp_all)
  show ?case
    unfolding run_layers.simps case_prod_unfold Let_def fst_conv program_safe_append
    by (rule Cons.prems(1)) (use Cons.prems(2-6) rest in simp_all)
qed

lemma run_layers_even:
  "snd (run_layers s step ls current other) = (if even (length ls) then current else other)"
  by (induction ls arbitrary: current other) (simp_all add: case_prod_unfold)

end
