(* ===== verification/SessionSafety.thy ===== *)
theory SessionSafety
  imports MemorySafety
begin

text \<open>
  Memory safety of the steps of a decode session, on an instrumented device that keeps the set of
  initialized cells beside the device itself.
\<close>

section \<open>Programs of the steps\<close>

lemma gather_row_safe:
  assumes "within (buffer_elements n) out 5120"
    and "case token of Direct t \<Rightarrow> True | Indirect p \<Rightarrow> has A p 1 \<and> within (buffer_elements n) p 1"
    and "\<And>A'. A \<subseteq> A' \<Longrightarrow> has A' out 5120 \<Longrightarrow> K A'"
  shows "safe n held (gather_row s out token) K A"
  using assms unfolding gather_row_def Let_def
  by (cases token; cases "ss_tiled_weights s"; intro launch_safe) (simp_all add: kHidden_def hidden_size_def)

text \<open>Gathering a block of rows fills the first rows of the hidden buffer.\<close>

lemma gather_block_safe:
  assumes token: "\<And>j. k \<le> j \<Longrightarrow> j < m \<Longrightarrow>
      (case token j of Direct t \<Rightarrow> True | Indirect p \<Rightarrow> has A p 1 \<and> within (buffer_elements n) p 1)"
    and rows: "has A (Arena Hidden_A 0) (k * 5120)" "k \<le> m" "m \<le> 32"
    and K: "\<And>A'. A \<subseteq> A' \<Longrightarrow> has A' (Arena Hidden_A 0) (m * 5120) \<Longrightarrow> K A'"
  shows "safe n held (concat (map (\<lambda>j. gather_row s (Arena Hidden_A (j * kHidden)) (token j)) [k..<m])) K A"
  using assms
proof (induction "m - k" arbitrary: k A)
  case 0
  then show ?case
    by simp
next
  case (Suc d)
  have k: "k < m"
    using Suc.hyps(2) by simp
  have "safe n held (gather_row s (Arena Hidden_A (k * kHidden)) (token k))
    (program_safe (buffer_elements n) held (concat (map (\<lambda>j. gather_row s (Arena Hidden_A (j * kHidden)) (token j)) [Suc k..<m])) K) A"
  proof (rule gather_row_safe)
    fix B assume B: "A \<subseteq> B" "has B (Arena Hidden_A (k * kHidden)) 5120"
    show "safe n held (concat (map (\<lambda>j. gather_row s (Arena Hidden_A (j * kHidden)) (token j)) [Suc k..<m])) K B"
    proof (rule Suc.hyps(1))
      show "has B (Arena Hidden_A 0) (Suc k * 5120)"
        using has_join [OF has_mono [OF Suc.prems(2) B(1)], of 5120] B(2)
        by (simp add: kHidden_def hidden_size_def add.commute)
      show "K C" if "B \<subseteq> C" "has C (Arena Hidden_A 0) (m * 5120)" for C
        using Suc.prems(5) that B(1) by blast
      show "case token j of Direct t \<Rightarrow> True | Indirect p \<Rightarrow> has B p 1 \<and> within (buffer_elements n) p 1"
        if "Suc k \<le> j" "j < m" for j
        using Suc.prems(1) [of j] that has_mono [OF _ B(1)] by (auto split: token_source.splits)
    qed (use Suc.hyps(2) k Suc.prems(4) in simp_all)
  qed (use Suc.prems(1,4) k in \<open>auto simp: kHidden_def hidden_size_def buffer_elements_simps\<close>)
  then show ?case
    using k by (simp add: upt_conv_Cons program_safe_append)
qed

definition session_ready :: "session \<Rightarrow> nat \<Rightarrow> cells \<Rightarrow> bool" where
  "session_ready s position A \<longleftrightarrow> list_all (\<lambda>l. layer_pre s position l A) (ss_layers s)"

lemma session_ready_mono: "session_ready s p A \<Longrightarrow> A \<subseteq> B \<Longrightarrow> session_ready s p B"
  by (auto simp: session_ready_def list_all_iff intro: layer_pre_mono)

definition session_advanced :: "session \<Rightarrow> nat \<Rightarrow> nat \<Rightarrow> cells \<Rightarrow> bool" where
  "session_advanced s position batch A \<longleftrightarrow> list_all (\<lambda>l. layer_post s position batch l A) (ss_layers s)"

lemma session_advanced_mono: "session_advanced s p b A \<Longrightarrow> A \<subseteq> B \<Longrightarrow> session_advanced s p b B"
  by (auto simp: session_advanced_def list_all_iff intro: layer_post_mono)

lemma session_layers:
  assumes "session_shaped s" "l \<in> set (ss_layers s)"
  shows "layer_shaped l" "down_quantized s l" "index_ok l"
proof -
  have "lb_state_index l \<in> set [0..<16]" if "lb_attention l"
  proof -
    have "lb_state_index l \<in> set (map lb_state_index (filter lb_attention (ss_layers s)))"
      using that assms(2) by simp
    then show ?thesis
      using assms(1) by (simp only: session_shaped_def)
  qed
  moreover have "lb_state_index l \<in> set [0..<48]" if "\<not> lb_attention l"
  proof -
    have "lb_state_index l \<in> set (map lb_state_index (filter (\<lambda>l. \<not> lb_attention l) (ss_layers s)))"
      using that assms(2) by simp
    then show ?thesis
      using assms(1) by (simp only: session_shaped_def)
  qed
  ultimately show "index_ok l"
    by (auto simp: index_ok_def)
qed (use assms in \<open>auto simp: session_shaped_def list_all_iff\<close>)

lemma hidden_buffers: "hidden_buffer (Arena Hidden_A 0)" "hidden_buffer (Arena Hidden_B 0)"
  by (simp_all add: hidden_buffer_def)

lemma greedy_layers_current: "session_shaped s \<Longrightarrow> snd (greedy_layers s t) = Arena Hidden_A 0"
  by (simp add: greedy_layers_def case_prod_unfold Let_def run_layers_even session_shaped_def)

lemma block_layers_current: "session_shaped s \<Longrightarrow> snd (block_layers s batch dp) = Arena Hidden_A 0"
  by (simp add: block_layers_def case_prod_unfold Let_def run_layers_even session_shaped_def)

lemma greedy_layers_safe:
  assumes s: "session_shaped s" "states_assigned s" "\<not> ss_record_rollback s"
    and room: "ss_current_position s < n" "n = dc_maximum_context_tokens (ss_config s)"
    and ready: "session_ready s (ss_current_position s) A"
    and K: "\<And>A'. A \<subseteq> A' \<Longrightarrow> has A' (Arena Hidden_A 0) 5120 \<Longrightarrow> has A' (Arena Normalized 0) 5120 \<Longrightarrow>
      session_advanced s (ss_current_position s) 1 A' \<Longrightarrow> K A'"
  shows "safe n held (fst (greedy_layers s t)) K A"
proof -
  have even: "snd (run_layers s (launch_layer s) (ss_layers s) (Arena Hidden_A 0) (Arena Hidden_B 0)) = Arena Hidden_A 0"
    using s(1) by (simp add: run_layers_even session_shaped_def)
  have layers: "safe n held (fst (run_layers s (launch_layer s) (ss_layers s) (Arena Hidden_A 0) (Arena Hidden_B 0))) K C"
    if C: "A \<subseteq> C" "has C (Arena Hidden_A 0) 5120" "has C (Arena Normalized 0) 5120" for C
  proof (rule run_layers_safe [where m = 5120 and post = "layer_post s (ss_current_position s) 1" and ?A0.0 = A])
    fix l D i out w K
    assume "l \<in> set (ss_layers s)" "A \<subseteq> D" and rest: "has D i 5120" "hidden_buffer i" "hidden_buffer out"
      "has D (Arena Normalized 0) 5120"
      "\<And>D'. D \<subseteq> D' \<Longrightarrow> has D' out 5120 \<Longrightarrow> has D' (Arena Normalized 0) 5120 \<Longrightarrow>
        layer_post s (ss_current_position s) 1 l D' \<Longrightarrow> K D'"
    moreover have "layer_pre s (ss_current_position s) l D"
      using ready calculation(1,2) by (auto simp: session_ready_def list_all_iff intro: layer_pre_mono)
    ultimately show "safe n held (launch_layer s l i out w) K D"
      by (intro launch_layer_safe [OF session_layers [OF s(1)] s(2) room s(3)]) simp_all
  qed (use C K even layer_post_mono in \<open>auto simp: hidden_buffers session_advanced_def\<close>)
  show ?thesis
    unfolding greedy_layers_def Let_def case_prod_unfold fst_conv append_Cons append_Nil program_safe_append
  proof (rule gather_row_safe)
    fix B assume B: "A \<subseteq> B" "has B (Arena Hidden_A 0) 5120"
    show "safe n held (Launch (State_Op (RMS_Norm (Arena Hidden_A 0) (norm_of (lb_input_norm (hd (ss_layers s))))
        (Arena Normalized 0) kHidden)) # fst (run_layers s (launch_layer s) (ss_layers s) (Arena Hidden_A 0) (Arena Hidden_B 0))) K B"
      using B by (intro launch_safe layers) (auto simp: kHidden_def hidden_size_def buffer_elements_simps intro: has_mono)
  qed (simp_all add: buffer_elements_simps)
qed

lemma greedy_head_safe:
  assumes s: "session_shaped s" and norm: "has A (Arena Normalized 0) 5120"
    and K: "\<And>A'. A \<subseteq> A' \<Longrightarrow> has A' (Arena Selected_Token 0) 1 \<Longrightarrow> K A'"
  shows "safe n held (greedy_head s) K A"
proof -
  have shape: "matrix_shaped (Some (ss_lm_head s)) 248320 5120"
    using s by (simp add: session_shaped_def)
  have argmax: "safe n held [Launch (Attention_Op (Argmax (Arena Logits 0) (Arena Selected_Token 0) tokenizer_vocabulary_size))] K B"
    if "A \<subseteq> B" "has B (Arena Logits 0) (1 * 248320)" for B
    using that K by (intro launch_safe) (auto simp: tokenizer_vocabulary_size_def buffer_elements_simps intro: has_less)
  show ?thesis
    unfolding greedy_head_def program_safe_append
    by (rule launch_matrix_safe [OF shape]) (use norm argmax in \<open>simp_all add: buffer_elements_simps\<close>)
qed

lemma block_head_safe:
  assumes s: "session_shaped s" and norm: "has A (Arena Normalized 0) (batch * 5120)" and batch: "0 < batch" "batch \<le> 32"
    and K: "\<And>A'. A \<subseteq> A' \<Longrightarrow> has A' (Arena Selected_Token 0) batch \<Longrightarrow> K A'"
  shows "safe n held (block_head s batch) K A"
proof -
  have shape: "matrix_shaped (Some (ss_lm_head s)) 248320 5120"
    using s by (simp add: session_shaped_def)
  have sizes: "batch * 5120 \<le> 163840" "batch * 248320 \<le> 7946240" "(batch - 1) * 248320 + 248077 \<le> batch * 248320"
    using batch by (simp_all add: diff_mult_distrib)
  have argmax: "safe n held [Launch (Attention_Op (Argmax_Batch (Arena Logits 0) (Arena Selected_Token 0)
      tokenizer_vocabulary_size vocabulary_size batch))] K B"
    if "A \<subseteq> B" "has B (Arena Logits 0) (batch * 248320)" for B
    using that K batch sizes
    by (intro launch_safe) (auto simp: tokenizer_vocabulary_size_def vocabulary_size_def buffer_elements_simps
        intro: has_less)
  show ?thesis
    unfolding block_head_def program_safe_append
    by (rule launch_matrix_safe [OF shape norm]) (use batch sizes argmax in \<open>simp_all add: buffer_elements_simps\<close>)
qed

text \<open>
  The layers over a block. The session whose program it is may be the one captured in a graph, so
  the position is a parameter.
\<close>

lemma block_layers_safe:
  assumes s: "session_shaped s" "states_assigned s" and source: "position_source s held A device_position position"
    and room: "position + batch \<le> n" "n = dc_maximum_context_tokens (ss_config s)" and batch: "0 < batch" "batch \<le> 32"
    and rows: "has A (Arena Hidden_A 0) (batch * 5120)" and ready: "session_ready s position A"
    and K: "\<And>A'. A \<subseteq> A' \<Longrightarrow> has A' (Arena Normalized 0) (batch * 5120) \<Longrightarrow>
      session_advanced s position batch A' \<Longrightarrow> K A'"
  shows "safe n held (fst (block_layers s batch device_position)) K A"
proof -
  let ?run = "run_layers s (launch_layer_block s batch device_position) (ss_layers s) (Arena Hidden_A 0) (Arena Hidden_B 0)"
  have layers: "safe n held (fst ?run) K C"
    if C: "A \<subseteq> C" "has C (Arena Normalized 0) (batch * 5120)" for C
  proof (rule run_layers_safe [where m = "batch * 5120" and post = "layer_post s position batch" and ?A0.0 = A])
    fix l D i out w K
    assume "l \<in> set (ss_layers s)" "A \<subseteq> D" and rest: "has D i (batch * 5120)" "hidden_buffer i" "hidden_buffer out"
      "has D (Arena Normalized 0) (batch * 5120)"
      "\<And>D'. D \<subseteq> D' \<Longrightarrow> has D' out (batch * 5120) \<Longrightarrow> has D' (Arena Normalized 0) (batch * 5120) \<Longrightarrow>
        layer_post s position batch l D' \<Longrightarrow> K D'"
    moreover have "layer_pre s position l D"
      using ready calculation(1,2) by (auto simp: session_ready_def list_all_iff intro: layer_pre_mono)
    ultimately show "safe n held (launch_layer_block s batch device_position l i out w) K D"
      by (intro launch_layer_block_safe [OF session_layers [OF s(1)] s(2) position_source_mono [OF source] room batch]) simp_all
  qed (use C K has_mono [OF rows] layer_post_mono in \<open>auto simp: hidden_buffers session_advanced_def\<close>)
  show ?thesis
    unfolding block_layers_def Let_def case_prod_unfold fst_conv append_Cons append_Nil
    using rows batch
    by (intro launch_safe layers) (auto simp: kHidden_def hidden_size_def buffer_elements_simps)
qed

lemma block_program_safe:
  assumes s: "session_shaped s" "states_assigned s" and source: "position_source s held A device_position position"
    and room: "position + batch \<le> n" "n = dc_maximum_context_tokens (ss_config s)" and batch: "0 < batch" "batch \<le> 32"
    and rows: "has A (Arena Hidden_A 0) (batch * 5120)" and ready: "session_ready s position A"
    and K: "\<And>A'. A \<subseteq> A' \<Longrightarrow> session_advanced s position batch A' \<Longrightarrow> has A' (Arena Selected_Token 0) batch \<Longrightarrow> K A'"
  shows "safe n held (fst (block_layers s batch device_position) @ block_head s batch) K A"
  unfolding program_safe_append
proof (rule block_layers_safe [OF s source room batch rows ready])
  fix B assume B: "A \<subseteq> B" "has B (Arena Normalized 0) (batch * 5120)" "session_advanced s position batch B"
  show "safe n held (block_head s batch) K B"
    by (rule block_head_safe [OF s(1) B(2) batch]) (use K B session_advanced_mono in auto)
qed

lemma verifier_safe:
  assumes s: "session_shaped s" "states_assigned s" and source: "position_source s held A device_position position"
    and room: "position + (drafts + 1) \<le> n" "n = dc_maximum_context_tokens (ss_config s)" and drafts: "drafts \<le> 31"
    and seed: "case seed of Direct t \<Rightarrow> True | Indirect p \<Rightarrow> has A p 1 \<and> within (buffer_elements n) p 1"
    and tokens: "has A (draft_token 0) drafts" and ready: "session_ready s position A"
    and K: "\<And>A'. A \<subseteq> A' \<Longrightarrow> session_advanced s position (drafts + 1) A' \<Longrightarrow> has A' (Arena Selected_Token 0) (drafts + 1)
      \<Longrightarrow> has A' (Arena Hidden_A 0) ((drafts + 1) * 5120) \<Longrightarrow> K A'"
  shows "safe n held (enqueue_verifier_body s seed drafts device_position) K A"
proof -
  let ?token = "\<lambda>j. if j = 0 then seed else Indirect (draft_token (j - 1))"
  have "concat (map (\<lambda>index. gather_row s (Arena Hidden_A ((index + 1) * kHidden)) (Indirect (draft_token index))) [0..<drafts])
      = concat (map (\<lambda>j. gather_row s (Arena Hidden_A (j * kHidden)) (?token j)) [Suc 0..<Suc drafts])"
    by (simp add: map_Suc_upt [symmetric] comp_def del: upt_Suc map_Suc_upt)
  then have program: "enqueue_verifier_body s seed drafts device_position
      = concat (map (\<lambda>j. gather_row s (Arena Hidden_A (j * kHidden)) (?token j)) [0..<drafts + 1])
        @ fst (block_layers s (drafts + 1) device_position) @ block_head s (drafts + 1)"
    by (simp add: enqueue_verifier_body_def upt_conv_Cons del: upt_Suc)
  show ?thesis
    unfolding program program_safe_append [of _ _ "concat xs" for xs]
  proof (rule gather_block_safe)
    fix B assume B: "A \<subseteq> B" "has B (Arena Hidden_A 0) ((drafts + 1) * 5120)"
    show "safe n held (fst (block_layers s (drafts + 1) device_position) @ block_head s (drafts + 1)) K B"
      by (rule block_program_safe [OF s position_source_mono [OF source B(1)] room _ _ B(2) session_ready_mono [OF ready B(1)]])
        (use drafts K has_mono [OF B(2)] B(1) in auto)
  next
    fix j assume j: "0 \<le> j" "j < drafts + 1"
    show "case ?token j of Direct t \<Rightarrow> True | Indirect p \<Rightarrow> has A p 1 \<and> within (buffer_elements n) p 1"
      using seed j tokens drafts has_part [of A Selected_Token 32 drafts "32 + (j - 1)" 1]
      by (auto simp: kMaximumBlock_def buffer_elements_simps)
  qed (use drafts in \<open>simp_all add: has_def\<close>)
qed

subsection \<open>Proposals\<close>

lemma rope_append_safe:
  assumes r: "kernel_reads held r = [(Arena Projected_Main 0, 12288), (Arena Projected_K 0, 1024)] @ xs"
      "kernel_writes held r = [(Arena Query 0, 6144), (Arena Key 0, 1024)]"
    and a: "kernel_reads held a = [(Arena Key 0, 1024), (Arena Projected_V 0, 1024)] @ xs"
      "kernel_writes held a = [(Arena kc (off + position * 1024), 1024), (Arena vc (off + position * 1024), 1024)]"
    and xs: "list_all (\<lambda>(q, m). has A q m \<and> within (buffer_elements n) q m) xs"
    and projected: "has A (Arena Projected_Main 0) 12288" "has A (Arena Projected_K 0) 1024" "has A (Arena Projected_V 0) 1024"
    and kv: "kv_ready A kc vc off position"
    and room: "off + (position + 1) * 1024 \<le> buffer_elements n kc" "off + (position + 1) * 1024 \<le> buffer_elements n vc"
    and K: "\<And>A'. A \<subseteq> A' \<Longrightarrow> has A' (Arena Query 0) 6144 \<Longrightarrow> kv_ready A' kc vc off (position + 1) \<Longrightarrow> K A'"
  shows "safe n held [Launch r, Launch a] K A"
proof -
  have xs_mono: "list_all (\<lambda>(q, m). has B q m \<and> within (buffer_elements n) q m) xs" if "A \<subseteq> B" for B
    using xs that by (auto simp: list_all_iff intro: has_mono)
  show ?thesis
  proof (rule launch_safe)
    fix B assume B: "A \<subseteq> B" "list_all (\<lambda>(p, m). has B p m) (kernel_writes held r)"
    show "safe n held [Launch a] K B"
    proof (rule launch_safe)
      fix C assume C: "B \<subseteq> C" "list_all (\<lambda>(p, m). has C p m) (kernel_writes held a)"
      have AC: "A \<subseteq> C"
        using B C by blast
      have "kv_ready C kc vc off (position + 1)"
        by (rule kv_ready_append [OF kv_ready_mono [OF kv AC]]) (use C(2) in \<open>simp_all add: a\<close>)
      then show "safe n held [] K C"
        using K [OF AC] B(2) has_mono [OF _ C(1)] by (simp add: r)
    qed (use xs_mono [OF B(1)] has_mono [OF _ B(1)] B(2) projected room in \<open>auto simp: a r buffer_elements_simps algebra_simps\<close>)
  qed (use xs projected in \<open>auto simp: r buffer_elements_simps\<close>)
qed

lemma project_fc_safe:
  assumes shape: "matrix_shaped fc 5120 10240" and i: "has A (Arena Convolved_QKV 0) 10240"
    and K: "\<And>A'. A \<subseteq> A' \<Longrightarrow> has A' (Arena GDN_Output 0) 5120 \<Longrightarrow> K A'"
  shows "safe n held
    (if ss_tiled_weights s \<and> uses_i4 s fc
     then quantize_i4 (Arena Convolved_QKV 0) (tensor_columns (the fc)) 1
       @ [Launch (Lowbit (Gfx12_I4_Gemm_Half (dv_quantization (the fc)) (weights_of (the fc)) (scales_of (the fc))
           (Arena Activation_Codes 0) (Arena Activation_Scales 0) (Arena GDN_Output 0)
           (tensor_rows (the fc)) (tensor_columns (the fc)) 1 (ss_sequential_w3 s)))]
     else launch_matrix s fc (Arena Convolved_QKV 0) (Arena Projected_Main 0) 1 True
       @ [Launch (Attention_Op (Float_To_Half (Arena Projected_Main 0) (Arena GDN_Output 0) kHidden))]) K A"
proof -
  have dims: "tensor_rows (the fc) = 5120" "tensor_columns (the fc) = 10240"
    using shape by (auto simp: matrix_shaped_def)
  have gemm: "safe n held [Launch (Lowbit (Gfx12_I4_Gemm_Half q w sc (Arena Activation_Codes 0) (Arena Activation_Scales 0)
      (Arena GDN_Output 0) 5120 10240 1 sq))] K B"
    if "A \<subseteq> B" "has B (Arena Activation_Codes 0) (1 * (10240 div 2))" "has B (Arena Activation_Scales 0) (1 * (10240 div 128))"
    for B q w sc sq
    using that K by (intro launch_safe) (auto simp: buffer_elements_simps)
  have convert: "safe n held [Launch (Attention_Op (Float_To_Half (Arena Projected_Main 0) (Arena GDN_Output 0) kHidden))] K B"
    if "A \<subseteq> B" "has B (Arena Projected_Main 0) (1 * 5120)" for B
    using that K by (intro launch_safe) (auto simp: buffer_elements_simps kHidden_def hidden_size_def)
  show ?thesis
  proof (cases "ss_tiled_weights s \<and> uses_i4 s fc")
    case True
    show ?thesis
      unfolding if_P [OF True] program_safe_append dims
      by (rule quantize_i4_safe) (use i gemm in \<open>simp_all add: buffer_elements_simps\<close>)
  next
    case False
    show ?thesis
      unfolding if_not_P [OF False] program_safe_append
      by (rule launch_matrix_safe [OF shape]) (use i convert in \<open>simp_all add: buffer_elements_simps\<close>)
  qed
qed

text \<open>What follows the attention of a proposal whose token is wanted.\<close>

definition proposal_tail :: "session \<Rightarrow> pointer \<Rightarrow> program" where
  "proposal_tail s token_out =
     launch_matrix s (lb_out (ss_mtp_layer s)) (Arena Attention_Output 0) (Arena Mixer_Update 0) 1 True
     @ residual_norm (Arena GDN_Output 0) (Arena Mixer_Update 0) (Arena Post_Attention 0)
         (norm_of (lb_post_norm (ss_mtp_layer s))) (Arena Post_Normalized 0) 1
     @ launch_matrices s [lb_mlp_gate (ss_mtp_layer s), lb_mlp_up (ss_mtp_layer s)] [Arena Gate_Output 0, Arena Up_Output 0]
         (Arena Post_Normalized 0) 1
     @ launch_mlp_down s (lb_mlp_down (ss_mtp_layer s)) 1
     @ residual_norm (Arena Post_Attention 0) (Arena MLP_Update 0) (Arena MTP_Hidden 0)
         (norm_of (ss_mtp_final_norm s)) (Arena Normalized 0) 1
     @ launch_matrix s (Some (ss_mtp_draft_head s)) (Arena Normalized 0) (Arena Logits 0) 1 True
     @ (case ss_mtp_draft_token_ids s of
          Some ids \<Rightarrow> [Launch (Attention_Op (Argmax_Mapped (Arena Logits 0) (weights_of ids) token_out kMtpDraftVocabulary))]
        | None \<Rightarrow> [Launch (Attention_Op (Argmax (Arena Logits 0) token_out kMtpDraftVocabulary))])"

lemma proposal_tail_mlp:
  "proposal_tail s token_out =
     launch_matrix s (lb_out (ss_mtp_layer s)) (Arena Attention_Output 0) (Arena Mixer_Update 0) 1 True
     @ launch_mlp s (ss_mtp_layer s) (Arena GDN_Output 0) (Arena MTP_Hidden 0) (norm_of (ss_mtp_final_norm s)) 1
     @ launch_matrix s (Some (ss_mtp_draft_head s)) (Arena Normalized 0) (Arena Logits 0) 1 True
     @ (case ss_mtp_draft_token_ids s of
          Some ids \<Rightarrow> [Launch (Attention_Op (Argmax_Mapped (Arena Logits 0) (weights_of ids) token_out kMtpDraftVocabulary))]
        | None \<Rightarrow> [Launch (Attention_Op (Argmax (Arena Logits 0) token_out kMtpDraftVocabulary))])"
  by (simp add: proposal_tail_def launch_mlp_def)

lemma proposal_tail_safe:
  assumes s: "session_shaped s" and attention: "has A (Arena Attention_Output 0) 6144" and residual: "has A (Arena GDN_Output 0) 5120"
    and out: "within (buffer_elements n) token_out 1"
    and K: "\<And>A'. A \<subseteq> A' \<Longrightarrow> has A' token_out 1 \<Longrightarrow> has A' (Arena MTP_Hidden 0) 5120 \<Longrightarrow> K A'"
  shows "safe n held (proposal_tail s token_out) K A"
proof -
  have shape: "layer_shaped (ss_mtp_layer s)" "down_quantized s (ss_mtp_layer s)" "matrix_shaped (Some (ss_mtp_draft_head s)) 98304 5120"
    using s by (simp_all add: session_shaped_def)
  have choose: "safe n held (case ss_mtp_draft_token_ids s of
      Some ids \<Rightarrow> [Launch (Attention_Op (Argmax_Mapped (Arena Logits 0) (weights_of ids) token_out kMtpDraftVocabulary))]
    | None \<Rightarrow> [Launch (Attention_Op (Argmax (Arena Logits 0) token_out kMtpDraftVocabulary))]) K D"
    if "A \<subseteq> D" "has D (Arena MTP_Hidden 0) 5120" "has D (Arena Logits 0) (1 * 98304)" for D
  proof -
    have one: "safe n held [Launch k] K D"
      if "kernel_writes held k = [(token_out, 1)]" "kernel_reads held k = [(Arena Logits 0, 98304)] @ xs"
        "xs = [] \<or> (\<exists>w m. xs = [(Weight w, m)])" for k xs
      by (rule launch_safe) (use that \<open>A \<subseteq> D\<close> \<open>has D (Arena Logits 0) (1 * 98304)\<close> out K
        has_mono [OF \<open>has D (Arena MTP_Hidden 0) 5120\<close>] in \<open>auto simp: buffer_elements_simps\<close>)
    show ?thesis
    proof (cases "ss_mtp_draft_token_ids s")
      case None
      show ?thesis
        unfolding None option.case by (rule one [of _ "[]"]) (simp_all add: kMtpDraftVocabulary_def)
    next
      case (Some ids)
      show ?thesis
        unfolding Some option.case
        by (rule one [of _ "[(Weight (dv_data ids), 98304)]"]) (simp_all add: kMtpDraftVocabulary_def weights_of_def)
    qed
  qed
  have head: "safe n held (launch_matrix s (Some (ss_mtp_draft_head s)) (Arena Normalized 0) (Arena Logits 0) 1 True
      @ (case ss_mtp_draft_token_ids s of
          Some ids \<Rightarrow> [Launch (Attention_Op (Argmax_Mapped (Arena Logits 0) (weights_of ids) token_out kMtpDraftVocabulary))]
        | None \<Rightarrow> [Launch (Attention_Op (Argmax (Arena Logits 0) token_out kMtpDraftVocabulary))])) K C"
    if "A \<subseteq> C" "has C (Arena MTP_Hidden 0) 5120" "has C (Arena Normalized 0) 5120" for C
    unfolding program_safe_append
    by (rule launch_matrix_safe [OF shape(3)])
      (use that choose has_mono [OF that(2)] in \<open>auto simp: buffer_elements_simps\<close>)
  have mlp: "safe n held (launch_mlp s (ss_mtp_layer s) (Arena GDN_Output 0) (Arena MTP_Hidden 0) (norm_of (ss_mtp_final_norm s)) 1
      @ launch_matrix s (Some (ss_mtp_draft_head s)) (Arena Normalized 0) (Arena Logits 0) 1 True
      @ (case ss_mtp_draft_token_ids s of
          Some ids \<Rightarrow> [Launch (Attention_Op (Argmax_Mapped (Arena Logits 0) (weights_of ids) token_out kMtpDraftVocabulary))]
        | None \<Rightarrow> [Launch (Attention_Op (Argmax (Arena Logits 0) token_out kMtpDraftVocabulary))])) K B"
    if "A \<subseteq> B" "has B (Arena Mixer_Update 0) (1 * 5120)" for B
    unfolding program_safe_append [of _ _ "launch_mlp s' l i o' w b" for s' l i o' w b]
    by (rule launch_mlp_safe [OF _ _ _ shape(2) _ _ that(2)])
      (use shape(1) that(1) has_mono [OF residual that(1)] head in \<open>auto simp: layer_shaped_def buffer_elements_simps\<close>)
  show ?thesis
    unfolding proposal_tail_mlp program_safe_append [of _ _ "launch_matrix s (lb_out l) i o' b p" for l i o' b p]
    by (rule launch_matrix_safe [where rows = 5120 and columns = 6144])
      (use shape(1) attention mlp in \<open>auto simp: layer_shaped_def buffer_elements_simps\<close>)
qed

text \<open>The position of a proposal, given by the host or read on the device.\<close>

definition proposal_source :: "(pointer \<Rightarrow> nat) \<Rightarrow> nat \<Rightarrow> cells \<Rightarrow> nat \<Rightarrow> pointer option \<Rightarrow> nat \<Rightarrow> bool" where
  "proposal_source held n A position device_position effective \<longleftrightarrow>
     (case device_position of
        None \<Rightarrow> effective = position
      | Some p \<Rightarrow> held p = effective \<and> has A p 1 \<and> within (buffer_elements n) p 1)"

lemma mtp_proposal_parts:
  assumes source: "proposal_source held n A position device_position p" and conditioning: "conditioning \<noteq> Null_Pointer"
  obtains r a g xs where
    "launch_mtp_proposal s token conditioning position token_out device_position =
       gather_row s (Arena Hidden_B 0) token
       @ [Launch (State_Op (Dual_RMS_Norm_Concat (Arena Hidden_B 0) (norm_of (ss_mtp_pre_embedding_norm s))
            conditioning (norm_of (ss_mtp_pre_hidden_norm s)) (Arena Convolved_QKV 0) kHidden))]
       @ (if ss_tiled_weights s \<and> uses_i4 s (ss_mtp_fc s)
          then quantize_i4 (Arena Convolved_QKV 0) (tensor_columns (the (ss_mtp_fc s))) 1
            @ [Launch (Lowbit (Gfx12_I4_Gemm_Half (dv_quantization (the (ss_mtp_fc s))) (weights_of (the (ss_mtp_fc s)))
                (scales_of (the (ss_mtp_fc s))) (Arena Activation_Codes 0) (Arena Activation_Scales 0) (Arena GDN_Output 0)
                (tensor_rows (the (ss_mtp_fc s))) (tensor_columns (the (ss_mtp_fc s))) 1 (ss_sequential_w3 s)))]
          else launch_matrix s (ss_mtp_fc s) (Arena Convolved_QKV 0) (Arena Projected_Main 0) 1 True
            @ [Launch (Attention_Op (Float_To_Half (Arena Projected_Main 0) (Arena GDN_Output 0) kHidden))])
       @ [Launch (State_Op (RMS_Norm (Arena GDN_Output 0) (norm_of (lb_input_norm (ss_mtp_layer s))) (Arena Normalized 0) kHidden))]
       @ project_qkv s (ss_mtp_layer s) 1
       @ [Launch r, Launch a]
       @ (case token_out of None \<Rightarrow> [] | Some t \<Rightarrow> Launch g # proposal_tail s t)"
    "kernel_reads held r = [(Arena Projected_Main 0, 12288), (Arena Projected_K 0, 1024)] @ xs"
    "kernel_writes held r = [(Arena Query 0, 6144), (Arena Key 0, 1024)]"
    "kernel_reads held a = [(Arena Key 0, 1024), (Arena Projected_V 0, 1024)] @ xs"
    "kernel_writes held a = [(Arena MTP_Key_Cache (p * 1024), 1024), (Arena MTP_Value_Cache (p * 1024), 1024)]"
    "kernel_reads held g = [(Arena Query 0, 6144), (Arena Projected_Main 0, 12288)] @ xs
       @ [(Arena MTP_Key_Cache 0, (p + 1) * 1024), (Arena MTP_Value_Cache 0, (p + 1) * 1024)]"
    "kernel_writes held g = [(Arena Attention_Output 0, 6144)]"
    "list_all (\<lambda>(q, m). has A q m \<and> within (buffer_elements n) q m) xs"
proof (cases device_position)
  case None
  let ?n = "dc_maximum_context_tokens (ss_config s)"
  show thesis
    by (rule that [of "rope (ss_mtp_layer s) position 1"
          "Attention_Op (KV_Append (Arena Key 0) (Arena Projected_V 0) (Arena MTP_Key_Cache 0) (Arena MTP_Value_Cache 0) position ?n)"
          "Attention_Op (Gated_Attention_Decode (Arena Query 0) (Arena Projected_Main 0) (Arena MTP_Key_Cache 0)
            (Arena MTP_Value_Cache 0) (Arena Attention_Output 0) (position + 1) ?n)" "[]"])
      (use None source conditioning in \<open>auto simp: launch_mtp_proposal_def Let_def proposal_tail_def proposal_source_def rope_def
        kv_elements_def query_elements_def split: option.splits\<close>)
next
  case (Some q)
  let ?n = "dc_maximum_context_tokens (ss_config s)"
  show thesis
    by (rule that [of "rope_indirect (ss_mtp_layer s) q 1"
          "Attention_Op (KV_Append_Block_Indirect (Arena Key 0) (Arena Projected_V 0) (Arena MTP_Key_Cache 0) (Arena MTP_Value_Cache 0) q ?n 1)"
          "Attention_Op (Gated_Attention_Decode_Block_Indirect (Arena Query 0) (Arena Projected_Main 0) (Arena MTP_Key_Cache 0)
            (Arena MTP_Value_Cache 0) (Arena Attention_Output 0) q ?n 1)" "[(q, 1)]"])
      (use Some source conditioning in \<open>auto simp: launch_mtp_proposal_def Let_def proposal_tail_def proposal_source_def rope_indirect_def
        kv_elements_def query_elements_def split: option.splits\<close>)
qed

lemma mtp_proposal_safe:
  assumes s: "session_shaped s" and source: "proposal_source held n A position device_position p"
    and room: "p < n"
    and token: "case token of Direct t \<Rightarrow> True | Indirect q \<Rightarrow> has A q 1 \<and> within (buffer_elements n) q 1"
    and conditioning: "conditioning \<noteq> Null_Pointer" "has A conditioning 5120" "within (buffer_elements n) conditioning 5120"
    and kv: "kv_ready A MTP_Key_Cache MTP_Value_Cache 0 p"
    and out: "case token_out of None \<Rightarrow> True | Some t \<Rightarrow> within (buffer_elements n) t 1"
    and K: "\<And>A'. A \<subseteq> A' \<Longrightarrow> kv_ready A' MTP_Key_Cache MTP_Value_Cache 0 (p + 1) \<Longrightarrow>
      (\<And>t. token_out = Some t \<Longrightarrow> has A' t 1 \<and> has A' (Arena MTP_Hidden 0) 5120) \<Longrightarrow> K A'"
  shows "safe n held (launch_mtp_proposal s token conditioning position token_out device_position) K A"
proof -
  obtain r a g xs where program: "launch_mtp_proposal s token conditioning position token_out device_position =
       gather_row s (Arena Hidden_B 0) token
       @ [Launch (State_Op (Dual_RMS_Norm_Concat (Arena Hidden_B 0) (norm_of (ss_mtp_pre_embedding_norm s))
            conditioning (norm_of (ss_mtp_pre_hidden_norm s)) (Arena Convolved_QKV 0) kHidden))]
       @ (if ss_tiled_weights s \<and> uses_i4 s (ss_mtp_fc s)
          then quantize_i4 (Arena Convolved_QKV 0) (tensor_columns (the (ss_mtp_fc s))) 1
            @ [Launch (Lowbit (Gfx12_I4_Gemm_Half (dv_quantization (the (ss_mtp_fc s))) (weights_of (the (ss_mtp_fc s)))
                (scales_of (the (ss_mtp_fc s))) (Arena Activation_Codes 0) (Arena Activation_Scales 0) (Arena GDN_Output 0)
                (tensor_rows (the (ss_mtp_fc s))) (tensor_columns (the (ss_mtp_fc s))) 1 (ss_sequential_w3 s)))]
          else launch_matrix s (ss_mtp_fc s) (Arena Convolved_QKV 0) (Arena Projected_Main 0) 1 True
            @ [Launch (Attention_Op (Float_To_Half (Arena Projected_Main 0) (Arena GDN_Output 0) kHidden))])
       @ [Launch (State_Op (RMS_Norm (Arena GDN_Output 0) (norm_of (lb_input_norm (ss_mtp_layer s))) (Arena Normalized 0) kHidden))]
       @ project_qkv s (ss_mtp_layer s) 1
       @ [Launch r, Launch a]
       @ (case token_out of None \<Rightarrow> [] | Some t \<Rightarrow> Launch g # proposal_tail s t)"
    and r: "kernel_reads held r = [(Arena Projected_Main 0, 12288), (Arena Projected_K 0, 1024)] @ xs"
      "kernel_writes held r = [(Arena Query 0, 6144), (Arena Key 0, 1024)]"
    and a: "kernel_reads held a = [(Arena Key 0, 1024), (Arena Projected_V 0, 1024)] @ xs"
      "kernel_writes held a = [(Arena MTP_Key_Cache (p * 1024), 1024), (Arena MTP_Value_Cache (p * 1024), 1024)]"
    and g: "kernel_reads held g = [(Arena Query 0, 6144), (Arena Projected_Main 0, 12288)] @ xs
        @ [(Arena MTP_Key_Cache 0, (p + 1) * 1024), (Arena MTP_Value_Cache 0, (p + 1) * 1024)]"
      "kernel_writes held g = [(Arena Attention_Output 0, 6144)]"
    and xs: "list_all (\<lambda>(q, m). has A q m \<and> within (buffer_elements n) q m) xs"
    by (rule mtp_proposal_parts [OF source conditioning(1)])
  have xs_mono: "list_all (\<lambda>(q, m). has B q m \<and> within (buffer_elements n) q m) xs" if "A \<subseteq> B" for B
    using xs that by (auto simp: list_all_iff intro: has_mono)
  have fits: "(p + 1) * 1024 \<le> n * 1024"
    using room by (intro mult_le_mono1) simp
  have shape: "matrix_shaped (lb_q (ss_mtp_layer s)) 12288 5120" "matrix_shaped (lb_k (ss_mtp_layer s)) 1024 5120"
    "matrix_shaped (lb_v (ss_mtp_layer s)) 1024 5120" "matrix_shaped (ss_mtp_fc s) 5120 10240"
    using s by (simp_all add: session_shaped_def layer_shaped_def)
  have tail: "safe n held (case token_out of None \<Rightarrow> [] | Some t \<Rightarrow> Launch g # proposal_tail s t) K B"
    if "A \<subseteq> B" "has B (Arena GDN_Output 0) 5120" "has B (Arena Query 0) 6144" "has B (Arena Projected_Main 0) 12288"
      "kv_ready B MTP_Key_Cache MTP_Value_Cache 0 (p + 1)" for B
  proof (cases token_out)
    case None
    then show ?thesis
      using K that by simp
  next
    case (Some t)
    show ?thesis
      unfolding Some option.case append_Cons append_Nil
    proof (rule launch_safe)
      fix C assume C: "B \<subseteq> C" "list_all (\<lambda>(p, m). has C p m) (kernel_writes held g)"
      show "safe n held (proposal_tail s t) K C"
      proof (rule proposal_tail_safe [OF s _ has_mono [OF that(2) C(1)]])
        fix D assume D: "C \<subseteq> D" "has D t 1" "has D (Arena MTP_Hidden 0) 5120"
        show "K D"
          by (rule K) (use D C(1) that(1) Some kv_ready_mono [OF that(5)] in auto)
      qed (use C out Some in \<open>simp_all add: g\<close>)
    qed (use that xs_mono [OF that(1)] fits in \<open>auto simp: g kv_ready_def buffer_elements_simps\<close>)
  qed
  have attention: "safe n held ([Launch r, Launch a] @ (case token_out of None \<Rightarrow> [] | Some t \<Rightarrow> Launch g # proposal_tail s t)) K B"
    if B: "A \<subseteq> B" "has B (Arena GDN_Output 0) 5120" "has B (Arena Projected_Main 0) 12288" "has B (Arena Projected_K 0) 1024"
      "has B (Arena Projected_V 0) 1024" for B
    unfolding program_safe_append
  proof (rule rope_append_safe [where off = 0 and position = p and kc = MTP_Key_Cache and vc = MTP_Value_Cache, OF r a(1) _ xs_mono [OF B(1)] B(3-5)])
    fix C assume C: "B \<subseteq> C" "has C (Arena Query 0) 6144" "kv_ready C MTP_Key_Cache MTP_Value_Cache 0 (p + 1)"
    show "safe n held (case token_out of None \<Rightarrow> [] | Some t \<Rightarrow> Launch g # proposal_tail s t) K C"
      by (rule tail) (use B(1) C has_mono [OF B(2) C(1)] has_mono [OF B(3) C(1)] in auto)
  qed (use a(2) kv_ready_mono [OF kv B(1)] fits in \<open>simp_all add: buffer_elements_simps\<close>)
  have project: "safe n held (project_qkv s (ss_mtp_layer s) 1 @ [Launch r, Launch a]
      @ (case token_out of None \<Rightarrow> [] | Some t \<Rightarrow> Launch g # proposal_tail s t)) K B"
    if B: "A \<subseteq> B" "has B (Arena GDN_Output 0) 5120" "has B (Arena Normalized 0) 5120" for B
    unfolding program_safe_append [of _ _ "project_qkv s l b" for l b]
  proof (rule project_qkv_safe [OF shape(1-3)])
    fix C assume "B \<subseteq> C" "has C (Arena Projected_Main 0) (1 * 12288)" "has C (Arena Projected_K 0) (1 * 1024)"
      "has C (Arena Projected_V 0) (1 * 1024)"
    then show "safe n held ([Launch r, Launch a] @ (case token_out of None \<Rightarrow> [] | Some t \<Rightarrow> Launch g # proposal_tail s t)) K C"
      using B(1) has_mono [OF B(2)] by (intro attention) auto
  qed (use B in simp_all)
  have norm: "safe n held ([Launch (State_Op (RMS_Norm (Arena GDN_Output 0) (norm_of (lb_input_norm (ss_mtp_layer s)))
        (Arena Normalized 0) kHidden))] @ project_qkv s (ss_mtp_layer s) 1 @ [Launch r, Launch a]
      @ (case token_out of None \<Rightarrow> [] | Some t \<Rightarrow> Launch g # proposal_tail s t)) K B"
    if B: "A \<subseteq> B" "has B (Arena GDN_Output 0) 5120" for B
    unfolding append_Cons append_Nil
    by (rule launch_safe) (use B has_mono [OF B(2)] project in \<open>auto simp: kHidden_def hidden_size_def buffer_elements_simps\<close>)
  show ?thesis
    unfolding program program_safe_append [of _ _ "gather_row s' q t" for s' q t]
  proof (rule gather_row_safe [OF _ token], goal_cases)
    case (2 B)
    note B = 2
    have dual: "safe n held ([Launch (State_Op (Dual_RMS_Norm_Concat (Arena Hidden_B 0) (norm_of (ss_mtp_pre_embedding_norm s))
        conditioning (norm_of (ss_mtp_pre_hidden_norm s)) (Arena Convolved_QKV 0) kHidden))] @ ys) K B"
      if "\<And>C. A \<subseteq> C \<Longrightarrow> has C (Arena Convolved_QKV 0) 10240 \<Longrightarrow> safe n held ys K C" for ys
      unfolding append_Cons append_Nil
      by (rule launch_safe) (use B has_mono [OF conditioning(2) B(1)] conditioning(3) that
          in \<open>auto simp: kHidden_def hidden_size_def buffer_elements_simps\<close>)
    have split: "safe n held (xs @ ys) K C" if "safe n held xs (safe n held ys K) C" for xs ys C
      using that by (simp add: program_safe_append)
    show ?case
      by (rule dual, rule split, rule project_fc_safe [OF shape(4)], assumption, rule norm, blast, assumption)
  qed (simp add: buffer_elements_simps)
qed

end
