(* ===== verification/SessionRun.thy ===== *)
theory SessionRun
  imports SessionSafety
begin

text \<open>
  Runs of a decode session. An instrumented device keeps, beside the device itself, the set of the
  initialized cells and the words that the host has uploaded, and a flag that the first read of an
  uninitialized cell or access outside a region clears. The instrumentation changes nothing that
  the session sees, and no sequence of steps from a new session clears the flag.
\<close>

section \<open>The instrumented device\<close>

record 'd checked =
  ck_device :: 'd
  ck_cells :: cells
  ck_held :: "pointer \<Rightarrow> nat"
  ck_safe :: bool

definition check_access :: "(buffer \<Rightarrow> nat) \<Rightarrow> region list \<Rightarrow> region list \<Rightarrow> 'd checked \<Rightarrow> bool" where
  "check_access elements reads writes c \<longleftrightarrow>
     cells_of reads \<subseteq> ck_cells c \<and> list_all (region_within elements) (reads @ writes)"

text \<open>The device after an access: what a failed call was to write stays uninitialized.\<close>

definition checked_after ::
  "(buffer \<Rightarrow> nat) \<Rightarrow> region list \<Rightarrow> region list \<Rightarrow> bool \<Rightarrow> 'd \<Rightarrow> 'd checked \<Rightarrow> 'd checked" where
  "checked_after elements reads writes success d c =
     c\<lparr> ck_device := d, ck_safe := ck_safe c \<and> check_access elements reads writes c,
        ck_cells := ck_cells c \<union> (if success then cells_of writes else {}) \<rparr>"

definition check_launch :: "(buffer \<Rightarrow> nat) \<Rightarrow> 'd device \<Rightarrow> kernel \<Rightarrow> 'd checked \<Rightarrow> status \<times> 'd checked" where
  "check_launch elements dev k c =
     (let (s, d) = dx_launch dev k (ck_device c)
      in (s, checked_after elements (kernel_reads (ck_held c) k) (kernel_writes (ck_held c) k) (status_ok s) d c))"

definition uploaded :: "pointer \<Rightarrow> nat list \<Rightarrow> (pointer \<Rightarrow> nat) \<Rightarrow> pointer \<Rightarrow> nat" where
  "uploaded p ws held q =
     (case (p, q) of
        (Arena b i, Arena b' j) \<Rightarrow> if b' = b \<and> i \<le> j \<and> j < i + length ws then ws ! (j - i) else held q
      | _ \<Rightarrow> held q)"

text \<open>A graph replays its launches; when the launch of the graph fails, none is known to have run.\<close>

fun replay_access :: "(buffer \<Rightarrow> nat) \<Rightarrow> kernel list \<Rightarrow> 'd checked \<Rightarrow> 'd checked" where
  "replay_access elements [] c = c"
| "replay_access elements (k # ks) c =
     replay_access elements ks
       (checked_after elements (kernel_reads (ck_held c) k) (kernel_writes (ck_held c) k) True (ck_device c) c)"

definition check_device :: "(buffer \<Rightarrow> nat) \<Rightarrow> 'd device \<Rightarrow> 'd checked device" where
  "check_device elements dev =
     \<lparr> dx_hip = dx_hip dev,
       dx_launch = check_launch elements dev,
       dx_copy = (\<lambda>p q n c. let (e, d) = dx_copy dev p q n (ck_device c)
         in (e, checked_after elements [(q, n)] [(p, n)] (e = hip_success) d c)),
       dx_upload = (\<lambda>p ws c. let (e, d) = dx_upload dev p ws (ck_device c);
           c' = checked_after elements [] [(p, length ws)] (e = hip_success) d c
         in (e, if e = hip_success then c'\<lparr>ck_held := uploaded p ws (ck_held c)\<rparr> else c')),
       dx_download = (\<lambda>p n c. let (e, ws, d) = dx_download dev p n (ck_device c)
         in (e, ws, checked_after elements [(p, n)] [] (e = hip_success) d c)),
       dx_synchronize = (\<lambda>c. dx_synchronize dev (ck_device c)),
       dx_replay = (\<lambda>ks c. let (e, d) = dx_replay dev ks (ck_device c); c' = replay_access elements ks c
         in (e, if e = hip_success then c'\<lparr>ck_device := d\<rparr>
                else c\<lparr>ck_device := d, ck_safe := ck_safe c'\<rparr>)) \<rparr>"

text \<open>A device before the session is created, with the two state buffers that creation clears.\<close>

definition cleared_cells :: cells where
  "cleared_cells = {Conv_States} \<times> {0..<1966080} \<union> {GDN_States} \<times> {0..<37748736}"

definition check_new :: "'d \<Rightarrow> 'd checked" where
  "check_new d = \<lparr> ck_device = d, ck_cells = cleared_cells, ck_held = (\<lambda>p. 0), ck_safe = True \<rparr>"

section \<open>The instrumentation is transparent\<close>

definition erased :: "'a \<times> 'b \<times> 'd checked \<Rightarrow> 'a \<times> 'b \<times> 'd" where
  "erased r = (fst r, fst (snd r), ck_device (snd (snd r)))"

lemma checked_after_device [simp]: "ck_device (checked_after el rs ws ok d c) = d"
  by (simp add: checked_after_def)

lemma check_device_hip [simp]: "dx_hip (check_device el dev) = dx_hip dev"
  by (simp add: check_device_def)

lemma check_device_synchronize [simp]: "dx_synchronize (check_device el dev) c = dx_synchronize dev (ck_device c)"
  by (simp add: check_device_def)

lemma erase_launch:
  "dx_launch dev k (ck_device c) = apsnd ck_device (dx_launch (check_device el dev) k c)"
  by (simp add: check_device_def check_launch_def case_prod_unfold Let_def apsnd_def map_prod_def)

lemma erase_copy:
  "dx_copy dev p q n (ck_device c) = apsnd ck_device (dx_copy (check_device el dev) p q n c)"
  by (simp add: check_device_def case_prod_unfold Let_def apsnd_def map_prod_def)

lemma erase_upload:
  "dx_upload dev p ws (ck_device c) = apsnd ck_device (dx_upload (check_device el dev) p ws c)"
  by (cases "dx_upload dev p ws (ck_device c)") (simp add: check_device_def Let_def)

lemma erase_download:
  "dx_download dev p n (ck_device c) = apsnd (apsnd ck_device) (dx_download (check_device el dev) p n c)"
  by (cases "dx_download dev p n (ck_device c)") (simp add: check_device_def)

lemma erase_replay:
  "dx_replay dev ks (ck_device c) = apsnd ck_device (dx_replay (check_device el dev) ks c)"
  by (cases "dx_replay dev ks (ck_device c)") (simp add: check_device_def Let_def)

lemma erase_run:
  "run_program dev p (ck_device c) = apsnd ck_device (run_program (check_device el dev) p c)"
proof (induction p arbitrary: c)
  case (Cons x p)
  show ?case
  proof (cases x)
    case (Launch k)
    obtain s d where "dx_launch (check_device el dev) k c = (s, d)"
      by force
    then show ?thesis
      using Cons erase_launch [of dev k c el] by (simp add: Launch)
  qed simp
qed simp

lemmas erase = erase_launch erase_copy erase_upload erase_download erase_replay erase_run

lemma erase_greedy_step:
  "greedy_step dev s t (ck_device c) = erased (greedy_step (check_device el dev) s t c)"
  by (simp add: greedy_step_def erased_def case_prod_unfold Let_def erase [where el = el])

lemma erase_block_step:
  "block_step dev s ts (ck_device c) = erased (block_step (check_device el dev) s ts c)"
  by (simp add: block_step_def erased_def case_prod_unfold Let_def erase [where el = el])

lemma erase_mtp_draft:
  "mtp_draft dev s t (ck_device c) = erased (mtp_draft (check_device el dev) s t c)"
  by (simp add: mtp_draft_def erased_def case_prod_unfold Let_def erase [where el = el])

lemma erase_snapshot:
  "snapshot_target_state dev s (ck_device c) = apsnd ck_device (snapshot_target_state (check_device el dev) s c)"
  by (simp add: snapshot_target_state_def case_prod_unfold Let_def erase [where el = el])

lemma erase_graph:
  "launch_prepared_speculative_graph dev s t (ck_device c)
    = erased (launch_prepared_speculative_graph (check_device el dev) s t c)"
  by (simp add: launch_prepared_speculative_graph_def erased_def case_prod_unfold Let_def erase [where el = el]
      split: option.split)

lemma erase_launch_speculative:
  "launch_speculative dev s t n (ck_device c) = erased (launch_speculative (check_device el dev) s t n c)"
  by (simp add: launch_speculative_def erased_def case_prod_unfold Let_def erase [where el = el])

lemma erase_download_tokens:
  "download_tokens dev n (ck_device c) = apsnd ck_device (download_tokens (check_device el dev) n c)"
  by (simp add: download_tokens_def case_prod_unfold Let_def erase [where el = el])

lemma erase_commit:
  "commit_all dev s t (ck_device c) = erased (commit_all (check_device el dev) s t c)"
  "commit_prefix dev s i j n (ck_device c) = erased (commit_prefix (check_device el dev) s i j n c)"
  by (simp_all add: commit_all_def commit_prefix_def erased_def case_prod_unfold Let_def erase [where el = el])

lemma erase_speculative_step:
  "speculative_step dev s t n (ck_device c) = erased (speculative_step (check_device el dev) s t n c)"
  by (simp add: speculative_step_def erased_def case_prod_unfold Let_def erase [where el = el] erase_snapshot [where el = el]
      erase_graph [where el = el] erase_launch_speculative [where el = el] erase_download_tokens [where el = el]
      erase_commit [where el = el] split: sum.split)

section \<open>Safe programs on the instrumented device\<close>

lemma run_checked:
  assumes "run_program (check_device el dev) p c = (s, c')"
    and "program_safe el (ck_held c) p K (ck_cells c)" "ck_safe c"
  shows "ck_safe c' \<and> ck_cells c \<subseteq> ck_cells c' \<and> ck_held c' = ck_held c \<and> (status_ok s \<longrightarrow> K (ck_cells c'))"
  using assms
proof (induction p arbitrary: c)
  case (Cons x p)
  show ?case
  proof (cases x)
    case (Launch k)
    obtain s1 c1 where step: "dx_launch (check_device el dev) k c = (s1, c1)"
      by force
    have c1: "ck_safe c1" "ck_held c1 = ck_held c" "ck_cells c \<subseteq> ck_cells c1"
      "status_ok s1 \<Longrightarrow> ck_cells c1 = ck_cells c \<union> cells_of (kernel_writes (ck_held c) k)"
      using step Cons.prems(2,3)
      by (auto simp: Launch check_device_def check_launch_def checked_after_def check_access_def case_prod_unfold Let_def)
    show ?thesis
    proof (cases "status_ok s1")
      case True
      then have run: "run_program (check_device el dev) p c1 = (s, c')"
        using Cons.prems(1) by (simp add: Launch step)
      have "ck_safe c' \<and> ck_cells c1 \<subseteq> ck_cells c' \<and> ck_held c' = ck_held c1 \<and> (status_ok s \<longrightarrow> K (ck_cells c'))"
        by (rule Cons.IH [OF run _ c1(1)]) (use Cons.prems(2) c1 True in \<open>simp add: Launch\<close>)
      then show ?thesis
        using c1 by auto
    next
      case False
      then show ?thesis
        using Cons.prems(1) c1 by (auto simp: Launch step)
    qed
  qed (use Cons.prems in auto)
qed simp

lemma replay_checked:
  assumes "program_safe el (ck_held c) (map Launch ks) K (ck_cells c)" "ck_safe c"
  shows "ck_safe (replay_access el ks c) \<and> ck_cells c \<subseteq> ck_cells (replay_access el ks c)
    \<and> ck_held (replay_access el ks c) = ck_held c \<and> K (ck_cells (replay_access el ks c))"
  using assms
proof (induction ks arbitrary: c)
  case (Cons k ks)
  let ?c = "checked_after el (kernel_reads (ck_held c) k) (kernel_writes (ck_held c) k) True (ck_device c) c"
  have "ck_safe (replay_access el ks ?c) \<and> ck_cells ?c \<subseteq> ck_cells (replay_access el ks ?c)
    \<and> ck_held (replay_access el ks ?c) = ck_held ?c \<and> K (ck_cells (replay_access el ks ?c))"
    by (rule Cons.IH) (use Cons.prems in \<open>simp_all add: checked_after_def check_access_def\<close>)
  then show ?case
    by (auto simp: checked_after_def)
qed simp

lemma copy_checked:
  assumes "dx_copy (check_device el dev) p q n c = (e, c')" "has (ck_cells c) q n" "within el q n" "within el p n" "ck_safe c"
  shows "ck_safe c'" "ck_cells c \<subseteq> ck_cells c'" "ck_held c' = ck_held c" "e = hip_success \<Longrightarrow> has (ck_cells c') p n"
  using assms
  by (auto simp: check_device_def checked_after_def check_access_def case_prod_unfold Let_def has_def within_def)

lemma upload_checked:
  assumes "dx_upload (check_device el dev) p ws c = (e, c')" "within el p (length ws)" "ck_safe c"
  shows "ck_safe c'" "ck_cells c \<subseteq> ck_cells c'"
    "e = hip_success \<Longrightarrow> has (ck_cells c') p (length ws) \<and> ck_held c' = uploaded p ws (ck_held c)"
  using assms
  by (auto simp: check_device_def checked_after_def check_access_def case_prod_unfold Let_def has_def within_def)

lemma download_checked:
  assumes "dx_download (check_device el dev) p n c = (e, ws, c')" "has (ck_cells c) p n" "within el p n" "ck_safe c"
  shows "ck_safe c'" "ck_cells c' = ck_cells c" "ck_held c' = ck_held c"
  using assms
  by (auto simp: check_device_def checked_after_def check_access_def case_prod_unfold Let_def has_def within_def split: if_splits)

lemma graph_checked:
  assumes "dx_replay (check_device el dev) ks c = (e, c')" "program_safe el (ck_held c) (map Launch ks) K (ck_cells c)" "ck_safe c"
  shows "ck_safe c' \<and> ck_cells c \<subseteq> ck_cells c' \<and> ck_held c' = ck_held c \<and> (e = hip_success \<longrightarrow> K (ck_cells c'))"
  using assms(1) replay_checked [OF assms(2,3)]
  by (auto simp: check_device_def case_prod_unfold Let_def split: if_splits)

section \<open>The invariant of a session\<close>

definition state_buffers :: "bool \<Rightarrow> buffer \<times> buffer \<times> buffer \<times> buffer" where
  "state_buffers parity =
     (if parity then (Conv_Snapshot, Conv_States, GDN_Snapshot, GDN_States)
      else (Conv_States, Conv_Snapshot, GDN_States, GDN_Snapshot))"

definition has_states :: "session \<Rightarrow> bool \<Rightarrow> bool" where
  "has_states s parity \<longleftrightarrow>
     (ss_conv_states s, ss_conv_snapshot s, ss_gdn_states s, ss_gdn_snapshot s) = state_buffers parity"

text \<open>A captured graph is the program of a session that differs only in what the graph takes from
  the device.\<close>

definition graph_matches :: "session \<Rightarrow> bool \<Rightarrow> kernel list \<Rightarrow> bool" where
  "graph_matches s parity ks \<longleftrightarrow>
     (\<exists>s0. map Launch ks = graph_program s0 (dc_graph_verifier_batch (ss_config s) - 1) \<and> session_shaped s0
       \<and> has_states s0 parity \<and> ss_record_rollback s0 \<and> ss_config s0 = ss_config s \<and> ss_layers s0 = ss_layers s)"

definition session_static :: "nat \<Rightarrow> session \<Rightarrow> bool" where
  "session_static n s \<longleftrightarrow>
     session_shaped s \<and> has_states s (ss_gdn_state_parity s) \<and> \<not> ss_record_rollback s
     \<and> n = dc_maximum_context_tokens (ss_config s) \<and> dc_graph_verifier_batch (ss_config s) \<le> 32
     \<and> (\<forall>parity ks. ss_graphs s parity = Some ks \<longrightarrow> graph_matches s parity ks)"

definition states_ready :: "session \<Rightarrow> cells \<Rightarrow> bool" where
  "states_ready s A \<longleftrightarrow> has A (Arena (ss_conv_states s) 0) 1966080 \<and> has A (Arena (ss_gdn_states s) 0) 37748736"

definition caches_ready :: "session \<Rightarrow> nat \<Rightarrow> cells \<Rightarrow> bool" where
  "caches_ready s position A \<longleftrightarrow>
     (\<forall>l \<in> set (ss_layers s). lb_attention l \<longrightarrow> kv_ready A Key_Caches Value_Caches (cache_offset s l) position)"

definition row_ready :: "nat \<Rightarrow> cells \<Rightarrow> pointer \<Rightarrow> bool" where
  "row_ready n A p \<longleftrightarrow> has A p 5120 \<and> within (buffer_elements n) p 5120"

definition session_cells :: "nat \<Rightarrow> session \<Rightarrow> cells \<Rightarrow> bool" where
  "session_cells n s A \<longleftrightarrow>
     ss_current_position s \<le> n \<and> states_ready s A \<and> caches_ready s (ss_current_position s) A
     \<and> kv_ready A MTP_Key_Cache MTP_Value_Cache 0 (ss_mtp_position s)
     \<and> row_ready n A (ss_last_hidden s)
     \<and> (ss_mtp_chain_active s \<longrightarrow> has A (Arena MTP_Hidden 0) 5120)"

definition session_inv :: "nat \<Rightarrow> session \<Rightarrow> 'd checked \<Rightarrow> bool" where
  "session_inv n s c \<longleftrightarrow> session_static n s \<and> session_cells n s (ck_cells c) \<and> ck_safe c"

lemma states_ready_mono: "states_ready s A \<Longrightarrow> A \<subseteq> B \<Longrightarrow> states_ready s B"
  by (auto simp: states_ready_def intro: has_mono)

lemma caches_ready_mono: "caches_ready s p A \<Longrightarrow> A \<subseteq> B \<Longrightarrow> caches_ready s p B"
  by (auto simp: caches_ready_def intro: kv_ready_mono)

lemma row_ready_mono: "row_ready n A p \<Longrightarrow> A \<subseteq> B \<Longrightarrow> row_ready n B p"
  by (auto simp: row_ready_def intro: has_mono)

lemma session_cells_mono: "session_cells n s A \<Longrightarrow> A \<subseteq> B \<Longrightarrow> session_cells n s B"
  by (auto simp: session_cells_def intro: has_mono states_ready_mono caches_ready_mono kv_ready_mono row_ready_mono)

lemma has_states_assigned: "has_states s parity \<Longrightarrow> states_assigned s"
  by (auto simp: has_states_def states_assigned_def state_buffers_def split: if_splits)

lemma session_ready_cells:
  assumes "session_shaped s" "states_ready s A" "caches_ready s p A"
  shows "session_ready s p A"
  unfolding session_ready_def list_all_iff
proof
  fix l assume l: "l \<in> set (ss_layers s)"
  show "layer_pre s p l A"
  proof (cases "lb_attention l")
    case True
    then show ?thesis
      using assms(3) l by (simp add: layer_pre_def caches_ready_def)
  next
    case False
    then have "lb_state_index l < 48"
      using session_layers(3) [OF assms(1) l] by (simp add: index_ok_def)
    then show ?thesis
      using False assms(2) by (auto simp: layer_pre_def gdn_ready_def states_ready_def intro: has_part)
  qed
qed

lemma caches_advanced: "session_advanced s p b A \<Longrightarrow> caches_ready s (p + b) A"
  by (auto simp: session_advanced_def caches_ready_def layer_post_def list_all_iff)

lemma caches_ready_less: "caches_ready s p A \<Longrightarrow> q \<le> p \<Longrightarrow> caches_ready s q A"
  by (auto simp: caches_ready_def kv_ready_def intro: has_less)

lemma has_blocks: "(\<And>i. i < m \<Longrightarrow> has A (Arena b (i * k)) k) \<Longrightarrow> has A (Arena b 0) (m * k)"
proof (induction m)
  case (Suc m)
  have "has A (Arena b 0) (m * k)"
    using Suc by simp
  then show ?case
    using has_join [of A b 0 "m * k" k] Suc.prems [of m] by (simp add: add.commute)
qed (simp add: has_def)

text \<open>The layers with a recurrent state have the indices below 48, so the verifier fills the
  snapshots and the logs.\<close>

lemma gdn_layer_exists:
  assumes "session_shaped s" "i < 48"
  obtains l where "l \<in> set (ss_layers s)" "\<not> lb_attention l" "lb_state_index l = i"
proof -
  have "i \<in> set (map lb_state_index (filter (\<lambda>l. \<not> lb_attention l) (ss_layers s)))"
    using assms by (simp only: session_shaped_def) simp
  then show thesis
    using that by auto
qed

lemma verifier_leaves:
  assumes s: "session_shaped s" "ss_record_rollback s" and advanced: "session_advanced s p b A"
  shows "has A (Arena (ss_conv_snapshot s) 0) 1966080" "has A (Arena (ss_gdn_snapshot s) 0) 37748736"
    "\<And>i. i < 48 \<Longrightarrow> log_ready A b i"
proof -
  have each: "gdn_ready A (ss_conv_snapshot s) (ss_gdn_snapshot s) i \<and> log_ready A b i" if i: "i < 48" for i
  proof -
    obtain l where l: "l \<in> set (ss_layers s)" "\<not> lb_attention l" "lb_state_index l = i"
      by (rule gdn_layer_exists [OF s(1) i])
    then have "layer_post s p b l A"
      using advanced by (simp add: session_advanced_def list_all_iff)
    then show ?thesis
      using l s(2) by (simp add: layer_post_def)
  qed
  then show "\<And>i. i < 48 \<Longrightarrow> log_ready A b i"
    by blast
  show "has A (Arena (ss_conv_snapshot s) 0) 1966080"
    using has_blocks [of 48 A "ss_conv_snapshot s" 40960] each by (simp add: gdn_ready_def)
  show "has A (Arena (ss_gdn_snapshot s) 0) 37748736"
    using has_blocks [of 48 A "ss_gdn_snapshot s" 786432] each by (simp add: gdn_ready_def)
qed

lemma list_all_concat_upt: "(\<And>i. i < m \<Longrightarrow> list_all P (f i)) \<Longrightarrow> list_all P (concat (map f [0..<m]))"
  by (induction m) simp_all

lemma restore_prefix_safe:
  assumes states: "states_assigned s" "states_ready s A" and logs: "\<And>i. i < 48 \<Longrightarrow> log_ready A b i"
    and accepted: "accepted \<le> b" "b \<le> 32" and K: "\<And>B. A \<subseteq> B \<Longrightarrow> K B"
  shows "safe n held (restore_logged_prefix s accepted) K A"
proof (cases "accepted = 0")
  case False
  have log: "has A (Arena Conv_Rollback_Log (i * 327680)) (accepted * 10240)" "has A (Arena GDN_Key_Log (i * 65536)) (accepted * 2048)"
    "has A (Arena GDN_Delta_Log (i * 196608)) (accepted * 6144)" "has A (Arena GDN_Decay_Log (i * 1536)) (accepted * 48)"
    if "i < 48" for i
    using logs [OF that] accepted(1) by (auto simp: log_ready_def intro: has_less)
  have sizes: "i * 327680 + accepted * 10240 \<le> 15728640" "i * 65536 + accepted * 2048 \<le> 3145728"
    "i * 196608 + accepted * 6144 \<le> 9437184" "i * 1536 + accepted * 48 \<le> 73728" if "i < 48" for i
    using that accepted by linarith+
  have buffers: "buffer_elements n (ss_conv_states s) = 1966080" "buffer_elements n (ss_gdn_states s) = 37748736"
    using states(1) by (auto simp: states_assigned_def buffer_elements_simps)
  let ?call = "State_Op (GDN_Restore_Prefix_All (Arena (ss_conv_states s) 0) (Arena (ss_gdn_states s) 0)
    (Arena Conv_Rollback_Log 0) (Arena GDN_Key_Log 0) (Arena GDN_Delta_Log 0) (Arena GDN_Decay_Log 0)
    gdn_channels kGdnLayerCount kMaximumBlock accepted)"
  let ?reads = "\<lambda>l. [(pointer_plus (Arena Conv_Rollback_Log 0) (l * (kMaximumBlock * gdn_channels)), accepted * gdn_channels),
    (pointer_plus (Arena GDN_Key_Log 0) (l * (kMaximumBlock * gdn_key_elements)), accepted * gdn_key_elements),
    (pointer_plus (Arena GDN_Delta_Log 0) (l * (kMaximumBlock * gdn_value_elements)), accepted * gdn_value_elements),
    (pointer_plus (Arena GDN_Decay_Log 0) (l * (kMaximumBlock * gdn_value_heads)), accepted * gdn_value_heads)]"
  let ?ok = "\<lambda>(p, m). has A p m \<and> within (buffer_elements n) p m"
  have "list_all ?ok (?reads i)" if "i < kGdnLayerCount" for i
    using log [of i] sizes [of i] that by (simp add: session_constants buffer_elements_simps)
  then have "list_all ?ok (concat (map ?reads [0..<kGdnLayerCount]))"
    by (rule list_all_concat_upt)
  moreover have "list_all ?ok [(Arena (ss_conv_states s) 0, kGdnLayerCount * (gdn_channels * 4)),
      (Arena (ss_gdn_states s) 0, kGdnLayerCount * gdn_state_elements)]"
    using states(2) buffers by (simp add: states_ready_def session_constants)
  ultimately have reads: "list_all ?ok (kernel_reads held ?call)"
    by simp
  show ?thesis
    unfolding restore_logged_prefix_def if_not_P [OF False]
    by (rule launch_safe [OF reads]) (use buffers K in \<open>simp_all add: session_constants\<close>)
qed (simp add: restore_logged_prefix_def K)

section \<open>Steps keep the invariant\<close>

lemma session_static_update:
  "session_static n (s\<lparr>ss_last_hidden := p\<rparr>) \<longleftrightarrow> session_static n s"
  "session_static n (s\<lparr>ss_current_position := i\<rparr>) \<longleftrightarrow> session_static n s"
  "session_static n (s\<lparr>ss_mtp_position := i\<rparr>) \<longleftrightarrow> session_static n s"
  "session_static n (s\<lparr>ss_mtp_chain_active := a\<rparr>) \<longleftrightarrow> session_static n s"
  by (simp_all add: session_static_def session_shaped_def down_quantized_def uses_i4_def has_states_def graph_matches_def
      cong: list.pred_cong option.case_cong)

lemma session_inv_mono: "session_inv n s c \<Longrightarrow> ck_cells c \<subseteq> ck_cells c' \<Longrightarrow> ck_safe c' \<Longrightarrow> session_inv n s c'"
  by (auto simp: session_inv_def intro: session_cells_mono)

lemma session_invD:
  assumes "session_inv n s c"
  shows "session_shaped s" "states_assigned s" "\<not> ss_record_rollback s" "n = dc_maximum_context_tokens (ss_config s)"
    "session_ready s (ss_current_position s) (ck_cells c)" "ck_safe c" "ss_current_position s \<le> n"
  using assms has_states_assigned session_ready_cells
  by (auto simp: session_inv_def session_static_def session_cells_def)

lemma greedy_inv:
  assumes inv: "session_inv n s c" and step: "greedy_step (check_device (buffer_elements n) dev) s t c = (r, s', c')"
  shows "session_inv n s' c'"
proof (cases "ss_current_position s \<ge> dc_maximum_context_tokens (ss_config s) \<or> t \<ge> vocabulary_size")
  case True
  then show ?thesis
    using step inv by (simp add: greedy_step_def)
next
  case False
  note D = session_invD [OF inv]
  let ?dev = "check_device (buffer_elements n) dev" and ?s = "s\<lparr>ss_last_hidden := Arena Hidden_A 0\<rparr>"
  have room: "ss_current_position s < n"
    using False D(4) by simp
  obtain st1 c1 where run1: "run_program ?dev (fst (greedy_layers s t)) c = (st1, c1)"
    by force
  have c1: "ck_safe c1 \<and> ck_cells c \<subseteq> ck_cells c1 \<and> ck_held c1 = ck_held c \<and> (status_ok st1 \<longrightarrow>
      has (ck_cells c1) (Arena Hidden_A 0) 5120 \<and> has (ck_cells c1) (Arena Normalized 0) 5120
      \<and> session_advanced s (ss_current_position s) 1 (ck_cells c1))"
    by (rule run_checked [OF run1 _ D(6)], rule greedy_layers_safe [OF D(1-3) room D(4,5)]) simp
  show ?thesis
  proof (cases "status_ok st1")
    case False
    then show ?thesis
      using step \<open>\<not> (_ \<or> _)\<close> run1 c1 session_inv_mono [OF inv, of c1] by (simp add: greedy_step_def case_prod_unfold Let_def)
  next
    case True
    obtain st2 c2 where run2: "run_program ?dev (greedy_head ?s) c1 = (st2, c2)"
      by force
    have inv1: "session_inv n ?s c1"
      using inv c1 True session_cells_mono [of n s "ck_cells c" "ck_cells c1"]
      by (auto simp: session_inv_def session_static_update session_cells_def row_ready_def buffer_elements_simps
          states_ready_def caches_ready_def cache_offset_def)
    have c2: "ck_safe c2 \<and> ck_cells c1 \<subseteq> ck_cells c2 \<and> ck_held c2 = ck_held c1 \<and> (status_ok st2 \<longrightarrow>
        has (ck_cells c2) (Arena Selected_Token 0) 1)"
      by (rule run_checked [OF run2 _ session_invD(6) [OF inv1]],
          rule greedy_head_safe [OF session_invD(1) [OF inv1]]) (use c1 True in simp_all)
    have inv2: "session_inv n ?s c2"
      using session_inv_mono [OF inv1] c2 by blast
    show ?thesis
    proof (cases "status_ok st2")
      case False
      then show ?thesis
        using step \<open>\<not> (_ \<or> _)\<close> run1 run2 True inv2 greedy_layers_current [OF D(1)]
        by (simp add: greedy_step_def case_prod_unfold Let_def)
    next
      case ok: True
      obtain e ws c3 where down: "dx_download ?dev (Arena Selected_Token 0) 1 c2 = (e, ws, c3)"
        by (metis prod_cases3)
      note c3 = download_checked [OF down]
      have inv3: "session_inv n ?s c3"
        using session_inv_mono [OF inv2, of c3] c3 c2 ok by (simp add: buffer_elements_simps)
      moreover have "session_inv n (?s\<lparr>ss_current_position := ss_current_position s + 1\<rparr>) c3"
      proof -
        have "ck_cells c1 \<subseteq> ck_cells c3"
          using c2 c3 ok by (simp add: buffer_elements_simps)
        then have "caches_ready s (ss_current_position s + 1) (ck_cells c3)"
          using c1 True by (blast intro: caches_advanced caches_ready_mono)
        then show ?thesis
          using inv3 room
          by (simp add: session_inv_def session_static_update session_cells_def states_ready_def caches_ready_def cache_offset_def)
      qed
      ultimately show ?thesis
        using step \<open>\<not> (_ \<or> _)\<close> run1 run2 True ok down greedy_layers_current [OF D(1)]
        by (auto simp: greedy_step_def case_prod_unfold Let_def split: if_splits)
    qed
  qed
qed

lemma gather_tokens_safe:
  assumes "length ts \<le> 32"
    and "\<And>A'. A \<subseteq> A' \<Longrightarrow> has A' (Arena Hidden_A 0) (length ts * 5120) \<Longrightarrow> K A'"
  shows "safe n held (gather_tokens s ts) K A"
  unfolding gather_tokens_def
  by (rule gather_block_safe) (use assms in \<open>simp_all add: has_def\<close>)

lemma last_row:
  assumes "has A (Arena Hidden_A 0) (batch * 5120)" "0 < batch" "batch \<le> 32"
  shows "row_ready n A (Arena Hidden_A ((batch - 1) * kHidden))"
proof -
  have "(batch - 1) * 5120 + 5120 = batch * 5120" "batch * 5120 \<le> 163840"
    using assms(2,3) by (simp_all add: diff_mult_distrib)
  then show ?thesis
    using assms(1) has_part [of A Hidden_A 0 "batch * 5120" "(batch - 1) * 5120" 5120]
    by (simp add: row_ready_def kHidden_def hidden_size_def buffer_elements_simps)
qed

lemma session_cells_advance:
  assumes "session_cells n s A" "A \<subseteq> B" "caches_ready s p B" "p \<le> n" "row_ready n B q"
  shows "session_cells n (s\<lparr>ss_last_hidden := q, ss_current_position := p\<rparr>) B"
  using session_cells_mono [OF assms(1,2)] assms(3-5)
  by (simp add: session_cells_def states_ready_def caches_ready_def cache_offset_def)

lemma block_inv:
  assumes inv: "session_inv n s c" and step: "block_step (check_device (buffer_elements n) dev) s ts c = (r, s', c')"
  shows "session_inv n s' c'"
proof -
  let ?dev = "check_device (buffer_elements n) dev" and ?batch = "length ts"
  note D = session_invD [OF inv]
  let ?s = "s\<lparr>ss_last_hidden := Arena Hidden_A ((?batch - 1) * kHidden)\<rparr>"
  obtain st1 c1 where run1: "run_program ?dev (gather_tokens s ts @ fst (block_layers s ?batch None)) c = (st1, c1)"
    by force
  obtain st2 c2 where run2: "run_program ?dev (block_head ?s ?batch) c1 = (st2, c2)"
    by force
  obtain e ws c3 where down: "dx_download ?dev (Arena Selected_Token 0) ?batch c2 = (e, ws, c3)"
    by (metis prod_cases3)
  have current: "snd (block_layers s ?batch None) = Arena Hidden_A 0"
    by (rule block_layers_current [OF D(1)])
  show ?thesis
  proof (cases "ts = [] \<or> ?batch > kMaximumBlock \<or> \<not> ss_tiled_weights s \<and> ?batch > 8
      \<or> ?batch > dc_maximum_context_tokens (ss_config s) - ss_current_position s \<or> list_ex (\<lambda>token. token \<ge> vocabulary_size) ts")
    case True
    then show ?thesis
      using step inv by (auto simp: block_step_def)
  next
    case guard: False
    have room: "ss_current_position s + ?batch \<le> n" and batch: "0 < ?batch" "?batch \<le> 32"
      using guard D(4,7) by (auto simp: kMaximumBlock_def)
    have step': "(r, s', c') =
       (if \<not> status_ok st1 then (Inl st1, s, c1)
        else if \<not> status_ok st2 then (Inl st2, ?s, c2)
        else if e \<noteq> hip_success then (Inl (hip_status (dx_hip dev) e ''decode block token download failed''), ?s, c3)
        else if dx_synchronize dev (ck_device c3) \<noteq> hip_success
        then (Inl (hip_status (dx_hip dev) (dx_synchronize dev (ck_device c3)) ''decode block failed''), ?s, c3)
        else (Inr (map ws [0..<?batch]), ?s\<lparr>ss_current_position := ss_current_position s + ?batch\<rparr>, c3))"
      unfolding step [symmetric] block_step_def if_not_P [OF guard] Let_def case_prod_unfold
      by (simp add: run1 current run2 [unfolded One_nat_def] down)
    have c1: "ck_safe c1 \<and> ck_cells c \<subseteq> ck_cells c1 \<and> ck_held c1 = ck_held c \<and> (status_ok st1 \<longrightarrow>
        has (ck_cells c1) (Arena Hidden_A 0) (?batch * 5120) \<and> has (ck_cells c1) (Arena Normalized 0) (?batch * 5120)
        \<and> session_advanced s (ss_current_position s) ?batch (ck_cells c1))"
    proof (rule run_checked [OF run1 _ D(6)], unfold program_safe_append, rule gather_tokens_safe [OF batch(2)])
      fix A assume A: "ck_cells c \<subseteq> A" "has A (Arena Hidden_A 0) (?batch * 5120)"
      show "safe n (ck_held c) (fst (block_layers s ?batch None)) (\<lambda>B. has B (Arena Hidden_A 0) (?batch * 5120)
          \<and> has B (Arena Normalized 0) (?batch * 5120) \<and> session_advanced s (ss_current_position s) ?batch B) A"
        by (rule block_layers_safe [OF D(1,2) _ room D(4) batch A(2) session_ready_mono [OF D(5) A(1)]])
          (use has_mono [OF A(2)] in \<open>simp_all add: position_source_def\<close>)
    qed
    show ?thesis
    proof (cases "status_ok st1")
      case False
      then show ?thesis
        using step' c1 session_inv_mono [OF inv, of c1] by auto
    next
      case True
      have row: "row_ready n (ck_cells c1) (Arena Hidden_A ((?batch - 1) * kHidden))"
        using c1 True batch by (intro last_row) auto
      have inv1: "session_inv n ?s c1"
        using session_inv_mono [OF inv, of c1] c1 row
        by (auto simp: session_inv_def session_static_update session_cells_def states_ready_def caches_ready_def cache_offset_def)
      have c2: "ck_safe c2 \<and> ck_cells c1 \<subseteq> ck_cells c2 \<and> ck_held c2 = ck_held c1 \<and> (status_ok st2 \<longrightarrow>
          has (ck_cells c2) (Arena Selected_Token 0) ?batch)"
        by (rule run_checked [OF run2 _ session_invD(6) [OF inv1]],
            rule block_head_safe [OF session_invD(1) [OF inv1] _ batch]) (use c1 True in simp_all)
      have inv2: "session_inv n ?s c2"
        using session_inv_mono [OF inv1] c2 by blast
      show ?thesis
      proof (cases "status_ok st2")
        case False
        then show ?thesis
          using step' True inv2 by auto
      next
        case ok: True
        have c3: "ck_safe c3" "ck_cells c3 = ck_cells c2"
          by (rule download_checked [OF down]; use c2 ok batch in \<open>simp add: buffer_elements_simps\<close>)+
        have inv3: "session_inv n ?s c3"
          using session_inv_mono [OF inv2, of c3] c3 by simp
        have "caches_ready s (ss_current_position s + ?batch) (ck_cells c3)"
          using c1 c2 c3 True by (blast intro: caches_advanced caches_ready_mono)
        then have "session_inv n (?s\<lparr>ss_current_position := ss_current_position s + ?batch\<rparr>) c3"
          using inv3 room
          by (simp add: session_inv_def session_static_update session_cells_def states_ready_def caches_ready_def cache_offset_def)
        then show ?thesis
          using step' True ok inv3 by (auto split: if_splits)
      qed
    qed
  qed
qed

lemma draft_inv:
  assumes inv: "session_inv n s c" and room: "ss_mtp_position s < n"
    and step: "mtp_draft (check_device (buffer_elements n) dev) s t c = (r, s', c')"
  shows "session_inv n s' c'"
proof -
  let ?dev = "check_device (buffer_elements n) dev"
  let ?hidden = "if ss_mtp_chain_active s then Arena MTP_Hidden 0 else ss_last_hidden s"
  note D = session_invD [OF inv]
  have cells: "kv_ready (ck_cells c) MTP_Key_Cache MTP_Value_Cache 0 (ss_mtp_position s)" "row_ready n (ck_cells c) ?hidden"
    using inv by (auto simp: session_inv_def session_cells_def row_ready_def buffer_elements_simps)
  obtain st1 c1 where run1: "run_program ?dev (launch_mtp_proposal s (Direct t) ?hidden (ss_mtp_position s)
      (Some (Arena Selected_Token 0)) None) c = (st1, c1)"
    by force
  obtain e ws c2 where down: "dx_download ?dev (Arena Selected_Token 0) 1 c1 = (e, ws, c2)"
    by (metis prod_cases3)
  show ?thesis
  proof (cases "ss_last_hidden s = Null_Pointer \<or> \<not> ss_mtp_chain_active s \<and> ss_mtp_position s + 1 \<noteq> ss_current_position s
      \<or> t \<ge> tokenizer_vocabulary_size")
    case True
    then show ?thesis
      using step inv by (auto simp: mtp_draft_def)
  next
    case guard: False
    have c1: "ck_safe c1 \<and> ck_cells c \<subseteq> ck_cells c1 \<and> ck_held c1 = ck_held c \<and> (status_ok st1 \<longrightarrow>
        kv_ready (ck_cells c1) MTP_Key_Cache MTP_Value_Cache 0 (ss_mtp_position s + 1) \<and> has (ck_cells c1) (Arena Selected_Token 0) 1
        \<and> has (ck_cells c1) (Arena MTP_Hidden 0) 5120)"
      by (rule run_checked [OF run1 _ D(6)], rule mtp_proposal_safe [OF D(1) _ room])
        (use guard cells in \<open>auto simp: proposal_source_def row_ready_def buffer_elements_simps\<close>)
    have step': "(r, s', c') =
       (if \<not> status_ok st1 then (Inl st1, s, c1)
        else if e \<noteq> hip_success then (Inl (hip_status (dx_hip dev) e ''MTP selected token download failed''), s, c2)
        else if dx_synchronize dev (ck_device c2) \<noteq> hip_success
        then (Inl (hip_status (dx_hip dev) (dx_synchronize dev (ck_device c2)) ''MTP draft step failed''), s, c2)
        else (Inr (ws 0), s\<lparr>ss_mtp_position := ss_mtp_position s + 1\<rparr>, c2))"
      unfolding step [symmetric] mtp_draft_def if_not_P [OF guard] Let_def case_prod_unfold
      using run1 down by simp
    have inv1: "session_inv n s c1"
      using session_inv_mono [OF inv] c1 by blast
    show ?thesis
    proof (cases "status_ok st1")
      case False
      then show ?thesis
        using step' inv1 by auto
    next
      case True
      have c2: "ck_safe c2" "ck_cells c2 = ck_cells c1"
        by (rule download_checked [OF down]; use c1 True in \<open>simp add: buffer_elements_simps\<close>)+
      have inv2: "session_inv n s c2"
        using session_inv_mono [OF inv1, of c2] c2 by simp
      moreover have "session_inv n (s\<lparr>ss_mtp_position := ss_mtp_position s + 1\<rparr>) c2"
        using inv2 c1 c2 True
        by (simp add: session_inv_def session_static_update session_cells_def states_ready_def caches_ready_def cache_offset_def)
      ultimately show ?thesis
        using step' True by (auto split: if_splits)
    qed
  qed
qed

section \<open>Speculative steps\<close>

lemma proposal_source_mono: "proposal_source held n A q dp p \<Longrightarrow> A \<subseteq> B \<Longrightarrow> proposal_source held n B q dp p"
  by (auto simp: proposal_source_def intro: has_mono split: option.splits)

abbreviation token_ready :: "nat \<Rightarrow> cells \<Rightarrow> token_source \<Rightarrow> bool" where
  "token_ready n A token \<equiv> (case token of Direct t \<Rightarrow> True | Indirect p \<Rightarrow> has A p 1 \<and> within (buffer_elements n) p 1)"

text \<open>The proposals from the \<open>k\<close>-th on; each reads the token and the hidden state of the one before.\<close>

lemma proposals_safe:
  assumes s: "session_shaped s" and d: "base + d \<le> n" "d \<le> 31"
    and source: "\<And>i. i < d \<Longrightarrow> proposal_source held n A (q i) (dp i) (base + i)"
    and token: "\<And>i. 0 < i \<Longrightarrow> tok i = Indirect (draft_token (i - 1))" "\<And>i. 0 < i \<Longrightarrow> cond i = Arena MTP_Hidden 0"
    and first: "cond 0 = Arena Target_Hidden_Snapshot 0" "token_ready n A (tok 0)" "has A (Arena Target_Hidden_Snapshot 0) 5120"
    and k: "k \<le> d" "kv_ready A MTP_Key_Cache MTP_Value_Cache 0 (base + k)" "has A (draft_token 0) k"
      "0 < k \<Longrightarrow> has A (Arena MTP_Hidden 0) 5120"
    and K: "\<And>A'. A \<subseteq> A' \<Longrightarrow> kv_ready A' MTP_Key_Cache MTP_Value_Cache 0 (base + d) \<Longrightarrow> has A' (draft_token 0) d \<Longrightarrow>
      (0 < d \<Longrightarrow> has A' (Arena MTP_Hidden 0) 5120) \<Longrightarrow> K A'"
  shows "safe n held (concat (map (\<lambda>i. launch_mtp_proposal s (tok i) (cond i) (q i) (Some (draft_token i)) (dp i)) [k..<d])) K A"
  using source first(2,3) k K
proof (induction "d - k" arbitrary: k A)
  case 0
  then show ?case
    by simp
next
  case (Suc m)
  have kd: "k < d"
    using Suc.hyps(2) by simp
  let ?p = "\<lambda>i. launch_mtp_proposal s (tok i) (cond i) (q i) (Some (draft_token i)) (dp i)"
  have ready: "token_ready n A (tok k)" "cond k \<noteq> Null_Pointer" "has A (cond k) 5120" "within (buffer_elements n) (cond k) 5120"
    using Suc.prems(2,3,6,7) first(1) token kd d(2) has_part [of A Selected_Token 32 k "32 + (k - 1)" 1]
    by (cases "k = 0"; simp add: buffer_elements_simps kMaximumBlock_def)+
  have "safe n held (?p k) (program_safe (buffer_elements n) held (concat (map ?p [Suc k..<d])) K) A"
  proof (rule mtp_proposal_safe [OF s Suc.prems(1) [OF kd] _ ready Suc.prems(5)])
    fix B assume B: "A \<subseteq> B" "kv_ready B MTP_Key_Cache MTP_Value_Cache 0 (base + k + 1)"
      "\<And>t. Some (draft_token k) = Some t \<Longrightarrow> has B t 1 \<and> has B (Arena MTP_Hidden 0) 5120"
    show "safe n held (concat (map ?p [Suc k..<d])) K B"
    proof (rule Suc.hyps(1))
      show "has B (draft_token 0) (Suc k)"
        using has_join [OF has_mono [OF Suc.prems(6) B(1)], of 1] B(3) [OF refl] by simp
      show "token_ready n B (tok 0)"
        using Suc.prems(2) has_mono [OF _ B(1)] by (auto split: token_source.splits)
      show "K C" if "B \<subseteq> C" "kv_ready C MTP_Key_Cache MTP_Value_Cache 0 (base + d)" "has C (draft_token 0) d"
        "0 < d \<Longrightarrow> has C (Arena MTP_Hidden 0) 5120" for C
        using Suc.prems(8) [of C] B(1) that by blast
    qed (use Suc.hyps(2) Suc.prems(1,3) B kd in \<open>auto intro: proposal_source_mono has_mono\<close>)
  qed (use kd d in \<open>simp_all add: buffer_elements_simps kMaximumBlock_def\<close>)
  then show ?case
    using kd by (simp add: upt_conv_Cons program_safe_append)
qed

text \<open>What the launches of a speculative step leave behind.\<close>

definition verified :: "session \<Rightarrow> nat \<Rightarrow> cells \<Rightarrow> bool" where
  "verified s d A \<longleftrightarrow>
     caches_ready s (ss_current_position s + (d + 1)) A
     \<and> has A (Arena (ss_conv_snapshot s) 0) 1966080 \<and> has A (Arena (ss_gdn_snapshot s) 0) 37748736
     \<and> (\<forall>i<48. log_ready A (d + 1) i)
     \<and> kv_ready A MTP_Key_Cache MTP_Value_Cache 0 (ss_mtp_position s + d)
     \<and> has A (draft_token 0) d \<and> has A (Arena Selected_Token 0) (d + 1)
     \<and> has A (Arena Hidden_A 0) ((d + 1) * 5120) \<and> has A (Arena MTP_Hidden 0) 5120"

text \<open>The proposals and the verifier of a session that records the rollback; \<open>s0\<close> is the session
  of the launches or the one whose graph is replayed.\<close>

lemma chain_verified:
  assumes s0: "session_shaped s0" "ss_record_rollback s0" "has_states s0 parity" "ss_config s0 = ss_config s" "ss_layers s0 = ss_layers s"
    and s: "has_states s parity" "states_ready s A" "caches_ready s (ss_current_position s) A"
      "kv_ready A MTP_Key_Cache MTP_Value_Cache 0 (ss_mtp_position s)" "has A (Arena Target_Hidden_Snapshot 0) 5120"
    and n: "n = dc_maximum_context_tokens (ss_config s)" and d: "0 < d" "d \<le> 31" "ss_current_position s + (d + 1) \<le> n"
      "ss_mtp_position s + d \<le> n"
    and source: "\<And>i. i < d \<Longrightarrow> proposal_source held n A (q i) (dp i) (ss_mtp_position s + i)"
      "position_source s0 held A device_position (ss_current_position s)"
    and token: "\<And>i. 0 < i \<Longrightarrow> tok i = Indirect (draft_token (i - 1))" "\<And>i. 0 < i \<Longrightarrow> cond i = Arena MTP_Hidden 0"
    and first: "cond 0 = Arena Target_Hidden_Snapshot 0" "token_ready n A (tok 0)" "token_ready n A seed"
    and proposer: "session_shaped s1"
  shows "safe n held (concat (map (\<lambda>i. launch_mtp_proposal s1 (tok i) (cond i) (q i) (Some (draft_token i)) (dp i)) [0..<d])
    @ enqueue_verifier_body s0 seed d device_position) (verified s d) A"
  unfolding program_safe_append
proof (rule proposals_safe [where q = q and dp = dp and tok = tok and cond = cond and base = "ss_mtp_position s" and k = 0, OF proposer d(4,2) source(1) token first(1,2) s(5)])
  fix B assume B: "A \<subseteq> B" "kv_ready B MTP_Key_Cache MTP_Value_Cache 0 (ss_mtp_position s + d)" "has B (draft_token 0) d"
    "0 < d \<Longrightarrow> has B (Arena MTP_Hidden 0) 5120"
  have same: "ss_conv_states s0 = ss_conv_states s" "ss_gdn_states s0 = ss_gdn_states s"
    "ss_conv_snapshot s0 = ss_conv_snapshot s" "ss_gdn_snapshot s0 = ss_gdn_snapshot s"
    using s0(3) s(1) by (cases parity; simp add: has_states_def state_buffers_def)+
  have ready: "session_ready s0 (ss_current_position s) B"
    using s(2,3) s0(1,4,5) same B(1) states_ready_mono [of s A B] caches_ready_mono [of s "ss_current_position s" A B]
    by (intro session_ready_cells) (simp_all add: states_ready_def caches_ready_def cache_offset_def)
  show "safe n held (enqueue_verifier_body s0 seed d device_position) (verified s d) B"
  proof (rule verifier_safe [OF s0(1) has_states_assigned [OF s0(3)] position_source_mono [OF source(2) B(1)] d(3) _ d(2) _ B(3) ready])
    fix C assume C: "B \<subseteq> C" "session_advanced s0 (ss_current_position s) (d + 1) C" "has C (Arena Selected_Token 0) (d + 1)"
      "has C (Arena Hidden_A 0) ((d + 1) * 5120)"
    show "verified s d C"
      using caches_advanced [OF C(2)] verifier_leaves [OF s0(1,2) C(2)] C B has_mono [of B _ _ C] kv_ready_mono [OF B(2) C(1)]
        s0(4,5) same d(1)
      by (simp add: verified_def caches_ready_def cache_offset_def)
  qed (use first(3) has_mono [of A _ _ B] B(1) n s0(4) in \<open>auto split: token_source.splits\<close>)
qed (use s(4) in \<open>simp_all add: has_def\<close>)

lemma hip_status_not_ok [simp]: "e \<noteq> hip_success \<Longrightarrow> \<not> status_ok (hip_status hip e context)"
  by (simp add: hip_status_def status_ok_def)

definition launched :: "session \<Rightarrow> nat \<Rightarrow> 'd checked \<Rightarrow> status \<times> session \<times> 'd checked \<Rightarrow> bool" where
  "launched s d c out \<longleftrightarrow>
     (case out of (st, s', c') \<Rightarrow> ck_safe c' \<and> ck_cells c \<subseteq> ck_cells c'
        \<and> s' = (if status_ok st then after_verifier s d else s) \<and> (status_ok st \<longrightarrow> verified s d (ck_cells c')))"

lemma session_record_shaped: "session_shaped s \<Longrightarrow> session_shaped (s\<lparr>ss_record_rollback := b\<rparr>)"
  by (simp add: session_shaped_def down_quantized_def uses_i4_def cong: list.pred_cong option.case_cong)

lemma launch_speculative_launched:
  assumes inv: "session_inv n s c" and snapshot: "has (ck_cells c) (Arena Target_Hidden_Snapshot 0) 5120"
    and d: "0 < d" "d \<le> 31" "ss_current_position s + (d + 1) \<le> n" "ss_mtp_position s + 1 = ss_current_position s"
  shows "launched s d c (launch_speculative (check_device (buffer_elements n) dev) s seed d c)"
proof -
  note D = session_invD [OF inv]
  let ?dev = "check_device (buffer_elements n) dev" and ?s = "s\<lparr>ss_record_rollback := True\<rparr>"
  let ?chain = "proposal_chain s seed (ss_mtp_position s) d" and ?verify = "launch_speculative_verifier ?s seed d"
  have verify: "?verify = enqueue_verifier_body ?s (Direct seed) d None"
    using d by (simp add: launch_speculative_verifier_def kMaximumBlock_def)
  have "safe n (ck_held c) (?chain @ enqueue_verifier_body ?s (Direct seed) d None) (verified s d) (ck_cells c)"
    unfolding proposal_chain_def
    by (rule chain_verified [where parity = "ss_gdn_state_parity s"])
      (use inv snapshot d D(4) session_record_shaped [OF D(1)] in \<open>auto simp: session_inv_def session_static_def session_cells_def
        proposal_source_def position_source_def has_states_def\<close>)
  then have safe: "safe n (ck_held c) ?chain (safe n (ck_held c) ?verify (verified s d)) (ck_cells c)"
    by (simp only: program_safe_append verify)
  obtain st1 c1 where run1: "run_program ?dev ?chain c = (st1, c1)"
    by force
  obtain st2 c2 where run2: "run_program ?dev ?verify c1 = (st2, c2)"
    by force
  have c1: "ck_safe c1 \<and> ck_cells c \<subseteq> ck_cells c1 \<and> ck_held c1 = ck_held c \<and>
      (status_ok st1 \<longrightarrow> safe n (ck_held c) ?verify (verified s d) (ck_cells c1))"
    by (rule run_checked [OF run1 safe D(6)])
  show ?thesis
  proof (cases "status_ok st1")
    case False
    then show ?thesis
      using c1 by (simp add: launch_speculative_def run1 launched_def)
  next
    case True
    then have "ck_safe c2 \<and> ck_cells c1 \<subseteq> ck_cells c2 \<and> ck_held c2 = ck_held c1 \<and> (status_ok st2 \<longrightarrow> verified s d (ck_cells c2))"
      using c1 by (intro run_checked [OF run2]) auto
    then show ?thesis
      using True c1 by (auto simp: launch_speculative_def run1 run2 launched_def)
  qed
qed

text \<open>What the uploads of a graph launch put on the device.\<close>

lemma uploaded_at: "i \<le> j \<Longrightarrow> j < i + length ws \<Longrightarrow> uploaded (Arena b i) ws held (Arena b j) = ws ! (j - i)"
  by (simp add: uploaded_def)

lemma uploaded_other: "b' \<noteq> b \<Longrightarrow> uploaded (Arena b i) ws held (Arena b' j) = held (Arena b' j)"
  by (simp add: uploaded_def)

lemma graph_replay_safe:
  assumes inv: "session_inv n s c" and snapshot: "has (ck_cells c) (Arena Target_Hidden_Snapshot 0) 5120"
    and graph: "graph_matches s (ss_gdn_state_parity s) ks" "d + 1 = dc_graph_verifier_batch (ss_config s)"
    and d: "0 < d" "d \<le> 31" "ss_current_position s + (d + 1) \<le> n" "ss_mtp_position s + 1 = ss_current_position s"
    and cells: "ck_cells c \<subseteq> A" "has A graph_seed_token 1" "has A (Arena Graph_Base_Position 0) 1" "has A (Arena Graph_MTP_Positions 0) d"
    and held: "held (Arena Graph_Base_Position 0) = ss_current_position s"
      "\<And>i. i < d \<Longrightarrow> held (Arena Graph_MTP_Positions i) = ss_mtp_position s + i"
  shows "safe n held (map Launch ks) (verified s d) A"
proof -
  note D = session_invD [OF inv]
  obtain s0 where s0: "map Launch ks = graph_program s0 d" "session_shaped s0" "has_states s0 (ss_gdn_state_parity s)"
    "ss_record_rollback s0" "ss_config s0 = ss_config s" "ss_layers s0 = ss_layers s"
    using graph by (auto simp: graph_matches_def simp flip: graph(2))
  have inv': "session_cells n s A"
    using inv cells(1) by (auto simp: session_inv_def intro: session_cells_mono)
  have mtp: "has A (Arena Graph_MTP_Positions i) 1" if "i < d" for i
    using has_part [OF cells(4), of i 1] that by simp
  show ?thesis
    unfolding s0(1) graph_program_def
    by (rule chain_verified [where parity = "ss_gdn_state_parity s", OF s0(2,4,3,5,6)])
      (use inv inv' snapshot d D(4) s0(2) has_mono [OF snapshot cells(1)] cells mtp held
        in \<open>auto simp: session_inv_def session_static_def session_cells_def proposal_source_def position_source_def
          graph_seed_token_def buffer_elements_simps kMaximumBlock_def\<close>)
qed

lemma launch_graph_launched:
  assumes inv: "session_inv n s c" and snapshot: "has (ck_cells c) (Arena Target_Hidden_Snapshot 0) 5120"
    and d: "0 < d" "d \<le> 31" "ss_current_position s + (d + 1) \<le> n" "ss_mtp_position s + 1 = ss_current_position s"
      "d + 1 = dc_graph_verifier_batch (ss_config s)"
  shows "launched s d c (launch_prepared_speculative_graph (check_device (buffer_elements n) dev) s seed c)"
proof -
  note D = session_invD [OF inv]
  let ?dev = "check_device (buffer_elements n) dev" and ?positions = "map (\<lambda>i. ss_mtp_position s + i) [0..<d]"
  obtain e1 c1 where up1: "dx_upload ?dev graph_seed_token [seed] c = (e1, c1)"
    by force
  obtain e2 c2 where up2: "dx_upload ?dev (Arena Graph_Base_Position 0) [ss_current_position s] c1 = (e2, c2)"
    by force
  obtain e3 c3 where up3: "dx_upload ?dev (Arena Graph_MTP_Positions 0) ?positions c2 = (e3, c3)"
    by force
  have c1: "ck_safe c1" "ck_cells c \<subseteq> ck_cells c1" "e1 = hip_success \<Longrightarrow> has (ck_cells c1) graph_seed_token 1"
    using upload_checked [OF up1 _ D(6)] by (simp_all add: graph_seed_token_def buffer_elements_simps kMaximumBlock_def)
  have c2: "ck_safe c2" "ck_cells c1 \<subseteq> ck_cells c2" "e2 = hip_success \<Longrightarrow> has (ck_cells c2) (Arena Graph_Base_Position 0) 1"
    "e2 = hip_success \<Longrightarrow> ck_held c2 (Arena Graph_Base_Position 0) = ss_current_position s"
    using upload_checked [OF up2 _ c1(1)] by (simp_all add: buffer_elements_simps uploaded_at)
  have c3: "ck_safe c3" "ck_cells c2 \<subseteq> ck_cells c3" "e3 = hip_success \<Longrightarrow> has (ck_cells c3) (Arena Graph_MTP_Positions 0) d"
    "e3 = hip_success \<Longrightarrow> ck_held c3 = uploaded (Arena Graph_MTP_Positions 0) ?positions (ck_held c2)"
    using upload_checked [OF up3 _ c2(1)] d by (simp_all add: buffer_elements_simps)
  have grown: "ck_cells c \<subseteq> ck_cells c2" "ck_cells c \<subseteq> ck_cells c3"
    using c1(2) c2(2) c3(2) by auto
  have count: "dc_graph_verifier_batch (ss_config s) - 1 = d" "\<not> dc_graph_verifier_batch (ss_config s) < 2"
    using d by simp_all
  have step: "launch_prepared_speculative_graph ?dev s seed c =
      (if e1 \<noteq> hip_success then (hip_status (dx_hip dev) e1 ''speculative graph seed upload failed'', s, c1)
       else if e2 \<noteq> hip_success then (hip_status (dx_hip dev) e2 ''speculative graph verifier-position upload failed'', s, c2)
       else if e3 \<noteq> hip_success then (hip_status (dx_hip dev) e3 ''speculative graph MTP-position upload failed'', s, c3)
       else case ss_graphs s (ss_gdn_state_parity s) of
           None \<Rightarrow> (Status internal ''prepared speculative graph is unavailable'', s, c3)
         | Some graph \<Rightarrow>
             (case dx_replay ?dev graph c3 of (e, c4) \<Rightarrow>
                if e \<noteq> hip_success then (hip_status (dx_hip dev) e ''speculative graph launch failed'', s, c4)
                else (ok_status, after_verifier s d, c4)))"
    unfolding launch_prepared_speculative_graph_def Let_def count(1) if_not_P [OF count(2)] up1 up2 up3 prod.case check_device_hip
    by (rule refl)
  have bad: "\<not> status_ok (Status internal m)" for m
    by (simp add: status_ok_def)
  show ?thesis
  proof (cases "e1 = hip_success \<and> e2 = hip_success \<and> e3 = hip_success")
    case False
    then show ?thesis
      unfolding step launched_def using c1(1,2) c2(1) c3(1) grown by auto
  next
    case ok: True
    show ?thesis
    proof (cases "ss_graphs s (ss_gdn_state_parity s)")
      case None
      then show ?thesis
        unfolding step launched_def using ok c3(1) grown bad by simp
    next
      case (Some ks)
      obtain e c4 where replay: "dx_replay ?dev ks c3 = (e, c4)"
        by force
      have matches: "graph_matches s (ss_gdn_state_parity s) ks"
        using inv Some by (simp add: session_inv_def session_static_def)
      have "safe n (ck_held c3) (map Launch ks) (verified s d) (ck_cells c3)"
        by (rule graph_replay_safe [OF inv snapshot matches d(5,1-4) grown(2)])
          (use ok c1(3) c2(3,4) c3(3,4) has_mono [of "ck_cells c1" _ _ "ck_cells c3"] has_mono [of "ck_cells c2" _ _ "ck_cells c3"]
            c2(2) c3(2) in \<open>auto simp: uploaded_other uploaded_at\<close>)
      then have "ck_safe c4 \<and> ck_cells c3 \<subseteq> ck_cells c4 \<and> ck_held c4 = ck_held c3
          \<and> (e = hip_success \<longrightarrow> verified s d (ck_cells c4))"
        by (rule graph_checked [OF replay _ c3(1)])
      then show ?thesis
        unfolding step launched_def using ok Some replay grown(2) by auto
    qed
  qed
qed

lemma accepted_prefix_le: "accepted_prefix xs ys \<le> length xs" "accepted_prefix xs ys \<le> length ys"
  by (induction xs ys rule: accepted_prefix.induct) auto

text \<open>The state between the launches and the commit.\<close>

definition speculated :: "session \<Rightarrow> nat \<Rightarrow> session" where
  "speculated s d = (after_verifier s d)\<lparr>ss_mtp_position := ss_mtp_position s + d, ss_mtp_chain_active := True\<rparr>"

lemma speculated_inv:
  assumes inv: "session_inv n s c" and c1: "ck_safe c1" "ck_cells c \<subseteq> ck_cells c1" "verified s d (ck_cells c1)"
    and d: "d \<le> 31" "ss_current_position s + (d + 1) \<le> n"
  shows "session_inv n (speculated s d) c1"
proof -
  have "row_ready n (ck_cells c1) (Arena Hidden_A (d * kHidden))"
    using last_row [of "ck_cells c1" "d + 1" n] c1(3) d(1) by (simp add: verified_def)
  then show ?thesis
    using session_inv_mono [OF inv c1(2,1)] c1(3) d(2)
    by (simp add: session_inv_def speculated_def after_verifier_def session_static_update session_cells_def states_ready_def
        caches_ready_def cache_offset_def verified_def)
qed

lemma commit_prefix_inv:
  assumes inv: "session_inv n s c" and c: "session_inv n (speculated s d) c1" "ck_cells c \<subseteq> ck_cells c1" "verified s d (ck_cells c1)"
    and snapshot: "has (ck_cells c1) (Arena Target_Hidden_Snapshot 0) 5120"
    and d: "d \<le> 31" "ss_current_position s + (d + 1) \<le> n" "accepted < d"
    and step: "commit_prefix (check_device (buffer_elements n) dev) (speculated s d) (ss_current_position s) (ss_mtp_position s)
      accepted c1 = (st, s', c')"
  shows "session_inv n s' c'"
proof -
  let ?s = "restore_target_state (speculated s d)"
  note D = session_invD [OF c(1)]
  obtain st2 c2 where run: "run_program (check_device (buffer_elements n) dev) (restore_logged_prefix ?s (accepted + 1)) c1 = (st2, c2)"
    by force
  have c2: "ck_safe c2 \<and> ck_cells c1 \<subseteq> ck_cells c2 \<and> ck_held c2 = ck_held c1 \<and> (status_ok st2 \<longrightarrow> True)"
  proof (rule run_checked [OF run restore_prefix_safe [where b = "d + 1"] D(6)])
    show "states_assigned ?s" "states_ready ?s (ck_cells c1)"
      using D(2) c(1) by (simp_all add: restore_target_state_def states_assigned_def states_ready_def session_inv_def session_cells_def)
  qed (use c(3) d in \<open>simp_all add: verified_def\<close>)
  have inv2: "session_inv n (speculated s d) c2"
    using session_inv_mono [OF c(1)] c2 by blast
  have rows: "row_ready n (ck_cells c2) (Arena Target_Hidden_Snapshot 0)" "row_ready n (ck_cells c2) (Arena Hidden_A (accepted * kHidden))"
  proof -
    show "row_ready n (ck_cells c2) (Arena Target_Hidden_Snapshot 0)"
      using snapshot c2 by (auto simp: row_ready_def buffer_elements_simps intro: has_mono)
    have "has (ck_cells c2) (Arena Hidden_A 0) ((accepted + 1) * 5120)"
      using c(3) c2 d by (auto simp: verified_def intro: has_less has_mono)
    then show "row_ready n (ck_cells c2) (Arena Hidden_A (accepted * kHidden))"
      using last_row [of "ck_cells c2" "accepted + 1" n] d by simp
  qed
  have less: "caches_ready s (ss_current_position s + accepted + 1) (ck_cells c2)"
    "kv_ready (ck_cells c2) MTP_Key_Cache MTP_Value_Cache 0 (ss_mtp_position s + accepted + 1)"
    using c(3) c2 d by (auto simp: verified_def kv_ready_def intro: caches_ready_less caches_ready_mono has_less has_mono)
  show ?thesis
    using step run rows less inv2 d
    by (auto simp: commit_prefix_def Let_def session_inv_def session_static_update session_cells_def states_ready_def
        caches_ready_def cache_offset_def restore_target_state_def speculated_def after_verifier_def split: if_splits)
qed

lemma session_static_swap:
  "session_static n s \<Longrightarrow> session_static n ((swap_states s)\<lparr>ss_gdn_state_parity := \<not> ss_gdn_state_parity s\<rparr>)"
  by (auto simp: session_static_def session_shaped_def down_quantized_def uses_i4_def has_states_def graph_matches_def
      swap_states_def state_buffers_def cong: list.pred_cong option.case_cong split: if_splits)

lemma commit_all_inv:
  assumes c: "session_inv n (speculated s d) c1" "verified s d (ck_cells c1)"
    and d: "0 < d" "d \<le> 31" "ss_current_position s + (d + 1) \<le> n" "ss_mtp_position s + 1 = ss_current_position s"
    and step: "commit_all (check_device (buffer_elements n) dev) (speculated s d) t c1 = (st, s', c')"
  shows "session_inv n s' c'"
proof -
  let ?dev = "check_device (buffer_elements n) dev"
  have parity: "ss_gdn_state_parity (swap_states (speculated s d)) = ss_gdn_state_parity (speculated s d)"
    by (simp add: swap_states_def)
  define s2 where "s2 = (swap_states (speculated s d))
    \<lparr>ss_gdn_state_parity := \<not> ss_gdn_state_parity (swap_states (speculated s d))\<rparr>"
  have fields: "ss_mtp_position s2 = ss_mtp_position s + d" "ss_last_hidden s2 = Arena Hidden_A (d * kHidden)"
    by (simp_all add: s2_def swap_states_def speculated_def after_verifier_def)
  have inv2: "session_inv n s2 c1"
    using c session_static_swap [of n "speculated s d"]
    by (simp add: s2_def parity session_inv_def session_cells_def swap_states_def states_ready_def verified_def speculated_def
        after_verifier_def caches_ready_def cache_offset_def)
  note D = session_invD [OF inv2]
  have before: "Arena Hidden_A (d * kHidden - kHidden) = Arena Hidden_A ((d - 1) * kHidden)"
    by (simp add: diff_mult_distrib)
  let ?program = "launch_mtp_proposal s2 (Direct t) (Arena Hidden_A (d * kHidden - kHidden)) (ss_mtp_position s + d) None None"
  obtain st1 c2 where run: "run_program ?dev ?program c1 = (st1, c2)"
    by force
  have "has (ck_cells c1) (Arena Hidden_A 0) (d * 5120)"
    using c(2) by (auto simp: verified_def intro: has_less)
  then have row: "row_ready n (ck_cells c1) (Arena Hidden_A ((d - 1) * kHidden))"
    using d by (intro last_row) auto
  have "safe n (ck_held c1) ?program (\<lambda>A. kv_ready A MTP_Key_Cache MTP_Value_Cache 0 (ss_mtp_position s + d + 1)) (ck_cells c1)"
    by (rule mtp_proposal_safe [OF D(1), where p = "ss_mtp_position s + d"])
      (use row c(2) d in \<open>simp_all add: proposal_source_def verified_def row_ready_def before\<close>)
  then have c2: "ck_safe c2 \<and> ck_cells c1 \<subseteq> ck_cells c2 \<and> ck_held c2 = ck_held c1
      \<and> (status_ok st1 \<longrightarrow> kv_ready (ck_cells c2) MTP_Key_Cache MTP_Value_Cache 0 (ss_mtp_position s + d + 1))"
    by (rule run_checked [OF run _ D(6)])
  have inv3: "session_inv n s2 c2"
    using session_inv_mono [OF inv2] c2 by blast
  have step': "(st, s', c') = (if \<not> status_ok st1 then (st1, s2\<lparr>ss_mtp_chain_active := False\<rparr>, c2)
      else (ok_status, s2\<lparr>ss_mtp_chain_active := False, ss_mtp_position := ss_mtp_position s + d + 1\<rparr>, c2))"
    unfolding step [symmetric] commit_all_def Let_def s2_def [symmetric] fields pointer.case run prod.case
    by (simp add: fields)
  show ?thesis
  proof (cases "status_ok st1")
    case True
    then show ?thesis
      using step' inv3 c2
      by (simp add: session_inv_def session_static_update session_cells_def states_ready_def caches_ready_def cache_offset_def)
  next
    case False
    then show ?thesis
      using step' inv3
      by (simp add: session_inv_def session_static_update session_cells_def states_ready_def caches_ready_def cache_offset_def)
  qed
qed

lemma download_tokens_checked:
  assumes step: "download_tokens (check_device (buffer_elements n) dev) d c = (r, c')"
    and c: "ck_safe c" "verified s d (ck_cells c)" and d: "d \<le> 31"
  shows "ck_safe c'" "ck_cells c' = ck_cells c" "\<And>xs ys. r = Inr (xs, ys) \<Longrightarrow> length xs = d \<and> length ys = d + 1"
proof -
  let ?dev = "check_device (buffer_elements n) dev"
  obtain e1 w1 c1 where down1: "dx_download ?dev (draft_token 0) d c = (e1, w1, c1)"
    by (metis prod_cases3)
  obtain e2 w2 c2 where down2: "dx_download ?dev (Arena Selected_Token 0) (d + 1) c1 = (e2, w2, c2)"
    by (metis prod_cases3)
  have c1: "ck_safe c1" "ck_cells c1 = ck_cells c"
    by (rule download_checked [OF down1]; use c d in \<open>simp add: verified_def buffer_elements_simps kMaximumBlock_def\<close>)+
  have c2: "ck_safe c2" "ck_cells c2 = ck_cells c"
    using download_checked [OF down2] c c1 d by (simp_all add: verified_def buffer_elements_simps)
  show "ck_safe c'" "ck_cells c' = ck_cells c" "\<And>xs ys. r = Inr (xs, ys) \<Longrightarrow> length xs = d \<and> length ys = d + 1"
    using step c1 c2 unfolding download_tokens_def down1 prod.case Let_def down2 by (auto split: if_splits)
qed

lemma snapshot_checked:
  assumes inv: "session_inv n s c" and hidden: "ss_last_hidden s \<noteq> Null_Pointer"
    and step: "snapshot_target_state (check_device (buffer_elements n) dev) s c = (st, c')"
  shows "session_inv n s c'" "ck_cells c \<subseteq> ck_cells c'" "status_ok st \<Longrightarrow> has (ck_cells c') (Arena Target_Hidden_Snapshot 0) 5120"
proof -
  obtain e c1 where copy: "dx_copy (check_device (buffer_elements n) dev) (Arena Target_Hidden_Snapshot 0) (ss_last_hidden s) kHidden c = (e, c1)"
    by force
  have c1: "ck_safe c1" "ck_cells c \<subseteq> ck_cells c1" "e = hip_success \<Longrightarrow> has (ck_cells c1) (Arena Target_Hidden_Snapshot 0) 5120"
    using copy_checked [OF copy] inv
    by (simp_all add: session_inv_def session_cells_def row_ready_def kHidden_def hidden_size_def buffer_elements_simps)
  then have inv1: "session_inv n s c1"
    using session_inv_mono [OF inv] by blast
  have "c' = c1" "status_ok st \<Longrightarrow> e = hip_success"
    using step hidden copy by (auto simp: snapshot_target_state_def split: if_splits)
  then show "session_inv n s c'" "ck_cells c \<subseteq> ck_cells c'" "status_ok st \<Longrightarrow> has (ck_cells c') (Arena Target_Hidden_Snapshot 0) 5120"
    using inv1 c1 by auto
qed

lemma speculative_inv:
  assumes inv: "session_inv n s c" and step: "speculative_step (check_device (buffer_elements n) dev) s t d c = (r, s', c')"
  shows "session_inv n s' c'"
proof (cases "ss_last_hidden s = Null_Pointer \<or> d = 0 \<or> d \<ge> kMaximumBlock \<or> t \<ge> tokenizer_vocabulary_size
    \<or> ss_mtp_position s + 1 \<noteq> ss_current_position s \<or> d + 1 > dc_maximum_context_tokens (ss_config s) - ss_current_position s")
  case True
  then show ?thesis
    using step inv by (auto simp: speculative_step_def)
next
  case guard: False
  let ?dev = "check_device (buffer_elements n) dev"
  note D = session_invD [OF inv]
  have d: "0 < d" "d \<le> 31" "ss_current_position s + (d + 1) \<le> n" "ss_mtp_position s + 1 = ss_current_position s"
    using guard D(4) by (auto simp: kMaximumBlock_def)
  obtain st0 c0 where snap: "snapshot_target_state ?dev s c = (st0, c0)"
    by force
  have c0: "session_inv n s c0" "status_ok st0 \<Longrightarrow> has (ck_cells c0) (Arena Target_Hidden_Snapshot 0) 5120"
    using snapshot_checked [OF inv _ snap] guard by auto
  define out where "out = (if d + 1 = dc_graph_verifier_batch (ss_config s)
    then launch_prepared_speculative_graph ?dev s t c0 else launch_speculative ?dev s t d c0)"
  obtain st1 s1 c1 where out: "out = (st1, s1, c1)"
    by (metis prod_cases3)
  have step: "(r, s', c') =
     (if \<not> status_ok st0 then (Inl st0, s, c0)
      else if \<not> status_ok st1 then
        let s = restore_target_state (s1\<lparr> ss_record_rollback := False, ss_mtp_chain_active := False,
              ss_mtp_position := ss_mtp_position s, ss_current_position := ss_current_position s \<rparr>)
        in if dx_synchronize ?dev c1 \<noteq> hip_success
           then (Inl (hip_status (dx_hip ?dev) (dx_synchronize ?dev c1) ''speculative failure rollback failed''), s, c1)
           else (Inl st1, s, c1)
      else
        let s2 = s1\<lparr> ss_mtp_position := ss_mtp_position s + d, ss_mtp_chain_active := True \<rparr> in
        case download_tokens ?dev d c1 of
          (Inl e, d) \<Rightarrow> (Inl e, s2, d)
        | (Inr (drafts, target_outputs), c2) \<Rightarrow>
            let accepted = accepted_prefix drafts target_outputs;
                (status, s3, c3) =
                  (if accepted \<noteq> d then commit_prefix ?dev s2 (ss_current_position s) (ss_mtp_position s) accepted c2
                   else commit_all ?dev s2 (last drafts) c2)
            in if \<not> status_ok status then (Inl status, s3, c3)
               else (Inr \<lparr> sr_tokens = take accepted drafts @ [target_outputs ! accepted],
                       sr_proposed_drafts = d, sr_accepted_drafts = accepted \<rparr>, s3, c3))"
    unfolding step [symmetric] speculative_step_def if_not_P [OF guard] snap
    unfolding Let_def prod.case out_def [symmetric] out
    by (rule refl)
  show ?thesis
  proof (cases "status_ok st0")
    case False
    then show ?thesis
      using step c0 by simp
  next
    case ok0: True
    note snapshot = c0(2) [OF ok0]
    have l: "launched s d c0 out"
      unfolding out_def using launch_speculative_launched [OF c0(1) snapshot d] launch_graph_launched [OF c0(1) snapshot d] by simp
    have c1: "ck_safe c1" "ck_cells c0 \<subseteq> ck_cells c1" "s1 = (if status_ok st1 then after_verifier s d else s)"
      "status_ok st1 \<Longrightarrow> verified s d (ck_cells c1)"
      using l by (auto simp: launched_def out)
    show ?thesis
    proof (cases "status_ok st1")
      case False
      have "session_inv n (restore_target_state (s\<lparr> ss_record_rollback := False, ss_mtp_chain_active := False,
              ss_mtp_position := ss_mtp_position s, ss_current_position := ss_current_position s \<rparr>)) c1"
      proof -
        have "s\<lparr> ss_record_rollback := False, ss_mtp_chain_active := False, ss_mtp_position := ss_mtp_position s,
            ss_current_position := ss_current_position s \<rparr> = s\<lparr>ss_mtp_chain_active := False\<rparr>"
          using D(3) by (cases s) simp
        moreover have "row_ready n (ck_cells c1) (Arena Target_Hidden_Snapshot 0)"
          using has_mono [OF snapshot c1(2)] by (simp add: row_ready_def buffer_elements_simps)
        ultimately show ?thesis
          using session_inv_mono [OF c0(1) c1(2,1)]
          by (simp add: restore_target_state_def session_inv_def session_static_update session_cells_def states_ready_def
              caches_ready_def cache_offset_def)
      qed
      then show ?thesis
        using step ok0 False c1(3) by (auto simp: Let_def split: if_splits)
    next
      case ok1: True
      have s2: "s1\<lparr> ss_mtp_position := ss_mtp_position s + d, ss_mtp_chain_active := True \<rparr> = speculated s d"
        using c1(3) ok1 by (simp add: speculated_def)
      have inv1: "session_inv n (speculated s d) c1"
        by (rule speculated_inv [OF c0(1) c1(1,2) c1(4) [OF ok1] d(2,3)])
      obtain r2 c2 where down: "download_tokens ?dev d c1 = (r2, c2)"
        by force
      note c2 = download_tokens_checked [OF down c1(1) c1(4) [OF ok1] d(2)]
      have inv2: "session_inv n (speculated s d) c2" and verified2: "verified s d (ck_cells c2)"
        using session_inv_mono [OF inv1, of c2] c2 c1(4) [OF ok1] by auto
      show ?thesis
      proof (cases r2)
        case (Inl e)
        then show ?thesis
          using step ok0 ok1 inv2 by (simp add: s2 down)
      next
        case (Inr p)
        obtain xs ys where p: "p = (xs, ys)"
          by force
        define accepted where "accepted = accepted_prefix xs ys"
        have le: "accepted \<le> d"
          using accepted_prefix_le(1) [of xs ys] c2(3) Inr p by (simp add: accepted_def)
        define commit where "commit = (if accepted \<noteq> d
          then commit_prefix ?dev (speculated s d) (ss_current_position s) (ss_mtp_position s) accepted c2
          else commit_all ?dev (speculated s d) (last xs) c2)"
        obtain st3 s3 c3 where commit: "commit = (st3, s3, c3)"
          by (metis prod_cases3)
        have "session_inv n s3 c3"
        proof (cases "accepted = d")
          case True
          show ?thesis
            by (rule commit_all_inv [OF inv2 verified2 d]) (use commit True in \<open>simp add: commit_def\<close>)
        next
          case False
          show ?thesis
          proof (rule commit_prefix_inv [OF c0(1) inv2 _ verified2 _ d(2,3)])
            show "ck_cells c0 \<subseteq> ck_cells c2" "has (ck_cells c2) (Arena Target_Hidden_Snapshot 0) 5120"
              using c1(2) c2(2) has_mono [OF snapshot] by auto
          qed (use False le commit in \<open>simp_all add: commit_def\<close>)
        qed
        moreover have "s' = s3 \<and> c' = c3"
          using step ok0 ok1 commit [unfolded commit_def]
          by (auto simp: s2 down Inr p Let_def accepted_def [symmetric] split: if_splits)
        ultimately show ?thesis
          by simp
      qed
    qed
  qed
qed

section \<open>Runs\<close>

text \<open>
  The calls a client may make, whatever they return, also after a failed call of the device. The
  code does not bound the position of a proposal while a chain is active, which it is only after a
  failed download; a run drafts below the context limit.
\<close>

inductive session_run :: "'d device \<Rightarrow> session \<times> 'd \<Rightarrow> session \<times> 'd \<Rightarrow> bool" for dev where
  run_start: "session_run dev x x"
| run_greedy: "session_run dev x (s, d) \<Longrightarrow> greedy_step dev s t d = (r, s', d') \<Longrightarrow> session_run dev x (s', d')"
| run_block: "session_run dev x (s, d) \<Longrightarrow> block_step dev s ts d = (r', s', d') \<Longrightarrow> session_run dev x (s', d')"
| run_draft: "session_run dev x (s, d) \<Longrightarrow> ss_mtp_position s < dc_maximum_context_tokens (ss_config s) \<Longrightarrow>
    mtp_draft dev s t d = (r, s', d') \<Longrightarrow> session_run dev x (s', d')"
| run_speculative: "session_run dev x (s, d) \<Longrightarrow> speculative_step dev s t n d = (r'', s', d') \<Longrightarrow> session_run dev x (s', d')"

lemma session_run_inv:
  assumes "session_run (check_device (buffer_elements n) dev) x y" "session_inv n (fst x) (snd x)"
  shows "session_inv n (fst y) (snd y)"
  using assms
proof (induction rule: session_run.induct)
  case (run_draft x s d t r s' d')
  then show ?case
    using draft_inv session_invD(4) by (metis fst_conv snd_conv)
qed (auto intro: greedy_inv block_inv speculative_inv)

end
