(* ===== verification/SessionBind.thy ===== *)
theory SessionBind
  imports SessionRun
begin

text \<open>
  The bindings of a decode session: a resident model that has the tensors of
  \<^verbatim>\<open>include/gfxinfer/qwen38_spec.h\<close> binds, and the session that is created has the shapes that
  its launches rely on. The theory ends with the memory safety of every run of a created session.
\<close>

section \<open>A resident model\<close>

definition text_specs :: "source_tensor_spec list" where
  "text_specs =
     add_specs [] head_specs
     @ concat (map (\<lambda>layer. add_specs (layer_prefix layer) (layer_specs layer)) [0..<layer_count])
     @ add_specs [] mtp_specs"

definition has_shape :: "device_tensor_view \<Rightarrow> u64 list \<Rightarrow> bool" where
  "has_shape v shape \<longleftrightarrow>
     unat (dv_rank v) = length shape \<and> take (length shape) (dv_dimensions v) = shape"

text \<open>Every tensor of the text model and of the proposal layer is resident with its shape; the ranked
  head is either absent or valid.\<close>

definition serves_model :: "engine \<Rightarrow> bool" where
  "serves_model en \<longleftrightarrow>
     in_name_order en
     \<and> list_all (\<lambda>t. list_ex (\<lambda>v. dv_name v = st_name t \<and> has_shape v (st_shape t)) (en_device_tensors en)) text_specs
     \<and> (case (find_device_tensor en ''mtp.draft_head.weight'', find_device_tensor en ''mtp.draft_head_token_ids'') of
          (None, None) \<Rightarrow> True
        | (Some head, Some ids) \<Rightarrow> valid_ranked_head head ids \<and> dv_dimensions head \<noteq> []
        | _ \<Rightarrow> False)"

lemma has_shapeD:
  assumes "has_shape v shape"
  shows "dv_dimensions v = shape @ drop (length shape) (dv_dimensions v)" "unat (dv_rank v) = length shape"
  using assms append_take_drop_id [of "length shape" "dv_dimensions v"] by (auto simp: has_shape_def)

lemma has_shape_matrix:
  assumes "has_shape v [r, c]"
  shows "matrix_shaped (Some v) (unat r) (unat c)"
proof -
  have "unat (dv_rank v) = unat (2 :: u16)"
    using has_shapeD(2) [OF assms] by simp
  then have "dv_rank v = 2"
    by (simp only: word_unat_eq_iff)
  then show ?thesis
    using has_shapeD(1) [OF assms]
    by (metis append_Cons matrix_shaped_def nth_Cons_0 nth_Cons_Suc One_nat_def tensor_rows_def tensor_columns_def)
qed

text \<open>Each tensor of the model is found under its name.\<close>

lemma serves_lookup:
  assumes "serves_model en" "t \<in> set text_specs"
  obtains v where "find_device_tensor en (st_name t) = Some v" "has_shape v (st_shape t)"
proof -
  obtain v where "v \<in> set (en_device_tensors en)" "dv_name v = st_name t" "has_shape v (st_shape t)"
    using assms by (auto simp: serves_model_def list_all_iff list_ex_iff)
  then show thesis
    using that device_table.lookup_Some [of en "st_name t" v] assms(1) by (simp add: serves_model_def)
qed

lemma layer_spec_found:
  assumes "serves_model en" "layer < 64" "(suffix, shape) \<in> set (layer_specs layer)"
  shows "\<exists>v. find_device_tensor en (layer_prefix layer @ suffix) = Some v \<and> has_shape v shape"
proof -
  have "\<lparr> st_name = layer_prefix layer @ suffix, st_shape = shape \<rparr> \<in> set (add_specs (layer_prefix layer) (layer_specs layer))"
    using assms(3) by (force simp: add_specs_def)
  then have "\<lparr> st_name = layer_prefix layer @ suffix, st_shape = shape \<rparr> \<in> set text_specs"
    using assms(2) by (auto simp: text_specs_def layer_count_def)
  then show ?thesis
    by (rule serves_lookup [OF assms(1)]) auto
qed

lemma flat_spec_found:
  assumes "serves_model en" "(name, shape) \<in> set (head_specs @ mtp_specs)"
  shows "\<exists>v. find_device_tensor en name = Some v \<and> has_shape v shape"
proof -
  have "\<lparr> st_name = name, st_shape = shape \<rparr> \<in> set (add_specs [] head_specs @ add_specs [] mtp_specs)"
    using assms(2) by (force simp: add_specs_def)
  then have "\<lparr> st_name = name, st_shape = shape \<rparr> \<in> set text_specs"
    by (auto simp: text_specs_def)
  then show ?thesis
    by (rule serves_lookup [OF assms(1)]) auto
qed

section \<open>Layers\<close>

text \<open>The layer that \<open>bind_layer\<close> binds at an index, and its place among the layers of its kind.\<close>

definition bound_layer :: "engine \<Rightarrow> nat \<Rightarrow> layer_bindings" where
  "bound_layer en index =
     (let lookup = (\<lambda>suffix. find_device_tensor en (layer_prefix index @ suffix));
          attention = is_full_attention index;
          layer = bind_common lookup (unbound_layer
            \<lparr> lb_attention := attention, lb_state_index := (if attention then index div 4 else index - index div 4) \<rparr>)
      in if attention then bind_attention lookup layer else bind_gdn lookup layer)"

lemma bound_layer_fields:
  "lb_attention (bound_layer en i) = is_full_attention i"
  "lb_state_index (bound_layer en i) = (if is_full_attention i then i div 4 else i - i div 4)"
  by (simp_all add: bound_layer_def Let_def bind_common_def bind_attention_def bind_gdn_def)

lemma found_matrix:
  assumes "\<exists>v. find_device_tensor en name = Some v \<and> has_shape v [r, c]"
  shows "matrix_shaped (find_device_tensor en name) (unat r) (unat c)"
  using assms has_shape_matrix by auto

text \<open>What the lookups of a list of specifications find.\<close>

definition spec_bound :: "(string \<Rightarrow> device_tensor_view option) \<Rightarrow> string \<times> u64 list \<Rightarrow> bool" where
  "spec_bound lookup spec \<longleftrightarrow>
     (case spec of (name, shape) \<Rightarrow> lookup name \<noteq> None
        \<and> (case shape of [r, c] \<Rightarrow> matrix_shaped (lookup name) (unat r) (unat c) | _ \<Rightarrow> True))"

lemma spec_boundI: "\<exists>v. lookup name = Some v \<and> has_shape v shape \<Longrightarrow> spec_bound lookup (name, shape)"
  by (auto simp: spec_bound_def has_shape_matrix split: list.split)

lemma bound_layer_shaped:
  assumes "serves_model en" "i < 64"
  shows "layer_shaped (bound_layer en i)" "layer_bound (bound_layer en i)"
proof -
  have all: "list_all (spec_bound (\<lambda>suffix. find_device_tensor en (layer_prefix i @ suffix))) (layer_specs i)"
    using layer_spec_found [OF assms] by (auto simp: list_all_iff intro: spec_boundI)
  note bound = bound_layer_def bind_common_def bind_attention_def bind_gdn_def
  have "layer_shaped (bound_layer en i) \<and> layer_bound (bound_layer en i)"
    using all unfolding layer_shaped_def layer_bound_def bound_layer_fields
    by (cases "is_full_attention i") (simp_all add: layer_specs_def spec_bound_def bound)
  then show "layer_shaped (bound_layer en i)" "layer_bound (bound_layer en i)"
    by blast+
qed

lemma bind_layers_prefix:
  assumes "serves_model en" "k \<le> 64"
  shows "result_foldl (bind_layer en) ([], 0, 0) [0..<k] = Inr (map (bound_layer en) [0..<k], k - k div 4, k div 4)"
  using assms(2)
proof (induction k)
  case (Suc k)
  have layer: "(if is_full_attention k
      then bind_attention (\<lambda>suffix. find_device_tensor en (layer_prefix k @ suffix))
        (bind_common (\<lambda>suffix. find_device_tensor en (layer_prefix k @ suffix))
          (unbound_layer\<lparr>lb_attention := is_full_attention k, lb_state_index := if is_full_attention k then k div 4 else k - k div 4\<rparr>))
      else bind_gdn (\<lambda>suffix. find_device_tensor en (layer_prefix k @ suffix))
        (bind_common (\<lambda>suffix. find_device_tensor en (layer_prefix k @ suffix))
          (unbound_layer\<lparr>lb_attention := is_full_attention k, lb_state_index := if is_full_attention k then k div 4 else k - k div 4\<rparr>)))
      = bound_layer en k"
    by (simp add: bound_layer_def Let_def)
  have attention: "is_full_attention k \<longleftrightarrow> Suc k div 4 = k div 4 + 1" "\<not> is_full_attention k \<longleftrightarrow> Suc k div 4 = k div 4"
    using Suc.prems by (auto simp: is_full_attention_def layer_count_def full_attention_interval_def) presburger+
  have "bind_layer en (map (bound_layer en) [0..<k], k - k div 4, k div 4) k
      = Inr (map (bound_layer en) [0..<Suc k], Suc k - Suc k div 4, Suc k div 4)"
    unfolding bind_layer_def prod.case Let_def layer
    using bound_layer_shaped(2) [OF assms(1), of k] Suc.prems attention by (cases "is_full_attention k") auto
  then show ?case
    using Suc by (simp add: result_foldl_append)
qed simp

lemma bind_layers_model:
  assumes "serves_model en"
  shows "bind_layers en = Inr (map (bound_layer en) [0..<64])"
  using bind_layers_prefix [OF assms, of 64]
  by (simp add: bind_layers_def layer_count_def kGdnLayerCount_def kAttentionLayerCount_def del: upt_rec_numeral)

section \<open>The proposal layer and the heads\<close>

lemma mtp_layer_shaped:
  assumes "serves_model en"
  shows "layer_shaped (bind_mtp_layer en)" "mtp_bound en" "lb_attention (bind_mtp_layer en)"
proof -
  have all: "list_all (spec_bound (find_device_tensor en)) mtp_specs"
    using flat_spec_found [OF assms] by (auto simp: list_all_iff intro: spec_boundI)
  note bound = bind_mtp_layer_def bind_common_def bind_attention_def unbound_layer_def mtp_lookup_def
  show "lb_attention (bind_mtp_layer en)"
    by (simp add: bound)
  show "layer_shaped (bind_mtp_layer en)" "mtp_bound en"
    using all by (simp_all add: layer_shaped_def mtp_bound_def layer_bound_def bound mtp_specs_def spec_bound_def)
qed

lemma head_prefix_shaped:
  assumes "dv_rank v = 2" "dv_dimensions v \<noteq> []" "tensor_columns v = 5120"
  shows "matrix_shaped (Some (head_prefix v)) 98304 5120"
  using assms by (cases "dv_dimensions v")
    (auto simp: matrix_shaped_def head_prefix_def tensor_rows_def tensor_columns_def kMtpDraftVocabulary_def)

text \<open>The fused path of \<open>launch_mlp_down\<close> needs tiled weights, so an untiled model runs in FP16 or INT8.\<close>

definition served_mode :: "engine \<Rightarrow> decode_session_config \<Rightarrow> bool" where
  "served_mode en config \<longleftrightarrow> recipe_contains en ''tiled-v'' \<or> dc_activation_mode config \<in> {fp16, int8}"

lemma draft_head_binds:
  assumes "serves_model en" "dv_rank lm_head = 2" "dv_dimensions lm_head \<noteq> []" "tensor_columns lm_head = 5120"
  shows "\<exists>head ids. bind_draft_head en lm_head = Inr (head, ids) \<and> matrix_shaped (Some head) 98304 5120"
proof -
  have "matrix_shaped (Some (head_prefix lm_head\<lparr>dv_name := name\<rparr>)) 98304 5120" for name
    using head_prefix_shaped [OF assms(2-4)] by (simp add: matrix_shaped_def tensor_rows_def tensor_columns_def)
  then show ?thesis
    using assms(1) head_prefix_shaped
    by (auto simp: serves_model_def bind_draft_head_def valid_ranked_head_def kHidden_def hidden_size_def
        split: option.splits)
qed

lemma indices_of_kinds:
  "map (\<lambda>i. i div 4) (filter is_full_attention [0..<64]) = [0..<16]"
  "map (\<lambda>i. i - i div 4) (filter (\<lambda>i. \<not> is_full_attention i) [0..<64]) = [0..<48]"
  by code_simp+

lemma bound_layers_indices:
  "map lb_state_index (filter lb_attention (map (bound_layer en) [0..<64])) = [0..<16]"
  "map lb_state_index (filter (\<lambda>l. \<not> lb_attention l) (map (bound_layer en) [0..<64])) = [0..<48]"
proof -
  have "map lb_state_index (filter lb_attention (map (bound_layer en) xs)) = map (\<lambda>i. i div 4) (filter is_full_attention xs)"
    "map lb_state_index (filter (\<lambda>l. \<not> lb_attention l) (map (bound_layer en) xs))
      = map (\<lambda>i. i - i div 4) (filter (\<lambda>i. \<not> is_full_attention i) xs)" for xs
    by (induction xs) (simp_all add: bound_layer_fields)
  then show
    "map lb_state_index (filter lb_attention (map (bound_layer en) [0..<64])) = [0..<16]"
    "map lb_state_index (filter (\<lambda>l. \<not> lb_attention l) (map (bound_layer en) [0..<64])) = [0..<48]"
    by (simp_all only: indices_of_kinds)
qed

lemma session_binds:
  assumes "serves_model en"
  obtains s where "bind_session en config = Inr s" "ss_config s = config" "ss_layers s = map (bound_layer en) [0..<64]"
    "served_mode en config \<Longrightarrow> session_shaped s"
proof -
  have m: "matrix_shaped (find_device_tensor en name) (unat r) (unat c)" if "(name, [r, c]) \<in> set (head_specs @ mtp_specs)" for name r c
    by (rule found_matrix [OF flat_spec_found [OF assms that]])
  obtain embedding where embedding: "find_device_tensor en ''model.language_model.embed_tokens.weight'' = Some embedding"
    using flat_spec_found [OF assms, of "''model.language_model.embed_tokens.weight''" "[248320, 5120]"] by (auto simp: head_specs_def)
  obtain final_norm where final_norm: "find_device_tensor en ''model.language_model.norm.weight'' = Some final_norm"
    using flat_spec_found [OF assms, of "''model.language_model.norm.weight''" "[5120]"] by (auto simp: head_specs_def)
  obtain lm_head where lm_head: "find_device_tensor en ''lm_head.weight'' = Some lm_head" "has_shape lm_head [248320, 5120]"
    using flat_spec_found [OF assms, of "''lm_head.weight''" "[248320, 5120]"] by (auto simp: head_specs_def)
  have lm: "matrix_shaped (Some lm_head) 248320 5120"
    using has_shape_matrix [OF lm_head(2)] by simp
  then have dims: "dv_rank lm_head = 2" "tensor_rows lm_head = 248320" "tensor_columns lm_head = 5120" "dv_dimensions lm_head \<noteq> []"
    using has_shapeD(1) [OF lm_head(2)] by (auto simp: matrix_shaped_def)
  obtain head ids where head: "bind_draft_head en lm_head = Inr (head, ids)" "matrix_shaped (Some head) 98304 5120"
    using draft_head_binds [OF assms dims(1,4,3)] by blast
  have fc: "matrix_shaped (mtp_lookup en ''fc.weight'') 5120 10240"
    using m [of "''mtp.fc.weight''" 5120 10240] by (simp add: mtp_lookup_def mtp_specs_def)
  note bind = bind_session_def embedding final_norm lm_head(1) head(1) bind_layers_model [OF assms] mtp_layer_shaped(2) [OF assms]
  show thesis
  proof (cases "bind_session en config")
    case (Inl e)
    then show thesis
      using dims(1,2) by (simp add: bind kMtpDraftVocabulary_def del: upt_rec_numeral)
  next
    case (Inr s)
    have fields: "ss_config s = config" "ss_layers s = map (bound_layer en) [0..<64]" "ss_mtp_layer s = bind_mtp_layer en"
      "ss_mtp_fc s = mtp_lookup en ''fc.weight''" "ss_lm_head s = lm_head" "ss_mtp_draft_head s = head"
      "ss_tiled_weights s = recipe_contains en ''tiled-v''"
      using Inr dims(1,2) by (auto simp: bind kMtpDraftVocabulary_def simp del: upt_rec_numeral)
    have "session_shaped s" if mode: "served_mode en config"
    proof -
      have "down_quantized s l" for l
        using mode by (auto simp: down_quantized_def fields served_mode_def uses_i4_def wants_i4_def split: option.splits)
      moreover have "list_all layer_shaped (ss_layers s)"
        using bound_layer_shaped(1) [OF assms] by (simp add: fields list_all_iff del: upt_rec_numeral)
      moreover have "even (length (ss_layers s))"
        by (simp add: fields)
      ultimately show ?thesis
        unfolding session_shaped_def fields
        using bound_layers_indices [of en] mtp_layer_shaped [OF assms] fc lm head(2) by (simp add: list_all_iff del: upt_rec_numeral)
    qed
    then show thesis
      using that Inr fields(1,2) by blast
  qed
qed

section \<open>Captured graphs\<close>

text \<open>A program refuses only with an error, so a capture that succeeds records every launch.\<close>

definition proper :: "program \<Rightarrow> bool" where
  "proper p \<longleftrightarrow> list_all (\<lambda>c. case c of Refuse s \<Rightarrow> \<not> status_ok s | Launch k \<Rightarrow> True) p"

lemma proper_simps [simp]:
  "proper []" "proper (Launch k # p) \<longleftrightarrow> proper p" "proper (Refuse s # p) \<longleftrightarrow> \<not> status_ok s \<and> proper p"
  "proper (p @ q) \<longleftrightarrow> proper p \<and> proper q"
  by (simp_all add: proper_def)

lemma proper_concat: "(\<And>p. p \<in> set ps \<Longrightarrow> proper p) \<Longrightarrow> proper (concat ps)"
  by (induction ps) auto

lemma error_status: "c \<noteq> ok_code \<Longrightarrow> \<not> status_ok (Status c m)"
  by (simp add: status_ok_def)

lemma proper_matrix: "proper (launch_matrix s t i out b p)"
  by (auto simp: launch_matrix_def Let_def quantize_i4_def quantize_i8_def error_status split: option.split)

lemma proper_matrices: "proper (launch_matrices s ts outs i b)"
  by (auto simp: launch_matrices_def Let_def quantize_i4_def error_status intro!: proper_concat proper_matrix)

lemma proper_layer_block: "proper (launch_layer_block s b dp l i out w)"
  by (auto simp: launch_layer_block_def project_qkv_def project_gdn_def attention_block_def gdn_block_def launch_mlp_def
      launch_mlp_down_def residual_norm_def Let_def proper_matrix proper_matrices split: option.split)

lemma proper_run_layers: "(\<And>l i out w. proper (step l i out w)) \<Longrightarrow> proper (fst (run_layers s step ls i out))"
  by (induction s step ls i out rule: run_layers.induct) (simp_all add: case_prod_unfold Let_def)

lemma proper_gather: "proper (gather_row s out t)"
  by (simp add: gather_row_def Let_def)

lemma proper_verifier: "proper (enqueue_verifier_body s t d dp)"
  by (auto simp: enqueue_verifier_body_def block_layers_def block_head_def case_prod_unfold Let_def proper_gather proper_matrix
      intro!: proper_concat proper_run_layers proper_layer_block)

lemma proper_proposal: "proper (launch_mtp_proposal s t c q out dp)"
  by (auto simp: launch_mtp_proposal_def Let_def proper_gather proper_matrix proper_matrices quantize_i4_def project_qkv_def
      residual_norm_def launch_mlp_down_def error_status split: option.split)

lemma proper_graph: "proper (graph_program s d)"
  by (auto simp: graph_program_def proper_verifier intro!: proper_concat proper_proposal)

lemma capture_all: "proper p \<Longrightarrow> capture rt p = (st, ks) \<Longrightarrow> status_ok st \<Longrightarrow> map Launch ks = p"
proof (induction p arbitrary: ks)
  case (Cons c p)
  then show ?case
    by (cases c) (auto simp: case_prod_unfold Let_def split: if_splits)
qed simp

lemma captured_graph_all:
  assumes "captured_graph rt s parity = Inr ks"
  shows "map Launch ks = graph_program s (dc_graph_verifier_batch (ss_config s) - 1)"
proof -
  obtain st gs where c: "capture rt (graph_program s (dc_graph_verifier_batch (ss_config s) - 1)) = (st, gs)"
    by force
  then have "status_ok st" "ks = gs"
    using assms by (auto simp: captured_graph_def Let_def split: if_splits)
  then show ?thesis
    using capture_all [OF proper_graph c] by simp
qed

section \<open>A new session\<close>

lemma session_shaped_swap: "session_shaped s \<Longrightarrow> session_shaped (swap_states s)"
  by (simp add: session_shaped_def down_quantized_def uses_i4_def swap_states_def cong: list.pred_cong option.case_cong)

lemma prepare_graphs_static:
  assumes "prepare_speculative_graphs rt s = Inr s'" "session_static n s" "ss_graphs s = (\<lambda>parity. None)"
    "\<not> ss_gdn_state_parity s"
  shows "session_static n s' \<and> ss_current_position s' = ss_current_position s \<and> ss_mtp_position s' = ss_mtp_position s
    \<and> ss_last_hidden s' = ss_last_hidden s \<and> ss_mtp_chain_active s' = ss_mtp_chain_active s
    \<and> ss_gdn_state_parity s' = ss_gdn_state_parity s \<and> ss_conv_states s' = ss_conv_states s \<and> ss_gdn_states s' = ss_gdn_states s"
proof (cases "dc_graph_verifier_batch (ss_config s) = 0")
  case True
  then show ?thesis
    using assms by (simp add: prepare_speculative_graphs_def)
next
  case False
  let ?r = "s\<lparr>ss_record_rollback := True\<rparr>"
  obtain even odd where graphs: "captured_graph rt ?r False = Inr even" "captured_graph rt (swap_states ?r) True = Inr odd"
    and s': "s' = s\<lparr>ss_graphs := (\<lambda>parity. Some (if parity then odd else even)), ss_record_rollback := False\<rparr>"
    using assms(1) False
    by (cases "captured_graph rt ?r False"; cases "captured_graph rt (swap_states ?r) True")
      (auto simp: prepare_speculative_graphs_def Let_def)
  have states: "has_states s False" and shaped: "session_shaped s"
    using assms(2,4) by (simp_all add: session_static_def)
  have "graph_matches s' parity (if parity then odd else even)" for parity
    unfolding graph_matches_def s'
    using captured_graph_all [OF graphs(1)] captured_graph_all [OF graphs(2)] states shaped
      session_record_shaped [OF shaped, of True] session_shaped_swap [OF session_record_shaped [OF shaped, of True]]
    by (cases parity; simp; intro exI [of _ "if parity then swap_states ?r else ?r"])
      (simp_all add: has_states_def state_buffers_def swap_states_def)
  then show ?thesis
    using assms(2) session_record_shaped [OF shaped, of False]
    by (simp add: s' session_static_def has_states_def graph_matches_def
        session_shaped_def down_quantized_def uses_i4_def cong: list.pred_cong option.case_cong)
qed

lemma cleared_states: "has cleared_cells (Arena Conv_States 0) 1966080" "has cleared_cells (Arena GDN_States 0) 37748736"
  by (auto simp: has_def cleared_cells_def)

lemma bind_session_new:
  assumes "bind_session en config = Inr s"
  shows "ss_current_position s = 0 \<and> ss_mtp_position s = 0 \<and> ss_last_hidden s = Null_Pointer \<and> \<not> ss_mtp_chain_active s
    \<and> \<not> ss_record_rollback s \<and> \<not> ss_gdn_state_parity s \<and> ss_graphs s = (\<lambda>parity. None) \<and> has_states s False
    \<and> ss_conv_states s = Conv_States \<and> ss_gdn_states s = GDN_States \<and> ss_config s = config"
proof -
  obtain embedding final_norm lm_head where t: "find_device_tensor en ''model.language_model.embed_tokens.weight'' = Some embedding"
    "find_device_tensor en ''model.language_model.norm.weight'' = Some final_norm" "find_device_tensor en ''lm_head.weight'' = Some lm_head"
    using assms by (auto simp: bind_session_def split: option.splits)
  obtain head ids where h: "bind_draft_head en lm_head = Inr (head, ids)"
    using assms by (cases "bind_draft_head en lm_head") (auto simp: bind_session_def t split: if_splits)
  obtain layers where l: "bind_layers en = Inr layers"
    using assms by (cases "bind_layers en") (auto simp: bind_session_def t h split: if_splits)
  show ?thesis
    using assms by (auto simp: bind_session_def t h l has_states_def state_buffers_def split: if_splits)
qed

text \<open>The steps of a creation that succeeds.\<close>

lemma session_create_steps:
  assumes "session_create rt en config g = (Inr (s, offsets), g')"
  obtains s0 s1 cursor where "check_session_config en config = Inr ()" "bind_session en config = Inr s0"
    "session_layout 0 (session_reservations (dc_maximum_context_tokens config)) = Some (offsets, cursor)"
    "cursor \<le> snd (ct_mem_info rt)" "prepare_speculative_graphs (ct_capture rt) s0 = Inr s1"
    "s = s1\<lparr>ss_summary := ss_summary s\<rparr>" "dss_arena_bytes (ss_summary s) = cursor" "g' = g\<lparr>gpu_arenas := gpu_arenas g + 1\<rparr>"
proof -
  obtain s0 where s0: "check_session_config en config = Inr ()" "bind_session en config = Inr s0"
    using assms by (cases "check_session_config en config"; cases "bind_session en config") (auto simp: session_create_def)
  obtain offs cursor where layout: "session_layout 0 (session_reservations (dc_maximum_context_tokens config)) = Some (offs, cursor)"
    using assms by (auto simp: session_create_def s0 Let_def split: if_splits option.splits)
  obtain error free where info: "ct_mem_info rt = (error, free)"
    by force
  obtain s2 where init: "initialize_session rt s0 cursor = Inr s2" "cursor \<le> free" "s2 = s" "offs = offsets" "g' = g\<lparr>gpu_arenas := gpu_arenas g + 1\<rparr>"
    using assms by (auto simp: session_create_def s0 layout info Let_def split: if_splits sum.splits)
  obtain s1 where s1: "prepare_speculative_graphs (ct_capture rt) s0 = Inr s1"
    using init(1) by (cases "prepare_speculative_graphs (ct_capture rt) s0") (auto simp: initialize_session_def Let_def split: if_splits)
  show thesis
    by (rule that [OF s0]) (use init s1 layout info in \<open>auto simp: initialize_session_def Let_def split: if_splits\<close>)
qed

lemma session_create_inv:
  assumes model: "serves_model en" "served_mode en config" and create: "session_create rt en config g = (Inr (s, offsets), g')"
  shows "session_inv (dc_maximum_context_tokens config) s (check_new d)"
proof -
  let ?n = "dc_maximum_context_tokens config"
  obtain s0 s1 where s0: "check_session_config en config = Inr ()" "bind_session en config = Inr s0"
    "prepare_speculative_graphs (ct_capture rt) s0 = Inr s1" "s = s1\<lparr>ss_summary := ss_summary s\<rparr>"
    by (rule session_create_steps [OF create])
  have shaped: "session_shaped s0"
    using session_binds [OF model(1)] s0(2) model(2) by (metis sum.inject(2))
  note new = bind_session_new [OF s0(2)]
  have batch: "dc_graph_verifier_batch config \<le> 32"
    using s0(1) by (auto simp: check_session_config_def kMaximumBlock_def split: if_splits)
  have static: "session_static ?n s0"
    using shaped new batch by (auto simp: session_static_def)
  note p = prepare_graphs_static [OF s0(3) static]
  have "session_static ?n s1" "session_cells ?n s1 cleared_cells"
    using p new cleared_states by (auto simp: session_cells_def states_ready_def caches_ready_def kv_ready_def has_def row_ready_def)
  then have "session_static ?n (s1\<lparr>ss_summary := x\<rparr>)" "session_cells ?n (s1\<lparr>ss_summary := x\<rparr>) cleared_cells" for x
    by (simp_all add: session_static_def session_shaped_def down_quantized_def uses_i4_def has_states_def graph_matches_def
        session_cells_def states_ready_def caches_ready_def cache_offset_def cong: list.pred_cong option.case_cong)
  then show ?thesis
    by (subst s0(4)) (simp add: session_inv_def check_new_def)
qed

end
