(* ===== verification/GraphReplay.thy ===== *)
theory GraphReplay
  imports SessionBind
begin

text \<open>
  A replayed graph launches what the session would launch directly, whatever the session has done
  since the graph was captured: the graphs, one for every assignment of the state buffers, follow the
  parity of the session. The launches of a graph read
  the seed token and the positions on the device; \<open>resolve\<close> gives the launch with what the device
  holds written as an argument. In \<^verbatim>\<open>src/kernels/qwen_ops.hip\<close> a call for one token is the call for
  a block of one, and a call with a position on the device is the same kernel with the position
  read from there.
\<close>

fun resolve :: "(pointer \<Rightarrow> nat) \<Rightarrow> kernel \<Rightarrow> kernel" where
  "resolve held (Lowbit (Lowbit_Row_Gather_Indirect f w s out p rows columns)) =
     (if p = graph_seed_token then Lowbit (Lowbit_Row_Gather f w s out (held p) rows columns)
      else Lowbit (Lowbit_Row_Gather_Indirect f w s out p rows columns))"
| "resolve held (Lowbit (Lowbit_Row_Gather_Tiled_Indirect f w s out p rows columns)) =
     (if p = graph_seed_token then Lowbit (Lowbit_Row_Gather_Tiled f w s out (held p) rows columns)
      else Lowbit (Lowbit_Row_Gather_Tiled_Indirect f w s out p rows columns))"
| "resolve held (Attention_Op (QK_RMS_Norm_RoPE_Block_Indirect qi qw qo qh qs ki kw ko kh ks head rotary p batch)) =
     Attention_Op (QK_RMS_Norm_RoPE_Block qi qw qo qh qs ki kw ko kh ks head rotary (held p) batch)"
| "resolve held (Attention_Op (KV_Append key v kc vc position capacity)) =
     Attention_Op (KV_Append_Block key v kc vc position capacity 1)"
| "resolve held (Attention_Op (KV_Append_Block_Indirect key v kc vc p capacity batch)) =
     Attention_Op (KV_Append_Block key v kc vc (held p) capacity batch)"
| "resolve held (Attention_Op (Gated_Attention_Decode q gate kc vc out token_count capacity)) =
     Attention_Op (Gated_Attention_Decode_Block q gate kc vc out token_count capacity 1)"
| "resolve held (Attention_Op (Gated_Attention_Decode_Block_Indirect q gate kc vc out p capacity batch)) =
     Attention_Op (Gated_Attention_Decode_Block q gate kc vc out (held p + 1) capacity batch)"
| "resolve held k = k"

definition resolved :: "(pointer \<Rightarrow> nat) \<Rightarrow> program \<Rightarrow> program" where
  "resolved held = map (\<lambda>c. case c of Launch k \<Rightarrow> Launch (resolve held k) | Refuse s \<Rightarrow> Refuse s)"

lemma resolved_simps [simp]:
  "resolved held [] = []" "resolved held (Launch k # p) = Launch (resolve held k) # resolved held p"
  "resolved held (p @ q) = resolved held p @ resolved held q"
  by (simp_all add: resolved_def)

section \<open>What the launches do not depend on\<close>

text \<open>The session at the capture differs from the current one in what moves during a run.\<close>

abbreviation other :: "session \<Rightarrow> session \<Rightarrow> session" where
  "other s t \<equiv> s\<lparr> ss_current_position := ss_current_position t, ss_record_rollback := ss_record_rollback t,
     ss_summary := ss_summary t, ss_mtp_position := ss_mtp_position t, ss_mtp_chain_active := ss_mtp_chain_active t,
     ss_gdn_state_parity := ss_gdn_state_parity t, ss_graphs := ss_graphs t, ss_last_hidden := ss_last_hidden t \<rparr>"

lemma other_fields:
  "ss_config (other s t) = ss_config s" "ss_tiled_weights (other s t) = ss_tiled_weights s"
  "ss_sequential_w3 (other s t) = ss_sequential_w3 s" "ss_embedding (other s t) = ss_embedding s"
  "ss_layers (other s t) = ss_layers s" "ss_mtp_layer (other s t) = ss_mtp_layer s" "ss_mtp_fc (other s t) = ss_mtp_fc s"
  "ss_final_norm (other s t) = ss_final_norm s" "ss_lm_head (other s t) = ss_lm_head s"
  "ss_mtp_draft_head (other s t) = ss_mtp_draft_head s" "ss_mtp_draft_token_ids (other s t) = ss_mtp_draft_token_ids s"
  "ss_mtp_pre_embedding_norm (other s t) = ss_mtp_pre_embedding_norm s"
  "ss_mtp_pre_hidden_norm (other s t) = ss_mtp_pre_hidden_norm s" "ss_mtp_final_norm (other s t) = ss_mtp_final_norm s"
  "ss_conv_states (other s t) = ss_conv_states s" "ss_gdn_states (other s t) = ss_gdn_states s"
  "ss_conv_snapshot (other s t) = ss_conv_snapshot s" "ss_gdn_snapshot (other s t) = ss_gdn_snapshot s"
  "ss_record_rollback (other s t) = ss_record_rollback t"
  by simp_all

lemma launch_matrix_other: "launch_matrix (other s t) = launch_matrix s"
  by (intro ext) (simp only: launch_matrix_def other_fields)

lemma uses_i4_other: "uses_i4 (other s t) = uses_i4 s"
  by (intro ext) (simp only: uses_i4_def other_fields)

lemma launch_matrices_other: "launch_matrices (other s t) = launch_matrices s"
  by (intro ext) (simp only: launch_matrices_def launch_matrix_other uses_i4_other other_fields)

lemma launch_mlp_down_other: "launch_mlp_down (other s t) = launch_mlp_down s"
  by (intro ext) (simp only: launch_mlp_down_def launch_matrix_other uses_i4_other)

lemma launch_mlp_other: "launch_mlp (other s t) = launch_mlp s"
  by (intro ext) (simp only: launch_mlp_def launch_matrices_other launch_mlp_down_other)

lemma gather_row_other: "gather_row (other s t) = gather_row s"
  by (intro ext) (simp only: gather_row_def other_fields)

lemma project_qkv_other: "project_qkv (other s t) = project_qkv s"
  by (intro ext) (simp only: project_qkv_def launch_matrices_other)

lemma project_gdn_other: "project_gdn (other s t) = project_gdn s"
  by (intro ext) (simp only: project_gdn_def launch_matrices_other)

lemmas others = launch_matrix_other uses_i4_other launch_matrices_other launch_mlp_down_other launch_mlp_other
  gather_row_other project_qkv_other project_gdn_other

section \<open>Proposals\<close>

lemma proposal_resolved:
  assumes "held p = position"
    and "resolved held (gather_row s (Arena Hidden_B 0) token') = resolved held (gather_row s (Arena Hidden_B 0) token)"
  shows "resolved held (launch_mtp_proposal (other s t) token' c 0 out (Some p))
    = resolved held (launch_mtp_proposal s token c position out None)"
  unfolding launch_mtp_proposal_def Let_def others
  using assms by (simp add: rope_def rope_indirect_def split: option.split)

lemma seed_resolved:
  "held graph_seed_token = seed \<Longrightarrow>
    resolved held (gather_row s out (Indirect graph_seed_token)) = resolved held (gather_row s out (Direct seed))"
  by (simp add: gather_row_def Let_def)

section \<open>The verifier\<close>

lemma layer_block_resolved:
  assumes "held base = ss_current_position s" and "ss_record_rollback t"
  shows "resolved held (launch_layer_block (other s t) batch (Some base) l i out w)
    = resolved held (launch_layer_block (s\<lparr>ss_record_rollback := True\<rparr>) batch None l i out w)"
proof -
  let ?u = "s\<lparr>ss_record_rollback := True\<rparr>"
  have r: "?u = other s ?u"
    by simp
  have gdn: "gdn_block (other s t) l batch = gdn_block (other s ?u) l batch"
    using assms(2) by (simp add: gdn_block_def)
  have attention: "resolved held (attention_block (other s t) l batch (Some base))
      = resolved held (attention_block (other s ?u) l batch None)"
    using assms by (simp add: attention_block_def Let_def cache_offset_def rope_def rope_indirect_def)
  show ?thesis
    by (subst r, unfold launch_layer_block_def others)
      (cases "lb_attention l"; simp only: if_True if_False resolved_simps gdn attention)
qed

lemma run_layers_resolved:
  assumes "\<And>l i out w. resolved held (f l i out w) = resolved held (g l i out w)"
    and "ss_final_norm s = ss_final_norm s'"
  shows "resolved held (fst (run_layers s f ls i out)) = resolved held (fst (run_layers s' g ls i out))"
proof (induction ls arbitrary: i out)
  case (Cons l ls)
  have "next_norm s ls = next_norm s' ls"
    using assms(2) by (cases ls) (simp_all add: next_norm_def)
  then show ?case
    using assms(1) Cons by (simp add: case_prod_unfold Let_def)
qed simp

lemma verifier_resolved:
  assumes "held base = ss_current_position s" "held graph_seed_token = seed" "ss_record_rollback t"
  shows "resolved held (enqueue_verifier_body (other s t) (Indirect graph_seed_token) d (Some base))
    = resolved held (enqueue_verifier_body (s\<lparr>ss_record_rollback := True\<rparr>) (Direct seed) d None)"
proof -
  let ?r = "s\<lparr>ss_record_rollback := True\<rparr>"
  have r: "?r = other s ?r"
    by simp
  have gather: "gather_row ?r = gather_row s" "launch_matrix ?r = launch_matrix s"
    by (subst r, simp only: others)+
  have layers: "resolved held (fst (run_layers (other s t) (launch_layer_block (other s t) batch (Some base)) ls i out))
      = resolved held (fst (run_layers ?r (launch_layer_block ?r batch None) ls i out))" for batch ls i out
    by (rule run_layers_resolved) (simp_all only: layer_block_resolved [where held = held, OF assms(1,3)], simp)
  have body: "resolved held (fst (block_layers (other s t) batch (Some base))) = resolved held (fst (block_layers ?r batch None))"
    for batch
    using layers [of batch] by (simp add: block_layers_def case_prod_unfold Let_def)
  have head: "block_head (other s t) batch = block_head ?r batch" for batch
    by (simp add: block_head_def launch_matrix_other gather)
  show ?thesis
    unfolding enqueue_verifier_body_def others gather
    using assms(2) by (simp only: resolved_simps seed_resolved body head)
qed

lemma graph_resolved:
  assumes "0 < draft_count" "draft_count < kMaximumBlock"
    and "held graph_seed_token = seed_token" "held (Arena Graph_Base_Position 0) = ss_current_position s"
    and "\<forall>index < draft_count. held (Arena Graph_MTP_Positions index) = ss_mtp_position s + index"
    and "ss_record_rollback t"
  shows "resolved held (graph_program (other s t) draft_count)
    = resolved held (proposal_chain s seed_token (ss_mtp_position s) draft_count
        @ launch_speculative_verifier (s\<lparr>ss_record_rollback := True\<rparr>) seed_token draft_count)"
proof -
  have proposal: "resolved held (launch_mtp_proposal (other s t)
        (Indirect (if i = 0 then graph_seed_token else draft_token (i - 1)))
        (if i = 0 then Arena Target_Hidden_Snapshot 0 else Arena MTP_Hidden 0) 0 (Some (draft_token i)) (Some (Arena Graph_MTP_Positions i)))
      = resolved held (launch_mtp_proposal s (if i = 0 then Direct seed_token else Indirect (draft_token (i - 1)))
        (if i = 0 then Arena Target_Hidden_Snapshot 0 else Arena MTP_Hidden 0) (ss_mtp_position s + i) (Some (draft_token i)) None)"
    if "i < draft_count" for i
    by (rule proposal_resolved) (use that assms seed_resolved [where held = held, OF assms(3)] in \<open>simp_all split: if_splits\<close>)
  have concat: "resolved held (concat ps) = concat (map (resolved held) ps)" for ps
    by (induction ps) simp_all
  have chain: "resolved held (concat (map (\<lambda>i. launch_mtp_proposal (other s t)
        (Indirect (if i = 0 then graph_seed_token else draft_token (i - 1)))
        (if i = 0 then Arena Target_Hidden_Snapshot 0 else Arena MTP_Hidden 0) 0 (Some (draft_token i)) (Some (Arena Graph_MTP_Positions i)))
        [0..<draft_count]))
      = resolved held (proposal_chain s seed_token (ss_mtp_position s) draft_count)"
    unfolding proposal_chain_def concat map_map comp_def
    by (rule arg_cong [of _ _ concat]) (use proposal in auto)
  show ?thesis
    using assms(1,2)
    by (simp only: graph_program_def resolved_simps chain verifier_resolved [where held = held, OF assms(4,3,6)])
      (simp add: launch_speculative_verifier_def)
qed

section \<open>The graphs follow the session\<close>

text \<open>What a step keeps: the weights, the graphs, and that the buffers are those of the parity.\<close>

definition same_weights :: "session \<Rightarrow> session \<Rightarrow> bool" where
  "same_weights s t \<longleftrightarrow> ss_config t = ss_config s \<and> ss_tiled_weights t = ss_tiled_weights s
     \<and> ss_sequential_w3 t = ss_sequential_w3 s \<and> ss_embedding t = ss_embedding s \<and> ss_layers t = ss_layers s
     \<and> ss_mtp_layer t = ss_mtp_layer s \<and> ss_mtp_fc t = ss_mtp_fc s \<and> ss_final_norm t = ss_final_norm s
     \<and> ss_lm_head t = ss_lm_head s \<and> ss_mtp_draft_head t = ss_mtp_draft_head s
     \<and> ss_mtp_draft_token_ids t = ss_mtp_draft_token_ids s
     \<and> ss_mtp_pre_embedding_norm t = ss_mtp_pre_embedding_norm s
     \<and> ss_mtp_pre_hidden_norm t = ss_mtp_pre_hidden_norm s \<and> ss_mtp_final_norm t = ss_mtp_final_norm s"

lemma same_weights_other:
  assumes "same_weights s t" and "has_states s parity" and "has_states t parity"
  shows "other s t = t"
  using assms by (intro session.equality) (auto simp: same_weights_def has_states_def state_buffers_def split: if_splits)

definition carries_on :: "session \<Rightarrow> session \<Rightarrow> bool" where
  "carries_on s t \<longleftrightarrow> same_weights s t \<and> ss_graphs t = ss_graphs s
     \<and> (has_states s (ss_gdn_state_parity s) \<longrightarrow> has_states t (ss_gdn_state_parity t))"

lemma carries_on_refl [simp]: "carries_on s s"
  by (simp add: carries_on_def same_weights_def)

lemma carries_on_trans: "carries_on s t \<Longrightarrow> carries_on t u \<Longrightarrow> carries_on s u"
  by (simp add: carries_on_def same_weights_def)

lemma carries_on_update [simp]:
  "carries_on s (ss_last_hidden_update f t) = carries_on s t" "carries_on s (ss_current_position_update g t) = carries_on s t"
  "carries_on s (ss_mtp_position_update g t) = carries_on s t" "carries_on s (ss_mtp_chain_active_update h t) = carries_on s t"
  "carries_on s (ss_record_rollback_update h t) = carries_on s t"
  by (simp_all add: carries_on_def same_weights_def has_states_def)

lemma carries_on_swap: "carries_on s ((swap_states s)\<lparr>ss_gdn_state_parity := \<not> ss_gdn_state_parity s\<rparr>)"
  by (auto simp: carries_on_def same_weights_def has_states_def state_buffers_def swap_states_def split: if_splits)

lemma greedy_carries: "greedy_step dev s t d = (r, s', d') \<Longrightarrow> carries_on s s'"
  by (auto simp: greedy_step_def Let_def split: if_splits prod.splits)

lemma block_carries: "block_step dev s ts d = (r, s', d') \<Longrightarrow> carries_on s s'"
  by (auto simp: block_step_def Let_def split: if_splits prod.splits)

lemma draft_carries: "mtp_draft dev s t d = (r, s', d') \<Longrightarrow> carries_on s s'"
  by (auto simp: mtp_draft_def Let_def split: if_splits prod.splits)

lemma after_verifier_carries [simp]: "carries_on s (after_verifier s n)"
  by (simp add: after_verifier_def)

lemma launch_carries:
  "launch_prepared_speculative_graph dev s seed d = (st, s', d') \<Longrightarrow> carries_on s s'"
  "launch_speculative dev s seed n d = (st, s', d') \<Longrightarrow> carries_on s s'"
  by (auto simp: launch_prepared_speculative_graph_def launch_speculative_def Let_def
      split: if_splits prod.splits option.splits)

lemma commit_carries:
  "commit_prefix dev s i j a d = (st, s', d') \<Longrightarrow> carries_on s s'"
  "commit_all dev s t d = (st, s', d') \<Longrightarrow> carries_on s s'"
  using carries_on_swap [of s]
  by (auto simp: commit_prefix_def commit_all_def restore_target_state_def swap_states_def Let_def
      split: if_splits prod.splits)

lemma speculative_carries:
  assumes "speculative_step dev s t n d = (r, s', d')"
  shows "carries_on s s'"
proof (cases "ss_last_hidden s = Null_Pointer \<or> n = 0 \<or> n \<ge> kMaximumBlock \<or> t \<ge> tokenizer_vocabulary_size
    \<or> ss_mtp_position s + 1 \<noteq> ss_current_position s
    \<or> n + 1 > dc_maximum_context_tokens (ss_config s) - ss_current_position s")
  case True
  then show ?thesis
    using assms by (simp add: speculative_step_def)
next
  case guard: False
  obtain st1 d1 where snapshot: "snapshot_target_state dev s d = (st1, d1)"
    by force
  obtain st2 s2 d2 where launch: "(if n + 1 = dc_graph_verifier_batch (ss_config s)
      then launch_prepared_speculative_graph dev s t d1 else launch_speculative dev s t n d1) = (st2, s2, d2)"
    using prod_cases3 by blast
  have s2: "carries_on s s2"
    using launch launch_carries by (metis (full_types))
  let ?s = "s2\<lparr> ss_mtp_position := ss_mtp_position s + n, ss_mtp_chain_active := True \<rparr>"
  obtain tokens d3 where tokens: "download_tokens dev n d2 = (tokens, d3)"
    by force
  note step = assms [unfolded speculative_step_def if_not_P [OF guard] Let_def snapshot prod.case launch tokens]
  show ?thesis
  proof (cases "status_ok st1 \<and> status_ok st2")
    case False
    then show ?thesis
      using step s2 by (auto simp: restore_target_state_def split: if_splits)
  next
    case ok: True
    show ?thesis
    proof (cases tokens)
      case (Inl e)
      then show ?thesis
        using step s2 ok by auto
    next
      case (Inr words)
      obtain drafts outputs where words: "words = (drafts, outputs)"
        by force
      define accepted where "accepted = accepted_prefix drafts outputs"
      obtain st3 s3 d4 where commit: "(if accepted \<noteq> n
          then commit_prefix dev ?s (ss_current_position s) (ss_mtp_position s) accepted d3
          else commit_all dev ?s (last drafts) d3) = (st3, s3, d4)"
        using prod_cases3 by blast
      have "carries_on ?s s3"
        using commit commit_carries by (metis (full_types))
      moreover have "s' = s3"
        using step ok commit
        by (cases "accepted = n") (auto simp: Inr words accepted_def [symmetric] split: if_splits prod.splits)
      ultimately show ?thesis
        using carries_on_trans [of s ?s s3] s2 by simp
    qed
  qed
qed

lemma session_run_carries: "session_run dev x y \<Longrightarrow> carries_on (fst x) (fst y)"
proof (induction rule: session_run.induct)
  case (run_greedy x s d t r s' d')
  then show ?case
    using greedy_carries carries_on_trans by (metis fst_conv)
next
  case (run_block x s d ts r s' d')
  then show ?case
    using block_carries carries_on_trans by (metis fst_conv)
next
  case (run_draft x s d t r s' d')
  then show ?case
    using draft_carries carries_on_trans by (metis fst_conv)
next
  case (run_speculative x s d t n r s' d')
  then show ?case
    using speculative_carries carries_on_trans by (metis fst_conv)
qed simp

text \<open>The graph of a parity was captured from a session with these weights and with the buffers of that parity.\<close>

definition graph_of :: "session \<Rightarrow> bool \<Rightarrow> kernel list \<Rightarrow> bool" where
  "graph_of s parity ks \<longleftrightarrow>
     (\<exists>t. map Launch ks = graph_program t (dc_graph_verifier_batch (ss_config s) - 1)
       \<and> same_weights s t \<and> has_states t parity \<and> ss_record_rollback t)"

lemma created_graphs:
  assumes "session_create rt en config g = (Inr (s, offsets), g')"
  shows "has_states s (ss_gdn_state_parity s) \<and> ss_config s = config
    \<and> (\<forall>parity ks. ss_graphs s parity = Some ks \<longrightarrow> graph_of s parity ks)"
proof -
  obtain s0 s1 where s0: "bind_session en config = Inr s0" "prepare_speculative_graphs (ct_capture rt) s0 = Inr s1"
    "s = s1\<lparr>ss_summary := ss_summary s\<rparr>"
    by (rule session_create_steps [OF assms])
  note new = bind_session_new [OF s0(1)]
  have same: "has_states s parity = has_states s1 parity" "ss_graphs s = ss_graphs s1" "ss_config s = ss_config s1"
    "ss_gdn_state_parity s = ss_gdn_state_parity s1" "graph_of s parity ks = graph_of s1 parity ks" for parity ks
    by (subst s0(3), simp add: has_states_def graph_of_def same_weights_def)+
  show ?thesis
  proof (cases "dc_graph_verifier_batch (ss_config s0) = 0")
    case True
    then have "s1 = s0"
      using s0(2) by (simp add: prepare_speculative_graphs_def)
    then show ?thesis
      using new by (simp add: same)
  next
    case False
    let ?r = "s0\<lparr>ss_record_rollback := True\<rparr>"
    obtain even odd where graphs: "captured_graph (ct_capture rt) ?r False = Inr even"
        "captured_graph (ct_capture rt) (swap_states ?r) True = Inr odd"
      and s1: "s1 = s0\<lparr>ss_graphs := (\<lambda>parity. Some (if parity then odd else even)), ss_record_rollback := False\<rparr>"
      using s0(2) False
      by (cases "captured_graph (ct_capture rt) ?r False"; cases "captured_graph (ct_capture rt) (swap_states ?r) True")
        (auto simp: prepare_speculative_graphs_def Let_def)
    have "graph_of s1 parity (if parity then odd else even)" for parity
      unfolding graph_of_def s1
      using captured_graph_all [OF graphs(1)] captured_graph_all [OF graphs(2)] new
      by (intro exI [of _ "if parity then swap_states ?r else ?r"])
        (auto simp: same_weights_def has_states_def state_buffers_def swap_states_def)
    moreover have "has_states s0 False"
      using new by blast
    then have "has_states s1 False"
      by (simp add: s1 has_states_def)
    moreover have "\<not> ss_gdn_state_parity s1" "ss_config s1 = config" "ss_graphs s1 = (\<lambda>parity. Some (if parity then odd else even))"
      using new by (simp_all add: s1)
    ultimately show ?thesis
      by (auto simp: same)
  qed
qed

text \<open>After any run, the graph of the current parity is a capture of the current session.\<close>

lemma current_graph:
  assumes "session_create rt en config g = (Inr (s0, offsets), g')" and "session_run dev (s0, d0) (s, d)"
    and "ss_graphs s (ss_gdn_state_parity s) = Some ks"
  shows "\<exists>t. map Launch ks = graph_program (other s t) (dc_graph_verifier_batch config - 1) \<and> ss_record_rollback t"
    and "ss_config s = config"
proof -
  note created = created_graphs [OF assms(1)]
  have c: "carries_on s0 s"
    using session_run_carries [OF assms(2)] by simp
  have states: "has_states s (ss_gdn_state_parity s)"
    using c created by (simp add: carries_on_def)
  show config: "ss_config s = config"
    using c created by (simp add: carries_on_def same_weights_def)
  have "graph_of s0 (ss_gdn_state_parity s) ks"
    using c created assms(3) by (simp add: carries_on_def)
  then obtain t where t: "map Launch ks = graph_program t (dc_graph_verifier_batch config - 1)" "same_weights s0 t"
    "has_states t (ss_gdn_state_parity s)" "ss_record_rollback t"
    using created by (auto simp: graph_of_def)
  have "same_weights s t"
    using t(2) c by (simp add: carries_on_def same_weights_def)
  from same_weights_other [OF this states t(3)] t(1,4)
  show "\<exists>t. map Launch ks = graph_program (other s t) (dc_graph_verifier_batch config - 1) \<and> ss_record_rollback t"
    by metis
qed

text \<open>What the device holds after the three uploads of a step.\<close>

definition uploaded_inputs :: "session \<Rightarrow> nat \<Rightarrow> nat \<Rightarrow> (pointer \<Rightarrow> nat) \<Rightarrow> pointer \<Rightarrow> nat" where
  "uploaded_inputs s seed_token draft_count held =
     uploaded (Arena Graph_MTP_Positions 0) (map (\<lambda>index. ss_mtp_position s + index) [0..<draft_count])
       (uploaded (Arena Graph_Base_Position 0) [ss_current_position s]
         (uploaded graph_seed_token [seed_token] held))"

lemma uploaded_inputs_held:
  "uploaded_inputs s seed n held graph_seed_token = seed"
  "uploaded_inputs s seed n held (Arena Graph_Base_Position 0) = ss_current_position s"
  "index < n \<Longrightarrow> uploaded_inputs s seed n held (Arena Graph_MTP_Positions index) = ss_mtp_position s + index"
  by (simp_all add: uploaded_inputs_def graph_seed_token_def uploaded_other uploaded_at)

lemma graph_step:
  assumes create: "session_create rt en config g = (Inr (s0, offsets), g')" and run: "session_run dev (s0, d0) (s, d)"
    and launch: "launch_prepared_speculative_graph dev s seed_token d = (status, s', d')" "status_ok status"
    and n: "n = dc_graph_verifier_batch config - 1"
  shows "\<exists>d1 d2 d3 graph. dx_upload dev graph_seed_token [seed_token] d = (hip_success, d1)
    \<and> dx_upload dev (Arena Graph_Base_Position 0) [ss_current_position s] d1 = (hip_success, d2)
    \<and> dx_upload dev (Arena Graph_MTP_Positions 0) (map (\<lambda>index. ss_mtp_position s + index) [0..<n]) d2 = (hip_success, d3)
    \<and> dx_replay dev graph d3 = (hip_success, d')
    \<and> (\<forall>held. resolved (uploaded_inputs s seed_token n held) (map Launch graph)
      = resolved (uploaded_inputs s seed_token n held)
          (proposal_chain s seed_token (ss_mtp_position s) n
            @ launch_speculative_verifier (s\<lparr>ss_record_rollback := True\<rparr>) seed_token n))"
proof -
  have config: "ss_config s = config"
    using session_run_carries [OF run] created_graphs [OF create] by (simp add: carries_on_def same_weights_def)
  have batch: "\<not> dc_graph_verifier_batch (ss_config s) < 2"
    using launch by (auto simp: launch_prepared_speculative_graph_def status_ok_def)
  have limit: "dc_graph_verifier_batch config \<le> 32"
    by (rule session_create_steps [OF create]) (auto simp: check_session_config_def kMaximumBlock_def split: if_splits)
  obtain e1 d1 where 1: "dx_upload dev graph_seed_token [seed_token] d = (e1, d1)"
    by force
  obtain e2 d2 where 2: "dx_upload dev (Arena Graph_Base_Position 0) [ss_current_position s] d1 = (e2, d2)"
    by force
  obtain e3 d3 where 3: "dx_upload dev (Arena Graph_MTP_Positions 0) (map (\<lambda>index. ss_mtp_position s + index) [0..<n]) d2 = (e3, d3)"
    by force
  have count: "dc_graph_verifier_batch (ss_config s) - 1 = n"
    using config n by simp
  have step: "launch_prepared_speculative_graph dev s seed_token d =
      (if e1 \<noteq> hip_success then (hip_status (dx_hip dev) e1 ''speculative graph seed upload failed'', s, d1)
       else if e2 \<noteq> hip_success then (hip_status (dx_hip dev) e2 ''speculative graph verifier-position upload failed'', s, d2)
       else if e3 \<noteq> hip_success then (hip_status (dx_hip dev) e3 ''speculative graph MTP-position upload failed'', s, d3)
       else case ss_graphs s (ss_gdn_state_parity s) of
           None \<Rightarrow> (Status internal ''prepared speculative graph is unavailable'', s, d3)
         | Some graph \<Rightarrow>
             (case dx_replay dev graph d3 of (e, d4) \<Rightarrow>
                if e \<noteq> hip_success then (hip_status (dx_hip dev) e ''speculative graph launch failed'', s, d4)
                else (ok_status, after_verifier s n, d4)))"
    unfolding launch_prepared_speculative_graph_def Let_def count if_not_P [OF batch] 1 2 3 prod.case
    by (rule refl)
  have bad: "x \<noteq> hip_success \<Longrightarrow> \<not> status_ok (hip_status h x m)" "\<not> status_ok (Status internal m)" for h x m
    by (simp_all add: hip_status_def status_ok_def)
  have e: "e1 = hip_success"
    using launch bad(1) [of e1] unfolding step by (auto split: if_splits)
  have e': "e2 = hip_success"
    using launch bad(1) [of e2] unfolding step by (auto simp: e split: if_splits)
  have e'': "e3 = hip_success"
    using launch bad(1) [of e3] unfolding step by (auto simp: e e' split: if_splits)
  obtain ks where ks: "ss_graphs s (ss_gdn_state_parity s) = Some ks"
    using launch bad(2) unfolding step by (cases "ss_graphs s (ss_gdn_state_parity s)") (auto simp: e e' e'')
  obtain e4 d4 where 4: "dx_replay dev ks d3 = (e4, d4)"
    by force
  have replay: "dx_replay dev ks d3 = (hip_success, d')"
    using launch bad(1) [of e4] unfolding step by (auto simp: e e' e'' ks 4 split: if_splits)
  obtain t where t: "map Launch ks = graph_program (other s t) n" "ss_record_rollback t"
    using current_graph(1) [OF create run ks] n by blast
  have "0 < n" "n < kMaximumBlock"
    using batch limit n config by (simp_all add: kMaximumBlock_def)
  have "resolved (uploaded_inputs s seed_token n held) (map Launch ks)
      = resolved (uploaded_inputs s seed_token n held)
          (proposal_chain s seed_token (ss_mtp_position s) n
            @ launch_speculative_verifier (s\<lparr>ss_record_rollback := True\<rparr>) seed_token n)" for held
    unfolding t(1) using uploaded_inputs_held(3)
      graph_resolved [where held = "uploaded_inputs s seed_token n held", OF \<open>0 < n\<close> \<open>n < kMaximumBlock\<close> uploaded_inputs_held(1,2) _ t(2)]
    by metis
  with 1 2 3 replay show ?thesis
    unfolding e e' e'' by blast
qed

section \<open>A small session\<close>

text \<open>A session of one attention layer and one layer with a recurrent state, for concrete runs.\<close>

definition sample_tensor :: device_tensor_view where
  "sample_tensor = \<lparr> dv_name = ''t'', dv_dtype = dt_u8, dv_quantization = w4g128, dv_rank = 2, dv_dimensions = [128, 128],
     dv_data = 0, dv_auxiliary = Some 0, dv_data_bytes = 8192, dv_auxiliary_bytes = 256 \<rparr>"

definition sample_layer :: "bool \<Rightarrow> layer_bindings" where
  "sample_layer attention = (let t = Some sample_tensor in
     \<lparr> lb_attention = attention, lb_state_index = 0, lb_input_norm = t, lb_post_norm = t, lb_mlp_gate = t,
       lb_mlp_up = t, lb_mlp_down = t, lb_qkv = t, lb_z = t, lb_a = t, lb_b = t, lb_convolution = t, lb_a_log = t,
       lb_dt_bias = t, lb_gdn_norm = t, lb_q = t, lb_k = t, lb_v = t, lb_q_norm = t, lb_k_norm = t, lb_out = t \<rparr>)"

definition sample_session :: session where
  "sample_session =
     \<lparr> ss_config = \<lparr> dc_maximum_context_tokens = 16, dc_activation_mode = int4, dc_graph_verifier_batch = 0 \<rparr>,
       ss_summary = \<lparr> dss_arena_bytes = 0, dss_maximum_context_tokens = 16, dss_gdn_state_bytes = 0,
         dss_kv_cache_bytes = 0, dss_mtp_cache_bytes = 0 \<rparr>,
       ss_current_position = 5, ss_mtp_position = 4, ss_mtp_chain_active = False, ss_record_rollback = False,
       ss_tiled_weights = True, ss_sequential_w3 = False, ss_gdn_state_parity = False,
       ss_layers = [sample_layer True, sample_layer False], ss_graphs = (\<lambda>parity. None), ss_mtp_layer = sample_layer True,
       ss_embedding = sample_tensor, ss_final_norm = sample_tensor, ss_lm_head = sample_tensor,
       ss_mtp_draft_head = sample_tensor, ss_mtp_draft_token_ids = None, ss_mtp_fc = Some sample_tensor,
       ss_mtp_pre_embedding_norm = Some sample_tensor, ss_mtp_pre_hidden_norm = Some sample_tensor,
       ss_mtp_final_norm = Some sample_tensor, ss_last_hidden = Arena Hidden_A 0, ss_conv_states = Conv_States,
       ss_gdn_states = GDN_States, ss_conv_snapshot = Conv_Snapshot, ss_gdn_snapshot = GDN_Snapshot \<rparr>"

definition sample_held :: "pointer \<Rightarrow> nat" where
  "sample_held p =
     (if p = graph_seed_token then 9
      else case p of Arena Graph_Base_Position i \<Rightarrow> 5 | Arena Graph_MTP_Positions i \<Rightarrow> 4 + i | _ \<Rightarrow> 0)"

end
