(* ===== verification/Launching.thy ===== *)
theory Launching
  imports Session
begin

text \<open>
  A session whose matrices are bound, and a device that succeeds: the programs of the steps refuse
  nothing, so the only refusals of a step are its own guards.
\<close>

section \<open>Programs without a refusal\<close>

definition launching :: "program \<Rightarrow> bool" where
  "launching p \<longleftrightarrow> list_all (\<lambda>c. case c of Launch k \<Rightarrow> True | Refuse s \<Rightarrow> False) p"

lemma launching_simps [simp]:
  "launching []" "launching (Launch k # p) \<longleftrightarrow> launching p" "launching (Refuse s # p) \<longleftrightarrow> False"
  "launching (p @ q) \<longleftrightarrow> launching p \<and> launching q"
  by (simp_all add: launching_def)

lemma launching_concat: "(\<And>p. p \<in> set ps \<Longrightarrow> launching p) \<Longrightarrow> launching (concat ps)"
  by (induction ps) simp_all

text \<open>A matrix that the runtime accepts, and the bindings that a step takes matrices from.\<close>

definition bound_matrix :: "device_tensor_view option \<Rightarrow> bool" where
  "bound_matrix t \<longleftrightarrow> (case t of None \<Rightarrow> False | Some v \<Rightarrow> dv_rank v = 2 \<and> dv_auxiliary v \<noteq> None)"

definition bound_matrices :: "layer_bindings \<Rightarrow> bool" where
  "bound_matrices l \<longleftrightarrow>
     bound_matrix (lb_mlp_gate l) \<and> bound_matrix (lb_mlp_up l) \<and> bound_matrix (lb_mlp_down l) \<and> bound_matrix (lb_out l)
     \<and> (if lb_attention l then bound_matrix (lb_q l) \<and> bound_matrix (lb_k l) \<and> bound_matrix (lb_v l)
        else bound_matrix (lb_qkv l) \<and> bound_matrix (lb_z l) \<and> bound_matrix (lb_a l) \<and> bound_matrix (lb_b l))"

definition launchable :: "session \<Rightarrow> bool" where
  "launchable s \<longleftrightarrow> list_all bound_matrices (ss_layers s) \<and> bound_matrices (ss_mtp_layer s) \<and> lb_attention (ss_mtp_layer s)
     \<and> bound_matrix (ss_mtp_fc s) \<and> bound_matrix (Some (ss_lm_head s)) \<and> bound_matrix (Some (ss_mtp_draft_head s))"

lemma launching_matrix [simp]: "bound_matrix t \<Longrightarrow> launching (launch_matrix s t i out batch p)"
  by (auto simp: bound_matrix_def launch_matrix_def Let_def quantize_i4_def quantize_i8_def split: option.splits)

lemma launching_matrices [simp]:
  "list_all bound_matrix ts \<Longrightarrow> length ts = length outs \<Longrightarrow> ts \<noteq> [] \<Longrightarrow> launching (launch_matrices s ts outs i batch)"
  by (auto simp: launch_matrices_def Let_def quantize_i4_def list_all_length intro!: launching_concat)

lemma launching_mlp_down [simp]: "bound_matrix t \<Longrightarrow> launching (launch_mlp_down s t batch)"
  by (simp add: launch_mlp_down_def)

lemma launching_gather [simp]: "launching (gather_row s out t)"
  by (simp add: gather_row_def Let_def)

lemma launching_residual [simp]: "launching (residual_norm r u out w norm batch)"
  by (simp add: residual_norm_def)

lemma launching_mlp [simp]: "bound_matrices l \<Longrightarrow> launching (launch_mlp s l i out w batch)"
  by (simp add: bound_matrices_def launch_mlp_def)

lemma launching_layer [simp]: "bound_matrices l \<Longrightarrow> launching (launch_layer s l i out w)"
  by (simp add: launch_layer_def Let_def project_qkv_def project_gdn_def) (simp add: bound_matrices_def)

lemma launching_layer_block [simp]: "bound_matrices l \<Longrightarrow> launching (launch_layer_block s batch p l i out w)"
  by (simp add: launch_layer_block_def project_qkv_def project_gdn_def attention_block_def gdn_block_def Let_def
      split: option.split) (simp add: bound_matrices_def)

lemma launching_run_layers:
  "list_all bound_matrices ls \<Longrightarrow> (\<And>l i out w. bound_matrices l \<Longrightarrow> launching (step l i out w)) \<Longrightarrow>
   launching (fst (run_layers s step ls i out))"
  by (induction s step ls i out rule: run_layers.induct) (auto simp: case_prod_unfold Let_def)

lemma launching_greedy [simp]:
  "launchable s \<Longrightarrow> launching (fst (greedy_layers s t))" "launchable s \<Longrightarrow> launching (greedy_head s)"
  by (auto simp: launchable_def greedy_layers_def greedy_head_def case_prod_unfold Let_def intro!: launching_run_layers)

lemma launching_proposal [simp]:
  "launchable s \<Longrightarrow> conditioning \<noteq> Null_Pointer \<Longrightarrow> launching (launch_mtp_proposal s t conditioning position out p)"
  by (auto simp: launchable_def bound_matrices_def launch_mtp_proposal_def Let_def project_qkv_def quantize_i4_def split: option.split)

lemma launching_chain [simp]: "launchable s \<Longrightarrow> launching (proposal_chain s seed position k)"
  unfolding proposal_chain_def by (rule launching_concat) (auto split: if_splits)

lemma launching_verifier [simp]:
  "launchable s \<Longrightarrow> 0 < k \<Longrightarrow> k < kMaximumBlock \<Longrightarrow> launching (launch_speculative_verifier s seed k)"
  by (auto simp: launchable_def launch_speculative_verifier_def enqueue_verifier_body_def block_layers_def block_head_def
      case_prod_unfold Let_def intro!: launching_concat launching_run_layers)

lemma launching_graph [simp]: "launchable s \<Longrightarrow> launching (graph_program s k)"
  by (auto simp: launchable_def graph_program_def enqueue_verifier_body_def block_layers_def block_head_def
      case_prod_unfold Let_def intro!: launching_concat launching_run_layers launching_proposal split: if_splits)

lemma launching_restore [simp]: "launching (restore_logged_prefix s k)"
  by (simp add: restore_logged_prefix_def)

text \<open>The bindings are all that \<open>launchable\<close> looks at.\<close>

definition same_bindings :: "session \<Rightarrow> session \<Rightarrow> bool" where
  "same_bindings s s' \<longleftrightarrow> ss_layers s' = ss_layers s \<and> ss_mtp_layer s' = ss_mtp_layer s \<and> ss_mtp_fc s' = ss_mtp_fc s
     \<and> ss_lm_head s' = ss_lm_head s \<and> ss_mtp_draft_head s' = ss_mtp_draft_head s \<and> ss_config s' = ss_config s
     \<and> ss_graphs s' = ss_graphs s"

lemma same_bindings_launchable: "same_bindings s s' \<Longrightarrow> launchable s \<Longrightarrow> launchable s'"
  by (simp add: same_bindings_def launchable_def)

lemma launchable_update [simp]:
  "launchable (ss_last_hidden_update f s) = launchable s" "launchable (ss_current_position_update g s) = launchable s"
  "launchable (ss_mtp_position_update g s) = launchable s" "launchable (ss_mtp_chain_active_update h s) = launchable s"
  "launchable (ss_record_rollback_update h s) = launchable s" "launchable (ss_gdn_state_parity_update h s) = launchable s"
  "launchable (swap_states s) = launchable s"
  by (simp_all add: launchable_def swap_states_def)

section \<open>A device that succeeds\<close>

text \<open>Every call succeeds, and the words that a download delivers are below a bound.\<close>

definition succeeding :: "nat \<Rightarrow> 'd device \<Rightarrow> bool" where
  "succeeding bound dev \<longleftrightarrow>
     (\<forall>k d. fst (dx_launch dev k d) = ok_status) \<and> (\<forall>p q n d. fst (dx_copy dev p q n d) = hip_success)
     \<and> (\<forall>p ws d. fst (dx_upload dev p ws d) = hip_success) \<and> (\<forall>ks d. fst (dx_replay dev ks d) = hip_success)
     \<and> (\<forall>d. dx_synchronize dev d = hip_success)
     \<and> (\<forall>p n d. fst (dx_download dev p n d) = hip_success \<and> (\<forall>i. fst (snd (dx_download dev p n d)) i < bound))"

lemma succeeding_run:
  assumes "succeeding bound dev" "launching p"
  shows "\<exists>d'. run_program dev p d = (ok_status, d')"
  using assms(2)
proof (induction p arbitrary: d)
  case (Cons c p)
  then obtain k where c: "c = Launch k" "launching p"
    by (cases c) auto
  obtain d1 where "dx_launch dev k d = (ok_status, d1)"
    using assms(1) by (metis succeeding_def prod.collapse)
  then show ?case
    using Cons.IH [OF c(2)] c(1) by simp
qed simp

lemma succeeding_download:
  "succeeding bound dev \<Longrightarrow> \<exists>words d'. dx_download dev p n d = (hip_success, words, d') \<and> (\<forall>i. words i < bound)"
  by (metis succeeding_def prod.collapse)

lemma succeeding_copy: "succeeding bound dev \<Longrightarrow> \<exists>d'. dx_copy dev p q n d = (hip_success, d')"
  by (metis succeeding_def prod.collapse)

lemma succeeding_upload: "succeeding bound dev \<Longrightarrow> \<exists>d'. dx_upload dev p ws d = (hip_success, d')"
  by (metis succeeding_def prod.collapse)

lemma succeeding_replay: "succeeding bound dev \<Longrightarrow> \<exists>d'. dx_replay dev ks d = (hip_success, d')"
  by (metis succeeding_def prod.collapse)

lemma succeeding_synchronize: "succeeding bound dev \<Longrightarrow> dx_synchronize dev d = hip_success"
  by (simp add: succeeding_def)

lemma run_layers_buffers:
  "snd (run_layers s step ls i out) \<in> {i, out}"
  by (induction s step ls i out rule: run_layers.induct) (auto simp: case_prod_unfold Let_def)

lemma greedy_layers_hidden: "snd (greedy_layers s t) \<noteq> Null_Pointer"
  using run_layers_buffers [of s "launch_layer s" "ss_layers s" "Arena Hidden_A 0" "Arena Hidden_B 0"]
  by (auto simp: greedy_layers_def case_prod_unfold Let_def)

section \<open>The steps succeed\<close>

lemma greedy_step_progress:
  assumes dev: "succeeding bound dev" and s: "launchable s"
    and guard: "ss_current_position s < dc_maximum_context_tokens (ss_config s)" "t < vocabulary_size"
  shows "\<exists>r d'. greedy_step dev s t d = (Inr r, s\<lparr> ss_last_hidden := snd (greedy_layers s t),
      ss_current_position := ss_current_position s + 1 \<rparr>, d') \<and> r < bound"
proof -
  obtain layers current where l: "greedy_layers s t = (layers, current)"
    by force
  let ?s = "s\<lparr>ss_last_hidden := current\<rparr>"
  obtain d1 where d1: "run_program dev layers d = (ok_status, d1)"
    using succeeding_run [OF dev launching_greedy(1) [OF s, of t], of d] l by auto
  have "launchable ?s"
    using s by simp
  then obtain d2 where d2: "run_program dev (greedy_head ?s) d1 = (ok_status, d2)"
    using succeeding_run [OF dev launching_greedy(2), of ?s d1] by blast
  obtain words d3 where d3: "dx_download dev (Arena Selected_Token 0) 1 d2 = (hip_success, words, d3)" "\<forall>i. words i < bound"
    using succeeding_download [OF dev] by blast
  have "greedy_step dev s t d = (Inr (words 0), ?s\<lparr>ss_current_position := ss_current_position ?s + 1\<rparr>, d3)"
    using guard succeeding_synchronize [OF dev] by (simp add: greedy_step_def l d1 d2 d3(1) [simplified] Let_def)
  then show ?thesis
    using d3(2) l by simp
qed

lemma mtp_draft_progress:
  assumes dev: "succeeding bound dev" and s: "launchable s" "ss_last_hidden s \<noteq> Null_Pointer"
    and guard: "ss_mtp_position s + 1 = ss_current_position s" "t < tokenizer_vocabulary_size"
  shows "\<exists>r d'. mtp_draft dev s t d = (Inr r, s\<lparr>ss_mtp_position := ss_mtp_position s + 1\<rparr>, d')"
proof -
  let ?c = "if ss_mtp_chain_active s then Arena MTP_Hidden 0 else ss_last_hidden s"
  have "launching (launch_mtp_proposal s (Direct t) ?c (ss_mtp_position s) (Some (Arena Selected_Token 0)) None)"
    using s by simp
  then obtain d1 where d1: "run_program dev
      (launch_mtp_proposal s (Direct t) ?c (ss_mtp_position s) (Some (Arena Selected_Token 0)) None) d = (ok_status, d1)"
    using succeeding_run [OF dev] by blast
  obtain words d2 where d2: "dx_download dev (Arena Selected_Token 0) 1 d1 = (hip_success, words, d2)"
    using succeeding_download [OF dev] by blast
  show ?thesis
    using guard s(2) d1 d2 succeeding_synchronize [OF dev] by (simp add: mtp_draft_def Let_def)
qed

lemma launch_progress:
  assumes dev: "succeeding bound dev" and s: "launchable s" and n: "0 < n" "n < kMaximumBlock"
    and graphs: "n + 1 = dc_graph_verifier_batch (ss_config s) \<Longrightarrow> ss_graphs s (ss_gdn_state_parity s) \<noteq> None"
  shows "\<exists>d'. (if n + 1 = dc_graph_verifier_batch (ss_config s) then launch_prepared_speculative_graph dev s seed d
      else launch_speculative dev s seed n d) = (ok_status, after_verifier s n, d')"
proof (cases "n + 1 = dc_graph_verifier_batch (ss_config s)")
  case True
  then obtain graph where g: "ss_graphs s (ss_gdn_state_parity s) = Some graph"
    using graphs by blast
  obtain d1 where d1: "dx_upload dev graph_seed_token [seed] d = (hip_success, d1)"
    using succeeding_upload [OF dev] by blast
  obtain d2 where d2: "dx_upload dev (Arena Graph_Base_Position 0) [ss_current_position s] d1 = (hip_success, d2)"
    using succeeding_upload [OF dev] by blast
  obtain d3 where d3: "dx_upload dev (Arena Graph_MTP_Positions 0) (map (\<lambda>index. ss_mtp_position s + index) [0..<n]) d2
      = (hip_success, d3)"
    using succeeding_upload [OF dev] by blast
  obtain d4 where d4: "dx_replay dev graph d3 = (hip_success, d4)"
    using succeeding_replay [OF dev] by blast
  have "\<not> dc_graph_verifier_batch (ss_config s) < 2" "dc_graph_verifier_batch (ss_config s) - 1 = n"
    using True n by simp_all
  then show ?thesis
    unfolding if_P [OF True] by (simp add: launch_prepared_speculative_graph_def d1 d2 d3 d4 g Let_def)
next
  case False
  obtain d1 where d1: "run_program dev (proposal_chain s seed (ss_mtp_position s) n) d = (ok_status, d1)"
    using succeeding_run [OF dev launching_chain [OF s]] by blast
  have "launchable (s\<lparr>ss_record_rollback := True\<rparr>)"
    using s by simp
  then obtain d2 where "run_program dev (launch_speculative_verifier (s\<lparr>ss_record_rollback := True\<rparr>) seed n) d1 = (ok_status, d2)"
    using succeeding_run [OF dev launching_verifier [OF _ n]] by blast
  then show ?thesis
    using False d1 by (simp add: launch_speculative_def Let_def)
qed

lemma snapshot_progress: "succeeding bound dev \<Longrightarrow> \<exists>d'. snapshot_target_state dev s d = (ok_status, d')"
  using succeeding_copy [of bound dev "Arena Target_Hidden_Snapshot 0" "ss_last_hidden s" kHidden d]
  by (auto simp: snapshot_target_state_def)

lemma download_tokens_progress:
  assumes dev: "succeeding bound dev"
  shows "\<exists>drafts outs d'. download_tokens dev n d = (Inr (map drafts [0..<n], map outs [0..<n + 1]), d')
    \<and> (\<forall>i. drafts i < bound) \<and> (\<forall>i. outs i < bound)"
proof -
  obtain drafts d1 where d1: "dx_download dev (draft_token 0) n d = (hip_success, drafts, d1)" "\<forall>i. drafts i < bound"
    using succeeding_download [OF dev] by blast
  obtain outs d2 where d2: "dx_download dev (Arena Selected_Token 0) (n + 1) d1 = (hip_success, outs, d2)" "\<forall>i. outs i < bound"
    using succeeding_download [OF dev] by blast
  show ?thesis
    unfolding download_tokens_def d1(1) prod.case Let_def d2(1) succeeding_synchronize [OF dev] using d1(2) d2(2) by auto
qed

text \<open>After the launches, either commit succeeds and keeps the bindings.\<close>

definition committed :: "session \<Rightarrow> session \<Rightarrow> bool" where
  "committed s s' \<longleftrightarrow> same_bindings s s' \<and> ss_last_hidden s' \<noteq> Null_Pointer \<and> \<not> ss_mtp_chain_active s'"

lemma commit_prefix_progress:
  assumes "succeeding bound dev"
  shows "\<exists>s' d'. commit_prefix dev s i j a d = (ok_status, s', d') \<and> committed s s'"
  using succeeding_run [OF assms launching_restore, of "restore_target_state s" "a + 1" d]
  by (auto simp: commit_prefix_def Let_def restore_target_state_def committed_def same_bindings_def)

lemma commit_all_progress:
  assumes dev: "succeeding bound dev" and s: "launchable s" "ss_last_hidden s = Arena b i"
  shows "\<exists>s' d'. commit_all dev s t d = (ok_status, s', d') \<and> committed s s'"
proof -
  let ?s = "(swap_states s)\<lparr>ss_gdn_state_parity := \<not> ss_gdn_state_parity (swap_states s)\<rparr>"
  have "launchable ?s" "ss_last_hidden ?s = Arena b i"
    using s by simp_all (simp add: swap_states_def)
  then obtain d' where "run_program dev (launch_mtp_proposal ?s (Direct t) (Arena b (i - kHidden)) (ss_mtp_position ?s) None None) d
      = (ok_status, d')"
    using succeeding_run [OF dev launching_proposal, of ?s "Arena b (i - kHidden)"] by blast
  moreover have "committed s (?s\<lparr> ss_mtp_chain_active := False, ss_mtp_position := ss_mtp_position ?s + 1 \<rparr>)"
    using s(2) by (simp add: committed_def same_bindings_def swap_states_def)
  ultimately show ?thesis
    using \<open>ss_last_hidden ?s = Arena b i\<close> by (simp add: commit_all_def Let_def)
qed

lemma same_bindings_trans: "same_bindings a b \<Longrightarrow> same_bindings b c \<Longrightarrow> same_bindings a c"
  by (simp add: same_bindings_def)

lemma accepted_prefix_bound: "accepted_prefix as bs \<le> length as"
  by (induction as bs rule: accepted_prefix.induct) auto

lemma speculative_step_progress:
  assumes dev: "succeeding bound dev" and s: "launchable s" "ss_last_hidden s \<noteq> Null_Pointer"
    and n: "0 < n" "n < kMaximumBlock" and seed: "seed < tokenizer_vocabulary_size"
    and position: "ss_mtp_position s + 1 = ss_current_position s"
      "n + 1 \<le> dc_maximum_context_tokens (ss_config s) - ss_current_position s"
    and graphs: "n + 1 = dc_graph_verifier_batch (ss_config s) \<Longrightarrow> ss_graphs s (ss_gdn_state_parity s) \<noteq> None"
  shows "\<exists>r s' d'. speculative_step dev s seed n d = (Inr r, s', d') \<and> committed s s' \<and> list_all (\<lambda>t. t < bound) (sr_tokens r)"
proof -
  have guard: "\<not> (ss_last_hidden s = Null_Pointer \<or> n = 0 \<or> n \<ge> kMaximumBlock \<or> seed \<ge> tokenizer_vocabulary_size
      \<or> ss_mtp_position s + 1 \<noteq> ss_current_position s
      \<or> n + 1 > dc_maximum_context_tokens (ss_config s) - ss_current_position s)"
    using s(2) n seed position by simp
  obtain d0 where snapshot: "snapshot_target_state dev s d = (ok_status, d0)"
    using snapshot_progress [OF dev] by blast
  obtain d1 where launched: "(if n + 1 = dc_graph_verifier_batch (ss_config s) then launch_prepared_speculative_graph dev s seed d0
      else launch_speculative dev s seed n d0) = (ok_status, after_verifier s n, d1)"
    using launch_progress [OF dev s(1) n graphs] by blast
  let ?s = "(after_verifier s n)\<lparr> ss_mtp_position := ss_mtp_position s + n, ss_mtp_chain_active := True \<rparr>"
  obtain drafts outs d2 where tokens: "download_tokens dev n d1 = (Inr (map drafts [0..<n], map outs [0..<n + 1]), d2)"
    and bound: "\<forall>i. drafts i < bound" "\<forall>i. outs i < bound"
    using download_tokens_progress [OF dev] by blast
  let ?drafts = "map drafts [0..<n]" and ?outs = "map outs [0..<n + 1]"
  define accepted where "accepted = accepted_prefix ?drafts ?outs"
  have "launchable ?s" "ss_last_hidden ?s = Arena Hidden_A (n * kHidden)" "same_bindings s ?s"
    using s(1) by (simp_all add: after_verifier_def same_bindings_def)
  then obtain s' d3 where commit: "(if accepted \<noteq> n
      then commit_prefix dev ?s (ss_current_position s) (ss_mtp_position s) accepted d2
      else commit_all dev ?s (last ?drafts) d2) = (ok_status, s', d3)" and after: "committed s s'"
    using commit_prefix_progress [OF dev, of ?s "ss_current_position s" "ss_mtp_position s" accepted d2]
      commit_all_progress [OF dev, of ?s Hidden_A "n * kHidden" "last ?drafts" d2]
    by (cases "accepted \<noteq> n") (auto simp: committed_def intro: same_bindings_trans)
  let ?r = "\<lparr> sr_tokens = take accepted ?drafts @ [?outs ! accepted], sr_proposed_drafts = n, sr_accepted_drafts = accepted \<rparr>"
  have "speculative_step dev s seed n d = (Inr ?r, s', d3)"
    unfolding speculative_step_def if_not_P [OF guard] snapshot Let_def prod.case launched tokens sum.case
      accepted_def [symmetric] commit by simp
  moreover have "list_all (\<lambda>t. t < bound) (sr_tokens ?r)"
  proof -
    have "accepted \<le> n"
      using accepted_prefix_bound [of ?drafts ?outs] by (simp add: accepted_def)
    then have "?outs ! accepted < bound"
      using bound(2) by (simp add: nth_append del: upt_Suc)
    then show ?thesis
      using bound(1) by (auto simp: list_all_iff dest!: in_set_takeD)
  qed
  ultimately show ?thesis
    using after by blast
qed

end
