(* ===== verification/SessionProps.thy ===== *)
theory SessionProps
  imports SessionBind GraphReplay Launching
begin

text \<open>
  The properties of a decode session: its arena, its bindings, the memory safety of its runs, and
  what a speculative step returns.
\<close>

section \<open>Creation\<close>

text \<open>
  C24. The arena of a created session holds each of the 41 regions once, at offsets that are
  multiples of 256, in ranges that do not overlap and stay within the free memory that the HIP
  runtime reported before the allocation.
\<close>

theorem session_arena_layout:
  assumes "session_create rt en config g = (Inr (s, offsets), g')"
  shows "set (map fst offsets) = UNIV \<and> distinct (map fst offsets)
    \<and> (\<forall>(b, offset) \<in> set offsets. offset mod 256 = 0
         \<and> offset + reserved_bytes (dc_maximum_context_tokens config) b \<le> dss_arena_bytes (ss_summary s))
    \<and> dss_arena_bytes (ss_summary s) \<le> snd (ct_mem_info rt)
    \<and> sorted_wrt (\<lambda>(b, offset) (b', offset').
         offset + reserved_bytes (dc_maximum_context_tokens config) b \<le> offset') offsets"
proof -
  let ?n = "dc_maximum_context_tokens config" and ?rs = "session_reservations (dc_maximum_context_tokens config)"
  obtain cursor where layout: "session_layout 0 ?rs = Some (offsets, cursor)" and
    cursor: "cursor \<le> snd (ct_mem_info rt)" "dss_arena_bytes (ss_summary s) = cursor"
    by (rule session_create_steps [OF assms])
  note L = session_layout_Some [OF layout]
  have names: "map fst offsets = map fst ?rs"
    using L by blast
  have regions: "distinct (map fst ?rs)"
    by (simp add: session_reservations_def)
  have all: "b \<in> set (map fst ?rs)" for b
    by (cases b) (simp_all add: session_reservations_def)
  have len: "length offsets = length ?rs"
    using names by (metis length_map)
  have reserved: "reserved_bytes ?n (fst (offsets ! i)) = snd (?rs ! i)" if i: "i < length offsets" for i
  proof -
    have "fst (offsets ! i) = fst (?rs ! i)"
      using names i len by (metis nth_map)
    moreover have "map_of ?rs (fst (?rs ! i)) = Some (snd (?rs ! i))"
      by (rule map_of_is_SomeI [OF regions]) (use i len in simp)
    ultimately show ?thesis
      by (simp add: reserved_bytes_def)
  qed
  have each: "snd (offsets ! i) mod 256 = 0 \<and> snd (offsets ! i) + snd (?rs ! i) \<le> cursor" if "i < length offsets" for i
    using L that by (auto simp: list_all2_conv_all_nth case_prod_unfold)
  have order: "snd (offsets ! i) + snd (?rs ! i) \<le> snd (offsets ! j)" if "i < j" "j < length offsets" for i j
  proof -
    have "(\<lambda>(off, n). \<lambda>(off', n'). off + n \<le> off') (zip (map snd offsets) (map snd ?rs) ! i) (zip (map snd offsets) (map snd ?rs) ! j)"
      using L that len by (intro sorted_wrt_nth_less) auto
    then show ?thesis
      using that len by simp
  qed
  have sorted: "sorted_wrt (\<lambda>(b, offset) (b', offset'). offset + reserved_bytes ?n b \<le> offset') offsets"
    unfolding sorted_wrt_iff_nth_less case_prod_unfold using order reserved by simp
  have bounds: "\<forall>(b, offset) \<in> set offsets. offset mod 256 = 0 \<and> offset + reserved_bytes ?n b \<le> cursor"
    unfolding case_prod_unfold in_set_conv_nth Ball_def using each reserved by (metis)
  have "set (map fst offsets) = UNIV" "distinct (map fst offsets)"
    using all regions by (auto simp only: names)
  then show ?thesis
    using sorted bounds cursor by simp
qed

text \<open>
  A creation that fails leaves the allocations of the device as they were, also when it fails
  after the arena was allocated; one that succeeds adds one arena.
\<close>

theorem session_create_allocations:
  "case session_create rt en config g of
     (Inl e, g') \<Rightarrow> g' = g
   | (Inr _, g') \<Rightarrow> g' = g\<lparr>gpu_arenas := gpu_arenas g + 1\<rparr>"
  by (cases g) (simp add: session_create_def session_destroy_def Let_def split: sum.split option.split prod.split)

text \<open>
  A resident model binds: when every tensor of the text model and of the proposal layer is
  resident with the shape of the specification, the bindings succeed, with the sixteen attention
  layers and the forty-eight layers with a recurrent state numbered in order, each kind from zero.
\<close>

theorem resident_model_binds:
  assumes "serves_model en"
  shows "\<exists>s. bind_session en config = Inr s \<and> map lb_attention (ss_layers s) = map is_full_attention [0..<layer_count]
    \<and> map lb_state_index (filter lb_attention (ss_layers s)) = [0..<kAttentionLayerCount]
    \<and> map lb_state_index (filter (\<lambda>l. \<not> lb_attention l) (ss_layers s)) = [0..<kGdnLayerCount]
    \<and> list_all layer_shaped (ss_layers s)"
proof -
  obtain s where s: "bind_session en config = Inr s" "ss_layers s = map (bound_layer en) [0..<64]"
    by (rule session_binds [OF assms])
  have "map lb_attention (ss_layers s) = map is_full_attention [0..<layer_count]"
    unfolding s(2) layer_count_def map_map by (rule map_cong) (simp_all add: bound_layer_fields)
  moreover have "list_all layer_shaped (ss_layers s)"
    using bound_layer_shaped(1) [OF assms] by (simp add: s(2) list_all_iff del: upt_rec_numeral)
  ultimately show ?thesis
    using s(1) bound_layers_indices [of en, folded s(2)]
    by (intro exI [of _ s]) (simp add: kAttentionLayerCount_def kGdnLayerCount_def del: upt_rec_numeral)
qed

section \<open>A model and a device\<close>

definition model_view :: "source_tensor_spec \<Rightarrow> device_tensor_view" where
  "model_view t = \<lparr> dv_name = st_name t, dv_dtype = dt_u8, dv_quantization = w4g128, dv_rank = of_nat (length (st_shape t)),
     dv_dimensions = st_shape t, dv_data = 0, dv_auxiliary = Some 0, dv_data_bytes = 0, dv_auxiliary_bytes = 0 \<rparr>"

definition model_engine :: engine where
  "model_engine = sample_engine\<lparr>en_stream := True, en_device_tensors := map model_view qwen38_source_tensor_specs\<rparr>"

definition model_config :: decode_session_config where
  "model_config = \<lparr> dc_maximum_context_tokens = 64, dc_activation_mode = fp16, dc_graph_verifier_batch = 0 \<rparr>"

definition sample_create :: create_runtime where
  "sample_create = \<lparr> ct_capture = \<lparr> cr_hip = sample_hip, cr_begin = (\<lambda>_. 0), cr_launch = (\<lambda>_. ok_status),
       cr_end = (\<lambda>_. 0), cr_instantiate = (\<lambda>_. 0) \<rparr>,
     ct_mem_info = (0, 0x200000000), ct_malloc = (\<lambda>_. 0), ct_memset = (\<lambda>_. 0), ct_synchronize = 0 \<rparr>"

lemma names_of_model: "set (map st_name qwen38_source_tensor_specs) = set (qwen38_source_tensor_names True True)"
  by (simp only: spec_names)

lemma draft_names_absent:
  "''mtp.draft_head.weight'' \<notin> set (qwen38_source_tensor_names True True)"
  "''mtp.draft_head_token_ids'' \<notin> set (qwen38_source_tensor_names True True)"
proof -
  have absent: "n \<notin> set (qwen38_source_tensor_names True True)"
    if "n \<notin> set layer_names" "n \<notin> set block_names"
      "n \<notin> set (head_names @ append_names ''model.visual.'' visual_suffixes @ append_names ''mtp.'' mtp_suffixes)" for n
    using that by (simp only: names_unsorted set_sort set_append if_True) blast
  show "''mtp.draft_head.weight'' \<notin> set (qwen38_source_tensor_names True True)"
    by (rule absent) (use layer_names_prefix [of "''mtp.draft_head.weight''"] block_names_prefix [of "''mtp.draft_head.weight''"]
      in \<open>auto simp: is_prefix_def head_names_def append_names_def visual_suffixes_def mtp_suffixes_def\<close>)
  show "''mtp.draft_head_token_ids'' \<notin> set (qwen38_source_tensor_names True True)"
    by (rule absent) (use layer_names_prefix [of "''mtp.draft_head_token_ids''"] block_names_prefix [of "''mtp.draft_head_token_ids''"]
      in \<open>auto simp: is_prefix_def head_names_def append_names_def visual_suffixes_def mtp_suffixes_def\<close>)
qed

lemma model_engine_serves: "serves_model model_engine"
proof -
  have tensors: "en_device_tensors model_engine = map model_view qwen38_source_tensor_specs"
    by (simp add: model_engine_def)
  have names: "map dv_name (map model_view qwen38_source_tensor_specs) = qwen38_source_tensor_names True True"
    unfolding spec_names [symmetric] by (simp add: model_view_def)
  have order: "in_name_order model_engine"
    unfolding in_name_order_def tensors names using distinct_names [of True True]
    by (simp only: names_unsorted sorted_sort simp_thms)
  have missing: "find_device_tensor model_engine name = None" if "name \<notin> set (qwen38_source_tensor_names True True)" for name
    using that device_table.lookup_None [OF order, of name] names by (auto simp: tensors simp flip: names)
  have small: "length (st_shape t) \<le> 5" if "t \<in> set text_specs" for t
    using that by (auto simp: text_specs_def add_specs_def head_specs_def layer_specs_def mtp_specs_def split: if_splits)
  have "list_ex (\<lambda>v. dv_name v = st_name t \<and> has_shape v (st_shape t)) (en_device_tensors model_engine)" if t: "t \<in> set text_specs" for t
  proof -
    have "t \<in> set qwen38_source_tensor_specs"
      using t by (auto simp: text_specs_def qwen38_source_tensor_specs_def)
    moreover have "unat (of_nat (length (st_shape t)) :: u16) = length (st_shape t)"
      using small [OF t] by (simp add: unat_of_nat)
    ultimately show ?thesis
      unfolding list_ex_iff tensors by (intro bexI [of _ "model_view t"]) (simp_all add: model_view_def has_shape_def)
  qed
  then show ?thesis
    using order missing draft_names_absent by (simp add: serves_model_def list_all_iff)
qed

theorem resident_model_binds_witness:
  "\<exists>s. bind_session model_engine model_config = Inr s \<and> map lb_attention (ss_layers s) = map is_full_attention [0..<layer_count]
    \<and> map lb_state_index (filter lb_attention (ss_layers s)) = [0..<kAttentionLayerCount]
    \<and> map lb_state_index (filter (\<lambda>l. \<not> lb_attention l) (ss_layers s)) = [0..<kGdnLayerCount]
    \<and> list_all layer_shaped (ss_layers s)"
  by (rule resident_model_binds [OF model_engine_serves])

lemma bind_head_rank:
  assumes "serves_model en"
  obtains s where "bind_session en config = Inr s" "ss_config s = config"
  using session_binds [OF assms] by metis

lemma sample_layout:
  "\<exists>offsets cursor. session_layout 0 (session_reservations 64) = Some (offsets, cursor) \<and> cursor \<le> 0x200000000"
  by (simp add: session_reservations_def reserve_def max_u64_def session_constants conv_bytes_def gdn_bytes_def
      per_cache_bytes_def mtp_per_cache_bytes_def Let_def)

lemma sample_session_created:
  "\<exists>s offsets g'. session_create sample_create model_engine model_config g = (Inr (s, offsets), g')"
proof -
  obtain s where s: "bind_session model_engine model_config = Inr s" "ss_config s = model_config"
    by (rule bind_head_rank [OF model_engine_serves])
  obtain offsets cursor where layout: "session_layout 0 (session_reservations 64) = Some (offsets, cursor)" "cursor \<le> 0x200000000"
    using sample_layout by blast
  have config: "dc_maximum_context_tokens model_config = 64" "dc_graph_verifier_batch model_config = 0"
    by (simp_all add: model_config_def)
  have check: "check_session_config model_engine model_config = Inr ()"
    by (simp add: check_session_config_def model_config_def model_engine_def kMaximumContextTokens_def)
  show ?thesis
    using layout
    by (simp add: session_create_def check s initialize_session_def prepare_speculative_graphs_def Let_def sample_create_def
        hip_success_def config max_u64_def session_constants)
qed

theorem session_arena_layout_witness:
  "\<exists>s offsets g'. session_create sample_create model_engine model_config \<lparr> gpu_arenas = 1, gpu_streams = 1 \<rparr> = (Inr (s, offsets), g')
    \<and> set (map fst offsets) = UNIV \<and> dss_arena_bytes (ss_summary s) \<le> snd (ct_mem_info sample_create)"
proof -
  obtain s offsets g' where "session_create sample_create model_engine model_config \<lparr> gpu_arenas = 1, gpu_streams = 1 \<rparr>
      = (Inr (s, offsets), g')"
    using sample_session_created by blast
  then show ?thesis
    using session_arena_layout [of sample_create model_engine model_config] by blast
qed

section \<open>Memory safety\<close>

text \<open>
  The instrumented device is the device: every step of a session answers the same, changes the
  session the same way and leaves the same device, whether the accesses are checked or not.
\<close>

theorem checked_device_is_transparent:
  "greedy_step dev s t (ck_device c) = erased (greedy_step (check_device elements dev) s t c)
   \<and> block_step dev s ts (ck_device c) = erased (block_step (check_device elements dev) s ts c)
   \<and> mtp_draft dev s t (ck_device c) = erased (mtp_draft (check_device elements dev) s t c)
   \<and> speculative_step dev s t n (ck_device c) = erased (speculative_step (check_device elements dev) s t n c)"
  by (intro conjI erase_greedy_step erase_block_step erase_mtp_draft erase_speculative_step)

text \<open>
  C21. Memory safety of a session: with a resident model of the specification's shapes (\<open>serves_model\<close>),
  and weights of a tiled recipe or activations in FP16 or INT8 (\<open>served_mode\<close>), no sequence of steps from
  a created session, whatever the device answers and computes, makes a launch, a copy, an upload or a
  download that reads an element of the arena before it was written or leaves one of its regions; and the
  session's position never passes the context limit. The client drafts only while the position of the
  proposals is below the context limit (\<open>session_run\<close>), which the code does not check. With four-bit
  activations on an untiled recipe the claim is false: \<open>untiled_int4_reads_unwritten\<close> below.
\<close>

theorem session_is_memory_safe:
  assumes "serves_model en" "served_mode en config"
    and "session_create rt en config g = (Inr (s, offsets), g')"
    and "session_run (check_device (buffer_elements (dc_maximum_context_tokens config)) dev) (s, check_new d) (s', c)"
  shows "ck_safe c \<and> ss_current_position s' \<le> dc_maximum_context_tokens config"
proof -
  have "session_inv (dc_maximum_context_tokens config) s' c"
    using session_run_inv [OF assms(4)] session_create_inv [OF assms(1-3), of d] by simp
  then show ?thesis
    using session_invD(6,7) by blast
qed

definition quiet_device :: "unit device" where
  "quiet_device = \<lparr> dx_hip = sample_hip, dx_launch = (\<lambda>k d. (ok_status, d)), dx_copy = (\<lambda>p q n d. (0, d)),
     dx_upload = (\<lambda>p ws d. (0, d)), dx_download = (\<lambda>p n d. (0, \<lambda>i. 7, d)), dx_synchronize = (\<lambda>d. 0),
     dx_replay = (\<lambda>ks d. (0, d)) \<rparr>"

theorem session_is_memory_safe_witness:
  "\<exists>s offsets g'. session_create sample_create model_engine model_config \<lparr> gpu_arenas = 1, gpu_streams = 1 \<rparr> = (Inr (s, offsets), g')
    \<and> ck_safe (snd (snd (greedy_step (check_device (buffer_elements 64) quiet_device) s 3 (check_new ()))))"
proof -
  obtain s offsets g' where create: "session_create sample_create model_engine model_config \<lparr> gpu_arenas = 1, gpu_streams = 1 \<rparr>
      = (Inr (s, offsets), g')"
    using sample_session_created by blast
  obtain r s' c where step: "greedy_step (check_device (buffer_elements 64) quiet_device) s 3 (check_new ()) = (r, s', c)"
    by (metis prod_cases3)
  have mode: "served_mode model_engine model_config" and limit: "dc_maximum_context_tokens model_config = 64"
    by (simp_all add: served_mode_def model_config_def)
  have run: "session_run (check_device (buffer_elements 64) quiet_device) (s, check_new ()) (s', c)"
    using run_greedy [OF run_start step] .
  have "ck_safe c"
    by (rule conjunct1 [OF session_is_memory_safe [OF model_engine_serves mode create, unfolded limit, OF run]])
  then show ?thesis
    using create step by auto
qed

text \<open>
  The fused path of \<open>launch_mlp_down\<close> is only right for tiled weights: with untiled weights and a
  quantized activation mode the product reads the FP16 activation, which that path never wrote.
\<close>

theorem untiled_int4_reads_unwritten:
  assumes "\<not> ss_tiled_weights s" "uses_i4 s (Some t)" "dv_rank t = 2" "dv_auxiliary t \<noteq> None"
    and "0 < tensor_columns t" "0 < batch" "(Activated, 0) \<notin> A"
  shows "\<not> program_safe elements held (launch_mlp_down s (Some t) batch) K A"
proof -
  have first: "(Activated, 0) \<in> {Activated} \<times> {0..<batch * tensor_columns t}" "(Activated, 0) \<in> {Activated} \<times> {0..<tensor_columns t}"
    using assms(5,6) by simp_all
  show ?thesis
    using assms
    by (auto simp: launch_mlp_down_def launch_matrix_def Let_def dest!: subsetD [OF _ first(1)] subsetD [OF _ first(2)])
qed

theorem untiled_int4_reads_unwritten_witness:
  "\<not> program_safe (buffer_elements 16) sample_held
     (launch_mlp_down (sample_session\<lparr>ss_tiled_weights := False\<rparr>) (Some sample_tensor) 1) (\<lambda>A. True)
     ({Gate_Output, Up_Output} \<times> {0..<17408})"
  by (rule untiled_int4_reads_unwritten)
    (simp_all add: sample_session_def sample_tensor_def uses_i4_def wants_i4_def tensor_columns_def)

section \<open>Speculative decoding is greedy decoding\<close>

text \<open>The tokens that a model chooses one after the other, from the tokens so far.\<close>

fun continuation :: "(nat list \<Rightarrow> nat) \<Rightarrow> nat list \<Rightarrow> nat \<Rightarrow> nat list" where
  "continuation model history 0 = []"
| "continuation model history (Suc k) = model history # continuation model (history @ [model history]) k"

lemma length_continuation [simp]: "length (continuation model history k) = k"
  by (induction k arbitrary: history) simp_all

lemma continuation_unique:
  "length zs = k \<Longrightarrow> (\<And>i. i < k \<Longrightarrow> zs ! i = model (history @ take i zs)) \<Longrightarrow> zs = continuation model history k"
proof (induction k arbitrary: zs history)
  case (Suc k)
  then obtain z zs' where zs: "zs = z # zs'" "length zs' = k"
    by (cases zs) auto
  have z: "z = model history"
    using Suc.prems(2) [of 0] zs by simp
  have "zs' = continuation model (history @ [z]) k"
    using Suc.prems(2) [of "Suc i" for i] zs by (intro Suc.IH) auto
  then show ?case
    using zs z by simp
qed simp

lemma accepted_prefix_equal:
  "i < accepted_prefix xs ys \<Longrightarrow> xs ! i = ys ! i"
proof (induction xs ys arbitrary: i rule: accepted_prefix.induct)
  case (1 a as b bs)
  then show ?case
    by (cases i) (auto split: if_splits)
qed auto

lemma accepted_is_continuation:
  assumes "length ys = length xs + 1" "\<And>i. i \<le> length xs \<Longrightarrow> ys ! i = model (history @ take i xs)"
  shows "take (accepted_prefix xs ys) xs @ [ys ! accepted_prefix xs ys] = continuation model history (accepted_prefix xs ys + 1)"
proof (rule continuation_unique)
  let ?a = "accepted_prefix xs ys" and ?zs = "take (accepted_prefix xs ys) xs @ [ys ! accepted_prefix xs ys]"
  have a: "?a \<le> length xs"
    by (rule accepted_prefix_le)
  then show "length ?zs = ?a + 1"
    by simp
  fix i assume i: "i < ?a + 1"
  have "?zs ! i = ys ! i"
    using accepted_prefix_equal [of i xs ys] i a by (cases "i < ?a") (auto simp: nth_append less_Suc_eq)
  moreover have "take i ?zs = take i xs"
    using i a by simp
  ultimately show "?zs ! i = model (history @ take i ?zs)"
    using assms(2) [of i] i a by simp
qed

text \<open>
  What the kernels of the target promise: the tokens that the verifier chooses for the seed and the
  drafts, downloaded after the launches, are the tokens that the model chooses after the history,
  the seed and the drafts before each of them.
\<close>

definition launches :: "'d device \<Rightarrow> session \<Rightarrow> nat \<Rightarrow> nat \<Rightarrow> 'd \<Rightarrow> status \<times> session \<times> 'd" where
  "launches dev s seed_token draft_count d =
     (if draft_count + 1 = dc_graph_verifier_batch (ss_config s)
      then launch_prepared_speculative_graph dev s seed_token d
      else launch_speculative dev s seed_token draft_count d)"

definition verifies ::
  "'d device \<Rightarrow> session \<Rightarrow> nat \<Rightarrow> nat \<Rightarrow> 'd \<Rightarrow> (nat list \<Rightarrow> nat) \<Rightarrow> nat list \<Rightarrow> bool" where
  "verifies dev s seed_token draft_count d model history \<longleftrightarrow>
     (let (status, d) = snapshot_target_state dev s d;
          (status, s, d) = launches dev s seed_token draft_count d;
          (error, drafts, d) = dx_download dev (draft_token 0) draft_count d;
          (error, target_outputs, d) = dx_download dev (Arena Selected_Token 0) (draft_count + 1) d
      in list_all (\<lambda>i. target_outputs i = model (history @ seed_token # map drafts [0..<i])) [0..<draft_count + 1])"

lemma launches_fields:
  assumes "launches dev s t n d = (st, s', d')" "status_ok st" "0 < n"
  shows "s' = after_verifier s n"
proof -
  have "dc_graph_verifier_batch (ss_config s) - 1 = n" if "n + 1 = dc_graph_verifier_batch (ss_config s)"
    using that by simp
  then show ?thesis
    using assms
    by (auto simp: launches_def launch_prepared_speculative_graph_def launch_speculative_def Let_def error_status
        split: if_splits prod.splits option.splits)
qed

lemma commit_fields:
  assumes "commit_prefix dev s i j a d = (st, s', d')" "status_ok st"
  shows "ss_current_position s' = i + a + 1" "ss_mtp_position s' = j + a + 1"
  using assms by (auto simp: commit_prefix_def Let_def split: if_splits prod.splits)

lemma commit_all_fields:
  assumes "commit_all dev s t d = (st, s', d')" "status_ok st"
  shows "ss_current_position s' = ss_current_position s" "ss_mtp_position s' = ss_mtp_position s + 1"
  using assms by (auto simp: commit_all_def swap_states_def Let_def split: if_splits prod.splits)

text \<open>A step that succeeds, taken apart.\<close>

lemma speculative_step_succeeds:
  assumes step: "speculative_step dev s t n d = (Inr r, s', d')"
  obtains d0 st0 d1 st1 s1 d2 drafts d3 outs accepted where
    "snapshot_target_state dev s d = (st0, d0)" "launches dev s t n d0 = (st1, s1, d1)"
    "dx_download dev (draft_token 0) n d1 = (hip_success, drafts, d2)"
    "dx_download dev (Arena Selected_Token 0) (n + 1) d2 = (hip_success, outs, d3)"
    "accepted = accepted_prefix (map drafts [0..<n]) (map outs [0..<n + 1])"
    "r = \<lparr> sr_tokens = take accepted (map drafts [0..<n]) @ [map outs [0..<n + 1] ! accepted], sr_proposed_drafts = n,
       sr_accepted_drafts = accepted \<rparr>"
    "ss_current_position s' = ss_current_position s + accepted + 1" "ss_mtp_position s' + 1 = ss_current_position s'"
    "ss_current_position s + n < dc_maximum_context_tokens (ss_config s)"
proof -
  have guard: "\<not> (ss_last_hidden s = Null_Pointer \<or> n = 0 \<or> n \<ge> kMaximumBlock \<or> t \<ge> tokenizer_vocabulary_size
      \<or> ss_mtp_position s + 1 \<noteq> ss_current_position s
      \<or> n + 1 > dc_maximum_context_tokens (ss_config s) - ss_current_position s)" (is "\<not> ?refused")
  proof
    assume refused: ?refused
    show False
      using step unfolding speculative_step_def if_P [OF refused] by simp
  qed
  obtain st0 d0 where snapshot: "snapshot_target_state dev s d = (st0, d0)"
    by force
  obtain st1 s1 d1 where launched: "launches dev s t n d0 = (st1, s1, d1)"
    by (metis prod_cases3)
  obtain e2 drafts d2 where down1: "dx_download dev (draft_token 0) n d1 = (e2, drafts, d2)"
    by (metis prod_cases3)
  obtain e3 outs d3 where down2: "dx_download dev (Arena Selected_Token 0) (n + 1) d2 = (e3, outs, d3)"
    by (metis prod_cases3)
  let ?drafts = "map drafts [0..<n]" and ?outs = "map outs [0..<n + 1]"
  let ?s = "s1\<lparr> ss_mtp_position := ss_mtp_position s + n, ss_mtp_chain_active := True \<rparr>"
  define accepted where "accepted = accepted_prefix ?drafts ?outs"
  define commit where "commit = (if accepted \<noteq> n
    then commit_prefix dev ?s (ss_current_position s) (ss_mtp_position s) accepted d3
    else commit_all dev ?s (last ?drafts) d3)"
  obtain st4 s4 d4 where commit: "commit = (st4, s4, d4)"
    by (metis prod_cases3)
  have body: "speculative_step dev s t n d =
     (if \<not> status_ok st0 then (Inl st0, s, d0)
      else if \<not> status_ok st1 then
        let s = restore_target_state (s1\<lparr> ss_record_rollback := False, ss_mtp_chain_active := False,
              ss_mtp_position := ss_mtp_position s, ss_current_position := ss_current_position s \<rparr>)
        in if dx_synchronize dev d1 \<noteq> hip_success
           then (Inl (hip_status (dx_hip dev) (dx_synchronize dev d1) ''speculative failure rollback failed''), s, d1)
           else (Inl st1, s, d1)
      else
        case download_tokens dev n d1 of
          (Inl e, d) \<Rightarrow> (Inl e, ?s, d)
        | (Inr (drafts, target_outputs), d) \<Rightarrow>
            let accepted = accepted_prefix drafts target_outputs;
                (status, s, d) =
                  (if accepted \<noteq> n then commit_prefix dev ?s (ss_current_position s) (ss_mtp_position s) accepted d
                   else commit_all dev ?s (last drafts) d)
            in if \<not> status_ok status then (Inl status, s, d)
               else (Inr \<lparr> sr_tokens = take accepted drafts @ [target_outputs ! accepted],
                       sr_proposed_drafts = n, sr_accepted_drafts = accepted \<rparr>, s, d))"
    unfolding speculative_step_def if_not_P [OF guard] snapshot launches_def [symmetric]
    unfolding Let_def prod.case launched by (rule refl)
  have ok: "status_ok st0" "status_ok st1" "e2 = hip_success" "e3 = hip_success" "dx_synchronize dev d3 = hip_success"
    using step unfolding body download_tokens_def down1 prod.case Let_def down2 by (auto split: if_splits)
  have tokens: "download_tokens dev n d1 = (Inr (?drafts, ?outs), d3)"
    unfolding download_tokens_def down1 prod.case Let_def down2 using ok by simp
  have finish: "status_ok st4" "s' = s4"
    "r = \<lparr> sr_tokens = take accepted ?drafts @ [?outs ! accepted], sr_proposed_drafts = n, sr_accepted_drafts = accepted \<rparr>"
    using step commit unfolding body tokens sum.case prod.case Let_def accepted_def [symmetric] commit_def [symmetric]
    by (auto simp: ok split: if_splits)
  have s1: "s1 = after_verifier s n"
    using launches_fields [OF launched ok(2)] guard by simp
  have positions: "ss_current_position s' = ss_current_position s + accepted + 1 \<and> ss_mtp_position s' + 1 = ss_current_position s'"
  proof (cases "accepted = n")
    case True
    then show ?thesis
      using commit_all_fields [of dev ?s "last ?drafts" d3 st4 s4 d4] commit finish guard s1
      by (simp add: commit_def after_verifier_def)
  next
    case False
    then show ?thesis
      using commit_fields [of dev ?s "ss_current_position s" "ss_mtp_position s" accepted d3 st4 s4 d4] commit finish guard
      by (simp add: commit_def)
  qed
  show thesis
    by (rule that [OF snapshot launched _ _ accepted_def finish(3)]) (use down1 down2 ok positions guard in auto)
qed

text \<open>The tokens that a step returns.\<close>

lemma speculative_tokens_greedy:
  assumes "speculative_step dev s t n d = (Inr r, s', d')" and "verifies dev s t n d model history"
  shows "sr_tokens r = continuation model (history @ [t]) (length (sr_tokens r))"
    "length (sr_tokens r) = sr_accepted_drafts r + 1" "sr_accepted_drafts r \<le> n" "sr_proposed_drafts r = n"
    "ss_current_position s' = ss_current_position s + length (sr_tokens r)" "ss_mtp_position s' + 1 = ss_current_position s'"
    "ss_current_position s + n < dc_maximum_context_tokens (ss_config s)"
proof -
  obtain d0 st0 d1 st1 s1 d2 drafts d3 outs accepted where step:
    "snapshot_target_state dev s d = (st0, d0)" "launches dev s t n d0 = (st1, s1, d1)"
    "dx_download dev (draft_token 0) n d1 = (hip_success, drafts, d2)"
    "dx_download dev (Arena Selected_Token 0) (n + 1) d2 = (hip_success, outs, d3)"
    "accepted = accepted_prefix (map drafts [0..<n]) (map outs [0..<n + 1])"
    and r: "r = \<lparr> sr_tokens = take accepted (map drafts [0..<n]) @ [map outs [0..<n + 1] ! accepted], sr_proposed_drafts = n,
       sr_accepted_drafts = accepted \<rparr>"
    and position: "ss_current_position s' = ss_current_position s + accepted + 1" "ss_mtp_position s' + 1 = ss_current_position s'"
      "ss_current_position s + n < dc_maximum_context_tokens (ss_config s)"
    by (rule speculative_step_succeeds [OF assms(1)])
  have answers: "outs i = model (history @ t # map drafts [0..<i])" if "i \<le> n" for i
    using assms(2) that unfolding verifies_def step(1,2) prod.case Let_def step(3,4) by (auto simp: list_all_iff)
  have le: "accepted \<le> n"
    using accepted_prefix_le(1) [of "map drafts [0..<n]" "map outs [0..<n + 1]"] step(5) by simp
  have "sr_tokens r = continuation model (history @ [t]) (accepted + 1)"
    unfolding r step(5) speculative_step_result.select_convs
    by (rule accepted_is_continuation) (auto simp: answers nth_append take_map simp del: upt_Suc)
  moreover have "length (sr_tokens r) = accepted + 1"
    using le by (simp add: r)
  ultimately show "sr_tokens r = continuation model (history @ [t]) (length (sr_tokens r))"
    "length (sr_tokens r) = sr_accepted_drafts r + 1" "sr_accepted_drafts r \<le> n" "sr_proposed_drafts r = n"
    "ss_current_position s' = ss_current_position s + length (sr_tokens r)" "ss_mtp_position s' + 1 = ss_current_position s'"
    "ss_current_position s + n < dc_maximum_context_tokens (ss_config s)"
    using position le by (simp_all only: r speculative_step_result.select_convs)
qed

text \<open>
  C22. Speculative decoding is greedy decoding: when the verifier answers with the model's own tokens,
  a speculative step that succeeds returns the model's greedy continuation after the seed token,
  one token longer than the number of accepted drafts, whatever the drafts were; the target advances
  by those tokens and the proposal layer stays one position behind it, within the context limit.
\<close>

theorem speculative_step_is_greedy:
  assumes "speculative_step dev s seed_token draft_count d = (Inr r, s', d')"
    and "verifies dev s seed_token draft_count d model history"
  shows "sr_tokens r = continuation model (history @ [seed_token]) (sr_accepted_drafts r + 1)
    \<and> sr_accepted_drafts r \<le> sr_proposed_drafts r \<and> sr_proposed_drafts r = draft_count
    \<and> ss_current_position s' = ss_current_position s + length (sr_tokens r)
    \<and> ss_mtp_position s' + 1 = ss_current_position s'
    \<and> ss_current_position s' \<le> dc_maximum_context_tokens (ss_config s)"
  using speculative_tokens_greedy [OF assms] by simp

text \<open>A device on which the drafts are 7, 8 and the model always says 7: one draft is accepted.\<close>

definition drafting_device :: "unit device" where
  "drafting_device =
     quiet_device\<lparr> dx_download := (\<lambda>p n d. (0, \<lambda>i. if p = draft_token 0 \<and> i \<noteq> 0 then 8 else 7, d)) \<rparr>"

lemma drafting_succeeds: "succeeding 9 drafting_device"
  by (simp add: succeeding_def drafting_device_def quiet_device_def hip_success_def)

lemma sample_launchable: "launchable sample_session"
  by (simp add: launchable_def sample_session_def sample_layer_def bound_matrices_def bound_matrix_def sample_tensor_def Let_def)

lemma sample_step:
  "\<exists>r s'. speculative_step drafting_device sample_session 5 2 () = (Inr r, s', ())"
proof -
  have "\<exists>r s' d'. speculative_step drafting_device sample_session 5 2 () = (Inr r, s', d')
      \<and> committed sample_session s' \<and> list_all (\<lambda>t. t < 9) (sr_tokens r)"
    by (rule speculative_step_progress [OF drafting_succeeds sample_launchable])
      (simp_all add: sample_session_def kMaximumBlock_def tokenizer_vocabulary_size_def)
  then show ?thesis
    by auto
qed

theorem speculative_step_is_greedy_witness:
  "\<exists>r s'. speculative_step drafting_device sample_session 5 2 () = (Inr r, s', ())
    \<and> sr_tokens r = continuation (\<lambda>h. 7) ([1, 2, 3, 4] @ [5]) (sr_accepted_drafts r + 1)"
proof -
  have v: "verifies drafting_device sample_session 5 2 () (\<lambda>h. 7) [1, 2, 3, 4]"
    by (simp add: verifies_def case_prod_unfold Let_def drafting_device_def quiet_device_def kMaximumBlock_def list_all_iff)
  obtain r s' where step: "speculative_step drafting_device sample_session 5 2 () = (Inr r, s', ())"
    using sample_step by blast
  show ?thesis
    using speculative_step_is_greedy [OF step v] step by auto
qed

end
