(* ===== verification/CliArguments.thy ===== *)
theory CliArguments
  imports ConvertPlan SessionCreate
begin

text \<open>
  \<^verbatim>\<open>src/cli/main.cpp\<close>: the command line of \<^verbatim>\<open>gfxinfer\<close>. \<open>main\<close> is the function from its arguments to the
  command that it runs, with its sizes as the 64-bit words that the code compares and adds; what the
  commands do is in the theory CliCommands. A text that is only printed is a constructor.
\<close>

section \<open>Numbers\<close>

definition is_space :: "char \<Rightarrow> bool" where
  "is_space c \<longleftrightarrow> c = CHR '' '' \<or> char_in CHR 0x09 CHR 0x0D c"

text \<open>
  \<open>std::stoull\<close> with the number of characters it consumed: white space, a sign and digits; a negative
  number wraps, an empty one and one out of range throw.
\<close>

definition stoull :: "string \<Rightarrow> (u64 \<times> nat) option" where
  "stoull s =
     (let spaces = takeWhile is_space s; rest = dropWhile is_space s;
          sign = (if rest \<noteq> [] \<and> (hd rest = CHR ''-'' \<or> hd rest = CHR ''+'') then 1 else 0);
          digits = takeWhile is_digit (drop sign rest); n = of_digits 0 digits
      in if digits = [] \<or> n > max_u64 then None
         else Some (if rest \<noteq> [] \<and> hd rest = CHR ''-'' then - of_nat n else of_nat n, length spaces + sign + length digits))"

definition parse_whole :: "string \<Rightarrow> u64 option" where
  "parse_whole v =
     (case stoull v of
        None \<Rightarrow> None
      | Some (parsed, consumed) \<Rightarrow> if consumed \<noteq> length v then None else Some parsed)"

definition parse_positive :: "string \<Rightarrow> u64 option" where
  "parse_positive v =
     (case stoull v of
        None \<Rightarrow> None
      | Some (parsed, consumed) \<Rightarrow> if consumed \<noteq> length v \<or> parsed = 0 then None else Some parsed)"

definition parse_nonnegative :: "string \<Rightarrow> u64 option" where
  "parse_nonnegative v =
     (case stoull v of
        None \<Rightarrow> None
      | Some (parsed, consumed) \<Rightarrow> if consumed \<noteq> length v then None else Some parsed)"

definition parse_activation_mode :: "string \<Rightarrow> activation_mode option" where
  "parse_activation_mode v =
     (if v = ''f16'' then Some fp16
      else if v = ''a8'' then Some int8
      else if v = ''a4'' then Some int4
      else if v = ''a4w2'' then Some int4_w2
      else if v = ''a4w4'' then Some int4_w4
      else None)"

section \<open>Conversion\<close>

definition default_conversion :: conversion_options where
  "default_conversion = \<lparr> co_source_directory = [], co_output_path = [], co_draft_ranking_path = [], co_plan_only = False,
     co_chunk_rows = 128, co_mlp_bits = 2, co_output_head_bits = 4, co_w3_start_layer = 0, co_w4_tail_layers = 8 \<rparr>"

definition convert_number :: "string \<Rightarrow> u64 \<Rightarrow> conversion_options \<Rightarrow> string + conversion_options" where
  "convert_number option parsed options =
     (if option = ''--mlp-bits'' \<and> (parsed = 2 \<or> parsed = 3 \<or> parsed = 4) then Inr (options\<lparr>co_mlp_bits := unat parsed\<rparr>)
      else if option = ''--head-bits'' \<and> (parsed = 2 \<or> parsed = 3 \<or> parsed = 4)
      then Inr (options\<lparr>co_output_head_bits := unat parsed\<rparr>)
      else if option = ''--w3-start-layer'' then Inr (options\<lparr>co_w3_start_layer := parsed\<rparr>)
      else if option = ''--w4-tail'' then Inr (options\<lparr>co_w4_tail_layers := parsed\<rparr>)
      else Inl (''error: invalid conversion option: '' @ option))"

fun convert_arguments :: "string list \<Rightarrow> conversion_options \<Rightarrow> string + conversion_options" where
  "convert_arguments [] options = Inr options"
| "convert_arguments (option # rest) options =
     (if option = ''--plan-only'' then convert_arguments rest (options\<lparr>co_plan_only := True\<rparr>)
      else case rest of
        [] \<Rightarrow> Inl (''error: conversion option requires a value: '' @ option)
      | v # rest \<Rightarrow>
          if option = ''--draft-ranking'' then convert_arguments rest (options\<lparr>co_draft_ranking_path := v\<rparr>)
          else
            (case parse_whole v of
               None \<Rightarrow> Inl (''error: invalid numeric conversion option: '' @ option)
             | Some parsed \<Rightarrow>
                 (case convert_number option parsed options of
                    Inl e \<Rightarrow> Inl e
                  | Inr options \<Rightarrow> convert_arguments rest options)))"

section \<open>The multiplication benchmark\<close>

record bench_options =
  bo_format :: quantization
  bo_rows :: u64
  bo_columns :: u64
  bo_iterations :: int
  bo_device :: int
  bo_batch :: nat
  bo_activation_bits :: nat

definition default_bench :: bench_options where
  "default_bench = \<lparr> bo_format = w2g128, bo_rows = 17408, bo_columns = 5120, bo_iterations = 100, bo_device = 0, bo_batch = 1,
     bo_activation_bits = 0 \<rparr>"

text \<open>\<open>static_cast<int>\<close> of a size.\<close>

definition int_of_size :: "u64 \<Rightarrow> int" where
  "int_of_size n = sint (ucast n :: 32 word)"

definition bench_argument :: "string \<Rightarrow> string \<Rightarrow> bench_options \<Rightarrow> bench_options result" where
  "bench_argument option v options =
     (if option = ''--format'' then
        (if v = ''w2'' then Inr (options\<lparr>bo_format := w2g128\<rparr>)
         else if v = ''w3'' then Inr (options\<lparr>bo_format := w3g128\<rparr>)
         else if v = ''w4'' then Inr (options\<lparr>bo_format := w4g128\<rparr>)
         else Err invalid_argument ''format must be w2, w3, or w4'')
      else if option = ''--rows'' then
        (case parse_positive v of None \<Rightarrow> Err invalid_argument ''invalid row count'' | Some n \<Rightarrow> Inr (options\<lparr>bo_rows := n\<rparr>))
      else if option = ''--cols'' then
        (case parse_positive v of None \<Rightarrow> Err invalid_argument ''invalid column count'' | Some n \<Rightarrow> Inr (options\<lparr>bo_columns := n\<rparr>))
      else if option = ''--iters'' then
        (case parse_positive v of
           None \<Rightarrow> Err invalid_argument ''invalid iteration count''
         | Some n \<Rightarrow>
             if n > 100000 then Err invalid_argument ''invalid iteration count'' else Inr (options\<lparr>bo_iterations := int_of_size n\<rparr>))
      else if option = ''--device'' then
        (case parse_positive v of
           None \<Rightarrow> if v \<noteq> ''0'' then Err invalid_argument ''invalid device index'' else Inr (options\<lparr>bo_device := 0\<rparr>)
         | Some n \<Rightarrow> Inr (options\<lparr>bo_device := int_of_size n\<rparr>))
      else if option = ''--batch'' then
        (case parse_positive v of
           None \<Rightarrow> Err invalid_argument ''batch must be in [1, 8]''
         | Some n \<Rightarrow> if n > 32 then Err invalid_argument ''batch must be in [1, 8]'' else Inr (options\<lparr>bo_batch := unat n\<rparr>))
      else if option = ''--kernel'' then
        (if v = ''scalar'' then Inr (options\<lparr>bo_activation_bits := 0\<rparr>)
         else if v = ''wmma-a4'' then Inr (options\<lparr>bo_activation_bits := 4\<rparr>)
         else if v = ''wmma-a8'' then Inr (options\<lparr>bo_activation_bits := 8\<rparr>)
         else if v = ''wmma-f16'' then Inr (options\<lparr>bo_activation_bits := 16\<rparr>)
         else Err invalid_argument ''kernel must be scalar, wmma-a4, wmma-a8, or wmma-f16'')
      else Err invalid_argument (''unknown benchmark option: '' @ option))"

fun bench_arguments :: "string list \<Rightarrow> bench_options \<Rightarrow> bench_options result" where
  "bench_arguments [] options = Inr options"
| "bench_arguments [option] options = Err invalid_argument (''missing value for '' @ option)"
| "bench_arguments (option # v # rest) options = result_bind (bench_argument option v options) (bench_arguments rest)"

definition parse_bench_options :: "string list \<Rightarrow> bench_options result" where
  "parse_bench_options argv =
     result_bind (bench_arguments (drop 2 argv) default_bench) (\<lambda>options.
     if bo_columns options mod 128 \<noteq> 0 then Err invalid_argument ''benchmark columns must be divisible by 128''
     else if bo_activation_bits options \<noteq> 0
       \<and> (bo_rows options mod 16 \<noteq> 0 \<or> bo_format options = w3g128 \<and> bo_activation_bits options \<noteq> 4)
     then Err invalid_argument ''WMMA requires N divisible by 16; W3 supports only wmma-a4''
     else Inr options)"

section \<open>The commands\<close>

datatype command =
    Usage_Command
  | Complain_Command string
  | Fail_Command status
  | Probe_Command
  | Inspect_Command string
  | Verify_Command string
  | Inspect_Safetensors_Command string
  | Convert_Command conversion_options
  | Load_Command string
  | Model_Smoke_Command string u64 u64
  | Gdn_Smoke_Command string u64 u64
  | Attention_Smoke_Command string u64 u64
  | Decode_Command string u64 u64 u64
  | Block_Command string u64 u64 u64 u64 activation_mode
  | Speculative_Command string u64 u64 u64 u64 activation_mode
  | Tokenizer_Command string string
  | Generate_Command string string u64 u64 activation_mode u64
  | Mtp_Command string u64 u64 u64 activation_mode
  | Bench_Command bench_options
  | Version_Command

definition convert_command :: "string list \<Rightarrow> command" where
  "convert_command argv =
     (if length argv < 4 \<or> length argv > 15 then Usage_Command
      else case convert_arguments (drop 4 argv)
          (default_conversion\<lparr>co_source_directory := argv ! 2, co_output_path := argv ! 3\<rparr>) of
        Inl e \<Rightarrow> Complain_Command e
      | Inr options \<Rightarrow> Convert_Command options)"

text \<open>A command with one argument.\<close>

definition with_path :: "string list \<Rightarrow> (string \<Rightarrow> command) \<Rightarrow> command" where
  "with_path argv f = (if length argv \<noteq> 3 then Usage_Command else f (argv ! 2))"

text \<open>\<open>argc < 3 || argc > maximum || ((argc - 3) % 2) != 0\<close>.\<close>

definition wrong_count :: "string list \<Rightarrow> nat \<Rightarrow> bool" where
  "wrong_count argv maximum \<longleftrightarrow> length argv < 3 \<or> length argv > maximum \<or> (length argv - 3) mod 2 \<noteq> 0"

text \<open>The token and the iterations of the three smoke commands.\<close>

fun smoke_arguments :: "string list \<Rightarrow> u64 \<Rightarrow> u64 \<Rightarrow> (u64 \<times> u64) option" where
  "smoke_arguments (option # v # rest) token iterations =
     (case parse_positive v of
        None \<Rightarrow> None
      | Some n \<Rightarrow>
          if option \<noteq> ''--token'' \<and> option \<noteq> ''--iters'' then None
          else if option = ''--token'' then smoke_arguments rest n iterations
          else smoke_arguments rest token n)"
| "smoke_arguments _ token iterations = Some (token, iterations)"

definition smoke_command ::
  "string \<Rightarrow> u64 \<Rightarrow> string \<Rightarrow> (string \<Rightarrow> u64 \<Rightarrow> u64 \<Rightarrow> command) \<Rightarrow> string list \<Rightarrow> command" where
  "smoke_command name maximum maximum_text f argv =
     (if wrong_count argv 7 then Usage_Command
      else case smoke_arguments (drop 3 argv) 248044 50 of
        None \<Rightarrow> Complain_Command (''error: invalid '' @ name @ '' option'')
      | Some (token, iterations) \<Rightarrow>
          if iterations > maximum then Complain_Command (''error: '' @ name @ '' iterations exceed '' @ maximum_text)
          else f (argv ! 2) token iterations)"

text \<open>
  The option loops of the benchmarks: named sizes, each in its variable, and the activation mode where
  the command has one.
\<close>

record bench_values =
  bv_size :: "string \<Rightarrow> u64"
  bv_mode :: activation_mode

fun bench_values_of ::
  "string \<Rightarrow> string list \<Rightarrow> bool \<Rightarrow> string list \<Rightarrow> bench_values \<Rightarrow> string + bench_values" where
  "bench_values_of name sizes has_mode (option # v # rest) values =
     (if has_mode \<and> option = ''--activation'' then
        (case parse_activation_mode v of
           None \<Rightarrow> Inl (''error: invalid '' @ name @ '' activation mode'')
         | Some mode \<Rightarrow> bench_values_of name sizes has_mode rest (values\<lparr>bv_mode := mode\<rparr>))
      else if option \<notin> set sizes then Inl (''error: invalid '' @ name @ '' option'')
      else
        (case parse_positive v of
           None \<Rightarrow> Inl (''error: invalid '' @ name @ '' option'')
         | Some n \<Rightarrow> bench_values_of name sizes has_mode rest (values\<lparr>bv_size := (bv_size values)(option := n)\<rparr>)))"
| "bench_values_of name sizes has_mode _ values = Inr values"

definition bench_defaults :: "(string \<times> u64) list \<Rightarrow> bench_values" where
  "bench_defaults sizes = \<lparr> bv_size = (\<lambda>name. case map_of sizes name of Some n \<Rightarrow> n | None \<Rightarrow> 0), bv_mode = fp16 \<rparr>"

definition bench_command ::
  "string \<Rightarrow> (string \<times> u64) list \<Rightarrow> bool \<Rightarrow> (bench_values \<Rightarrow> bool) \<Rightarrow> string \<Rightarrow> (string \<Rightarrow> bench_values \<Rightarrow> command)
    \<Rightarrow> string list \<Rightarrow> command" where
  "bench_command name sizes has_mode out_of_range complaint f argv =
     (if wrong_count argv (3 + 2 * (length sizes + (if has_mode then 1 else 0))) then Usage_Command
      else case bench_values_of name (map fst sizes) has_mode (drop 3 argv) (bench_defaults sizes) of
        Inl e \<Rightarrow> Complain_Command e
      | Inr values \<Rightarrow> if out_of_range values then Complain_Command complaint else f (argv ! 2) values)"

definition decode_command :: "string list \<Rightarrow> command" where
  "decode_command =
     bench_command ''decode-bench'' [(''--token'', 248044), (''--tokens'', 16), (''--context'', 512)] False
       (\<lambda>values. bv_size values ''--token'' \<ge> of_nat vocabulary_size \<or> bv_size values ''--tokens'' > bv_size values ''--context'')
       ''error: decode-bench token or context range is invalid''
       (\<lambda>path values. Decode_Command path (bv_size values ''--token'') (bv_size values ''--tokens'') (bv_size values ''--context''))"

definition block_command :: "string list \<Rightarrow> command" where
  "block_command =
     bench_command ''block-bench'' [(''--token'', 248044), (''--batch'', 8), (''--blocks'', 4), (''--context'', 128)] True
       (\<lambda>values. bv_size values ''--token'' \<ge> of_nat tokenizer_vocabulary_size \<or> bv_size values ''--batch'' > 32
          \<or> (bv_size values ''--blocks'' + 1) * bv_size values ''--batch'' > bv_size values ''--context''
          \<or> bv_size values ''--context'' > of_nat kMaximumContextTokens)
       ''error: block-bench token, batch, or context range is invalid''
       (\<lambda>path values. Block_Command path (bv_size values ''--token'') (bv_size values ''--batch'') (bv_size values ''--blocks'')
          (bv_size values ''--context'') (bv_mode values))"

definition speculative_command :: "string list \<Rightarrow> command" where
  "speculative_command =
     bench_command ''spec-bench'' [(''--token'', 248044), (''--drafts'', 3), (''--tokens'', 32), (''--context'', 128)] True
       (\<lambda>values. bv_size values ''--token'' \<ge> of_nat tokenizer_vocabulary_size \<or> bv_size values ''--drafts'' > 31
          \<or> bv_size values ''--tokens'' + bv_size values ''--drafts'' + 1 > bv_size values ''--context''
          \<or> bv_size values ''--context'' > of_nat kMaximumContextTokens)
       ''error: spec-bench token, draft, or context range is invalid''
       (\<lambda>path values. Speculative_Command path (bv_size values ''--token'') (bv_size values ''--drafts'') (bv_size values ''--tokens'')
          (bv_size values ''--context'') (bv_mode values))"

definition mtp_command :: "string list \<Rightarrow> command" where
  "mtp_command =
     bench_command ''mtp-bench'' [(''--token'', 248044), (''--steps'', 32), (''--context'', 512)] True
       (\<lambda>values. bv_size values ''--token'' \<ge> of_nat tokenizer_vocabulary_size
          \<or> bv_size values ''--steps'' + 1 > bv_size values ''--context'')
       ''error: MTP benchmark token or context range is invalid''
       (\<lambda>path values. Mtp_Command path (bv_size values ''--token'') (bv_size values ''--steps'') (bv_size values ''--context'')
          (bv_mode values))"

record generate_values =
  gv_prompt :: string
  gv_maximum_tokens :: u64
  gv_context :: u64
  gv_drafts :: u64
  gv_mode :: activation_mode

definition generate_argument :: "string \<Rightarrow> string \<Rightarrow> generate_values \<Rightarrow> string + generate_values" where
  "generate_argument option v values =
     (if option = ''--prompt'' then Inr (values\<lparr>gv_prompt := v\<rparr>)
      else if option = ''--max-tokens'' then
        (case parse_positive v of
           None \<Rightarrow> Inl ''error: invalid maximum token count'' | Some n \<Rightarrow> Inr (values\<lparr>gv_maximum_tokens := n\<rparr>))
      else if option = ''--context'' then
        (case parse_positive v of None \<Rightarrow> Inl ''error: invalid context length'' | Some n \<Rightarrow> Inr (values\<lparr>gv_context := n\<rparr>))
      else if option = ''--activation'' then
        (case parse_activation_mode v of
           None \<Rightarrow> Inl ''error: invalid generate activation mode'' | Some mode \<Rightarrow> Inr (values\<lparr>gv_mode := mode\<rparr>))
      else if option = ''--drafts'' then
        (case parse_nonnegative v of
           None \<Rightarrow> Inl ''error: invalid speculative draft count''
         | Some n \<Rightarrow> if n > 31 then Inl ''error: invalid speculative draft count'' else Inr (values\<lparr>gv_drafts := n\<rparr>))
      else Inl ''error: invalid generate option'')"

fun generate_arguments :: "string list \<Rightarrow> generate_values \<Rightarrow> string + generate_values" where
  "generate_arguments (option # v # rest) values =
     (case generate_argument option v values of
        Inl e \<Rightarrow> Inl e
      | Inr values \<Rightarrow> generate_arguments rest values)"
| "generate_arguments _ values = Inr values"

definition default_generate :: generate_values where
  "default_generate = \<lparr> gv_prompt = [], gv_maximum_tokens = 32, gv_context = 4096, gv_drafts = 4, gv_mode = int4 \<rparr>"

definition generate_command :: "string list \<Rightarrow> command" where
  "generate_command argv =
     (if length argv < 5 \<or> length argv > 13 \<or> (length argv - 3) mod 2 \<noteq> 0 then Usage_Command
      else case generate_arguments (drop 3 argv) default_generate of
        Inl e \<Rightarrow> Complain_Command e
      | Inr values \<Rightarrow>
          if gv_prompt values = [] \<or> gv_maximum_tokens values > gv_context values
            \<or> gv_context values > of_nat kMaximumContextTokens
          then Complain_Command ''error: prompt or generation range is invalid''
          else Generate_Command (argv ! 2) (gv_prompt values) (gv_maximum_tokens values) (gv_context values) (gv_mode values)
            (gv_drafts values))"

text \<open>\<open>main\<close>; \<open>argv\<close> begins with the name of the program.\<close>

definition parse_command :: "string list \<Rightarrow> command" where
  "parse_command argv =
     (if length argv < 2 then Usage_Command
      else let command = argv ! 1 in
        if command = ''probe'' then Probe_Command
        else if command = ''inspect'' then with_path argv Inspect_Command
        else if command = ''verify-source'' then with_path argv Verify_Command
        else if command = ''inspect-safetensors'' then with_path argv Inspect_Safetensors_Command
        else if command = ''convert'' then convert_command argv
        else if command = ''load-check'' then with_path argv Load_Command
        else if command = ''model-smoke'' then smoke_command ''model-smoke'' 10000 ''10000'' Model_Smoke_Command argv
        else if command = ''gdn-smoke'' then smoke_command ''gdn-smoke'' 10000 ''10000'' Gdn_Smoke_Command argv
        else if command = ''attention-smoke'' then smoke_command ''attention-smoke'' 4096 ''4096'' Attention_Smoke_Command argv
        else if command = ''decode-bench'' then decode_command argv
        else if command = ''block-bench'' then block_command argv
        else if command = ''spec-bench'' then speculative_command argv
        else if command = ''tokenizer-check'' then
          (if length argv \<noteq> 4 then Usage_Command else Tokenizer_Command (argv ! 2) (argv ! 3))
        else if command = ''generate'' then generate_command argv
        else if command = ''mtp-bench'' then mtp_command argv
        else if command = ''bench-gemv'' then
          (case parse_bench_options argv of Inl e \<Rightarrow> Fail_Command e | Inr options \<Rightarrow> Bench_Command options)
        else if command = ''--version'' \<or> command = ''version'' then Version_Command
        else Usage_Command)"

end
