(* ===== verification/HttpServer.thy ===== *)
theory HttpServer
  imports Tokenizer PosixIO SessionCreate
begin

text \<open>
  \<^verbatim>\<open>src/server/main.cpp\<close>, what surrounds the generation: the command line, the sockets, reading a
  request, the chat request and the texts of the answers. The kernel is two lists of answers, one
  for the \<open>recv\<close> and one for the \<open>send\<close> calls of a connection; a call after the end of its list
  fails, so a list is one run of any length. A connection keeps the bytes that were sent.
\<close>

section \<open>Options\<close>

definition kServedModelId :: string where "kServedModelId = ''qwen3.8-27b-gfx1200''"
definition kEndToken :: nat where "kEndToken = 248044"
definition kEndOfTextToken :: nat where "kEndOfTextToken = 248046"
definition kMaximumHeaderBytes :: nat where "kMaximumHeaderBytes = 64 * 1024"
definition kMaximumBodyBytes :: nat where "kMaximumBodyBytes = 1024 * 1024"

record server_options =
  so_artifact :: string
  so_host :: string
  so_port :: u16
  so_context :: nat
  so_maximum_output_tokens :: nat
  so_draft_count :: nat
  so_activation :: activation_mode

definition default_options :: server_options where
  "default_options = \<lparr> so_artifact = '''', so_host = ''127.0.0.1'', so_port = 8000, so_context = 4096,
     so_maximum_output_tokens = 1024, so_draft_count = 4, so_activation = int4 \<rparr>"

text \<open>\<open>std::from_chars\<close> reads the longest run of digits and fails on an empty run or an overflow.\<close>

definition parse_size :: "string \<Rightarrow> nat option" where
  "parse_size t =
     (if t = [] then None
      else let digits = takeWhile is_digit t; parsed = of_digits 0 digits in
        if digits = [] \<or> parsed > max_u64 \<or> digits \<noteq> t then None else Some parsed)"

definition parse_activation :: "string \<Rightarrow> activation_mode option" where
  "parse_activation v =
     (if v = ''f16'' then Some fp16
      else if v = ''a8'' then Some int8
      else if v = ''a4'' then Some int4
      else if v = ''a4w2'' then Some int4_w2
      else if v = ''a4w4'' then Some int4_w4
      else None)"

definition parse_option :: "string \<Rightarrow> string \<Rightarrow> server_options \<Rightarrow> server_options option" where
  "parse_option name v options =
     (if name = ''--host'' then Some (options\<lparr>so_host := v\<rparr>)
      else if name = ''--activation'' then
        map_option (\<lambda>mode. options\<lparr>so_activation := mode\<rparr>) (parse_activation v)
      else if name = ''--port'' then
        (case parse_size v of
           None \<Rightarrow> None
         | Some parsed \<Rightarrow> if parsed = 0 \<or> parsed > 65535 then None else Some (options\<lparr>so_port := of_nat parsed\<rparr>))
      else if name = ''--context'' then
        (case parse_size v of
           None \<Rightarrow> None
         | Some parsed \<Rightarrow>
             if parsed = 0 \<or> parsed > kMaximumContextTokens then None else Some (options\<lparr>so_context := parsed\<rparr>))
      else if name = ''--max-output-tokens'' then
        (case parse_size v of
           None \<Rightarrow> None
         | Some parsed \<Rightarrow> if parsed = 0 then None else Some (options\<lparr>so_maximum_output_tokens := parsed\<rparr>))
      else if name = ''--drafts'' then
        (case parse_size v of
           None \<Rightarrow> None
         | Some parsed \<Rightarrow> if parsed > 31 then None else Some (options\<lparr>so_draft_count := parsed\<rparr>))
      else None)"

fun parse_pairs :: "string list \<Rightarrow> server_options \<Rightarrow> server_options option" where
  "parse_pairs (name # v # rest) options = Option.bind (parse_option name v options) (parse_pairs rest)"
| "parse_pairs _ options = Some options"

text \<open>\<open>argv\<close> with the program's name first.\<close>

definition parse_options :: "string list \<Rightarrow> server_options option" where
  "parse_options argv =
     (if length argv < 2 \<or> (length argv - 2) mod 2 \<noteq> 0 then None
      else case parse_pairs (drop 2 argv) (default_options\<lparr>so_artifact := argv ! 1\<rparr>) of
        None \<Rightarrow> None
      | Some options \<Rightarrow> if so_maximum_output_tokens options \<le> so_context options then Some options else None)"

section \<open>Sockets\<close>

text \<open>\<open>Received []\<close> is the end of the stream, the count 0.\<close>

datatype recv_answer = Received string | Recv_Interrupted | Recv_Failed

fun recv :: "nat \<Rightarrow> recv_answer list \<Rightarrow> recv_answer \<times> recv_answer list" where
  "recv n [] = (Recv_Failed, [])"
| "recv n (Received s # rest) =
     (Received (take n s), if length s \<le> n then rest else Received (drop n s) # rest)"
| "recv n (a # rest) = (a, rest)"

record connection =
  cn_incoming :: "recv_answer list"
  cn_outgoing :: "write_response list"
  cn_sent :: string

fun send_loop :: "write_response list \<Rightarrow> string \<Rightarrow> string \<Rightarrow> bool \<times> write_response list \<times> string" where
  "send_loop rs [] sent = (True, rs, sent)"
| "send_loop [] (c # cs) sent = (False, [], sent)"
| "send_loop (Interrupted # rs) (c # cs) sent = send_loop rs (c # cs) sent"
| "send_loop (Refuses e # rs) (c # cs) sent = (False, rs, sent)"
| "send_loop (Accepts k # rs) (c # cs) sent =
     (let written = min k (length (c # cs)) in
      if written > 0 then send_loop rs (drop written (c # cs)) (sent @ take written (c # cs))
      else (False, rs, sent))"

definition send_all :: "string \<Rightarrow> connection \<Rightarrow> bool \<times> connection" where
  "send_all data c =
     (let (sent, rs, out) = send_loop (cn_outgoing c) data (cn_sent c)
      in (sent, c\<lparr>cn_outgoing := rs, cn_sent := out\<rparr>))"

text \<open>\<open>send_all(a) && send_all(b) && \<dots>\<close>.\<close>

fun send_each :: "string list \<Rightarrow> connection \<Rightarrow> bool \<times> connection" where
  "send_each [] c = (True, c)"
| "send_each (data # rest) c = (let (sent, c) = send_all data c in if sent then send_each rest c else (False, c))"

definition crlf :: string where "crlf = [CHR 0x0D, CHR 0x0A]"

definition response_header :: "nat \<Rightarrow> string \<Rightarrow> string \<Rightarrow> nat \<Rightarrow> string" where
  "response_header code reason content_type body_bytes =
     ''HTTP/1.1 '' @ to_string code @ '' '' @ reason @ crlf @ ''Content-Type: '' @ content_type
     @ crlf @ ''Content-Length: '' @ to_string body_bytes
     @ crlf @ ''Connection: close'' @ crlf @ ''X-Content-Type-Options: nosniff'' @ crlf @ crlf"

definition send_response :: "nat \<Rightarrow> string \<Rightarrow> string \<Rightarrow> string \<Rightarrow> connection \<Rightarrow> bool \<times> connection" where
  "send_response code reason content_type body =
     send_each [response_header code reason content_type (length body), body]"

definition send_json :: "nat \<Rightarrow> string \<Rightarrow> string \<Rightarrow> connection \<Rightarrow> bool \<times> connection" where
  "send_json code reason = send_response code reason ''application/json; charset=utf-8''"

definition send_sse_headers :: "connection \<Rightarrow> bool \<times> connection" where
  "send_sse_headers =
     send_all (''HTTP/1.1 200 OK'' @ crlf
       @ ''Content-Type: text/event-stream; charset=utf-8'' @ crlf
       @ ''Cache-Control: no-cache'' @ crlf
       @ ''Connection: close'' @ crlf
       @ ''X-Accel-Buffering: no'' @ crlf
       @ ''X-Content-Type-Options: nosniff'' @ crlf @ crlf)"

definition newline :: string where "newline = [CHR 0x0A]"

definition send_sse_data :: "string \<Rightarrow> connection \<Rightarrow> bool \<times> connection" where
  "send_sse_data json = send_each [''data: '', json, newline @ newline]"

section \<open>Texts\<close>

definition hex_digit :: "nat \<Rightarrow> char" where
  "hex_digit n = ''0123456789abcdef'' ! n"

definition escape_char :: "char \<Rightarrow> string" where
  "escape_char c =
     (if c = CHR 0x22 then [CHR 0x5C, CHR 0x22]
      else if c = CHR 0x5C then [CHR 0x5C, CHR 0x5C]
      else if c = CHR 0x08 then [CHR 0x5C, CHR ''b'']
      else if c = CHR 0x0C then [CHR 0x5C, CHR ''f'']
      else if c = CHR 0x0A then [CHR 0x5C, CHR ''n'']
      else if c = CHR 0x0D then [CHR 0x5C, CHR ''r'']
      else if c = CHR 0x09 then [CHR 0x5C, CHR ''t'']
      else if of_char c < (0x20 :: nat)
      then [CHR 0x5C] @ ''u00'' @ [hex_digit (of_char c div 16), hex_digit (of_char c mod 16)]
      else [c])"

definition json_escape :: "string \<Rightarrow> string" where
  "json_escape input = concat (map escape_char input)"

text \<open>The JSON fragments with quotation marks: \<open>quoted s\<close> is the string literal of \<open>s\<close>.\<close>

definition quote :: string where "quote = [CHR 0x22]"

definition quoted :: "string \<Rightarrow> string" where
  "quoted s = quote @ json_escape s @ quote"

definition json_key :: "string \<Rightarrow> string" where
  "json_key name = quote @ name @ quote @ '':''"

definition error_json :: "string \<Rightarrow> string \<Rightarrow> string" where
  "error_json message code =
     ''{'' @ json_key ''error'' @ ''{'' @ json_key ''message'' @ quoted message
     @ '','' @ json_key ''type'' @ quote @ ''invalid_request_error'' @ quote @ '','' @ json_key ''param'' @ ''null,''
     @ json_key ''code'' @ quoted code @ ''}}''"

definition lowercase :: "string \<Rightarrow> string" where
  "lowercase input = map (\<lambda>c. if char_in CHR ''A'' CHR ''Z'' c then char_of (of_char c + 32 :: nat) else c) input"

section \<open>Reading a request\<close>

record http_request =
  hr_method :: string
  hr_path :: string
  hr_body :: string

definition pending :: "recv_answer list \<Rightarrow> nat" where
  "pending answers = sum_list (map (\<lambda>a. case a of Received s \<Rightarrow> length s + 1 | _ \<Rightarrow> 1) answers)"

lemma pending_recv:
  "0 < n \<Longrightarrow> recv n answers = (a, rest) \<Longrightarrow> answers \<noteq> [] \<Longrightarrow> pending rest < pending answers"
  by (cases "(n, answers)" rule: recv.cases) (auto simp: pending_def)

lemma recv_progress:
  "(Received s, rest) = recv n answers \<Longrightarrow> 0 < n \<Longrightarrow> pending rest < pending answers"
  "(Recv_Interrupted, rest) = recv n answers \<Longrightarrow> 0 < n \<Longrightarrow> pending rest < pending answers"
  by (cases answers; auto dest: pending_recv [OF _ sym])+

text \<open>The bytes up to the end of the headers and what follows them in the buffer.\<close>

function read_headers ::
  "recv_answer list \<Rightarrow> string \<Rightarrow> (string + string \<times> nat) \<times> recv_answer list" where
  "read_headers answers bytes =
     (case recv 4096 answers of
        (Recv_Interrupted, answers') \<Rightarrow> read_headers answers' bytes
      | (Recv_Failed, answers') \<Rightarrow> (Inl ''cannot read HTTP request'', answers')
      | (Received s, answers') \<Rightarrow>
          if s = [] then (Inl ''connection closed before the HTTP headers completed'', answers')
          else if length (bytes @ s) > kMaximumHeaderBytes then (Inl ''HTTP headers exceed 64 KiB'', answers')
          else case find_sub (crlf @ crlf) (bytes @ s) of
            None \<Rightarrow> read_headers answers' (bytes @ s)
          | Some header_end \<Rightarrow> (Inr (bytes @ s, header_end), answers'))"
  by pat_completeness auto
termination
  by (relation "measure (\<lambda>(answers, bytes). pending answers)") (auto dest: recv_progress)

declare read_headers.simps [simp del]

definition request_line :: "string \<Rightarrow> string + string \<times> string" where
  "request_line line =
     (let first_space = find_sub '' '' line;
          second_space = Option.bind first_space (\<lambda>first. find_from '' '' (first + 1) line)
      in case (first_space, second_space) of
        (Some first, Some second) \<Rightarrow>
          let path = substr (first + 1) (second - first - 1) line in
          Inr (take first line, case find_sub ''?'' path of Some query \<Rightarrow> take query path | None \<Rightarrow> path)
      | _ \<Rightarrow> Inl ''malformed HTTP request line'')"

definition is_blank :: "char \<Rightarrow> bool" where
  "is_blank c \<longleftrightarrow> c = CHR '' '' \<or> c = CHR 0x09"

text \<open>One header line: the content length after it.\<close>

definition header_line :: "nat \<Rightarrow> string \<Rightarrow> string + nat" where
  "header_line content_length header =
     (case find_sub '':'' header of
        None \<Rightarrow> Inl ''malformed HTTP header''
      | Some colon \<Rightarrow>
          let name = lowercase (take colon header); v = dropWhile is_blank (drop (colon + 1) header) in
          if name = ''content-length'' \<and> parse_size v = None then Inl ''invalid Content-Length header''
          else
            let content_length = (if name = ''content-length'' then the (parse_size v) else content_length) in
            if name = ''transfer-encoding'' \<and> lowercase v \<noteq> ''identity''
            then Inl ''chunked request bodies are not supported''
            else Inr content_length)"

function header_lines :: "string \<Rightarrow> nat \<Rightarrow> nat \<Rightarrow> nat \<Rightarrow> string + nat" where
  "header_lines bytes header_end cursor content_length =
     (if cursor < header_end then
        case find_from crlf cursor bytes of
          None \<Rightarrow> Inr content_length
        | Some stop \<Rightarrow>
            if stop > header_end then Inr content_length
            else case header_line content_length (substr cursor (stop - cursor) bytes) of
              Inl e \<Rightarrow> Inl e
            | Inr content_length \<Rightarrow> header_lines bytes header_end (stop + 2) content_length
      else Inr content_length)"
  by pat_completeness auto
termination
  by (relation "measure (\<lambda>(bytes, header_end, cursor, content_length). header_end - cursor)")
    (auto simp: find_from_def split: if_splits)

declare header_lines.simps [simp del]

function read_body :: "recv_answer list \<Rightarrow> string \<Rightarrow> nat \<Rightarrow> nat \<Rightarrow> (string + string) \<times> recv_answer list" where
  "read_body answers bytes body_start content_length =
     (if length bytes - body_start < content_length then
        let needed = min 8192 (content_length - (length bytes - body_start)) in
        case recv needed answers of
          (Recv_Interrupted, answers') \<Rightarrow> read_body answers' bytes body_start content_length
        | (Recv_Failed, answers') \<Rightarrow> (Inl ''cannot read HTTP request body'', answers')
        | (Received s, answers') \<Rightarrow>
            if s = [] then (Inl ''connection closed before the HTTP body completed'', answers')
            else read_body answers' (bytes @ s) body_start content_length
      else (Inr (substr body_start content_length bytes), answers))"
  by pat_completeness auto
termination
  by (relation "measure (\<lambda>(answers, bytes, body_start, content_length). pending answers)")
    (auto dest: recv_progress)

declare read_body.simps [simp del]

definition read_http_request :: "recv_answer list \<Rightarrow> (string + http_request) \<times> recv_answer list" where
  "read_http_request answers =
     (case read_headers answers [] of
        (Inl e, answers) \<Rightarrow> (Inl e, answers)
      | (Inr (bytes, header_end), answers) \<Rightarrow>
          (case find_sub crlf bytes of
             None \<Rightarrow> (Inl ''malformed HTTP request line'', answers)
           | Some line_end \<Rightarrow>
               (case request_line (take line_end bytes) of
                  Inl e \<Rightarrow> (Inl e, answers)
                | Inr (verb, path) \<Rightarrow>
                    (case header_lines bytes header_end (line_end + 2) 0 of
                       Inl e \<Rightarrow> (Inl e, answers)
                     | Inr content_length \<Rightarrow>
                         if content_length > kMaximumBodyBytes then (Inl ''HTTP body exceeds 1 MiB'', answers)
                         else
                           (case read_body answers bytes (header_end + 4) content_length of
                              (Inl e, answers) \<Rightarrow> (Inl e, answers)
                            | (Inr body, answers) \<Rightarrow>
                                (Inr \<lparr> hr_method = verb, hr_path = path, hr_body = body \<rparr>, answers))))))"

section \<open>The chat request\<close>

record chat_request =
  cq_rendered_prompt :: string
  cq_model :: string
  cq_maximum_tokens :: nat
  cq_stream :: bool
  cq_include_usage :: bool

definition default_request :: chat_request where
  "default_request = \<lparr> cq_rendered_prompt = '''', cq_model = kServedModelId, cq_maximum_tokens = 256,
     cq_stream = False, cq_include_usage = False \<rparr>"

definition get_bool :: "simdjson \<Rightarrow> json \<Rightarrow> string + bool" where
  "get_bool js j = (case j of JBool b \<Rightarrow> Inr b | _ \<Rightarrow> Inl (js_incorrect_type js))"

text \<open>\<open>error() == NO_SUCH_FIELD\<close> and \<open>!error()\<close> of \<open>document[name]\<close>.\<close>

definition no_such_field :: "string \<Rightarrow> json \<Rightarrow> bool" where
  "no_such_field name j \<longleftrightarrow> (case j of JObject fs \<Rightarrow> find (\<lambda>(k, v). k = name) fs = None | _ \<Rightarrow> False)"

definition has_field :: "simdjson \<Rightarrow> string \<Rightarrow> json \<Rightarrow> bool" where
  "has_field js name j \<longleftrightarrow> (case at_key js name j of Inl e \<Rightarrow> False | Inr v \<Rightarrow> True)"

text \<open>A getter with the server's own error text.\<close>

fun or_text :: "string \<Rightarrow> string + 'a \<Rightarrow> string + 'a" where
  "or_text e (Inl _) = Inl e"
| "or_text e (Inr x) = Inr x"

definition require :: "bool \<Rightarrow> string \<Rightarrow> string + unit" where
  "require ok e = (if ok then Inr () else Inl e)"

definition optional_bool :: "simdjson \<Rightarrow> json \<Rightarrow> string \<Rightarrow> bool \<Rightarrow> string + bool" where
  "optional_bool js document name v =
     (if no_such_field name document then Inr v
      else or_text (name @ '' must be a boolean'') (json_bind (at_key js name document) (get_bool js)))"

definition optional_positive_integer :: "simdjson \<Rightarrow> json \<Rightarrow> string \<Rightarrow> nat \<Rightarrow> string + nat" where
  "optional_positive_integer js document name v =
     (if no_such_field name document then Inr v
      else
        or_text (name @ '' must be a positive integer'')
          (json_bind (json_bind (at_key js name document) (get_u64 js)) (\<lambda>parsed.
             if parsed = 0 then Inl '''' else Inr (unat parsed))))"

definition check_model :: "simdjson \<Rightarrow> json \<Rightarrow> string + string" where
  "check_model js document =
     (if has_field js ''model'' document then
        json_bind (or_text ''model must be a string'' (json_bind (at_key js ''model'' document) (get_string js))) (\<lambda>model.
        if model \<noteq> kServedModelId then Inl (''unknown model; use '' @ kServedModelId) else Inr model)
      else Inr kServedModelId)"

definition read_maximum_tokens :: "simdjson \<Rightarrow> server_options \<Rightarrow> json \<Rightarrow> string + nat" where
  "read_maximum_tokens js options document =
     json_bind (optional_positive_integer js document ''max_tokens'' (cq_maximum_tokens default_request)) (\<lambda>maximum.
     json_bind (if no_such_field ''max_tokens'' document
                then optional_positive_integer js document ''max_completion_tokens'' maximum else Inr maximum) (\<lambda>maximum.
     if maximum > so_maximum_output_tokens options
     then Inl (''requested output exceeds the server maximum of '' @ to_string (so_maximum_output_tokens options) @ '' tokens'')
     else Inr maximum))"

definition read_include_usage :: "simdjson \<Rightarrow> json \<Rightarrow> bool \<Rightarrow> string + bool" where
  "read_include_usage js document stream =
     (case at_key js ''stream_options'' document of
        Inl _ \<Rightarrow> Inr False
      | Inr stream_options \<Rightarrow>
          if \<not> stream then Inl ''stream_options requires stream=true''
          else optional_bool js stream_options ''include_usage'' False)"

text \<open>\<open>temperature != 0.0\<close> holds for not-a-number too.\<close>

definition check_sampling :: "simdjson \<Rightarrow> json \<Rightarrow> string + unit" where
  "check_sampling js document =
     json_bind (case at_key js ''temperature'' document of
         Inl _ \<Rightarrow> Inr ()
       | Inr field \<Rightarrow>
           require (case get_double js field of Inl _ \<Rightarrow> False | Inr temperature \<Rightarrow> fp_eq temperature (Fin 0))
             ''this release supports greedy decoding only; set temperature to 0'') (\<lambda>_.
     json_bind (case at_key js ''n'' document of
         Inl _ \<Rightarrow> Inr ()
       | Inr field \<Rightarrow>
           require (case get_u64 js field of Inl _ \<Rightarrow> False | Inr n \<Rightarrow> n = 1) ''this release supports n=1 only'') (\<lambda>_.
     require (\<not> (has_field js ''tools'' document \<or> has_field js ''response_format'' document \<or> has_field js ''stop'' document))
       ''tools, response_format, and custom stop sequences are not implemented''))"

definition read_message :: "simdjson \<Rightarrow> json \<Rightarrow> string + string \<times> string" where
  "read_message js message =
     json_bind (or_text ''every message must contain string role and content fields''
       (json_bind (json_bind (at_key js ''role'' message) (get_string js)) (\<lambda>role.
        json_bind (json_bind (at_key js ''content'' message) (get_string js)) (\<lambda>content. Inr (role, content))))) (\<lambda>(role, content).
     let role = (if role = ''developer'' then ''system'' else role) in
     if role \<noteq> ''system'' \<and> role \<noteq> ''user'' \<and> role \<noteq> ''assistant''
     then Inl ''supported message roles are developer, system, user, and assistant''
     else Inr (role, content))"

fun read_messages :: "simdjson \<Rightarrow> json list \<Rightarrow> string + (string \<times> string) list" where
  "read_messages js [] = Inr []"
| "read_messages js (m # ms) =
     json_bind (read_message js m) (\<lambda>x. json_bind (read_messages js ms) (\<lambda>xs. Inr (x # xs)))"

definition render_message :: "string \<times> string \<Rightarrow> string" where
  "render_message m = ''<|im_start|>'' @ fst m @ newline @ snd m @ ''<|im_end|>'' @ newline"

definition render :: "(string \<times> string) list \<Rightarrow> string" where
  "render messages =
     concat (map render_message messages)
     @ ''<|im_start|>assistant'' @ newline @ ''<think>'' @ newline @ newline @ ''</think>'' @ newline @ newline"

definition messages_error :: string where
  "messages_error = ''messages must be a non-empty array''"

definition parse_chat_request :: "simdjson \<Rightarrow> server_options \<Rightarrow> string \<Rightarrow> string + chat_request" where
  "parse_chat_request js options body =
     json_bind (or_text ''request body is not valid JSON'' (js_parse js body)) (\<lambda>document.
     json_bind (check_model js document) (\<lambda>model.
     json_bind (read_maximum_tokens js options document) (\<lambda>maximum.
     json_bind (optional_bool js document ''stream'' False) (\<lambda>stream.
     json_bind (read_include_usage js document stream) (\<lambda>include_usage.
     json_bind (check_sampling js document) (\<lambda>_.
     json_bind (or_text messages_error (json_bind (at_key js ''messages'' document) (get_array js))) (\<lambda>messages.
     json_bind (require (messages \<noteq> []) messages_error) (\<lambda>_.
     json_bind (read_messages js messages) (\<lambda>turns.
     Inr \<lparr> cq_rendered_prompt = render turns, cq_model = model, cq_maximum_tokens = maximum,
       cq_stream = stream, cq_include_usage = include_usage \<rparr>)))))))))"

end
