(* ===== verification/Generate.thy ===== *)
theory Generate
  imports HttpServer SessionProps
begin

text \<open>
  \<^verbatim>\<open>src/server/main.cpp\<close>: one generation. The prompt is encoded, a session is created and fed the
  prompt, and tokens are decoded, speculatively or one by one, until a terminal token, the request's
  limit or the client's end. The clock readings of the result are only logged and are left out; the
  callback is a function on a client state of its own.
\<close>

section \<open>The code\<close>

definition terminal_token :: "nat \<Rightarrow> bool" where
  "terminal_token token \<longleftrightarrow> token = kEndToken \<or> token = kEndOfTextToken"

definition utf8_length :: "u8 \<Rightarrow> nat option" where
  "utf8_length first =
     (if first < 0x80 then Some 1
      else if first AND 0xE0 = 0xC0 then Some 2
      else if first AND 0xF0 = 0xE0 then Some 3
      else if first AND 0xF8 = 0xF0 then Some 4
      else None)"

definition is_continuation :: "char \<Rightarrow> bool" where
  "is_continuation c \<longleftrightarrow> byte_of_char c AND 0xC0 = 0x80"

function utf8_prefix_loop :: "string \<Rightarrow> nat \<Rightarrow> nat" where
  "utf8_prefix_loop t offset =
     (if offset < length t then
        case utf8_length (byte_of_char (t ! offset)) of
          None \<Rightarrow> offset
        | Some n \<Rightarrow>
            if offset + n > length t then offset
            else if list_all (\<lambda>i. is_continuation (t ! (offset + i))) [1..<n]
            then utf8_prefix_loop t (offset + n)
            else offset
      else offset)"
  by pat_completeness auto
termination
  by (relation "measure (\<lambda>(t, offset). length t - offset)") (auto simp: utf8_length_def split: if_splits)

declare utf8_prefix_loop.simps [simp del]

definition valid_utf8_prefix :: "string \<Rightarrow> nat" where
  "valid_utf8_prefix t = utf8_prefix_loop t 0"

subsection \<open>Consuming tokens\<close>

record generation_result =
  gr_text :: string
  gr_prompt_tokens :: nat
  gr_completion_tokens :: nat
  gr_proposed_drafts :: nat
  gr_accepted_drafts :: nat
  gr_speculative_rounds :: nat
  gr_stopped :: bool
  gr_client_connected :: bool

text \<open>The locals of \<open>generate\<close> that its two closures share.\<close>

record 'k generating =
  gn_output :: generation_result
  gn_next :: nat
  gn_content_tokens :: "nat list"
  gn_sent_bytes :: nat
  gn_client :: 'k

type_synonym 'k text_callback = "(string \<Rightarrow> 'k \<Rightarrow> bool \<times> 'k) option"

definition emit_content :: "qwen_tokenizer \<Rightarrow> 'k text_callback \<Rightarrow> 'k generating \<Rightarrow> status \<times> 'k generating" where
  "emit_content tk on_text g =
     (case tokenizer_decode tk (gn_content_tokens g) of
        Inl e \<Rightarrow> (e, g)
      | Inr decoded \<Rightarrow>
          let g = g\<lparr>gn_output := (gn_output g)\<lparr>gr_text := decoded\<rparr>\<rparr>; valid_bytes = valid_utf8_prefix decoded in
          case on_text of
            None \<Rightarrow> (ok_status, g)
          | Some callback \<Rightarrow>
              if valid_bytes > gn_sent_bytes g then
                let (connected, k) = callback (substr (gn_sent_bytes g) (valid_bytes - gn_sent_bytes g) decoded) (gn_client g);
                    g = g\<lparr>gn_client := k\<rparr>
                in if \<not> connected then (ok_status, g\<lparr>gn_output := (gn_output g)\<lparr>gr_client_connected := False\<rparr>\<rparr>)
                   else (ok_status, g\<lparr>gn_sent_bytes := valid_bytes\<rparr>)
              else (ok_status, g))"

definition consume_token :: "qwen_tokenizer \<Rightarrow> 'k text_callback \<Rightarrow> nat \<Rightarrow> 'k generating \<Rightarrow> status \<times> 'k generating" where
  "consume_token tk on_text token g =
     (let g = g\<lparr> gn_next := token,
            gn_output := (gn_output g)\<lparr>gr_completion_tokens := gr_completion_tokens (gn_output g) + 1\<rparr> \<rparr>
      in if terminal_token token then (ok_status, g\<lparr>gn_output := (gn_output g)\<lparr>gr_stopped := True\<rparr>\<rparr>)
         else emit_content tk on_text (g\<lparr>gn_content_tokens := gn_content_tokens g @ [token]\<rparr>))"

definition finished :: "nat \<Rightarrow> 'k generating \<Rightarrow> bool" where
  "finished maximum g \<longleftrightarrow>
     \<not> gr_client_connected (gn_output g) \<or> gr_stopped (gn_output g) \<or> gr_completion_tokens (gn_output g) = maximum"

fun consume_tokens ::
  "qwen_tokenizer \<Rightarrow> 'k text_callback \<Rightarrow> nat \<Rightarrow> nat list \<Rightarrow> 'k generating \<Rightarrow> status \<times> 'k generating" where
  "consume_tokens tk on_text maximum [] g = (ok_status, g)"
| "consume_tokens tk on_text maximum (token # tokens) g =
     (let (status, g) = consume_token tk on_text token g in
      if \<not> status_ok status then (status, g)
      else if finished maximum g then (ok_status, g)
      else consume_tokens tk on_text maximum tokens g)"

lemma emit_content_completion:
  "emit_content tk on_text g = (st, g') \<Longrightarrow> gr_completion_tokens (gn_output g') = gr_completion_tokens (gn_output g)"
  by (auto simp: emit_content_def Let_def split: sum.splits option.splits prod.splits if_splits)

lemma consume_token_completion:
  "consume_token tk on_text token g = (st, g') \<Longrightarrow> gr_completion_tokens (gn_output g') = gr_completion_tokens (gn_output g) + 1"
  by (auto simp: consume_token_def Let_def split: if_splits dest: emit_content_completion)

lemma consume_tokens_completion:
  "consume_tokens tk on_text maximum tokens g = (st, g') \<Longrightarrow>
    gr_completion_tokens (gn_output g) \<le> gr_completion_tokens (gn_output g')
    \<and> (tokens \<noteq> [] \<longrightarrow> gr_completion_tokens (gn_output g) < gr_completion_tokens (gn_output g'))"
proof (induction tk on_text maximum tokens g rule: consume_tokens.induct)
  case (2 tk on_text maximum token tokens g)
  obtain st1 g1 where c: "consume_token tk on_text token g = (st1, g1)"
    by force
  show ?case
    using "2.prems" "2.IH" [OF c [symmetric] refl] consume_token_completion [OF c] c by (auto split: if_splits)
qed simp

subsection \<open>The session\<close>

definition session_config :: "server_options \<Rightarrow> decode_session_config" where
  "session_config options = \<lparr> dc_maximum_context_tokens = so_context options, dc_activation_mode = so_activation options,
     dc_graph_verifier_batch = (if so_draft_count options = 0 then 0 else so_draft_count options + 1) \<rparr>"

text \<open>The prompt after its first token; each token conditions the proposal layer before the target.\<close>

fun prefill ::
  "'d device \<Rightarrow> bool \<Rightarrow> nat list \<Rightarrow> nat \<Rightarrow> session \<Rightarrow> 'd \<Rightarrow> nat result \<times> session \<times> 'd" where
  "prefill dev drafting [] next_token s d = (Inr next_token, s, d)"
| "prefill dev drafting (token # tokens) next_token s d =
     (let (sync, s, d) = (if drafting then mtp_draft dev s token d else (Inr 0, s, d)) in
      case sync of
        Inl e \<Rightarrow> (Inl e, s, d)
      | Inr _ \<Rightarrow>
          (case greedy_step dev s token d of
             (Inl e, s, d) \<Rightarrow> (Inl e, s, d)
           | (Inr target, s, d) \<Rightarrow> prefill dev drafting tokens target s d))"

definition count_round :: "speculative_step_result \<Rightarrow> 'k generating \<Rightarrow> 'k generating" where
  "count_round r g =
     g\<lparr>gn_output := (gn_output g)
         \<lparr> gr_proposed_drafts := gr_proposed_drafts (gn_output g) + sr_proposed_drafts r,
           gr_accepted_drafts := gr_accepted_drafts (gn_output g) + sr_accepted_drafts r,
           gr_speculative_rounds := gr_speculative_rounds (gn_output g) + 1 \<rparr>\<rparr>"

lemma count_round_completion [simp]:
  "gr_completion_tokens (gn_output (count_round r g)) = gr_completion_tokens (gn_output g)"
  by (simp add: count_round_def)

lemma speculative_tokens: "speculative_step dev s t n d = (Inr r, s', d') \<Longrightarrow> sr_tokens r \<noteq> []"
  by (erule speculative_step_succeeds) auto

definition as_result :: "status \<Rightarrow> unit result" where
  "as_result st = (if status_ok st then Inr () else Inl st)"

text \<open>One iteration of the loop.\<close>

definition decode_round ::
  "'d device \<Rightarrow> qwen_tokenizer \<Rightarrow> 'k text_callback \<Rightarrow> nat \<Rightarrow> nat \<Rightarrow> session \<Rightarrow> 'd \<Rightarrow> 'k generating
    \<Rightarrow> unit result \<times> session \<times> 'd \<times> 'k generating" where
  "decode_round dev tk on_text draft_count maximum s d g =
     (let remaining = maximum - gr_completion_tokens (gn_output g) in
      if draft_count = 0 \<or> remaining = 1 then
        case greedy_step dev s (gn_next g) d of
          (Inl e, s, d) \<Rightarrow> (Inl e, s, d, g)
        | (Inr token, s, d) \<Rightarrow> (let (status, g) = consume_token tk on_text token g in (as_result status, s, d, g))
      else
        case speculative_step dev s (gn_next g) (min draft_count (remaining - 1)) d of
          (Inl e, s, d) \<Rightarrow> (Inl e, s, d, g)
        | (Inr r, s, d) \<Rightarrow>
            (let (status, g) = consume_tokens tk on_text maximum (sr_tokens r) (count_round r g) in (as_result status, s, d, g)))"

lemma decode_round_completion:
  "decode_round dev tk on_text draft_count maximum s d g = (Inr u, s', d', g') \<Longrightarrow>
    gr_completion_tokens (gn_output g) < gr_completion_tokens (gn_output g')"
  by (auto simp: decode_round_def Let_def split: if_splits sum.splits prod.splits
      dest!: consume_token_completion consume_tokens_completion speculative_tokens)

function decode_loop ::
  "'d device \<Rightarrow> qwen_tokenizer \<Rightarrow> 'k text_callback \<Rightarrow> nat \<Rightarrow> nat \<Rightarrow> session \<Rightarrow> 'd \<Rightarrow> 'k generating
    \<Rightarrow> unit result \<times> session \<times> 'd \<times> 'k generating" where
  "decode_loop dev tk on_text draft_count maximum s d g =
     (if gr_completion_tokens (gn_output g) < maximum \<and> gr_client_connected (gn_output g) \<and> \<not> gr_stopped (gn_output g) then
        case decode_round dev tk on_text draft_count maximum s d g of
          (Inl e, s, d, g) \<Rightarrow> (Inl e, s, d, g)
        | (Inr _, s, d, g) \<Rightarrow> decode_loop dev tk on_text draft_count maximum s d g
      else (Inr (), s, d, g))"
  by pat_completeness auto
termination
  by (relation "measure (\<lambda>(dev, tk, on_text, draft_count, maximum, s, d, g). maximum - gr_completion_tokens (gn_output g))")
    (auto dest!: decode_round_completion [OF sym])

declare decode_loop.simps [simp del]

definition generate_start :: "nat list \<Rightarrow> 'k \<Rightarrow> 'k generating" where
  "generate_start prompt_tokens k = \<lparr> gn_output = \<lparr> gr_text = '''', gr_prompt_tokens = length prompt_tokens,
       gr_completion_tokens = 0, gr_proposed_drafts = 0, gr_accepted_drafts = 0, gr_speculative_rounds = 0,
       gr_stopped = False, gr_client_connected = True \<rparr>,
     gn_next = 0, gn_content_tokens = [], gn_sent_bytes = 0, gn_client = k \<rparr>"

text \<open>The body of \<open>generate\<close> after the session was created.\<close>

definition generate_session ::
  "'d device \<Rightarrow> qwen_tokenizer \<Rightarrow> server_options \<Rightarrow> nat \<Rightarrow> 'k text_callback \<Rightarrow> nat list \<Rightarrow> session \<Rightarrow> 'd \<Rightarrow> 'k
    \<Rightarrow> generation_result result \<times> session \<times> 'd \<times> 'k" where
  "generate_session dev tk options maximum on_text prompt_tokens s d k =
     (case greedy_step dev s (hd prompt_tokens) d of
        (Inl e, s, d) \<Rightarrow> (Inl e, s, d, k)
      | (Inr first, s, d) \<Rightarrow>
          (case prefill dev (so_draft_count options \<noteq> 0) (tl prompt_tokens) first s d of
             (Inl e, s, d) \<Rightarrow> (Inl e, s, d, k)
           | (Inr next_token, s, d) \<Rightarrow>
               let (status, g) = consume_token tk on_text next_token (generate_start prompt_tokens k) in
               if \<not> status_ok status then (Inl status, s, d, gn_client g)
               else
                 case decode_loop dev tk on_text (so_draft_count options) maximum s d g of
                   (Inl e, s, d, g) \<Rightarrow> (Inl e, s, d, gn_client g)
                 | (Inr _, s, d, g) \<Rightarrow> (Inr (gn_output g), s, d, gn_client g)))"

text \<open>What the server was started with: the loaded model, its tokenizer and the libraries below it.\<close>

record 'd serving =
  sv_libraries :: text_libraries
  sv_tokenizer :: qwen_tokenizer
  sv_runtime :: create_runtime
  sv_engine :: engine
  sv_device :: "'d device"
  sv_options :: server_options

text \<open>The result with the allocations of the device, its memory and the client afterwards; the session is
  destroyed on every path that created it. \<open>None\<close>: the encoder does not return.\<close>

definition generate ::
  "'d serving \<Rightarrow> chat_request \<Rightarrow> 'k text_callback \<Rightarrow> gpu \<Rightarrow> 'd \<Rightarrow> 'k
    \<Rightarrow> (generation_result result \<times> gpu \<times> 'd \<times> 'k) option" where
  "generate sv request on_text g d k =
     (case tokenizer_encode (sv_libraries sv) (sv_tokenizer sv) (cq_rendered_prompt request) of
        None \<Rightarrow> None
      | Some (Inl e) \<Rightarrow> Some (Inl e, g, d, k)
      | Some (Inr prompt_tokens) \<Rightarrow>
          if prompt_tokens = [] \<or> length prompt_tokens + cq_maximum_tokens request > so_context (sv_options sv)
          then Some (Err invalid_argument ''rendered messages and requested output exceed the server context'', g, d, k)
          else
            case session_create (sv_runtime sv) (sv_engine sv) (session_config (sv_options sv)) g of
              (Inl e, g) \<Rightarrow> Some (Inl e, g, d, k)
            | (Inr (s, offsets), g) \<Rightarrow>
                let (r, s, d, k) = generate_session (sv_device sv) (sv_tokenizer sv) (sv_options sv)
                      (cq_maximum_tokens request) on_text prompt_tokens s d k
                in Some (r, session_destroy g, d, k))"

end
