(* ===== verification/Server.thy ===== *)
theory Server
  imports Generate
begin

text \<open>
  \<^verbatim>\<open>src/server/main.cpp\<close>: the answers of the server, one connection, the start and the accept loop.
  Clock readings and the answers of \<open>accept\<close> are arguments; the log on the standard streams and the
  socket options are left out. The server handles one connection at a time, so its state is the
  device, the device's memory and the counter of the request identifiers.
\<close>

section \<open>Answers\<close>

definition request_id :: "int \<Rightarrow> nat \<Rightarrow> string" where
  "request_id seconds counter = ''chatcmpl-gfx-'' @ int_to_string seconds @ ''-'' @ to_string counter"

definition usage_json :: "generation_result \<Rightarrow> string" where
  "usage_json r =
     json_key ''usage'' @ ''{'' @ json_key ''prompt_tokens'' @ to_string (gr_prompt_tokens r)
     @ '','' @ json_key ''completion_tokens'' @ to_string (gr_completion_tokens r)
     @ '','' @ json_key ''total_tokens'' @ to_string (gr_prompt_tokens r + gr_completion_tokens r) @ ''}}''"

text \<open>The opening fields of the three objects of an answer.\<close>

definition object_head :: "string \<Rightarrow> string \<Rightarrow> int \<Rightarrow> chat_request \<Rightarrow> string" where
  "object_head kind ident created request =
     ''{'' @ json_key ''id'' @ quoted ident @ '','' @ json_key ''object'' @ quote @ kind @ quote
     @ '','' @ json_key ''created'' @ int_to_string created @ '','' @ json_key ''model'' @ quoted (cq_model request)"

definition finish_reason :: "generation_result \<Rightarrow> string" where
  "finish_reason r = (if gr_stopped r then ''stop'' else ''length'')"

definition completion_json :: "string \<Rightarrow> int \<Rightarrow> chat_request \<Rightarrow> generation_result \<Rightarrow> string" where
  "completion_json ident created request r =
     object_head ''chat.completion'' ident created request @ '','' @ json_key ''choices'' @ ''[{'' @ json_key ''index'' @ ''0,''
     @ json_key ''message'' @ ''{'' @ json_key ''role'' @ quote @ ''assistant'' @ quote @ '','' @ json_key ''content''
     @ quoted (gr_text r) @ '','' @ json_key ''refusal'' @ ''null},'' @ json_key ''logprobs'' @ ''null,''
     @ json_key ''finish_reason'' @ quote @ finish_reason r @ quote @ ''}],'' @ usage_json r"

definition stream_chunk :: "string \<Rightarrow> int \<Rightarrow> chat_request \<Rightarrow> string \<Rightarrow> bool \<Rightarrow> string \<Rightarrow> string" where
  "stream_chunk ident created request delta include_role reason =
     object_head ''chat.completion.chunk'' ident created request @ '','' @ json_key ''choices'' @ ''[{'' @ json_key ''index'' @ ''0,''
     @ json_key ''delta'' @ ''{''
     @ (if include_role then json_key ''role'' @ quote @ ''assistant'' @ quote else [])
     @ (if delta \<noteq> [] then (if include_role then '','' else []) @ json_key ''content'' @ quoted delta else [])
     @ ''},'' @ json_key ''logprobs'' @ ''null,'' @ json_key ''finish_reason''
     @ (if reason = [] then ''null'' else quote @ reason @ quote) @ ''}],'' @ json_key ''usage'' @ ''null}''"

definition stream_usage :: "string \<Rightarrow> int \<Rightarrow> chat_request \<Rightarrow> generation_result \<Rightarrow> string" where
  "stream_usage ident created request r =
     object_head ''chat.completion.chunk'' ident created request @ '','' @ json_key ''choices'' @ ''[],'' @ usage_json r"

definition stream_end :: string where
  "stream_end = ''data: [DONE]'' @ newline @ newline"

section \<open>A chat completion\<close>

record 'd server_state =
  st_gpu :: gpu
  st_memory :: 'd
  st_counter :: nat

text \<open>The callback of a streamed answer sends one event for each piece of text.\<close>

definition stream_callback :: "string \<Rightarrow> int \<Rightarrow> chat_request \<Rightarrow> connection text_callback" where
  "stream_callback ident created request =
     Some (\<lambda>delta. send_sse_data (stream_chunk ident created request delta False ''''))"

text \<open>What follows the generation of a streamed answer.\<close>

definition finish_stream ::
  "string \<Rightarrow> int \<Rightarrow> chat_request \<Rightarrow> generation_result result \<Rightarrow> connection \<Rightarrow> connection" where
  "finish_stream ident created request r c =
     (case r of
        Inl e \<Rightarrow> snd (send_all stream_end (snd (send_sse_data (error_json (status_message e) ''generation_error'') c)))
      | Inr output \<Rightarrow>
          if \<not> gr_client_connected output then c
          else
            let (sent, c) = send_sse_data (stream_chunk ident created request '''' False (finish_reason output)) c in
            if \<not> sent then c
            else
              let (sent, c) = (if cq_include_usage request
                then send_sse_data (stream_usage ident created request output) c else (True, c))
              in if \<not> sent then c else snd (send_all stream_end c))"

definition generate_state ::
  "'d serving \<Rightarrow> chat_request \<Rightarrow> 'k text_callback \<Rightarrow> 'd server_state \<Rightarrow> 'k
    \<Rightarrow> (generation_result result \<times> 'd server_state \<times> 'k) option" where
  "generate_state sv request on_text st k =
     map_option (\<lambda>(r, g, d, k). (r, st\<lparr>st_gpu := g, st_memory := d\<rparr>, k))
       (generate sv request on_text (st_gpu st) (st_memory st) k)"

text \<open>The two clock readings are the one of the identifier and the one of \<open>created\<close>.\<close>

definition handle_chat ::
  "simdjson \<Rightarrow> 'd serving \<Rightarrow> int \<times> int \<Rightarrow> string \<Rightarrow> 'd server_state \<Rightarrow> connection
    \<Rightarrow> ('d server_state \<times> connection) option" where
  "handle_chat js sv clock body st c =
     (case parse_chat_request js (sv_options sv) body of
        Inl e \<Rightarrow> Some (st, snd (send_json 400 ''Bad Request'' (error_json e ''invalid_request'') c))
      | Inr request \<Rightarrow>
          let ident = request_id (fst clock) (st_counter st); created = snd clock;
              st = st\<lparr>st_counter := st_counter st + 1\<rparr>
          in if \<not> cq_stream request then
               map_option (\<lambda>(r, st, _). (st, snd (case r of
                   Inl e \<Rightarrow> send_json 400 ''Bad Request'' (error_json (status_message e) ''invalid_request'') c
                 | Inr output \<Rightarrow> send_json 200 ''OK'' (completion_json ident created request output) c)))
               (generate_state sv request None st ())
             else
               let (sent, c) = send_sse_headers c;
                   (sent, c) = (if sent then send_sse_data (stream_chunk ident created request '''' True '''') c else (False, c))
               in if \<not> sent then Some (st, c)
                  else
                    map_option (\<lambda>(r, st, c). (st, finish_stream ident created request r c))
                      (generate_state sv request (stream_callback ident created request) st c))"

section \<open>Connections\<close>

definition models_json :: string where
  "models_json = ''{'' @ json_key ''object'' @ quote @ ''list'' @ quote @ '','' @ json_key ''data'' @ ''[{'' @ json_key ''id''
     @ quote @ kServedModelId @ quote @ '','' @ json_key ''object'' @ quote @ ''model'' @ quote @ '','' @ json_key ''created''
     @ ''0,'' @ json_key ''owned_by'' @ quote @ ''local'' @ quote @ ''}]}''"

definition handle_connection ::
  "simdjson \<Rightarrow> 'd serving \<Rightarrow> int \<times> int \<Rightarrow> 'd server_state \<Rightarrow> connection \<Rightarrow> ('d server_state \<times> connection) option" where
  "handle_connection js sv clock st c =
     (let (request, incoming) = read_http_request (cn_incoming c); c = c\<lparr>cn_incoming := incoming\<rparr> in
      case request of
        Inl e \<Rightarrow> Some (st, snd (send_json 400 ''Bad Request'' (error_json e ''invalid_request'') c))
      | Inr http \<Rightarrow>
          if hr_method http = ''GET'' \<and> hr_path http = ''/health'' then
            Some (st, snd (send_json 200 ''OK'' (''{'' @ json_key ''status'' @ quote @ ''ok'' @ quote @ ''}'') c))
          else if hr_method http = ''GET'' \<and> hr_path http = ''/v1/models'' then
            Some (st, snd (send_json 200 ''OK'' models_json c))
          else if hr_method http = ''POST'' \<and> hr_path http = ''/v1/chat/completions'' then
            handle_chat js sv clock (hr_body http) st c
          else Some (st, snd (send_json 404 ''Not Found'' (error_json ''route not found'' ''not_found'') c)))"

section \<open>The process\<close>

text \<open>
  One turn of the accept loop: the flag \<open>running\<close> before the call, the answer, and the flag after it
  (a signal clears it). A client brings its clock readings.
\<close>

datatype accept_answer = Client "int \<times> int" connection | Accept_Interrupted | Accept_Failed

record accept_turn =
  at_running :: bool
  at_answer :: accept_answer
  at_running_after :: bool

fun serve ::
  "simdjson \<Rightarrow> 'd serving \<Rightarrow> accept_turn list \<Rightarrow> 'd server_state \<Rightarrow> ('d server_state \<times> connection list) option" where
  "serve js sv [] st = Some (st, [])"
| "serve js sv (turn # turns) st =
     (if \<not> at_running turn then Some (st, [])
      else case at_answer turn of
        Client clock c \<Rightarrow>
          Option.bind (handle_connection js sv clock st c) (\<lambda>(st, c).
            map_option (\<lambda>(st, cs). (st, c # cs)) (serve js sv turns st))
      | Accept_Interrupted \<Rightarrow> if \<not> at_running_after turn then Some (st, []) else serve js sv turns st
      | Accept_Failed \<Rightarrow> Some (st, []))"

definition server_engine_config :: "string \<Rightarrow> engine_config" where
  "server_engine_config artifact = \<lparr> ec_artifact = artifact, ec_device_index = 0, ec_memory_budget_bytes = 0,
     ec_maximum_context_tokens = 262144, ec_maximum_concurrency = 8, ec_kv_format = int8_group64, ec_maximum_mtp_depth = 7,
     ec_verify_artifact_checksums = True, ec_upload_weights = True \<rparr>"

datatype 'd startup = Usage | Start_Failed string | Ready "'d serving"

text \<open>\<open>main\<close> up to the loop; \<open>listening\<close> tells whether the listener was opened, or the error's text.\<close>

definition server_start ::
  "hip_runtime \<Rightarrow> simdjson \<Rightarrow> text_libraries \<Rightarrow> create_runtime \<Rightarrow> 'd device \<Rightarrow> file_access
    \<Rightarrow> (server_options \<Rightarrow> string + unit) \<Rightarrow> string list \<Rightarrow> gpu \<Rightarrow> 'd startup \<times> gpu" where
  "server_start hip js libs rt dev access listening argv g =
     (case parse_options argv of
        None \<Rightarrow> (Usage, g)
      | Some options \<Rightarrow>
          (case engine_create hip (server_engine_config (so_artifact options)) access g of
             (Inl e, g) \<Rightarrow> (Start_Failed (status_message e), g)
           | (Inr en, g) \<Rightarrow>
               (case from_json js (engine_resource en ''resources/tokenizer.json'') of
                  Inl e \<Rightarrow> (Start_Failed (status_message e), engine_destroy en g)
                | Inr tk \<Rightarrow>
                    (case listening options of
                       Inl e \<Rightarrow> (Start_Failed (''cannot listen on '' @ so_host options @ '':''
                           @ to_string (unat (so_port options)) @ '': '' @ e), engine_destroy en g)
                     | Inr _ \<Rightarrow> (Ready \<lparr> sv_libraries = libs, sv_tokenizer = tk, sv_runtime = rt, sv_engine = en,
                         sv_device = dev, sv_options = options \<rparr>, g)))))"

end
