(* ===== verification/CliCommands.thy ===== *)
theory CliCommands
  imports CliArguments Convert Generate Server
begin

text \<open>
  \<^verbatim>\<open>src/cli/main.cpp\<close>: what the commands do. A command ends with a message and the code 1, or with the
  values that it prints and the code 0; the layout of the printed text and the clock readings are
  left out. Engines and sessions are destroyed when their function returns. Every session has a
  device memory of its own: the arenas of two sessions are separate allocations.

  A vector whose length an argument gives without a bound may refuse its \<open>reserve\<close>: the exception is
  caught nowhere, so that the process is terminated and no destructor runs. The lengths of the other
  vectors are bounded by the context of a session or by a constant; for these the memory of the host suffices.
\<close>

datatype 'a outcome = Failed string | Passed 'a | Thrown

fun thrown :: "'a outcome \<Rightarrow> bool" where
  "thrown Thrown \<longleftrightarrow> True"
| "thrown _ \<longleftrightarrow> False"

definition fail :: "status \<Rightarrow> 'a outcome" where
  "fail s = Failed (''error: '' @ status_message s)"

fun of_result :: "'a result \<Rightarrow> 'a outcome" where
  "of_result (Inl e) = fail e"
| "of_result (Inr x) = Passed x"

text \<open>
  \<open>vector::reserve\<close> for elements of \<open>item_bytes\<close> bytes throws \<open>length_error\<close> above \<open>max_size\<close>, the
  largest number whose bytes \<open>ptrdiff_t\<close> counts, and \<open>bad_alloc\<close> when the allocator has no such block.
\<close>

definition reserve_throws :: "(nat \<Rightarrow> bool) \<Rightarrow> nat \<Rightarrow> nat \<Rightarrow> bool" where
  "reserve_throws allocates item_bytes n \<longleftrightarrow> n > (2 ^ 63 - 1) div item_bytes \<or> \<not> allocates (n * item_bytes)"

section \<open>Inspection\<close>

definition eligible :: "device_info \<Rightarrow> bool" where
  "eligible device \<longleftrightarrow> di_architecture device = kRequiredArchitecture \<and> di_warp_size device = 32"

definition probe :: "hip_runtime \<Rightarrow> (device_info \<times> bool) list outcome" where
  "probe hip =
     (case enumerate_devices hip of
        Inl e \<Rightarrow> fail e
      | Inr devices \<Rightarrow>
          if devices = [] then Failed ''No HIP devices found.'' else Passed (map (\<lambda>device. (device, eligible device)) devices))"

text \<open>The dimensions between brackets.\<close>

fun join_comma :: "string list \<Rightarrow> string" where
  "join_comma [] = []"
| "join_comma [s] = s"
| "join_comma (s # t # ss) = s @ '','' @ join_comma (t # ss)"

definition tensor_line :: "tensor_descriptor \<Rightarrow> string" where
  "tensor_line tensor =
     td_name tensor @ ''  '' @ dtype_name (td_dtype tensor) @ ''  '' @ quantization_name (td_quantization tensor) @ ''  [''
     @ join_comma (map (\<lambda>d. to_string (unat d)) (take (unat (td_rank tensor)) (td_dimensions tensor)))
     @ '']  data='' @ to_string (unat (td_data_bytes tensor)) @ '' aux='' @ to_string (unat (td_aux_bytes tensor))"

definition inspect :: "string \<Rightarrow> file_access \<Rightarrow> (nat \<times> artifact_identity \<times> string list) outcome" where
  "inspect path access =
     (case artifact_open path True access of
        Inl e \<Rightarrow> fail e
      | Inr artifact \<Rightarrow> Passed (length (av_mapping artifact), av_identity artifact, map tensor_line (av_tensors artifact)))"

definition verify_source :: "simdjson \<Rightarrow> (string \<Rightarrow> file_access) \<Rightarrow> string \<Rightarrow> source_validation_summary outcome" where
  "verify_source js access path = of_result (validate_qwen38_model_directory js access path True True)"

definition source_line :: "safe_tensor_descriptor \<Rightarrow> string" where
  "source_line tensor =
     sd_name tensor @ ''  '' @ source_dtype_name (sd_dtype tensor) @ ''  ['' @ join_comma (map (\<lambda>d. to_string (unat d)) (sd_shape tensor))
     @ '']  bytes='' @ to_string (unat (sd_bytes tensor))"

definition inspect_safetensors :: "simdjson \<Rightarrow> string \<Rightarrow> file_access \<Rightarrow> (nat \<times> string list) outcome" where
  "inspect_safetensors js path access =
     (case safetensors_open js path access of
        Inl e \<Rightarrow> fail e
      | Inr shard \<Rightarrow> Passed (length (sf_mapping shard), map source_line (sf_tensors shard)))"

definition convert :: "convert_env \<Rightarrow> conversion_options \<Rightarrow> file_system \<Rightarrow> (conversion_summary outcome \<times> file_system) option" where
  "convert env options fs = map_option (\<lambda>(r, fs). (of_result r, fs)) (convert_qwen38 env options fs)"

section \<open>Engines and sessions\<close>

definition cli_engine_config :: "string \<Rightarrow> engine_config" where
  "cli_engine_config path = server_engine_config path"

definition with_engine ::
  "hip_runtime \<Rightarrow> file_access \<Rightarrow> engine_config \<Rightarrow> (engine \<Rightarrow> gpu \<Rightarrow> 'a outcome \<times> gpu) \<Rightarrow> gpu \<Rightarrow> 'a outcome \<times> gpu" where
  "with_engine hip access config f g =
     (case engine_create hip config access g of
        (Inl e, g) \<Rightarrow> (fail e, g)
      | (Inr en, g) \<Rightarrow> (let (r, g) = f en g in (r, if thrown r then g else engine_destroy en g)))"

definition with_session ::
  "create_runtime \<Rightarrow> engine \<Rightarrow> decode_session_config \<Rightarrow> (session \<Rightarrow> gpu \<Rightarrow> 'a outcome \<times> gpu) \<Rightarrow> gpu \<Rightarrow> 'a outcome \<times> gpu" where
  "with_session rt en config f g =
     (case session_create rt en config g of
        (Inl e, g) \<Rightarrow> (fail e, g)
      | (Inr (s, offsets), g) \<Rightarrow> (let (r, g) = f s g in (r, if thrown r then g else session_destroy g)))"

definition plain_config :: "nat \<Rightarrow> activation_mode \<Rightarrow> decode_session_config" where
  "plain_config context_tokens mode =
     \<lparr> dc_maximum_context_tokens = context_tokens, dc_activation_mode = mode, dc_graph_verifier_batch = 0 \<rparr>"

definition load_check :: "hip_runtime \<Rightarrow> file_access \<Rightarrow> string \<Rightarrow> gpu \<Rightarrow> load_summary outcome \<times> gpu" where
  "load_check hip access path = with_engine hip access (cli_engine_config path) (\<lambda>en g. (Passed (en_summary en), g))"

definition with_tokenizer :: "simdjson \<Rightarrow> engine \<Rightarrow> (qwen_tokenizer \<Rightarrow> gpu \<Rightarrow> 'a outcome \<times> gpu) \<Rightarrow> gpu \<Rightarrow> 'a outcome \<times> gpu" where
  "with_tokenizer js en f g =
     (case from_json js (engine_resource en ''resources/tokenizer.json'') of
        Inl e \<Rightarrow> (fail e, g)
      | Inr tk \<Rightarrow> f tk g)"

section \<open>Greedy decoding\<close>

text \<open>Each output is the next input.\<close>

fun decode_tokens :: "'d device \<Rightarrow> nat \<Rightarrow> nat \<Rightarrow> session \<Rightarrow> 'd \<Rightarrow> nat list result \<times> session \<times> 'd" where
  "decode_tokens dev 0 token s d = (Inr [], s, d)"
| "decode_tokens dev (Suc n) token s d =
     (case greedy_step dev s token d of
        (Inl e, s, d) \<Rightarrow> (Inl e, s, d)
      | (Inr x, s, d) \<Rightarrow>
          (case decode_tokens dev n x s d of
             (Inl e, s, d) \<Rightarrow> (Inl e, s, d)
           | (Inr xs, s, d) \<Rightarrow> (Inr (x # xs), s, d)))"

record decode_report =
  dr_tokens :: "nat list"
  dr_text :: string
  dr_summary :: decode_session_summary

definition decode_session ::
  "'d device \<Rightarrow> qwen_tokenizer \<Rightarrow> nat \<Rightarrow> nat \<Rightarrow> session \<Rightarrow> 'd \<Rightarrow> decode_report outcome" where
  "decode_session dev tk starting_token token_count s d =
     (case decode_tokens dev token_count starting_token s d of
        (Inl e, _) \<Rightarrow> fail e
      | (Inr tokens, s, _) \<Rightarrow>
          (case tokenizer_decode tk tokens of
             Inl e \<Rightarrow> fail e
           | Inr decoded \<Rightarrow> Passed \<lparr> dr_tokens = tokens, dr_text = decoded, dr_summary = ss_summary s \<rparr>))"

record 'd host =
  ho_hip :: hip_runtime
  ho_json :: simdjson
  ho_libraries :: text_libraries
  ho_runtime :: create_runtime
  ho_device :: "'d device"
  ho_access :: "string \<Rightarrow> file_access"
  ho_memory :: "nat \<Rightarrow> 'd"
  ho_allocates :: "nat \<Rightarrow> bool"

text \<open>
  \<open>ho_memory n\<close> is the memory of the n-th session of the process when it was created; \<open>ho_allocates n\<close>
  tells whether the allocator of the host has a block of n bytes.
\<close>

definition decode_bench :: "'d host \<Rightarrow> string \<Rightarrow> nat \<Rightarrow> nat \<Rightarrow> nat \<Rightarrow> gpu \<Rightarrow> decode_report outcome \<times> gpu" where
  "decode_bench h path starting_token token_count context_tokens =
     with_engine (ho_hip h) (ho_access h path) (cli_engine_config path) (\<lambda>en.
     with_tokenizer (ho_json h) en (\<lambda>tk.
     with_session (ho_runtime h) en (plain_config context_tokens fp16) (\<lambda>s g.
       (decode_session (ho_device h) tk starting_token token_count s (ho_memory h 0), g))))"

section \<open>Block decoding against serial decoding\<close>

fun feed_tokens :: "'d device \<Rightarrow> nat list \<Rightarrow> session \<Rightarrow> 'd \<Rightarrow> nat list result \<times> session \<times> 'd" where
  "feed_tokens dev [] s d = (Inr [], s, d)"
| "feed_tokens dev (token # tokens) s d =
     (case greedy_step dev s token d of
        (Inl e, s, d) \<Rightarrow> (Inl e, s, d)
      | (Inr x, s, d) \<Rightarrow>
          (case feed_tokens dev tokens s d of
             (Inl e, s, d) \<Rightarrow> (Inl e, s, d)
           | (Inr xs, s, d) \<Rightarrow> (Inr (x # xs), s, d)))"

fun run_blocks :: "'d device \<Rightarrow> nat \<Rightarrow> nat list \<Rightarrow> session \<Rightarrow> 'd \<Rightarrow> unit result \<times> session \<times> 'd" where
  "run_blocks dev 0 inputs s d = (Inr (), s, d)"
| "run_blocks dev (Suc n) inputs s d =
     (case block_step dev s inputs d of
        (Inl e, s, d) \<Rightarrow> (Inl e, s, d)
      | (Inr outputs, s, d) \<Rightarrow> run_blocks dev n outputs s d)"

definition token_words :: "nat list \<Rightarrow> string" where
  "token_words tokens = concat (map (\<lambda>t. to_string t @ '' '') tokens)"

definition block_inputs :: "nat \<Rightarrow> nat \<Rightarrow> nat list" where
  "block_inputs starting_token batch = map (\<lambda>index. (starting_token + index) mod tokenizer_vocabulary_size) [0..<batch]"

definition block_sessions ::
  "(nat \<Rightarrow> bool) \<Rightarrow> 'd device \<Rightarrow> nat \<Rightarrow> nat \<Rightarrow> nat \<Rightarrow> session \<Rightarrow> 'd \<Rightarrow> session \<Rightarrow> 'd \<Rightarrow> decode_session_summary outcome" where
  "block_sessions allocates dev starting_token batch block_count serial ds blocked db =
     (let inputs = block_inputs starting_token batch in
      case feed_tokens dev inputs serial ds of
        (Inl e, _) \<Rightarrow> fail e
      | (Inr serial_outputs, _) \<Rightarrow>
          (case block_step dev blocked inputs db of
             (Inl e, _) \<Rightarrow> fail e
           | (Inr block_outputs, blocked, db) \<Rightarrow>
               if block_outputs \<noteq> serial_outputs
               then Failed (''error: causal block output differs from serial decode'' @ newline @ ''  serial: '' @ token_words serial_outputs
                 @ newline @ ''  block:  '' @ token_words block_outputs)
               else if reserve_throws allocates 8 block_count then Thrown
               else case run_blocks dev block_count block_outputs blocked db of
                 (Inl e, _) \<Rightarrow> fail e
               | (Inr _, blocked, _) \<Rightarrow> Passed (ss_summary blocked)))"

definition block_bench ::
  "'d host \<Rightarrow> string \<Rightarrow> nat \<Rightarrow> nat \<Rightarrow> nat \<Rightarrow> nat \<Rightarrow> activation_mode \<Rightarrow> gpu \<Rightarrow> decode_session_summary outcome \<times> gpu" where
  "block_bench h path starting_token batch block_count context_tokens mode =
     with_engine (ho_hip h) (ho_access h path) (cli_engine_config path) (\<lambda>en.
     with_session (ho_runtime h) en (plain_config context_tokens mode) (\<lambda>serial.
     with_session (ho_runtime h) en (plain_config context_tokens mode) (\<lambda>blocked g.
       (block_sessions (ho_allocates h) (ho_device h) starting_token batch block_count serial (ho_memory h 0) blocked (ho_memory h 1), g))))"

section \<open>Speculative decoding against serial decoding\<close>

record speculative_report =
  sp_tokens :: "nat list"
  sp_proposed :: nat
  sp_accepted :: nat
  sp_rounds :: nat

text \<open>The first argument of the loop are the values so far; every step adds a token.\<close>

function speculative_rounds ::
  "'d device \<Rightarrow> nat \<Rightarrow> nat \<Rightarrow> speculative_report \<Rightarrow> nat \<Rightarrow> session \<Rightarrow> 'd \<Rightarrow> speculative_report result" where
  "speculative_rounds dev draft_count minimum_tokens report seed s d =
     (if length (sp_tokens report) < minimum_tokens then
        case speculative_step dev s seed draft_count d of
          (Inl e, _) \<Rightarrow> Inl e
        | (Inr r, s, d) \<Rightarrow>
            speculative_rounds dev draft_count minimum_tokens
              \<lparr> sp_tokens = sp_tokens report @ sr_tokens r, sp_proposed = sp_proposed report + sr_proposed_drafts r,
                sp_accepted = sp_accepted report + sr_accepted_drafts r, sp_rounds = sp_rounds report + 1 \<rparr>
              (last (sr_tokens r)) s d
      else Inr report)"
  by pat_completeness auto
termination
  by (relation "measure (\<lambda>(dev, draft_count, minimum_tokens, report, seed, s, d). minimum_tokens - length (sp_tokens report))")
    (auto dest!: speculative_tokens [OF sym] simp: neq_Nil_conv)

declare speculative_rounds.simps [simp del]

text \<open>The first difference of two lists of the same length.\<close>

fun mismatch :: "nat list \<Rightarrow> nat list \<Rightarrow> nat" where
  "mismatch (a # as) (b # bs) = (if a = b then mismatch as bs + 1 else 0)"
| "mismatch _ _ = 0"

definition speculative_sessions ::
  "'d device \<Rightarrow> nat \<Rightarrow> nat \<Rightarrow> nat \<Rightarrow> session \<Rightarrow> 'd \<Rightarrow> session \<Rightarrow> 'd \<Rightarrow> speculative_report outcome" where
  "speculative_sessions dev starting_token draft_count minimum_tokens speculative dp serial ds =
     (case greedy_step dev speculative starting_token dp of
        (Inl e, _) \<Rightarrow> fail e
      | (Inr first, speculative, dp) \<Rightarrow>
          (case speculative_rounds dev draft_count minimum_tokens
              \<lparr> sp_tokens = [first], sp_proposed = 0, sp_accepted = 0, sp_rounds = 0 \<rparr> first speculative dp of
             Inl e \<Rightarrow> fail e
           | Inr report \<Rightarrow>
               (case decode_tokens dev (length (sp_tokens report)) starting_token serial ds of
                  (Inl e, _) \<Rightarrow> fail e
                | (Inr serial_tokens, _) \<Rightarrow>
                    if serial_tokens \<noteq> sp_tokens report then
                      let index = mismatch serial_tokens (sp_tokens report) in
                      Failed (''error: speculative stream differs from serial target at token '' @ to_string index @ newline
                        @ ''  serial: '' @ to_string (serial_tokens ! index) @ newline
                        @ ''  speculative: '' @ to_string (sp_tokens report ! index))
                    else Passed report)))"

definition speculative_bench ::
  "'d host \<Rightarrow> string \<Rightarrow> nat \<Rightarrow> nat \<Rightarrow> nat \<Rightarrow> nat \<Rightarrow> activation_mode \<Rightarrow> gpu \<Rightarrow> speculative_report outcome \<times> gpu" where
  "speculative_bench h path starting_token draft_count minimum_tokens context_tokens mode =
     with_engine (ho_hip h) (ho_access h path) (cli_engine_config path) (\<lambda>en.
     with_session (ho_runtime h) en ((plain_config context_tokens mode)\<lparr>dc_graph_verifier_batch := draft_count + 1\<rparr>) (\<lambda>speculative.
     with_session (ho_runtime h) en (plain_config context_tokens mode) (\<lambda>serial g.
       (speculative_sessions (ho_device h) starting_token draft_count minimum_tokens speculative (ho_memory h 0)
          serial (ho_memory h 1), g))))"

section \<open>Text\<close>

definition tokenizer_check :: "'d host \<Rightarrow> string \<Rightarrow> string \<Rightarrow> gpu \<Rightarrow> ((nat list \<times> string) outcome \<times> gpu) option" where
  "tokenizer_check h path t g =
     (case engine_create (ho_hip h) ((cli_engine_config path)\<lparr> ec_verify_artifact_checksums := False, ec_upload_weights := False \<rparr>)
         (ho_access h path) g of
        (Inl e, g) \<Rightarrow> Some (fail e, g)
      | (Inr en, g) \<Rightarrow>
          (case from_json (ho_json h) (engine_resource en ''resources/tokenizer.json'') of
             Inl e \<Rightarrow> Some (fail e, engine_destroy en g)
           | Inr tk \<Rightarrow>
               map_option (\<lambda>encoded. (case encoded of
                     Inl e \<Rightarrow> fail e
                   | Inr tokens \<Rightarrow>
                       (case tokenizer_decode tk tokens of Inl e \<Rightarrow> fail e | Inr decoded \<Rightarrow> Passed (tokens, decoded)), engine_destroy en g))
                 (tokenizer_encode (ho_libraries h) tk t)))"

section \<open>Generation\<close>

definition cli_terminal :: "nat \<Rightarrow> bool" where
  "cli_terminal token \<longleftrightarrow> token = 248044 \<or> token = 248046"

record cli_generating =
  cl_generated :: "nat list"
  cl_next :: nat
  cl_proposed :: nat
  cl_accepted :: nat
  cl_rounds :: nat
  cl_emitted :: nat

text \<open>The tokens of a round; whether one of them is terminal.\<close>

fun push_tokens :: "nat \<Rightarrow> nat list \<Rightarrow> cli_generating \<Rightarrow> bool \<times> cli_generating" where
  "push_tokens maximum [] g = (False, g)"
| "push_tokens maximum (token # tokens) g =
     (if length (cl_generated g) = maximum then (False, g)
      else
        let g = g\<lparr> cl_generated := cl_generated g @ [token], cl_emitted := cl_emitted g + 1, cl_next := token \<rparr> in
        if cli_terminal token then (True, g) else push_tokens maximum tokens g)"

lemma push_tokens_grows: "push_tokens maximum ts g = (b, g') \<Longrightarrow> length (cl_generated g) \<le> length (cl_generated g')"
  by (induction ts arbitrary: g) (fastforce simp: Let_def split: if_splits)+

lemma push_tokens_advances:
  "push_tokens maximum ts g = (b, g') \<Longrightarrow> ts \<noteq> [] \<Longrightarrow> length (cl_generated g) < maximum \<Longrightarrow>
    length (cl_generated g) < length (cl_generated g')"
  by (cases ts) (auto simp: Let_def split: if_splits dest!: push_tokens_grows)

definition count_drafts :: "speculative_step_result \<Rightarrow> cli_generating \<Rightarrow> cli_generating" where
  "count_drafts r g = g\<lparr> cl_proposed := cl_proposed g + sr_proposed_drafts r, cl_accepted := cl_accepted g + sr_accepted_drafts r,
     cl_rounds := cl_rounds g + 1 \<rparr>"

function cli_rounds ::
  "'d device \<Rightarrow> nat \<Rightarrow> nat \<Rightarrow> cli_generating \<Rightarrow> session \<Rightarrow> 'd \<Rightarrow> cli_generating result \<times> session \<times> 'd" where
  "cli_rounds dev draft_count maximum g s d =
     (if length (cl_generated g) < maximum \<and> \<not> cli_terminal (cl_next g) then
        if draft_count = 0 \<or> maximum - length (cl_generated g) = 1 then
          case greedy_step dev s (cl_next g) d of
            (Inl e, s, d) \<Rightarrow> (Inl e, s, d)
          | (Inr x, s, d) \<Rightarrow> cli_rounds dev draft_count maximum (g\<lparr> cl_next := x, cl_generated := cl_generated g @ [x] \<rparr>) s d
        else
          case speculative_step dev s (cl_next g) (min draft_count (maximum - length (cl_generated g) - 1)) d of
            (Inl e, s, d) \<Rightarrow> (Inl e, s, d)
          | (Inr r, s, d) \<Rightarrow>
              (case push_tokens maximum (sr_tokens r) (count_drafts r g) of
                 (True, g) \<Rightarrow> (Inr g, s, d)
               | (False, g) \<Rightarrow> cli_rounds dev draft_count maximum g s d)
      else (Inr g, s, d))"
  by pat_completeness auto
termination
proof (relation "measure (\<lambda>(dev, draft_count, maximum, g, s, d). maximum - length (cl_generated g))")
  fix dev :: "'d device" and draft_count maximum g s d a b x y r c g'
  assume more: "length (cl_generated g) < maximum \<and> \<not> cli_terminal (cl_next g)"
    and step: "(a, b) = speculative_step dev s (cl_next g) (min draft_count (maximum - length (cl_generated g) - 1)) d" "a = Inr r"
    and push: "(c, g') = push_tokens maximum (sr_tokens r) (count_drafts r g)"
  have "sr_tokens r \<noteq> []"
    using step speculative_tokens by (metis prod.collapse)
  then have "length (cl_generated (count_drafts r g)) < length (cl_generated g')"
    using more by (intro push_tokens_advances [OF push [symmetric]]) (simp_all add: count_drafts_def)
  then show "((dev, draft_count, maximum, g', x, y), dev, draft_count, maximum, g, s, d)
      \<in> measure (\<lambda>(dev, draft_count, maximum, g, s, d). maximum - length (cl_generated g))"
    using more by (auto simp: count_drafts_def)
qed auto

declare cli_rounds.simps [simp del]

definition cli_rendered :: "string \<Rightarrow> string" where
  "cli_rendered prompt =
     ''<|im_start|>user'' @ newline @ prompt @ ''<|im_end|>'' @ newline @ ''<|im_start|>assistant'' @ newline @ ''<think>'' @ newline @ newline
     @ ''</think>'' @ newline @ newline"

record cli_report =
  cr_text :: string
  cr_prompt_tokens :: nat
  cr_state :: cli_generating

definition cli_generate_session ::
  "'d device \<Rightarrow> qwen_tokenizer \<Rightarrow> nat \<Rightarrow> nat \<Rightarrow> nat list \<Rightarrow> session \<Rightarrow> 'd \<Rightarrow> cli_report outcome" where
  "cli_generate_session dev tk maximum draft_count prompt_tokens s d =
     (case greedy_step dev s (hd prompt_tokens) d of
        (Inl e, _) \<Rightarrow> fail e
      | (Inr first, s, d) \<Rightarrow>
          (case prefill dev (draft_count \<noteq> 0) (tl prompt_tokens) first s d of
             (Inl e, _) \<Rightarrow> fail e
           | (Inr next_token, s, d) \<Rightarrow>
               (case cli_rounds dev draft_count maximum
                   \<lparr> cl_generated = [next_token], cl_next = next_token, cl_proposed = 0, cl_accepted = 0, cl_rounds = 0, cl_emitted = 0 \<rparr> s d of
                  (Inl e, _) \<Rightarrow> fail e
                | (Inr g, _) \<Rightarrow>
                    (case tokenizer_decode tk (cl_generated g) of
                       Inl e \<Rightarrow> fail e
                     | Inr decoded \<Rightarrow> Passed \<lparr> cr_text = decoded, cr_prompt_tokens = length prompt_tokens, cr_state = g \<rparr>))))"

text \<open>\<open>None\<close>: the encoder does not return.\<close>

definition cli_generate ::
  "'d host \<Rightarrow> string \<Rightarrow> string \<Rightarrow> nat \<Rightarrow> nat \<Rightarrow> activation_mode \<Rightarrow> nat \<Rightarrow> gpu \<Rightarrow> (cli_report outcome \<times> gpu) option" where
  "cli_generate h path prompt maximum context_tokens mode draft_count g =
     (case engine_create (ho_hip h) (cli_engine_config path) (ho_access h path) g of
        (Inl e, g) \<Rightarrow> Some (fail e, g)
      | (Inr en, g) \<Rightarrow>
          (case from_json (ho_json h) (engine_resource en ''resources/tokenizer.json'') of
             Inl e \<Rightarrow> Some (fail e, engine_destroy en g)
           | Inr tk \<Rightarrow>
               (case tokenizer_encode (ho_libraries h) tk (cli_rendered prompt) of
                  None \<Rightarrow> None
                | Some (Inl e) \<Rightarrow> Some (fail e, engine_destroy en g)
                | Some (Inr prompt_tokens) \<Rightarrow>
                    if prompt_tokens = [] \<or> length prompt_tokens + maximum > context_tokens
                    then Some (Failed ''error: rendered prompt and generation exceed the session context'', engine_destroy en g)
                    else
                      let (r, g) = with_session (ho_runtime h) en
                            ((plain_config context_tokens mode)\<lparr>dc_graph_verifier_batch := (if draft_count = 0 then 0 else draft_count + 1)\<rparr>)
                            (\<lambda>s g. (cli_generate_session (ho_device h) tk maximum draft_count prompt_tokens s (ho_memory h 0), g)) g
                      in Some (r, engine_destroy en g))))"

section \<open>The proposal layer against the target\<close>

fun mtp_rounds :: "'d device \<Rightarrow> nat \<Rightarrow> nat \<Rightarrow> nat \<Rightarrow> session \<Rightarrow> 'd \<Rightarrow> (nat list \<times> nat list) result" where
  "mtp_rounds dev 0 target candidate s d = Inr ([], [])"
| "mtp_rounds dev (Suc n) target candidate s d =
     (case greedy_step dev s target d of
        (Inl e, _) \<Rightarrow> Inl e
      | (Inr next_target, s, d) \<Rightarrow>
          (case mtp_draft dev s next_target d of
             (Inl e, _) \<Rightarrow> Inl e
           | (Inr next_candidate, s, d) \<Rightarrow>
               result_bind (mtp_rounds dev n next_target next_candidate s d) (\<lambda>(targets, drafts).
                 Inr (next_target # targets, candidate # drafts))))"

record mtp_report =
  mr_accepted :: nat
  mr_text :: string
  mr_pairs :: "(nat \<times> nat) list"

definition mtp_session :: "(nat \<Rightarrow> bool) \<Rightarrow> 'd device \<Rightarrow> qwen_tokenizer \<Rightarrow> nat \<Rightarrow> nat \<Rightarrow> session \<Rightarrow> 'd \<Rightarrow> mtp_report outcome" where
  "mtp_session allocates dev tk starting_token steps s d =
     (case greedy_step dev s starting_token d of
        (Inl e, _) \<Rightarrow> fail e
      | (Inr target, s, d) \<Rightarrow>
          (case mtp_draft dev s target d of
             (Inl e, _) \<Rightarrow> fail e
           | (Inr candidate, s, d) \<Rightarrow>
               if reserve_throws allocates 4 steps then Thrown
               else (case mtp_rounds dev steps target candidate s d of
                  Inl e \<Rightarrow> fail e
                | Inr (targets, drafts) \<Rightarrow>
                    (case tokenizer_decode tk targets of
                       Inl e \<Rightarrow> fail e
                     | Inr decoded \<Rightarrow> Passed \<lparr> mr_accepted = length (filter (\<lambda>(a, b). a = b) (zip targets drafts)),
                         mr_text = decoded, mr_pairs = take 12 (zip drafts targets) \<rparr>))))"

definition mtp_bench ::
  "'d host \<Rightarrow> string \<Rightarrow> nat \<Rightarrow> nat \<Rightarrow> nat \<Rightarrow> activation_mode \<Rightarrow> gpu \<Rightarrow> mtp_report outcome \<times> gpu" where
  "mtp_bench h path starting_token steps context_tokens mode =
     with_engine (ho_hip h) (ho_access h path) (cli_engine_config path) (\<lambda>en.
     with_tokenizer (ho_json h) en (\<lambda>tk.
     with_session (ho_runtime h) en (plain_config context_tokens mode) (\<lambda>s g.
       (mtp_session (ho_allocates h) (ho_device h) tk starting_token steps s (ho_memory h 0), g))))"


section \<open>The process\<close>

fun exit_code :: "'a outcome \<Rightarrow> nat" where
  "exit_code (Failed _) = 1"
| "exit_code (Passed _) = 0"
| "exit_code Thrown = 134"

text \<open>134 is what a shell reports of a process that \<open>terminate\<close> aborts.\<close>

text \<open>A command that leaves the files alone.\<close>

definition on_device :: "file_system \<Rightarrow> 'a outcome \<times> gpu \<Rightarrow> nat \<times> gpu \<times> file_system" where
  "on_device fs r = (exit_code (fst r), snd r, fs)"

text \<open>
  The exit code of \<open>main\<close>, the allocations of the device and the files afterwards. The tests of
  single kernels (\<open>model-smoke\<close>, \<open>gdn-smoke\<close>, \<open>attention-smoke\<close>, \<open>bench-gemv\<close>) are not modelled: what such a
  command answers and leaves is the parameter \<open>tests\<close>. \<open>None\<close>: the encoder or the conversion does not return.
\<close>

definition kernel_test :: "command \<Rightarrow> bool" where
  "kernel_test command = (case command of
     Model_Smoke_Command _ _ _ \<Rightarrow> True | Gdn_Smoke_Command _ _ _ \<Rightarrow> True | Attention_Smoke_Command _ _ _ \<Rightarrow> True
   | Bench_Command _ \<Rightarrow> True | _ \<Rightarrow> False)"

type_synonym run_state = "nat \<times> gpu \<times> file_system"

definition run_command ::
  "'d host \<Rightarrow> convert_env \<Rightarrow> (command \<Rightarrow> gpu \<Rightarrow> file_system \<Rightarrow> run_state) \<Rightarrow> command \<Rightarrow> gpu \<Rightarrow> file_system \<Rightarrow> run_state option" where
  "run_command h env tests command g fs =
     (case command of
        Usage_Command \<Rightarrow> Some (1, g, fs)
      | Complain_Command _ \<Rightarrow> Some (1, g, fs)
      | Fail_Command _ \<Rightarrow> Some (1, g, fs)
      | Probe_Command \<Rightarrow> Some (exit_code (probe (ho_hip h)), g, fs)
      | Inspect_Command path \<Rightarrow> Some (exit_code (inspect path (ho_access h path)), g, fs)
      | Verify_Command path \<Rightarrow> Some (exit_code (verify_source (ho_json h) (ho_access h) path), g, fs)
      | Inspect_Safetensors_Command path \<Rightarrow> Some (exit_code (inspect_safetensors (ho_json h) path (ho_access h path)), g, fs)
      | Convert_Command options \<Rightarrow> map_option (\<lambda>(r, fs). (exit_code r, g, fs)) (convert env options fs)
      | Load_Command path \<Rightarrow> Some (on_device fs (load_check (ho_hip h) (ho_access h path) path g))
      | Decode_Command path token tokens context_tokens \<Rightarrow>
          Some (on_device fs (decode_bench h path (unat token) (unat tokens) (unat context_tokens) g))
      | Block_Command path token batch blocks context_tokens mode \<Rightarrow>
          Some (on_device fs (block_bench h path (unat token) (unat batch) (unat blocks) (unat context_tokens) mode g))
      | Speculative_Command path token drafts tokens context_tokens mode \<Rightarrow>
          Some (on_device fs (speculative_bench h path (unat token) (unat drafts) (unat tokens) (unat context_tokens) mode g))
      | Tokenizer_Command path t \<Rightarrow> map_option (on_device fs) (tokenizer_check h path t g)
      | Generate_Command path prompt maximum context_tokens mode drafts \<Rightarrow>
          map_option (on_device fs) (cli_generate h path prompt (unat maximum) (unat context_tokens) mode (unat drafts) g)
      | Mtp_Command path token steps context_tokens mode \<Rightarrow>
          Some (on_device fs (mtp_bench h path (unat token) (unat steps) (unat context_tokens) mode g))
      | Version_Command \<Rightarrow> Some (0, g, fs)
      | _ \<Rightarrow> Some (tests command g fs))"

definition tool_main ::
  "'d host \<Rightarrow> convert_env \<Rightarrow> (command \<Rightarrow> gpu \<Rightarrow> file_system \<Rightarrow> run_state) \<Rightarrow> string list \<Rightarrow> gpu \<Rightarrow> file_system \<Rightarrow> run_state option" where
  "tool_main h env tests argv g fs = run_command h env tests (parse_command argv) g fs"

end
