(* ===== verification/JsonText.thy ===== *)
theory JsonText
  imports HttpServer Device
begin

text \<open>
  JSON as a client reads it (RFC 8259): a reader of texts without white space and fractions, the
  text of a tree, and their round trip. The answers of the server are compared with it.
\<close>

section \<open>Strings\<close>

text \<open>The characters that follow a backslash, but for \<open>u\<close>.\<close>

definition simple_escape :: "char \<Rightarrow> char option" where
  "simple_escape e =
     (if e = CHR 0x22 \<or> e = CHR 0x5C \<or> e = CHR ''/'' then Some e
      else if e = CHR ''b'' then Some (CHR 0x08)
      else if e = CHR ''f'' then Some (CHR 0x0C)
      else if e = CHR ''n'' then Some (CHR 0x0A)
      else if e = CHR ''r'' then Some (CHR 0x0D)
      else if e = CHR ''t'' then Some (CHR 0x09)
      else None)"

definition hex_value :: "char \<Rightarrow> nat option" where
  "hex_value c =
     (if is_digit c then Some (digit_value c)
      else if char_in CHR ''a'' CHR ''f'' c then Some (of_char c - 87)
      else if char_in CHR ''A'' CHR ''F'' c then Some (of_char c - 55)
      else None)"

fun hex_number :: "nat \<Rightarrow> string \<Rightarrow> nat option" where
  "hex_number n [] = Some n"
| "hex_number n (c # cs) = Option.bind (hex_value c) (\<lambda>d. hex_number (n * 16 + d) cs)"

text \<open>The code point of an escape; surrogates, which the server never writes, are refused.\<close>

definition code_escape :: "string \<Rightarrow> string option" where
  "code_escape s =
     (if length s < 4 then None
      else Option.bind (hex_number 0 (take 4 s)) (\<lambda>code.
        if 0xD800 \<le> code \<and> code \<le> 0xDFFF then None else Some (utf8 (of_nat code))))"

text \<open>The rest of a string after its opening quotation mark.\<close>

fun read_string :: "string \<Rightarrow> (string \<times> string) option" where
  "read_string [] = None"
| "read_string (c # cs) =
     (if c = CHR 0x22 then Some ([], cs)
      else if of_char c < (0x20 :: nat) then None
      else if c \<noteq> CHR 0x5C then map_option (\<lambda>(s, rest). (c # s, rest)) (read_string cs)
      else case cs of
        [] \<Rightarrow> None
      | e # rest \<Rightarrow>
          if e = CHR ''u'' then
            (case code_escape rest of
               None \<Rightarrow> None
             | Some d \<Rightarrow> map_option (\<lambda>(s, rest). (d @ s, rest)) (read_string (drop 4 rest)))
          else
            (case simple_escape e of
               None \<Rightarrow> None
             | Some d \<Rightarrow> map_option (\<lambda>(s, rest). (d # s, rest)) (read_string rest)))"

section \<open>Values\<close>

datatype tree =
    Obj "(string \<times> tree) list"
  | Arr "tree list"
  | Str string
  | Num int
  | Bool bool
  | Null

text \<open>The text of a tree, and the inside of its brackets.\<close>

fun tree_text :: "tree \<Rightarrow> string"
  and members_text :: "(string \<times> tree) list \<Rightarrow> string"
  and elements_text :: "tree list \<Rightarrow> string" where
  "tree_text (Obj members) = ''{'' @ members_text members @ ''}''"
| "tree_text (Arr elements) = ''['' @ elements_text elements @ '']''"
| "tree_text (Str s) = quoted s"
| "tree_text (Num i) = int_to_string i"
| "tree_text (Bool b) = (if b then ''true'' else ''false'')"
| "tree_text Null = ''null''"
| "members_text [] = []"
| "members_text ((k, v) # members) =
     quoted k @ '':'' @ tree_text v @ (if members = [] then [] else '','' @ members_text members)"
| "elements_text [] = []"
| "elements_text (v # elements) = tree_text v @ (if elements = [] then [] else '','' @ elements_text elements)"

text \<open>A number without leading zeros.\<close>

definition read_number :: "string \<Rightarrow> (tree \<times> string) option" where
  "read_number s =
     (let negative = s \<noteq> [] \<and> hd s = CHR ''-''; unsigned = (if negative then tl s else s); digits = takeWhile is_digit unsigned in
      if digits = [] \<or> (hd digits = CHR ''0'' \<and> length digits > 1) then None
      else Some (Num (if negative then - int (of_digits 0 digits) else int (of_digits 0 digits)), drop (length digits) unsigned))"

definition read_literal :: "string \<Rightarrow> (tree \<times> string) option" where
  "read_literal s =
     (if is_prefix ''true'' s then Some (Bool True, drop 4 s)
      else if is_prefix ''false'' s then Some (Bool False, drop 5 s)
      else if is_prefix ''null'' s then Some (Null, drop 4 s)
      else None)"

text \<open>The first argument bounds the number of calls; the length of the text is enough.\<close>

fun read_value :: "nat \<Rightarrow> string \<Rightarrow> (tree \<times> string) option"
  and read_members :: "nat \<Rightarrow> string \<Rightarrow> ((string \<times> tree) list \<times> string) option"
  and read_elements :: "nat \<Rightarrow> string \<Rightarrow> (tree list \<times> string) option" where
  "read_value 0 s = None"
| "read_value (Suc n) s =
     (case s of
        [] \<Rightarrow> None
      | c # cs \<Rightarrow>
          if c = CHR ''{'' then
            (if is_prefix ''}'' cs then Some (Obj [], tl cs)
             else map_option (\<lambda>(members, rest). (Obj members, rest)) (read_members n cs))
          else if c = CHR ''['' then
            (if is_prefix '']'' cs then Some (Arr [], tl cs)
             else map_option (\<lambda>(elements, rest). (Arr elements, rest)) (read_elements n cs))
          else if c = CHR 0x22 then map_option (\<lambda>(t, rest). (Str t, rest)) (read_string cs)
          else if c = CHR ''-'' \<or> is_digit c then read_number s
          else read_literal s)"
| "read_members 0 s = None"
| "read_members (Suc n) s =
     (if \<not> is_prefix quote s then None
      else case read_string (tl s) of
        None \<Rightarrow> None
      | Some (k, after) \<Rightarrow>
          if \<not> is_prefix '':'' after then None
          else case read_value n (tl after) of
            None \<Rightarrow> None
          | Some (v, rest) \<Rightarrow>
              if is_prefix '','' rest then map_option (\<lambda>(members, rest). ((k, v) # members, rest)) (read_members n (tl rest))
              else if is_prefix ''}'' rest then Some ([(k, v)], tl rest)
              else None)"
| "read_elements 0 s = None"
| "read_elements (Suc n) s =
     (case read_value n s of
        None \<Rightarrow> None
      | Some (v, rest) \<Rightarrow>
          if is_prefix '','' rest then map_option (\<lambda>(elements, rest). (v # elements, rest)) (read_elements n (tl rest))
          else if is_prefix '']'' rest then Some ([v], tl rest)
          else None)"

definition json_parse :: "string \<Rightarrow> tree option" where
  "json_parse s =
     (case read_value (length s) s of
        Some (t, rest) \<Rightarrow> if rest = [] then Some t else None
      | None \<Rightarrow> None)"

section \<open>The round trip\<close>

lemma hex_value_digit:
  assumes "n < 16"
  shows "hex_value (hex_digit n) = Some n"
proof -
  have "list_all (\<lambda>n. hex_value (hex_digit n) = Some n) [0..<16]"
    by code_simp
  then show ?thesis
    using assms unfolding list_all_iff by (metis atLeastLessThan_iff le0 set_upt)
qed

lemma hex_value_zero: "hex_value CHR ''0'' = Some 0"
  by (simp add: hex_value_def is_digit_def char_in_def digit_value_def)

lemma utf8_ascii: "of_char c < (0x80 :: nat) \<Longrightarrow> utf8 (of_nat (of_char c)) = [c]"
proof -
  assume c: "of_char c < (0x80 :: nat)"
  have "(of_nat (of_char c) :: u32) < 0x80"
    using c by (simp add: word_less_nat_alt take_bit_nat_eq_self unat_of_nat)
  moreover have "unat (ucast (of_nat (of_char c) :: u32) :: u8) = of_char c"
    using c by (simp add: unat_of_nat unsigned_ucast_eq take_bit_nat_eq_self take_bit_eq_mod)
  ultimately show ?thesis
    by (simp add: utf8_def append_utf8_def char_of_u32_def char_of_byte_def)
qed

lemma code_escape_control:
  assumes "of_char c < (0x20 :: nat)"
  shows "code_escape (''00'' @ [hex_digit (of_char c div 16), hex_digit (of_char c mod 16)] @ rest) = Some [c]"
proof -
  have "of_char c div 16 < (16 :: nat)" "of_char c mod 16 < (16 :: nat)"
    using assms by simp_all
  then show ?thesis
    using assms utf8_ascii [of c] by (simp add: code_escape_def hex_value_digit hex_value_zero)
qed

lemma read_string_escape: "read_string (escape_char c @ s) = map_option (\<lambda>(t, rest). (c # t, rest)) (read_string s)"
proof -
  consider (short) "c \<in> {CHR 0x22, CHR 0x5C, CHR 0x08, CHR 0x0C, CHR 0x0A, CHR 0x0D, CHR 0x09}"
    | (control) "c \<notin> {CHR 0x22, CHR 0x5C, CHR 0x08, CHR 0x0C, CHR 0x0A, CHR 0x0D, CHR 0x09}" "of_char c < (0x20 :: nat)"
    | (plain) "c \<notin> {CHR 0x22, CHR 0x5C}" "\<not> of_char c < (0x20 :: nat)"
    by auto
  then show ?thesis
  proof cases
    case short
    then show ?thesis
      by (elim insertE emptyE) (simp_all add: escape_char_def simple_escape_def)
  next
    case control
    then have c: "escape_char c = [CHR 0x5C] @ ''u00'' @ [hex_digit (of_char c div 16), hex_digit (of_char c mod 16)]"
      by (simp add: escape_char_def)
    show ?thesis
      using code_escape_control [OF control(2), of s] by (simp add: c)
  next
    case plain
    then have "c \<notin> {CHR 0x08, CHR 0x0C, CHR 0x0A, CHR 0x0D, CHR 0x09}"
      by auto
    then have "escape_char c = [c]"
      using plain by (simp add: escape_char_def)
    then show ?thesis
      using plain by simp
  qed
qed

lemma read_string_quoted: "read_string (json_escape s @ CHR 0x22 # rest) = Some (s, rest)"
  by (induction s) (simp_all add: json_escape_def read_string_escape)

text \<open>Every character of the text of a tree is printable or beyond ASCII: it has no line end.\<close>

lemma hex_digit_plain: "n < 16 \<Longrightarrow> (0x20 :: nat) \<le> of_char (hex_digit n)"
proof -
  assume "n < 16"
  have "list_all (\<lambda>n. (0x20 :: nat) \<le> of_char (hex_digit n)) [0..<16]"
    by code_simp
  then show ?thesis
    using \<open>n < 16\<close> unfolding list_all_iff by (metis atLeastLessThan_iff le0 set_upt)
qed

definition one_line :: "string \<Rightarrow> bool" where
  "one_line s \<longleftrightarrow> list_all (\<lambda>c. (0x20 :: nat) \<le> of_char c) s"

lemma one_line_simps [simp]:
  "one_line []" "one_line (c # s) \<longleftrightarrow> (0x20 :: nat) \<le> of_char c \<and> one_line s" "one_line (s @ t) \<longleftrightarrow> one_line s \<and> one_line t"
  by (simp_all add: one_line_def)

lemma one_line_escape: "one_line (json_escape s)"
proof -
  have "one_line (escape_char c)" for c
    by (auto simp: escape_char_def hex_digit_plain)
  then show ?thesis
    by (induction s) (simp_all add: json_escape_def)
qed

lemma one_line_quoted [simp]: "one_line (quoted s)"
  by (simp add: quoted_def quote_def one_line_escape)

lemma digit_plain: "is_digit c \<Longrightarrow> (0x20 :: nat) \<le> of_char c"
  by (simp add: is_digit_def char_in_def)

lemma one_line_digits [simp]: "one_line (to_string n)"
  using to_string_digits [of n] digit_plain by (auto simp: one_line_def list_all_iff)

lemma one_line_tree:
  "one_line (tree_text t)" "one_line (members_text members)" "one_line (elements_text elements)"
  by (induction t and members and elements rule: tree_text_members_text_elements_text.induct)
    (auto simp: int_to_string_def)

subsection \<open>Numbers\<close>

lemma to_string_head: "to_string n = c # cs \<Longrightarrow> c = CHR ''0'' \<Longrightarrow> n = 0"
proof (induction n arbitrary: c cs rule: to_string.induct)
  case (1 n)
  show ?case
  proof (cases "n < 10")
    case True
    then have "digit_value (digit_char n) = digit_value CHR ''0''"
      using "1.prems" by (subst (asm) to_string.simps) simp
    then show ?thesis
      using True digit_char_props(2) [of n] by (simp add: digit_value_def)
  next
    case False
    obtain d ds where d: "to_string (n div 10) = d # ds"
      using to_string_nonempty by (cases "to_string (n div 10)") auto
    then have "d = c"
      using "1.prems" False by (subst (asm) to_string.simps) simp
    then have "n div 10 = 0"
      using "1.IH" [OF False d] "1.prems" by simp
    then show ?thesis
      using False by simp
  qed
qed

lemma to_string_zero: "to_string 0 = ''0''"
  by code_simp

lemma takeWhile_digits: "list_all is_digit ds \<Longrightarrow> rest = [] \<or> \<not> is_digit (hd rest) \<Longrightarrow> takeWhile is_digit (ds @ rest) = ds"
  by (cases rest) (auto simp: takeWhile_append list_all_iff)

lemma read_number_text:
  assumes "rest = [] \<or> \<not> is_digit (hd rest)"
  shows "read_number (int_to_string i @ rest) = Some (Num i, rest)"
proof -
  have digits: "takeWhile is_digit (to_string n @ rest) = to_string n" for n
    by (rule takeWhile_digits [OF to_string_digits assms])
  have zeros: "\<not> (hd (to_string n) = CHR ''0'' \<and> 1 < length (to_string n))" for n
  proof (cases "n = 0")
    case True
    then show ?thesis
      by (simp only: to_string_zero) simp
  next
    case False
    obtain c cs where c: "to_string n = c # cs"
      using to_string_nonempty by (cases "to_string n") auto
    then have "c \<noteq> CHR ''0''"
      using to_string_head [OF c] False by blast
    then show ?thesis
      by (simp add: c)
  qed
  have positive: "hd (to_string n @ rest) \<noteq> CHR ''-''" for n
  proof -
    obtain c cs where c: "to_string n = c # cs"
      using to_string_nonempty by (cases "to_string n") auto
    then have "is_digit c"
      using to_string_digits [of n] by simp
    then show ?thesis
      by (auto simp: c is_digit_def char_in_def)
  qed
  show ?thesis
    using zeros positive by (simp add: read_number_def int_to_string_def Let_def digits of_digits_to_string)
qed

subsection \<open>Trees\<close>

text \<open>What follows a value does not continue a number.\<close>

definition ends_value :: "string \<Rightarrow> bool" where
  "ends_value rest \<longleftrightarrow> rest = [] \<or> \<not> is_digit (hd rest)"

lemma ends_value_simps [simp]:
  "ends_value []" "ends_value (CHR '','' # s)" "ends_value (CHR ''}'' # s)" "ends_value (CHR '']'' # s)"
  by (simp_all add: ends_value_def is_digit_def char_in_def)

lemma number_head:
  obtains c cs where "int_to_string i = c # cs" "c = CHR ''-'' \<or> is_digit c"
proof (cases "i < 0")
  case False
  obtain c cs where "to_string (nat i) = c # cs"
    using to_string_nonempty by (cases "to_string (nat i)") auto
  then show ?thesis
    using that [of c cs] to_string_digits [of "nat i"] False by (simp add: int_to_string_def)
qed (simp add: int_to_string_def)

lemma digit_bracket: "is_digit c \<Longrightarrow> c \<notin> {CHR ''{'', CHR ''['', CHR ''}'', CHR '']'', CHR 0x22, CHR '':'', CHR '',''}"
  by (auto simp: is_digit_def char_in_def)

lemma tree_head: "\<exists>c cs. tree_text t = c # cs \<and> c \<noteq> CHR '']''"
proof (cases t)
  case (Num i)
  obtain c cs where "int_to_string i = c # cs" "c = CHR ''-'' \<or> is_digit c"
    by (rule number_head)
  then show ?thesis
    using Num digit_bracket [of c] by auto
qed (simp_all add: quoted_def quote_def)

lemma elements_head: "elements \<noteq> [] \<Longrightarrow> \<exists>c cs. elements_text elements = c # cs \<and> c \<noteq> CHR '']''"
  using tree_head by (cases elements) fastforce+

lemma read_number_value:
  assumes "ends_value rest"
  shows "read_value (Suc n) (int_to_string i @ rest) = Some (Num i, rest)"
proof -
  obtain c cs where c: "int_to_string i = c # cs" "c = CHR ''-'' \<or> is_digit c"
    by (rule number_head)
  then have "c \<notin> {CHR ''{'', CHR ''['', CHR 0x22}"
    using digit_bracket [of c] by auto
  then show ?thesis
    using read_number_text [OF assms [unfolded ends_value_def], of i] c by simp
qed

lemma prefix_char [simp]: "is_prefix [c] s \<longleftrightarrow> s \<noteq> [] \<and> hd s = c"
  by (cases s) (auto simp: is_prefix_def)

lemma read_back:
  "length (tree_text t) \<le> n \<Longrightarrow> ends_value rest \<Longrightarrow> read_value n (tree_text t @ rest) = Some (t, rest)"
  "length (members_text members) \<le> n \<Longrightarrow> members \<noteq> [] \<Longrightarrow>
    read_members n (members_text members @ CHR ''}'' # rest) = Some (members, rest)"
  "length (elements_text elements) < n \<Longrightarrow> elements \<noteq> [] \<Longrightarrow>
    read_elements n (elements_text elements @ CHR '']'' # rest) = Some (elements, rest)"
proof (induction t and members and elements arbitrary: n rest and n rest and n rest
    rule: tree_text_members_text_elements_text.induct)
  case (1 members)
  obtain m where m: "n = Suc m" "length (members_text members) \<le> m"
    using "1.prems"(1) by (cases n) auto
  show ?case
  proof (cases members)
    case Nil
    then show ?thesis
      by (simp add: m)
  next
    case (Cons a list)
    then have "\<exists>cs. members_text members = CHR 0x22 # cs"
      by (cases a) (simp add: quoted_def quote_def)
    then show ?thesis
      using "1.IH" [OF m(2), of rest] Cons by (auto simp: m)
  qed
next
  case (2 elements)
  obtain m where m: "n = Suc m" "length (elements_text elements) < m"
    using "2.prems"(1) by (cases n) auto
  show ?case
  proof (cases "elements = []")
    case True
    then show ?thesis
      by (simp add: m)
  next
    case False
    then show ?thesis
      using "2.IH" [OF m(2) False, of rest] elements_head [OF False] by (auto simp: m)
  qed
next
  case (3 s)
  obtain m where "n = Suc m"
    using "3.prems"(1) by (cases n) (auto simp: quoted_def quote_def)
  then show ?case
    by (simp add: quoted_def quote_def read_string_quoted)
next
  case (4 i)
  obtain m where "n = Suc m"
    using "4.prems"(1) number_head [of i] by (cases n) auto
  then show ?case
    using read_number_value [OF "4.prems"(2)] by simp
next
  case (5 b)
  then obtain m where "n = Suc m"
    by (cases n) (auto split: if_splits)
  then show ?case
    by (simp add: read_literal_def is_prefix_def is_digit_def char_in_def)
next
  case 6
  then obtain m where "n = Suc m"
    by (cases n) auto
  then show ?case
    by (simp add: read_literal_def is_prefix_def is_digit_def char_in_def)
next
  case (8 k v members)
  obtain m where m: "n = Suc m" "length (tree_text v) \<le> m" "members \<noteq> [] \<Longrightarrow> length (members_text members) \<le> m"
    using "8.prems"(1) by (cases n; cases "members = []") (auto simp: quoted_def quote_def)
  show ?case
    using "8.IH"(1) [OF m(2)] "8.IH"(2) [OF _ m(3)]
    by (auto simp: m quoted_def quote_def read_string_quoted)
next
  case (10 v elements)
  obtain m where m: "n = Suc m" "length (tree_text v) \<le> m" "elements \<noteq> [] \<Longrightarrow> length (elements_text elements) < m"
    using "10.prems"(1) tree_head [of v] by (cases n; cases "elements = []") auto
  show ?case
    using "10.IH"(1) [OF m(2)] "10.IH"(2) [OF _ m(3)]
    by (auto simp: m)
qed simp_all

text \<open>The reader gives the tree back.\<close>

lemma json_parse_text: "json_parse (tree_text t) = Some t"
  using read_back(1) [of t "length (tree_text t)" "[]"] by (simp add: json_parse_def)

end
