(* ===== verification/HttpParse.thy ===== *)
theory HttpParse
  imports HttpServer
begin

text \<open>
  The request reader against a parser of the whole text: however the kernel cuts the stream into
  segments, the reader gives what the parser gives on the text sent before the end of the stream.
\<close>

section \<open>The first occurrence\<close>

lemma find_sub_iff:
  assumes "needle \<noteq> []"
  shows "find_sub needle s = Some i \<longleftrightarrow> is_prefix needle (drop i s) \<and> (\<forall>j < i. \<not> is_prefix needle (drop j s))"
proof (induction s arbitrary: i)
  case Nil
  then show ?case
    using assms by (simp add: is_prefix_def)
next
  case (Cons x s)
  show ?case
    by (cases i) (auto simp: Cons.IH All_less_Suc2)
qed

lemma find_sub_none:
  assumes "needle \<noteq> []"
  shows "find_sub needle s = None \<longleftrightarrow> (\<forall>j. \<not> is_prefix needle (drop j s))"
proof (induction s)
  case Nil
  then show ?case
    using assms by (simp add: is_prefix_def)
next
  case (Cons x s)
  have "(\<forall>j. \<not> is_prefix needle (drop j (x # s))) \<longleftrightarrow> \<not> is_prefix needle (x # s) \<and> (\<forall>j. \<not> is_prefix needle (drop j s))"
    by (metis drop0 drop_Suc_Cons not0_implies_Suc)
  then show ?case
    using Cons.IH by simp
qed

lemma is_prefix_bound: "is_prefix p (drop i s) \<Longrightarrow> p \<noteq> [] \<Longrightarrow> i + length p \<le> length s"
  unfolding is_prefix_def by (metis length_drop length_greater_0_conv length_take min.cobounded1 min_def le_diff_conv2
      linorder_not_less add.commute nat_less_le zero_less_diff le_add_diff_inverse2 diff_is_0_eq')

lemma is_prefix_left: "is_prefix (p @ q) s \<Longrightarrow> is_prefix p s"
  unfolding is_prefix_def by (metis append_eq_conv_conj length_append min.absorb1 le_add1 take_take)

lemma is_prefix_extend: "is_prefix p (drop i a) \<Longrightarrow> p \<noteq> [] \<Longrightarrow> is_prefix p (drop i (a @ b))"
  using is_prefix_bound [of p i a] by (auto simp: is_prefix_def)

lemma is_prefix_restrict: "is_prefix p (drop i (a @ b)) \<Longrightarrow> i + length p \<le> length a \<Longrightarrow> is_prefix p (drop i a)"
  by (auto simp: is_prefix_def)

lemma find_sub_extend:
  assumes "find_sub p a = Some i" "p \<noteq> []"
  shows "find_sub p (a @ b) = Some i"
proof -
  have i: "is_prefix p (drop i a)" "\<forall>j < i. \<not> is_prefix p (drop j a)"
    using assms by (simp_all add: find_sub_iff)
  have "i + length p \<le> length a"
    using is_prefix_bound [OF i(1) assms(2)] .
  then have "\<not> is_prefix p (drop j (a @ b))" if "j < i" for j
    using i(2) that is_prefix_restrict [of p j a b] by auto
  then show ?thesis
    using is_prefix_extend [OF i(1) assms(2)] by (simp add: find_sub_iff [OF assms(2)])
qed

lemma find_sub_restrict:
  assumes "find_sub p (a @ b) = Some i" "p \<noteq> []" "i + length p \<le> length a"
  shows "find_sub p a = Some i"
proof -
  have i: "is_prefix p (drop i (a @ b))" "\<forall>j < i. \<not> is_prefix p (drop j (a @ b))"
    using assms(1) find_sub_iff [OF assms(2), of "a @ b" i] by blast+
  then have "\<not> is_prefix p (drop j a)" if "j < i" for j
    using is_prefix_extend [of p j a b] that assms(2) by blast
  then show ?thesis
    using is_prefix_restrict [OF i(1) assms(3)] by (simp add: find_sub_iff [OF assms(2)])
qed

section \<open>The parser\<close>

lemma crlf_simps [simp]: "crlf \<noteq> []" "length crlf = 2" "crlf @ crlf \<noteq> []" "length (crlf @ crlf) = 4"
  by (simp_all add: crlf_def)

function split_lines :: "string \<Rightarrow> string list" where
  "split_lines s =
     (if s = [] then []
      else case find_sub crlf s of
        None \<Rightarrow> [s]
      | Some i \<Rightarrow> take i s # split_lines (drop (i + 2) s))"
  by pat_completeness auto
termination
  by (relation "measure length") auto

declare split_lines.simps [simp del]

fun header_fields :: "string list \<Rightarrow> nat \<Rightarrow> string + nat" where
  "header_fields [] content_length = Inr content_length"
| "header_fields (line # rest) content_length =
     (case header_line content_length line of
        Inl e \<Rightarrow> Inl e
      | Inr content_length \<Rightarrow> header_fields rest content_length)"

definition parse_body :: "string \<Rightarrow> string \<times> string \<Rightarrow> nat \<Rightarrow> string + http_request" where
  "parse_body rest line content_length =
     (if content_length > kMaximumBodyBytes then Inl ''HTTP body exceeds 1 MiB''
      else if length rest < content_length then Inl ''connection closed before the HTTP body completed''
      else Inr \<lparr> hr_method = fst line, hr_path = snd line, hr_body = take content_length rest \<rparr>)"

definition parse_http :: "string \<Rightarrow> string + http_request" where
  "parse_http whole =
     (case find_sub (crlf @ crlf) whole of
        None \<Rightarrow> Inl ''connection closed before the HTTP headers completed''
      | Some h \<Rightarrow>
          (case split_lines (take h whole) of
             [] \<Rightarrow> Inl ''malformed HTTP request line''
           | line # headers \<Rightarrow>
               json_bind (request_line line) (\<lambda>start.
               json_bind (header_fields headers 0) (parse_body (drop (h + 4) whole) start))))"

text \<open>The kernel delivers a text, in any non-empty segments and with any interruptions, and then
  the end of the stream.\<close>

fun delivers :: "recv_answer list \<Rightarrow> string \<Rightarrow> bool" where
  "delivers [] t \<longleftrightarrow> False"
| "delivers (Recv_Failed # rest) t \<longleftrightarrow> False"
| "delivers (Recv_Interrupted # rest) t \<longleftrightarrow> delivers rest t"
| "delivers (Received s # rest) t \<longleftrightarrow>
     (if s = [] then t = [] else is_prefix s t \<and> delivers rest (drop (length s) t))"

text \<open>The reader refuses more than 64 KiB in its buffer when the headers are complete.\<close>

definition fits :: "string \<Rightarrow> bool" where
  "fits t \<longleftrightarrow> length t \<le> kMaximumHeaderBytes
     \<or> (case find_sub (crlf @ crlf) t of None \<Rightarrow> False | Some h \<Rightarrow> h + 4099 \<le> kMaximumHeaderBytes)"

lemma delivers_recv:
  assumes "delivers answers t" "0 < n" "recv n answers = (a, rest)"
  shows "case a of
      Received s \<Rightarrow> if s = [] then t = [] else t = s @ drop (length s) t \<and> length s \<le> n \<and> delivers rest (drop (length s) t)
    | Recv_Interrupted \<Rightarrow> delivers rest t
    | Recv_Failed \<Rightarrow> False"
proof (cases answers)
  case Nil
  with assms show ?thesis by simp
next
  case (Cons x xs)
  show ?thesis
  proof (cases x)
    case (Received s)
    show ?thesis
    proof (cases "s = []")
      case True
      with assms Cons Received show ?thesis by auto
    next
      case False
      have p: "t = s @ drop (length s) t" and d: "delivers xs (drop (length s) t)"
        using assms(1) Cons Received False by (simp_all add: is_prefix_def) (metis append_take_drop_id)
      show ?thesis
      proof (cases "length s \<le> n")
        case True
        with assms(3) Cons Received have "a = Received s" "rest = xs"
          by auto
        with False p d True show ?thesis by simp
      next
        case long: False
        have rest: "a = Received (take n s)" "rest = Received (drop n s) # xs"
          using assms(3) Cons Received long by auto
        have len: "length (take n s) = n"
          using long by simp
        have t: "drop n t = drop n s @ drop (length s) t"
          using long by (subst p) simp
        have "t = take n s @ drop n t"
          using long by (subst p) (simp add: t)
        moreover have "delivers rest (drop n t)"
          using long d unfolding rest(2) t by simp
        ultimately show ?thesis
          using assms(2) long False unfolding rest(1) len by (auto simp: not_le)
      qed
    qed
  qed (use assms Cons in auto)
qed

lemma read_headers_delivers:
  assumes "delivers answers t" "find_sub (crlf @ crlf) bytes = None" "fits (bytes @ t)"
  shows "case find_sub (crlf @ crlf) (bytes @ t) of
      None \<Rightarrow> fst (read_headers answers bytes) = Inl ''connection closed before the HTTP headers completed''
    | Some h \<Rightarrow> \<exists>m answers'. read_headers answers bytes = (Inr (bytes @ take m t, h), answers')
        \<and> h + 4 \<le> length (bytes @ take m t) \<and> delivers answers' (drop m t)"
  using assms
proof (induction answers bytes arbitrary: t rule: read_headers.induct)
  case (1 answers bytes)
  obtain a answers' where r: "recv 4096 answers = (a, answers')"
    by force
  note d = delivers_recv [OF "1.prems"(1) _ r]
  show ?case
  proof (cases a)
    case (Received s)
    show ?thesis
    proof (cases "s = []")
      case True
      then have "t = []"
        using d Received by simp
      then show ?thesis
        using "1.prems" True Received r by (simp add: read_headers.simps [of answers])
    next
      case False
      define u where "u = drop (length s) t"
      have t: "t = s @ u" and len: "length s \<le> 4096" and rest: "delivers answers' u"
        using d Received False by (auto simp: u_def)
      have small: "\<not> length (bytes @ s) > kMaximumHeaderBytes"
      proof (cases "length (bytes @ t) \<le> kMaximumHeaderBytes")
        case True
        then show ?thesis by (simp add: t)
      next
        case False
        then obtain h where h: "find_sub (crlf @ crlf) (bytes @ t) = Some h" "h + 4099 \<le> kMaximumHeaderBytes"
          using "1.prems"(3) by (auto simp: fits_def split: option.splits)
        have "\<not> h + 4 \<le> length bytes"
          using find_sub_restrict [OF h(1)] "1.prems"(2) by auto
        then show ?thesis
          using h(2) len by simp
      qed
      have eq: "read_headers answers bytes = (case find_sub (crlf @ crlf) (bytes @ s) of
          None \<Rightarrow> read_headers answers' (bytes @ s) | Some header_end \<Rightarrow> (Inr (bytes @ s, header_end), answers'))"
        using False small by (subst read_headers.simps) (simp add: r Received del: length_append)
      show ?thesis
      proof (cases "find_sub (crlf @ crlf) (bytes @ s)")
        case None
        have IH: "case find_sub (crlf @ crlf) ((bytes @ s) @ u) of
            None \<Rightarrow> fst (read_headers answers' (bytes @ s)) = Inl ''connection closed before the HTTP headers completed''
          | Some h \<Rightarrow> \<exists>m answers''. read_headers answers' (bytes @ s) = (Inr ((bytes @ s) @ take m u, h), answers'')
              \<and> h + 4 \<le> length ((bytes @ s) @ take m u) \<and> delivers answers'' (drop m u)"
          by (rule "1.IH"(1) [OF r [symmetric] Received False small None rest None]) (use "1.prems"(3) t in simp)
        show ?thesis
        proof (cases "find_sub (crlf @ crlf) (bytes @ t)")
          case none: None
          with IH t eq None show ?thesis by simp
        next
          case (Some h)
          with IH t obtain m answers'' where m: "read_headers answers' (bytes @ s) = (Inr ((bytes @ s) @ take m u, h), answers'')"
            "h + 4 \<le> length ((bytes @ s) @ take m u)" "delivers answers'' (drop m u)"
            by auto
          then show ?thesis
            using Some eq None t by (auto intro!: exI [of _ "length s + m"] exI [of _ answers''])
        qed
      next
        case (Some h)
        have "h + 4 \<le> length (bytes @ s)"
          using find_sub_Some [OF Some] by (simp only: crlf_simps)
        moreover have "find_sub (crlf @ crlf) (bytes @ t) = Some h"
          using find_sub_extend [OF Some, of u] t by simp
        ultimately show ?thesis
          using eq Some rest t by (auto intro!: exI [of _ "length s"])
      qed
    qed
  next
    case Recv_Interrupted
    then have "delivers answers' t"
      using d by simp
    note IH = "1.IH"(2) [OF r [symmetric] Recv_Interrupted this "1.prems"(2,3)]
    have eq: "read_headers answers bytes = read_headers answers' bytes"
      by (subst read_headers.simps) (simp add: r Recv_Interrupted)
    show ?thesis
      unfolding eq by (rule IH)
  next
    case Recv_Failed
    then show ?thesis
      using d by simp
  qed
qed

lemma read_body_delivers:
  assumes "delivers answers t" "start \<le> length bytes"
  shows "fst (read_body answers bytes start n) =
    (if length (drop start (bytes @ t)) < n then Inl ''connection closed before the HTTP body completed''
     else Inr (take n (drop start (bytes @ t))))"
  using assms
proof (induction answers bytes start n arbitrary: t rule: read_body.induct)
  case (1 answers bytes start n)
  show ?case
  proof (cases "length bytes - start < n")
    case False
    then show ?thesis
      using "1.prems" by (subst read_body.simps) (simp add: substr_def)
  next
    case True
    let ?needed = "min 8192 (n - (length bytes - start))"
    obtain a answers' where r: "recv ?needed answers = (a, answers')"
      by force
    note d = delivers_recv [OF "1.prems"(1) _ r]
    show ?thesis
    proof (cases a)
      case (Received s)
      show ?thesis
      proof (cases "s = []")
        case empty: True
        then have "t = []"
          using d Received True by simp
        then show ?thesis
          using "1.prems" True empty Received r by (subst read_body.simps) (simp add: Let_def)
      next
        case False
        define u where "u = drop (length s) t"
        have t: "t = s @ u" and rest: "delivers answers' u"
          using d Received False True by (auto simp: u_def)
        have "fst (read_body answers' (bytes @ s) start n) =
          (if length (drop start ((bytes @ s) @ u)) < n then Inl ''connection closed before the HTTP body completed''
           else Inr (take n (drop start ((bytes @ s) @ u))))"
          by (rule "1.IH"(1) [OF True refl r [symmetric] Received False rest]) (use "1.prems"(2) in simp)
        then show ?thesis
          using True r Received False unfolding t append_assoc by (subst read_body.simps) (simp add: Let_def)
      qed
    next
      case Recv_Interrupted
      then have "delivers answers' t"
        using d True by simp
      from "1.IH"(2) [OF True refl r [symmetric] Recv_Interrupted this "1.prems"(2)] show ?thesis
        using True r Recv_Interrupted by (subst read_body.simps) (simp add: Let_def)
    next
      case Recv_Failed
      then show ?thesis
        using d True by simp
    qed
  qed
qed

lemma crlf_at:
  assumes "is_prefix crlf (drop i s)"
  shows "s ! i = CHR 0x0D" "s ! (i + 1) = CHR 0x0A" "i + 2 \<le> length s"
proof -
  show len: "i + 2 \<le> length s"
    using is_prefix_bound [OF assms] by simp
  have "take 2 (drop i s) = crlf"
    using assms by (simp add: is_prefix_def)
  then have "take 2 (drop i s) ! 0 = CHR 0x0D" "take 2 (drop i s) ! 1 = CHR 0x0A"
    by (simp_all add: crlf_def)
  then show "s ! i = CHR 0x0D" "s ! (i + 1) = CHR 0x0A"
    using len by simp_all
qed

lemma find_from_first:
  assumes "is_prefix crlf (drop h s)" "c \<le> h"
  obtains stop where "find_from crlf c s = Some stop" "c \<le> stop" "stop \<le> h" "is_prefix crlf (drop stop s)"
    "\<And>j. c \<le> j \<Longrightarrow> j < stop \<Longrightarrow> \<not> is_prefix crlf (drop j s)"
proof -
  have "is_prefix crlf (drop (h - c) (drop c s))"
    using assms by simp
  then obtain i where i: "find_sub crlf (drop c s) = Some i"
    using find_sub_none [of crlf "drop c s"] by fastforce
  note f = i [unfolded find_sub_iff [OF crlf_simps(1)]]
  have "i \<le> h - c"
    using f assms by (metis add.commute drop_drop le_add_diff_inverse2 not_le_imp_less)
  moreover have "c \<le> length s"
    using crlf_at(3) [OF assms(1)] assms(2) by simp
  moreover have "\<not> is_prefix crlf (drop j s)" if "c \<le> j" "j < c + i" for j
  proof -
    have "\<not> is_prefix crlf (drop (j - c) (drop c s))"
      using f that by (simp add: less_diff_conv2 [OF that(1)] del: drop_drop) 
    then show ?thesis
      using that by simp
  qed
  ultimately show thesis
    using that [of "c + i"] i f assms(2) by (simp add: find_from_def add.commute)
qed

lemma header_lines_split:
  assumes "is_prefix crlf (drop h bytes)"
  shows "header_lines bytes h c n = header_fields (split_lines (substr c (h - c) bytes)) n"
  using assms
proof (induction bytes h c n rule: header_lines.induct)
  case (1 bytes h c n)
  let ?block = "substr c (h - c) bytes"
  show ?case
  proof (cases "c < h")
    case False
    then show ?thesis
      by (simp add: header_lines.simps substr_def split_lines.simps)
  next
    case True
    have len: "h + 2 \<le> length bytes"
      by (rule crlf_at(3) [OF "1.prems"])
    have block: "?block \<noteq> []" "length ?block = h - c"
      using True len by (auto simp: substr_def)
    obtain stop where stop: "find_from crlf c bytes = Some stop" "c \<le> stop" "stop \<le> h" "is_prefix crlf (drop stop bytes)"
      "\<And>j. c \<le> j \<Longrightarrow> j < stop \<Longrightarrow> \<not> is_prefix crlf (drop j bytes)"
      using find_from_first [OF "1.prems", of c] True by auto
    have inside: "is_prefix crlf (drop j ?block) \<longleftrightarrow> is_prefix crlf (drop (c + j) bytes) \<and> c + j + 2 \<le> h" for j
    proof -
      have "drop j ?block = take (h - (c + j)) (drop (c + j) bytes)"
        by (simp add: substr_def drop_take add.commute)
      then show ?thesis
        using is_prefix_bound [of crlf j ?block] block(2)
        by (auto simp: is_prefix_def min_def split: if_splits)
    qed
    have line: "substr c (stop - c) bytes = take (stop - c) ?block"
      using stop(3) by (simp add: substr_def min_def)
    have step: "header_lines bytes h c n = (case header_line n (take (stop - c) ?block) of
        Inl e \<Rightarrow> Inl e | Inr m \<Rightarrow> header_lines bytes h (stop + 2) m)"
      using True stop by (subst header_lines.simps) (simp add: line)
    have IH: "header_lines bytes h (stop + 2) m = header_fields (split_lines (substr (stop + 2) (h - (stop + 2)) bytes)) m"
      if "header_line n (take (stop - c) ?block) = Inr m" for m
      by (rule "1.IH" [OF True stop(1)]) (use stop(3) that "1.prems" in \<open>simp_all add: line\<close>)
    show ?thesis
    proof (cases "stop = h")
      case last: True
      have "find_sub crlf ?block = None"
        using inside stop(5) last by (auto simp: find_sub_none)
      then have "split_lines ?block = [?block]"
        using block by (subst split_lines.simps) simp
      moreover have "header_lines bytes h (stop + 2) m = Inr m" for m
        using last by (subst header_lines.simps) simp
      ultimately show ?thesis
        using step last block(2) by (simp split: sum.split)
    next
      case False
      have "stop + 1 \<noteq> h"
        using crlf_at(2) [OF stop(4)] crlf_at(1) [OF "1.prems"] by auto
      then have room: "stop + 2 \<le> h"
        using False stop(3) by simp
      have "find_sub crlf ?block = Some (stop - c)"
        using inside stop room by (auto simp: find_sub_iff)
      then have "split_lines ?block = take (stop - c) ?block # split_lines (drop (stop - c + 2) ?block)"
        using block by (subst split_lines.simps) simp
      moreover have "drop (stop - c + 2) ?block = substr (stop + 2) (h - (stop + 2)) bytes"
        using stop(2) room by (simp add: substr_def drop_take add.commute)
      ultimately show ?thesis
        using step IH by (simp split: sum.split)
    qed
  qed
qed


text \<open>The reader's request line and header lines are the lines of the header block.\<close>

lemma header_split:
  assumes at: "is_prefix crlf (drop h bytes)"
  obtains line_end where "find_sub crlf bytes = Some line_end"
    "case split_lines (take h bytes) of
       [] \<Rightarrow> take line_end bytes = []
     | line # headers \<Rightarrow> take line_end bytes = line
         \<and> header_lines bytes h (line_end + 2) 0 = header_fields headers 0"
proof -
  have len: "length (take h bytes) = h"
    using crlf_at(3) [OF at] by simp
  obtain line_end where line_end: "find_from crlf 0 bytes = Some line_end" "line_end \<le> h" "is_prefix crlf (drop line_end bytes)"
    "\<And>j. j < line_end \<Longrightarrow> \<not> is_prefix crlf (drop j bytes)"
    using find_from_first [OF at, of 0] by auto
  then have first: "find_sub crlf bytes = Some line_end"
    by (simp add: find_sub_iff)
  show thesis
  proof (cases "line_end = h")
    case True
    have "\<not> is_prefix crlf (drop j (take h bytes))" for j
      using is_prefix_bound [of crlf j "take h bytes"] is_prefix_extend [of crlf j "take h bytes" "drop h bytes"] line_end(4) [of j]
        True len by auto
    then have "split_lines (take h bytes) = (if h = 0 then [] else [take h bytes])"
      using find_sub_none [of crlf "take h bytes"] len by (subst split_lines.simps) auto
    moreover have "header_lines bytes h (line_end + 2) 0 = Inr 0"
      using True by (simp add: header_lines.simps)
    ultimately show ?thesis
      using True by (intro that [OF first]) simp
  next
    case False
    have "line_end + 1 \<noteq> h"
      using crlf_at(2) [OF line_end(3)] crlf_at(1) [OF at] by auto
    then have room: "line_end + 2 \<le> h"
      using False line_end(2) by simp
    have "find_sub crlf (take h bytes @ drop h bytes) = Some line_end"
      using first by (simp only: append_take_drop_id)
    then have "find_sub crlf (take h bytes) = Some line_end"
      by (rule find_sub_restrict) (use room len in simp_all)
    then have "split_lines (take h bytes) = take line_end (take h bytes) # split_lines (drop (line_end + 2) (take h bytes))"
      using room by (subst split_lines.simps) auto
    moreover have "take line_end (take h bytes) = take line_end bytes"
      using line_end(2) by (simp add: min.absorb1)
    moreover have "drop (line_end + 2) (take h bytes) = substr (line_end + 2) (h - (line_end + 2)) bytes"
      by (simp only: substr_def drop_take)
    ultimately show ?thesis
      using header_lines_split [OF at, of "line_end + 2" 0] by (intro that [OF first]) simp
  qed
qed

section \<open>Properties\<close>



text \<open>A request in three segments with an interruption, cut inside the headers and inside the body.\<close>

definition sample_request :: string where
  "sample_request = ''POST /v1/x?y HTTP/1.1'' @ crlf @ ''Content-Length: 2'' @ crlf @ crlf @ ''ok''"

lemma small_letters: "char_of (99 :: nat) = CHR ''c''" "char_of (108 :: nat) = CHR ''l''"
  by code_simp+


end
