(* ===== verification/GenerateLive.thy ===== *)
theory GenerateLive
  imports Generate
begin

text \<open>
  Generation on a device that succeeds: a created session of a resident, scaled model is ready for
  the prompt, every round of the loop keeps it ready for the next one, and so no guard of the
  session ever refuses a step.
\<close>

section \<open>A created session\<close>

text \<open>Every resident matrix has its scales.\<close>

definition scaled_model :: "engine \<Rightarrow> bool" where
  "scaled_model en \<longleftrightarrow> list_all (\<lambda>v. dv_rank v \<noteq> 2 \<or> dv_auxiliary v \<noteq> None) (en_device_tensors en)"

lemma scaled_matrix:
  assumes "scaled_model en" "serves_model en" "matrix_shaped (find_device_tensor en name) r c"
  shows "bound_matrix (find_device_tensor en name)"
proof -
  obtain v where v: "find_device_tensor en name = Some v" "dv_rank v = 2"
    using assms(3) by (auto simp: matrix_shaped_def)
  then have "v \<in> set (en_device_tensors en)"
    using device_table.lookup_Some [of en name v] assms(2) by (simp add: serves_model_def)
  then show ?thesis
    using assms(1) v by (auto simp: scaled_model_def list_all_iff bound_matrix_def)
qed

lemma bound_layer_matrices:
  assumes "scaled_model en" "serves_model en" "i < 64"
  shows "bound_matrices (bound_layer en i)"
proof -
  note shaped = bound_layer_shaped(1) [OF assms(2,3)]
  note scaled = scaled_matrix [OF assms(1,2)]
  note bound = bound_layer_def bind_common_def bind_attention_def bind_gdn_def
  show ?thesis
    using shaped unfolding layer_shaped_def bound_matrices_def bound_layer_fields
    by (cases "is_full_attention i") (auto simp: bound intro: scaled)
qed

lemma mtp_layer_matrices:
  assumes "scaled_model en" "serves_model en"
  shows "bound_matrices (bind_mtp_layer en)"
  using mtp_layer_shaped(1,3) [OF assms(2)] unfolding layer_shaped_def bound_matrices_def
  by (auto simp: bind_mtp_layer_def bind_common_def bind_attention_def mtp_lookup_def intro: scaled_matrix [OF assms])

lemma draft_head_scaled:
  assumes "scaled_model en" "serves_model en" "bind_draft_head en lm = Inr (head, ids)" "bound_matrix (Some lm)"
  shows "bound_matrix (Some head)"
proof (cases "find_device_tensor en ''mtp.draft_head.weight''")
  case None
  then show ?thesis
    using assms(3,4) by (auto simp: bind_draft_head_def bound_matrix_def head_prefix_def split: option.splits)
next
  case (Some v)
  have "valid_ranked_head v ids'" if "find_device_tensor en ''mtp.draft_head_token_ids'' = Some ids'" for ids'
    using assms(3) Some that by (auto simp: bind_draft_head_def split: if_splits)
  then have rank: "dv_rank v = 2" and head: "head = head_prefix v"
    using assms(3) Some by (auto simp: bind_draft_head_def valid_ranked_head_def split: option.splits if_splits)
  have "v \<in> set (en_device_tensors en)"
    using device_table.lookup_Some [of en "''mtp.draft_head.weight''" v] assms(2) Some by (simp add: serves_model_def)
  then show ?thesis
    using assms(1) rank by (auto simp: head scaled_model_def list_all_iff bound_matrix_def head_prefix_def)
qed

lemma bind_session_launchable:
  assumes scaled: "scaled_model en" "serves_model en" and bind: "bind_session en config = Inr s"
  shows "launchable s"
proof -
  obtain embedding final_norm lm_head where t: "find_device_tensor en ''model.language_model.embed_tokens.weight'' = Some embedding"
    "find_device_tensor en ''model.language_model.norm.weight'' = Some final_norm" "find_device_tensor en ''lm_head.weight'' = Some lm_head"
    using bind by (auto simp: bind_session_def split: option.splits)
  obtain head ids where h: "bind_draft_head en lm_head = Inr (head, ids)"
    using bind by (cases "bind_draft_head en lm_head") (auto simp: bind_session_def t split: if_splits)
  have s: "ss_layers s = map (bound_layer en) [0..<64]" "ss_mtp_layer s = bind_mtp_layer en" "ss_lm_head s = lm_head"
    "ss_mtp_draft_head s = head" "ss_mtp_fc s = mtp_lookup en ''fc.weight''"
    using bind by (auto simp: bind_session_def t h bind_layers_model [OF scaled(2)] simp del: upt_rec_numeral split: if_splits)
  have m: "bound_matrix (find_device_tensor en name)" if "(name, [r, c]) \<in> set (head_specs @ mtp_specs)" for name r c
    using scaled_matrix [OF scaled found_matrix [OF flat_spec_found [OF scaled(2) that]]] .
  have lm: "bound_matrix (Some lm_head)"
    using m [of "''lm_head.weight''" 248320 5120] t(3) by (simp add: head_specs_def)
  have fc: "bound_matrix (mtp_lookup en ''fc.weight'')"
    using m [of "''mtp.fc.weight''" 5120 10240] by (simp add: mtp_lookup_def mtp_specs_def)
  show ?thesis
    unfolding launchable_def s
    using bound_layer_matrices [OF scaled] mtp_layer_matrices [OF scaled] mtp_layer_shaped(3) [OF scaled(2)] lm fc
      draft_head_scaled [OF scaled h lm] by (simp add: list_all_iff del: upt_rec_numeral)
qed

definition graphs_ready :: "session \<Rightarrow> bool" where
  "graphs_ready s \<longleftrightarrow> dc_graph_verifier_batch (ss_config s) = 0 \<or> (\<forall>parity. ss_graphs s parity \<noteq> None)"

lemma created_session_ready:
  assumes "scaled_model en" "serves_model en" "session_create rt en config g = (Inr (s, offsets), g')"
  shows "launchable s \<and> graphs_ready s \<and> ss_config s = config \<and> ss_current_position s = 0 \<and> ss_mtp_position s = 0
    \<and> \<not> ss_mtp_chain_active s"
proof -
  obtain s0 s1 where s0: "bind_session en config = Inr s0" "prepare_speculative_graphs (ct_capture rt) s0 = Inr s1"
    "s = s1\<lparr>ss_summary := ss_summary s\<rparr>"
    by (rule session_create_steps [OF assms(3)])
  note fresh = bind_session_new [OF s0(1)]
  have l0: "launchable s0"
    by (rule bind_session_launchable [OF assms(1,2) s0(1)])
  show ?thesis
  proof (cases "dc_graph_verifier_batch config = 0")
    case True
    then have "s1 = s0"
      using s0(2) fresh by (simp add: prepare_speculative_graphs_def)
    then show ?thesis
      using fresh l0 True by (subst (1 2 3 4 5 6) s0(3)) (simp add: launchable_def graphs_ready_def)
  next
    case False
    then obtain gs where gs: "s1 = s0\<lparr> ss_graphs := (\<lambda>parity. Some (gs parity)), ss_record_rollback := False \<rparr>"
      using s0(2) fresh
      by (cases "captured_graph (ct_capture rt) (s0\<lparr>ss_record_rollback := True\<rparr>) False";
          cases "captured_graph (ct_capture rt) (swap_states (s0\<lparr>ss_record_rollback := True\<rparr>)) True")
        (auto simp: prepare_speculative_graphs_def Let_def)
    show ?thesis
      using fresh l0 by (subst (1 2 3 4 5 6) s0(3)) (simp add: gs launchable_def graphs_ready_def)
  qed
qed

section \<open>Steps\<close>

text \<open>Between two steps: the proposal layer is one position behind the target while drafts are made.\<close>

definition ready :: "bool \<Rightarrow> session \<Rightarrow> bool" where
  "ready drafting s \<longleftrightarrow> launchable s \<and> graphs_ready s \<and> ss_last_hidden s \<noteq> Null_Pointer \<and> \<not> ss_mtp_chain_active s
     \<and> (drafting \<longrightarrow> ss_mtp_position s + 1 = ss_current_position s)"

lemma ready_greedy:
  assumes "succeeding bound dev" "launchable s" "graphs_ready s" "\<not> ss_mtp_chain_active s"
    "drafting \<longrightarrow> ss_mtp_position s = ss_current_position s"
    "ss_current_position s < dc_maximum_context_tokens (ss_config s)" "t < vocabulary_size"
  shows "\<exists>r s' d'. greedy_step dev s t d = (Inr r, s', d') \<and> r < bound \<and> ready drafting s' \<and> ss_config s' = ss_config s
    \<and> ss_current_position s' = ss_current_position s + 1"
  using greedy_step_progress [OF assms(1,2,6,7), of d] assms greedy_layers_hidden [of s t]
  by (auto simp: ready_def graphs_ready_def)

lemma prefill_progress:
  assumes dev: "succeeding bound dev"
  shows "ready drafting s \<Longrightarrow> ss_current_position s + length tokens \<le> dc_maximum_context_tokens (ss_config s) \<Longrightarrow>
    list_all (\<lambda>t. t < tokenizer_vocabulary_size) tokens \<Longrightarrow> r < bound \<Longrightarrow>
    \<exists>r' s' d'. prefill dev drafting tokens r s d = (Inr r', s', d') \<and> r' < bound \<and> ready drafting s' \<and> ss_config s' = ss_config s
      \<and> ss_current_position s' = ss_current_position s + length tokens"
proof (induction tokens arbitrary: s d r)
  case (Cons t tokens)
  have t: "t < tokenizer_vocabulary_size" "t < vocabulary_size"
    using Cons.prems(3) by (simp_all add: tokenizer_vocabulary_size_def vocabulary_size_def)
  obtain x s1 d1 where sync: "(if drafting then mtp_draft dev s t d else (Inr 0, s, d)) = (Inr x, s1, d1)"
    and s1: "launchable s1" "graphs_ready s1" "\<not> ss_mtp_chain_active s1" "drafting \<longrightarrow> ss_mtp_position s1 = ss_current_position s1"
      "ss_config s1 = ss_config s" "ss_current_position s1 = ss_current_position s"
  proof (cases drafting)
    case True
    have r: "launchable s" "ss_last_hidden s \<noteq> Null_Pointer" "ss_mtp_position s + 1 = ss_current_position s" "graphs_ready s"
      "\<not> ss_mtp_chain_active s"
      using Cons.prems(1) True by (simp_all only: ready_def simp_thms)
    obtain x d1 where "mtp_draft dev s t d = (Inr x, s\<lparr>ss_mtp_position := ss_mtp_position s + 1\<rparr>, d1)"
      using mtp_draft_progress [OF dev r(1-3) t(1), of d] by blast
    then have step: "(if drafting then mtp_draft dev s t d else (Inr 0, s, d))
        = (Inr x, s\<lparr>ss_mtp_position := ss_mtp_position s + 1\<rparr>, d1)"
      by (simp only: True if_True)
    have graphs: "graphs_ready (s\<lparr>ss_mtp_position := ss_mtp_position s + 1\<rparr>)"
      using r(4) by (simp add: graphs_ready_def)
    show ?thesis
      by (rule that [OF step _ graphs]) (simp_all add: r(1,5) r(3) [simplified])
  next
    case False
    then show ?thesis
      by (intro that [of 0 s d]) (use False Cons.prems(1) in \<open>simp_all add: ready_def\<close>)
  qed
  have room: "ss_current_position s1 < dc_maximum_context_tokens (ss_config s1)"
    using Cons.prems(2) s1(5,6) by simp
  obtain r2 s2 d2 where step: "greedy_step dev s1 t d1 = (Inr r2, s2, d2)" "r2 < bound" "ready drafting s2"
    "ss_config s2 = ss_config s" "ss_current_position s2 = ss_current_position s + 1"
    using ready_greedy [OF dev s1(1-4) room t(2), of d1] s1(5,6) by auto
  have next_step: "prefill dev drafting (t # tokens) r s d = prefill dev drafting tokens r2 s2 d2"
    by (simp only: prefill.simps sync Let_def prod.case step(1) sum.case)
  have "ss_current_position s2 + length tokens \<le> dc_maximum_context_tokens (ss_config s2)"
    "list_all (\<lambda>t. t < tokenizer_vocabulary_size) tokens"
    using Cons.prems(2,3) step(4,5) by simp_all
  from Cons.IH [OF step(3) this step(2), of d2] show ?case
    unfolding next_step using step(4,5) by auto
qed simp

lemma speculative_positions:
  assumes step: "speculative_step dev s t n d = (Inr r, s', d')"
  shows "ss_current_position s' = ss_current_position s + length (sr_tokens r) \<and> ss_mtp_position s' + 1 = ss_current_position s'"
proof (rule speculative_step_succeeds [OF step], goal_cases)
  case (1 d0 st0 d1 st1 s1 d2 drafts d3 outs accepted)
  then show ?case
    using 1(5-8) accepted_prefix_bound [of "map drafts [0..<n]" "map outs [0..<n + 1]"] by simp
qed

lemma ready_speculative:
  assumes "succeeding bound dev" "ready True s" "0 < n" "n < kMaximumBlock" "t < tokenizer_vocabulary_size"
    and room: "ss_current_position s + (n + 1) \<le> dc_maximum_context_tokens (ss_config s)"
  shows "\<exists>r s' d'. speculative_step dev s t n d = (Inr r, s', d') \<and> list_all (\<lambda>t. t < bound) (sr_tokens r) \<and> ready True s'
    \<and> ss_config s' = ss_config s \<and> ss_current_position s' = ss_current_position s + length (sr_tokens r)"
proof -
  have graphs: "ss_graphs s (ss_gdn_state_parity s) \<noteq> None" if "n + 1 = dc_graph_verifier_batch (ss_config s)"
    using assms(2) that by (auto simp: ready_def graphs_ready_def)
  have enough: "n + 1 \<le> dc_maximum_context_tokens (ss_config s) - ss_current_position s"
    using room by simp
  obtain r s' d' where step: "speculative_step dev s t n d = (Inr r, s', d')" "committed s s'" "list_all (\<lambda>t. t < bound) (sr_tokens r)"
    using speculative_step_progress [OF assms(1) _ _ assms(3-5) _ enough graphs, of d] assms(2) by (auto simp: ready_def)
  note pos = speculative_positions [OF step(1)]
  have "ready True s'" "ss_config s' = ss_config s"
    using step(2) assms(2) pos
    by (auto simp: ready_def committed_def graphs_ready_def same_bindings_def intro: same_bindings_launchable [of s])
  then show ?thesis
    using step pos by blast
qed

section \<open>The loop\<close>

definition decodable :: "qwen_tokenizer \<Rightarrow> nat \<Rightarrow> bool" where
  "decodable tk bound \<longleftrightarrow> (\<forall>t < bound. \<exists>piece. decode_token tk t = Inr piece)"

lemma result_all_total: "(\<forall>x \<in> set xs. \<exists>y. f x = Inr y) \<Longrightarrow> \<exists>ys. result_all f xs = Inr ys"
  by (induction xs) auto

lemma decodable_tokens:
  assumes "decodable tk bound" "list_all (\<lambda>t. t < bound) ts"
  shows "\<exists>decoded. tokenizer_decode tk ts = Inr decoded"
  using result_all_total [of ts "decode_token tk"] assms by (auto simp: tokenizer_decode_def decodable_def list_all_iff)

lemma consume_token_progress:
  assumes "decodable tk bound" "list_all (\<lambda>t. t < bound) (gn_content_tokens g)" "t < bound"
  shows "\<exists>g'. consume_token tk on_text t g = (ok_status, g') \<and> list_all (\<lambda>t. t < bound) (gn_content_tokens g') \<and> gn_next g' = t"
proof -
  have "list_all (\<lambda>t. t < bound) (gn_content_tokens g @ [t])"
    using assms(2,3) by simp
  from decodable_tokens [OF assms(1) this] obtain decoded where "tokenizer_decode tk (gn_content_tokens g @ [t]) = Inr decoded"
    by blast
  then show ?thesis
    using assms(2,3) by (auto simp: consume_token_def emit_content_def Let_def split: option.split prod.split)
qed

lemma consume_tokens_progress:
  assumes "decodable tk bound"
  shows "list_all (\<lambda>t. t < bound) (gn_content_tokens g) \<Longrightarrow> list_all (\<lambda>t. t < bound) ts \<Longrightarrow>
    gr_completion_tokens (gn_output g) < maximum \<Longrightarrow> gn_next g < bound \<Longrightarrow>
    \<exists>g'. consume_tokens tk on_text maximum ts g = (ok_status, g') \<and> list_all (\<lambda>t. t < bound) (gn_content_tokens g')
      \<and> gn_next g' < bound \<and> gr_completion_tokens (gn_output g') \<le> maximum
      \<and> (\<not> finished maximum g' \<longrightarrow> gr_completion_tokens (gn_output g') = gr_completion_tokens (gn_output g) + length ts)"
proof (induction ts arbitrary: g)
  case (Cons t ts)
  obtain g1 where g1: "consume_token tk on_text t g = (ok_status, g1)" "list_all (\<lambda>t. t < bound) (gn_content_tokens g1)" "gn_next g1 = t"
    using consume_token_progress [OF assms Cons.prems(1), of t] Cons.prems(2) by auto
  have count: "gr_completion_tokens (gn_output g1) = gr_completion_tokens (gn_output g) + 1"
    by (rule consume_token_completion [OF g1(1)])
  show ?case
  proof (cases "finished maximum g1")
    case True
    then show ?thesis
      using g1 count Cons.prems by simp
  next
    case False
    then have "gr_completion_tokens (gn_output g1) < maximum"
      using count Cons.prems(3) by (simp add: finished_def)
    from Cons.IH [OF g1(2) _ this] show ?thesis
      using g1 count False Cons.prems(2) by simp
  qed
qed simp

text \<open>What holds whenever the loop goes on.\<close>

definition loop_inv :: "nat \<Rightarrow> nat \<Rightarrow> nat \<Rightarrow> decode_session_config \<Rightarrow> session \<Rightarrow> 'k generating \<Rightarrow> bool" where
  "loop_inv bound draft_count maximum config s g \<longleftrightarrow>
     gr_completion_tokens (gn_output g) \<le> maximum \<and> list_all (\<lambda>t. t < bound) (gn_content_tokens g) \<and> gn_next g < bound
     \<and> (\<not> finished maximum g \<longrightarrow> ready (draft_count \<noteq> 0) s \<and> ss_config s = config
          \<and> ss_current_position s + (maximum - gr_completion_tokens (gn_output g)) < dc_maximum_context_tokens config)"

lemma decode_round_progress:
  assumes dev: "succeeding bound dev" and tk: "decodable tk bound" "bound \<le> tokenizer_vocabulary_size"
    and drafts: "draft_count < kMaximumBlock"
    and inv: "loop_inv bound draft_count maximum config s g" and more: "\<not> finished maximum g"
  shows "\<exists>s' d' g'. decode_round dev tk on_text draft_count maximum s d g = (Inr (), s', d', g')
    \<and> loop_inv bound draft_count maximum config s' g'"
proof -
  let ?left = "maximum - gr_completion_tokens (gn_output g)"
  have s: "ready (draft_count \<noteq> 0) s" "ss_config s = config" "ss_current_position s + ?left < dc_maximum_context_tokens config"
    and g: "list_all (\<lambda>t. t < bound) (gn_content_tokens g)" "gn_next g < bound" "gr_completion_tokens (gn_output g) < maximum"
    using inv more by (auto simp: loop_inv_def finished_def)
  have small: "gn_next g < tokenizer_vocabulary_size" "gn_next g < vocabulary_size"
    using g(2) tk(2) by (simp_all add: tokenizer_vocabulary_size_def vocabulary_size_def)
  show ?thesis
  proof (cases "draft_count = 0 \<or> ?left = 1")
    case True
    have room: "ss_current_position s < dc_maximum_context_tokens (ss_config s)"
      using s(2,3) by simp
    obtain r s1 d1 where step: "greedy_step dev s (gn_next g) d = (Inr r, s1, d1)" "r < bound" "ready False s1"
      "ss_config s1 = config" "ss_current_position s1 = ss_current_position s + 1"
      using ready_greedy [OF dev _ _ _ _ room small(2), of False d] s(1,2) by (auto simp: ready_def)
    obtain g1 where g1: "consume_token tk on_text r g = (ok_status, g1)" "list_all (\<lambda>t. t < bound) (gn_content_tokens g1)" "gn_next g1 = r"
      using consume_token_progress [OF tk(1) g(1) step(2)] by blast
    have count: "gr_completion_tokens (gn_output g1) = gr_completion_tokens (gn_output g) + 1"
      by (rule consume_token_completion [OF g1(1)])
    have "ready (draft_count \<noteq> 0) s1" if "\<not> finished maximum g1"
      using step(3) True that count by (auto simp: ready_def finished_def)
    then have "loop_inv bound draft_count maximum config s1 g1"
      using step g1 count g(3) s(3) by (auto simp: loop_inv_def)
    then show ?thesis
      using True step(1) g1(1) by (simp add: decode_round_def Let_def as_result_def)
  next
    case False
    let ?n = "min draft_count (?left - 1)"
    have n: "0 < ?n" "?n < kMaximumBlock" "ss_current_position s + (?n + 1) \<le> dc_maximum_context_tokens (ss_config s)"
      and drafting: "ready True s"
      using False drafts s g(3) by auto
    obtain r s1 d1 where step: "speculative_step dev s (gn_next g) ?n d = (Inr r, s1, d1)" "list_all (\<lambda>t. t < bound) (sr_tokens r)"
      and s1: "ready True s1" "ss_config s1 = config"
      and pos: "ss_current_position s1 = ss_current_position s + length (sr_tokens r)"
      using ready_speculative [OF dev drafting n(1,2) small(1) n(3), of d] s(2) by blast
    let ?g = "count_round r g"
    obtain g1 where g1: "consume_tokens tk on_text maximum (sr_tokens r) ?g = (ok_status, g1)"
      "list_all (\<lambda>t. t < bound) (gn_content_tokens g1)" "gn_next g1 < bound" "gr_completion_tokens (gn_output g1) \<le> maximum"
      "\<not> finished maximum g1 \<longrightarrow> gr_completion_tokens (gn_output g1) = gr_completion_tokens (gn_output g) + length (sr_tokens r)"
      using consume_tokens_progress [OF tk(1), of ?g "sr_tokens r" maximum on_text] g step(2) by (auto simp: count_round_def)
    have "loop_inv bound draft_count maximum config s1 g1"
      using s1 g1 pos s(3) False by (auto simp: loop_inv_def)
    then show ?thesis
      using False step(1) g1(1) by (simp add: decode_round_def Let_def as_result_def)
  qed
qed

lemma decode_loop_progress:
  assumes "succeeding bound dev" "decodable tk bound" "bound \<le> tokenizer_vocabulary_size" "draft_count < kMaximumBlock"
  shows "loop_inv bound draft_count maximum config s g \<Longrightarrow>
    \<exists>s' d' g'. decode_loop dev tk on_text draft_count maximum s d g = (Inr (), s', d', g')"
proof (induction "maximum - gr_completion_tokens (gn_output g)" arbitrary: s d g rule: less_induct)
  case less
  show ?case
  proof (cases "finished maximum g")
    case True
    then show ?thesis
      using less.prems by (subst decode_loop.simps) (auto simp: finished_def loop_inv_def)
  next
    case False
    then have more: "gr_completion_tokens (gn_output g) < maximum \<and> gr_client_connected (gn_output g) \<and> \<not> gr_stopped (gn_output g)"
      using less.prems by (auto simp: finished_def loop_inv_def)
    obtain s1 d1 g1 where r: "decode_round dev tk on_text draft_count maximum s d g = (Inr (), s1, d1, g1)"
      and inv: "loop_inv bound draft_count maximum config s1 g1"
      using decode_round_progress [OF assms less.prems False] by blast
    have eq: "decode_loop dev tk on_text draft_count maximum s d g = decode_loop dev tk on_text draft_count maximum s1 d1 g1"
      by (subst decode_loop.simps) (simp only: more r prod.case sum.case if_True simp_thms)
    have "maximum - gr_completion_tokens (gn_output g1) < maximum - gr_completion_tokens (gn_output g)"
      by (rule diff_less_mono2 [OF decode_round_completion [OF r] conjunct1 [OF more]])
    from less.hyps [OF this inv] show ?thesis
      unfolding eq .
  qed
qed

end
