(* ===== verification/GenerateProps.thy ===== *)
theory GenerateProps
  imports GenerateLive
begin

text \<open>
  What a generation promises: its counts and its resources, memory safety, that it returns on a
  device that succeeds, and that its tokens are the model's greedy continuation of the prompt.
\<close>

section \<open>Rules for the loops\<close>

text \<open>One rule for the loop: \<open>I\<close> holds between rounds, \<open>E\<close> after a round that failed.\<close>

lemma decode_loop_rule:
  assumes step: "\<And>s d g r s' d' g'. I s d g \<Longrightarrow> gr_completion_tokens (gn_output g) < maximum \<Longrightarrow> gr_client_connected (gn_output g) \<Longrightarrow>
      \<not> gr_stopped (gn_output g) \<Longrightarrow> decode_round dev tk on_text draft_count maximum s d g = (r, s', d', g') \<Longrightarrow>
      (case r of Inl e \<Rightarrow> E s' d' g' | Inr u \<Rightarrow> I s' d' g')"
  shows "I s d g \<Longrightarrow> decode_loop dev tk on_text draft_count maximum s d g = (r, s', d', g') \<Longrightarrow>
    (case r of Inl e \<Rightarrow> E s' d' g'
     | Inr u \<Rightarrow> I s' d' g' \<and> \<not> (gr_completion_tokens (gn_output g') < maximum \<and> gr_client_connected (gn_output g')
         \<and> \<not> gr_stopped (gn_output g')))"
proof (induction "maximum - gr_completion_tokens (gn_output g)" arbitrary: s d g rule: less_induct)
  case less
  let ?more = "gr_completion_tokens (gn_output g) < maximum \<and> gr_client_connected (gn_output g) \<and> \<not> gr_stopped (gn_output g)"
  show ?case
  proof (cases ?more)
    case False
    then show ?thesis
      using less.prems by (subst (asm) decode_loop.simps) auto
  next
    case True
    obtain r1 s1 d1 g1 where r: "decode_round dev tk on_text draft_count maximum s d g = (r1, s1, d1, g1)"
      by (metis prod_cases4)
    note one = step [OF less.prems(1) _ _ _ r]
    show ?thesis
    proof (cases r1)
      case (Inl e)
      have "(r, s', d', g') = (Inl e, s1, d1, g1)"
        using less.prems(2) True by (subst (asm) decode_loop.simps) (simp add: r Inl)
      then show ?thesis
        using one True Inl by simp
    next
      case (Inr u)
      have eq: "decode_loop dev tk on_text draft_count maximum s1 d1 g1 = (r, s', d', g')"
        using less.prems(2) True by (subst (asm) decode_loop.simps) (simp add: r Inr)
      have "maximum - gr_completion_tokens (gn_output g1) < maximum - gr_completion_tokens (gn_output g)"
        by (rule diff_less_mono2 [OF decode_round_completion [OF r [unfolded Inr]] conjunct1 [OF True]])
      from less.hyps [OF this _ eq] show ?thesis
        using one True Inr by simp
    qed
  qed
qed

lemma decode_loop_invariant:
  assumes loop: "decode_loop dev tk on_text draft_count maximum s d g = (Inr u, s', d', g')" and "I s d g"
    and step: "\<And>s d g u s' d' g'. I s d g \<Longrightarrow> gr_completion_tokens (gn_output g) < maximum \<Longrightarrow> gr_client_connected (gn_output g) \<Longrightarrow>
      \<not> gr_stopped (gn_output g) \<Longrightarrow> decode_round dev tk on_text draft_count maximum s d g = (Inr u, s', d', g') \<Longrightarrow> I s' d' g'"
  shows "I s' d' g'"
proof -
  have "case r of Inl e \<Rightarrow> True | Inr u \<Rightarrow> I s' d' g'"
    if "I s d g" "gr_completion_tokens (gn_output g) < maximum" "gr_client_connected (gn_output g)" "\<not> gr_stopped (gn_output g)"
      "decode_round dev tk on_text draft_count maximum s d g = (r, s', d', g')" for s d g r s' d' g'
    using step [OF that(1-4)] that(5) by (cases r) simp_all
  from decode_loop_rule [where I = I and E = "\<lambda>s d g. True", OF this assms(2) loop] show ?thesis
    by simp
qed

lemma decode_loop_ends:
  assumes "decode_loop dev tk on_text draft_count maximum s d g = (Inr u, s', d', g')"
  shows "\<not> gr_client_connected (gn_output g') \<or> gr_stopped (gn_output g') \<or> \<not> gr_completion_tokens (gn_output g') < maximum"
  using decode_loop_rule [where I = "\<lambda>s d g. True" and E = "\<lambda>s d g. True", OF _ TrueI assms] by (auto split: sum.split)

text \<open>And one for the prompt.\<close>

lemma prefill_rule:
  assumes draft: "\<And>h s d t r s' d'. I h s d \<Longrightarrow> mtp_draft dev s t d = (r, s', d') \<Longrightarrow>
      (case r of Inl e \<Rightarrow> E s' d' | Inr u \<Rightarrow> D h s' d')"
    and greedy: "\<And>h s d t r s' d'. (if drafting then D h s d else I h s d) \<Longrightarrow> greedy_step dev s t d = (r, s', d') \<Longrightarrow>
      (case r of Inl e \<Rightarrow> E s' d' | Inr x \<Rightarrow> I (h @ [t]) s' d' \<and> P (h @ [t]) x)"
  shows "I h s d \<Longrightarrow> P h x \<Longrightarrow> prefill dev drafting tokens x s d = (r, s', d') \<Longrightarrow>
    (case r of Inl e \<Rightarrow> E s' d' | Inr y \<Rightarrow> I (h @ tokens) s' d' \<and> P (h @ tokens) y)"
proof (induction tokens arbitrary: h s d x)
  case (Cons t tokens)
  obtain r1 s1 d1 where sync: "(if drafting then mtp_draft dev s t d else (Inr 0, s, d)) = (r1, s1, d1)"
    by (metis prod_cases3)
  have first: "case r1 of Inl e \<Rightarrow> E s1 d1 | Inr u \<Rightarrow> (if drafting then D h s1 d1 else I h s1 d1)"
    using sync draft [OF Cons.prems(1), of t r1 s1 d1] Cons.prems(1) by (auto split: if_splits)
  show ?case
  proof (cases r1)
    case (Inl e)
    then show ?thesis
      using first Cons.prems(3) by (auto simp: sync Let_def)
  next
    case (Inr u)
    obtain r2 s2 d2 where step: "greedy_step dev s1 t d1 = (r2, s2, d2)"
      by (metis prod_cases3)
    have second: "case r2 of Inl e \<Rightarrow> E s2 d2 | Inr x \<Rightarrow> I (h @ [t]) s2 d2 \<and> P (h @ [t]) x"
      using greedy [OF _ step, of h] first Inr by simp
    show ?thesis
    proof (cases r2)
      case (Inl e)
      then show ?thesis
        using second Cons.prems(3) \<open>r1 = Inr u\<close> by (auto simp: sync step Let_def)
    next
      case (Inr y)
      have "prefill dev drafting tokens y s2 d2 = (r, s', d')"
        using Cons.prems(3) \<open>r1 = Inr u\<close> by (simp add: sync step Inr Let_def)
      from Cons.IH [OF _ _ this, of "h @ [t]"] show ?thesis
        using second Inr by (cases r) simp_all
    qed
  qed
qed auto

text \<open>A generation that returns: refused before a session existed, or run on a created session.\<close>

lemma generate_cases:
  assumes "generate sv request on_text g d k = Some (r, g', d', k')"
  obtains (refused) e where "r = Inl e" "g' = g" "d' = d" "k' = k"
  | (not_created) e config where "r = Inl e" "session_create (sv_runtime sv) (sv_engine sv) config g = (Inl e, g')"
      "d' = d" "k' = k"
  | (ran) tokens s offsets g1 s' where
      "tokenizer_encode (sv_libraries sv) (sv_tokenizer sv) (cq_rendered_prompt request) = Some (Inr tokens)"
      "tokens \<noteq> []" "length tokens + cq_maximum_tokens request \<le> so_context (sv_options sv)"
      "session_create (sv_runtime sv) (sv_engine sv) (session_config (sv_options sv)) g = (Inr (s, offsets), g1)"
      "generate_session (sv_device sv) (sv_tokenizer sv) (sv_options sv) (cq_maximum_tokens request) on_text tokens s d k
        = (r, s', d', k')" "g' = session_destroy g1"
proof -
  obtain enc where enc: "tokenizer_encode (sv_libraries sv) (sv_tokenizer sv) (cq_rendered_prompt request) = Some enc"
    using assms by (auto simp: generate_def split: option.splits)
  show thesis
  proof (cases enc)
    case (Inl e)
    then show ?thesis
      using assms enc refused by (auto simp: generate_def)
  next
    case (Inr tokens)
    show ?thesis
    proof (cases "tokens = [] \<or> length tokens + cq_maximum_tokens request > so_context (sv_options sv)")
      case True
      then show ?thesis
        using assms enc Inr refused by (auto simp: generate_def)
    next
      case False
      obtain c g1 where create: "session_create (sv_runtime sv) (sv_engine sv) (session_config (sv_options sv)) g = (c, g1)"
        by force
      show ?thesis
      proof (cases c)
        case (Inl e)
        then show ?thesis
          using assms enc Inr False create not_created by (auto simp: generate_def)
      next
        case (Inr sc)
        obtain s offsets where sc: "sc = (s, offsets)"
          by force
        obtain r1 s1 d1 k1 where run: "generate_session (sv_device sv) (sv_tokenizer sv) (sv_options sv)
            (cq_maximum_tokens request) on_text tokens s d k = (r1, s1, d1, k1)"
          by (metis prod_cases4)
        have "r1 = r" "d1 = d'" "k1 = k'" "g' = session_destroy g1"
          using assms False create Inr unfolding sc by (simp_all add: generate_def enc \<open>enc = Inr tokens\<close> run)
        then show ?thesis
          using ran [of tokens s offsets g1 s1] enc \<open>enc = Inr tokens\<close> False create Inr sc run by simp
      qed
    qed
  qed
qed

text \<open>A generation on a session that succeeds, taken apart.\<close>

lemma generate_session_steps:
  assumes "generate_session dev tk options maximum on_text tokens s d k = (Inr r, s', d', k')"
  obtains first s1 d1 x s2 d2 st g g' where "greedy_step dev s (hd tokens) d = (Inr first, s1, d1)"
    "prefill dev (so_draft_count options \<noteq> 0) (tl tokens) first s1 d1 = (Inr x, s2, d2)"
    "consume_token tk on_text x (generate_start tokens k) = (st, g)" "status_ok st"
    "decode_loop dev tk on_text (so_draft_count options) maximum s2 d2 g = (Inr (), s', d', g')"
    "r = gn_output g'" "k' = gn_client g'"
proof -
  obtain r1 s1 d1 where first: "greedy_step dev s (hd tokens) d = (r1, s1, d1)"
    by (metis prod_cases3)
  obtain y where r1: "r1 = Inr y"
    using assms by (cases r1) (auto simp: generate_session_def first)
  obtain r2 s2 d2 where fill: "prefill dev (so_draft_count options \<noteq> 0) (tl tokens) y s1 d1 = (r2, s2, d2)"
    by (metis prod_cases3)
  obtain x where r2: "r2 = Inr x"
    using assms by (cases r2) (auto simp: generate_session_def first r1 fill [simplified])
  obtain st g where consume: "consume_token tk on_text x (generate_start tokens k) = (st, g)"
    by force
  have ok: "status_ok st"
    using assms by (auto simp: generate_session_def first r1 fill [simplified] r2 consume Let_def split: if_splits)
  obtain r3 s3 d3 g3 where loop: "decode_loop dev tk on_text (so_draft_count options) maximum s2 d2 g = (r3, s3, d3, g3)"
    by (metis prod_cases4)
  have "r3 = Inr ()" "r = gn_output g3" "s3 = s'" "d3 = d'" "k' = gn_client g3"
    using assms by (auto simp: generate_session_def first r1 fill [simplified] r2 consume Let_def ok loop split: sum.splits)
  then show thesis
    using that [OF first [unfolded r1] fill [unfolded r2] consume ok] loop by blast
qed

section \<open>Counts and resources\<close>

definition counts_ok :: "nat \<Rightarrow> nat \<Rightarrow> 'k generating \<Rightarrow> bool" where
  "counts_ok prompt maximum g \<longleftrightarrow>
     gr_prompt_tokens (gn_output g) = prompt
     \<and> gr_completion_tokens (gn_output g) \<le> maximum \<and> gr_accepted_drafts (gn_output g) \<le> gr_proposed_drafts (gn_output g)
     \<and> 0 < gr_completion_tokens (gn_output g)"

lemma consume_token_counts:
  assumes "consume_token tk on_text t g = (st, g')"
  shows "gr_accepted_drafts (gn_output g') = gr_accepted_drafts (gn_output g)"
    "gr_proposed_drafts (gn_output g') = gr_proposed_drafts (gn_output g)"
    "gr_prompt_tokens (gn_output g') = gr_prompt_tokens (gn_output g)"
  using assms
  by (auto simp: consume_token_def emit_content_def Let_def split: if_splits sum.splits option.splits prod.splits)

lemma consume_tokens_counts:
  "consume_tokens tk on_text maximum ts g = (st, g') \<Longrightarrow> gr_completion_tokens (gn_output g) < maximum \<Longrightarrow>
    gr_accepted_drafts (gn_output g') = gr_accepted_drafts (gn_output g)
    \<and> gr_proposed_drafts (gn_output g') = gr_proposed_drafts (gn_output g)
    \<and> gr_prompt_tokens (gn_output g') = gr_prompt_tokens (gn_output g) \<and> gr_completion_tokens (gn_output g') \<le> maximum"
proof (induction tk on_text maximum ts g rule: consume_tokens.induct)
  case (2 tk on_text maximum t ts g)
  obtain st1 g1 where c: "consume_token tk on_text t g = (st1, g1)"
    by force
  note count = consume_token_completion [OF c] consume_token_counts [OF c]
  show ?case
  proof (cases "\<not> status_ok st1 \<or> finished maximum g1")
    case True
    then show ?thesis
      using "2.prems" c count by (auto split: if_splits)
  next
    case False
    then have "gr_completion_tokens (gn_output g1) < maximum"
      using "2.prems"(2) count by (simp add: finished_def)
    then show ?thesis
      using "2.IH" [OF c [symmetric] refl] "2.prems"(1) c count False by simp
  qed
qed simp

lemma accepted_at_most_proposed:
  assumes "speculative_step dev s t n d = (Inr r, s', d')"
  shows "sr_accepted_drafts r \<le> sr_proposed_drafts r"
proof (rule speculative_step_succeeds [OF assms], goal_cases)
  case (1 d0 st0 d1 st1 s1 d2 drafts d3 outs accepted)
  then show ?case
    using 1(5,6) accepted_prefix_bound [of "map drafts [0..<n]" "map outs [0..<n + 1]"] by simp
qed

lemma decode_round_counts:
  assumes round: "decode_round dev tk on_text draft_count maximum s d g = (Inr u, s', d', g')"
    and inv: "counts_ok prompt maximum g" "gr_completion_tokens (gn_output g) < maximum"
  shows "counts_ok prompt maximum g'"
proof (cases "draft_count = 0 \<or> maximum - gr_completion_tokens (gn_output g) = 1")
  case True
  then obtain token s1 d1 st where step: "greedy_step dev s (gn_next g) d = (Inr token, s1, d1)"
    "consume_token tk on_text token g = (st, g')"
    using round by (auto simp: decode_round_def Let_def split: sum.splits prod.splits)
  show ?thesis
    using inv consume_token_counts [OF step(2)] consume_token_completion [OF step(2)] by (auto simp: counts_ok_def)
next
  case False
  then obtain r s1 d1 st where step: "speculative_step dev s (gn_next g) (min draft_count (maximum - gr_completion_tokens (gn_output g) - 1)) d
      = (Inr r, s1, d1)" "consume_tokens tk on_text maximum (sr_tokens r) (count_round r g) = (st, g')"
    using round by (auto simp: decode_round_def Let_def split: sum.splits prod.splits)
  show ?thesis
    using inv consume_tokens_counts [OF step(2)] consume_tokens_completion [OF step(2)] accepted_at_most_proposed [OF step(1)]
    by (auto simp: counts_ok_def count_round_def)
qed

text \<open>
  The counts of an answer: at least one token and at most the requested number, the prompt and the
  answer together within the context, no more accepted than proposed drafts; and a generation
  whose client stays connected ends at a terminal token or at the limit.
\<close>

theorem generate_bounds:
  assumes "generate sv request on_text g d k = Some (Inr r, g', d', k')" and "0 < cq_maximum_tokens request"
  shows "0 < gr_completion_tokens r \<and> gr_completion_tokens r \<le> cq_maximum_tokens request
    \<and> gr_prompt_tokens r + cq_maximum_tokens request \<le> so_context (sv_options sv)
    \<and> gr_accepted_drafts r \<le> gr_proposed_drafts r
    \<and> (\<not> gr_client_connected r \<or> gr_stopped r \<or> gr_completion_tokens r = cq_maximum_tokens request)"
proof (rule generate_cases [OF assms(1)])
  fix tokens s offsets g1 s'
  let ?max = "cq_maximum_tokens request"
  assume fits: "length tokens + ?max \<le> so_context (sv_options sv)"
    and run: "generate_session (sv_device sv) (sv_tokenizer sv) (sv_options sv) ?max on_text tokens s d k = (Inr r, s', d', k')"
  obtain x s2 d2 st g0 g2 where steps:
    "consume_token (sv_tokenizer sv) on_text x (generate_start tokens k) = (st, g0)"
    "decode_loop (sv_device sv) (sv_tokenizer sv) on_text (so_draft_count (sv_options sv)) ?max s2 d2 g0 = (Inr (), s', d', g2)"
    "r = gn_output g2"
    by (rule generate_session_steps [OF run]) blast
  have start: "counts_ok (length tokens) ?max g0"
    using consume_token_counts [OF steps(1)] consume_token_completion [OF steps(1)] assms(2)
    by (simp add: counts_ok_def generate_start_def)
  have "counts_ok (length tokens) ?max g2"
    by (rule decode_loop_invariant [where I = "\<lambda>s d. counts_ok (length tokens) ?max", OF steps(2) start])
      (rule decode_round_counts)
  moreover have "\<not> gr_client_connected r \<or> gr_stopped r \<or> \<not> gr_completion_tokens r < ?max"
    unfolding steps(3) by (rule decode_loop_ends [OF steps(2)])
  ultimately show ?thesis
    using fits by (auto simp: counts_ok_def steps(3))
qed simp_all

text \<open>
  A generation gives its arena back: whatever happens, also when a step of the device or the
  tokenizer fails in the middle, the allocations of the device afterwards are those before.
\<close>

lemma generate_keeps_device:
  assumes "generate sv request on_text g d k = Some (r, g', d', k')"
  shows "g' = g"
proof -
  have created: "g1 = (case c of Inl e \<Rightarrow> g | Inr x \<Rightarrow> g\<lparr>gpu_arenas := gpu_arenas g + 1\<rparr>)"
    if "session_create rt en config g = (c, g1)" for rt en config c g1
    using that
    by (cases g) (auto simp: session_create_def session_destroy_def Let_def split: sum.splits option.splits prod.splits if_splits)
  show ?thesis
    by (rule generate_cases [OF assms]) (auto simp: session_destroy_def dest!: created)
qed


section \<open>Memory safety\<close>

lemma mtp_draft_inv:
  assumes inv: "session_inv n s c" and chain: "\<not> ss_mtp_chain_active s"
    and step: "mtp_draft (check_device (buffer_elements n) dev) s t c = (r, s', c')"
  shows "session_inv n s' c' \<and> \<not> ss_mtp_chain_active s'"
proof (cases "ss_mtp_position s + 1 = ss_current_position s")
  case True
  then have "ss_mtp_position s < n"
    using session_invD(7) [OF inv] by simp
  then have "session_inv n s' c'"
    by (rule draft_inv [OF inv _ step])
  moreover have "ss_mtp_chain_active s' = ss_mtp_chain_active s"
    using step by (auto simp: mtp_draft_def Let_def split: if_splits prod.splits)
  ultimately show ?thesis
    using chain by simp
next
  case False
  then have "s' = s" "c' = c"
    using step chain by (auto simp: mtp_draft_def)
  then show ?thesis
    using inv chain by simp
qed

lemma greedy_chain: "greedy_step dev s t d = (r, s', d') \<Longrightarrow> ss_mtp_chain_active s' = ss_mtp_chain_active s"
  by (auto simp: greedy_step_def Let_def split: if_splits prod.splits)

lemma decode_round_inv:
  assumes inv: "session_inv n s c"
    and round: "decode_round (check_device (buffer_elements n) dev) tk on_text draft_count maximum s c g = (r, s', c', g')"
  shows "session_inv n s' c'"
proof (cases "draft_count = 0 \<or> maximum - gr_completion_tokens (gn_output g) = 1")
  case True
  obtain x s1 c1 where step: "greedy_step (check_device (buffer_elements n) dev) s (gn_next g) c = (x, s1, c1)"
    by (metis prod_cases3)
  have "s' = s1" "c' = c1"
    using round True step by (auto simp: decode_round_def Let_def split: sum.splits prod.splits)
  then show ?thesis
    using greedy_inv [OF inv step] by simp
next
  case False
  let ?n = "min draft_count (maximum - gr_completion_tokens (gn_output g) - 1)"
  obtain x s1 c1 where step: "speculative_step (check_device (buffer_elements n) dev) s (gn_next g) ?n c = (x, s1, c1)"
    by (metis prod_cases3)
  have "s' = s1" "c' = c1"
    using round False step by (auto simp: decode_round_def Let_def split: sum.splits prod.splits)
  then show ?thesis
    using speculative_inv [OF inv step] by simp
qed

lemma generate_session_inv:
  fixes k' :: 'k
  assumes inv: "session_inv n s c" "\<not> ss_mtp_chain_active s"
    and run: "generate_session (check_device (buffer_elements n) dev) tk options maximum on_text tokens s c k = (r, s', c', k')"
  shows "session_inv n s' c'"
proof -
  let ?dev = "check_device (buffer_elements n) dev" and ?I = "\<lambda>s c. session_inv n s c \<and> \<not> ss_mtp_chain_active s"
  obtain r1 s1 c1 where first: "greedy_step ?dev s (hd tokens) c = (r1, s1, c1)"
    by (metis prod_cases3)
  have i1: "?I s1 c1"
    using greedy_inv [OF inv(1) first] greedy_chain [OF first] inv(2) by simp
  show ?thesis
  proof (cases r1)
    case (Inl e)
    then show ?thesis
      using run i1 by (simp add: generate_session_def first)
  next
    case (Inr y)
    obtain r2 s2 c2 where fill: "prefill ?dev (so_draft_count options \<noteq> 0) (tl tokens) y s1 c1 = (r2, s2, c2)"
      by (metis prod_cases3)
    have "case r2 of Inl e \<Rightarrow> ?I s2 c2 | Inr x \<Rightarrow> ?I s2 c2 \<and> True"
      by (rule prefill_rule [where I = "\<lambda>h. ?I" and D = "\<lambda>h. ?I" and E = ?I and P = "\<lambda>h x. True", OF _ _ i1 TrueI fill])
        (auto dest: mtp_draft_inv greedy_inv greedy_chain split: sum.split)
    then have i2: "session_inv n s2 c2"
      by (auto split: sum.splits)
    show ?thesis
    proof (cases r2)
      case (Inl e)
      then show ?thesis
        using run i2 Inr by (simp add: generate_session_def first fill [simplified])
    next
      case (Inr x)
      obtain st g where consume: "consume_token tk on_text x (generate_start tokens k) = (st, g)"
        by force
      obtain r3 s3 c3 g3 where loop: "decode_loop ?dev tk on_text (so_draft_count options) maximum s2 c2 g = (r3, s3, c3, g3)"
        by (metis prod_cases4)
      have "case r3 of Inl e \<Rightarrow> session_inv n s3 c3 | Inr u \<Rightarrow> session_inv n s3 c3 \<and>
          \<not> (gr_completion_tokens (gn_output g3) < maximum \<and> gr_client_connected (gn_output g3) \<and> \<not> gr_stopped (gn_output g3))"
        by (rule decode_loop_rule [where I = "\<lambda>s c g. session_inv n s c" and E = "\<lambda>s c g. session_inv n s c", OF _ i2 loop])
          (auto dest: decode_round_inv split: sum.split)
      then have "session_inv n s3 c3"
        by (auto split: sum.splits)
      then show ?thesis
        using run i2 \<open>r1 = Inr y\<close> Inr
        by (auto simp: generate_session_def first fill [simplified] consume loop Let_def split: if_splits sum.splits)
    qed
  qed
qed

text \<open>
  C30. Serving is memory safe: for a resident model of the specification's shapes (\<open>serves_model\<close>), with
  weights of a tiled recipe or the server's activations in FP16 or INT8 (\<open>served_mode\<close>), whatever the
  prompt, the other options, the client and the device do, a generation never reads an element of its
  arena before it was written and never leaves a region of the arena, also when it ends with an error.
  The server's default, four-bit activations, is covered for tiled recipes only; on an untiled one the
  code reads activations that it never wrote.
\<close>

theorem generate_is_memory_safe:
  assumes "serves_model (sv_engine sv)" "served_mode (sv_engine sv) (session_config (sv_options sv))"
    and "generate (sv\<lparr>sv_device := check_device (buffer_elements (so_context (sv_options sv))) dev\<rparr>) request on_text g
      (check_new d) k = Some (r, g', c, k')"
  shows "ck_safe c"
proof (rule generate_cases [OF assms(3)])
  fix tokens s offsets g1 s'
  let ?n = "so_context (sv_options sv)" and ?sv = "sv\<lparr>sv_device := check_device (buffer_elements (so_context (sv_options sv))) dev\<rparr>"
  assume create: "session_create (sv_runtime ?sv) (sv_engine ?sv) (session_config (sv_options ?sv)) g = (Inr (s, offsets), g1)"
    and run: "generate_session (sv_device ?sv) (sv_tokenizer ?sv) (sv_options ?sv) (cq_maximum_tokens request) on_text tokens s
      (check_new d) k = (r, s', c, k')"
  have inv: "session_inv ?n s (check_new d)"
    using session_create_inv [OF assms(1,2), of "sv_runtime sv" g s offsets g1 d] create by (simp add: session_config_def)
  have "\<not> ss_mtp_chain_active s"
  proof -
    obtain s0 s1 where s0: "bind_session (sv_engine sv) (session_config (sv_options sv)) = Inr s0"
      "prepare_speculative_graphs (ct_capture (sv_runtime sv)) s0 = Inr s1" "s = s1\<lparr>ss_summary := ss_summary s\<rparr>"
      by (rule session_create_steps [of "sv_runtime sv" "sv_engine sv" "session_config (sv_options sv)" g s offsets g1])
        (use create in simp_all)
    have "ss_mtp_chain_active s1 = ss_mtp_chain_active s0"
      using s0(2) by (auto simp: prepare_speculative_graphs_def Let_def split: if_splits elim!: result_bind.elims)
    then show ?thesis
      using bind_session_new [OF s0(1)] by (subst s0(3)) simp
  qed
  from generate_session_inv [OF inv this run [simplified]] show ?thesis
    by (rule session_invD(6))
qed (simp_all add: check_new_def)


section \<open>A generation returns\<close>

text \<open>
  A server that can serve: a resident, scaled model in a mode that it serves, at most 31 drafts, a
  device that succeeds and answers tokens that the tokenizer can decode.
\<close>

definition able_to_serve :: "nat \<Rightarrow> 'd serving \<Rightarrow> bool" where
  "able_to_serve bound sv \<longleftrightarrow>
     serves_model (sv_engine sv) \<and> scaled_model (sv_engine sv) \<and> so_draft_count (sv_options sv) \<le> 31
     \<and> succeeding bound (sv_device sv) \<and> decodable (sv_tokenizer sv) bound \<and> bound \<le> tokenizer_vocabulary_size"

definition valid_tokens :: "nat list \<Rightarrow> bool" where
  "valid_tokens tokens \<longleftrightarrow> tokens \<noteq> [] \<and> list_all (\<lambda>t. t < tokenizer_vocabulary_size) tokens"

lemma generate_session_progress:
  assumes able: "able_to_serve bound sv" and tokens: "valid_tokens tokens"
    and created: "launchable s" "graphs_ready s" "ss_config s = session_config (sv_options sv)" "ss_current_position s = 0"
      "ss_mtp_position s = 0" "\<not> ss_mtp_chain_active s"
    and maximum: "0 < maximum" "length tokens + maximum \<le> so_context (sv_options sv)"
  shows "\<exists>r s' d' k'. generate_session (sv_device sv) (sv_tokenizer sv) (sv_options sv) maximum on_text tokens s d k = (Inr r, s', d', k')"
proof -
  let ?dev = "sv_device sv" and ?tk = "sv_tokenizer sv" and ?drafts = "so_draft_count (sv_options sv)"
  let ?config = "session_config (sv_options sv)"
  have dev: "succeeding bound ?dev" and tk: "decodable ?tk bound" "bound \<le> tokenizer_vocabulary_size" and drafts: "?drafts < kMaximumBlock"
    using able by (auto simp: able_to_serve_def kMaximumBlock_def)
  obtain t ts where ts: "tokens = t # ts" "t < tokenizer_vocabulary_size" "list_all (\<lambda>t. t < tokenizer_vocabulary_size) ts"
    using tokens by (cases tokens) (auto simp: valid_tokens_def)
  have limit: "dc_maximum_context_tokens ?config = so_context (sv_options sv)"
    by (simp add: session_config_def)
  have room: "ss_current_position s < dc_maximum_context_tokens (ss_config s)" and t: "t < vocabulary_size"
    using maximum ts(1,2) created(3,4) limit by (simp_all add: tokenizer_vocabulary_size_def vocabulary_size_def)
  obtain y s1 d1 where first: "greedy_step ?dev s t d = (Inr y, s1, d1)" and y: "y < bound"
    and s1: "ready (?drafts \<noteq> 0) s1" "ss_config s1 = ?config" "ss_current_position s1 = 1"
    using ready_greedy [OF dev created(1,2,6) _ room t, of "?drafts \<noteq> 0" d] created(3-5) by auto
  have room1: "ss_current_position s1 + length ts \<le> dc_maximum_context_tokens (ss_config s1)"
    using s1(2,3) maximum(2) ts(1) limit by simp
  obtain x s2 d2 where fill: "prefill ?dev (?drafts \<noteq> 0) ts y s1 d1 = (Inr x, s2, d2)" and x: "x < bound"
    and s2: "ready (?drafts \<noteq> 0) s2" "ss_config s2 = ?config" "ss_current_position s2 = length tokens"
    using prefill_progress [OF dev s1(1) room1 ts(3) y, of d1] s1(2,3) ts(1) by auto
  obtain g where consume: "consume_token ?tk on_text x (generate_start tokens k) = (ok_status, g)"
    and g: "list_all (\<lambda>t. t < bound) (gn_content_tokens g)" "gn_next g = x"
    using consume_token_progress [OF tk(1) _ x, of "generate_start tokens k" on_text] by (auto simp: generate_start_def)
  have one: "gr_completion_tokens (gn_output g) = 1"
    using consume_token_completion [OF consume] by (simp add: generate_start_def)
  have "loop_inv bound ?drafts maximum ?config s2 g"
    using s2 g one x maximum limit by (auto simp: loop_inv_def)
  then obtain s3 d3 g3 where "decode_loop ?dev ?tk on_text ?drafts maximum s2 d2 g = (Inr (), s3, d3, g3)"
    using decode_loop_progress [OF dev tk drafts] by blast
  then show ?thesis
    using first fill consume by (simp add: generate_session_def ts(1))
qed

text \<open>
  C31. A generation returns: when the device succeeds, every prompt of valid tokens whose length and
  requested output fit the context is answered; no guard of the session refuses a step, at any
  number of drafts and with any acceptance.
\<close>

theorem generate_completes:
  assumes "able_to_serve bound sv" and "valid_tokens tokens"
    and "tokenizer_encode (sv_libraries sv) (sv_tokenizer sv) (cq_rendered_prompt request) = Some (Inr tokens)"
    and "session_create (sv_runtime sv) (sv_engine sv) (session_config (sv_options sv)) g = (Inr (s, offsets), g1)"
    and "0 < cq_maximum_tokens request" "length tokens + cq_maximum_tokens request \<le> so_context (sv_options sv)"
  shows "\<exists>r d' k'. generate sv request on_text g d k = Some (Inr r, session_destroy g1, d', k')"
proof -
  have able: "scaled_model (sv_engine sv)" "serves_model (sv_engine sv)"
    using assms(1) by (simp_all add: able_to_serve_def)
  have created: "launchable s" "graphs_ready s" "ss_config s = session_config (sv_options sv)" "ss_current_position s = 0"
      "ss_mtp_position s = 0" "\<not> ss_mtp_chain_active s"
    using created_session_ready [OF able assms(4)] by blast+
  obtain r s' d' k' where "generate_session (sv_device sv) (sv_tokenizer sv) (sv_options sv) (cq_maximum_tokens request)
      on_text tokens s d k = (Inr r, s', d', k')"
    using generate_session_progress [OF assms(1,2) created assms(5,6), of on_text d k] by blast
  then show ?thesis
    using assms(2-6) by (simp add: generate_def valid_tokens_def)
qed

section \<open>The tokens of an answer\<close>

text \<open>
  The contract of a device that runs a model: \<open>R\<close> relates the tokens that the target was fed to the
  session and the device's memory; a step that succeeds answers with the model's token after them.
\<close>

definition runs_model :: "'d device \<Rightarrow> (nat list \<Rightarrow> nat) \<Rightarrow> (nat list \<Rightarrow> session \<Rightarrow> 'd \<Rightarrow> bool) \<Rightarrow> bool" where
  "runs_model dev model R \<longleftrightarrow>
     (\<forall>h s d t. R h s d \<longrightarrow>
        (case greedy_step dev s t d of
           (Inl e, _) \<Rightarrow> True
         | (Inr x, s', d') \<Rightarrow> x = model (h @ [t]) \<and> R (h @ [t]) s' d')
        \<and> (case mtp_draft dev s t d of (Inl e, _) \<Rightarrow> True | (Inr x, s', d') \<Rightarrow> R h s' d')
        \<and> (\<forall>n. case speculative_step dev s t n d of
             (Inl e, _) \<Rightarrow> True
           | (Inr r, s', d') \<Rightarrow> verifies dev s t n d model h \<and> R (h @ t # butlast (sr_tokens r)) s' d'))"

lemma runs_modelD:
  assumes "runs_model dev model R" "R h s d"
  shows "greedy_step dev s t d = (Inr x, s', d') \<Longrightarrow> x = model (h @ [t]) \<and> R (h @ [t]) s' d'"
    "mtp_draft dev s t d = (Inr x, s', d') \<Longrightarrow> R h s' d'"
    "speculative_step dev s t n d = (Inr r, s', d') \<Longrightarrow> verifies dev s t n d model h \<and> R (h @ t # butlast (sr_tokens r)) s' d'"
proof -
  note all = assms(1) [unfolded runs_model_def, THEN spec [where x = h], THEN spec [where x = s], THEN spec [where x = d],
      THEN spec [where x = t], THEN mp, OF assms(2)]
  note each = all [THEN conjunct1] all [THEN conjunct2, THEN conjunct1]
    all [THEN conjunct2, THEN conjunct2, THEN spec [where x = n]]
  show "greedy_step dev s t d = (Inr x, s', d') \<Longrightarrow> x = model (h @ [t]) \<and> R (h @ [t]) s' d'"
    "mtp_draft dev s t d = (Inr x, s', d') \<Longrightarrow> R h s' d'"
    "speculative_step dev s t n d = (Inr r, s', d') \<Longrightarrow> verifies dev s t n d model h \<and> R (h @ t # butlast (sr_tokens r)) s' d'"
    using each by simp_all
qed

lemma continuation_append:
  "continuation model h (m + n) = continuation model h m @ continuation model (h @ continuation model h m) n"
  by (induction m arbitrary: h) simp_all

text \<open>The tokens consumed so far, the terminal one included.\<close>

definition consumed :: "'k generating \<Rightarrow> nat list" where
  "consumed g = gn_content_tokens g @ (if gr_stopped (gn_output g) then [gn_next g] else [])"

definition tokens_ok :: "qwen_tokenizer \<Rightarrow> 'k generating \<Rightarrow> bool" where
  "tokens_ok tk g \<longleftrightarrow>
     length (consumed g) = gr_completion_tokens (gn_output g) \<and> list_all (\<lambda>t. \<not> terminal_token t) (gn_content_tokens g)
     \<and> (gr_stopped (gn_output g) \<longrightarrow> terminal_token (gn_next g))
     \<and> tokenizer_decode tk (gn_content_tokens g) = Inr (gr_text (gn_output g))"

text \<open>A status of the decoder is an error.\<close>

lemma result_all_error: "result_all f xs = Inl e \<Longrightarrow> \<exists>x. f x = Inl e"
proof (induction xs)
  case (Cons a xs)
  then show ?case
    by (cases "f a"; cases "result_all f xs") auto
qed simp

lemma decode_piece_error: "decode_piece piece offset = Inl e \<Longrightarrow> \<not> status_ok e"
proof (induction piece offset rule: decode_piece.induct)
  case (1 piece offset)
  show ?case
  proof (cases "offset < length piece \<and> (\<exists>c o'. decode_codepoint piece offset = Some (c, o') \<and> byte_decoder c \<noteq> None)")
    case True
    then obtain c o' b where c: "offset < length piece" "decode_codepoint piece offset = Some (c, o')" "byte_decoder c = Some b"
      by auto
    then have "decode_piece piece o' = Inl e"
      using "1.prems" by (cases "decode_piece piece o'") (simp_all add: decode_piece.simps [of piece offset])
    then show ?thesis
      by (rule "1.IH" [OF c(1,2) refl c(3)])
  next
    case False
    then show ?thesis
      using "1.prems" by (auto simp: decode_piece.simps [of piece offset] status_ok_def split: if_splits option.splits)
  qed
qed

lemma decode_error: "tokenizer_decode tk ts = Inl e \<Longrightarrow> \<not> status_ok e"
  by (auto simp: tokenizer_decode_def decode_token_def status_ok_def elim!: result_bind.elims dest!: result_all_error decode_piece_error
      split: if_splits)

lemma emit_content_text:
  assumes "emit_content tk on_text g = (st, g')" "status_ok st"
  shows "gn_content_tokens g' = gn_content_tokens g" "gn_next g' = gn_next g" "gr_stopped (gn_output g') = gr_stopped (gn_output g)"
    "tokenizer_decode tk (gn_content_tokens g) = Inr (gr_text (gn_output g'))"
proof -
  obtain decoded where d: "tokenizer_decode tk (gn_content_tokens g) = Inr decoded"
    using assms decode_error by (cases "tokenizer_decode tk (gn_content_tokens g)") (auto simp: emit_content_def)
  show "gn_content_tokens g' = gn_content_tokens g" "gn_next g' = gn_next g" "gr_stopped (gn_output g') = gr_stopped (gn_output g)"
    "tokenizer_decode tk (gn_content_tokens g) = Inr (gr_text (gn_output g'))"
    using assms(1) by (auto simp: emit_content_def d Let_def split: if_splits option.splits prod.splits)
qed

lemma consume_token_tokens:
  assumes "consume_token tk on_text t g = (st, g')" "status_ok st" "tokens_ok tk g" "\<not> gr_stopped (gn_output g)"
  shows "tokens_ok tk g' \<and> consumed g' = consumed g @ [t] \<and> gn_next g' = t"
proof (cases "terminal_token t")
  case True
  then show ?thesis
    using assms by (auto simp: consume_token_def tokens_ok_def consumed_def)
next
  case False
  let ?g = "g\<lparr> gn_next := t, gn_output := (gn_output g)\<lparr>gr_completion_tokens := gr_completion_tokens (gn_output g) + 1\<rparr>,
    gn_content_tokens := gn_content_tokens g @ [t] \<rparr>"
  have e: "emit_content tk on_text ?g = (st, g')"
    using assms(1) False by (simp add: consume_token_def Let_def)
  show ?thesis
    using emit_content_text [OF e assms(2)] assms(3,4) False emit_content_completion [OF e] by (simp add: tokens_ok_def consumed_def)
qed

lemma consume_tokens_tokens:
  "consume_tokens tk on_text maximum ts g = (st, g') \<Longrightarrow> status_ok st \<Longrightarrow> tokens_ok tk g \<Longrightarrow> \<not> gr_stopped (gn_output g) \<Longrightarrow>
    ts \<noteq> [] \<Longrightarrow>
    \<exists>j. 0 < j \<and> j \<le> length ts \<and> tokens_ok tk g' \<and> consumed g' = consumed g @ take j ts \<and> gn_next g' = ts ! (j - 1)
      \<and> (\<not> finished maximum g' \<longrightarrow> j = length ts)"
proof (induction tk on_text maximum ts g rule: consume_tokens.induct)
  case (2 tk on_text maximum t ts g)
  obtain st1 g1 where c: "consume_token tk on_text t g = (st1, g1)"
    by force
  show ?case
  proof (cases "status_ok st1 \<and> \<not> finished maximum g1 \<and> ts \<noteq> []")
    case False
    then have "g' = g1" "status_ok st1"
      using "2.prems"(1,2) c by (auto split: if_splits)
    then show ?thesis
      using consume_token_tokens [OF c _ "2.prems"(3,4)] False by (intro exI [of _ 1]) auto
  next
    case True
    then have run: "consume_tokens tk on_text maximum ts g1 = (st, g')" and live: "\<not> gr_stopped (gn_output g1)"
      using "2.prems"(1) c by (auto simp: finished_def)
    note one = consume_token_tokens [OF c _ "2.prems"(3,4)]
    obtain j where "0 < j" "j \<le> length ts" "tokens_ok tk g'" "consumed g' = consumed g1 @ take j ts" "gn_next g' = ts ! (j - 1)"
      "\<not> finished maximum g' \<longrightarrow> j = length ts"
      using "2.IH" [OF c [symmetric] refl _ _ run "2.prems"(2) _ live] one True by blast
    then show ?thesis
      using one True by (intro exI [of _ "j + 1"]) (auto simp: nth_Cons')
  qed
qed simp

text \<open>Between rounds: the tokens so far are the model's, and the session was fed all but the last.\<close>

definition greedy_so_far ::
  "(nat list \<Rightarrow> nat) \<Rightarrow> (nat list \<Rightarrow> session \<Rightarrow> 'd \<Rightarrow> bool) \<Rightarrow> qwen_tokenizer \<Rightarrow> nat list \<Rightarrow> nat \<Rightarrow> session \<Rightarrow> 'd \<Rightarrow> 'k generating \<Rightarrow> bool" where
  "greedy_so_far model R tk prompt maximum s d g \<longleftrightarrow>
     tokens_ok tk g \<and> consumed g = continuation model prompt (length (consumed g)) \<and> consumed g \<noteq> []
     \<and> last (consumed g) = gn_next g \<and> length (consumed g) \<le> maximum
     \<and> (\<not> finished maximum g \<longrightarrow> R (prompt @ butlast (consumed g)) s d)"

lemma continuation_extend:
  assumes "ts = continuation model h (length ts)" "us = continuation model (h @ ts) (length us)"
  shows "ts @ us = continuation model h (length (ts @ us))"
  using assms continuation_append [of model h "length ts" "length us"] by simp

lemma continuation_take: "j \<le> n \<Longrightarrow> take j (continuation model h n) = continuation model h j"
  by (metis append_eq_conv_conj continuation_append le_add_diff_inverse length_continuation)

lemma decode_round_greedy:
  assumes contract: "runs_model dev model R" and inv: "greedy_so_far model R tk prompt maximum s d g"
    and more: "gr_completion_tokens (gn_output g) < maximum" "gr_client_connected (gn_output g)" "\<not> gr_stopped (gn_output g)"
    and round: "decode_round dev tk on_text draft_count maximum s d g = (Inr u, s', d', g')"
  shows "greedy_so_far model R tk prompt maximum s' d' g'"
proof -
  let ?ts = "consumed g"
  have ts: "tokens_ok tk g" "?ts = continuation model prompt (length ?ts)" "?ts \<noteq> []" "last ?ts = gn_next g"
    and R: "R (prompt @ butlast ?ts) s d" and count: "length ?ts = gr_completion_tokens (gn_output g)"
    using inv more by (auto simp: greedy_so_far_def finished_def tokens_ok_def)
  have fed: "(prompt @ butlast ?ts) @ [gn_next g] = prompt @ ?ts"
    using ts(3,4) by (metis append.assoc append_butlast_last_id)
  show ?thesis
  proof (cases "draft_count = 0 \<or> maximum - gr_completion_tokens (gn_output g) = 1")
    case True
    then obtain x st where step: "greedy_step dev s (gn_next g) d = (Inr x, s', d')" "consume_token tk on_text x g = (st, g')" "status_ok st"
      using round by (auto simp: decode_round_def as_result_def Let_def split: sum.splits prod.splits if_splits)
    have x: "x = model (prompt @ ?ts)" "R (prompt @ ?ts) s' d'"
      using runs_modelD(1) [OF contract R step(1)] by (simp_all only: fed)
    note g' = consume_token_tokens [OF step(2,3) ts(1) more(3)]
    have all: "?ts @ [x] = continuation model prompt (length (?ts @ [x]))"
      by (rule continuation_extend [OF ts(2)]) (simp add: x(1))
    have c: "consumed g' = ?ts @ [x]" "tokens_ok tk g'" "gn_next g' = x"
      using g' by blast+
    have "last (?ts @ [x]) = gn_next g'" "length (?ts @ [x]) \<le> maximum" "R (prompt @ butlast (?ts @ [x])) s' d'"
      using c x(2) more(1) count by simp_all
    then show ?thesis
      unfolding greedy_so_far_def c(1) using c(2) all by blast
  next
    case False
    let ?n = "min draft_count (maximum - gr_completion_tokens (gn_output g) - 1)"
    obtain r st where step: "speculative_step dev s (gn_next g) ?n d = (Inr r, s', d')"
      "consume_tokens tk on_text maximum (sr_tokens r) (count_round r g) = (st, g')" "status_ok st"
      using round False by (auto simp: decode_round_def as_result_def Let_def split: sum.splits prod.splits if_splits)
    have v: "verifies dev s (gn_next g) ?n d model (prompt @ butlast ?ts)"
      and R': "R ((prompt @ butlast ?ts) @ gn_next g # butlast (sr_tokens r)) s' d'"
      using runs_modelD(3) [OF contract R step(1)] by blast+
    have tokens: "sr_tokens r = continuation model (prompt @ ?ts) (length (sr_tokens r))"
      using speculative_tokens_greedy(1) [OF step(1) v] by (simp only: fed)
    have start: "tokens_ok tk (count_round r g)" "\<not> gr_stopped (gn_output (count_round r g))" "consumed (count_round r g) = ?ts"
      using ts(1) more(3) by (simp_all add: count_round_def tokens_ok_def consumed_def)
    obtain j where j: "0 < j" "j \<le> length (sr_tokens r)" "tokens_ok tk g'" "consumed g' = ?ts @ take j (sr_tokens r)"
      "gn_next g' = sr_tokens r ! (j - 1)" "\<not> finished maximum g' \<longrightarrow> j = length (sr_tokens r)"
      using consume_tokens_tokens [OF step(2,3) start(1,2) speculative_tokens [OF step(1)]] start(3) by auto
    have "take j (sr_tokens r) = continuation model (prompt @ ?ts) (length (take j (sr_tokens r)))"
      using j(2) by (subst tokens) (simp add: continuation_take min.absorb1)
    then have all: "consumed g' = continuation model prompt (length (consumed g'))"
      unfolding j(4) by (rule continuation_extend [OF ts(2)])
    have last: "consumed g' \<noteq> []" "last (consumed g') = gn_next g'"
      using j(1,2,4,5) ts(3) by (auto simp: last_conv_nth nth_append)
    have limit: "length (consumed g') \<le> maximum"
      using consume_tokens_counts [OF step(2)] more(1) j(3) by (simp add: tokens_ok_def)
    have "R (prompt @ butlast (consumed g')) s' d'" if "\<not> finished maximum g'"
    proof -
      have "consumed g' = ?ts @ sr_tokens r"
        using j(4,6) that by simp
      then have "prompt @ butlast (consumed g') = (prompt @ butlast ?ts) @ gn_next g # butlast (sr_tokens r)"
        using speculative_tokens [OF step(1)] fed by (simp add: butlast_append)
      then show ?thesis
        using R' by simp
    qed
    then show ?thesis
      using j(3) all last limit by (simp add: greedy_so_far_def)
  qed
qed


text \<open>The answer that a request asks for: up to and with the first terminal token.\<close>

fun until_terminal :: "nat list \<Rightarrow> nat list" where
  "until_terminal [] = []"
| "until_terminal (t # ts) = (if terminal_token t then [t] else t # until_terminal ts)"

lemma until_terminal_append:
  "list_all (\<lambda>t. \<not> terminal_token t) ts \<Longrightarrow> until_terminal (ts @ us) = ts @ until_terminal us"
  by (induction ts) auto

lemma generate_session_greedy:
  assumes "generate_session dev tk options maximum on_text prompt s d k = (Inr r, s', d', k')"
    and "runs_model dev model R" "R [] s d" "prompt \<noteq> []" "0 < maximum" "gr_client_connected r"
  shows "let answer = until_terminal (continuation model prompt maximum) in
    gr_completion_tokens r = length answer \<and> gr_stopped r = list_ex terminal_token answer
    \<and> tokenizer_decode tk (filter (\<lambda>t. \<not> terminal_token t) answer) = Inr (gr_text r)"
proof -
  obtain y s1 d1 x s2 d2 st g0 g2 where first: "greedy_step dev s (hd prompt) d = (Inr y, s1, d1)"
    and fill: "prefill dev (so_draft_count options \<noteq> 0) (tl prompt) y s1 d1 = (Inr x, s2, d2)"
    and consume: "consume_token tk on_text x (generate_start prompt k) = (st, g0)" "status_ok st"
    and loop: "decode_loop dev tk on_text (so_draft_count options) maximum s2 d2 g0 = (Inr (), s', d', g2)"
    and r: "r = gn_output g2"
    by (rule generate_session_steps [OF assms(1)]) blast
  note contract = runs_modelD [OF assms(2)]
  have fed: "R [hd prompt] s1 d1" "y = model [hd prompt]"
    using contract(1) [OF assms(3) first] by simp_all
  have "case (Inr x :: nat result) of Inl e \<Rightarrow> True | Inr z \<Rightarrow> R ([hd prompt] @ tl prompt) s2 d2 \<and> z = model ([hd prompt] @ tl prompt)"
    by (rule prefill_rule [where I = R and D = R and E = "\<lambda>s d. True" and P = "\<lambda>h z. z = model h", OF _ _ fed fill])
      (auto dest: contract split: sum.split)
  then have x: "R prompt s2 d2" "x = model prompt"
    using assms(4) by simp_all
  have "tokens_ok tk (generate_start prompt k)" "\<not> gr_stopped (gn_output (generate_start prompt k))" "consumed (generate_start prompt k) = []"
    by (simp_all add: tokens_ok_def consumed_def generate_start_def tokenizer_decode_def)
  then have "greedy_so_far model R tk prompt maximum s2 d2 g0"
    using consume_token_tokens [OF consume, of] x assms(5) by (simp add: greedy_so_far_def)
  then have inv: "greedy_so_far model R tk prompt maximum s' d' g2"
    by (rule decode_loop_invariant [where I = "greedy_so_far model R tk prompt maximum", OF loop]) (rule decode_round_greedy [OF assms(2)])
  let ?ts = "consumed g2"
  have ok: "tokens_ok tk g2" and ts: "?ts = continuation model prompt (length ?ts)" "length ?ts \<le> maximum"
    using inv by (simp_all add: greedy_so_far_def)
  have ends: "gr_stopped r \<or> length ?ts = maximum"
    using decode_loop_ends [OF loop] assms(6) ok ts(2) by (auto simp: r tokens_ok_def)
  obtain rest where whole: "continuation model prompt maximum = ?ts @ rest"
    using continuation_append [of model prompt "length ?ts" "maximum - length ?ts"] ts by (metis le_add_diff_inverse)
  have "until_terminal (continuation model prompt maximum) = ?ts"
  proof (cases "gr_stopped r")
    case True
    then show ?thesis
      using ok by (simp add: whole consumed_def r tokens_ok_def until_terminal_append)
  next
    case False
    then have "rest = []"
      using ends arg_cong [OF whole, of length] by simp
    then show ?thesis
      using ok False until_terminal_append [of "gn_content_tokens g2" "[]"] by (simp add: whole consumed_def r tokens_ok_def)
  qed
  moreover have "filter (\<lambda>t. \<not> terminal_token t) ?ts = gn_content_tokens g2" "list_ex terminal_token ?ts = gr_stopped r"
    using ok by (auto simp: consumed_def r tokens_ok_def list_all_iff list_ex_iff)
  ultimately show ?thesis
    using ok by (simp add: Let_def r tokens_ok_def)
qed

text \<open>
  C29. Serving is greedy decoding: on a device that runs a model, the answer to a client that stays
  connected is the model's greedy continuation of the prompt, cut after its first terminal token
  or at the limit, at every number of drafts and whatever the drafts are; the text is the decoded
  continuation without the terminal token, and the answer says whether there was one.
\<close>

theorem generate_is_greedy:
  assumes "generate sv request on_text g d k = Some (Inr r, g', d', k')"
    and "tokenizer_encode (sv_libraries sv) (sv_tokenizer sv) (cq_rendered_prompt request) = Some (Inr prompt)"
    and "runs_model (sv_device sv) model R"
    and "\<And>s offsets g1. session_create (sv_runtime sv) (sv_engine sv) (session_config (sv_options sv)) g = (Inr (s, offsets), g1) \<Longrightarrow> R [] s d"
    and "0 < cq_maximum_tokens request" "gr_client_connected r"
  shows "let answer = until_terminal (continuation model prompt (cq_maximum_tokens request)) in
    gr_completion_tokens r = length answer \<and> gr_stopped r = list_ex terminal_token answer
    \<and> tokenizer_decode (sv_tokenizer sv) (filter (\<lambda>t. \<not> terminal_token t) answer) = Inr (gr_text r)"
proof (rule generate_cases [OF assms(1)])
  fix tokens s offsets g1 s'
  assume "tokenizer_encode (sv_libraries sv) (sv_tokenizer sv) (cq_rendered_prompt request) = Some (Inr tokens)" and nonempty: "tokens \<noteq> []"
    and create: "session_create (sv_runtime sv) (sv_engine sv) (session_config (sv_options sv)) g = (Inr (s, offsets), g1)"
    and run: "generate_session (sv_device sv) (sv_tokenizer sv) (sv_options sv) (cq_maximum_tokens request) on_text tokens s d k
      = (Inr r, s', d', k')"
  then have "tokens = prompt"
    using assms(2) by simp
  then show ?thesis
    using generate_session_greedy [OF run assms(3) assms(4) [OF create] nonempty assms(5,6)] by simp
qed simp_all

text \<open>Without a callback there is no client to lose.\<close>

lemma consume_token_silent:
  "consume_token tk None t g = (st, g') \<Longrightarrow> gr_client_connected (gn_output g') = gr_client_connected (gn_output g)"
  by (auto simp: consume_token_def emit_content_def Let_def split: if_splits sum.splits)

lemma consume_tokens_silent:
  "consume_tokens tk None maximum ts g = (st, g') \<Longrightarrow> gr_client_connected (gn_output g') = gr_client_connected (gn_output g)"
proof (induction ts arbitrary: g)
  case (Cons t ts)
  obtain st1 g1 where "consume_token tk None t g = (st1, g1)"
    by force
  then show ?case
    using Cons consume_token_silent by (fastforce split: if_splits)
qed simp

lemma decode_round_silent:
  "gr_client_connected (gn_output g) \<Longrightarrow> decode_round dev tk None draft_count maximum s d g = (Inr u, s', d', g') \<Longrightarrow>
    gr_client_connected (gn_output g')"
  by (auto simp: decode_round_def as_result_def Let_def count_round_def split: if_splits sum.splits prod.splits
      dest!: consume_token_silent consume_tokens_silent)

lemma silent_session_connected:
  assumes "generate_session dev tk options maximum None tokens s d k = (Inr r, s', d', k')"
  shows "gr_client_connected r"
proof -
  obtain x s2 d2 st g0 g2 where consume: "consume_token tk None x (generate_start tokens k) = (st, g0)"
    and loop: "decode_loop dev tk None (so_draft_count options) maximum s2 d2 g0 = (Inr (), s', d', g2)" and r: "r = gn_output g2"
    by (rule generate_session_steps [OF assms]) blast
  have "gr_client_connected (gn_output g0)"
    using consume_token_silent [OF consume] by (simp add: generate_start_def)
  then have "gr_client_connected (gn_output g2)"
    by (rule decode_loop_invariant [where I = "\<lambda>s d g. gr_client_connected (gn_output g)", OF loop]) (rule decode_round_silent)
  then show ?thesis
    by (simp add: r)
qed

lemma silent_connected:
  assumes "generate sv request None g d k = Some (Inr r, g', d', k')"
  shows "gr_client_connected r"
  by (rule generate_cases [OF assms]) (simp_all add: silent_session_connected)

lemma silent_client_token: "consume_token tk None t g = (st, g') \<Longrightarrow> gn_client g' = gn_client g"
  by (auto simp: consume_token_def emit_content_def Let_def split: if_splits sum.splits)

lemma silent_client_tokens: "consume_tokens tk None maximum ts g = (st, g') \<Longrightarrow> gn_client g' = gn_client g"
proof (induction ts arbitrary: g)
  case (Cons t ts)
  obtain st1 g1 where "consume_token tk None t g = (st1, g1)"
    by force
  then show ?case
    using Cons silent_client_token by (fastforce split: if_splits)
qed simp

lemma silent_client_round:
  "decode_round dev tk None draft_count maximum s d g = (r, s', d', g') \<Longrightarrow> gn_client g' = gn_client g"
  by (auto simp: decode_round_def as_result_def Let_def count_round_def split: if_splits sum.splits prod.splits
      dest!: silent_client_token silent_client_tokens)

lemma silent_client_loop:
  assumes "decode_loop dev tk None draft_count maximum s d g = (Inr u, s', d', g')"
  shows "gn_client g' = gn_client g"
  by (rule decode_loop_invariant [where I = "\<lambda>s d h. gn_client h = gn_client g", OF assms refl])
    (simp add: silent_client_round)

section \<open>The properties at a concrete input\<close>

text \<open>
  A server of the sample tokenizer whose device always answers the token 2, the text \<open>ab\<close>; it
  drafts two tokens in each round and replays graphs.
\<close>

definition answering_device :: "unit device" where
  "answering_device = quiet_device\<lparr> dx_download := (\<lambda>p n d. (0, \<lambda>i. 2, d)) \<rparr>"

definition sample_options :: server_options where
  "sample_options = default_options\<lparr> so_context := 64, so_maximum_output_tokens := 32, so_draft_count := 2, so_activation := fp16 \<rparr>"

definition sample_serving :: "'d device \<Rightarrow> 'd serving" where
  "sample_serving dev = \<lparr> sv_libraries = sample_libraries, sv_tokenizer = sample_tokenizer, sv_runtime = sample_create,
     sv_engine = model_engine, sv_device = dev, sv_options = sample_options \<rparr>"

definition sample_gpu :: gpu where
  "sample_gpu = \<lparr> gpu_arenas = 1, gpu_streams = 1 \<rparr>"

definition sample_chat :: chat_request where
  "sample_chat = default_request\<lparr> cq_rendered_prompt := ''ab<s>'', cq_maximum_tokens := 5 \<rparr>"

lemma answering_succeeds: "succeeding 4 answering_device"
  by (simp add: succeeding_def answering_device_def quiet_device_def hip_success_def)

lemma checked_succeeds: "succeeding bound dev \<Longrightarrow> succeeding bound (check_device elements dev)"
  by (simp add: succeeding_def check_device_def check_launch_def case_prod_unfold Let_def)

lemma decode_plain: "plain s \<Longrightarrow> decode_piece s 0 = Inr s"
  using decode_piece_spell [of "[]" "bytes_of_string s"] by (simp add: spell_plain)

lemma sample_pieces:
  "decode_token sample_tokenizer 0 = Inr ''a''" "decode_token sample_tokenizer 1 = Inr ''b''"
  "decode_token sample_tokenizer 2 = Inr ''ab''" "decode_token sample_tokenizer 3 = Inr ''<s>''"
  by (simp_all add: decode_token_def sample_tokenizer_def decode_plain plain_def)

lemma sample_decodable: "decodable sample_tokenizer 4"
  unfolding decodable_def
proof (intro allI impI)
  fix t :: nat assume "t < 4"
  then have "t = 0 \<or> t = 1 \<or> t = 2 \<or> t = 3"
    by auto
  then show "\<exists>piece. decode_token sample_tokenizer t = Inr piece"
    using sample_pieces by auto
qed

lemma sample_scaled: "scaled_model model_engine"
  by (simp add: scaled_model_def model_engine_def list_all_iff model_view_def)

lemma sample_able: "succeeding 4 dev \<Longrightarrow> able_to_serve 4 (sample_serving dev)"
  by (simp add: able_to_serve_def sample_serving_def sample_options_def default_options_def model_engine_serves sample_scaled
      sample_decodable tokenizer_vocabulary_size_def)

lemma sample_valid: "valid_tokens [2, 3]"
  by (simp add: valid_tokens_def tokenizer_vocabulary_size_def)

lemma capture_launching:
  "launching p \<Longrightarrow> (\<And>k. status_ok (cr_launch rt k)) \<Longrightarrow> \<exists>ks. capture rt p = (ok_status, ks)"
proof (induction p)
  case (Cons c p)
  then show ?case
    by (cases c) auto
qed simp

lemma sample_graph: "launchable s \<Longrightarrow> \<exists>ks. captured_graph (ct_capture sample_create) s parity = Inr ks"
proof -
  assume s: "launchable s"
  let ?p = "graph_program s (dc_graph_verifier_batch (ss_config s) - 1)"
  have "launching ?p"
    by (rule launching_graph [OF s])
  moreover have "status_ok (cr_launch (ct_capture sample_create) k)" for k
    by (simp add: sample_create_def)
  ultimately obtain ks where "capture (ct_capture sample_create) ?p = (ok_status, ks)"
    using capture_launching by blast
  then show ?thesis
    by (simp add: captured_graph_def Let_def sample_create_def hip_success_def)
qed

lemma sample_config_created:
  assumes config: "dc_maximum_context_tokens config = 64" "dc_graph_verifier_batch config \<le> 32" "dc_graph_verifier_batch config = 0 \<or> 2 \<le> dc_graph_verifier_batch config"
  shows "\<exists>s offsets g'. session_create sample_create model_engine config g = (Inr (s, offsets), g')"
proof -
  obtain s where s: "bind_session model_engine config = Inr s" "ss_config s = config"
    by (rule bind_head_rank [OF model_engine_serves])
  have launchable: "launchable s"
    by (rule bind_session_launchable [OF sample_scaled model_engine_serves s(1)])
  obtain even where even: "captured_graph (ct_capture sample_create) (s\<lparr>ss_record_rollback := True\<rparr>) False = Inr even"
    using sample_graph launchable by (metis launchable_update(5))
  obtain odd where odd: "captured_graph (ct_capture sample_create) (swap_states (s\<lparr>ss_record_rollback := True\<rparr>)) True = Inr odd"
    using sample_graph launchable by (metis launchable_update(5,7))
  obtain s1 where s1: "prepare_speculative_graphs (ct_capture sample_create) s = Inr s1"
    using even odd by (cases "dc_graph_verifier_batch (ss_config s) = 0") (auto simp: prepare_speculative_graphs_def Let_def)
  obtain offsets cursor where layout: "session_layout 0 (session_reservations 64) = Some (offsets, cursor)" "cursor \<le> 0x200000000"
    using sample_layout by blast
  have check: "check_session_config model_engine config = Inr ()"
    using config by (auto simp: not_less check_session_config_def model_engine_def kMaximumContextTokens_def kMaximumBlock_def)
  have "ct_memset sample_create b = hip_success" "ct_synchronize sample_create = hip_success" "ct_malloc sample_create n = hip_success"
    "ct_mem_info sample_create = (hip_success, 0x200000000)" for b n
    by (simp_all add: sample_create_def hip_success_def)
  then show ?thesis
    using layout s1 by (simp add: session_create_def check s initialize_session_def Let_def config max_u64_def session_constants)
qed

lemma sample_serving_created:
  "\<exists>s offsets g'. session_create sample_create model_engine (session_config sample_options) g = (Inr (s, offsets), g')"
  by (rule sample_config_created) (simp_all add: session_config_def sample_options_def default_options_def)

lemma sample_generates:
  assumes "succeeding 4 dev"
  shows "\<exists>r g' d' k'. generate (sample_serving dev) sample_chat on_text g d k = Some (Inr r, g', d', k')"
proof -
  let ?sv = "sample_serving dev"
  obtain s offsets g1 where create: "session_create sample_create model_engine (session_config sample_options) g = (Inr (s, offsets), g1)"
    using sample_serving_created by blast
  note ready = created_session_ready [OF sample_scaled model_engine_serves create]
  have fields: "sv_options ?sv = sample_options" "sv_runtime ?sv = sample_create" "sv_engine ?sv = model_engine"
    "sv_libraries ?sv = sample_libraries" "sv_tokenizer ?sv = sample_tokenizer" "so_context sample_options = 64"
    "cq_maximum_tokens sample_chat = 5" "cq_rendered_prompt sample_chat = ''ab<s>''"
    by (simp_all add: sample_serving_def sample_options_def sample_chat_def)
  have "\<exists>r s' d' k'. generate_session (sv_device ?sv) (sv_tokenizer ?sv) (sv_options ?sv) 5 on_text [2, 3] s d k = (Inr r, s', d', k')"
    by (rule generate_session_progress [OF sample_able [OF assms] sample_valid]) (use ready in \<open>simp_all add: fields\<close>)
  then show ?thesis
    using create by (auto simp: generate_def fields sample_encode)
qed

theorem generate_completes_witness:
  "\<exists>r g1 d' k'. generate (sample_serving answering_device) sample_chat None sample_gpu () ()
    = Some (Inr r, session_destroy g1, d', k')"
proof -
  obtain s offsets g1 where create: "session_create sample_create model_engine (session_config sample_options)
      sample_gpu = (Inr (s, offsets), g1)"
    using sample_serving_created by blast
  have "\<exists>r d' k'. generate (sample_serving answering_device) sample_chat None sample_gpu () ()
      = Some (Inr r, session_destroy g1, d', k')"
    by (rule generate_completes [OF sample_able [OF answering_succeeds] sample_valid, where s = s and offsets = offsets])
      (use create sample_encode in \<open>simp_all add: sample_serving_def sample_options_def sample_chat_def\<close>)
  then show ?thesis
    by blast
qed

theorem generate_bounds_witness:
  "\<exists>r g' d' k'. generate (sample_serving answering_device) sample_chat None sample_gpu () ()
      = Some (Inr r, g', d', k') \<and> 0 < gr_completion_tokens r \<and> gr_completion_tokens r \<le> 5"
proof -
  obtain r g' d' k' where r: "generate (sample_serving answering_device) sample_chat None sample_gpu () ()
      = Some (Inr r, g', d', k')"
    using sample_generates [OF answering_succeeds, where on_text = None and g = sample_gpu and d = "()" and k = "()"] by blast
  from generate_bounds [OF r] have "0 < gr_completion_tokens r \<and> gr_completion_tokens r \<le> 5"
    by (simp add: sample_chat_def)
  with r show ?thesis
    by blast
qed

theorem generate_is_memory_safe_witness:
  "\<exists>r g' c k'. generate (sample_serving (check_device (buffer_elements 64) answering_device)) sample_chat None
      sample_gpu (check_new ()) () = Some (Inr r, g', c, k') \<and> ck_safe c"
proof -
  let ?dev = "check_device (buffer_elements 64) answering_device"
  obtain r g' c k' where r: "generate (sample_serving ?dev) sample_chat None sample_gpu (check_new ()) ()
      = Some (Inr r, g', c, k')"
    using sample_generates [OF checked_succeeds [OF answering_succeeds], where on_text = None and g = sample_gpu and d = "check_new ()" and k = "()"] by blast
  have "ck_safe c"
    by (rule generate_is_memory_safe [of "sample_serving ?dev" answering_device sample_chat None])
      (use r in \<open>simp_all add: sample_serving_def model_engine_serves served_mode_def session_config_def sample_options_def
        default_options_def\<close>)
  with r show ?thesis
    by blast
qed

lemma answering_runs: "runs_model answering_device (\<lambda>h. 2) (\<lambda>h s d. True)"
proof -
  have "x = 2" if "greedy_step answering_device s t d = (Inr x, s', d')" for s t d x s' d'
    using that by (auto simp: greedy_step_def answering_device_def Let_def split: if_splits prod.splits)
  moreover have "verifies answering_device s t n d (\<lambda>h. 2) h" for s t n d h
    by (simp add: verifies_def case_prod_unfold Let_def answering_device_def list_all_iff)
  ultimately show ?thesis
    by (auto simp: runs_model_def split: prod.splits sum.splits)
qed

theorem generate_is_greedy_witness:
  "\<exists>r g' d' k'. generate (sample_serving answering_device) sample_chat None sample_gpu () ()
      = Some (Inr r, g', d', k') \<and> gr_completion_tokens r = 5 \<and> \<not> gr_stopped r \<and> gr_text r = ''ababababab''"
proof -
  obtain r g' d' k' where r: "generate (sample_serving answering_device) sample_chat None sample_gpu () ()
      = Some (Inr r, g', d', k')"
    using sample_generates [OF answering_succeeds, where on_text = None and g = sample_gpu and d = "()" and k = "()"] by blast
  note connected = silent_connected [OF r]
  have "let answer = until_terminal (continuation (\<lambda>h. 2) [2, 3] (cq_maximum_tokens sample_chat)) in
    gr_completion_tokens r = length answer \<and> gr_stopped r = list_ex terminal_token answer
    \<and> tokenizer_decode (sv_tokenizer (sample_serving answering_device)) (filter (\<lambda>t. \<not> terminal_token t) answer) = Inr (gr_text r)"
    by (rule generate_is_greedy [OF r _ _ _ _ connected, where R = "\<lambda>h s d. True"])
      (use sample_encode answering_runs in \<open>simp_all add: sample_serving_def sample_chat_def\<close>)
  moreover have "until_terminal (continuation (\<lambda>h. 2) [2, 3] 5) = [2, 2, 2, 2, 2]"
  proof -
    have five: "5 = Suc (Suc (Suc (Suc (Suc 0))))"
      by simp
    show ?thesis
      unfolding five by (simp add: terminal_token_def kEndToken_def kEndOfTextToken_def)
  qed
  moreover have "tokenizer_decode sample_tokenizer [2, 2, 2, 2, 2] = Inr ''ababababab''"
    by (simp add: tokenizer_decode_def sample_pieces)
  ultimately have "gr_completion_tokens r = 5 \<and> \<not> gr_stopped r \<and> gr_text r = ''ababababab''"
    by (simp add: sample_chat_def sample_serving_def terminal_token_def kEndToken_def kEndOfTextToken_def)
  with r show ?thesis
    by blast
qed

section \<open>Graph replay\<close>

text \<open>
  C23. The graph that a session replays launches what the session would launch directly: after any
  run from the creation of a session with graphs, a speculative step over a graph that succeeds uploads
  the seed token and the session's positions and then replays a graph whose every launch, read with what
  was uploaded, is the launch that the proposal chain and the recording verifier make for that seed token
  in the current session, at its positions and on its current assignment of the state buffers, in the
  same order. The graphs were captured at the creation, one for each assignment of the buffers.
\<close>

theorem graph_replays_direct_launches:
  assumes "session_create rt en config g = (Inr (s0, offsets), g')" and "session_run dev (s0, d0) (s, d)"
    and "launch_prepared_speculative_graph dev s seed_token d = (status, s', d')" and "status_ok status"
    and "draft_count = dc_graph_verifier_batch config - 1"
  shows "\<exists>d1 d2 d3 graph. dx_upload dev graph_seed_token [seed_token] d = (hip_success, d1)
    \<and> dx_upload dev (Arena Graph_Base_Position 0) [ss_current_position s] d1 = (hip_success, d2)
    \<and> dx_upload dev (Arena Graph_MTP_Positions 0) (map (\<lambda>index. ss_mtp_position s + index) [0..<draft_count]) d2
        = (hip_success, d3)
    \<and> dx_replay dev graph d3 = (hip_success, d')
    \<and> (\<forall>held. resolved (uploaded_inputs s seed_token draft_count held) (map Launch graph)
        = resolved (uploaded_inputs s seed_token draft_count held)
            (proposal_chain s seed_token (ss_mtp_position s) draft_count
              @ launch_speculative_verifier (s\<lparr>ss_record_rollback := True\<rparr>) seed_token draft_count))"
  by (rule graph_step [OF assms])

text \<open>A session with graphs for two drafts, after one token and one speculative step.\<close>

definition graph_config :: decode_session_config where
  "graph_config = \<lparr> dc_maximum_context_tokens = 64, dc_activation_mode = fp16, dc_graph_verifier_batch = 3 \<rparr>"

lemma graph_session_runs:
  "\<exists>s0 offsets g' s s'. session_create sample_create model_engine graph_config sample_gpu = (Inr (s0, offsets), g')
    \<and> session_run quiet_device (s0, ()) (s, ())
    \<and> launch_prepared_speculative_graph quiet_device s 7 () = (ok_status, s', ())"
proof -
  have dev: "succeeding 8 quiet_device"
    by (simp add: succeeding_def quiet_device_def hip_success_def)
  obtain s0 offsets g' where create: "session_create sample_create model_engine graph_config sample_gpu = (Inr (s0, offsets), g')"
    using sample_config_created [of graph_config sample_gpu] by (auto simp: graph_config_def)
  note ready = created_session_ready [OF sample_scaled model_engine_serves create]
  have config: "dc_maximum_context_tokens (ss_config s0) = 64" "dc_graph_verifier_batch (ss_config s0) = 3"
    using ready by (simp_all add: graph_config_def)
  have new: "ss_current_position s0 = 0" "ss_mtp_position s0 = 0" "ss_graphs s0 parity \<noteq> None" for parity
    using ready config by (auto simp: graphs_ready_def)
  let ?s1 = "s0\<lparr> ss_last_hidden := snd (greedy_layers s0 7), ss_current_position := ss_current_position s0 + 1 \<rparr>"
  obtain r1 where 1: "greedy_step quiet_device s0 7 () = (Inr r1, ?s1, ())"
    using greedy_step_progress [OF dev, of s0 7 "()"] ready config new by (auto simp: vocabulary_size_def)
  have launchable: "launchable ?s1"
    using ready by simp
  have "\<exists>r s' d'. speculative_step quiet_device ?s1 7 2 () = (Inr r, s', d') \<and> committed ?s1 s'
      \<and> list_all (\<lambda>t. t < 8) (sr_tokens r)"
    by (rule speculative_step_progress [OF dev launchable])
      (use config new greedy_layers_hidden [of s0 7] in \<open>simp_all add: kMaximumBlock_def tokenizer_vocabulary_size_def\<close>)
  then obtain r2 s2 where 2: "speculative_step quiet_device ?s1 7 2 () = (Inr r2, s2, ())" and bindings: "same_bindings ?s1 s2"
    by (auto simp: committed_def)
  have run: "session_run quiet_device (s0, ()) (s2, ())"
    by (rule run_speculative [OF run_greedy [OF run_start 1] 2])
  have "launchable s2" "ss_graphs s2 parity \<noteq> None" "dc_graph_verifier_batch (ss_config s2) = 3" for parity
    using same_bindings_launchable [OF bindings launchable] bindings new(3) config by (simp_all add: same_bindings_def)
  then have "\<exists>d'. launch_prepared_speculative_graph quiet_device s2 7 () = (ok_status, after_verifier s2 2, d')"
    using launch_progress [OF dev, of s2 2 7 "()"] by (simp add: kMaximumBlock_def)
  then show ?thesis
    using create run by auto
qed

theorem graph_replays_direct_launches_witness:
  "\<exists>s0 offsets g' s s' graph. session_create sample_create model_engine graph_config sample_gpu = (Inr (s0, offsets), g')
    \<and> session_run quiet_device (s0, ()) (s, ())
    \<and> launch_prepared_speculative_graph quiet_device s 7 () = (ok_status, s', ())
    \<and> (\<forall>held. resolved (uploaded_inputs s 7 2 held) (map Launch graph)
        = resolved (uploaded_inputs s 7 2 held)
            (proposal_chain s 7 (ss_mtp_position s) 2 @ launch_speculative_verifier (s\<lparr>ss_record_rollback := True\<rparr>) 7 2))"
proof -
  obtain s0 offsets g' s s' where create: "session_create sample_create model_engine graph_config sample_gpu = (Inr (s0, offsets), g')"
    and run: "session_run quiet_device (s0, ()) (s, ())"
    and launch: "launch_prepared_speculative_graph quiet_device s 7 () = (ok_status, s', ())"
    using graph_session_runs by blast
  have "status_ok ok_status" "(2 :: nat) = dc_graph_verifier_batch graph_config - 1"
    by (simp_all add: graph_config_def)
  from graph_replays_direct_launches [OF create run launch this] create run launch show ?thesis
    by blast
qed

end
