(* ===== verification/Streaming.thy ===== *)
theory Streaming
  imports GenerateProps
begin

text \<open>
  The callback of a generation: the client receives, in whole UTF-8 sequences, the longest valid
  prefix of the text, and streaming changes nothing in the answer.
\<close>

section \<open>A streamed answer\<close>

subsection \<open>UTF-8 prefixes\<close>

definition head_sequence :: "string \<Rightarrow> nat option" where
  "head_sequence t =
     (if t = [] then None
      else case utf8_length (byte_of_char (t ! 0)) of
        None \<Rightarrow> None
      | Some n \<Rightarrow> if n \<le> length t \<and> list_all (\<lambda>i. is_continuation (t ! i)) [1..<n] then Some n else None)"

lemma utf8_length_positive: "utf8_length b = Some n \<Longrightarrow> 0 < n"
  by (auto simp: utf8_length_def split: if_splits)

lemma utf8_prefix_loop_shift: "utf8_prefix_loop (u @ t) (length u + offset) = length u + utf8_prefix_loop t offset"
proof (induction t offset rule: utf8_prefix_loop.induct)
  case (1 t offset)
  have nth: "(u @ t) ! (length u + i) = t ! i" for i
    by simp
  show ?case
  proof (cases "\<exists>n. offset < length t \<and> utf8_length (byte_of_char (t ! offset)) = Some n \<and> offset + n \<le> length t
      \<and> list_all (\<lambda>i. is_continuation (t ! (offset + i))) [1..<n]")
    case True
    then obtain n where n: "offset < length t" "utf8_length (byte_of_char (t ! offset)) = Some n" "\<not> offset + n > length t"
      "list_all (\<lambda>i. is_continuation (t ! (offset + i))) [1..<n]"
      by auto
    then show ?thesis
      using "1.IH" [OF n] by (subst (1 2) utf8_prefix_loop.simps) (simp add: nth add.assoc)
  next
    case False
    then show ?thesis
      by (subst (1 2) utf8_prefix_loop.simps) (auto simp: nth add.assoc split: option.split)
  qed
qed

lemma valid_prefix_unfold:
  "valid_utf8_prefix t = (case head_sequence t of None \<Rightarrow> 0 | Some n \<Rightarrow> n + valid_utf8_prefix (drop n t))"
proof (cases "head_sequence t")
  case None
  then show ?thesis
    by (subst utf8_prefix_loop.simps [of t 0, folded valid_utf8_prefix_def])
      (auto simp: head_sequence_def split: option.splits if_splits)
next
  case (Some n)
  then have n: "t \<noteq> []" "utf8_length (byte_of_char (t ! 0)) = Some n" "n \<le> length t" "list_all (\<lambda>i. is_continuation (t ! i)) [1..<n]"
    by (auto simp: head_sequence_def split: option.splits if_splits)
  have "utf8_prefix_loop t n = n + valid_utf8_prefix (drop n t)"
    using utf8_prefix_loop_shift [of "take n t" "drop n t" 0] n(3) by (simp add: valid_utf8_prefix_def min.absorb2)
  then show ?thesis
    using n Some by (subst utf8_prefix_loop.simps [of t 0, folded valid_utf8_prefix_def]) simp
qed

lemma head_sequence_append: "head_sequence t = Some n \<Longrightarrow> head_sequence (t @ u) = Some n"
  by (auto simp: head_sequence_def nth_append list_all_iff split: option.splits if_splits)

lemma head_sequence_bounds: "head_sequence t = Some n \<Longrightarrow> 0 < n \<and> n \<le> length t"
  by (auto simp: head_sequence_def utf8_length_positive split: option.splits if_splits)

lemma head_sequence_shorter:
  assumes "head_sequence t = Some n"
  shows "length (drop n t) < length t"
  using head_sequence_bounds [OF assms] by (cases t) auto

lemma valid_prefix_le: "valid_utf8_prefix t \<le> length t"
proof (induction "length t" arbitrary: t rule: less_induct)
  case less
  show ?case
  proof (cases "head_sequence t")
    case (Some n)
    then have "valid_utf8_prefix (drop n t) \<le> length (drop n t)"
      by (intro less head_sequence_shorter [OF Some])
    then show ?thesis
      using Some head_sequence_bounds [OF Some] by (subst valid_prefix_unfold) auto
  qed (subst valid_prefix_unfold, simp)
qed

text \<open>The prefix of a longer text: what was valid stays valid, and the rest is judged on its own.\<close>

lemma valid_prefix_append:
  "valid_utf8_prefix (t @ u) = valid_utf8_prefix t + valid_utf8_prefix (drop (valid_utf8_prefix t) t @ u)"
proof (induction "length t" arbitrary: t rule: less_induct)
  case less
  show ?case
  proof (cases "head_sequence t")
    case None
    then show ?thesis
      by (subst (2 3) valid_prefix_unfold) simp
  next
    case (Some n)
    note n = head_sequence_bounds [OF Some]
    have v: "valid_utf8_prefix t = n + valid_utf8_prefix (drop n t)"
      using Some by (subst valid_prefix_unfold) simp
    have "valid_utf8_prefix (t @ u) = n + valid_utf8_prefix (drop n t @ u)"
      using head_sequence_append [OF Some, of u] n by (subst valid_prefix_unfold) simp
    also have "valid_utf8_prefix (drop n t @ u) = valid_utf8_prefix (drop n t)
        + valid_utf8_prefix (drop (valid_utf8_prefix (drop n t)) (drop n t) @ u)"
      by (intro less head_sequence_shorter [OF Some])
    finally show ?thesis
      by (simp add: v add.commute)
  qed
qed

lemma valid_prefix_take: "valid_utf8_prefix (take (valid_utf8_prefix t) t) = valid_utf8_prefix t"
proof (induction "length t" arbitrary: t rule: less_induct)
  case less
  show ?case
  proof (cases "head_sequence t")
    case None
    then show ?thesis
      by (subst (2 3) valid_prefix_unfold) (simp add: valid_prefix_unfold [of "[]"] head_sequence_def)
  next
    case (Some n)
    note n = head_sequence_bounds [OF Some]
    let ?w = "valid_utf8_prefix (drop n t)"
    have v: "valid_utf8_prefix t = n + ?w"
      using Some by (subst valid_prefix_unfold) simp
    have "take (n + ?w) t = take n t @ take ?w (drop n t)"
      by (rule take_add)
    moreover have "head_sequence (take n t) = Some n"
      using Some n by (auto simp: head_sequence_def nth_append list_all_iff split: option.splits if_splits)
    ultimately have "head_sequence (take (n + ?w) t) = Some n"
      using head_sequence_append by metis
    moreover have "drop n (take (n + ?w) t) = take ?w (drop n t)"
      by (simp add: drop_take)
    moreover have "valid_utf8_prefix (take ?w (drop n t)) = ?w"
      by (intro less head_sequence_shorter [OF Some])
    ultimately show ?thesis
      unfolding v by (subst valid_prefix_unfold) simp
  qed
qed

subsection \<open>The pieces of a stream\<close>

definition whole_pieces :: "string list \<Rightarrow> bool" where
  "whole_pieces ps \<longleftrightarrow> list_all (\<lambda>p. p \<noteq> [] \<and> valid_utf8_prefix p = length p) ps"

text \<open>
  A callback that keeps account: \<open>Q\<close> relates the client to the pieces that it took, \<open>D\<close> describes a
  client that refused one.
\<close>

definition accounts :: "('k \<Rightarrow> string list \<Rightarrow> bool) \<Rightarrow> ('k \<Rightarrow> bool) \<Rightarrow> (string \<Rightarrow> 'k \<Rightarrow> bool \<times> 'k) \<Rightarrow> bool" where
  "accounts Q D callback \<longleftrightarrow>
     (\<forall>k ps p. Q k ps \<longrightarrow> (case callback p k of (alive, k') \<Rightarrow> if alive then Q k' (ps @ [p]) else D k'))"

definition streamed :: "('k \<Rightarrow> string list \<Rightarrow> bool) \<Rightarrow> ('k \<Rightarrow> bool) \<Rightarrow> qwen_tokenizer \<Rightarrow> 'k generating \<Rightarrow> bool" where
  "streamed Q D tk g \<longleftrightarrow>
     (if gr_client_connected (gn_output g) then
        \<exists>ps. Q (gn_client g) ps \<and> tokenizer_decode tk (gn_content_tokens g) = Inr (gr_text (gn_output g))
          \<and> gn_sent_bytes g = valid_utf8_prefix (gr_text (gn_output g))
          \<and> concat ps = take (gn_sent_bytes g) (gr_text (gn_output g)) \<and> whole_pieces ps
      else D (gn_client g))"

text \<open>After a step that ends with a status.\<close>

definition streamed_after :: "('k \<Rightarrow> string list \<Rightarrow> bool) \<Rightarrow> ('k \<Rightarrow> bool) \<Rightarrow> qwen_tokenizer \<Rightarrow> status \<Rightarrow> 'k generating \<Rightarrow> bool" where
  "streamed_after Q D tk st g \<longleftrightarrow> (if status_ok st then streamed Q D tk g else \<exists>ps. Q (gn_client g) ps)"

lemma decode_append:
  assumes "tokenizer_decode tk ts = Inr a" "tokenizer_decode tk (ts @ us) = Inr b"
  shows "\<exists>c. b = a @ c"
proof -
  obtain xs where "result_all (decode_token tk) ts = Inr xs" "a = concat xs"
    using assms(1) by (cases "result_all (decode_token tk) ts") (auto simp: tokenizer_decode_def)
  moreover obtain ys where "result_all (decode_token tk) us = Inr ys"
    using assms(2) calculation(1) by (cases "result_all (decode_token tk) us") (auto simp: tokenizer_decode_def result_all_append)
  ultimately show ?thesis
    using assms(2) by (auto simp: tokenizer_decode_def result_all_append)
qed

text \<open>The bytes between two prefixes are a piece.\<close>

lemma next_piece:
  fixes a c :: string
  defines "sent \<equiv> valid_utf8_prefix a" and "valid \<equiv> valid_utf8_prefix (a @ c)"
  shows "sent \<le> valid" "take valid (a @ c) = take sent a @ substr sent (valid - sent) (a @ c)"
    "sent < valid \<Longrightarrow> whole_pieces [substr sent (valid - sent) (a @ c)]"
proof -
  let ?rest = "drop sent (a @ c)"
  have le: "sent \<le> length a"
    by (simp add: sent_def valid_prefix_le)
  have valid: "valid = sent + valid_utf8_prefix ?rest"
    using valid_prefix_append [of a c] le by (simp add: sent_def valid_def)
  then show "sent \<le> valid"
    by simp
  have piece: "substr sent (valid - sent) (a @ c) = take (valid_utf8_prefix ?rest) ?rest"
    by (simp add: substr_def valid)
  have "take valid (a @ c) = take sent (a @ c) @ take (valid_utf8_prefix ?rest) ?rest"
    unfolding valid by (rule take_add)
  then show "take valid (a @ c) = take sent a @ substr sent (valid - sent) (a @ c)"
    using le by (simp add: piece)
  assume more: "sent < valid"
  have whole: "whole_pieces [take (valid_utf8_prefix r) r]" if "0 < valid_utf8_prefix r" for r :: string
    using that valid_prefix_le [of r] by (auto simp: whole_pieces_def valid_prefix_take)
  show "whole_pieces [substr sent (valid - sent) (a @ c)]"
    unfolding piece by (rule whole) (use more valid in linarith)
qed

lemma emit_streamed:
  assumes cb: "accounts Q D callback" and g: "streamed Q D tk g" "gr_client_connected (gn_output g)"
    and emit: "emit_content tk (Some callback) (g\<lparr>gn_content_tokens := gn_content_tokens g @ [t]\<rparr>) = (st, g')"
  shows "streamed_after Q D tk st g'"
proof -
  let ?old = "gr_text (gn_output g)" and ?sent = "gn_sent_bytes g"
  obtain ps where ps: "Q (gn_client g) ps" "tokenizer_decode tk (gn_content_tokens g) = Inr ?old" "?sent = valid_utf8_prefix ?old"
    "concat ps = take ?sent ?old" "whole_pieces ps"
    using g by (auto simp: streamed_def)
  show ?thesis
  proof (cases "tokenizer_decode tk (gn_content_tokens g @ [t])")
    case (Inl e)
    then show ?thesis
      using emit ps(1) decode_error [OF Inl] by (auto simp: emit_content_def streamed_after_def)
  next
    case (Inr b)
    obtain c where c: "b = ?old @ c"
      using decode_append [OF ps(2) Inr] by blast
    note piece = next_piece [of ?old c, folded ps(3) c]
    let ?piece = "substr ?sent (valid_utf8_prefix b - ?sent) b"
    obtain alive k where k: "callback ?piece (gn_client g) = (alive, k)"
      by force
    have after: "if alive then Q k (ps @ [?piece]) else D k"
      using cb ps(1) k by (auto simp: accounts_def split: prod.splits)
    show ?thesis
    proof (cases "valid_utf8_prefix b > ?sent")
      case True
      then show ?thesis
        using emit Inr g(2) ps(4,5) piece(2,3) after k
        by (auto simp: emit_content_def Let_def streamed_after_def streamed_def whole_pieces_def split: if_splits
            intro!: exI [of _ "ps @ [?piece]"])
    next
      case False
      then have "valid_utf8_prefix b = ?sent"
        using piece(1) by simp
      then show ?thesis
        using emit Inr g(2) ps piece(2)
        by (auto simp: emit_content_def Let_def streamed_after_def streamed_def substr_def intro!: exI [of _ ps])
    qed
  qed
qed

lemma consume_token_streamed:
  assumes cb: "accounts Q D callback" and g: "streamed Q D tk g" "gr_client_connected (gn_output g)"
    and consume: "consume_token tk (Some callback) t g = (st, g')"
  shows "streamed_after Q D tk st g'"
proof -
  let ?g = "g\<lparr> gn_next := t, gn_output := (gn_output g)\<lparr>gr_completion_tokens := gr_completion_tokens (gn_output g) + 1\<rparr> \<rparr>"
  have same: "streamed Q D tk ?g" "gr_client_connected (gn_output ?g)"
    using g by (simp_all add: streamed_def)
  show ?thesis
  proof (cases "terminal_token t")
    case True
    then show ?thesis
      using consume g by (auto simp: consume_token_def streamed_after_def streamed_def)
  next
    case False
    then show ?thesis
      by (intro emit_streamed [OF cb same, where t = t]) (use consume in \<open>simp add: consume_token_def Let_def\<close>)
  qed
qed

lemma consume_tokens_streamed:
  assumes cb: "accounts Q D callback"
  shows "consume_tokens tk (Some callback) maximum ts g = (st, g') \<Longrightarrow> streamed Q D tk g \<Longrightarrow> gr_client_connected (gn_output g) \<Longrightarrow>
    streamed_after Q D tk st g'"
proof (induction ts arbitrary: g)
  case Nil
  then show ?case
    by (simp add: streamed_after_def)
next
  case (Cons t ts)
  obtain st1 g1 where c: "consume_token tk (Some callback) t g = (st1, g1)"
    by force
  note one = consume_token_streamed [OF cb Cons.prems(2,3) c]
  show ?case
  proof (cases "status_ok st1 \<and> \<not> finished maximum g1")
    case True
    then show ?thesis
      using Cons.IH [of g1] Cons.prems(1) c one by (auto simp: streamed_after_def finished_def)
  next
    case False
    then show ?thesis
      using Cons.prems(1) c one by (auto simp: streamed_after_def split: if_splits)
  qed
qed

lemma decode_round_streamed:
  assumes cb: "accounts Q D callback" and g: "streamed Q D tk g" "gr_client_connected (gn_output g)"
    and round: "decode_round dev tk (Some callback) draft_count maximum s d g = (r, s', d', g')"
  shows "case r of Inl e \<Rightarrow> \<exists>ps. Q (gn_client g') ps | Inr u \<Rightarrow> streamed Q D tk g'"
proof -
  have now: "\<exists>ps. Q (gn_client g) ps"
    using g by (auto simp: streamed_def)
  have counted: "streamed Q D tk (count_round x g)" "gr_client_connected (gn_output (count_round x g))" for x
    using g by (simp_all add: streamed_def count_round_def)
  have after: "case as_result st of Inl e \<Rightarrow> \<exists>ps. Q (gn_client g2) ps | Inr u \<Rightarrow> streamed Q D tk g2"
    if "streamed_after Q D tk st g2" for st g2
    using that by (simp add: streamed_after_def as_result_def)
  have consumed: "case as_result st of Inl e \<Rightarrow> \<exists>ps. Q (gn_client g2) ps | Inr u \<Rightarrow> streamed Q D tk g2"
    if "consume_token tk (Some callback) t g = (st, g2)" for t st g2
    using after [OF consume_token_streamed [OF cb g that]] .
  have consumeds: "case as_result st of Inl e \<Rightarrow> \<exists>ps. Q (gn_client g2) ps | Inr u \<Rightarrow> streamed Q D tk g2"
    if "consume_tokens tk (Some callback) maximum ts (count_round x g) = (st, g2)" for ts x st g2
    using after [OF consume_tokens_streamed [OF cb that counted]] .
  let ?P = "\<lambda>(r, s', d', g'). case r of Inl e \<Rightarrow> \<exists>ps. Q (gn_client g') ps | Inr u \<Rightarrow> streamed Q D tk g'"
  have "?P (decode_round dev tk (Some callback) draft_count maximum s d g)"
    unfolding decode_round_def Let_def
    by (auto intro: now dest: consumed consumeds split: if_splits sum.split prod.split)
  then show ?thesis
    by (simp add: round)
qed

lemma generate_session_streamed:
  assumes cb: "accounts Q D callback" and start: "Q k []"
    and run: "generate_session dev tk options maximum (Some callback) tokens s d k = (r, s', d', k')"
  shows "case r of
      Inl e \<Rightarrow> \<exists>ps. Q k' ps
    | Inr out \<Rightarrow> if gr_client_connected out
        then \<exists>ps. Q k' ps \<and> concat ps = take (valid_utf8_prefix (gr_text out)) (gr_text out) \<and> whole_pieces ps
        else D k'"
proof -
  have "valid_utf8_prefix [] = 0"
    using valid_prefix_le [of "[]"] by simp
  then have g0: "streamed Q D tk (generate_start tokens k)" "gr_client_connected (gn_output (generate_start tokens k))"
    "gn_client (generate_start tokens k) = k"
    using start by (auto simp: streamed_def generate_start_def tokenizer_decode_def whole_pieces_def intro!: exI [of _ "[]"])
  note consumed = consume_token_streamed [OF cb g0(1,2)]
  have loop: "case r3 of Inl e \<Rightarrow> \<exists>ps. Q (gn_client g3) ps | Inr u \<Rightarrow> streamed Q D tk g3"
    if "streamed Q D tk g" "decode_loop dev tk (Some callback) n maximum s2 d2 g = (r3, s3, d3, g3)" for g n s2 d2 r3 s3 d3 g3
  proof -
    have "case r3 of Inl e \<Rightarrow> \<exists>ps. Q (gn_client g3) ps | Inr u \<Rightarrow> streamed Q D tk g3
        \<and> \<not> (gr_completion_tokens (gn_output g3) < maximum \<and> gr_client_connected (gn_output g3) \<and> \<not> gr_stopped (gn_output g3))"
      by (rule decode_loop_rule [where I = "\<lambda>s d. streamed Q D tk" and E = "\<lambda>s d g. \<exists>ps. Q (gn_client g) ps", OF _ that])
        (rule decode_round_streamed [OF cb])
    then show ?thesis
      by (auto split: sum.splits)
  qed
  obtain r1 s1 d1 where first: "greedy_step dev s (hd tokens) d = (r1, s1, d1)"
    by (metis prod_cases3)
  show ?thesis
  proof (cases r1)
    case (Inl e)
    then show ?thesis
      using run start by (auto simp: generate_session_def first)
  next
    case (Inr y)
    obtain r2 s2 d2 where fill: "prefill dev (so_draft_count options \<noteq> 0) (tl tokens) y s1 d1 = (r2, s2, d2)"
      by (metis prod_cases3)
    show ?thesis
    proof (cases r2)
      case (Inl e)
      then show ?thesis
        using run start Inr by (auto simp: generate_session_def first fill [simplified])
    next
      case (Inr x)
      obtain st g where consume: "consume_token tk (Some callback) x (generate_start tokens k) = (st, g)"
        by force
      obtain r3 s3 d3 g3 where l: "decode_loop dev tk (Some callback) (so_draft_count options) maximum s2 d2 g = (r3, s3, d3, g3)"
        by (metis prod_cases4)
      have g: "streamed_after Q D tk st g"
        by (rule consumed [OF consume])
      show ?thesis
      proof (cases "status_ok st")
        case False
        then show ?thesis
          using run g \<open>r1 = Inr y\<close> Inr
          by (auto simp: generate_session_def first fill [simplified] consume Let_def streamed_after_def)
      next
        case True
        then have "case r3 of Inl e \<Rightarrow> \<exists>ps. Q (gn_client g3) ps | Inr u \<Rightarrow> streamed Q D tk g3"
          using g by (intro loop [OF _ l]) (simp add: streamed_after_def)
        then show ?thesis
          using run True \<open>r1 = Inr y\<close> Inr
          by (cases r3) (auto simp: generate_session_def first fill [simplified] consume Let_def l streamed_def split: if_splits)
      qed
    qed
  qed
qed

text \<open>
  Whatever the client's state is: an answer that ends without an error and keeps its client has given
  it, in pieces of whole UTF-8 sequences, the longest valid prefix of the text.
\<close>

lemma generate_streamed:
  assumes cb: "accounts Q D callback" and start: "Q k []"
    and gen: "generate sv request (Some callback) g d k = Some (r, g', d', k')"
  shows "case r of
      Inl e \<Rightarrow> \<exists>ps. Q k' ps
    | Inr out \<Rightarrow> if gr_client_connected out
        then \<exists>ps. Q k' ps \<and> concat ps = take (valid_utf8_prefix (gr_text out)) (gr_text out) \<and> whole_pieces ps
        else D k'"
proof (rule generate_cases [OF gen])
  fix tokens s offsets g1 s'
  assume "generate_session (sv_device sv) (sv_tokenizer sv) (sv_options sv) (cq_maximum_tokens request) (Some callback) tokens s d k
    = (r, s', d', k')"
  then show ?thesis
    by (rule generate_session_streamed [OF cb start])
qed (use start in auto)

text \<open>
  A byte that begins no UTF-8 sequence ends the stream: after a complete text, nothing that follows
  such a byte is ever sent, while the same text in an answer that is not streamed is not cut.
\<close>

lemma stream_stalls:
  assumes "valid_utf8_prefix t = length t" "utf8_length (byte_of_char c) = None"
  shows "valid_utf8_prefix (t @ c # u) = length t"
proof -
  have "head_sequence (c # u) = None"
    using assms(2) by (simp add: head_sequence_def)
  then show ?thesis
    using valid_prefix_append [of t "c # u"] assms(1) by (simp add: valid_prefix_unfold [of "c # u"])
qed


subsection \<open>Streaming changes nothing\<close>

text \<open>Two generations that differ in what their clients saw.\<close>

definition alike :: "'k generating \<Rightarrow> 'l generating \<Rightarrow> bool" where
  "alike g h \<longleftrightarrow> gn_output g = gn_output h \<and> gn_next g = gn_next h \<and> gn_content_tokens g = gn_content_tokens h"

lemma consume_token_alike:
  assumes "alike g h" and "consume_token tk (Some callback) t g = (st, g')" and "gr_client_connected (gn_output g')"
  shows "\<exists>h'. consume_token tk None t h = (st, h') \<and> alike g' h'"
  using assms
  by (auto simp: alike_def consume_token_def emit_content_def Let_def split: if_splits sum.splits prod.splits)

lemma consume_token_alive:
  assumes "consume_token tk cb t g = (st, g')" and "gr_client_connected (gn_output g')"
  shows "gr_client_connected (gn_output g)"
  using assms by (auto simp: consume_token_def emit_content_def Let_def split: if_splits sum.splits prod.splits option.splits)

lemma consume_tokens_alive:
  "consume_tokens tk cb maximum ts g = (st, g') \<Longrightarrow> gr_client_connected (gn_output g') \<Longrightarrow> gr_client_connected (gn_output g)"
proof (induction ts arbitrary: g)
  case (Cons t ts)
  obtain st1 g1 where c: "consume_token tk cb t g = (st1, g1)"
    by force
  then have "gr_client_connected (gn_output g1)"
    using Cons by (auto split: if_splits)
  then show ?case
    by (rule consume_token_alive [OF c])
qed simp

lemma consume_tokens_alike:
  "alike g h \<Longrightarrow> consume_tokens tk (Some callback) maximum ts g = (st, g') \<Longrightarrow> gr_client_connected (gn_output g') \<Longrightarrow>
    \<exists>h'. consume_tokens tk None maximum ts h = (st, h') \<and> alike g' h'"
proof (induction ts arbitrary: g h)
  case (Cons t ts)
  obtain st1 g1 where c: "consume_token tk (Some callback) t g = (st1, g1)"
    by force
  have alive: "gr_client_connected (gn_output g1)"
    using Cons.prems c by (auto split: if_splits dest: consume_tokens_alive)
  obtain h1 where h1: "consume_token tk None t h = (st1, h1)" "alike g1 h1"
    using consume_token_alike [OF Cons.prems(1) c alive] by blast
  then have "finished maximum h1 = finished maximum g1"
    by (simp add: finished_def alike_def)
  then show ?case
    using Cons.IH [OF h1(2)] Cons.prems c h1 by (auto split: if_splits)
qed simp

lemma decode_round_alike:
  assumes "alike g h" and "decode_round dev tk (Some callback) draft_count maximum s d g = (r, s', d', g')"
    and "gr_client_connected (gn_output g')"
  shows "\<exists>h'. decode_round dev tk None draft_count maximum s d h = (r, s', d', h') \<and> alike g' h'"
proof -
  have same: "gn_output h = gn_output g" "gn_next h = gn_next g" "alike (count_round x g) (count_round x h)" for x
    using assms(1) by (simp_all add: alike_def count_round_def)
  have one: "\<exists>h'. consume_token tk None t h = (st, h') \<and> alike g' h'"
    if "consume_token tk (Some callback) t g = (st, g')" for t st
    by (rule consume_token_alike [OF assms(1) that assms(3)])
  have many: "\<exists>h'. consume_tokens tk None maximum ts (count_round x h) = (st, h') \<and> alike g' h'"
    if "consume_tokens tk (Some callback) maximum ts (count_round x g) = (st, g')" for ts x st
    by (rule consume_tokens_alike [OF same(3) that assms(3)])
  show ?thesis
    using assms(1,2) unfolding decode_round_def Let_def same
    by (auto split: if_splits sum.splits prod.splits dest: one many)
qed

lemma decode_round_alive:
  assumes "decode_round dev tk cb draft_count maximum s d g = (r, s', d', g')" and "gr_client_connected (gn_output g')"
  shows "gr_client_connected (gn_output g)"
  using assms
  by (auto simp: decode_round_def count_round_def Let_def split: if_splits sum.splits prod.splits
      dest: consume_token_alive consume_tokens_alive)

lemma decode_loop_alive:
  assumes "decode_loop dev tk cb draft_count maximum s d g = (Inr u, s', d', g')" and "gr_client_connected (gn_output g')"
  shows "gr_client_connected (gn_output g)"
  using assms by (subst (asm) decode_loop.simps) (auto split: if_splits)

lemma decode_loop_alike:
  "alike g h \<Longrightarrow> decode_loop dev tk (Some callback) draft_count maximum s d g = (Inr u, s', d', g') \<Longrightarrow>
    gr_client_connected (gn_output g') \<Longrightarrow>
    \<exists>h'. decode_loop dev tk None draft_count maximum s d h = (Inr u, s', d', h') \<and> alike g' h'"
proof (induction "maximum - gr_completion_tokens (gn_output g)" arbitrary: s d g h rule: less_induct)
  case less
  let ?more = "\<lambda>g. gr_completion_tokens (gn_output g) < maximum \<and> gr_client_connected (gn_output g) \<and> \<not> gr_stopped (gn_output g)"
  have more: "?more h = ?more g"
    using less.prems(1) by (simp add: alike_def)
  show ?case
  proof (cases "?more g")
    case False
    then show ?thesis
      using less.prems more by (subst (asm) decode_loop.simps, subst decode_loop.simps) auto
  next
    case True
    obtain r1 s1 d1 g1 where r: "decode_round dev tk (Some callback) draft_count maximum s d g = (r1, s1, d1, g1)"
      by (metis prod_cases4)
    obtain v where v: "r1 = Inr v"
      using less.prems(2) True by (subst (asm) decode_loop.simps) (auto simp: r split: sum.splits)
    have rest: "decode_loop dev tk (Some callback) draft_count maximum s1 d1 g1 = (Inr u, s', d', g')"
      using less.prems(2) True by (subst (asm) decode_loop.simps) (simp add: r v)
    obtain h1 where h1: "decode_round dev tk None draft_count maximum s d h = (r1, s1, d1, h1)" "alike g1 h1"
      using decode_round_alike [OF less.prems(1) r decode_loop_alive [OF rest less.prems(3)]] by blast
    have "maximum - gr_completion_tokens (gn_output g1) < maximum - gr_completion_tokens (gn_output g)"
      by (rule diff_less_mono2 [OF decode_round_completion [OF r [unfolded v]] conjunct1 [OF True]])
    from less.hyps [OF this h1(2) rest less.prems(3)] show ?thesis
      using True more by (subst decode_loop.simps) (simp add: h1(1) v)
  qed
qed

lemma generate_session_alike:
  assumes "generate_session dev tk options maximum (Some callback) tokens s d k = (Inr r, s', d', k')" "gr_client_connected r"
  shows "generate_session dev tk options maximum None tokens s d l = (Inr r, s', d', l)"
proof -
  obtain y s1 d1 x s2 d2 st g0 g2 where first: "greedy_step dev s (hd tokens) d = (Inr y, s1, d1)"
    and fill: "prefill dev (so_draft_count options \<noteq> 0) (tl tokens) y s1 d1 = (Inr x, s2, d2)"
    and consume: "consume_token tk (Some callback) x (generate_start tokens k) = (st, g0)" "status_ok st"
    and loop: "decode_loop dev tk (Some callback) (so_draft_count options) maximum s2 d2 g0 = (Inr (), s', d', g2)"
    and r: "r = gn_output g2"
    by (rule generate_session_steps [OF assms(1)]) blast
  have alive: "gr_client_connected (gn_output g2)"
    using assms(2) r by simp
  have start: "alike (generate_start tokens k) (generate_start tokens l)"
    by (simp add: alike_def generate_start_def)
  obtain h0 where h0: "consume_token tk None x (generate_start tokens l) = (st, h0)" "alike g0 h0"
    using consume_token_alike [OF start consume(1) decode_loop_alive [OF loop alive]] by blast
  obtain h2 where h2: "decode_loop dev tk None (so_draft_count options) maximum s2 d2 h0 = (Inr (), s', d', h2)" "alike g2 h2"
    using decode_loop_alike [OF h0(2) loop alive] by blast
  have "gn_client h2 = l"
    using silent_client_loop [OF h2(1)] silent_client_token [OF h0(1)] by (simp add: generate_start_def)
  then show ?thesis
    using h2(2) by (simp add: generate_session_def first fill [simplified] h0(1) consume(2) h2(1) r alike_def Let_def)
qed

lemma streaming_transparent:
  assumes "generate sv request (Some callback) g d k = Some (Inr r, g', d', k')" and "gr_client_connected r"
  shows "generate sv request None g d l = Some (Inr r, g', d', l)"
proof -
  have "generate_session (sv_device sv) (sv_tokenizer sv) (sv_options sv) (cq_maximum_tokens request) None tokens s d l
      = (Inr r, s', d', l)"
    if "generate_session (sv_device sv) (sv_tokenizer sv) (sv_options sv) (cq_maximum_tokens request) (Some callback) tokens s d k
      = (Inr r, s', d', k')" for tokens s s'
    by (rule generate_session_alike [OF that assms(2)])
  then show ?thesis
    using assms(1) by (auto simp: generate_def split: option.splits sum.splits prod.splits if_splits)
qed

text \<open>
  Streaming changes nothing: an answer that was streamed to the end is, in its text, its counts
  and its reason to stop, and in what it leaves on the device, the answer without streaming.
\<close>

theorem streaming_is_transparent:
  assumes "generate sv request (Some callback) g d k = Some (Inr r, g', d', k')" and "gr_client_connected r"
  shows "generate sv request None g d l = Some (Inr r, g', d', l)"
  by (rule streaming_transparent [OF assms])

section \<open>A streamed answer at a concrete input\<close>

text \<open>A client that keeps the pieces.\<close>

definition collect :: "string \<Rightarrow> string list \<Rightarrow> bool \<times> string list" where
  "collect piece pieces = (True, pieces @ [piece])"

lemma collect_accounts: "accounts (\<lambda>k ps. k = ps) (\<lambda>k. False) collect"
  by (simp add: accounts_def collect_def)

theorem streaming_is_transparent_witness:
  "\<exists>r g d pieces. generate (sample_serving answering_device) sample_chat (Some collect) sample_gpu () [] = Some (Inr r, g, d, pieces)
    \<and> generate (sample_serving answering_device) sample_chat None sample_gpu () () = Some (Inr r, g, d, ())"
proof -
  obtain r g d pieces where gen: "generate (sample_serving answering_device) sample_chat (Some collect) sample_gpu () []
      = Some (Inr r, g, d, pieces)"
    using sample_generates [OF answering_succeeds, of "Some collect" sample_gpu "()" "[]"] by blast
  have "gr_client_connected r"
    using generate_streamed [OF collect_accounts _ gen] by (auto split: if_splits)
  then show ?thesis
    using gen streaming_is_transparent [OF gen, where l = "()"] by blast
qed

end
