(* ===== verification/ServerProps.thy ===== *)
theory ServerProps
  imports JsonText ServerRequests Server Streaming
begin

text \<open>
  What a client of the server can rely on: every answer is JSON, every connection is answered
  completely while the kernel accepts its bytes, and the events of a stream give the text of the
  answer that the same request gets without streaming.
\<close>

section \<open>The answers are JSON\<close>

definition usage_tree :: "generation_result \<Rightarrow> tree" where
  "usage_tree r = Obj [(''prompt_tokens'', Num (int (gr_prompt_tokens r))), (''completion_tokens'', Num (int (gr_completion_tokens r))),
     (''total_tokens'', Num (int (gr_prompt_tokens r + gr_completion_tokens r)))]"

definition object_fields :: "string \<Rightarrow> string \<Rightarrow> int \<Rightarrow> chat_request \<Rightarrow> (string \<times> tree) list" where
  "object_fields kind ident created request =
     [(''id'', Str ident), (''object'', Str kind), (''created'', Num created), (''model'', Str (cq_model request))]"

definition completion_tree :: "string \<Rightarrow> int \<Rightarrow> chat_request \<Rightarrow> generation_result \<Rightarrow> tree" where
  "completion_tree ident created request r = Obj (object_fields ''chat.completion'' ident created request @
     [(''choices'', Arr [Obj [(''index'', Num 0),
        (''message'', Obj [(''role'', Str ''assistant''), (''content'', Str (gr_text r)), (''refusal'', Null)]),
        (''logprobs'', Null), (''finish_reason'', Str (finish_reason r))]]), (''usage'', usage_tree r)])"

definition chunk_tree :: "string \<Rightarrow> int \<Rightarrow> chat_request \<Rightarrow> string \<Rightarrow> bool \<Rightarrow> string \<Rightarrow> tree" where
  "chunk_tree ident created request delta include_role reason = Obj (object_fields ''chat.completion.chunk'' ident created request @
     [(''choices'', Arr [Obj [(''index'', Num 0),
        (''delta'', Obj ((if include_role then [(''role'', Str ''assistant'')] else [])
           @ (if delta \<noteq> [] then [(''content'', Str delta)] else []))),
        (''logprobs'', Null), (''finish_reason'', if reason = [] then Null else Str reason)]]), (''usage'', Null)])"

definition stream_usage_tree :: "string \<Rightarrow> int \<Rightarrow> chat_request \<Rightarrow> generation_result \<Rightarrow> tree" where
  "stream_usage_tree ident created request r = Obj (object_fields ''chat.completion.chunk'' ident created request @
     [(''choices'', Arr []), (''usage'', usage_tree r)])"

definition error_tree :: "string \<Rightarrow> string \<Rightarrow> tree" where
  "error_tree message code = Obj [(''error'', Obj [(''message'', Str message), (''type'', Str ''invalid_request_error''),
     (''param'', Null), (''code'', Str code)])]"

definition models_tree :: tree where
  "models_tree = Obj [(''object'', Str ''list''), (''data'', Arr [Obj [(''id'', Str kServedModelId), (''object'', Str ''model''),
     (''created'', Num 0), (''owned_by'', Str ''local'')]])]"

lemma quoted_plain: "list_all (\<lambda>c. escape_char c = [c]) s \<Longrightarrow> quoted s = quote @ s @ quote"
proof -
  have "list_all (\<lambda>c. escape_char c = [c]) s \<Longrightarrow> json_escape s = s"
    by (induction s) (simp_all add: json_escape_def)
  then show "list_all (\<lambda>c. escape_char c = [c]) s \<Longrightarrow> quoted s = quote @ s @ quote"
    by (simp add: quoted_def)
qed

lemma quoted_keys:
  "quoted ''id'' = quote @ ''id'' @ quote" "quoted ''object'' = quote @ ''object'' @ quote"
  "quoted ''created'' = quote @ ''created'' @ quote" "quoted ''model'' = quote @ ''model'' @ quote"
  "quoted ''choices'' = quote @ ''choices'' @ quote" "quoted ''index'' = quote @ ''index'' @ quote"
  "quoted ''message'' = quote @ ''message'' @ quote" "quoted ''role'' = quote @ ''role'' @ quote"
  "quoted ''assistant'' = quote @ ''assistant'' @ quote" "quoted ''content'' = quote @ ''content'' @ quote"
  "quoted ''refusal'' = quote @ ''refusal'' @ quote" "quoted ''logprobs'' = quote @ ''logprobs'' @ quote"
  "quoted ''finish_reason'' = quote @ ''finish_reason'' @ quote" "quoted ''stop'' = quote @ ''stop'' @ quote"
  "quoted ''length'' = quote @ ''length'' @ quote" "quoted ''usage'' = quote @ ''usage'' @ quote"
  "quoted ''prompt_tokens'' = quote @ ''prompt_tokens'' @ quote" "quoted ''completion_tokens'' = quote @ ''completion_tokens'' @ quote"
  "quoted ''total_tokens'' = quote @ ''total_tokens'' @ quote" "quoted ''delta'' = quote @ ''delta'' @ quote"
  "quoted ''chat.completion'' = quote @ ''chat.completion'' @ quote"
  "quoted ''chat.completion.chunk'' = quote @ ''chat.completion.chunk'' @ quote"
  "quoted ''error'' = quote @ ''error'' @ quote" "quoted ''type'' = quote @ ''type'' @ quote"
  "quoted ''invalid_request_error'' = quote @ ''invalid_request_error'' @ quote" "quoted ''param'' = quote @ ''param'' @ quote"
  "quoted ''code'' = quote @ ''code'' @ quote" "quoted ''list'' = quote @ ''list'' @ quote" "quoted ''data'' = quote @ ''data'' @ quote"
  "quoted ''owned_by'' = quote @ ''owned_by'' @ quote" "quoted ''local'' = quote @ ''local'' @ quote"
  "quoted kServedModelId = quote @ kServedModelId @ quote"
  by (rule quoted_plain, simp add: escape_char_def kServedModelId_def)+

lemma int_text [simp]: "int_to_string (int n) = to_string n" "int_to_string (int m + int n) = to_string (m + n)"
  using of_nat_add [of m n, where 'a = int, symmetric] by (simp_all add: int_to_string_def nat_add_distrib)

lemma int_text_zero: "int_to_string 0 = ''0''"
  by (simp add: int_to_string_def to_string_zero)

lemmas text_simps = json_key_def quote_def quoted_keys [unfolded quote_def, simplified] int_text_zero

lemma usage_text: "usage_json r = json_key ''usage'' @ tree_text (usage_tree r) @ ''}''"
  by (simp add: usage_json_def usage_tree_def text_simps)

lemma reason_text: "quoted (finish_reason r) = quote @ finish_reason r @ quote"
  by (simp add: finish_reason_def text_simps)

lemma completion_text: "completion_json ident created request r = tree_text (completion_tree ident created request r)"
  unfolding completion_json_def usage_text
  by (simp add: completion_tree_def object_head_def object_fields_def text_simps reason_text [unfolded quote_def])

lemma chunk_text:
  assumes "reason = [] \<or> quoted reason = quote @ reason @ quote"
  shows "stream_chunk ident created request delta include_role reason
    = tree_text (chunk_tree ident created request delta include_role reason)"
  using assms by (auto simp: stream_chunk_def chunk_tree_def object_head_def object_fields_def text_simps)

lemma stream_usage_text: "stream_usage ident created request r = tree_text (stream_usage_tree ident created request r)"
  unfolding stream_usage_def usage_text
  by (simp add: stream_usage_tree_def object_head_def object_fields_def text_simps)

lemma error_text: "error_json message code = tree_text (error_tree message code)"
  by (simp add: error_json_def error_tree_def text_simps)

lemma models_text: "models_json = tree_text models_tree"
  by (simp add: models_json_def models_tree_def text_simps)

lemma json_texts [simp]:
  "json_parse (completion_json ident created request r) = Some (completion_tree ident created request r)"
  "json_parse (stream_chunk ident created request delta include_role '''') = Some (chunk_tree ident created request delta include_role '''')"
  "json_parse (stream_chunk ident created request delta include_role (finish_reason r))
    = Some (chunk_tree ident created request delta include_role (finish_reason r))"
  "json_parse (stream_usage ident created request r) = Some (stream_usage_tree ident created request r)"
  "json_parse (error_json message code) = Some (error_tree message code)"
  "json_parse models_json = Some models_tree"
  by (simp_all add: completion_text chunk_text reason_text stream_usage_text error_text models_text json_parse_text)

text \<open>
  C32. A client's JSON parser reads from every answer exactly what the server put in: the text of the
  completion, the piece of a stream, the counts, the reasons and the messages of errors, whatever
  characters they contain. The parser reads bytes; it does not check that they are UTF-8.
\<close>

theorem answers_are_json:
  "json_parse (completion_json ident created request r) = Some (completion_tree ident created request r)
    \<and> json_parse (stream_chunk ident created request delta include_role '''')
        = Some (chunk_tree ident created request delta include_role '''')
    \<and> json_parse (stream_chunk ident created request '''' False (finish_reason r))
        = Some (chunk_tree ident created request '''' False (finish_reason r))
    \<and> json_parse (stream_usage ident created request r) = Some (stream_usage_tree ident created request r)
    \<and> json_parse (error_json message code) = Some (error_tree message code)
    \<and> json_parse models_json = Some models_tree"
  by (intro conjI json_texts)

lemma one_line_texts [simp]:
  "one_line (stream_chunk ident created request delta include_role '''')"
  "one_line (stream_chunk ident created request delta include_role (finish_reason r))"
  "one_line (stream_usage ident created request r)" "one_line (error_json message code)"
  by (simp_all add: chunk_text reason_text stream_usage_text error_text one_line_tree)

section \<open>Events\<close>

definition sse_event :: "string \<Rightarrow> string" where
  "sse_event e = ''data: '' @ e @ newline @ newline"

text \<open>The events of a stream as a client reads them: lines that begin with \<open>data: \<close>, each before an empty one.\<close>

function read_events :: "string \<Rightarrow> string list option" where
  "read_events t =
     (if t = [] then Some []
      else if \<not> is_prefix ''data: '' t then None
      else
        let body = drop 6 t; line = takeWhile (\<lambda>c. c \<noteq> CHR 0x0A) body; rest = drop (length line) body in
        if is_prefix (newline @ newline) rest then map_option ((#) line) (read_events (drop 2 rest)) else None)"
  by pat_completeness auto
termination
  by (relation "measure length") auto

declare read_events.simps [simp del]

lemma read_events_Nil [simp]: "read_events [] = Some []"
  by (simp add: read_events.simps)

lemma takeWhile_line: "one_line e \<Longrightarrow> takeWhile (\<lambda>c. c \<noteq> CHR 0x0A) (e @ CHR 0x0A # s) = e"
  by (induction e) auto

lemma read_events_event:
  assumes "one_line e"
  shows "read_events (sse_event e @ s) = map_option ((#) e) (read_events s)"
proof -
  define t where "t = sse_event e @ s"
  have body: "drop 6 t = e @ CHR 0x0A # CHR 0x0A # s" and start: "t \<noteq> []" "is_prefix ''data: '' t"
    by (simp_all add: t_def sse_event_def newline_def is_prefix_def)
  have "read_events t = map_option ((#) e) (read_events s)"
    using start takeWhile_line [OF assms, of "CHR 0x0A # s"]
    by (subst read_events.simps) (simp add: body Let_def is_prefix_def newline_def)
  then show ?thesis
    by (simp add: t_def)
qed

lemma read_events_concat: "list_all one_line es \<Longrightarrow> read_events (concat (map sse_event es)) = Some es"
  by (induction es) (simp_all add: read_events_event)

text \<open>The text that an event adds to the answer.\<close>

definition tree_field :: "string \<Rightarrow> tree \<Rightarrow> tree option" where
  "tree_field name t = (case t of Obj fs \<Rightarrow> map_of fs name | _ \<Rightarrow> None)"

definition event_text :: "string \<Rightarrow> string" where
  "event_text e =
     (case Option.bind (json_parse e) (tree_field ''choices'') of
        Some (Arr (choice # _)) \<Rightarrow>
          (case Option.bind (tree_field ''delta'' choice) (tree_field ''content'') of
             Some (Str s) \<Rightarrow> s
           | _ \<Rightarrow> [])
      | _ \<Rightarrow> [])"

lemma event_texts [simp]:
  "event_text (stream_chunk ident created request delta include_role '''') = delta"
  "event_text (stream_chunk ident created request '''' False (finish_reason r)) = []"
  "event_text (stream_usage ident created request r) = []" "event_text (error_json message code) = []"
  by (simp_all add: event_text_def tree_field_def chunk_tree_def stream_usage_tree_def error_tree_def object_fields_def)

lemma done_event [simp]: "one_line ''[DONE]''" "stream_end = sse_event ''[DONE]''"
  by (simp_all add: stream_end_def sse_event_def)

section \<open>Sending\<close>

lemma send_loop_progresses:
  "send_loop rs data sent = (sent_all, rs', out) \<Longrightarrow> list_all progresses rs \<Longrightarrow>
    list_all progresses rs' \<and> (sent_all \<longrightarrow> out = sent @ data) \<and> (rs' \<noteq> [] \<longrightarrow> sent_all \<and> rs \<noteq> [])"
proof (induction rs data sent rule: send_loop.induct)
  case (5 k rs c cs sent)
  define w where "w = min k (length (c # cs))"
  have w: "0 < w" "take w (c # cs) @ drop w (c # cs) = c # cs"
    using "5.prems"(2) by (simp_all add: w_def progresses_def)
  have "send_loop rs (drop w (c # cs)) (sent @ take w (c # cs)) = (sent_all, rs', out)"
    using "5.prems"(1) w(1) by (simp only: send_loop.simps Let_def w_def [symmetric] if_True)
  moreover have "list_all progresses rs"
    using "5.prems"(2) by simp
  ultimately show ?case
    using "5.IH" [OF w_def w(1)] w(2) by (metis append_assoc list.distinct(1))
qed (auto simp: progresses_def)

text \<open>A send keeps the answers of the kernel good; when some are left, everything was sent.\<close>

definition transmits :: "connection \<Rightarrow> string \<Rightarrow> bool \<Rightarrow> connection \<Rightarrow> bool" where
  "transmits c data ok c' \<longleftrightarrow> list_all progresses (cn_outgoing c') \<and> (ok \<longrightarrow> cn_sent c' = cn_sent c @ data)
     \<and> (cn_outgoing c' \<noteq> [] \<longrightarrow> ok \<and> cn_outgoing c \<noteq> [])"

lemma send_all_transmits:
  assumes "list_all progresses (cn_outgoing c)" "send_all data c = (ok, c')"
  shows "transmits c data ok c'"
proof -
  obtain rs out where loop: "send_loop (cn_outgoing c) data (cn_sent c) = (ok, rs, out)"
    and c': "c' = c\<lparr>cn_outgoing := rs, cn_sent := out\<rparr>"
    using assms(2) by (auto simp: send_all_def Let_def split: prod.splits)
  show ?thesis
    using send_loop_progresses [OF loop assms(1)] by (simp add: c' transmits_def)
qed

lemma send_each_transmits:
  "list_all progresses (cn_outgoing c) \<Longrightarrow> send_each texts c = (ok, c') \<Longrightarrow> transmits c (concat texts) ok c'"
proof (induction texts arbitrary: c)
  case (Cons data texts)
  obtain sent c1 where first: "send_all data c = (sent, c1)"
    by force
  have one: "transmits c data sent c1"
    by (rule send_all_transmits [OF Cons.prems(1) first])
  show ?case
  proof (cases sent)
    case True
    then have "transmits c1 (concat texts) ok c'"
      using Cons.IH [of c1] Cons.prems(2) one by (simp add: first transmits_def)
    then show ?thesis
      using one True by (auto simp: transmits_def)
  next
    case False
    then show ?thesis
      using Cons.prems(2) one by (auto simp: first transmits_def)
  qed
qed (simp add: transmits_def)

lemma send_event_transmits:
  "list_all progresses (cn_outgoing c) \<Longrightarrow> send_sse_data e c = (ok, c') \<Longrightarrow> transmits c (sse_event e) ok c'"
  using send_each_transmits [of c "[''data: '', e, newline @ newline]" ok c'] by (simp add: send_sse_data_def sse_event_def)

definition json_response :: "nat \<Rightarrow> string \<Rightarrow> string \<Rightarrow> string" where
  "json_response code reason body =
     response_header code reason ''application/json; charset=utf-8'' (length body) @ body"

lemma send_json_transmits:
  "list_all progresses (cn_outgoing c) \<Longrightarrow> send_json code reason body c = (ok, c') \<Longrightarrow>
    transmits c (json_response code reason body) ok c'"
  using send_each_transmits [of c "[response_header code reason ''application/json; charset=utf-8'' (length body), body]" ok c']
  by (simp add: send_json_def send_response_def json_response_def)

definition sse_header :: string where
  "sse_header = ''HTTP/1.1 200 OK'' @ crlf @ ''Content-Type: text/event-stream; charset=utf-8'' @ crlf
     @ ''Cache-Control: no-cache'' @ crlf @ ''Connection: close'' @ crlf @ ''X-Accel-Buffering: no'' @ crlf
     @ ''X-Content-Type-Options: nosniff'' @ crlf @ crlf"

lemma send_headers_transmits:
  "list_all progresses (cn_outgoing c) \<Longrightarrow> send_sse_headers c = (ok, c') \<Longrightarrow> transmits c sse_header ok c'"
  by (rule send_all_transmits) (simp_all add: send_sse_headers_def sse_header_def)

text \<open>Several sends in a row, whatever the first one gave.\<close>

lemma transmits_trans:
  "transmits c a ok c1 \<Longrightarrow> transmits c1 b ok' c2 \<Longrightarrow> cn_outgoing c2 \<noteq> [] \<Longrightarrow> cn_sent c2 = cn_sent c @ a @ b"
  by (auto simp: transmits_def)

section \<open>The end of a stream\<close>

definition final_events :: "string \<Rightarrow> int \<Rightarrow> chat_request \<Rightarrow> generation_result result \<Rightarrow> string list" where
  "final_events ident created request r =
     (case r of
        Inl e \<Rightarrow> [error_json (status_message e) ''generation_error'', ''[DONE]'']
      | Inr output \<Rightarrow> [stream_chunk ident created request '''' False (finish_reason output)]
          @ (if cq_include_usage request then [stream_usage ident created request output] else []) @ [''[DONE]''])"

lemma finish_stream_sends:
  assumes "list_all progresses (cn_outgoing c)" "finish_stream ident created request r c = c'" "cn_outgoing c' \<noteq> []"
    and "case r of Inl e \<Rightarrow> True | Inr out \<Rightarrow> gr_client_connected out"
  shows "cn_outgoing c \<noteq> [] \<and> cn_sent c' = cn_sent c @ concat (map sse_event (final_events ident created request r))"
proof (cases r)
  case (Inl e)
  obtain ok1 c1 where one: "send_sse_data (error_json (status_message e) ''generation_error'') c = (ok1, c1)"
    by force
  obtain ok2 c2 where two: "send_all stream_end c1 = (ok2, c2)"
    by force
  have t1: "transmits c (sse_event (error_json (status_message e) ''generation_error'')) ok1 c1"
    by (rule send_event_transmits [OF assms(1) one])
  then have t2: "transmits c1 stream_end ok2 c2"
    by (intro send_all_transmits [OF _ two]) (simp add: transmits_def)
  have "c' = c2"
    using assms(2) by (simp add: finish_stream_def Inl one two del: done_event)
  then show ?thesis
    using t1 t2 assms(3) by (auto simp: transmits_def final_events_def Inl)
next
  case (Inr out)
  obtain ok1 c1 where one: "send_sse_data (stream_chunk ident created request '''' False (finish_reason out)) c = (ok1, c1)"
    by force
  obtain ok2 c2 where two: "(if cq_include_usage request then send_sse_data (stream_usage ident created request out) c1
      else (True, c1)) = (ok2, c2)"
    by force
  obtain ok3 c3 where three: "send_all stream_end c2 = (ok3, c3)"
    by force
  have t1: "transmits c (sse_event (stream_chunk ident created request '''' False (finish_reason out))) ok1 c1"
    by (rule send_event_transmits [OF assms(1) one])
  have good: "list_all progresses (cn_outgoing c1)"
    using t1 by (simp add: transmits_def)
  have t2: "transmits c1 (if cq_include_usage request then sse_event (stream_usage ident created request out) else []) ok2 c2"
    using two send_event_transmits [OF good] good by (auto simp: transmits_def split: if_splits)
  then have t3: "transmits c2 stream_end ok3 c3"
    by (intro send_all_transmits [OF _ three]) (simp add: transmits_def)
  have "c' = (if \<not> ok1 then c1 else if \<not> ok2 then c2 else c3)"
    using assms(2,4) two three by (simp add: finish_stream_def Inr one Let_def del: done_event split: if_splits)
  then show ?thesis
    using t1 t2 t3 assms(3) by (auto simp: transmits_def final_events_def Inr split: if_splits)
qed

section \<open>A streamed chat\<close>

text \<open>The events that the callback sent, before the end of the stream.\<close>

definition piece_events :: "string \<Rightarrow> int \<Rightarrow> chat_request \<Rightarrow> string list \<Rightarrow> string list" where
  "piece_events ident created request pieces =
     map (\<lambda>p. stream_chunk ident created request p False '''') pieces"

text \<open>What the callback keeps of its connection.\<close>

definition sent_pieces :: "string \<Rightarrow> string \<Rightarrow> int \<Rightarrow> chat_request \<Rightarrow> connection \<Rightarrow> string list \<Rightarrow> bool" where
  "sent_pieces base ident created request c pieces \<longleftrightarrow> list_all progresses (cn_outgoing c)
     \<and> (cn_outgoing c \<noteq> [] \<longrightarrow> cn_sent c = base @ concat (map sse_event (piece_events ident created request pieces)))"

lemma callback_accounts:
  "accounts (sent_pieces base ident created request) (\<lambda>c. cn_outgoing c = [])
    (\<lambda>delta. send_sse_data (stream_chunk ident created request delta False ''''))"
  unfolding accounts_def
proof (intro allI impI)
  fix c ps p
  assume sent: "sent_pieces base ident created request c ps"
  obtain ok c' where send: "send_sse_data (stream_chunk ident created request p False '''') c = (ok, c')"
    by force
  have "transmits c (sse_event (stream_chunk ident created request p False '''')) ok c'"
    using sent by (intro send_event_transmits [OF _ send]) (simp add: sent_pieces_def)
  then show "case send_sse_data (stream_chunk ident created request p False '''') c of
      (alive, c') \<Rightarrow> if alive then sent_pieces base ident created request c' (ps @ [p]) else cn_outgoing c' = []"
    using sent by (auto simp: send sent_pieces_def transmits_def piece_events_def)
qed

definition role_event :: "string \<Rightarrow> int \<Rightarrow> chat_request \<Rightarrow> string" where
  "role_event ident created request = stream_chunk ident created request '''' True ''''"

lemma handle_chat_streams:
  assumes "list_all progresses (cn_outgoing c)" and "parse_chat_request js (sv_options sv) body = Inr request" and "cq_stream request"
    and chat: "handle_chat js sv clock body st c = Some (st', c')" and more: "cn_outgoing c' \<noteq> []"
  shows "\<exists>ident r pieces k k'. generate_state sv request (stream_callback ident (snd clock) request)
        (st\<lparr>st_counter := st_counter st + 1\<rparr>) k = Some (r, st', k')
    \<and> cn_sent c' = cn_sent c @ sse_header @ concat (map sse_event (role_event ident (snd clock) request
        # piece_events ident (snd clock) request pieces @ final_events ident (snd clock) request r))
    \<and> (case r of Inl e \<Rightarrow> True
       | Inr out \<Rightarrow> gr_client_connected out \<and> concat pieces = take (valid_utf8_prefix (gr_text out)) (gr_text out))"
proof -
  define ident where "ident = request_id (fst clock) (st_counter st)"
  let ?created = "snd clock" and ?st = "st\<lparr>st_counter := st_counter st + 1\<rparr>"
  let ?role = "role_event ident ?created request"
  obtain ok1 c1 where one: "send_sse_headers c = (ok1, c1)"
    by force
  obtain ok2 c2 where two: "(if ok1 then send_sse_data ?role c1 else (False, c1)) = (ok2, c2)"
    by force
  have t1: "transmits c sse_header ok1 c1"
    by (rule send_headers_transmits [OF assms(1) one])
  have t2: "transmits c1 (sse_event ?role) ok2 c2" if ok1
    using two that t1 by (intro send_event_transmits) (simp_all add: transmits_def)
  have run: "(if \<not> ok2 then Some (?st, c2)
      else map_option (\<lambda>(r, st, k). (st, finish_stream ident ?created request r k))
        (generate_state sv request (stream_callback ident ?created request) ?st c2)) = Some (st', c')"
    using chat two [unfolded role_event_def ident_def]
    by (cases ok2) (simp_all add: handle_chat_def assms(2,3) one ident_def Let_def)
  have ok: "ok1" "ok2"
  proof -
    have "\<not> ok2 \<Longrightarrow> cn_outgoing c2 = []"
      using t1 t2 two by (cases ok1) (auto simp: transmits_def)
    then show "ok2"
      using run more by (cases ok2) auto
    then show "ok1"
      using two by (auto split: if_splits)
  qed
  obtain r k where gen: "generate_state sv request (stream_callback ident ?created request) ?st c2 = Some (r, st', k)"
    and c': "c' = finish_stream ident ?created request r k"
    using run ok by auto
  obtain g d where generated: "generate sv request (stream_callback ident ?created request) (st_gpu ?st) (st_memory ?st) c2
      = Some (r, g, d, k)"
    using gen by (auto simp: generate_state_def)
  let ?base = "cn_sent c @ sse_header @ sse_event ?role"
  have "sent_pieces ?base ident ?created request c2 []"
    using t1 t2 [OF ok(1)] ok by (simp add: sent_pieces_def transmits_def piece_events_def)
  note streamed = generate_streamed [OF callback_accounts this generated [unfolded stream_callback_def]]
  have outcome: "\<exists>pieces. sent_pieces ?base ident ?created request k pieces \<and> (case r of Inl e \<Rightarrow> True
      | Inr out \<Rightarrow> gr_client_connected out \<and> concat pieces = take (valid_utf8_prefix (gr_text out)) (gr_text out))"
  proof (cases r)
    case (Inl e)
    then show ?thesis
      using streamed by simp
  next
    case (Inr out)
    have "gr_client_connected out"
    proof (rule ccontr)
      assume "\<not> gr_client_connected out"
      then have "cn_outgoing k = []" "c' = k"
        using streamed by (simp_all add: Inr c' finish_stream_def)
      then show False
        using more by simp
    qed
    then show ?thesis
      using streamed by (auto simp: Inr)
  qed
  then obtain pieces where pieces: "sent_pieces ?base ident ?created request k pieces" and kept: "case r of Inl e \<Rightarrow> True
      | Inr out \<Rightarrow> gr_client_connected out \<and> concat pieces = take (valid_utf8_prefix (gr_text out)) (gr_text out)"
    by blast
  have "cn_outgoing k \<noteq> [] \<and> cn_sent c' = cn_sent k @ concat (map sse_event (final_events ident ?created request r))"
    using pieces kept by (intro finish_stream_sends [OF _ c' [symmetric] more]) (auto simp: sent_pieces_def split: sum.splits)
  then show ?thesis
    using gen pieces kept by (intro exI [of _ ident] exI [of _ r] exI [of _ pieces] exI [of _ c2] exI [of _ k])
      (simp add: sent_pieces_def)
qed

lemma one_line_events:
  "list_all one_line (role_event ident created request # piece_events ident created request pieces @ final_events ident created request r)"
  by (auto simp: list_all_iff role_event_def piece_events_def final_events_def split: sum.splits)

lemma final_done: "\<exists>es. final_events ident created request r = es @ [''[DONE]''] \<and> list_all (\<lambda>e. json_parse e \<noteq> None) es
    \<and> concat (map event_text es) = []"
  by (cases r) (simp_all add: final_events_def)

lemma piece_texts: "concat (map event_text (piece_events ident created request pieces)) = concat pieces"
  by (induction pieces) (simp_all add: piece_events_def)

text \<open>
  C33. A streamed answer is the answer: a client that reads the events of a completed stream finds a
  JSON document in each before the final mark, and, unless one of them reports an error, the texts
  in them are together the longest valid UTF-8 prefix of the text that the same request gets
  without streaming.
\<close>

theorem streamed_chat_delivers:
  assumes "parse_chat_request js (sv_options sv) body = Inr request" and "cq_stream request"
    and "list_all progresses (cn_outgoing c)"
    and "handle_chat js sv clock body st c = Some (st', c')" and "cn_outgoing c' \<noteq> []"
  shows "\<exists>stream events. cn_sent c' = cn_sent c @ sse_header @ stream \<and> read_events stream = Some (events @ [''[DONE]''])
    \<and> list_all (\<lambda>e. json_parse e \<noteq> None) events
    \<and> ((\<exists>message. last events = error_json message ''generation_error'')
       \<or> (\<exists>out. generate_state sv request None (st\<lparr>st_counter := st_counter st + 1\<rparr>) () = Some (Inr out, st', ())
            \<and> concat (map event_text events) = take (valid_utf8_prefix (gr_text out)) (gr_text out)))"
proof -
  let ?st = "st\<lparr>st_counter := st_counter st + 1\<rparr>"
  obtain ident r pieces k k' where gen: "generate_state sv request (stream_callback ident (snd clock) request) ?st k = Some (r, st', k')"
    and sent: "cn_sent c' = cn_sent c @ sse_header @ concat (map sse_event (role_event ident (snd clock) request
        # piece_events ident (snd clock) request pieces @ final_events ident (snd clock) request r))"
    and kept: "case r of Inl e \<Rightarrow> True
       | Inr out \<Rightarrow> gr_client_connected out \<and> concat pieces = take (valid_utf8_prefix (gr_text out)) (gr_text out)"
    using handle_chat_streams [OF assms(3,1,2,4,5)] by blast
  obtain es where es: "final_events ident (snd clock) request r = es @ [''[DONE]'']" "list_all (\<lambda>e. json_parse e \<noteq> None) es"
    "concat (map event_text es) = []"
    using final_done by blast
  let ?events = "role_event ident (snd clock) request # piece_events ident (snd clock) request pieces @ es"
  have "read_events (concat (map sse_event (?events @ [''[DONE]'']))) = Some (?events @ [''[DONE]''])"
    using one_line_events [of ident "snd clock" request pieces r] by (intro read_events_concat) (simp add: es(1))
  moreover have "list_all (\<lambda>e. json_parse e \<noteq> None) ?events"
    using es(2) by (auto simp: list_all_iff role_event_def piece_events_def)
  moreover have "(\<exists>message. last ?events = error_json message ''generation_error'')
      \<or> (\<exists>out. generate_state sv request None ?st () = Some (Inr out, st', ())
            \<and> concat (map event_text ?events) = take (valid_utf8_prefix (gr_text out)) (gr_text out))"
  proof (cases r)
    case (Inl e)
    then have "es = [error_json (status_message e) ''generation_error'']"
      using es(1) by (simp add: final_events_def)
    then show ?thesis
      by auto
  next
    case (Inr out)
    obtain g d where g: "generate sv request (stream_callback ident (snd clock) request) (st_gpu ?st) (st_memory ?st) k
        = Some (Inr out, g, d, k')" and st': "st' = ?st\<lparr>st_gpu := g, st_memory := d\<rparr>"
      using gen by (auto simp: generate_state_def Inr)
    have "generate sv request None (st_gpu ?st) (st_memory ?st) () = Some (Inr out, g, d, ())"
      using kept by (intro streaming_transparent [OF g [unfolded stream_callback_def]]) (simp add: Inr)
    then have "generate_state sv request None ?st () = Some (Inr out, st', ())"
      by (simp add: generate_state_def st')
    then show ?thesis
      using kept by (simp add: Inr role_event_def piece_texts es(3))
  qed
  ultimately show ?thesis
    using sent by (intro exI [of _ "concat (map sse_event (?events @ [''[DONE]'']))"] exI [of _ ?events]) (simp add: es(1))
qed

section \<open>Every connection is answered\<close>

definition answered :: "connection \<Rightarrow> connection \<Rightarrow> bool" where
  "answered c c' \<longleftrightarrow>
     (\<exists>code reason body. cn_sent c' = cn_sent c @ json_response code reason body \<and> json_parse body \<noteq> None)
     \<or> (\<exists>stream events. cn_sent c' = cn_sent c @ sse_header @ stream \<and> read_events stream = Some (events @ [''[DONE]''])
          \<and> list_all (\<lambda>e. json_parse e \<noteq> None) events)"

lemma send_json_answers:
  assumes "list_all progresses (cn_outgoing c)" "c' = snd (send_json code reason body c)" "cn_outgoing c' \<noteq> []"
    and "json_parse body \<noteq> None"
  shows "answered c c'"
proof -
  obtain ok where "send_json code reason body c = (ok, c')"
    using assms(2) by (metis prod.collapse)
  from send_json_transmits [OF assms(1) this] show ?thesis
    using assms(3,4) unfolding answered_def transmits_def by blast
qed

lemma streamed_chat_answers:
  assumes "parse_chat_request js (sv_options sv) body = Inr request" and "cq_stream request"
    and "list_all progresses (cn_outgoing c)"
    and "handle_chat js sv clock body st c = Some (st', c')" and "cn_outgoing c' \<noteq> []"
  shows "answered c c'"
proof -
  obtain ident r pieces where sent: "cn_sent c' = cn_sent c @ sse_header @ concat (map sse_event (role_event ident (snd clock) request
        # piece_events ident (snd clock) request pieces @ final_events ident (snd clock) request r))"
    using handle_chat_streams [OF assms(3,1,2,4,5)] by blast
  obtain es where es: "final_events ident (snd clock) request r = es @ [''[DONE]'']" "list_all (\<lambda>e. json_parse e \<noteq> None) es"
    using final_done by blast
  let ?events = "role_event ident (snd clock) request # piece_events ident (snd clock) request pieces @ es"
  have "read_events (concat (map sse_event (?events @ [''[DONE]'']))) = Some (?events @ [''[DONE]''])"
    using one_line_events [of ident "snd clock" request pieces r] by (intro read_events_concat) (simp add: es(1))
  moreover have "list_all (\<lambda>e. json_parse e \<noteq> None) ?events"
    using es(2) by (auto simp: list_all_iff role_event_def piece_events_def)
  ultimately show ?thesis
    unfolding answered_def using sent
    by (intro disjI2 exI [of _ "concat (map sse_event (?events @ [''[DONE]'']))"] exI [of _ ?events]) (simp add: es(1))
qed

lemma handle_chat_answers:
  assumes "list_all progresses (cn_outgoing c)" "handle_chat js sv clock body st c = Some (st', c')" "cn_outgoing c' \<noteq> []"
  shows "answered c c'"
proof (cases "parse_chat_request js (sv_options sv) body")
  case (Inl e)
  then show ?thesis
    using assms(2) by (intro send_json_answers [OF assms(1) _ assms(3)]) (auto simp: handle_chat_def)
next
  case (Inr request)
  show ?thesis
  proof (cases "cq_stream request")
    case True
    then show ?thesis
      by (rule streamed_chat_answers [OF Inr _ assms])
  next
    case False
    then obtain r where "c' = snd (case r of
          Inl e \<Rightarrow> send_json 400 ''Bad Request'' (error_json (status_message e) ''invalid_request'') c
        | Inr out \<Rightarrow> send_json 200 ''OK'' (completion_json (request_id (fst clock) (st_counter st)) (snd clock) request out) c)"
      using assms(2) by (auto simp: handle_chat_def Inr Let_def)
    then show ?thesis
      using send_json_answers [OF assms(1) _ assms(3)] by (cases r) auto
  qed
qed

text \<open>
  C34. Every connection is answered: whatever bytes arrive and however the generation ends, while the
  kernel accepts what is sent the client receives one complete response, either a JSON document with
  its length in the header, or a stream of JSON events that ends with its final mark.
\<close>

theorem every_connection_is_answered:
  assumes "list_all progresses (cn_outgoing c)" and "handle_connection js sv clock st c = Some (st', c')"
    and "cn_outgoing c' \<noteq> []"
  shows "(\<exists>code reason body. cn_sent c' = cn_sent c @ json_response code reason body \<and> json_parse body \<noteq> None)
     \<or> (\<exists>stream events. cn_sent c' = cn_sent c @ sse_header @ stream \<and> read_events stream = Some (events @ [''[DONE]''])
          \<and> list_all (\<lambda>e. json_parse e \<noteq> None) events)"
proof -
  obtain request incoming where read: "read_http_request (cn_incoming c) = (request, incoming)"
    by force
  let ?c = "c\<lparr>cn_incoming := incoming\<rparr>"
  have outgoing: "list_all progresses (cn_outgoing ?c)"
    using assms(1) by simp
  note json = send_json_answers [OF outgoing _ assms(3)]
  have status: "json_parse (''{'' @ json_key ''status'' @ quote @ ''ok'' @ quote @ ''}'') \<noteq> None"
  proof -
    have "tree_text (Obj [(''status'', Str ''ok'')]) = ''{'' @ json_key ''status'' @ quote @ ''ok'' @ quote @ ''}''"
      by (simp add: quoted_def json_escape_def escape_char_def json_key_def quote_def)
    then show ?thesis
      using json_parse_text [of "Obj [(''status'', Str ''ok'')]"] by simp
  qed
  consider (json) code reason body where "c' = snd (send_json code reason body ?c)" "json_parse body \<noteq> None"
    | (chat) body where "handle_chat js sv clock body st ?c = Some (st', c')"
  proof (cases request)
    case (Inl e)
    then show ?thesis
      using assms(2) by (intro that(1) [of 400 "''Bad Request''" "error_json e ''invalid_request''"]) (auto simp: handle_connection_def read)
  next
    case (Inr http)
    consider (health) "hr_method http = ''GET''" "hr_path http = ''/health''" | (models) "hr_method http = ''GET''" "hr_path http = ''/v1/models''"
      | (post) "hr_method http = ''POST''" "hr_path http = ''/v1/chat/completions''"
      | (other) "c' = snd (send_json 404 ''Not Found'' (error_json ''route not found'' ''not_found'') ?c)"
      using assms(2) by (auto simp: handle_connection_def read Inr Let_def split: if_splits)
    then show ?thesis
    proof cases
      case health
      then show ?thesis
        using assms(2) status by (intro that(1)) (auto simp: handle_connection_def read Inr)
    next
      case models
      then show ?thesis
        using assms(2) by (intro that(1) [of 200 "''OK''" models_json]) (auto simp: handle_connection_def read Inr)
    next
      case post
      then show ?thesis
        using assms(2) by (intro that(2)) (auto simp: handle_connection_def read Inr)
    next
      case other
      then show ?thesis
        by (intro that(1) [OF other]) simp
    qed
  qed
  then have "answered ?c c'"
    using json handle_chat_answers [OF outgoing _ assms(3)] by cases blast+
  then show ?thesis
    by (simp add: answered_def)
qed

section \<open>The accept loop\<close>

lemma generate_returns:
  assumes "\<forall>a \<in> set (tk_added_tokens (sv_tokenizer sv)). fst a \<noteq> []"
  shows "\<exists>r g' d' k'. generate sv request on_text g d k = Some (r, g', d', k')"
proof -
  obtain r where r: "tokenizer_encode (sv_libraries sv) (sv_tokenizer sv) (cq_rendered_prompt request) = Some r"
    using encode_always_returns [OF assms] by blast
  show ?thesis
    by (cases r) (auto simp: generate_def r split: sum.splits prod.splits)
qed

lemma generate_state_returns:
  assumes "\<forall>a \<in> set (tk_added_tokens (sv_tokenizer sv)). fst a \<noteq> []"
  obtains r st' k' where "generate_state sv request on_text st k = Some (r, st', k')" "st_gpu st' = st_gpu st" "st_counter st' = st_counter st"
proof -
  obtain r g d k' where gen: "generate sv request on_text (st_gpu st) (st_memory st) k = Some (r, g, d, k')"
    using generate_returns [OF assms, of request on_text "st_gpu st" "st_memory st" k] by blast
  then have "g = st_gpu st"
    by (rule generate_keeps_device)
  then show ?thesis
    using that [of r "st\<lparr>st_gpu := g, st_memory := d\<rparr>" k'] gen by (simp add: generate_state_def)
qed

definition same_device :: "nat \<Rightarrow> 'd server_state \<Rightarrow> 'd server_state \<Rightarrow> bool" where
  "same_device n st st' \<longleftrightarrow> st_gpu st' = st_gpu st \<and> st_counter st \<le> st_counter st' \<and> st_counter st' \<le> st_counter st + n"

lemma handle_chat_returns:
  assumes "\<forall>a \<in> set (tk_added_tokens (sv_tokenizer sv)). fst a \<noteq> []"
  shows "\<exists>st' c'. handle_chat js sv clock body st c = Some (st', c') \<and> same_device 1 st st'"
proof (cases "parse_chat_request js (sv_options sv) body")
  case (Inl e)
  then show ?thesis
    by (simp add: handle_chat_def same_device_def)
next
  case (Inr request)
  let ?ident = "request_id (fst clock) (st_counter st)" and ?st = "st\<lparr>st_counter := st_counter st + 1\<rparr>"
  show ?thesis
  proof (cases "cq_stream request")
    case False
    obtain r st' k' where "generate_state sv request None ?st () = Some (r, st', k')" "st_gpu st' = st_gpu ?st" "st_counter st' = st_counter ?st"
      by (rule generate_state_returns [OF assms])
    then show ?thesis
      using False by (auto simp: handle_chat_def Inr Let_def same_device_def)
  next
    case True
    obtain ok1 c1 where one: "send_sse_headers c = (ok1, c1)"
      by force
    obtain ok2 c2 where two: "(if ok1 then send_sse_data (stream_chunk ?ident (snd clock) request '''' True '''') c1 else (False, c1))
        = (ok2, c2)"
      by force
    obtain r st' k' where "generate_state sv request (stream_callback ?ident (snd clock) request) ?st c2 = Some (r, st', k')"
      "st_gpu st' = st_gpu ?st" "st_counter st' = st_counter ?st"
      by (rule generate_state_returns [OF assms])
    then show ?thesis
      using True two by (cases ok2) (auto simp: handle_chat_def Inr Let_def one same_device_def)
  qed
qed

lemma handle_connection_returns:
  assumes "\<forall>a \<in> set (tk_added_tokens (sv_tokenizer sv)). fst a \<noteq> []"
  shows "\<exists>st' c'. handle_connection js sv clock st c = Some (st', c') \<and> same_device 1 st st'"
  using handle_chat_returns [OF assms]
  by (auto simp: handle_connection_def Let_def same_device_def split: prod.splits sum.splits)

text \<open>
  The clients that the loop accepts: those of the turns up to the first that finds the flag cleared,
  whose call fails, or that a signal interrupts which clears the flag.
\<close>

definition keeps_accepting :: "accept_turn \<Rightarrow> bool" where
  "keeps_accepting turn \<longleftrightarrow> at_running turn \<and> at_answer turn \<noteq> Accept_Failed
     \<and> (at_answer turn = Accept_Interrupted \<longrightarrow> at_running_after turn)"

definition client_of :: "accept_turn \<Rightarrow> ((int \<times> int) \<times> connection) option" where
  "client_of turn = (case at_answer turn of Client clock c \<Rightarrow> Some (clock, c) | _ \<Rightarrow> None)"

definition accepted_clients :: "accept_turn list \<Rightarrow> ((int \<times> int) \<times> connection) list" where
  "accepted_clients turns = List.map_filter client_of (takeWhile keeps_accepting turns)"

lemma accepted_clients_simps [simp]:
  "accepted_clients [] = []"
  "keeps_accepting turn \<Longrightarrow> client_of turn = None \<Longrightarrow> accepted_clients (turn # turns) = accepted_clients turns"
  "keeps_accepting turn \<Longrightarrow> client_of turn = Some client \<Longrightarrow> accepted_clients (turn # turns) = client # accepted_clients turns"
  "\<not> keeps_accepting turn \<Longrightarrow> accepted_clients (turn # turns) = []"
  by (simp_all add: accepted_clients_def map_filter_simps)

lemma serve_stops: "\<not> keeps_accepting turn \<Longrightarrow> serve js sv (turn # turns) st = Some (st, [])"
  by (cases "at_answer turn") (auto simp: keeps_accepting_def)

text \<open>
  C35. When no added token of the tokenizer is empty, the accept loop returns after a finite sequence
  of answers of \<open>accept\<close>, and has then answered exactly the clients that it accepted, in their order: each answer is what handling that
  client gives in the state that the clients before it left, for the first the state at the start.
  Between two clients the device is as at the start, so that no request leaves an allocation behind,
  and the counter of the identifiers grows by at most one with each client.
\<close>

theorem serving_returns:
  assumes "\<forall>a \<in> set (tk_added_tokens (sv_tokenizer sv)). fst a \<noteq> []"
  shows "\<exists>states answers. serve js sv turns st = Some (last states, answers)
    \<and> length answers = length (accepted_clients turns) \<and> length states = length answers + 1 \<and> states ! 0 = st
    \<and> (\<forall>i < length answers. case accepted_clients turns ! i of (clock, c) \<Rightarrow>
        handle_connection js sv clock (states ! i) c = Some (states ! (i + 1), answers ! i)
        \<and> st_gpu (states ! (i + 1)) = st_gpu st
        \<and> st_counter (states ! i) \<le> st_counter (states ! (i + 1)) \<and> st_counter (states ! (i + 1)) \<le> st_counter (states ! i) + 1)"
proof (induction turns arbitrary: st)
  case Nil
  show ?case
    by (intro exI [of _ "[st]"] exI [of _ "[]"]) simp
next
  case (Cons turn turns)
  consider (client) clock c where "keeps_accepting turn" "at_answer turn = Client clock c" "client_of turn = Some (clock, c)"
    | (signal) "keeps_accepting turn" "at_answer turn = Accept_Interrupted" "client_of turn = None"
    | (stop) "\<not> keeps_accepting turn"
    by (cases "at_answer turn"; cases "keeps_accepting turn") (simp_all add: client_of_def, simp add: keeps_accepting_def)
  then show ?case
  proof cases
    case client
    obtain st1 c1 where one: "handle_connection js sv clock st c = Some (st1, c1)" "same_device 1 st st1"
      using handle_connection_returns [OF assms] by blast
    obtain states answers where rest: "serve js sv turns st1 = Some (last states, answers)"
      "length answers = length (accepted_clients turns)" "length states = length answers + 1" "states ! 0 = st1"
      "\<forall>i < length answers. case accepted_clients turns ! i of (clock, c) \<Rightarrow>
        handle_connection js sv clock (states ! i) c = Some (states ! (i + 1), answers ! i)
        \<and> st_gpu (states ! (i + 1)) = st_gpu st1
        \<and> st_counter (states ! i) \<le> st_counter (states ! (i + 1)) \<and> st_counter (states ! (i + 1)) \<le> st_counter (states ! i) + 1"
      using Cons.IH [of st1] by blast
    have "serve js sv (turn # turns) st = Some (last (st # states), c1 # answers)"
      using client(1,2) one(1) rest(1,3) by (auto simp: keeps_accepting_def)
    then show ?thesis
      using client one rest by (intro exI [of _ "st # states"] exI [of _ "c1 # answers"])
        (auto simp: All_less_Suc2 same_device_def split: prod.splits)
  next
    case signal
    then have "serve js sv (turn # turns) st = serve js sv turns st"
      by (simp add: keeps_accepting_def)
    then show ?thesis
      using Cons.IH [of st] signal by simp
  next
    case stop
    then show ?thesis
      by (intro exI [of _ "[st]"] exI [of _ "[]"]) (simp add: serve_stops del: serve.simps)
  qed
qed

text \<open>The identifiers of two requests of a process differ.\<close>

lemma request_id_inject: "request_id s m = request_id s n \<Longrightarrow> m = n"
  by (simp add: request_id_def)

section \<open>The properties at a concrete input\<close>

text \<open>
  A server whose tokenizer reads every prompt as one token and whose device answers with the end
  token: each answer is empty and complete.
\<close>

definition stopping_device :: "unit device" where
  "stopping_device = quiet_device\<lparr> dx_download := (\<lambda>p n d. (0, \<lambda>i. kEndToken, d)) \<rparr>"

definition stopping_serving :: "unit serving" where
  "stopping_serving = (sample_serving stopping_device)
     \<lparr> sv_libraries := sample_libraries\<lparr>nfc := (\<lambda>t. Some ''ab'')\<rparr>, sv_tokenizer := sample_tokenizer\<lparr>tk_added_tokens := []\<rparr> \<rparr>"

definition stopped_result :: generation_result where
  "stopped_result = \<lparr> gr_text = [], gr_prompt_tokens = 1, gr_completion_tokens = 1, gr_proposed_drafts = 0, gr_accepted_drafts = 0,
     gr_speculative_rounds = 0, gr_stopped = True, gr_client_connected = True \<rparr>"

lemma stopping_succeeds: "succeeding 248045 stopping_device"
  by (simp add: succeeding_def stopping_device_def quiet_device_def hip_success_def kEndToken_def)

lemma stopping_runs: "runs_model stopping_device (\<lambda>h. kEndToken) (\<lambda>h s d. True)"
proof -
  have "x = kEndToken" if "greedy_step stopping_device s t d = (Inr x, s', d')" for s t d x s' d'
    using that by (auto simp: greedy_step_def stopping_device_def Let_def split: if_splits prod.splits)
  moreover have "verifies stopping_device s t n d (\<lambda>h. kEndToken) h" for s t n d h
    by (simp add: verifies_def case_prod_unfold Let_def stopping_device_def list_all_iff)
  ultimately show ?thesis
    by (auto simp: runs_model_def split: prod.splits sum.splits)
qed

lemma stopping_encodes:
  assumes "t \<noteq> []"
  shows "tokenizer_encode (sv_libraries stopping_serving) (sv_tokenizer stopping_serving) t = Some (Inr [2])"
proof -
  have merged: "bpe (tk_merge_ranks sample_tokenizer) [''a'', ''b''] = [''ab'']"
    by (simp add: bpe.simps best_pair_def best_step_def sample_tokenizer_def pair_key_def max_u32_def Let_def)
  have "encode_pretoken (sample_tokenizer\<lparr>tk_added_tokens := []\<rparr>) ''ab'' = Inr [2]"
    by (simp add: encode_pretoken_def sample_symbols merged) (simp add: symbol_id_def sample_tokenizer_def)
  then show ?thesis
    using assms by (simp add: tokenizer_encode_def stopping_serving_def encode_loop.simps find_special_def encode_normal_def
        normalize_nfc_def split_pretokens_def sample_libraries_def sample_serving_def pretoken_loop.simps substr_def)
qed

lemma stopping_generates:
  assumes "cq_rendered_prompt request \<noteq> []" "cq_maximum_tokens request = 5"
  shows "generate stopping_serving request on_text g () k = Some (Inr stopped_result, g, (), k)"
proof -
  let ?sv = "stopping_serving"
  have fields: "sv_options ?sv = sample_options" "sv_runtime ?sv = sample_create" "sv_engine ?sv = model_engine"
    "sv_device ?sv = stopping_device" "so_context sample_options = 64"
    by (simp_all add: stopping_serving_def sample_serving_def sample_options_def)
  obtain s offsets g1 where create: "session_create sample_create model_engine (session_config sample_options) g = (Inr (s, offsets), g1)"
    using sample_serving_created by blast
  note ready = created_session_ready [OF sample_scaled model_engine_serves create]
  obtain r d where step: "greedy_step stopping_device s 2 () = (Inr r, s\<lparr> ss_last_hidden := snd (greedy_layers s 2),
      ss_current_position := ss_current_position s + 1 \<rparr>, d)"
    using greedy_step_progress [OF stopping_succeeds, of s 2 "()"] ready
    by (auto simp: session_config_def sample_options_def vocabulary_size_def)
  have r: "r = kEndToken"
    using runs_modelD(1) [OF stopping_runs _ step] by simp
  have "generate ?sv request on_text g () k = Some (Inr stopped_result, session_destroy g1, (), k)"
    using assms
    by (simp add: generate_def stopping_encodes fields create generate_session_def step r consume_token_def generate_start_def
        terminal_token_def decode_loop.simps stopped_result_def)
  with generate_keeps_device [OF this] show ?thesis
    by simp
qed

text \<open>A kernel that accepts everything.\<close>

lemma send_all_accepted:
  "data \<noteq> [] \<Longrightarrow> length data \<le> k \<Longrightarrow> cn_outgoing c = Accepts k # rs \<Longrightarrow>
    send_all data c = (True, c\<lparr>cn_outgoing := rs, cn_sent := cn_sent c @ data\<rparr>)"
  by (cases data) (simp_all add: send_all_def)

lemma send_each_accepted:
  "list_all (\<lambda>data. data \<noteq> [] \<and> length data \<le> k) texts \<Longrightarrow> cn_outgoing c = replicate (length texts) (Accepts k) @ rs \<Longrightarrow>
    send_each texts c = (True, c\<lparr>cn_outgoing := rs, cn_sent := cn_sent c @ concat texts\<rparr>)"
proof (induction texts arbitrary: c)
  case (Cons data texts)
  let ?c = "c\<lparr>cn_outgoing := replicate (length texts) (Accepts k) @ rs, cn_sent := cn_sent c @ data\<rparr>"
  have "send_all data c = (True, ?c)"
    using Cons.prems by (intro send_all_accepted [where k = k]) simp_all
  then show ?case
    using Cons.IH [of ?c] Cons.prems(1) by simp
qed simp

lemma send_event_accepted:
  assumes "e \<noteq> []" "length e \<le> 1000" "cn_outgoing c = replicate 3 (Accepts 1000) @ rs"
  shows "send_sse_data e c = (True, c\<lparr>cn_outgoing := rs, cn_sent := cn_sent c @ sse_event e\<rparr>)"
  using assms send_each_accepted [of 1000 "[''data: '', e, newline @ newline]" c rs]
  by (simp add: send_sse_data_def sse_event_def newline_def numeral_3_eq_3)

lemma replicate_steps:
  "replicate 9 x = x # replicate 8 x" "replicate 8 x = replicate 3 x @ replicate 5 x" "replicate 5 x = replicate 3 x @ replicate 2 x"
  "replicate 2 x = [x, x]" "replicate 9 x = [x, x] @ replicate 7 x"
  by (simp_all add: numeral_eq_Suc)

definition accepting_connection :: "recv_answer list \<Rightarrow> connection" where
  "accepting_connection answers = \<lparr> cn_incoming = answers, cn_outgoing = replicate 9 (Accepts 1000), cn_sent = [] \<rparr>"

lemma accepting_progresses: "list_all progresses (cn_outgoing (accepting_connection answers))"
  by (simp add: accepting_connection_def progresses_def list_all_iff)

definition sample_state :: "unit server_state" where
  "sample_state = \<lparr> st_gpu = sample_gpu, st_memory = (), st_counter = 0 \<rparr>"

definition sample_chunk :: "bool \<Rightarrow> string \<Rightarrow> string" where
  "sample_chunk = stream_chunk (request_id 0 0) 0 sample_request_record ''''"

lemma sample_chunk_length: "length (sample_chunk True '''') \<le> 1000" "length (sample_chunk False ''stop'') \<le> 1000"
  by (simp_all add: sample_chunk_def stream_chunk_def object_head_def request_id_def int_text_zero to_string_zero quoted_def quote_def
      json_escape_def escape_char_def json_key_def sample_request_record_def kServedModelId_def)

lemma sample_chunk_nonempty: "sample_chunk role reason \<noteq> []"
  by (simp add: sample_chunk_def stream_chunk_def object_head_def)

lemma sample_stream:
  "\<exists>c. handle_chat chat_simdjson stopping_serving (0, 0) '''' sample_state (accepting_connection [])
      = Some (sample_state\<lparr>st_counter := 1\<rparr>, c) \<and> cn_outgoing c = [Accepts 1000]"
proof -
  have request: "parse_chat_request chat_simdjson (sv_options stopping_serving) '''' = Inr sample_request_record"
    by (rule sample_chat_request) (simp add: stopping_serving_def sample_serving_def sample_options_def)
  have prompt: "cq_rendered_prompt sample_request_record \<noteq> []" "cq_maximum_tokens sample_request_record = 5"
    by (simp_all add: sample_request_record_def render_def)
  have flags: "cq_stream sample_request_record" "\<not> cq_include_usage sample_request_record"
    by (simp_all add: sample_request_record_def)
  have gen: "generate_state stopping_serving sample_request_record cb (sample_state\<lparr>st_counter := 1\<rparr>) k
      = Some (Inr stopped_result, sample_state\<lparr>st_counter := 1\<rparr>, k)" for cb and k :: connection
    by (simp add: generate_state_def sample_state_def stopping_generates [OF prompt])
  define c1 where "c1 = (accepting_connection [])\<lparr>cn_outgoing := replicate 8 (Accepts 1000), cn_sent := sse_header\<rparr>"
  have one: "send_sse_headers (accepting_connection []) = (True, c1)"
    unfolding send_sse_headers_def c1_def
    by (subst send_all_accepted [where k = 1000 and rs = "replicate 8 (Accepts 1000)"])
      (simp_all add: crlf_def accepting_connection_def sse_header_def replicate_steps(1))
  define c2 where "c2 = c1\<lparr>cn_outgoing := replicate 5 (Accepts 1000), cn_sent := cn_sent c1 @ sse_event (sample_chunk True '''')\<rparr>"
  have two: "send_sse_data (sample_chunk True '''') c1 = (True, c2)"
    unfolding c2_def
    by (rule send_event_accepted [OF sample_chunk_nonempty sample_chunk_length(1)]) (simp add: c1_def replicate_steps(2))
  define c3 where "c3 = c2\<lparr>cn_outgoing := replicate 2 (Accepts 1000), cn_sent := cn_sent c2 @ sse_event (sample_chunk False ''stop'')\<rparr>"
  have three: "send_sse_data (sample_chunk False ''stop'') c2 = (True, c3)"
    unfolding c3_def
    by (rule send_event_accepted [OF sample_chunk_nonempty sample_chunk_length(2)]) (simp add: c2_def replicate_steps(3))
  define c4 where "c4 = c3\<lparr>cn_outgoing := [Accepts 1000], cn_sent := cn_sent c3 @ stream_end\<rparr>"
  have four: "send_all stream_end c3 = (True, c4)"
    unfolding c4_def
    by (rule send_all_accepted [where k = 1000]) (simp_all add: c3_def sse_event_def newline_def replicate_steps(4))
  have ident: "request_id (fst (0, 0)) (st_counter sample_state) = request_id 0 0" "snd (0 :: int, 0 :: int) = 0"
    "st_counter sample_state + 1 = 1"
    by (simp_all add: sample_state_def)
  have finish: "finish_stream (request_id 0 0) 0 sample_request_record (Inr stopped_result) c2 = c4"
    using three [unfolded sample_chunk_def] four
    by (simp add: finish_stream_def stopped_result_def finish_reason_def Let_def flags(2) del: done_event)
  have "handle_chat chat_simdjson stopping_serving (0, 0) '''' sample_state (accepting_connection [])
      = Some (sample_state\<lparr>st_counter := 1\<rparr>, c4)"
    unfolding handle_chat_def request sum.case ident Let_def one prod.case two [unfolded sample_chunk_def]
    by (simp add: flags gen [simplified] finish two [unfolded sample_chunk_def])
  then show ?thesis
    by (simp add: c4_def)
qed

theorem streamed_chat_delivers_witness:
  "\<exists>c stream events. handle_chat chat_simdjson stopping_serving (0, 0) '''' sample_state (accepting_connection [])
      = Some (sample_state\<lparr>st_counter := 1\<rparr>, c) \<and> cn_sent c = sse_header @ stream
    \<and> read_events stream = Some (events @ [''[DONE]'']) \<and> list_all (\<lambda>e. json_parse e \<noteq> None) events"
proof -
  obtain c where c: "handle_chat chat_simdjson stopping_serving (0, 0) '''' sample_state (accepting_connection [])
      = Some (sample_state\<lparr>st_counter := 1\<rparr>, c)" "cn_outgoing c = [Accepts 1000]"
    using sample_stream by blast
  have request: "parse_chat_request chat_simdjson (sv_options stopping_serving) '''' = Inr sample_request_record"
    by (rule sample_chat_request) (simp add: stopping_serving_def sample_serving_def sample_options_def)
  have "cq_stream sample_request_record" "cn_outgoing c \<noteq> []" "cn_sent (accepting_connection []) = []"
    using c(2) by (simp_all add: sample_request_record_def accepting_connection_def)
  with streamed_chat_delivers [OF request _ accepting_progresses c(1)] c(1) show ?thesis
    by (metis append_Nil)
qed

theorem every_connection_is_answered_witness:
  "\<exists>c. handle_connection chat_simdjson stopping_serving (0, 0) sample_state (accepting_connection []) = Some (sample_state, c)
    \<and> ((\<exists>code reason body. cn_sent c = json_response code reason body \<and> json_parse body \<noteq> None)
      \<or> (\<exists>stream events. cn_sent c = sse_header @ stream \<and> read_events stream = Some (events @ [''[DONE]''])
          \<and> list_all (\<lambda>e. json_parse e \<noteq> None) events))"
proof -
  let ?c0 = "accepting_connection []" and ?body = "error_json ''cannot read HTTP request'' ''invalid_request''"
  have read: "read_http_request [] = (Inl ''cannot read HTTP request'', [])"
    by (simp add: read_http_request_def read_headers.simps)
  obtain c where c: "handle_connection chat_simdjson stopping_serving (0, 0) sample_state ?c0 = Some (sample_state, c)"
    "c = snd (send_json 400 ''Bad Request'' ?body ?c0)"
    by (simp add: handle_connection_def accepting_connection_def read)
  let ?header = "response_header 400 ''Bad Request'' ''application/json; charset=utf-8'' (length ?body)"
  have lengths: "?header \<noteq> [] \<and> length ?header \<le> 1000" "?body \<noteq> [] \<and> length ?body \<le> 1000"
    by (simp_all add: response_header_def error_json_def json_key_def quoted_def quote_def json_escape_def escape_char_def crlf_def
        to_string.simps)
  have "send_json 400 ''Bad Request'' ?body ?c0
      = (True, ?c0\<lparr>cn_outgoing := replicate 7 (Accepts 1000), cn_sent := cn_sent ?c0 @ concat [?header, ?body]\<rparr>)"
    unfolding send_json_def send_response_def
    by (rule send_each_accepted [where k = 1000]) (use lengths in \<open>simp_all add: accepting_connection_def replicate_steps(5)\<close>)
  then have "cn_outgoing c \<noteq> []"
    by (simp add: c(2))
  from every_connection_is_answered [OF accepting_progresses c(1) this] show ?thesis
    unfolding c(1) by (simp add: accepting_connection_def)
qed

theorem serving_returns_witness:
  "\<exists>states answers. serve chat_simdjson stopping_serving
      [\<lparr> at_running = True, at_answer = Client (0, 0) (accepting_connection []), at_running_after = True \<rparr>,
       \<lparr> at_running = True, at_answer = Accept_Interrupted, at_running_after = True \<rparr>,
       \<lparr> at_running = True, at_answer = Client (1, 1) (accepting_connection []), at_running_after = True \<rparr>,
       \<lparr> at_running = False, at_answer = Accept_Failed, at_running_after = False \<rparr>] sample_state = Some (states, answers)
    \<and> length answers = 2 \<and> st_gpu states = sample_gpu"
proof -
  have added: "\<forall>a \<in> set (tk_added_tokens (sv_tokenizer stopping_serving)). fst a \<noteq> []"
    by (simp add: stopping_serving_def)
  define turns :: "accept_turn list" where
    "turns = [\<lparr> at_running = True, at_answer = Client (0, 0) (accepting_connection []), at_running_after = True \<rparr>,
       \<lparr> at_running = True, at_answer = Accept_Interrupted, at_running_after = True \<rparr>,
       \<lparr> at_running = True, at_answer = Client (1, 1) (accepting_connection []), at_running_after = True \<rparr>,
       \<lparr> at_running = False, at_answer = Accept_Failed, at_running_after = False \<rparr>]"
  have clients: "accepted_clients turns = [((0, 0), accepting_connection []), ((1, 1), accepting_connection [])]"
    by (simp add: turns_def accepted_clients_def keeps_accepting_def client_of_def map_filter_simps)
  obtain states answers where served: "serve chat_simdjson stopping_serving turns sample_state = Some (last states, answers)"
    "length answers = length (accepted_clients turns)" "length states = length answers + 1"
    "\<forall>i < length answers. st_gpu (states ! (i + 1)) = st_gpu sample_state"
    using serving_returns [OF added, of chat_simdjson turns sample_state] by (elim exE conjE) (simp only: case_prod_beta, blast)
  have "states \<noteq> []"
    using served(3) by auto
  then have "st_gpu (last states) = sample_gpu"
    using served by (auto simp: clients last_conv_nth sample_state_def)
  moreover have "length answers = 2"
    using served(2) by (simp add: clients)
  ultimately show ?thesis
    using served(1) unfolding turns_def by blast
qed

end
