(* ===== verification/CliProps.thy ===== *)
theory CliProps
  imports CliCommands ServerProps
begin

text \<open>
  What the commands promise: the arguments they accept, that they give back what they allocate, that
  the tests of the decoders against serial decoding succeed, and that \<open>generate\<close> prints the answer
  of the server.
\<close>

section \<open>Allocations\<close>

lemma session_create_gpu:
  "session_create rt en config g = (c, g1) \<Longrightarrow> g1 = (case c of Inl e \<Rightarrow> g | Inr x \<Rightarrow> g\<lparr>gpu_arenas := gpu_arenas g + 1\<rparr>)"
  by (cases g) (auto simp: session_create_def session_destroy_def Let_def split: sum.splits option.splits prod.splits if_splits)

text \<open>
  A body that leaves the allocations as they are, unless an exception ends the process in it, which
  takes the condition \<open>P\<close>.
\<close>

definition keeps :: "bool \<Rightarrow> (gpu \<Rightarrow> 'a outcome \<times> gpu) \<Rightarrow> bool" where
  "keeps P f \<longleftrightarrow> (\<forall>g. if thrown (fst (f g)) then P else snd (f g) = g)"

lemma keepsI: "(\<And>g. if thrown (fst (f g)) then P else snd (f g) = g) \<Longrightarrow> keeps P f"
  by (simp add: keeps_def)

lemma keepsD: "keeps P f \<Longrightarrow> if thrown (fst (f g)) then P else snd (f g) = g"
  by (simp add: keeps_def)

lemma keeps_pure: "(thrown x \<Longrightarrow> P) \<Longrightarrow> keeps P (\<lambda>g. (x, g))"
  by (simp add: keeps_def)

text \<open>
  A resource of the device that a function holds until it returns: a failed acquisition allocates
  nothing, and the release undoes a successful one.
\<close>

locale device_scope =
  fixes acquire :: "gpu \<Rightarrow> 'x result \<times> gpu" and release :: "'x \<Rightarrow> gpu \<Rightarrow> gpu"
  assumes failed: "acquire g = (Inl e, g') \<Longrightarrow> g' = g"
    and undone: "acquire g = (Inr x, g') \<Longrightarrow> release x g' = g"
begin

lemma restores:
  assumes "\<And>x. keeps P (f x)" "\<And>e. \<not> thrown (h e)"
  shows "keeps P (\<lambda>g. case acquire g of (Inl e, g) \<Rightarrow> (h e, g)
    | (Inr x, g) \<Rightarrow> (let (r, g) = f x g in (r, if thrown r then g else release x g)))"
proof (rule keepsI)
  fix g
  obtain c g1 where c: "acquire g = (c, g1)"
    by force
  let ?run = "case acquire g of (Inl e, g) \<Rightarrow> (h e, g)
    | (Inr x, g) \<Rightarrow> (let (r, g) = f x g in (r, if thrown r then g else release x g))"
  show "if thrown (fst ?run) then P else snd ?run = g"
  proof (cases c)
    case (Inl e)
    then show ?thesis
      using failed c assms(2) by simp
  next
    case (Inr x)
    then show ?thesis
      using keepsD [OF assms(1), of x g1] undone [of g x g1] c by (auto simp: case_prod_unfold Let_def)
  qed
qed

end

interpretation engine_scope: device_scope "engine_create hip config access" engine_destroy
  for hip config access
proof
  fix g e g' en
  have balanced: "case engine_create hip config access g of (Inl e, g1) \<Rightarrow> g1 = g | (Inr en, g1) \<Rightarrow> engine_destroy en g1 = g"
    using engine_create_balanced [of g hip config access] by (simp add: balanced_def)
  show "engine_create hip config access g = (Inl e, g') \<Longrightarrow> g' = g"
    "engine_create hip config access g = (Inr en, g') \<Longrightarrow> engine_destroy en g' = g"
    using balanced by simp_all
qed

interpretation session_scope: device_scope "session_create rt en config" "\<lambda>_. session_destroy"
  for rt en config
  by unfold_locales (auto dest!: session_create_gpu simp: session_destroy_def)

lemma fail_returns [simp]: "\<not> thrown (fail e)"
  by (simp add: fail_def)

lemma with_session_keeps:
  assumes "\<And>s. keeps P (f s)"
  shows "keeps P (with_session rt en config f)"
proof -
  have "with_session rt en config f = (\<lambda>g. case session_create rt en config g of (Inl e, g) \<Rightarrow> (fail e, g)
    | (Inr x, g) \<Rightarrow> (let (r, g) = f (fst x) g in (r, if thrown r then g else session_destroy g)))"
    by (auto simp: with_session_def split: prod.split sum.split)
  then show ?thesis
    using session_scope.restores [of P "\<lambda>x. f (fst x)"] assms by simp
qed

lemma with_engine_keeps:
  assumes "\<And>en. keeps P (f en)"
  shows "keeps P (with_engine hip access config f)"
  unfolding with_engine_def using engine_scope.restores [of P f fail hip config access] assms by simp

lemma with_tokenizer_keeps:
  assumes "\<And>tk. keeps P (f tk)"
  shows "keeps P (with_tokenizer js en f)"
  using assms by (auto simp: keeps_def with_tokenizer_def split: sum.splits)

lemma session_in_engine:
  assumes "engine_create hip config access g = (Inr en, g1)" "with_session rt en config' (\<lambda>s g. (f s, g)) g1 = (r, g2)"
    and "\<And>s. \<not> thrown (f s)"
  shows "\<not> thrown r" "engine_destroy en g2 = g"
proof -
  have "keeps False (with_session rt en config' (\<lambda>s g. (f s, g)))"
    using assms(3) by (intro with_session_keeps keeps_pure) simp
  then have kept: "\<not> thrown r" "g2 = g1"
    using assms(2) by (auto dest: keepsD [of _ _ g1] split: if_splits)
  then show "\<not> thrown r" "engine_destroy en g2 = g"
    using engine_scope.undone [OF assms(1)] by simp_all
qed

lemma map_option_constant: "map_option (\<lambda>x. (f x, a)) y = Some (r, b) \<Longrightarrow> b = a"
  by (cases y) auto

lemma tokenizer_check_keeps:
  assumes "tokenizer_check h path t g = Some (r, g')"
  shows "\<not> thrown r \<and> g' = g"
proof -
  obtain c g1 where c: "engine_create (ho_hip h) ((cli_engine_config path)\<lparr> ec_verify_artifact_checksums := False, ec_upload_weights := False \<rparr>)
      (ho_access h path) g = (c, g1)"
    by force
  show ?thesis
  proof (cases c)
    case (Inl e)
    then show ?thesis
      using assms c engine_scope.failed by (auto simp: tokenizer_check_def)
  next
    case (Inr en)
    then have "\<not> thrown r \<and> g' = engine_destroy en g1"
      using assms c by (auto simp: tokenizer_check_def map_option_case split: sum.splits option.splits)
    then show ?thesis
      using c Inr engine_scope.undone by simp
  qed
qed

lemma cli_generate_session_returns: "\<not> thrown (cli_generate_session dev tk maximum drafts tokens s d)"
  by (auto simp: cli_generate_session_def split: prod.split sum.split)

lemma cli_generate_keeps:
  assumes "cli_generate h path prompt maximum context_tokens mode drafts g = Some (r, g')"
  shows "\<not> thrown r \<and> g' = g"
  using assms
  by (auto simp: cli_generate_def engine_scope.undone Let_def
      dest: engine_scope.failed session_in_engine [OF _ _ cli_generate_session_returns]
      split: prod.splits sum.splits option.splits if_splits)

lemmas keeping = with_engine_keeps with_tokenizer_keeps with_session_keeps

text \<open>The commands that load the model, whatever fails in them.\<close>

lemma decode_session_returns: "\<not> thrown (decode_session dev tk token tokens s d)"
  by (auto simp: decode_session_def split: prod.split sum.split)

lemma speculative_sessions_returns: "\<not> thrown (speculative_sessions dev token drafts minimum sp dp se ds)"
  by (auto simp: speculative_sessions_def Let_def split: prod.split sum.split)

lemma block_sessions_throws:
  "thrown (block_sessions allocates dev token batch blocks se ds bl db) \<Longrightarrow> reserve_throws allocates 8 blocks"
  by (auto simp: block_sessions_def Let_def split: prod.splits sum.splits if_splits)

lemma mtp_session_throws: "thrown (mtp_session allocates dev tk token steps s d) \<Longrightarrow> reserve_throws allocates 4 steps"
  by (auto simp: mtp_session_def split: prod.splits sum.splits if_splits)

lemma commands_keep:
  "keeps False (load_check hip access path)"
  "keeps False (decode_bench h path token tokens context_tokens)"
  "keeps False (speculative_bench h path token drafts minimum context_tokens mode)"
  "keeps (reserve_throws (ho_allocates h) 8 blocks) (block_bench h path token batch blocks context_tokens mode)"
  "keeps (reserve_throws (ho_allocates h) 4 steps) (mtp_bench h path token steps context_tokens mode)"
  by (unfold load_check_def decode_bench_def block_bench_def speculative_bench_def mtp_bench_def, (intro keeping keeps_pure,
    simp add: decode_session_returns speculative_sessions_returns block_sessions_throws mtp_session_throws)+)

text \<open>The commands whose \<open>reserve\<close> may end the process.\<close>

definition throwing :: "(nat \<Rightarrow> bool) \<Rightarrow> command \<Rightarrow> bool" where
  "throwing allocates command = (case command of
     Block_Command path token batch blocks context_tokens mode \<Rightarrow> reserve_throws allocates 8 (unat blocks)
   | Mtp_Command path token steps context_tokens mode \<Rightarrow> reserve_throws allocates 4 (unat steps)
   | _ \<Rightarrow> False)"

definition released :: "bool \<Rightarrow> gpu \<Rightarrow> nat \<Rightarrow> gpu \<Rightarrow> bool" where
  "released P g code g' \<longleftrightarrow> (code \<le> 1 \<and> g' = g) \<or> (code = 134 \<and> P)"

lemma exit_code_cases: "thrown r \<Longrightarrow> exit_code r = 134" "\<not> thrown r \<Longrightarrow> exit_code r \<le> 1"
  by (cases r; simp)+

lemma released_device:
  assumes "keeps P f" "on_device fs (f g) = (code, g', fs')"
  shows "released P g code g' \<and> fs' = fs"
  using keepsD [OF assms(1), of g] assms(2) exit_code_cases [of "fst (f g)"]
  by (auto simp: on_device_def released_def split: if_splits)

lemma released_option:
  assumes "\<And>r b. x = Some (r, b) \<Longrightarrow> \<not> thrown r \<and> b = g" "map_option (on_device fs) x = Some (code, g', fs')"
  shows "released P g code g' \<and> fs' = fs"
  using assms exit_code_cases(2) by (cases x) (auto simp: on_device_def released_def)

lemma of_result_returns [simp]: "\<not> thrown (of_result r)"
  by (cases r) simp_all

lemma inspections_return:
  "\<not> thrown (probe hip)" "\<not> thrown (inspect path access)" "\<not> thrown (verify_source js accesses path)"
  "\<not> thrown (inspect_safetensors js path access)"
  by (auto simp: probe_def inspect_def verify_source_def inspect_safetensors_def split: sum.split)

lemma plan_only_keeps_files: "convert_qwen38 env options fs = Some (r, fs') \<Longrightarrow> co_plan_only options \<Longrightarrow> fs' = fs"
  by (auto simp: convert_qwen38_def split: if_splits sum.splits prod.splits)

text \<open>
  C40. The tool as a whole, without its tests of single kernels: whatever the arguments and whatever
  fails, a run that returns exits with 0 or 1 and gives back every stream and arena that it allocated,
  and only a conversion that is not asked for its plan alone changes a file. The one exception are
  \<open>block-bench\<close> and \<open>mtp-bench\<close> when \<open>reserve\<close> refuses the length given by \<open>--blocks\<close> or \<open>--steps\<close>: the
  process is then terminated by an exception that nothing catches.
\<close>

theorem tool_releases:
  assumes "\<not> kernel_test (parse_command argv)" "tool_main h env tests argv g fs = Some (code, g', fs')"
  shows "((code \<le> 1 \<and> g' = g) \<or> (code = 134 \<and> throwing (ho_allocates h) (parse_command argv)))
    \<and> (fs' = fs \<or> (\<exists>options. parse_command argv = Convert_Command options \<and> \<not> co_plan_only options))"
proof -
  note run = assms(2) [unfolded tool_main_def run_command_def]
  have "released (throwing (ho_allocates h) (parse_command argv)) g code g'
    \<and> (fs' = fs \<or> (\<exists>options. parse_command argv = Convert_Command options \<and> \<not> co_plan_only options))"
  proof (cases "parse_command argv")
    case (Convert_Command options)
    then obtain c where c: "convert env options fs = Some (c, fs')" "code = exit_code c" "g' = g"
      using run by auto
    have "co_plan_only options \<Longrightarrow> fs' = fs" "\<not> thrown c"
      using c(1) by (auto simp: convert_def dest: plan_only_keeps_files)
    then show ?thesis
      using c Convert_Command exit_code_cases(2) [of c] by (auto simp: released_def)
  next
    case (Tokenizer_Command path t)
    then have "map_option (on_device fs) (tokenizer_check h path t g) = Some (code, g', fs')"
      using run by (simp only: command.case)
    then show ?thesis
      using released_option [of "tokenizer_check h path t g" g] tokenizer_check_keeps by blast
  next
    case (Generate_Command path prompt maximum context_tokens mode drafts)
    then have "map_option (on_device fs) (cli_generate h path prompt (unat maximum) (unat context_tokens) mode (unat drafts) g)
        = Some (code, g', fs')"
      using run by (simp only: command.case)
    then show ?thesis
      using released_option [of "cli_generate h path prompt (unat maximum) (unat context_tokens) mode (unat drafts) g" g]
        cli_generate_keeps by blast
  next
    case (Load_Command path)
    then show ?thesis
      using run released_device [OF commands_keep(1)] by (simp add: throwing_def)
  next
    case (Decode_Command path token tokens context_tokens)
    then show ?thesis
      using run released_device [OF commands_keep(2)] by (simp add: throwing_def)
  next
    case (Speculative_Command path token drafts tokens context_tokens mode)
    then show ?thesis
      using run released_device [OF commands_keep(3)] by (simp add: throwing_def)
  next
    case (Block_Command path token batch blocks context_tokens mode)
    then show ?thesis
      using run released_device [OF commands_keep(4)] by (simp add: throwing_def)
  next
    case (Mtp_Command path token steps context_tokens mode)
    then show ?thesis
      using run released_device [OF commands_keep(5)] by (simp add: throwing_def)
  qed (use assms(1) run exit_code_cases(2) [OF inspections_return(1)] exit_code_cases(2) [OF inspections_return(2)]
      exit_code_cases(2) [OF inspections_return(3)] exit_code_cases(2) [OF inspections_return(4)]
      in \<open>auto simp: kernel_test_def released_def\<close>)
  then show ?thesis
    by (simp add: released_def)
qed

section \<open>The answer of \<open>generate\<close>\<close>

lemma cli_terminal_token: "cli_terminal = terminal_token"
  by (rule ext) (auto simp: cli_terminal_def terminal_token_def kEndToken_def kEndOfTextToken_def)

lemma list_all_last: "xs \<noteq> [] \<Longrightarrow> list_all P (butlast xs) \<Longrightarrow> P (last xs) \<Longrightarrow> list_all P xs"
  by (cases xs rule: rev_cases) auto

text \<open>What a round appends.\<close>

lemma push_tokens_prefix:
  "push_tokens maximum ts g = (b, g') \<Longrightarrow> length (cl_generated g) \<le> maximum \<Longrightarrow>
    \<exists>j \<le> length ts. cl_generated g' = cl_generated g @ take j ts \<and> length (cl_generated g') \<le> maximum
      \<and> cl_next g' = (if j = 0 then cl_next g else ts ! (j - 1))
      \<and> (ts \<noteq> [] \<and> length (cl_generated g) < maximum \<longrightarrow> 0 < j)
      \<and> list_all (\<lambda>t. \<not> cli_terminal t) (butlast (take j ts))
      \<and> (b \<longrightarrow> 0 < j \<and> cli_terminal (cl_next g'))
      \<and> (\<not> b \<longrightarrow> list_all (\<lambda>t. \<not> cli_terminal t) (take j ts) \<and> (j = length ts \<or> length (cl_generated g') = maximum))"
proof (induction ts arbitrary: g)
  case (Cons t ts)
  let ?g = "g\<lparr> cl_generated := cl_generated g @ [t], cl_emitted := cl_emitted g + 1, cl_next := t \<rparr>"
  consider (full) "length (cl_generated g) = maximum" | (stop) "length (cl_generated g) < maximum" "cli_terminal t"
    | (more) "length (cl_generated g) < maximum" "\<not> cli_terminal t"
    using Cons.prems(2) by linarith
  then show ?case
  proof cases
    case full
    then show ?thesis
      using Cons.prems by (intro exI [of _ 0]) auto
  next
    case stop
    then show ?thesis
      using Cons.prems by (intro exI [of _ 1]) (auto simp: Let_def)
  next
    case more
    then have "push_tokens maximum ts ?g = (b, g')" "length (cl_generated ?g) \<le> maximum"
      using Cons.prems by (simp_all add: Let_def)
    from Cons.IH [OF this] obtain j where j: "j \<le> length ts" "cl_generated g' = cl_generated ?g @ take j ts"
      "length (cl_generated g') \<le> maximum" "cl_next g' = (if j = 0 then cl_next ?g else ts ! (j - 1))"
      "list_all (\<lambda>t. \<not> cli_terminal t) (butlast (take j ts))" "b \<longrightarrow> 0 < j \<and> cli_terminal (cl_next g')"
      "\<not> b \<longrightarrow> list_all (\<lambda>t. \<not> cli_terminal t) (take j ts) \<and> (j = length ts \<or> length (cl_generated g') = maximum)"
      by blast
    have "butlast (t # take j ts) = (if take j ts = [] then [] else t # butlast (take j ts))"
      by simp
    then show ?thesis
      using j more(2) by (intro exI [of _ "j + 1"]) (auto simp: nth_Cons' split: if_splits)
  qed
qed simp

text \<open>Between rounds: the tokens so far are the model's, and the session was fed all but the last.\<close>

definition cli_greedy ::
  "(nat list \<Rightarrow> nat) \<Rightarrow> (nat list \<Rightarrow> session \<Rightarrow> 'd \<Rightarrow> bool) \<Rightarrow> nat list \<Rightarrow> nat \<Rightarrow> session \<Rightarrow> 'd \<Rightarrow> cli_generating \<Rightarrow> bool" where
  "cli_greedy model R prompt maximum s d g \<longleftrightarrow>
     cl_generated g = continuation model prompt (length (cl_generated g)) \<and> cl_generated g \<noteq> []
     \<and> last (cl_generated g) = cl_next g \<and> length (cl_generated g) \<le> maximum
     \<and> list_all (\<lambda>t. \<not> cli_terminal t) (butlast (cl_generated g))
     \<and> (length (cl_generated g) < maximum \<and> \<not> cli_terminal (cl_next g) \<longrightarrow> R (prompt @ butlast (cl_generated g)) s d)"

lemma cli_greedy_step:
  assumes contract: "runs_model dev model R" and inv: "cli_greedy model R prompt maximum s d g"
    and more: "length (cl_generated g) < maximum" "\<not> cli_terminal (cl_next g)"
    and step: "greedy_step dev s (cl_next g) d = (Inr x, s', d')"
  shows "cli_greedy model R prompt maximum s' d' (g\<lparr> cl_next := x, cl_generated := cl_generated g @ [x] \<rparr>)"
proof -
  let ?ts = "cl_generated g"
  have ts: "?ts = continuation model prompt (length ?ts)" "?ts \<noteq> []" "last ?ts = cl_next g"
    and R: "R (prompt @ butlast ?ts) s d" and live: "list_all (\<lambda>t. \<not> cli_terminal t) (butlast ?ts)"
    using inv more by (auto simp: cli_greedy_def)
  have fed: "(prompt @ butlast ?ts) @ [cl_next g] = prompt @ ?ts"
    using ts(2,3) by (metis append.assoc append_butlast_last_id)
  have x: "x = model (prompt @ ?ts)" "R (prompt @ ?ts) s' d'"
    using runs_modelD(1) [OF contract R step] by (simp_all only: fed)
  have all: "?ts @ [x] = continuation model prompt (length (?ts @ [x]))"
    by (rule continuation_extend [OF ts(1)]) (simp add: x(1))
  have "list_all (\<lambda>t. \<not> cli_terminal t) ?ts"
    using live more(2) ts(3) by (intro list_all_last [OF ts(2)]) simp_all
  then have parts: "?ts @ [x] \<noteq> []" "last (?ts @ [x]) = x" "length (?ts @ [x]) \<le> maximum"
      "list_all (\<lambda>t. \<not> cli_terminal t) (butlast (?ts @ [x]))" "R (prompt @ butlast (?ts @ [x])) s' d'"
    using x(2) more(1) by simp_all
  have fields: "cl_generated (g\<lparr> cl_next := x, cl_generated := ?ts @ [x] \<rparr>) = ?ts @ [x]"
    "cl_next (g\<lparr> cl_next := x, cl_generated := ?ts @ [x] \<rparr>) = x"
    by simp_all
  show ?thesis
    unfolding cli_greedy_def fields using all parts by blast
qed

lemma cli_greedy_round:
  assumes contract: "runs_model dev model R" and inv: "cli_greedy model R prompt maximum s d g"
    and more: "length (cl_generated g) < maximum" "\<not> cli_terminal (cl_next g)"
    and step: "speculative_step dev s (cl_next g) n d = (Inr r, s', d')"
    and push: "push_tokens maximum (sr_tokens r) (count_drafts r g) = (b, g')"
  shows "cli_greedy model R prompt maximum s' d' g' \<and> (b \<longrightarrow> cli_terminal (cl_next g'))"
proof -
  let ?ts = "cl_generated g"
  have ts: "?ts = continuation model prompt (length ?ts)" "?ts \<noteq> []" "last ?ts = cl_next g"
    and R: "R (prompt @ butlast ?ts) s d" and live: "list_all (\<lambda>t. \<not> cli_terminal t) (butlast ?ts)"
    using inv more by (auto simp: cli_greedy_def)
  have fed: "(prompt @ butlast ?ts) @ [cl_next g] = prompt @ ?ts"
    using ts(2,3) by (metis append.assoc append_butlast_last_id)
  have v: "verifies dev s (cl_next g) n d model (prompt @ butlast ?ts)"
    and R': "R ((prompt @ butlast ?ts) @ cl_next g # butlast (sr_tokens r)) s' d'"
    using runs_modelD(3) [OF contract R step] by blast+
  have tokens: "sr_tokens r = continuation model (prompt @ ?ts) (length (sr_tokens r))"
    using speculative_tokens_greedy(1) [OF step v] by (simp only: fed)
  have counted: "cl_generated (count_drafts r g) = ?ts" "cl_next (count_drafts r g) = cl_next g"
    by (simp_all add: count_drafts_def)
  note some = speculative_tokens [OF step]
  obtain j where j: "j \<le> length (sr_tokens r)" "cl_generated g' = ?ts @ take j (sr_tokens r)" "length (cl_generated g') \<le> maximum"
    "0 < j" "cl_next g' = sr_tokens r ! (j - 1)" "list_all (\<lambda>t. \<not> cli_terminal t) (butlast (take j (sr_tokens r)))"
    "b \<longrightarrow> cli_terminal (cl_next g')"
    "\<not> b \<longrightarrow> j = length (sr_tokens r) \<or> length (cl_generated g') = maximum"
    using push_tokens_prefix [OF push] more(1) some unfolding counted by fastforce
  have "take j (sr_tokens r) = continuation model (prompt @ ?ts) (length (take j (sr_tokens r)))"
    using j(1) by (subst tokens) (simp add: continuation_take min.absorb1)
  then have all: "cl_generated g' = continuation model prompt (length (cl_generated g'))"
    unfolding j(2) by (rule continuation_extend [OF ts(1)])
  have nonempty: "take j (sr_tokens r) \<noteq> []"
    using j(1,4) some by auto
  have last: "last (cl_generated g') = cl_next g'"
    using j(1,2,4,5) nonempty by (simp add: last_append last_conv_nth [of "take j _"] min_absorb2)
  have "list_all (\<lambda>t. \<not> cli_terminal t) ?ts"
    using live more(2) ts(3) by (intro list_all_last [OF ts(2)]) simp_all
  then have dry: "list_all (\<lambda>t. \<not> cli_terminal t) (butlast (cl_generated g'))"
    using j(2,6) nonempty by (simp add: butlast_append)
  have "R (prompt @ butlast (cl_generated g')) s' d'" if "length (cl_generated g') < maximum \<and> \<not> cli_terminal (cl_next g')"
  proof -
    have "cl_generated g' = ?ts @ sr_tokens r"
      using j(2,7,8) that by auto
    then have "prompt @ butlast (cl_generated g') = (prompt @ butlast ?ts) @ cl_next g # butlast (sr_tokens r)"
      using some fed by (simp add: butlast_append)
    then show ?thesis
      using R' by simp
  qed
  moreover have "cl_generated g' \<noteq> []"
    using j(2) nonempty by simp
  ultimately show ?thesis
    unfolding cli_greedy_def using j(3,7) all last dry by blast
qed

lemma cli_rounds_greedy:
  assumes contract: "runs_model dev model R"
  shows "cli_greedy model R prompt maximum s d g \<Longrightarrow> cli_rounds dev draft_count maximum g s d = (Inr g', s', d') \<Longrightarrow>
    cli_greedy model R prompt maximum s' d' g' \<and> (cli_terminal (cl_next g') \<or> length (cl_generated g') = maximum)"
proof (induction "maximum - length (cl_generated g)" arbitrary: s d g rule: less_induct)
  case less
  show ?case
  proof (cases "length (cl_generated g) < maximum \<and> \<not> cli_terminal (cl_next g)")
    case False
    then have "g' = g \<and> s' = s \<and> d' = d"
      using less.prems(2) by (subst (asm) cli_rounds.simps) (simp split: if_splits)
    then show ?thesis
      using less.prems(1) False by (auto simp: cli_greedy_def)
  next
    case True
    show ?thesis
    proof (cases "draft_count = 0 \<or> maximum - length (cl_generated g) = 1")
      case one: True
      obtain x s1 d1 where step: "greedy_step dev s (cl_next g) d = (Inr x, s1, d1)"
        and rest: "cli_rounds dev draft_count maximum (g\<lparr> cl_next := x, cl_generated := cl_generated g @ [x] \<rparr>) s1 d1 = (Inr g', s', d')"
        using less.prems(2) True one by (subst (asm) cli_rounds.simps) (auto split: prod.splits sum.splits)
      show ?thesis
        by (rule less.hyps [OF _ cli_greedy_step [OF contract less.prems(1) _ _ step] rest]) (use True in auto)
    next
      case False
      let ?n = "min draft_count (maximum - length (cl_generated g) - 1)"
      obtain r s1 d1 b g1 where step: "speculative_step dev s (cl_next g) ?n d = (Inr r, s1, d1)"
        and push: "push_tokens maximum (sr_tokens r) (count_drafts r g) = (b, g1)"
        and rest: "if b then g' = g1 \<and> s' = s1 \<and> d' = d1 else cli_rounds dev draft_count maximum g1 s1 d1 = (Inr g', s', d')"
        using less.prems(2) True False by (subst (asm) cli_rounds.simps) (auto split: prod.splits sum.splits bool.splits)
      note inv = cli_greedy_round [OF contract less.prems(1) conjunct1 [OF True] conjunct2 [OF True] step push]
      have "maximum - length (cl_generated g1) < maximum - length (cl_generated g)"
        using push_tokens_advances [OF push speculative_tokens [OF step]] True by (auto simp: count_drafts_def)
      from less.hyps [OF this] show ?thesis
        using inv rest by (auto split: if_splits)
    qed
  qed
qed


lemma cli_session_steps:
  assumes "cli_generate_session dev tk maximum draft_count tokens s d = Passed r"
  obtains y s1 d1 x s2 d2 s3 d3 where "greedy_step dev s (hd tokens) d = (Inr y, s1, d1)"
    "prefill dev (draft_count \<noteq> 0) (tl tokens) y s1 d1 = (Inr x, s2, d2)"
    "cli_rounds dev draft_count maximum \<lparr> cl_generated = [x], cl_next = x, cl_proposed = 0, cl_accepted = 0, cl_rounds = 0, cl_emitted = 0 \<rparr>
      s2 d2 = (Inr (cr_state r), s3, d3)"
    "tokenizer_decode tk (cl_generated (cr_state r)) = Inr (cr_text r)" "cr_prompt_tokens r = length tokens"
  using assms by (auto simp: cli_generate_session_def fail_def split: sum.splits prod.splits)

text \<open>A prompt that was fed completely: the next token is the model's.\<close>

lemma prefill_greedy:
  assumes "runs_model dev model R" "R [] s d" "tokens \<noteq> []"
    and first: "greedy_step dev s (hd tokens) d = (Inr y, s1, d1)" and fill: "prefill dev drafting (tl tokens) y s1 d1 = (Inr x, s2, d2)"
  shows "R tokens s2 d2 \<and> x = model tokens"
proof -
  note contract = runs_modelD [OF assms(1)]
  have fed: "R [hd tokens] s1 d1" "y = model [hd tokens]"
    using contract(1) [OF assms(2) first] by simp_all
  have "case (Inr x :: nat result) of Inl e \<Rightarrow> True | Inr z \<Rightarrow> R ([hd tokens] @ tl tokens) s2 d2 \<and> z = model ([hd tokens] @ tl tokens)"
    by (rule prefill_rule [where I = R and D = R and E = "\<lambda>s d. True" and P = "\<lambda>h z. z = model h", OF _ _ fed fill])
      (auto dest: contract split: sum.split)
  then show ?thesis
    using assms(3) by simp
qed

lemma until_terminal_stops:
  assumes "list_all (\<lambda>t. \<not> terminal_token t) (butlast ts)" "ts \<noteq> []" "terminal_token (last ts) \<or> us = []"
  shows "until_terminal (ts @ us) = ts"
proof -
  have ts: "ts @ us = butlast ts @ (last ts # us)"
    using assms(2) by simp
  show ?thesis
    unfolding ts until_terminal_append [OF assms(1)] using assms(2,3) by auto
qed

lemma cli_session_greedy:
  assumes "cli_generate_session dev tk maximum draft_count tokens s d = Passed r"
    and "runs_model dev model R" "R [] s d" "tokens \<noteq> []" "0 < maximum"
  shows "cl_generated (cr_state r) = until_terminal (continuation model tokens maximum)
    \<and> tokenizer_decode tk (cl_generated (cr_state r)) = Inr (cr_text r)"
proof -
  let ?start = "\<lambda>x. \<lparr> cl_generated = [x], cl_next = x, cl_proposed = 0, cl_accepted = 0, cl_rounds = 0, cl_emitted = 0 \<rparr>"
  obtain y s1 d1 x s2 d2 s3 d3 where first: "greedy_step dev s (hd tokens) d = (Inr y, s1, d1)"
    and fill: "prefill dev (draft_count \<noteq> 0) (tl tokens) y s1 d1 = (Inr x, s2, d2)"
    and rounds: "cli_rounds dev draft_count maximum (?start x) s2 d2 = (Inr (cr_state r), s3, d3)"
    and decoded: "tokenizer_decode tk (cl_generated (cr_state r)) = Inr (cr_text r)"
    by (rule cli_session_steps [OF assms(1)])
  have "cli_greedy model R tokens maximum s2 d2 (?start x)"
    using prefill_greedy [OF assms(2-4) first fill] assms(5) by (simp add: cli_greedy_def)
  from cli_rounds_greedy [OF assms(2) this rounds]
  have g: "cli_greedy model R tokens maximum s3 d3 (cr_state r)"
    and ends: "terminal_token (cl_next (cr_state r)) \<or> length (cl_generated (cr_state r)) = maximum"
    by (simp_all add: cli_terminal_token)
  let ?ts = "cl_generated (cr_state r)"
  have ts: "?ts = continuation model tokens (length ?ts)" "?ts \<noteq> []" "last ?ts = cl_next (cr_state r)" "length ?ts \<le> maximum"
    "list_all (\<lambda>t. \<not> terminal_token t) (butlast ?ts)"
    using g unfolding cli_greedy_def cli_terminal_token by blast+
  obtain rest where whole: "continuation model tokens maximum = ?ts @ rest"
    using continuation_append [of model tokens "length ?ts" "maximum - length ?ts"] ts(1,4) by (metis le_add_diff_inverse)
  have "terminal_token (last ?ts) \<or> rest = []"
    using ends ts(3) arg_cong [OF whole, of length] by auto
  then show ?thesis
    using until_terminal_stops [OF ts(5,2)] decoded by (simp add: whole)
qed

section \<open>On a device that succeeds\<close>

definition cli_live :: "nat \<Rightarrow> nat \<Rightarrow> nat \<Rightarrow> session \<Rightarrow> cli_generating \<Rightarrow> bool" where
  "cli_live bound draft_count maximum s g \<longleftrightarrow>
     length (cl_generated g) \<le> maximum \<and> list_all (\<lambda>t. t < bound) (cl_generated g) \<and> cl_next g < bound
     \<and> (length (cl_generated g) < maximum \<and> \<not> cli_terminal (cl_next g) \<longrightarrow> ready (draft_count \<noteq> 0) s
          \<and> ss_current_position s + (maximum - length (cl_generated g)) < dc_maximum_context_tokens (ss_config s))"

lemma push_tokens_live:
  assumes "push_tokens maximum ts g = (b, g')" "length (cl_generated g) < maximum" "ts \<noteq> []"
    "list_all (\<lambda>t. t < bound) (cl_generated g)" "list_all (\<lambda>t. t < bound) ts"
  shows "length (cl_generated g') \<le> maximum \<and> list_all (\<lambda>t. t < bound) (cl_generated g') \<and> cl_next g' < bound
    \<and> (b \<longrightarrow> cli_terminal (cl_next g'))
    \<and> (\<not> b \<and> length (cl_generated g') < maximum \<longrightarrow> length (cl_generated g') = length (cl_generated g) + length ts)"
proof -
  obtain j where j: "j \<le> length ts" "cl_generated g' = cl_generated g @ take j ts" "length (cl_generated g') \<le> maximum"
    "cl_next g' = (if j = 0 then cl_next g else ts ! (j - 1))" "0 < j" "b \<longrightarrow> cli_terminal (cl_next g')"
    "\<not> b \<longrightarrow> j = length ts \<or> length (cl_generated g') = maximum"
    using push_tokens_prefix [OF assms(1)] assms(2,3) by (meson less_imp_le)
  have "list_all (\<lambda>t. t < bound) (take j ts)" "ts ! (j - 1) < bound"
    using assms(5) j(1,5) by (auto simp: list_all_length)
  then show ?thesis
    using j assms(4) by auto
qed

lemma cli_rounds_progress:
  assumes dev: "succeeding bound dev" and bound: "bound \<le> tokenizer_vocabulary_size" and drafts: "draft_count < kMaximumBlock"
  shows "cli_live bound draft_count maximum s g \<Longrightarrow>
    \<exists>g' s' d'. cli_rounds dev draft_count maximum g s d = (Inr g', s', d') \<and> list_all (\<lambda>t. t < bound) (cl_generated g')"
proof (induction "maximum - length (cl_generated g)" arbitrary: s d g rule: less_induct)
  case less
  let ?left = "maximum - length (cl_generated g)"
  have g: "list_all (\<lambda>t. t < bound) (cl_generated g)"
    using less.prems by (simp add: cli_live_def)
  show ?case
  proof (cases "length (cl_generated g) < maximum \<and> \<not> cli_terminal (cl_next g)")
    case False
    then show ?thesis
      using g by (subst cli_rounds.simps) auto
  next
    case True
    then have s: "ready (draft_count \<noteq> 0) s" "ss_current_position s + ?left < dc_maximum_context_tokens (ss_config s)"
      and small: "cl_next g < tokenizer_vocabulary_size" "cl_next g < vocabulary_size"
      using less.prems bound by (auto simp: cli_live_def tokenizer_vocabulary_size_def vocabulary_size_def)
    show ?thesis
    proof (cases "draft_count = 0 \<or> ?left = 1")
      case one: True
      have room: "ss_current_position s < dc_maximum_context_tokens (ss_config s)"
        using s(2) by simp
      obtain x s1 d1 where step: "greedy_step dev s (cl_next g) d = (Inr x, s1, d1)" "x < bound" "ready False s1"
        "ss_config s1 = ss_config s" "ss_current_position s1 = ss_current_position s + 1"
        using ready_greedy [OF dev _ _ _ _ room small(2), of False d] s(1) by (auto simp: ready_def)
      let ?g = "g\<lparr> cl_next := x, cl_generated := cl_generated g @ [x] \<rparr>"
      have "cli_live bound draft_count maximum s1 ?g"
        using step(2-5) one True g s(2) by (auto simp: cli_live_def ready_def)
      moreover have "maximum - length (cl_generated ?g) < ?left"
        using True by auto
      moreover have "cli_rounds dev draft_count maximum g s d = cli_rounds dev draft_count maximum ?g s1 d1"
        using True one step(1) by (subst cli_rounds.simps) simp
      ultimately show ?thesis
        using less.hyps [of ?g s1 d1] by simp
    next
      case False
      let ?n = "min draft_count (?left - 1)"
      have n: "0 < ?n" "?n < kMaximumBlock" "ss_current_position s + (?n + 1) \<le> dc_maximum_context_tokens (ss_config s)"
        and drafting: "ready True s"
        using False True drafts s by auto
      obtain r s1 d1 where step: "speculative_step dev s (cl_next g) ?n d = (Inr r, s1, d1)" "list_all (\<lambda>t. t < bound) (sr_tokens r)"
        and s1: "ready True s1" "ss_config s1 = ss_config s"
        and pos: "ss_current_position s1 = ss_current_position s + length (sr_tokens r)"
        using ready_speculative [OF dev drafting n(1,2) small(1) n(3), of d] by blast
      obtain b g1 where push: "push_tokens maximum (sr_tokens r) (count_drafts r g) = (b, g1)"
        by force
      have counted: "cl_generated (count_drafts r g) = cl_generated g"
        by (simp add: count_drafts_def)
      note live = push_tokens_live [OF push _ speculative_tokens [OF step(1)], unfolded counted, OF conjunct1 [OF True] g step(2)]
      have eq: "cli_rounds dev draft_count maximum g s d
          = (if b then (Inr g1, s1, d1) else cli_rounds dev draft_count maximum g1 s1 d1)"
        using True False step(1) push by (subst cli_rounds.simps) (simp split: bool.split)
      show ?thesis
      proof (cases b)
        case True
        then show ?thesis
          using eq live by simp
      next
        case goes: False
        have "cli_live bound draft_count maximum s1 g1"
          using live goes s1 pos s(2) False by (auto simp: cli_live_def)
        moreover have "maximum - length (cl_generated g1) < ?left"
          using push_tokens_advances [OF push speculative_tokens [OF step(1)]] True by (auto simp: counted)
        ultimately show ?thesis
          using less.hyps [of g1 s1 d1] eq goes by simp
      qed
    qed
  qed
qed

lemma cli_session_progress:
  assumes dev: "succeeding bound dev" "decodable tk bound" "bound \<le> tokenizer_vocabulary_size" and drafts: "draft_count < kMaximumBlock"
    and tokens: "valid_tokens tokens" and created: "launchable s" "graphs_ready s" "ss_current_position s = 0" "ss_mtp_position s = 0"
      "\<not> ss_mtp_chain_active s"
    and maximum: "0 < maximum" "length tokens + maximum \<le> dc_maximum_context_tokens (ss_config s)"
  shows "\<exists>r. cli_generate_session dev tk maximum draft_count tokens s d = Passed r"
proof -
  obtain t ts where ts: "tokens = t # ts" "t < tokenizer_vocabulary_size" "list_all (\<lambda>t. t < tokenizer_vocabulary_size) ts"
    using tokens by (cases tokens) (auto simp: valid_tokens_def)
  have room: "ss_current_position s < dc_maximum_context_tokens (ss_config s)" and t: "t < vocabulary_size"
    using maximum ts(1,2) created(3) by (simp_all add: tokenizer_vocabulary_size_def vocabulary_size_def)
  obtain y s1 d1 where first: "greedy_step dev s t d = (Inr y, s1, d1)" and y: "y < bound"
    and s1: "ready (draft_count \<noteq> 0) s1" "ss_config s1 = ss_config s" "ss_current_position s1 = 1"
    using ready_greedy [OF dev(1) created(1,2,5) _ room t, of "draft_count \<noteq> 0" d] created(3,4) by auto
  have room1: "ss_current_position s1 + length ts \<le> dc_maximum_context_tokens (ss_config s1)"
    using s1(2,3) maximum(2) ts(1) by simp
  obtain x s2 d2 where fill: "prefill dev (draft_count \<noteq> 0) ts y s1 d1 = (Inr x, s2, d2)" and x: "x < bound"
    and s2: "ready (draft_count \<noteq> 0) s2" "ss_config s2 = ss_config s" "ss_current_position s2 = length tokens"
    using prefill_progress [OF dev(1) s1(1) room1 ts(3) y, of d1] s1(2,3) ts(1) by auto
  let ?g = "\<lparr> cl_generated = [x], cl_next = x, cl_proposed = 0, cl_accepted = 0, cl_rounds = 0, cl_emitted = 0 \<rparr>"
  have "cli_live bound draft_count maximum s2 ?g"
    using s2 x maximum by (auto simp: cli_live_def)
  then obtain g s3 d3 where g: "cli_rounds dev draft_count maximum ?g s2 d2 = (Inr g, s3, d3)" "list_all (\<lambda>t. t < bound) (cl_generated g)"
    using cli_rounds_progress [OF dev(1,3) drafts] by blast
  obtain decoded where "tokenizer_decode tk (cl_generated g) = Inr decoded"
    using decodable_tokens [OF dev(2) g(2)] by blast
  then show ?thesis
    using first fill g(1) by (simp add: cli_generate_session_def ts(1))
qed


section \<open>The tests against serial decoding\<close>

lemma decode_tokens_greedy:
  assumes "runs_model dev model R"
  shows "R h s d \<Longrightarrow> decode_tokens dev n t s d = (Inr xs, s', d') \<Longrightarrow> xs = continuation model (h @ [t]) n"
proof (induction n arbitrary: h t s d xs)
  case (Suc n)
  obtain x s1 d1 ys where step: "greedy_step dev s t d = (Inr x, s1, d1)" "decode_tokens dev n x s1 d1 = (Inr ys, s', d')" "xs = x # ys"
    using Suc.prems(2) by (auto split: prod.splits sum.splits)
  then show ?case
    using Suc.IH [of "h @ [t]" s1 d1 x ys] runs_modelD(1) [OF assms Suc.prems(1) step(1)] by simp
qed simp

lemma decode_tokens_progress:
  assumes dev: "succeeding bound dev" "bound \<le> vocabulary_size"
  shows "launchable s \<Longrightarrow> graphs_ready s \<Longrightarrow> \<not> ss_mtp_chain_active s \<Longrightarrow> t < vocabulary_size \<Longrightarrow>
    ss_current_position s + n \<le> dc_maximum_context_tokens (ss_config s) \<Longrightarrow>
    \<exists>xs s' d'. decode_tokens dev n t s d = (Inr xs, s', d') \<and> length xs = n"
proof (induction n arbitrary: s d t)
  case (Suc n)
  obtain x s1 d1 where step: "greedy_step dev s t d = (Inr x, s1, d1)" "x < bound" "ready False s1" "ss_config s1 = ss_config s"
    "ss_current_position s1 = ss_current_position s + 1"
    using ready_greedy [OF dev(1) Suc.prems(1-3) _ _ Suc.prems(4), of False d] Suc.prems(5) by auto
  have "\<exists>xs s' d'. decode_tokens dev n x s1 d1 = (Inr xs, s', d') \<and> length xs = n"
    using step(2-5) dev(2) Suc.prems(5) by (intro Suc.IH) (auto simp: ready_def)
  then show ?case
    using step(1) by auto
qed simp

text \<open>Between rounds.\<close>

definition speculated ::
  "nat \<Rightarrow> (nat list \<Rightarrow> nat) \<Rightarrow> (nat list \<Rightarrow> session \<Rightarrow> 'd \<Rightarrow> bool) \<Rightarrow> nat \<Rightarrow> nat \<Rightarrow> speculative_report \<Rightarrow> nat \<Rightarrow> session \<Rightarrow> 'd \<Rightarrow> bool" where
  "speculated bound model R t context_tokens report seed s d \<longleftrightarrow>
     sp_tokens report = continuation model [t] (length (sp_tokens report)) \<and> sp_tokens report \<noteq> [] \<and> last (sp_tokens report) = seed
     \<and> list_all (\<lambda>t. t < bound) (sp_tokens report) \<and> R (t # butlast (sp_tokens report)) s d \<and> ready True s
     \<and> dc_maximum_context_tokens (ss_config s) = context_tokens \<and> ss_current_position s = length (sp_tokens report)"

lemma speculative_rounds_pass:
  assumes dev: "succeeding bound dev" "bound \<le> tokenizer_vocabulary_size" "runs_model dev model R"
    and drafts: "0 < draft_count" "draft_count < kMaximumBlock" and room: "minimum_tokens + draft_count \<le> context_tokens"
  shows "speculated bound model R t context_tokens report seed s d \<Longrightarrow> length (sp_tokens report) \<le> context_tokens \<Longrightarrow>
    \<exists>report'. speculative_rounds dev draft_count minimum_tokens report seed s d = Inr report'
      \<and> sp_tokens report' = continuation model [t] (length (sp_tokens report')) \<and> minimum_tokens \<le> length (sp_tokens report')
      \<and> length (sp_tokens report') \<le> context_tokens"
proof (induction "minimum_tokens - length (sp_tokens report)" arbitrary: report seed s d rule: less_induct)
  case less
  let ?ts = "sp_tokens report"
  have ts: "?ts = continuation model [t] (length ?ts)" "?ts \<noteq> []" "last ?ts = seed" "list_all (\<lambda>t. t < bound) ?ts"
    and R: "R (t # butlast ?ts) s d" and s: "ready True s" "dc_maximum_context_tokens (ss_config s) = context_tokens"
      "ss_current_position s = length ?ts"
    using less.prems(1) unfolding speculated_def by blast+
  show ?case
  proof (cases "length ?ts < minimum_tokens")
    case False
    then show ?thesis
      using ts(1) less.prems(2) by (subst speculative_rounds.simps) auto
  next
    case True
    have "seed < bound"
      using last_in_set [OF ts(2)] ts(3,4) by (simp add: list_all_iff)
    then have seed: "seed < tokenizer_vocabulary_size"
      using dev(2) by (rule less_le_trans)
    have enough: "ss_current_position s + (draft_count + 1) \<le> dc_maximum_context_tokens (ss_config s)"
      using s(2,3) True room by simp
    obtain r s1 d1 where step: "speculative_step dev s seed draft_count d = (Inr r, s1, d1)" "list_all (\<lambda>t. t < bound) (sr_tokens r)"
      and s1: "ready True s1" "ss_config s1 = ss_config s" "ss_current_position s1 = ss_current_position s + length (sr_tokens r)"
      using ready_speculative [OF dev(1) s(1) drafts seed enough, of d] by blast
    note some = speculative_tokens [OF step(1)]
    let ?report = "\<lparr> sp_tokens = ?ts @ sr_tokens r, sp_proposed = sp_proposed report + sr_proposed_drafts r,
      sp_accepted = sp_accepted report + sr_accepted_drafts r, sp_rounds = sp_rounds report + 1 \<rparr>"
    have fed: "(t # butlast ?ts) @ [seed] = [t] @ ?ts"
      using ts(2,3) by (metis append_Cons append_Nil append_butlast_last_id)
    have v: "verifies dev s seed draft_count d model (t # butlast ?ts)"
      and R': "R ((t # butlast ?ts) @ seed # butlast (sr_tokens r)) s1 d1"
      using runs_modelD(3) [OF dev(3) R step(1)] by blast+
    have tokens: "sr_tokens r = continuation model ([t] @ ?ts) (length (sr_tokens r))"
      using speculative_tokens_greedy(1) [OF step(1) v] by (simp only: fed)
    have all: "?ts @ sr_tokens r = continuation model [t] (length (?ts @ sr_tokens r))"
      by (rule continuation_extend [OF ts(1) tokens])
    have "t # butlast (?ts @ sr_tokens r) = (t # butlast ?ts) @ seed # butlast (sr_tokens r)"
      using some fed by (simp add: butlast_append)
    then have parts: "?ts @ sr_tokens r \<noteq> []" "last (?ts @ sr_tokens r) = last (sr_tokens r)"
      "list_all (\<lambda>t. t < bound) (?ts @ sr_tokens r)" "R (t # butlast (?ts @ sr_tokens r)) s1 d1"
      "dc_maximum_context_tokens (ss_config s1) = context_tokens" "ss_current_position s1 = length (?ts @ sr_tokens r)"
      using some R' s1 s(2,3) ts(4) step(2) by simp_all
    have inv: "speculated bound model R t context_tokens ?report (last (sr_tokens r)) s1 d1"
      unfolding speculated_def speculative_report.simps using all parts s1(1) by blast
    have bound: "length (sr_tokens r) \<le> draft_count + 1"
      using speculative_tokens_greedy(2,3) [OF step(1) v] by simp
    have "minimum_tokens - length (sp_tokens ?report) < minimum_tokens - length ?ts" "length (sp_tokens ?report) \<le> context_tokens"
      using some True bound room by (auto simp: neq_Nil_conv)
    from less.hyps [OF this(1) inv this(2)] show ?thesis
      using True step(1) by (subst speculative_rounds.simps) simp
  qed
qed

lemma speculative_sessions_pass:
  assumes dev: "succeeding bound dev" "bound \<le> tokenizer_vocabulary_size" "runs_model dev model R"
    and memory: "R [] sp dp" "R [] se ds"
    and drafts: "0 < draft_count" "draft_count < kMaximumBlock" and room: "minimum_tokens + draft_count + 1 \<le> context_tokens"
    and token: "t < tokenizer_vocabulary_size"
    and sp: "launchable sp" "graphs_ready sp" "ss_current_position sp = 0" "ss_mtp_position sp = 0" "\<not> ss_mtp_chain_active sp"
      "dc_maximum_context_tokens (ss_config sp) = context_tokens"
    and se: "launchable se" "graphs_ready se" "ss_current_position se = 0" "\<not> ss_mtp_chain_active se"
      "dc_maximum_context_tokens (ss_config se) = context_tokens"
  shows "\<exists>report. speculative_sessions dev t draft_count minimum_tokens sp dp se ds = Passed report
    \<and> sp_tokens report = continuation model [t] (length (sp_tokens report)) \<and> minimum_tokens \<le> length (sp_tokens report)"
proof -
  have small: "t < vocabulary_size" "bound \<le> vocabulary_size"
    using token dev(2) by (simp_all add: tokenizer_vocabulary_size_def vocabulary_size_def)
  have start: "ss_current_position sp < dc_maximum_context_tokens (ss_config sp)"
    using sp(3,6) room by simp
  obtain x s1 d1 where first: "greedy_step dev sp t dp = (Inr x, s1, d1)" "x < bound" "ready True s1" "ss_config s1 = ss_config sp"
    "ss_current_position s1 = ss_current_position sp + 1"
    using ready_greedy [OF dev(1) sp(1,2,5) _ start small(1), of True dp] sp(3,4) by auto
  let ?report = "\<lparr> sp_tokens = [x], sp_proposed = 0, sp_accepted = 0, sp_rounds = 0 \<rparr>"
  have "x = model [t] \<and> R [t] s1 d1"
    using runs_modelD(1) [OF dev(3) memory(1) first(1)] by simp
  then have inv: "speculated bound model R t context_tokens ?report x s1 d1"
    using first(2-5) sp(3,6) by (simp add: speculated_def)
  obtain report where report: "speculative_rounds dev draft_count minimum_tokens ?report x s1 d1 = Inr report"
    "sp_tokens report = continuation model [t] (length (sp_tokens report))" "minimum_tokens \<le> length (sp_tokens report)"
    "length (sp_tokens report) \<le> context_tokens"
    using speculative_rounds_pass [OF dev drafts _ inv, of minimum_tokens] room by auto
  have serial_room: "ss_current_position se + length (sp_tokens report) \<le> dc_maximum_context_tokens (ss_config se)"
    using se(3,5) report(4) by simp
  obtain xs s2 d2 where serial: "decode_tokens dev (length (sp_tokens report)) t se ds = (Inr xs, s2, d2)"
    using decode_tokens_progress [OF dev(1) small(2) se(1,2,4) small(1) serial_room, of ds] by blast
  have "xs = sp_tokens report"
    using decode_tokens_greedy [OF dev(3) memory(2) serial] report(2) by simp
  then show ?thesis
    using first(1) report serial by (auto simp: speculative_sessions_def)
qed



section \<open>Arguments\<close>

lemma digits_number: "takeWhile is_digit (to_string n) = to_string n" "takeWhile is_space (to_string n) = []"
  "dropWhile is_space (to_string n) = to_string n" "hd (to_string n) \<noteq> CHR ''-''" "hd (to_string n) \<noteq> CHR ''+''"
proof -
  have digits: "list_all is_digit (to_string n)"
    by (rule to_string_digits)
  then show "takeWhile is_digit (to_string n) = to_string n"
    by (simp add: takeWhile_eq_all_conv list_all_iff)
  obtain c cs where c: "to_string n = c # cs" "is_digit c"
    using to_string_nonempty [of n] digits by (cases "to_string n") auto
  have "c \<noteq> CHR ''-''" "c \<noteq> CHR ''+''" "\<not> is_space c"
    using c(2) by (auto simp: is_digit_def is_space_def char_in_def)
  then show "takeWhile is_space (to_string n) = []" "dropWhile is_space (to_string n) = to_string n"
    "hd (to_string n) \<noteq> CHR ''-''" "hd (to_string n) \<noteq> CHR ''+''"
    by (simp_all add: c(1))
qed

lemma stoull_to_string:
  assumes "n \<le> max_u64"
  shows "stoull (to_string n) = Some (of_nat n, length (to_string n))"
    "stoull (CHR ''-'' # to_string n) = Some (- of_nat n, length (to_string n) + 1)"
  using assms by (simp_all add: stoull_def Let_def of_digits_to_string digits_number is_space_def [of "CHR ''-''"] char_in_def)

text \<open>
  The sizes of the command line: the decimal text of a number that is not zero and fits 64 bits is
  that number; with a minus sign it is accepted too, as the number that its negation wraps to.
\<close>

lemma parse_positive_numbers:
  assumes "0 < n" "n \<le> max_u64"
  shows "parse_positive (to_string n) = Some (of_nat n)" "parse_positive (CHR ''-'' # to_string n) = Some (of_nat (2 ^ 64 - n))"
proof -
  have n: "n < 2 ^ 64"
    using assms(2) by (simp add: max_u64_def)
  have positive: "(of_nat n :: u64) \<noteq> 0"
    using assms(1) n by (simp add: word_of_nat_eq_0_iff nat_dvd_not_less)
  have wrapped: "- (of_nat n :: u64) = of_nat (2 ^ 64 - n)"
  proof -
    have "of_nat (2 ^ 64 - n) + (of_nat n :: u64) = of_nat (2 ^ 64)"
      using n by (simp only: of_nat_add [symmetric] le_add_diff_inverse2 less_imp_le)
    also have "\<dots> = 0"
      by (simp add: word_of_nat_eq_0_iff)
    finally show ?thesis
      by (simp add: eq_neg_iff_add_eq_0 [symmetric])
  qed
  show "parse_positive (to_string n) = Some (of_nat n)"
    using positive by (simp add: parse_positive_def stoull_to_string [OF assms(2)])
  show "parse_positive (CHR ''-'' # to_string n) = Some (of_nat (2 ^ 64 - n))"
    using positive by (simp only: parse_positive_def stoull_to_string [OF assms(2)] wrapped option.case prod.case)
      (simp add: wrapped [simplified, symmetric])
qed

text \<open>Every size of a benchmark is positive.\<close>

lemma bench_values_positive:
  "bench_values_of name sizes has_mode args vs = Inr vs' \<Longrightarrow> \<forall>n \<in> set sizes. bv_size vs n \<noteq> 0 \<Longrightarrow>
    \<forall>n \<in> set sizes. bv_size vs' n \<noteq> 0"
  by (induction name sizes has_mode args vs rule: bench_values_of.induct)
    (auto simp: parse_positive_def split: option.splits if_splits prod.splits)

lemma bench_command_values:
  assumes "bench_command name sizes has_mode out complaint f argv = c" "\<And>e. c \<noteq> Complain_Command e" "c \<noteq> Usage_Command"
    and "list_all (\<lambda>(n, v). v \<noteq> 0) sizes"
  obtains vs where "c = f (argv ! 2) vs" "\<not> out vs" "\<And>n. n \<in> set (map fst sizes) \<Longrightarrow> bv_size vs n \<noteq> 0"
proof -
  obtain vs where v: "bench_values_of name (map fst sizes) has_mode (drop 3 argv) (bench_defaults sizes) = Inr vs"
    "\<not> out vs" "c = f (argv ! 2) vs"
    using assms(1-3) by (auto simp: bench_command_def split: if_splits sum.splits)
  have "\<forall>n \<in> set (map fst sizes). bv_size (bench_defaults sizes) n \<noteq> 0"
  proof
    fix n assume "n \<in> set (map fst sizes)"
    then obtain v where "map_of sizes n = Some v"
      by (metis image_set map_of_eq_None_iff option.exhaust)
    then show "bv_size (bench_defaults sizes) n \<noteq> 0"
      using assms(4) by (auto simp: bench_defaults_def list_all_iff dest!: map_of_SomeD)
  qed
  from bench_values_positive [OF v(1) this] show ?thesis
    using that v(2,3) by blast
qed

lemma speculative_command_range:
  assumes "speculative_command argv = Speculative_Command path token drafts minimum context_tokens mode"
  shows "token < of_nat tokenizer_vocabulary_size \<and> 0 < drafts \<and> drafts \<le> 31 \<and> minimum + drafts + 1 \<le> context_tokens
    \<and> context_tokens \<le> of_nat kMaximumContextTokens"
proof (rule bench_command_values [OF assms [unfolded speculative_command_def]], goal_cases)
  case (4 vs)
  have "bv_size vs ''--drafts'' \<noteq> 0"
    by (rule 4(3)) simp
  then show ?case
    using 4(1,2) by (simp add: not_le not_less word_neq_0_conv)
qed simp_all


text \<open>
  C39. The speculative benchmark passes: with the arguments that the command accepts, on a resident,
  scaled model and a device that succeeds and runs a model, the comparison of the speculative stream
  with serial decoding finds no difference, and the stream is the model's greedy continuation, at
  least as long as asked for. The sizes are those of a command line whose token count is not within
  32 of \<open>2 ^ 64\<close>.
\<close>

theorem speculative_bench_passes:
  assumes "speculative_command argv = Speculative_Command path token drafts minimum context_tokens mode" "unat minimum + 32 < 2 ^ 64"
    and model: "scaled_model en" "serves_model en"
    and dev: "succeeding bound dev" "bound \<le> tokenizer_vocabulary_size" "runs_model dev model R"
    and speculative: "session_create rt en ((plain_config (unat context_tokens) mode)\<lparr>dc_graph_verifier_batch := unat drafts + 1\<rparr>) g
      = (Inr (sp, op), g1)" "R [] sp dp"
    and serial: "session_create rt en (plain_config (unat context_tokens) mode) g1 = (Inr (se, os), g2)" "R [] se ds"
  shows "\<exists>report. speculative_sessions dev (unat token) (unat drafts) (unat minimum) sp dp se ds = Passed report
    \<and> sp_tokens report = continuation model [unat token] (length (sp_tokens report)) \<and> unat minimum \<le> length (sp_tokens report)"
proof -
  note range = speculative_command_range [OF assms(1)]
  have drafts: "0 < unat drafts" "unat drafts < kMaximumBlock" "unat drafts \<le> 31"
    using range by (auto simp: word_less_nat_alt word_le_nat_alt kMaximumBlock_def)
  have token: "unat token < tokenizer_vocabulary_size"
    using range by (simp add: word_less_nat_alt tokenizer_vocabulary_size_def)
  have sum: "unat (minimum + drafts + 1) = unat minimum + unat drafts + 1"
    using assms(2) drafts(3) by (simp add: unat_word_ariths)
  have room: "unat minimum + unat drafts + 1 \<le> unat context_tokens"
    using range by (simp only: word_le_nat_alt sum)
  note sp = created_session_ready [OF model speculative(1)] and se = created_session_ready [OF model serial(1)]
  show ?thesis
    by (rule speculative_sessions_pass [OF dev speculative(2) serial(2) drafts(1,2) room token])
      (use sp se in \<open>simp_all add: plain_config_def\<close>)
qed

text \<open>
  C37. \<open>generate\<close> completes on every prompt that fits: on a device that succeeds and runs a model, a
  session created with the arguments that the command accepts prints the model's greedy continuation
  of the prompt, cut after its first terminal token or at the limit, at every number of drafts.
\<close>

theorem cli_generate_completes:
  assumes model: "scaled_model en" "serves_model en"
    and dev: "succeeding bound dev" "decodable tk bound" "bound \<le> tokenizer_vocabulary_size" "runs_model dev model R"
    and drafts: "drafts \<le> 31" and prompt: "valid_tokens tokens" "0 < maximum" "length tokens + maximum \<le> context_tokens"
    and created: "session_create rt en
        ((plain_config context_tokens mode)\<lparr>dc_graph_verifier_batch := (if drafts = 0 then 0 else drafts + 1)\<rparr>) g = (Inr (s, offsets), g1)"
      "R [] s d"
  shows "\<exists>r. cli_generate_session dev tk maximum drafts tokens s d = Passed r
    \<and> cl_generated (cr_state r) = until_terminal (continuation model tokens maximum)
    \<and> tokenizer_decode tk (cl_generated (cr_state r)) = Inr (cr_text r)"
proof -
  note s = created_session_ready [OF model created(1)]
  have small: "drafts < kMaximumBlock"
    using drafts by (simp add: kMaximumBlock_def)
  have "\<exists>r. cli_generate_session dev tk maximum drafts tokens s d = Passed r"
    by (rule cli_session_progress [OF dev(1-3) small prompt(1)]) (use s prompt(2,3) in \<open>simp_all add: plain_config_def\<close>)
  then obtain r where r: "cli_generate_session dev tk maximum drafts tokens s d = Passed r"
    by blast
  have "tokens \<noteq> []"
    using prompt(1) by (simp add: valid_tokens_def)
  then show ?thesis
    using cli_session_greedy [OF r dev(4) created(2) _ prompt(2)] r by blast
qed

text \<open>The prompt of the tool is the server's prompt of one message of the user.\<close>

lemma cli_rendered_is_served: "cli_rendered prompt = render [(''user'', prompt)]"
  by (simp add: cli_rendered_def render_def render_message_def)

lemma until_terminal_shape:
  "(\<not> list_ex terminal_token ts \<and> until_terminal ts = ts)
    \<or> (\<exists>as t bs. ts = as @ t # bs \<and> list_all (\<lambda>t. \<not> terminal_token t) as \<and> terminal_token t \<and> until_terminal ts = as @ [t])"
  (is "_ \<or> ?stops ts")
proof (induction ts)
  case (Cons u us)
  show ?case
  proof (cases "terminal_token u")
    case True
    then have "?stops (u # us)"
      by (intro exI [of _ "[]"] exI [of _ u] exI [of _ us]) simp
    then show ?thesis ..
  next
    case False
    with Cons.IH show ?thesis
    proof (elim disjE exE conjE)
      fix as t bs
      assume "us = as @ t # bs" "list_all (\<lambda>t. \<not> terminal_token t) as" "terminal_token t" "until_terminal us = as @ [t]"
      with False have "?stops (u # us)"
        by (intro exI [of _ "u # as"] exI [of _ t] exI [of _ bs]) simp
      then show ?thesis ..
    qed simp
  qed
qed simp

lemma decode_last_token:
  assumes "tokenizer_decode tk (as @ [t]) = Inr whole" "tokenizer_decode tk as = Inr part"
  shows "\<exists>piece. decode_token tk t = Inr piece \<and> whole = part @ piece"
proof -
  have "result_all f (as @ [t]) = Inr ws \<Longrightarrow> result_all f as = Inr ps \<Longrightarrow> \<exists>w. f t = Inr w \<and> ws = ps @ [w]"
    for f :: "nat \<Rightarrow> string result" and ws ps
    by (induction as arbitrary: ws ps) (auto split: sum.splits)
  then show ?thesis
    using assms by (fastforce simp: tokenizer_decode_def)
qed

text \<open>
  C38. The tool and the server answer alike: on a device that runs a model, \<open>generate\<close> and a generation
  of the server, with any numbers of drafts, produce the same number of tokens from the same prompt
  and limit; the tool prints the text of the server's answer, followed by the text of the terminal
  token when there is one, which the server leaves out.
\<close>

theorem tool_answers_like_the_server:
  assumes "cli_generate_session dev tk maximum drafts tokens s d = Passed r"
    and "generate_session dev tk options maximum on_text tokens s1 d1 k = (Inr r1, s2, d2, k2)" "gr_client_connected r1"
    and "runs_model dev model R" "R [] s d" "R [] s1 d1" "tokens \<noteq> []" "0 < maximum"
  shows "length (cl_generated (cr_state r)) = gr_completion_tokens r1
    \<and> (if gr_stopped r1 then \<exists>t piece. terminal_token t \<and> decode_token tk t = Inr piece \<and> cr_text r = gr_text r1 @ piece
       else cr_text r = gr_text r1)"
proof -
  let ?answer = "until_terminal (continuation model tokens maximum)"
  have tool: "cl_generated (cr_state r) = ?answer" "tokenizer_decode tk ?answer = Inr (cr_text r)"
    using cli_session_greedy [OF assms(1,4,5,7,8)] by metis+
  have server: "gr_completion_tokens r1 = length ?answer" "gr_stopped r1 = list_ex terminal_token ?answer"
    "tokenizer_decode tk (filter (\<lambda>t. \<not> terminal_token t) ?answer) = Inr (gr_text r1)"
    using generate_session_greedy [OF assms(2,4,6,7,8,3)] by (simp_all add: Let_def)
  show ?thesis
    using until_terminal_shape [of "continuation model tokens maximum"]
  proof (elim disjE exE conjE)
    assume "\<not> list_ex terminal_token (continuation model tokens maximum)" "?answer = continuation model tokens maximum"
    then have "\<not> list_ex terminal_token ?answer" "filter (\<lambda>t. \<not> terminal_token t) ?answer = ?answer"
      by (auto simp: filter_id_conv list_ex_iff)
    then show ?thesis
      using tool server by simp
  next
    fix as t bs
    assume as: "list_all (\<lambda>t. \<not> terminal_token t) as" "terminal_token t" "?answer = as @ [t]"
    have "filter (\<lambda>t. \<not> terminal_token t) ?answer = as"
      using as by (simp add: filter_id_conv list_all_iff)
    then obtain piece where "decode_token tk t = Inr piece" "cr_text r = gr_text r1 @ piece"
      using decode_last_token [of tk as t] tool(2) server(3) as(3) by auto
    then show ?thesis
      using tool(1) server(1,2) as(2,3) by auto
  qed
qed


section \<open>The properties at a concrete input\<close>

definition sample_speculative :: "string list" where
  "sample_speculative = [''gfxinfer'', ''spec-bench'', ''m.gfxi'', ''--drafts'', ''2'', ''--tokens'', ''9'', ''--context'', ''64'']"

lemmas argument_evaluation =
  speculative_command_def block_command_def mtp_command_def bench_command_def wrong_count_def bench_defaults_def parse_positive_def stoull_def is_space_def is_digit_def
  char_in_def of_digits_def digit_value_def max_u64_def tokenizer_vocabulary_size_def kMaximumContextTokens_def Let_def

text \<open>The range checks wrap: a negative number of blocks or tokens passes them.\<close>

lemma negative_sizes_pass:
  "block_command [''gfxinfer'', ''block-bench'', ''m.gfxi'', ''--blocks'', ''-1''] = Block_Command ''m.gfxi'' 248044 8 (- 1) 128 fp16"
  "speculative_command [''gfxinfer'', ''spec-bench'', ''m.gfxi'', ''--tokens'', ''-1'']
    = Speculative_Command ''m.gfxi'' 248044 3 (- 1) 128 fp16"
  "mtp_command [''gfxinfer'', ''mtp-bench'', ''m.gfxi'', ''--steps'', ''-1''] = Mtp_Command ''m.gfxi'' 248044 (- 1) 512 fp16"
  by (simp_all add: argument_evaluation)

text \<open>The blocks and the steps then end the process, whatever the allocator has.\<close>

lemma negative_sizes_throw:
  "throwing allocates (block_command [''gfxinfer'', ''block-bench'', ''m.gfxi'', ''--blocks'', ''-1''])"
  "throwing allocates (mtp_command [''gfxinfer'', ''mtp-bench'', ''m.gfxi'', ''--steps'', ''-1''])"
  by (simp_all add: negative_sizes_pass throwing_def reserve_throws_def unsigned_minus_1_eq_mask mask_eq_exp_minus_1)

lemma sample_speculative_parses:
  "speculative_command sample_speculative = Speculative_Command ''m.gfxi'' 248044 2 9 64 fp16"
  by (simp add: sample_speculative_def argument_evaluation)

theorem speculative_bench_passes_witness:
  "\<exists>sp se report. speculative_sessions answering_device 248044 2 9 sp () se () = Passed report
    \<and> sp_tokens report = continuation (\<lambda>h. 2) [248044] (length (sp_tokens report)) \<and> 9 \<le> length (sp_tokens report)"
proof -
  let ?drafting = "(plain_config (unat (64 :: u64)) fp16)\<lparr>dc_graph_verifier_batch := unat (2 :: u64) + 1\<rparr>"
  obtain sp offsets g1 where sp: "session_create sample_create model_engine ?drafting sample_gpu = (Inr (sp, offsets), g1)"
    using sample_config_created [of ?drafting sample_gpu] by (auto simp: plain_config_def)
  obtain se offsets' g2 where se: "session_create sample_create model_engine (plain_config (unat (64 :: u64)) fp16) g1 = (Inr (se, offsets'), g2)"
    using sample_config_created [of "plain_config (unat (64 :: u64)) fp16" g1] by (auto simp: plain_config_def)
  have small: "unat (9 :: u64) + 32 < 2 ^ 64" "(4 :: nat) \<le> tokenizer_vocabulary_size"
    by (simp_all add: tokenizer_vocabulary_size_def)
  have "\<exists>report. speculative_sessions answering_device (unat (248044 :: u64)) (unat (2 :: u64)) (unat (9 :: u64)) sp () se () = Passed report
    \<and> sp_tokens report = continuation (\<lambda>h. 2) [unat (248044 :: u64)] (length (sp_tokens report)) \<and> unat (9 :: u64) \<le> length (sp_tokens report)"
    by (rule speculative_bench_passes [OF sample_speculative_parses small(1) sample_scaled model_engine_serves answering_succeeds small(2)
          answering_runs sp TrueI se TrueI])
  then show ?thesis
    by auto
qed

lemma sample_tool_config:
  "(plain_config 64 fp16)\<lparr>dc_graph_verifier_batch := (if 2 = (0 :: nat) then 0 else 2 + 1)\<rparr> = session_config sample_options"
  by (simp add: plain_config_def session_config_def sample_options_def default_options_def)

theorem cli_generate_completes_witness:
  "\<exists>s r. cli_generate_session answering_device sample_tokenizer 5 2 [2, 3] s () = Passed r
    \<and> cl_generated (cr_state r) = [2, 2, 2, 2, 2] \<and> cr_text r = ''ababababab''"
proof -
  obtain s offsets g1 where s: "session_create sample_create model_engine (session_config sample_options) sample_gpu = (Inr (s, offsets), g1)"
    using sample_serving_created by blast
  have small: "(4 :: nat) \<le> tokenizer_vocabulary_size" "(2 :: nat) \<le> 31" "(0 :: nat) < 5" "length [2 :: nat, 3] + 5 \<le> 64"
    by (simp_all add: tokenizer_vocabulary_size_def)
  have five: "until_terminal (continuation (\<lambda>h. 2) [2, 3] 5) = [2, 2, 2, 2, 2]"
  proof -
    have five: "5 = Suc (Suc (Suc (Suc (Suc 0))))"
      by simp
    show ?thesis
      unfolding five by (simp add: terminal_token_def kEndToken_def kEndOfTextToken_def)
  qed
  have decoded: "tokenizer_decode sample_tokenizer [2, 2, 2, 2, 2] = Inr ''ababababab''"
    by (simp add: tokenizer_decode_def sample_pieces)
  have "\<exists>r. cli_generate_session answering_device sample_tokenizer 5 2 [2, 3] s () = Passed r
    \<and> cl_generated (cr_state r) = until_terminal (continuation (\<lambda>h. 2) [2, 3] 5)
    \<and> tokenizer_decode sample_tokenizer (cl_generated (cr_state r)) = Inr (cr_text r)"
    by (rule cli_generate_completes [OF sample_scaled model_engine_serves answering_succeeds sample_decodable small(1)
          answering_runs small(2) sample_valid small(3,4) s [folded sample_tool_config] TrueI])
  then obtain r where r: "cli_generate_session answering_device sample_tokenizer 5 2 [2, 3] s () = Passed r"
    "cl_generated (cr_state r) = [2, 2, 2, 2, 2]" "tokenizer_decode sample_tokenizer (cl_generated (cr_state r)) = Inr (cr_text r)"
    unfolding five by blast
  have "cr_text r = ''ababababab''"
    using r(3) by (simp only: r(2) decoded sum.inject)
  with r(1,2) show ?thesis
    by blast
qed

theorem tool_answers_like_the_server_witness:
  "\<exists>s r r1 s2. cli_generate_session answering_device sample_tokenizer 5 2 [2, 3] s () = Passed r
    \<and> generate_session answering_device sample_tokenizer sample_options 5 None [2, 3] s () () = (Inr r1, s2, (), ())
    \<and> length (cl_generated (cr_state r)) = gr_completion_tokens r1"
proof -
  obtain s offsets g1 where s: "session_create sample_create model_engine (session_config sample_options) sample_gpu = (Inr (s, offsets), g1)"
    using sample_serving_created by blast
  note ready = created_session_ready [OF sample_scaled model_engine_serves s]
  have config: "dc_maximum_context_tokens (session_config sample_options) = 64"
    by (simp add: session_config_def sample_options_def default_options_def)
  obtain r where r: "cli_generate_session answering_device sample_tokenizer 5 2 [2, 3] s () = Passed r"
    using cli_session_progress [OF answering_succeeds sample_decodable _ _ sample_valid, of 2 s 5 "()"] ready config
    by (auto simp: tokenizer_vocabulary_size_def kMaximumBlock_def)
  have serving: "sv_device (sample_serving answering_device) = answering_device" "sv_tokenizer (sample_serving answering_device) = sample_tokenizer"
    "sv_options (sample_serving answering_device) = sample_options" "so_context sample_options = 64"
    by (simp_all add: sample_serving_def sample_options_def)
  obtain r1 s2 where r1: "generate_session answering_device sample_tokenizer sample_options 5 None [2, 3] s () () = (Inr r1, s2, (), ())"
    using generate_session_progress [OF sample_able [OF answering_succeeds] sample_valid, of s 5 None "()" "()"] ready by (auto simp: serving)
  have "length (cl_generated (cr_state r)) = gr_completion_tokens r1"
    using tool_answers_like_the_server [OF r r1 silent_session_connected [OF r1] answering_runs TrueI TrueI] by simp
  with r r1 show ?thesis
    by blast
qed

text \<open>The artifact of the sample engine, loaded with the configuration of the tool.\<close>

definition sample_host :: "unit host" where
  "sample_host = \<lparr> ho_hip = sample_hip, ho_json = sample_simdjson, ho_libraries = sample_libraries, ho_runtime = sample_create,
     ho_device = answering_device, ho_access = (\<lambda>path. Mapped sample_file), ho_memory = (\<lambda>n. ()), ho_allocates = (\<lambda>n. True) \<rparr>"

lemma sample_loads:
  "\<exists>en g'. engine_create sample_hip (cli_engine_config ''a.gfxi'') (Mapped sample_file) g = (Inr en, g')"
proof -
  have "base_architecture ''gfx1200:xnack-'' = ''gfx1200''"
    by (simp add: base_architecture_def is_prefix_def)
  then have "require_gfx1200_device sample_hip 0 = Inr (device_of 0 sample_device)"
    by (simp add: require_gfx1200_device_def enumerate_devices_def enumerate_device_def sample_hip_def
        hip_success_def device_of_def sample_device_def kRequiredArchitecture_def)
  then obtain config' where prep: "engine_prepare sample_hip (cli_engine_config ''a.gfxi'') (Mapped sample_file)
      = Inr (device_of 0 sample_device, sample_view, config')"
    and budget: "ec_memory_budget_bytes config' = 0x3E0000000" "ec_upload_weights config'"
    using sample_opened(1) sample_view_identity
    by (simp add: engine_prepare_def check_engine_config_def cli_engine_config_def server_engine_config_def check_identity_def
        sample_identity_def kRequiredArchitecture_def kModelId_def set_budget_def device_of_def sample_device_def Let_def)
  obtain p where place: "result_foldl place_resident (0, []) (av_tensors sample_view) = Inr (257, [p])"
    using sample_placed by (auto simp: length_Suc_conv)
  show ?thesis
    by (simp add: engine_create_def prep place budget engine_upload_def sample_hip_answers hip_success_def Let_def
        upload_tensor_def upload_copy_def)
qed

theorem tool_releases_witness:
  "\<exists>env tests g'. tool_main sample_host env tests [''gfxinfer'', ''load-check'', ''a.gfxi''] sample_gpu empty_fs = Some (0, g', empty_fs)
    \<and> g' = sample_gpu"
proof -
  obtain en g1 where "engine_create sample_hip (cli_engine_config ''a.gfxi'') (Mapped sample_file) sample_gpu = (Inr en, g1)"
    using sample_loads by blast
  then have load: "load_check sample_hip (Mapped sample_file) ''a.gfxi'' sample_gpu = (Passed (en_summary en), engine_destroy en g1)"
    by (simp add: load_check_def with_engine_def)
  have parsed: "parse_command [''gfxinfer'', ''load-check'', ''a.gfxi''] = Load_Command ''a.gfxi''"
    by (simp add: parse_command_def with_path_def)
  have run: "tool_main sample_host env tests [''gfxinfer'', ''load-check'', ''a.gfxi''] sample_gpu empty_fs
      = Some (0, engine_destroy en g1, empty_fs)" for env tests
    by (simp add: tool_main_def parsed run_command_def on_device_def sample_host_def load)
  have "\<not> kernel_test (parse_command [''gfxinfer'', ''load-check'', ''a.gfxi''])"
    by (simp add: parsed kernel_test_def)
  from tool_releases [OF this run] have "engine_destroy en g1 = sample_gpu"
    by simp
  with run show ?thesis
    by simp
qed

end
