(* ===== verification/Spec2Isabelle.thy ===== *)
theory Spec2Isabelle
  imports ArtifactStream MappedFiles Quantization Tokenizer DraftHead Convert SessionProps CliProps
begin

text \<open>
  A verification library for \<^verbatim>\<open>gfxinfer\<close>, an inference engine for one model (Qwen3.8-27B, group-128
  weights of two to four bits) on one GPU (gfx1200). Paths below are those of the repository.

  \<^bold>\<open>The program.\<close> A converter reads a safetensors checkpoint, quantizes its matrices and writes one
  \<^verbatim>\<open>.gfxi\<close> artifact. The engine opens the artifact, verifies it and copies every tensor into one arena
  of device memory. A decode session binds the tensors by name, reserves its own arena and runs the
  64 layers and the proposal layer (MTP) as sequences of kernel launches: one token (\<open>greedy_step\<close>), a block
  (\<open>block_step\<close>), a draft (\<open>mtp_draft\<close>), or a speculative round (\<open>speculative_step\<close>), which drafts
  tokens, verifies them in one block, commits the accepted prefix and restores the recurrent states
  when a draft was rejected. The server and the command-line tool encode a prompt, drive a session
  and decode its tokens.

  \<^bold>\<open>Theories and sources.\<close>

  \<^item> Prelude, ByteCodec, Strings: \<open>Status\<close> and \<open>Result\<close> (\<^verbatim>\<open>include/gfxinfer/status.h\<close>), the widths of the machine
    integers, \<open>std::to_string\<close>, \<open>std::string\<close> operations, sorted lookup. A fallible function returns
    \<open>status + 'a\<close>, every early return is a branch. The locales: \<open>fixed_codec\<close> (what a fixed-width encoding
    promises, interpreted for the integers and the two packed structs of the artifact), \<open>name_table\<close> (lookup
    by name in a sorted table, interpreted for the specification, the safetensors files and the resident
    tensors), \<open>byte_alphabet\<close> (the reversible byte alphabet of the tokenizer), \<open>device_scope\<close> (what a function
    that holds an allocation of the device until it returns rests on, interpreted for engines and sessions).
  \<^item> Crc64, ArtifactFormat, ArtifactRead, PosixIO, ArtifactWrite, ArtifactStream: \<^verbatim>\<open>src/artifact.cpp\<close>. The
    file system is a map from paths to contents; the answers of the kernel (short writes, interruptions,
    errors) are lists that the loops consume, one answer for a call.
  \<^item> MappedFiles: the descriptors and mappings that \<open>ArtifactView\<close> and \<open>SafeTensorFile\<close> own, with \<open>reset\<close>, the
    destructors and the moves, as a step relation on the objects of a program.
  \<^item> Ieee, Quantization: \<^verbatim>\<open>src/quantization.cpp\<close>, over an executable model of binary floating point
    (\<open>float\<close> and \<open>double\<close> are rationals, infinities and NaN, with rounding to nearest even).
  \<^item> Qwen38Spec, Safetensors, ConvertPlan, Convert, DraftHead: \<^verbatim>\<open>src/qwen38_spec.cpp\<close>,
    \<^verbatim>\<open>src/safetensors.cpp\<close> and \<^verbatim>\<open>src/converter.cpp\<close>.
  \<^item> Tokenizer: \<^verbatim>\<open>src/tokenizer.cpp\<close>.
  \<^item> Device, Engine: \<^verbatim>\<open>src/device.cpp\<close> and \<^verbatim>\<open>src/engine.cpp\<close>.
  \<^item> Kernels, Runtime, SessionCreate, Session: \<^verbatim>\<open>src/qwen_runtime.cpp\<close>. A session is a record of the fields
    of \<open>Impl\<close>; a step is its program of device calls, built as the code issues them, and its changes of
    the record. Kernels lists for every operation of \<^verbatim>\<open>include/gfxinfer/lowbit_gemv.h\<close> and
    \<^verbatim>\<open>include/gfxinfer/qwen_ops.h\<close> the argument checks and the elements that it reads and writes.
  \<^item> MemorySafety, SessionSafety, SessionRun, SessionBind, GraphReplay, Launching, SessionProps: the theorems on
    sessions.
  \<^item> HttpServer, Generate, Server: \<^verbatim>\<open>src/server/main.cpp\<close>; HttpParse, GenerateLive, GenerateProps, Streaming,
    JsonText, ServerRequests, ServerProps: the theorems on the server.
  \<^item> CliArguments, CliCommands, CliProps: \<^verbatim>\<open>src/cli/main.cpp\<close> without the tests of single kernels.

  \<^bold>\<open>What is shown.\<close> Claims are numbered C1 to C40 in the theories.

  \<^item> Files: what a writer reports as written opens again to what was asked for, for both writers and
    any interleaving of appends; an opened file is inside its bounds, aligned and disjoint; corruption of the
    payload is detected; a failed write leaves the file system as it was, or at most its temporary file when it
    cannot be unlinked; every opened descriptor and mapping has
    one owner and is released once. The CRC is polynomial division.
  \<^item> Numbers: quantizing and reading back gives the chosen level times the scale of the group, the level
    is a nearest one, and the tiling keeps every code and scale. The size products wrap at 64 bits as in the code.
  \<^item> Conversion: the inventory check accepts exactly the expected names; the converted artifact holds
    the bytes of the sources or their quantization; the ranked draft head has the best rows.
  \<^item> Text: encoding ends and decoding gives back the text with its segments in NFC; loading takes the piece of
    every identifier from the document and keeps the identifiers in range.
  \<^item> Engine: the arena holds the artifact's tensors within the configured budget, lookup finds them, and
    every path gives back what it allocated.
  \<^item> Sessions: the arena's layout; no sequence of steps reads an element before it was written or
    leaves a region, whatever the device answers, for tiled recipes or activations of eight or more bits
    (with four-bit activations on an untiled recipe the code reads unwritten memory); a speculative step returns
    what greedy decoding returns; the graph that a session replays launches what direct launches would; on a device that succeeds no guard refuses.
  \<^item> Server: a request is read the same however it is cut into segments; accepted options and
    requests are servable, and a request is accepted exactly when its document can be meant; every answer is JSON; every connection is answered completely; a generation is the
    model's greedy continuation, returns, is memory safe and delivers its text unchanged when
    streamed; the accept loop answers the clients that it accepts in order and leaves no allocation behind.
  \<^item> Tool: the commands give back what they allocate, unless a refused \<open>reserve\<close> ends the process, \<open>generate\<close> completes with the greedy continuation and
    agrees with the server, and the speculative benchmark passes.

  The theorems that a model's tokens are produced rest on the contract \<open>runs_model\<close>: a relation between
  the tokens fed so far and the session with its memory, under which a step that succeeds answers the model's
  token. It says of the kernels what their sources, which are GPU code, are meant to compute; nothing in it
  says that a step succeeds, and the samples at the end of GenerateProps give a device that satisfies it.

  \<^bold>\<open>Bounds and fuel.\<close> Loops over data are structural or have a measure. The encoder's cursor loop may not end (an empty
  added token), so it is a partial function to \<open>option\<close>, and the theorem that it returns is stated as
  such. A quantizer, dequantizer or tiling whose wrapped sizes would take it out of its storage has no value
  either (\<open>None\<close>), which dimensions of less than \<open>2 ^ 61\<close> elements exclude. The socket and file loops consume the list of the kernel's answers; the answers after the end
  of a list fail, so a theorem of progress assumes enough of them. The reader of JSON is bounded by the
  length of its text, which every step shortens.

  \<^bold>\<open>Parameters.\<close> HIP, ICU, PCRE2, simdjson, the kernel of the operating system and the conversion of a float
  to half precision are arguments of the definitions. Of NFC
  nothing is assumed. Allocations on the heap do not fail, except the vectors of the
  tool whose length an argument gives without a bound. The result of \<open>unlink\<close> is an answer of the kernel.
  Every session has a device memory of its own, since its arena is a separate
  allocation. The order of operations of one stream is program order; cells that the host writes
  (tokens, positions) are tracked as uploaded words.

  \<^bold>\<open>Not modelled.\<close> The bodies of the GPU kernels (\<^verbatim>\<open>src/kernels\<close>): what they read, write and refuse is
  modelled, what they compute is a parameter. In \<^verbatim>\<open>src/cli/main.cpp\<close>, the tests of single kernels
  (\<open>model_smoke\<close>, \<open>gdn_smoke\<close>, \<open>attention_smoke\<close>, \<open>bench_wmma\<close>, \<open>bench_gemv\<close>), which compare and time device buffers:
  what they answer and leave behind is a parameter of \<open>run_command\<close>, and the claim on the tool excludes them. In the
  commands, clock readings and the layout of the printed text. Logs of the server and signal delivery other
  than the flag it sets. Scripts, tests
  and build files.
\<close>

end
